(* ===== verification/Prelude.thy ===== *)
theory Prelude
  imports Main "HOL-Library.Word" "HOL-Library.Multiset"
begin

text \<open>
  Shared vocabulary of the development: identifiers and clock values, relational tables as lists
  of rows with the four statement shapes the Go code sends to PostgreSQL (SELECT .. WHERE, UPDATE
  .. WHERE, COUNT and INSERT under a unique index), and the lemmas on them that every component
  uses.  \<open>table_simps\<close> collects rewrites on tables, \<open>frame_simps\<close> the facts that an operation
  leaves a table alone, \<open>inv_intros\<close> the preservation lemmas.
\<close>

named_theorems table_simps "rewrites for queries and updates on tables"
named_theorems frame_simps "tables an operation does not write"
named_theorems inv_intros "operations preserve invariants"

section \<open>Identifiers and time\<close>

text \<open>A \<open>uuid.UUID\<close> is sixteen bytes; \<open>uuid.Nil\<close> is the all-zero value.  A \<open>time.Time\<close> is
  its distance from the epoch in nanoseconds; the unit is irrelevant to every definition that
  only compares and adds.\<close>

type_synonym uuid = "128 word"
type_synonym time = int

abbreviation uuid_nil :: uuid where "uuid_nil \<equiv> 0"

abbreviation second :: time where "second \<equiv> 1000000000"
abbreviation minute :: time where "minute \<equiv> 60 * second"

section \<open>Results\<close>

text \<open>A Go function returning \<open>(T, error)\<close> is a sum: \<open>Inl\<close> the error, \<open>Inr\<close> the value.\<close>

definition is_ok :: "'e + 'a \<Rightarrow> bool" where
  "is_ok r = (case r of Inl _ \<Rightarrow> False | Inr _ \<Rightarrow> True)"

lemma is_ok_simps [simp]: "is_ok (Inr x)" "\<not> is_ok (Inl e)"
  by (simp_all add: is_ok_def)

section \<open>Tables\<close>

definition count_where :: "('r \<Rightarrow> bool) \<Rightarrow> 'r list \<Rightarrow> nat" where
  "count_where P t = length (filter P t)"

definition update_where :: "('r \<Rightarrow> bool) \<Rightarrow> ('r \<Rightarrow> 'r) \<Rightarrow> 'r list \<Rightarrow> 'r list" where
  "update_where P f t = map (\<lambda>r. if P r then f r else r) t"

definition exists_where :: "('r \<Rightarrow> bool) \<Rightarrow> 'r list \<Rightarrow> bool" where
  "exists_where P t = list_ex P t"

definition sum_where :: "('r \<Rightarrow> bool) \<Rightarrow> ('r \<Rightarrow> int) \<Rightarrow> 'r list \<Rightarrow> int" where
  "sum_where P g t = sum_list (map g (filter P t))"

lemma exists_where_iff [table_simps]: "exists_where P t \<longleftrightarrow> (\<exists>r \<in> set t. P r)"
  by (auto simp: exists_where_def list_ex_iff)

lemma count_where_Nil [simp]: "count_where P [] = 0"
  by (simp add: count_where_def)

lemma count_where_Cons [simp]:
  "count_where P (r # t) = (if P r then Suc (count_where P t) else count_where P t)"
  by (simp add: count_where_def)

lemma count_where_append [simp]: "count_where P (s @ t) = count_where P s + count_where P t"
  by (simp add: count_where_def)

lemma count_where_0_iff: "count_where P t = 0 \<longleftrightarrow> (\<forall>r \<in> set t. \<not> P r)"
  by (auto simp: count_where_def filter_empty_conv)

lemma count_where_pos_iff: "0 < count_where P t \<longleftrightarrow> (\<exists>r \<in> set t. P r)"
  by (auto simp: count_where_def filter_empty_conv)

lemma update_where_Nil [simp]: "update_where P f [] = []"
  by (simp add: update_where_def)

lemma update_where_Cons [simp]:
  "update_where P f (r # t) = (if P r then f r else r) # update_where P f t"
  by (simp add: update_where_def)

lemma update_where_append [simp]:
  "update_where P f (s @ t) = update_where P f s @ update_where P f t"
  by (simp add: update_where_def)

lemma update_where_id: "\<forall>r \<in> set t. \<not> P r \<Longrightarrow> update_where P f t = t"
  by (induction t) auto

lemma in_set_update_where:
  "r \<in> set (update_where P f t) \<longleftrightarrow>
     (r \<in> set t \<and> \<not> P r) \<or> (\<exists>s \<in> set t. P s \<and> r = f s)"
  by (induction t) auto

lemma map_update_where [table_simps]:
  "(\<And>r. P r \<Longrightarrow> g (f r) = g r) \<Longrightarrow> map g (update_where P f t) = map g t"
  by (induction t) auto

lemma length_update_where [simp]: "length (update_where P f t) = length t"
  by (simp add: update_where_def)

lemma sum_where_Nil [simp]: "sum_where P g [] = 0"
  by (simp add: sum_where_def)

lemma sum_where_Cons [simp]:
  "sum_where P g (r # t) = (if P r then g r else 0) + sum_where P g t"
  by (simp add: sum_where_def)

lemma sum_where_append [simp]: "sum_where P g (s @ t) = sum_where P g s + sum_where P g t"
  by (simp add: sum_where_def)

lemma sum_where_nonneg: "\<forall>r \<in> set t. P r \<longrightarrow> 0 \<le> g r \<Longrightarrow> 0 \<le> sum_where P g t"
  by (induction t) auto

lemma sum_where_member_le:
  assumes "r \<in> set t" "P r" "\<forall>r \<in> set t. P r \<longrightarrow> 0 \<le> g r"
  shows "g r \<le> sum_where P g t"
  using assms
proof (induction t)
  case (Cons a t)
  have "0 \<le> sum_where P g t" using Cons.prems by (intro sum_where_nonneg) auto
  then show ?case using Cons by (cases "r = a") auto
qed simp

subsection \<open>Primary keys\<close>

definition key_distinct :: "('r \<Rightarrow> 'k) \<Rightarrow> 'r list \<Rightarrow> bool" where
  "key_distinct key t = distinct (map key t)"

lemma key_distinct_Nil [simp]: "key_distinct key []"
  by (simp add: key_distinct_def)

lemma key_distinct_append_new:
  "key_distinct key t \<Longrightarrow> key r \<notin> key ` set t \<Longrightarrow> key_distinct key (t @ [r])"
  by (simp add: key_distinct_def)

lemma key_distinct_update [inv_intros]:
  "key_distinct key t \<Longrightarrow> (\<And>r. P r \<Longrightarrow> key (f r) = key r) \<Longrightarrow>
     key_distinct key (update_where P f t)"
  by (simp add: key_distinct_def map_update_where)

lemma key_distinct_filter [inv_intros]:
  "key_distinct key t \<Longrightarrow> key_distinct key (filter P t)"
  by (simp add: key_distinct_def distinct_map_filter)

lemma key_unique:
  "key_distinct key t \<Longrightarrow> r \<in> set t \<Longrightarrow> s \<in> set t \<Longrightarrow> key r = key s \<Longrightarrow> r = s"
  by (auto simp: key_distinct_def distinct_map inj_on_def)

text \<open>A row selected by its primary key splits the table; updating it touches that row alone.\<close>

lemma key_split:
  assumes "key_distinct key t" "r \<in> set t"
  obtains xs ys where "t = xs @ r # ys"
    and "\<And>s. s \<in> set xs \<union> set ys \<Longrightarrow> key s \<noteq> key r"
proof -
  from assms(2) obtain xs ys where t: "t = xs @ r # ys"
    by (meson split_list)
  moreover have "\<And>s. s \<in> set xs \<union> set ys \<Longrightarrow> key s \<noteq> key r"
    using assms(1) unfolding t key_distinct_def by (auto simp: image_iff)
  ultimately show thesis by (rule that)
qed

lemma update_key_split:
  assumes "key_distinct key t" "r \<in> set t"
  obtains xs ys where "t = xs @ r # ys"
    and "update_where (\<lambda>s. key s = key r \<and> Q s) f t = xs @ (if Q r then f r else r) # ys"
    and "\<And>s. s \<in> set xs \<union> set ys \<Longrightarrow> key s \<noteq> key r"
proof -
  obtain xs ys where t: "t = xs @ r # ys"
    and other: "\<And>s. s \<in> set xs \<union> set ys \<Longrightarrow> key s \<noteq> key r"
    using key_split [OF assms] by blast
  have "update_where (\<lambda>s. key s = key r \<and> Q s) f xs = xs"
    "update_where (\<lambda>s. key s = key r \<and> Q s) f ys = ys"
    using other by (auto intro!: update_where_id)
  with t other show thesis by (intro that [of xs ys]) auto
qed

lemma sum_where_update_key:
  assumes "key_distinct key t" "r \<in> set t" "key r = k" "\<And>s. key s = k \<Longrightarrow> C s \<longleftrightarrow> Q s"
    and "Q r"
  shows "sum_where P g (update_where (\<lambda>s. key s = k \<and> C s) f t) =
    sum_where P g t - (if P r then g r else 0) + (if P (f r) then g (f r) else 0)"
proof -
  have pred: "(\<lambda>s. key s = k \<and> C s) = (\<lambda>s. key s = key r \<and> C s)" using assms(3) by auto
  obtain xs ys where "t = xs @ r # ys"
    "update_where (\<lambda>s. key s = key r \<and> C s) f t = xs @ (if C r then f r else r) # ys"
    using update_key_split [OF assms(1,2)] by metis
  moreover have "C r" using assms(3-5) by simp
  ultimately show ?thesis unfolding pred by simp
qed

lemma count_where_update_key:
  assumes "key_distinct key t" "r \<in> set t" "key r = k"
  shows "int (count_where P (update_where (\<lambda>s. key s = k) f t)) =
    int (count_where P t) - (if P r then 1 else 0) + (if P (f r) then 1 else 0)"
proof -
  obtain xs ys where "t = xs @ r # ys"
    "update_where (\<lambda>s. key s = key r \<and> True) f t = xs @ f r # ys"
    using update_key_split [OF assms(1,2), of "\<lambda>_. True" f] by (metis (full_types))
  then show ?thesis using assms(3) by simp
qed

lemma sum_where_update_by_key:
  assumes "key_distinct key t" "r \<in> set t" "key r = k"
  shows "sum_where P g (update_where (\<lambda>s. key s = k) f t) =
    sum_where P g t - (if P r then g r else 0) + (if P (f r) then g (f r) else 0)"
  using sum_where_update_key [OF assms(1-3), of "\<lambda>_. True" "\<lambda>_. True" P g f] by simp

lemma find_key_iff:
  "key_distinct key t \<Longrightarrow>
     find (\<lambda>r. key r = k \<and> Q r) t = Some r \<longleftrightarrow> r \<in> set t \<and> key r = k \<and> Q r"
proof (induction t)
  case (Cons a t)
  then show ?case by (auto simp: key_distinct_def)
qed simp

lemma find_by_key:
  "key_distinct key t \<Longrightarrow> find (\<lambda>r. key r = k) t = Some r \<longleftrightarrow> r \<in> set t \<and> key r = k"
  using find_key_iff[of key t k "\<lambda>_. True" r] by simp

lemma find_update_by_key:
  assumes "\<And>r. key (g r) = key r"
  shows "find (\<lambda>r. key r = k) (update_where P g t) =
    map_option (\<lambda>r. if P r then g r else r) (find (\<lambda>r. key r = k) t)"
  by (induction t) (auto simp: assms)

lemma update_where_id_if: "\<forall>r \<in> set t. \<not> P r \<Longrightarrow> update_where P f t = t"
  by (induction t) auto

lemma count_where_by_key:
  assumes "key_distinct key t"
  shows "count_where (\<lambda>r. key r = k \<and> Q r) t =
    (case find (\<lambda>r. key r = k) t of None \<Rightarrow> 0 | Some r \<Rightarrow> if Q r then 1 else 0)"
  using assms
proof (induction t)
  case (Cons a t)
  then have IH: "count_where (\<lambda>r. key r = k \<and> Q r) t =
    (case find (\<lambda>r. key r = k) t of None \<Rightarrow> 0 | Some r \<Rightarrow> if Q r then 1 else 0)"
    by (simp add: key_distinct_def)
  have "find (\<lambda>r. key r = k) t = None" if "key a = k"
    using Cons.prems that unfolding key_distinct_def find_None_iff
    by (metis distinct.simps(2) image_eqI list.simps(9) set_map)
  with IH show ?case by (auto split: option.splits)
qed simp

lemma find_SomeD: "find P t = Some r \<Longrightarrow> r \<in> set t \<and> P r"
  by (auto simp: find_Some_iff)

lemma find_NoneD: "find P t = None \<Longrightarrow> r \<in> set t \<Longrightarrow> \<not> P r"
  by (auto simp: find_None_iff)

lemmas find_dest = find_SomeD [THEN conjunct1] find_SomeD [THEN conjunct2]

subsection \<open>Updates that a query cannot see\<close>

lemma count_where_update_indep:
  "(\<And>r. P r \<Longrightarrow> Q (f r) = Q r) \<Longrightarrow> count_where Q (update_where P f t) = count_where Q t"
  by (induction t) auto

lemma sum_where_update_indep:
  "(\<And>r. P r \<Longrightarrow> Q (f r) = Q r) \<Longrightarrow> (\<And>r. P r \<Longrightarrow> g (f r) = g r) \<Longrightarrow>
     sum_where Q g (update_where P f t) = sum_where Q g t"
  by (induction t) auto

lemma sum_where_cong:
  "(\<And>r. r \<in> set t \<Longrightarrow> P r = Q r) \<Longrightarrow> (\<And>r. r \<in> set t \<Longrightarrow> Q r \<Longrightarrow> f r = g r) \<Longrightarrow>
     sum_where P f t = sum_where Q g t"
  by (induction t) auto

end
