(* ===== verification/Breaker.thy ===== *)
theory Breaker
  imports Prelude Complex_Main
begin

text \<open>
  \<open>platform/breaker/breaker.go\<close>: the sliding-window circuit breaker with half-open probes.  The
  mutex makes every exported call one step; a step takes the clock reading(s) it makes as
  arguments.  Counters are natural numbers, durations integers (nanoseconds).  The failure rate
  is a rational: the source compares a \<open>float64\<close> quotient of two counters, the model the exact
  quotient (for the default 0.5 and counters below \<open>2 ^ 53\<close> the two comparisons agree).
\<close>

section \<open>State\<close>

datatype breaker_state = StateClosed | StateOpen | StateHalfOpen

definition breaker_state_string :: "breaker_state \<Rightarrow> string" where
  "breaker_state_string s =
     (case s of StateOpen \<Rightarrow> ''open'' | StateHalfOpen \<Rightarrow> ''half_open'' | _ \<Rightarrow> ''closed'')"

record breaker_config =
  bc_window :: time
  bc_buckets :: int
  bc_min_requests :: int
  bc_failure_rate :: rat
  bc_open_timeout :: time
  bc_half_open_probes :: int

definition with_defaults :: "breaker_config \<Rightarrow> breaker_config" where
  "with_defaults c =
     \<lparr> bc_window = (if bc_window c \<le> 0 then 10 * second else bc_window c),
       bc_buckets = (if bc_buckets c \<le> 0 then 10 else bc_buckets c),
       bc_min_requests = (if bc_min_requests c \<le> 0 then 20 else bc_min_requests c),
       bc_failure_rate =
         (if bc_failure_rate c \<le> 0 \<or> bc_failure_rate c > 1 then 1 / 2 else bc_failure_rate c),
       bc_open_timeout = (if bc_open_timeout c \<le> 0 then 5 * second else bc_open_timeout c),
       bc_half_open_probes = (if bc_half_open_probes c \<le> 0 then 3 else bc_half_open_probes c) \<rparr>"

record bucket =
  successes :: nat
  failures :: nat

definition empty_bucket :: bucket where
  "empty_bucket = \<lparr> successes = 0, failures = 0 \<rparr>"

record breaker =
  br_config :: breaker_config
  br_state :: breaker_state
  br_buckets :: "bucket list"
  br_cursor :: nat
  br_bucket_start :: time
  br_opened_at :: time
  br_probes_in_flight :: int
  br_probe_successes :: int

definition nbuckets :: "breaker \<Rightarrow> nat" where
  "nbuckets b = nat (bc_buckets (br_config b))"

definition fresh_buckets :: "breaker \<Rightarrow> bucket list" where
  "fresh_buckets b = replicate (nbuckets b) empty_bucket"

definition new_breaker :: "breaker_config \<Rightarrow> time \<Rightarrow> breaker" where
  "new_breaker cfg now =
     (let c = with_defaults cfg in
      \<lparr> br_config = c, br_state = StateClosed,
        br_buckets = replicate (nat (bc_buckets c)) empty_bucket, br_cursor = 0,
        br_bucket_start = now, br_opened_at = 0,
        br_probes_in_flight = 0, br_probe_successes = 0 \<rparr>)"

section \<open>Operations\<close>

fun rotate_buckets :: "nat \<Rightarrow> breaker \<Rightarrow> breaker" where
  "rotate_buckets 0 b = b"
| "rotate_buckets (Suc k) b =
     (let c = (br_cursor b + 1) mod nbuckets b in
      rotate_buckets k (b\<lparr>br_cursor := c, br_buckets := (br_buckets b)[c := empty_bucket]\<rparr>))"

definition expire_open :: "time \<Rightarrow> breaker \<Rightarrow> breaker" where
  "expire_open now b =
     (if br_state b = StateOpen \<and> now - br_opened_at b \<ge> bc_open_timeout (br_config b)
      then b\<lparr>br_state := StateHalfOpen, br_probes_in_flight := 0, br_probe_successes := 0\<rparr>
      else b)"

definition slide_window :: "time \<Rightarrow> breaker \<Rightarrow> breaker" where
  "slide_window now b =
     (let width = bc_window (br_config b) div bc_buckets (br_config b);
          elapsed = now - br_bucket_start b;
          steps = elapsed div width
      in if width \<le> 0 then b
         else if elapsed < width then b
         else if steps \<ge> bc_buckets (br_config b)
              then b\<lparr>br_buckets := fresh_buckets b, br_cursor := 0, br_bucket_start := now\<rparr>
         else (rotate_buckets (nat steps) b)
                \<lparr>br_bucket_start := br_bucket_start b + steps * width\<rparr>)"

definition advance :: "time \<Rightarrow> breaker \<Rightarrow> breaker" where
  "advance now b = slide_window now (expire_open now b)"

definition totals :: "breaker \<Rightarrow> nat \<times> nat" where
  "totals b = (sum_list (map successes (br_buckets b)), sum_list (map failures (br_buckets b)))"

definition breaker_open :: "time \<Rightarrow> breaker \<Rightarrow> breaker" where
  "breaker_open now b =
     b\<lparr>br_state := StateOpen, br_opened_at := now, br_probes_in_flight := 0,
       br_probe_successes := 0, br_buckets := fresh_buckets b, br_cursor := 0,
       br_bucket_start := now\<rparr>"

definition breaker_close :: "time \<Rightarrow> breaker \<Rightarrow> breaker" where
  "breaker_close now b =
     b\<lparr>br_state := StateClosed, br_probes_in_flight := 0, br_probe_successes := 0,
       br_buckets := fresh_buckets b, br_cursor := 0, br_bucket_start := now\<rparr>"

definition get_state :: "time \<Rightarrow> breaker \<Rightarrow> breaker_state \<times> breaker" where
  "get_state now b = (let b' = advance now b in (br_state b', b'))"

text \<open>\<open>Allow\<close> returns whether the call may proceed (\<open>False\<close> is \<open>ErrOpen\<close>).\<close>

definition allow :: "time \<Rightarrow> breaker \<Rightarrow> bool \<times> breaker" where
  "allow now b0 =
     (let b = advance now b0 in
      case br_state b of
        StateOpen \<Rightarrow> (False, b)
      | StateHalfOpen \<Rightarrow>
          (if br_probes_in_flight b \<ge> bc_half_open_probes (br_config b) then (False, b)
           else (True, b\<lparr>br_probes_in_flight := br_probes_in_flight b + 1\<rparr>))
      | StateClosed \<Rightarrow> (True, b))"

text \<open>\<open>record\<close>: \<open>now2\<close> is the second clock reading, made by \<open>close\<close>.\<close>

definition record_probe :: "bool \<Rightarrow> time \<Rightarrow> time \<Rightarrow> breaker \<Rightarrow> breaker" where
  "record_probe success now now2 b0 =
     (let b = (if br_probes_in_flight b0 > 0
               then b0\<lparr>br_probes_in_flight := br_probes_in_flight b0 - 1\<rparr> else b0)
      in if \<not> success then breaker_open now b
         else (let b' = b\<lparr>br_probe_successes := br_probe_successes b + 1\<rparr>
               in if br_probe_successes b' \<ge> bc_half_open_probes (br_config b')
                  then breaker_close now2 b' else b'))"

definition trips :: "breaker \<Rightarrow> bool" where
  "trips b = (case totals b of (s, f) \<Rightarrow>
     int (s + f) \<ge> bc_min_requests (br_config b) \<and>
     of_nat f / of_nat (s + f) \<ge> bc_failure_rate (br_config b))"

definition record_outcome :: "bool \<Rightarrow> time \<Rightarrow> time \<Rightarrow> breaker \<Rightarrow> breaker" where
  "record_outcome success now now2 b0 =
     (let b = advance now b0; i = br_cursor b; u = br_buckets b ! i in
      if br_state b = StateHalfOpen then record_probe success now now2 b
      else if success
           then b\<lparr>br_buckets := (br_buckets b)[i := u\<lparr>successes := successes u + 1\<rparr>]\<rparr>
      else (let b' = b\<lparr>br_buckets := (br_buckets b)[i := u\<lparr>failures := failures u + 1\<rparr>]\<rparr>
            in if trips b' then breaker_open now b' else b'))"

section \<open>Invariant\<close>

definition breaker_wf :: "breaker \<Rightarrow> bool" where
  "breaker_wf b \<longleftrightarrow>
     with_defaults (br_config b) = br_config b \<and>
     length (br_buckets b) = nbuckets b \<and> br_cursor b < nbuckets b \<and>
     0 \<le> br_probes_in_flight b \<and> 0 \<le> br_probe_successes b \<and>
     br_probes_in_flight b \<le> bc_half_open_probes (br_config b) \<and>
     br_probe_successes b < bc_half_open_probes (br_config b) \<and>
     (br_state b \<noteq> StateHalfOpen \<longrightarrow> br_probes_in_flight b = 0 \<and> br_probe_successes b = 0)"

lemma with_defaults_idem: "with_defaults (with_defaults c) = with_defaults c"
  by (simp add: with_defaults_def)

lemma with_defaults_positive:
  assumes "with_defaults c = c"
  shows "0 < bc_window c" "0 < bc_buckets c" "0 < bc_min_requests c" "0 < bc_failure_rate c"
    "bc_failure_rate c \<le> 1" "0 < bc_open_timeout c" "0 < bc_half_open_probes c"
  by (subst assms[symmetric]; simp add: with_defaults_def)+

lemma new_breaker_wf [inv_intros]: "breaker_wf (new_breaker cfg now)"
  using with_defaults_positive[OF with_defaults_idem[of cfg]]
  by (simp add: breaker_wf_def new_breaker_def Let_def nbuckets_def with_defaults_idem)

lemma rotate_buckets_frame [frame_simps]:
  "br_config (rotate_buckets k b) = br_config b" "br_state (rotate_buckets k b) = br_state b"
  "br_probes_in_flight (rotate_buckets k b) = br_probes_in_flight b"
  "br_probe_successes (rotate_buckets k b) = br_probe_successes b"
  "br_opened_at (rotate_buckets k b) = br_opened_at b"
  "length (br_buckets (rotate_buckets k b)) = length (br_buckets b)"
  by (induction k b rule: rotate_buckets.induct) (simp_all add: Let_def)

lemma rotate_buckets_cursor:
  "br_cursor b < nbuckets b \<Longrightarrow> br_cursor (rotate_buckets k b) < nbuckets b"
proof (induction k b rule: rotate_buckets.induct)
  case (2 k b)
  then have "(br_cursor b + 1) mod nbuckets b < nbuckets b" by (intro mod_less_divisor) linarith
  then show ?case using 2(1)[OF refl] by (simp add: nbuckets_def Let_def)
qed simp

lemma advance_frame [frame_simps]:
  "br_config (advance now b) = br_config b"
  "br_state (advance now b) = br_state (expire_open now b)"
  "br_probes_in_flight (advance now b) = br_probes_in_flight (expire_open now b)"
  "br_probe_successes (advance now b) = br_probe_successes (expire_open now b)"
  by (simp_all add: advance_def slide_window_def expire_open_def Let_def frame_simps)

lemma expire_open_wf [inv_intros]: "breaker_wf b \<Longrightarrow> breaker_wf (expire_open now b)"
  using with_defaults_positive[of "br_config b"]
  by (auto simp: breaker_wf_def expire_open_def nbuckets_def)

lemma slide_window_wf [inv_intros]: "breaker_wf b \<Longrightarrow> breaker_wf (slide_window now b)"
  using rotate_buckets_cursor[of b]
  by (auto simp: breaker_wf_def slide_window_def nbuckets_def fresh_buckets_def Let_def
      frame_simps)

lemma advance_wf [inv_intros]: "breaker_wf b \<Longrightarrow> breaker_wf (advance now b)"
  by (simp add: advance_def inv_intros)

lemma breaker_open_wf [inv_intros]: "breaker_wf b \<Longrightarrow> breaker_wf (breaker_open now b)"
  by (auto simp: breaker_wf_def breaker_open_def nbuckets_def fresh_buckets_def)

lemma breaker_close_wf [inv_intros]: "breaker_wf b \<Longrightarrow> breaker_wf (breaker_close now b)"
  by (auto simp: breaker_wf_def breaker_close_def nbuckets_def fresh_buckets_def)

lemma breaker_close_ignores_successes:
  "breaker_close now (b\<lparr>br_probe_successes := m\<rparr>) = breaker_close now b"
  by (simp add: breaker_close_def fresh_buckets_def nbuckets_def)

lemma release_probe_wf:
  "breaker_wf b \<Longrightarrow> breaker_wf (if br_probes_in_flight b > 0
     then b\<lparr>br_probes_in_flight := br_probes_in_flight b - 1\<rparr> else b)"
  by (auto simp: breaker_wf_def nbuckets_def)

lemma record_probe_wf [inv_intros]:
  assumes "breaker_wf b" "br_state b = StateHalfOpen"
  shows "breaker_wf (record_probe s now now2 b)"
proof -
  define b1 where "b1 = (if br_probes_in_flight b > 0
     then b\<lparr>br_probes_in_flight := br_probes_in_flight b - 1\<rparr> else b)"
  have wf: "breaker_wf b1" unfolding b1_def using assms(1) by (rule release_probe_wf)
  have st: "br_state b1 = StateHalfOpen" using assms(2) by (simp add: b1_def)
  have "record_probe s now now2 b =
      (if \<not> s then breaker_open now b1
       else if br_probe_successes b1 + 1 \<ge> bc_half_open_probes (br_config b1)
            then breaker_close now2 b1
            else b1\<lparr>br_probe_successes := br_probe_successes b1 + 1\<rparr>)"
    by (simp add: record_probe_def Let_def b1_def[symmetric] breaker_close_ignores_successes)
  moreover have "br_probe_successes b1 + 1 < bc_half_open_probes (br_config b1) \<Longrightarrow>
      breaker_wf (b1\<lparr>br_probe_successes := br_probe_successes b1 + 1\<rparr>)"
    using wf st by (simp add: breaker_wf_def nbuckets_def)
  ultimately show ?thesis using wf by (auto intro: breaker_open_wf breaker_close_wf)
qed

lemma update_bucket_wf [inv_intros]:
  "breaker_wf b \<Longrightarrow> breaker_wf (b\<lparr>br_buckets := (br_buckets b)[i := u]\<rparr>)"
  by (simp add: breaker_wf_def nbuckets_def)

lemma allow_wf [inv_intros]:
  assumes "breaker_wf b" shows "breaker_wf (snd (allow now b))"
proof -
  have "breaker_wf (advance now b)" using assms by (rule advance_wf)
  then show ?thesis
    by (auto simp: allow_def Let_def breaker_wf_def nbuckets_def split: breaker_state.split)
qed

lemma record_outcome_wf [inv_intros]:
  assumes "breaker_wf b" shows "breaker_wf (record_outcome s now now2 b)"
  using advance_wf[OF assms, of now]
  by (auto simp: record_outcome_def Let_def
      intro!: record_probe_wf update_bucket_wf breaker_open_wf)

section \<open>Reachable states\<close>

text \<open>Any interleaving of the exported calls, at any clock readings.\<close>

inductive breaker_step :: "breaker \<Rightarrow> breaker \<Rightarrow> bool" where
  step_state: "snd (get_state now b) = b' \<Longrightarrow> breaker_step b b'"
| step_allow: "snd (allow now b) = b' \<Longrightarrow> breaker_step b b'"
| step_record: "record_outcome s now now2 b = b' \<Longrightarrow> breaker_step b b'"

inductive breaker_reachable :: "breaker_config \<Rightarrow> breaker \<Rightarrow> bool" for cfg where
  init: "breaker_reachable cfg (new_breaker cfg now)"
| step: "breaker_reachable cfg b \<Longrightarrow> breaker_step b b' \<Longrightarrow> breaker_reachable cfg b'"

inductive_cases breaker_stepE: "breaker_step b b'"

lemma breaker_step_wf: "breaker_step b b' \<Longrightarrow> breaker_wf b \<Longrightarrow> breaker_wf b'"
  by (elim breaker_stepE) (auto simp: get_state_def Let_def intro: inv_intros)

text \<open>In every state the circuit breaker can reach, the cursor addresses one of the
  configured buckets, at most the configured number of half-open probes is counted as in
  flight, fewer successes than that are recorded, and outside the half-open state both probe
  counters are zero.\<close>

lemma breaker_reachable_wf: "breaker_reachable cfg b \<Longrightarrow> breaker_wf b"
  by (induction rule: breaker_reachable.induct) (auto intro: new_breaker_wf breaker_step_wf)

definition zero_config :: breaker_config where
  "zero_config = \<lparr> bc_window = 0, bc_buckets = 0, bc_min_requests = 0, bc_failure_rate = 0,
     bc_open_timeout = 0, bc_half_open_probes = 0 \<rparr>"

lemma breaker_reachable_wf_witness:
  "breaker_wf (record_outcome True 1 1 (new_breaker zero_config 0))"
  by (rule breaker_reachable_wf[of zero_config])
     (blast intro: breaker_reachable.intros breaker_step.intros)

section \<open>Rejection and recovery\<close>

lemma expire_open_early:
  "br_state b = StateOpen \<Longrightarrow> now - br_opened_at b < bc_open_timeout (br_config b) \<Longrightarrow>
     expire_open now b = b"
  by (simp add: expire_open_def)

lemma advance_opened_at [frame_simps]: "br_opened_at (advance now b) = br_opened_at b"
  by (simp add: advance_def slide_window_def expire_open_def Let_def frame_simps)

text \<open>A breaker that opened at time \<open>t\<close> rejects every call whose clock reading is before
  \<open>t + OpenTimeout\<close>, stays open, and admits the first call at or after that instant as the
  single probe in flight.\<close>

theorem open_rejects_until_timeout:
  assumes "breaker_wf b" "br_state b = StateOpen"
  shows "if now < br_opened_at b + bc_open_timeout (br_config b)
    then fst (allow now b) = False \<and> br_state (snd (allow now b)) = StateOpen
    else fst (allow now b) = True \<and> br_state (snd (allow now b)) = StateHalfOpen \<and>
      br_probes_in_flight (snd (allow now b)) = 1"
  using assms with_defaults_positive(7)[of "br_config b"]
  by (auto simp: allow_def Let_def frame_simps expire_open_def breaker_wf_def)

definition sample_open :: breaker where
  "sample_open =
     record_outcome False 1 1 (new_breaker
       \<lparr> bc_window = 10, bc_buckets = 1, bc_min_requests = 1, bc_failure_rate = 1 / 2,
         bc_open_timeout = 5, bc_half_open_probes = 2 \<rparr> 0)"

lemma sample_open_wf: "breaker_wf sample_open"
  unfolding sample_open_def by (intro inv_intros)

lemma open_rejects_until_timeout_witness:
  "fst (allow 5 sample_open) = False \<and> fst (allow 6 sample_open) = True"
proof -
  have "br_state sample_open = StateOpen \<and> br_opened_at sample_open = 1 \<and>
      bc_open_timeout (br_config sample_open) = 5"
    by code_simp
  then show ?thesis
    using open_rejects_until_timeout[OF sample_open_wf, of 5]
      open_rejects_until_timeout[OF sample_open_wf, of 6] by simp
qed

fun record_successes :: "(time \<times> time) list \<Rightarrow> breaker \<Rightarrow> breaker" where
  "record_successes [] b = b"
| "record_successes ((now, now2) # rest) b = record_successes rest (record_outcome True now now2 b)"

lemma expire_open_not_open: "br_state b \<noteq> StateOpen \<Longrightarrow> expire_open now b = b"
  by (simp add: expire_open_def)

lemma record_success_half_open:
  assumes "br_state b = StateHalfOpen"
    "br_probe_successes b + 1 < bc_half_open_probes (br_config b)"
  shows "br_state (record_outcome True now now2 b) = StateHalfOpen"
    "br_probe_successes (record_outcome True now now2 b) = br_probe_successes b + 1"
    "br_config (record_outcome True now now2 b) = br_config b"
  using assms
  by (simp_all add: record_outcome_def record_probe_def Let_def frame_simps expire_open_not_open)

lemma record_success_closes:
  assumes "br_state b = StateHalfOpen"
    "br_probe_successes b + 1 \<ge> bc_half_open_probes (br_config b)"
  shows "br_state (record_outcome True now now2 b) = StateClosed"
    "br_buckets (record_outcome True now now2 b) = fresh_buckets b"
  using assms
  by (simp_all add: record_outcome_def record_probe_def Let_def frame_simps expire_open_not_open
      breaker_close_def fresh_buckets_def nbuckets_def)

lemma fresh_buckets_config: "br_config a = br_config b \<Longrightarrow> fresh_buckets a = fresh_buckets b"
  by (simp add: fresh_buckets_def nbuckets_def)

lemma half_open_recovers_aux:
  assumes "br_state b = StateHalfOpen"
    "int (length ts) = bc_half_open_probes (br_config b) - br_probe_successes b" "ts \<noteq> []"
  shows "br_state (record_successes ts b) = StateClosed \<and>
    br_buckets (record_successes ts b) = fresh_buckets b"
  using assms
proof (induction ts b rule: record_successes.induct)
  case (2 now now2 rest b)
  show ?case
  proof (cases "rest = []")
    case True
    with 2(2,3) show ?thesis by (simp add: record_success_closes)
  next
    case False
    then have "br_probe_successes b + 1 < bc_half_open_probes (br_config b)"
      using 2(3) by (cases rest) auto
    note r = record_success_half_open[OF 2(2) this, of now now2]
    have "br_state (record_successes rest (record_outcome True now now2 b)) = StateClosed \<and>
      br_buckets (record_successes rest (record_outcome True now now2 b)) =
        fresh_buckets (record_outcome True now now2 b)"
      by (rule 2(1)) (use r 2(3) False in auto)
    then show ?thesis using fresh_buckets_config[OF r(3)] by simp
  qed
qed simp

text \<open>From the moment a breaker enters the half-open state, as many successful outcomes as
  there are configured probes close it with an empty window, whatever the clock readings; one
  failed outcome at any point opens it again at that instant.\<close>

theorem half_open_recovery:
  assumes "breaker_wf b" "br_state b = StateHalfOpen" "br_probe_successes b = 0"
    "int (length ts) = bc_half_open_probes (br_config b)"
  shows "br_state (record_successes ts b) = StateClosed \<and>
    totals (record_successes ts b) = (0, 0) \<and>
    br_state (record_outcome False now now2 b) = StateOpen \<and>
    br_opened_at (record_outcome False now now2 b) = now"
proof -
  have "ts \<noteq> []" using assms(1,4) with_defaults_positive(7)[of "br_config b"]
    by (auto simp: breaker_wf_def)
  from half_open_recovers_aux[OF assms(2) _ this] assms(3,4)
  have "br_state (record_successes ts b) = StateClosed \<and>
      totals (record_successes ts b) = (0, 0)"
    by (simp add: totals_def fresh_buckets_def empty_bucket_def sum_list_replicate)
  moreover have "br_state (record_outcome False now now2 b) = StateOpen \<and>
      br_opened_at (record_outcome False now now2 b) = now"
    using assms by (simp add: record_outcome_def record_probe_def Let_def frame_simps
        expire_open_not_open breaker_open_def)
  ultimately show ?thesis by blast
qed

definition sample_half_open :: breaker where
  "sample_half_open =
     snd (allow 6 (record_outcome False 1 1 (new_breaker
       \<lparr> bc_window = 10, bc_buckets = 1, bc_min_requests = 1, bc_failure_rate = 1 / 2,
         bc_open_timeout = 5, bc_half_open_probes = 2 \<rparr> 0)))"

lemma sample_half_open_wf: "breaker_wf sample_half_open"
  unfolding sample_half_open_def by (intro inv_intros)

lemma half_open_recovery_witness:
  "br_state (record_successes [(7, 7), (8, 8)] sample_half_open) = StateClosed"
proof -
  have "br_state sample_half_open = StateHalfOpen \<and> br_probe_successes sample_half_open = 0 \<and>
      bc_half_open_probes (br_config sample_half_open) = 2"
    by code_simp
  then show ?thesis
    using half_open_recovery[OF sample_half_open_wf, of "[(7, 7), (8, 8)]"] by simp
qed

text \<open>The callback handed out by \<open>Allow\<close> does not remember the state it was handed out in, so
  the outcome of a call admitted while the breaker was closed counts as a probe once the
  breaker is half-open: with one configured probe it closes the breaker although no probe was
  ever admitted.\<close>

definition stale_run :: breaker where
  "stale_run =
     (let cfg = \<lparr> bc_window = 10, bc_buckets = 1, bc_min_requests = 1, bc_failure_rate = 1 / 2,
                  bc_open_timeout = 5, bc_half_open_probes = 1 \<rparr>;
          b0 = new_breaker cfg 0;
          b1 = snd (allow 0 b0);
          b2 = snd (allow 0 b1);
          b3 = record_outcome False 1 1 b2
      in record_outcome True 6 6 b3)"

lemma stale_callback_closes: "br_state stale_run = StateClosed"
  by code_simp

end
