(* ===== verification/GoText.thy ===== *)
theory GoText
  imports Prelude
begin

text \<open>
  The parts of the Go standard library on strings that the source uses: packages \<open>unicode\<close>,
  \<open>unicode/utf8\<close> and \<open>strings\<close>, and \<open>uuid.UUID.String\<close>.  User text (file names, search
  text, extracted documents) is a list of runes (code points); machine strings (identifiers,
  object keys, idempotency keys) are Isabelle strings, one character per byte.
\<close>

section \<open>Runes\<close>

type_synonym rune = nat
type_synonym gotext = "rune list"

definition lit :: "string \<Rightarrow> gotext" where
  "lit s = map of_char s"

text \<open>\<open>unicode.IsSpace\<close>: the White Space property.\<close>

definition is_space :: "rune \<Rightarrow> bool" where
  "is_space r \<longleftrightarrow> 9 \<le> r \<and> r \<le> 13 \<or> r = 32 \<or> r = 133 \<or> r = 160 \<or> r = 5760 \<or>
     8192 \<le> r \<and> r \<le> 8202 \<or> r = 8232 \<or> r = 8233 \<or> r = 8239 \<or> r = 8287 \<or> r = 12288"

text \<open>\<open>unicode.IsDigit\<close>: category Nd is a union of blocks of ten; the list holds the zeros.\<close>

definition digit_zeros :: "rune list" where
  "digit_zeros = [
   48, 1632, 1776, 1984, 2406, 2534, 2662, 2790, 2918, 3046, 3174, 3302, 3430, 3558, 3664, 3792,
   3872, 4160, 4240, 6112, 6160, 6470, 6608, 6784, 6800, 6992, 7088, 7232, 7248, 42528, 43216,
   43264, 43472, 43504, 43600, 44016, 65296, 66720, 68912, 69734, 69872, 69942, 70096, 70384,
   70736, 70864, 71248, 71360, 71472, 71904, 72016, 72784, 73040, 73120, 73552, 92768, 92864,
   93008, 120782, 120792, 120802, 120812, 120822, 123200, 123632, 124144, 125264, 130032]"

definition is_digit :: "rune \<Rightarrow> bool" where
  "is_digit r \<longleftrightarrow> list_ex (\<lambda>z. z \<le> r \<and> r < z + 10) digit_zeros"

text \<open>\<open>unicode.ToLower\<close>: the simple lower-case mapping as ranges
  \<open>(first, last, stride, delta)\<close>.\<close>

definition lower_ranges :: "(rune \<times> rune \<times> nat \<times> int) list" where
  "lower_ranges = [
   (65, 90, 1, 32), (192, 214, 1, 32), (216, 222, 1, 32), (256, 302, 2, 1), (304, 304, 1, - 199),
   (306, 310, 2, 1), (313, 327, 2, 1), (330, 374, 2, 1), (376, 376, 1, - 121), (377, 381, 2, 1),
   (385, 385, 1, 210), (386, 388, 2, 1), (390, 390, 1, 206), (391, 391, 1, 1),
   (393, 394, 1, 205), (395, 395, 1, 1), (398, 398, 1, 79), (399, 399, 1, 202),
   (400, 400, 1, 203), (401, 401, 1, 1), (403, 403, 1, 205), (404, 404, 1, 207),
   (406, 406, 1, 211), (407, 407, 1, 209), (408, 408, 1, 1), (412, 412, 1, 211),
   (413, 413, 1, 213), (415, 415, 1, 214), (416, 420, 2, 1), (422, 422, 1, 218),
   (423, 423, 1, 1), (425, 425, 1, 218), (428, 428, 1, 1), (430, 430, 1, 218), (431, 431, 1, 1),
   (433, 434, 1, 217), (435, 437, 2, 1), (439, 439, 1, 219), (440, 440, 1, 1), (444, 444, 1, 1),
   (452, 452, 1, 2), (453, 453, 1, 1), (455, 455, 1, 2), (456, 456, 1, 1), (458, 458, 1, 2),
   (459, 475, 2, 1), (478, 494, 2, 1), (497, 497, 1, 2), (498, 500, 2, 1), (502, 502, 1, - 97),
   (503, 503, 1, - 56), (504, 542, 2, 1), (544, 544, 1, - 130), (546, 562, 2, 1),
   (570, 570, 1, 10795), (571, 571, 1, 1), (573, 573, 1, - 163), (574, 574, 1, 10792),
   (577, 577, 1, 1), (579, 579, 1, - 195), (580, 580, 1, 69), (581, 581, 1, 71),
   (582, 590, 2, 1), (880, 882, 2, 1), (886, 886, 1, 1), (895, 895, 1, 116), (902, 902, 1, 38),
   (904, 906, 1, 37), (908, 908, 1, 64), (910, 911, 1, 63), (913, 929, 1, 32), (931, 939, 1, 32),
   (975, 975, 1, 8), (984, 1006, 2, 1), (1012, 1012, 1, - 60), (1015, 1015, 1, 1),
   (1017, 1017, 1, - 7), (1018, 1018, 1, 1), (1021, 1023, 1, - 130), (1024, 1039, 1, 80),
   (1040, 1071, 1, 32), (1120, 1152, 2, 1), (1162, 1214, 2, 1), (1216, 1216, 1, 15),
   (1217, 1229, 2, 1), (1232, 1326, 2, 1), (1329, 1366, 1, 48), (4256, 4293, 1, 7264),
   (4295, 4295, 1, 7264), (4301, 4301, 1, 7264), (5024, 5103, 1, 38864), (5104, 5109, 1, 8),
   (7312, 7354, 1, - 3008), (7357, 7359, 1, - 3008), (7680, 7828, 2, 1), (7838, 7838, 1, - 7615),
   (7840, 7934, 2, 1), (7944, 7951, 1, - 8), (7960, 7965, 1, - 8), (7976, 7983, 1, - 8),
   (7992, 7999, 1, - 8), (8008, 8013, 1, - 8), (8025, 8031, 2, - 8), (8040, 8047, 1, - 8),
   (8072, 8079, 1, - 8), (8088, 8095, 1, - 8), (8104, 8111, 1, - 8), (8120, 8121, 1, - 8),
   (8122, 8123, 1, - 74), (8124, 8124, 1, - 9), (8136, 8139, 1, - 86), (8140, 8140, 1, - 9),
   (8152, 8153, 1, - 8), (8154, 8155, 1, - 100), (8168, 8169, 1, - 8), (8170, 8171, 1, - 112),
   (8172, 8172, 1, - 7), (8184, 8185, 1, - 128), (8186, 8187, 1, - 126), (8188, 8188, 1, - 9),
   (8486, 8486, 1, - 7517), (8490, 8490, 1, - 8383), (8491, 8491, 1, - 8262),
   (8498, 8498, 1, 28), (8544, 8559, 1, 16), (8579, 8579, 1, 1), (9398, 9423, 1, 26),
   (11264, 11311, 1, 48), (11360, 11360, 1, 1), (11362, 11362, 1, - 10743),
   (11363, 11363, 1, - 3814), (11364, 11364, 1, - 10727), (11367, 11371, 2, 1),
   (11373, 11373, 1, - 10780), (11374, 11374, 1, - 10749), (11375, 11375, 1, - 10783),
   (11376, 11376, 1, - 10782), (11378, 11378, 1, 1), (11381, 11381, 1, 1),
   (11390, 11391, 1, - 10815), (11392, 11490, 2, 1), (11499, 11501, 2, 1), (11506, 11506, 1, 1),
   (42560, 42604, 2, 1), (42624, 42650, 2, 1), (42786, 42798, 2, 1), (42802, 42862, 2, 1),
   (42873, 42875, 2, 1), (42877, 42877, 1, - 35332), (42878, 42886, 2, 1), (42891, 42891, 1, 1),
   (42893, 42893, 1, - 42280), (42896, 42898, 2, 1), (42902, 42920, 2, 1),
   (42922, 42922, 1, - 42308), (42923, 42923, 1, - 42319), (42924, 42924, 1, - 42315),
   (42925, 42925, 1, - 42305), (42926, 42926, 1, - 42308), (42928, 42928, 1, - 42258),
   (42929, 42929, 1, - 42282), (42930, 42930, 1, - 42261), (42931, 42931, 1, 928),
   (42932, 42946, 2, 1), (42948, 42948, 1, - 48), (42949, 42949, 1, - 42307),
   (42950, 42950, 1, - 35384), (42951, 42953, 2, 1), (42960, 42960, 1, 1), (42966, 42968, 2, 1),
   (42997, 42997, 1, 1), (65313, 65338, 1, 32), (66560, 66599, 1, 40), (66736, 66771, 1, 40),
   (66928, 66938, 1, 39), (66940, 66954, 1, 39), (66956, 66962, 1, 39), (66964, 66965, 1, 39),
   (68736, 68786, 1, 64), (71840, 71871, 1, 32), (93760, 93791, 1, 32), (125184, 125217, 1, 34)]"

fun lower_in :: "(rune \<times> rune \<times> nat \<times> int) list \<Rightarrow> rune \<Rightarrow> rune" where
  "lower_in [] r = r"
| "lower_in ((lo, hi, stride, delta) # rest) r =
     (if lo \<le> r \<and> r \<le> hi \<and> (r - lo) mod stride = 0 then nat (int r + delta)
      else lower_in rest r)"

definition rune_lower :: "rune \<Rightarrow> rune" where
  "rune_lower r =
     (if r < 128 then (if 65 \<le> r \<and> r \<le> 90 then r + 32 else r) else lower_in lower_ranges r)"

definition to_lower :: "gotext \<Rightarrow> gotext" where
  "to_lower s = map rune_lower s"

text \<open>The number of bytes of the UTF-8 encoding, \<open>len(s)\<close> of the Go string.\<close>

definition utf8_width :: "rune \<Rightarrow> nat" where
  "utf8_width r = (if r < 128 then 1 else if r < 2048 then 2 else if r < 65536 then 3 else 4)"

definition utf8_len :: "gotext \<Rightarrow> nat" where
  "utf8_len s = sum_list (map utf8_width s)"

section \<open>Package strings\<close>

definition trim_left :: "('a \<Rightarrow> bool) \<Rightarrow> 'a list \<Rightarrow> 'a list" where
  "trim_left P s = dropWhile P s"

definition trim_right :: "('a \<Rightarrow> bool) \<Rightarrow> 'a list \<Rightarrow> 'a list" where
  "trim_right P s = rev (dropWhile P (rev s))"

definition trim_func :: "('a \<Rightarrow> bool) \<Rightarrow> 'a list \<Rightarrow> 'a list" where
  "trim_func P s = trim_right P (trim_left P s)"

abbreviation trim_space :: "gotext \<Rightarrow> gotext" where
  "trim_space \<equiv> trim_func is_space"

definition has_prefix :: "'a list \<Rightarrow> 'a list \<Rightarrow> bool" where
  "has_prefix s p \<longleftrightarrow> take (length p) s = p"

definition has_suffix :: "'a list \<Rightarrow> 'a list \<Rightarrow> bool" where
  "has_suffix s p \<longleftrightarrow> has_prefix (rev s) (rev p)"

definition trim_prefix :: "'a list \<Rightarrow> 'a list \<Rightarrow> 'a list" where
  "trim_prefix s p = (if has_prefix s p then drop (length p) s else s)"

text \<open>\<open>strings.Cut\<close>: the text before and after the first occurrence of a separator.\<close>

fun cut :: "'a list \<Rightarrow> 'a list \<Rightarrow> ('a list \<times> 'a list) option" where
  "cut sep [] = (if sep = [] then Some ([], []) else None)"
| "cut sep (c # cs) =
     (if has_prefix (c # cs) sep then Some ([], drop (length sep) (c # cs))
      else map_option (\<lambda>(a, b). (c # a, b)) (cut sep cs))"

definition contains :: "'a list \<Rightarrow> 'a list \<Rightarrow> bool" where
  "contains s sep \<longleftrightarrow> cut sep s \<noteq> None"

lemma cut_append: "cut sep s = Some (a, b) \<Longrightarrow> s = a @ sep @ b"
proof (induction s arbitrary: a)
  case (Cons c cs)
  then show ?case
    by (auto simp: has_prefix_def split: if_splits)
       (metis append_take_drop_id drop_Suc_Cons length_Cons take_Suc_Cons)
qed (auto split: if_splits)

lemma cut_length: "cut sep s = Some (a, b) \<Longrightarrow> length s = length a + length sep + length b"
  by (drule cut_append) simp

text \<open>\<open>strings.Split\<close> and \<open>strings.SplitAfter\<close> for a non-empty separator (the source only
  passes non-empty literals).\<close>

function (sequential) split :: "'a list \<Rightarrow> 'a list \<Rightarrow> 'a list list" where
  "split sep s =
     (if sep = [] then [s]
      else case cut sep s of None \<Rightarrow> [s] | Some (a, b) \<Rightarrow> a # split sep b)"
  by pat_completeness auto
termination
  by (relation "measure (\<lambda>(sep, s). length s)") (auto dest: cut_length)

declare split.simps [simp del]

function (sequential) split_after :: "'a list \<Rightarrow> 'a list \<Rightarrow> 'a list list" where
  "split_after sep s =
     (if sep = [] then [s]
      else case cut sep s of None \<Rightarrow> [s] | Some (a, b) \<Rightarrow> (a @ sep) # split_after sep b)"
  by pat_completeness auto
termination
  by (relation "measure (\<lambda>(sep, s). length s)") (auto dest: cut_length)

declare split_after.simps [simp del]

fun join :: "'a list \<Rightarrow> 'a list list \<Rightarrow> 'a list" where
  "join sep [] = []"
| "join sep [x] = x"
| "join sep (x # y # zs) = x @ sep @ join sep (y # zs)"

definition replace_all :: "'a list \<Rightarrow> 'a list \<Rightarrow> 'a list \<Rightarrow> 'a list" where
  "replace_all old new s = join new (split old s)"

section \<open>Lemmas\<close>

lemma lit_Nil [simp]: "lit [] = []"
  by (simp add: lit_def)

lemma length_lit [simp]: "length (lit s) = length s"
  by (simp add: lit_def)

lemma length_to_lower [simp]: "length (to_lower s) = length s"
  by (simp add: to_lower_def)

lemma is_space_ascii [simp]: "is_space 10" "is_space 32" "is_space 9" "is_space 13"
  by (simp_all add: is_space_def)

lemma split_not_Nil [simp]: "split sep s \<noteq> []"
  by (subst split.simps) (simp split: option.splits prod.splits)

lemma join_Cons: "ys \<noteq> [] \<Longrightarrow> join sep (x # ys) = x @ sep @ join sep ys"
  by (cases ys) simp_all

lemma join_split: "sep \<noteq> [] \<Longrightarrow> join sep (split sep s) = s"
proof (induction sep s rule: split.induct)
  case (1 sep s)
  then show ?case
    by (subst split.simps) (auto split: option.splits simp: join_Cons dest!: cut_append)
qed

lemma concat_split_after: "concat (split_after sep s) = s"
proof (induction sep s rule: split_after.induct)
  case (1 sep s)
  then show ?case
    by (subst split_after.simps) (auto split: option.splits dest!: cut_append)
qed

lemma trim_left_decomp: "\<exists>p. s = p @ trim_left P s \<and> (\<forall>x \<in> set p. P x)"
  by (rule exI[of _ "takeWhile P s"]) (auto simp: trim_left_def dest: set_takeWhileD)

lemma trim_right_decomp: "\<exists>q. s = trim_right P s @ q \<and> (\<forall>x \<in> set q. P x)"
proof -
  have "rev s = takeWhile P (rev s) @ dropWhile P (rev s)" by simp
  then have "s = trim_right P s @ rev (takeWhile P (rev s))"
    unfolding trim_right_def by (metis rev_append rev_rev_ident)
  then show ?thesis by (intro exI) (auto dest: set_takeWhileD)
qed

lemma trim_func_decomp:
  obtains p q where "s = p @ trim_func P s @ q" "\<forall>x \<in> set p. P x" "\<forall>x \<in> set q. P x"
proof -
  obtain p where p: "s = p @ trim_left P s" "\<forall>x \<in> set p. P x"
    using trim_left_decomp[of s P] by blast
  obtain q where q: "trim_left P s = trim_func P s @ q" "\<forall>x \<in> set q. P x"
    using trim_right_decomp[of "trim_left P s" P] unfolding trim_func_def by blast
  from p q that show ?thesis by metis
qed

lemma length_trim_func_le: "length (trim_func P s) \<le> length s"
proof -
  obtain p q where "s = p @ trim_func P s @ q" by (rule trim_func_decomp)
  then have "length s = length p + length (trim_func P s) + length q" by (metis length_append add.assoc)
  then show ?thesis by simp
qed

lemma trim_func_Nil [simp]: "trim_func P [] = []"
  by (simp add: trim_func_def trim_left_def trim_right_def)

lemma trim_func_eq_Nil_iff: "trim_func P s = [] \<longleftrightarrow> (\<forall>x \<in> set s. P x)"
proof
  assume h: "trim_func P s = []"
  obtain p q where "s = p @ trim_func P s @ q" "\<forall>x \<in> set p. P x" "\<forall>x \<in> set q. P x"
    by (rule trim_func_decomp)
  with h show "\<forall>x \<in> set s. P x" by (metis append_Nil Un_iff set_append)
next
  assume "\<forall>x \<in> set s. P x"
  then show "trim_func P s = []"
    by (auto simp: trim_func_def trim_left_def trim_right_def dest: set_dropWhileD)
qed

lemma hd_dropWhile_not: "dropWhile P s \<noteq> [] \<Longrightarrow> \<not> P (hd (dropWhile P s))"
  by (rule hd_dropWhile)

lemma trim_func_last: "trim_func P s \<noteq> [] \<Longrightarrow> \<not> P (last (trim_func P s))"
  unfolding trim_func_def trim_right_def by (metis hd_dropWhile_not last_rev rev.simps(1))

lemma trim_func_hd:
  assumes "trim_func P s \<noteq> []"
  shows "\<not> P (hd (trim_func P s))"
proof -
  obtain q where q: "trim_left P s = trim_func P s @ q"
    using trim_right_decomp[of "trim_left P s" P] unfolding trim_func_def by blast
  then have "hd (trim_func P s) = hd (trim_left P s)" "trim_left P s \<noteq> []" using assms
    by (auto simp del: append_same_eq)
  then show ?thesis by (simp add: trim_left_def hd_dropWhile_not)
qed

lemma trim_func_fixed:
  assumes "s = [] \<or> \<not> P (hd s) \<and> \<not> P (last s)"
  shows "trim_func P s = s"
proof (cases "s = []")
  case False
  then have h: "\<not> P (hd s)" "\<not> P (last s)" using assms by auto
  have "dropWhile P s = s" using h False by (cases s) auto
  moreover have "dropWhile P (rev s) = rev s" using h False
    by (cases s rule: rev_cases) auto
  ultimately show ?thesis by (simp add: trim_func_def trim_left_def trim_right_def)
qed simp

lemma trim_func_idem [simp]: "trim_func P (trim_func P s) = trim_func P s"
  by (rule trim_func_fixed) (metis trim_func_hd trim_func_last)

lemma set_trim_func_subset: "set (trim_func P s) \<subseteq> set s"
proof -
  obtain p q where "s = p @ trim_func P s @ q" by (rule trim_func_decomp)
  then have "set s = set p \<union> set (trim_func P s) \<union> set q" by (metis set_append Un_assoc)
  then show ?thesis by blast
qed

section \<open>Decimal and hexadecimal rendering\<close>

definition digit_char :: "nat \<Rightarrow> char" where
  "digit_char d = char_of (if d < 10 then 48 + d else 87 + d)"

lemma digit_char_inj: "d < 16 \<Longrightarrow> e < 16 \<Longrightarrow> digit_char d = digit_char e \<Longrightarrow> d = e"
  by (auto simp: digit_char_def take_bit_nat_eq_self split: if_splits
      dest!: arg_cong[where f = "of_char :: char \<Rightarrow> nat"])

fun hex_digits :: "nat \<Rightarrow> nat \<Rightarrow> string" where
  "hex_digits 0 n = []"
| "hex_digits (Suc k) n = hex_digits k (n div 16) @ [digit_char (n mod 16)]"

lemma length_hex_digits [simp]: "length (hex_digits k n) = k"
  by (induction k arbitrary: n) simp_all

lemma hex_digits_inj:
  "m < 16 ^ k \<Longrightarrow> n < 16 ^ k \<Longrightarrow> hex_digits k m = hex_digits k n \<Longrightarrow> m = n"
proof (induction k arbitrary: m n)
  case (Suc k)
  have "m div 16 = n div 16"
    using Suc.prems by (intro Suc.IH) (simp_all add: less_mult_imp_div_less mult.commute)
  moreover have "m mod 16 = n mod 16"
    using Suc.prems by (intro digit_char_inj) simp_all
  ultimately show ?case by (metis div_mult_mod_eq)
qed simp

text \<open>\<open>uuid.UUID.String()\<close>: the 8-4-4-4-12 form.\<close>

definition dashed :: "string \<Rightarrow> string" where
  "dashed h = take 8 h @ ''-'' @ take 4 (drop 8 h) @ ''-'' @ take 4 (drop 12 h) @ ''-'' @
     take 4 (drop 16 h) @ ''-'' @ drop 20 h"

definition uuid_string :: "uuid \<Rightarrow> string" where
  "uuid_string u = dashed (hex_digits 32 (unat u))"

lemma dashed_segments:
  "x = take 8 x @ take 4 (drop 8 x) @ take 4 (drop 12 x) @ take 4 (drop 16 x) @ drop 20 x"
proof -
  have "take 4 (drop 16 x) @ drop 20 x = drop 16 x"
    using append_take_drop_id[of 4 "drop 16 x"] by simp
  moreover have "take 4 (drop 12 x) @ drop 16 x = drop 12 x"
    using append_take_drop_id[of 4 "drop 12 x"] by simp
  moreover have "take 4 (drop 8 x) @ drop 12 x = drop 8 x"
    using append_take_drop_id[of 4 "drop 8 x"] by simp
  ultimately show ?thesis by (simp only: append_take_drop_id)
qed

lemma dashed_inj:
  assumes l: "length g = 32" "length h = 32" and eq: "dashed g = dashed h"
  shows "g = h"
proof -
  have "take 8 g = take 8 h \<and> take 4 (drop 8 g) = take 4 (drop 8 h) \<and>
      take 4 (drop 12 g) = take 4 (drop 12 h) \<and> take 4 (drop 16 g) = take 4 (drop 16 h) \<and>
      drop 20 g = drop 20 h"
    using eq l unfolding dashed_def by (simp add: append_eq_append_conv)
  then show ?thesis using dashed_segments[of g] dashed_segments[of h] by metis
qed

lemma unat_uuid_less: "unat (x :: uuid) < 16 ^ 32"
proof -
  have "unat x < 2 ^ LENGTH(128)" by (rule unsigned_less)
  moreover have "(2 :: nat) ^ LENGTH(128) = 16 ^ 32" by simp
  ultimately show ?thesis by (simp only:)
qed

lemma uuid_string_inj: "uuid_string u = uuid_string v \<longleftrightarrow> u = v"
proof
  assume "uuid_string u = uuid_string v"
  then have eq: "hex_digits 32 (unat u) = hex_digits 32 (unat v)"
    unfolding uuid_string_def
    by (rule dashed_inj[of "hex_digits 32 (unat u)" "hex_digits 32 (unat v)",
          OF length_hex_digits length_hex_digits])
  have "unat u = unat v"
    by (rule hex_digits_inj[of "unat u" 32 "unat v", OF unat_uuid_less unat_uuid_less eq])
  then show "u = v" by (simp add: word_unat_eq_iff)
qed simp

lemma length_dashed: "length h = 32 \<Longrightarrow> length (dashed h) = 36"
  by (simp add: dashed_def)

lemma length_uuid_string [simp]: "length (uuid_string u) = 36"
  unfolding uuid_string_def by (rule length_dashed) (rule length_hex_digits)

text \<open>\<open>strconv.FormatInt(n, 10)\<close> on non-negative numbers.\<close>

fun decimal_string :: "nat \<Rightarrow> string" where
  "decimal_string n = (if n < 10 then [digit_char n]
     else decimal_string (n div 10) @ [digit_char (n mod 10)])"

declare decimal_string.simps [simp del]

lemma decimal_string_inj: "decimal_string m = decimal_string n \<Longrightarrow> m = n"
proof (induction m arbitrary: n rule: decimal_string.induct)
  case (1 m)
  have ne: "decimal_string k \<noteq> []" for k by (subst decimal_string.simps) simp
  have small: "decimal_string k = [digit_char k]" if "k < 10" for k
    using that by (simp add: decimal_string.simps)
  have big: "decimal_string k = decimal_string (k div 10) @ [digit_char (k mod 10)]"
    if "\<not> k < 10" for k using that by (subst decimal_string.simps) simp
  have mixed: False if "j < 10" "\<not> k < 10" "decimal_string j = decimal_string k" for j k
    using that ne[of "k div 10"] by (simp add: small big)
  consider "m < 10" "n < 10" | "\<not> m < 10" "\<not> n < 10"
    using mixed[of m n] mixed[of n m] 1(2) by metis
  then show ?case
  proof cases
    case 1
    then show ?thesis using \<open>decimal_string m = decimal_string n\<close> digit_char_inj[of m n]
      by (simp add: small)
  next
    case 2
    then have e: "decimal_string (m div 10) = decimal_string (n div 10)"
      "digit_char (m mod 10) = digit_char (n mod 10)"
      using 1(2) by (simp_all add: big)
    then have "m div 10 = n div 10" using 1(1) 2 by blast
    moreover have "m mod 10 = n mod 10" using e(2) by (intro digit_char_inj) simp_all
    ultimately show ?thesis by (metis div_mult_mod_eq)
  qed
qed

end
