(* ===== verification/GoErrors.thy ===== *)
theory GoErrors
  imports GoText
begin

text \<open>
  Errors as values.  \<open>go_error\<close> has one constructor per sentinel error of the modelled
  packages, \<open>ErrNew\<close> for \<open>errors.New\<close>/\<open>fmt.Errorf\<close> with a fixed text, \<open>ErrWrap\<close> for a
  \<open>%w\<close> wrap and \<open>ErrJoin\<close> for \<open>errors.Join\<close>.  \<open>attempt\<close> is the
  \<open>if err != nil { return err }\<close> sequence.
\<close>

datatype (plugins only: code size) go_error =
    ErrNew string
  | ErrWrap go_error string
  | ErrJoin go_error go_error
  | ErrProvider string
  | ErrCanceled
  | ErrSkipRetry
  | GormRecordNotFound
  | GormDuplicatedKey
  | ErrCheckViolation
  | UnknownEventType
  | InvalidEnvelope string
  | InvalidPayload string
  | InvalidOwner
  | IdentityConflict
  | IdentityUnauthorized
  | IdentityDisabled
  | IdentityInvalidInput
  | IdentityWeakPassword
  | DriveNotFound
  | DriveConflict
  | DriveInvalidInput
  | DriveNotEmpty
  | DriveInvalidCursor
  | DriveCursorStale
  | StorageInvalidOperation
  | StorageExhausted
  | StorageLeaseLost
  | UploadNotFound
  | UploadConflict
  | UploadFileExists
  | UploadNameConflict
  | UploadInvalidInput
  | UploadQuotaExceeded
  | SharingNotFound
  | SharingConflict
  | SharingInvalidInput
  | SharingQuotaExceeded
  | SharingVersionConflict
  | WorkflowInvalid
  | WorkflowConflict
  | WorkflowTransition
  | WorkflowNotFound
  | TaskBusy
  | TaskConflict
  | TaskLeaseLost
  | TaskStorage
  | TaskSucceededEarlier
  | InvalidConsumer

text \<open>\<open>errors.Is(err, target)\<close> for a sentinel target.\<close>

fun errors_is :: "go_error \<Rightarrow> go_error \<Rightarrow> bool" where
  "errors_is (ErrWrap e s) t \<longleftrightarrow> ErrWrap e s = t \<or> errors_is e t"
| "errors_is (ErrJoin a b) t \<longleftrightarrow> ErrJoin a b = t \<or> errors_is a t \<or> errors_is b t"
| "errors_is e t \<longleftrightarrow> e = t"

lemma errors_is_refl [simp]: "errors_is e e"
  by (cases e) simp_all

text \<open>\<open>taskqueue.ErrTaskDead\<close> wraps \<open>SkipRetry\<close>.\<close>

definition err_task_dead :: go_error where
  "err_task_dead = ErrWrap ErrSkipRetry ''taskqueue: terminal execution''"

type_synonym 'a result = "go_error + 'a"

definition attempt :: "'a result \<Rightarrow> ('a \<Rightarrow> 'b result) \<Rightarrow> 'b result" where
  "attempt r k = (case r of Inl e \<Rightarrow> Inl e | Inr x \<Rightarrow> k x)"

text \<open>Translating an error on its way out: \<open>if err != nil { return f(err) }\<close>.\<close>

definition on_error :: "(go_error \<Rightarrow> go_error) \<Rightarrow> 'a result \<Rightarrow> 'a result" where
  "on_error f r = (case r of Inl e \<Rightarrow> Inl (f e) | Inr x \<Rightarrow> Inr x)"

definition found :: "go_error \<Rightarrow> 'a option \<Rightarrow> 'a result" where
  "found e x = (case x of None \<Rightarrow> Inl e | Some v \<Rightarrow> Inr v)"

text \<open>The translation of a unique-index violation that the services share.\<close>

definition duplicated_as :: "go_error \<Rightarrow> go_error \<Rightarrow> go_error" where
  "duplicated_as e err = (if errors_is err GormDuplicatedKey then e else err)"

lemma attempt_simps [simp]: "attempt (Inl e) k = Inl e" "attempt (Inr x) k = k x"
  by (simp_all add: attempt_def)

lemma attempt_eq_Inr_iff: "attempt r k = Inr y \<longleftrightarrow> (\<exists>x. r = Inr x \<and> k x = Inr y)"
  by (cases r) simp_all

lemma attempt_eq_Inl_iff:
  "attempt r k = Inl e \<longleftrightarrow> r = Inl e \<or> (\<exists>x. r = Inr x \<and> k x = Inl e)"
  by (cases r) simp_all

lemma on_error_simps [simp]: "on_error f (Inl e) = Inl (f e)" "on_error f (Inr x) = Inr x"
  by (simp_all add: on_error_def)

lemma on_error_eq_Inr_iff [simp]: "on_error f r = Inr x \<longleftrightarrow> r = Inr x"
  by (cases r) simp_all

lemma on_error_eq_Inl_iff: "on_error f r = Inl e \<longleftrightarrow> (\<exists>e0. r = Inl e0 \<and> e = f e0)"
  by (cases r) auto

lemma found_simps [simp]: "found e None = Inl e" "found e (Some x) = Inr x"
  by (simp_all add: found_def)

lemma found_eq_Inr_iff [simp]: "found e x = Inr v \<longleftrightarrow> x = Some v"
  by (cases x) simp_all

lemma found_eq_Inl_iff: "found e x = Inl e' \<longleftrightarrow> x = None \<and> e' = e"
  by (cases x) auto

lemmas result_iffs = attempt_eq_Inr_iff on_error_eq_Inr_iff found_eq_Inr_iff

text \<open>A guard that returns early.\<close>

lemma if_Inl_eq_Inr_iff [simp]: "(if b then Inl e else r) = Inr x \<longleftrightarrow> \<not> b \<and> r = Inr x"
  by auto

text \<open>Rewrites that turn a successful transaction into its successful steps.\<close>

lemmas tx_steps = attempt_eq_Inr_iff on_error_eq_Inr_iff if_Inl_eq_Inr_iff split_paired_Ex prod.case

section \<open>Machine strings\<close>

definition ascii_space :: "char \<Rightarrow> bool" where
  "ascii_space c \<longleftrightarrow> c = CHR 0x20 \<or> c = CHR 0x09 \<or> c = CHR 0x0A \<or> c = CHR 0x0B \<or>
     c = CHR 0x0C \<or> c = CHR 0x0D"

abbreviation trim_str :: "string \<Rightarrow> string" where
  "trim_str \<equiv> trim_func ascii_space"

end
