(* ===== verification/EventContract.thy ===== *)
theory EventContract
  imports GoErrors
begin

text \<open>
  Package \<open>eventcontract\<close>: the registry of versioned messages, their payload structs with the
  validators, the JSON rendering of a payload at the level of its fields (a list of named leaf
  values in struct order, with \<open>omitempty\<close>), and the construction and validation of envelopes.
  A decoder ignores fields it does not know and leaves missing ones at the zero value, as
  \<open>encoding/json\<close> does.  \<open>ShareUpdatedV1\<close> is the one payload without a \<open>Validate\<close> method.
\<close>

section \<open>Event types\<close>

abbreviation event_file_created :: string where "event_file_created \<equiv> ''file.created.v1''"
abbreviation event_file_updated :: string where "event_file_updated \<equiv> ''file.updated.v1''"
abbreviation event_file_deleted :: string where "event_file_deleted \<equiv> ''file.deleted.v1''"
abbreviation event_folder_created :: string where "event_folder_created \<equiv> ''folder.created.v1''"
abbreviation event_folder_renamed :: string where "event_folder_renamed \<equiv> ''folder.renamed.v1''"
abbreviation event_folder_moved :: string where "event_folder_moved \<equiv> ''folder.moved.v1''"
abbreviation event_folder_deleted :: string where "event_folder_deleted \<equiv> ''folder.deleted.v1''"
abbreviation event_share_created :: string where "event_share_created \<equiv> ''share.created.v1''"
abbreviation event_share_updated :: string where "event_share_updated \<equiv> ''share.updated.v1''"
abbreviation event_share_revoked :: string where "event_share_revoked \<equiv> ''share.revoked.v1''"
abbreviation event_share_imported :: string where "event_share_imported \<equiv> ''share.imported.v1''"
abbreviation event_object_verify_requested :: string where "event_object_verify_requested \<equiv> ''object.verify_requested.v1''"
abbreviation event_object_ready :: string where "event_object_ready \<equiv> ''object.ready.v1''"
abbreviation event_object_gc_requested :: string where "event_object_gc_requested \<equiv> ''object.gc_requested.v1''"
abbreviation event_ai_index_requested :: string where "event_ai_index_requested \<equiv> ''ai.index_requested.v1''"
abbreviation event_ai_indexed :: string where "event_ai_indexed \<equiv> ''ai.indexed.v1''"
abbreviation event_ai_reprocess_requested :: string where "event_ai_reprocess_requested \<equiv> ''ai.reprocess_requested.v1''"
abbreviation event_storage_operation_recover :: string where "event_storage_operation_recover \<equiv> ''storage.operation_recover.v1''"
abbreviation event_upload_operation_recover :: string where "event_upload_operation_recover \<equiv> ''upload.operation_recover.v1''"
abbreviation event_media_thumbnail_requested :: string where "event_media_thumbnail_requested \<equiv> ''media.thumbnail_requested.v1''"

section \<open>Payloads\<close>

datatype (plugins only: code size) payload =
    FileCreatedV1 uuid uuid uuid int
  | FileUpdatedV1 uuid uuid uuid gotext gotext "uuid option" "uuid option" int
  | FileDeletedV1 uuid uuid uuid time int
  | FolderCreatedV1 uuid uuid "uuid option" int
  | FolderRenamedV1 uuid uuid gotext gotext int
  | FolderMovedV1 uuid uuid "uuid option" "uuid option" int
  | FolderDeletedV1 uuid uuid time int
  | ShareCreatedV1 uuid uuid uuid "time option" int
  | ShareUpdatedV1 uuid uuid "time option" int
  | ShareRevokedV1 uuid uuid time int
  | ShareImportedV1 uuid uuid uuid uuid int
  | ObjectVerifyRequestedV1 uuid
  | ObjectReadyV1 uuid "uuid option"
  | ObjectGCRequestedV1 uuid
  | AIIndexRequestedV1 uuid "uuid option" string "uuid option" string string string string
  | AIIndexedV1 uuid uuid
  | AIReprocessRequestedV1 uuid uuid "uuid option" string "uuid option" string string string string
  | StorageOperationRecoverV1 uuid string string
  | UploadOperationRecoverV1 uuid string string
  | MediaThumbnailRequestedV1 uuid

text \<open>Leaf values of a JSON object.\<close>

datatype jvalue = JUuid uuid | JStr string | JText gotext | JTime time | JInt int | JNull
  | JObject "(string \<times> string) list"

type_synonym jfields = "(string \<times> jvalue) list"

datatype json = JsonNull | JsonObject jfields

definition put_uuid :: "string \<Rightarrow> uuid \<Rightarrow> jfields" where "put_uuid k u = [(k, JUuid u)]"
definition put_str :: "string \<Rightarrow> string \<Rightarrow> jfields" where "put_str k s = [(k, JStr s)]"
definition put_text :: "string \<Rightarrow> gotext \<Rightarrow> jfields" where "put_text k s = [(k, JText s)]"
definition put_time :: "string \<Rightarrow> time \<Rightarrow> jfields" where "put_time k t = [(k, JTime t)]"

definition put_str_omit :: "string \<Rightarrow> string \<Rightarrow> jfields" where
  "put_str_omit k s = (if s = [] then [] else [(k, JStr s)])"

definition put_text_omit :: "string \<Rightarrow> gotext \<Rightarrow> jfields" where
  "put_text_omit k s = (if s = [] then [] else [(k, JText s)])"

definition put_int_omit :: "string \<Rightarrow> int \<Rightarrow> jfields" where
  "put_int_omit k n = (if n = 0 then [] else [(k, JInt n)])"

definition put_uuid_opt :: "string \<Rightarrow> uuid option \<Rightarrow> jfields" where
  "put_uuid_opt k u = (case u of None \<Rightarrow> [] | Some v \<Rightarrow> [(k, JUuid v)])"

definition put_time_opt :: "string \<Rightarrow> time option \<Rightarrow> jfields" where
  "put_time_opt k t = (case t of None \<Rightarrow> [] | Some v \<Rightarrow> [(k, JTime v)])"

definition put_time_null :: "string \<Rightarrow> time option \<Rightarrow> jfields" where
  "put_time_null k t = [(k, case t of None \<Rightarrow> JNull | Some v \<Rightarrow> JTime v)]"

text \<open>\<open>time.Time{}\<close>, the first instant of year 1.\<close>

definition zero_time :: time where "zero_time = - 62135596800 * second"

text \<open>Reading one field; \<open>None\<close> is a type mismatch, a missing field or \<open>null\<close> the zero value.\<close>

definition get_uuid :: "string \<Rightarrow> jfields \<Rightarrow> uuid option" where
  "get_uuid k fs = (case map_of fs k of
     None \<Rightarrow> Some 0 | Some JNull \<Rightarrow> Some 0 | Some (JUuid u) \<Rightarrow> Some u | Some _ \<Rightarrow> None)"

definition get_uuid_opt :: "string \<Rightarrow> jfields \<Rightarrow> uuid option option" where
  "get_uuid_opt k fs = (case map_of fs k of
     None \<Rightarrow> Some None | Some JNull \<Rightarrow> Some None | Some (JUuid u) \<Rightarrow> Some (Some u) | Some _ \<Rightarrow> None)"

definition get_str :: "string \<Rightarrow> jfields \<Rightarrow> string option" where
  "get_str k fs = (case map_of fs k of
     None \<Rightarrow> Some [] | Some JNull \<Rightarrow> Some [] | Some (JStr s) \<Rightarrow> Some s | Some _ \<Rightarrow> None)"

definition get_text :: "string \<Rightarrow> jfields \<Rightarrow> gotext option" where
  "get_text k fs = (case map_of fs k of
     None \<Rightarrow> Some [] | Some JNull \<Rightarrow> Some [] | Some (JText s) \<Rightarrow> Some s | Some _ \<Rightarrow> None)"

definition get_time :: "string \<Rightarrow> jfields \<Rightarrow> time option" where
  "get_time k fs = (case map_of fs k of
     None \<Rightarrow> Some zero_time | Some JNull \<Rightarrow> Some zero_time | Some (JTime t) \<Rightarrow> Some t | Some _ \<Rightarrow> None)"

definition get_time_opt :: "string \<Rightarrow> jfields \<Rightarrow> time option option" where
  "get_time_opt k fs = (case map_of fs k of
     None \<Rightarrow> Some None | Some JNull \<Rightarrow> Some None | Some (JTime t) \<Rightarrow> Some (Some t) | Some _ \<Rightarrow> None)"

definition get_int :: "string \<Rightarrow> jfields \<Rightarrow> int option" where
  "get_int k fs = (case map_of fs k of
     None \<Rightarrow> Some 0 | Some JNull \<Rightarrow> Some 0 | Some (JInt n) \<Rightarrow> Some n | Some _ \<Rightarrow> None)"

primrec marshal_payload :: "payload \<Rightarrow> json" where
  "marshal_payload (FileCreatedV1 a b c d) = JsonObject (put_uuid ''owner_id'' a @
     put_uuid ''file_entry_id'' b @ put_uuid ''object_id'' c @ put_int_omit ''content_epoch'' d)"
| "marshal_payload (FileUpdatedV1 a b c d e f g h) = JsonObject (put_uuid ''owner_id'' a @
     put_uuid ''file_entry_id'' b @ put_uuid ''object_id'' c @ put_text_omit ''old_name'' d @
     put_text_omit ''new_name'' e @ put_uuid_opt ''old_folder_id'' f @
     put_uuid_opt ''new_folder_id'' g @ put_int_omit ''content_epoch'' h)"
| "marshal_payload (FileDeletedV1 a b c d e) = JsonObject (put_uuid ''owner_id'' a @
     put_uuid ''file_entry_id'' b @ put_uuid ''object_id'' c @ put_time ''tombstone_at'' d @
     put_int_omit ''content_epoch'' e)"
| "marshal_payload (FolderCreatedV1 a b c d) = JsonObject (put_uuid ''owner_id'' a @
     put_uuid ''folder_id'' b @ put_uuid_opt ''parent_id'' c @ put_int_omit ''content_epoch'' d)"
| "marshal_payload (FolderRenamedV1 a b c d e) = JsonObject (put_uuid ''owner_id'' a @
     put_uuid ''folder_id'' b @ put_text ''old_name'' c @ put_text ''new_name'' d @
     put_int_omit ''content_epoch'' e)"
| "marshal_payload (FolderMovedV1 a b c d e) = JsonObject (put_uuid ''owner_id'' a @
     put_uuid ''folder_id'' b @ put_uuid_opt ''old_parent_id'' c @
     put_uuid_opt ''new_parent_id'' d @ put_int_omit ''content_epoch'' e)"
| "marshal_payload (FolderDeletedV1 a b c d) = JsonObject (put_uuid ''owner_id'' a @
     put_uuid ''folder_id'' b @ put_time ''tombstone_at'' c @ put_int_omit ''content_epoch'' d)"
| "marshal_payload (ShareCreatedV1 a b c d e) = JsonObject (put_uuid ''owner_id'' a @
     put_uuid ''share_id'' b @ put_uuid ''file_entry_id'' c @ put_time_opt ''expires_at'' d @
     put_int_omit ''acl_epoch'' e)"
| "marshal_payload (ShareUpdatedV1 a b c d) = JsonObject (put_uuid ''owner_id'' a @
     put_uuid ''share_id'' b @ put_time_null ''expires_at'' c @ put_int_omit ''acl_epoch'' d)"
| "marshal_payload (ShareRevokedV1 a b c d) = JsonObject (put_uuid ''owner_id'' a @
     put_uuid ''share_id'' b @ put_time ''revoked_at'' c @ put_int_omit ''acl_epoch'' d)"
| "marshal_payload (ShareImportedV1 a b c d e) = JsonObject (put_uuid ''owner_id'' a @
     put_uuid ''share_id'' b @ put_uuid ''file_entry_id'' c @ put_uuid ''object_id'' d @
     put_int_omit ''content_epoch'' e)"
| "marshal_payload (ObjectVerifyRequestedV1 a) = JsonObject (put_uuid ''upload_id'' a)"
| "marshal_payload (ObjectReadyV1 a b) = JsonObject (put_uuid ''object_id'' a @
     put_uuid_opt ''owner_id'' b)"
| "marshal_payload (ObjectGCRequestedV1 a) = JsonObject (put_uuid ''object_id'' a)"
| "marshal_payload (AIIndexRequestedV1 a b c d e f g h) = JsonObject (put_uuid ''object_id'' a @
     put_uuid_opt ''run_id'' b @ put_str_omit ''content_hash'' c @
     put_uuid_opt ''document_version_id'' d @ put_str_omit ''pipeline_version'' e @
     put_str_omit ''model_version'' f @ put_str_omit ''parser_profile_version'' g @
     put_str_omit ''trace_id'' h)"
| "marshal_payload (AIIndexedV1 a b) = JsonObject (put_uuid ''object_id'' a @
     put_uuid ''document_version_id'' b)"
| "marshal_payload (AIReprocessRequestedV1 a b c d e f g h i) = JsonObject (
     put_uuid ''task_id'' a @ put_uuid ''object_id'' b @ put_uuid_opt ''run_id'' c @
     put_str_omit ''content_hash'' d @ put_uuid_opt ''document_version_id'' e @
     put_str_omit ''pipeline_version'' f @ put_str_omit ''model_version'' g @
     put_str_omit ''parser_profile_version'' h @ put_str_omit ''trace_id'' i)"
| "marshal_payload (StorageOperationRecoverV1 a b c) = JsonObject (put_uuid ''operation_id'' a @
     put_str ''operation_type'' b @ put_str ''recovery_key'' c)"
| "marshal_payload (UploadOperationRecoverV1 a b c) = JsonObject (put_uuid ''operation_id'' a @
     put_str ''operation_type'' b @ put_str ''recovery_key'' c)"
| "marshal_payload (MediaThumbnailRequestedV1 a) = JsonObject (put_uuid ''object_id'' a)"

primrec payload_event :: "payload \<Rightarrow> string" where
  "payload_event (FileCreatedV1 a b c d) = event_file_created"
| "payload_event (FileUpdatedV1 a b c d e f g h) = event_file_updated"
| "payload_event (FileDeletedV1 a b c d e) = event_file_deleted"
| "payload_event (FolderCreatedV1 a b c d) = event_folder_created"
| "payload_event (FolderRenamedV1 a b c d e) = event_folder_renamed"
| "payload_event (FolderMovedV1 a b c d e) = event_folder_moved"
| "payload_event (FolderDeletedV1 a b c d) = event_folder_deleted"
| "payload_event (ShareCreatedV1 a b c d e) = event_share_created"
| "payload_event (ShareUpdatedV1 a b c d) = event_share_updated"
| "payload_event (ShareRevokedV1 a b c d) = event_share_revoked"
| "payload_event (ShareImportedV1 a b c d e) = event_share_imported"
| "payload_event (ObjectVerifyRequestedV1 a) = event_object_verify_requested"
| "payload_event (ObjectReadyV1 a b) = event_object_ready"
| "payload_event (ObjectGCRequestedV1 a) = event_object_gc_requested"
| "payload_event (AIIndexRequestedV1 a b c d e f g h) = event_ai_index_requested"
| "payload_event (AIIndexedV1 a b) = event_ai_indexed"
| "payload_event (AIReprocessRequestedV1 a b c d e f g h i) = event_ai_reprocess_requested"
| "payload_event (StorageOperationRecoverV1 a b c) = event_storage_operation_recover"
| "payload_event (UploadOperationRecoverV1 a b c) = event_upload_operation_recover"
| "payload_event (MediaThumbnailRequestedV1 a) = event_media_thumbnail_requested"

text \<open>The \<open>Validate\<close> methods: the message of the first failing requirement.\<close>

definition require_uuid :: "string \<Rightarrow> uuid \<Rightarrow> string option" where
  "require_uuid name u = (if u = 0 then Some (name @ '' is required'') else None)"

definition require_time :: "string \<Rightarrow> time \<Rightarrow> string option" where
  "require_time name t = (if t = zero_time then Some (name @ '' is required'') else None)"

definition require_names :: "gotext \<Rightarrow> gotext \<Rightarrow> string option" where
  "require_names a b =
     (if trim_space a = [] \<or> trim_space b = []
      then Some ''old_name and new_name are required'' else None)"

fun first_error :: "string option list \<Rightarrow> string option" where
  "first_error [] = None"
| "first_error (None # es) = first_error es"
| "first_error (Some e # es) = Some e"

definition validate_operation_recover :: "uuid \<Rightarrow> string \<Rightarrow> string \<Rightarrow> string option" where
  "validate_operation_recover op ty key = first_error
     [require_uuid ''operation_id'' op,
      if trim_str ty = [] then Some ''operation_type is required'' else None,
      if trim_str key = [] then Some ''recovery_key is required'' else None]"

primrec validate_payload :: "payload \<Rightarrow> string option" where
  "validate_payload (FileCreatedV1 a b c d) = first_error
     [require_uuid ''owner_id'' a,
      require_uuid ''file_entry_id'' b,
      require_uuid ''object_id'' c]"
| "validate_payload (FileUpdatedV1 a b c d e f g h) = first_error
     [require_uuid ''owner_id'' a,
      require_uuid ''file_entry_id'' b,
      require_uuid ''object_id'' c,
      if trim_space d = [] \<and> trim_space e = [] \<and> f = None \<and> g = None
      then Some ''file update must carry name or folder changes'' else None]"
| "validate_payload (FileDeletedV1 a b c d e) = first_error
     [require_uuid ''owner_id'' a,
      require_uuid ''file_entry_id'' b,
      require_uuid ''object_id'' c,
      require_time ''tombstone_at'' d]"
| "validate_payload (FolderCreatedV1 a b c d) = first_error
     [require_uuid ''owner_id'' a,
      require_uuid ''folder_id'' b]"
| "validate_payload (FolderRenamedV1 a b c d e) = first_error
     [require_uuid ''owner_id'' a,
      require_uuid ''folder_id'' b,
      require_names c d]"
| "validate_payload (FolderMovedV1 a b c d e) = first_error
     [require_uuid ''owner_id'' a,
      require_uuid ''folder_id'' b,
      if c = None \<and> d = None then Some ''folder move must carry parent changes'' else None]"
| "validate_payload (FolderDeletedV1 a b c d) = first_error
     [require_uuid ''owner_id'' a,
      require_uuid ''folder_id'' b,
      require_time ''tombstone_at'' c]"
| "validate_payload (ShareCreatedV1 a b c d e) = first_error
     [require_uuid ''owner_id'' a,
      require_uuid ''share_id'' b,
      require_uuid ''file_entry_id'' c]"
| "validate_payload (ShareUpdatedV1 a b c d) = None"
| "validate_payload (ShareRevokedV1 a b c d) = first_error
     [require_uuid ''owner_id'' a,
      require_uuid ''share_id'' b,
      require_time ''revoked_at'' c]"
| "validate_payload (ShareImportedV1 a b c d e) = first_error
     [require_uuid ''owner_id'' a,
      require_uuid ''share_id'' b,
      require_uuid ''file_entry_id'' c,
      require_uuid ''object_id'' d]"
| "validate_payload (ObjectVerifyRequestedV1 a) = require_uuid ''upload_id'' a"
| "validate_payload (ObjectReadyV1 a b) = require_uuid ''object_id'' a"
| "validate_payload (ObjectGCRequestedV1 a) = require_uuid ''object_id'' a"
| "validate_payload (AIIndexRequestedV1 a b c d e f g h) = require_uuid ''object_id'' a"
| "validate_payload (AIIndexedV1 a b) = first_error
     [require_uuid ''object_id'' a,
      require_uuid ''document_version_id'' b]"
| "validate_payload (AIReprocessRequestedV1 a b c d e f g h i) = first_error
     [require_uuid ''task_id'' a,
      require_uuid ''object_id'' b]"
| "validate_payload (StorageOperationRecoverV1 a b c) = validate_operation_recover a b c"
| "validate_payload (UploadOperationRecoverV1 a b c) = validate_operation_recover a b c"
| "validate_payload (MediaThumbnailRequestedV1 a) = require_uuid ''object_id'' a"

section \<open>Decoders\<close>

text \<open>\<open>json.Unmarshal\<close> into each struct of the registry (\<open>NewPayload\<close> of its definition).\<close>

definition unmarshal_file_created :: "jfields \<Rightarrow> payload option" where
  "unmarshal_file_created fs =
       Option.bind (get_uuid ''owner_id'' fs) (\<lambda>a.
       Option.bind (get_uuid ''file_entry_id'' fs) (\<lambda>b.
       Option.bind (get_uuid ''object_id'' fs) (\<lambda>c.
       Option.bind (get_int ''content_epoch'' fs) (\<lambda>d.
         Some (FileCreatedV1 a b c d)))))"

definition unmarshal_file_updated :: "jfields \<Rightarrow> payload option" where
  "unmarshal_file_updated fs =
       Option.bind (get_uuid ''owner_id'' fs) (\<lambda>a.
       Option.bind (get_uuid ''file_entry_id'' fs) (\<lambda>b.
       Option.bind (get_uuid ''object_id'' fs) (\<lambda>c.
       Option.bind (get_text ''old_name'' fs) (\<lambda>d.
       Option.bind (get_text ''new_name'' fs) (\<lambda>e.
       Option.bind (get_uuid_opt ''old_folder_id'' fs) (\<lambda>f.
       Option.bind (get_uuid_opt ''new_folder_id'' fs) (\<lambda>g.
       Option.bind (get_int ''content_epoch'' fs) (\<lambda>h.
         Some (FileUpdatedV1 a b c d e f g h)))))))))"

definition unmarshal_file_deleted :: "jfields \<Rightarrow> payload option" where
  "unmarshal_file_deleted fs =
       Option.bind (get_uuid ''owner_id'' fs) (\<lambda>a.
       Option.bind (get_uuid ''file_entry_id'' fs) (\<lambda>b.
       Option.bind (get_uuid ''object_id'' fs) (\<lambda>c.
       Option.bind (get_time ''tombstone_at'' fs) (\<lambda>d.
       Option.bind (get_int ''content_epoch'' fs) (\<lambda>e.
         Some (FileDeletedV1 a b c d e))))))"

definition unmarshal_folder_created :: "jfields \<Rightarrow> payload option" where
  "unmarshal_folder_created fs =
       Option.bind (get_uuid ''owner_id'' fs) (\<lambda>a.
       Option.bind (get_uuid ''folder_id'' fs) (\<lambda>b.
       Option.bind (get_uuid_opt ''parent_id'' fs) (\<lambda>c.
       Option.bind (get_int ''content_epoch'' fs) (\<lambda>d.
         Some (FolderCreatedV1 a b c d)))))"

definition unmarshal_folder_renamed :: "jfields \<Rightarrow> payload option" where
  "unmarshal_folder_renamed fs =
       Option.bind (get_uuid ''owner_id'' fs) (\<lambda>a.
       Option.bind (get_uuid ''folder_id'' fs) (\<lambda>b.
       Option.bind (get_text ''old_name'' fs) (\<lambda>c.
       Option.bind (get_text ''new_name'' fs) (\<lambda>d.
       Option.bind (get_int ''content_epoch'' fs) (\<lambda>e.
         Some (FolderRenamedV1 a b c d e))))))"

definition unmarshal_folder_moved :: "jfields \<Rightarrow> payload option" where
  "unmarshal_folder_moved fs =
       Option.bind (get_uuid ''owner_id'' fs) (\<lambda>a.
       Option.bind (get_uuid ''folder_id'' fs) (\<lambda>b.
       Option.bind (get_uuid_opt ''old_parent_id'' fs) (\<lambda>c.
       Option.bind (get_uuid_opt ''new_parent_id'' fs) (\<lambda>d.
       Option.bind (get_int ''content_epoch'' fs) (\<lambda>e.
         Some (FolderMovedV1 a b c d e))))))"

definition unmarshal_folder_deleted :: "jfields \<Rightarrow> payload option" where
  "unmarshal_folder_deleted fs =
       Option.bind (get_uuid ''owner_id'' fs) (\<lambda>a.
       Option.bind (get_uuid ''folder_id'' fs) (\<lambda>b.
       Option.bind (get_time ''tombstone_at'' fs) (\<lambda>c.
       Option.bind (get_int ''content_epoch'' fs) (\<lambda>d.
         Some (FolderDeletedV1 a b c d)))))"

definition unmarshal_share_created :: "jfields \<Rightarrow> payload option" where
  "unmarshal_share_created fs =
       Option.bind (get_uuid ''owner_id'' fs) (\<lambda>a.
       Option.bind (get_uuid ''share_id'' fs) (\<lambda>b.
       Option.bind (get_uuid ''file_entry_id'' fs) (\<lambda>c.
       Option.bind (get_time_opt ''expires_at'' fs) (\<lambda>d.
       Option.bind (get_int ''acl_epoch'' fs) (\<lambda>e.
         Some (ShareCreatedV1 a b c d e))))))"

definition unmarshal_share_updated :: "jfields \<Rightarrow> payload option" where
  "unmarshal_share_updated fs =
       Option.bind (get_uuid ''owner_id'' fs) (\<lambda>a.
       Option.bind (get_uuid ''share_id'' fs) (\<lambda>b.
       Option.bind (get_time_opt ''expires_at'' fs) (\<lambda>c.
       Option.bind (get_int ''acl_epoch'' fs) (\<lambda>d.
         Some (ShareUpdatedV1 a b c d)))))"

definition unmarshal_share_revoked :: "jfields \<Rightarrow> payload option" where
  "unmarshal_share_revoked fs =
       Option.bind (get_uuid ''owner_id'' fs) (\<lambda>a.
       Option.bind (get_uuid ''share_id'' fs) (\<lambda>b.
       Option.bind (get_time ''revoked_at'' fs) (\<lambda>c.
       Option.bind (get_int ''acl_epoch'' fs) (\<lambda>d.
         Some (ShareRevokedV1 a b c d)))))"

definition unmarshal_share_imported :: "jfields \<Rightarrow> payload option" where
  "unmarshal_share_imported fs =
       Option.bind (get_uuid ''owner_id'' fs) (\<lambda>a.
       Option.bind (get_uuid ''share_id'' fs) (\<lambda>b.
       Option.bind (get_uuid ''file_entry_id'' fs) (\<lambda>c.
       Option.bind (get_uuid ''object_id'' fs) (\<lambda>d.
       Option.bind (get_int ''content_epoch'' fs) (\<lambda>e.
         Some (ShareImportedV1 a b c d e))))))"

definition unmarshal_object_verify_requested :: "jfields \<Rightarrow> payload option" where
  "unmarshal_object_verify_requested fs =
       Option.bind (get_uuid ''upload_id'' fs) (\<lambda>a.
         Some (ObjectVerifyRequestedV1 a))"

definition unmarshal_object_ready :: "jfields \<Rightarrow> payload option" where
  "unmarshal_object_ready fs =
       Option.bind (get_uuid ''object_id'' fs) (\<lambda>a.
       Option.bind (get_uuid_opt ''owner_id'' fs) (\<lambda>b.
         Some (ObjectReadyV1 a b)))"

definition unmarshal_object_gc_requested :: "jfields \<Rightarrow> payload option" where
  "unmarshal_object_gc_requested fs =
       Option.bind (get_uuid ''object_id'' fs) (\<lambda>a.
         Some (ObjectGCRequestedV1 a))"

definition unmarshal_ai_index_requested :: "jfields \<Rightarrow> payload option" where
  "unmarshal_ai_index_requested fs =
       Option.bind (get_uuid ''object_id'' fs) (\<lambda>a.
       Option.bind (get_uuid_opt ''run_id'' fs) (\<lambda>b.
       Option.bind (get_str ''content_hash'' fs) (\<lambda>c.
       Option.bind (get_uuid_opt ''document_version_id'' fs) (\<lambda>d.
       Option.bind (get_str ''pipeline_version'' fs) (\<lambda>e.
       Option.bind (get_str ''model_version'' fs) (\<lambda>f.
       Option.bind (get_str ''parser_profile_version'' fs) (\<lambda>g.
       Option.bind (get_str ''trace_id'' fs) (\<lambda>h.
         Some (AIIndexRequestedV1 a b c d e f g h)))))))))"

definition unmarshal_ai_indexed :: "jfields \<Rightarrow> payload option" where
  "unmarshal_ai_indexed fs =
       Option.bind (get_uuid ''object_id'' fs) (\<lambda>a.
       Option.bind (get_uuid ''document_version_id'' fs) (\<lambda>b.
         Some (AIIndexedV1 a b)))"

definition unmarshal_ai_reprocess_requested :: "jfields \<Rightarrow> payload option" where
  "unmarshal_ai_reprocess_requested fs =
       Option.bind (get_uuid ''task_id'' fs) (\<lambda>a.
       Option.bind (get_uuid ''object_id'' fs) (\<lambda>b.
       Option.bind (get_uuid_opt ''run_id'' fs) (\<lambda>c.
       Option.bind (get_str ''content_hash'' fs) (\<lambda>d.
       Option.bind (get_uuid_opt ''document_version_id'' fs) (\<lambda>e.
       Option.bind (get_str ''pipeline_version'' fs) (\<lambda>f.
       Option.bind (get_str ''model_version'' fs) (\<lambda>g.
       Option.bind (get_str ''parser_profile_version'' fs) (\<lambda>h.
       Option.bind (get_str ''trace_id'' fs) (\<lambda>i.
         Some (AIReprocessRequestedV1 a b c d e f g h i))))))))))"

definition unmarshal_storage_operation_recover :: "jfields \<Rightarrow> payload option" where
  "unmarshal_storage_operation_recover fs =
       Option.bind (get_uuid ''operation_id'' fs) (\<lambda>a.
       Option.bind (get_str ''operation_type'' fs) (\<lambda>b.
       Option.bind (get_str ''recovery_key'' fs) (\<lambda>c.
         Some (StorageOperationRecoverV1 a b c))))"

definition unmarshal_upload_operation_recover :: "jfields \<Rightarrow> payload option" where
  "unmarshal_upload_operation_recover fs =
       Option.bind (get_uuid ''operation_id'' fs) (\<lambda>a.
       Option.bind (get_str ''operation_type'' fs) (\<lambda>b.
       Option.bind (get_str ''recovery_key'' fs) (\<lambda>c.
         Some (UploadOperationRecoverV1 a b c))))"

definition unmarshal_media_thumbnail_requested :: "jfields \<Rightarrow> payload option" where
  "unmarshal_media_thumbnail_requested fs =
       Option.bind (get_uuid ''object_id'' fs) (\<lambda>a.
         Some (MediaThumbnailRequestedV1 a))"

section \<open>Registry\<close>

datatype message_kind = DomainEvent | Command

record event_definition =
  def_event_type :: string
  def_message_kind :: message_kind
  def_event_version :: int
  def_aggregate_type :: string
  def_decode :: "jfields \<Rightarrow> payload option"

definition mk_definition :: "string \<Rightarrow> message_kind \<Rightarrow> string \<Rightarrow>
    (jfields \<Rightarrow> payload option) \<Rightarrow> string \<times> event_definition" where
  "mk_definition et kind agg dec =
     (et, \<lparr> def_event_type = et, def_message_kind = kind, def_event_version = 1,
           def_aggregate_type = agg, def_decode = dec \<rparr>)"

definition definitions :: "(string \<times> event_definition) list" where
  "definitions = [
     mk_definition event_file_created DomainEvent ''file_entry'' unmarshal_file_created,
     mk_definition event_file_updated DomainEvent ''file_entry'' unmarshal_file_updated,
     mk_definition event_file_deleted DomainEvent ''file_entry'' unmarshal_file_deleted,
     mk_definition event_folder_created DomainEvent ''folder'' unmarshal_folder_created,
     mk_definition event_folder_renamed DomainEvent ''folder'' unmarshal_folder_renamed,
     mk_definition event_folder_moved DomainEvent ''folder'' unmarshal_folder_moved,
     mk_definition event_folder_deleted DomainEvent ''folder'' unmarshal_folder_deleted,
     mk_definition event_share_created DomainEvent ''share'' unmarshal_share_created,
     mk_definition event_share_updated DomainEvent ''share'' unmarshal_share_updated,
     mk_definition event_share_revoked DomainEvent ''share'' unmarshal_share_revoked,
     mk_definition event_share_imported DomainEvent ''share'' unmarshal_share_imported,
     mk_definition event_object_verify_requested Command ''upload_session'' unmarshal_object_verify_requested,
     mk_definition event_object_ready DomainEvent ''file_object'' unmarshal_object_ready,
     mk_definition event_object_gc_requested Command ''file_object'' unmarshal_object_gc_requested,
     mk_definition event_ai_index_requested Command ''file_object'' unmarshal_ai_index_requested,
     mk_definition event_ai_indexed DomainEvent ''file_object'' unmarshal_ai_indexed,
     mk_definition event_ai_reprocess_requested Command ''ai_task'' unmarshal_ai_reprocess_requested,
     mk_definition event_storage_operation_recover Command ''storage_operation'' unmarshal_storage_operation_recover,
     mk_definition event_upload_operation_recover Command ''storage_operation'' unmarshal_upload_operation_recover,
     mk_definition event_media_thumbnail_requested Command ''file_object'' unmarshal_media_thumbnail_requested]"

definition lookup_event :: "string \<Rightarrow> event_definition option" where
  "lookup_event et = map_of definitions et"

section \<open>Decoding\<close>

definition decode_payload :: "string \<Rightarrow> json \<Rightarrow> payload result" where
  "decode_payload et data =
     (let e = trim_str et in
      case lookup_event e of
        None \<Rightarrow> Inl UnknownEventType
      | Some d \<Rightarrow>
         (case data of
            JsonNull \<Rightarrow> Inl (InvalidPayload '' is empty'')
          | JsonObject fs \<Rightarrow>
             (case def_decode d fs of
                None \<Rightarrow> Inl (InvalidPayload ''decode'')
              | Some p \<Rightarrow>
                 (case validate_payload p of
                    Some msg \<Rightarrow> Inl (InvalidPayload msg)
                  | None \<Rightarrow> Inr p))))"

section \<open>Envelopes\<close>

record trace_context =
  traceparent :: string
  tracestate :: string

record envelope =
  en_event_id :: uuid
  en_event_type :: string
  en_message_kind :: "message_kind option"
  en_event_version :: int
  en_aggregate_type :: string
  en_aggregate_id :: uuid
  en_aggregate_version :: "int option"
  en_producer :: string
  en_occurred_at :: time
  en_trace :: "trace_context option"
  en_payload :: json

text \<open>\<open>EnvelopeInput\<close>; \<open>in_message_kind = None\<close> is the empty string.\<close>

record envelope_input =
  in_event_id :: uuid
  in_event_type :: string
  in_message_kind :: "message_kind option"
  in_event_version :: int
  in_aggregate_type :: string
  in_aggregate_id :: uuid
  in_aggregate_version :: int
  in_producer :: string
  in_occurred_at :: time
  in_trace :: "trace_context option"
  in_payload :: json

definition validate_envelope :: "envelope \<Rightarrow> go_error option" where
  "validate_envelope e =
     (if en_event_id e = 0 then Some (InvalidEnvelope ''event_id is required'')
      else case lookup_event (trim_str (en_event_type e)) of
        None \<Rightarrow> Some UnknownEventType
      | Some d \<Rightarrow>
         if en_message_kind e \<noteq> Some (def_message_kind d)
           then Some (InvalidEnvelope ''message_kind does not match'')
         else if en_event_version e \<noteq> def_event_version d
           then Some (InvalidEnvelope ''event_version does not match'')
         else if trim_str (en_aggregate_type e) = []
           then Some (InvalidEnvelope ''aggregate_type is required'')
         else if def_aggregate_type d \<noteq> [] \<and> en_aggregate_type e \<noteq> def_aggregate_type d
           then Some (InvalidEnvelope ''aggregate_type does not match'')
         else if en_aggregate_id e = 0 then Some (InvalidEnvelope ''aggregate_id is required'')
         else if (case en_aggregate_version e of None \<Rightarrow> False | Some v \<Rightarrow> v \<le> 0)
           then Some (InvalidEnvelope ''aggregate_version must be positive'')
         else if trim_str (en_producer e) = [] then Some (InvalidEnvelope ''producer is required'')
         else if en_occurred_at e = zero_time
           then Some (InvalidEnvelope ''occurred_at is required'')
         else if (case en_trace e of None \<Rightarrow> False
                  | Some t \<Rightarrow> traceparent t = [] \<and> tracestate t = [])
           then Some (InvalidEnvelope ''trace must contain traceparent or tracestate'')
         else if en_payload e = JsonNull then Some (InvalidEnvelope ''payload is required'')
         else (case decode_payload (trim_str (en_event_type e)) (en_payload e) of
                 Inl err \<Rightarrow> Some err
               | Inr _ \<Rightarrow> None))"

text \<open>\<open>New\<close>; \<open>fresh\<close> is the identifier \<open>uuid.NewV7\<close> would return and \<open>now\<close> the clock.\<close>

definition new_envelope :: "uuid \<Rightarrow> time \<Rightarrow> envelope_input \<Rightarrow> envelope result" where
  "new_envelope fresh now i =
     (let et = trim_str (in_event_type i) in
      case lookup_event et of
        None \<Rightarrow> Inl UnknownEventType
      | Some d \<Rightarrow>
         (let agg = (if trim_str (in_aggregate_type i) = [] then def_aggregate_type d
                     else in_aggregate_type i);
              e = \<lparr> en_event_id = (if in_event_id i = 0 then fresh else in_event_id i),
                    en_event_type = et,
                    en_message_kind = (case in_message_kind i of
                        None \<Rightarrow> Some (def_message_kind d) | Some k \<Rightarrow> Some k),
                    en_event_version = (if in_event_version i = 0 then def_event_version d
                                        else in_event_version i),
                    en_aggregate_type = trim_str agg,
                    en_aggregate_id = in_aggregate_id i,
                    en_aggregate_version = Some (in_aggregate_version i),
                    en_producer = trim_str (in_producer i),
                    en_occurred_at = (if in_occurred_at i = zero_time then now
                                      else in_occurred_at i),
                    en_trace = in_trace i,
                    en_payload = in_payload i \<rparr>
          in case validate_envelope e of Some err \<Rightarrow> Inl err | None \<Rightarrow> Inr e))"

section \<open>Properties\<close>

lemmas put_defs = put_uuid_def put_str_def put_text_def put_time_def put_str_omit_def
  put_text_omit_def put_int_omit_def put_uuid_opt_def put_time_opt_def put_time_null_def

lemmas get_defs = get_uuid_def get_uuid_opt_def get_str_def get_text_def get_time_def
  get_time_opt_def get_int_def

text \<open>Reading back the field a \<open>put\<close> wrote, with other fields around it.\<close>

lemma get_put_hit:
  "get_uuid k (put_uuid k u @ fs) = Some u"
  "get_str k (put_str k s @ fs) = Some s"
  "get_text k (put_text k x @ fs) = Some x"
  "get_time k (put_time k t @ fs) = Some t"
  "get_time_opt k (put_time_null k t' @ fs) = Some t'"
  by (simp_all add: put_defs get_defs split: option.split)

definition foreign :: "string \<Rightarrow> jfields \<Rightarrow> bool" where
  "foreign k fs \<longleftrightarrow> map_of fs k = None"

lemma get_put_hit_omit:
  assumes "foreign k fs"
  shows "get_str k (put_str_omit k s @ fs) = Some s"
    "get_text k (put_text_omit k x @ fs) = Some x"
    "get_int k (put_int_omit k n @ fs) = Some n"
    "get_uuid_opt k (put_uuid_opt k u' @ fs) = Some u'"
    "get_time_opt k (put_time_opt k t' @ fs) = Some t'"
  using assms by (simp_all add: foreign_def put_defs get_defs split: option.split)

lemma map_of_put_miss:
  assumes "k \<noteq> j"
  shows "map_of (put_uuid j u @ fs) k = map_of fs k" "map_of (put_str j s @ fs) k = map_of fs k"
    "map_of (put_text j x @ fs) k = map_of fs k" "map_of (put_time j t @ fs) k = map_of fs k"
    "map_of (put_time_null j t' @ fs) k = map_of fs k"
    "map_of (put_str_omit j s @ fs) k = map_of fs k"
    "map_of (put_text_omit j x @ fs) k = map_of fs k"
    "map_of (put_int_omit j n @ fs) k = map_of fs k"
    "map_of (put_uuid_opt j u' @ fs) k = map_of fs k"
    "map_of (put_time_opt j t' @ fs) k = map_of fs k"
  using assms by (simp_all add: put_defs split: option.split)

lemma map_of_put_miss_last:
  assumes "k \<noteq> j"
  shows "map_of (put_uuid j u) k = None" "map_of (put_str j s) k = None"
    "map_of (put_text j x) k = None" "map_of (put_time j t) k = None"
    "map_of (put_time_null j t') k = None" "map_of (put_str_omit j s) k = None"
    "map_of (put_text_omit j x) k = None" "map_of (put_int_omit j n) k = None"
    "map_of (put_uuid_opt j u') k = None" "map_of (put_time_opt j t') k = None"
  using assms by (simp_all add: put_defs split: option.split)

lemma get_put_last:
  "get_uuid k (put_uuid k u) = Some u" "get_str k (put_str k s) = Some s"
  "get_text k (put_text k x) = Some x" "get_time k (put_time k t) = Some t"
  "get_time_opt k (put_time_null k t') = Some t'" "get_str k (put_str_omit k s) = Some s"
  "get_text k (put_text_omit k x) = Some x" "get_int k (put_int_omit k n) = Some n"
  "get_uuid_opt k (put_uuid_opt k u') = Some u'" "get_time_opt k (put_time_opt k t') = Some t'"
  by (simp_all add: put_defs get_defs split: option.split)

lemma get_uuid_miss:
  assumes "k \<noteq> j"
  shows "get_uuid k (put_uuid j u @ fs) = get_uuid k fs"
    "get_uuid k (put_str j s @ fs) = get_uuid k fs"
    "get_uuid k (put_text j x @ fs) = get_uuid k fs"
    "get_uuid k (put_time j t @ fs) = get_uuid k fs"
    "get_uuid k (put_time_null j t' @ fs) = get_uuid k fs"
    "get_uuid k (put_str_omit j s @ fs) = get_uuid k fs"
    "get_uuid k (put_text_omit j x @ fs) = get_uuid k fs"
    "get_uuid k (put_int_omit j n @ fs) = get_uuid k fs"
    "get_uuid k (put_uuid_opt j u' @ fs) = get_uuid k fs"
    "get_uuid k (put_time_opt j t' @ fs) = get_uuid k fs"
  by (simp_all only: get_uuid_def map_of_put_miss[OF assms])

lemma get_uuid_opt_miss:
  assumes "k \<noteq> j"
  shows "get_uuid_opt k (put_uuid j u @ fs) = get_uuid_opt k fs"
    "get_uuid_opt k (put_str j s @ fs) = get_uuid_opt k fs"
    "get_uuid_opt k (put_text j x @ fs) = get_uuid_opt k fs"
    "get_uuid_opt k (put_time j t @ fs) = get_uuid_opt k fs"
    "get_uuid_opt k (put_time_null j t' @ fs) = get_uuid_opt k fs"
    "get_uuid_opt k (put_str_omit j s @ fs) = get_uuid_opt k fs"
    "get_uuid_opt k (put_text_omit j x @ fs) = get_uuid_opt k fs"
    "get_uuid_opt k (put_int_omit j n @ fs) = get_uuid_opt k fs"
    "get_uuid_opt k (put_uuid_opt j u' @ fs) = get_uuid_opt k fs"
    "get_uuid_opt k (put_time_opt j t' @ fs) = get_uuid_opt k fs"
  by (simp_all only: get_uuid_opt_def map_of_put_miss[OF assms])

lemma get_str_miss:
  assumes "k \<noteq> j"
  shows "get_str k (put_uuid j u @ fs) = get_str k fs"
    "get_str k (put_str j s @ fs) = get_str k fs"
    "get_str k (put_text j x @ fs) = get_str k fs"
    "get_str k (put_time j t @ fs) = get_str k fs"
    "get_str k (put_time_null j t' @ fs) = get_str k fs"
    "get_str k (put_str_omit j s @ fs) = get_str k fs"
    "get_str k (put_text_omit j x @ fs) = get_str k fs"
    "get_str k (put_int_omit j n @ fs) = get_str k fs"
    "get_str k (put_uuid_opt j u' @ fs) = get_str k fs"
    "get_str k (put_time_opt j t' @ fs) = get_str k fs"
  by (simp_all only: get_str_def map_of_put_miss[OF assms])

lemma get_text_miss:
  assumes "k \<noteq> j"
  shows "get_text k (put_uuid j u @ fs) = get_text k fs"
    "get_text k (put_str j s @ fs) = get_text k fs"
    "get_text k (put_text j x @ fs) = get_text k fs"
    "get_text k (put_time j t @ fs) = get_text k fs"
    "get_text k (put_time_null j t' @ fs) = get_text k fs"
    "get_text k (put_str_omit j s @ fs) = get_text k fs"
    "get_text k (put_text_omit j x @ fs) = get_text k fs"
    "get_text k (put_int_omit j n @ fs) = get_text k fs"
    "get_text k (put_uuid_opt j u' @ fs) = get_text k fs"
    "get_text k (put_time_opt j t' @ fs) = get_text k fs"
  by (simp_all only: get_text_def map_of_put_miss[OF assms])

lemma get_time_miss:
  assumes "k \<noteq> j"
  shows "get_time k (put_uuid j u @ fs) = get_time k fs"
    "get_time k (put_str j s @ fs) = get_time k fs"
    "get_time k (put_text j x @ fs) = get_time k fs"
    "get_time k (put_time j t @ fs) = get_time k fs"
    "get_time k (put_time_null j t' @ fs) = get_time k fs"
    "get_time k (put_str_omit j s @ fs) = get_time k fs"
    "get_time k (put_text_omit j x @ fs) = get_time k fs"
    "get_time k (put_int_omit j n @ fs) = get_time k fs"
    "get_time k (put_uuid_opt j u' @ fs) = get_time k fs"
    "get_time k (put_time_opt j t' @ fs) = get_time k fs"
  by (simp_all only: get_time_def map_of_put_miss[OF assms])

lemma get_time_opt_miss:
  assumes "k \<noteq> j"
  shows "get_time_opt k (put_uuid j u @ fs) = get_time_opt k fs"
    "get_time_opt k (put_str j s @ fs) = get_time_opt k fs"
    "get_time_opt k (put_text j x @ fs) = get_time_opt k fs"
    "get_time_opt k (put_time j t @ fs) = get_time_opt k fs"
    "get_time_opt k (put_time_null j t' @ fs) = get_time_opt k fs"
    "get_time_opt k (put_str_omit j s @ fs) = get_time_opt k fs"
    "get_time_opt k (put_text_omit j x @ fs) = get_time_opt k fs"
    "get_time_opt k (put_int_omit j n @ fs) = get_time_opt k fs"
    "get_time_opt k (put_uuid_opt j u' @ fs) = get_time_opt k fs"
    "get_time_opt k (put_time_opt j t' @ fs) = get_time_opt k fs"
  by (simp_all only: get_time_opt_def map_of_put_miss[OF assms])

lemma get_int_miss:
  assumes "k \<noteq> j"
  shows "get_int k (put_uuid j u @ fs) = get_int k fs"
    "get_int k (put_str j s @ fs) = get_int k fs"
    "get_int k (put_text j x @ fs) = get_int k fs"
    "get_int k (put_time j t @ fs) = get_int k fs"
    "get_int k (put_time_null j t' @ fs) = get_int k fs"
    "get_int k (put_str_omit j s @ fs) = get_int k fs"
    "get_int k (put_text_omit j x @ fs) = get_int k fs"
    "get_int k (put_int_omit j n @ fs) = get_int k fs"
    "get_int k (put_uuid_opt j u' @ fs) = get_int k fs"
    "get_int k (put_time_opt j t' @ fs) = get_int k fs"
  by (simp_all only: get_int_def map_of_put_miss[OF assms])

lemma foreign_miss:
  assumes "k \<noteq> j"
  shows "foreign k (put_uuid j u @ fs) = foreign k fs"
    "foreign k (put_str j s @ fs) = foreign k fs"
    "foreign k (put_text j x @ fs) = foreign k fs"
    "foreign k (put_time j t @ fs) = foreign k fs"
    "foreign k (put_time_null j t' @ fs) = foreign k fs"
    "foreign k (put_str_omit j s @ fs) = foreign k fs"
    "foreign k (put_text_omit j x @ fs) = foreign k fs"
    "foreign k (put_int_omit j n @ fs) = foreign k fs"
    "foreign k (put_uuid_opt j u' @ fs) = foreign k fs"
    "foreign k (put_time_opt j t' @ fs) = foreign k fs"
  by (simp_all only: foreign_def map_of_put_miss[OF assms])

lemma foreign_last:
  assumes "k \<noteq> j"
  shows "foreign k (put_uuid j u)"
    "foreign k (put_str j s)"
    "foreign k (put_text j x)"
    "foreign k (put_time j t)"
    "foreign k (put_time_null j t')"
    "foreign k (put_str_omit j s)"
    "foreign k (put_text_omit j x)"
    "foreign k (put_int_omit j n)"
    "foreign k (put_uuid_opt j u')"
    "foreign k (put_time_opt j t')"
  using assms by (simp_all add: foreign_def map_of_put_miss_last)

lemmas field_rules = get_put_hit get_put_hit_omit get_put_last get_uuid_miss get_uuid_opt_miss
  get_str_miss get_text_miss get_time_miss get_time_opt_miss get_int_miss foreign_miss foreign_last

lemmas unmarshal_defs =
  unmarshal_file_created_def
  unmarshal_file_updated_def
  unmarshal_file_deleted_def
  unmarshal_folder_created_def
  unmarshal_folder_renamed_def
  unmarshal_folder_moved_def
  unmarshal_folder_deleted_def
  unmarshal_share_created_def
  unmarshal_share_updated_def
  unmarshal_share_revoked_def
  unmarshal_share_imported_def
  unmarshal_object_verify_requested_def
  unmarshal_object_ready_def
  unmarshal_object_gc_requested_def
  unmarshal_ai_index_requested_def
  unmarshal_ai_indexed_def
  unmarshal_ai_reprocess_requested_def
  unmarshal_storage_operation_recover_def
  unmarshal_upload_operation_recover_def
  unmarshal_media_thumbnail_requested_def

lemma definitions_distinct: "distinct (map fst definitions)"
  by code_simp

lemma lookup_event_simps [simp]:
  "lookup_event event_file_created = Some (snd (mk_definition event_file_created DomainEvent ''file_entry'' unmarshal_file_created))"
  "lookup_event event_file_updated = Some (snd (mk_definition event_file_updated DomainEvent ''file_entry'' unmarshal_file_updated))"
  "lookup_event event_file_deleted = Some (snd (mk_definition event_file_deleted DomainEvent ''file_entry'' unmarshal_file_deleted))"
  "lookup_event event_folder_created = Some (snd (mk_definition event_folder_created DomainEvent ''folder'' unmarshal_folder_created))"
  "lookup_event event_folder_renamed = Some (snd (mk_definition event_folder_renamed DomainEvent ''folder'' unmarshal_folder_renamed))"
  "lookup_event event_folder_moved = Some (snd (mk_definition event_folder_moved DomainEvent ''folder'' unmarshal_folder_moved))"
  "lookup_event event_folder_deleted = Some (snd (mk_definition event_folder_deleted DomainEvent ''folder'' unmarshal_folder_deleted))"
  "lookup_event event_share_created = Some (snd (mk_definition event_share_created DomainEvent ''share'' unmarshal_share_created))"
  "lookup_event event_share_updated = Some (snd (mk_definition event_share_updated DomainEvent ''share'' unmarshal_share_updated))"
  "lookup_event event_share_revoked = Some (snd (mk_definition event_share_revoked DomainEvent ''share'' unmarshal_share_revoked))"
  "lookup_event event_share_imported = Some (snd (mk_definition event_share_imported DomainEvent ''share'' unmarshal_share_imported))"
  "lookup_event event_object_verify_requested = Some (snd (mk_definition event_object_verify_requested Command ''upload_session'' unmarshal_object_verify_requested))"
  "lookup_event event_object_ready = Some (snd (mk_definition event_object_ready DomainEvent ''file_object'' unmarshal_object_ready))"
  "lookup_event event_object_gc_requested = Some (snd (mk_definition event_object_gc_requested Command ''file_object'' unmarshal_object_gc_requested))"
  "lookup_event event_ai_index_requested = Some (snd (mk_definition event_ai_index_requested Command ''file_object'' unmarshal_ai_index_requested))"
  "lookup_event event_ai_indexed = Some (snd (mk_definition event_ai_indexed DomainEvent ''file_object'' unmarshal_ai_indexed))"
  "lookup_event event_ai_reprocess_requested = Some (snd (mk_definition event_ai_reprocess_requested Command ''ai_task'' unmarshal_ai_reprocess_requested))"
  "lookup_event event_storage_operation_recover = Some (snd (mk_definition event_storage_operation_recover Command ''storage_operation'' unmarshal_storage_operation_recover))"
  "lookup_event event_upload_operation_recover = Some (snd (mk_definition event_upload_operation_recover Command ''storage_operation'' unmarshal_upload_operation_recover))"
  "lookup_event event_media_thumbnail_requested = Some (snd (mk_definition event_media_thumbnail_requested Command ''file_object'' unmarshal_media_thumbnail_requested))"
  unfolding lookup_event_def
  by ((rule map_of_is_SomeI[OF definitions_distinct],
      simp only: definitions_def mk_definition_def snd_conv list.set insert_iff simp_thms)+)

lemma unmarshal_marshal:
  "marshal_payload p = JsonObject fs \<Longrightarrow>
     \<exists>d. lookup_event (payload_event p) = Some d \<and> def_decode d fs = Some p"
  by (cases p) (auto simp only: marshal_payload.simps payload_event.simps json.inject,
     simp_all add: mk_definition_def unmarshal_defs field_rules)

lemma trim_str_payload_event [simp]: "trim_str (payload_event p) = payload_event p"
  by (rule trim_func_fixed) (cases p; simp add: ascii_space_def)

lemma marshal_payload_object: "\<exists>fs. marshal_payload p = JsonObject fs"
  by (cases p) simp_all

lemma payload_roundtrip_aux:
  "decode_payload (payload_event p) (marshal_payload p) =
     (case validate_payload p of None \<Rightarrow> Inr p | Some msg \<Rightarrow> Inl (InvalidPayload msg))"
proof -
  obtain fs where fs: "marshal_payload p = JsonObject fs" using marshal_payload_object by blast
  obtain d where "lookup_event (payload_event p) = Some d" "def_decode d fs = Some p"
    using unmarshal_marshal[OF fs] by blast
  then show ?thesis by (simp add: decode_payload_def fs)
qed

text \<open>An envelope that \<open>New\<close> returns passes \<open>Validate\<close>, carries the message kind, version
  and aggregate type the registry fixes for its event type (a caller cannot route a known event
  as something else), has a non-nil aggregate, a positive aggregate version, a producer, and a
  payload that decodes under the event type.\<close>

theorem new_envelope_contract:
  assumes "new_envelope fresh now i = Inr e"
  shows "validate_envelope e = None \<and> en_event_type e = trim_str (in_event_type i) \<and>
    (\<exists>d v p. lookup_event (en_event_type e) = Some d \<and>
       en_message_kind e = Some (def_message_kind d) \<and>
       en_event_version e = def_event_version d \<and>
       (def_aggregate_type d \<noteq> [] \<longrightarrow> en_aggregate_type e = def_aggregate_type d) \<and>
       en_aggregate_id e \<noteq> 0 \<and> en_event_id e \<noteq> 0 \<and>
       en_aggregate_version e = Some v \<and> 0 < v \<and>
       trim_str (en_producer e) \<noteq> [] \<and>
       decode_payload (en_event_type e) (in_payload i) = Inr p)"
proof -
  obtain d where d: "lookup_event (trim_str (in_event_type i)) = Some d"
    using assms by (auto simp: new_envelope_def Let_def split: option.splits)
  have v: "validate_envelope e = None"
    and f: "en_event_type e = trim_str (in_event_type i)"
      "en_aggregate_version e = Some (in_aggregate_version i)" "en_payload e = in_payload i"
    using assms d by (auto simp: new_envelope_def Let_def split: option.splits)
  with d show ?thesis
    by (auto simp: validate_envelope_def not_le split: if_splits sum.splits)
qed

text \<open>The input the services build: everything but the listed fields is left to the registry.\<close>

definition typed_input :: "string \<Rightarrow> uuid \<Rightarrow> int \<Rightarrow> string \<Rightarrow> payload \<Rightarrow> envelope_input" where
  "typed_input et agg ver producer p =
     \<lparr> in_event_id = 0, in_event_type = et, in_message_kind = None, in_event_version = 0,
       in_aggregate_type = [], in_aggregate_id = agg, in_aggregate_version = ver,
       in_producer = producer, in_occurred_at = zero_time, in_trace = None,
       in_payload = marshal_payload p \<rparr>"

lemma new_envelope_contract_witness:
  "\<exists>e. new_envelope 7 5 (typed_input event_object_ready 9 1 ''core-api'' (ObjectReadyV1 9 None))
       = Inr e \<and> validate_envelope e = None"
proof -
  obtain e where e: "new_envelope 7 5
      (typed_input event_object_ready 9 1 ''core-api'' (ObjectReadyV1 9 None)) = Inr e"
    by (simp add: new_envelope_def typed_input_def Let_def validate_envelope_def
        decode_payload_def mk_definition_def zero_time_def trim_func_fixed ascii_space_def
        unmarshal_object_ready_def field_rules require_uuid_def)
  then show ?thesis using new_envelope_contract[OF e] by blast
qed

lemma registry_entry:
  "\<exists>d. lookup_event (payload_event p) = Some d \<and> def_event_version d = 1 \<and>
     def_aggregate_type d \<noteq> [] \<and> trim_str (def_aggregate_type d) = def_aggregate_type d"
  by (cases p) (simp_all add: mk_definition_def trim_func_fixed ascii_space_def)

text \<open>The envelope of a well-formed input always exists.\<close>

lemma new_envelope_typed_input:
  assumes "validate_payload p = None" "fresh \<noteq> 0" "agg \<noteq> 0" "0 < ver"
    "trim_str producer \<noteq> []" "now \<noteq> zero_time"
    "\<And>t. tr = Some t \<Longrightarrow> traceparent t \<noteq> [] \<or> tracestate t \<noteq> []"
  shows "\<exists>e. new_envelope fresh now
      (typed_input (payload_event p) agg ver producer p \<lparr>in_trace := tr\<rparr>) = Inr e \<and>
    en_event_id e = fresh \<and> en_event_type e = payload_event p \<and> en_aggregate_id e = agg \<and>
    en_aggregate_version e = Some ver \<and> en_payload e = marshal_payload p"
proof -
  obtain d where d: "lookup_event (payload_event p) = Some d" "def_event_version d = 1"
    "def_aggregate_type d \<noteq> []" "trim_str (def_aggregate_type d) = def_aggregate_type d"
    using registry_entry by blast
  have "decode_payload (payload_event p) (marshal_payload p) = Inr p"
    using assms(1) by (simp add: payload_roundtrip_aux)
  moreover have "marshal_payload p \<noteq> JsonNull" using marshal_payload_object[of p] by auto
  ultimately show ?thesis using assms d
    by (auto simp: new_envelope_def typed_input_def Let_def validate_envelope_def
        split: option.split)
qed

end
