(* ===== verification/Database.thy ===== *)
theory Database
  imports EventContract
begin

text \<open>
  The PostgreSQL tables the modelled services share, as one record of row lists, with the
  constraints of the migrations that the code relies on: primary keys, unique indexes (violations
  surface as \<open>gorm.ErrDuplicatedKey\<close>, the connection sets \<open>TranslateError\<close>) and the CHECK
  constraints on \<open>users\<close> and \<open>file_objects\<close>.  An operation is a function from the database to
  a result that carries the new database; a transaction that returns an error rolls back, which
  is \<open>Inl\<close> leaving the old database in place.  Row locks and advisory locks serialise the
  transactions on the rows they name, so each transaction is one step.  Columns that no query,
  guard or result depends on (\<open>created_at\<close>, \<open>updated_at\<close> of most tables) are left out;
  foreign keys and I/O failures of the connection are not modelled.
\<close>

section \<open>Rows\<close>

datatype user_status = UserActive | UserDisabled

record user =
  u_id :: uuid
  u_username :: gotext
  u_username_normalized :: gotext
  u_email_normalized :: "gotext option"
  u_password_hash :: string
  u_status :: user_status
  u_quota_bytes :: int
  u_used_logical_bytes :: int
  u_reserved_bytes :: int

record refresh_session =
  rs_id :: uuid
  rs_user_id :: uuid
  rs_token_hash :: string
  rs_family_id :: uuid
  rs_expires_at :: time
  rs_revoked_at :: "time option"

record folder =
  fd_id :: uuid
  fd_owner_id :: uuid
  fd_parent_id :: "uuid option"
  fd_name :: gotext
  fd_name_normalized :: gotext
  fd_deleted_at :: "time option"
  fd_version :: int

record file_entry =
  fe_id :: uuid
  fe_owner_id :: uuid
  fe_folder_id :: uuid
  fe_object_id :: uuid
  fe_name :: gotext
  fe_name_normalized :: gotext
  fe_deleted_at :: "time option"
  fe_version :: int

datatype object_status = ObjectReady | ObjectDeleting | ObjectDeleted

record file_object =
  fo_id :: uuid
  fo_sha256 :: string
  fo_size_bytes :: int
  fo_mime_type :: string
  fo_bucket :: string
  fo_object_key :: string
  fo_status :: object_status
  fo_reference_count :: int
  fo_version :: int
  fo_verified_at :: "time option"
  fo_deleted_at :: "time option"

record object_variant =
  ov_id :: uuid
  ov_object_id :: uuid
  ov_object_key :: string
  ov_variant_type :: string
  ov_pipeline_version :: string
  ov_ready :: bool

datatype upload_status =
  Initializing | Created | Uploading | Completing | Verifying | Completed | Failed | Aborted | Expired

record upload_session =
  us_id :: uuid
  us_user_id :: uuid
  us_folder_id :: uuid
  us_filename :: gotext
  us_filename_normalized :: gotext
  us_declared_sha256 :: string
  us_mime_type :: string
  us_size_bytes :: int
  us_reserved_bytes :: int
  us_bucket :: string
  us_object_key :: string
  us_storage_upload_id :: string
  us_part_size :: int
  us_part_count :: int
  us_status :: upload_status
  us_idempotency_key :: string
  us_completed_object_id :: "uuid option"
  us_completed_entry_id :: "uuid option"
  us_error_code :: "string option"
  us_expires_at :: time
  us_version :: int

record upload_part =
  pt_session_id :: uuid
  pt_part_number :: int
  pt_etag :: string
  pt_size_bytes :: int
  pt_checksum :: "string option"
  pt_completed_at :: time

datatype operation_type =
  MultipartCreate | MultipartComplete | MultipartAbort | CanonicalEnsure | StagingDelete |
  ObjectDelete | VariantDelete

datatype operation_state = OpPending | OpRunning | OpSucceeded | OpFailed | OpDead

record operation =
  so_id :: uuid
  so_operation_type :: operation_type
  so_idempotency_key :: string
  so_upload_session_id :: "uuid option"
  so_object_id :: "uuid option"
  so_source_bucket :: string
  so_source_key :: string
  so_target_bucket :: string
  so_target_key :: string
  so_storage_upload_id :: string
  so_state :: operation_state
  so_attempt :: nat
  so_available_at :: time
  so_lease_until :: "time option"
  so_lease_token :: "uuid option"
  so_last_error :: "string option"
  so_created_at :: time
  so_updated_at :: time
  so_completed_at :: "time option"

datatype delivery_status = DeliveryPending | DeliverySending | DeliveryPublished | DeliveryFailed

record outbox_event =
  ev_id :: uuid
  ev_aggregate_type :: string
  ev_aggregate_id :: uuid
  ev_event_type :: string
  ev_event_version :: int
  ev_payload :: json
  ev_status :: delivery_status
  ev_available_at :: time
  ev_published_at :: "time option"
  ev_attempt :: nat
  ev_created_at :: time
  ev_message_kind :: "message_kind option"
  ev_aggregate_version :: "int option"
  ev_producer :: "string option"
  ev_occurred_at :: "time option"
  ev_trace_context :: "trace_context option"

record delivery =
  dl_event_id :: uuid
  dl_transport :: string
  dl_destination :: string
  dl_status :: delivery_status
  dl_attempt :: nat
  dl_available_at :: time
  dl_not_before :: "time option"
  dl_task_retry_count :: int
  dl_task_max_retry :: "int option"
  dl_task_timeout_ms :: "int option"
  dl_lease_until :: "time option"
  dl_lease_token :: "uuid option"
  dl_published_at :: "time option"
  dl_last_error :: "string option"

record recovery =
  rc_recovery_key :: string
  rc_event_id :: uuid
  rc_reason :: string
  rc_resource_type :: string
  rc_resource_id :: uuid
  rc_target_version :: "int option"
  rc_created_at :: time
  rc_updated_at :: time
  rc_stopped_at :: "time option"

record share =
  sh_id :: uuid
  sh_owner_id :: uuid
  sh_file_entry_id :: uuid
  sh_key_hash :: string
  sh_expires_at :: "time option"
  sh_revoked_at :: "time option"
  sh_version :: int
  sh_created_at :: time

record share_import =
  si_id :: uuid
  si_share_id :: uuid
  si_user_id :: uuid
  si_target_folder_id :: uuid
  si_imported_entry_id :: uuid
  si_idempotency_key :: string

record owner_epoch =
  ep_owner_id :: uuid
  ep_content_epoch :: int
  ep_acl_epoch :: int

record ai_document =
  ad_object_id :: uuid
  ad_status :: string
  ad_updated_at :: time

record async_task =
  at_id :: uuid
  at_task_type :: string
  at_resource_id :: "uuid option"
  at_status :: string
  at_version :: int
  at_updated_at :: time

datatype task_status = TaskSucceeded | TaskDead

record task_result =
  tr_task_id :: string
  tr_status :: task_status

datatype execution_status = ExecRunning | ExecRetry | ExecFinished

record execution =
  te_task_id :: string
  te_payload_sha256 :: string
  te_task_type :: string
  te_queue :: string
  te_status :: execution_status
  te_lease_token :: "uuid option"
  te_lease_until :: "time option"
  te_available_at :: time
  te_retry_count :: int
  te_max_retry :: int
  te_timeout_ms :: int
  te_updated_at :: time

record task_failure =
  tf_task_id :: string
  tf_retry_count :: int

record consumption =
  ec_event_id :: uuid
  ec_consumer_name :: string

section \<open>The database\<close>

record db =
  users :: "user list"
  refresh_sessions :: "refresh_session list"
  folders :: "folder list"
  file_entries :: "file_entry list"
  file_objects :: "file_object list"
  object_variants :: "object_variant list"
  ai_documents :: "ai_document list"
  upload_sessions :: "upload_session list"
  upload_parts :: "upload_part list"
  storage_operations :: "operation list"
  outbox_events :: "outbox_event list"
  outbox_deliveries :: "delivery list"
  outbox_recoveries :: "recovery list"
  shares :: "share list"
  share_imports :: "share_import list"
  owner_epochs :: "owner_epoch list"
  task_results :: "task_result list"
  task_executions :: "execution list"
  task_failures :: "task_failure list"
  event_consumptions :: "consumption list"
  async_tasks :: "async_task list"

definition empty_db :: db where
  "empty_db = \<lparr> users = [], refresh_sessions = [], folders = [], file_entries = [],
     file_objects = [], object_variants = [], ai_documents = [], upload_sessions = [],
     upload_parts = [], storage_operations = [], outbox_events = [], outbox_deliveries = [],
     outbox_recoveries = [], shares = [], share_imports = [], owner_epochs = [],
     task_results = [], task_executions = [], task_failures = [], event_consumptions = [],
     async_tasks = [] \<rparr>"

text \<open>What a request or worker carries: the clock, the rollout flags of \<open>outbox/compat.go\<close>, the
  trace of the current span, the supply of identifiers (\<open>uuid.NewV7\<close>, in call order) and
  the name-based identifiers of \<open>uuid.NewSHA1\<close>.\<close>

record ctx =
  cx_now :: time
  cx_v2_events :: bool
  cx_search_enabled :: bool
  cx_trace :: "trace_context option"
  cx_mint :: "nat \<Rightarrow> uuid"
  cx_name_uuid :: "string \<Rightarrow> uuid"

section \<open>Live rows and lookups\<close>

abbreviation folder_live :: "folder \<Rightarrow> bool" where "folder_live f \<equiv> fd_deleted_at f = None"
abbreviation entry_live :: "file_entry \<Rightarrow> bool" where "entry_live e \<equiv> fe_deleted_at e = None"

definition owned_folder :: "uuid \<Rightarrow> uuid \<Rightarrow> folder \<Rightarrow> bool" where
  "owned_folder owner fid f \<longleftrightarrow> fd_id f = fid \<and> fd_owner_id f = owner \<and> folder_live f"

definition owned_entry :: "uuid \<Rightarrow> uuid \<Rightarrow> file_entry \<Rightarrow> bool" where
  "owned_entry owner fid e \<longleftrightarrow> fe_id e = fid \<and> fe_owner_id e = owner \<and> entry_live e"

definition object_by_id :: "uuid \<Rightarrow> db \<Rightarrow> file_object option" where
  "object_by_id oid d = find (\<lambda>o'. fo_id o' = oid) (file_objects d)"

definition live_entries_of :: "uuid \<Rightarrow> db \<Rightarrow> nat" where
  "live_entries_of oid d = count_where (\<lambda>e. fe_object_id e = oid \<and> entry_live e) (file_entries d)"

section \<open>Inserts and updates under constraints\<close>

text \<open>Two folders collide when they share a primary key, or both are live roots of one owner, or
  are live siblings with the same normalized name (\<open>uq_folders_root\<close>,
  \<open>uq_folders_active_name\<close>).\<close>

definition folders_collide :: "folder \<Rightarrow> folder \<Rightarrow> bool" where
  "folders_collide f g \<longleftrightarrow> fd_id f = fd_id g \<or>
     (folder_live f \<and> folder_live g \<and> fd_owner_id f = fd_owner_id g \<and>
      fd_parent_id f = fd_parent_id g \<and>
      (fd_parent_id f = None \<or> fd_name_normalized f = fd_name_normalized g))"

definition insert_folder :: "folder \<Rightarrow> db \<Rightarrow> db result" where
  "insert_folder f d =
     (if exists_where (folders_collide f) (folders d) then Inl GormDuplicatedKey
      else Inr (d\<lparr>folders := folders d @ [f]\<rparr>))"

text \<open>\<open>tx.Model(&folder).Updates(..)\<close>: the row with the primary key of \<open>f\<close> becomes \<open>g f\<close>.\<close>

definition update_folder :: "uuid \<Rightarrow> (folder \<Rightarrow> folder) \<Rightarrow> db \<Rightarrow> db result" where
  "update_folder fid g d =
     (let t = update_where (\<lambda>f. fd_id f = fid) g (folders d) in
      if exists_where (\<lambda>f. fd_id f = fid \<and>
           exists_where (\<lambda>h. fd_id h \<noteq> fid \<and> folders_collide (g f) h) (folders d)) (folders d)
      then Inl GormDuplicatedKey else Inr (d\<lparr>folders := t\<rparr>))"

text \<open>\<open>uq_file_entries_active_name\<close> and \<open>uq_file_entries_owner_object_active\<close>.\<close>

definition entries_collide :: "file_entry \<Rightarrow> file_entry \<Rightarrow> bool" where
  "entries_collide e f \<longleftrightarrow> fe_id e = fe_id f \<or>
     (entry_live e \<and> entry_live f \<and> fe_owner_id e = fe_owner_id f \<and>
      (fe_folder_id e = fe_folder_id f \<and> fe_name_normalized e = fe_name_normalized f \<or>
       fe_object_id e = fe_object_id f))"

definition insert_entry :: "file_entry \<Rightarrow> db \<Rightarrow> db result" where
  "insert_entry e d =
     (if exists_where (entries_collide e) (file_entries d) then Inl GormDuplicatedKey
      else Inr (d\<lparr>file_entries := file_entries d @ [e]\<rparr>))"

definition update_entry :: "uuid \<Rightarrow> (file_entry \<Rightarrow> file_entry) \<Rightarrow> db \<Rightarrow> db result" where
  "update_entry eid g d =
     (let t = update_where (\<lambda>e. fe_id e = eid) g (file_entries d) in
      if exists_where (\<lambda>e. fe_id e = eid \<and>
           exists_where (\<lambda>h. fe_id h \<noteq> eid \<and> entries_collide (g e) h) (file_entries d))
           (file_entries d)
      then Inl GormDuplicatedKey else Inr (d\<lparr>file_entries := t\<rparr>))"

text \<open>The CHECK constraints of \<open>users\<close>.\<close>

definition user_check :: "user \<Rightarrow> bool" where
  "user_check u \<longleftrightarrow> 0 \<le> u_quota_bytes u \<and> 0 \<le> u_used_logical_bytes u \<and> 0 \<le> u_reserved_bytes u \<and>
     u_used_logical_bytes u + u_reserved_bytes u \<le> u_quota_bytes u"

text \<open>A guarded update of \<open>users\<close>: the new table and the number of rows affected.\<close>

definition update_users :: "(user \<Rightarrow> bool) \<Rightarrow> (user \<Rightarrow> user) \<Rightarrow> db \<Rightarrow> (nat \<times> db) result" where
  "update_users P g d =
     (if exists_where (\<lambda>u. P u \<and> \<not> user_check (g u)) (users d) then Inl ErrCheckViolation
      else Inr (count_where P (users d), d\<lparr>users := update_where P g (users d)\<rparr>))"

definition users_collide :: "user \<Rightarrow> user \<Rightarrow> bool" where
  "users_collide u v \<longleftrightarrow> u_id u = u_id v \<or> u_username_normalized u = u_username_normalized v \<or>
     (u_email_normalized u \<noteq> None \<and> u_email_normalized u = u_email_normalized v)"

definition insert_user :: "user \<Rightarrow> db \<Rightarrow> db result" where
  "insert_user u d =
     (if \<not> user_check u then Inl ErrCheckViolation
      else if exists_where (users_collide u) (users d) then Inl GormDuplicatedKey
      else Inr (d\<lparr>users := users d @ [u]\<rparr>))"

definition insert_refresh :: "refresh_session \<Rightarrow> db \<Rightarrow> db result" where
  "insert_refresh r d =
     (if exists_where (\<lambda>q. rs_id q = rs_id r \<or> rs_token_hash q = rs_token_hash r) (refresh_sessions d)
      then Inl GormDuplicatedKey
      else Inr (d\<lparr>refresh_sessions := refresh_sessions d @ [r]\<rparr>))"

definition insert_upload_session :: "upload_session \<Rightarrow> db \<Rightarrow> db result" where
  "insert_upload_session s d =
     (if us_size_bytes s < 0 \<or> us_reserved_bytes s < 0 then Inl ErrCheckViolation
      else if exists_where (\<lambda>q. us_id q = us_id s \<or>
          (us_user_id q = us_user_id s \<and> us_idempotency_key q = us_idempotency_key s))
          (upload_sessions d) then Inl GormDuplicatedKey
      else Inr (d\<lparr>upload_sessions := upload_sessions d @ [s]\<rparr>))"

definition insert_share :: "share \<Rightarrow> db \<Rightarrow> db result" where
  "insert_share s d =
     (if exists_where (\<lambda>q. sh_id q = sh_id s \<or> sh_key_hash q = sh_key_hash s) (shares d)
      then Inl GormDuplicatedKey else Inr (d\<lparr>shares := shares d @ [s]\<rparr>))"

definition insert_import :: "share_import \<Rightarrow> db \<Rightarrow> db result" where
  "insert_import s d =
     (if exists_where (\<lambda>q. si_id q = si_id s \<or> (si_user_id q = si_user_id s \<and>
          si_share_id q = si_share_id s \<and> si_idempotency_key q = si_idempotency_key s))
          (share_imports d)
      then Inl GormDuplicatedKey else Inr (d\<lparr>share_imports := share_imports d @ [s]\<rparr>))"

section \<open>What the constraints guarantee\<close>

text \<open>No two rows of a table collide.\<close>

definition pairwise :: "('r \<Rightarrow> 'r \<Rightarrow> bool) \<Rightarrow> 'r list \<Rightarrow> bool" where
  "pairwise C t \<longleftrightarrow> (\<forall>i < length t. \<forall>j < length t. i \<noteq> j \<longrightarrow> \<not> C (t ! i) (t ! j))"

lemma pairwise_Nil [simp]: "pairwise C []"
  by (simp add: pairwise_def)

lemma pairwise_snoc:
  assumes "\<And>x y. C x y \<longleftrightarrow> C y x"
  shows "pairwise C (t @ [r]) \<longleftrightarrow> pairwise C t \<and> (\<forall>x \<in> set t. \<not> C r x)"
proof -
  have "pairwise C (t @ [r]) \<longleftrightarrow>
      pairwise C t \<and> (\<forall>i < length t. \<not> C (t ! i) r \<and> \<not> C r (t ! i))"
    by (force simp: pairwise_def nth_append less_Suc_eq)
  moreover have "(\<forall>i < length t. \<not> C (t ! i) r \<and> \<not> C r (t ! i)) \<longleftrightarrow> (\<forall>x \<in> set t. \<not> C r x)"
    using assms[of r] by (simp add: all_set_conv_all_nth)
  ultimately show ?thesis by blast
qed

lemma pairwise_update:
  assumes sym: "\<And>x y. C x y \<longleftrightarrow> C y x"
    and key: "\<And>x y. key x = key y \<Longrightarrow> C x y"
    and p: "pairwise C t" and g: "\<And>x. key (g x) = key x"
    and ok: "\<not> (\<exists>x \<in> set t. key x = k \<and> (\<exists>y \<in> set t. key y \<noteq> k \<and> C (g x) y))"
  shows "pairwise C (update_where (\<lambda>x. key x = k) g t)"
  unfolding pairwise_def
proof (intro allI impI)
  fix i j assume i: "i < length (update_where (\<lambda>x. key x = k) g t)"
    and j: "j < length (update_where (\<lambda>x. key x = k) g t)" and ij: "i \<noteq> j"
  then have l: "i < length t" "j < length t" by (simp_all add: update_where_def)
  have n: "\<not> C (t ! i) (t ! j)" "\<not> C (t ! j) (t ! i)" using p l ij by (auto simp: pairwise_def)
  then have ne: "key (t ! i) \<noteq> key (t ! j)" using key by blast
  show "\<not> C (update_where (\<lambda>x. key x = k) g t ! i) (update_where (\<lambda>x. key x = k) g t ! j)"
  proof -
    have m: "t ! i \<in> set t" "t ! j \<in> set t" using l by simp_all
    have "key (t ! i) = k \<Longrightarrow> \<not> C (g (t ! i)) (t ! j)" using ok m ne by metis
    moreover have "key (t ! j) = k \<Longrightarrow> \<not> C (t ! i) (g (t ! j))" using ok m ne sym by metis
    ultimately show ?thesis using l n ne by (auto simp: update_where_def)
  qed
qed

lemma pairwise_key_distinct:
  assumes "pairwise C t" "\<And>x y. key x = key y \<Longrightarrow> C x y"
  shows "key_distinct key t"
  using assms unfolding pairwise_def key_distinct_def distinct_conv_nth by auto

lemma folders_collide_sym: "folders_collide f g \<longleftrightarrow> folders_collide g f"
  by (auto simp: folders_collide_def)

lemma entries_collide_sym: "entries_collide e f \<longleftrightarrow> entries_collide f e"
  by (auto simp: entries_collide_def)

lemma users_collide_sym: "users_collide u v \<longleftrightarrow> users_collide v u"
  unfolding users_collide_def by metis

definition tables_ok :: "db \<Rightarrow> bool" where
  "tables_ok d \<longleftrightarrow> pairwise users_collide (users d) \<and> (\<forall>u \<in> set (users d). user_check u) \<and>
     pairwise folders_collide (folders d) \<and> pairwise entries_collide (file_entries d)"

lemma insert_folder_eq:
  "insert_folder f d = Inr d' \<Longrightarrow>
     d' = d\<lparr>folders := folders d @ [f]\<rparr> \<and> (\<forall>g \<in> set (folders d). \<not> folders_collide f g)"
  by (auto simp: insert_folder_def table_simps split: if_splits)

lemma insert_entry_eq:
  "insert_entry e d = Inr d' \<Longrightarrow>
     d' = d\<lparr>file_entries := file_entries d @ [e]\<rparr> \<and>
     (\<forall>f \<in> set (file_entries d). \<not> entries_collide e f)"
  by (auto simp: insert_entry_def table_simps split: if_splits)

lemma update_folder_eq:
  "update_folder fid g d = Inr d' \<Longrightarrow>
     d' = d\<lparr>folders := update_where (\<lambda>f. fd_id f = fid) g (folders d)\<rparr>"
  by (auto simp: update_folder_def Let_def split: if_splits)

lemma update_entry_eq:
  "update_entry eid g d = Inr d' \<Longrightarrow>
     d' = d\<lparr>file_entries := update_where (\<lambda>e. fe_id e = eid) g (file_entries d)\<rparr>"
  by (auto simp: update_entry_def Let_def split: if_splits)

lemma update_users_eq:
  "update_users P g d = Inr (n, d') \<Longrightarrow>
     n = count_where P (users d) \<and> d' = d\<lparr>users := update_where P g (users d)\<rparr> \<and>
     (\<forall>u \<in> set (users d). P u \<longrightarrow> user_check (g u))"
  by (auto simp: update_users_def table_simps split: if_splits)

lemma insert_folder_pairwise:
  assumes "insert_folder f d = Inr d'" "pairwise folders_collide (folders d)"
  shows "pairwise folders_collide (folders d')"
  using insert_folder_eq[OF assms(1)] assms(2) by (simp add: pairwise_snoc folders_collide_sym)

lemma update_folder_pairwise:
  assumes "update_folder fid g d = Inr d'" "pairwise folders_collide (folders d)"
    "\<And>f. fd_id (g f) = fd_id f"
  shows "pairwise folders_collide (folders d')"
proof -
  have "\<not> (\<exists>x \<in> set (folders d). fd_id x = fid \<and>
      (\<exists>y \<in> set (folders d). fd_id y \<noteq> fid \<and> folders_collide (g x) y))"
    using assms(1) by (auto simp: update_folder_def Let_def table_simps split: if_splits)
  then have "pairwise folders_collide (update_where (\<lambda>f. fd_id f = fid) g (folders d))"
    by (intro pairwise_update) (auto simp: assms(2,3) folders_collide_sym folders_collide_def)
  then show ?thesis using update_folder_eq[OF assms(1)] by simp
qed

lemma insert_entry_pairwise:
  assumes "insert_entry e d = Inr d'" "pairwise entries_collide (file_entries d)"
  shows "pairwise entries_collide (file_entries d')"
  using insert_entry_eq[OF assms(1)] assms(2) by (simp add: pairwise_snoc entries_collide_sym)

lemma update_entry_pairwise:
  assumes "update_entry eid g d = Inr d'" "pairwise entries_collide (file_entries d)"
    "\<And>e. fe_id (g e) = fe_id e"
  shows "pairwise entries_collide (file_entries d')"
proof -
  have "\<not> (\<exists>x \<in> set (file_entries d). fe_id x = eid \<and>
      (\<exists>y \<in> set (file_entries d). fe_id y \<noteq> eid \<and> entries_collide (g x) y))"
    using assms(1) by (auto simp: update_entry_def Let_def table_simps split: if_splits)
  then have "pairwise entries_collide (update_where (\<lambda>e. fe_id e = eid) g (file_entries d))"
    by (intro pairwise_update) (auto simp: assms(2,3) entries_collide_sym entries_collide_def)
  then show ?thesis using update_entry_eq[OF assms(1)] by simp
qed

lemma users_key_distinct: "tables_ok d \<Longrightarrow> key_distinct u_id (users d)"
  unfolding tables_ok_def by (rule pairwise_key_distinct[where C = users_collide])
    (auto simp: users_collide_def)

lemma folders_key_distinct: "tables_ok d \<Longrightarrow> key_distinct fd_id (folders d)"
  unfolding tables_ok_def by (rule pairwise_key_distinct[where C = folders_collide])
    (auto simp: folders_collide_def)

lemma entries_key_distinct: "tables_ok d \<Longrightarrow> key_distinct fe_id (file_entries d)"
  unfolding tables_ok_def by (rule pairwise_key_distinct[where C = entries_collide])
    (auto simp: entries_collide_def)

section \<open>Frames\<close>

text \<open>The business tables: the database without its event, delivery, recovery and epoch tables.
  An operation that only writes those leaves \<open>business\<close> alone.\<close>

definition business :: "db \<Rightarrow> db" where
  "business d = d\<lparr>outbox_events := [], outbox_deliveries := [], outbox_recoveries := [],
     owner_epochs := []\<rparr>"

lemma business_updates [simp]:
  "business (d\<lparr>outbox_events := a\<rparr>) = business d"
  "business (d\<lparr>outbox_deliveries := b\<rparr>) = business d"
  "business (d\<lparr>outbox_recoveries := r\<rparr>) = business d"
  "business (d\<lparr>owner_epochs := e\<rparr>) = business d"
  by (simp_all add: business_def)

lemma business_fields:
  "users (business d) = users d" "refresh_sessions (business d) = refresh_sessions d"
  "folders (business d) = folders d" "file_entries (business d) = file_entries d"
  "file_objects (business d) = file_objects d" "object_variants (business d) = object_variants d"
  "ai_documents (business d) = ai_documents d" "upload_sessions (business d) = upload_sessions d"
  "upload_parts (business d) = upload_parts d"
  "storage_operations (business d) = storage_operations d" "shares (business d) = shares d"
  "share_imports (business d) = share_imports d" "task_results (business d) = task_results d"
  "task_executions (business d) = task_executions d" "task_failures (business d) = task_failures d"
  "event_consumptions (business d) = event_consumptions d"
  "async_tasks (business d) = async_tasks d"
  by (simp_all add: business_def)

lemma business_eqD:
  assumes "business d' = business d"
  shows "users d' = users d" "refresh_sessions d' = refresh_sessions d"
    "folders d' = folders d" "file_entries d' = file_entries d"
    "file_objects d' = file_objects d" "object_variants d' = object_variants d"
    "ai_documents d' = ai_documents d" "upload_sessions d' = upload_sessions d"
    "upload_parts d' = upload_parts d" "storage_operations d' = storage_operations d"
    "shares d' = shares d" "share_imports d' = share_imports d" "task_results d' = task_results d"
    "task_executions d' = task_executions d" "task_failures d' = task_failures d"
    "event_consumptions d' = event_consumptions d" "async_tasks d' = async_tasks d"
  using assms by (metis business_fields)+

end
