(* ===== verification/OwnerEpoch.thy ===== *)
theory OwnerEpoch
  imports Database
begin

text \<open>
  Package \<open>ownerepoch\<close>: per-owner invalidation epochs.  Every committed change of an owner's
  folders or files advances the content epoch, every change of a share the ACL epoch; readers
  fence cursors and cache keys with the pair.
\<close>

definition ensure_epoch :: "uuid \<Rightarrow> db \<Rightarrow> db result" where
  "ensure_epoch owner d =
     (if owner = 0 then Inl InvalidOwner
      else Inr (if exists_where (\<lambda>e. ep_owner_id e = owner) (owner_epochs d) then d
        else d\<lparr>owner_epochs := owner_epochs d @
               [\<lparr> ep_owner_id = owner, ep_content_epoch = 1, ep_acl_epoch = 1 \<rparr>]\<rparr>))"

definition epoch_row :: "uuid \<Rightarrow> db \<Rightarrow> owner_epoch option" where
  "epoch_row owner d = find (\<lambda>e. ep_owner_id e = owner) (owner_epochs d)"

definition current_epoch :: "uuid \<Rightarrow> db \<Rightarrow> (owner_epoch \<times> db) result" where
  "current_epoch owner d =
     attempt (ensure_epoch owner d) (\<lambda>d'.
     attempt (found GormRecordNotFound (epoch_row owner d')) (\<lambda>e. Inr (e, d')))"

text \<open>\<open>UPDATE .. RETURNING\<close>, scanned into a zero row when nothing matched.\<close>

definition zero_epoch :: owner_epoch where
  "zero_epoch = \<lparr> ep_owner_id = 0, ep_content_epoch = 0, ep_acl_epoch = 0 \<rparr>"

definition bump_content :: "uuid \<Rightarrow> db \<Rightarrow> (owner_epoch \<times> db) result" where
  "bump_content owner d =
     attempt (ensure_epoch owner d) (\<lambda>d1.
       let d2 = d1\<lparr>owner_epochs := update_where (\<lambda>e. ep_owner_id e = owner)
                  (\<lambda>e. e\<lparr>ep_content_epoch := ep_content_epoch e + 1\<rparr>) (owner_epochs d1)\<rparr>
       in Inr (case epoch_row owner d2 of None \<Rightarrow> zero_epoch | Some e \<Rightarrow> e, d2))"

definition bump_acl :: "uuid \<Rightarrow> db \<Rightarrow> (owner_epoch \<times> db) result" where
  "bump_acl owner d =
     attempt (ensure_epoch owner d) (\<lambda>d1.
       let d2 = d1\<lparr>owner_epochs := update_where (\<lambda>e. ep_owner_id e = owner)
                  (\<lambda>e. e\<lparr>ep_acl_epoch := ep_acl_epoch e + 1\<rparr>) (owner_epochs d1)\<rparr>
       in Inr (case epoch_row owner d2 of None \<Rightarrow> zero_epoch | Some e \<Rightarrow> e, d2))"

section \<open>Lemmas\<close>

text \<open>The pair a reader sees; an owner without a row counts as (1, 1), which is what
  \<open>Ensure\<close> writes.\<close>

definition epoch_of :: "uuid \<Rightarrow> db \<Rightarrow> int \<times> int" where
  "epoch_of owner d = (case epoch_row owner d of None \<Rightarrow> (1, 1)
     | Some e \<Rightarrow> (ep_content_epoch e, ep_acl_epoch e))"

lemma epoch_row_append:
  "find P (t @ [r]) = (case find P t of None \<Rightarrow> if P r then Some r else None | Some e \<Rightarrow> Some e)"
  by (induction t) auto

lemma ensure_epoch_row:
  assumes "ensure_epoch owner d = Inr d'"
  shows "epoch_row owner d' = Some (case epoch_row owner d of
      None \<Rightarrow> \<lparr> ep_owner_id = owner, ep_content_epoch = 1, ep_acl_epoch = 1 \<rparr> | Some e \<Rightarrow> e)"
    "other \<noteq> owner \<Longrightarrow> epoch_row other d' = epoch_row other d"
proof -
  show "epoch_row owner d' = Some (case epoch_row owner d of
      None \<Rightarrow> \<lparr> ep_owner_id = owner, ep_content_epoch = 1, ep_acl_epoch = 1 \<rparr> | Some e \<Rightarrow> e)"
  proof (cases "epoch_row owner d")
    case None
    then have "\<not> exists_where (\<lambda>e. ep_owner_id e = owner) (owner_epochs d)"
      by (auto simp: epoch_row_def table_simps find_None_iff)
    then show ?thesis using assms None
      by (auto simp: ensure_epoch_def epoch_row_def epoch_row_append split: if_splits)
  next
    case (Some e)
    then have "exists_where (\<lambda>e. ep_owner_id e = owner) (owner_epochs d)"
      unfolding epoch_row_def table_simps by (blast dest: find_SomeD)
    then show ?thesis using assms Some by (auto simp: ensure_epoch_def split: if_splits)
  qed
  show "other \<noteq> owner \<Longrightarrow> epoch_row other d' = epoch_row other d"
    using assms by (auto simp: ensure_epoch_def epoch_row_def epoch_row_append
        split: if_splits option.split)
qed

lemma ensure_epoch_frame [frame_simps]:
  "ensure_epoch owner d = Inr d' \<Longrightarrow> business d' = business d"
  by (auto simp: ensure_epoch_def split: if_splits)

lemma bump_frame [frame_simps]:
  "bump_content owner d = Inr (e, d') \<Longrightarrow> business d' = business d"
  "bump_acl owner d = Inr (e, d') \<Longrightarrow> business d' = business d"
  "current_epoch owner d = Inr (e, d') \<Longrightarrow> business d' = business d"
  by (auto simp: bump_content_def bump_acl_def current_epoch_def result_iffs Let_def
      dest!: ensure_epoch_frame)

lemma bump_row:
  assumes "bump_content owner d = Inr (e, d')"
  shows "epoch_row owner d' = Some e" "(ep_content_epoch e, ep_acl_epoch e) =
      (fst (epoch_of owner d) + 1, snd (epoch_of owner d))"
    "other \<noteq> owner \<Longrightarrow> epoch_row other d' = epoch_row other d"
proof -
  obtain d1 where d1: "ensure_epoch owner d = Inr d1"
    and d': "d' = d1\<lparr>owner_epochs := update_where (\<lambda>e. ep_owner_id e = owner)
                  (\<lambda>e. e\<lparr>ep_content_epoch := ep_content_epoch e + 1\<rparr>) (owner_epochs d1)\<rparr>"
    and e: "e = (case epoch_row owner d' of None \<Rightarrow> zero_epoch | Some e \<Rightarrow> e)"
    using assms by (auto simp: bump_content_def attempt_eq_Inr_iff Let_def)
  have r: "epoch_row j d' = map_option (\<lambda>e. if ep_owner_id e = owner
      then e\<lparr>ep_content_epoch := ep_content_epoch e + 1\<rparr> else e) (epoch_row j d1)" for j
    unfolding d' epoch_row_def by (simp add: find_update_by_key)
  have own: "ep_owner_id q = j" if "epoch_row j d1 = Some q" for j q
    using that unfolding epoch_row_def by (blast dest: find_SomeD)
  obtain q where q: "epoch_row owner d1 = Some q" using ensure_epoch_row(1)[OF d1] by blast
  then show "epoch_row owner d' = Some e" using e by (simp add: r)
  then have "e = q\<lparr>ep_content_epoch := ep_content_epoch q + 1\<rparr>" using r[of owner] q own[OF q] by simp
  then show "(ep_content_epoch e, ep_acl_epoch e) =
      (fst (epoch_of owner d) + 1, snd (epoch_of owner d))"
    using ensure_epoch_row(1)[OF d1] q by (auto simp: epoch_of_def split: option.splits)
  show "other \<noteq> owner \<Longrightarrow> epoch_row other d' = epoch_row other d"
    using r[of other] own ensure_epoch_row(2)[OF d1, of other] by (cases "epoch_row other d1") auto
qed

lemma bump_acl_row:
  assumes "bump_acl owner d = Inr (e, d')"
  shows "epoch_row owner d' = Some e" "(ep_content_epoch e, ep_acl_epoch e) =
      (fst (epoch_of owner d), snd (epoch_of owner d) + 1)"
    "other \<noteq> owner \<Longrightarrow> epoch_row other d' = epoch_row other d"
proof -
  obtain d1 where d1: "ensure_epoch owner d = Inr d1"
    and d': "d' = d1\<lparr>owner_epochs := update_where (\<lambda>e. ep_owner_id e = owner)
                  (\<lambda>e. e\<lparr>ep_acl_epoch := ep_acl_epoch e + 1\<rparr>) (owner_epochs d1)\<rparr>"
    and e: "e = (case epoch_row owner d' of None \<Rightarrow> zero_epoch | Some e \<Rightarrow> e)"
    using assms by (auto simp: bump_acl_def attempt_eq_Inr_iff Let_def)
  have r: "epoch_row j d' = map_option (\<lambda>e. if ep_owner_id e = owner
      then e\<lparr>ep_acl_epoch := ep_acl_epoch e + 1\<rparr> else e) (epoch_row j d1)" for j
    unfolding d' epoch_row_def by (simp add: find_update_by_key)
  have own: "ep_owner_id q = j" if "epoch_row j d1 = Some q" for j q
    using that unfolding epoch_row_def by (blast dest: find_SomeD)
  obtain q where q: "epoch_row owner d1 = Some q" using ensure_epoch_row(1)[OF d1] by blast
  then show "epoch_row owner d' = Some e" using e by (simp add: r)
  then have "e = q\<lparr>ep_acl_epoch := ep_acl_epoch q + 1\<rparr>" using r[of owner] q own[OF q] by simp
  then show "(ep_content_epoch e, ep_acl_epoch e) =
      (fst (epoch_of owner d), snd (epoch_of owner d) + 1)"
    using ensure_epoch_row(1)[OF d1] q by (auto simp: epoch_of_def split: option.splits)
  show "other \<noteq> owner \<Longrightarrow> epoch_row other d' = epoch_row other d"
    using r[of other] own ensure_epoch_row(2)[OF d1, of other] by (cases "epoch_row other d1") auto
qed

lemma bump_total: "owner \<noteq> 0 \<Longrightarrow> \<exists>e d'. bump_content owner d = Inr (e, d')"
  by (auto simp: bump_content_def ensure_epoch_def Let_def)

lemma bump_acl_total: "owner \<noteq> 0 \<Longrightarrow> \<exists>e d'. bump_acl owner d = Inr (e, d')"
  by (auto simp: bump_acl_def ensure_epoch_def Let_def)

end
