(* ===== verification/Lease.thy ===== *)
theory Lease
  imports Prelude
begin

text \<open>
  The lease contract that the storage operations, the outbox deliveries and the task executions
  all follow (\<open>lease_fence\<close>, and \<open>lease_contract\<close> for the first two): a worker claims a key with a fresh token, a live lease is not stolen, and a
  completion only takes effect for the token that holds the lease.  What a client may conclude
  (a worker whose lease was taken over can never complete, and each claim is completed at most
  once) is proved once, inside the locale.
\<close>

datatype 'k lease_event = Claim time uuid 'k | Finish time uuid 'k

primrec lease_tokens_ok :: "'k lease_event \<Rightarrow> bool" where
  "lease_tokens_ok (Claim now t k) \<longleftrightarrow> True"
| "lease_tokens_ok (Finish now t k) \<longleftrightarrow> t \<noteq> 0"

primrec lease_claims :: "uuid \<Rightarrow> 'k \<Rightarrow> 'k lease_event \<Rightarrow> bool" where
  "lease_claims t k (Claim now u j) \<longleftrightarrow> u = t \<and> j = k"
| "lease_claims t k (Finish now u j) \<longleftrightarrow> False"

locale lease_fence =
  fixes holder :: "'s \<Rightarrow> 'k \<Rightarrow> uuid option"
    and lease_until :: "'s \<Rightarrow> 'k \<Rightarrow> time"
    and claim :: "time \<Rightarrow> uuid \<Rightarrow> 'k \<Rightarrow> 's \<Rightarrow> 's"
    and complete :: "time \<Rightarrow> uuid \<Rightarrow> 'k \<Rightarrow> 's \<Rightarrow> 's"
    and inv :: "'s \<Rightarrow> bool"
  assumes claim_inv: "inv s \<Longrightarrow> inv (claim now t k s)"
    and complete_inv: "inv s \<Longrightarrow> inv (complete now t k s)"
    and claim_other: "inv s \<Longrightarrow> k' \<noteq> k \<Longrightarrow> holder (claim now t k s) k' = holder s k'"
    and claim_holder: "inv s \<Longrightarrow> holder (claim now t k s) k \<in> {holder s k, None, Some t}"
    and claim_live: "inv s \<Longrightarrow> holder s k = Some u \<Longrightarrow> now < lease_until s k \<Longrightarrow>
      holder (claim now t k s) k = Some u"
    and complete_fenced: "inv s \<Longrightarrow> t \<noteq> 0 \<Longrightarrow> holder s k \<noteq> Some t \<Longrightarrow> complete now t k s = s"
    and complete_release: "inv s \<Longrightarrow> t \<noteq> 0 \<Longrightarrow> holder s k = Some t \<Longrightarrow>
      holder (complete now t k s) k = None \<or> complete now t k s = s"
    and complete_other: "inv s \<Longrightarrow> t \<noteq> 0 \<Longrightarrow> k' \<noteq> k \<Longrightarrow> holder (complete now t k s) k' = holder s k'"
begin

primrec step :: "'k lease_event \<Rightarrow> 's \<Rightarrow> 's" where
  "step (Claim now t k) s = claim now t k s"
| "step (Finish now t k) s = complete now t k s"

primrec run :: "'k lease_event list \<Rightarrow> 's \<Rightarrow> 's" where
  "run [] s = s"
| "run (e # es) s = run es (step e s)"

lemma step_inv: "inv s \<Longrightarrow> inv (step e s)"
  by (cases e) (simp_all add: claim_inv complete_inv)

lemma run_inv: "inv s \<Longrightarrow> inv (run es s)"
  by (induction es arbitrary: s) (simp_all add: step_inv)

lemma step_not_holder:
  assumes "inv s" "lease_tokens_ok e" "\<not> lease_claims t k e" "holder s k \<noteq> Some t"
  shows "holder (step e s) k \<noteq> Some t"
proof (cases e)
  case (Claim now u j)
  then show ?thesis using assms claim_holder[OF assms(1), of now u k] claim_other[OF assms(1), of k j now u]
    by (cases "j = k") auto
next
  case (Finish now u j)
  have u: "u \<noteq> 0" using assms(2) Finish by simp
  show ?thesis
  proof (cases "j = k")
    case True
    then show ?thesis using assms Finish u complete_fenced[OF assms(1) u, of k now]
        complete_release[OF assms(1) u, of k now]
      by (cases "holder s k = Some u") auto
  qed (use assms Finish complete_other[OF assms(1) u, of k j now] in auto)
qed

text \<open>A worker that does not hold the lease stays without it until it claims again, whatever
  the others do, and its completions change nothing.\<close>

lemma run_not_holder:
  "inv s \<Longrightarrow> \<forall>e \<in> set es. lease_tokens_ok e \<and> \<not> lease_claims t k e \<Longrightarrow> holder s k \<noteq> Some t \<Longrightarrow>
     holder (run es s) k \<noteq> Some t"
  by (induction es arbitrary: s) (simp_all add: step_inv step_not_holder)

lemma stale_worker_fenced:
  assumes "inv s" "t \<noteq> 0" "holder s k \<noteq> Some t"
    "\<forall>e \<in> set es. lease_tokens_ok e \<and> \<not> lease_claims t k e"
  shows "complete now t k (run es s) = run es s"
  using assms by (intro complete_fenced run_inv run_not_holder) auto

lemma live_lease_kept:
  assumes "inv s" "holder s k = Some u" "now < lease_until s k" "t \<noteq> u" "t \<noteq> 0"
  shows "holder (claim now t k s) k = Some u"
    "complete now' t k (claim now t k s) = claim now t k s"
  using assms claim_live[OF assms(1-3), of t] complete_fenced[OF claim_inv[OF assms(1)] assms(5)]
  by auto

end

text \<open>Where a lease cannot run out under its holder's completion, the completion gives it up.\<close>

locale lease_contract = lease_fence +
  assumes complete_done: "inv s \<Longrightarrow> t \<noteq> 0 \<Longrightarrow> holder s k = Some t \<Longrightarrow> holder (complete now t k s) k = None"
begin

text \<open>One claim, at most one effective completion.\<close>

lemma complete_once:
  assumes "inv s" "t \<noteq> 0" "\<forall>e \<in> set es. lease_tokens_ok e \<and> \<not> lease_claims t k e"
  shows "complete now' t k (run es (complete now t k s)) = run es (complete now t k s)"
proof (rule stale_worker_fenced)
  show "inv (complete now t k s)" using assms(1) by (rule complete_inv)
  show "holder (complete now t k s) k \<noteq> Some t"
    using complete_done[OF assms(1,2), of k now] complete_fenced[OF assms(1,2), of k now]
    by (cases "holder s k = Some t") auto
qed (use assms in auto)

end

end
