(* ===== verification/StorageOps.thy ===== *)
theory StorageOps
  imports Database Lease
begin

text \<open>
  Package \<open>storageops\<close>: the durable queue of object-storage work.  An operation is leased to one
  worker by a token; the owned completions are fenced by that token.  Every function takes the
  clock reading and the fresh token as arguments.  \<open>RunOwned\<close>'s renewal goroutine is the step
  \<open>renew_lease\<close>.
\<close>

section \<open>Operations\<close>

definition max_attempts :: nat where "max_attempts = 12"

definition error_message :: "string option \<Rightarrow> go_error" where
  "error_message m = (case m of None \<Rightarrow> ErrNew ''storage operation failed''
     | Some s \<Rightarrow> if trim_str s = [] then ErrNew ''storage operation failed'' else ErrNew s)"

definition last_error_value :: "operation \<Rightarrow> go_error" where
  "last_error_value o' =
     (if so_state o' = OpDead then ErrJoin StorageExhausted (error_message (so_last_error o'))
      else error_message (so_last_error o'))"

record enqueue_input =
  oi_id :: uuid
  oi_operation_type :: operation_type
  oi_idempotency_key :: string
  oi_upload_session_id :: "uuid option"
  oi_object_id :: "uuid option"
  oi_source_bucket :: string
  oi_source_key :: string
  oi_target_bucket :: string
  oi_target_key :: string
  oi_storage_upload_id :: string

definition operation_of_input :: "uuid \<Rightarrow> time \<Rightarrow> enqueue_input \<Rightarrow> operation" where
  "operation_of_input fresh now i =
     \<lparr> so_id = (if oi_id i = 0 then fresh else oi_id i),
       so_operation_type = oi_operation_type i, so_idempotency_key = oi_idempotency_key i,
       so_upload_session_id = oi_upload_session_id i, so_object_id = oi_object_id i,
       so_source_bucket = oi_source_bucket i, so_source_key = oi_source_key i,
       so_target_bucket = oi_target_bucket i, so_target_key = oi_target_key i,
       so_storage_upload_id = oi_storage_upload_id i, so_state = OpPending, so_attempt = 0,
       so_available_at = now, so_lease_until = None, so_lease_token = None,
       so_last_error = None, so_created_at = now, so_updated_at = now, so_completed_at = None \<rparr>"

definition operation_by_key :: "string \<Rightarrow> db \<Rightarrow> operation option" where
  "operation_by_key k d = find (\<lambda>o'. so_idempotency_key o' = k) (storage_operations d)"

definition operation_by_id :: "uuid \<Rightarrow> db \<Rightarrow> operation option" where
  "operation_by_id i d = find (\<lambda>o'. so_id o' = i) (storage_operations d)"

definition enqueue :: "uuid \<Rightarrow> time \<Rightarrow> enqueue_input \<Rightarrow> db \<Rightarrow> (operation \<times> db) result" where
  "enqueue fresh now i d =
     (if trim_str (oi_idempotency_key i) = [] then Inl StorageInvalidOperation
      else let op = operation_of_input fresh now i in
        case operation_by_key (oi_idempotency_key i) d of
          Some existing \<Rightarrow> Inr (existing, d)
        | None \<Rightarrow>
            if exists_where (\<lambda>o'. so_id o' = so_id op) (storage_operations d)
            then Inl GormDuplicatedKey
            else Inr (op, d\<lparr>storage_operations := storage_operations d @ [op]\<rparr>))"

text \<open>The lease condition \<open>state = 'running' AND lease_token = ?\<close>; a nil token leaves it out.\<close>

definition owned_by :: "uuid \<Rightarrow> uuid \<Rightarrow> operation \<Rightarrow> bool" where
  "owned_by i token o' \<longleftrightarrow>
     so_id o' = i \<and> (token \<noteq> 0 \<longrightarrow> so_state o' = OpRunning \<and> so_lease_token o' = Some token)"

definition succeed :: "time \<Rightarrow> operation \<Rightarrow> operation" where
  "succeed now o' = o'\<lparr>so_state := OpSucceeded, so_completed_at := Some now, so_updated_at := now,
     so_lease_until := None, so_last_error := None, so_lease_token := None\<rparr>"

definition mark_succeeded :: "time \<Rightarrow> uuid \<Rightarrow> uuid \<Rightarrow> db \<Rightarrow> db result" where
  "mark_succeeded now i token d =
     (if i = 0 then Inl StorageInvalidOperation
      else let n = count_where (owned_by i token) (storage_operations d);
               d' = d\<lparr>storage_operations := update_where (owned_by i token) (succeed now)
                                             (storage_operations d)\<rparr>
        in if n = 1 \<or> token = 0 then Inr d'
           else case operation_by_id i d' of
             None \<Rightarrow> Inl GormRecordNotFound
           | Some current \<Rightarrow>
               if so_state current = OpSucceeded then Inr d'
               else Inl (ErrNew ''storage operation lease lost''))"

definition mark_succeeded_owned :: "time \<Rightarrow> uuid \<Rightarrow> uuid \<Rightarrow> db \<Rightarrow> db result" where
  "mark_succeeded_owned now i token d =
     (if token = 0 then Inl StorageInvalidOperation else mark_succeeded now i token d)"

definition backoff_interval :: "nat \<Rightarrow> time" where
  "backoff_interval n =
     (if n \<le> 1 then second else if n = 2 then 5 * second
      else if n = 3 then 30 * second else if n = 4 then minute else 5 * minute)"

text \<open>\<open>Duration.Milliseconds\<close> truncates.\<close>

definition truncate_ms :: "time \<Rightarrow> time" where
  "truncate_ms t = (t div 1000000) * 1000000"

definition fail_row :: "time \<Rightarrow> string \<Rightarrow> time \<Rightarrow> operation \<Rightarrow> operation" where
  "fail_row now message retry_after o' =
     o'\<lparr>so_state := (if so_attempt o' \<ge> max_attempts then OpDead else OpFailed),
        so_completed_at := (if so_attempt o' \<ge> max_attempts then Some now else None),
        so_available_at := now + max (truncate_ms retry_after) (backoff_interval (so_attempt o')),
        so_updated_at := now, so_lease_until := None, so_lease_token := None,
        so_last_error := Some message\<rparr>"

text \<open>The update commits even when the function then reports an error, so the result is the error
  (if any) beside the database.\<close>

definition mark_failed ::
  "time \<Rightarrow> uuid \<Rightarrow> uuid \<Rightarrow> string \<Rightarrow> time \<Rightarrow> db \<Rightarrow> go_error option \<times> db" where
  "mark_failed now i token message retry_after d =
     (if i = 0 then (Some StorageInvalidOperation, d)
      else let after = (if retry_after < second then second else retry_after);
               hit = filter (owned_by i token) (storage_operations d);
               d' = d\<lparr>storage_operations := update_where (owned_by i token)
                        (fail_row now message after) (storage_operations d)\<rparr>
        in if length hit = 1 \<and> so_state (fail_row now message after (hd hit)) = OpDead
             then (Some StorageExhausted, d')
           else if length hit = 1 \<or> token = 0 then (None, d')
           else case operation_by_id i d' of
             None \<Rightarrow> (Some GormRecordNotFound, d')
           | Some _ \<Rightarrow> (Some (ErrNew ''storage operation lease lost''), d'))"

definition mark_failed_owned ::
  "time \<Rightarrow> uuid \<Rightarrow> uuid \<Rightarrow> string \<Rightarrow> time \<Rightarrow> db \<Rightarrow> go_error option \<times> db" where
  "mark_failed_owned now i token message retry_after d =
     (if token = 0 then (Some StorageInvalidOperation, d)
      else mark_failed now i token message retry_after d)"

definition get_operation :: "uuid \<Rightarrow> db \<Rightarrow> operation result" where
  "get_operation i d =
     (if i = 0 then Inl StorageInvalidOperation
      else found GormRecordNotFound (operation_by_id i d))"

section \<open>Claims\<close>

definition lease_expired :: "time \<Rightarrow> operation \<Rightarrow> bool" where
  "lease_expired now o' = (case so_lease_until o' of None \<Rightarrow> True | Some t \<Rightarrow> t \<le> now)"

definition exhausted :: "time \<Rightarrow> operation \<Rightarrow> bool" where
  "exhausted now o' \<longleftrightarrow> so_attempt o' \<ge> max_attempts \<and>
     (so_state o' \<in> {OpPending, OpFailed} \<or> so_state o' = OpRunning \<and> lease_expired now o')"

definition retire :: "time \<Rightarrow> operation \<Rightarrow> operation" where
  "retire now o' = o'\<lparr>so_state := OpDead, so_lease_until := None, so_lease_token := None,
     so_completed_at := Some now, so_updated_at := now,
     so_last_error := (case so_last_error o' of
        None \<Rightarrow> Some ''storage operation retry budget exhausted'' | Some m \<Rightarrow> Some m)\<rparr>"

text \<open>\<open>ORDER BY updated_at, id LIMIT limit\<close>: two stable sorts.\<close>

definition stop_exhausted :: "time \<Rightarrow> (operation \<Rightarrow> bool) \<Rightarrow> nat \<Rightarrow> db \<Rightarrow> db" where
  "stop_exhausted now base limit d =
     (let eligible = take limit (sort_key so_updated_at (sort_key so_id
                       (filter (\<lambda>o'. base o' \<and> exhausted now o') (storage_operations d))));
          ids = map so_id eligible
      in d\<lparr>storage_operations :=
             update_where (\<lambda>o'. so_id o' \<in> set ids) (retire now) (storage_operations d)\<rparr>)"

definition start_row :: "time \<Rightarrow> time \<Rightarrow> uuid \<Rightarrow> operation \<Rightarrow> operation" where
  "start_row now lease token o' =
     o'\<lparr>so_state := OpRunning, so_lease_until := Some (now + lease), so_lease_token := Some token,
        so_attempt := so_attempt o' + 1, so_updated_at := now\<rparr>"

definition startable :: "time \<Rightarrow> uuid \<Rightarrow> operation \<Rightarrow> bool" where
  "startable now i o' \<longleftrightarrow> so_attempt o' < max_attempts \<and> so_id o' = i \<and>
     (so_state o' \<in> {OpPending, OpFailed} \<and> so_available_at o' \<le> now \<or>
      so_state o' = OpRunning \<and> lease_expired now o')"

definition try_start :: "time \<Rightarrow> uuid \<Rightarrow> uuid \<Rightarrow> time \<Rightarrow> db \<Rightarrow> (bool \<times> uuid \<times> db) result" where
  "try_start now token i lease0 d0 =
     (if i = 0 then Inl StorageInvalidOperation
      else let lease = (if lease0 \<le> 0 then 5 * minute else lease0);
               d = stop_exhausted now (\<lambda>o'. so_id o' = i) 1 d0
        in Inr (count_where (startable now i) (storage_operations d) = 1, token,
             d\<lparr>storage_operations := update_where (startable now i) (start_row now lease token)
                                        (storage_operations d)\<rparr>))"

definition claimable :: "time \<Rightarrow> operation_type list \<Rightarrow> operation \<Rightarrow> bool" where
  "claimable now types o' \<longleftrightarrow> so_attempt o' < max_attempts \<and> so_operation_type o' \<in> set types \<and>
     so_state o' \<in> {OpPending, OpFailed, OpRunning} \<and> so_available_at o' \<le> now \<and>
     lease_expired now o'"

text \<open>The per-row loop of \<open>ClaimTypes\<close>; \<open>mint\<close> supplies the tokens.\<close>

fun claim_rows :: "time \<Rightarrow> time \<Rightarrow> (nat \<Rightarrow> uuid) \<Rightarrow> nat \<Rightarrow> operation list \<Rightarrow> db \<Rightarrow> operation list \<times> db" where
  "claim_rows now lease mint k [] d = ([], d)"
| "claim_rows now lease mint k (o' # os) d =
     (let d' = d\<lparr>storage_operations := update_where (\<lambda>q. so_id q = so_id o')
                    (start_row now lease (mint k)) (storage_operations d)\<rparr>;
          (rest, d'') = claim_rows now lease mint (Suc k) os d'
      in (o'\<lparr>so_state := OpRunning, so_lease_until := Some (now + lease),
             so_lease_token := Some (mint k), so_attempt := so_attempt o' + 1\<rparr> # rest, d''))"

definition claim_types ::
  "time \<Rightarrow> (nat \<Rightarrow> uuid) \<Rightarrow> nat \<Rightarrow> time \<Rightarrow> operation_type list \<Rightarrow> db \<Rightarrow> (operation list \<times> db) result"
where
  "claim_types now mint limit lease0 types d0 =
     (if limit = 0 \<or> types = [] then Inl StorageInvalidOperation
      else let lease = (if lease0 \<le> 0 then minute else lease0);
               d = stop_exhausted now (\<lambda>o'. so_operation_type o' \<in> set types) limit d0;
               rows = take limit (sort_key so_available_at (sort_key so_created_at
                        (filter (claimable now types) (storage_operations d))))
        in Inr (claim_rows now lease mint 0 rows d))"

section \<open>Owned execution\<close>

datatype renewal = Renewed | RenewalSucceeded | RenewalLost

definition renewable :: "time \<Rightarrow> uuid \<Rightarrow> uuid \<Rightarrow> operation \<Rightarrow> bool" where
  "renewable now i token o' \<longleftrightarrow> so_id o' = i \<and> so_state o' = OpRunning \<and>
     so_lease_token o' = Some token \<and> (case so_lease_until o' of None \<Rightarrow> False | Some t \<Rightarrow> now < t)"

text \<open>One tick of \<open>RunOwned\<close>'s renewal goroutine: renewed, stopped quietly because the operation
  has succeeded meanwhile, or lost (the provider call is cancelled).\<close>

definition renew_lease :: "time \<Rightarrow> time \<Rightarrow> uuid \<Rightarrow> uuid \<Rightarrow> db \<Rightarrow> renewal \<times> db" where
  "renew_lease now lease i token d =
     (let n = count_where (renewable now i token) (storage_operations d);
          d' = d\<lparr>storage_operations := update_where (renewable now i token)
                   (\<lambda>o'. o'\<lparr>so_lease_until := Some (now + truncate_ms lease), so_updated_at := now\<rparr>)
                   (storage_operations d)\<rparr>
      in if n = 0 \<and> (case operation_by_id i d' of Some c \<Rightarrow> so_state c = OpSucceeded | None \<Rightarrow> False)
           then (RenewalSucceeded, d')
         else if n \<noteq> 1 then (RenewalLost, d')
         else (Renewed, d'))"

text \<open>The error \<open>RunOwned\<close> returns from the provider call's own error and the cancellation cause.\<close>

definition join_errors :: "go_error option \<Rightarrow> go_error option \<Rightarrow> go_error option" where
  "join_errors a b = (case b of None \<Rightarrow> a
     | Some later \<Rightarrow> Some (case a of None \<Rightarrow> later | Some earlier \<Rightarrow> ErrJoin earlier later))"

definition run_owned_result :: "operation \<Rightarrow> time \<Rightarrow> go_error option \<Rightarrow> go_error option \<Rightarrow> go_error option" where
  "run_owned_result op lease err cause =
     (if so_lease_token op = None \<or> lease \<le> 0 then Some StorageInvalidOperation
      else join_errors err cause)"

text \<open>\<open>RecordError\<close>: a cancelled call hands the attempt back, any other failure is recorded.\<close>

definition release_row :: "time \<Rightarrow> string \<Rightarrow> operation \<Rightarrow> operation" where
  "release_row now message o' =
     o'\<lparr>so_state := OpPending, so_attempt := so_attempt o' - 1, so_available_at := now, so_updated_at := now,
        so_lease_until := None, so_lease_token := None, so_last_error := Some message\<rparr>"

definition record_error ::
  "time \<Rightarrow> bool \<Rightarrow> operation \<Rightarrow> go_error \<Rightarrow> string \<Rightarrow> db \<Rightarrow> go_error \<times> db" where
  "record_error now canceled op cause message d =
     (case so_lease_token op of
        None \<Rightarrow> (ErrJoin cause StorageInvalidOperation, d)
      | Some token \<Rightarrow>
          if canceled then
            (let own = (\<lambda>o'. so_id o' = so_id op \<and> so_state o' = OpRunning \<and>
                             so_lease_token o' = Some token);
                 d' = d\<lparr>storage_operations :=
                         update_where own (release_row now message) (storage_operations d)\<rparr>
             in if count_where own (storage_operations d) \<noteq> 1
                then (ErrJoin cause StorageLeaseLost, d') else (cause, d'))
          else (case mark_failed_owned now (so_id op) token message second d of
                  (None, d') \<Rightarrow> (cause, d')
                | (Some e, d') \<Rightarrow> (ErrJoin cause e, d')))"

section \<open>Lemmas\<close>

text \<open>The well-formedness of the table: unique identifiers, attempts within the budget, and a
  lease token exactly on running rows.\<close>

definition op_ok :: "operation \<Rightarrow> bool" where
  "op_ok o' \<longleftrightarrow> so_attempt o' \<le> max_attempts \<and>
     (so_lease_token o' \<noteq> None \<longleftrightarrow> so_state o' = OpRunning) \<and>
     (so_state o' = OpRunning \<longrightarrow> 0 < so_attempt o')"

definition ops_ok :: "db \<Rightarrow> bool" where
  "ops_ok d \<longleftrightarrow> key_distinct so_id (storage_operations d) \<and>
     key_distinct so_idempotency_key (storage_operations d) \<and>
     (\<forall>o' \<in> set (storage_operations d). op_ok o')"

lemmas row_change_defs = succeed_def fail_row_def retire_def start_row_def release_row_def

lemma row_change_keys [simp]:
  "so_id (succeed now o') = so_id o'" "so_id (fail_row now m r o') = so_id o'"
  "so_id (retire now o') = so_id o'" "so_id (start_row now l t o') = so_id o'"
  "so_id (release_row now m o') = so_id o'"
  "so_idempotency_key (succeed now o') = so_idempotency_key o'"
  "so_idempotency_key (fail_row now m r o') = so_idempotency_key o'"
  "so_idempotency_key (retire now o') = so_idempotency_key o'"
  "so_idempotency_key (start_row now l t o') = so_idempotency_key o'"
  "so_idempotency_key (release_row now m o') = so_idempotency_key o'"
  by (simp_all add: row_change_defs)

lemma op_ok_changes:
  "op_ok o' \<Longrightarrow> op_ok (succeed now o')" "op_ok o' \<Longrightarrow> op_ok (fail_row now m r o')"
  "op_ok o' \<Longrightarrow> op_ok (retire now o')" "op_ok o' \<Longrightarrow> op_ok (release_row now m o')"
  "op_ok o' \<Longrightarrow> so_attempt o' < max_attempts \<Longrightarrow> op_ok (start_row now l t o')"
  by (auto simp: op_ok_def row_change_defs max_attempts_def)

lemma ops_ok_update:
  assumes "ops_ok d" "\<And>o'. so_id (g o') = so_id o'"
    "\<And>o'. so_idempotency_key (g o') = so_idempotency_key o'"
    "\<And>o'. o' \<in> set (storage_operations d) \<Longrightarrow> P o' \<Longrightarrow> op_ok (g o')"
  shows "ops_ok (d\<lparr>storage_operations := update_where P g (storage_operations d)\<rparr>)"
  using assms by (auto simp: ops_ok_def in_set_update_where intro!: key_distinct_update)

lemma stop_exhausted_eq:
  "\<exists>ids. stop_exhausted now base limit d = d\<lparr>storage_operations :=
     update_where (\<lambda>o'. so_id o' \<in> ids) (retire now) (storage_operations d)\<rparr>"
  by (auto simp: stop_exhausted_def Let_def)

lemma stop_exhausted_ok [inv_intros]: "ops_ok d \<Longrightarrow> ops_ok (stop_exhausted now base limit d)"
  unfolding stop_exhausted_def Let_def
  by (rule ops_ok_update) (auto simp: ops_ok_def op_ok_changes)

lemma enqueue_cases:
  assumes "enqueue fresh now i d = Inr (op, d')"
  obtains (existing) "operation_by_key (oi_idempotency_key i) d = Some op" "d' = d"
  | (new) "operation_by_key (oi_idempotency_key i) d = None"
      "op = operation_of_input fresh now i"
      "d' = d\<lparr>storage_operations := storage_operations d @ [op]\<rparr>"
      "\<forall>x \<in> set (storage_operations d). so_id x \<noteq> so_id op"
  using assms by (auto simp: enqueue_def Let_def table_simps split: if_splits option.splits)

lemma operation_by_key_NoneD:
  "operation_by_key k d = None \<Longrightarrow> x \<in> set (storage_operations d) \<Longrightarrow> so_idempotency_key x \<noteq> k"
  unfolding operation_by_key_def by (drule find_NoneD) auto

lemma operation_of_input_ok: "op_ok (operation_of_input fresh now i)"
  by (simp add: op_ok_def operation_of_input_def)

lemma operation_of_input_key [simp]:
  "so_idempotency_key (operation_of_input fresh now i) = oi_idempotency_key i"
  by (simp add: operation_of_input_def)

lemma enqueue_ok [inv_intros]:
  assumes "enqueue fresh now i d = Inr (op, d')" "ops_ok d"
  shows "ops_ok d'"
  using assms(1)
proof (cases rule: enqueue_cases)
  case new
  have "so_idempotency_key op \<notin> so_idempotency_key ` set (storage_operations d)"
    using operation_by_key_NoneD[OF new(1)] new(2) by (metis imageE operation_of_input_key)
  moreover have "so_id op \<notin> so_id ` set (storage_operations d)" using new(4) by auto
  ultimately show ?thesis
    using assms(2) new(2,3) operation_of_input_ok[of fresh now i]
    by (auto simp: ops_ok_def intro!: key_distinct_append_new)
qed (use assms(2) in simp)

lemma mark_succeeded_ok [inv_intros]:
  "mark_succeeded now i token d = Inr d' \<Longrightarrow> ops_ok d \<Longrightarrow> ops_ok d'"
  by (auto simp: mark_succeeded_def Let_def split: if_splits option.splits
      intro!: ops_ok_update op_ok_changes) (auto simp: ops_ok_def)

lemma snd_mark_failed:
  "snd (mark_failed now i token m r d) = (if i = 0 then d else d\<lparr>storage_operations :=
     update_where (owned_by i token) (fail_row now m (if r < second then second else r))
       (storage_operations d)\<rparr>)"
  unfolding mark_failed_def Let_def by (cases "i = 0") (simp_all split: option.split)

lemma mark_failed_ok [inv_intros]:
  assumes "ops_ok d" shows "ops_ok (snd (mark_failed now i token m r d))"
proof -
  have "ops_ok (d\<lparr>storage_operations :=
      update_where (owned_by i token) (fail_row now m s) (storage_operations d)\<rparr>)" for s
    by (rule ops_ok_update[OF assms]) (use assms in \<open>auto simp: ops_ok_def intro: op_ok_changes(2)\<close>)
  then show ?thesis using assms unfolding snd_mark_failed by (simp only: if_split simp_thms)
qed

lemma try_start_ok [inv_intros]:
  assumes "try_start now token i lease d = Inr (started, t, d')" "ops_ok d"
  shows "ops_ok d'"
proof -
  let ?d = "stop_exhausted now (\<lambda>o'. so_id o' = i) 1 d"
  have "ops_ok ?d" using assms(2) by (rule stop_exhausted_ok)
  then have "ops_ok (?d\<lparr>storage_operations := update_where (startable now i)
      (start_row now l token) (storage_operations ?d)\<rparr>)" for l
    by (rule ops_ok_update)
       (use \<open>ops_ok ?d\<close> in \<open>auto simp: ops_ok_def startable_def op_ok_changes\<close>)
  then show ?thesis using assms(1) by (auto simp: try_start_def Let_def split: if_splits)
qed

lemma renew_lease_ok [inv_intros]: "ops_ok d \<Longrightarrow> ops_ok (snd (renew_lease now lease i token d))"
  unfolding renew_lease_def Let_def
  by (auto intro!: ops_ok_update) (auto simp: ops_ok_def op_ok_def renewable_def)

lemma record_error_ok [inv_intros]:
  "ops_ok d \<Longrightarrow> ops_ok (snd (record_error now c op cause m d))"
  using mark_failed_ok[of d now "so_id op" "the (so_lease_token op)" m second]
  by (auto simp: record_error_def Let_def mark_failed_owned_def split: option.splits prod.splits
      intro!: ops_ok_update op_ok_changes) (auto simp: ops_ok_def)

lemma claim_rows_ok:
  assumes "ops_ok d" "\<And>q o'. q \<in> set (storage_operations d) \<Longrightarrow> o' \<in> set os \<Longrightarrow> so_id q = so_id o' \<Longrightarrow>
      so_attempt q < max_attempts" "key_distinct so_id os"
  shows "ops_ok (snd (claim_rows now lease mint k os d))"
  using assms
proof (induction now lease mint k os d rule: claim_rows.induct)
  case (2 now lease mint k o' os d)
  let ?d = "d\<lparr>storage_operations := update_where (\<lambda>q. so_id q = so_id o')
                    (start_row now lease (mint k)) (storage_operations d)\<rparr>"
  have ok: "ops_ok ?d"
    by (rule ops_ok_update[OF 2(2)])
       (use 2(2,3) in \<open>auto simp: ops_ok_def intro!: op_ok_changes(5)\<close>)
  have "ops_ok (snd (claim_rows now lease mint (Suc k) os ?d))"
  proof (rule 2(1)[OF refl ok])
    fix q p assume q: "q \<in> set (storage_operations ?d)" "p \<in> set os" "so_id q = so_id p"
    then have "so_id p \<noteq> so_id o'"
      using 2(4) unfolding key_distinct_def
      by (metis distinct.simps(2) image_eqI list.simps(9) set_map)
    then have "q \<in> set (storage_operations d)"
      using q(1,3) by (auto simp: in_set_update_where)
    then show "so_attempt q < max_attempts" using 2(3) q by auto
  qed (use 2(4) in \<open>simp add: key_distinct_def\<close>)
  then show ?case by (auto simp: Let_def split: prod.splits)
qed simp

lemma claim_types_ok [inv_intros]:
  assumes "claim_types now mint limit lease types d = Inr (os, d')" "ops_ok d"
  shows "ops_ok d'"
proof -
  let ?d = "stop_exhausted now (\<lambda>o'. so_operation_type o' \<in> set types) limit d"
  let ?rows = "take limit (sort_key so_available_at (sort_key so_created_at
                        (filter (claimable now types) (storage_operations ?d))))"
  have ok: "ops_ok ?d" using assms(2) by (rule stop_exhausted_ok)
  then have kd: "key_distinct so_id (storage_operations ?d)" by (simp add: ops_ok_def)
  have rows: "set ?rows \<subseteq> {q \<in> set (storage_operations ?d). claimable now types q}"
    using set_take_subset by fastforce
  have "distinct (map so_id (sort_key so_available_at (sort_key so_created_at
                        (filter (claimable now types) (storage_operations ?d)))))"
    using key_distinct_filter[OF kd, of "claimable now types"]
    by (simp add: key_distinct_def distinct_map)
  then have "key_distinct so_id ?rows" by (simp add: key_distinct_def take_map[symmetric])
  moreover have "so_attempt q < max_attempts" if "q \<in> set (storage_operations ?d)" "o' \<in> set ?rows"
    "so_id q = so_id o'" for q o'
  proof -
    have "o' \<in> set (storage_operations ?d)" "claimable now types o'" using rows that(2) by auto
    then show ?thesis using key_unique[OF kd that(1)] that(3) by (auto simp: claimable_def)
  qed
  ultimately have "ops_ok (snd (claim_rows now l mint 0 ?rows ?d))" for l
    using ok by (intro claim_rows_ok) auto
  then show ?thesis using assms(1) by (auto simp: claim_types_def Let_def split: if_splits)
      (metis snd_conv)+
qed

section \<open>Reachable tables\<close>

text \<open>Every way a worker touches the table, in any order and at any clock readings.\<close>

inductive storage_step :: "db \<Rightarrow> db \<Rightarrow> bool" where
  step_enqueue: "enqueue fresh now i d = Inr (op, d') \<Longrightarrow> storage_step d d'"
| step_try_start: "try_start now token i lease d = Inr (started, t, d') \<Longrightarrow> storage_step d d'"
| step_claim: "claim_types now mint limit lease types d = Inr (os, d') \<Longrightarrow> storage_step d d'"
| step_succeed: "mark_succeeded_owned now i token d = Inr d' \<Longrightarrow> storage_step d d'"
| step_fail: "snd (mark_failed_owned now i token m r d) = d' \<Longrightarrow> storage_step d d'"
| step_renew: "snd (renew_lease now lease i token d) = d' \<Longrightarrow> storage_step d d'"
| step_record: "snd (record_error now c op cause m d) = d' \<Longrightarrow> storage_step d d'"
| step_stop: "stop_exhausted now base limit d = d' \<Longrightarrow> storage_step d d'"

inductive storage_reachable :: "db \<Rightarrow> bool" where
  storage_init: "storage_operations d = [] \<Longrightarrow> storage_reachable d"
| storage_next: "storage_reachable d \<Longrightarrow> storage_step d d' \<Longrightarrow> storage_reachable d'"

inductive_cases storage_stepE: "storage_step d d'"

lemma mark_owned_ok [inv_intros]:
  "mark_succeeded_owned now i token d = Inr d' \<Longrightarrow> ops_ok d \<Longrightarrow> ops_ok d'"
  "ops_ok d \<Longrightarrow> ops_ok (snd (mark_failed_owned now i token m r d))"
  by (auto simp: mark_succeeded_owned_def mark_failed_owned_def split: if_splits
      intro: mark_succeeded_ok mark_failed_ok)

lemma storage_step_ok: "storage_step d d' \<Longrightarrow> ops_ok d \<Longrightarrow> ops_ok d'"
  by (elim storage_stepE) (auto intro: inv_intros)

text \<open>In every table the storage-operation functions can produce, operation identifiers and
  idempotency keys are unique, no operation has spent more than its twelve attempts, and an
  operation carries a lease token exactly while it is running.\<close>

theorem storage_reachable_ok: "storage_reachable d \<Longrightarrow> ops_ok d"
proof (induction rule: storage_reachable.induct)
  case (storage_init d)
  then show ?case by (simp add: ops_ok_def)
qed (rule storage_step_ok)

definition sample_input :: enqueue_input where
  "sample_input = \<lparr> oi_id = 0, oi_operation_type = StagingDelete, oi_idempotency_key = ''k'',
     oi_upload_session_id = None, oi_object_id = None, oi_source_bucket = ''b'',
     oi_source_key = ''s'', oi_target_bucket = [], oi_target_key = [], oi_storage_upload_id = [] \<rparr>"

definition sample_ops_db :: db where
  "sample_ops_db = empty_db\<lparr>storage_operations := [operation_of_input 7 0 sample_input]\<rparr>"

lemma sample_ops_reachable: "storage_reachable sample_ops_db"
proof -
  have "enqueue 7 0 sample_input empty_db = Inr (operation_of_input 7 0 sample_input, sample_ops_db)"
    by code_simp
  moreover have "storage_reachable empty_db" by (rule storage_init) (simp add: empty_db_def)
  ultimately show ?thesis by (blast intro: storage_next step_enqueue)
qed

lemma storage_reachable_ok_witness: "ops_ok sample_ops_db"
  by (rule storage_reachable_ok[OF sample_ops_reachable])

lemma sample_ops_ok: "ops_ok sample_ops_db"
  by (simp add: ops_ok_def sample_ops_db_def key_distinct_def operation_of_input_ok)

section \<open>The lease contract\<close>

definition op_holder :: "db \<Rightarrow> uuid \<Rightarrow> uuid option" where
  "op_holder d i = (case operation_by_id i d of None \<Rightarrow> None
     | Some o' \<Rightarrow> if so_state o' = OpRunning then so_lease_token o' else None)"

definition op_lease_until :: "db \<Rightarrow> uuid \<Rightarrow> time" where
  "op_lease_until d i = (case operation_by_id i d of None \<Rightarrow> 0
     | Some o' \<Rightarrow> (case so_lease_until o' of None \<Rightarrow> 0 | Some t \<Rightarrow> t))"

text \<open>Every running row has a deadline (without it a live lease could not be recognised) and a
  proper identifier.\<close>

definition ops_leased :: "db \<Rightarrow> bool" where
  "ops_leased d \<longleftrightarrow> ops_ok d \<and>
     (\<forall>o' \<in> set (storage_operations d). so_id o' \<noteq> 0 \<and>
        (so_state o' = OpRunning \<longrightarrow> so_lease_until o' \<noteq> None))"

definition start_state :: "time \<Rightarrow> time \<Rightarrow> uuid \<Rightarrow> uuid \<Rightarrow> db \<Rightarrow> db" where
  "start_state lease now token i d =
     (case try_start now token i lease d of Inl _ \<Rightarrow> d | Inr (_, _, d') \<Rightarrow> d')"

definition succeed_state :: "time \<Rightarrow> uuid \<Rightarrow> uuid \<Rightarrow> db \<Rightarrow> db" where
  "succeed_state now token i d =
     (case mark_succeeded_owned now i token d of Inl _ \<Rightarrow> d | Inr d' \<Rightarrow> d')"

definition fail_state :: "string \<Rightarrow> time \<Rightarrow> time \<Rightarrow> uuid \<Rightarrow> uuid \<Rightarrow> db \<Rightarrow> db" where
  "fail_state m r now token i d = snd (mark_failed_owned now i token m r d)"

lemma operation_by_id_iff:
  "ops_ok d \<Longrightarrow> operation_by_id i d = Some o' \<longleftrightarrow> o' \<in> set (storage_operations d) \<and> so_id o' = i"
  unfolding operation_by_id_def ops_ok_def by (rule find_by_key) blast

lemma operation_by_id_update:
  "(\<And>o'. so_id (g o') = so_id o') \<Longrightarrow>
   operation_by_id i (d\<lparr>storage_operations := update_where P g (storage_operations d)\<rparr>) =
    map_option (\<lambda>o'. if P o' then g o' else o') (operation_by_id i d)"
  by (simp add: operation_by_id_def find_update_by_key)

lemma operation_by_id_id: "operation_by_id i d = Some o' \<Longrightarrow> so_id o' = i"
  unfolding operation_by_id_def by (drule find_SomeD) simp

lemma op_holder_None_iff:
  assumes "ops_ok d" "t \<noteq> 0"
  shows "op_holder d i \<noteq> Some t \<longleftrightarrow> (\<forall>o' \<in> set (storage_operations d). \<not> owned_by i t o')"
proof -
  have "(\<exists>o' \<in> set (storage_operations d). owned_by i t o') \<longleftrightarrow>
      (\<exists>o'. operation_by_id i d = Some o' \<and> so_state o' = OpRunning \<and> so_lease_token o' = Some t)"
    using assms by (auto simp: operation_by_id_iff owned_by_def)
  then show ?thesis by (auto simp: op_holder_def split: option.splits)
qed

lemma op_holder_SomeD:
  assumes "ops_ok d" "t \<noteq> 0" "op_holder d i = Some t"
  shows "count_where (owned_by i t) (storage_operations d) = 1"
    "\<exists>o'. operation_by_id i d = Some o' \<and> so_state o' = OpRunning \<and> so_lease_token o' = Some t"
proof -
  show ex: "\<exists>o'. operation_by_id i d = Some o' \<and> so_state o' = OpRunning \<and> so_lease_token o' = Some t"
    using assms(3) by (auto simp: op_holder_def split: option.splits if_splits)
  have "count_where (owned_by i t) (storage_operations d) =
      count_where (\<lambda>o'. so_id o' = i \<and> so_state o' = OpRunning \<and> so_lease_token o' = Some t)
        (storage_operations d)"
    using assms(2) by (simp add: owned_by_def[abs_def])
  also have "\<dots> = 1" using ex assms(1)
    by (subst count_where_by_key) (auto simp: ops_ok_def operation_by_id_def)
  finally show "count_where (owned_by i t) (storage_operations d) = 1" .
qed

lemma owned_completion_fenced_aux:
  assumes "ops_ok d" "token \<noteq> 0" "i \<noteq> 0" "op_holder d i \<noteq> Some token"
    "operation_by_id i d = Some o'"
  shows "mark_succeeded_owned now i token d =
      (if so_state o' = OpSucceeded then Inr d else Inl (ErrNew ''storage operation lease lost''))"
    "mark_failed_owned now i token m r d = (Some (ErrNew ''storage operation lease lost''), d)"
proof -
  have no: "\<forall>q \<in> set (storage_operations d). \<not> owned_by i token q"
    using op_holder_None_iff[OF assms(1,2)] assms(4) by blast
  then have "count_where (owned_by i token) (storage_operations d) = 0"
    "filter (owned_by i token) (storage_operations d) = []"
    "\<And>f. d\<lparr>storage_operations := update_where (owned_by i token) f (storage_operations d)\<rparr> = d"
    by (simp_all add: count_where_0_iff filter_empty_conv update_where_id_if)
  then show "mark_succeeded_owned now i token d =
      (if so_state o' = OpSucceeded then Inr d else Inl (ErrNew ''storage operation lease lost''))"
    "mark_failed_owned now i token m r d = (Some (ErrNew ''storage operation lease lost''), d)"
    using assms by (simp_all add: mark_succeeded_owned_def mark_succeeded_def
        mark_failed_owned_def mark_failed_def Let_def)
qed

lemma complete_states_fenced:
  assumes "ops_ok d" "t \<noteq> 0" "op_holder d i \<noteq> Some t"
  shows "succeed_state now t i d = d" "fail_state m r now t i d = d"
proof -
  have no: "\<forall>q \<in> set (storage_operations d). \<not> owned_by i t q"
    using op_holder_None_iff[OF assms(1,2)] assms(3) by blast
  then show "succeed_state now t i d = d" "fail_state m r now t i d = d"
    by (auto simp: succeed_state_def mark_succeeded_owned_def mark_succeeded_def Let_def
        count_where_0_iff update_where_id_if split: sum.splits option.splits if_splits)
       (simp add: fail_state_def mark_failed_owned_def snd_mark_failed update_where_id_if)
qed

lemma fail_state_eq:
  "i \<noteq> 0 \<Longrightarrow> t \<noteq> 0 \<Longrightarrow> fail_state m r now t i d = d\<lparr>storage_operations :=
     update_where (owned_by i t) (fail_row now m (if r < second then second else r))
       (storage_operations d)\<rparr>"
  by (simp add: fail_state_def mark_failed_owned_def snd_mark_failed)

lemma succeed_state_eq:
  assumes "ops_ok d" "i \<noteq> 0" "t \<noteq> 0" "op_holder d i = Some t"
  shows "succeed_state now t i d = d\<lparr>storage_operations :=
     update_where (owned_by i t) (succeed now) (storage_operations d)\<rparr>"
  using op_holder_SomeD(1)[OF assms(1,3,4)] assms(2,3)
  by (simp add: succeed_state_def mark_succeeded_owned_def mark_succeeded_def Let_def)

lemma ops_leased_update:
  assumes "ops_leased d" "ops_ok (d\<lparr>storage_operations := update_where P g (storage_operations d)\<rparr>)"
    "\<And>o'. so_state (g o') = OpRunning \<Longrightarrow> so_lease_until (g o') \<noteq> None"
    "\<And>o'. so_id (g o') = so_id o'"
  shows "ops_leased (d\<lparr>storage_operations := update_where P g (storage_operations d)\<rparr>)"
  using assms by (auto simp: ops_leased_def in_set_update_where)

lemma stop_exhausted_leased: "ops_leased d \<Longrightarrow> ops_leased (stop_exhausted now base limit d)"
  using stop_exhausted_ok[of d now base limit]
  unfolding stop_exhausted_def Let_def
  by (intro ops_leased_update) (auto simp: ops_leased_def retire_def)

lemma start_state_eq:
  assumes "i \<noteq> 0"
  shows "start_state lease now t i d =
    (let e = stop_exhausted now (\<lambda>o'. so_id o' = i) 1 d in
     e\<lparr>storage_operations := update_where (startable now i)
         (start_row now (if lease \<le> 0 then 5 * minute else lease) t) (storage_operations e)\<rparr>)"
  using assms by (simp add: start_state_def try_start_def Let_def)

lemma start_state_nil: "start_state lease now t 0 d = d"
  by (simp add: start_state_def try_start_def)

lemma start_state_ok: "ops_ok d \<Longrightarrow> ops_ok (start_state lease now t i d)"
  by (auto simp: start_state_def split: sum.splits intro: try_start_ok)

lemma start_state_leased: "ops_leased d \<Longrightarrow> ops_leased (start_state lease now t i d)"
proof (cases "i = 0")
  case False
  assume d: "ops_leased d"
  let ?e = "stop_exhausted now (\<lambda>o'. so_id o' = i) 1 d"
  have "ops_leased ?e" using d by (rule stop_exhausted_leased)
  moreover have "ops_ok (start_state lease now t i d)"
    using d by (intro start_state_ok) (simp add: ops_leased_def)
  ultimately show ?thesis
    using False unfolding start_state_eq[OF False] Let_def
    by (intro ops_leased_update) (auto simp: start_row_def)
qed (simp add: start_state_nil)

text \<open>What a claim does to the row of one key.\<close>

definition retired_by :: "time \<Rightarrow> operation \<Rightarrow> operation" where
  "retired_by now o' = (if exhausted now o' then retire now o' else o')"

lemma stop_exhausted_one:
  assumes "ops_ok d"
  shows "operation_by_id j (stop_exhausted now (\<lambda>o'. so_id o' = i) 1 d) =
    map_option (\<lambda>o'. if j = i then retired_by now o' else o') (operation_by_id j d)"
proof -
  let ?F = "filter (\<lambda>o'. so_id o' = i \<and> exhausted now o') (storage_operations d)"
  have len: "length ?F \<le> 1"
    using count_where_by_key[of so_id "storage_operations d" i "exhausted now"] assms
    by (auto simp: ops_ok_def count_where_def split: option.splits)
  let ?S = "sort_key so_updated_at (sort_key so_id ?F)"
  have "take 1 ?S = ?S" using len by simp
  then have ids: "set (map so_id (take 1 ?S)) = so_id ` set ?F" by simp
  have hit: "so_id o' \<in> so_id ` set ?F \<longleftrightarrow> so_id o' = i \<and> exhausted now o'"
    if "o' \<in> set (storage_operations d)" for o'
    using that assms key_unique[of so_id "storage_operations d"] unfolding ops_ok_def by auto
  have "operation_by_id j (stop_exhausted now (\<lambda>o'. so_id o' = i) 1 d) =
      map_option (\<lambda>o'. if so_id o' \<in> so_id ` set ?F then retire now o' else o') (operation_by_id j d)"
    unfolding stop_exhausted_def Let_def ids by (rule operation_by_id_update) simp
  also have "\<dots> = map_option (\<lambda>o'. if j = i then retired_by now o' else o') (operation_by_id j d)"
  proof (cases "operation_by_id j d")
    case (Some q)
    then have q: "q \<in> set (storage_operations d)" "so_id q = j"
      using operation_by_id_iff[OF assms, of j q] by simp_all
    show ?thesis using hit[OF q(1)] q(2) Some by (cases "j = i") (auto simp only: retired_by_def
        option.map simp_thms if_True if_False split: if_splits)
  qed simp
  finally show ?thesis .
qed

lemma startable_id: "startable now i q \<Longrightarrow> so_id q = i"
  by (simp add: startable_def)

lemma retired_not_startable: "\<not> startable now i (retire now o')"
  by (simp add: startable_def retire_def)

lemma start_state_row:
  assumes "ops_ok d" "i \<noteq> 0"
  shows "operation_by_id j (start_state lease now t i d) =
    map_option (\<lambda>o'. if j = i then
        (let q = retired_by now o' in if startable now i q
         then start_row now (if lease \<le> 0 then 5 * minute else lease) t q else q) else o')
      (operation_by_id j d)"
  using stop_exhausted_one[OF assms(1), of j now i] operation_by_id_id[of j d]
  unfolding start_state_eq[OF assms(2)] Let_def
  by (subst operation_by_id_update)
     (auto dest: startable_id simp: retired_by_def retired_not_startable option.map_comp comp_def
       intro!: option.map_cong split: if_splits)


lemma start_state_holder:
  assumes "ops_ok d" "i \<noteq> 0"
  shows "op_holder (start_state lease now t i d) j =
    (case operation_by_id j d of None \<Rightarrow> None | Some o' \<Rightarrow>
       if j \<noteq> i then op_holder d j
       else if exhausted now o' then None
       else if startable now i o' then Some t else op_holder d j)"
proof (cases "operation_by_id j d")
  case (Some q)
  show ?thesis
    unfolding op_holder_def start_state_row[OF assms] Some
    by (simp add: Let_def retired_by_def retired_not_startable)
       (simp add: start_row_def retire_def)
qed (simp add: op_holder_def start_state_row[OF assms])

lemma live_not_startable:
  assumes "ops_leased d" "op_holder d i = Some u" "now < op_lease_until d i"
    "operation_by_id i d = Some o'"
  shows "\<not> exhausted now o'" "\<not> startable now i o'"
proof -
  have r: "so_state o' = OpRunning" using assms(2,4) by (auto simp: op_holder_def split: if_splits)
  moreover have "so_lease_until o' \<noteq> None"
    using assms(1,4) r operation_by_id_iff[of d i o'] by (auto simp: ops_leased_def)
  ultimately have "\<not> lease_expired now o'"
    using assms(3,4) by (auto simp: op_lease_until_def lease_expired_def)
  then show "\<not> exhausted now o'" "\<not> startable now i o'"
    using r by (auto simp: exhausted_def startable_def)
qed

lemma op_holder_update:
  assumes "\<And>o'. so_id (g o') = so_id o'"
  shows "op_holder (d\<lparr>storage_operations := update_where P g (storage_operations d)\<rparr>) j =
    (case operation_by_id j d of None \<Rightarrow> None | Some q \<Rightarrow>
       if P q then (if so_state (g q) = OpRunning then so_lease_token (g q) else None)
       else op_holder d j)"
  by (cases "operation_by_id j d") (simp_all add: op_holder_def operation_by_id_update[OF assms])

lemma row_change_states [simp]:
  "so_state (succeed now q) = OpSucceeded" "so_state (fail_row now m r q) \<noteq> OpRunning"
  "so_state (retire now q) = OpDead" "so_state (start_row now l t q) = OpRunning"
  "so_lease_token (start_row now l t q) = Some t"
  by (simp_all add: row_change_defs)

lemma complete_state_holder:
  assumes "ops_ok d" "i \<noteq> 0" "t \<noteq> 0" "op_holder d i = Some t"
  shows "op_holder (succeed_state now t i d) i = None"
    "op_holder (fail_state m r now t i d) i = None"
proof -
  obtain q where "operation_by_id i d = Some q" "owned_by i t q"
    using op_holder_SomeD(2)[OF assms(1,3,4)] operation_by_id_id[of i d]
    by (auto simp: owned_by_def)
  then show "op_holder (succeed_state now t i d) i = None"
    "op_holder (fail_state m r now t i d) i = None"
    unfolding succeed_state_eq[OF assms] fail_state_eq[OF assms(2,3)]
    by (simp_all add: op_holder_update)
qed

lemma op_holder_nil: "op_holder d 0 = Some t \<Longrightarrow> succeed_state now u 0 d = d"
  by (simp add: succeed_state_def mark_succeeded_owned_def mark_succeeded_def)

lemma complete_state_other:
  assumes "ops_ok d" "t \<noteq> 0" "j \<noteq> i"
  shows "op_holder (succeed_state now t i d) j = op_holder d j"
    "op_holder (fail_state m r now t i d) j = op_holder d j"
proof -
  have upd: "op_holder (d\<lparr>storage_operations := update_where (owned_by i t) g (storage_operations d)\<rparr>) j
      = op_holder d j" if "\<And>o'. so_id (g o') = so_id o'" for g
  proof (cases "operation_by_id j d")
    case (Some q)
    then have "\<not> owned_by i t q" using assms(3) operation_by_id_id[of j d q] by (simp add: owned_by_def)
    then show ?thesis using Some by (simp add: op_holder_update[OF that])
  next
    case None
    then show ?thesis by (simp add: op_holder_update[OF that]) (simp add: op_holder_def)
  qed
  show "op_holder (succeed_state now t i d) j = op_holder d j"
  proof (cases "i \<noteq> 0 \<and> op_holder d i = Some t")
    case True
    then show ?thesis using succeed_state_eq[OF assms(1) _ assms(2), of i] upd by simp
  next
    case False
    then have "succeed_state now t i d = d"
      using complete_states_fenced(1)[OF assms(1,2), of i]
      by (auto simp: succeed_state_def mark_succeeded_owned_def mark_succeeded_def)
    then show ?thesis by simp
  qed
  show "op_holder (fail_state m r now t i d) j = op_holder d j"
    using upd fail_state_eq[OF _ assms(2), of i]
    by (cases "i = 0") (simp_all add: fail_state_def mark_failed_owned_def snd_mark_failed)
qed

lemma complete_states_ok:
  "ops_ok d \<Longrightarrow> ops_ok (succeed_state now t i d)" "ops_ok d \<Longrightarrow> ops_ok (fail_state m r now t i d)"
  by (auto simp: succeed_state_def fail_state_def split: sum.splits intro: mark_owned_ok)


lemma complete_states_nil: "succeed_state now 0 i d = d" "fail_state m r now 0 i d = d"
  by (simp_all add: succeed_state_def mark_succeeded_owned_def fail_state_def mark_failed_owned_def)

lemma complete_states_leased:
  assumes "ops_leased d" "t \<noteq> 0"
  shows "ops_leased (succeed_state now t i d)" "ops_leased (fail_state m r now t i d)"
proof -
  have ok: "ops_ok d" using assms(1) by (simp add: ops_leased_def)
  show "ops_leased (succeed_state now t i d)"
  proof (cases "i \<noteq> 0 \<and> op_holder d i = Some t")
    case True
    then show ?thesis
      using assms complete_states_ok(1)[OF ok, of now t i] succeed_state_eq[OF ok _ assms(2), of i now]
      by (auto intro!: ops_leased_update)
  next
    case False
    then show ?thesis
      using assms(1) complete_states_fenced(1)[OF ok assms(2), of i]
      by (auto simp: succeed_state_def mark_succeeded_owned_def mark_succeeded_def)
  qed
  show "ops_leased (fail_state m r now t i d)"
    using assms complete_states_ok(2)[OF ok, of m r now t i] fail_state_eq[OF _ assms(2), of i m r now d]
    by (cases "i = 0") (auto simp: fail_state_def mark_failed_owned_def snd_mark_failed
        intro!: ops_leased_update)
qed

lemma op_holder_missing: "operation_by_id i d = None \<Longrightarrow> op_holder d i = None"
  by (simp add: op_holder_def)

lemma complete_state_done:
  assumes "ops_leased s" "t \<noteq> 0" "op_holder s k = Some t"
  shows "op_holder (succeed_state now t k s) k = None" "op_holder (fail_state m r now t k s) k = None"
proof -
  have "k \<noteq> 0" using assms operation_by_id_iff[of s k]
    by (auto simp: ops_leased_def op_holder_def split: option.splits)
  with assms show "op_holder (succeed_state now t k s) k = None" "op_holder (fail_state m r now t k s) k = None"
    by (intro complete_state_holder; simp add: ops_leased_def)+
qed

interpretation succeed_lease:
  lease_contract op_holder op_lease_until "start_state l" succeed_state ops_leased for l
proof (unfold_locales, goal_cases)
  case (1 s now t k) then show ?case by (rule start_state_leased)
next
  case (2 s now t k) then show ?case
    by (cases "t = 0") (simp_all add: complete_states_leased complete_states_nil)
next
  case (3 s k' k now t) then show ?case
    by (cases "k = 0"; cases "operation_by_id k' s")
       (simp_all add: start_state_nil start_state_holder ops_leased_def op_holder_missing)
next
  case (4 s now t k) then show ?case
    by (cases "k = 0"; cases "operation_by_id k s")
       (simp_all add: start_state_nil start_state_holder ops_leased_def op_holder_missing)
next
  case (5 s k u now t)
  then show ?case
    using live_not_startable[OF 5]
    by (cases "k = 0"; cases "operation_by_id k s")
       (simp_all add: start_state_nil start_state_holder ops_leased_def op_holder_missing)
next
  case (6 s t k now) then show ?case
    by (intro complete_states_fenced) (simp_all add: ops_leased_def)
next
  case (7 s t k now) then show ?case using complete_state_done(1) by blast
next
  case (8 s t k' k now) then show ?case
    by (intro complete_state_other) (simp_all add: ops_leased_def)
next
  case (9 s t k now) then show ?case by (rule complete_state_done(1))
qed

interpretation fail_lease:
  lease_contract op_holder op_lease_until "start_state l" "fail_state m r" ops_leased for l m r
proof (unfold_locales, goal_cases)
  case (1 s now t k) then show ?case by (rule start_state_leased)
next
  case (2 s now t k) then show ?case
    by (cases "t = 0") (simp_all add: complete_states_leased complete_states_nil)
next
  case (3 s k' k now t) then show ?case by (rule succeed_lease.claim_other)
next
  case (4 s now t k) then show ?case by (rule succeed_lease.claim_holder)
next
  case (5 s k u now t) then show ?case by (rule succeed_lease.claim_live)
next
  case (6 s t k now) then show ?case
    by (intro complete_states_fenced) (simp_all add: ops_leased_def)
next
  case (7 s t k now) then show ?case using complete_state_done(2) by blast
next
  case (8 s t k' k now) then show ?case
    by (intro complete_state_other) (simp_all add: ops_leased_def)
next
  case (9 s t k now) then show ?case by (rule complete_state_done(2))
qed

section \<open>Properties of the lease\<close>

text \<open>Claims and owned completions in any order.\<close>

primrec lease_apply :: "time \<Rightarrow> uuid lease_event \<Rightarrow> db \<Rightarrow> db" where
  "lease_apply l (Claim now t i) d = start_state l now t i d"
| "lease_apply l (Finish now t i) d = succeed_state now t i d"

definition lease_history :: "time \<Rightarrow> uuid lease_event list \<Rightarrow> db \<Rightarrow> db" where
  "lease_history l es d = fold (lease_apply l) es d"

lemma lease_history_run: "lease_history l es d = succeed_lease.run l es d"
proof -
  have step: "lease_apply l e d = succeed_lease.step l e d" for e d by (cases e) simp_all
  show ?thesis unfolding lease_history_def by (induction es arbitrary: d) (simp_all add: step)
qed

text \<open>The contract's view of a worker that lost its lease.\<close>

lemma late_success_refused:
  assumes "ops_leased d" "token \<noteq> 0" "op_holder d i \<noteq> Some token"
    "\<forall>e \<in> set es. lease_tokens_ok e \<and> \<not> lease_claims token i e"
  shows "succeed_state now token i (lease_history l es d) = lease_history l es d"
  using succeed_lease.stale_worker_fenced[OF assms] by (simp add: lease_history_run)

section \<open>Workers without the lease\<close>

text \<open>Everything that may happen to the table while the worker with \<open>token\<close> does not claim operation \<open>i\<close> again:
  enqueues, claims of other workers or other operations, and completions, failures, renewals and error reports of
  any worker, this one included.\<close>

inductive unclaimed_step :: "uuid \<Rightarrow> uuid \<Rightarrow> db \<Rightarrow> db \<Rightarrow> bool" for token i where
  un_enqueue: "enqueue fresh now inp d = Inr (op, d') \<Longrightarrow> unclaimed_step token i d d'"
| un_try_start: "try_start now t j lease d = Inr (started, t', d') \<Longrightarrow> t \<noteq> token \<or> j \<noteq> i \<Longrightarrow> unclaimed_step token i d d'"
| un_claim: "claim_types now mint limit lease types d = Inr (os, d') \<Longrightarrow> \<forall>n. mint n \<noteq> token \<Longrightarrow> unclaimed_step token i d d'"
| un_succeed: "mark_succeeded_owned now j t d = Inr d' \<Longrightarrow> unclaimed_step token i d d'"
| un_fail: "snd (mark_failed_owned now j t m r d) = d' \<Longrightarrow> unclaimed_step token i d d'"
| un_renew: "snd (renew_lease now lease j t d) = d' \<Longrightarrow> unclaimed_step token i d d'"
| un_record: "snd (record_error now c op cause m d) = d' \<Longrightarrow> unclaimed_step token i d d'"
| un_stop: "stop_exhausted now base limit d = d' \<Longrightarrow> unclaimed_step token i d d'"

definition not_owned :: "uuid \<Rightarrow> uuid \<Rightarrow> db \<Rightarrow> bool" where
  "not_owned token i d \<longleftrightarrow> (\<forall>o' \<in> set (storage_operations d). \<not> owned_by i token o')"

lemma not_owned_update:
  assumes "not_owned token i d" "\<And>o'. P o' \<Longrightarrow> owned_by i token (g o') \<Longrightarrow> owned_by i token o'"
  shows "not_owned token i (d\<lparr>storage_operations := update_where P g (storage_operations d)\<rparr>)"
  using assms by (force simp: not_owned_def in_set_update_where)

lemma not_owned_stop: "token \<noteq> 0 \<Longrightarrow> not_owned token i d \<Longrightarrow> not_owned token i (stop_exhausted now base limit d)"
  using stop_exhausted_eq[of now base limit d] by (auto intro!: not_owned_update simp: owned_by_def retire_def)

lemma not_owned_claim_rows:
  "\<forall>n. mint n \<noteq> token \<Longrightarrow> token \<noteq> 0 \<Longrightarrow> not_owned token i d \<Longrightarrow> not_owned token i (snd (claim_rows now lease mint k os d))"
proof (induction os arbitrary: k d)
  case (Cons o' os)
  let ?d = "d\<lparr>storage_operations := update_where (\<lambda>q. so_id q = so_id o') (start_row now lease (mint k)) (storage_operations d)\<rparr>"
  have "not_owned token i ?d"
    using Cons.prems by (intro not_owned_update) (auto simp: owned_by_def start_row_def)
  then have "not_owned token i (snd (claim_rows now lease mint (Suc k) os ?d))" using Cons.prems by (intro Cons.IH)
  then show ?case by (cases "claim_rows now lease mint (Suc k) os ?d") (simp add: Let_def)
qed simp

lemma unclaimed_step_keeps:
  assumes "unclaimed_step token i d d'" "token \<noteq> 0" "not_owned token i d"
  shows "not_owned token i d'"
  using assms(1)
proof cases
  case (un_enqueue fresh now inp op)
  then show ?thesis using assms(2,3)
    by (elim enqueue_cases) (auto simp: not_owned_def owned_by_def operation_of_input_def)
next
  case (un_try_start now t j lease started t')
  have "not_owned token i (stop_exhausted now (\<lambda>o'. so_id o' = j) 1 d)" using assms(2,3) by (rule not_owned_stop)
  then show ?thesis using un_try_start assms(2)
    by (auto simp: try_start_def Let_def split: if_splits intro!: not_owned_update)
       (auto simp: owned_by_def startable_def start_row_def)
next
  case (un_claim now mint limit lease types os)
  then show ?thesis using assms(2,3) not_owned_claim_rows[of mint token i] not_owned_stop[of token i d]
    by (auto simp: claim_types_def Let_def split: if_splits) (metis snd_conv)+
next
  case (un_succeed now j t)
  then show ?thesis using assms(2,3)
    by (auto simp: mark_succeeded_owned_def mark_succeeded_def Let_def split: if_splits option.splits
        intro!: not_owned_update) (auto simp: owned_by_def succeed_def)
next
  case (un_fail now j t m r)
  then show ?thesis using assms(2,3)
    by (auto simp: mark_failed_owned_def snd_mark_failed intro!: not_owned_update) (auto simp: owned_by_def fail_row_def split: if_splits)
next
  case (un_renew now lease j t)
  then show ?thesis using assms(2,3)
    by (auto simp: renew_lease_def Let_def intro!: not_owned_update) (auto simp: owned_by_def)
next
  case (un_record now c op cause m)
  have "not_owned token i (snd (mark_failed_owned now (so_id op) t m second d))" for t
    using assms(2,3) by (auto simp: mark_failed_owned_def snd_mark_failed intro!: not_owned_update)
      (auto simp: owned_by_def fail_row_def split: if_splits)
  moreover have "not_owned token i (d\<lparr>storage_operations := update_where P (release_row now m) (storage_operations d)\<rparr>)" for P
    using assms(2,3) by (intro not_owned_update) (auto simp: owned_by_def release_row_def)
  ultimately show ?thesis using un_record assms(3)
    by (auto simp: record_error_def Let_def split: option.splits if_splits prod.splits) (metis snd_conv)+
next
  case (un_stop now base limit)
  then show ?thesis using assms(2,3) not_owned_stop by blast
qed

lemma unclaimed_steps_keep:
  "(unclaimed_step token i)\<^sup>*\<^sup>* d d' \<Longrightarrow> token \<noteq> 0 \<Longrightarrow> not_owned token i d \<Longrightarrow> not_owned token i d'"
  by (induction rule: rtranclp_induct) (auto intro: unclaimed_step_keeps)

text \<open>The answers to a worker that holds no row: nothing is written, and only success recorded by another worker
  counts as success.\<close>

lemma not_owned_answers:
  assumes "not_owned token i d" "token \<noteq> 0" "operation_by_id i d = Some q" "i \<noteq> 0"
  shows "mark_succeeded_owned now i token d = (if so_state q = OpSucceeded then Inr d else Inl (ErrNew ''storage operation lease lost''))"
    "mark_failed_owned now i token m r d = (Some (ErrNew ''storage operation lease lost''), d)"
    "renew_lease now lease i token d = (if so_state q = OpSucceeded then RenewalSucceeded else RenewalLost, d)"
    "so_id op = i \<Longrightarrow> so_lease_token op = Some token \<Longrightarrow> record_error now c op cause m d =
       (ErrJoin cause (if c then StorageLeaseLost else ErrNew ''storage operation lease lost''), d)"
proof -
  have no: "\<forall>o' \<in> set (storage_operations d). \<not> owned_by i token o'" using assms(1) by (simp add: not_owned_def)
  have none: "count_where P (storage_operations d) = 0" "filter P (storage_operations d) = []"
    "d\<lparr>storage_operations := update_where P f (storage_operations d)\<rparr> = d"
    if "\<And>o'. P o' \<Longrightarrow> owned_by i token o'" for P f
  proof -
    have "\<forall>o' \<in> set (storage_operations d). \<not> P o'" using no that by blast
    then show "count_where P (storage_operations d) = 0" "filter P (storage_operations d) = []"
      "d\<lparr>storage_operations := update_where P f (storage_operations d)\<rparr> = d"
      by (simp_all add: count_where_0_iff filter_empty_conv update_where_id_if)
  qed
  show s: "mark_succeeded_owned now i token d = (if so_state q = OpSucceeded then Inr d else Inl (ErrNew ''storage operation lease lost''))"
    using assms none[of "owned_by i token"] by (simp add: mark_succeeded_owned_def mark_succeeded_def Let_def)
  show f: "mark_failed_owned now i token m r d = (Some (ErrNew ''storage operation lease lost''), d)" for m r
    using assms none[of "owned_by i token"] by (simp add: mark_failed_owned_def mark_failed_def Let_def)
  show "renew_lease now lease i token d = (if so_state q = OpSucceeded then RenewalSucceeded else RenewalLost, d)"
    using assms none[of "renewable now i token"] by (simp add: renew_lease_def Let_def renewable_def owned_by_def)
  assume op: "so_id op = i" "so_lease_token op = Some token"
  let ?own = "\<lambda>o'. so_id o' = i \<and> so_state o' = OpRunning \<and> so_lease_token o' = Some token"
  show "record_error now c op cause m d = (ErrJoin cause (if c then StorageLeaseLost else ErrNew ''storage operation lease lost''), d)"
    using op f none[of ?own] by (auto simp: record_error_def Let_def owned_by_def)
qed

text \<open>C2: A worker whose lease on an operation was lost can neither complete, fail, renew nor release the operation
  any more, whatever enqueues, claims, completions, failures, renewals and error reports of whichever workers come
  in between, until it claims the operation again itself: each of its calls leaves the table as it is and is
  answered with a lost lease, except that success which another worker has recorded is reported as success.\<close>

theorem stale_worker_cannot_complete:
  assumes "ops_ok d" "token \<noteq> 0" "i \<noteq> 0" "op_holder d i \<noteq> Some token" "(unclaimed_step token i)\<^sup>*\<^sup>* d d'"
    "operation_by_id i d' = Some q" "so_id op = i" "so_lease_token op = Some token"
  shows "mark_succeeded_owned now i token d' =
      (if so_state q = OpSucceeded then Inr d' else Inl (ErrNew ''storage operation lease lost'')) \<and>
    mark_failed_owned now i token m retry d' = (Some (ErrNew ''storage operation lease lost''), d') \<and>
    renew_lease now lease i token d' = (if so_state q = OpSucceeded then RenewalSucceeded else RenewalLost, d') \<and>
    record_error now canceled op cause m d' =
      (ErrJoin cause (if canceled then StorageLeaseLost else ErrNew ''storage operation lease lost''), d')"
proof -
  have "not_owned token i d" using assms(4) op_holder_None_iff[OF assms(1,2)] by (simp add: not_owned_def)
  then have "not_owned token i d'" by (rule unclaimed_steps_keep[OF assms(5,2)])
  then show ?thesis using not_owned_answers[OF _ assms(2,6,3)] assms(7,8) by simp
qed

text \<open>Starting an operation is exclusive: when \<open>TryStartWithToken\<close> reports success, the row
  is running under the returned token until \<open>now + lease\<close> with one more attempt on record, and
  before that deadline every other \<open>TryStartWithToken\<close> on it reports failure and leaves the
  holder in place.\<close>

theorem try_start_exclusive:
  assumes "ops_leased d" "0 < lease" "try_start now token i lease d = Inr (True, tok, d')"
  shows "tok = token \<and> (\<exists>o'. operation_by_id i d' = Some o' \<and> so_state o' = OpRunning \<and>
      so_lease_token o' = Some token \<and> so_lease_until o' = Some (now + lease) \<and>
      so_attempt o' \<le> max_attempts) \<and>
    (now' < now + lease \<longrightarrow> (\<exists>d''. try_start now' token' i lease' d' = Inr (False, token', d'') \<and>
      op_holder d'' i = Some token))"
proof -
  have i: "i \<noteq> 0" and tok: "tok = token" and d': "d' = start_state lease now token i d"
    and n: "count_where (startable now i) (storage_operations
       (stop_exhausted now (\<lambda>o'. so_id o' = i) 1 d)) = 1"
    using assms(3) by (auto simp: try_start_def start_state_def Let_def split: if_splits)
  have ok: "ops_ok d" using assms(1) by (simp add: ops_leased_def)
  let ?e = "stop_exhausted now (\<lambda>o'. so_id o' = i) 1 d"
  have oke: "ops_ok ?e" using ok by (rule stop_exhausted_ok)
  obtain q where "q \<in> set (storage_operations ?e)" "startable now i q"
    using n by (metis count_where_pos_iff zero_less_one)
  then have "operation_by_id i ?e = Some q" using operation_by_id_iff[OF oke] startable_id by simp
  then obtain p where p: "operation_by_id i d = Some p" "q = retired_by now p"
    unfolding stop_exhausted_one[OF ok] by auto
  then have s: "startable now i p" "q = p"
    using \<open>startable now i q\<close> retired_not_startable by (auto simp: retired_by_def split: if_splits)
  then have row: "operation_by_id i d' = Some (start_row now lease token p)"
    unfolding d' start_state_row[OF ok i] p(1) using p(2) assms(2) by (simp add: Let_def)
  have l': "ops_leased d'" unfolding d' using assms(1) by (rule start_state_leased)
  have h: "op_holder d' i = Some token" "op_lease_until d' i = now + lease"
    using row by (simp_all add: op_holder_def op_lease_until_def start_row_def)
  have a: "so_attempt (start_row now lease token p) \<le> max_attempts"
    using s(1) by (simp add: startable_def start_row_def)
  have "\<exists>d''. try_start now' token' i lease' d' = Inr (False, token', d'') \<and>
      op_holder d'' i = Some token" if "now' < now + lease"
  proof -
    have live: "\<not> exhausted now' (start_row now lease token p)"
      "\<not> startable now' i (start_row now lease token p)"
      using live_not_startable[OF l' h(1) _ row, of now'] that h(2) by simp_all
    have ok': "ops_ok d'" using l' by (simp add: ops_leased_def)
    let ?f = "stop_exhausted now' (\<lambda>o'. so_id o' = i) 1 d'"
    have "operation_by_id i ?f = Some (start_row now lease token p)"
      unfolding stop_exhausted_one[OF ok'] row using live by (simp add: retired_by_def)
    then have "\<forall>q \<in> set (storage_operations ?f). \<not> startable now' i q"
      using operation_by_id_iff[OF stop_exhausted_ok[OF ok']] live startable_id
      by (metis option.inject)
    then have "count_where (startable now' i) (storage_operations ?f) = 0"
      by (simp add: count_where_0_iff)
    moreover have "op_holder (start_state lease' now' token' i d') i = Some token"
      using h(1) live row unfolding start_state_holder[OF ok' i] row by simp
    ultimately show ?thesis
      using i by (auto simp: try_start_def start_state_def Let_def)
  qed
  moreover have "\<exists>o'. operation_by_id i d' = Some o' \<and> so_state o' = OpRunning \<and>
      so_lease_token o' = Some token \<and> so_lease_until o' = Some (now + lease) \<and>
      so_attempt o' \<le> max_attempts"
    using row a by (auto simp: start_row_def)
  ultimately show ?thesis using tok by blast
qed

definition sample_run_db :: db where
  "sample_run_db = start_state 10 1 5 7 sample_ops_db"

lemma sample_ops_leased: "ops_leased sample_ops_db"
  using sample_ops_ok
  by (simp add: ops_leased_def sample_ops_db_def operation_of_input_def sample_input_def)

lemma sample_run_try: "try_start 1 5 7 10 sample_ops_db = Inr (True, 5, sample_run_db)"
  by code_simp

lemma try_start_exclusive_witness:
  "\<exists>d''. try_start 2 6 7 10 sample_run_db = Inr (False, 6, d'') \<and> op_holder d'' 7 = Some 5"
  using try_start_exclusive[OF sample_ops_leased _ sample_run_try, of 2 6 10] by simp

lemma sample_run_leased: "ops_leased sample_run_db"
  unfolding sample_run_db_def by (rule start_state_leased[OF sample_ops_leased])

lemma sample_run_holder: "op_holder sample_run_db 7 = Some 5"
  by code_simp

text \<open>Worker 8 takes operation 7 over from worker 5 and fails it; then worker 5 comes back.\<close>

definition taken_over_db :: db where
  "taken_over_db = start_state 10 20 8 7 sample_run_db"

definition failed_over_db :: db where
  "failed_over_db = snd (mark_failed_owned 21 7 8 ''timeout'' 0 taken_over_db)"

lemma stale_worker_cannot_complete_witness:
  "mark_succeeded_owned 30 7 5 failed_over_db = Inl (ErrNew ''storage operation lease lost'') \<and>
   mark_failed_owned 30 7 5 ''late'' 0 failed_over_db = (Some (ErrNew ''storage operation lease lost''), failed_over_db) \<and>
   renew_lease 30 10 7 5 failed_over_db = (RenewalLost, failed_over_db) \<and>
   record_error 30 False ((operation_of_input 7 0 sample_input)\<lparr>so_lease_token := Some 5\<rparr>) ErrCanceled ''late'' failed_over_db =
     (ErrJoin ErrCanceled (ErrNew ''storage operation lease lost''), failed_over_db)"
proof -
  have ok: "ops_ok taken_over_db"
    using sample_run_leased unfolding taken_over_db_def by (intro start_state_ok) (simp add: ops_leased_def)
  have "op_holder taken_over_db 7 = Some 8" by code_simp
  then have holder: "op_holder taken_over_db 7 \<noteq> Some 5" by simp
  have steps: "(unclaimed_step 5 7)\<^sup>*\<^sup>* taken_over_db failed_over_db"
    unfolding failed_over_db_def by (rule r_into_rtranclp, rule un_fail, rule refl)
  obtain q where q: "operation_by_id 7 failed_over_db = Some q" "so_state q = OpFailed"
  proof -
    have "map_option so_state (operation_by_id 7 failed_over_db) = Some OpFailed" by code_simp
    then show thesis using that by (cases "operation_by_id 7 failed_over_db") auto
  qed
  show ?thesis
    using stale_worker_cannot_complete[OF ok _ _ holder steps q(1),
        where op = "(operation_of_input 7 0 sample_input)\<lparr>so_lease_token := Some 5\<rparr>" and now = 30 and m = "''late''" and retry = 0 and lease = 10 and canceled = False and cause = ErrCanceled]
    by (simp add: q(2) operation_of_input_def sample_input_def)
qed

text \<open>Enqueueing is idempotent: once an operation is stored under a key, every later
  \<open>Enqueue\<close> with that key, whatever else it asks for, returns the stored operation and writes
  nothing.\<close>

theorem enqueue_idempotent:
  assumes "enqueue fresh now i d = Inr (op, d')" "oi_idempotency_key j = oi_idempotency_key i"
  shows "enqueue fresh' now' j d' = Inr (op, d')"
proof -
  have k: "trim_str (oi_idempotency_key j) \<noteq> []"
    using assms by (auto simp: enqueue_def split: if_splits)
  from assms(1) have "operation_by_key (oi_idempotency_key i) d' = Some op"
  proof (cases rule: enqueue_cases)
    case new
    then show ?thesis by (auto simp: operation_by_key_def find_None_iff find_Some_iff nth_append
        all_set_conv_all_nth intro!: exI[of _ "length (storage_operations d)"])
  qed simp
  with k assms(2) show ?thesis by (simp add: enqueue_def Let_def)
qed

lemma enqueue_idempotent_witness:
  "enqueue 9 4 (sample_input\<lparr>oi_source_key := ''other''\<rparr>) sample_ops_db =
     Inr (operation_of_input 7 0 sample_input, sample_ops_db)"
proof -
  have "enqueue 7 0 sample_input empty_db = Inr (operation_of_input 7 0 sample_input, sample_ops_db)"
    by code_simp
  from enqueue_idempotent[OF this, of "sample_input\<lparr>oi_source_key := ''other''\<rparr>" 9 4]
  show ?thesis by simp
qed

lemma backoff_interval_bounds: "second \<le> backoff_interval n" "backoff_interval n \<le> 5 * minute"
  by (auto simp: backoff_interval_def)

lemma truncate_ms_bounds: "truncate_ms r \<le> r" "r - 1000000 < truncate_ms r"
  using div_mult_mod_eq[of r 1000000] pos_mod_bound[of 1000000 r] pos_mod_sign[of 1000000 r]
  unfolding truncate_ms_def by linarith+

text \<open>When the lease holder reports a failed attempt, the lease is given up, the attempt count
  stays, and the operation is retried after a delay between one second and the larger of the
  requested delay and five minutes, unless this was the twelfth attempt: then it is dead and the
  caller learns that the budget is exhausted.  No other operation changes.\<close>

theorem failed_attempt_outcome:
  assumes "ops_ok d" "i \<noteq> 0" "token \<noteq> 0" "op_holder d i = Some token"
    "operation_by_id i d = Some o'"
  shows "case mark_failed_owned now i token m r d of (e, d') \<Rightarrow>
    \<exists>q. operation_by_id i d' = Some q \<and> so_lease_token q = None \<and> so_attempt q = so_attempt o' \<and>
      (if so_attempt o' = max_attempts then so_state q = OpDead \<and> e = Some StorageExhausted
       else so_state q = OpFailed \<and> e = None \<and> now + second \<le> so_available_at q \<and>
         so_available_at q \<le> now + max r (5 * minute)) \<and>
      (\<forall>j. j \<noteq> i \<longrightarrow> operation_by_id j d' = operation_by_id j d)"
proof -
  let ?s = "if r < second then second else r"
  let ?P = "owned_by i token"
  have own: "?P o'" using op_holder_SomeD(2)[OF assms(1,3,4)] assms(3,5) operation_by_id_id[OF assms(5)]
    by (auto simp: owned_by_def)
  have "o' \<in> set (storage_operations d)" using assms(5) operation_by_id_iff[OF assms(1)] by simp
  moreover have one: "length (filter ?P (storage_operations d)) = 1"
    using op_holder_SomeD(1)[OF assms(1,3,4)] by (simp add: count_where_def)
  ultimately have hd: "hd (filter ?P (storage_operations d)) = o'"
  proof -
    obtain x where x: "filter ?P (storage_operations d) = [x]" using one by (auto simp: length_Suc_conv)
    have "o' \<in> set (filter ?P (storage_operations d))"
      using own \<open>o' \<in> set (storage_operations d)\<close> by simp
    then show ?thesis by (simp add: x)
  qed
  define d' where "d' = d\<lparr>storage_operations :=
     update_where ?P (fail_row now m ?s) (storage_operations d)\<rparr>"
  have res: "mark_failed_owned now i token m r d =
      ((if so_attempt o' \<ge> max_attempts then Some StorageExhausted else None), d')"
    using assms(2,3) one hd by (simp add: mark_failed_owned_def mark_failed_def Let_def d'_def fail_row_def)
  have row: "operation_by_id i d' = Some (fail_row now m ?s o')"
    unfolding d'_def using assms(5) own by (simp add: operation_by_id_update)
  have other: "operation_by_id j d' = operation_by_id j d" if "j \<noteq> i" for j
    unfolding d'_def using that operation_by_id_id[of j d]
    by (cases "operation_by_id j d") (auto simp: operation_by_id_update owned_by_def)
  have "so_attempt o' \<le> max_attempts"
    using assms(1) \<open>o' \<in> set (storage_operations d)\<close> by (auto simp: ops_ok_def op_ok_def)
  moreover have "second \<le> max (truncate_ms ?s) (backoff_interval (so_attempt o'))"
    using backoff_interval_bounds(1)[of "so_attempt o'"] by linarith
  moreover have "max (truncate_ms ?s) (backoff_interval (so_attempt o')) \<le> max r (5 * minute)"
    using backoff_interval_bounds(2)[of "so_attempt o'"] truncate_ms_bounds(1)[of ?s]
    by (auto split: if_splits)
  ultimately show ?thesis using res row other by (auto simp: fail_row_def)
qed

lemma failed_attempt_outcome_witness:
  "\<exists>q. operation_by_id 7 (snd (mark_failed_owned 3 7 5 ''io'' 0 sample_run_db)) = Some q \<and>
     so_state q = OpFailed \<and> so_attempt q = 1"
proof -
  obtain o' where o': "operation_by_id 7 sample_run_db = Some o'" "so_attempt o' = 1"
  proof -
    have "map_option so_attempt (operation_by_id 7 sample_run_db) = Some 1" by code_simp
    then show ?thesis using that by auto
  qed
  have "ops_ok sample_run_db" using sample_run_leased by (simp add: ops_leased_def)
  from failed_attempt_outcome[OF this _ _ sample_run_holder o'(1), where now = 3 and m = "''io''" and r = 0] o'(2)
  show ?thesis by (auto simp: max_attempts_def split: prod.splits)
qed

end
