(* ===== verification/Outbox.thy ===== *)
theory Outbox
  imports Database
begin

text \<open>
  Package \<open>outbox\<close>, the writing side: the routing registry (\<open>routes.go\<close>), the writers that add an
  event and its delivery rows in the caller's transaction (\<open>outbox.go\<close>, \<open>compat.go\<close>) and the
  deterministic recovery events.  The dispatching side is in \<open>Dispatcher\<close>.
\<close>

section \<open>Routes\<close>

abbreviation task_object_verify :: string where "task_object_verify \<equiv> ''object.verify.v1''"
abbreviation task_media_thumbnail :: string where "task_media_thumbnail \<equiv> ''media.thumbnail.v1''"
abbreviation task_object_gc :: string where "task_object_gc \<equiv> ''object.gc.v1''"
abbreviation task_upload_operation_recover :: string where
  "task_upload_operation_recover \<equiv> ''upload.operation_recover.v1''"
abbreviation task_ai_index :: string where "task_ai_index \<equiv> ''ai.index.v1''"
abbreviation task_ai_reprocess :: string where "task_ai_reprocess \<equiv> ''ai.reprocess.v1''"
abbreviation task_search_project :: string where "task_search_project \<equiv> ''search.project.v1''"
abbreviation rabbitmq :: string where "rabbitmq \<equiv> ''rabbitmq''"

record delivery_target =
  tg_transport :: string
  tg_destination :: string
  tg_task_type :: string
  tg_queue :: string

definition target :: "string \<Rightarrow> string \<Rightarrow> string \<Rightarrow> delivery_target" where
  "target transport task_type queue =
     \<lparr> tg_transport = transport, tg_destination = task_type @ ''@'' @ queue,
       tg_task_type = task_type, tg_queue = queue \<rparr>"

definition search_routes :: "string \<Rightarrow> bool \<Rightarrow> delivery_target list" where
  "search_routes et enabled =
     (if \<not> enabled then []
      else if et \<in> {event_file_created, event_file_updated, event_file_deleted,
          event_folder_created, event_folder_renamed, event_folder_moved, event_folder_deleted,
          event_share_created, event_share_updated, event_share_revoked, event_share_imported,
          event_object_ready, event_object_gc_requested, event_ai_index_requested, event_ai_indexed}
      then [target rabbitmq task_search_project ''search''] else [])"

definition routes :: "string \<Rightarrow> bool \<Rightarrow> delivery_target list" where
  "routes et ai =
     (if et = event_file_created then [target rabbitmq event_file_created ''maintenance'']
      else if et = event_share_imported then [target rabbitmq event_share_imported ''maintenance'']
      else if et = event_object_verify_requested then [target rabbitmq task_object_verify ''object'']
      else if et = event_object_ready then
        target rabbitmq task_media_thumbnail ''media'' #
        (if ai then [target rabbitmq task_ai_index ''ai''] else [])
      else if et = event_object_gc_requested then [target rabbitmq task_object_gc ''maintenance'']
      else if et = event_ai_reprocess_requested then
        (if ai then [target rabbitmq task_ai_reprocess ''ai''] else [])
      else if et = event_ai_index_requested then
        (if ai then [target rabbitmq task_ai_index ''ai''] else [])
      else if et = event_storage_operation_recover then
        [target rabbitmq event_storage_operation_recover ''maintenance'']
      else if et = event_upload_operation_recover then
        [target rabbitmq task_upload_operation_recover ''upload'']
      else if et = event_media_thumbnail_requested then
        [target rabbitmq event_media_thumbnail_requested ''media'']
      else [])"

text \<open>\<open>strings.LastIndexByte(s, '@')\<close> with the text on both sides.\<close>

definition cut_last_at :: "string \<Rightarrow> (string \<times> string) option" where
  "cut_last_at s = (let after = rev (takeWhile (\<lambda>c. c \<noteq> CHR 0x40) (rev s)) in
     if length after = length s then None
     else Some (take (length s - length after - 1) s, after))"

definition canonical_task_type :: "string \<Rightarrow> string \<Rightarrow> string \<times> string" where
  "canonical_task_type task queue =
     (if task = event_object_verify_requested \<and> queue = ''object'' then (task_object_verify, queue)
      else if task = event_object_ready \<and> queue = ''media'' then (task_media_thumbnail, queue)
      else if task = event_object_gc_requested \<and> queue = ''maintenance'' then (task_object_gc, queue)
      else if task = event_upload_operation_recover \<and> queue = ''upload''
        then (task_upload_operation_recover, queue)
      else if task = event_ai_index_requested \<and> queue = ''ai'' then (task_ai_index, queue)
      else if task = event_ai_reprocess_requested \<and> queue = ''ai'' then (task_ai_reprocess, queue)
      else (task, queue))"

definition target_from :: "string \<Rightarrow> string \<Rightarrow> delivery_target option" where
  "target_from transport destination =
     (if transport \<noteq> rabbitmq then None
      else case cut_last_at destination of
        None \<Rightarrow> None
      | Some (task, queue) \<Rightarrow>
          if task = [] \<or> queue = [] then None
          else (case canonical_task_type task queue of
                  (task', queue') \<Rightarrow> Some (target transport task' queue')))"

definition target_from_delivery :: "delivery \<Rightarrow> delivery_target option" where
  "target_from_delivery r = target_from (dl_transport r) (dl_destination r)"

definition target_allowed_for_event ::
  "string \<Rightarrow> bool \<Rightarrow> bool \<Rightarrow> delivery \<Rightarrow> delivery_target option" where
  "target_allowed_for_event et ai search r =
     (case target_from_delivery r of
        None \<Rightarrow> None
      | Some t \<Rightarrow>
          if list_ex (\<lambda>a. tg_transport a = tg_transport t \<and> tg_destination a = tg_destination t)
               (routes et ai @ search_routes et search)
          then Some t else None)"

section \<open>Writers\<close>

definition new_delivery :: "time \<Rightarrow> uuid \<Rightarrow> delivery_target \<Rightarrow> delivery" where
  "new_delivery now eid t =
     \<lparr> dl_event_id = eid, dl_transport = tg_transport t, dl_destination = tg_destination t,
       dl_status = DeliveryPending, dl_attempt = 0, dl_available_at = now, dl_not_before = None,
       dl_task_retry_count = 0, dl_task_max_retry = None, dl_task_timeout_ms = None,
       dl_lease_until = None, dl_lease_token = None, dl_published_at = None, dl_last_error = None \<rparr>"

definition delivery_key :: "delivery \<Rightarrow> uuid \<times> string \<times> string" where
  "delivery_key r = (dl_event_id r, dl_transport r, dl_destination r)"

text \<open>A destination counts as covered when an \<open>asynq\<close> or \<open>rabbitmq\<close> row of the event resolves to
  it, legacy aliases included.\<close>

definition covered :: "uuid \<Rightarrow> delivery_target \<Rightarrow> delivery list \<Rightarrow> bool" where
  "covered eid t rows = exists_where (\<lambda>r. dl_event_id r = eid \<and>
     (dl_transport r = ''asynq'' \<or> dl_transport r = rabbitmq) \<and>
     (case target_from rabbitmq (dl_destination r) of
        None \<Rightarrow> False | Some p \<Rightarrow> tg_destination p = tg_destination t)) rows"

definition add_delivery :: "time \<Rightarrow> uuid \<Rightarrow> delivery_target \<Rightarrow> delivery list \<Rightarrow> delivery list" where
  "add_delivery now eid t rows =
     (if covered eid t rows then rows
      else if exists_where (\<lambda>r. delivery_key r = delivery_key (new_delivery now eid t)) rows then rows
      else rows @ [new_delivery now eid t])"

definition add_deliveries_with_search ::
  "time \<Rightarrow> uuid \<Rightarrow> string \<Rightarrow> bool \<Rightarrow> bool \<Rightarrow> db \<Rightarrow> db" where
  "add_deliveries_with_search now eid et ai search d =
     d\<lparr>outbox_deliveries := fold (add_delivery now eid) (routes et ai @ search_routes et search)
                                (outbox_deliveries d)\<rparr>"

definition event_of_envelope :: "time \<Rightarrow> envelope \<Rightarrow> outbox_event" where
  "event_of_envelope now e =
     \<lparr> ev_id = en_event_id e, ev_aggregate_type = en_aggregate_type e,
       ev_aggregate_id = en_aggregate_id e, ev_event_type = en_event_type e,
       ev_event_version = en_event_version e, ev_payload = en_payload e,
       ev_status = DeliveryPending, ev_available_at = now, ev_published_at = None,
       ev_attempt = 0, ev_created_at = now, ev_message_kind = en_message_kind e,
       ev_aggregate_version = en_aggregate_version e, ev_producer = Some (en_producer e),
       ev_occurred_at = Some (en_occurred_at e), ev_trace_context = en_trace e \<rparr>"

definition insert_event :: "outbox_event \<Rightarrow> db \<Rightarrow> db result" where
  "insert_event e d =
     (if exists_where (\<lambda>q. ev_id q = ev_id e) (outbox_events d) then Inl GormDuplicatedKey
      else Inr (d\<lparr>outbox_events := outbox_events d @ [e]\<rparr>))"

definition add_envelope_with_search :: "time \<Rightarrow> envelope \<Rightarrow> bool \<Rightarrow> db \<Rightarrow> db result" where
  "add_envelope_with_search now e search d =
     (case validate_envelope e of
        Some err \<Rightarrow> Inl err
      | None \<Rightarrow>
          attempt (insert_event (event_of_envelope now e) d) (\<lambda>d'.
          Inr (add_deliveries_with_search now (en_event_id e) (en_event_type e) True search d')))"

definition is_v2_event :: "string \<Rightarrow> bool" where
  "is_v2_event et \<longleftrightarrow> et \<in> {event_file_updated, event_file_deleted, event_folder_created,
     event_folder_renamed, event_folder_moved, event_folder_deleted, event_share_created,
     event_share_updated, event_share_revoked}"

definition add_envelope_context :: "ctx \<Rightarrow> envelope \<Rightarrow> db \<Rightarrow> db result" where
  "add_envelope_context cx e d =
     (if is_v2_event (en_event_type e) \<and> \<not> cx_v2_events cx then Inr d
      else add_envelope_with_search (cx_now cx) e (cx_search_enabled cx) d)"

text \<open>\<open>AddTyped\<close>; the event takes identifier number \<open>k\<close> of the context.\<close>

definition trace_input :: "ctx \<Rightarrow> envelope_input \<Rightarrow> envelope_input" where
  "trace_input cx i =
     (case (in_trace i, cx_trace cx) of
        (None, Some t) \<Rightarrow> if traceparent t \<noteq> [] \<or> tracestate t \<noteq> [] then i\<lparr>in_trace := Some t\<rparr> else i
      | _ \<Rightarrow> i)"

definition add_typed :: "ctx \<Rightarrow> nat \<Rightarrow> envelope_input \<Rightarrow> db \<Rightarrow> db result" where
  "add_typed cx k i d =
     attempt (new_envelope (cx_mint cx k) (cx_now cx) (trace_input cx i)) (\<lambda>e.
     add_envelope_context cx e d)"

section \<open>Recovery events\<close>

text \<open>\<open>name_uuid\<close> is \<open>uuid.NewSHA1\<close> in the URL name space.\<close>

definition ensure_recovery ::
  "ctx \<Rightarrow> string \<Rightarrow> string \<Rightarrow> string \<Rightarrow> uuid \<Rightarrow> int \<Rightarrow> envelope_input \<Rightarrow> db \<Rightarrow> (bool \<times> db) result"
where
  "ensure_recovery cx key reason rtype rid target_version i d =
     (if key = [] \<or> reason = [] \<or> rtype = [] \<or> rid = 0
      then Inl (ErrNew ''outbox: invalid recovery metadata'')
      else let eid = cx_name_uuid cx (''bx-yunpan/recovery/'' @ key); now = cx_now cx in
        attempt (new_envelope (cx_mint cx 0) now (i\<lparr>in_event_id := eid\<rparr>)) (\<lambda>e.
          if exists_where (\<lambda>r. rc_recovery_key r = key) (outbox_recoveries d) then Inr (False, d)
          else let d1 = (case insert_event (event_of_envelope now (e\<lparr>en_trace := None\<rparr>)) d of
                           Inl _ \<Rightarrow> d | Inr d' \<Rightarrow> d');
                   d2 = add_deliveries_with_search now (en_event_id e) (en_event_type e) True False d1
            in Inr (True, d2\<lparr>outbox_recoveries := outbox_recoveries d2 @
                 [\<lparr> rc_recovery_key = key, rc_event_id = eid, rc_reason = reason,
                    rc_resource_type = rtype, rc_resource_id = rid,
                    rc_target_version = Some target_version, rc_created_at = now,
                    rc_updated_at = now, rc_stopped_at = None \<rparr>]\<rparr>)))"

definition event_by_id :: "uuid \<Rightarrow> db \<Rightarrow> outbox_event option" where
  "event_by_id i d = find (\<lambda>e. ev_id e = i) (outbox_events d)"

definition task_succeeded :: "string \<Rightarrow> db \<Rightarrow> bool" where
  "task_succeeded tid d = exists_where (\<lambda>r. tr_task_id r = tid \<and> tr_status r = TaskSucceeded) (task_results d)"

text \<open>A wanted route matches a parsed destination, any media task matching a media route.\<close>

definition route_matches :: "delivery_target list \<Rightarrow> delivery_target \<Rightarrow> bool" where
  "route_matches wanted p = list_ex (\<lambda>t. tg_destination p = tg_destination t \<or>
     (tg_queue p = ''media'' \<and> tg_queue t = ''media'')) wanted"

definition active_delivery :: "string \<Rightarrow> db \<Rightarrow> delivery \<Rightarrow> bool" where
  "active_delivery et d r =
     (case target_from rabbitmq (dl_destination r) of
        None \<Rightarrow> False
      | Some p \<Rightarrow> route_matches (routes et True) p \<and>
          (dl_status r \<noteq> DeliveryPublished \<or>
           (dl_transport r = rabbitmq \<or> dl_transport r = ''asynq'') \<and>
           \<not> task_succeeded (uuid_string (dl_event_id r) @ '':'' @ tg_destination p) d))"

definition has_active_delivery :: "string \<Rightarrow> uuid \<Rightarrow> db \<Rightarrow> bool result" where
  "has_active_delivery et agg d =
     (if et = [] \<or> agg = 0 then Inl (ErrNew ''outbox: invalid delivery lookup'')
      else Inr (exists_where (\<lambda>r. exists_where (\<lambda>e. ev_id e = dl_event_id r \<and>
                  ev_aggregate_id e = agg) (outbox_events d) \<and> active_delivery et d r)
                (outbox_deliveries d)))"

section \<open>Lemmas\<close>

text \<open>The writers touch the event and delivery tables only.\<close>

lemma add_deliveries_frame [simp]:
  "business (add_deliveries_with_search now eid et ai s d) = business d"
  "owner_epochs (add_deliveries_with_search now eid et ai s d) = owner_epochs d"
  "outbox_events (add_deliveries_with_search now eid et ai s d) = outbox_events d"
  "outbox_recoveries (add_deliveries_with_search now eid et ai s d) = outbox_recoveries d"
  by (simp_all add: add_deliveries_with_search_def)

lemma insert_event_eq: "insert_event e d = Inr d' \<Longrightarrow> d' = d\<lparr>outbox_events := outbox_events d @ [e]\<rparr>"
  by (auto simp: insert_event_def split: if_splits)

lemma add_envelope_frame [frame_simps]:
  "add_envelope_context cx e d = Inr d' \<Longrightarrow> business d' = business d \<and>
     owner_epochs d' = owner_epochs d \<and> outbox_recoveries d' = outbox_recoveries d"
  by (auto simp: add_envelope_context_def add_envelope_with_search_def attempt_eq_Inr_iff
      split: if_splits option.splits dest!: insert_event_eq)

lemma add_typed_frame [frame_simps]:
  "add_typed cx k i d = Inr d' \<Longrightarrow> business d' = business d \<and>
     owner_epochs d' = owner_epochs d \<and> outbox_recoveries d' = outbox_recoveries d"
  by (auto simp: add_typed_def attempt_eq_Inr_iff dest: add_envelope_frame)

text \<open>A well-formed event under a fresh identifier is always written.\<close>

lemma add_typed_ok:
  assumes p: "validate_payload p = None" "agg \<noteq> 0" "0 < ver" "trim_str producer \<noteq> []"
    and c: "cx_mint cx k \<noteq> 0" "cx_now cx \<noteq> zero_time" "\<forall>e \<in> set (outbox_events d). ev_id e \<noteq> cx_mint cx k"
  shows "\<exists>d'. add_typed cx k (typed_input (payload_event p) agg ver producer p) d = Inr d' \<and>
    business d' = business d \<and> owner_epochs d' = owner_epochs d \<and>
    (\<forall>e \<in> set (outbox_events d'). e \<in> set (outbox_events d) \<or> ev_id e = cx_mint cx k)"
proof -
  let ?i = "typed_input (payload_event p) agg ver producer p"
  obtain tr where tr: "trace_input cx ?i = ?i\<lparr>in_trace := tr\<rparr>"
    "\<And>t. tr = Some t \<Longrightarrow> traceparent t \<noteq> [] \<or> tracestate t \<noteq> []"
  proof -
    have n: "in_trace ?i = None" by (simp add: typed_input_def)
    then have s: "?i = ?i\<lparr>in_trace := None\<rparr>" by (simp add: typed_input_def)
    show thesis
    proof (cases "\<exists>t. cx_trace cx = Some t \<and> (traceparent t \<noteq> [] \<or> tracestate t \<noteq> [])")
      case True
      then show thesis using that[of "cx_trace cx"] n by (auto simp: trace_input_def)
    next
      case False
      then show thesis using that[of None] n s by (auto simp: trace_input_def split: option.splits)
    qed
  qed
  obtain e where e: "new_envelope (cx_mint cx k) (cx_now cx) (?i\<lparr>in_trace := tr\<rparr>) = Inr e" "en_event_id e = cx_mint cx k"
    using new_envelope_typed_input[OF p(1) c(1) p(2-4) c(2) tr(2)] by blast
  have v: "validate_envelope e = None"
    using e(1) by (auto simp: new_envelope_def Let_def split: option.splits)
  show ?thesis using e v c(3) tr(1)
    by (auto simp: add_typed_def attempt_def add_envelope_context_def add_envelope_with_search_def
        insert_event_def table_simps event_of_envelope_def)
qed

lemma ensure_recovery_frame [frame_simps]:
  "ensure_recovery cx key reason rtype rid v i d = Inr (b, d') \<Longrightarrow> business d' = business d \<and>
     owner_epochs d' = owner_epochs d"
  by (auto simp: ensure_recovery_def Let_def attempt_eq_Inr_iff insert_event_def split: if_splits)

section \<open>Routing\<close>

lemma cut_last_at_append:
  assumes "CHR 0x40 \<notin> set q"
  shows "cut_last_at (s @ CHR 0x40 # q) = Some (s, q)"
proof -
  have "takeWhile (\<lambda>c. c \<noteq> CHR 0x40) (rev q @ CHR 0x40 # rev s) = rev q"
    using assms by (subst takeWhile_append2) auto
  then show ?thesis by (simp add: cut_last_at_def Let_def)
qed

lemma target_from_target:
  assumes "CHR 0x40 \<notin> set q" "q \<noteq> []" "s \<noteq> []" "canonical_task_type s q = (s, q)"
  shows "target_from rabbitmq (tg_destination (target rabbitmq s q)) = Some (target rabbitmq s q)"
  using assms by (simp add: target_from_def target_def cut_last_at_append)

definition registered_targets :: "delivery_target list" where
  "registered_targets =
     [target rabbitmq event_file_created ''maintenance'',
      target rabbitmq event_share_imported ''maintenance'',
      target rabbitmq task_object_verify ''object'', target rabbitmq task_media_thumbnail ''media'',
      target rabbitmq task_ai_index ''ai'', target rabbitmq task_object_gc ''maintenance'',
      target rabbitmq task_ai_reprocess ''ai'',
      target rabbitmq event_storage_operation_recover ''maintenance'',
      target rabbitmq task_upload_operation_recover ''upload'',
      target rabbitmq event_media_thumbnail_requested ''media'',
      target rabbitmq task_search_project ''search'']"

lemma set_if_subset: "set a \<subseteq> S \<Longrightarrow> set b \<subseteq> S \<Longrightarrow> set (if c then a else b) \<subseteq> S"
  by simp

lemma routes_registered: "set (routes et ai @ search_routes et s) \<subseteq> set registered_targets"
proof -
  have "set (routes et ai) \<subseteq> set registered_targets" unfolding routes_def
    by (intro set_if_subset) (auto simp: registered_targets_def)
  moreover have "set (search_routes et s) \<subseteq> set registered_targets" unfolding search_routes_def
    by (intro set_if_subset) (simp_all add: registered_targets_def)
  ultimately show ?thesis by simp
qed

lemma registered_target_parses:
  "\<forall>t \<in> set registered_targets. target_from rabbitmq (tg_destination t) = Some t \<and> tg_transport t = rabbitmq"
  unfolding registered_targets_def list.set ball_simps
  by (intro conjI; (rule target_from_target)?; simp add: canonical_task_type_def target_def)

lemma route_parses:
  assumes "t \<in> set (routes et ai @ search_routes et s)"
  shows "target_from rabbitmq (tg_destination t) = Some t" "tg_transport t = rabbitmq"
  using routes_registered registered_target_parses assms by blast+

text \<open>The writer and the dispatcher agree on the routing registry: every delivery row written
  for an event resolves, when the dispatcher reads it back, to exactly the task and queue it was
  written for and is allowed for the event's type, whatever the rollout flags.\<close>

theorem written_delivery_dispatchable:
  assumes "t \<in> set (routes et ai @ search_routes et search)"
  shows "target_allowed_for_event et ai search (new_delivery now eid t) = Some t"
  using route_parses[OF assms] assms
  by (auto simp: target_allowed_for_event_def target_from_delivery_def new_delivery_def
      list_ex_iff)

lemma written_delivery_dispatchable_witness:
  "target_allowed_for_event event_object_ready True False
     (new_delivery 0 1 (target rabbitmq task_ai_index ''ai'')) =
   Some (target rabbitmq task_ai_index ''ai'')"
  by (rule written_delivery_dispatchable) (simp add: routes_def)

lemma covered_mono: "covered eid t rows \<Longrightarrow> covered eid t (rows @ extra)"
  by (auto simp: covered_def table_simps)

lemma covered_add:
  assumes "t \<in> set (routes et ai @ search_routes et search)"
  shows "covered eid t (add_delivery now eid t rows)"
proof (cases "covered eid t rows")
  case False
  note p = route_parses[OF assms]
  have "\<not> exists_where (\<lambda>r. delivery_key r = delivery_key (new_delivery now eid t)) rows"
    using False p unfolding covered_def table_simps
    by (auto simp: delivery_key_def new_delivery_def)
  then have "add_delivery now eid t rows = rows @ [new_delivery now eid t]"
    using False by (simp add: add_delivery_def)
  then show ?thesis using p by (auto simp: covered_def table_simps new_delivery_def)
qed (simp add: add_delivery_def)

lemma add_delivery_mono: "\<exists>extra. add_delivery now eid t rows = rows @ extra"
  by (simp add: add_delivery_def)

lemma fold_add_delivery_mono: "\<exists>extra. fold (add_delivery now eid) ts rows = rows @ extra"
proof (induction ts arbitrary: rows)
  case (Cons t ts)
  obtain m where "add_delivery now eid t rows = rows @ m" using add_delivery_mono by blast
  moreover obtain n where "fold (add_delivery now eid) ts (rows @ m) = (rows @ m) @ n"
    using Cons.IH by blast
  ultimately show ?case by simp
qed simp

lemma fold_add_delivery_covers:
  assumes "set ts \<subseteq> set (routes et ai @ search_routes et search)" "t \<in> set ts"
  shows "covered eid t (fold (add_delivery now eid) ts rows)"
  using assms
proof (induction ts arbitrary: rows)
  case (Cons u ts)
  show ?case
  proof (cases "t = u")
    case True
    have "covered eid t (add_delivery now eid t rows)" using Cons.prems covered_add by blast
    then show ?thesis using True fold_add_delivery_mono[of now eid ts "add_delivery now eid u rows"]
      by (metis covered_mono fold_simps(2))
  qed (use Cons in auto)
qed simp

lemma fold_add_delivery_skip:
  "\<forall>t \<in> set ts. covered eid t rows \<Longrightarrow> fold (add_delivery now eid) ts rows = rows"
  by (induction ts) (simp_all add: add_delivery_def)

text \<open>Writing the deliveries of an event covers every destination the registry allows, keeps
  the rows that were there, and is idempotent: a relay that repeats it, at any later time, adds
  nothing, so a destination is never enqueued twice for one event.\<close>

theorem deliveries_complete_and_idempotent:
  "let d' = add_deliveries_with_search now eid et ai search d in
     list_all (\<lambda>t. covered eid t (outbox_deliveries d')) (routes et ai @ search_routes et search) \<and>
     take (length (outbox_deliveries d)) (outbox_deliveries d') = outbox_deliveries d \<and>
     add_deliveries_with_search later eid et ai search d' = d'"
proof -
  let ?ts = "routes et ai @ search_routes et search"
  let ?d' = "add_deliveries_with_search now eid et ai search d"
  have c: "\<forall>t \<in> set ?ts. covered eid t (outbox_deliveries ?d')"
    using fold_add_delivery_covers[of ?ts et ai search _ eid now]
    by (simp add: add_deliveries_with_search_def)
  have "add_deliveries_with_search later eid et ai search ?d' =
      ?d'\<lparr>outbox_deliveries := outbox_deliveries ?d'\<rparr>"
    using fold_add_delivery_skip[OF c, of later]
    unfolding add_deliveries_with_search_def[of later] by simp
  moreover obtain extra where "outbox_deliveries ?d' = outbox_deliveries d @ extra"
    using fold_add_delivery_mono[of now eid ?ts] by (auto simp: add_deliveries_with_search_def)
  ultimately show ?thesis using c by (simp add: Let_def list_all_iff)
qed

section \<open>Recovery events are deterministic\<close>

text \<open>Requesting the same recovery twice is a no-op: once \<open>EnsureRecovery\<close> has recorded a
  recovery key, every later request under that key, at any time and whatever event it proposes,
  reports that nothing was created and leaves the database as it is (or rejects its own event).\<close>

theorem ensure_recovery_idempotent:
  assumes "ensure_recovery cx key reason rtype rid v i d = Inr (created, d')"
  shows "case ensure_recovery cx' key reason' rtype' rid' v' i' d' of
      Inl _ \<Rightarrow> True | Inr (b, d'') \<Rightarrow> \<not> b \<and> d'' = d'"
proof -
  have "exists_where (\<lambda>r. rc_recovery_key r = key) (outbox_recoveries d')"
    using assms by (auto simp: ensure_recovery_def Let_def attempt_eq_Inr_iff table_simps
        split: if_splits)
  then show ?thesis
    by (auto simp: ensure_recovery_def Let_def attempt_def split: sum.split)
qed

definition sample_ctx :: ctx where
  "sample_ctx = \<lparr> cx_now = 5, cx_v2_events = True, cx_search_enabled = False, cx_trace = None,
     cx_mint = (\<lambda>n. of_nat (n + 100)), cx_name_uuid = (\<lambda>s. of_nat (length s + 1)) \<rparr>"

definition sample_recovery :: "db \<Rightarrow> (bool \<times> db) result" where
  "sample_recovery = ensure_recovery sample_ctx ''k'' ''lost'' ''storage_operation'' 3 1
     (typed_input event_upload_operation_recover 3 1 ''core-api''
       (UploadOperationRecoverV1 3 ''multipart.create'' ''k''))"

lemma sample_recovery_created:
  "(case sample_recovery empty_db of Inl _ \<Rightarrow> False | Inr (b, d) \<Rightarrow>
      b \<and> length (outbox_deliveries d) = 1 \<and> length (outbox_recoveries d) = 1)"
  by code_simp

lemma ensure_recovery_idempotent_witness:
  "case sample_recovery empty_db of Inl _ \<Rightarrow> False | Inr (b, d') \<Rightarrow>
     (case sample_recovery d' of Inl _ \<Rightarrow> True | Inr (c, d'') \<Rightarrow> \<not> c \<and> d'' = d')"
proof (cases "sample_recovery empty_db")
  case (Inl e)
  then show ?thesis using sample_recovery_created by simp
next
  case (Inr r)
  obtain b d' where r: "r = (b, d')" by (cases r)
  note e = Inr[unfolded sample_recovery_def r]
  show ?thesis unfolding Inr r sum.case prod.case unfolding sample_recovery_def
    by (rule ensure_recovery_idempotent[OF e])
qed

end
