(* ===== verification/ObjectStore.thy ===== *)
theory ObjectStore
  imports StorageOps Outbox
begin

text \<open>
  Package \<open>objectstore\<close>: content-addressed objects with a reference count, their revival under a
  fresh key, and the three-phase garbage collection (mark, remove the bytes, retire the row).  The
  object storage is outside the repository: \<open>storage_env\<close> carries the outcome of its
  \<open>RemoveObject\<close> calls, whether the caller's context is cancelled, and the text of an error.
\<close>

record storage_env =
  sg_remove :: "string \<Rightarrow> string \<Rightarrow> go_error option"
  sg_canceled :: bool
  sg_error_text :: "go_error \<Rightarrow> string"

section \<open>Keys\<close>

definition int_string :: "int \<Rightarrow> string" where
  "int_string n = (if n < 0 then ''-'' @ decimal_string (nat (- n)) else decimal_string (nat n))"

definition object_prefix :: string where "object_prefix = ''objects/sha256/''"

text \<open>\<open>objects/sha256/%s/%s\<close>, the key of the first life of an object.\<close>

definition base_key :: "string \<Rightarrow> string" where
  "base_key sha = object_prefix @ take 2 sha @ ''/'' @ sha"

definition revival_key :: "file_object \<Rightarrow> string" where
  "revival_key o' = object_prefix @ take 2 (fo_sha256 o') @ ''/'' @ fo_sha256 o' @ ''/v'' @
     int_string (fo_version o')"

section \<open>Queries\<close>

definition find_owned :: "uuid \<Rightarrow> string \<Rightarrow> int \<Rightarrow> db \<Rightarrow> file_object result" where
  "find_owned owner sha bytes d = found GormRecordNotFound
     (find (\<lambda>o'. exists_where (\<lambda>e. fe_object_id e = fo_id o' \<and> fe_owner_id e = owner \<and> entry_live e)
              (file_entries d) \<and>
           fo_sha256 o' = sha \<and> fo_size_bytes o' = bytes \<and> fo_status o' = ObjectReady \<and> fo_id o' \<noteq> 0)
       (file_objects d))"

definition get_object :: "uuid \<Rightarrow> db \<Rightarrow> file_object result" where
  "get_object oid d = found GormRecordNotFound
     (find (\<lambda>o'. fo_id o' = oid \<and> fo_status o' = ObjectReady) (file_objects d))"

definition find_by_hash :: "string \<Rightarrow> int \<Rightarrow> db \<Rightarrow> file_object result" where
  "find_by_hash sha bytes d = found GormRecordNotFound
     (find (\<lambda>o'. fo_sha256 o' = sha \<and> fo_size_bytes o' = bytes \<and> fo_status o' = ObjectReady)
       (file_objects d))"

section \<open>References\<close>

definition update_objects :: "(file_object \<Rightarrow> bool) \<Rightarrow> (file_object \<Rightarrow> file_object) \<Rightarrow> db \<Rightarrow> db" where
  "update_objects P g d = d\<lparr>file_objects := update_where P g (file_objects d)\<rparr>"

definition add_reference :: "uuid \<Rightarrow> db \<Rightarrow> db result" where
  "add_reference oid d =
     (let own = (\<lambda>o'. fo_id o' = oid \<and> fo_status o' = ObjectReady) in
      if count_where own (file_objects d) \<noteq> 1 then Inl (ErrNew ''object not ready'')
      else Inr (update_objects own
             (\<lambda>o'. o'\<lparr>fo_reference_count := fo_reference_count o' + 1, fo_version := fo_version o' + 1\<rparr>) d))"

definition release_reference :: "uuid \<Rightarrow> db \<Rightarrow> (int \<times> db) result" where
  "release_reference oid d =
     (let d' = update_objects (\<lambda>o'. fo_id o' = oid \<and> 0 < fo_reference_count o')
             (\<lambda>o'. o'\<lparr>fo_reference_count := fo_reference_count o' - 1, fo_version := fo_version o' + 1\<rparr>) d
      in attempt (found GormRecordNotFound (object_by_id oid d')) (\<lambda>o'.
         Inr (fo_reference_count o', d')))"

definition objects_collide :: "file_object \<Rightarrow> file_object \<Rightarrow> bool" where
  "objects_collide o' p \<longleftrightarrow> fo_id o' = fo_id p \<or> fo_object_key o' = fo_object_key p \<or>
     (fo_sha256 o' = fo_sha256 p \<and> fo_size_bytes o' = fo_size_bytes p)"

definition revive_row :: "file_object \<Rightarrow> file_object \<Rightarrow> file_object" where
  "revive_row obj o' = o'\<lparr>fo_mime_type := fo_mime_type obj, fo_bucket := fo_bucket obj,
     fo_object_key := fo_object_key obj, fo_status := ObjectReady,
     fo_verified_at := fo_verified_at obj, fo_deleted_at := None,
     fo_version := fo_version o' + 1\<rparr>"

definition create_or_get :: "file_object \<Rightarrow> db \<Rightarrow> (file_object \<times> db) result" where
  "create_or_get obj0 d =
     (let obj = (if fo_version obj0 = 0 then obj0\<lparr>fo_version := 1\<rparr> else obj0) in
      if fo_size_bytes obj < 0 \<or> fo_reference_count obj < 0 then Inl ErrCheckViolation
      else case find (\<lambda>o'. fo_sha256 o' = fo_sha256 obj \<and> fo_size_bytes o' = fo_size_bytes obj)
                  (file_objects d) of
        None \<Rightarrow>
          if exists_where (objects_collide obj) (file_objects d) then Inl GormDuplicatedKey
          else Inr (obj, d\<lparr>file_objects := file_objects d @ [obj]\<rparr>)
      | Some existing \<Rightarrow>
          (case fo_status existing of
             ObjectReady \<Rightarrow> Inr (existing, d)
           | ObjectDeleted \<Rightarrow>
               if fo_object_key obj \<noteq> revival_key existing
                 then Inl (ErrNew ''canonical object generation changed; retry verification'')
               else let own = (\<lambda>o'. fo_id o' = fo_id existing \<and> fo_status o' = ObjectDeleted \<and>
                                 fo_reference_count o' = 0)
                 in if exists_where own (file_objects d) \<and>
                       exists_where (\<lambda>o'. fo_id o' \<noteq> fo_id existing \<and>
                          fo_object_key o' = fo_object_key obj) (file_objects d)
                      then Inl GormDuplicatedKey
                    else if count_where own (file_objects d) \<noteq> 1
                      then Inl (ErrNew ''deleted object changed during reuse'')
                    else let d' = update_objects own (revive_row obj) d
                      in attempt (found GormRecordNotFound (object_by_id (fo_id existing) d'))
                           (\<lambda>o'. Inr (o', d'))
           | ObjectDeleting \<Rightarrow> Inl (ErrNew ''object is being deleted'')))"

section \<open>Garbage collection\<close>

text \<open>The transaction of \<open>GarbageCollect\<close>: mark the object and enqueue the deletion.\<close>

definition gc_key :: "uuid \<Rightarrow> int \<Rightarrow> string" where
  "gc_key oid version = ''object.delete:'' @ uuid_string oid @ '':'' @ int_string version"

definition gc_mark :: "ctx \<Rightarrow> uuid \<Rightarrow> db \<Rightarrow> (operation option \<times> db) result" where
  "gc_mark cx oid d =
     (case object_by_id oid d of
        None \<Rightarrow> Inr (None, d)
      | Some obj \<Rightarrow>
          if live_entries_of oid d > 0 \<or> 0 < fo_reference_count obj \<or> fo_status obj = ObjectDeleted
            then Inr (None, d)
          else
            let (obj', d') =
              (if fo_status obj = ObjectReady
               then (let o2 = obj\<lparr>fo_status := ObjectDeleting, fo_version := fo_version obj + 1\<rparr>
                     in (o2, update_objects (\<lambda>o'. fo_id o' = oid)
                          (\<lambda>o'. o'\<lparr>fo_status := ObjectDeleting, fo_version := fo_version o2\<rparr>) d))
               else (obj, d))
            in attempt (enqueue (cx_mint cx 0) (cx_now cx)
                 \<lparr> oi_id = 0, oi_operation_type = ObjectDelete,
                   oi_idempotency_key = gc_key oid (fo_version obj'),
                   oi_upload_session_id = None, oi_object_id = Some oid,
                   oi_source_bucket = fo_bucket obj', oi_source_key = fo_object_key obj',
                   oi_target_bucket = [], oi_target_key = [], oi_storage_upload_id = [] \<rparr> d')
               (\<lambda>(op, d''). Inr (Some op, d'')))"

definition operation_lease_token :: "operation \<Rightarrow> uuid" where
  "operation_lease_token op = (case so_lease_token op of None \<Rightarrow> 0 | Some t \<Rightarrow> t)"

text \<open>\<open>performObjectDelete\<close> up to the first \<open>RemoveObject\<close>: either the operation is moot, or the
  bytes to remove (the variants' keys, then the object's own).  The code's reads are separate statements; here they
  see one state, and what is committed between them and the removal is a step of its own in \<open>gc_step\<close>.\<close>

datatype delete_plan = DeleteMoot | DeleteBytes uuid string "string list" string

definition delete_check :: "operation \<Rightarrow> db \<Rightarrow> delete_plan result" where
  "delete_check op d =
     (case so_object_id op of
        None \<Rightarrow> Inl (ErrNew ''object delete operation has no object'')
      | Some oid \<Rightarrow>
          (case object_by_id oid d of
             None \<Rightarrow> Inr DeleteMoot
           | Some obj \<Rightarrow>
               if live_entries_of oid d > 0 \<or> 0 < fo_reference_count obj \<or>
                  fo_status obj \<noteq> ObjectDeleting \<or> fo_object_key obj \<noteq> so_source_key op \<or>
                  fo_bucket obj \<noteq> so_source_bucket op
                 then Inr DeleteMoot
               else if exists_where (\<lambda>q. so_operation_type q = CanonicalEnsure \<and>
                       so_target_bucket q = so_source_bucket op \<and> so_target_key q = so_source_key op \<and>
                       so_state q = OpRunning) (storage_operations d)
                 then Inl (ErrNew ''canonical copy still running; defer deletion'')
               else if exists_where (\<lambda>q. so_object_id q = Some oid \<and>
                       so_operation_type q = VariantDelete \<and> so_state q = OpRunning)
                       (storage_operations d)
                 then Inl (ErrNew ''thumbnail write or cleanup still running; defer deletion'')
               else Inr (DeleteBytes oid (fo_bucket obj)
                      (map ov_object_key (filter (\<lambda>v. ov_object_id v = oid \<and>
                         exists_where (\<lambda>o'. fo_id o' = oid \<and> fo_status o' = ObjectDeleting \<and>
                           fo_object_key o' = so_source_key op) (file_objects d)) (object_variants d)))
                      (so_source_key op))))"

fun remove_all :: "storage_env \<Rightarrow> string \<Rightarrow> string list \<Rightarrow> go_error option" where
  "remove_all env bucket [] = None"
| "remove_all env bucket (k # ks) =
     (case sg_remove env bucket k of Some e \<Rightarrow> Some e | None \<Rightarrow> remove_all env bucket ks)"

text \<open>The closing transaction of \<open>performObjectDelete\<close>.\<close>

definition delete_commit :: "ctx \<Rightarrow> operation \<Rightarrow> uuid \<Rightarrow> db \<Rightarrow> db result" where
  "delete_commit cx op oid d =
     (if \<not> exists_where (\<lambda>q. so_id q = so_id op \<and> so_state q = OpRunning \<and>
            so_lease_token q = Some (operation_lease_token op)) (storage_operations d)
        then Inl GormRecordNotFound
      else attempt (found GormRecordNotFound (object_by_id oid d)) (\<lambda>latest.
        if live_entries_of oid d > 0 \<or> 0 < fo_reference_count latest
          then Inl (ErrNew ''object reference changed during delete reconciliation'')
        else if fo_status latest \<noteq> ObjectDeleting \<or> fo_object_key latest \<noteq> so_source_key op
          then mark_succeeded_owned (cx_now cx) (so_id op) (operation_lease_token op) d
        else
          let d1 = d\<lparr>object_variants := filter (\<lambda>v. ov_object_id v \<noteq> oid) (object_variants d),
                     ai_documents := filter (\<lambda>a. ad_object_id a \<noteq> oid) (ai_documents d)\<rparr>;
              d2 = update_objects (\<lambda>o'. fo_id o' = oid \<and> fo_status o' = ObjectDeleting \<and>
                                    fo_reference_count o' = 0)
                     (\<lambda>o'. o'\<lparr>fo_status := ObjectDeleted, fo_deleted_at := Some (cx_now cx),
                              fo_version := fo_version o' + 1\<rparr>) d1
          in attempt (add_typed cx 0 (typed_input event_object_gc_requested oid (fo_version latest + 1)
                 ''object-gc-completed'' (ObjectGCRequestedV1 oid)) d2) (\<lambda>d3.
             mark_succeeded_owned (cx_now cx) (so_id op) (operation_lease_token op) d3)))"

text \<open>A step that may leave its work half done: the error, if any, beside the database.\<close>

definition committed :: "db \<Rightarrow> db result \<Rightarrow> go_error option \<times> db" where
  "committed d r = (case r of Inl e \<Rightarrow> (Some e, d) | Inr d' \<Rightarrow> (None, d'))"

definition perform_object_delete ::
  "storage_env \<Rightarrow> ctx \<Rightarrow> operation \<Rightarrow> db \<Rightarrow> go_error option \<times> db" where
  "perform_object_delete env cx op d =
     (case delete_check op d of
        Inl e \<Rightarrow> (Some e, d)
      | Inr DeleteMoot \<Rightarrow>
          committed d (mark_succeeded_owned (cx_now cx) (so_id op) (operation_lease_token op) d)
      | Inr (DeleteBytes oid bucket variants key) \<Rightarrow>
          (case remove_all env bucket variants of
             Some e \<Rightarrow> (Some e, d)
           | None \<Rightarrow>
               (case sg_remove env (so_source_bucket op) key of
                  Some e \<Rightarrow> (Some e, d)
                | None \<Rightarrow> committed d (delete_commit cx op oid d))))"

definition perform_variant_delete ::
  "storage_env \<Rightarrow> ctx \<Rightarrow> operation \<Rightarrow> db \<Rightarrow> go_error option \<times> db" where
  "perform_variant_delete env cx op d =
     (case so_object_id op of
        None \<Rightarrow> (Some StorageInvalidOperation, d)
      | Some oid \<Rightarrow>
          if so_source_bucket op = [] \<or> so_source_key op = [] then (Some StorageInvalidOperation, d)
          else
            let finish = committed d
                  (mark_succeeded_owned (cx_now cx) (so_id op) (operation_lease_token op) d)
            in if exists_where (\<lambda>v. ov_object_id v = oid \<and> ov_object_key v = so_source_key op \<and> ov_ready v)
                    (object_variants d)
               then finish
               else (case sg_remove env (so_source_bucket op) (so_source_key op) of
                       Some e \<Rightarrow> (Some e, d) | None \<Rightarrow> finish))"

text \<open>\<open>reconcileObjectDelete\<close> under \<open>RunOwned\<close>, whose lease is valid throughout (its renewal is a
  separate step), then \<open>RecordError\<close> in the callers.\<close>

definition reconcile_object_delete ::
  "storage_env \<Rightarrow> ctx \<Rightarrow> operation \<Rightarrow> db \<Rightarrow> go_error option \<times> db" where
  "reconcile_object_delete env cx op d =
     (if so_lease_token op = None then (Some StorageInvalidOperation, d)
      else if so_operation_type op = VariantDelete then perform_variant_delete env cx op d
      else if so_operation_type op \<noteq> ObjectDelete then (Some StorageInvalidOperation, d)
      else perform_object_delete env cx op d)"

definition record_failure_of ::
  "storage_env \<Rightarrow> ctx \<Rightarrow> operation \<Rightarrow> go_error option \<times> db \<Rightarrow> go_error option \<times> db" where
  "record_failure_of env cx op r =
     (case r of (None, d) \<Rightarrow> (None, d)
      | (Some e, d) \<Rightarrow> (case record_error (cx_now cx) (sg_canceled env) op e (sg_error_text env e) d of
          (e', d') \<Rightarrow> (Some e', d')))"

definition reconcile_object_delete_operation ::
  "storage_env \<Rightarrow> ctx \<Rightarrow> uuid \<Rightarrow> db \<Rightarrow> go_error option \<times> db" where
  "reconcile_object_delete_operation env cx i d =
     (case get_operation i d of
        Inl e \<Rightarrow> (if errors_is e GormRecordNotFound then None else Some e, d)
      | Inr op \<Rightarrow>
          if so_state op = OpSucceeded then (None, d)
          else if so_state op = OpDead then (Some (last_error_value op), d)
          else (case try_start (cx_now cx) (cx_mint cx 1) (so_id op) (5 * minute) d of
              Inl e \<Rightarrow> (Some e, d)
            | Inr (claimed, token, d') \<Rightarrow>
                if \<not> claimed then (None, d')
                else let op' = op\<lparr>so_lease_token := Some token\<rparr>
                  in record_failure_of env cx op' (reconcile_object_delete env cx op' d')))"

definition garbage_collect :: "storage_env \<Rightarrow> ctx \<Rightarrow> uuid \<Rightarrow> db \<Rightarrow> go_error option \<times> db" where
  "garbage_collect env cx oid d =
     (case gc_mark cx oid d of
        Inl e \<Rightarrow> (Some e, d)
      | Inr (None, d') \<Rightarrow> (None, d')
      | Inr (Some op, d') \<Rightarrow>
          if so_id op = 0 then (None, d') else reconcile_object_delete_operation env cx (so_id op) d')"

text \<open>\<open>ReconcileObjectDeletes\<close>; iteration \<open>k\<close> runs in context \<open>cxs k\<close>.\<close>

fun reconcile_object_deletes ::
  "storage_env \<Rightarrow> (nat \<Rightarrow> ctx) \<Rightarrow> nat \<Rightarrow> nat \<Rightarrow> nat \<times> go_error option \<Rightarrow> db \<Rightarrow>
   (nat \<times> go_error option) \<times> db" where
  "reconcile_object_deletes env cxs k 0 acc d = (acc, d)"
| "reconcile_object_deletes env cxs k (Suc n) (completed, failures) d =
     (if sg_canceled env then ((completed, join_errors failures (Some ErrCanceled)), d)
      else case claim_types (cx_now (cxs k)) (cx_mint (cxs k)) 1 (5 * minute)
                  [ObjectDelete, VariantDelete] d of
        Inl e \<Rightarrow> ((completed, join_errors failures (Some e)), d)
      | Inr ([], d1) \<Rightarrow> ((completed, failures), d1)
      | Inr (op # _, d1) \<Rightarrow>
          (case record_failure_of env (cxs k) op (reconcile_object_delete env (cxs k) op d1) of
             (Some e, d2) \<Rightarrow>
               reconcile_object_deletes env cxs (Suc k) n (completed, join_errors failures (Some e)) d2
           | (None, d2) \<Rightarrow> reconcile_object_deletes env cxs (Suc k) n (completed + 1, failures) d2))"

section \<open>Keys of a generation\<close>

definition gen_key :: "string \<Rightarrow> int option \<Rightarrow> string" where
  "gen_key sha g = base_key sha @ (case g of None \<Rightarrow> [] | Some v \<Rightarrow> ''/v'' @ int_string v)"

lemma gen_key_simps: "gen_key sha None = base_key sha"
  "gen_key (fo_sha256 o') (Some (fo_version o')) = revival_key o'"
  by (simp_all add: gen_key_def base_key_def revival_key_def)

lemma decimal_string_no_minus: "CHR ''-'' \<notin> set (decimal_string n)"
proof (induction n rule: decimal_string.induct)
  case (1 n)
  have dm: "CHR ''-'' \<noteq> digit_char k" if "k < 10" for k
  proof
    assume "CHR ''-'' = digit_char k"
    then have "(of_char (CHR ''-'') :: nat) = of_char (digit_char k)" by simp
    then show False using that by (simp add: digit_char_def)
  qed
  show ?case using 1 dm[of n] dm[of "n mod 10"] by (subst decimal_string.simps) auto
qed

lemma int_string_inj: "int_string m = int_string n \<Longrightarrow> m = n"
  using decimal_string_no_minus[of "nat m"] decimal_string_no_minus[of "nat n"]
  by (auto simp: int_string_def split: if_splits dest!: decimal_string_inj) (metis list.set_intros(1))+

lemma gen_key_inj:
  assumes "length s = 64" "length t = 64" "gen_key s g = gen_key t h"
  shows "s = t \<and> g = h"
proof -
  let ?r = "\<lambda>g. case g of None \<Rightarrow> [] | Some v \<Rightarrow> ''/v'' @ int_string v"
  have L: "length (take 2 s) = length (take 2 t)" using assms by simp
  have "take 2 s @ (''/'' @ s @ ?r g) = take 2 t @ (''/'' @ t @ ?r h)"
    using assms(3) by (simp add: gen_key_def base_key_def)
  then have "''/'' @ s @ ?r g = ''/'' @ t @ ?r h"
    using append_eq_append_conv[OF disjI1[OF L]] by (rule iffD1[THEN conjunct2, rotated])
  then have "s = t \<and> (case g of None \<Rightarrow> [] | Some v \<Rightarrow> ''/v'' @ int_string v) =
     (case h of None \<Rightarrow> [] | Some v \<Rightarrow> ''/v'' @ int_string v)"
    using assms by simp
  then show ?thesis by (auto split: option.splits dest: int_string_inj)
qed

section \<open>How rows evolve\<close>

text \<open>An object keeps its identity and content hash, its version never decreases, and it becomes
  ready only by a revival, which moves it to the key of its version.\<close>

definition row_evolves :: "file_object \<Rightarrow> file_object \<Rightarrow> bool" where
  "row_evolves o' p \<longleftrightarrow> fo_id p = fo_id o' \<and> fo_sha256 p = fo_sha256 o' \<and> fo_size_bytes p = fo_size_bytes o' \<and>
     fo_version o' \<le> fo_version p \<and>
     (fo_object_key p = fo_object_key o' \<and> (fo_status p = ObjectReady \<longrightarrow> fo_status o' = ObjectReady) \<or>
      fo_object_key p = revival_key o' \<and> fo_version o' < fo_version p)"

definition objects_evolve :: "db \<Rightarrow> db \<Rightarrow> bool" where
  "objects_evolve d d' \<longleftrightarrow> list_all2 row_evolves (file_objects d) (file_objects d')"

lemma row_evolves_refl [simp]: "row_evolves o' o'"
  by (simp add: row_evolves_def)

lemma update_objects_evolve:
  assumes "\<And>r. r \<in> set (file_objects d) \<Longrightarrow> P r \<Longrightarrow> row_evolves r (g r)"
  shows "objects_evolve d (update_objects P g d)"
  using assms unfolding objects_evolve_def update_objects_def update_where_def
  by (auto simp: list_all2_map2 intro!: list_all2_refl[THEN list_all2_mono] list.rel_refl_strong)

lemma objects_evolve_same: "file_objects d' = file_objects d \<Longrightarrow> objects_evolve d d'"
  by (simp add: objects_evolve_def list.rel_refl)

lemma add_reference_evolve: "add_reference oid d = Inr d' \<Longrightarrow> objects_evolve d d'"
  by (auto simp: add_reference_def Let_def row_evolves_def intro!: update_objects_evolve split: if_splits)

lemma release_reference_evolve: "release_reference oid d = Inr (n, d') \<Longrightarrow> objects_evolve d d'"
  by (auto simp: release_reference_def Let_def result_iffs row_evolves_def intro!: update_objects_evolve)

lemma enqueue_objects: "enqueue f now i d = Inr (op, d') \<Longrightarrow> file_objects d' = file_objects d"
  by (erule enqueue_cases) simp_all

lemma mark_succeeded_owned_objects:
  "mark_succeeded_owned now i t d = Inr d' \<Longrightarrow> file_objects d' = file_objects d"
  by (auto simp: mark_succeeded_owned_def mark_succeeded_def Let_def split: if_splits option.splits)

lemma object_by_id_SomeD: "object_by_id oid d = Some o' \<Longrightarrow> o' \<in> set (file_objects d) \<and> fo_id o' = oid"
  unfolding object_by_id_def by (drule find_SomeD) simp

lemma gc_mark_evolve:
  assumes "gc_mark cx oid d = Inr (r, d')" "key_distinct fo_id (file_objects d)"
  shows "objects_evolve d d'"
proof (cases "file_objects d' = file_objects d")
  case False
  then obtain obj where obj: "object_by_id oid d = Some obj" and "fo_status obj = ObjectReady"
    and e: "file_objects d' = file_objects (update_objects (\<lambda>o'. fo_id o' = oid)
        (\<lambda>o'. o'\<lparr>fo_status := ObjectDeleting, fo_version := fo_version obj + 1\<rparr>) d)"
    using assms(1) by (auto simp: gc_mark_def Let_def result_iffs dest!: enqueue_objects
        split: option.splits if_splits)
  have "r = obj" if "r \<in> set (file_objects d)" "fo_id r = oid" for r
    using key_unique[OF assms(2)] object_by_id_SomeD[OF obj] that by metis
  then have "objects_evolve d (update_objects (\<lambda>o'. fo_id o' = oid)
        (\<lambda>o'. o'\<lparr>fo_status := ObjectDeleting, fo_version := fo_version obj + 1\<rparr>) d)"
    by (intro update_objects_evolve) (auto simp: row_evolves_def)
  then show ?thesis using e by (simp add: objects_evolve_def)
qed (rule objects_evolve_same)

lemma add_typed_objects: "add_typed cx k i d = Inr d' \<Longrightarrow> file_objects d' = file_objects d"
  using add_typed_frame business_eqD(5) by blast

lemma delete_commit_objects:
  "delete_commit cx op oid d = Inr d' \<Longrightarrow> file_objects d' = file_objects d \<or>
     file_objects d' = update_where (\<lambda>o'. fo_id o' = oid \<and> fo_status o' = ObjectDeleting \<and>
       fo_reference_count o' = 0) (\<lambda>o'. o'\<lparr>fo_status := ObjectDeleted,
         fo_deleted_at := Some (cx_now cx), fo_version := fo_version o' + 1\<rparr>) (file_objects d)"
  unfolding delete_commit_def Let_def result_iffs if_Inl_eq_Inr_iff
  by (auto simp: result_iffs update_objects_def split: if_splits
      dest!: mark_succeeded_owned_objects add_typed_objects)

lemma delete_commit_evolve: "delete_commit cx op oid d = Inr d' \<Longrightarrow> objects_evolve d d'"
proof (drule delete_commit_objects, erule disjE)
  assume e: "file_objects d' = update_where (\<lambda>o'. fo_id o' = oid \<and> fo_status o' = ObjectDeleting \<and>
       fo_reference_count o' = 0) (\<lambda>o'. o'\<lparr>fo_status := ObjectDeleted,
         fo_deleted_at := Some (cx_now cx), fo_version := fo_version o' + 1\<rparr>) (file_objects d)"
  have "objects_evolve d (update_objects (\<lambda>o'. fo_id o' = oid \<and> fo_status o' = ObjectDeleting \<and>
       fo_reference_count o' = 0) (\<lambda>o'. o'\<lparr>fo_status := ObjectDeleted,
         fo_deleted_at := Some (cx_now cx), fo_version := fo_version o' + 1\<rparr>) d)"
    by (rule update_objects_evolve) (simp add: row_evolves_def)
  then show ?thesis using e by (simp add: objects_evolve_def update_objects_def)
qed (rule objects_evolve_same)

lemma create_or_get_cases:
  assumes "create_or_get obj0 d = Inr (o', d')" "fo_version obj0 \<noteq> 0"
    and ids: "key_distinct fo_id (file_objects d)"
  obtains (existing) "o' \<in> set (file_objects d)" "fo_status o' = ObjectReady" "d' = d"
      "fo_sha256 o' = fo_sha256 obj0" "fo_size_bytes o' = fo_size_bytes obj0"
  | (revived) p where "p \<in> set (file_objects d)" "fo_status p = ObjectDeleted" "fo_reference_count p = 0"
      "fo_sha256 p = fo_sha256 obj0" "fo_size_bytes p = fo_size_bytes obj0"
      "fo_object_key obj0 = revival_key p"
      "d' = update_objects (\<lambda>q. fo_id q = fo_id p \<and> fo_status q = ObjectDeleted \<and> fo_reference_count q = 0) (revive_row obj0) d"
      "object_by_id (fo_id p) d' = Some o'"
      "\<forall>q \<in> set (file_objects d). fo_id q \<noteq> fo_id p \<longrightarrow> fo_object_key q \<noteq> fo_object_key obj0"
  | (created) "o' = obj0" "d' = d\<lparr>file_objects := file_objects d @ [obj0]\<rparr>"
      "\<forall>q \<in> set (file_objects d). \<not> objects_collide obj0 q" "0 \<le> fo_size_bytes obj0" "0 \<le> fo_reference_count obj0"
proof -
  note c = assms(1)[unfolded create_or_get_def Let_def if_not_P[OF assms(2)] if_Inl_eq_Inr_iff]
  let ?P = "\<lambda>o'. fo_sha256 o' = fo_sha256 obj0 \<and> fo_size_bytes o' = fo_size_bytes obj0"
  show thesis
  proof (cases "find ?P (file_objects d)")
    case None
    then show thesis using c that(3) by (auto simp: table_simps)
  next
    case (Some p)
    then have p: "p \<in> set (file_objects d)" "?P p" by (auto dest: find_SomeD)
    show thesis
    proof (cases "fo_status p")
      case ObjectReady
      then have "p = o'" "d' = d" using c Some by simp_all
      then show thesis using that(1) p ObjectReady by blast
    next
      case ObjectDeleting
      then show thesis using c Some by simp
    next
      case ObjectDeleted
      let ?own = "\<lambda>q. fo_id q = fo_id p \<and> fo_status q = ObjectDeleted \<and> fo_reference_count q = 0"
      have k: "fo_object_key obj0 = revival_key p" using c Some ObjectDeleted by simp
      have d': "d' = update_objects ?own (revive_row obj0) d" using c Some ObjectDeleted k
        by (auto simp: result_iffs)
      have d2: "object_by_id (fo_id p) d' = Some o'" using c Some ObjectDeleted k
        by (auto simp: result_iffs)
      have n: "count_where ?own (file_objects d) = 1" using c Some ObjectDeleted k by simp
      have u: "exists_where ?own (file_objects d) \<longrightarrow> \<not> exists_where (\<lambda>q. fo_id q \<noteq> fo_id p \<and>
           fo_object_key q = fo_object_key obj0) (file_objects d)"
        using c Some ObjectDeleted k by simp
      have ex: "exists_where ?own (file_objects d)"
        using n count_where_pos_iff[of ?own "file_objects d"] by (simp add: table_simps)
      obtain q where q: "q \<in> set (file_objects d)" "?own q" using ex by (auto simp: table_simps)
      have "\<forall>q \<in> set (file_objects d). fo_id q \<noteq> fo_id p \<longrightarrow> fo_object_key q \<noteq> fo_object_key obj0"
        using u ex by (auto simp: table_simps)
      moreover have "q = p" using key_unique[OF ids q(1) p(1)] q(2) by simp
      ultimately show thesis using that(2)[OF p(1) ObjectDeleted] q(2) p(2) k d' d2 by simp
    qed
  qed
qed
section \<open>Delayed deletes\<close>

text \<open>The key belongs to the row's current or an earlier life.\<close>

definition past_key :: "file_object \<Rightarrow> string \<Rightarrow> bool" where
  "past_key o' k \<longleftrightarrow> (\<exists>g. k = gen_key (fo_sha256 o') g \<and> (case g of None \<Rightarrow> True | Some v \<Rightarrow> v < fo_version o'))"

definition objects_ok :: "db \<Rightarrow> bool" where
  "objects_ok d \<longleftrightarrow> key_distinct fo_id (file_objects d) \<and> key_distinct fo_sha256 (file_objects d) \<and>
     (\<forall>o' \<in> set (file_objects d). length (fo_sha256 o') = 64 \<and> past_key o' (fo_object_key o'))"

definition planned_ok :: "db \<Rightarrow> uuid \<times> string \<Rightarrow> bool" where
  "planned_ok d plan \<longleftrightarrow> (\<exists>o' \<in> set (file_objects d). fo_id o' = fst plan \<and> past_key o' (snd plan) \<and>
     (fo_status o' = ObjectReady \<longrightarrow> fo_object_key o' \<noteq> snd plan))"

lemma past_key_mono:
  "past_key o' k \<Longrightarrow> fo_sha256 p = fo_sha256 o' \<Longrightarrow> fo_version o' \<le> fo_version p \<Longrightarrow> past_key p k"
  unfolding past_key_def by (force split: option.splits)

lemma past_key_not_revival:
  assumes "past_key o' k" "length (fo_sha256 o') = 64"
  shows "k \<noteq> revival_key o'"
proof
  assume "k = revival_key o'"
  moreover obtain g where g: "k = gen_key (fo_sha256 o') g" "case g of None \<Rightarrow> True | Some v \<Rightarrow> v < fo_version o'"
    using assms(1) by (auto simp: past_key_def)
  ultimately have "g = Some (fo_version o')"
    using gen_key_inj[OF assms(2,2)] gen_key_simps(2) by metis
  then show False using g(2) by simp
qed

lemma row_evolves_key:
  assumes "row_evolves o' p" "past_key o' (fo_object_key o')"
  shows "past_key p (fo_object_key p)"
proof -
  from assms(1) consider "fo_object_key p = fo_object_key o'" | "fo_object_key p = revival_key o'" "fo_version o' < fo_version p"
    by (auto simp: row_evolves_def)
  then show ?thesis
  proof cases
    case 1
    then show ?thesis using assms past_key_mono[of o' "fo_object_key o'" p] by (auto simp: row_evolves_def)
  next
    case 2
    then show ?thesis using assms(1) gen_key_simps(2)[of o']
      unfolding past_key_def row_evolves_def by (intro exI[of _ "Some (fo_version o')"]) auto
  qed
qed

lemma objects_evolve_map:
  "objects_evolve d d' \<Longrightarrow> map fo_id (file_objects d') = map fo_id (file_objects d) \<and>
     map fo_sha256 (file_objects d') = map fo_sha256 (file_objects d)"
  unfolding objects_evolve_def by (induction rule: list_all2_induct) (auto simp: row_evolves_def)

lemma objects_evolve_in:
  "objects_evolve d d' \<Longrightarrow> p \<in> set (file_objects d') \<Longrightarrow> \<exists>o' \<in> set (file_objects d). row_evolves o' p"
  unfolding objects_evolve_def by (metis in_set_conv_nth list_all2_conv_all_nth)

lemma objects_evolve_to:
  "objects_evolve d d' \<Longrightarrow> o' \<in> set (file_objects d) \<Longrightarrow> \<exists>p \<in> set (file_objects d'). row_evolves o' p"
  unfolding objects_evolve_def by (metis in_set_conv_nth list_all2_conv_all_nth)

lemma objects_evolve_ok:
  assumes "objects_evolve d d'" "objects_ok d"
  shows "objects_ok d'"
proof -
  have "length (fo_sha256 p) = 64 \<and> past_key p (fo_object_key p)" if m: "p \<in> set (file_objects d')" for p
  proof -
    obtain o' where "o' \<in> set (file_objects d)" "row_evolves o' p"
      using objects_evolve_in[OF assms(1) m] by blast
    then show ?thesis using assms(2) row_evolves_key[of o' p] by (auto simp: objects_ok_def row_evolves_def)
  qed
  then show ?thesis using assms(2) objects_evolve_map[OF assms(1)]
    by (simp add: objects_ok_def key_distinct_def)
qed

lemma objects_evolve_planned:
  assumes e: "objects_evolve d d'" and ok: "objects_ok d" and p: "planned_ok d pl"
  shows "planned_ok d' pl"
proof -
  obtain o' where o': "o' \<in> set (file_objects d)" "fo_id o' = fst pl" "past_key o' (snd pl)"
    "fo_status o' = ObjectReady \<longrightarrow> fo_object_key o' \<noteq> snd pl" using p by (auto simp: planned_ok_def)
  obtain q where q: "q \<in> set (file_objects d')" "row_evolves o' q" using objects_evolve_to[OF e o'(1)] by blast
  have "length (fo_sha256 o') = 64" using ok o'(1) by (auto simp: objects_ok_def)
  then have n: "snd pl \<noteq> revival_key o'" using past_key_not_revival o'(3) by blast
  have "fo_id q = fst pl" "past_key q (snd pl)"
    using q(2) o' past_key_mono[of o' "snd pl" q] by (auto simp: row_evolves_def)
  moreover have "fo_status q = ObjectReady \<longrightarrow> fo_object_key q \<noteq> snd pl"
    using q(2) o'(4) n by (auto simp: row_evolves_def)
  ultimately show ?thesis using q(1) unfolding planned_ok_def by blast
qed

lemma planned_safe:
  assumes ok: "objects_ok d" and p: "planned_ok d (oid, k)"
    and r: "r \<in> set (file_objects d)" "fo_status r = ObjectReady"
  shows "fo_object_key r \<noteq> k"
proof
  assume e: "fo_object_key r = k"
  obtain o' where o': "o' \<in> set (file_objects d)" "past_key o' k"
    "fo_status o' = ObjectReady \<longrightarrow> fo_object_key o' \<noteq> k" using p by (auto simp: planned_ok_def)
  have "past_key r k" using ok r e by (auto simp: objects_ok_def)
  then have "fo_sha256 r = fo_sha256 o'"
    using o'(1,2) r(1) ok gen_key_inj unfolding past_key_def objects_ok_def by metis
  then have "r = o'" using ok key_unique[of fo_sha256 "file_objects d" r o'] r(1) o'(1)
    by (simp add: objects_ok_def)
  then show False using o'(3) r(2) e by simp
qed

text \<open>The transactions that touch object rows, interleaved in any order with workers that have
  decided to remove bytes but not removed them yet; \<open>F\<close> collects every removal ever decided.  A
  created row carries the base key, as \<open>ensureCanonical\<close> chooses it, and content with one hash
  has one size.  Adoption is the update of \<open>registerCanonicalCleanup\<close>.\<close>

inductive gc_step :: "db \<times> (uuid \<times> string) set \<Rightarrow> db \<times> (uuid \<times> string) set \<Rightarrow> bool" where
  gs_mark: "gc_mark cx oid d = Inr (r, d') \<Longrightarrow> gc_step (d, F) (d', F)"
| gs_plan: "delete_check op d = Inr (DeleteBytes oid bucket variants k) \<Longrightarrow>
     gc_step (d, F) (d, insert (oid, k) F)"
| gs_commit: "delete_commit cx op oid d = Inr d' \<Longrightarrow> gc_step (d, F) (d', F)"
| gs_reference: "add_reference oid d = Inr d' \<Longrightarrow> gc_step (d, F) (d', F)"
| gs_release: "release_reference oid d = Inr (n, d') \<Longrightarrow> gc_step (d, F) (d', F)"
| gs_create: "create_or_get obj d = Inr (o', d') \<Longrightarrow> fo_version obj = 1 \<Longrightarrow>
     length (fo_sha256 obj) = 64 \<Longrightarrow>
     \<forall>p \<in> set (file_objects d). fo_sha256 p = fo_sha256 obj \<longrightarrow> fo_size_bytes p = fo_size_bytes obj \<Longrightarrow>
     (\<forall>p \<in> set (file_objects d). fo_sha256 p \<noteq> fo_sha256 obj) \<longrightarrow> fo_object_key obj = base_key (fo_sha256 obj) \<Longrightarrow>
     gc_step (d, F) (d', F)"
| gs_adopt: "d' = update_objects (\<lambda>o'. fo_id o' = oid)
       (\<lambda>o'. o'\<lparr>fo_status := ObjectDeleting, fo_version := fo_version o' + 1\<rparr>) d \<Longrightarrow>
     gc_step (d, F) (d', F)"
| gs_other: "file_objects d' = file_objects d \<Longrightarrow> gc_step (d, F) (d', F)"

lemma create_or_get_ok:
  assumes "create_or_get obj d = Inr (o', d')" "fo_version obj = 1" "length (fo_sha256 obj) = 64"
    and size: "\<forall>p \<in> set (file_objects d). fo_sha256 p = fo_sha256 obj \<longrightarrow> fo_size_bytes p = fo_size_bytes obj"
    and key: "(\<forall>p \<in> set (file_objects d). fo_sha256 p \<noteq> fo_sha256 obj) \<longrightarrow> fo_object_key obj = base_key (fo_sha256 obj)"
    and ok: "objects_ok d"
  shows "objects_ok d' \<and> (\<forall>pl. planned_ok d pl \<longrightarrow> planned_ok d' pl)"
proof -
  have ids: "key_distinct fo_id (file_objects d)" and v: "fo_version obj \<noteq> 0"
    using ok assms(2) by (simp_all add: objects_ok_def)
  from assms(1) v ids show ?thesis
  proof (cases rule: create_or_get_cases)
    case existing
    then show ?thesis using ok by simp
  next
    case (revived p)
    have "row_evolves r (revive_row obj r)" if "r \<in> set (file_objects d)" "fo_id r = fo_id p" for r
    proof -
      have "r = p" using key_unique[OF ids that(1) revived(1)] that(2) by simp
      then show ?thesis using revived by (simp add: row_evolves_def revive_row_def)
    qed
    then have "objects_evolve d d'" unfolding revived(7) by (intro update_objects_evolve) simp
    then show ?thesis using objects_evolve_ok objects_evolve_planned ok by blast
  next
    case created
    have new: "fo_id obj \<notin> fo_id ` set (file_objects d)" "fo_sha256 obj \<notin> fo_sha256 ` set (file_objects d)"
      using created(3) size by (auto simp: objects_collide_def)
    moreover have "past_key obj (fo_object_key obj)"
      using key new(2) gen_key_simps(1)[of "fo_sha256 obj"] unfolding past_key_def
      by (intro exI[of _ None]) (auto simp: image_iff)
    ultimately have "objects_ok d'" using ok assms(3) created(2)
      by (auto simp: objects_ok_def intro!: key_distinct_append_new)
    then show ?thesis using created(2) by (auto simp: planned_ok_def)
  qed
qed

lemma delete_check_plan:
  assumes "delete_check op d = Inr (DeleteBytes oid bucket variants k)"
  shows "so_object_id op = Some oid \<and> k = so_source_key op \<and> bucket = so_source_bucket op \<and>
    live_entries_of oid d = 0 \<and> (\<exists>o'. object_by_id oid d = Some o' \<and> fo_status o' = ObjectDeleting \<and>
      fo_object_key o' = k \<and> fo_reference_count o' \<le> 0)"
proof -
  obtain i where i: "so_object_id op = Some i" using assms by (auto simp: delete_check_def split: option.splits)
  then obtain o' where o': "object_by_id i d = Some o'"
    using assms by (auto simp: delete_check_def split: option.splits)
  show ?thesis using assms i o' by (simp add: delete_check_def split: if_split_asm)
qed

lemma gc_step_ok:
  assumes "gc_step (d, F) (d', F')" "objects_ok d" "\<forall>pl \<in> F. planned_ok d pl"
  shows "objects_ok d' \<and> (\<forall>pl \<in> F'. planned_ok d' pl)"
proof -
  have evolve: "objects_ok d' \<and> (\<forall>pl \<in> F'. planned_ok d' pl)" if "objects_evolve d d'" "F' = F"
    using that objects_evolve_ok objects_evolve_planned assms(2,3) by blast
  have ids: "key_distinct fo_id (file_objects d)" using assms(2) by (simp add: objects_ok_def)
  from assms(1) show ?thesis
  proof cases
    case (gs_mark cx oid r)
    then show ?thesis using evolve gc_mark_evolve ids by blast
  next
    case (gs_plan op oid bucket variants k)
    obtain o' where o': "object_by_id oid d = Some o'" "fo_status o' = ObjectDeleting" "fo_object_key o' = k"
      using delete_check_plan[OF gs_plan(3)] by blast
    then have "o' \<in> set (file_objects d)" "fo_id o' = oid" using object_by_id_SomeD by blast+
    then have "planned_ok d (oid, k)" using o' assms(2) by (auto simp: planned_ok_def objects_ok_def)
    then show ?thesis using gs_plan assms(2,3) by auto
  next
    case (gs_commit cx op oid)
    then show ?thesis using evolve delete_commit_evolve by blast
  next
    case (gs_reference oid)
    then show ?thesis using evolve add_reference_evolve by blast
  next
    case (gs_release oid n)
    then show ?thesis using evolve release_reference_evolve by blast
  next
    case (gs_create obj o')
    then show ?thesis using create_or_get_ok[of obj d o' d'] assms(2,3) by blast
  next
    case (gs_adopt oid)
    have "objects_evolve d d'" unfolding gs_adopt(2)
      by (intro update_objects_evolve) (simp add: row_evolves_def)
    then show ?thesis using evolve gs_adopt(1) by blast
  next
    case gs_other
    then show ?thesis using evolve objects_evolve_same by blast
  qed
qed

lemma gc_reachable_ok:
  assumes "gc_step\<^sup>*\<^sup>* s t" "objects_ok (fst s)" "\<forall>pl \<in> snd s. planned_ok (fst s) pl"
  shows "objects_ok (fst t) \<and> (\<forall>pl \<in> snd t. planned_ok (fst t) pl)"
  using assms(1)
proof (induction rule: rtranclp_induct)
  case (step t u)
  then show ?case using gc_step_ok[of "fst t" "snd t" "fst u" "snd u"] by simp
qed (use assms in simp)

text \<open>C1: A removal that garbage collection decided at any time in the past, however late it is
  carried out, never hits the bytes of an object that is ready: not after the object was
  referenced, retired, or revived with the same content.\<close>

theorem delayed_delete_spares_live_bytes:
  assumes "gc_step\<^sup>*\<^sup>* (d0, {}) (d, F)" "objects_ok d0"
    and "(oid, k) \<in> F" "o' \<in> set (file_objects d)" "fo_status o' = ObjectReady"
  shows "fo_object_key o' \<noteq> k"
  using gc_reachable_ok[OF assms(1)] assms(2-5) planned_safe by fastforce

text \<open>An object that a live entry or a counted reference needs, and steps that leave them alone.\<close>

definition needed :: "db \<Rightarrow> file_object \<Rightarrow> bool" where
  "needed d o' \<longleftrightarrow> o' \<in> set (file_objects d) \<and>
     (0 < live_entries_of (fo_id o') d \<or> 0 < fo_reference_count o')"

definition keeps_needed :: "db \<Rightarrow> db \<Rightarrow> bool" where
  "keeps_needed d d' \<longleftrightarrow> file_entries d' = file_entries d \<and>
     (key_distinct fo_id (file_objects d) \<longrightarrow> key_distinct fo_id (file_objects d')) \<and>
     (\<forall>o'. needed d o' \<longrightarrow> needed d' o')"

lemma keeps_needed_refl [simp]: "keeps_needed d d"
  by (simp add: keeps_needed_def)

lemma keeps_needed_trans: "keeps_needed d e \<Longrightarrow> keeps_needed e f \<Longrightarrow> keeps_needed d f"
  by (auto simp: keeps_needed_def)

lemma keeps_needed_same:
  "file_entries d' = file_entries d \<Longrightarrow> file_objects d' = file_objects d \<Longrightarrow> keeps_needed d d'"
  by (simp add: keeps_needed_def needed_def live_entries_of_def)

lemma keeps_needed_update:
  assumes "file_entries d' = file_entries d" "file_objects d' = update_where P g (file_objects d)"
    "\<And>o'. fo_id (g o') = fo_id o'" "\<And>o'. needed d o' \<Longrightarrow> \<not> P o'"
  shows "keeps_needed d d'"
proof -
  have "key_distinct fo_id (file_objects d')" if "key_distinct fo_id (file_objects d)"
    unfolding assms(2) using that assms(3) by (rule key_distinct_update)
  moreover have "needed d' o'" if "needed d o'" for o'
    using that assms by (auto simp: needed_def in_set_update_where live_entries_of_def)
  ultimately show ?thesis using assms(1) by (simp add: keeps_needed_def)
qed

lemma claim_rows_frame:
  "claim_rows now l mint k os d = (rs, d') \<Longrightarrow> file_entries d' = file_entries d \<and> file_objects d' = file_objects d"
  by (induction os arbitrary: k d rs d') (auto simp: Let_def split: prod.splits)

lemma stop_exhausted_frame:
  "file_entries (stop_exhausted now b l d) = file_entries d"
  "file_objects (stop_exhausted now b l d) = file_objects d"
  using stop_exhausted_eq[of now b l d] by auto

lemma claim_types_keeps: "claim_types now mint l lease ts d = Inr (rs, d') \<Longrightarrow> keeps_needed d d'"
  by (rule keeps_needed_same)
    (auto simp: claim_types_def Let_def stop_exhausted_frame split: if_splits dest: claim_rows_frame)

lemma record_error_keeps: "keeps_needed d (snd (record_error now c op e m d))"
  by (rule keeps_needed_same)
    (auto simp: record_error_def mark_failed_owned_def mark_failed_def Let_def
      split: option.splits if_splits prod.splits)

lemma mark_succeeded_owned_frame:
  "mark_succeeded_owned now i t d = Inr d' \<Longrightarrow> file_objects d' = file_objects d \<and> file_entries d' = file_entries d"
  by (auto simp: mark_succeeded_owned_def mark_succeeded_def Let_def split: if_splits option.splits)

lemma add_typed_keeps: "add_typed cx k i d = Inr d' \<Longrightarrow> file_objects d' = file_objects d \<and> file_entries d' = file_entries d"
  using add_typed_frame business_eqD by blast

lemma committed_keeps: "(\<And>d'. r = Inr d' \<Longrightarrow> keeps_needed d d') \<Longrightarrow> keeps_needed d (snd (committed d r))"
  by (cases r) (simp_all add: committed_def)

lemma delete_commit_entries: "delete_commit cx op oid d = Inr d' \<Longrightarrow> file_entries d' = file_entries d"
  unfolding delete_commit_def Let_def result_iffs if_Inl_eq_Inr_iff
  by (auto simp: result_iffs update_objects_def split: if_splits
      dest!: mark_succeeded_owned_frame add_typed_keeps)

lemma delete_commit_keeps:
  assumes "delete_commit cx op oid d = Inr d'" "key_distinct fo_id (file_objects d)"
  shows "keeps_needed d d'"
proof (cases "file_objects d' = file_objects d")
  case False
  have free: "live_entries_of oid d = 0"
    "\<And>o'. object_by_id oid d = Some o' \<Longrightarrow> fo_reference_count o' \<le> 0"
    using assms(1) by (auto simp: delete_commit_def result_iffs)
  have "\<not> (fo_id o' = oid \<and> fo_status o' = ObjectDeleting \<and> fo_reference_count o' = 0)" if "needed d o'" for o'
    using that free by (auto simp: needed_def)
  moreover have e: "file_objects d' = update_where (\<lambda>o'. fo_id o' = oid \<and> fo_status o' = ObjectDeleting \<and>
       fo_reference_count o' = 0) (\<lambda>o'. o'\<lparr>fo_status := ObjectDeleted,
         fo_deleted_at := Some (cx_now cx), fo_version := fo_version o' + 1\<rparr>) (file_objects d)"
    using delete_commit_objects[OF assms(1)] False by blast
  ultimately show ?thesis
    by (intro keeps_needed_update[OF delete_commit_entries[OF assms(1)] e]) simp_all
qed (use keeps_needed_same delete_commit_entries[OF assms(1)] in blast)

lemma perform_keeps:
  assumes "key_distinct fo_id (file_objects d)"
  shows "keeps_needed d (snd (perform_object_delete env cx op d))"
    "keeps_needed d (snd (perform_variant_delete env cx op d))"
proof -
  have ms: "keeps_needed d (snd (committed d (mark_succeeded_owned now i t d)))" for now i t
    by (rule committed_keeps) (auto intro: keeps_needed_same dest: mark_succeeded_owned_frame)
  have dc: "keeps_needed d (snd (committed d (delete_commit cx op oid d)))" for oid
    by (rule committed_keeps) (rule delete_commit_keeps[OF _ assms])
  show "keeps_needed d (snd (perform_object_delete env cx op d))"
    by (simp add: perform_object_delete_def ms dc split: sum.split delete_plan.split option.split)
  show "keeps_needed d (snd (perform_variant_delete env cx op d))"
    by (simp add: perform_variant_delete_def Let_def ms split: option.split)
qed

lemma reconcile_keeps:
  assumes "key_distinct fo_id (file_objects d)"
  shows "keeps_needed d (snd (record_failure_of env cx op (reconcile_object_delete env cx op d)))"
proof -
  have r: "keeps_needed d (snd (reconcile_object_delete env cx op d))"
    using perform_keeps[OF assms] by (simp add: reconcile_object_delete_def)
  obtain e d1 where e: "reconcile_object_delete env cx op d = (e, d1)" by fastforce
  show ?thesis using r e keeps_needed_trans[OF _ record_error_keeps, of d d1]
    by (cases e) (simp_all add: record_failure_of_def split: prod.split, metis snd_conv)
qed

lemma reconcile_deletes_keeps:
  assumes "key_distinct fo_id (file_objects d)"
  shows "keeps_needed d (snd (reconcile_object_deletes env cxs k n acc d))"
  using assms
proof (induction n arbitrary: k acc d)
  case (Suc n)
  obtain completed failures where acc: "acc = (completed, failures)" by fastforce
  show ?case
  proof (cases "sg_canceled env")
    case False
    show ?thesis
    proof (cases "claim_types (cx_now (cxs k)) (cx_mint (cxs k)) 1 (5 * minute) [ObjectDelete, VariantDelete] d")
      case (Inl e)
      then show ?thesis by (simp add: acc False Inl[simplified])
    next
      case (Inr r)
      obtain ops d1 where r: "r = (ops, d1)" by fastforce
      have k1: "keeps_needed d d1" using claim_types_keeps Inr r by blast
      then have u1: "key_distinct fo_id (file_objects d1)" using Suc.prems by (simp add: keeps_needed_def)
      show ?thesis
      proof (cases ops)
        case (Cons op os)
        obtain e d2 where e: "record_failure_of env (cxs k) op (reconcile_object_delete env (cxs k) op d1) = (e, d2)"
          by fastforce
        have k2: "keeps_needed d1 d2" using reconcile_keeps[OF u1, of env "cxs k" op] e by simp
        then have u2: "key_distinct fo_id (file_objects d2)" using u1 by (simp add: keeps_needed_def)
        have k: "keeps_needed d d2" using keeps_needed_trans[OF k1 k2] .
        show ?thesis
          using keeps_needed_trans[OF k Suc.IH[OF u2]] by (cases e) (simp_all add: acc False Inr[simplified] r Cons e)
      qed (simp add: acc False Inr[simplified] r k1)
    qed
  qed (simp add: acc)
qed simp

text \<open>Object garbage collection never touches an object that a live entry or a counted
  reference needs: after a whole maintenance pass, whatever the storage answers, every such row is
  there unchanged and no entry has changed.\<close>

theorem gc_keeps_needed_objects:
  assumes "key_distinct fo_id (file_objects d)" "o' \<in> set (file_objects d)"
    "0 < live_entries_of (fo_id o') d \<or> 0 < fo_reference_count o'"
    "reconcile_object_deletes env cxs k n acc d = (out, d')"
  shows "o' \<in> set (file_objects d') \<and> file_entries d' = file_entries d"
  using reconcile_deletes_keeps[OF assms(1), of env cxs k n acc] assms(2-4)
  by (auto simp: keeps_needed_def needed_def)

section \<open>Witnesses\<close>

definition sample_sha :: "char \<Rightarrow> string" where "sample_sha c = replicate 64 c"

definition sample_object :: "uuid \<Rightarrow> char \<Rightarrow> object_status \<Rightarrow> int \<Rightarrow> file_object" where
  "sample_object i c st refs = \<lparr> fo_id = i, fo_sha256 = sample_sha c, fo_size_bytes = 10,
     fo_mime_type = ''text/plain'', fo_bucket = ''b'', fo_object_key = base_key (sample_sha c),
     fo_status = st, fo_reference_count = refs, fo_version = 3, fo_verified_at = Some 1,
     fo_deleted_at = None \<rparr>"

definition sample_delete_op :: operation where
  "sample_delete_op = (operation_of_input 9 1 \<lparr> oi_id = 0, oi_operation_type = ObjectDelete,
     oi_idempotency_key = ''k'', oi_upload_session_id = None, oi_object_id = Some 1,
     oi_source_bucket = ''b'', oi_source_key = base_key (sample_sha CHR ''a''), oi_target_bucket = [],
     oi_target_key = [], oi_storage_upload_id = [] \<rparr>)\<lparr>so_state := OpRunning, so_lease_token := Some 4\<rparr>"

definition sample_gc_db :: db where
  "sample_gc_db = empty_db\<lparr>file_objects := [sample_object 1 CHR ''a'' ObjectDeleting 0,
      sample_object 2 CHR ''b'' ObjectReady 1], storage_operations := [sample_delete_op]\<rparr>"

lemma sample_gc_ok: "objects_ok sample_gc_db"
proof -
  have p: "past_key (sample_object i c st r) (base_key (sample_sha c))" for i c st r
    unfolding past_key_def by (intro exI[of _ None]) (simp add: gen_key_simps sample_object_def)
  show ?thesis using p
    by (simp add: objects_ok_def sample_gc_db_def empty_db_def key_distinct_def)
      (simp add: sample_object_def sample_sha_def)
qed

lemma sample_gc_plan:
  "delete_check sample_delete_op sample_gc_db =
     Inr (DeleteBytes 1 ''b'' [] (base_key (sample_sha CHR ''a'')))"
  by (simp add: delete_check_def sample_delete_op_def operation_of_input_def sample_gc_db_def empty_db_def
      object_by_id_def sample_object_def live_entries_of_def exists_where_def)

lemma delayed_delete_spares_live_bytes_witness:
  "fo_object_key (sample_object 2 CHR ''b'' ObjectReady 1) \<noteq> base_key (sample_sha CHR ''a'')"
  by (rule delayed_delete_spares_live_bytes[OF r_into_rtranclp[where r = gc_step, OF gs_plan[OF sample_gc_plan, of "{}"]] sample_gc_ok])
    (simp_all add: sample_gc_db_def sample_object_def)

lemma gc_keeps_needed_objects_witness:
  "sample_object 2 CHR ''b'' ObjectReady 1 \<in> set (file_objects (snd (reconcile_object_deletes
     \<lparr> sg_remove = (\<lambda>b k. None), sg_canceled = False, sg_error_text = (\<lambda>e. ''e'') \<rparr> (\<lambda>k. sample_ctx)
     0 3 (0, None) sample_gc_db)))"
  by (rule gc_keeps_needed_objects[OF _ _ _ prod.collapse[symmetric], THEN conjunct1])
    (simp_all add: sample_gc_db_def sample_object_def key_distinct_def empty_db_def)

end
