(* ===== verification/Quota.thy ===== *)
theory Quota
  imports Database
begin

text \<open>
  The quota interface that uploads, the drive and sharing call (\<open>upload.Quota\<close>,
  \<open>drive.LogicalUsage\<close>, \<open>sharing.Quota\<close>) as a locale, and the lemmas its clients use.  The
  provider is \<open>identity.Service\<close>, interpreted in \<open>Identity\<close>.
\<close>

locale quota_contract =
  fixes reserve :: "uuid \<Rightarrow> int \<Rightarrow> db \<Rightarrow> db result"
    and release :: "uuid \<Rightarrow> int \<Rightarrow> db \<Rightarrow> db result"
    and commit :: "uuid \<Rightarrow> int \<Rightarrow> int \<Rightarrow> db \<Rightarrow> db result"
    and add_usage :: "uuid \<Rightarrow> int \<Rightarrow> db \<Rightarrow> db result"
    and remove_usage :: "uuid \<Rightarrow> int \<Rightarrow> db \<Rightarrow> db result"
    and reserved :: "db \<Rightarrow> uuid \<Rightarrow> int"
    and used :: "db \<Rightarrow> uuid \<Rightarrow> int"
    and inv :: "db \<Rightarrow> bool"
  assumes reserve_law: "inv d \<Longrightarrow> 0 \<le> n \<Longrightarrow> reserve u n d = Inr d' \<Longrightarrow>
      inv d' \<and> reserved d' = (reserved d)(u := reserved d u + n) \<and> used d' = used d"
    and release_law: "inv d \<Longrightarrow> 0 \<le> n \<Longrightarrow> n \<le> reserved d u \<Longrightarrow> release u n d = Inr d' \<Longrightarrow>
      inv d' \<and> reserved d' = (reserved d)(u := reserved d u - n) \<and> used d' = used d"
    and commit_law: "inv d \<Longrightarrow> 0 \<le> n \<Longrightarrow> n \<le> reserved d u \<Longrightarrow> 0 \<le> m \<Longrightarrow>
      commit u n m d = Inr d' \<Longrightarrow> inv d' \<and> (0 < n \<longrightarrow> reserved d' = (reserved d)(u := reserved d u - n)) \<and>
      (0 < n \<longrightarrow> used d' = (used d)(u := used d u + m))"
    and add_law: "inv d \<Longrightarrow> 0 \<le> n \<Longrightarrow> add_usage u n d = Inr d' \<Longrightarrow>
      inv d' \<and> reserved d' = reserved d \<and> used d' = (used d)(u := used d u + n)"
    and remove_law: "inv d \<Longrightarrow> 0 \<le> n \<Longrightarrow> n \<le> used d u \<Longrightarrow> remove_usage u n d = Inr d' \<Longrightarrow>
      inv d' \<and> reserved d' = reserved d \<and> used d' = (used d)(u := used d u - n)"
begin

text \<open>A reservation given back leaves the accounts as they were; a reservation committed in full
  has moved the bytes from reserved to used.\<close>

lemma reserve_release:
  assumes "inv d" "0 \<le> n" "0 \<le> reserved d u" "reserve u n d = Inr d1" "release u n d1 = Inr d2"
  shows "inv d2 \<and> reserved d2 = reserved d \<and> used d2 = used d"
  using reserve_law[OF assms(1,2,4)] release_law[of d1 n u d2] assms by auto

lemma reserve_commit:
  assumes "inv d" "0 < n" "0 \<le> reserved d u" "reserve u n d = Inr d1" "commit u n n d1 = Inr d2"
  shows "inv d2 \<and> reserved d2 = reserved d \<and> used d2 = (used d)(u := used d u + n)"
  using reserve_law[OF assms(1) _ assms(4)] commit_law[of d1 n u n d2] assms by auto

lemma add_remove:
  assumes "inv d" "0 \<le> n" "0 \<le> used d u" "add_usage u n d = Inr d1" "remove_usage u n d1 = Inr d2"
  shows "inv d2 \<and> reserved d2 = reserved d \<and> used d2 = used d"
  using add_law[OF assms(1,2,4)] remove_law[of d1 n u d2] assms by auto

end

end
