(* ===== verification/Identity.thy ===== *)
theory Identity
  imports Quota
begin

text \<open>
  \<open>identity/service.go\<close>: registration, login, refresh-token rotation with replay detection, and
  the quota accounts of a user.  Password hashing, token signing and SHA-256 are libraries outside
  the repository; \<open>identity_env\<close> carries their results as functions.
\<close>

record identity_env =
  ie_hash_password :: "gotext \<Rightarrow> string result"
  ie_verify_password :: "string \<Rightarrow> gotext \<Rightarrow> bool"
  ie_access_token :: "uuid \<Rightarrow> string result"
  ie_access_ttl :: time
  ie_refresh_token :: "string result"
  ie_refresh_hash :: "string \<Rightarrow> string"
  ie_refresh_ttl :: time
  ie_default_quota_bytes :: int

record session =
  ss_user :: user
  ss_access_token :: string
  ss_access_expires :: time
  ss_refresh_token :: string
  ss_refresh_expiry :: time

section \<open>Sessions\<close>

definition issue_session ::
  "identity_env \<Rightarrow> time \<Rightarrow> uuid \<Rightarrow> user \<Rightarrow> uuid \<Rightarrow> db \<Rightarrow> (session \<times> db) result" where
  "issue_session env now fresh u family d =
     attempt (ie_access_token env (u_id u)) (\<lambda>access.
     attempt (ie_refresh_token env) (\<lambda>raw.
       let expiry = now + ie_refresh_ttl env in
       attempt (insert_refresh
         \<lparr> rs_id = fresh, rs_user_id = u_id u, rs_token_hash = ie_refresh_hash env raw,
           rs_family_id = family, rs_expires_at = expiry, rs_revoked_at = None \<rparr> d) (\<lambda>d'.
       Inr (\<lparr> ss_user = u, ss_access_token = access, ss_access_expires = now + ie_access_ttl env,
              ss_refresh_token = raw, ss_refresh_expiry = expiry \<rparr>, d'))))"

definition contains_any :: "rune list \<Rightarrow> gotext \<Rightarrow> bool" where
  "contains_any cs s \<longleftrightarrow> list_ex (\<lambda>r. r \<in> set cs) s"

text \<open>The characters \<open>/\<close>, \<open>\\\<close> and NUL that names may not contain.\<close>

definition forbidden_runes :: "rune list" where "forbidden_runes = [47, 92, 0]"

text \<open>\<open>provision\<close> is the injected \<open>UserProvisioner\<close>; identifiers are taken in call order.\<close>

definition register ::
  "identity_env \<Rightarrow> (uuid \<Rightarrow> db \<Rightarrow> db result) \<Rightarrow> ctx \<Rightarrow> gotext \<Rightarrow> gotext \<Rightarrow> gotext \<Rightarrow> db \<Rightarrow>
   (session \<times> db) result" where
  "register env provision cx username0 email password d =
     (let username = trim_space username0;
          normalized = to_lower username;
          mail = to_lower (trim_space email) in
      if utf8_len username < 3 \<or> utf8_len username > 64 \<or> contains_any forbidden_runes username
        then Inl IdentityInvalidInput
      else if utf8_len password < 10 \<or> utf8_len password > 1024 then Inl IdentityWeakPassword
      else attempt (on_error (\<lambda>e. ErrWrap e ''hash password'') (ie_hash_password env password)) (\<lambda>hash.
        if mail \<noteq> [] \<and> (utf8_len mail > 254 \<or> \<not> contains_any [64] mail)
          then Inl IdentityInvalidInput
        else
          let email_normalized = (if mail = [] then None else Some mail);
              identifiers = normalized #
                (case email_normalized of None \<Rightarrow> []
                 | Some m \<Rightarrow> if m = normalized then [] else [m]);
              u = \<lparr> u_id = cx_mint cx 0, u_username = username,
                    u_username_normalized = normalized, u_email_normalized = email_normalized,
                    u_password_hash = hash, u_status = UserActive,
                    u_quota_bytes = ie_default_quota_bytes env,
                    u_used_logical_bytes = 0, u_reserved_bytes = 0 \<rparr>
          in if exists_where (\<lambda>v. u_username_normalized v \<in> set identifiers \<or>
                  (\<exists>m \<in> set identifiers. u_email_normalized v = Some m)) (users d)
             then Inl IdentityConflict
             else attempt (on_error (duplicated_as IdentityConflict) (insert_user u d)) (\<lambda>d1.
                  attempt (provision (u_id u) d1) (\<lambda>d2.
                  issue_session env (cx_now cx) (cx_mint cx 2) u (cx_mint cx 1) d2))))"

definition login_candidates :: "identity_env \<Rightarrow> gotext \<Rightarrow> gotext \<Rightarrow> db \<Rightarrow> user list" where
  "login_candidates env normalized password d =
     filter (\<lambda>u. ie_verify_password env (u_password_hash u) password)
       (filter (\<lambda>u. u_username_normalized u = normalized \<or> u_email_normalized u = Some normalized)
         (users d))"

definition login :: "identity_env \<Rightarrow> ctx \<Rightarrow> gotext \<Rightarrow> gotext \<Rightarrow> db \<Rightarrow> (session \<times> db) result" where
  "login env cx name password d =
     (if utf8_len name = 0 \<or> utf8_len name > 254 \<or> utf8_len password = 0 \<or> utf8_len password > 1024
        then Inl IdentityUnauthorized
      else case login_candidates env (to_lower (trim_space name)) password d of
        [u] \<Rightarrow> if u_status u \<noteq> UserActive then Inl IdentityDisabled
               else issue_session env (cx_now cx) (cx_mint cx 1) u (cx_mint cx 0) d
      | _ \<Rightarrow> Inl IdentityUnauthorized)"

text \<open>\<open>Rotate\<close> commits the family revocation before it reports the replay, so the result is the
  session or error beside the database.\<close>

definition revoke_family :: "time \<Rightarrow> uuid \<Rightarrow> db \<Rightarrow> db" where
  "revoke_family now family d =
     d\<lparr>refresh_sessions := update_where (\<lambda>r. rs_family_id r = family \<and> rs_revoked_at r = None)
         (\<lambda>r. r\<lparr>rs_revoked_at := Some now\<rparr>) (refresh_sessions d)\<rparr>"

definition user_by_id :: "uuid \<Rightarrow> db \<Rightarrow> user option" where
  "user_by_id i d = find (\<lambda>u. u_id u = i) (users d)"

definition rotate :: "identity_env \<Rightarrow> ctx \<Rightarrow> string \<Rightarrow> db \<Rightarrow> session result \<times> db" where
  "rotate env cx raw d =
     (if raw = [] then (Inl IdentityUnauthorized, d)
      else case find (\<lambda>r. rs_token_hash r = ie_refresh_hash env raw) (refresh_sessions d) of
        None \<Rightarrow> (Inl IdentityUnauthorized, d)
      | Some current \<Rightarrow>
          let now = cx_now cx in
          if rs_revoked_at current \<noteq> None
            then (Inl IdentityUnauthorized, revoke_family now (rs_family_id current) d)
          else if \<not> now < rs_expires_at current then (Inl IdentityUnauthorized, d)
          else let d1 = d\<lparr>refresh_sessions := update_where (\<lambda>r. rs_id r = rs_id current)
                        (\<lambda>r. r\<lparr>rs_revoked_at := Some now\<rparr>) (refresh_sessions d)\<rparr>
            in case user_by_id (rs_user_id current) d1 of
              None \<Rightarrow> (Inl IdentityUnauthorized, d)
            | Some u \<Rightarrow>
                if u_status u \<noteq> UserActive then (Inl IdentityUnauthorized, d)
                else case issue_session env now (cx_mint cx 0) u (rs_family_id current) d1 of
                  Inl e \<Rightarrow> (Inl e, d)
                | Inr (s, d2) \<Rightarrow> (Inr s, d2))"

definition logout :: "identity_env \<Rightarrow> time \<Rightarrow> string \<Rightarrow> db \<Rightarrow> db" where
  "logout env now raw d =
     (if raw = [] then d
      else d\<lparr>refresh_sessions := update_where
             (\<lambda>r. rs_token_hash r = ie_refresh_hash env raw \<and> rs_revoked_at r = None)
             (\<lambda>r. r\<lparr>rs_revoked_at := Some now\<rparr>) (refresh_sessions d)\<rparr>)"

definition get_user :: "uuid \<Rightarrow> db \<Rightarrow> user result" where
  "get_user i d = found IdentityUnauthorized
     (find (\<lambda>u. u_id u = i \<and> u_status u = UserActive) (users d))"

section \<open>Quota accounts\<close>

definition exactly_one :: "(nat \<times> db) result \<Rightarrow> db result" where
  "exactly_one r = attempt r (\<lambda>(n, d'). if n \<noteq> 1 then Inl IdentityConflict else Inr d')"

definition reserve_quota :: "uuid \<Rightarrow> int \<Rightarrow> db \<Rightarrow> db result" where
  "reserve_quota i amount d = exactly_one (update_users
     (\<lambda>u. u_id u = i \<and> u_status u = UserActive \<and>
          u_used_logical_bytes u + u_reserved_bytes u + amount \<le> u_quota_bytes u)
     (\<lambda>u. u\<lparr>u_reserved_bytes := u_reserved_bytes u + amount\<rparr>) d)"

definition release_quota :: "uuid \<Rightarrow> int \<Rightarrow> db \<Rightarrow> db result" where
  "release_quota i reserved d = attempt (update_users (\<lambda>u. u_id u = i)
     (\<lambda>u. u\<lparr>u_reserved_bytes := max (u_reserved_bytes u - reserved) 0\<rparr>) d) (\<lambda>(n, d'). Inr d')"

definition commit_quota :: "uuid \<Rightarrow> int \<Rightarrow> int \<Rightarrow> db \<Rightarrow> db result" where
  "commit_quota i reserved logical d = attempt (update_users (\<lambda>u. u_id u = i)
     (\<lambda>u. u\<lparr>u_reserved_bytes := max (u_reserved_bytes u - reserved) 0,
            u_used_logical_bytes := u_used_logical_bytes u + logical\<rparr>) d) (\<lambda>(n, d'). Inr d')"

definition add_logical_usage :: "uuid \<Rightarrow> int \<Rightarrow> db \<Rightarrow> db result" where
  "add_logical_usage i amount d = exactly_one (update_users
     (\<lambda>u. u_id u = i \<and> u_used_logical_bytes u + u_reserved_bytes u + amount \<le> u_quota_bytes u)
     (\<lambda>u. u\<lparr>u_used_logical_bytes := u_used_logical_bytes u + amount\<rparr>) d)"

definition remove_logical_usage :: "uuid \<Rightarrow> int \<Rightarrow> db \<Rightarrow> db result" where
  "remove_logical_usage i amount d = attempt (update_users (\<lambda>u. u_id u = i)
     (\<lambda>u. u\<lparr>u_used_logical_bytes := max (u_used_logical_bytes u - amount) 0\<rparr>) d) (\<lambda>(n, d'). Inr d')"

section \<open>Quota lemmas\<close>

definition reserved_of :: "db \<Rightarrow> uuid \<Rightarrow> int" where
  "reserved_of d i = (case user_by_id i d of None \<Rightarrow> 0 | Some u \<Rightarrow> u_reserved_bytes u)"

definition used_of :: "db \<Rightarrow> uuid \<Rightarrow> int" where
  "used_of d i = (case user_by_id i d of None \<Rightarrow> 0 | Some u \<Rightarrow> u_used_logical_bytes u)"

definition users_ok :: "db \<Rightarrow> bool" where
  "users_ok d \<longleftrightarrow> key_distinct u_id (users d) \<and> (\<forall>u \<in> set (users d). user_check u)"

text \<open>The quota functions write nothing but the accounts of the table \<open>users\<close>.\<close>

definition user_profile :: "user \<Rightarrow> uuid \<times> gotext \<times> gotext option \<times> user_status \<times> int" where
  "user_profile u = (u_id u, u_username_normalized u, u_email_normalized u, u_status u, u_quota_bytes u)"

definition quota_only :: "db \<Rightarrow> db \<Rightarrow> bool" where
  "quota_only d d' \<longleftrightarrow> d'\<lparr>users := []\<rparr> = d\<lparr>users := []\<rparr> \<and>
     map user_profile (users d') = map user_profile (users d)"

lemma exactly_one_eq [simp]:
  "exactly_one (update_users P g d) = Inr d' \<longleftrightarrow>
     count_where P (users d) = 1 \<and> \<not> exists_where (\<lambda>u. P u \<and> \<not> user_check (g u)) (users d) \<and>
     d' = d\<lparr>users := update_where P g (users d)\<rparr>"
  by (auto simp: exactly_one_def update_users_def attempt_def split: sum.splits)

lemma attempt_update_users_eq [simp]:
  "attempt (update_users P g d) (\<lambda>(n, d'). Inr d') = Inr d' \<longleftrightarrow>
     \<not> exists_where (\<lambda>u. P u \<and> \<not> user_check (g u)) (users d) \<and>
     d' = d\<lparr>users := update_where P g (users d)\<rparr>"
  by (auto simp: update_users_def attempt_def split: sum.splits)

lemmas quota_defs = reserve_quota_def release_quota_def commit_quota_def add_logical_usage_def
  remove_logical_usage_def

lemma quota_ops_frame:
  "reserve_quota i n d = Inr d' \<Longrightarrow> quota_only d d'"
  "release_quota i n d = Inr d' \<Longrightarrow> quota_only d d'"
  "commit_quota i n m d = Inr d' \<Longrightarrow> quota_only d d'"
  "add_logical_usage i n d = Inr d' \<Longrightarrow> quota_only d d'"
  "remove_logical_usage i n d = Inr d' \<Longrightarrow> quota_only d d'"
  by (auto simp: quota_defs quota_only_def map_update_where user_profile_def)

lemma update_users_ok:
  assumes "users_ok d" "\<not> exists_where (\<lambda>u. P u \<and> \<not> user_check (g u)) (users d)"
    "\<And>u. u_id (g u) = u_id u"
  shows "users_ok (d\<lparr>users := update_where P g (users d)\<rparr>)"
  using assms by (auto simp: users_ok_def table_simps in_set_update_where intro!: key_distinct_update)

lemma user_by_id_update:
  "(\<And>u. u_id (g u) = u_id u) \<Longrightarrow>
   user_by_id i (d\<lparr>users := update_where P g (users d)\<rparr>) =
     map_option (\<lambda>u. if P u then g u else u) (user_by_id i d)"
  by (simp add: user_by_id_def find_update_by_key)

lemma user_by_id_id: "user_by_id i d = Some u \<Longrightarrow> u_id u = i"
  unfolding user_by_id_def by (drule find_SomeD) simp

lemma user_by_id_mem: "user_by_id i d = Some u \<Longrightarrow> u \<in> set (users d)"
  unfolding user_by_id_def by (drule find_SomeD) simp

lemma count_user_one:
  assumes "users_ok d" "count_where (\<lambda>u. u_id u = i \<and> Q u) (users d) = 1"
  obtains u where "user_by_id i d = Some u" "Q u"
proof -
  have "count_where (\<lambda>u. u_id u = i \<and> Q u) (users d) =
      (case user_by_id i d of None \<Rightarrow> 0 | Some u \<Rightarrow> if Q u then 1 else 0)"
    unfolding user_by_id_def using assms(1) by (intro count_where_by_key) (simp add: users_ok_def)
  then have "\<exists>u. user_by_id i d = Some u \<and> Q u"
    using assms(2) by (auto simp del: One_nat_def split: option.splits if_splits)
  then show ?thesis using that by blast
qed

text \<open>The accounts after a guarded update of one user.\<close>

lemma accounts_update:
  assumes "\<And>u. u_id (g u) = u_id u"
  shows "reserved_of (d\<lparr>users := update_where (\<lambda>u. u_id u = i \<and> Q u) g (users d)\<rparr>) j =
      (case user_by_id j d of None \<Rightarrow> 0 | Some u \<Rightarrow>
         if j = i \<and> Q u then u_reserved_bytes (g u) else u_reserved_bytes u)"
    "used_of (d\<lparr>users := update_where (\<lambda>u. u_id u = i \<and> Q u) g (users d)\<rparr>) j =
      (case user_by_id j d of None \<Rightarrow> 0 | Some u \<Rightarrow>
         if j = i \<and> Q u then u_used_logical_bytes (g u) else u_used_logical_bytes u)"
proof -
  show "reserved_of (d\<lparr>users := update_where (\<lambda>u. u_id u = i \<and> Q u) g (users d)\<rparr>) j =
      (case user_by_id j d of None \<Rightarrow> 0 | Some u \<Rightarrow>
         if j = i \<and> Q u then u_reserved_bytes (g u) else u_reserved_bytes u)"
    unfolding reserved_of_def user_by_id_update[OF assms]
    by (auto split: option.split dest: user_by_id_id)
  show "used_of (d\<lparr>users := update_where (\<lambda>u. u_id u = i \<and> Q u) g (users d)\<rparr>) j =
      (case user_by_id j d of None \<Rightarrow> 0 | Some u \<Rightarrow>
         if j = i \<and> Q u then u_used_logical_bytes (g u) else u_used_logical_bytes u)"
    unfolding used_of_def user_by_id_update[OF assms]
    by (auto split: option.split dest: user_by_id_id)
qed

lemmas accounts_update_all = accounts_update[where Q = "\<lambda>_. True", simplified]

lemma quota_step:
  assumes ok: "users_ok d" and u: "count_where (\<lambda>u. u_id u = i \<and> Q u) (users d) = 1"
    and g: "\<And>u. u_id (g u) = u_id u"
  shows "\<exists>u. user_by_id i d = Some u \<and> Q u \<and>
    reserved_of (d\<lparr>users := update_where (\<lambda>u. u_id u = i \<and> Q u) g (users d)\<rparr>) =
      (reserved_of d)(i := u_reserved_bytes (g u)) \<and>
    used_of (d\<lparr>users := update_where (\<lambda>u. u_id u = i \<and> Q u) g (users d)\<rparr>) =
      (used_of d)(i := u_used_logical_bytes (g u))"
proof -
  obtain u where u: "user_by_id i d = Some u" "Q u" using count_user_one[OF ok u] by blast
  have "reserved_of (d\<lparr>users := update_where (\<lambda>u. u_id u = i \<and> Q u) g (users d)\<rparr>) =
      (reserved_of d)(i := u_reserved_bytes (g u))"
    unfolding fun_eq_iff accounts_update[OF g] by (auto simp: u reserved_of_def split: option.splits)
  moreover have "used_of (d\<lparr>users := update_where (\<lambda>u. u_id u = i \<and> Q u) g (users d)\<rparr>) =
      (used_of d)(i := u_used_logical_bytes (g u))"
    unfolding fun_eq_iff accounts_update[OF g] by (auto simp: u used_of_def split: option.splits)
  ultimately show ?thesis using u by blast
qed

lemma reserve_quota_law:
  assumes ok: "users_ok d" and r: "reserve_quota i n d = Inr d'"
  shows "users_ok d' \<and> reserved_of d' = (reserved_of d)(i := reserved_of d i + n) \<and> used_of d' = used_of d"
proof -
  let ?Q = "\<lambda>u. u_status u = UserActive \<and>
          u_used_logical_bytes u + u_reserved_bytes u + n \<le> u_quota_bytes u"
  let ?g = "\<lambda>u. u\<lparr>u_reserved_bytes := u_reserved_bytes u + n\<rparr>"
  have c: "count_where (\<lambda>u. u_id u = i \<and> ?Q u) (users d) = 1"
    and d': "d' = d\<lparr>users := update_where (\<lambda>u. u_id u = i \<and> ?Q u) ?g (users d)\<rparr>"
    and e: "\<not> exists_where (\<lambda>u. (u_id u = i \<and> ?Q u) \<and> \<not> user_check (?g u)) (users d)"
    using r by (simp_all add: reserve_quota_def)
  have "users_ok d'" unfolding d' by (rule update_users_ok[OF ok e]) simp
  moreover obtain u where "user_by_id i d = Some u"
    "reserved_of d' = (reserved_of d)(i := u_reserved_bytes (?g u))"
    "used_of d' = (used_of d)(i := u_used_logical_bytes (?g u))"
    using quota_step[OF ok c, of ?g] unfolding d' by auto
  ultimately show ?thesis by (auto simp: reserved_of_def used_of_def)
qed

lemma add_usage_law:
  assumes ok: "users_ok d" and r: "add_logical_usage i n d = Inr d'"
  shows "users_ok d' \<and> reserved_of d' = reserved_of d \<and> used_of d' = (used_of d)(i := used_of d i + n)"
proof -
  let ?Q = "\<lambda>u. u_used_logical_bytes u + u_reserved_bytes u + n \<le> u_quota_bytes u"
  let ?g = "\<lambda>u. u\<lparr>u_used_logical_bytes := u_used_logical_bytes u + n\<rparr>"
  have c: "count_where (\<lambda>u. u_id u = i \<and> ?Q u) (users d) = 1"
    and d': "d' = d\<lparr>users := update_where (\<lambda>u. u_id u = i \<and> ?Q u) ?g (users d)\<rparr>"
    and e: "\<not> exists_where (\<lambda>u. (u_id u = i \<and> ?Q u) \<and> \<not> user_check (?g u)) (users d)"
    using r by (simp_all add: add_logical_usage_def)
  have "users_ok d'" unfolding d' by (rule update_users_ok[OF ok e]) simp
  moreover obtain u where "user_by_id i d = Some u"
    "reserved_of d' = (reserved_of d)(i := u_reserved_bytes (?g u))"
    "used_of d' = (used_of d)(i := u_used_logical_bytes (?g u))"
    using quota_step[OF ok c, of ?g] unfolding d' by auto
  ultimately show ?thesis by (auto simp: reserved_of_def used_of_def)
qed

text \<open>An update of the account without a guard: the user may be missing.\<close>

lemma account_update_law:
  assumes ok: "users_ok d" and g: "\<And>u. u_id (g u) = u_id u"
    and r: "attempt (update_users (\<lambda>u. u_id u = i) g d) (\<lambda>(n, d'). Inr d') = Inr d'"
  shows "users_ok d' \<and>
    reserved_of d' = (reserved_of d)(i := (case user_by_id i d of None \<Rightarrow> 0 | Some u \<Rightarrow> u_reserved_bytes (g u))) \<and>
    used_of d' = (used_of d)(i := (case user_by_id i d of None \<Rightarrow> 0 | Some u \<Rightarrow> u_used_logical_bytes (g u)))"
proof -
  have d': "d' = d\<lparr>users := update_where (\<lambda>u. u_id u = i) g (users d)\<rparr>"
    and e: "\<not> exists_where (\<lambda>u. u_id u = i \<and> \<not> user_check (g u)) (users d)"
    using r by simp_all
  have "users_ok d'" unfolding d' by (rule update_users_ok[OF ok e g])
  moreover have "reserved_of d' = (reserved_of d)(i := (case user_by_id i d of None \<Rightarrow> 0 | Some u \<Rightarrow> u_reserved_bytes (g u)))"
    unfolding d' fun_eq_iff accounts_update_all[OF g] by (auto simp: reserved_of_def split: option.splits)
  moreover have "used_of d' = (used_of d)(i := (case user_by_id i d of None \<Rightarrow> 0 | Some u \<Rightarrow> u_used_logical_bytes (g u)))"
    unfolding d' fun_eq_iff accounts_update_all[OF g] by (auto simp: used_of_def split: option.splits)
  ultimately show ?thesis by blast
qed

interpretation identity_quota: quota_contract reserve_quota release_quota commit_quota
  add_logical_usage remove_logical_usage reserved_of used_of users_ok
proof (unfold_locales, goal_cases)
  case (1 d n u d')
  then show ?case using reserve_quota_law by blast
next
  case (2 d n u d')
  then show ?case using account_update_law[OF 2(1) _ 2(4)[unfolded release_quota_def]]
    by (auto simp: reserved_of_def used_of_def fun_eq_iff split: option.splits)
next
  case (3 d n u m d')
  then show ?case using account_update_law[OF 3(1) _ 3(5)[unfolded commit_quota_def]]
    by (auto simp: reserved_of_def used_of_def fun_eq_iff split: option.splits)
next
  case (4 d n u d')
  then show ?case using add_usage_law by blast
next
  case (5 d n u d')
  then show ?case using account_update_law[OF 5(1) _ 5(4)[unfolded remove_logical_usage_def]]
    by (auto simp: reserved_of_def used_of_def fun_eq_iff split: option.splits)
qed

text \<open>The accounts never leave the bounds of the CHECK constraint.\<close>

lemma users_ok_bounds:
  assumes "users_ok d"
  shows "0 \<le> reserved_of d i" "0 \<le> used_of d i"
    "user_by_id i d = Some u \<Longrightarrow> used_of d i + reserved_of d i \<le> u_quota_bytes u"
proof -
  have "user_check u" if "user_by_id i d = Some u" for u
    using assms user_by_id_mem[OF that] by (simp add: users_ok_def)
  then show "0 \<le> reserved_of d i" "0 \<le> used_of d i"
    "user_by_id i d = Some u \<Longrightarrow> used_of d i + reserved_of d i \<le> u_quota_bytes u"
    by (auto simp: reserved_of_def used_of_def user_check_def split: option.splits)
qed

section \<open>Token families\<close>

text \<open>At most one session of a family is live, and session identifiers and token hashes are
  unique.\<close>

definition live_in :: "uuid \<Rightarrow> refresh_session \<Rightarrow> bool" where
  "live_in f r \<longleftrightarrow> rs_family_id r = f \<and> rs_revoked_at r = None"

definition sessions_ok :: "db \<Rightarrow> bool" where
  "sessions_ok d \<longleftrightarrow> key_distinct rs_id (refresh_sessions d) \<and>
     key_distinct rs_token_hash (refresh_sessions d) \<and>
     (\<forall>f. count_where (live_in f) (refresh_sessions d) \<le> 1)"

text \<open>What clients can do to the sessions; a fresh family identifier is one no session has.\<close>

inductive auth_step :: "db \<Rightarrow> db \<Rightarrow> bool" where
  auth_login: "login env cx name password d = Inr (s, d') \<Longrightarrow>
     (\<forall>r \<in> set (refresh_sessions d). rs_family_id r \<noteq> cx_mint cx 0) \<Longrightarrow> auth_step d d'"
| auth_rotate: "rotate env cx raw d = (res, d') \<Longrightarrow> auth_step d d'"
| auth_logout: "logout env now raw d = d' \<Longrightarrow> auth_step d d'"

lemma issue_session_eq:
  assumes "issue_session env now i u f d = Inr (s, d')"
  shows "\<exists>h e. d' = d\<lparr>refresh_sessions := refresh_sessions d @
      [\<lparr>rs_id = i, rs_user_id = u_id u, rs_token_hash = h, rs_family_id = f, rs_expires_at = e,
        rs_revoked_at = None\<rparr>]\<rparr> \<and>
      (\<forall>r \<in> set (refresh_sessions d). rs_id r \<noteq> i \<and> rs_token_hash r \<noteq> h) \<and>
      h = ie_refresh_hash env (ss_refresh_token s) \<and> e = ss_refresh_expiry s \<and> ss_user s = u"
  using assms
  by (auto simp: issue_session_def attempt_def insert_refresh_def table_simps Let_def
      split: sum.splits if_splits)

lemma revoke_sessions_ok:
  assumes "sessions_ok d"
  shows "sessions_ok (d\<lparr>refresh_sessions := update_where P (\<lambda>r. r\<lparr>rs_revoked_at := Some t\<rparr>)
    (refresh_sessions d)\<rparr>)"
proof -
  have "count_where (live_in f) (update_where P (\<lambda>r. r\<lparr>rs_revoked_at := Some t\<rparr>) rs) \<le>
      count_where (live_in f) rs" for f rs
    by (induction rs) (auto simp: live_in_def)
  with assms show ?thesis unfolding sessions_ok_def
    by (auto intro!: key_distinct_update intro: order_trans)
qed

lemma issue_sessions_ok:
  assumes ok: "sessions_ok d" and no: "\<forall>r \<in> set (refresh_sessions d). \<not> live_in f r"
    and i: "issue_session env now i u f d = Inr (s, d')"
  shows "sessions_ok d'"
proof -
  have "count_where (live_in f) (refresh_sessions d) = 0"
    using no by (auto simp: count_where_0_iff)
  with issue_session_eq[OF i] ok show ?thesis
    by (auto simp: sessions_ok_def live_in_def intro!: key_distinct_append_new)
qed

lemma rotate_sessions_ok:
  assumes ok: "sessions_ok d" and r: "rotate env cx raw d = (res, d')"
  shows "sessions_ok d'"
proof (cases "d' = d")
  case False
  then obtain cur where cur: "find (\<lambda>r. rs_token_hash r = ie_refresh_hash env raw) (refresh_sessions d) = Some cur"
    using r by (auto simp: rotate_def split: if_splits option.splits)
  show ?thesis
  proof (cases "rs_revoked_at cur = None")
    case False
    then show ?thesis using r cur ok
      by (auto simp: rotate_def revoke_family_def revoke_sessions_ok split: if_splits)
  next
    case True
    let ?d = "d\<lparr>refresh_sessions := update_where (\<lambda>r. rs_id r = rs_id cur)
       (\<lambda>r. r\<lparr>rs_revoked_at := Some (cx_now cx)\<rparr>) (refresh_sessions d)\<rparr>"
    obtain u s where i: "issue_session env (cx_now cx) (cx_mint cx 0) u (rs_family_id cur) ?d = Inr (s, d')"
      using r cur True False \<open>d' \<noteq> d\<close>
      by (auto simp: rotate_def Let_def split: if_splits option.splits sum.splits)
    have "sessions_ok ?d" using ok by (rule revoke_sessions_ok)
    moreover have mem: "cur \<in> set (refresh_sessions d)" using cur by (auto dest: find_SomeD)
    have "\<not> live_in (rs_family_id cur) r" if "r \<in> set (refresh_sessions ?d)" for r
    proof
      assume l: "live_in (rs_family_id cur) r"
      have "r \<in> set (refresh_sessions d)" "rs_id r \<noteq> rs_id cur"
        using that l by (auto simp: in_set_update_where live_in_def)
      moreover have "key_distinct rs_id (refresh_sessions d)" using ok by (simp add: sessions_ok_def)
      then obtain xs ys where "refresh_sessions d = xs @ cur # ys"
        using key_split mem by metis
      moreover have "live_in (rs_family_id cur) cur" using True by (simp add: live_in_def)
      ultimately have "0 < count_where (live_in (rs_family_id cur)) (xs @ ys)"
        using l by (auto simp: count_where_pos_iff simp del: count_where_append)
      then have "\<not> count_where (live_in (rs_family_id cur)) (refresh_sessions d) \<le> 1"
        using \<open>refresh_sessions d = _\<close> \<open>live_in _ cur\<close> by simp
      then show False using ok by (simp add: sessions_ok_def)
    qed
    ultimately show ?thesis using issue_sessions_ok[OF _ _ i] by blast
  qed
qed (use ok in simp)

lemma auth_step_sessions_ok:
  assumes "auth_step d d'" "sessions_ok d"
  shows "sessions_ok d'"
  using assms
proof cases
  case (auth_login env cx name password s)
  then obtain u where "issue_session env (cx_now cx) (cx_mint cx 1) u (cx_mint cx 0) d = Inr (s, d')"
    by (auto simp: login_def split: if_splits list.splits)
  from issue_sessions_ok[OF assms(2) _ this] show ?thesis using auth_login(2)
    by (simp add: live_in_def)
next
  case auth_rotate
  then show ?thesis using rotate_sessions_ok[OF assms(2)] by blast
next
  case auth_logout
  then show ?thesis using assms(2) by (auto simp: logout_def revoke_sessions_ok)
qed

lemma rotate_success:
  assumes r: "rotate env cx raw d = (Inr s, d1)"
  obtains cur new where "raw \<noteq> []"
    "find (\<lambda>r. rs_token_hash r = ie_refresh_hash env raw) (refresh_sessions d) = Some cur"
    "rs_revoked_at cur = None" "cx_now cx < rs_expires_at cur"
    "user_by_id (rs_user_id cur) d = Some (ss_user s)" "u_status (ss_user s) = UserActive"
    "d1 = d\<lparr>refresh_sessions := update_where (\<lambda>r. rs_id r = rs_id cur)
       (\<lambda>r. r\<lparr>rs_revoked_at := Some (cx_now cx)\<rparr>) (refresh_sessions d) @ [new]\<rparr>"
    "rs_token_hash new = ie_refresh_hash env (ss_refresh_token s)"
    "rs_family_id new = rs_family_id cur" "rs_user_id new = rs_user_id cur" "rs_revoked_at new = None"
proof -
  obtain cur where ne: "raw \<noteq> []" and cur: "find (\<lambda>r. rs_token_hash r = ie_refresh_hash env raw) (refresh_sessions d) = Some cur"
    and live: "rs_revoked_at cur = None" and exp: "cx_now cx < rs_expires_at cur"
    using r by (auto simp: rotate_def Let_def split: if_splits option.splits)
  let ?d = "d\<lparr>refresh_sessions := update_where (\<lambda>r. rs_id r = rs_id cur)
       (\<lambda>r. r\<lparr>rs_revoked_at := Some (cx_now cx)\<rparr>) (refresh_sessions d)\<rparr>"
  obtain u where u: "user_by_id (rs_user_id cur) ?d = Some u" "u_status u = UserActive"
    and i: "issue_session env (cx_now cx) (cx_mint cx 0) u (rs_family_id cur) ?d = Inr (s, d1)"
    using r cur live exp ne
    by (auto simp: rotate_def Let_def split: if_splits option.splits sum.splits)
  have ud: "user_by_id (rs_user_id cur) d = Some u" using u by (simp add: user_by_id_def)
  then have "rs_user_id cur = u_id u" using user_by_id_id by fastforce
  then show thesis using issue_session_eq[OF i] ne cur live exp ud u(2)
    by (auto intro!: that)
qed

text \<open>C9: an exchanged refresh token is dead.  Presenting it again is refused, revokes its
  family, and so ends the session that the exchange issued.\<close>

theorem replay_revokes_family:
  assumes "sessions_ok d" "rotate env cx raw d = (Inr s, d1)"
    and "ie_refresh_hash env2 = ie_refresh_hash env" "ie_refresh_hash env3 = ie_refresh_hash env"
  shows "fst (rotate env2 cx2 raw d1) = Inl IdentityUnauthorized \<and>
    fst (rotate env3 cx3 (ss_refresh_token s) (snd (rotate env2 cx2 raw d1))) = Inl IdentityUnauthorized"
proof -
  obtain cur new where c: "raw \<noteq> []" "find (\<lambda>r. rs_token_hash r = ie_refresh_hash env raw) (refresh_sessions d) = Some cur"
    "d1 = d\<lparr>refresh_sessions := update_where (\<lambda>r. rs_id r = rs_id cur)
       (\<lambda>r. r\<lparr>rs_revoked_at := Some (cx_now cx)\<rparr>) (refresh_sessions d) @ [new]\<rparr>"
    and n: "rs_token_hash new = ie_refresh_hash env (ss_refresh_token s)"
    "rs_family_id new = rs_family_id cur"
    by (rule rotate_success[OF assms(2)]) (rule that; assumption)
  let ?cur = "cur\<lparr>rs_revoked_at := Some (cx_now cx)\<rparr>"
  let ?new = "new\<lparr>rs_revoked_at := Some (cx_now cx2)\<rparr>"
  have h: "cur \<in> set (refresh_sessions d)" "rs_token_hash cur = ie_refresh_hash env raw"
    using find_SomeD[OF c(2)] by simp_all
  have ok1: "sessions_ok d1" using rotate_sessions_ok[OF assms(1,2)] .
  have "?cur \<in> set (refresh_sessions d1)" using h c(3) by (auto simp: in_set_update_where)
  then have f1: "find (\<lambda>r. rs_token_hash r = ie_refresh_hash env raw) (refresh_sessions d1) = Some ?cur"
    using ok1 h(2) find_by_key[of rs_token_hash "refresh_sessions d1"] by (simp add: sessions_ok_def)
  then have r2: "rotate env2 cx2 raw d1 = (Inl IdentityUnauthorized, revoke_family (cx_now cx2) (rs_family_id cur) d1)"
    using c(1) assms(3) by (simp add: rotate_def)
  let ?d2 = "revoke_family (cx_now cx2) (rs_family_id cur) d1"
  have "sessions_ok ?d2" unfolding revoke_family_def by (rule revoke_sessions_ok[OF ok1])
  moreover have "\<exists>r \<in> set (refresh_sessions ?d2). rs_token_hash r = rs_token_hash new \<and> rs_revoked_at r \<noteq> None"
    using c(3) n(2) by (auto simp: revoke_family_def)
  ultimately obtain r3 where "find (\<lambda>r. rs_token_hash r = ie_refresh_hash env (ss_refresh_token s)) (refresh_sessions ?d2) = Some r3"
      "rs_revoked_at r3 \<noteq> None"
    using find_by_key[of rs_token_hash "refresh_sessions ?d2"] n(1) unfolding sessions_ok_def by metis
  then show ?thesis using r2 assms(4) by (simp add: rotate_def)
qed

text \<open>however clients log in, rotate and log out, a family has at most one live token, and
  identifiers and token hashes stay unique.\<close>

theorem auth_one_live_token:
  "auth_step\<^sup>*\<^sup>* d d' \<Longrightarrow> sessions_ok d \<Longrightarrow> sessions_ok d'"
  by (induction rule: rtranclp_induct) (auto intro: auth_step_sessions_ok)

section \<open>Registration\<close>

lemma register_success:
  assumes "register env provision cx username0 email password d = Inr (s, d')"
  obtains u d1 d2 where "insert_user u d = Inr d1" "provision (u_id u) d1 = Inr d2"
    "issue_session env (cx_now cx) (cx_mint cx 2) u (cx_mint cx 1) d2 = Inr (s, d')"
    "u_id u = cx_mint cx 0" "u_username_normalized u = to_lower (trim_space username0)"
    "u_email_normalized u = (if to_lower (trim_space email) = [] then None else Some (to_lower (trim_space email)))"
    "ie_hash_password env password = Inr (u_password_hash u)" "u_status u = UserActive"
    "u_used_logical_bytes u = 0" "u_reserved_bytes u = 0" "u_quota_bytes u = ie_default_quota_bytes env"
    "10 \<le> utf8_len password" "utf8_len password \<le> 1024"
    "\<forall>v \<in> set (users d). u_username_normalized v \<noteq> u_username_normalized u \<and>
        u_email_normalized v \<noteq> Some (u_username_normalized u) \<and>
        (\<forall>m. u_email_normalized u = Some m \<longrightarrow> u_username_normalized v \<noteq> m \<and> u_email_normalized v \<noteq> Some m)"
proof -
  note r = assms[unfolded register_def Let_def if_Inl_eq_Inr_iff attempt_eq_Inr_iff on_error_eq_Inr_iff]
  let ?n = "to_lower (trim_space username0)" and ?m = "to_lower (trim_space email)"
  from r obtain hash where hash: "ie_hash_password env password = Inr hash"
    and pw: "10 \<le> utf8_len password" "utf8_len password \<le> 1024"
    and no: "\<not> exists_where (\<lambda>v. u_username_normalized v \<in> set (?n # (case (if ?m = [] then None else Some ?m) of None \<Rightarrow> []
                 | Some m \<Rightarrow> if m = ?n then [] else [m])) \<or>
                  (\<exists>m \<in> set (?n # (case (if ?m = [] then None else Some ?m) of None \<Rightarrow> []
                 | Some m \<Rightarrow> if m = ?n then [] else [m])). u_email_normalized v = Some m)) (users d)"
    and rest: "\<exists>d1. insert_user \<lparr> u_id = cx_mint cx 0, u_username = trim_space username0,
                    u_username_normalized = ?n, u_email_normalized = (if ?m = [] then None else Some ?m),
                    u_password_hash = hash, u_status = UserActive,
                    u_quota_bytes = ie_default_quota_bytes env,
                    u_used_logical_bytes = 0, u_reserved_bytes = 0 \<rparr> d = Inr d1 \<and>
        (\<exists>d2. provision (cx_mint cx 0) d1 = Inr d2 \<and> issue_session env (cx_now cx) (cx_mint cx 2)
           \<lparr> u_id = cx_mint cx 0, u_username = trim_space username0,
                    u_username_normalized = ?n, u_email_normalized = (if ?m = [] then None else Some ?m),
                    u_password_hash = hash, u_status = UserActive,
                    u_quota_bytes = ie_default_quota_bytes env,
                    u_used_logical_bytes = 0, u_reserved_bytes = 0 \<rparr> (cx_mint cx 1) d2 = Inr (s, d'))"
    by (elim exE conjE) (simp del: if_Inl_eq_Inr_iff)
  from rest obtain d1 d2 where "insert_user \<lparr> u_id = cx_mint cx 0, u_username = trim_space username0,
                    u_username_normalized = ?n, u_email_normalized = (if ?m = [] then None else Some ?m),
                    u_password_hash = hash, u_status = UserActive,
                    u_quota_bytes = ie_default_quota_bytes env,
                    u_used_logical_bytes = 0, u_reserved_bytes = 0 \<rparr> d = Inr d1"
     "provision (cx_mint cx 0) d1 = Inr d2" "issue_session env (cx_now cx) (cx_mint cx 2)
           \<lparr> u_id = cx_mint cx 0, u_username = trim_space username0,
                    u_username_normalized = ?n, u_email_normalized = (if ?m = [] then None else Some ?m),
                    u_password_hash = hash, u_status = UserActive,
                    u_quota_bytes = ie_default_quota_bytes env,
                    u_used_logical_bytes = 0, u_reserved_bytes = 0 \<rparr> (cx_mint cx 1) d2 = Inr (s, d')"
    by blast
  from that[OF this(1) _ this(3)] this(2) hash pw no show thesis
    by (auto simp: table_simps split: if_splits)
qed

lemma issue_session_users: "issue_session env now i u f d = Inr (s, d') \<Longrightarrow> users d' = users d"
  using issue_session_eq by fastforce

text \<open>A registered user can log in, by name or by address, whatever case and padding the client
  sends: no other account answers to either identifier.\<close>

lemma register_then_login_aux:
  assumes r: "register env provision cx username email password d = Inr (s, d')"
    and prov: "\<And>i d1 d2. provision i d1 = Inr d2 \<Longrightarrow> users d2 = users d1"
    and verify: "\<And>h. ie_hash_password env password = Inr h \<Longrightarrow> ie_verify_password env2 h password"
    and name: "name = username \<or> name = email \<and> to_lower (trim_space email) \<noteq> []"
    and len: "0 < utf8_len name" "utf8_len name \<le> 254"
  shows "login env2 cx2 name password d' =
     issue_session env2 (cx_now cx2) (cx_mint cx2 1) (ss_user s) (cx_mint cx2 0) d'"
proof (rule register_success[OF r])
  fix u d1 d2
  assume ins: "insert_user u d = Inr d1" and p: "provision (u_id u) d1 = Inr d2"
    and i: "issue_session env (cx_now cx) (cx_mint cx 2) u (cx_mint cx 1) d2 = Inr (s, d')"
    and un: "u_username_normalized u = to_lower (trim_space username)"
    and em: "u_email_normalized u = (if to_lower (trim_space email) = [] then None else Some (to_lower (trim_space email)))"
    and h: "ie_hash_password env password = Inr (u_password_hash u)" and st: "u_status u = UserActive"
    and pw: "10 \<le> utf8_len password" "utf8_len password \<le> 1024"
    and no: "\<forall>v \<in> set (users d). u_username_normalized v \<noteq> u_username_normalized u \<and>
        u_email_normalized v \<noteq> Some (u_username_normalized u) \<and>
        (\<forall>m. u_email_normalized u = Some m \<longrightarrow> u_username_normalized v \<noteq> m \<and> u_email_normalized v \<noteq> Some m)"
  have us: "users d' = users d @ [u]"
    using issue_session_users[OF i] prov[OF p] ins by (auto simp: insert_user_def split: if_splits)
  have su: "ss_user s = u" using issue_session_eq[OF i] by auto
  have old: "filter (\<lambda>v. u_username_normalized v = to_lower (trim_space name) \<or>
       u_email_normalized v = Some (to_lower (trim_space name))) (users d) = []"
    using no un em name by (auto simp: filter_empty_conv split: if_splits)
  have new: "u_username_normalized u = to_lower (trim_space name) \<or>
       u_email_normalized u = Some (to_lower (trim_space name))"
    using un em name by auto
  have "login_candidates env2 (to_lower (trim_space name)) password d' = [u]"
    using old new verify[OF h] unfolding login_candidates_def us by simp
  then show ?thesis using pw len st su by (simp add: login_def)
qed

lemma register_sessions_ok:
  assumes r: "register env provision cx username email password d = Inr (s, d')"
    and prov: "\<And>i d1 d2. provision i d1 = Inr d2 \<Longrightarrow> refresh_sessions d2 = refresh_sessions d1"
    and ok: "sessions_ok d" and fresh: "\<forall>r \<in> set (refresh_sessions d). rs_family_id r \<noteq> cx_mint cx 1"
  shows "sessions_ok d'"
proof (rule register_success[OF r])
  fix u d1 d2
  assume ins: "insert_user u d = Inr d1" and p: "provision (u_id u) d1 = Inr d2"
    and i: "issue_session env (cx_now cx) (cx_mint cx 2) u (cx_mint cx 1) d2 = Inr (s, d')"
  have "refresh_sessions d2 = refresh_sessions d"
    using prov[OF p] ins by (auto simp: insert_user_def split: if_splits)
  then show ?thesis using issue_sessions_ok[OF _ _ i] ok fresh
    by (auto simp: sessions_ok_def live_in_def)
qed

section \<open>Witnesses\<close>

definition sample_env :: "string \<Rightarrow> identity_env" where
  "sample_env tok = \<lparr> ie_hash_password = (\<lambda>p. Inr (decimal_string (length p))),
     ie_verify_password = (\<lambda>h p. h = decimal_string (length p)),
     ie_access_token = (\<lambda>u. Inr ''access''), ie_access_ttl = 5, ie_refresh_token = Inr tok,
     ie_refresh_hash = (\<lambda>r. r), ie_refresh_ttl = 100, ie_default_quota_bytes = 1000 \<rparr>"

definition sample_cx :: "time \<Rightarrow> nat \<Rightarrow> ctx" where
  "sample_cx now base = \<lparr> cx_now = now, cx_v2_events = True, cx_search_enabled = True, cx_trace = None,
     cx_mint = (\<lambda>n. of_nat (n + base)), cx_name_uuid = (\<lambda>s. of_nat (length s + 1)) \<rparr>"

definition sample_user :: user where
  "sample_user = \<lparr> u_id = 7, u_username = lit ''Ann'', u_username_normalized = lit ''ann'',
     u_email_normalized = None, u_password_hash = ''10'', u_status = UserActive,
     u_quota_bytes = 1000, u_used_logical_bytes = 0, u_reserved_bytes = 0 \<rparr>"

definition sample_logged_in :: db where
  "sample_logged_in = empty_db\<lparr>users := [sample_user],
     refresh_sessions := [\<lparr> rs_id = 51, rs_user_id = 7, rs_token_hash = ''a'',
       rs_family_id = 50, rs_expires_at = 110, rs_revoked_at = None \<rparr>]\<rparr>"

lemma sample_rotation:
  "is_ok (fst (rotate (sample_env ''b'') (sample_cx 20 60) ''a'' sample_logged_in))"
  by (simp add: rotate_def sample_logged_in_def sample_env_def sample_cx_def user_by_id_def
      sample_user_def issue_session_def insert_refresh_def empty_db_def Let_def exists_where_def)

lemma sample_sessions_ok: "sessions_ok sample_logged_in"
  by (simp add: sessions_ok_def sample_logged_in_def key_distinct_def empty_db_def)

lemma replay_revokes_family_witness:
  "case rotate (sample_env ''b'') (sample_cx 20 60) ''a'' sample_logged_in of
     (Inl e, d1) \<Rightarrow> False
   | (Inr s, d1) \<Rightarrow> (case rotate (sample_env ''c'') (sample_cx 30 70) ''a'' d1 of (r2, d2) \<Rightarrow>
       r2 = Inl IdentityUnauthorized \<and>
       fst (rotate (sample_env ''d'') (sample_cx 40 80) (ss_refresh_token s) d2) = Inl IdentityUnauthorized)"
proof -
  obtain s d1 where r: "rotate (sample_env ''b'') (sample_cx 20 60) ''a'' sample_logged_in = (Inr s, d1)"
    using sample_rotation
    by (cases "rotate (sample_env ''b'') (sample_cx 20 60) ''a'' sample_logged_in")
      (auto simp: is_ok_def split: sum.splits)
  have h: "ie_refresh_hash (sample_env t) = (\<lambda>r. r)" for t by (simp add: sample_env_def)
  show ?thesis
    using replay_revokes_family[OF sample_sessions_ok r, of "sample_env ''c''" "sample_env ''d''"
        "sample_cx 30 70" "sample_cx 40 80", unfolded h, OF refl refl]
    unfolding r by (auto split: prod.split)
qed

lemma auth_one_live_token_witness:
  "sessions_ok (snd (rotate (sample_env ''b'') (sample_cx 20 60) ''a'' sample_logged_in))"
proof (rule auth_one_live_token[OF r_into_rtranclp sample_sessions_ok])
  show "auth_step sample_logged_in
      (snd (rotate (sample_env ''b'') (sample_cx 20 60) ''a'' sample_logged_in))"
    by (rule auth_rotate[OF prod.collapse[symmetric]])
qed

end
