(* ===== verification/Drive.thy ===== *)
theory Drive
  imports OwnerEpoch ObjectStore Identity
begin

text \<open>
  Package \<open>drive\<close>: the folder tree and the file entries of an owner (\<open>service.go\<close>) and the
  file manager over them (\<open>files.go\<close>).  Every mutation is one transaction that checks the
  caller's version, advances the owner's content epoch and writes its event.  The read cache is
  switched off (\<open>NewService\<close>); \<open>drive_env\<close> carries what the package takes from elsewhere: the
  database's collation, the SHA-256 scope of a cursor and its base64/JSON text form.
\<close>

section \<open>Views and cursors\<close>

record file_view =
  fv_entry :: file_entry
  fv_size_bytes :: int
  fv_mime_type :: string
  fv_sha256 :: string
  fv_ai_status :: "string option"

datatype child_kind = ChildFolder | ChildFile

datatype sort_order = NameAsc | NameDesc

record child_cursor =
  cc_version :: string
  cc_scope :: string
  cc_content :: int
  cc_acl :: int
  cc_kind :: int
  cc_name :: gotext
  cc_id :: uuid
  cc_sort :: string

datatype child_item = ItemFolder folder | ItemFile file_view

record child_page =
  cp_folders :: "folder list"
  cp_files :: "file_view list"
  cp_has_more :: bool
  cp_cursor :: string

record drive_env =
  dv_less :: "gotext \<Rightarrow> gotext \<Rightarrow> bool"
  dv_scope :: "uuid \<Rightarrow> uuid \<Rightarrow> string"
  dv_encode :: "child_cursor \<Rightarrow> string"
  dv_parse :: "string \<Rightarrow> child_cursor option"

section \<open>Lookups\<close>

definition normalize_name :: "gotext \<Rightarrow> (gotext \<times> gotext) result" where
  "normalize_name s =
     (let name = trim_space s in
      if name = [] \<or> utf8_len name > 255 \<or> name = lit ''.'' \<or> name = lit ''..'' \<or>
         contains_any forbidden_runes name
      then Inl DriveInvalidInput else Inr (name, to_lower name))"

definition root_folder :: "uuid \<Rightarrow> db \<Rightarrow> folder result" where
  "root_folder owner d = found DriveNotFound
     (find (\<lambda>f. fd_owner_id f = owner \<and> fd_parent_id f = None \<and> folder_live f) (folders d))"

definition folder_of :: "uuid \<Rightarrow> uuid \<Rightarrow> db \<Rightarrow> folder result" where
  "folder_of owner fid d = found DriveNotFound (find (owned_folder owner fid) (folders d))"

definition entry_of :: "uuid \<Rightarrow> uuid \<Rightarrow> db \<Rightarrow> file_entry result" where
  "entry_of owner eid d = found DriveNotFound (find (owned_entry owner eid) (file_entries d))"

text \<open>\<open>JOIN file_objects .. status = 'ready' LEFT JOIN ai_documents\<close>.\<close>

definition view_of :: "db \<Rightarrow> file_entry \<Rightarrow> file_view option" where
  "view_of d e =
     (case find (\<lambda>o'. fo_id o' = fe_object_id e \<and> fo_status o' = ObjectReady) (file_objects d) of
        None \<Rightarrow> None
      | Some o' \<Rightarrow> Some \<lparr> fv_entry = e, fv_size_bytes = fo_size_bytes o',
            fv_mime_type = fo_mime_type o', fv_sha256 = fo_sha256 o',
            fv_ai_status = map_option ad_status
              (find (\<lambda>a. ad_object_id a = fe_object_id e) (ai_documents d)) \<rparr>)"

definition load_file :: "uuid \<Rightarrow> uuid \<Rightarrow> db \<Rightarrow> file_view result" where
  "load_file owner eid d =
     (if eid = 0 then Inl DriveNotFound
      else case find (owned_entry owner eid) (file_entries d) of
        None \<Rightarrow> Inl DriveNotFound
      | Some e \<Rightarrow> found DriveNotFound (view_of d e))"

definition file_name_exists :: "uuid \<Rightarrow> uuid \<Rightarrow> gotext \<Rightarrow> db \<Rightarrow> bool result" where
  "file_name_exists owner fid name d =
     attempt (normalize_name name) (\<lambda>(n, normalized).
     Inr (0 < count_where (\<lambda>e. fe_owner_id e = owner \<and> fe_folder_id e = fid \<and>
            fe_name_normalized e = normalized \<and> entry_live e) (file_entries d)))"

definition child_folders :: "uuid \<Rightarrow> uuid \<Rightarrow> db \<Rightarrow> folder list" where
  "child_folders owner fid d = filter (\<lambda>f. fd_owner_id f = owner \<and> fd_parent_id f = Some fid \<and>
     folder_live f) (folders d)"

definition child_files :: "uuid \<Rightarrow> uuid \<Rightarrow> db \<Rightarrow> file_view list" where
  "child_files owner fid d = List.map_filter (view_of d)
     (filter (\<lambda>e. fe_owner_id e = owner \<and> fe_folder_id e = fid \<and> entry_live e) (file_entries d))"

section \<open>Ordered pages\<close>

text \<open>The order \<open>name_normalized, id\<close> under the database's collation, and its reverse.\<close>

definition key_before :: "drive_env \<Rightarrow> sort_order \<Rightarrow> gotext \<times> uuid \<Rightarrow> gotext \<times> uuid \<Rightarrow> bool" where
  "key_before env s a b =
     (case s of NameAsc \<Rightarrow> dv_less env (fst a) (fst b) \<or> (fst a = fst b \<and> snd a < snd b)
      | NameDesc \<Rightarrow> dv_less env (fst b) (fst a) \<or> (fst a = fst b \<and> snd b < snd a))"

fun insert_ordered :: "('a \<Rightarrow> 'a \<Rightarrow> bool) \<Rightarrow> 'a \<Rightarrow> 'a list \<Rightarrow> 'a list" where
  "insert_ordered before x [] = [x]"
| "insert_ordered before x (y # ys) =
     (if before y x then y # insert_ordered before x ys else x # y # ys)"

definition order_by :: "('a \<Rightarrow> 'a \<Rightarrow> bool) \<Rightarrow> 'a list \<Rightarrow> 'a list" where
  "order_by before xs = foldr (insert_ordered before) xs []"

definition folder_key :: "folder \<Rightarrow> gotext \<times> uuid" where
  "folder_key f = (fd_name_normalized f, fd_id f)"

definition file_key :: "file_view \<Rightarrow> gotext \<times> uuid" where
  "file_key v = (fe_name_normalized (fv_entry v), fe_id (fv_entry v))"

definition ordered_folders :: "drive_env \<Rightarrow> sort_order \<Rightarrow> uuid \<Rightarrow> uuid \<Rightarrow> db \<Rightarrow> folder list" where
  "ordered_folders env s owner fid d =
     order_by (\<lambda>f g. key_before env s (folder_key f) (folder_key g)) (child_folders owner fid d)"

definition ordered_files :: "drive_env \<Rightarrow> sort_order \<Rightarrow> uuid \<Rightarrow> uuid \<Rightarrow> db \<Rightarrow> file_view list" where
  "ordered_files env s owner fid d =
     order_by (\<lambda>v w. key_before env s (file_key v) (file_key w)) (child_files owner fid d)"

text \<open>\<open>Children\<close> and \<open>loadChildren\<close>.\<close>

definition children :: "drive_env \<Rightarrow> uuid \<Rightarrow> uuid \<Rightarrow> db \<Rightarrow> (folder list \<times> file_view list) result" where
  "children env owner fid d =
     attempt (folder_of owner fid d) (\<lambda>f.
     Inr (ordered_folders env NameAsc owner fid d, ordered_files env NameAsc owner fid d))"

definition load_children_page ::
  "drive_env \<Rightarrow> sort_order \<Rightarrow> uuid \<Rightarrow> uuid \<Rightarrow> child_cursor option \<Rightarrow> nat \<Rightarrow> db \<Rightarrow> child_item list" where
  "load_children_page env s owner fid cursor limit d =
     (let fs = ordered_folders env s owner fid d; vs = ordered_files env s owner fid d in
      case cursor of
        None \<Rightarrow> map ItemFolder (take (limit + 1) fs) @ map ItemFile (take (limit + 1) vs)
      | Some c \<Rightarrow>
          let after = key_before env s (cc_name c, cc_id c) in
          if cc_kind c = 0
          then map ItemFolder (take (limit + 1) (filter (\<lambda>f. after (folder_key f)) fs)) @
               map ItemFile (take (limit + 1) vs)
          else map ItemFile (take (limit + 1) (filter (\<lambda>v. after (file_key v)) vs)))"

definition decode_child_cursor :: "drive_env \<Rightarrow> string \<Rightarrow> child_cursor result" where
  "decode_child_cursor env raw =
     (if raw = [] \<or> length raw > 4096 then Inl DriveInvalidCursor
      else case dv_parse env raw of
        None \<Rightarrow> Inl DriveInvalidCursor
      | Some c \<Rightarrow>
          if cc_version c \<noteq> ''1'' \<or> cc_id c = 0 \<or> cc_name c = [] \<or> cc_scope c = []
            then Inl DriveInvalidCursor
          else if cc_kind c \<noteq> 0 \<and> cc_kind c \<noteq> 1 then Inl DriveInvalidCursor
          else Inr c)"

definition sort_of :: "string \<Rightarrow> sort_order option" where
  "sort_of s = (if s = [] \<or> s = ''name_asc'' then Some NameAsc
     else if s = ''name_desc'' then Some NameDesc else None)"

definition sort_name :: "string \<Rightarrow> string" where
  "sort_name s = (if s = [] then ''name_asc'' else s)"

fun item_folders :: "child_item list \<Rightarrow> folder list" where
  "item_folders [] = []"
| "item_folders (ItemFolder f # is) = f # item_folders is"
| "item_folders (ItemFile v # is) = item_folders is"

fun item_files :: "child_item list \<Rightarrow> file_view list" where
  "item_files [] = []"
| "item_files (ItemFolder f # is) = item_files is"
| "item_files (ItemFile v # is) = v # item_files is"

fun item_cursor :: "string \<Rightarrow> owner_epoch \<Rightarrow> string \<Rightarrow> child_item \<Rightarrow> child_cursor" where
  "item_cursor scope ep s (ItemFolder f) = \<lparr> cc_version = ''1'', cc_scope = scope,
     cc_content = ep_content_epoch ep, cc_acl = ep_acl_epoch ep, cc_kind = 0,
     cc_name = fd_name_normalized f, cc_id = fd_id f, cc_sort = s \<rparr>"
| "item_cursor scope ep s (ItemFile v) = \<lparr> cc_version = ''1'', cc_scope = scope,
     cc_content = ep_content_epoch ep, cc_acl = ep_acl_epoch ep, cc_kind = 1,
     cc_name = fe_name_normalized (fv_entry v), cc_id = fe_id (fv_entry v), cc_sort = s \<rparr>"

definition page_of :: "drive_env \<Rightarrow> string \<Rightarrow> owner_epoch \<Rightarrow> string \<Rightarrow> nat \<Rightarrow> child_item list \<Rightarrow> child_page" where
  "page_of env scope ep s limit items =
     (let more = limit < length items; shown = (if more then take limit items else items) in
      \<lparr> cp_folders = item_folders shown, cp_files = item_files shown, cp_has_more = more,
        cp_cursor = (if more \<and> shown \<noteq> [] then dv_encode env (item_cursor scope ep s (last shown))
                     else []) \<rparr>)"

text \<open>\<open>childrenPage\<close>: \<open>d\<close> is the state at the start and \<open>d'\<close> the state after the rows were
  read, where the epoch is read again.\<close>

definition children_page ::
  "drive_env \<Rightarrow> uuid \<Rightarrow> uuid \<Rightarrow> string \<Rightarrow> int \<Rightarrow> string \<Rightarrow> db \<Rightarrow> db \<Rightarrow> child_page result" where
  "children_page env owner fid raw limit0 order d d' =
     (let limit = (if limit0 = 0 then 50 else limit0) in
      if limit < 1 \<or> limit > 100 then Inl DriveInvalidInput
      else case sort_of order of
        None \<Rightarrow> Inl DriveInvalidInput
      | Some s \<Rightarrow>
          attempt (folder_of owner fid d) (\<lambda>f.
          attempt (found GormRecordNotFound (epoch_row owner d)) (\<lambda>ep.
          attempt (if raw = [] then Inr None
                   else case decode_child_cursor env raw of
                     Inl e \<Rightarrow> Inl DriveInvalidCursor
                   | Inr c \<Rightarrow>
                       if cc_scope c \<noteq> dv_scope env owner fid \<or> cc_sort c \<noteq> sort_name order
                         then Inl DriveInvalidCursor
                       else if cc_content c \<noteq> ep_content_epoch ep \<or> cc_acl c \<noteq> ep_acl_epoch ep
                         then Inl DriveCursorStale
                       else Inr (Some c)) (\<lambda>cursor.
          let items = load_children_page env s owner fid cursor (nat limit) d' in
          attempt (found GormRecordNotFound (epoch_row owner d')) (\<lambda>current.
          if ep_content_epoch current \<noteq> ep_content_epoch ep \<or> ep_acl_epoch current \<noteq> ep_acl_epoch ep
            then Inl DriveCursorStale
          else Inr (page_of env (dv_scope env owner fid) ep (sort_name order) (nat limit) items))))))"

text \<open>\<open>ChildrenPage\<close>: a stale first page is read again in one snapshot.\<close>

definition children_page_retry ::
  "drive_env \<Rightarrow> uuid \<Rightarrow> uuid \<Rightarrow> string \<Rightarrow> int \<Rightarrow> string \<Rightarrow> db \<Rightarrow> db \<Rightarrow> db \<Rightarrow> child_page result" where
  "children_page_retry env owner fid raw limit order d d' snapshot =
     (case children_page env owner fid raw limit order d d' of
        Inl e \<Rightarrow> if raw \<noteq> [] \<or> \<not> errors_is e DriveCursorStale then Inl e
                 else children_page env owner fid [] limit order snapshot snapshot
      | Inr p \<Rightarrow> Inr p)"

section \<open>Walks of the folder tree\<close>

text \<open>The recursive query of \<open>Breadcrumb\<close>, from a folder to its root; \<open>None\<close> is a query that
  never returns.\<close>

partial_function (option) path_up :: "uuid \<Rightarrow> db \<Rightarrow> folder \<Rightarrow> folder list option" where
  "path_up owner d f =
     (case fd_parent_id f of
        None \<Rightarrow> Some [f]
      | Some p \<Rightarrow> (case find (owned_folder owner p) (folders d) of
          None \<Rightarrow> Some [f]
        | Some g \<Rightarrow> Option.bind (path_up owner d g) (\<lambda>rest. Some (f # rest))))"

definition breadcrumb :: "uuid \<Rightarrow> uuid \<Rightarrow> db \<Rightarrow> folder list result option" where
  "breadcrumb owner fid d =
     (case find (owned_folder owner fid) (folders d) of
        None \<Rightarrow> Some (Inl DriveNotFound)
      | Some f \<Rightarrow> map_option (\<lambda>path. Inr (rev path)) (path_up owner d f))"

text \<open>The recursive query of \<open>Move\<close>, one generation at a time.\<close>

definition next_generation :: "uuid \<Rightarrow> db \<Rightarrow> uuid list \<Rightarrow> uuid list" where
  "next_generation owner d level = concat (map (\<lambda>i. map fd_id (child_folders owner i d)) level)"

partial_function (option) descendants :: "uuid \<Rightarrow> db \<Rightarrow> uuid list \<Rightarrow> uuid list option" where
  "descendants owner d level =
     (if level = [] then Some []
      else Option.bind (descendants owner d (next_generation owner d level))
             (\<lambda>rest. Some (level @ rest)))"

section \<open>Folder operations\<close>

definition provision_user :: "uuid \<Rightarrow> uuid \<Rightarrow> db \<Rightarrow> db result" where
  "provision_user fresh owner d =
     attempt (insert_folder \<lparr> fd_id = fresh, fd_owner_id = owner, fd_parent_id = None,
        fd_name = lit ''/'', fd_name_normalized = lit ''/'', fd_deleted_at = None,
        fd_version = 1 \<rparr> d) (ensure_epoch owner)"

text \<open>The tail every mutation shares: advance the content epoch, then write the event.\<close>

definition bump_and_publish ::
  "ctx \<Rightarrow> nat \<Rightarrow> uuid \<Rightarrow> string \<Rightarrow> uuid \<Rightarrow> int \<Rightarrow> (int \<Rightarrow> payload) \<Rightarrow> db \<Rightarrow> db result" where
  "bump_and_publish cx k owner et agg version p d =
     attempt (bump_content owner d) (\<lambda>(ep, d').
     add_typed cx k (typed_input et agg version ''core-api'' (p (ep_content_epoch ep))) d')"

definition create_folder :: "ctx \<Rightarrow> uuid \<Rightarrow> uuid \<Rightarrow> gotext \<Rightarrow> db \<Rightarrow> (folder \<times> db) result" where
  "create_folder cx owner parent name0 d =
     attempt (normalize_name name0) (\<lambda>(name, normalized).
       let f = \<lparr> fd_id = cx_mint cx 0, fd_owner_id = owner, fd_parent_id = Some parent,
                 fd_name = name, fd_name_normalized = normalized, fd_deleted_at = None,
                 fd_version = 1 \<rparr> in
       attempt (folder_of owner parent d) (\<lambda>p.
       attempt (on_error (duplicated_as DriveConflict) (insert_folder f d)) (\<lambda>d1.
       attempt (bump_and_publish cx 1 owner event_folder_created (fd_id f) (fd_version f)
          (FolderCreatedV1 owner (fd_id f) (Some parent)) d1) (\<lambda>d2. Inr (f, d2)))))"

definition rename_folder ::
  "ctx \<Rightarrow> uuid \<Rightarrow> uuid \<Rightarrow> int \<Rightarrow> gotext \<Rightarrow> db \<Rightarrow> (folder \<times> db) result" where
  "rename_folder cx owner fid version name0 d =
     attempt (normalize_name name0) (\<lambda>(name, normalized).
       attempt (found DriveNotFound (find (\<lambda>f. owned_folder owner fid f \<and> fd_parent_id f \<noteq> None)
                  (folders d))) (\<lambda>f.
       if fd_version f \<noteq> version then Inl DriveConflict
       else attempt (on_error (duplicated_as DriveConflict)
          (update_folder (fd_id f) (\<lambda>g. g\<lparr>fd_name := name, fd_name_normalized := normalized,
              fd_version := fd_version g + 1\<rparr>) d)) (\<lambda>d1.
       attempt (bump_and_publish cx 0 owner event_folder_renamed (fd_id f) (version + 1)
          (FolderRenamedV1 owner (fd_id f) (fd_name f) name) d1) (\<lambda>d2.
       Inr (f\<lparr>fd_name := name, fd_name_normalized := normalized, fd_version := version + 1\<rparr>, d2)))))"

definition move_folder ::
  "ctx \<Rightarrow> uuid \<Rightarrow> uuid \<Rightarrow> uuid \<Rightarrow> int \<Rightarrow> db \<Rightarrow> (folder \<times> db) result" where
  "move_folder cx owner fid dest version d =
     (if fid = dest then Inl DriveInvalidInput
      else case find (owned_folder owner fid) (folders d) of
        None \<Rightarrow> Inl DriveNotFound
      | Some f \<Rightarrow> (case fd_parent_id f of
          None \<Rightarrow> Inl DriveNotFound
        | Some old \<Rightarrow>
            if fd_version f \<noteq> version then Inl DriveConflict
            else attempt (folder_of owner dest d) (\<lambda>t.
              case descendants owner d (map fd_id (filter (owned_folder owner fid) (folders d))) of
                None \<Rightarrow> Inl (ErrNew ''recursive query does not return'')
              | Some ids \<Rightarrow>
                  if dest \<in> set ids then Inl DriveInvalidInput
                  else attempt (on_error (duplicated_as DriveConflict)
                    (update_folder (fd_id f) (\<lambda>g. g\<lparr>fd_parent_id := Some dest,
                        fd_version := fd_version g + 1\<rparr>) d)) (\<lambda>d1.
                  attempt (bump_and_publish cx 0 owner event_folder_moved (fd_id f) (version + 1)
                    (FolderMovedV1 owner (fd_id f) (Some old) (Some dest)) d1) (\<lambda>d2.
                  Inr (f\<lparr>fd_parent_id := Some dest, fd_version := version + 1\<rparr>, d2))))))"

definition delete_folder :: "ctx \<Rightarrow> uuid \<Rightarrow> uuid \<Rightarrow> int \<Rightarrow> db \<Rightarrow> db result" where
  "delete_folder cx owner fid version d =
     (case find (owned_folder owner fid) (folders d) of
        None \<Rightarrow> Inl DriveNotFound
      | Some f \<Rightarrow>
          if fd_parent_id f = None then Inl DriveNotFound
          else if fd_version f \<noteq> version then Inl DriveConflict
          else if 0 < count_where (\<lambda>g. fd_parent_id g = Some fid \<and> folder_live g) (folders d)
            then Inl DriveNotEmpty
          else if 0 < count_where (\<lambda>e. fe_folder_id e = fid \<and> entry_live e) (file_entries d)
            then Inl DriveNotEmpty
          else attempt (update_folder (fd_id f) (\<lambda>g. g\<lparr>fd_deleted_at := Some (cx_now cx),
                  fd_version := fd_version g + 1\<rparr>) d)
            (bump_and_publish cx 0 owner event_folder_deleted (fd_id f) (version + 1)
               (FolderDeletedV1 owner (fd_id f) (cx_now cx))))"

section \<open>File operations\<close>

definition create_file :: "uuid \<Rightarrow> uuid \<Rightarrow> uuid \<Rightarrow> uuid \<Rightarrow> gotext \<Rightarrow> db \<Rightarrow> (file_entry \<times> db) result" where
  "create_file fresh owner fid oid name0 d =
     attempt (normalize_name name0) (\<lambda>(name, normalized).
       attempt (folder_of owner fid d) (\<lambda>p.
       if 0 < count_where (\<lambda>e. fe_owner_id e = owner \<and> fe_object_id e = oid \<and> entry_live e)
                (file_entries d) then Inl DriveConflict
       else
         let e = \<lparr> fe_id = fresh, fe_owner_id = owner, fe_folder_id = fid, fe_object_id = oid,
                   fe_name = name, fe_name_normalized = normalized, fe_deleted_at = None,
                   fe_version = 1 \<rparr> in
         attempt (on_error (duplicated_as DriveConflict) (insert_entry e d)) (\<lambda>d1.
         attempt (bump_content owner d1) (\<lambda>(ep, d2). Inr (e, d2)))))"

definition rename_file_tx :: "ctx \<Rightarrow> uuid \<Rightarrow> uuid \<Rightarrow> int \<Rightarrow> gotext \<Rightarrow> db \<Rightarrow> db result" where
  "rename_file_tx cx owner eid version name0 d =
     attempt (normalize_name name0) (\<lambda>(name, normalized).
       attempt (entry_of owner eid d) (\<lambda>e.
       if fe_version e \<noteq> version then Inl DriveConflict
       else attempt (on_error (duplicated_as DriveConflict)
          (update_entry (fe_id e) (\<lambda>g. g\<lparr>fe_name := name, fe_name_normalized := normalized,
              fe_version := fe_version g + 1\<rparr>) d))
         (bump_and_publish cx 0 owner event_file_updated (fe_id e) (version + 1)
            (FileUpdatedV1 owner (fe_id e) (fe_object_id e) (fe_name e) name None None))))"

definition move_file_tx :: "ctx \<Rightarrow> uuid \<Rightarrow> uuid \<Rightarrow> uuid \<Rightarrow> int \<Rightarrow> db \<Rightarrow> db result" where
  "move_file_tx cx owner eid dest version d =
     attempt (folder_of owner dest d) (\<lambda>t.
     attempt (entry_of owner eid d) (\<lambda>e.
       if fe_version e \<noteq> version then Inl DriveConflict
       else attempt (on_error (duplicated_as DriveConflict)
          (update_entry (fe_id e) (\<lambda>g. g\<lparr>fe_folder_id := dest,
              fe_version := fe_version g + 1\<rparr>) d))
         (bump_and_publish cx 0 owner event_file_updated (fe_id e) (version + 1)
            (FileUpdatedV1 owner (fe_id e) (fe_object_id e) [] [] (Some (fe_folder_id e)) (Some dest)))))"

text \<open>After the commit both return the file as it now is.\<close>

definition reload :: "uuid \<Rightarrow> uuid \<Rightarrow> db \<Rightarrow> db result \<Rightarrow> file_view result \<times> db" where
  "reload owner eid d r = (case r of Inl e \<Rightarrow> (Inl e, d) | Inr d' \<Rightarrow> (load_file owner eid d', d'))"

definition rename_file :: "ctx \<Rightarrow> uuid \<Rightarrow> uuid \<Rightarrow> int \<Rightarrow> gotext \<Rightarrow> db \<Rightarrow> file_view result \<times> db" where
  "rename_file cx owner eid version name d = reload owner eid d (rename_file_tx cx owner eid version name d)"

definition move_file :: "ctx \<Rightarrow> uuid \<Rightarrow> uuid \<Rightarrow> uuid \<Rightarrow> int \<Rightarrow> db \<Rightarrow> file_view result \<times> db" where
  "move_file cx owner eid dest version d = reload owner eid d (move_file_tx cx owner eid dest version d)"

text \<open>\<open>FileManager.Delete\<close>.\<close>

definition delete_file :: "ctx \<Rightarrow> uuid \<Rightarrow> uuid \<Rightarrow> int \<Rightarrow> db \<Rightarrow> db result" where
  "delete_file cx owner eid version d =
     attempt (entry_of owner eid d) (\<lambda>e.
     if fe_version e \<noteq> version then Inl DriveConflict
     else attempt (get_object (fe_object_id e) d) (\<lambda>obj.
       attempt (update_entry (fe_id e) (\<lambda>g. g\<lparr>fe_deleted_at := Some (cx_now cx),
            fe_version := fe_version g + 1\<rparr>) d) (\<lambda>d1.
       attempt (bump_content owner d1) (\<lambda>(ep, d2).
       attempt (release_reference (fe_object_id e) d2) (\<lambda>(remaining, d3).
       attempt (remove_logical_usage owner (fo_size_bytes obj) d3) (\<lambda>d4.
       attempt (add_typed cx 0 (typed_input event_file_deleted (fe_id e) (fe_version e + 1) ''core-api''
          (FileDeletedV1 owner (fe_id e) (fe_object_id e) (cx_now cx) (ep_content_epoch ep))) d4) (\<lambda>d5.
       if remaining = 0
       then attempt (found GormRecordNotFound (object_by_id (fo_id obj) d5)) (\<lambda>latest.
              add_typed cx 1 (typed_input event_object_gc_requested (fo_id latest) (fo_version latest)
                ''core-api'' (ObjectGCRequestedV1 (fo_id latest))) d5)
       else Inr d5)))))))"

section \<open>Reading bytes\<close>

text \<open>URL signing, media-type formatting and the thumbnail service are parameters.\<close>

record file_env =
  fl_presign :: "string \<Rightarrow> string \<Rightarrow> time \<Rightarrow> (string \<times> string) list \<Rightarrow> string result"
  fl_attachment :: "gotext \<Rightarrow> string"
  fl_variant :: "(uuid \<Rightarrow> (string \<times> time \<times> bool) result) option"
  fl_ttl :: time

definition download_url :: "file_env \<Rightarrow> time \<Rightarrow> uuid \<Rightarrow> uuid \<Rightarrow> db \<Rightarrow> (string \<times> time) result" where
  "download_url env now owner eid d =
     attempt (load_file owner eid d) (\<lambda>v.
     attempt (on_error (\<lambda>e. DriveNotFound) (get_object (fe_object_id (fv_entry v)) d)) (\<lambda>obj.
     attempt (fl_presign env (fo_bucket obj) (fo_object_key obj) (fl_ttl env)
       [(''response-content-disposition'', fl_attachment env (fe_name (fv_entry v)))]) (\<lambda>url.
     Inr (url, now + fl_ttl env))))"

definition str_prefix :: "string \<Rightarrow> string \<Rightarrow> bool" where
  "str_prefix p s \<longleftrightarrow> take (length p) s = p"

definition preview_kind :: "string \<Rightarrow> string" where
  "preview_kind mime =
     (if mime \<in> {''image/jpeg'', ''image/png'', ''image/gif'', ''image/webp''} then ''image''
      else if mime = ''application/pdf'' then ''pdf''
      else if str_prefix ''text/'' mime then ''text'' else ''unsupported'')"

definition preview ::
  "file_env \<Rightarrow> time \<Rightarrow> uuid \<Rightarrow> uuid \<Rightarrow> db \<Rightarrow> (string \<times> string \<times> time option) result" where
  "preview env now owner eid d =
     attempt (load_file owner eid d) (\<lambda>v.
       let kind = preview_kind (fv_mime_type v) in
       if kind = ''unsupported'' then Inr (kind, [], None)
       else attempt (get_object (fe_object_id (fv_entry v)) d) (\<lambda>obj.
         let signed = attempt (fl_presign env (fo_bucket obj) (fo_object_key obj) (fl_ttl env)
               [(''response-content-type'', if kind = ''text'' then ''text/plain; charset=utf-8''
                                          else fv_mime_type v),
                (''response-content-disposition'', ''inline'')])
               (\<lambda>url. Inr (kind, url, Some (now + fl_ttl env)))
         in (case fl_variant env of
               None \<Rightarrow> signed
             | Some variant \<Rightarrow>
                 if kind \<noteq> ''image'' then signed
                 else attempt (variant (fe_object_id (fv_entry v))) (\<lambda>(url, expires, ok).
                   if ok then Inr (kind, url, Some expires) else signed))))"

section \<open>What filing an object writes\<close>

lemma add_reference_object:
  assumes "add_reference oid d = Inr d'" "object_by_id oid d = Some o'"
  shows "object_by_id oid d' = Some (o'\<lparr>fo_reference_count := fo_reference_count o' + 1,
      fo_version := fo_version o' + 1\<rparr>) \<or> fo_status o' \<noteq> ObjectReady"
    "file_entries d' = file_entries d"
proof -
  have d': "d' = update_objects (\<lambda>o'. fo_id o' = oid \<and> fo_status o' = ObjectReady)
      (\<lambda>o'. o'\<lparr>fo_reference_count := fo_reference_count o' + 1, fo_version := fo_version o' + 1\<rparr>) d"
    using assms(1) by (auto simp: add_reference_def Let_def split: if_splits)
  show "object_by_id oid d' = Some (o'\<lparr>fo_reference_count := fo_reference_count o' + 1,
      fo_version := fo_version o' + 1\<rparr>) \<or> fo_status o' \<noteq> ObjectReady"
    using assms(2) object_by_id_SomeD[OF assms(2)] unfolding d' object_by_id_def update_objects_def
    by (auto simp: find_update_by_key)
  show "file_entries d' = file_entries d" by (simp add: d' update_objects_def)
qed

lemma create_file_entry:
  assumes "create_file fresh owner fid oid name d = Inr (e, d')"
  shows "fe_id e = fresh \<and> fe_owner_id e = owner \<and> fe_folder_id e = fid \<and> fe_object_id e = oid \<and>
    normalize_name name = Inr (fe_name e, fe_name_normalized e) \<and> entry_live e \<and> fe_version e = 1 \<and>
    file_entries d' = file_entries d @ [e] \<and> file_objects d' = file_objects d \<and>
    (\<exists>f. folder_of owner fid d = Inr f)"
proof -
  note r = assms[unfolded create_file_def Let_def tx_steps]
  show ?thesis using r
  proof (elim exE conjE)
    fix n m f d1 ep d2
    let ?e = "\<lparr>fe_id = fresh, fe_owner_id = owner, fe_folder_id = fid, fe_object_id = oid,
                   fe_name = n, fe_name_normalized = m, fe_deleted_at = None, fe_version = 1 \<rparr>"
    assume a: "normalize_name name = Inr (n, m)" "folder_of owner fid d = Inr f" "insert_entry ?e d = Inr d1"
      "bump_content owner d1 = Inr (ep, d2)" "Inr (?e, d2) = Inr (e, d')"
    have "file_entries d' = file_entries d1 \<and> file_objects d' = file_objects d1"
      using a(5) business_eqD(4,5)[OF bump_frame(1)[OF a(4)]] by simp
    then show ?thesis using insert_entry_eq[OF a(3)] a by auto
  qed
qed

end
