(* ===== verification/FolderTree.thy ===== *)
theory FolderTree
  imports Drive
begin

text \<open>
  The folders of a database form a forest: every live folder reaches a root through live folders
  of its owner.  The operations of \<open>Drive\<close> keep it so, hence the recursive queries return and a
  folder can never be moved below itself.
\<close>

section \<open>The folder forest\<close>

definition live_folder :: "db \<Rightarrow> uuid \<Rightarrow> folder option" where
  "live_folder d i = find (\<lambda>f. fd_id f = i \<and> folder_live f) (folders d)"

text \<open>\<open>rooted d i n\<close>: folder \<open>i\<close> is live and \<open>n\<close> live folders of one owner lie above it, the
  topmost a root.\<close>

inductive rooted :: "db \<Rightarrow> uuid \<Rightarrow> nat \<Rightarrow> bool" for d where
  rooted_root: "live_folder d i = Some f \<Longrightarrow> fd_parent_id f = None \<Longrightarrow> rooted d i 0"
| rooted_step: "live_folder d i = Some f \<Longrightarrow> fd_parent_id f = Some p \<Longrightarrow>
     live_folder d p = Some g \<Longrightarrow> fd_owner_id g = fd_owner_id f \<Longrightarrow> rooted d p n \<Longrightarrow>
     rooted d i (Suc n)"

definition forest_ok :: "db \<Rightarrow> bool" where
  "forest_ok d \<longleftrightarrow> key_distinct fd_id (folders d) \<and>
     (\<forall>f \<in> set (folders d). folder_live f \<longrightarrow> (\<exists>n. rooted d (fd_id f) n))"

lemma live_folder_SomeD:
  "live_folder d i = Some f \<Longrightarrow> f \<in> set (folders d) \<and> fd_id f = i \<and> folder_live f"
  unfolding live_folder_def by (drule find_SomeD) simp

lemma live_folder_iff:
  assumes "forest_ok d"
  shows "live_folder d i = Some f \<longleftrightarrow> f \<in> set (folders d) \<and> fd_id f = i \<and> folder_live f"
  using assms find_key_iff[of fd_id "folders d" i folder_live f]
  by (simp add: live_folder_def forest_ok_def)

lemma rooted_live: "rooted d i n \<Longrightarrow> \<exists>f. live_folder d i = Some f"
  by (erule rooted.cases) auto

lemma rooted_determ: "rooted d i n \<Longrightarrow> rooted d i m \<Longrightarrow> m = n"
proof (induction arbitrary: m rule: rooted.induct)
  case (rooted_root i f)
  then show ?case by (auto elim: rooted.cases)
next
  case (rooted_step i f p g n)
  from rooted_step.prems rooted_step.hyps obtain k where "m = Suc k" "rooted d p k"
    by (auto elim: rooted.cases)
  then show ?case using rooted_step.IH by simp
qed

text \<open>A chain survives a change that keeps the folders it may pass.\<close>

lemma rooted_transfer:
  assumes "rooted d i n" "P i"
    and up: "\<And>j f p g. P j \<Longrightarrow> live_folder d j = Some f \<Longrightarrow> fd_parent_id f = Some p \<Longrightarrow>
       live_folder d p = Some g \<Longrightarrow> fd_owner_id g = fd_owner_id f \<Longrightarrow> P p"
    and keep: "\<And>j f. P j \<Longrightarrow> live_folder d j = Some f \<Longrightarrow> \<exists>f'. live_folder d' j = Some f' \<and>
       fd_parent_id f' = fd_parent_id f \<and> fd_owner_id f' = fd_owner_id f"
  shows "rooted d' i n"
  using assms(1,2)
proof (induction rule: rooted.induct)
  case (rooted_root i f)
  then show ?case using keep[OF rooted_root.prems rooted_root.hyps(1)] rooted.rooted_root[of d' i] by auto
next
  case (rooted_step i f p g n)
  have p: "P p" using up rooted_step.prems rooted_step.hyps by blast
  obtain f' g' where "live_folder d' i = Some f'" "fd_parent_id f' = Some p" "fd_owner_id f' = fd_owner_id f"
    "live_folder d' p = Some g'" "fd_owner_id g' = fd_owner_id g"
    using keep[OF rooted_step.prems rooted_step.hyps(1)] keep[OF p rooted_step.hyps(3)]
      rooted_step.hyps(2) by auto
  then show ?case using rooted.rooted_step rooted_step.IH[OF p] rooted_step.hyps(4) by metis
qed

subsection \<open>Changes of one row\<close>

lemma live_folder_cong: "folders d' = folders d \<Longrightarrow> live_folder d' = live_folder d"
  by (simp add: live_folder_def fun_eq_iff)

lemma rooted_cong: "folders d' = folders d \<Longrightarrow> rooted d i n \<Longrightarrow> rooted d' i n"
proof (rule rooted_transfer[where P = "\<lambda>_. True"])
  assume e: "folders d' = folders d"
  show "\<exists>f'. live_folder d' j = Some f' \<and> fd_parent_id f' = fd_parent_id f \<and> fd_owner_id f' = fd_owner_id f"
    if "live_folder d j = Some f" for j f
    using that unfolding live_folder_cong[OF e] by blast
qed simp_all

lemma forest_cong: "folders d' = folders d \<Longrightarrow> forest_ok d \<Longrightarrow> forest_ok d'"
proof -
  assume e: "folders d' = folders d" and ok: "forest_ok d"
  show "forest_ok d'" using ok rooted_cong[OF e] unfolding forest_ok_def e by blast
qed

lemma live_folder_insert:
  "live_folder (d\<lparr>folders := folders d @ [f]\<rparr>) i = (case live_folder d i of
     Some g \<Rightarrow> Some g | None \<Rightarrow> if fd_id f = i \<and> folder_live f then Some f else None)"
  by (simp add: live_folder_def epoch_row_append split: option.split)

lemma live_folder_update:
  assumes "\<And>f. fd_id (g f) = fd_id f" "j \<noteq> i"
  shows "live_folder (d\<lparr>folders := update_where (\<lambda>f. fd_id f = i) g (folders d)\<rparr>) j = live_folder d j"
proof -
  have "find (\<lambda>f. fd_id f = j \<and> folder_live f) (update_where (\<lambda>f. fd_id f = i) g t) =
      find (\<lambda>f. fd_id f = j \<and> folder_live f) t" for t
    using assms by (induction t) auto
  then show ?thesis by (simp add: live_folder_def)
qed

lemma live_folder_update_self:
  assumes "forest_ok d" "\<And>f. fd_id (g f) = fd_id f" "live_folder d i = Some f" "folder_live (g f)"
  shows "live_folder (d\<lparr>folders := update_where (\<lambda>f. fd_id f = i) g (folders d)\<rparr>) i = Some (g f)"
proof -
  have k: "key_distinct fd_id (update_where (\<lambda>f. fd_id f = i) g (folders d))"
    using assms(1,2) by (auto simp: forest_ok_def intro: key_distinct_update)
  have "g f \<in> set (update_where (\<lambda>f. fd_id f = i) g (folders d))"
    using live_folder_SomeD[OF assms(3)] by (auto simp: in_set_update_where)
  then show ?thesis using find_key_iff[OF k, of i folder_live "g f"] assms(2,4) live_folder_SomeD[OF assms(3)]
    by (simp add: live_folder_def)
qed

lemma forest_insert:
  assumes ok: "forest_ok d" and new: "\<forall>g \<in> set (folders d). fd_id g \<noteq> fd_id f" and l: "folder_live f"
    and parent: "case fd_parent_id f of None \<Rightarrow> True | Some p \<Rightarrow>
      (\<exists>g. live_folder d p = Some g \<and> fd_owner_id g = fd_owner_id f)"
  shows "forest_ok (d\<lparr>folders := folders d @ [f]\<rparr>)" (is "forest_ok ?d")
proof -
  have keep: "live_folder d j = Some h \<Longrightarrow> live_folder ?d j = Some h" for j h
    by (simp add: live_folder_insert)
  have old: "rooted d i n \<Longrightarrow> rooted ?d i n" for i n
    by (erule rooted_transfer[where P = "\<lambda>_. True"]) (auto simp: keep)
  have "live_folder d (fd_id f) = None" using new live_folder_SomeD by (metis not_None_eq)
  then have self: "live_folder ?d (fd_id f) = Some f" using l by (simp add: live_folder_insert)
  have "\<exists>n. rooted ?d (fd_id f) n"
  proof (cases "fd_parent_id f")
    case None
    then show ?thesis using rooted_root[OF self] by blast
  next
    case (Some p)
    then obtain g where g: "live_folder d p = Some g" "fd_owner_id g = fd_owner_id f" using parent by auto
    then obtain n where "rooted d p n" using ok live_folder_SomeD[OF g(1)] by (auto simp: forest_ok_def)
    then show ?thesis using rooted_step[OF self Some keep[OF g(1)] g(2)] old by blast
  qed
  then show ?thesis using ok new old
    by (auto simp: forest_ok_def intro!: key_distinct_append_new) blast+
qed

lemma forest_update_keys:
  assumes "forest_ok d" "\<And>f. fd_id (g f) = fd_id f"
  shows "key_distinct fd_id (update_where (\<lambda>f. fd_id f = i) g (folders d))"
  using assms by (auto simp: forest_ok_def intro: key_distinct_update)

text \<open>Renaming: parents, owners and deletion marks stay.\<close>

lemma forest_rename:
  assumes ok: "forest_ok d" and g: "\<And>f. fd_id (g f) = fd_id f"
    "\<And>f. fd_parent_id (g f) = fd_parent_id f" "\<And>f. fd_owner_id (g f) = fd_owner_id f"
    "\<And>f. fd_deleted_at (g f) = fd_deleted_at f"
  shows "forest_ok (d\<lparr>folders := update_where (\<lambda>f. fd_id f = i) g (folders d)\<rparr>)" (is "forest_ok ?d")
proof -
  have keep: "\<exists>f'. live_folder ?d j = Some f' \<and> fd_parent_id f' = fd_parent_id f \<and>
      fd_owner_id f' = fd_owner_id f" if l: "live_folder d j = Some f" for j f
  proof (cases "j = i")
    case True
    have "folder_live (g f)" using live_folder_SomeD[OF l] g(4)[of f] by simp
    then show ?thesis using live_folder_update_self[OF ok g(1), of i f] l True g(2,3) by blast
  next
    case False
    have "live_folder ?d j = live_folder d j" by (rule live_folder_update[OF g(1) False])
    then show ?thesis using l by simp
  qed
  have old: "rooted d i n \<Longrightarrow> rooted ?d i n" for i n
    by (erule rooted_transfer[where P = "\<lambda>_. True"]) (simp_all add: keep)
  show ?thesis using ok old g forest_update_keys[OF ok g(1)]
    by (auto simp: forest_ok_def in_set_update_where) blast+
qed

text \<open>Deleting a folder without live children.\<close>

lemma forest_delete:
  assumes ok: "forest_ok d" and g: "\<And>f. fd_id (g f) = fd_id f" "\<And>f. \<not> folder_live (g f)"
    and leaf: "\<forall>f \<in> set (folders d). folder_live f \<longrightarrow> fd_parent_id f \<noteq> Some i"
  shows "forest_ok (d\<lparr>folders := update_where (\<lambda>f. fd_id f = i) g (folders d)\<rparr>)" (is "forest_ok ?d")
proof -
  have old: "rooted ?d j n" if "rooted d j n" "j \<noteq> i" for j n
    using that
  proof (rule rooted_transfer[where P = "\<lambda>j. j \<noteq> i"])
    fix j f p assume "live_folder d j = Some f" "fd_parent_id f = Some p"
    then show "p \<noteq> i" using leaf live_folder_SomeD[of d j f] by auto
  next
    fix j f assume j: "j \<noteq> i" and l: "live_folder d j = Some f"
    have "live_folder ?d j = live_folder d j" by (rule live_folder_update[OF g(1) j])
    then show "\<exists>f'. live_folder ?d j = Some f' \<and> fd_parent_id f' = fd_parent_id f \<and>
        fd_owner_id f' = fd_owner_id f" using l by simp
  qed
  have "\<exists>n. rooted ?d (fd_id f) n" if f: "f \<in> set (folders ?d)" "folder_live f" for f
  proof -
    have "(f \<in> set (folders d) \<and> fd_id f \<noteq> i) \<or> (\<exists>s. f = g s)"
      using f(1) by (auto simp: in_set_update_where)
    then have "f \<in> set (folders d) \<and> fd_id f \<noteq> i" using f(2) g(2) by blast
    then show ?thesis using ok f(2) old unfolding forest_ok_def by blast
  qed
  then show ?thesis using forest_update_keys[OF ok g(1)] by (simp add: forest_ok_def)
qed

section \<open>The recursive queries return\<close>

lemma child_folders_rooted:
  assumes ok: "forest_ok d" and r: "rooted d i n" and f: "f \<in> set (child_folders owner i d)"
  shows "rooted d (fd_id f) (Suc n)"
proof -
  have f': "f \<in> set (folders d)" "folder_live f" "fd_parent_id f = Some i"
    using f by (auto simp: child_folders_def)
  then have l: "live_folder d (fd_id f) = Some f" using live_folder_iff[OF ok] by blast
  obtain m where m: "rooted d (fd_id f) m" using ok f'(1,2) by (auto simp: forest_ok_def)
  from m l f'(3) obtain k where "m = Suc k" "rooted d i k" by (auto elim: rooted.cases)
  then show ?thesis using m rooted_determ[OF r] by simp
qed

lemma rooted_bounded:
  assumes "forest_ok d"
  obtains N where "\<And>i n. rooted d i n \<Longrightarrow> n < N"
proof -
  let ?S = "{n. \<exists>f \<in> set (folders d). rooted d (fd_id f) n}"
  have "?S \<subseteq> (\<lambda>f. THE n. rooted d (fd_id f) n) ` set (folders d)"
  proof
    fix n assume "n \<in> ?S"
    then obtain f where f: "f \<in> set (folders d)" "rooted d (fd_id f) n" by blast
    then have "(THE n. rooted d (fd_id f) n) = n" by (blast intro: the_equality rooted_determ)
    then show "n \<in> (\<lambda>f. THE n. rooted d (fd_id f) n) ` set (folders d)" using f(1) by force
  qed
  then have fin: "finite ?S" by (rule finite_subset) simp
  have "n < Suc (Max ?S)" if r: "rooted d i n" for i n
  proof -
    obtain f where "live_folder d i = Some f" using rooted_live[OF r] by blast
    then have "n \<in> ?S" using r live_folder_SomeD by blast
    then show ?thesis using Max_ge[OF fin] by (simp add: less_Suc_eq_le)
  qed
  then show thesis by (rule that)
qed

lemma descendants_total_from:
  assumes ok: "forest_ok d" and N: "\<And>i n. rooted d i n \<Longrightarrow> n < N"
  shows "\<forall>i \<in> set level. \<exists>n \<ge> k. rooted d i n \<Longrightarrow> \<exists>ids. descendants owner d level = Some ids"
proof (induction "N - k" arbitrary: k level rule: less_induct)
  case less
  show ?case
  proof (cases "level = []")
    case False
    then obtain i n where "rooted d i n" "n \<ge> k" using less.prems by (meson list.set_sel(1))
    then have k: "k < N" using N by (meson le_less_trans)
    have up: "\<forall>j \<in> set (next_generation owner d level). \<exists>n \<ge> Suc k. rooted d j n"
    proof
      fix j assume "j \<in> set (next_generation owner d level)"
      then obtain i f where i: "i \<in> set level" "f \<in> set (child_folders owner i d)" "j = fd_id f"
        by (auto simp: next_generation_def)
      then obtain n where "n \<ge> k" "rooted d i n" using less.prems by blast
      then show "\<exists>n \<ge> Suc k. rooted d j n" using child_folders_rooted[OF ok _ i(2)] i(3) by auto
    qed
    then obtain ids where "descendants owner d (next_generation owner d level) = Some ids"
      using less.hyps[OF diff_less_mono2[OF lessI k] up] by blast
    then show ?thesis by (subst descendants.simps) simp
  qed (simp add: descendants.simps)
qed

lemma descendants_total_aux:
  assumes ok: "forest_ok d"
  shows "\<exists>ids. descendants owner d (map fd_id (filter (owned_folder owner fid) (folders d))) = Some ids"
proof -
  show ?thesis
  proof (rule rooted_bounded[OF ok], rule descendants_total_from[OF ok, where k = 0])
    show "\<forall>i \<in> set (map fd_id (filter (owned_folder owner fid) (folders d))). \<exists>n \<ge> 0. rooted d i n"
      using ok by (auto simp: forest_ok_def owned_folder_def)
  qed
qed

text \<open>What it returns contains the start and is closed under children.\<close>

lemma descendants_closed:
  assumes "descendants owner d level = Some ids"
  shows "set level \<subseteq> set ids \<and> (\<forall>i \<in> set ids. \<forall>f \<in> set (child_folders owner i d). fd_id f \<in> set ids)"
proof (rule descendants.raw_induct[where P = "\<lambda>owner d level ids. set level \<subseteq> set ids \<and>
    (\<forall>i \<in> set ids. \<forall>f \<in> set (child_folders owner i d). fd_id f \<in> set ids)", OF _ assms])
  fix g owner d level ids
  assume IH: "\<And>owner d level ids. g owner d level = Some ids \<Longrightarrow> set level \<subseteq> set ids \<and>
      (\<forall>i \<in> set ids. \<forall>f \<in> set (child_folders owner i d). fd_id f \<in> set ids)"
    and eq: "(if level = [] then Some [] else Option.bind (g owner d (next_generation owner d level))
        (\<lambda>rest. Some (level @ rest))) = Some ids"
  show "set level \<subseteq> set ids \<and> (\<forall>i \<in> set ids. \<forall>f \<in> set (child_folders owner i d). fd_id f \<in> set ids)"
  proof (cases "level = []")
    case False
    then obtain rest where r: "g owner d (next_generation owner d level) = Some rest" "ids = level @ rest"
      using eq by (auto split: Option.bind_splits)
    have "fd_id f \<in> set rest" if "i \<in> set level" "f \<in> set (child_folders owner i d)" for i f
      using that IH[OF r(1)] by (auto simp: next_generation_def)
    then show ?thesis using IH[OF r(1)] r(2) by auto
  qed (use eq in simp)
qed

lemma descendants_owned:
  assumes "descendants owner d level = Some ids"
  shows "\<forall>i \<in> set ids. i \<in> set level \<or> (\<exists>f \<in> set (folders d). owned_folder owner i f)"
proof (rule descendants.raw_induct[where P = "\<lambda>owner d level ids. \<forall>i \<in> set ids. i \<in> set level \<or>
    (\<exists>f \<in> set (folders d). owned_folder owner i f)", OF _ assms])
  fix g owner d level ids
  assume IH: "\<And>owner d level ids. g owner d level = Some ids \<Longrightarrow> \<forall>i \<in> set ids. i \<in> set level \<or>
      (\<exists>f \<in> set (folders d). owned_folder owner i f)"
    and eq: "(if level = [] then Some [] else Option.bind (g owner d (next_generation owner d level))
        (\<lambda>rest. Some (level @ rest))) = Some ids"
  show "\<forall>i \<in> set ids. i \<in> set level \<or> (\<exists>f \<in> set (folders d). owned_folder owner i f)"
  proof (cases "level = []")
    case False
    then obtain rest where r: "g owner d (next_generation owner d level) = Some rest" "ids = level @ rest"
      using eq by (auto split: Option.bind_splits)
    have "\<exists>f \<in> set (folders d). owned_folder owner i f" if "i \<in> set (next_generation owner d level)" for i
      using that by (auto simp: next_generation_def child_folders_def owned_folder_def)
    then show ?thesis using IH[OF r(1)] r(2) by auto
  qed (use eq in simp)
qed

lemma forest_move:
  assumes ok: "forest_ok d"
    and f: "live_folder d fid = Some f" "fd_owner_id f = owner" "fd_parent_id f = Some p"
    and t: "live_folder d dest = Some t" "fd_owner_id t = owner"
    and ids: "descendants owner d (map fd_id (filter (owned_folder owner fid) (folders d))) = Some ids"
    and no: "dest \<notin> set ids"
    and g: "\<And>h. fd_id (g h) = fd_id h" "\<And>h. fd_owner_id (g h) = fd_owner_id h"
      "\<And>h. fd_parent_id (g h) = Some dest" "\<And>h. fd_deleted_at (g h) = fd_deleted_at h"
  shows "forest_ok (d\<lparr>folders := update_where (\<lambda>h. fd_id h = fid) g (folders d)\<rparr>)" (is "forest_ok ?d")
proof -
  note closed = descendants_closed[OF ids]
  have fin: "fid \<in> set ids"
    using closed f(1,2) live_folder_SomeD[OF f(1)] by (auto simp: owned_folder_def)
  have own: "fd_owner_id h = owner" if "j \<in> set ids" "live_folder d j = Some h" for j h
  proof -
    have "\<exists>f \<in> set (folders d). owned_folder owner j f"
      using descendants_owned[OF ids] that(1) by (auto simp: owned_folder_def)
    then obtain k where "k \<in> set (folders d)" "owned_folder owner j k" by blast
    then have "live_folder d j = Some k" using live_folder_iff[OF ok] by (simp add: owned_folder_def)
    then show ?thesis using that(2) \<open>owned_folder owner j k\<close> by (simp add: owned_folder_def)
  qed
  have same: "live_folder ?d j = live_folder d j" if "j \<noteq> fid" for j
    by (rule live_folder_update[OF g(1) that])
  have "folder_live (g f)" using live_folder_SomeD[OF f(1)] g(4)[of f] by simp
  then have self: "live_folder ?d fid = Some (g f)" by (rule live_folder_update_self[OF ok g(1) f(1)])
  have outside: "rooted ?d j n" if r: "rooted d j n" and j: "j \<notin> set ids" for j n
    using r j
  proof (rule rooted_transfer[where P = "\<lambda>j. j \<notin> set ids"])
    fix j h q k assume j: "j \<notin> set ids" and h: "live_folder d j = Some h" "fd_parent_id h = Some q"
      and k: "live_folder d q = Some k" "fd_owner_id k = fd_owner_id h"
    show "q \<notin> set ids"
    proof
      assume q: "q \<in> set ids"
      then have "fd_owner_id h = owner" using own[OF q k(1)] k(2) by simp
      then have "h \<in> set (child_folders owner q d)"
        using live_folder_SomeD[OF h(1)] h(2) by (simp add: child_folders_def)
      then show False using closed q j live_folder_SomeD[OF h(1)] by blast
    qed
  next
    fix j h assume "j \<notin> set ids" "live_folder d j = Some h"
    then show "\<exists>f'. live_folder ?d j = Some f' \<and> fd_parent_id f' = fd_parent_id h \<and>
        fd_owner_id f' = fd_owner_id h" using same[of j] fin by metis
  qed
  obtain m where "rooted d dest m" using ok live_folder_SomeD[OF t(1)] by (auto simp: forest_ok_def)
  then have rd: "rooted ?d dest m" using outside no by blast
  have "dest \<noteq> fid" using no fin by blast
  then have "live_folder ?d dest = Some t" using same t(1) by simp
  then have rf: "rooted ?d fid (Suc m)"
    using rooted_step[OF self g(3)] rd t(2) g(2)[of f] f(2) by simp
  have all: "\<exists>k. rooted ?d j k" if "rooted d j n" for j n
    using that
  proof (induction rule: rooted.induct)
    case (rooted_root i h)
    then have "i \<noteq> fid" using f(1,3) by auto
    then show ?case using same rooted_root rooted.rooted_root[of ?d i h] by auto
  next
    case (rooted_step i h q k n)
    show ?case
    proof (cases "i = fid")
      case False
      then have h: "live_folder ?d i = Some h" using same rooted_step by simp
      have "\<exists>k'. live_folder ?d q = Some k' \<and> fd_owner_id k' = fd_owner_id h"
        using same[of q] self rooted_step f(1) g(2)[of f] by (cases "q = fid") auto
      then show ?thesis using rooted.rooted_step[OF h] rooted_step by metis
    qed (use rf in blast)
  qed
  have "\<exists>n. rooted ?d (fd_id h) n" if h: "h \<in> set (folders ?d)" "folder_live h" for h
  proof -
    obtain h0 where h0: "h0 \<in> set (folders d)" "folder_live h0" "fd_id h = fd_id h0"
      using h g(1,4) by (auto simp: in_set_update_where)
    then show ?thesis using ok all unfolding forest_ok_def by metis
  qed
  then show ?thesis using forest_update_keys[OF ok g(1)] by (simp add: forest_ok_def)
qed

section \<open>The operations keep the forest\<close>

lemma bump_and_publish_frame:
  "bump_and_publish cx k owner et agg v p d = Inr d' \<Longrightarrow> business d' = business d"
  by (auto simp: bump_and_publish_def result_iffs dest!: bump_frame(1) add_typed_frame)

lemma bump_and_publish_folders:
  "bump_and_publish cx k owner et agg v p d = Inr d' \<Longrightarrow> folders d' = folders d"
  using bump_and_publish_frame business_eqD(3) by blast

lemma folder_of_live:
  assumes "folder_of owner fid d = Inr f"
  shows "f \<in> set (folders d) \<and> owned_folder owner fid f"
  using assms unfolding folder_of_def found_eq_Inr_iff by (rule find_SomeD)

lemma owned_live:
  "forest_ok d \<Longrightarrow> f \<in> set (folders d) \<Longrightarrow> owned_folder owner fid f \<Longrightarrow> live_folder d fid = Some f"
  using live_folder_iff by (simp add: owned_folder_def)

text \<open>What each successful operation did to the folders.\<close>

lemma provision_user_folders:
  assumes "provision_user fresh owner d = Inr d'"
  shows "\<exists>d1. insert_folder \<lparr> fd_id = fresh, fd_owner_id = owner, fd_parent_id = None,
        fd_name = lit ''/'', fd_name_normalized = lit ''/'', fd_deleted_at = None,
        fd_version = 1 \<rparr> d = Inr d1 \<and> folders d' = folders d1"
  using assms unfolding provision_user_def result_iffs
  by (auto dest!: ensure_epoch_frame business_eqD(3))

lemma create_folder_folders:
  assumes "create_folder cx owner parent name d = Inr (f, d')"
  shows "\<exists>d1 p. insert_folder f d = Inr d1 \<and> folder_live f \<and> fd_parent_id f = Some parent \<and>
    fd_owner_id f = owner \<and> folder_of owner parent d = Inr p \<and> folders d' = folders d1"
  using assms unfolding create_folder_def result_iffs Let_def
  by (auto simp: result_iffs dest!: bump_and_publish_folders)

lemma rename_folder_folders:
  assumes "rename_folder cx owner fid version name d = Inr (f', d')"
  shows "\<exists>f n m. f \<in> set (folders d) \<and> owned_folder owner fid f \<and> fd_version f = version \<and>
    folders d' = update_where (\<lambda>g. fd_id g = fid) (\<lambda>g. g\<lparr>fd_name := n, fd_name_normalized := m,
      fd_version := fd_version g + 1\<rparr>) (folders d) \<and> n = fd_name f' \<and> m = fd_name_normalized f' \<and>
      fd_version f' = version + 1"
  using assms unfolding rename_folder_def result_iffs
  by (auto simp: result_iffs owned_folder_def dest!: bump_and_publish_folders update_folder_eq find_SomeD)

lemma move_folder_folders:
  assumes "move_folder cx owner fid dest version d = Inr (f', d')"
  shows "\<exists>f t p ids. f \<in> set (folders d) \<and> owned_folder owner fid f \<and> fd_version f = version \<and>
    fd_parent_id f = Some p \<and> t \<in> set (folders d) \<and> owned_folder owner dest t \<and>
    descendants owner d (map fd_id (filter (owned_folder owner fid) (folders d))) = Some ids \<and>
    dest \<notin> set ids \<and>
    folders d' = update_where (\<lambda>g. fd_id g = fid) (\<lambda>g. g\<lparr>fd_parent_id := Some dest,
      fd_version := fd_version g + 1\<rparr>) (folders d) \<and> fd_version f' = version + 1"
proof -
  obtain f where f: "find (owned_folder owner fid) (folders d) = Some f"
    using assms by (auto simp: move_folder_def split: if_splits option.splits)
  obtain p where p: "fd_parent_id f = Some p"
    using assms f by (auto simp: move_folder_def split: if_splits option.splits)
  have m: "f \<in> set (folders d)" "owned_folder owner fid f" using find_SomeD[OF f] by simp_all
  obtain t where t: "folder_of owner dest d = Inr t" and v: "fd_version f = version"
    using assms f p by (auto simp: move_folder_def result_iffs split: if_splits)
  obtain ids where ids: "descendants owner d (map fd_id (filter (owned_folder owner fid) (folders d))) = Some ids"
    using assms f p v t by (auto simp: move_folder_def split: if_splits option.splits)
  obtain d1 where no: "dest \<notin> set ids" and u: "update_folder fid (\<lambda>g. g\<lparr>fd_parent_id := Some dest,
      fd_version := fd_version g + 1\<rparr>) d = Inr d1" "folders d' = folders d1" "fd_version f' = version + 1"
    using assms f p v t ids m
    by (auto simp: move_folder_def result_iffs owned_folder_def split: if_splits dest!: bump_and_publish_folders)
  show ?thesis using m p v folder_of_live[OF t] ids no update_folder_eq[OF u(1)] u(2,3) by auto
qed

lemma delete_folder_folders:
  assumes "delete_folder cx owner fid version d = Inr d'"
  shows "\<exists>f. f \<in> set (folders d) \<and> owned_folder owner fid f \<and> fd_version f = version \<and>
    (\<forall>g \<in> set (folders d). folder_live g \<longrightarrow> fd_parent_id g \<noteq> Some fid) \<and>
    (\<forall>e \<in> set (file_entries d). entry_live e \<longrightarrow> fe_folder_id e \<noteq> fid) \<and>
    folders d' = update_where (\<lambda>g. fd_id g = fid) (\<lambda>g. g\<lparr>fd_deleted_at := Some (cx_now cx),
      fd_version := fd_version g + 1\<rparr>) (folders d)"
proof -
  obtain f where f: "find (owned_folder owner fid) (folders d) = Some f"
    using assms by (auto simp: delete_folder_def split: option.splits)
  have m: "f \<in> set (folders d)" "owned_folder owner fid f" "fd_id f = fid"
    using find_SomeD[OF f] by (simp_all add: owned_folder_def)
  note r = assms[unfolded delete_folder_def f option.case if_Inl_eq_Inr_iff attempt_eq_Inr_iff]
  then obtain d1 where u: "update_folder fid (\<lambda>g. g\<lparr>fd_deleted_at := Some (cx_now cx),
      fd_version := fd_version g + 1\<rparr>) d = Inr d1" "folders d' = folders d1"
    using m(3) bump_and_publish_folders by blast
  show ?thesis using r m update_folder_eq[OF u(1)] u(2)
    by (intro exI[of _ f]) (auto simp: count_where_0_iff)
qed

inductive drive_step :: "db \<Rightarrow> db \<Rightarrow> bool" where
  ds_provision: "provision_user fresh owner d = Inr d' \<Longrightarrow> drive_step d d'"
| ds_create: "create_folder cx owner parent name d = Inr (f, d') \<Longrightarrow> drive_step d d'"
| ds_rename: "rename_folder cx owner fid version name d = Inr (f, d') \<Longrightarrow> drive_step d d'"
| ds_move: "move_folder cx owner fid dest version d = Inr (f, d') \<Longrightarrow> drive_step d d'"
| ds_delete: "delete_folder cx owner fid version d = Inr d' \<Longrightarrow> drive_step d d'"
| ds_other: "folders d' = folders d \<Longrightarrow> drive_step d d'"

lemma insert_folder_forest:
  assumes "insert_folder f d = Inr d1" "forest_ok d" "folder_live f"
    "case fd_parent_id f of None \<Rightarrow> True | Some p \<Rightarrow> (\<exists>g. live_folder d p = Some g \<and> fd_owner_id g = fd_owner_id f)"
  shows "forest_ok d1"
proof -
  have "d1 = d\<lparr>folders := folders d @ [f]\<rparr>" "\<forall>g \<in> set (folders d). fd_id g \<noteq> fd_id f"
    using insert_folder_eq[OF assms(1)] by (auto simp: folders_collide_def)
  then show ?thesis using forest_insert[OF assms(2) _ assms(3,4)] by simp
qed

lemma drive_step_forest:
  assumes "drive_step d d'" "forest_ok d"
  shows "forest_ok d'"
  using assms(1)
proof cases
  case (ds_provision fresh owner)
  then obtain d1 where i: "insert_folder \<lparr> fd_id = fresh, fd_owner_id = owner, fd_parent_id = None,
        fd_name = lit ''/'', fd_name_normalized = lit ''/'', fd_deleted_at = None,
        fd_version = 1 \<rparr> d = Inr d1" and e: "folders d' = folders d1"
    using provision_user_folders by blast
  have "forest_ok d1" by (rule insert_folder_forest[OF i assms(2)]) simp_all
  then show ?thesis by (rule forest_cong[OF e])
next
  case (ds_create cx owner parent name f)
  then obtain d1 p where c: "insert_folder f d = Inr d1" "folder_live f" "fd_parent_id f = Some parent"
    "fd_owner_id f = owner" "folder_of owner parent d = Inr p" "folders d' = folders d1"
    using create_folder_folders by blast
  have "live_folder d parent = Some p" "fd_owner_id p = owner"
    using folder_of_live[OF c(5)] owned_live[OF assms(2)] by (auto simp: owned_folder_def)
  then have "forest_ok d1" using insert_folder_forest[OF c(1) assms(2) c(2)] c(3,4) by simp
  then show ?thesis using forest_cong[OF c(6)] by simp
next
  case (ds_rename cx owner fid version name f)
  then obtain n m where e: "folders d' = update_where (\<lambda>g. fd_id g = fid) (\<lambda>g. g\<lparr>fd_name := n,
      fd_name_normalized := m, fd_version := fd_version g + 1\<rparr>) (folders d)"
    using rename_folder_folders by blast
  have "forest_ok (d\<lparr>folders := folders d'\<rparr>)" unfolding e by (rule forest_rename[OF assms(2)]) simp_all
  then show ?thesis by (rule forest_cong[rotated]) simp
next
  case (ds_move cx owner fid dest version f')
  then obtain f t p ids where m: "f \<in> set (folders d)" "owned_folder owner fid f" "fd_parent_id f = Some p"
    "t \<in> set (folders d)" "owned_folder owner dest t"
    "descendants owner d (map fd_id (filter (owned_folder owner fid) (folders d))) = Some ids"
    "dest \<notin> set ids"
    and e: "folders d' = update_where (\<lambda>g. fd_id g = fid) (\<lambda>g. g\<lparr>fd_parent_id := Some dest,
      fd_version := fd_version g + 1\<rparr>) (folders d)"
    using move_folder_folders by blast
  have l: "live_folder d fid = Some f" "live_folder d dest = Some t"
    using owned_live[OF assms(2)] m by blast+
  have "fd_owner_id f = owner" "fd_owner_id t = owner" using m by (auto simp: owned_folder_def)
  then have "forest_ok (d\<lparr>folders := folders d'\<rparr>)" unfolding e
    by (intro forest_move[OF assms(2) l(1) _ m(3) l(2) _ m(6,7)]) simp_all
  then show ?thesis by (rule forest_cong[rotated]) simp
next
  case (ds_delete cx owner fid version)
  then have leaf: "\<forall>g \<in> set (folders d). folder_live g \<longrightarrow> fd_parent_id g \<noteq> Some fid"
    and e: "folders d' = update_where (\<lambda>g. fd_id g = fid) (\<lambda>g. g\<lparr>fd_deleted_at := Some (cx_now cx),
      fd_version := fd_version g + 1\<rparr>) (folders d)"
    using delete_folder_folders by blast+
  have "forest_ok (d\<lparr>folders := folders d'\<rparr>)" unfolding e
    by (rule forest_delete[OF assms(2) _ _ leaf]) simp_all
  then show ?thesis by (rule forest_cong[rotated]) simp
next
  case ds_other
  then show ?thesis using forest_cong assms(2) by blast
qed

text \<open>C20: The folders stay a forest: from an empty store, through any sequence of provisioning,
  creating, renaming, moving and deleting, every live folder reaches a live root of its owner, so no
  folder is ever orphaned and none ends up below itself.\<close>

theorem folder_tree_stays_forest:
  "drive_step\<^sup>*\<^sup>* empty_db d \<Longrightarrow> forest_ok d"
proof (induction rule: rtranclp_induct)
  case base
  show ?case by (simp add: forest_ok_def empty_db_def)
next
  case (step d d')
  then show ?case using drive_step_forest by blast
qed

section \<open>Breadcrumbs\<close>

text \<open>A path from the root down: every folder is the parent of the next.\<close>

fun linked_down :: "folder list \<Rightarrow> bool" where
  "linked_down [] = False"
| "linked_down [f] = True"
| "linked_down (f # g # rest) = (fd_parent_id g = Some (fd_id f) \<and> linked_down (g # rest))"

lemma linked_down_snoc:
  "linked_down fs \<Longrightarrow> fd_parent_id g = Some (fd_id (last fs)) \<Longrightarrow> linked_down (fs @ [g])"
  by (induction fs rule: linked_down.induct) auto

lemma find_owned_folder:
  assumes "forest_ok d" "live_folder d p = Some g" "fd_owner_id g = owner"
  shows "find (owned_folder owner p) (folders d) = Some g"
proof -
  have "owned_folder owner p = (\<lambda>f. fd_id f = p \<and> fd_owner_id f = owner \<and> folder_live f)"
    by (auto simp: owned_folder_def)
  then show ?thesis
    using find_key_iff[of fd_id "folders d" p "\<lambda>f. fd_owner_id f = owner \<and> folder_live f" g]
      assms live_folder_SomeD[OF assms(2)] by (simp add: forest_ok_def)
qed

lemma path_up_rooted:
  assumes ok: "forest_ok d"
  shows "rooted d i n \<Longrightarrow> live_folder d i = Some f \<Longrightarrow> fd_owner_id f = owner \<Longrightarrow>
    \<exists>path. path_up owner d f = Some path \<and> linked_down (rev path) \<and> hd path = f \<and> path \<noteq> [] \<and>
      fd_parent_id (last path) = None \<and> length path = Suc n"
proof (induction arbitrary: f rule: rooted.induct)
  case (rooted_root i h)
  then show ?case by (subst path_up.simps) simp
next
  case (rooted_step i h p g n)
  then have h: "h = f" by simp
  obtain path where path: "path_up owner d g = Some path" "linked_down (rev path)" "hd path = g" "path \<noteq> []"
    "fd_parent_id (last path) = None" "length path = Suc n"
    using rooted_step.IH[OF rooted_step.hyps(3)] rooted_step.hyps(4) rooted_step.prems(2) h by auto
  have "find (owned_folder owner p) (folders d) = Some g"
    using find_owned_folder[OF ok rooted_step.hyps(3)] rooted_step.hyps(4) rooted_step.prems(2) h by simp
  then have "path_up owner d f = Some (f # path)"
    using path(1) rooted_step.hyps(2) h by (subst path_up.simps) simp
  moreover have "linked_down (rev (f # path))"
    using linked_down_snoc[OF path(2), of f] path(3,4) rooted_step.hyps(2) h
      live_folder_SomeD[OF rooted_step.hyps(3)] by (simp add: last_rev)
  ultimately show ?case using path(4-6) by simp
qed

text \<open>C21: In a forest the recursive queries return: the descendants that a move inspects are
  computed, and the breadcrumb of a live folder is the path of parents from the owner's root down
  to the folder.\<close>

theorem recursive_queries_return:
  assumes "forest_ok d"
  shows "(\<exists>ids. descendants owner d (map fd_id (filter (owned_folder owner fid) (folders d))) = Some ids) \<and>
    (\<forall>f. find (owned_folder owner fid) (folders d) = Some f \<longrightarrow>
      (\<exists>path. breadcrumb owner fid d = Some (Inr path) \<and> linked_down path \<and>
        fd_parent_id (hd path) = None \<and> last path = f))"
proof (intro conjI allI impI)
  fix f assume f: "find (owned_folder owner fid) (folders d) = Some f"
  then have m: "f \<in> set (folders d)" "owned_folder owner fid f" by (auto dest: find_SomeD)
  then have l: "live_folder d fid = Some f" using owned_live[OF assms] by blast
  obtain n where "rooted d fid n" using assms m by (auto simp: forest_ok_def owned_folder_def)
  then obtain path where "path_up owner d f = Some path" "linked_down (rev path)" "hd path = f" "path \<noteq> []"
    "fd_parent_id (last path) = None"
    using path_up_rooted[OF assms _ l] m(2) by (auto simp: owned_folder_def)
  then show "\<exists>path. breadcrumb owner fid d = Some (Inr path) \<and> linked_down path \<and>
      fd_parent_id (hd path) = None \<and> last path = f"
    by (intro exI[of _ "rev path"]) (simp add: breadcrumb_def f hd_rev last_rev)
qed (rule descendants_total_aux[OF assms])

end
