(* ===== verification/DriveWrites.thy ===== *)
theory DriveWrites
  imports FolderTree
begin

text \<open>
  The writes of \<open>Drive\<close> as seen by concurrent clients: the version a client saw fences its write,
  and every write advances the owner's content epoch.
\<close>

section \<open>Optimistic versions\<close>

text \<open>The writes of one folder or file that carry the version the client saw.\<close>

datatype folder_write = RenameFolder gotext | MoveFolder uuid | DeleteFolder

definition write_folder :: "ctx \<Rightarrow> uuid \<Rightarrow> uuid \<Rightarrow> int \<Rightarrow> folder_write \<Rightarrow> db \<Rightarrow> db result" where
  "write_folder cx owner fid version w d =
     (case w of
        RenameFolder name \<Rightarrow> attempt (rename_folder cx owner fid version name d) (\<lambda>(f, d'). Inr d')
      | MoveFolder dest \<Rightarrow> attempt (move_folder cx owner fid dest version d) (\<lambda>(f, d'). Inr d')
      | DeleteFolder \<Rightarrow> delete_folder cx owner fid version d)"

datatype file_write = RenameFile gotext | MoveFile uuid | DeleteFile

definition write_file :: "ctx \<Rightarrow> uuid \<Rightarrow> uuid \<Rightarrow> int \<Rightarrow> file_write \<Rightarrow> db \<Rightarrow> db result" where
  "write_file cx owner eid version w d =
     (case w of
        RenameFile name \<Rightarrow> rename_file_tx cx owner eid version name d
      | MoveFile dest \<Rightarrow> move_file_tx cx owner eid dest version d
      | DeleteFile \<Rightarrow> delete_file cx owner eid version d)"

text \<open>Rows are never lost and their versions never fall.\<close>

definition row_advances :: "('a \<Rightarrow> uuid) \<Rightarrow> ('a \<Rightarrow> int) \<Rightarrow> 'a list \<Rightarrow> 'a list \<Rightarrow> bool" where
  "row_advances key version xs ys \<longleftrightarrow> (key_distinct key xs \<longrightarrow> key_distinct key ys) \<and>
     (\<forall>x \<in> set xs. \<exists>y \<in> set ys. key y = key x \<and> version x \<le> version y)"

lemma row_advances_refl: "row_advances key version xs xs"
  by (auto simp: row_advances_def)

lemma row_advances_trans:
  assumes "row_advances key version xs ys" "row_advances key version ys zs"
  shows "row_advances key version xs zs"
proof -
  have "\<exists>z \<in> set zs. key z = key x \<and> version x \<le> version z" if "x \<in> set xs" for x
    using that assms unfolding row_advances_def by (metis order_trans)
  then show ?thesis using assms by (simp add: row_advances_def)
qed

lemma row_advances_insert:
  assumes "\<And>x. x \<in> set xs \<Longrightarrow> key x \<noteq> key y"
  shows "row_advances key version xs (xs @ [y])"
proof -
  have "key y \<notin> key ` set xs" using assms by force
  then show ?thesis by (auto simp: row_advances_def intro: key_distinct_append_new)
qed

lemma row_advances_update:
  assumes "\<And>x. key (g x) = key x" "\<And>x. version (g x) = version x + 1"
  shows "row_advances key version xs (update_where P g xs)"
proof -
  have "\<exists>y \<in> set (update_where P g xs). key y = key x \<and> version x \<le> version y" if x: "x \<in> set xs" for x
  proof (cases "P x")
    case True
    then have "g x \<in> set (update_where P g xs)" using x by (auto simp: in_set_update_where)
    then show ?thesis using assms by (intro bexI[of _ "g x"]) simp_all
  next
    case False
    then have "x \<in> set (update_where P g xs)" using x by (auto simp: in_set_update_where)
    then show ?thesis by blast
  qed
  then show ?thesis using assms(1) by (auto simp: row_advances_def intro: key_distinct_update)
qed

text \<open>Once a row is past a version, no later state has it at that version.\<close>

lemma row_advances_past:
  assumes "row_advances key version xs ys" "key_distinct key xs" "x \<in> set xs" "key x = i" "v < version x"
  shows "\<not> (\<exists>y \<in> set ys. key y = i \<and> version y = v)"
proof -
  obtain z where z: "z \<in> set ys" "key z = i" "v < version z" using assms(1,3-5) unfolding row_advances_def by fastforce
  have "key_distinct key ys" using assms(1,2) by (simp add: row_advances_def)
  then show ?thesis using key_unique[of key ys _ z] z by fastforce
qed

lemma write_folder_row:
  assumes "write_folder cx owner fid v w d = Inr d'"
  shows "\<exists>f g. f \<in> set (folders d) \<and> fd_id f = fid \<and> folder_live f \<and> fd_version f = v \<and>
    folders d' = update_where (\<lambda>g. fd_id g = fid) g (folders d) \<and>
    (\<forall>h. fd_id (g h) = fd_id h \<and> fd_version (g h) = fd_version h + 1)"
proof (cases w)
  case (RenameFolder name)
  then obtain f' where "rename_folder cx owner fid v name d = Inr (f', d')"
    using assms by (auto simp: write_folder_def result_iffs)
  from rename_folder_folders[OF this] show ?thesis by (elim exE conjE) (force simp: owned_folder_def)
next
  case (MoveFolder dest)
  then obtain f' where "move_folder cx owner fid dest v d = Inr (f', d')"
    using assms by (auto simp: write_folder_def result_iffs)
  from move_folder_folders[OF this] show ?thesis by (elim exE conjE) (force simp: owned_folder_def)
next
  case DeleteFolder
  then have "delete_folder cx owner fid v d = Inr d'" using assms by (simp add: write_folder_def)
  from delete_folder_folders[OF this] show ?thesis by (elim exE conjE) (force simp: owned_folder_def)
qed

lemma insert_folder_advances: "insert_folder f d = Inr d' \<Longrightarrow> row_advances fd_id fd_version (folders d) (folders d')"
  using insert_folder_eq[of f d d'] by (auto simp: folders_collide_def intro!: row_advances_insert)

lemma write_folder_advances:
  "write_folder cx owner fid v w d = Inr d' \<Longrightarrow> row_advances fd_id fd_version (folders d) (folders d')"
  using write_folder_row[of cx owner fid v w d d'] by (auto intro!: row_advances_update)

lemma drive_step_advances: "drive_step d d' \<Longrightarrow> row_advances fd_id fd_version (folders d) (folders d')"
proof (induction rule: drive_step.induct)
  case (ds_provision fresh owner d d')
  from provision_user_folders[OF this] show ?case using insert_folder_advances by auto
next
  case (ds_create cx owner parent name d f d')
  from create_folder_folders[OF this] show ?case using insert_folder_advances by auto
next
  case (ds_rename cx owner fid version name d f d')
  then show ?case using write_folder_advances[of cx owner fid version "RenameFolder name" d d'] by (simp add: write_folder_def)
next
  case (ds_move cx owner fid dest version d f d')
  then show ?case using write_folder_advances[of cx owner fid version "MoveFolder dest" d d'] by (simp add: write_folder_def)
next
  case (ds_delete cx owner fid version d d')
  then show ?case using write_folder_advances[of cx owner fid version DeleteFolder d d'] by (simp add: write_folder_def)
qed (simp add: row_advances_refl)

lemma drive_steps_advance: "drive_step\<^sup>*\<^sup>* d d' \<Longrightarrow> row_advances fd_id fd_version (folders d) (folders d')"
  by (induction rule: rtranclp_induct) (auto intro: row_advances_refl row_advances_trans drive_step_advances)

lemma entry_of_mem:
  assumes "entry_of owner eid d = Inr e"
  shows "e \<in> set (file_entries d) \<and> fe_id e = eid \<and> fe_owner_id e = owner \<and> entry_live e"
  using assms unfolding entry_of_def found_eq_Inr_iff by (drule_tac find_SomeD) (simp add: owned_entry_def)

lemma bump_and_publish_entries:
  "bump_and_publish cx k owner et agg v p d = Inr d' \<Longrightarrow> file_entries d' = file_entries d"
  using bump_and_publish_frame business_eqD(4) by blast

lemma rename_file_entries:
  assumes "rename_file_tx cx owner eid version name d = Inr d'"
  shows "\<exists>e n m. entry_of owner eid d = Inr e \<and> fe_version e = version \<and> file_entries d' =
    update_where (\<lambda>g. fe_id g = eid) (\<lambda>g. g\<lparr>fe_name := n, fe_name_normalized := m,
      fe_version := fe_version g + 1\<rparr>) (file_entries d)"
proof -
  note r = assms[unfolded rename_file_tx_def tx_steps]
  obtain n m e d1 where s: "entry_of owner eid d = Inr e" "fe_version e = version"
    "update_entry (fe_id e) (\<lambda>g. g\<lparr>fe_name := n, fe_name_normalized := m,
      fe_version := fe_version g + 1\<rparr>) d = Inr d1" "file_entries d' = file_entries d1"
    using r bump_and_publish_entries by blast
  show ?thesis using s(1,2,4) update_entry_eq[OF s(3)] entry_of_mem[OF s(1)] by auto
qed

lemma move_file_entries:
  assumes "move_file_tx cx owner eid dest version d = Inr d'"
  shows "\<exists>e t. entry_of owner eid d = Inr e \<and> fe_version e = version \<and> folder_of owner dest d = Inr t \<and>
    file_entries d' = update_where (\<lambda>g. fe_id g = eid) (\<lambda>g. g\<lparr>fe_folder_id := dest,
      fe_version := fe_version g + 1\<rparr>) (file_entries d)"
proof -
  obtain t e d1 where s: "entry_of owner eid d = Inr e" "fe_version e = version"
    "folder_of owner dest d = Inr t" "update_entry (fe_id e) (\<lambda>g. g\<lparr>fe_folder_id := dest,
      fe_version := fe_version g + 1\<rparr>) d = Inr d1" "file_entries d' = file_entries d1"
    using assms[unfolded move_file_tx_def attempt_eq_Inr_iff if_Inl_eq_Inr_iff on_error_eq_Inr_iff]
      bump_and_publish_entries by blast
  show ?thesis using s(1-3,5) update_entry_eq[OF s(4)] entry_of_mem[OF s(1)] by auto
qed

lemma release_reference_entries: "release_reference oid d = Inr (n, d') \<Longrightarrow> file_entries d' = file_entries d"
  by (auto simp: release_reference_def Let_def result_iffs update_objects_def)

lemma delete_file_steps:
  assumes "delete_file cx owner eid version d = Inr d'"
  obtains e obj d1 ep d2 remaining d3 d4 where "entry_of owner eid d = Inr e" "fe_version e = version"
    "get_object (fe_object_id e) d = Inr obj"
    "update_entry (fe_id e) (\<lambda>g. g\<lparr>fe_deleted_at := Some (cx_now cx), fe_version := fe_version g + 1\<rparr>) d = Inr d1"
    "bump_content owner d1 = Inr (ep, d2)" "release_reference (fe_object_id e) d2 = Inr (remaining, d3)"
    "remove_logical_usage owner (fo_size_bytes obj) d3 = Inr d4" "business d' = business d4"
    "owner_epochs d' = owner_epochs d4"
proof -
  note r = assms[unfolded delete_file_def tx_steps]
  show thesis using r
  proof (elim exE conjE)
    fix e obj d1 ep d2 remaining d3 d4 d5
    assume s: "entry_of owner eid d = Inr e" "\<not> fe_version e \<noteq> version"
      "get_object (fe_object_id e) d = Inr obj"
      "update_entry (fe_id e) (\<lambda>g. g\<lparr>fe_deleted_at := Some (cx_now cx), fe_version := fe_version g + 1\<rparr>) d = Inr d1"
      "bump_content owner d1 = Inr (ep, d2)" "release_reference (fe_object_id e) d2 = Inr (remaining, d3)"
      "remove_logical_usage owner (fo_size_bytes obj) d3 = Inr d4"
      and a: "add_typed cx 0 (typed_input event_file_deleted (fe_id e) (fe_version e + 1) ''core-api''
          (FileDeletedV1 owner (fe_id e) (fe_object_id e) (cx_now cx) (ep_content_epoch ep))) d4 = Inr d5"
      and l: "(if remaining = 0 then attempt (found GormRecordNotFound (object_by_id (fo_id obj) d5))
          (\<lambda>latest. add_typed cx 1 (typed_input event_object_gc_requested (fo_id latest) (fo_version latest)
                ''core-api'' (ObjectGCRequestedV1 (fo_id latest))) d5) else Inr d5) = Inr d'"
    have "business d' = business d5 \<and> owner_epochs d' = owner_epochs d5"
      using l add_typed_frame by (auto simp: attempt_eq_Inr_iff split: if_splits)
    then have "business d' = business d4" "owner_epochs d' = owner_epochs d4"
      using add_typed_frame[OF a] by simp_all
    then show thesis using s by (intro that) simp_all
  qed
qed

lemma delete_file_entries:
  assumes "delete_file cx owner eid version d = Inr d'"
  shows "\<exists>e. entry_of owner eid d = Inr e \<and> fe_version e = version \<and>
    file_entries d' = update_where (\<lambda>g. fe_id g = eid) (\<lambda>g. g\<lparr>fe_deleted_at := Some (cx_now cx),
      fe_version := fe_version g + 1\<rparr>) (file_entries d)"
proof (rule delete_file_steps[OF assms])
  fix e obj d1 ep d2 remaining d3 d4
  assume s: "entry_of owner eid d = Inr e" "fe_version e = version"
    "update_entry (fe_id e) (\<lambda>g. g\<lparr>fe_deleted_at := Some (cx_now cx), fe_version := fe_version g + 1\<rparr>) d = Inr d1"
    "bump_content owner d1 = Inr (ep, d2)" "release_reference (fe_object_id e) d2 = Inr (remaining, d3)"
    "remove_logical_usage owner (fo_size_bytes obj) d3 = Inr d4" "business d' = business d4"
  have "file_entries d' = file_entries d4" using business_eqD(4)[OF s(7)] .
  also have "\<dots> = file_entries d3" using s(6) by (auto simp: remove_logical_usage_def)
  also have "\<dots> = file_entries d2" using release_reference_entries[OF s(5)] .
  also have "\<dots> = file_entries d1" using business_eqD(4)[OF bump_frame(1)[OF s(4)]] .
  finally have "file_entries d' = update_where (\<lambda>g. fe_id g = fe_id e) (\<lambda>g. g\<lparr>fe_deleted_at :=
      Some (cx_now cx), fe_version := fe_version g + 1\<rparr>) (file_entries d)"
    using update_entry_eq[OF s(3)] by simp
  then show ?thesis using s(1,2) entry_of_mem[OF s(1)] by simp
qed

lemma write_file_row:
  assumes "write_file cx owner eid v w d = Inr d'"
  shows "\<exists>e g. e \<in> set (file_entries d) \<and> fe_id e = eid \<and> entry_live e \<and> fe_version e = v \<and>
    file_entries d' = update_where (\<lambda>g. fe_id g = eid) g (file_entries d) \<and>
    (\<forall>h. fe_id (g h) = fe_id h \<and> fe_version (g h) = fe_version h + 1)"
proof -
  have "\<exists>e g. entry_of owner eid d = Inr e \<and> fe_version e = v \<and>
    file_entries d' = update_where (\<lambda>g. fe_id g = eid) g (file_entries d) \<and>
    (\<forall>h. fe_id (g h) = fe_id h \<and> fe_version (g h) = fe_version h + 1)"
    using assms by (cases w) (fastforce simp: write_file_def
      dest: rename_file_entries move_file_entries delete_file_entries)+
  then show ?thesis using entry_of_mem by blast
qed

text \<open>What happens to file entries: they are created, written with a version, and left alone by every other
  transaction.\<close>

inductive entry_step :: "db \<Rightarrow> db \<Rightarrow> bool" where
  es_create: "create_file fresh owner fid oid name d = Inr (e, d') \<Longrightarrow> entry_step d d'"
| es_write: "write_file cx owner eid version w d = Inr d' \<Longrightarrow> entry_step d d'"
| es_other: "file_entries d' = file_entries d \<Longrightarrow> entry_step d d'"

lemma write_file_advances:
  "write_file cx owner eid v w d = Inr d' \<Longrightarrow> row_advances fe_id fe_version (file_entries d) (file_entries d')"
  using write_file_row[of cx owner eid v w d d'] by (auto intro!: row_advances_update)

lemma create_file_advances:
  assumes "create_file fresh owner fid oid name d = Inr (e, d')"
  shows "row_advances fe_id fe_version (file_entries d) (file_entries d')"
proof -
  obtain d1 ep where s: "insert_entry e d = Inr d1" "bump_content owner d1 = Inr (ep, d')"
    using assms by (auto simp: create_file_def result_iffs Let_def)
  have "file_entries d' = file_entries d1" using business_eqD(4)[OF bump_frame(1)[OF s(2)]] .
  then show ?thesis using insert_entry_eq[OF s(1)] by (auto simp: entries_collide_def intro!: row_advances_insert)
qed

lemma entry_steps_advance: "entry_step\<^sup>*\<^sup>* d d' \<Longrightarrow> row_advances fe_id fe_version (file_entries d) (file_entries d')"
proof (induction rule: rtranclp_induct)
  case (step y z)
  have "row_advances fe_id fe_version (file_entries y) (file_entries z)"
    using step(2) by (cases rule: entry_step.cases) (auto intro: create_file_advances write_file_advances simp: row_advances_refl)
  then show ?case using step(3) row_advances_trans by blast
qed (rule row_advances_refl)

text \<open>C22: No update is lost: once a write of a folder or a file that carried some version has committed, every
  later write that carries the same version fails, whoever sends it, whatever it would do and whatever has
  happened to the drive in between (folders provisioned, created, renamed, moved and deleted, files created,
  renamed, moved and deleted, and any transaction that leaves the rows of that table alone).\<close>

theorem no_lost_update:
  assumes "key_distinct fd_id (folders d)" "key_distinct fe_id (file_entries d)"
    and "(write_folder cx owner i v w d = Inr d1 \<and> drive_step\<^sup>*\<^sup>* d1 d2 \<and> r = write_folder cx2 owner2 i v w2 d2) \<or>
      (write_file cx owner i v u d = Inr d1 \<and> entry_step\<^sup>*\<^sup>* d1 d2 \<and> r = write_file cx2 owner2 i v u2 d2)"
  shows "\<not> is_ok r"
  using assms(3)
proof (elim disjE conjE)
  assume w: "write_folder cx owner i v w d = Inr d1" and s: "drive_step\<^sup>*\<^sup>* d1 d2" and r: "r = write_folder cx2 owner2 i v w2 d2"
  obtain f g where f: "f \<in> set (folders d)" "fd_id f = i" "fd_version f = v" "folders d1 = update_where (\<lambda>g. fd_id g = i) g (folders d)"
    "fd_id (g f) = i" "fd_version (g f) = v + 1" using write_folder_row[OF w] by auto
  have x: "g f \<in> set (folders d1)" using f(1,2,4) by (auto simp: in_set_update_where)
  have k: "key_distinct fd_id (folders d1)" using write_folder_advances[OF w] assms(1) by (simp add: row_advances_def)
  have past: "\<not> (\<exists>h \<in> set (folders d2). fd_id h = i \<and> fd_version h = v)"
    by (rule row_advances_past[OF drive_steps_advance[OF s] k x f(5)]) (simp add: f(6))
  show ?thesis using write_folder_row[of cx2 owner2 i v w2 d2] past unfolding r
    by (cases "write_folder cx2 owner2 i v w2 d2") auto
next
  assume w: "write_file cx owner i v u d = Inr d1" and s: "entry_step\<^sup>*\<^sup>* d1 d2" and r: "r = write_file cx2 owner2 i v u2 d2"
  obtain e g where e: "e \<in> set (file_entries d)" "fe_id e = i" "fe_version e = v"
    "file_entries d1 = update_where (\<lambda>g. fe_id g = i) g (file_entries d)"
    "fe_id (g e) = i" "fe_version (g e) = v + 1" using write_file_row[OF w] by auto
  have x: "g e \<in> set (file_entries d1)" using e(1,2,4) by (auto simp: in_set_update_where)
  have k: "key_distinct fe_id (file_entries d1)" using write_file_advances[OF w] assms(2) by (simp add: row_advances_def)
  have past: "\<not> (\<exists>h \<in> set (file_entries d2). fe_id h = i \<and> fe_version h = v)"
    by (rule row_advances_past[OF entry_steps_advance[OF s] k x e(5)]) (simp add: e(6))
  show ?thesis using write_file_row[of cx2 owner2 i v u2 d2] past unfolding r
    by (cases "write_file cx2 owner2 i v u2 d2") auto
qed

end
