(* ===== verification/DrivePages.thy ===== *)
theory DrivePages
  imports DriveWrites
begin

text \<open>
  Keyset paging of a folder listing (\<open>childrenPage\<close>): a client that follows the cursors sees every
  child exactly once and in order, and a cursor minted before a write is refused after it.
\<close>

section \<open>The order of a listing\<close>

definition collation_ok :: "drive_env \<Rightarrow> bool" where
  "collation_ok env \<longleftrightarrow> (\<forall>a b c. dv_less env a b \<longrightarrow> dv_less env b c \<longrightarrow> dv_less env a c) \<and>
     (\<forall>a. \<not> dv_less env a a) \<and> (\<forall>a b. a \<noteq> b \<longrightarrow> dv_less env a b \<or> dv_less env b a)"

lemma key_before_order:
  assumes "collation_ok env"
  shows "\<not> key_before env s a a"
    "key_before env s a b \<Longrightarrow> key_before env s b c \<Longrightarrow> key_before env s a c"
    "a \<noteq> b \<Longrightarrow> \<not> key_before env s a b \<Longrightarrow> key_before env s b a"
proof -
  have t: "dv_less env x y \<Longrightarrow> dv_less env y z \<Longrightarrow> dv_less env x z"
    and i: "\<not> dv_less env x x" and n: "x \<noteq> y \<Longrightarrow> dv_less env x y \<or> dv_less env y x" for x y z
    using assms unfolding collation_ok_def by blast+
  show "\<not> key_before env s a a" using i by (cases s) (simp_all add: key_before_def)
  show "key_before env s a b \<Longrightarrow> key_before env s b c \<Longrightarrow> key_before env s a c"
    by (cases s) (auto simp: key_before_def dest: t intro: less_trans)
  show "a \<noteq> b \<Longrightarrow> \<not> key_before env s a b \<Longrightarrow> key_before env s b a"
    by (cases "fst a = fst b"; cases s) (use n[of "fst a" "fst b"] in \<open>auto simp: key_before_def prod_eq_iff\<close>)
qed

lemma mset_insert_ordered: "mset (insert_ordered P x xs) = add_mset x (mset xs)"
  by (induction xs) auto

lemma mset_order_by: "mset (order_by P xs) = mset xs"
  by (induction xs) (simp_all add: order_by_def mset_insert_ordered)

lemma set_order_by: "set (order_by P xs) = set xs"
  by (rule mset_eq_setD) (rule mset_order_by)

lemma sorted_insert_ordered:
  assumes t: "\<And>a b c. P a b \<Longrightarrow> P b c \<Longrightarrow> P a c"
    and n: "\<And>y. y \<in> set xs \<Longrightarrow> \<not> P y x \<Longrightarrow> P x y"
  shows "sorted_wrt P xs \<Longrightarrow> sorted_wrt P (insert_ordered P x xs)"
  using n
proof (induction xs)
  case (Cons y ys)
  have s: "set (insert_ordered P x zs) = insert x (set zs)" for zs
    using mset_insert_ordered[of P x zs] by (metis set_mset_add_mset_insert set_mset_mset)
  show ?case
  proof (cases "P y x")
    case True
    then show ?thesis using Cons by (auto simp: s)
  next
    case False
    then have "P x y" using Cons.prems(2) by simp
    then show ?thesis using Cons.prems(1) False t by auto
  qed
qed simp

lemma sorted_order_by:
  assumes o: "collation_ok env" and d: "distinct (map key xs)"
  shows "sorted_wrt (\<lambda>a b. key_before env s (key a) (key b)) (order_by (\<lambda>a b. key_before env s (key a) (key b)) xs)"
  using d
proof (induction xs)
  case (Cons x xs)
  let ?P = "\<lambda>a b. key_before env s (key a) (key b)"
  have "sorted_wrt ?P (insert_ordered ?P x (order_by ?P xs))"
  proof (rule sorted_insert_ordered)
    show "?P x y" if "y \<in> set (order_by ?P xs)" "\<not> ?P y x" for y
    proof -
      have "key y \<noteq> key x" using that(1) Cons.prems by (auto simp: set_order_by image_iff)
      then show ?thesis using key_before_order(3)[OF o _ that(2)] by simp
    qed
  qed (use key_before_order(2)[OF o] Cons in auto)
  then show ?case by (simp add: order_by_def)
qed (simp add: order_by_def)

text \<open>What lies after an element of a strictly ordered list is the rest of the list.\<close>

lemma filter_after:
  assumes "sorted_wrt P xs" "\<And>a. \<not> P a a" "\<And>a b c. P a b \<Longrightarrow> P b c \<Longrightarrow> P a c" "i < length xs"
  shows "filter (P (xs ! i)) xs = drop (Suc i) xs"
proof -
  have split: "xs = take i xs @ xs ! i # drop (Suc i) xs" using assms(4) by (rule id_take_nth_drop)
  have "\<not> P (xs ! i) y" if "y \<in> set (take i xs)" for y
  proof
    assume "P (xs ! i) y"
    moreover have "P y (xs ! i)"
      using assms(1) that split by (metis in_set_conv_decomp list.set_intros(1) sorted_wrt_append)
    ultimately show False using assms(2,3) by blast
  qed
  moreover have "P (xs ! i) y" if "y \<in> set (drop (Suc i) xs)" for y
    using assms(1) that split by (metis sorted_wrt.simps(2) sorted_wrt_append)
  ultimately have "filter (P (xs ! i)) (take i xs @ xs ! i # drop (Suc i) xs) = drop (Suc i) xs"
    using assms(2) by (auto simp: filter_empty_conv filter_id_conv)
  then show ?thesis using split by metis
qed

section \<open>Slices\<close>

definition listing :: "drive_env \<Rightarrow> sort_order \<Rightarrow> uuid \<Rightarrow> uuid \<Rightarrow> db \<Rightarrow> child_item list" where
  "listing env s owner fid d = map ItemFolder (ordered_folders env s owner fid d) @
     map ItemFile (ordered_files env s owner fid d)"

lemma item_folders_append [simp]: "item_folders (a @ b) = item_folders a @ item_folders b"
  by (induction a rule: item_folders.induct) auto

lemma item_files_append [simp]: "item_files (a @ b) = item_files a @ item_files b"
  by (induction a rule: item_files.induct) auto

lemma item_parts [simp]:
  "item_folders (map ItemFolder fs) = fs" "item_files (map ItemFolder fs) = []"
  "item_folders (map ItemFile vs) = []" "item_files (map ItemFile vs) = vs"
proof -
  show "item_folders (map ItemFolder fs) = fs" "item_files (map ItemFolder fs) = []"
    by (induction fs) auto
  show "item_folders (map ItemFile vs) = []" "item_files (map ItemFile vs) = vs"
    by (induction vs) auto
qed

lemma listing_parts:
  "item_folders (listing env s owner fid d) = ordered_folders env s owner fid d"
  "item_files (listing env s owner fid d) = ordered_files env s owner fid d"
  by (simp_all add: listing_def)

lemma two_slices:
  "take n (take (n + 1) a @ take (n + 1) b) = take n (a @ b)"
  "n < length (take (n + 1) a @ take (n + 1) b) \<longleftrightarrow> n < length (a @ b)"
  by (auto simp: min_def)

fun at_item :: "child_item \<Rightarrow> child_cursor \<Rightarrow> bool" where
  "at_item (ItemFolder f) c \<longleftrightarrow> cc_kind c = 0 \<and> cc_name c = fd_name_normalized f \<and> cc_id c = fd_id f"
| "at_item (ItemFile v) c \<longleftrightarrow> cc_kind c = 1 \<and> cc_name c = fe_name_normalized (fv_entry v) \<and>
     cc_id c = fe_id (fv_entry v)"

lemma length_order_by: "length (order_by P xs) = length xs"
  by (rule mset_eq_length) (rule mset_order_by)

lemma view_of_entry: "view_of d e = Some v \<Longrightarrow> fv_entry v = e"
  by (auto simp: view_of_def split: option.splits)

lemma distinct_views:
  "distinct (map fe_id es) \<Longrightarrow> distinct (map file_key (List.map_filter (view_of d) es))"
proof (induction es)
  case (Cons e es)
  have other: "fe_id (fv_entry v) \<noteq> fe_id e" if v: "v \<in> set (List.map_filter (view_of d) es)" for v
  proof -
    obtain a where a: "a \<in> set es" "view_of d a = Some v" using v by (auto simp: map_filter_def)
    then have "fe_id (fv_entry v) \<in> set (map fe_id es)" using view_of_entry[OF a(2)] by simp
    then show ?thesis using Cons.prems by auto
  qed
  moreover have "distinct (map file_key (List.map_filter (view_of d) es))" using Cons by simp
  ultimately show ?case
  proof (cases "view_of d e")
    case (Some v)
    then have "fv_entry v = e" by (rule view_of_entry)
    then have "file_key v \<notin> file_key ` set (List.map_filter (view_of d) es)"
      using other unfolding file_key_def by fastforce
    then show ?thesis using Some \<open>distinct (map file_key (List.map_filter (view_of d) es))\<close>
      by (simp add: map_filter_simps)
  qed (simp add: map_filter_simps)
qed (simp add: map_filter_simps)

lemma child_keys_distinct:
  assumes "key_distinct fd_id (folders d)" "key_distinct fe_id (file_entries d)"
  shows "distinct (map folder_key (child_folders owner fid d))" "distinct (map file_key (child_files owner fid d))"
proof -
  have "distinct (map fd_id (child_folders owner fid d))"
    using assms(1) unfolding child_folders_def key_distinct_def by (rule distinct_map_filter)
  then show "distinct (map folder_key (child_folders owner fid d))"
    unfolding distinct_map inj_on_def by (auto simp: folder_key_def)
  let ?es = "filter (\<lambda>e. fe_owner_id e = owner \<and> fe_folder_id e = fid \<and> entry_live e) (file_entries d)"
  have "distinct (map fe_id ?es)" using assms(2) unfolding key_distinct_def by (rule distinct_map_filter)
  then have "distinct (map file_key (List.map_filter (view_of d) ?es))" by (rule distinct_views)
  then show "distinct (map file_key (child_files owner fid d))" by (simp add: child_files_def)
qed

lemma page_slice:
  assumes o: "collation_ok env" and k: "key_distinct fd_id (folders d)" "key_distinct fe_id (file_entries d)"
    and i: "i < length (listing env s owner fid d)" "at_item (listing env s owner fid d ! i) c"
  shows "take n (load_children_page env s owner fid (Some c) n d) = take n (drop (Suc i) (listing env s owner fid d)) \<and>
    (n < length (load_children_page env s owner fid (Some c) n d) \<longleftrightarrow>
       n < length (drop (Suc i) (listing env s owner fid d)))"
proof -
  let ?fs = "ordered_folders env s owner fid d" and ?vs = "ordered_files env s owner fid d"
  let ?F = "\<lambda>f g. key_before env s (folder_key f) (folder_key g)"
  let ?V = "\<lambda>f g. key_before env s (file_key f) (file_key g)"
  note ord = key_before_order[OF o]
  have sf: "sorted_wrt ?F ?fs" unfolding ordered_folders_def by (rule sorted_order_by[OF o child_keys_distinct(1)[OF k]])
  have sv: "sorted_wrt ?V ?vs" unfolding ordered_files_def by (rule sorted_order_by[OF o child_keys_distinct(2)[OF k]])
  show ?thesis
  proof (cases "i < length ?fs")
    case True
    then have l: "listing env s owner fid d ! i = ItemFolder (?fs ! i)" by (simp add: listing_def nth_append)
    then have c: "cc_kind c = 0" "(cc_name c, cc_id c) = folder_key (?fs ! i)"
      using i(2) by (simp_all add: folder_key_def)
    have "filter (?F (?fs ! i)) ?fs = drop (Suc i) ?fs"
      by (rule filter_after[OF sf ord(1) ord(2) True])
    then have "load_children_page env s owner fid (Some c) n d =
        take (n + 1) (map ItemFolder (drop (Suc i) ?fs)) @ take (n + 1) (map ItemFile ?vs)"
      using c by (simp add: load_children_page_def Let_def take_map)
    moreover have "drop (Suc i) (listing env s owner fid d) = map ItemFolder (drop (Suc i) ?fs) @ map ItemFile ?vs"
      using True by (simp add: listing_def drop_map)
    ultimately show ?thesis using two_slices[of n "map ItemFolder (drop (Suc i) ?fs)" "map ItemFile ?vs"] by metis
  next
    case False
    let ?j = "i - length ?fs"
    have j: "?j < length ?vs" using False i(1) by (simp add: listing_def)
    have "listing env s owner fid d ! i = ItemFile (?vs ! ?j)" using False j by (simp add: listing_def nth_append)
    then have c: "cc_kind c = 1" "(cc_name c, cc_id c) = file_key (?vs ! ?j)"
      using i(2) by (simp_all add: file_key_def)
    have "filter (?V (?vs ! ?j)) ?vs = drop (Suc ?j) ?vs"
      by (rule filter_after[OF sv ord(1) ord(2) j])
    then have "load_children_page env s owner fid (Some c) n d =
        take (n + 1) [] @ take (n + 1) (map ItemFile (drop (Suc ?j) ?vs))"
      using c by (simp add: load_children_page_def Let_def take_map)
    moreover have "drop (Suc i) (listing env s owner fid d) = [] @ map ItemFile (drop (Suc ?j) ?vs)"
      using False by (simp add: listing_def drop_map Suc_diff_le)
    ultimately show ?thesis using two_slices[of n "[]" "map ItemFile (drop (Suc ?j) ?vs)"] by metis
  qed
qed

lemma first_slice:
  "take n (load_children_page env s owner fid None n d) = take n (listing env s owner fid d) \<and>
    (n < length (load_children_page env s owner fid None n d) \<longleftrightarrow> n < length (listing env s owner fid d))"
  using two_slices[of n "map ItemFolder (ordered_folders env s owner fid d)" "map ItemFile (ordered_files env s owner fid d)"]
  by (simp add: load_children_page_def Let_def listing_def take_map)

section \<open>Following the cursors\<close>

text \<open>A client that asks for page after page until there is no more.\<close>

fun collect_pages ::
  "drive_env \<Rightarrow> uuid \<Rightarrow> uuid \<Rightarrow> int \<Rightarrow> string \<Rightarrow> db \<Rightarrow> nat \<Rightarrow> string \<Rightarrow>
   (folder list \<times> file_view list) result option" where
  "collect_pages env owner fid limit order d 0 raw = None"
| "collect_pages env owner fid limit order d (Suc k) raw =
     (case children_page env owner fid raw limit order d d of
        Inl e \<Rightarrow> Some (Inl e)
      | Inr p \<Rightarrow>
          if \<not> cp_has_more p then Some (Inr (cp_folders p, cp_files p))
          else (case collect_pages env owner fid limit order d k (cp_cursor p) of
                  Some (Inr (fs, vs)) \<Rightarrow> Some (Inr (cp_folders p @ fs, cp_files p @ vs))
                | r \<Rightarrow> r))"

text \<open>The text forms of the cursors that a listing can hand out fit the limit and are read back.\<close>

definition codec_ok :: "drive_env \<Rightarrow> string \<Rightarrow> owner_epoch \<Rightarrow> string \<Rightarrow> child_item list \<Rightarrow> bool" where
  "codec_ok env sc ep o' xs \<longleftrightarrow> sc \<noteq> [] \<and> (\<forall>x \<in> set xs.
     dv_parse env (dv_encode env (item_cursor sc ep o' x)) = Some (item_cursor sc ep o' x) \<and>
     dv_encode env (item_cursor sc ep o' x) \<noteq> [] \<and>
     length (dv_encode env (item_cursor sc ep o' x)) \<le> 4096)"

definition named_rows :: "db \<Rightarrow> bool" where
  "named_rows d \<longleftrightarrow> (\<forall>f \<in> set (folders d). fd_id f \<noteq> 0 \<and> fd_name_normalized f \<noteq> []) \<and>
     (\<forall>e \<in> set (file_entries d). fe_id e \<noteq> 0 \<and> fe_name_normalized e \<noteq> [])"

lemma listing_named:
  assumes "named_rows d" "x \<in> set (listing env s owner fid d)"
  shows "cc_id (item_cursor sc ep o' x) \<noteq> 0 \<and> cc_name (item_cursor sc ep o' x) \<noteq> []"
proof -
  have e: "e \<in> set (file_entries d) \<Longrightarrow> view_of d e = Some v \<Longrightarrow> fv_entry v = e" for e v
    by (auto simp: view_of_def split: option.splits)
  show ?thesis using assms e
    by (auto simp: listing_def ordered_folders_def ordered_files_def set_order_by named_rows_def
        child_folders_def child_files_def map_filter_def)
qed

lemma item_cursor_at: "at_item x (item_cursor sc ep o' x)"
  by (cases x) simp_all

lemma item_cursor_fields:
  "cc_version (item_cursor sc ep o' x) = ''1''" "cc_scope (item_cursor sc ep o' x) = sc"
  "cc_content (item_cursor sc ep o' x) = ep_content_epoch ep" "cc_acl (item_cursor sc ep o' x) = ep_acl_epoch ep"
  "cc_sort (item_cursor sc ep o' x) = o'" "cc_kind (item_cursor sc ep o' x) = 0 \<or> cc_kind (item_cursor sc ep o' x) = 1"
  by (cases x; simp)+

text \<open>One page, asked for after the first \<open>j\<close> items.\<close>

definition raw_at :: "drive_env \<Rightarrow> string \<Rightarrow> owner_epoch \<Rightarrow> string \<Rightarrow> child_item list \<Rightarrow> nat \<Rightarrow> string" where
  "raw_at env sc ep o' xs j = (if j = 0 then [] else dv_encode env (item_cursor sc ep o' (xs ! (j - 1))))"

lemma page_at:
  assumes env: "collation_ok env" "codec_ok env (dv_scope env owner fid) ep (sort_name order)
      (listing env s owner fid d)"
    and d: "key_distinct fd_id (folders d)" "key_distinct fe_id (file_entries d)" "named_rows d"
    and f: "folder_of owner fid d = Inr f" and ep: "epoch_row owner d = Some ep"
    and lim: "1 \<le> limit" "limit \<le> 100" and s: "sort_of order = Some s"
    and j: "j = 0 \<or> j < length (listing env s owner fid d)"
  shows "children_page env owner fid (raw_at env (dv_scope env owner fid) ep (sort_name order)
      (listing env s owner fid d) j) limit order d d = Inr
      \<lparr> cp_folders = item_folders (take (nat limit) (drop j (listing env s owner fid d))),
        cp_files = item_files (take (nat limit) (drop j (listing env s owner fid d))),
        cp_has_more = (j + nat limit < length (listing env s owner fid d)),
        cp_cursor = (if j + nat limit < length (listing env s owner fid d)
           then raw_at env (dv_scope env owner fid) ep (sort_name order) (listing env s owner fid d) (j + nat limit)
           else []) \<rparr>"
proof -
  let ?xs = "listing env s owner fid d" and ?sc = "dv_scope env owner fid" and ?n = "nat limit"
  let ?o = "sort_name order"
  define cur where "cur = (if j = 0 then None else Some (item_cursor ?sc ep ?o (?xs ! (j - 1))))"
  define raw where "raw = raw_at env ?sc ep ?o ?xs j"
  define items where "items = load_children_page env s owner fid cur ?n d"
  have parse: "(if raw = [] then Inr None
      else case decode_child_cursor env raw of Inl e \<Rightarrow> Inl DriveInvalidCursor
       | Inr c \<Rightarrow> if cc_scope c \<noteq> ?sc \<or> cc_sort c \<noteq> ?o then Inl DriveInvalidCursor
         else if cc_content c \<noteq> ep_content_epoch ep \<or> cc_acl c \<noteq> ep_acl_epoch ep then Inl DriveCursorStale
         else Inr (Some c)) = Inr cur"
  proof (cases "j = 0")
    case False
    then have m: "?xs ! (j - 1) \<in> set ?xs" using j by simp
    note n = listing_named[OF d(3) m, of ?sc ep ?o]
    have ne: "raw \<noteq> []" "length raw \<le> 4096" using False env(2) m by (auto simp: raw_def raw_at_def codec_ok_def)
    have "dv_parse env raw = cur" using False env(2) m by (auto simp: raw_def raw_at_def cur_def codec_ok_def)
    then have "decode_child_cursor env raw = Inr (item_cursor ?sc ep ?o (?xs ! (j - 1)))"
      using n ne env(2) False item_cursor_fields[of ?sc ep ?o "?xs ! (j - 1)"]
      by (auto simp: decode_child_cursor_def cur_def codec_ok_def)
    then show ?thesis using ne False item_cursor_fields[of ?sc ep ?o "?xs ! (j - 1)"] by (simp add: cur_def)
  qed (simp add: raw_def raw_at_def cur_def)
  have slice: "take ?n items = take ?n (drop j ?xs) \<and> (?n < length items \<longleftrightarrow> ?n < length (drop j ?xs))"
  proof (cases "j = 0")
    case True
    then show ?thesis using first_slice by (simp add: items_def cur_def)
  next
    case False
    then show ?thesis using page_slice[OF env(1) d(1,2) _ item_cursor_at, of "j - 1" s owner fid ?n] j
      by (simp add: items_def cur_def)
  qed
  have pos: "0 < ?n" "int ?n = limit" using lim by simp_all
  have page: "children_page env owner fid raw limit order d d = Inr (page_of env ?sc ep ?o ?n items)"
    using lim s f ep parse unfolding children_page_def Let_def items_def
    by (simp del: raw_at_def)
  show ?thesis
  proof (cases "j + ?n < length ?xs")
    case True
    then have m: "?n < length items" and sh: "take ?n items = take ?n (drop j ?xs)" using slice by auto
    have "take ?n items \<noteq> []" "last (take ?n items) = ?xs ! (j + ?n - 1)"
      using True pos(1) unfolding sh by (auto simp: last_conv_nth)
    then show ?thesis using page m True sh pos(1)
      by (simp add: page_of_def Let_def raw_def raw_at_def)
  next
    case False
    then have m: "\<not> ?n < length items" and sh: "items = take ?n (drop j ?xs)" using slice by auto
    then show ?thesis using page False by (simp add: page_of_def Let_def raw_def)
  qed
qed

lemma collect_from:
  assumes env: "collation_ok env" "codec_ok env (dv_scope env owner fid) ep (sort_name order)
      (listing env s owner fid d)"
    and d: "key_distinct fd_id (folders d)" "key_distinct fe_id (file_entries d)" "named_rows d"
    and f: "folder_of owner fid d = Inr f" and ep: "epoch_row owner d = Some ep"
    and lim: "1 \<le> limit" "limit \<le> 100" and s: "sort_of order = Some s"
  shows "j = 0 \<or> j < length (listing env s owner fid d) \<Longrightarrow> length (listing env s owner fid d) - j < k \<Longrightarrow>
    collect_pages env owner fid limit order d k (raw_at env (dv_scope env owner fid) ep (sort_name order)
      (listing env s owner fid d) j) =
    Some (Inr (item_folders (drop j (listing env s owner fid d)), item_files (drop j (listing env s owner fid d))))"
proof (induction k arbitrary: j)
  case (Suc k)
  let ?xs = "listing env s owner fid d" and ?n = "nat limit"
  note page = page_at[OF env d f ep lim s Suc.prems(1)]
  have pos: "0 < ?n" using lim by simp
  show ?case
  proof (cases "j + ?n < length ?xs")
    case True
    have "collect_pages env owner fid limit order d k (raw_at env (dv_scope env owner fid) ep (sort_name order)
        ?xs (j + ?n)) = Some (Inr (item_folders (drop (j + ?n) ?xs), item_files (drop (j + ?n) ?xs)))"
      using True Suc.prems pos by (intro Suc.IH) auto
    moreover have "drop j ?xs = take ?n (drop j ?xs) @ drop (j + ?n) ?xs"
      by (metis append_take_drop_id drop_drop add.commute)
    ultimately show ?thesis using True page
      by (simp, metis item_folders_append item_files_append)
  next
    case False
    then show ?thesis using page by simp
  qed
qed simp

text \<open>C23: Paging is complete and exact: a client that follows the cursors of one unchanged state,
  with any page size, gets every live child folder and every visible file of the folder exactly
  once, folders first and each part in the requested order, and it comes to an end.\<close>

theorem paging_complete:
  assumes "collation_ok env" "codec_ok env (dv_scope env owner fid) ep (sort_name order)
      (listing env s owner fid d)" "key_distinct fd_id (folders d)"
    "key_distinct fe_id (file_entries d)" "named_rows d" "folder_of owner fid d = Inr f"
    "epoch_row owner d = Some ep" "1 \<le> limit" "limit \<le> 100" "sort_of order = Some s"
    "length (child_folders owner fid d) + length (child_files owner fid d) < k"
  shows "\<exists>fs vs. collect_pages env owner fid limit order d k [] = Some (Inr (fs, vs)) \<and>
    mset fs = mset (child_folders owner fid d) \<and> mset vs = mset (child_files owner fid d) \<and>
    sorted_wrt (\<lambda>f g. key_before env s (folder_key f) (folder_key g)) fs \<and>
    sorted_wrt (\<lambda>v w. key_before env s (file_key v) (file_key w)) vs"
proof -
  have "length (listing env s owner fid d) < k"
    using assms(11) length_order_by
    by (simp add: listing_def ordered_folders_def ordered_files_def length_order_by)
  then have "collect_pages env owner fid limit order d k [] = Some (Inr (ordered_folders env s owner fid d,
      ordered_files env s owner fid d))"
    using collect_from[OF assms(1-10), of 0 k] by (simp add: raw_at_def listing_parts)
  then show ?thesis
    using sorted_order_by[OF assms(1) child_keys_distinct(1)[OF assms(3,4)]]
      sorted_order_by[OF assms(1) child_keys_distinct(2)[OF assms(3,4)]]
    unfolding ordered_folders_def ordered_files_def
    by (intro exI conjI) (assumption, simp_all add: mset_order_by)
qed

section \<open>Cursors and writes\<close>

lemma epoch_of_cong: "owner_epochs d' = owner_epochs d \<Longrightarrow> epoch_of owner d' = epoch_of owner d"
  by (simp add: epoch_of_def epoch_row_def)

lemma bump_epoch:
  assumes "bump_content owner d = Inr (e, d')"
  shows "\<exists>r. epoch_row owner d' = Some r \<and> ep_content_epoch r = fst (epoch_of owner d) + 1"
  using bump_row(1,2)[OF assms] by auto

lemma publish_epoch:
  assumes "bump_and_publish cx k owner et agg v p d1 = Inr d'" "owner_epochs d1 = owner_epochs d"
  shows "\<exists>r. epoch_row owner d' = Some r \<and> ep_content_epoch r = fst (epoch_of owner d) + 1"
proof -
  obtain e d2 where b: "bump_content owner d1 = Inr (e, d2)"
    and t: "add_typed cx k (typed_input et agg v ''core-api'' (p (ep_content_epoch e))) d2 = Inr d'"
    using assms(1) unfolding bump_and_publish_def tx_steps by blast
  have "epoch_row owner d' = epoch_row owner d2" using add_typed_frame[OF t] by (simp add: epoch_row_def)
  then show ?thesis using bump_epoch[OF b] epoch_of_cong[OF assms(2)] by simp
qed

lemma update_row_epochs:
  "update_folder i g d = Inr d' \<Longrightarrow> owner_epochs d' = owner_epochs d"
  "update_entry i h d = Inr d' \<Longrightarrow> owner_epochs d' = owner_epochs d"
  "insert_folder f d = Inr d' \<Longrightarrow> owner_epochs d' = owner_epochs d"
  by (auto dest: update_folder_eq update_entry_eq insert_folder_eq)

definition epoch_advanced :: "uuid \<Rightarrow> db \<Rightarrow> db \<Rightarrow> bool" where
  "epoch_advanced owner d d' \<longleftrightarrow>
     (\<exists>r. epoch_row owner d' = Some r \<and> ep_content_epoch r = fst (epoch_of owner d) + 1)"

lemma folder_writes_advance:
  "create_folder cx owner p name d = Inr (f, d') \<Longrightarrow> epoch_advanced owner d d'"
  "rename_folder cx owner i v name d = Inr (f, d') \<Longrightarrow> epoch_advanced owner d d'"
  "move_folder cx owner i dest v d = Inr (f, d') \<Longrightarrow> epoch_advanced owner d d'"
  "delete_folder cx owner i v d = Inr d' \<Longrightarrow> epoch_advanced owner d d'"
proof -
  show "create_folder cx owner p name d = Inr (f, d') \<Longrightarrow> epoch_advanced owner d d'"
    unfolding create_folder_def tx_steps Let_def epoch_advanced_def
    using update_row_epochs(3) publish_epoch by (elim exE conjE) blast
  show "rename_folder cx owner i v name d = Inr (f, d') \<Longrightarrow> epoch_advanced owner d d'"
    unfolding rename_folder_def tx_steps epoch_advanced_def
    using update_row_epochs(1) publish_epoch by (elim exE conjE) blast
  show "epoch_advanced owner d d'" if m: "move_folder cx owner i dest v d = Inr (f, d')"
  proof -
    from m obtain d1 g where "update_folder g (\<lambda>h. h\<lparr>fd_parent_id := Some dest, fd_version := fd_version h + 1\<rparr>) d = Inr d1"
      "\<exists>agg p'. bump_and_publish cx 0 owner event_folder_moved agg (v + 1) p' d1 = Inr d'"
      by (auto simp: move_folder_def tx_steps result_iffs split: if_splits option.splits)
    then show ?thesis unfolding epoch_advanced_def using update_row_epochs(1) publish_epoch by blast
  qed
  show "epoch_advanced owner d d'" if m: "delete_folder cx owner i v d = Inr d'"
  proof -
    from m obtain d1 g where "update_folder g (\<lambda>h. h\<lparr>fd_deleted_at := Some (cx_now cx), fd_version := fd_version h + 1\<rparr>) d = Inr d1"
      "\<exists>agg p'. bump_and_publish cx 0 owner event_folder_deleted agg (v + 1) p' d1 = Inr d'"
      by (auto simp: delete_folder_def tx_steps result_iffs split: if_splits option.splits)
    then show ?thesis unfolding epoch_advanced_def using update_row_epochs(1) publish_epoch by blast
  qed
qed

lemma file_writes_advance:
  "rename_file_tx cx owner i v name d = Inr d' \<Longrightarrow> epoch_advanced owner d d'"
  "move_file_tx cx owner i dest v d = Inr d' \<Longrightarrow> epoch_advanced owner d d'"
  "delete_file cx owner i v d = Inr d' \<Longrightarrow> epoch_advanced owner d d'"
proof -
  show "rename_file_tx cx owner i v name d = Inr d' \<Longrightarrow> epoch_advanced owner d d'"
    unfolding rename_file_tx_def tx_steps epoch_advanced_def
    using update_row_epochs(2) publish_epoch by (elim exE conjE) blast
  show "move_file_tx cx owner i dest v d = Inr d' \<Longrightarrow> epoch_advanced owner d d'"
    unfolding move_file_tx_def tx_steps epoch_advanced_def
    using update_row_epochs(2) publish_epoch by (elim exE conjE) blast
  show "epoch_advanced owner d d'" if m: "delete_file cx owner i v d = Inr d'"
  proof (rule delete_file_steps[OF m])
    fix e obj d1 ep d2 remaining d3 d4
    assume u: "update_entry (fe_id e) (\<lambda>g. g\<lparr>fe_deleted_at := Some (cx_now cx), fe_version := fe_version g + 1\<rparr>) d = Inr d1"
      and b: "bump_content owner d1 = Inr (ep, d2)" and r: "release_reference (fe_object_id e) d2 = Inr (remaining, d3)"
      and q: "remove_logical_usage owner (fo_size_bytes obj) d3 = Inr d4" and e: "owner_epochs d' = owner_epochs d4"
    have "owner_epochs d4 = owner_epochs d3" using q by (auto simp: remove_logical_usage_def)
    moreover have "owner_epochs d3 = owner_epochs d2"
      using r by (auto simp: release_reference_def Let_def result_iffs update_objects_def)
    ultimately have "epoch_row owner d' = epoch_row owner d2" using e by (simp add: epoch_row_def)
    then show ?thesis using bump_epoch[OF b] epoch_of_cong[OF update_row_epochs(2)[OF u]]
      by (simp add: epoch_advanced_def)
  qed
qed

lemma write_folder_advance: "write_folder cx owner i v w d = Inr d' \<Longrightarrow> epoch_advanced owner d d'"
  by (cases w) (auto simp: write_folder_def tx_steps dest: folder_writes_advance)

lemma write_file_advance: "write_file cx owner i v u d = Inr d' \<Longrightarrow> epoch_advanced owner d d'"
  by (cases u) (auto simp: write_file_def dest: file_writes_advance)

text \<open>A page sequence never spans a write: whatever folder or file of the owner is written, a
  cursor minted at or before the state the write started from is refused afterwards, on every
  folder and with every page size, so a client restarts instead of skipping or repeating rows.\<close>

theorem write_invalidates_cursors:
  assumes "(\<exists>cx i v w. write_folder cx owner i v w d = Inr d') \<or>
      (\<exists>cx i v w. write_file cx owner i v w d = Inr d') \<or>
      (\<exists>cx p name f. create_folder cx owner p name d = Inr (f, d'))"
    and "decode_child_cursor env raw = Inr c" "cc_content c \<le> fst (epoch_of owner d)"
  shows "\<not> is_ok (children_page env owner fid raw limit order d' d'')"
proof -
  have "epoch_advanced owner d d'"
    using assms(1) by (elim disjE exE)
      (rule write_folder_advance write_file_advance folder_writes_advance(1), assumption)+
  then obtain r where r: "epoch_row owner d' = Some r" "ep_content_epoch r \<noteq> cc_content c"
    using assms(3) by (auto simp: epoch_advanced_def)
  have "raw \<noteq> []" using assms(2) by (auto simp: decode_child_cursor_def)
  then show ?thesis using assms(2) r
    by (cases "folder_of owner fid d'") (auto simp: children_page_def Let_def split: option.splits)
qed

section \<open>Witnesses\<close>

definition sample_folder :: "uuid \<Rightarrow> uuid option \<Rightarrow> string \<Rightarrow> folder" where
  "sample_folder i p name = \<lparr> fd_id = i, fd_owner_id = 7, fd_parent_id = p, fd_name = lit name,
     fd_name_normalized = lit name, fd_deleted_at = None, fd_version = 1 \<rparr>"

definition sample_tree :: db where
  "sample_tree = empty_db\<lparr>folders := [sample_folder 1 None ''/'', sample_folder 2 (Some 1) ''a''],
     owner_epochs := [\<lparr>ep_owner_id = 7, ep_content_epoch = 3, ep_acl_epoch = 1\<rparr>]\<rparr>"

lemma sample_delete_ok: "is_ok (delete_folder sample_ctx 7 2 1 sample_tree)"
  by code_simp

lemma sample_tree_keys: "key_distinct fd_id (folders sample_tree)" "key_distinct fe_id (file_entries sample_tree)"
  by (simp_all add: sample_tree_def sample_folder_def key_distinct_def empty_db_def)

lemma sample_tree_forest: "forest_ok sample_tree"
proof -
  have l: "live_folder sample_tree 1 = Some (sample_folder 1 None ''/'')"
    "live_folder sample_tree 2 = Some (sample_folder 2 (Some 1) ''a'')"
    by (simp_all add: live_folder_def sample_tree_def sample_folder_def)
  have r: "rooted sample_tree 1 0" by (rule rooted_root[OF l(1)]) (simp add: sample_folder_def)
  have "rooted sample_tree 2 1"
    using rooted_step[OF l(2) _ l(1) _ r] by (simp add: sample_folder_def)
  with r show ?thesis using sample_tree_keys(1)
    by (auto simp: forest_ok_def sample_tree_def sample_folder_def)
qed

definition sample_cursor :: child_cursor where
  "sample_cursor = \<lparr> cc_version = ''1'', cc_scope = ''s'', cc_content = 3, cc_acl = 1, cc_kind = 0,
     cc_name = [97], cc_id = 2, cc_sort = ''name_asc'' \<rparr>"

fun rune_less :: "gotext \<Rightarrow> gotext \<Rightarrow> bool" where
  "rune_less xs [] = False"
| "rune_less [] (y # ys) = True"
| "rune_less (x # xs) (y # ys) = (x < y \<or> (x = y \<and> rune_less xs ys))"

definition sample_drive_env :: "drive_env" where
  "sample_drive_env = \<lparr> dv_less = rune_less, dv_scope = (\<lambda>o' f. ''s''),
     dv_encode = (\<lambda>c. ''x''), dv_parse = (\<lambda>s. Some sample_cursor) \<rparr>"

lemma rune_less_order:
  "rune_less a b \<Longrightarrow> rune_less b c \<Longrightarrow> rune_less a c" "\<not> rune_less a a"
  "a \<noteq> b \<Longrightarrow> rune_less a b \<or> rune_less b a"
proof -
  show "rune_less a b \<Longrightarrow> rune_less b c \<Longrightarrow> rune_less a c"
  proof (induction a b arbitrary: c rule: rune_less.induct)
    case (2 y ys)
    then show ?case by (cases c) auto
  next
    case (3 x xs y ys)
    then show ?case by (cases c) auto
  qed simp
  show "\<not> rune_less a a" by (induction a) auto
  show "a \<noteq> b \<Longrightarrow> rune_less a b \<or> rune_less b a"
    by (induction a b rule: rune_less.induct) (auto simp: neq_Nil_conv)
qed

text \<open>A folder is deleted, another user is provisioned, then a late move of the folder arrives.\<close>

definition provisioned_tree :: db where
  "provisioned_tree = (case write_folder sample_ctx 7 2 1 DeleteFolder sample_tree of Inl e \<Rightarrow> sample_tree
     | Inr d \<Rightarrow> (case provision_user 50 8 d of Inl e \<Rightarrow> sample_tree | Inr d' \<Rightarrow> d'))"

lemma provisioned_tree_ok:
  "case write_folder sample_ctx 7 2 1 DeleteFolder sample_tree of Inl e \<Rightarrow> False | Inr d \<Rightarrow> is_ok (provision_user 50 8 d)"
  by code_simp

lemma no_lost_update_witness: "\<not> is_ok (write_folder sample_ctx 7 2 1 (MoveFolder 1) provisioned_tree)"
proof -
  obtain d where d1: "write_folder sample_ctx 7 2 1 DeleteFolder sample_tree = Inr d"
    using provisioned_tree_ok by (cases "write_folder sample_ctx 7 2 1 DeleteFolder sample_tree") simp_all
  then have d2: "provision_user 50 8 d = Inr provisioned_tree"
    using provisioned_tree_ok by (cases "provision_user 50 8 d") (simp_all add: provisioned_tree_def)
  have "drive_step\<^sup>*\<^sup>* d provisioned_tree" by (rule r_into_rtranclp) (rule ds_provision[OF d2])
  then show ?thesis by (intro no_lost_update[OF sample_tree_keys disjI1[OF conjI[OF d1 conjI[OF _ refl]]]])
qed

lemma write_invalidates_cursors_witness:
  "case write_folder sample_ctx 7 2 1 DeleteFolder sample_tree of Inl e \<Rightarrow> False
   | Inr d' \<Rightarrow> \<not> is_ok (children_page sample_drive_env 7 1 ''x'' 10 [] d' d')"
proof (cases "write_folder sample_ctx 7 2 1 DeleteFolder sample_tree")
  case (Inl e)
  then show ?thesis using sample_delete_ok by (simp add: write_folder_def)
next
  case (Inr d')
  have c: "decode_child_cursor sample_drive_env ''x'' = Inr sample_cursor"
    by (simp add: decode_child_cursor_def sample_drive_env_def sample_cursor_def)
  have e: "cc_content sample_cursor \<le> fst (epoch_of 7 sample_tree)"
    by (simp add: sample_cursor_def epoch_of_def epoch_row_def sample_tree_def)
  have "\<not> is_ok (children_page sample_drive_env 7 1 ''x'' 10 [] d' d')"
    by (rule write_invalidates_cursors[OF _ c e]) (use Inr in blast)
  then show ?thesis by (simp add: Inr)
qed

text \<open>A listing of three folders, two per page.\<close>

definition sample_wide :: db where
  "sample_wide = empty_db\<lparr>folders := [sample_folder 1 None ''/'', sample_folder 3 (Some 1) ''b'',
      sample_folder 2 (Some 1) ''a'', sample_folder 4 (Some 1) ''c''],
     owner_epochs := [\<lparr>ep_owner_id = 7, ep_content_epoch = 3, ep_acl_epoch = 1\<rparr>]\<rparr>"

definition sample_codec :: drive_env where
  "sample_codec = sample_drive_env\<lparr>dv_encode := (\<lambda>c. if cc_id c = 2 then ''2'' else if cc_id c = 3 then ''3'' else ''4''),
     dv_parse := (\<lambda>s. let i = (if s = ''2'' then 2 else if s = ''3'' then 3 else 4) in
       Some (item_cursor ''s'' \<lparr>ep_owner_id = 7, ep_content_epoch = 3, ep_acl_epoch = 1\<rparr> ''name_asc''
         (ItemFolder (sample_folder i (Some 1) (if i = 2 then ''a'' else if i = 3 then ''b'' else ''c'')))))\<rparr>"

lemma sample_listing: "listing sample_codec NameAsc 7 1 sample_wide =
   map ItemFolder [sample_folder 2 (Some 1) ''a'', sample_folder 3 (Some 1) ''b'', sample_folder 4 (Some 1) ''c'']"
  by (simp add: listing_def ordered_folders_def ordered_files_def order_by_def child_folders_def
      child_files_def map_filter_def sample_wide_def sample_folder_def sample_codec_def sample_drive_env_def
      key_before_def folder_key_def lit_def empty_db_def)

lemma paging_complete_witness:
  "\<exists>fs vs. collect_pages sample_codec 7 1 2 [] sample_wide 9 [] = Some (Inr (fs, vs)) \<and>
     mset fs = mset (child_folders 7 1 sample_wide)"
proof -
  have "\<exists>fs vs. collect_pages sample_codec 7 1 2 [] sample_wide 9 [] = Some (Inr (fs, vs)) \<and>
    mset fs = mset (child_folders 7 1 sample_wide) \<and> mset vs = mset (child_files 7 1 sample_wide) \<and>
    sorted_wrt (\<lambda>f g. key_before sample_codec NameAsc (folder_key f) (folder_key g)) fs \<and>
    sorted_wrt (\<lambda>v w. key_before sample_codec NameAsc (file_key v) (file_key w)) vs"
  proof (rule paging_complete)
    show "collation_ok sample_codec"
      using rune_less_order by (auto simp: collation_ok_def sample_codec_def sample_drive_env_def)
    show "codec_ok sample_codec (dv_scope sample_codec 7 1) \<lparr>ep_owner_id = 7, ep_content_epoch = 3, ep_acl_epoch = 1\<rparr>
        (sort_name []) (listing sample_codec NameAsc 7 1 sample_wide)"
      unfolding codec_ok_def sample_listing
      by (simp add: sample_codec_def sample_drive_env_def sort_name_def sample_folder_def Let_def)
    show "folder_of 7 1 sample_wide = Inr (sample_folder 1 None ''/'')"
      by (simp add: folder_of_def owned_folder_def sample_wide_def sample_folder_def)
  qed (simp_all add: sample_wide_def sample_folder_def key_distinct_def named_rows_def epoch_row_def
      sort_of_def child_folders_def child_files_def map_filter_def empty_db_def lit_def)
  then show ?thesis by blast
qed

lemma recursive_queries_return_witness:
  "\<exists>path. breadcrumb 7 2 sample_tree = Some (Inr path) \<and> linked_down path"
  using recursive_queries_return[OF sample_tree_forest, of 7 2]
  by (auto simp: owned_folder_def sample_tree_def sample_folder_def)

lemma folder_tree_stays_forest_witness:
  "case provision_user 1 7 empty_db of Inl e \<Rightarrow> False | Inr d \<Rightarrow> forest_ok d"
proof (cases "provision_user 1 7 empty_db")
  case (Inl e)
  then show ?thesis by (simp add: provision_user_def insert_folder_def ensure_epoch_def empty_db_def exists_where_def)
next
  case (Inr d)
  have "forest_ok d"
    by (rule folder_tree_stays_forest[OF r_into_rtranclp[where r = drive_step, OF ds_provision[OF Inr]]])
  then show ?thesis by (simp add: Inr)
qed

end
