(* ===== verification/Registration.thy ===== *)
theory Registration
  imports DrivePages
begin

text \<open>
  Registration composed with the provisioner that \<open>cmd\<close> injects (\<open>drive.Service.ProvisionUser\<close>).
\<close>

lemma provision_user_frame:
  assumes "provision_user fresh owner d = Inr d'"
  shows "users d' = users d \<and> refresh_sessions d' = refresh_sessions d"
proof -
  obtain d1 where "insert_folder \<lparr> fd_id = fresh, fd_owner_id = owner, fd_parent_id = None,
        fd_name = lit ''/'', fd_name_normalized = lit ''/'', fd_deleted_at = None,
        fd_version = 1 \<rparr> d = Inr d1" and e: "ensure_epoch owner d1 = Inr d'"
    using assms unfolding provision_user_def tx_steps by blast
  then show ?thesis using insert_folder_eq business_eqD(1,2)[OF ensure_epoch_frame[OF e]] by fastforce
qed

lemma find_append: "find P (xs @ ys) = (case find P xs of None \<Rightarrow> find P ys | Some x \<Rightarrow> Some x)"
  by (induction xs) auto

lemma provision_user_root:
  assumes "provision_user fresh owner d = Inr d'"
  shows "\<exists>f. root_folder owner d' = Inr f \<and> fd_owner_id f = owner" "\<exists>e. epoch_row owner d' = Some e"
proof -
  let ?f = "\<lparr> fd_id = fresh, fd_owner_id = owner, fd_parent_id = None,
        fd_name = lit ''/'', fd_name_normalized = lit ''/'', fd_deleted_at = None,
        fd_version = 1 \<rparr>"
  obtain d1 where i: "insert_folder ?f d = Inr d1" and e: "ensure_epoch owner d1 = Inr d'"
    using assms unfolding provision_user_def tx_steps by blast
  have "folders d' = folders d @ [?f]"
    using insert_folder_eq[OF i] business_eqD(3)[OF ensure_epoch_frame[OF e]] by simp
  then show "\<exists>f. root_folder owner d' = Inr f \<and> fd_owner_id f = owner"
    by (auto simp: root_folder_def find_append dest: find_SomeD split: option.split)
  show "\<exists>e. epoch_row owner d' = Some e" using ensure_epoch_row(1)[OF e] by blast
qed

text \<open>C38: Whoever registers can log in: with the user name or the address, in any case and padding
  the server accepts, the credentials select exactly the new account, which by then owns a root
  folder and an epoch row; and the session tables stay well formed.\<close>

theorem register_then_login:
  assumes "register env (provision_user root) cx username email password d = Inr (s, d')"
    and "\<And>h. ie_hash_password env password = Inr h \<Longrightarrow> ie_verify_password env2 h password"
    and "name = username \<or> name = email \<and> to_lower (trim_space email) \<noteq> []"
    and "0 < utf8_len name" "utf8_len name \<le> 254" "sessions_ok d"
    and "\<forall>r \<in> set (refresh_sessions d). rs_family_id r \<noteq> cx_mint cx 1"
  shows "login env2 cx2 name password d' =
      issue_session env2 (cx_now cx2) (cx_mint cx2 1) (ss_user s) (cx_mint cx2 0) d' \<and>
    (\<exists>f. root_folder (u_id (ss_user s)) d' = Inr f) \<and>
    (\<exists>e. epoch_row (u_id (ss_user s)) d' = Some e) \<and> sessions_ok d'"
proof (intro conjI)
  show "login env2 cx2 name password d' =
      issue_session env2 (cx_now cx2) (cx_mint cx2 1) (ss_user s) (cx_mint cx2 0) d'"
    by (rule register_then_login_aux[OF assms(1) _ assms(2-5)]) (use provision_user_frame in blast)+
  show "sessions_ok d'"
    by (rule register_sessions_ok[OF assms(1) _ assms(6,7)]) (use provision_user_frame in blast)
  obtain u d1 d2 where p: "provision_user root (u_id u) d1 = Inr d2"
    and i: "issue_session env (cx_now cx) (cx_mint cx 2) u (cx_mint cx 1) d2 = Inr (s, d')"
    by (rule register_success[OF assms(1)])
  have e: "ss_user s = u" "folders d' = folders d2" "owner_epochs d' = owner_epochs d2"
    using issue_session_eq[OF i] by auto
  show "\<exists>f. root_folder (u_id (ss_user s)) d' = Inr f"
    using provision_user_root(1)[OF p] e by (auto simp: root_folder_def)
  show "\<exists>e. epoch_row (u_id (ss_user s)) d' = Some e"
    using provision_user_root(2)[OF p] e by (simp add: epoch_row_def)
qed

definition sample_register :: "(session \<times> db) result" where
  "sample_register = register (sample_env ''a'') (provision_user 90) (sample_cx 10 50) (lit '' Ann'') []
     (lit ''0123456789'') empty_db"

lemma lower_ann: "to_lower (trim_space (lit '' Ann'')) = lit ''ann''" "trim_space (lit '' Ann'') = lit ''Ann''"
  "to_lower (trim_space []) = []"
  by (simp_all add: lit_def to_lower_def rune_lower_def trim_func_def trim_left_def trim_right_def is_space_def)

lemma sample_register_ok: "is_ok sample_register"
  unfolding sample_register_def register_def lower_ann Let_def
  by (simp add: lit_def utf8_len_def utf8_width_def contains_any_def
      forbidden_runes_def sample_env_def sample_cx_def empty_db_def insert_user_def user_check_def
      provision_user_def insert_folder_def ensure_epoch_def issue_session_def insert_refresh_def
      exists_where_def)

lemma register_then_login_witness:
  "case sample_register of Inl e \<Rightarrow> False | Inr (s, d') \<Rightarrow>
     login (sample_env ''b'') (sample_cx 20 70) (lit '' Ann'') (lit ''0123456789'') d' =
     issue_session (sample_env ''b'') 20 71 (ss_user s) 70 d'"
proof (cases sample_register)
  case (Inl e)
  show ?thesis using sample_register_ok unfolding Inl by simp
next
  case (Inr p)
  obtain s d' where "p = (s, d')" by fastforce
  then have r: "sample_register = Inr (s, d')" using Inr by simp
  have "login (sample_env ''b'') (sample_cx 20 70) (lit '' Ann'') (lit ''0123456789'') d' =
     issue_session (sample_env ''b'') (cx_now (sample_cx 20 70)) (cx_mint (sample_cx 20 70) 1) (ss_user s)
       (cx_mint (sample_cx 20 70) 0) d'"
    by (rule register_then_login[OF r[unfolded sample_register_def], THEN conjunct1])
      (simp_all add: sample_env_def lit_def utf8_len_def utf8_width_def empty_db_def sessions_ok_def)
  then show ?thesis unfolding r by (simp add: sample_cx_def)
qed

end
