(* ===== verification/Upload.thy ===== *)
theory Upload
  imports ObjectStore Drive Quota "HOL-Library.AList" "HOL-Library.Signed_Division"
begin

text \<open>
  Package \<open>upload\<close>: the upload session from creation to its committed file.  A session reserves
  quota when it is created; completion, abort, expiry and failure each give the reservation back
  or turn it into usage.  Provider calls (multipart API, copy, stat, get, presign) and the SHA-256
  digest are fields of \<open>upload_env\<close>; database transactions are functions on the tables.  The
  state machine and the quota balance are in \<open>UploadAccounting\<close>.
\<close>

record upload_listing =
  ul_uploads :: "(string \<times> string \<times> time \<times> go_error option) list"
  ul_truncated :: bool
  ul_next_key_marker :: string
  ul_next_upload_marker :: string

record upload_env =
  ue_storage :: storage_env
  ue_has_storage :: bool
  ue_bucket :: string
  ue_session_ttl :: time
  ue_part_url_ttl :: time
  ue_new_multipart :: "string \<Rightarrow> string \<Rightarrow> string \<Rightarrow> string result"
  ue_list :: "(string \<Rightarrow> string \<Rightarrow> string \<Rightarrow> string \<Rightarrow> upload_listing result) option"
  ue_complete :: "string \<Rightarrow> string \<Rightarrow> string \<Rightarrow> (int \<times> string) list \<Rightarrow> go_error option"
  ue_abort :: "string \<Rightarrow> string \<Rightarrow> string \<Rightarrow> go_error option"
  ue_error_code :: "go_error \<Rightarrow> string"
  ue_copy :: "string \<times> string \<Rightarrow> string \<times> string \<Rightarrow> go_error option"
  ue_stat :: "string \<Rightarrow> string \<Rightarrow> int result"
  ue_get :: "string \<Rightarrow> string \<Rightarrow> string result"
  ue_sha256 :: "string \<Rightarrow> string"
  ue_presign :: "string \<Rightarrow> string \<Rightarrow> time \<Rightarrow> (string \<times> string) list \<Rightarrow> string result"

section \<open>Input checks\<close>

definition normalize_filename :: "gotext \<Rightarrow> (gotext \<times> gotext) result" where
  "normalize_filename value =
     (let name = trim_space value in
      if name = [] \<or> 255 < utf8_len name \<or> list_ex (\<lambda>r. r \<in> {47, 92, 0}) name
      then Inl UploadInvalidInput else Inr (name, to_lower name))"

text \<open>64 hexadecimal digits that \<open>strings.ToLower\<close> leaves alone.\<close>

definition valid_sha256 :: "string \<Rightarrow> bool" where
  "valid_sha256 s \<longleftrightarrow> length s = 64 \<and> list_all (\<lambda>c. c \<in> set ''0123456789abcdef'') s"

text \<open>\<open>int64\<close> arithmetic: results wrap, division truncates.\<close>

definition wrap64 :: "int \<Rightarrow> int" where
  "wrap64 n = (n + 2 ^ 63) mod 2 ^ 64 - 2 ^ 63"

definition quot64 :: "int \<Rightarrow> int \<Rightarrow> int" where
  "quot64 a b = a sdiv b"

lemma wrap64_dvd: "(2 ^ 64 :: int) dvd n - wrap64 n"
proof -
  have "n - wrap64 n = (n + 2 ^ 63) - (n + 2 ^ 63) mod 2 ^ 64" by (simp add: wrap64_def)
  then show ?thesis by (metis dvd_minus_mod)
qed

lemma wrap64_small: "- (2 ^ 63) \<le> n \<Longrightarrow> n < 2 ^ 63 \<Longrightarrow> wrap64 n = n"
  by (simp add: wrap64_def)

definition doublings :: "int \<Rightarrow> nat" where
  "doublings ps = (if ps = 0 then 0 else Suc (LEAST k. (2 ^ 64 :: int) dvd ps * 2 ^ k))"

lemma doublings_decrease:
  assumes "ps \<noteq> 0"
  shows "doublings (wrap64 (ps * 2)) < doublings ps"
proof (cases "wrap64 (ps * 2) = 0")
  case True
  then show ?thesis using assms by (simp add: doublings_def)
next
  case False
  let ?D = "2 ^ 64 :: int"
  have eq: "?D dvd wrap64 (ps * 2) * 2 ^ k \<longleftrightarrow> ?D dvd ps * 2 ^ Suc k" for k
  proof -
    have "?D dvd (ps * 2 - wrap64 (ps * 2)) * 2 ^ k" using wrap64_dvd by (rule dvd_mult2)
    then have "?D dvd ps * 2 * 2 ^ k - wrap64 (ps * 2) * 2 ^ k" by (simp add: left_diff_distrib)
    then have "?D dvd ps * 2 * 2 ^ k \<longleftrightarrow> ?D dvd wrap64 (ps * 2) * 2 ^ k"
      by (metis dvd_diff_commute dvd_add_right_iff diff_add_cancel)
    then show ?thesis by (simp add: mult.assoc)
  qed
  have step: "(LEAST k. ?D dvd ps * 2 ^ k) = Suc (LEAST k. ?D dvd ps * 2 ^ Suc k)"
  proof (rule Least_Suc)
    show "?D dvd ps * 2 ^ 64" by simp
    show "\<not> ?D dvd ps * 2 ^ 0"
    proof
      assume "?D dvd ps * 2 ^ 0"
      then have "?D dvd ps * 2" by simp
      then have "?D dvd wrap64 (ps * 2) * 2 ^ 0" using eq[of 0] by simp
      then have "?D dvd wrap64 (ps * 2)" by simp
      moreover have "- (2 ^ 63) \<le> wrap64 (ps * 2)" "wrap64 (ps * 2) < 2 ^ 63"
        by (simp_all add: wrap64_def)
      ultimately show False using False by (auto elim!: dvdE)
    qed
  qed
  have "(LEAST k. ?D dvd wrap64 (ps * 2) * 2 ^ k) = (LEAST k. ?D dvd ps * 2 ^ Suc k)"
    unfolding eq ..
  then show ?thesis unfolding doublings_def step using False assms by simp
qed

text \<open>The loop of \<open>multipartPlan\<close>.  Doubling an \<open>int64\<close> ends in 0 at the latest, which is
  the measure.\<close>

function part_size_from :: "int \<Rightarrow> int \<Rightarrow> int" where
  "part_size_from n ps =
     (if 10000 < quot64 (wrap64 (n + ps - 1)) ps then part_size_from n (wrap64 (ps * 2)) else ps)"
  by pat_completeness auto

termination
  by (relation "measure (\<lambda>(n, ps). doublings ps)") (auto simp: quot64_def signed_divide_int_def simp del: mult_numeral_1_right intro!: doublings_decrease)

declare part_size_from.simps [simp del]

definition multipart_plan :: "int \<Rightarrow> int \<times> int" where
  "multipart_plan n =
     (let ps = part_size_from n (10 * 1024 * 1024) in (ps, quot64 (wrap64 (n + ps - 1)) ps))"

section \<open>Sessions\<close>

definition active_statuses :: "upload_status list" where
  "active_statuses = [Initializing, Created, Uploading, Completing, Verifying]"

definition session_by_id :: "uuid \<Rightarrow> db \<Rightarrow> upload_session option" where
  "session_by_id i d = find (\<lambda>s. us_id s = i) (upload_sessions d)"

definition session_of :: "uuid \<Rightarrow> uuid \<Rightarrow> db \<Rightarrow> upload_session option" where
  "session_of user i d = find (\<lambda>s. us_id s = i \<and> us_user_id s = user) (upload_sessions d)"

definition update_sessions :: "(upload_session \<Rightarrow> bool) \<Rightarrow> (upload_session \<Rightarrow> upload_session) \<Rightarrow> db \<Rightarrow> db" where
  "update_sessions P g d = d\<lparr>upload_sessions := update_where P g (upload_sessions d)\<rparr>"

text \<open>The parts of a session in the order of their numbers.\<close>

definition parts_of :: "uuid \<Rightarrow> db \<Rightarrow> upload_part list" where
  "parts_of i d = sort_key pt_part_number (filter (\<lambda>p. pt_session_id p = i) (upload_parts d))"

definition get_session :: "uuid \<Rightarrow> uuid \<Rightarrow> db \<Rightarrow> (upload_session \<times> upload_part list) result" where
  "get_session user i d =
     attempt (found UploadNotFound (session_of user i d)) (\<lambda>s. Inr (s, parts_of i d))"

text \<open>Newest first: rows are appended as they are created.\<close>

definition list_active :: "time \<Rightarrow> uuid \<Rightarrow> db \<Rightarrow> (upload_session \<times> upload_part list) list" where
  "list_active now user d = map (\<lambda>s. (s, parts_of (us_id s) d))
     (rev (filter (\<lambda>s. us_user_id s = user \<and> us_status s \<in> set active_statuses \<and> now < us_expires_at s)
        (upload_sessions d)))"

section \<open>Operations of the upload queue\<close>

primrec operation_type_name :: "operation_type \<Rightarrow> string" where
  "operation_type_name MultipartCreate = ''multipart.create''"
| "operation_type_name MultipartComplete = ''multipart.complete''"
| "operation_type_name MultipartAbort = ''multipart.abort''"
| "operation_type_name CanonicalEnsure = ''canonical.ensure''"
| "operation_type_name StagingDelete = ''staging.delete''"
| "operation_type_name ObjectDelete = ''object.delete''"
| "operation_type_name VariantDelete = ''variant.delete''"

text \<open>\<open>enqueueUploadOperation\<close>: the operation and its recovery event in one transaction.\<close>

definition enqueue_upload_operation ::
  "ctx \<Rightarrow> nat \<Rightarrow> enqueue_input \<Rightarrow> db \<Rightarrow> (operation \<times> db) result" where
  "enqueue_upload_operation cx k i d =
     attempt (enqueue (cx_mint cx k) (cx_now cx) i d) (\<lambda>(op, d1).
       let key = ''upload.operation:'' @ uuid_string (so_id op) in
       attempt (ensure_recovery cx key ''upload_operation_created'' ''storage_operation'' (so_id op) 1
          (typed_input event_upload_operation_recover (so_id op) 1 ''core-api''
             (UploadOperationRecoverV1 (so_id op) (operation_type_name (so_operation_type op)) key)) d1)
         (\<lambda>(created, d2). Inr (op, d2)))"

definition session_input :: "operation_type \<Rightarrow> string \<Rightarrow> upload_session \<Rightarrow> enqueue_input" where
  "session_input ty upload_id s =
     \<lparr> oi_id = 0, oi_operation_type = ty,
       oi_idempotency_key = operation_type_name ty @ '':'' @ uuid_string (us_id s),
       oi_upload_session_id = Some (us_id s), oi_object_id = None,
       oi_source_bucket = us_bucket s, oi_source_key = us_object_key s,
       oi_target_bucket = [], oi_target_key = [], oi_storage_upload_id = upload_id \<rparr>"

abbreviation staged :: "upload_session \<Rightarrow> bool" where
  "staged s \<equiv> str_prefix ''staging/'' (us_object_key s)"

definition enqueue_staging_delete ::
  "ctx \<Rightarrow> nat \<Rightarrow> upload_session \<Rightarrow> db \<Rightarrow> (operation option \<times> db) result" where
  "enqueue_staging_delete cx k s d =
     (if \<not> staged s then Inr (None, d)
      else attempt (enqueue (cx_mint cx k) (cx_now cx) (session_input StagingDelete [] s) d)
             (\<lambda>(op, d'). Inr (Some op, d')))"

section \<open>Create\<close>

record create_input =
  ci_folder_id :: uuid
  ci_filename :: gotext
  ci_sha256 :: string
  ci_size_bytes :: int
  ci_mime_type :: string
  ci_idempotency_key :: string

datatype created = InstantUpload uuid | MultipartUpload upload_session

record create_result =
  cr_mode :: string
  cr_upload :: "upload_session option"
  cr_file :: "file_view option"

definition name_taken :: "uuid \<Rightarrow> uuid \<Rightarrow> gotext \<Rightarrow> db \<Rightarrow> bool" where
  "name_taken owner fid normalized d =
     (0 < count_where (\<lambda>e. fe_owner_id e = owner \<and> fe_folder_id e = fid \<and>
        fe_name_normalized e = normalized \<and> entry_live e) (file_entries d))"

text \<open>The replay of a request that has a session already.\<close>

definition create_replay :: "create_input \<Rightarrow> gotext \<Rightarrow> upload_session \<Rightarrow> created result" where
  "create_replay i filename s =
     (if us_folder_id s \<noteq> ci_folder_id i \<or> us_filename s \<noteq> filename \<or>
         us_declared_sha256 s \<noteq> ci_sha256 i \<or> us_size_bytes s \<noteq> ci_size_bytes i \<or>
         us_mime_type s \<noteq> ci_mime_type i then Inl UploadConflict
      else case us_completed_entry_id s of
        Some entry \<Rightarrow> Inr (if us_storage_upload_id s = [] \<and> us_status s = Completed
                          then InstantUpload entry else MultipartUpload s)
      | None \<Rightarrow> Inr (MultipartUpload s))"

definition new_session ::
  "upload_env \<Rightarrow> ctx \<Rightarrow> uuid \<Rightarrow> uuid \<Rightarrow> create_input \<Rightarrow> gotext \<Rightarrow> gotext \<Rightarrow> upload_session" where
  "new_session env cx i user input filename normalized =
     (let (ps, pc) = multipart_plan (ci_size_bytes input) in
      \<lparr> us_id = i, us_user_id = user, us_folder_id = ci_folder_id input, us_filename = filename,
        us_filename_normalized = normalized, us_declared_sha256 = ci_sha256 input,
        us_mime_type = ci_mime_type input, us_size_bytes = ci_size_bytes input,
        us_reserved_bytes = ci_size_bytes input, us_bucket = ue_bucket env,
        us_object_key = ''staging/'' @ uuid_string user @ ''/'' @ uuid_string i,
        us_storage_upload_id = [], us_part_size = ps, us_part_count = pc,
        us_status = Initializing, us_idempotency_key = ci_idempotency_key input,
        us_completed_object_id = None, us_completed_entry_id = None, us_error_code = None,
        us_expires_at = cx_now cx + ue_session_ttl env, us_version = 1 \<rparr>)"

definition instant_session ::
  "upload_env \<Rightarrow> ctx \<Rightarrow> uuid \<Rightarrow> uuid \<Rightarrow> create_input \<Rightarrow> gotext \<Rightarrow> gotext \<Rightarrow> file_object \<Rightarrow> uuid \<Rightarrow> upload_session"
where
  "instant_session env cx i user input filename normalized obj entry =
     (new_session env cx i user input filename normalized)\<lparr>us_reserved_bytes := 0,
        us_bucket := fo_bucket obj, us_object_key := fo_object_key obj, us_part_size := 0,
        us_part_count := 0, us_status := Completed, us_completed_object_id := Some (fo_id obj),
        us_completed_entry_id := Some entry\<rparr>"

definition create_instant ::
  "upload_env \<Rightarrow> ctx \<Rightarrow> uuid \<Rightarrow> create_input \<Rightarrow> gotext \<Rightarrow> gotext \<Rightarrow> file_object \<Rightarrow> db \<Rightarrow> (created \<times> db) result"
where
  "create_instant env cx user input filename normalized obj d =
     attempt (on_error (\<lambda>e. UploadQuotaExceeded) (add_logical_usage user (ci_size_bytes input) d)) (\<lambda>d1.
     attempt (create_file (cx_mint cx 0) user (ci_folder_id input) (fo_id obj) filename d1) (\<lambda>(e, d2).
     attempt (current_epoch user d2) (\<lambda>(ep, d3).
     attempt (add_reference (fo_id obj) d3) (\<lambda>d4.
     attempt (add_typed cx 1 (typed_input event_file_created (fe_id e) (fe_version e) ''core-api''
        (FileCreatedV1 user (fe_id e) (fo_id obj) (ep_content_epoch ep))) d4) (\<lambda>d5.
     attempt (insert_upload_session
        (instant_session env cx (cx_mint cx 2) user input filename normalized obj (fe_id e)) d5) (\<lambda>d6.
     Inr (InstantUpload (fe_id e), d6)))))))"

definition create_multipart ::
  "upload_env \<Rightarrow> ctx \<Rightarrow> uuid \<Rightarrow> create_input \<Rightarrow> gotext \<Rightarrow> gotext \<Rightarrow> db \<Rightarrow> (created \<times> db) result"
where
  "create_multipart env cx user input filename normalized d =
     (let s = new_session env cx (cx_mint cx 0) user input filename normalized in
      attempt (on_error (\<lambda>e. UploadQuotaExceeded) (reserve_quota user (ci_size_bytes input) d)) (\<lambda>d1.
      attempt (insert_upload_session s d1) (\<lambda>d2.
      attempt (enqueue_upload_operation cx 1 (session_input MultipartCreate [] s) d2) (\<lambda>(op, d3).
      Inr (MultipartUpload s, d3)))))"

definition create_tx ::
  "upload_env \<Rightarrow> ctx \<Rightarrow> uuid \<Rightarrow> create_input \<Rightarrow> gotext \<Rightarrow> gotext \<Rightarrow> db \<Rightarrow> (created \<times> db) result" where
  "create_tx env cx user input filename normalized d =
     (case find (\<lambda>s. us_user_id s = user \<and> us_idempotency_key s = ci_idempotency_key input)
             (upload_sessions d) of
        Some s \<Rightarrow> attempt (create_replay input filename s) (\<lambda>c. Inr (c, d))
      | None \<Rightarrow>
          if name_taken user (ci_folder_id input) normalized d then Inl UploadNameConflict
          else if 0 < count_where (\<lambda>s. us_user_id s = user \<and> us_folder_id s = ci_folder_id input \<and>
                   us_filename_normalized s = normalized \<and> us_status s \<in> set active_statuses \<and>
                   cx_now cx < us_expires_at s) (upload_sessions d)
            then Inl UploadNameConflict
          else (case find_owned user (ci_sha256 input) (ci_size_bytes input) d of
              Inr obj \<Rightarrow> create_instant env cx user input filename normalized obj d
            | Inl e \<Rightarrow> if \<not> errors_is e GormRecordNotFound then Inl e
                else create_multipart env cx user input filename normalized d))"

definition create ::
  "upload_env \<Rightarrow> ctx \<Rightarrow> uuid \<Rightarrow> create_input \<Rightarrow> db \<Rightarrow> create_result result \<times> db" where
  "create env cx user input0 d =
     (case normalize_filename (ci_filename input0) of
        Inl e \<Rightarrow> (Inl UploadInvalidInput, d)
      | Inr (filename, normalized) \<Rightarrow>
          if \<not> valid_sha256 (ci_sha256 input0) \<or> ci_size_bytes input0 \<le> 0 \<or>
             ci_idempotency_key input0 = [] \<or> 128 < length (ci_idempotency_key input0) \<or>
             255 < length (ci_mime_type input0) then (Inl UploadInvalidInput, d)
          else
            let input = (if ci_mime_type input0 = []
                         then input0\<lparr>ci_mime_type := ''application/octet-stream''\<rparr> else input0)
            in case folder_of user (ci_folder_id input) d of
                 Inl e \<Rightarrow> (Inl UploadNotFound, d)
               | Inr f \<Rightarrow>
                   (case create_tx env cx user input filename normalized d of
                      Inl e \<Rightarrow> (Inl (if errors_is e DriveConflict then UploadFileExists else e), d)
                    | Inr (InstantUpload entry, d') \<Rightarrow>
                        (attempt (load_file user entry d') (\<lambda>v.
                           Inr \<lparr> cr_mode = ''instant'', cr_upload = None, cr_file = Some v \<rparr>), d')
                    | Inr (MultipartUpload s, d') \<Rightarrow>
                        (Inr \<lparr> cr_mode = ''multipart'', cr_upload = Some s, cr_file = None \<rparr>, d')))"

section \<open>Parts\<close>

record confirmed_part =
  cp_part_number :: int
  cp_etag :: string
  cp_size_bytes :: int
  cp_checksum :: "string option"

text \<open>\<open>PresignParts\<close>: the URLs as a map from part numbers.\<close>

fun presign_loop ::
  "upload_env \<Rightarrow> upload_session \<Rightarrow> int list \<Rightarrow> (int \<times> string) list \<Rightarrow> (int \<times> string) list result" where
  "presign_loop env s [] urls = Inr urls"
| "presign_loop env s (n # ns) urls =
     (if n < 1 \<or> us_part_count s < n then Inl UploadInvalidInput
      else attempt (ue_presign env (us_bucket s) (us_object_key s) (ue_part_url_ttl env)
             [(''uploadId'', us_storage_upload_id s), (''partNumber'', int_string n)])
           (\<lambda>url. presign_loop env s ns (AList.update n url urls)))"

definition presign_parts ::
  "upload_env \<Rightarrow> time \<Rightarrow> uuid \<Rightarrow> uuid \<Rightarrow> int list \<Rightarrow> db \<Rightarrow> ((int \<times> string) list \<times> time) result" where
  "presign_parts env now user i ns d =
     (case get_session user i d of
        Inl e \<Rightarrow> Inl UploadConflict
      | Inr (s, _) \<Rightarrow>
          if us_status s \<noteq> Created \<and> us_status s \<noteq> Uploading then Inl UploadConflict
          else attempt (presign_loop env s ns []) (\<lambda>urls. Inr (urls, now + ue_part_url_ttl env)))"

text \<open>\<open>ON CONFLICT (session_id, part_number) DO UPDATE\<close>.\<close>

definition upsert_part :: "upload_part \<Rightarrow> db \<Rightarrow> db" where
  "upsert_part p d =
     (let same = (\<lambda>q. pt_session_id q = pt_session_id p \<and> pt_part_number q = pt_part_number p) in
      if exists_where same (upload_parts d)
      then d\<lparr>upload_parts := update_where same (\<lambda>q. q\<lparr>pt_etag := pt_etag p,
             pt_size_bytes := pt_size_bytes p, pt_checksum := pt_checksum p,
             pt_completed_at := pt_completed_at p\<rparr>) (upload_parts d)\<rparr>
      else d\<lparr>upload_parts := upload_parts d @ [p]\<rparr>)"

definition part_valid :: "upload_session \<Rightarrow> confirmed_part \<Rightarrow> bool" where
  "part_valid s p \<longleftrightarrow> 1 \<le> cp_part_number p \<and> cp_part_number p \<le> us_part_count s \<and>
     cp_etag p \<noteq> [] \<and> length (cp_etag p) \<le> 512 \<and> 0 < cp_size_bytes p \<and>
     (case cp_checksum p of None \<Rightarrow> True | Some c \<Rightarrow> length c \<le> 512)"

fun confirm_loop :: "time \<Rightarrow> upload_session \<Rightarrow> confirmed_part list \<Rightarrow> db \<Rightarrow> db result" where
  "confirm_loop now s [] d = Inr d"
| "confirm_loop now s (p # ps) d =
     (if \<not> part_valid s p then Inl UploadInvalidInput
      else confirm_loop now s ps (upsert_part
        \<lparr> pt_session_id = us_id s, pt_part_number = cp_part_number p, pt_etag = cp_etag p,
          pt_size_bytes = cp_size_bytes p, pt_checksum = cp_checksum p, pt_completed_at = now \<rparr> d))"

text \<open>The transaction of \<open>ConfirmParts\<close> works with the session as read before it.\<close>

definition confirm_tx :: "time \<Rightarrow> upload_session \<Rightarrow> confirmed_part list \<Rightarrow> db \<Rightarrow> db result" where
  "confirm_tx now s ps d =
     attempt (confirm_loop now s ps d) (\<lambda>d'.
     Inr (update_sessions (\<lambda>q. us_id q = us_id s \<and> us_status q \<in> {Created, Uploading})
            (\<lambda>q. q\<lparr>us_status := Uploading\<rparr>) d'))"

definition confirm_parts ::
  "time \<Rightarrow> uuid \<Rightarrow> uuid \<Rightarrow> confirmed_part list \<Rightarrow> db \<Rightarrow> (upload_session \<times> upload_part list) result \<times> db" where
  "confirm_parts now user i ps d =
     (case get_session user i d of
        Inl e \<Rightarrow> (Inl UploadConflict, d)
      | Inr (s, _) \<Rightarrow>
          if us_status s \<noteq> Created \<and> us_status s \<noteq> Uploading then (Inl UploadConflict, d)
          else (case confirm_tx now s ps d of
                  Inl e \<Rightarrow> (Inl e, d) | Inr d' \<Rightarrow> (get_session user i d', d')))"

section \<open>Completion and abort by the user\<close>

definition complete_upload :: "ctx \<Rightarrow> uuid \<Rightarrow> uuid \<Rightarrow> db \<Rightarrow> (upload_session \<times> db) result" where
  "complete_upload cx user i d =
     attempt (found UploadNotFound (session_of user i d)) (\<lambda>s.
     if us_status s \<in> {Verifying, Completed, Completing} then Inr (s, d)
     else if us_status s \<noteq> Uploading \<and> us_status s \<noteq> Created then Inl UploadConflict
     else if int (count_where (\<lambda>p. pt_session_id p = us_id s) (upload_parts d)) \<noteq> us_part_count s
       then Inl UploadConflict
     else if trim_str (us_storage_upload_id s) = [] then Inl UploadConflict
     else let own = (\<lambda>q. us_id q = us_id s \<and> us_user_id q = user \<and> us_status q \<in> {Created, Uploading});
              change = (\<lambda>q. q\<lparr>us_status := Completing, us_version := us_version q + 1\<rparr>)
       in if count_where own (upload_sessions d) \<noteq> 1 then Inl UploadConflict
          else attempt (enqueue_upload_operation cx 0
                 (session_input MultipartComplete (us_storage_upload_id s) s) (update_sessions own change d))
               (\<lambda>(op, d'). Inr (change s, d')))"

text \<open>The end of a session that gives its reservation back.\<close>

definition end_session :: "upload_status \<Rightarrow> string option \<Rightarrow> uuid \<Rightarrow> db \<Rightarrow> db" where
  "end_session status code i d = update_sessions (\<lambda>q. us_id q = i)
     (\<lambda>q. q\<lparr>us_status := status, us_reserved_bytes := 0,
            us_error_code := (case code of None \<Rightarrow> us_error_code q | Some c \<Rightarrow> Some c),
            us_version := us_version q + 1\<rparr>) d"

text \<open>The common tail of \<open>Abort\<close> and \<open>expireOne\<close>.\<close>

definition end_multipart :: "ctx \<Rightarrow> upload_status \<Rightarrow> upload_session \<Rightarrow> db \<Rightarrow> db result" where
  "end_multipart cx status s d =
     attempt (release_quota (us_user_id s) (us_reserved_bytes s) d) (\<lambda>d1.
       let d2 = end_session status None (us_id s) d1 in
       if us_storage_upload_id s = [] then Inr d2
       else attempt (enqueue_upload_operation cx 0
              (session_input MultipartAbort (us_storage_upload_id s) s) d2) (\<lambda>(op, d3). Inr d3))"

definition abort_upload :: "ctx \<Rightarrow> uuid \<Rightarrow> uuid \<Rightarrow> db \<Rightarrow> db result" where
  "abort_upload cx user i d =
     attempt (found UploadNotFound (session_of user i d)) (\<lambda>s.
     if us_status s \<in> {Aborted, Failed} then Inr d
     else if us_status s \<in> {Completed, Verifying, Completing} then Inl UploadConflict
     else end_multipart cx Aborted s d)"

section \<open>Maintenance\<close>

type_synonym scan_state = "string \<Rightarrow> uuid option"

text \<open>\<open>maintenancePage\<close>: the candidates after the cursor of this kind of work, in the order of
  their identifiers, wrapping round once when there are none.\<close>

definition page_after :: "uuid option \<Rightarrow> nat \<Rightarrow> upload_session list \<Rightarrow> upload_session list" where
  "page_after after limit rows = take limit (sort_key us_id
     (filter (\<lambda>s. case after of None \<Rightarrow> True | Some a \<Rightarrow> a = 0 \<or> a < us_id s) rows))"

definition maintenance_page ::
  "string \<Rightarrow> nat \<Rightarrow> upload_session list \<Rightarrow> scan_state \<Rightarrow> upload_session list \<times> scan_state" where
  "maintenance_page kind limit rows scan =
     (if limit = 0 then ([], scan)
      else let page = page_after (scan kind) limit rows;
               page' = (if page = [] \<and> scan kind \<notin> {None, Some 0} then page_after None limit rows else page)
        in (page', scan(kind := (if page' = [] then None else Some (us_id (last page'))))))"

definition expire_one :: "ctx \<Rightarrow> uuid \<Rightarrow> db \<Rightarrow> (bool \<times> db) result" where
  "expire_one cx i d =
     (case session_by_id i d of
        None \<Rightarrow> Inr (False, d)
      | Some s \<Rightarrow>
          if us_status s \<notin> {Initializing, Created, Uploading} \<or> cx_now cx < us_expires_at s
            then Inr (False, d)
          else attempt (end_multipart cx Expired s d) (\<lambda>d'. Inr (True, d')))"

text \<open>A batch: one transaction per session, failures joined; iteration \<open>k\<close> runs in \<open>cxs k\<close>.\<close>

fun run_batch ::
  "(nat \<Rightarrow> upload_session \<Rightarrow> db \<Rightarrow> (bool \<times> db) result) \<Rightarrow> nat \<Rightarrow> upload_session list \<Rightarrow>
   nat \<times> go_error option \<Rightarrow> db \<Rightarrow> (nat \<times> go_error option) \<times> db" where
  "run_batch f k [] acc d = (acc, d)"
| "run_batch f k (s # ss) (n, failures) d =
     (case f k s d of
        Inl e \<Rightarrow> run_batch f (Suc k) ss (n, join_errors failures (Some e)) d
      | Inr (changed, d') \<Rightarrow> run_batch f (Suc k) ss (if changed then n + 1 else n, failures) d')"

definition expire ::
  "(nat \<Rightarrow> ctx) \<Rightarrow> nat \<Rightarrow> scan_state \<Rightarrow> db \<Rightarrow> ((nat \<times> go_error option) \<times> scan_state) \<times> db" where
  "expire cxs limit scan d =
     (let (page, scan') = maintenance_page ''expire'' limit
            (filter (\<lambda>s. us_status s \<in> {Initializing, Created, Uploading} \<and> us_expires_at s \<le> cx_now (cxs 0))
               (upload_sessions d)) scan;
          (acc, d') = run_batch (\<lambda>k s. expire_one (cxs k) (us_id s)) 0 page (0, None) d
      in ((acc, scan'), d'))"

section \<open>Storage operations\<close>

definition persist_multipart_upload_id :: "time \<Rightarrow> uuid \<Rightarrow> uuid \<Rightarrow> string \<Rightarrow> db \<Rightarrow> db result" where
  "persist_multipart_upload_id now i token upload_id d =
     (if i = 0 \<or> token = 0 \<or> trim_str upload_id = [] then Inl StorageInvalidOperation
      else let own = (\<lambda>q. so_id q = i \<and> so_state q = OpRunning \<and> so_lease_token q = Some token \<and>
                       so_storage_upload_id q = []);
               d' = d\<lparr>storage_operations := update_where own
                      (\<lambda>q. q\<lparr>so_storage_upload_id := upload_id, so_updated_at := now\<rparr>)
                      (storage_operations d)\<rparr>
        in if count_where own (storage_operations d) = 1 then Inr d'
           else attempt (found GormRecordNotFound (operation_by_id i d')) (\<lambda>current.
             if so_storage_upload_id current = upload_id then Inr d'
             else Inl (ErrNew ''multipart upload operation is no longer writable'')))"

text \<open>The listing loop of \<open>recoverExistingMultipartUpload\<close>: it ends when a page is the last one,
  fails, or does not move the markers.\<close>

fun listed :: "string \<Rightarrow> (string \<times> string \<times> time \<times> go_error option) list \<Rightarrow> (string \<times> time) list \<Rightarrow>
    (string \<times> time) list result" where
  "listed key [] acc = Inr acc"
| "listed key ((k, upload_id, initiated, err) # us) acc =
     (case err of Some e \<Rightarrow> Inl e
      | None \<Rightarrow> listed key us (if k = key \<and> upload_id \<noteq> [] then acc @ [(upload_id, initiated)] else acc))"

partial_function (option) list_uploads ::
  "(string \<Rightarrow> string \<Rightarrow> string \<Rightarrow> string \<Rightarrow> upload_listing result) \<Rightarrow> string \<Rightarrow> string \<Rightarrow> string \<Rightarrow> string \<Rightarrow>
   (string \<times> time) list \<Rightarrow> (string \<times> time) list result option" where
  "list_uploads lister bucket key key_marker upload_marker acc =
     (case lister bucket key key_marker upload_marker of
        Inl e \<Rightarrow> Some (Inl e)
      | Inr page \<Rightarrow>
          (case listed key (ul_uploads page) acc of
             Inl e \<Rightarrow> Some (Inl e)
           | Inr acc' \<Rightarrow>
               if \<not> ul_truncated page then Some (Inr acc')
               else if ul_next_key_marker page = key_marker \<and> ul_next_upload_marker page = upload_marker
                 then Some (Inl (ErrNew ''multipart upload listing did not advance''))
               else list_uploads lister bucket key (ul_next_key_marker page) (ul_next_upload_marker page) acc'))"

definition newest :: "string \<times> time \<Rightarrow> (string \<times> time) list \<Rightarrow> string \<times> time" where
  "newest u us = fold (\<lambda>x best. if snd best < snd x then x else best) us u"

fun abort_others :: "(string \<Rightarrow> go_error option) \<Rightarrow> string \<Rightarrow> string list \<Rightarrow> go_error option" where
  "abort_others abort chosen [] = None"
| "abort_others abort chosen (u # us) =
     (if u = chosen then abort_others abort chosen us
      else case abort u of Some e \<Rightarrow> Some e | None \<Rightarrow> abort_others abort chosen us)"

definition recover_existing_upload ::
  "upload_env \<Rightarrow> (string \<Rightarrow> string \<Rightarrow> string \<Rightarrow> string \<Rightarrow> upload_listing result) \<Rightarrow> string \<Rightarrow> string \<Rightarrow>
   string result option" where
  "recover_existing_upload env lister bucket key =
     map_option (\<lambda>r. attempt r (\<lambda>us.
        case us of [] \<Rightarrow> Inr []
        | u # rest \<Rightarrow>
            let chosen = fst (newest u rest) in
            (case abort_others (ue_abort env bucket key) chosen (map fst us) of
               Some e \<Rightarrow> Inl e | None \<Rightarrow> Inr chosen)))
       (list_uploads lister bucket key [] [] [])"

definition session_ended :: "upload_session \<Rightarrow> bool" where
  "session_ended s \<longleftrightarrow> us_status s \<in> {Aborted, Expired, Failed}"

text \<open>The provider upload id for a create operation: the operation's own, one found by listing, or
  a new one.\<close>

definition provider_upload_id ::
  "upload_env \<Rightarrow> operation \<Rightarrow> upload_session \<Rightarrow> string result option" where
  "provider_upload_id env op s =
     (if so_storage_upload_id op \<noteq> [] then Some (Inr (so_storage_upload_id op))
      else map_option (\<lambda>r. attempt r (\<lambda>upload_id.
             if upload_id = [] \<and> \<not> session_ended s
             then ue_new_multipart env (so_source_bucket op) (so_source_key op) (us_mime_type s)
             else Inr upload_id))
           (case ue_list env of
              None \<Rightarrow> Some (Inr [])
            | Some lister \<Rightarrow> recover_existing_upload env lister (so_source_bucket op) (so_source_key op)))"

text \<open>Its closing transaction; \<open>s\<close> is the session read before the provider calls.\<close>

definition multipart_created ::
  "ctx \<Rightarrow> operation \<Rightarrow> upload_session \<Rightarrow> string \<Rightarrow> db \<Rightarrow> db result" where
  "multipart_created cx op s upload_id d =
     attempt (found GormRecordNotFound (session_by_id (us_id s) d)) (\<lambda>current.
     attempt
       (if us_status current = Initializing
        then Inr (update_sessions (\<lambda>q. us_id q = us_id current)
               (\<lambda>q. q\<lparr>us_status := Created, us_storage_upload_id := upload_id,
                      us_version := us_version q + 1\<rparr>) d)
        else if session_ended current
        then attempt (enqueue_upload_operation cx 0 (session_input MultipartAbort upload_id s) d)
               (\<lambda>(op', d'). Inr d')
        else Inr d)
       (mark_succeeded_owned (cx_now cx) (so_id op) (operation_lease_token op)))"

definition finish_op :: "ctx \<Rightarrow> operation \<Rightarrow> db \<Rightarrow> go_error option \<times> db" where
  "finish_op cx op d = committed d (mark_succeeded_owned (cx_now cx) (so_id op) (operation_lease_token op) d)"

definition reconcile_multipart_create ::
  "upload_env \<Rightarrow> ctx \<Rightarrow> operation \<Rightarrow> db \<Rightarrow> (go_error option \<times> db) option" where
  "reconcile_multipart_create env cx op d =
     (case so_upload_session_id op of
        None \<Rightarrow> Some (Some (ErrNew ''multipart create operation has no session''), d)
      | Some sid \<Rightarrow>
          (case session_by_id sid d of
             None \<Rightarrow> Some (Some GormRecordNotFound, d)
           | Some s \<Rightarrow>
               if us_status s \<noteq> Initializing \<and> \<not> session_ended s then Some (finish_op cx op d)
               else map_option (\<lambda>r. case r of
                   Inl e \<Rightarrow> (Some e, d)
                 | Inr upload_id \<Rightarrow>
                     if upload_id = [] \<and> session_ended s then finish_op cx op d
                     else (case persist_multipart_upload_id (cx_now cx) (so_id op)
                                  (operation_lease_token op) upload_id d of
                             Inl e \<Rightarrow> (Some e, d)
                           | Inr d1 \<Rightarrow> committed d1 (multipart_created cx op s upload_id d1)))
                 (provider_upload_id env op s)))"

text \<open>The session moves on to verification and asks for it.\<close>

definition start_verifying :: "ctx \<Rightarrow> upload_session \<Rightarrow> db \<Rightarrow> db result" where
  "start_verifying cx s d =
     add_typed cx 0 (typed_input event_object_verify_requested (us_id s) (us_version s + 1) ''core-api''
        (ObjectVerifyRequestedV1 (us_id s)))
       (update_sessions (\<lambda>q. us_id q = us_id s)
          (\<lambda>q. q\<lparr>us_status := Verifying, us_version := us_version q + 1\<rparr>) d)"

definition multipart_completed :: "ctx \<Rightarrow> uuid \<Rightarrow> db \<Rightarrow> db result" where
  "multipart_completed cx i d =
     attempt (found GormRecordNotFound (session_by_id i d)) (\<lambda>current.
     if us_status current \<in> {Verifying, Completed} then Inr d
     else if us_status current \<noteq> Completing then Inl UploadConflict
     else start_verifying cx current d)"

definition reconcile_multipart_complete ::
  "upload_env \<Rightarrow> ctx \<Rightarrow> operation \<Rightarrow> db \<Rightarrow> go_error option \<times> db" where
  "reconcile_multipart_complete env cx op d =
     (case so_upload_session_id op of
        None \<Rightarrow> (Some (ErrNew ''multipart complete operation has no session''), d)
      | Some sid \<Rightarrow>
          (case session_by_id sid d of
             None \<Rightarrow> (Some GormRecordNotFound, d)
           | Some s \<Rightarrow>
               if us_status s \<in> {Verifying, Completed} then finish_op cx op d
               else if us_status s \<noteq> Completing
                 then (Some (ErrNew ''multipart complete session is not completing''), d)
               else if int (length (parts_of (us_id s) d)) \<noteq> us_part_count s then (Some UploadConflict, d)
               else
                 (case (case ue_complete env (us_bucket s) (us_object_key s) (us_storage_upload_id s)
                               (map (\<lambda>p. (pt_part_number p, pt_etag p)) (parts_of (us_id s) d)) of
                          None \<Rightarrow> None
                        | Some e \<Rightarrow> (case ue_stat env (us_bucket s) (us_object_key s) of
                              Inl _ \<Rightarrow> Some e
                            | Inr bytes \<Rightarrow> if bytes \<noteq> us_size_bytes s then Some e else None)) of
                    Some e \<Rightarrow> (Some e, d)
                  | None \<Rightarrow>
                      (case mark_succeeded_owned (cx_now cx) (so_id op) (operation_lease_token op) d of
                         Inl e \<Rightarrow> (Some e, d)
                       | Inr d1 \<Rightarrow> committed d1 (multipart_completed cx (us_id s) d1)))))"

text \<open>After the provider has aborted the upload, or no longer knows it.\<close>

definition abort_done :: "ctx \<Rightarrow> operation \<Rightarrow> db \<Rightarrow> go_error option \<times> db" where
  "abort_done cx op d =
     (case finish_op cx op d of
        (Some e, d') \<Rightarrow> (Some e, d')
      | (None, d') \<Rightarrow> (None, case so_upload_session_id op of
            None \<Rightarrow> d'
          | Some sid \<Rightarrow> update_sessions (\<lambda>q. us_id q = sid) (\<lambda>q. q\<lparr>us_storage_upload_id := []\<rparr>) d'))"

definition perform_operation ::
  "upload_env \<Rightarrow> ctx \<Rightarrow> operation \<Rightarrow> db \<Rightarrow> (go_error option \<times> db) option" where
  "perform_operation env cx op d =
     (case so_operation_type op of
        MultipartCreate \<Rightarrow> reconcile_multipart_create env cx op d
      | MultipartComplete \<Rightarrow> Some (reconcile_multipart_complete env cx op d)
      | MultipartAbort \<Rightarrow> Some
          (if so_storage_upload_id op = [] then finish_op cx op d
           else case ue_abort env (so_source_bucket op) (so_source_key op) (so_storage_upload_id op) of
               Some e \<Rightarrow> if ue_error_code env e \<noteq> ''NoSuchUpload'' then (Some e, d)
                         else abort_done cx op d
             | None \<Rightarrow> abort_done cx op d)
      | CanonicalEnsure \<Rightarrow> Some
          (let copy = (case ue_copy env (so_target_bucket op, so_target_key op)
                              (so_source_bucket op, so_source_key op) of
                         Some e \<Rightarrow> (Some e, d) | None \<Rightarrow> finish_op cx op d)
           in case so_upload_session_id op of
                None \<Rightarrow> copy
              | Some sid \<Rightarrow>
                  (case session_by_id sid d of
                     None \<Rightarrow> (Some GormRecordNotFound, d)
                   | Some s \<Rightarrow> if session_ended s then finish_op cx op d else copy))
      | StagingDelete \<Rightarrow> Some
          (case sg_remove (ue_storage env) (so_source_bucket op) (so_source_key op) of
             Some e \<Rightarrow> (Some e, d) | None \<Rightarrow> finish_op cx op d)
      | _ \<Rightarrow> Some (Some (ErrNew ''storage operation must be handled by objectstore reconciler''), d))"

text \<open>\<open>reconcileOperation\<close>: \<open>RunOwned\<close> needs a lease token.\<close>

definition reconcile_operation ::
  "upload_env \<Rightarrow> ctx \<Rightarrow> operation \<Rightarrow> db \<Rightarrow> (go_error option \<times> db) option" where
  "reconcile_operation env cx op d =
     (if so_lease_token op = None then Some (Some StorageInvalidOperation, d)
      else perform_operation env cx op d)"

section \<open>Recovery of storage operations\<close>

text \<open>A succeeded operation whose session missed its transition.\<close>

definition converge_succeeded_operation :: "ctx \<Rightarrow> operation \<Rightarrow> db \<Rightarrow> db result" where
  "converge_succeeded_operation cx op d =
     (case so_upload_session_id op of
        None \<Rightarrow> Inl (ErrNew ''succeeded storage operation has no session'')
      | Some sid \<Rightarrow> attempt (found GormRecordNotFound (session_by_id sid d)) (\<lambda>s.
          case so_operation_type op of
            MultipartCreate \<Rightarrow>
              if us_status s \<noteq> Initializing then Inr d
              else if trim_str (so_storage_upload_id op) = []
                then Inl (ErrNew ''succeeded multipart create has no provider upload id'')
              else Inr (update_sessions (\<lambda>q. us_id q = us_id s \<and> us_status q = Initializing)
                     (\<lambda>q. q\<lparr>us_status := Created, us_storage_upload_id := so_storage_upload_id op,
                            us_version := us_version q + 1\<rparr>) d)
          | MultipartComplete \<Rightarrow>
              if us_status s \<in> {Verifying, Completed} then Inr d
              else if us_status s \<noteq> Completing
                then Inl (ErrNew ''succeeded multipart complete session is not completing'')
              else if count_where (\<lambda>q. us_id q = us_id s \<and> us_status q = Completing) (upload_sessions d) \<noteq> 1
                then Inl UploadConflict
              else start_verifying cx s d
          | _ \<Rightarrow> Inr d))"

fun converge_all :: "(nat \<Rightarrow> ctx) \<Rightarrow> nat \<Rightarrow> operation list \<Rightarrow> nat \<Rightarrow> db \<Rightarrow> (nat \<times> go_error option) \<times> db" where
  "converge_all cxs k [] n d = ((n, None), d)"
| "converge_all cxs k (op # ops) n d =
     (case converge_succeeded_operation (cxs k) op d of
        Inl e \<Rightarrow> ((n, Some e), d)
      | Inr d' \<Rightarrow> converge_all cxs (Suc k) ops (n + 1) d')"

definition reconcile_succeeded ::
  "(nat \<Rightarrow> ctx) \<Rightarrow> nat \<Rightarrow> db \<Rightarrow> (nat \<times> go_error option) \<times> db" where
  "reconcile_succeeded cxs limit d =
     converge_all cxs 0 (take limit (sort_key so_updated_at (filter (\<lambda>op. so_state op = OpSucceeded \<and>
       so_upload_session_id op \<noteq> None \<and>
       exists_where (\<lambda>s. Some (us_id s) = so_upload_session_id op \<and>
          (so_operation_type op = MultipartCreate \<and> us_status s = Initializing \<or>
           so_operation_type op = MultipartComplete \<and> us_status s = Completing)) (upload_sessions d))
       (storage_operations d)))) 0 d"

definition reconcile_storage_operation ::
  "upload_env \<Rightarrow> ctx \<Rightarrow> uuid \<Rightarrow> db \<Rightarrow> (go_error option \<times> db) option" where
  "reconcile_storage_operation env cx i d =
     (case get_operation i d of
        Inl e \<Rightarrow> Some (if errors_is e GormRecordNotFound then None else Some e, d)
      | Inr op \<Rightarrow>
          if so_state op = OpDead then Some (Some (last_error_value op), d)
          else if so_state op = OpSucceeded
            then Some (if so_operation_type op \<in> {MultipartCreate, MultipartComplete}
                       then committed d (converge_succeeded_operation cx op d) else (None, d))
          else (case try_start (cx_now cx) (cx_mint cx 1) (so_id op) (5 * minute) d of
              Inl e \<Rightarrow> Some (Some e, d)
            | Inr (claimed, token, d') \<Rightarrow>
                if \<not> claimed then Some (None, d')
                else let op' = op\<lparr>so_lease_token := Some token\<rparr>
                  in map_option (record_failure_of (ue_storage env) cx op')
                       (reconcile_operation env cx op' d')))"

section \<open>Cleanup of verified copies\<close>

definition cleanup_needed :: "upload_session \<Rightarrow> operation \<Rightarrow> db \<Rightarrow> bool" where
  "cleanup_needed s op d =
     (case find (\<lambda>o'. fo_sha256 o' = us_declared_sha256 s \<and> fo_size_bytes o' = us_size_bytes s)
             (file_objects d) of
        None \<Rightarrow> True
      | Some obj \<Rightarrow> fo_status obj = ObjectDeleted \<and> so_target_key op = revival_key obj)"

text \<open>One copy: adopted as an object without references, marked deleting, its deletion queued.\<close>

definition adopt_copy :: "ctx \<Rightarrow> nat \<Rightarrow> upload_session \<Rightarrow> operation \<Rightarrow> db \<Rightarrow> db result" where
  "adopt_copy cx k s op d =
     attempt (create_or_get
        \<lparr> fo_id = cx_mint cx k, fo_sha256 = us_declared_sha256 s, fo_size_bytes = us_size_bytes s,
          fo_mime_type = us_mime_type s, fo_bucket = so_target_bucket op,
          fo_object_key = so_target_key op, fo_status = ObjectReady, fo_reference_count = 0,
          fo_version = 1, fo_verified_at = Some (cx_now cx), fo_deleted_at = None \<rparr> d) (\<lambda>(obj, d1).
     let version = fo_version obj + 1;
         d2 = update_objects (\<lambda>o'. fo_id o' = fo_id obj)
                (\<lambda>o'. o'\<lparr>fo_status := ObjectDeleting, fo_version := version\<rparr>) d1 in
     attempt (enqueue (cx_mint cx (k + 1)) (cx_now cx)
        \<lparr> oi_id = 0, oi_operation_type = ObjectDelete,
          oi_idempotency_key = gc_key (fo_id obj) version,
          oi_upload_session_id = None, oi_object_id = Some (fo_id obj),
          oi_source_bucket = fo_bucket obj, oi_source_key = fo_object_key obj,
          oi_target_bucket = [], oi_target_key = [], oi_storage_upload_id = [] \<rparr> d2) (\<lambda>(op', d3).
     add_typed cx (k + 2) (typed_input event_object_gc_requested (fo_id obj) version ''upload-cleanup''
        (ObjectGCRequestedV1 (fo_id obj))) d3))"

fun adopt_copies :: "ctx \<Rightarrow> nat \<Rightarrow> upload_session \<Rightarrow> operation list \<Rightarrow> db \<Rightarrow> db result" where
  "adopt_copies cx k s [] d = Inr d"
| "adopt_copies cx k s (op # ops) d =
     attempt (if cleanup_needed s op d then adopt_copy cx k s op d else Inr d)
       (adopt_copies cx (k + 3) s ops)"

definition register_canonical_cleanup :: "ctx \<Rightarrow> nat \<Rightarrow> upload_session \<Rightarrow> db \<Rightarrow> db result" where
  "register_canonical_cleanup cx k s d = adopt_copies cx k s
     (filter (\<lambda>op. so_upload_session_id op = Some (us_id s) \<and> so_operation_type op = CanonicalEnsure)
       (storage_operations d)) d"

definition canonical_orphan :: "db \<Rightarrow> upload_session \<Rightarrow> bool" where
  "canonical_orphan d s \<longleftrightarrow> us_status s \<in> {Failed, Aborted, Expired} \<and>
     exists_where (\<lambda>op. so_upload_session_id op = Some (us_id s) \<and>
        so_operation_type op = CanonicalEnsure \<and> so_state op = OpSucceeded \<and>
        \<not> exists_where (\<lambda>o'. fo_bucket o' = so_target_bucket op \<and> fo_object_key o' = so_target_key op)
            (file_objects d) \<and>
        \<not> exists_where (\<lambda>o'. fo_sha256 o' = us_declared_sha256 s \<and> fo_size_bytes o' = us_size_bytes s \<and>
              fo_status o' \<noteq> ObjectDeleted) (file_objects d)) (storage_operations d)"

definition reconcile_canonical_orphans ::
  "(nat \<Rightarrow> ctx) \<Rightarrow> nat \<Rightarrow> scan_state \<Rightarrow> db \<Rightarrow> ((nat \<times> go_error option) \<times> scan_state) \<times> db" where
  "reconcile_canonical_orphans cxs limit scan d =
     (if limit = 0 then (((0, None), scan), d)
      else let (page, scan') = maintenance_page ''canonical_orphans'' limit
                 (filter (canonical_orphan d) (upload_sessions d)) scan;
               (acc, d') = run_batch (\<lambda>k s d. attempt
                   (found GormRecordNotFound (session_by_id (us_id s) d)) (\<lambda>s'.
                   attempt (register_canonical_cleanup (cxs k) 0 s' d) (\<lambda>d'. Inr (True, d')))) 0 page (0, None) d
        in ((acc, scan'), d'))"

text \<open>\<open>ReconcileStorageOperations\<close>: claimed work, then missed transitions, then orphans; phase
  \<open>k\<close> of the context supplies its own clock and identifiers.\<close>

fun reconcile_claimed ::
  "upload_env \<Rightarrow> (nat \<Rightarrow> ctx) \<Rightarrow> nat \<Rightarrow> nat \<Rightarrow> nat \<times> go_error option \<Rightarrow> db \<Rightarrow>
   ((nat \<times> go_error option \<times> bool) \<times> db) option" where
  "reconcile_claimed env cxs k 0 (n, failures) d = Some ((n, failures, False), d)"
| "reconcile_claimed env cxs k (Suc m) (n, failures) d =
     (if sg_canceled (ue_storage env) then Some ((n, join_errors failures (Some ErrCanceled), True), d)
      else case claim_types (cx_now (cxs k)) (cx_mint (cxs k)) 1 (5 * minute)
             [MultipartCreate, MultipartComplete, MultipartAbort, CanonicalEnsure, StagingDelete] d of
        Inl e \<Rightarrow> Some ((n, join_errors failures (Some e), True), d)
      | Inr ([], d1) \<Rightarrow> Some ((n, failures, False), d1)
      | Inr (op # _, d1) \<Rightarrow>
          Option.bind (map_option (record_failure_of (ue_storage env) (cxs k) op)
            (reconcile_operation env (cxs k) op d1)) (\<lambda>r. case r of
             (Some e, d2) \<Rightarrow> reconcile_claimed env cxs (Suc k) m (n, join_errors failures (Some e)) d2
           | (None, d2) \<Rightarrow> reconcile_claimed env cxs (Suc k) m (n + 1, failures) d2))"

definition reconcile_storage_operations ::
  "upload_env \<Rightarrow> (nat \<Rightarrow> nat \<Rightarrow> ctx) \<Rightarrow> nat \<Rightarrow> scan_state \<Rightarrow> db \<Rightarrow>
   (((nat \<times> go_error option) \<times> scan_state) \<times> db) option" where
  "reconcile_storage_operations env cxs limit scan d =
     map_option (\<lambda>((n, failures, stopped), d1).
       if stopped then (((n, failures), scan), d1)
       else case reconcile_succeeded (cxs 1) (limit - n) d1 of
         ((c, Some e), d2) \<Rightarrow> (((n, join_errors failures (Some e)), scan), d2)
       | ((c, None), d2) \<Rightarrow>
           let (((o', err), scan'), d3) = reconcile_canonical_orphans (cxs 2) (limit - n - c) scan d2
           in (((n + c + o', join_errors failures err), scan'), d3))
       (reconcile_claimed env (cxs 0) 0 limit (0, None) d)"

section \<open>Failure and verification\<close>

definition schedule_staging_delete ::
  "upload_env \<Rightarrow> ctx \<Rightarrow> nat \<Rightarrow> upload_session \<Rightarrow> db \<Rightarrow> go_error option \<times> db" where
  "schedule_staging_delete env cx k s d =
     (case enqueue_staging_delete cx k s d of
        Inl e \<Rightarrow> (Some e, d)
      | Inr (None, d1) \<Rightarrow> (None, d1)
      | Inr (Some op, d1) \<Rightarrow>
          if so_id op = 0 \<or> \<not> ue_has_storage env \<or> so_state op = OpSucceeded then (None, d1)
          else if so_state op = OpDead then (Some (last_error_value op), d1)
          else (case try_start (cx_now cx) (cx_mint cx (k + 1)) (so_id op) (5 * minute) d1 of
              Inl e \<Rightarrow> (Some e, d1)
            | Inr (claimed, token, d2) \<Rightarrow>
                if \<not> claimed
                then (case get_operation (so_id op) d2 of
                        Inl e \<Rightarrow> (Some e, d2)
                      | Inr current \<Rightarrow> (if so_state current = OpSucceeded then None
                          else Some (ErrNew ''staging delete operation is already running''), d2))
                else (case sg_remove (ue_storage env) (us_bucket s) (us_object_key s) of
                        Some e \<Rightarrow> record_failure_of (ue_storage env) cx (op\<lparr>so_lease_token := Some token\<rparr>)
                                    (Some e, d2)
                      | None \<Rightarrow> committed d2 (mark_succeeded_owned (cx_now cx) (so_id op) token d2))))"

definition fail_tx :: "ctx \<Rightarrow> nat \<Rightarrow> uuid \<Rightarrow> string \<Rightarrow> db \<Rightarrow> (upload_session \<times> db) result" where
  "fail_tx cx k i code d =
     attempt (found GormRecordNotFound (session_by_id i d)) (\<lambda>s.
     if us_status s \<noteq> Verifying
     then (if us_status s \<in> {Failed, Completed} then Inr (s, d) else Inl UploadConflict)
     else attempt (register_canonical_cleanup cx (k + 3) s d) (\<lambda>d1.
       attempt (release_quota (us_user_id s) (us_reserved_bytes s) d1) (\<lambda>d2.
       attempt (enqueue_staging_delete cx k s (end_session Failed (Some code) (us_id s) d2)) (\<lambda>(op, d3).
       Inr (s, d3)))))"

definition fail_session ::
  "upload_env \<Rightarrow> ctx \<Rightarrow> nat \<Rightarrow> uuid \<Rightarrow> string \<Rightarrow> db \<Rightarrow> go_error option \<times> db" where
  "fail_session env cx k i code d =
     (case fail_tx cx k i code d of
        Inl e \<Rightarrow> (Some e, d)
      | Inr (s, d') \<Rightarrow> schedule_staging_delete env cx (k + 1) s d')"

text \<open>The transaction of \<open>ensureCanonical\<close>: the key of the canonical object, and the copy
  operation when one is needed.\<close>

definition ensure_canonical_tx ::
  "ctx \<Rightarrow> upload_session \<Rightarrow> string \<Rightarrow> int \<Rightarrow> db \<Rightarrow> ((string \<times> operation option) \<times> db) result" where
  "ensure_canonical_tx cx s sha bytes d =
     attempt (found GormRecordNotFound (session_by_id (us_id s) d)) (\<lambda>current.
     if us_status current \<noteq> Verifying then Inl UploadConflict
     else let copy = (\<lambda>key. attempt (enqueue (cx_mint cx 0) (cx_now cx)
              \<lparr> oi_id = 0, oi_operation_type = CanonicalEnsure,
                oi_idempotency_key = ''canonical.ensure:'' @ key,
                oi_upload_session_id = Some (us_id s), oi_object_id = None,
                oi_source_bucket = us_bucket s, oi_source_key = us_object_key s,
                oi_target_bucket = us_bucket s, oi_target_key = key,
                oi_storage_upload_id = [] \<rparr> d) (\<lambda>(op, d'). Inr ((key, Some op), d')))
       in case find (\<lambda>o'. fo_sha256 o' = sha \<and> fo_size_bytes o' = bytes) (file_objects d) of
            None \<Rightarrow> copy (base_key sha)
          | Some obj \<Rightarrow> (case fo_status obj of
                ObjectReady \<Rightarrow> Inr ((fo_object_key obj, None), d)
              | ObjectDeleted \<Rightarrow> copy (revival_key obj)
              | ObjectDeleting \<Rightarrow> Inl (ErrNew ''canonical object is being deleted'')))"

text \<open>The polling loop of \<open>executeCanonicalEnsure\<close>.  Poll \<open>p\<close> runs in its own context, after
  what other workers did to the database meanwhile; the list ends with the 30 second deadline.\<close>

fun execute_canonical_ensure ::
  "upload_env \<Rightarrow> (ctx \<times> (db \<Rightarrow> db)) list \<Rightarrow> operation \<Rightarrow> db \<Rightarrow> (go_error option \<times> db) option" where
  "execute_canonical_ensure env [] op d =
     Some (Some (ErrNew ''canonical ensure operation still running''), d)"
| "execute_canonical_ensure env ((cx, others) # polls) op d0 =
     (let d = others d0 in
      case try_start (cx_now cx) (cx_mint cx 0) (so_id op) (5 * minute) d of
        Inl e \<Rightarrow> Some (Some e, d)
      | Inr (True, token, d1) \<Rightarrow>
          let op' = op\<lparr>so_lease_token := Some token\<rparr>
          in map_option (record_failure_of (ue_storage env) cx op') (reconcile_operation env cx op' d1)
      | Inr (False, token, d1) \<Rightarrow>
          (case get_operation (so_id op) d1 of
             Inl e \<Rightarrow> Some (Some e, d1)
           | Inr current \<Rightarrow>
               if so_state current = OpDead then Some (Some (last_error_value current), d1)
               else if so_state current = OpSucceeded then Some (None, d1)
               else if sg_canceled (ue_storage env) then Some (Some ErrCanceled, d1)
               else execute_canonical_ensure env polls
                 (if so_state current = OpFailed \<and> \<not> cx_now cx < so_available_at current \<or>
                     so_state current = OpPending then current else op) d1))"

text \<open>The key (or the error of the copy) beside the database.\<close>

definition ensure_canonical ::
  "upload_env \<Rightarrow> ctx \<Rightarrow> (ctx \<times> (db \<Rightarrow> db)) list \<Rightarrow> upload_session \<Rightarrow> string \<Rightarrow> int \<Rightarrow> db \<Rightarrow>
   (string result \<times> db) option" where
  "ensure_canonical env cx polls s sha bytes d =
     (case ensure_canonical_tx cx s sha bytes d of
        Inl e \<Rightarrow> Some (Inl e, d)
      | Inr ((key, None), d1) \<Rightarrow> Some (Inr key, d1)
      | Inr ((key, Some op), d1) \<Rightarrow>
          if so_id op = 0 \<or> so_state op = OpSucceeded then Some (Inr key, d1)
          else map_option (\<lambda>(err, d2). (case err of None \<Rightarrow> Inr key | Some e \<Rightarrow> Inl e, d2))
                 (execute_canonical_ensure env polls op d1))"

text \<open>The closing transaction of \<open>Verify\<close>; \<open>s\<close> is the session read at its start, \<open>locked\<close> its row.\<close>

definition verify_link ::
  "ctx \<Rightarrow> upload_session \<Rightarrow> upload_session \<Rightarrow> string \<Rightarrow> int \<Rightarrow> string \<Rightarrow> db \<Rightarrow> db result" where
  "verify_link cx s locked sha bytes key d =
     attempt (create_or_get
        \<lparr> fo_id = cx_mint cx 1, fo_sha256 = sha, fo_size_bytes = bytes,
          fo_mime_type = us_mime_type s, fo_bucket = us_bucket s, fo_object_key = key,
          fo_status = ObjectReady, fo_reference_count = 0, fo_version = 1,
          fo_verified_at = Some (cx_now cx), fo_deleted_at = None \<rparr> d) (\<lambda>(obj0, d1).
     attempt (create_file (cx_mint cx 2) (us_user_id s) (us_folder_id s) (fo_id obj0) (us_filename s) d1)
       (\<lambda>(entry, d2).
     attempt (current_epoch (us_user_id s) d2) (\<lambda>(ep, d3).
     attempt (add_reference (fo_id obj0) d3) (\<lambda>d4.
     attempt (found GormRecordNotFound (object_by_id (fo_id obj0) d4)) (\<lambda>obj.
     attempt (commit_quota (us_user_id s) (us_reserved_bytes s) (us_size_bytes s) d4) (\<lambda>d5.
     attempt (add_typed cx 3 (typed_input event_file_created (fe_id entry) (fe_version entry) ''core-api''
        (FileCreatedV1 (us_user_id s) (fe_id entry) (fo_id obj) (ep_content_epoch ep)))
        (update_sessions (\<lambda>q. us_id q = us_id locked)
          (\<lambda>q. q\<lparr>us_status := Completed, us_completed_object_id := Some (fo_id obj),
                 us_completed_entry_id := Some (fe_id entry), us_reserved_bytes := 0\<rparr>) d5)) (\<lambda>d6.
     attempt (add_typed cx 4 (typed_input event_object_ready (fo_id obj) (fo_version obj) ''core-api''
        (ObjectReadyV1 (fo_id obj) None)) d6) (\<lambda>d7.
     attempt (enqueue_staging_delete cx 5 locked d7) (\<lambda>(op, d8). Inr d8)))))))))"

definition verify_commit ::
  "ctx \<Rightarrow> upload_session \<Rightarrow> string \<Rightarrow> int \<Rightarrow> string \<Rightarrow> db \<Rightarrow> db result" where
  "verify_commit cx s sha bytes key d =
     attempt (found GormRecordNotFound (session_by_id (us_id s) d)) (\<lambda>locked.
     if us_status locked = Completed then Inr d
     else if us_status locked \<noteq> Verifying then Inl UploadConflict
     else if name_taken (us_user_id locked) (us_folder_id locked) (us_filename_normalized locked) d
       then Inl UploadNameConflict
     else verify_link cx s locked sha bytes key d)"

definition verify ::
  "upload_env \<Rightarrow> ctx \<Rightarrow> (ctx \<times> (db \<Rightarrow> db)) list \<Rightarrow> uuid \<Rightarrow> db \<Rightarrow> (go_error option \<times> db) option" where
  "verify env cx polls i d =
     (case session_by_id i d of
        None \<Rightarrow> Some (Some UploadNotFound, d)
      | Some s \<Rightarrow>
          if us_status s = Completed then Some (schedule_staging_delete env cx 6 s d)
          else if us_status s \<noteq> Verifying then Some (Some UploadConflict, d)
          else (case ue_get env (us_bucket s) (us_object_key s) of
              Inl e \<Rightarrow> Some (Some e, d)
            | Inr body \<Rightarrow>
                let sha = ue_sha256 env body; bytes = int (length body) in
                if bytes \<noteq> us_size_bytes s \<or> sha \<noteq> us_declared_sha256 s
                then Some (fail_session env cx 8 (us_id s) ''upload.hash_mismatch'' d)
                else map_option (\<lambda>(r, d1).
                  case r of Inl e \<Rightarrow> (Some e, d1)
                  | Inr key \<Rightarrow>
                    (case verify_commit cx s sha bytes key d1 of
                       Inr d2 \<Rightarrow> schedule_staging_delete env cx 6 s d2
                     | Inl e \<Rightarrow>
                         if errors_is e UploadNameConflict
                           then fail_session env cx 8 (us_id s) ''upload.name_conflict'' d1
                         else if errors_is e DriveConflict
                           then fail_session env cx 8 (us_id s) ''upload.file_exists'' d1
                         else (Some e, d1)))
                  (ensure_canonical env cx polls s sha bytes d)))"

section \<open>Stopped work\<close>

text \<open>A recovery event of the row \<open>i\<close> has been given up.\<close>

definition recovery_stopped :: "uuid \<Rightarrow> db \<Rightarrow> bool" where
  "recovery_stopped i d = exists_where (\<lambda>r. rc_stopped_at r \<noteq> None \<and>
     exists_where (\<lambda>e. ev_id e = rc_event_id r \<and> ev_aggregate_id e = i) (outbox_events d))
     (outbox_recoveries d)"

definition stopped_upload :: "db \<Rightarrow> upload_session \<Rightarrow> bool" where
  "stopped_upload d s \<longleftrightarrow> us_status s \<in> {Initializing, Completing} \<and>
     exists_where (\<lambda>op. so_upload_session_id op = Some (us_id s) \<and>
        (so_operation_type op = MultipartCreate \<and> us_status s = Initializing \<or>
         so_operation_type op = MultipartComplete \<and> us_status s = Completing) \<and>
        (so_state op = OpDead \<or> recovery_stopped (so_id op) d)) (storage_operations d)"

text \<open>The session of a stopped operation fails; what the provider may still hold is cleaned up.\<close>

definition stop_operation :: "time \<Rightarrow> operation \<Rightarrow> db \<Rightarrow> db" where
  "stop_operation now op d =
     (if so_state op \<noteq> OpDead \<and> so_state op \<noteq> OpSucceeded
      then d\<lparr>storage_operations := update_where (\<lambda>q. so_id q = so_id op)
        (\<lambda>q. q\<lparr>so_state := OpDead, so_completed_at := Some now, so_lease_until := None,
               so_lease_token := None, so_updated_at := now,
               so_last_error := Some ''automatic recovery budget exhausted''\<rparr>)
        (storage_operations d)\<rparr> else d)"

definition retire_stopped :: "ctx \<Rightarrow> upload_session \<Rightarrow> operation \<Rightarrow> db \<Rightarrow> db result" where
  "retire_stopped cx s op d =
     attempt (release_quota (us_user_id s) (us_reserved_bytes s) (stop_operation (cx_now cx) op d)) (\<lambda>d2.
       let upload_id = (if us_storage_upload_id s = [] then so_storage_upload_id op
                        else us_storage_upload_id s);
           d3 = end_session Failed (Some ''upload.storage_operation_exhausted'') (us_id s) d2 in
       attempt (if upload_id = [] then Inr d3
                else attempt (enqueue_upload_operation cx 0 (session_input MultipartAbort upload_id s) d3)
                       (\<lambda>(op', d'). Inr d'))
         (\<lambda>d4. attempt (enqueue_staging_delete cx 1 s d4) (\<lambda>(op', d5). Inr d5)))"

definition retire_session :: "ctx \<Rightarrow> uuid \<Rightarrow> db \<Rightarrow> (bool \<times> db) result" where
  "retire_session cx i d =
     attempt (found GormRecordNotFound (session_by_id i d)) (\<lambda>s.
     if us_status s \<noteq> Initializing \<and> us_status s \<noteq> Completing then Inr (False, d)
     else let kind = (if us_status s = Completing then MultipartComplete else MultipartCreate) in
       attempt (found GormRecordNotFound (find (\<lambda>op. so_upload_session_id op = Some (us_id s) \<and>
          so_operation_type op = kind) (storage_operations d))) (\<lambda>op.
       if so_state op \<noteq> OpDead \<and> (\<not> recovery_stopped (so_id op) d \<or> so_state op = OpRunning)
       then Inr (False, d)
       else attempt (retire_stopped cx s op d) (\<lambda>d'. Inr (True, d'))))"

definition stopped_verification :: "db \<Rightarrow> upload_session \<Rightarrow> bool" where
  "stopped_verification d s \<longleftrightarrow> us_status s = Verifying \<and>
     exists_where (\<lambda>e. ev_aggregate_id e = us_id s \<and> ev_event_type e = event_object_verify_requested \<and>
       (exists_where (\<lambda>t. tr_task_id t = uuid_string (ev_id e) @ '':object.verify.v1@object'' \<and>
            tr_status t = TaskDead) (task_results d) \<or>
        exists_where (\<lambda>r. rc_event_id r = ev_id e \<and> rc_stopped_at r \<noteq> None) (outbox_recoveries d)))
       (outbox_events d)"

fun fail_batch ::
  "upload_env \<Rightarrow> (nat \<Rightarrow> ctx) \<Rightarrow> nat \<Rightarrow> upload_session list \<Rightarrow> nat \<times> go_error option \<Rightarrow> db \<Rightarrow>
   (nat \<times> go_error option) \<times> db" where
  "fail_batch env cxs k [] acc d = (acc, d)"
| "fail_batch env cxs k (s # ss) (n, failures) d =
     (case fail_session env (cxs k) 0 (us_id s) ''upload.verification_failed'' d of
        (Some e, d') \<Rightarrow> fail_batch env cxs (Suc k) ss (n, join_errors failures (Some e)) d'
      | (None, d') \<Rightarrow> fail_batch env cxs (Suc k) ss (n + 1, failures) d')"

definition retire_stopped_verifications ::
  "upload_env \<Rightarrow> (nat \<Rightarrow> ctx) \<Rightarrow> nat \<Rightarrow> scan_state \<Rightarrow> db \<Rightarrow> ((nat \<times> go_error option) \<times> scan_state) \<times> db"
where
  "retire_stopped_verifications env cxs limit scan d =
     (if limit = 0 then (((0, None), scan), d)
      else let (page, scan') = maintenance_page ''stopped_verifications'' limit
                 (filter (stopped_verification d) (upload_sessions d)) scan;
               (acc, d') = fail_batch env cxs 0 page (0, None) d
        in ((acc, scan'), d'))"

definition retire_stopped_sessions ::
  "upload_env \<Rightarrow> (nat \<Rightarrow> nat \<Rightarrow> ctx) \<Rightarrow> nat \<Rightarrow> scan_state \<Rightarrow> db \<Rightarrow> ((nat \<times> go_error option) \<times> scan_state) \<times> db"
where
  "retire_stopped_sessions env cxs limit scan d =
     (let (((n, failures), scan1), d1) = retire_stopped_verifications env (cxs 0) limit scan d in
      if limit \<le> n then (((n, failures), scan1), d1)
      else let (page, scan2) = maintenance_page ''stopped_uploads'' (limit - n)
                 (filter (stopped_upload d1) (upload_sessions d1)) scan1;
               (acc, d2) = run_batch (\<lambda>k s. retire_session (cxs 1 k) (us_id s)) 0 page (n, failures) d1
        in ((acc, scan2), d2))"

section \<open>The verification task\<close>

definition verification_failure_code :: "upload_env \<Rightarrow> go_error \<Rightarrow> string" where
  "verification_failure_code env e =
     (if ue_error_code env e = ''XMinioStorageFull'' \<or>
         contains (to_lower (lit (sg_error_text (ue_storage env) e))) (lit ''minimum free drive threshold'')
      then ''upload.storage_unavailable'' else ''upload.verification_failed'')"

text \<open>\<open>VerifyHandler\<close>; \<open>retry\<close> is the retry count and budget of the running task, if it has one.\<close>

definition verify_handler ::
  "upload_env \<Rightarrow> ctx \<Rightarrow> (ctx \<times> (db \<Rightarrow> db)) list \<Rightarrow> uuid option \<Rightarrow> (nat \<times> nat) option \<Rightarrow> db \<Rightarrow>
   (go_error option \<times> db) option" where
  "verify_handler env cx polls upload_id retry d =
     (case upload_id of
        None \<Rightarrow> Some (Some ErrSkipRetry, d)
      | Some i \<Rightarrow> map_option (\<lambda>(err, d1). case err of
            None \<Rightarrow> (None, d1)
          | Some e \<Rightarrow>
              if errors_is e StorageExhausted \<or>
                 (case retry of None \<Rightarrow> False | Some (retried, budget) \<Rightarrow> budget \<le> retried)
              then (case fail_session env cx 16 i (verification_failure_code env e) d1 of
                      (Some f, d2) \<Rightarrow> (Some f, d2)
                    | (None, d2) \<Rightarrow> (Some (if errors_is e StorageExhausted
                         then ErrJoin ErrSkipRetry e else e), d2))
              else (Some e, d1)) (verify env cx polls i d))"

end
