(* ===== verification/UploadAccounting.thy ===== *)
theory UploadAccounting
  imports Upload
begin

text \<open>
  The invariants of upload sessions: the reservations of a user's sessions add up to the user's
  reserved bytes, and statuses only move along the edges of the state machine.  The step relation
  has one constructor per committed transaction, so it covers every interleaving of requests,
  workers and maintenance; workers that act on a session read earlier carry it in the state.
\<close>

section \<open>Frames\<close>

text \<open>What the quota balance depends on.\<close>

definition money :: "db \<Rightarrow> user list \<times> upload_session list" where
  "money d = (users d, upload_sessions d)"

lemma money_eq: "money d' = money d \<longleftrightarrow> users d' = users d \<and> upload_sessions d' = upload_sessions d"
  by (auto simp: money_def)

lemma business_money: "business d' = business d \<Longrightarrow> money d' = money d"
  unfolding money_eq by (intro conjI business_eqD(1,8))

named_theorems money_frames "operations that leave users and sessions alone"

lemma enqueue_money [money_frames]: "enqueue f now i d = Inr (op, d') \<Longrightarrow> money d' = money d"
  by (erule enqueue_cases) (simp_all add: money_def)

lemma add_typed_money [money_frames]: "add_typed cx k i d = Inr d' \<Longrightarrow> money d' = money d"
  using add_typed_frame business_money by blast

lemma enqueue_upload_money [money_frames]:
  assumes "enqueue_upload_operation cx k i d = Inr (op, d')"
  shows "money d' = money d"
proof -
  obtain op1 d1 where "enqueue (cx_mint cx k) (cx_now cx) i d = Inr (op1, d1)" "business d' = business d1"
    using assms by (auto simp: enqueue_upload_operation_def Let_def attempt_eq_Inr_iff
        dest!: ensure_recovery_frame)
  then show ?thesis using enqueue_money business_money by metis
qed

lemma enqueue_staging_money [money_frames]:
  "enqueue_staging_delete cx k s d = Inr (op, d') \<Longrightarrow> money d' = money d"
  by (auto simp: enqueue_staging_delete_def attempt_eq_Inr_iff split: if_splits dest: enqueue_money)

lemma mark_succeeded_owned_money [money_frames]: "mark_succeeded_owned now i t d = Inr d' \<Longrightarrow> money d' = money d"
  by (auto simp: mark_succeeded_owned_def mark_succeeded_def Let_def money_def split: if_splits option.splits)

lemma add_reference_money [money_frames]: "add_reference oid d = Inr d' \<Longrightarrow> money d' = money d"
  by (auto simp: add_reference_def Let_def update_objects_def money_def split: if_splits)

lemma create_or_get_money [money_frames]: "create_or_get obj d = Inr (o', d') \<Longrightarrow> money d' = money d"
  by (auto simp: create_or_get_def Let_def update_objects_def money_def result_iffs
      split: if_splits option.splits object_status.splits)

lemma current_epoch_money [money_frames]: "current_epoch u d = Inr (ep, d') \<Longrightarrow> money d' = money d"
  using bump_frame(3) business_money by blast

lemma create_file_money [money_frames]:
  assumes "create_file f owner fid oid name d = Inr (e, d')"
  shows "money d' = money d"
proof -
  note r = assms[unfolded create_file_def Let_def tx_steps]
  obtain e1 d1 ep where b: "insert_entry e1 d = Inr d1" "bump_content owner d1 = Inr (ep, d')"
    using r by blast
  have "money d' = money d1" using b(2) by (intro business_money bump_frame(1))
  also have "\<dots> = money d" using insert_entry_eq[OF b(1)] by (simp add: money_def)
  finally show ?thesis .
qed

lemma adopt_copy_money: "adopt_copy cx k s op d = Inr d' \<Longrightarrow> money d' = money d"
proof -
  assume "adopt_copy cx k s op d = Inr d'"
  note r = this[unfolded adopt_copy_def Let_def tx_steps]
  show "money d' = money d" using r
  proof (elim exE conjE)
    fix obj d1 op' d3
    assume a: "create_or_get
        \<lparr> fo_id = cx_mint cx k, fo_sha256 = us_declared_sha256 s, fo_size_bytes = us_size_bytes s,
          fo_mime_type = us_mime_type s, fo_bucket = so_target_bucket op,
          fo_object_key = so_target_key op, fo_status = ObjectReady, fo_reference_count = 0,
          fo_version = 1, fo_verified_at = Some (cx_now cx), fo_deleted_at = None \<rparr> d = Inr (obj, d1)"
      and b: "enqueue (cx_mint cx (k + 1)) (cx_now cx)
        \<lparr> oi_id = 0, oi_operation_type = ObjectDelete,
          oi_idempotency_key = gc_key (fo_id obj) (fo_version obj + 1),
          oi_upload_session_id = None, oi_object_id = Some (fo_id obj),
          oi_source_bucket = fo_bucket obj, oi_source_key = fo_object_key obj,
          oi_target_bucket = [], oi_target_key = [], oi_storage_upload_id = [] \<rparr>
        (update_objects (\<lambda>o'. fo_id o' = fo_id obj)
                (\<lambda>o'. o'\<lparr>fo_status := ObjectDeleting, fo_version := fo_version obj + 1\<rparr>) d1) = Inr (op', d3)"
      and c: "add_typed cx (k + 2) (typed_input event_object_gc_requested (fo_id obj) (fo_version obj + 1)
          ''upload-cleanup'' (ObjectGCRequestedV1 (fo_id obj))) d3 = Inr d'"
    from add_typed_money[OF c] enqueue_money[OF b] create_or_get_money[OF a]
    show ?thesis by (simp add: money_def update_objects_def)
  qed
qed

lemma adopt_copies_money: "adopt_copies cx k s ops d = Inr d' \<Longrightarrow> money d' = money d"
proof (induction ops arbitrary: k d)
  case (Cons op ops)
  then obtain d1 where "(if cleanup_needed s op d then adopt_copy cx k s op d else Inr d) = Inr d1"
    "adopt_copies cx (k + 3) s ops d1 = Inr d'" by (auto simp: attempt_eq_Inr_iff)
  then show ?case using Cons.IH adopt_copy_money by (metis Inr_inject)
qed simp

lemma cleanup_money [money_frames]: "register_canonical_cleanup cx k s d = Inr d' \<Longrightarrow> money d' = money d"
  unfolding register_canonical_cleanup_def by (rule adopt_copies_money)

section \<open>The invariant\<close>

text \<open>The edges of the state machine.  An expired session can still be aborted by its user;
  \<open>Completed\<close>, \<open>Failed\<close> and \<open>Aborted\<close> have no way out.\<close>

primrec next_statuses :: "upload_status \<Rightarrow> upload_status list" where
  "next_statuses Initializing = [Created, Aborted, Expired, Failed]"
| "next_statuses Created = [Uploading, Completing, Aborted, Expired]"
| "next_statuses Uploading = [Completing, Aborted, Expired]"
| "next_statuses Completing = [Verifying, Failed]"
| "next_statuses Verifying = [Completed, Failed]"
| "next_statuses Completed = []"
| "next_statuses Failed = []"
| "next_statuses Aborted = []"
| "next_statuses Expired = [Aborted]"

definition session_edge :: "upload_status \<Rightarrow> upload_status \<Rightarrow> bool" where
  "session_edge a b \<longleftrightarrow> b = a \<or> b \<in> set (next_statuses a)"

text \<open>What no operation changes in a session.\<close>

definition session_fixed :: "upload_session \<Rightarrow> upload_session" where
  "session_fixed s = s\<lparr>us_status := Initializing, us_reserved_bytes := 0, us_storage_upload_id := [],
     us_completed_object_id := None, us_completed_entry_id := None, us_error_code := None,
     us_version := 0\<rparr>"

definition session_ok :: "upload_session \<Rightarrow> bool" where
  "session_ok s \<longleftrightarrow> 0 < us_size_bytes s \<and>
     us_reserved_bytes s = (if us_status s \<in> set active_statuses then us_size_bytes s else 0)"

definition reservations :: "uuid \<Rightarrow> db \<Rightarrow> int" where
  "reservations u d = sum_where (\<lambda>s. us_user_id s = u) us_reserved_bytes (upload_sessions d)"

text \<open>The idempotency index.\<close>

definition request_key :: "upload_session \<Rightarrow> uuid \<times> string" where
  "request_key s = (us_user_id s, us_idempotency_key s)"

definition balanced :: "db \<Rightarrow> bool" where
  "balanced d \<longleftrightarrow> users_ok d \<and> key_distinct us_id (upload_sessions d) \<and>
     key_distinct request_key (upload_sessions d) \<and> (\<forall>s \<in> set (upload_sessions d). session_ok s) \<and> (\<forall>u. reserved_of d u = reservations u d)"

definition sessions_move :: "db \<Rightarrow> db \<Rightarrow> bool" where
  "sessions_move d d' \<longleftrightarrow> (\<forall>r \<in> set (upload_sessions d). \<exists>r' \<in> set (upload_sessions d').
     session_fixed r' = session_fixed r \<and> session_edge (us_status r) (us_status r'))"

definition sound :: "db \<Rightarrow> db \<Rightarrow> bool" where
  "sound d d' \<longleftrightarrow> (balanced d \<longrightarrow> balanced d' \<and> sessions_move d d')"

lemma session_edge_refl [simp]: "session_edge a a"
  by (simp add: session_edge_def)

lemma session_fixed_sel:
  "us_id (session_fixed s) = us_id s" "us_user_id (session_fixed s) = us_user_id s"
  "us_size_bytes (session_fixed s) = us_size_bytes s"
  "us_folder_id (session_fixed s) = us_folder_id s" "us_filename (session_fixed s) = us_filename s"
  "request_key (session_fixed s) = request_key s" "us_mime_type (session_fixed s) = us_mime_type s"
  "us_declared_sha256 (session_fixed s) = us_declared_sha256 s"
  by (simp_all add: session_fixed_def request_key_def)

lemma session_fixedD:
  assumes "session_fixed s = session_fixed t"
  shows "us_id s = us_id t" "us_user_id s = us_user_id t" "us_size_bytes s = us_size_bytes t"
    "us_folder_id s = us_folder_id t" "us_filename s = us_filename t" "request_key s = request_key t"
    "us_mime_type s = us_mime_type t" "us_declared_sha256 s = us_declared_sha256 t"
  using assms session_fixed_sel by metis+

lemma reserved_of_users: "users d' = users d \<Longrightarrow> reserved_of d' = reserved_of d"
  by (simp add: fun_eq_iff reserved_of_def user_by_id_def)

lemma balanced_money: "money d' = money d \<Longrightarrow> balanced d' = balanced d"
  using reserved_of_users[of d' d] by (simp add: balanced_def money_eq users_ok_def reservations_def)

lemma sound_money:
  assumes "money d' = money d"
  shows "sound d d'" "sound e d' = sound e d" "sound d' e = sound d e"
  using balanced_money[OF assms] assms by (auto simp: sound_def sessions_move_def money_eq)

lemma session_by_id_mem: "session_by_id i d = Some r \<Longrightarrow> r \<in> set (upload_sessions d) \<and> us_id r = i"
  unfolding session_by_id_def by (drule find_SomeD) simp

lemma session_of_by_id:
  assumes "balanced d" "session_of user i d = Some r"
  shows "session_by_id i d = Some r" "us_user_id r = user"
proof -
  have m: "r \<in> set (upload_sessions d)" "us_id r = i" "us_user_id r = user"
    using find_SomeD[OF assms(2)[unfolded session_of_def]] by auto
  then show "session_by_id i d = Some r" "us_user_id r = user"
    using assms(1) by (auto simp: balanced_def session_by_id_def find_by_key)
qed

text \<open>The one lemma behind every transition of a session: a row changes within its edges and the
  account follows its reservation.\<close>

lemma move_session:
  assumes b: "balanced d" and r: "session_by_id i d = Some r"
    and s: "upload_sessions d1 = upload_sessions d" and u: "users_ok d1"
    and a: "\<And>v. reserved_of d1 v = reserved_of d v +
      (if v = us_user_id r then us_reserved_bytes (g r) - us_reserved_bytes r else 0)"
    and g: "\<And>q. session_fixed (g q) = session_fixed q"
    and e: "session_edge (us_status r) (us_status (g r))" and ok: "session_ok (g r)"
    and C: "P r" "\<And>q. P q \<Longrightarrow> us_id q = i"
  shows "balanced (update_sessions P g d1) \<and> sessions_move d (update_sessions P g d1)"
proof -
  have k: "key_distinct us_id (upload_sessions d)" using b by (simp add: balanced_def)
  note m = session_by_id_mem[OF r]
  have id: "us_id (g q) = us_id q" "us_user_id (g q) = us_user_id q" "request_key (g q) = request_key q" for q
    using session_fixedD[OF g] by simp_all
  have row: "q \<in> set (upload_sessions d) \<Longrightarrow> us_id q = i \<Longrightarrow> q = r" for q
    using key_unique[OF k] m by blast
  have eq: "update_where P g (upload_sessions d) = update_where (\<lambda>q. us_id q = i) g (upload_sessions d)"
    using C row unfolding update_where_def by (auto intro!: map_cong)
  have t: "upload_sessions (update_sessions P g d1) = update_where (\<lambda>q. us_id q = i) g (upload_sessions d)"
    by (simp add: update_sessions_def s eq)
  have "reservations v (update_sessions P g d1) = reserved_of (update_sessions P g d1) v" for v
  proof -
    have "reservations v (update_sessions P g d1) = reservations v d -
        (if us_user_id r = v then us_reserved_bytes r else 0) +
        (if us_user_id r = v then us_reserved_bytes (g r) else 0)"
      unfolding reservations_def t using sum_where_update_by_key[OF k, of r i] m id by simp
    moreover have "reserved_of (update_sessions P g d1) v = reserved_of d1 v"
      by (simp add: reserved_of_def user_by_id_def update_sessions_def)
    ultimately show ?thesis using a[of v] b by (auto simp: balanced_def)
  qed
  moreover have "key_distinct us_id (upload_sessions (update_sessions P g d1))"
    unfolding t using k id by (intro key_distinct_update)
  moreover have "key_distinct request_key (upload_sessions (update_sessions P g d1))"
    unfolding t using b id by (intro key_distinct_update) (simp_all add: balanced_def)
  moreover have "session_ok q" if "q \<in> set (upload_sessions (update_sessions P g d1))" for q
    using that b ok row unfolding t in_set_update_where by (auto simp: balanced_def)
  ultimately have "balanced (update_sessions P g d1)"
    using u by (simp add: balanced_def users_ok_def update_sessions_def)
  moreover have "sessions_move d (update_sessions P g d1)"
    unfolding sessions_move_def
  proof
    fix q assume q: "q \<in> set (upload_sessions d)"
    show "\<exists>r' \<in> set (upload_sessions (update_sessions P g d1)). session_fixed r' = session_fixed q \<and>
        session_edge (us_status q) (us_status r')"
    proof (cases "us_id q = i")
      case True
      then have "g q \<in> set (upload_sessions (update_sessions P g d1))" "q = r"
        using q row unfolding t in_set_update_where by auto
      then show ?thesis using g e by blast
    next
      case False
      then have "q \<in> set (upload_sessions (update_sessions P g d1))"
        using q unfolding t in_set_update_where by auto
      then show ?thesis by (auto intro!: bexI[of _ q])
    qed
  qed
  ultimately show ?thesis by simp
qed

text \<open>A new session.\<close>

lemma insert_session_sound:
  assumes b: "balanced d" and i: "insert_upload_session s d1 = Inr d'"
    and s: "upload_sessions d1 = upload_sessions d" and u: "users_ok d1" and ok: "session_ok s"
    and a: "\<And>v. reserved_of d1 v = reserved_of d v + (if v = us_user_id s then us_reserved_bytes s else 0)"
  shows "balanced d' \<and> sessions_move d d'"
proof -
  have d': "d' = d1\<lparr>upload_sessions := upload_sessions d @ [s]\<rparr>"
    and n: "\<forall>q \<in> set (upload_sessions d). us_id q \<noteq> us_id s \<and> request_key q \<noteq> request_key s"
    using i s by (auto simp: insert_upload_session_def table_simps request_key_def split: if_splits)
  have "reserved_of d' v = reserved_of d1 v" for v by (simp add: d' reserved_of_def user_by_id_def)
  then have "reserved_of d' v = reservations v d'" for v
    using a[of v] b by (auto simp: balanced_def reservations_def d')
  moreover have "key_distinct us_id (upload_sessions d')"
    using b n by (auto simp: d' balanced_def intro!: key_distinct_append_new)
  moreover have "key_distinct request_key (upload_sessions d')"
    using b n by (auto simp: d' balanced_def intro!: key_distinct_append_new)
  ultimately have "balanced d'" using b u ok by (auto simp: balanced_def d' users_ok_def)
  moreover have "sessions_move d d'" unfolding sessions_move_def d'
    by (auto intro!: bexI session_edge_refl)
  ultimately show ?thesis by simp
qed

section \<open>Every transaction is sound\<close>

lemma sessions_move_refl [simp]: "sessions_move d d"
  by (auto simp: sessions_move_def intro!: bexI session_edge_refl)

lemma own_reservation:
  assumes "balanced d" "s \<in> set (upload_sessions d)"
  shows "0 \<le> us_reserved_bytes s" "us_reserved_bytes s \<le> reserved_of d (us_user_id s)"
proof -
  have ok: "\<forall>q \<in> set (upload_sessions d). 0 \<le> us_reserved_bytes q"
    using assms(1) by (auto simp: balanced_def session_ok_def)
  then show "0 \<le> us_reserved_bytes s" using assms(2) by blast
  show "us_reserved_bytes s \<le> reserved_of d (us_user_id s)"
    using sum_where_member_le[OF assms(2), of "\<lambda>q. us_user_id q = us_user_id s" us_reserved_bytes] ok assms(1)
    by (simp add: balanced_def reservations_def)
qed

lemma quota_sessions:
  "release_quota i n d = Inr d' \<Longrightarrow> upload_sessions d' = upload_sessions d"
  "reserve_quota i n d = Inr d' \<Longrightarrow> upload_sessions d' = upload_sessions d"
  "commit_quota i n m d = Inr d' \<Longrightarrow> upload_sessions d' = upload_sessions d"
  "add_logical_usage i n d = Inr d' \<Longrightarrow> upload_sessions d' = upload_sessions d"
  "remove_logical_usage i n d = Inr d' \<Longrightarrow> upload_sessions d' = upload_sessions d"
  by (auto simp: quota_defs)

lemma balanced_session: "balanced d \<Longrightarrow> session_by_id i d = Some s \<Longrightarrow> session_ok s"
  using session_by_id_mem by (fastforce simp: balanced_def)

lemma end_session_sound:
  assumes b: "balanced d" and s: "session_by_id i d = Some s" and st: "st \<notin> set active_statuses"
    and e: "session_edge (us_status s) st"
    and r: "release_quota (us_user_id s) (us_reserved_bytes s) d = Inr d1"
  shows "balanced (end_session st code i d1) \<and> sessions_move d (end_session st code i d1)"
  unfolding end_session_def
proof (rule move_session[OF b s])
  have "users_ok d" using b by (simp add: balanced_def)
  from identity_quota.release_law[OF this _ _ r] own_reservation[OF b] session_by_id_mem[OF s]
  have l: "users_ok d1" "reserved_of d1 =
      (reserved_of d)(us_user_id s := reserved_of d (us_user_id s) - us_reserved_bytes s)" by auto
  then show "users_ok d1" by simp
  show "reserved_of d1 v = reserved_of d v + (if v = us_user_id s then
      us_reserved_bytes (s\<lparr>us_status := st, us_reserved_bytes := 0,
        us_error_code := (case code of None \<Rightarrow> us_error_code s | Some c \<Rightarrow> Some c),
        us_version := us_version s + 1\<rparr>) - us_reserved_bytes s else 0)" for v
    by (simp add: l)
  show "upload_sessions d1 = upload_sessions d" using quota_sessions(1)[OF r] .
  show "session_ok (s\<lparr>us_status := st, us_reserved_bytes := 0,
        us_error_code := (case code of None \<Rightarrow> us_error_code s | Some c \<Rightarrow> Some c),
        us_version := us_version s + 1\<rparr>)"
    using balanced_session[OF b s] st by (simp add: session_ok_def)
  show "session_edge (us_status s) (us_status (s\<lparr>us_status := st, us_reserved_bytes := 0,
        us_error_code := (case code of None \<Rightarrow> us_error_code s | Some c \<Rightarrow> Some c),
        us_version := us_version s + 1\<rparr>))" using e by simp
  show "us_id s = i" using session_by_id_mem[OF s] by simp
qed (simp_all add: session_fixed_def)

text \<open>A transition that keeps the reservation.\<close>

lemma keep_session_sound:
  assumes b: "balanced d" and s: "session_by_id i d = Some s"
    and g: "\<And>q. session_fixed (g q) = session_fixed q" "us_reserved_bytes (g s) = us_reserved_bytes s"
    and e: "session_edge (us_status s) (us_status (g s))"
    and a: "us_status s \<in> set active_statuses \<longleftrightarrow> us_status (g s) \<in> set active_statuses"
    and C: "P s" "\<And>q. P q \<Longrightarrow> us_id q = i"
  shows "balanced (update_sessions P g d) \<and> sessions_move d (update_sessions P g d)"
proof (rule move_session[OF b s])
  show "users_ok d" using b by (simp add: balanced_def)
  show "session_ok (g s)"
    using balanced_session[OF b s] g(2) a session_fixedD(3)[OF g(1), of s] by (auto simp: session_ok_def)
qed (use g e C in simp_all)

lemma sessions_move_money: "money d' = money d1 \<Longrightarrow> sessions_move d d' = sessions_move d d1"
  by (simp add: sessions_move_def money_eq)

lemma then_money:
  assumes "balanced d1 \<and> sessions_move d d1" "money d' = money d1"
  shows "balanced d' \<and> sessions_move d d'"
  using assms balanced_money[OF assms(2)] sessions_move_money[OF assms(2)] by simp

lemma money_first:
  assumes "money d1 = money d" "balanced d' \<and> sessions_move d1 d'"
  shows "balanced d' \<and> sessions_move d d'"
  using assms by (simp add: sessions_move_def money_eq)

lemma unchanged_sound: "balanced d \<Longrightarrow> money d' = money d \<Longrightarrow> balanced d' \<and> sessions_move d d'"
  using sound_money(1) by (simp add: sound_def)

lemma end_multipart_sound:
  assumes b: "balanced d" and s: "session_by_id (us_id s) d = Some s"
    and st: "st \<notin> set active_statuses" and e: "session_edge (us_status s) st"
    and m: "end_multipart cx st s d = Inr d'"
  shows "balanced d' \<and> sessions_move d d'"
proof -
  obtain d1 where r: "release_quota (us_user_id s) (us_reserved_bytes s) d = Inr d1"
    and d': "money d' = money (end_session st None (us_id s) d1)"
    using m by (auto simp: end_multipart_def Let_def attempt_eq_Inr_iff split: if_splits
        dest!: enqueue_upload_money)
  show ?thesis using end_session_sound[OF b s st e r] d' by (rule then_money)
qed

lemma abort_sound:
  assumes b: "balanced d" and m: "abort_upload cx user i d = Inr d'"
  shows "balanced d' \<and> sessions_move d d'"
proof -
  obtain s where s: "session_of user i d = Some s"
    using m by (auto simp: abort_upload_def attempt_eq_Inr_iff found_eq_Inr_iff)
  note q = session_of_by_id[OF b s] session_by_id_mem[OF session_of_by_id(1)[OF b s]]
  show ?thesis
  proof (cases "us_status s \<in> {Aborted, Failed}")
    case True
    then show ?thesis using m s b
      by (auto simp: abort_upload_def attempt_eq_Inr_iff found_eq_Inr_iff intro: unchanged_sound)
  next
    case False
    then have "end_multipart cx Aborted s d = Inr d'" "us_status s \<notin> {Completed, Verifying, Completing}"
      using m s by (auto simp: abort_upload_def attempt_eq_Inr_iff found_eq_Inr_iff split: if_splits)
    moreover have "session_edge (us_status s) Aborted"
      using False calculation(2) by (cases "us_status s") (auto simp: session_edge_def)
    ultimately show ?thesis using q b by (intro end_multipart_sound) (auto simp: active_statuses_def)
  qed
qed

lemma expire_one_sound:
  assumes b: "balanced d" and m: "expire_one cx i d = Inr (c, d')"
  shows "balanced d' \<and> sessions_move d d'"
proof (cases "session_by_id i d")
  case None
  then show ?thesis using m b by (auto simp: expire_one_def intro: unchanged_sound)
next
  case (Some s)
  show ?thesis
  proof (cases "us_status s \<notin> {Initializing, Created, Uploading} \<or> cx_now cx < us_expires_at s")
    case True
    then show ?thesis using m b Some by (auto simp: expire_one_def intro: unchanged_sound)
  next
    case False
    then have "end_multipart cx Expired s d = Inr d'" "session_edge (us_status s) Expired"
      using m Some by (auto simp: expire_one_def attempt_eq_Inr_iff session_edge_def split: if_splits)
    then show ?thesis using b Some session_by_id_mem[OF Some]
      by (intro end_multipart_sound) (auto simp: active_statuses_def)
  qed
qed

lemma fail_tx_sound:
  assumes b: "balanced d" and m: "fail_tx cx k i code d = Inr (s', d')"
  shows "balanced d' \<and> sessions_move d d'"
proof -
  obtain s where s: "session_by_id i d = Some s"
    using m by (auto simp: fail_tx_def attempt_eq_Inr_iff found_eq_Inr_iff)
  show ?thesis
  proof (cases "us_status s = Verifying")
    case False
    then show ?thesis using m s b
      by (auto simp: fail_tx_def attempt_eq_Inr_iff found_eq_Inr_iff intro: unchanged_sound split: if_splits)
  next
    case True
    obtain d1 d2 op where a: "register_canonical_cleanup cx (k + 3) s d = Inr d1"
      "release_quota (us_user_id s) (us_reserved_bytes s) d1 = Inr d2"
      "enqueue_staging_delete cx k s (end_session Failed (Some code) (us_id s) d2) = Inr (op, d')"
      using m s True by (auto simp: fail_tx_def attempt_eq_Inr_iff found_eq_Inr_iff split: if_splits)
    note f = cleanup_money[OF a(1)]
    have b1: "balanced d1" using b balanced_money[OF f] by simp
    have s1: "session_by_id (us_id s) d1 = Some s"
      using s session_by_id_mem[OF s] f by (simp add: session_by_id_def money_eq)
    have "balanced (end_session Failed (Some code) (us_id s) d2) \<and>
        sessions_move d1 (end_session Failed (Some code) (us_id s) d2)"
      using a(2) True by (intro end_session_sound[OF b1 s1]) (auto simp: active_statuses_def session_edge_def)
    from then_money[OF this enqueue_staging_money[OF a(3)]] show ?thesis by (rule money_first[OF f])
  qed
qed

lemma session_at:
  assumes "balanced d" "s \<in> set (upload_sessions d)"
  shows "session_by_id (us_id s) d = Some s"
  using assms by (simp add: balanced_def session_by_id_def find_by_key)

lemma confirm_loop_money: "confirm_loop now s ps d = Inr d' \<Longrightarrow> money d' = money d"
  by (induction ps arbitrary: d) (auto simp: money_def upsert_part_def Let_def split: if_splits)

text \<open>An update that a row may or may not satisfy.\<close>

lemma keep_sessions_sound:
  assumes b: "balanced d" and g: "\<And>q. session_fixed (g q) = session_fixed q"
      "\<And>q. us_reserved_bytes (g q) = us_reserved_bytes q"
    and e: "\<And>q. P q \<Longrightarrow> us_id q = i \<and> session_edge (us_status q) (us_status (g q)) \<and>
      (us_status q \<in> set active_statuses \<longleftrightarrow> us_status (g q) \<in> set active_statuses)"
  shows "balanced (update_sessions P g d) \<and> sessions_move d (update_sessions P g d)"
proof (cases "\<exists>s \<in> set (upload_sessions d). P s")
  case True
  then obtain s where s: "s \<in> set (upload_sessions d)" "P s" by blast
  then show ?thesis using keep_session_sound[OF b session_at[OF b s(1)], of g P] g e by auto
next
  case False
  then have "update_sessions P g d = d"
    by (simp add: update_sessions_def update_where_id)
  then show ?thesis using b by simp
qed

lemma confirm_tx_sound:
  assumes b: "balanced d" and m: "confirm_tx now s ps d = Inr d'"
  shows "balanced d' \<and> sessions_move d d'"
proof -
  obtain d1 where l: "confirm_loop now s ps d = Inr d1"
    and d': "d' = update_sessions (\<lambda>q. us_id q = us_id s \<and> us_status q \<in> {Created, Uploading})
            (\<lambda>q. q\<lparr>us_status := Uploading\<rparr>) d1"
    using m by (auto simp: confirm_tx_def attempt_eq_Inr_iff)
  note f = confirm_loop_money[OF l]
  have "balanced d1" using b balanced_money[OF f] by simp
  then have "balanced d' \<and> sessions_move d1 d'" unfolding d'
    by (rule keep_sessions_sound) (auto simp: session_fixed_def session_edge_def active_statuses_def)
  then show ?thesis by (rule money_first[OF f])
qed

lemma complete_sound:
  assumes b: "balanced d" and m: "complete_upload cx user i d = Inr (s', d')"
  shows "balanced d' \<and> sessions_move d d'"
proof -
  let ?P = "\<lambda>s q. us_id q = us_id s \<and> us_user_id q = user \<and> us_status q \<in> {Created, Uploading}"
  let ?g = "\<lambda>q. q\<lparr>us_status := Completing, us_version := us_version q + 1\<rparr>"
  obtain s where s: "session_of user i d = Some s"
    using m by (auto simp: complete_upload_def attempt_eq_Inr_iff found_eq_Inr_iff)
  have "d' = d \<or> money d' = money (update_sessions (?P s) ?g d)"
    using m s by (auto simp: complete_upload_def Let_def attempt_eq_Inr_iff found_eq_Inr_iff
        split: if_splits dest!: enqueue_upload_money)
  then show ?thesis
  proof
    assume f: "money d' = money (update_sessions (?P s) ?g d)"
    have "balanced (update_sessions (?P s) ?g d) \<and> sessions_move d (update_sessions (?P s) ?g d)"
      using b by (rule keep_sessions_sound) (auto simp: session_fixed_def session_edge_def active_statuses_def)
    then show ?thesis using f by (rule then_money)
  qed (use b in simp)
qed

lemma start_verifying_sound:
  assumes b: "balanced d" and s: "session_by_id i d = Some s" and st: "us_status s = Completing"
    and m: "start_verifying cx s d = Inr d'"
  shows "balanced d' \<and> sessions_move d d'"
proof (rule then_money[OF _ add_typed_money[OF m[unfolded start_verifying_def]]])
  note id = session_by_id_mem[OF s]
  show "balanced (update_sessions (\<lambda>q. us_id q = us_id s)
      (\<lambda>q. q\<lparr>us_status := Verifying, us_version := us_version q + 1\<rparr>) d) \<and>
    sessions_move d (update_sessions (\<lambda>q. us_id q = us_id s)
      (\<lambda>q. q\<lparr>us_status := Verifying, us_version := us_version q + 1\<rparr>) d)"
    using st id by (intro keep_session_sound[OF b s])
      (auto simp: session_fixed_def session_edge_def active_statuses_def)
qed

lemma multipart_completed_sound:
  assumes b: "balanced d" and m: "multipart_completed cx i d = Inr d'"
  shows "balanced d' \<and> sessions_move d d'"
proof -
  obtain s where s: "session_by_id i d = Some s"
    using m by (auto simp: multipart_completed_def attempt_eq_Inr_iff found_eq_Inr_iff)
  then have "d' = d \<or> us_status s = Completing \<and> start_verifying cx s d = Inr d'"
    using m by (auto simp: multipart_completed_def attempt_eq_Inr_iff found_eq_Inr_iff split: if_splits)
  then show ?thesis using b s start_verifying_sound by auto
qed

lemma converge_sound:
  assumes b: "balanced d" and m: "converge_succeeded_operation cx op d = Inr d'"
  shows "balanced d' \<and> sessions_move d d'"
proof -
  let ?g = "\<lambda>q. q\<lparr>us_status := Created, us_storage_upload_id := so_storage_upload_id op,
      us_version := us_version q + 1\<rparr>"
  obtain sid s where sid: "so_upload_session_id op = Some sid" and s: "session_by_id sid d = Some s"
    using m by (auto simp: converge_succeeded_operation_def attempt_eq_Inr_iff found_eq_Inr_iff
        split: option.splits)
  have c: "d' = d \<or> d' = update_sessions (\<lambda>q. us_id q = us_id s \<and> us_status q = Initializing)
                     (\<lambda>q. q\<lparr>us_status := Created, us_storage_upload_id := so_storage_upload_id op,
                            us_version := us_version q + 1\<rparr>) d \<or>
       us_status s = Completing \<and> start_verifying cx s d = Inr d'"
    using m sid s by (cases "so_operation_type op")
      (simp_all add: converge_succeeded_operation_def attempt_eq_Inr_iff found_eq_Inr_iff split: if_splits)
  have "balanced (update_sessions (\<lambda>q. us_id q = us_id s \<and> us_status q = Initializing)
        (\<lambda>q. q\<lparr>us_status := Created, us_storage_upload_id := so_storage_upload_id op,
               us_version := us_version q + 1\<rparr>) d) \<and>
      sessions_move d (update_sessions (\<lambda>q. us_id q = us_id s \<and> us_status q = Initializing)
        (\<lambda>q. q\<lparr>us_status := Created, us_storage_upload_id := so_storage_upload_id op,
               us_version := us_version q + 1\<rparr>) d)"
    using b by (rule keep_sessions_sound) (auto simp: session_fixed_def session_edge_def active_statuses_def)
  then show ?thesis using c b start_verifying_sound[OF b s] by auto
qed

lemma multipart_created_sound:
  assumes b: "balanced d" and m: "multipart_created cx op s u d = Inr d'"
  shows "balanced d' \<and> sessions_move d d'"
proof -
  let ?g = "\<lambda>q. q\<lparr>us_status := Created, us_storage_upload_id := u, us_version := us_version q + 1\<rparr>"
  obtain c where c: "session_by_id (us_id s) d = Some c"
    and e: "money d' = money d \<or> us_status c = Initializing \<and>
      money d' = money (update_sessions (\<lambda>q. us_id q = us_id c) ?g d)"
    using m by (auto simp: multipart_created_def attempt_eq_Inr_iff found_eq_Inr_iff split: if_splits
        dest!: mark_succeeded_owned_money enqueue_upload_money)
  from e show ?thesis
  proof (elim disjE conjE)
    assume st: "us_status c = Initializing"
      and f: "money d' = money (update_sessions (\<lambda>q. us_id q = us_id c) ?g d)"
    have "balanced (update_sessions (\<lambda>q. us_id q = us_id c) ?g d) \<and>
        sessions_move d (update_sessions (\<lambda>q. us_id q = us_id c) ?g d)"
      using st session_by_id_mem[OF c] by (intro keep_session_sound[OF b c])
        (auto simp: session_fixed_def session_edge_def active_statuses_def)
    then show ?thesis using f by (rule then_money)
  qed (rule unchanged_sound[OF b])
qed

lemma abort_done_sound:
  assumes b: "balanced d" and m: "abort_done cx op d = (r, d')"
  shows "balanced d' \<and> sessions_move d d'"
proof -
  obtain d1 where f: "money d1 = money d"
    and c: "d' = d1 \<or> (\<exists>sid. d' = update_sessions (\<lambda>q. us_id q = sid) (\<lambda>q. q\<lparr>us_storage_upload_id := []\<rparr>) d1)"
    using m by (auto simp: abort_done_def finish_op_def committed_def split: sum.splits option.splits
        dest: mark_succeeded_owned_money)
  have b1: "balanced d1" using b balanced_money[OF f] by simp
  have "balanced d' \<and> sessions_move d1 d'" using c
  proof (elim disjE exE)
    fix sid assume "d' = update_sessions (\<lambda>q. us_id q = sid) (\<lambda>q. q\<lparr>us_storage_upload_id := []\<rparr>) d1"
    then show ?thesis using b1
      by (simp only:) (rule keep_sessions_sound[where i = sid], simp_all add: session_fixed_def)
  qed (use b1 in simp)
  then show ?thesis by (rule money_first[OF f])
qed

lemma retire_stopped_sound:
  assumes b: "balanced d" and s: "session_by_id (us_id s) d = Some s"
    and st: "us_status s \<in> {Initializing, Completing}" and m: "retire_stopped cx s op d = Inr d'"
  shows "balanced d' \<and> sessions_move d d'"
proof -
  let ?d1 = "stop_operation (cx_now cx) op d"
  obtain d2 where r: "release_quota (us_user_id s) (us_reserved_bytes s) ?d1 = Inr d2"
    and g: "money d' = money (end_session Failed (Some ''upload.storage_operation_exhausted'') (us_id s) d2)"
    using m unfolding retire_stopped_def Let_def
    by (auto simp: attempt_eq_Inr_iff split: if_splits dest!: enqueue_staging_money enqueue_upload_money)
  have f: "money ?d1 = money d" by (simp add: stop_operation_def money_def)
  have b1: "balanced ?d1" using b balanced_money[OF f] by simp
  have s1: "session_by_id (us_id s) ?d1 = Some s"
    using s f by (simp add: session_by_id_def money_eq)
  have "balanced (end_session Failed (Some ''upload.storage_operation_exhausted'') (us_id s) d2) \<and>
      sessions_move ?d1 (end_session Failed (Some ''upload.storage_operation_exhausted'') (us_id s) d2)"
    using r st by (intro end_session_sound[OF b1 s1]) (auto simp: active_statuses_def session_edge_def)
  from then_money[OF this g] show ?thesis by (rule money_first[OF f])
qed

lemma retire_session_sound:
  assumes b: "balanced d" and m: "retire_session cx i d = Inr (c, d')"
  shows "balanced d' \<and> sessions_move d d'"
proof -
  obtain s where s: "session_by_id i d = Some s"
    using m by (auto simp: retire_session_def attempt_eq_Inr_iff found_eq_Inr_iff)
  then have "d' = d \<or> us_status s \<in> {Initializing, Completing} \<and> (\<exists>op. retire_stopped cx s op d = Inr d')"
    using m by (auto simp: retire_session_def Let_def attempt_eq_Inr_iff found_eq_Inr_iff split: if_splits)
  then show ?thesis using b s session_by_id_mem[OF s] retire_stopped_sound by auto
qed

subsection \<open>Creation\<close>

lemma reserve_sound:
  assumes b: "balanced d" and r: "reserve_quota user (us_reserved_bytes s) d = Inr d1"
    and ok: "session_ok s" "us_user_id s = user" and i: "insert_upload_session s d1 = Inr d'"
  shows "balanced d' \<and> sessions_move d d'"
proof (rule insert_session_sound[OF b i quota_sessions(2)[OF r] _ ok(1)])
  have "users_ok d" "0 \<le> us_reserved_bytes s" using b ok by (auto simp: balanced_def session_ok_def)
  from identity_quota.reserve_law[OF this r] ok(2)
  show "users_ok d1" "reserved_of d1 v = reserved_of d v + (if v = us_user_id s then us_reserved_bytes s else 0)" for v
    by auto
qed

lemma create_multipart_sound:
  assumes b: "balanced d" and n: "0 < ci_size_bytes input"
    and m: "create_multipart env cx user input filename normalized d = Inr (c, d')"
  shows "balanced d' \<and> sessions_move d d'"
proof -
  let ?s = "new_session env cx (cx_mint cx 0) user input filename normalized"
  have f: "us_reserved_bytes ?s = ci_size_bytes input" "us_user_id ?s = user"
    "us_size_bytes ?s = ci_size_bytes input" "us_status ?s = Initializing"
    by (simp_all add: new_session_def split: prod.split)
  obtain d1 d2 where r: "reserve_quota user (ci_size_bytes input) d = Inr d1"
    and i: "insert_upload_session ?s d1 = Inr d2" and e: "money d' = money d2"
    using m by (auto simp: create_multipart_def Let_def attempt_eq_Inr_iff on_error_eq_Inr_iff
        dest!: enqueue_upload_money)
  have "balanced d2 \<and> sessions_move d d2"
    using b r i n f by (intro reserve_sound[of d user ?s d1 d2]) (auto simp: session_ok_def active_statuses_def)
  then show ?thesis using e by (rule then_money)
qed

lemma create_instant_steps:
  assumes "create_instant env cx user input filename normalized obj d = Inr (c, d')"
  obtains d1 e d2 ep d3 d4 d5 where "add_logical_usage user (ci_size_bytes input) d = Inr d1"
    "create_file (cx_mint cx 0) user (ci_folder_id input) (fo_id obj) filename d1 = Inr (e, d2)"
    "current_epoch user d2 = Inr (ep, d3)" "add_reference (fo_id obj) d3 = Inr d4"
    "money d5 = money d4"
    "insert_upload_session (instant_session env cx (cx_mint cx 2) user input filename normalized obj (fe_id e)) d5 = Inr d'"
    "c = InstantUpload (fe_id e)"
proof -
  note r = assms[unfolded create_instant_def tx_steps]
  show thesis using r that add_typed_money by (elim exE conjE) (simp only: Inr_inject prod.inject, blast)
qed

lemma create_instant_sound:
  assumes b: "balanced d" and n: "0 < ci_size_bytes input"
    and m: "create_instant env cx user input filename normalized obj d = Inr (c, d')"
  shows "balanced d' \<and> sessions_move d d'"
proof (rule create_instant_steps[OF m])
  fix d1 and e :: file_entry and d2 ep d3 d4 d5
  let ?s = "instant_session env cx (cx_mint cx 2) user input filename normalized obj (fe_id e)"
  assume a: "add_logical_usage user (ci_size_bytes input) d = Inr d1"
    "create_file (cx_mint cx 0) user (ci_folder_id input) (fo_id obj) filename d1 = Inr (e, d2)"
    "current_epoch user d2 = Inr (ep, d3)" "add_reference (fo_id obj) d3 = Inr d4"
    "money d5 = money d4" "insert_upload_session ?s d5 = Inr d'"
  have f: "us_reserved_bytes ?s = 0" "us_size_bytes ?s = ci_size_bytes input" "us_status ?s = Completed"
    by (simp_all add: instant_session_def new_session_def split: prod.split)
  have e: "money d5 = money d1"
    using a(5) add_reference_money[OF a(4)] current_epoch_money[OF a(3)] create_file_money[OF a(2)] by simp
  have "users_ok d" "0 \<le> ci_size_bytes input" using b n by (auto simp: balanced_def)
  note l = identity_quota.add_law[OF this a(1)]
  show ?thesis
  proof (rule insert_session_sound[OF b a(6)])
    show "upload_sessions d5 = upload_sessions d" using e quota_sessions(4)[OF a(1)] by (simp add: money_eq)
    show "users_ok d5" using e l by (simp add: money_eq users_ok_def)
    show "session_ok ?s" using f n by (simp add: session_ok_def active_statuses_def)
    have "reserved_of d5 = reserved_of d" using e l reserved_of_users[of d5 d1] by (simp add: money_eq)
    then show "reserved_of d5 v = reserved_of d v + (if v = us_user_id ?s then us_reserved_bytes ?s else 0)" for v
      by (simp add: f)
  qed
qed

lemma create_sound:
  assumes b: "balanced d" and m: "create env cx user input d = (r, d')"
  shows "balanced d' \<and> sessions_move d d'"
proof (cases "d' = d")
  case False
  let ?i = "if ci_mime_type input = [] then input\<lparr>ci_mime_type := ''application/octet-stream''\<rparr> else input"
  obtain fn no where n: "normalize_filename (ci_filename input) = Inr (fn, no)"
    using m False by (auto simp: create_def split: sum.splits)
  have "0 < ci_size_bytes ?i \<and> (\<exists>c. create_tx env cx user ?i fn no d = Inr (c, d'))"
    using m False by (cases "create_tx env cx user ?i fn no d")
      (auto simp: create_def n Let_def simp del: if_split split: sum.splits created.splits if_split_asm)
  then obtain input' c where g: "0 < ci_size_bytes input'" and t: "create_tx env cx user input' fn no d = Inr (c, d')"
    by blast
  have "create_multipart env cx user input' fn no d = Inr (c, d') \<or>
      (\<exists>obj. create_instant env cx user input' fn no obj d = Inr (c, d'))"
    using t False by (auto simp: create_tx_def attempt_eq_Inr_iff split: option.splits if_splits sum.splits)
  then show ?thesis using create_multipart_sound[OF b g] create_instant_sound[OF b g] by blast
qed (use b in simp)

subsection \<open>Verification\<close>

definition snapshot_ok :: "db \<Rightarrow> upload_session \<Rightarrow> bool" where
  "snapshot_ok d s \<longleftrightarrow> us_status s = Verifying \<and> session_ok s \<and>
     (\<exists>r \<in> set (upload_sessions d). session_fixed r = session_fixed s)"

lemma business_staging:
  assumes "enqueue_staging_delete cx k s d = Inr (op, d')"
  shows "d' = d\<lparr>storage_operations := storage_operations d'\<rparr>"
  using assms by (auto simp: enqueue_staging_delete_def attempt_eq_Inr_iff split: if_splits elim!: enqueue_cases)

lemma verify_link_steps:
  assumes "verify_link cx s locked sha bytes key d = Inr d'"
  obtains obj0 d1 entry d2 ep d3 d4 obj d5 d7 where
    "create_or_get
        \<lparr> fo_id = cx_mint cx 1, fo_sha256 = sha, fo_size_bytes = bytes,
          fo_mime_type = us_mime_type s, fo_bucket = us_bucket s, fo_object_key = key,
          fo_status = ObjectReady, fo_reference_count = 0, fo_version = 1,
          fo_verified_at = Some (cx_now cx), fo_deleted_at = None \<rparr> d = Inr (obj0, d1)"
    "create_file (cx_mint cx 2) (us_user_id s) (us_folder_id s) (fo_id obj0) (us_filename s) d1 = Inr (entry, d2)"
    "current_epoch (us_user_id s) d2 = Inr (ep, d3)" "add_reference (fo_id obj0) d3 = Inr d4"
    "object_by_id (fo_id obj0) d4 = Some obj"
    "commit_quota (us_user_id s) (us_reserved_bytes s) (us_size_bytes s) d4 = Inr d5"
    "business d7 = business (update_sessions (\<lambda>q. us_id q = us_id locked)
          (\<lambda>q. q\<lparr>us_status := Completed, us_completed_object_id := Some (fo_id obj),
                 us_completed_entry_id := Some (fe_id entry), us_reserved_bytes := 0\<rparr>) d5)"
    "d' = d7\<lparr>storage_operations := storage_operations d'\<rparr>"
proof -
  note r = assms[unfolded verify_link_def tx_steps]
  show thesis using r
  proof (elim exE conjE)
    fix obj0 d1 entry d2 ep d3 d4 obj d5 d6 d7 op d8
    assume a: "create_or_get
        \<lparr> fo_id = cx_mint cx 1, fo_sha256 = sha, fo_size_bytes = bytes,
          fo_mime_type = us_mime_type s, fo_bucket = us_bucket s, fo_object_key = key,
          fo_status = ObjectReady, fo_reference_count = 0, fo_version = 1,
          fo_verified_at = Some (cx_now cx), fo_deleted_at = None \<rparr> d = Inr (obj0, d1)"
      "create_file (cx_mint cx 2) (us_user_id s) (us_folder_id s) (fo_id obj0) (us_filename s) d1 = Inr (entry, d2)"
      "current_epoch (us_user_id s) d2 = Inr (ep, d3)" "add_reference (fo_id obj0) d3 = Inr d4"
      "found GormRecordNotFound (object_by_id (fo_id obj0) d4) = Inr obj"
      "commit_quota (us_user_id s) (us_reserved_bytes s) (us_size_bytes s) d4 = Inr d5"
      and t: "add_typed cx 3 (typed_input event_file_created (fe_id entry) (fe_version entry) ''core-api''
        (FileCreatedV1 (us_user_id s) (fe_id entry) (fo_id obj) (ep_content_epoch ep)))
        (update_sessions (\<lambda>q. us_id q = us_id locked)
          (\<lambda>q. q\<lparr>us_status := Completed, us_completed_object_id := Some (fo_id obj),
                 us_completed_entry_id := Some (fe_id entry), us_reserved_bytes := 0\<rparr>) d5) = Inr d6"
      "add_typed cx 4 (typed_input event_object_ready (fo_id obj) (fo_version obj) ''core-api''
        (ObjectReadyV1 (fo_id obj) None)) d6 = Inr d7"
      "enqueue_staging_delete cx 5 locked d7 = Inr (op, d8)" "Inr d8 = Inr d'"
    have "business d7 = business (update_sessions (\<lambda>q. us_id q = us_id locked)
          (\<lambda>q. q\<lparr>us_status := Completed, us_completed_object_id := Some (fo_id obj),
                 us_completed_entry_id := Some (fe_id entry), us_reserved_bytes := 0\<rparr>) d5)"
      using add_typed_frame[OF t(1)] add_typed_frame[OF t(2)] by simp
    moreover have "d' = d7\<lparr>storage_operations := storage_operations d'\<rparr>"
      using business_staging[OF t(3)] t(4) by simp
    ultimately show thesis using a by (intro that) (simp_all add: found_eq_Inr_iff)
  qed
qed

lemma verify_commit_cases:
  assumes "verify_commit cx s sha bytes key d = Inr d'"
  obtains locked where "session_by_id (us_id s) d = Some locked" "us_status locked = Completed" "d' = d"
  | locked where "session_by_id (us_id s) d = Some locked" "us_status locked = Verifying"
      "\<not> name_taken (us_user_id locked) (us_folder_id locked) (us_filename_normalized locked) d"
      "verify_link cx s locked sha bytes key d = Inr d'"
  using assms by (auto simp: verify_commit_def attempt_eq_Inr_iff found_eq_Inr_iff split: if_splits)

lemma verify_commit_sound:
  assumes b: "balanced d" and s: "snapshot_ok d s" and m: "verify_commit cx s sha bytes key d = Inr d'"
  shows "balanced d' \<and> sessions_move d d'"
  using m
proof (cases rule: verify_commit_cases)
  case (2 locked)
  show ?thesis
  proof (rule verify_link_steps[OF 2(4)])
    fix obj0 d1 and entry :: file_entry and d2 ep d3 d4 obj d5 d7
    let ?P = "\<lambda>q. us_id q = us_id locked"
    let ?g = "\<lambda>q. q\<lparr>us_status := Completed, us_completed_object_id := Some (fo_id obj),
                 us_completed_entry_id := Some (fe_id entry), us_reserved_bytes := 0\<rparr>"
    assume a: "create_or_get
        \<lparr> fo_id = cx_mint cx 1, fo_sha256 = sha, fo_size_bytes = bytes,
          fo_mime_type = us_mime_type s, fo_bucket = us_bucket s, fo_object_key = key,
          fo_status = ObjectReady, fo_reference_count = 0, fo_version = 1,
          fo_verified_at = Some (cx_now cx), fo_deleted_at = None \<rparr> d = Inr (obj0, d1)"
      "create_file (cx_mint cx 2) (us_user_id s) (us_folder_id s) (fo_id obj0) (us_filename s) d1 = Inr (entry, d2)"
      "current_epoch (us_user_id s) d2 = Inr (ep, d3)" "add_reference (fo_id obj0) d3 = Inr d4"
      "commit_quota (us_user_id s) (us_reserved_bytes s) (us_size_bytes s) d4 = Inr d5"
      and f: "business d7 = business (update_sessions ?P ?g d5)" "d' = d7\<lparr>storage_operations := storage_operations d'\<rparr>"
    have m4: "money d4 = money d"
      using add_reference_money[OF a(4)] current_epoch_money[OF a(3)] create_file_money[OF a(2)]
        create_or_get_money[OF a(1)] by simp
    note id = session_by_id_mem[OF 2(1)]
    obtain r where r: "r \<in> set (upload_sessions d)" "session_fixed r = session_fixed s" "session_ok s"
      "us_status s = Verifying" using s by (auto simp: snapshot_ok_def)
    have "r = locked" using b id r session_fixedD(1)[OF r(2)] key_unique unfolding balanced_def by metis
    then have same: "us_user_id s = us_user_id locked" "us_size_bytes s = us_size_bytes locked"
      using session_fixedD[OF r(2)] by simp_all
    have lo: "session_ok locked" using b id by (simp add: balanced_def)
    have res: "us_reserved_bytes s = us_size_bytes locked" "us_reserved_bytes locked = us_size_bytes locked"
      "0 < us_size_bytes locked"
      using lo r(3,4) same 2(2) by (simp_all add: session_ok_def active_statuses_def)
    have b4: "balanced d4" using b balanced_money[OF m4] by simp
    have s4: "session_by_id (us_id locked) d4 = Some locked"
      using 2(1) id m4 by (simp add: session_by_id_def money_eq)
    have l4: "us_size_bytes locked \<le> reserved_of d4 (us_user_id locked)"
      using own_reservation(2)[OF b4, of locked] session_by_id_mem[OF s4] res by auto
    have u4: "users_ok d4" using b4 by (simp add: balanced_def)
    have q: "users_ok d5" "reserved_of d5 = (reserved_of d4)(us_user_id locked :=
        reserved_of d4 (us_user_id locked) - us_size_bytes locked)"
      using identity_quota.commit_law[OF u4 _ _ _ a(5)] l4 res same by auto
    have "balanced (update_sessions ?P ?g d5) \<and> sessions_move d4 (update_sessions ?P ?g d5)"
    proof (rule move_session[OF b4 s4 quota_sessions(3)[OF a(5)] q(1)])
      show "reserved_of d5 v = reserved_of d4 v +
          (if v = us_user_id locked then us_reserved_bytes (?g locked) - us_reserved_bytes locked else 0)" for v
        using q(2) res by simp
    qed (use 2(2) lo in \<open>auto simp: session_fixed_def session_edge_def session_ok_def active_statuses_def\<close>)
    moreover have "money d' = money (update_sessions ?P ?g d5)"
      using business_money[OF f(1)] arg_cong[OF f(2), of money] by (simp add: money_def)
    ultimately have "balanced d' \<and> sessions_move d4 d'" by (rule then_money)
    then show ?thesis by (rule money_first[OF m4])
  qed
qed (use b in simp)

section \<open>Runs of transactions\<close>

definition sessions_path :: "db \<Rightarrow> db \<Rightarrow> bool" where
  "sessions_path d d' \<longleftrightarrow> (\<forall>r \<in> set (upload_sessions d). \<exists>r' \<in> set (upload_sessions d').
     session_fixed r' = session_fixed r \<and> session_edge\<^sup>*\<^sup>* (us_status r) (us_status r'))"

definition safe :: "db \<Rightarrow> db \<Rightarrow> bool" where
  "safe d d' \<longleftrightarrow> (balanced d \<longrightarrow> balanced d' \<and> sessions_path d d')"

lemma safe_refl [simp]: "safe d d"
  by (auto simp: safe_def sessions_path_def)

lemma sessions_path_trans: "sessions_path d e \<Longrightarrow> sessions_path e f \<Longrightarrow> sessions_path d f"
  unfolding sessions_path_def by (metis rtranclp_trans)

lemma safe_trans [trans]: "safe d e \<Longrightarrow> safe e f \<Longrightarrow> safe d f"
  unfolding safe_def using sessions_path_trans by blast

lemma safe_move: "(balanced d \<Longrightarrow> balanced d' \<and> sessions_move d d') \<Longrightarrow> safe d d'"
  unfolding safe_def sessions_path_def sessions_move_def by blast

lemma safe_money: "money d' = money d \<Longrightarrow> safe d d'"
  by (rule safe_move) (rule unchanged_sound)

lemma snapshot_path: "sessions_path d d' \<Longrightarrow> snapshot_ok d s \<Longrightarrow> snapshot_ok d' s"
  unfolding sessions_path_def snapshot_ok_def by (metis (full_types))

lemma snapshot_taken:
  "balanced d \<Longrightarrow> session_by_id i d = Some s \<Longrightarrow> us_status s = Verifying \<Longrightarrow> snapshot_ok d s"
  using session_by_id_mem by (fastforce simp: snapshot_ok_def balanced_def)

text \<open>The committed transactions of the package and the effect of everybody else.\<close>

inductive upload_step :: "db \<times> upload_session set \<Rightarrow> db \<times> upload_session set \<Rightarrow> bool" where
  us_create: "create env cx user input d = (r, d') \<Longrightarrow> upload_step (d, S) (d', S)"
| us_confirm: "confirm_tx now s ps d = Inr d' \<Longrightarrow> upload_step (d, S) (d', S)"
| us_complete: "complete_upload cx user i d = Inr (s, d') \<Longrightarrow> upload_step (d, S) (d', S)"
| us_abort: "abort_upload cx user i d = Inr d' \<Longrightarrow> upload_step (d, S) (d', S)"
| us_expire: "expire_one cx i d = Inr (c, d') \<Longrightarrow> upload_step (d, S) (d', S)"
| us_created: "multipart_created cx op s u d = Inr d' \<Longrightarrow> upload_step (d, S) (d', S)"
| us_completed: "multipart_completed cx i d = Inr d' \<Longrightarrow> upload_step (d, S) (d', S)"
| us_converge: "converge_succeeded_operation cx op d = Inr d' \<Longrightarrow> upload_step (d, S) (d', S)"
| us_abort_done: "abort_done cx op d = (r, d') \<Longrightarrow> upload_step (d, S) (d', S)"
| us_retire: "retire_session cx i d = Inr (c, d') \<Longrightarrow> upload_step (d, S) (d', S)"
| us_fail: "fail_tx cx k i code d = Inr (s, d') \<Longrightarrow> upload_step (d, S) (d', S)"
| us_read: "session_by_id i d = Some s \<Longrightarrow> us_status s = Verifying \<Longrightarrow> upload_step (d, S) (d, insert s S)"
| us_verify: "s \<in> S \<Longrightarrow> verify_commit cx s sha bytes key d = Inr d' \<Longrightarrow> upload_step (d, S) (d', S)"
| us_other: "upload_sessions d' = upload_sessions d \<Longrightarrow> users_ok d' \<Longrightarrow> reserved_of d' = reserved_of d \<Longrightarrow>
    upload_step (d, S) (d', S)"

definition upload_inv :: "db \<times> upload_session set \<Rightarrow> bool" where
  "upload_inv = (\<lambda>(d, S). balanced d \<and> (\<forall>s \<in> S. snapshot_ok d s))"

lemmas step_sound = create_sound confirm_tx_sound complete_sound abort_sound expire_one_sound
  multipart_created_sound multipart_completed_sound converge_sound abort_done_sound
  retire_session_sound fail_tx_sound verify_commit_sound

lemma upload_step_move:
  assumes "upload_step st st'" "upload_inv st"
  shows "balanced (fst st') \<and> sessions_move (fst st) (fst st')"
  using assms
proof (induction rule: upload_step.induct)
  case (us_other d' d S)
  then have "balanced d'" by (simp add: upload_inv_def balanced_def reservations_def)
  moreover have "sessions_move d d'" using us_other by (auto simp: sessions_move_def intro!: bexI session_edge_refl)
  ultimately show ?case by simp
qed (simp_all only: upload_inv_def fst_conv prod.case, ((elim conjE)?, (rule step_sound; blast) | simp)+)

lemma upload_step_inv:
  assumes "upload_step st st'" "upload_inv st"
  shows "upload_inv st' \<and> sessions_path (fst st) (fst st')"
proof -
  have m: "balanced (fst st') \<and> sessions_move (fst st) (fst st')"
    using assms by (rule upload_step_move)
  then have p: "sessions_path (fst st) (fst st')"
    using safe_move[of "fst st" "fst st'"] assms(2) by (auto simp: safe_def upload_inv_def)
  have "\<forall>s \<in> snd st'. snapshot_ok (fst st') s"
    using assms(1) assms(2) m p
  proof (cases rule: upload_step.cases)
    case (us_read i d s S)
    then show ?thesis using assms(2) by (auto simp: upload_inv_def snapshot_taken)
  qed (auto simp: upload_inv_def intro: snapshot_path)
  then show ?thesis using m p by (auto simp: upload_inv_def split: prod.split)
qed

lemma upload_run_inv:
  assumes "upload_step\<^sup>*\<^sup>* st st'" "upload_inv st"
  shows "upload_inv st' \<and> sessions_path (fst st) (fst st')"
  using assms
proof (induction rule: rtranclp_induct)
  case (step st1 st2)
  then show ?case using upload_step_inv sessions_path_trans by blast
qed (auto simp: sessions_path_def)

lemma final_status_stays:
  assumes "session_edge\<^sup>*\<^sup>* a b" "a \<in> {Completed, Failed, Aborted}"
  shows "b = a"
  using assms by (induction rule: rtranclp_induct) (auto simp: session_edge_def)

lemma active_sizes:
  "(\<And>s. s \<in> set t \<Longrightarrow> session_ok s) \<Longrightarrow> sum_where (\<lambda>s. us_user_id s = u) us_reserved_bytes t =
     sum_where (\<lambda>s. us_user_id s = u \<and> us_status s \<in> set active_statuses) us_size_bytes t"
  by (induction t) (auto simp: session_ok_def)

text \<open>C3: whatever requests, workers, maintenance runs and stale verifications commit, in whatever
  order, the bytes a user has reserved are exactly the sizes of the user's unfinished uploads, and
  used and reserved bytes together stay within the quota.\<close>

theorem upload_quota_balance:
  assumes "balanced d0" "upload_step\<^sup>*\<^sup>* (d0, {}) (d, S)" "user_by_id u d = Some w"
  shows "u_reserved_bytes w = sum_where (\<lambda>s. us_user_id s = u \<and> us_status s \<in> set active_statuses)
      us_size_bytes (upload_sessions d) \<and>
    u_used_logical_bytes w + u_reserved_bytes w \<le> u_quota_bytes w"
proof -
  have b: "balanced d" using upload_run_inv[OF assms(2)] assms(1) by (simp add: upload_inv_def)
  then have ok: "s \<in> set (upload_sessions d) \<Longrightarrow> session_ok s" for s by (simp add: balanced_def)
  have "reservations u d = sum_where (\<lambda>s. us_user_id s = u \<and> us_status s \<in> set active_statuses)
      us_size_bytes (upload_sessions d)"
    using ok unfolding reservations_def by (intro active_sizes) simp
  moreover have "reserved_of d u = u_reserved_bytes w" "used_of d u = u_used_logical_bytes w"
    using assms(3) by (simp_all add: reserved_of_def used_of_def)
  moreover have "reserved_of d u = reservations u d" "users_ok d" using b by (simp_all add: balanced_def)
  ultimately show ?thesis using users_ok_bounds(3)[of d u w] assms(3) by simp
qed

text \<open>an upload session is never lost, keeps its owner, folder, name and size, and its status
  only moves along the edges of the state machine; completed, failed and aborted are final.\<close>

theorem upload_status_order:
  assumes "balanced d0" "upload_step\<^sup>*\<^sup>* (d0, {}) (d, S)" "upload_step\<^sup>*\<^sup>* (d, S) (d', S')"
    "s \<in> set (upload_sessions d)"
  shows "\<exists>s'. session_by_id (us_id s) d' = Some s' \<and> session_fixed s' = session_fixed s \<and>
    session_edge\<^sup>*\<^sup>* (us_status s) (us_status s') \<and>
    (us_status s \<in> {Completed, Failed, Aborted} \<longrightarrow> us_status s' = us_status s)"
proof -
  have i: "upload_inv (d, S)" using upload_run_inv[OF assms(2)] assms(1) by (simp add: upload_inv_def)
  from upload_run_inv[OF assms(3) i] have b: "balanced d'" and p: "sessions_path d d'"
    by (simp_all add: upload_inv_def)
  obtain s' where s': "s' \<in> set (upload_sessions d')" "session_fixed s' = session_fixed s"
    "session_edge\<^sup>*\<^sup>* (us_status s) (us_status s')"
    using p assms(4) by (auto simp: sessions_path_def)
  then show ?thesis using session_at[OF b s'(1)] session_fixedD(1)[OF s'(2)] final_status_stays by auto
qed

section \<open>Whole requests and worker runs\<close>

lemma try_start_money: "try_start now t i l d = Inr (c, t', d') \<Longrightarrow> money d' = money d"
  using stop_exhausted_eq[of now "\<lambda>o'. so_id o' = i" 1 d]
  by (auto simp: try_start_def Let_def money_def split: if_splits)

lemma claim_rows_money: "claim_rows now l mint k os d = (rs, d') \<Longrightarrow> money d' = money d"
  by (induction os arbitrary: k d rs d') (auto simp: Let_def money_def split: prod.splits)

lemma claim_types_money:
  assumes "claim_types now mint l lease ts d = Inr (rs, d')"
  shows "money d' = money d"
proof -
  obtain e l' os where "claim_rows now l' mint 0 os e = (rs, d')"
    "e = stop_exhausted now (\<lambda>o'. so_operation_type o' \<in> set ts) l d"
    using assms by (auto simp: claim_types_def Let_def split: if_splits)
  then show ?thesis using claim_rows_money stop_exhausted_eq[of now "\<lambda>o'. so_operation_type o' \<in> set ts" l d]
    by (fastforce simp: money_def)
qed

lemma record_failure_money: "record_failure_of env cx op (r, d) = (e, d') \<Longrightarrow> money d' = money d"
  by (auto simp: record_failure_of_def record_error_def mark_failed_owned_def mark_failed_def Let_def money_def
      split: option.splits if_splits prod.splits)

lemma committed_safe: "(\<And>d'. r = Inr d' \<Longrightarrow> safe d d') \<Longrightarrow> safe d (snd (committed d r))"
  by (cases r) (simp_all add: committed_def)

lemma finish_op_money: "money (snd (finish_op cx op d)) = money d"
  by (auto simp: finish_op_def committed_def split: sum.split dest: mark_succeeded_owned_money)

lemma finish_op_safe [simp]: "safe d (snd (finish_op cx op d))"
  using finish_op_money by (rule safe_money)

lemma persist_money: "persist_multipart_upload_id now i t u d = Inr d' \<Longrightarrow> money d' = money d"
  by (auto simp: persist_multipart_upload_id_def Let_def attempt_eq_Inr_iff money_def split: if_splits)

lemma create_operation_safe:
  assumes "reconcile_multipart_create env cx op d = Some r"
  shows "safe d (snd r)"
proof -
  have c: "safe d (snd (committed d1 (multipart_created cx op s u d1)))"
    if "persist_multipart_upload_id now i t u d = Inr d1" for d1 s u now i t
    using safe_money[OF persist_money[OF that]] safe_move[OF multipart_created_sound]
    by (intro safe_trans[OF _ committed_safe]) blast
  show ?thesis
  proof (cases "\<exists>sid s. so_upload_session_id op = Some sid \<and> session_by_id sid d = Some s \<and>
      \<not> (us_status s \<noteq> Initializing \<and> \<not> session_ended s)")
    case False
    then show ?thesis using assms
      by (auto simp: reconcile_multipart_create_def split: option.splits)
  next
    case True
    then obtain sid s z where s: "so_upload_session_id op = Some sid" "session_by_id sid d = Some s"
      "\<not> (us_status s \<noteq> Initializing \<and> \<not> session_ended s)" and z: "provider_upload_id env op s = Some z"
      using assms by (auto simp: reconcile_multipart_create_def)
    show ?thesis using assms s z
      by (cases z) (auto simp: reconcile_multipart_create_def c split: sum.splits if_splits)
  qed
qed

lemma complete_operation_safe: "safe d (snd (reconcile_multipart_complete env cx op d))"
proof -
  have c: "safe d (snd (committed d1 (multipart_completed cx i d1)))"
    if "mark_succeeded_owned now j t d = Inr d1" for d1 i now j t
    using safe_money[OF mark_succeeded_owned_money[OF that]] safe_move[OF multipart_completed_sound]
    by (intro safe_trans[OF _ committed_safe]) blast
  show ?thesis
    by (auto simp: reconcile_multipart_complete_def c split: option.splits if_splits sum.splits)
qed

lemma abort_done_safe: "safe d (snd (abort_done cx op d))"
  using abort_done_sound by (intro safe_move) (metis prod.collapse)

lemma reconcile_operation_safe:
  assumes "reconcile_operation env cx op d = Some r"
  shows "safe d (snd r)"
  using assms create_operation_safe complete_operation_safe abort_done_safe
  by (cases "so_operation_type op")
    (auto simp: reconcile_operation_def perform_operation_def Let_def split: if_splits option.splits)

lemma recorded_safe:
  assumes "reconcile_operation env cx op d = Some r"
  shows "safe d (snd (record_failure_of st cx op' r))"
proof -
  have "money (snd (record_failure_of st cx op' r)) = money (snd r)"
    using record_failure_money[of st cx op' "fst r" "snd r"] by (metis prod.collapse)
  then show ?thesis using reconcile_operation_safe[OF assms] safe_money safe_trans by blast
qed

lemma staging_delete_safe: "safe d (snd (schedule_staging_delete env cx k s d))"
proof (rule safe_money)
  show "money (snd (schedule_staging_delete env cx k s d)) = money d"
    by (auto simp: schedule_staging_delete_def committed_def split: sum.split option.split
      dest!: enqueue_staging_money try_start_money mark_succeeded_owned_money
      intro: trans[OF record_failure_money[OF surjective_pairing]])
qed

lemma fail_session_safe: "safe d (snd (fail_session env cx k i code d))"
proof (cases "fail_tx cx k i code d")
  case (Inr r)
  obtain s d1 where r: "r = (s, d1)" by (cases r)
  have "safe d d1" using safe_move[OF fail_tx_sound] Inr r by blast
  then show ?thesis using Inr r staging_delete_safe[of d1 env cx "k + 1" s]
    by (simp add: fail_session_def) (rule safe_trans)
qed (simp add: fail_session_def)

text \<open>What other workers do between two polls.\<close>

definition polls_safe :: "(ctx \<times> (db \<Rightarrow> db)) list \<Rightarrow> bool" where
  "polls_safe polls \<longleftrightarrow> (\<forall>(cx, others) \<in> set polls. \<forall>d. safe d (others d))"

lemma execute_safe:
  assumes "execute_canonical_ensure env polls op d = Some r" "polls_safe polls"
  shows "safe d (snd r)"
  using assms
proof (induction polls arbitrary: op d r)
  case (Cons p polls)
  obtain cx others where p: "p = (cx, others)" by (cases p)
  let ?d = "others d"
  note prems = Cons.prems(1)[unfolded p]
  have o': "safe d ?d" and ps: "polls_safe polls" using Cons.prems(2) by (auto simp: polls_safe_def p)
  show ?case
  proof (cases "try_start (cx_now cx) (cx_mint cx 0) (so_id op) (5 * minute) ?d")
    case (Inl e)
    then show ?thesis using prems o' by auto
  next
    case (Inr x)
    obtain c t d1 where x: "x = (c, t, d1)" by (cases x)
    have d1: "safe d d1" using o' safe_money[OF try_start_money] Inr x safe_trans by blast
    show ?thesis
    proof (cases c)
      case True
      then obtain r0 where "reconcile_operation env cx (op\<lparr>so_lease_token := Some t\<rparr>) d1 = Some r0"
        "r = record_failure_of (ue_storage env) cx (op\<lparr>so_lease_token := Some t\<rparr>) r0"
        using prems Inr x by (auto simp: Let_def)
      then show ?thesis using d1 recorded_safe safe_trans by blast
    next
      case False
      show ?thesis
      proof (cases "get_operation (so_id op) d1")
        case (Inl e)
        then show ?thesis using prems \<open>_ = Inr x\<close> x False d1 by auto
      next
        case (Inr current)
        show ?thesis
        proof (cases "so_state current \<in> {OpDead, OpSucceeded} \<or> sg_canceled (ue_storage env)")
          case True
          then show ?thesis using prems \<open>_ = Inr x\<close> x False Inr d1 by (auto split: if_splits)
        next
          case False
          then obtain op' where "execute_canonical_ensure env polls op' d1 = Some r"
            using prems \<open>_ = Inr x\<close> x \<open>\<not> c\<close> Inr by (auto split: if_splits)
          then show ?thesis using Cons.IH ps d1 safe_trans by blast
        qed
      qed
    qed
  qed
qed simp

lemma ensure_canonical_safe:
  assumes "ensure_canonical env cx polls s sha bytes d = Some r" "polls_safe polls"
  shows "safe d (snd r)"
proof (cases "ensure_canonical_tx cx s sha bytes d")
  case (Inl e)
  then show ?thesis using assms(1) by (auto simp: ensure_canonical_def)
next
  case (Inr x)
  obtain key op d1 where x: "x = ((key, op), d1)" by (cases x) auto
  have "money d1 = money d"
    using Inr x by (auto simp: ensure_canonical_tx_def Let_def attempt_eq_Inr_iff
        split: if_splits option.splits object_status.splits dest!: enqueue_money)
  then have d1: "safe d d1" by (rule safe_money)
  then show ?thesis using assms Inr x
    by (cases op) (auto simp: ensure_canonical_def split: if_splits
      intro: safe_trans dest!: execute_safe)
qed

lemma verify_safe:
  assumes "verify env cx polls i d = Some r" "polls_safe polls"
  shows "safe d (snd r)"
proof (cases "session_by_id i d")
  case None
  then show ?thesis using assms(1) by (auto simp: verify_def)
next
  case s: (Some s)
  show ?thesis
  proof (cases "us_status s = Verifying")
    case False
    then show ?thesis using assms(1) s staging_delete_safe by (auto simp: verify_def split: if_splits)
  next
    case st: True
    show ?thesis
    proof (cases "ue_get env (us_bucket s) (us_object_key s)")
      case (Inl e)
      then show ?thesis using assms(1) s st by (auto simp: verify_def)
    next
      case (Inr body)
      let ?sha = "ue_sha256 env body" and ?n = "int (length body)"
      show ?thesis
      proof (cases "?n \<noteq> us_size_bytes s \<or> ?sha \<noteq> us_declared_sha256 s")
        case True
        then show ?thesis using assms(1) s st Inr fail_session_safe by (auto simp: verify_def Let_def)
      next
        case False
        obtain x where x: "ensure_canonical env cx polls s ?sha ?n d = Some x"
          using assms(1) s st Inr False by (auto simp: verify_def Let_def)
        obtain k d1 where k: "x = (k, d1)" by (cases x)
        note e = x[unfolded k]
        have r: "r = (case k of Inl e \<Rightarrow> (Some e, d1)
                  | Inr key \<Rightarrow>
                    (case verify_commit cx s ?sha ?n key d1 of
                       Inr d2 \<Rightarrow> schedule_staging_delete env cx 6 s d2
                     | Inl e \<Rightarrow>
                         if errors_is e UploadNameConflict
                           then fail_session env cx 8 (us_id s) ''upload.name_conflict'' d1
                         else if errors_is e DriveConflict
                           then fail_session env cx 8 (us_id s) ''upload.file_exists'' d1
                         else (Some e, d1)))"
          using assms(1) s st Inr False e by (simp add: verify_def Let_def)
        have d1: "safe d d1" using ensure_canonical_safe[OF e assms(2)] by simp
        show ?thesis unfolding safe_def
        proof
          assume b: "balanced d"
          have snap: "snapshot_ok d1 s" using snapshot_taken[OF b s st] d1 b snapshot_path
            by (auto simp: safe_def)
          have b1: "balanced d1" using d1 b by (simp add: safe_def)
          have "safe d1 (snd r)"
          proof (cases k)
            case (Inr key)
            show ?thesis
            proof (cases "verify_commit cx s ?sha ?n key d1")
              case (Inl e)
              then show ?thesis using r \<open>k = Inr key\<close> fail_session_safe by auto
            next
              case (Inr d2)
              have "safe d1 d2" using safe_move[OF verify_commit_sound[OF _ snap Inr]] .
              then show ?thesis using r \<open>k = Inr key\<close> Inr staging_delete_safe safe_trans by auto
            qed
          qed (simp add: r)
          then show "balanced (snd r) \<and> sessions_path d (snd r)"
            using d1 b safe_trans unfolding safe_def by blast
        qed
      qed
    qed
  qed
qed

text \<open>Batches.\<close>

lemma run_batch_safe:
  assumes f: "\<And>k s d c d'. f k s d = Inr (c, d') \<Longrightarrow> safe d d'"
  shows "run_batch f k ss acc d = (acc', d') \<Longrightarrow> safe d d'"
proof (induction ss arbitrary: k acc d)
  case (Cons s ss)
  obtain n fs where acc: "acc = (n, fs)" by (cases acc)
  show ?case
  proof (cases "f k s d")
    case (Inl e)
    then show ?thesis using Cons acc by simp
  next
    case (Inr x)
    obtain c d1 where x: "x = (c, d1)" by (cases x)
    then have "safe d d1" "safe d1 d'" using Cons f[of k s d c d1] Inr acc by simp_all
    then show ?thesis by (rule safe_trans)
  qed
qed simp

lemma fail_batch_safe: "fail_batch env cxs k ss acc d = (acc', d') \<Longrightarrow> safe d d'"
proof (induction ss arbitrary: k acc d)
  case (Cons s ss)
  obtain n fs where acc: "acc = (n, fs)" by (cases acc)
  obtain e d1 where e: "fail_session env (cxs k) 0 (us_id s) ''upload.verification_failed'' d = (e, d1)"
    by (cases "fail_session env (cxs k) 0 (us_id s) ''upload.verification_failed'' d")
  have "safe d d1" using fail_session_safe[of d env "cxs k" 0 "us_id s"] e by (metis snd_conv)
  moreover have "safe d1 d'" using Cons acc e by (cases e) auto
  ultimately show ?case by (rule safe_trans)
qed simp

lemma converge_all_safe: "converge_all cxs k ops n d = (r, d') \<Longrightarrow> safe d d'"
proof (induction ops arbitrary: k n d)
  case (Cons op ops)
  show ?case
  proof (cases "converge_succeeded_operation (cxs k) op d")
    case (Inr d1)
    then have "safe d d1" "safe d1 d'" using Cons safe_move[OF converge_sound] by auto
    then show ?thesis by (rule safe_trans)
  qed (use Cons in simp)
qed simp

lemma reconcile_claimed_safe:
  "reconcile_claimed env cxs k m acc d = Some (r, d') \<Longrightarrow> safe d d'"
proof (induction m arbitrary: k acc d)
  case (Suc m)
  obtain n fs where acc: "acc = (n, fs)" by (cases acc)
  let ?c = "claim_types (cx_now (cxs k)) (cx_mint (cxs k)) 1 (5 * minute)
             [MultipartCreate, MultipartComplete, MultipartAbort, CanonicalEnsure, StagingDelete] d"
  show ?case
  proof (cases "sg_canceled (ue_storage env) \<or> is_ok ?c = False")
    case True
    then show ?thesis using Suc.prems acc by (cases ?c) (auto split: if_splits)
  next
    case False
    then obtain ops d1 where c: "?c = Inr (ops, d1)" by (cases ?c) auto
    have d1: "safe d d1" using claim_types_money[OF c] by (rule safe_money)
    show ?thesis
    proof (cases ops)
      case Nil
      then show ?thesis using Suc.prems acc False c d1 by simp
    next
      case (Cons op rest)
      then obtain r0 where r0: "reconcile_operation env (cxs k) op d1 = Some r0"
        using Suc.prems acc False c by (auto simp: bind_eq_Some_conv)
      obtain e d2 where e: "record_failure_of (ue_storage env) (cxs k) op r0 = (e, d2)"
        by (cases "record_failure_of (ue_storage env) (cxs k) op r0")
      have "safe d1 d2" using recorded_safe[OF r0] e by (metis snd_conv)
      moreover have "safe d2 d'" using Suc acc False c Cons r0 e by (cases e) auto
      ultimately show ?thesis using d1 safe_trans by blast
    qed
  qed
next
  case 0
  then show ?case by (cases acc) simp
qed

text \<open>The operations of the package that other packages call.\<close>

inductive upload_entry :: "db \<Rightarrow> db \<Rightarrow> bool" where
  ue_create: "create env cx user input d = (r, d') \<Longrightarrow> upload_entry d d'"
| ue_confirm: "confirm_parts now user i ps d = (r, d') \<Longrightarrow> upload_entry d d'"
| ue_complete: "complete_upload cx user i d = Inr (s, d') \<Longrightarrow> upload_entry d d'"
| ue_abort: "abort_upload cx user i d = Inr d' \<Longrightarrow> upload_entry d d'"
| ue_expire: "expire cxs limit scan d = (x, d') \<Longrightarrow> upload_entry d d'"
| ue_verify: "verify_handler env cx polls i retry d = Some (e, d') \<Longrightarrow> polls_safe polls \<Longrightarrow> upload_entry d d'"
| ue_reconcile: "reconcile_storage_operations env cxss limit scan d = Some (y, d') \<Longrightarrow> upload_entry d d'"
| ue_nudge: "reconcile_storage_operation env cx i d = Some (e, d') \<Longrightarrow> upload_entry d d'"
| ue_retire: "retire_stopped_sessions env cxss limit scan d = (z, d') \<Longrightarrow> upload_entry d d'"

lemma orphans_safe: "reconcile_canonical_orphans cxs limit scan d = (x, d') \<Longrightarrow> safe d d'"
proof -
  assume a: "reconcile_canonical_orphans cxs limit scan d = (x, d')"
  have "safe d1 d2" if "attempt (found GormRecordNotFound (session_by_id (us_id s) d1)) (\<lambda>s'.
      attempt (register_canonical_cleanup (cxs k) 0 s' d1) (\<lambda>d'. Inr (True, d'))) = Inr (c, d2)" for k s d1 c d2
    using that by (auto simp: attempt_eq_Inr_iff intro: safe_money cleanup_money)
  from run_batch_safe[of "\<lambda>k s d. attempt (found GormRecordNotFound (session_by_id (us_id s) d)) (\<lambda>s'.
      attempt (register_canonical_cleanup (cxs k) 0 s' d) (\<lambda>d'. Inr (True, d')))", OF this]
  show ?thesis using a
    by (auto simp: reconcile_canonical_orphans_def Let_def split: if_splits prod.splits)
qed

lemma retire_verifications_safe: "retire_stopped_verifications env cxs limit scan d = (x, d') \<Longrightarrow> safe d d'"
  by (auto simp: retire_stopped_verifications_def split: if_splits prod.splits dest: fail_batch_safe)

lemma expire_safe: "expire cxs limit scan d = (x, d') \<Longrightarrow> safe d d'"
proof -
  have "\<And>k s d c d'. expire_one (cxs k) (us_id s) d = Inr (c, d') \<Longrightarrow> safe d d'"
    using safe_move[OF expire_one_sound] by blast
  from run_batch_safe[of "\<lambda>k s. expire_one (cxs k) (us_id s)", OF this]
  show "expire cxs limit scan d = (x, d') \<Longrightarrow> safe d d'"
    by (auto simp: expire_def split: prod.splits)
qed

lemma retire_sessions_safe:
  assumes "retire_stopped_sessions env cxss limit scan d = (z, d')"
  shows "safe d d'"
proof -
  have "\<And>k s d c d'. retire_session (cxss 1 k) (us_id s) d = Inr (c, d') \<Longrightarrow> safe d d'"
    using safe_move[OF retire_session_sound] by blast
  note r = run_batch_safe[of "\<lambda>k s. retire_session (cxss 1 k) (us_id s)", OF this]
  obtain n fs scan1 d1 where v: "retire_stopped_verifications env (cxss 0) limit scan d = (((n, fs), scan1), d1)"
    by (metis prod.collapse)
  have "safe d1 d'" using assms r v by (auto simp: retire_stopped_sessions_def split: if_splits prod.splits)
  then show ?thesis using retire_verifications_safe[OF v] safe_trans by blast
qed

lemma reconcile_all_safe:
  assumes "reconcile_storage_operations env cxss limit scan d = Some (y, d')"
  shows "safe d d'"
proof -
  obtain n fs stopped d1 where c: "reconcile_claimed env (cxss 0) 0 limit (0, None) d = Some ((n, fs, stopped), d1)"
    using assms by (auto simp: reconcile_storage_operations_def)
  obtain m e d2 where s: "reconcile_succeeded (cxss 1) (limit - n) d1 = ((m, e), d2)"
    by (metis prod.collapse)
  have d2: "safe d1 d2" using s converge_all_safe unfolding reconcile_succeeded_def by blast
  have "safe d1 d'" using assms c s d2 orphans_safe safe_trans
    by (cases e) (fastforce simp: reconcile_storage_operations_def split: if_splits prod.splits)+
  then show ?thesis using reconcile_claimed_safe[OF c] safe_trans by blast
qed

lemma nudge_safe:
  assumes "reconcile_storage_operation env cx i d = Some (e, d')"
  shows "safe d d'"
proof -
  have cv: "safe d (snd (committed d (converge_succeeded_operation cx op d)))" for op
    using safe_move[OF converge_sound] by (intro committed_safe) blast
  show ?thesis
  proof (cases "get_operation i d")
    case (Inl f)
    then show ?thesis using assms by (auto simp: reconcile_storage_operation_def)
  next
    case (Inr op)
    show ?thesis
    proof (cases "so_state op \<in> {OpDead, OpSucceeded}")
      case True
      then show ?thesis using assms Inr cv[of op]
        by (auto simp: reconcile_storage_operation_def split: if_splits)
    next
      case False
      obtain c t d1 where s: "try_start (cx_now cx) (cx_mint cx 1) (so_id op) (5 * minute) d = Inr (c, t, d1) \<or> d' = d"
        using assms Inr False by (cases "try_start (cx_now cx) (cx_mint cx 1) (so_id op) (5 * minute) d")
          (auto simp: reconcile_storage_operation_def)
      then show ?thesis
      proof
        assume s: "try_start (cx_now cx) (cx_mint cx 1) (so_id op) (5 * minute) d = Inr (c, t, d1)"
        have "safe d d1" using try_start_money[OF s] by (rule safe_money)
        moreover have "safe d1 d'"
        proof (cases c)
          case True
          then obtain r0 where "reconcile_operation env cx (op\<lparr>so_lease_token := Some t\<rparr>) d1 = Some r0"
            "(e, d') = record_failure_of (ue_storage env) cx (op\<lparr>so_lease_token := Some t\<rparr>) r0"
            using assms Inr False s by (auto simp: reconcile_storage_operation_def Let_def)
          then show ?thesis using recorded_safe by (metis snd_conv)
        next
          case c: False
          then show ?thesis using assms Inr False s by (auto simp: reconcile_storage_operation_def)
        qed
        ultimately show ?thesis by (rule safe_trans)
      qed simp
    qed
  qed
qed

lemma verify_handler_safe:
  assumes "verify_handler env cx polls i retry d = Some (e, d')" "polls_safe polls"
  shows "safe d d'"
proof (cases i)
  case (Some j)
  then obtain err d1 where v: "verify env cx polls j d = Some (err, d1)"
    using assms(1) by (auto simp: verify_handler_def)
  have "safe d d1" using verify_safe[OF v assms(2)] by simp
  moreover have "safe d1 d'"
    using assms(1) Some v fail_session_safe
    by (cases err) (auto simp: verify_handler_def split: if_splits option.splits prod.splits, (metis snd_conv)+)
  ultimately show ?thesis by (rule safe_trans)
qed (use assms in \<open>auto simp: verify_handler_def\<close>)

lemma confirm_safe: "confirm_parts now user i ps d = (r, d') \<Longrightarrow> safe d d'"
  using safe_move[OF confirm_tx_sound]
  by (auto simp: confirm_parts_def split: sum.splits prod.splits if_splits)

lemma create_safe: "create env cx user input d = (r, d') \<Longrightarrow> safe d d'"
  by (rule safe_move) (rule create_sound)

lemma complete_safe: "complete_upload cx user i d = Inr (s, d') \<Longrightarrow> safe d d'"
  by (rule safe_move) (rule complete_sound)

lemma abort_safe: "abort_upload cx user i d = Inr d' \<Longrightarrow> safe d d'"
  by (rule safe_move) (rule abort_sound)

lemmas entry_safe = create_safe confirm_safe complete_safe abort_safe expire_safe verify_handler_safe
  reconcile_all_safe nudge_safe retire_sessions_safe

text \<open>C5: every operation of the upload service, the task handler and the maintenance runs as a whole
  (provider failures at any point included) keeps the reservations balanced and moves sessions
  along the state machine only.\<close>

theorem upload_entry_points_safe:
  assumes "balanced d" "upload_entry\<^sup>*\<^sup>* d d'"
  shows "balanced d' \<and> sessions_path d d'"
proof -
  have e: "upload_entry a b \<Longrightarrow> safe a b" for a b
    by (induction rule: upload_entry.induct)
      (erule (1) entry_safe | erule entry_safe)+
  have "safe d d'" using assms(2) by (induction rule: rtranclp_induct) (auto intro: safe_trans e)
  then show ?thesis using assms(1) by (simp add: safe_def)
qed

section \<open>A sample run\<close>

definition sample_session :: "upload_status \<Rightarrow> int \<Rightarrow> int \<Rightarrow> upload_session" where
  "sample_session st reserved version =
     \<lparr> us_id = 1, us_user_id = 7, us_folder_id = 2, us_filename = lit ''a'',
       us_filename_normalized = lit ''a'', us_declared_sha256 = sample_sha CHR ''a'',
       us_mime_type = ''text/plain'', us_size_bytes = 5, us_reserved_bytes = reserved,
       us_bucket = ''b'', us_object_key = ''k'', us_storage_upload_id = [], us_part_size = 10485760,
       us_part_count = 1, us_status = st, us_idempotency_key = ''i'',
       us_completed_object_id = None, us_completed_entry_id = None, us_error_code = None,
       us_expires_at = 9, us_version = version \<rparr>"

definition sample_account :: "int \<Rightarrow> user" where
  "sample_account reserved =
     \<lparr> u_id = 7, u_username = lit ''u'', u_username_normalized = lit ''u'', u_email_normalized = None,
       u_password_hash = [], u_status = UserActive, u_quota_bytes = 10, u_used_logical_bytes = 2,
       u_reserved_bytes = reserved \<rparr>"

definition sample_uploads :: "upload_status \<Rightarrow> int \<Rightarrow> int \<Rightarrow> db" where
  "sample_uploads st reserved version =
     empty_db\<lparr>users := [sample_account reserved], upload_sessions := [sample_session st reserved version]\<rparr>"

lemmas sample_upload_defs = sample_uploads_def sample_session_def sample_account_def empty_db_def

lemma sample_uploads_balanced: "balanced (sample_uploads Created 5 1)"
  by (auto simp: sample_upload_defs balanced_def users_ok_def key_distinct_def user_check_def
      session_ok_def active_statuses_def reserved_of_def reservations_def user_by_id_def)

lemma sample_abort: "abort_upload sample_ctx 7 1 (sample_uploads Created 5 1) = Inr (sample_uploads Aborted 0 2)"
  by (simp add: abort_upload_def session_of_def attempt_def found_def sample_upload_defs end_multipart_def
      release_quota_def update_users_def exists_where_def user_check_def end_session_def update_sessions_def)

lemma sample_run:
  "upload_step\<^sup>*\<^sup>* (sample_uploads Created 5 1, {}) (sample_uploads Aborted 0 2, {})"
  using us_abort[OF sample_abort] by blast

lemma upload_quota_balance_witness:
  "u_reserved_bytes (sample_account 0) = sum_where (\<lambda>s. us_user_id s = 7 \<and> us_status s \<in> set active_statuses)
      us_size_bytes (upload_sessions (sample_uploads Aborted 0 2)) \<and>
    u_used_logical_bytes (sample_account 0) + u_reserved_bytes (sample_account 0) \<le>
      u_quota_bytes (sample_account 0)"
proof (rule upload_quota_balance[OF sample_uploads_balanced sample_run])
  show "user_by_id 7 (sample_uploads Aborted 0 2) = Some (sample_account 0)"
    by (simp add: user_by_id_def sample_uploads_def sample_account_def)
qed

lemma upload_status_order_witness:
  "\<exists>s'. session_by_id 1 (sample_uploads Aborted 0 2) = Some s' \<and>
    session_fixed s' = session_fixed (sample_session Created 5 1) \<and>
    session_edge\<^sup>*\<^sup>* Created (us_status s')"
  using upload_status_order[OF sample_uploads_balanced rtranclp.rtrancl_refl sample_run,
      of "sample_session Created 5 1"] by (auto simp: sample_uploads_def sample_session_def)

lemma upload_entry_points_safe_witness:
  "balanced (sample_uploads Aborted 0 2) \<and> sessions_path (sample_uploads Created 5 1) (sample_uploads Aborted 0 2)"
  by (rule upload_entry_points_safe[OF sample_uploads_balanced]) (blast intro: ue_abort[OF sample_abort])

end
