(* ===== verification/UploadFlow.thy ===== *)
theory UploadFlow
  imports UploadAccounting
begin

text \<open>
  What single upload operations promise: the part plan, the replay of a create request, the path
  for content the user already owns, the listing loop, the fairness of the maintenance cursor and
  the facts a successful verification commits.
\<close>

section \<open>The part plan\<close>

definition plan_base :: int where "plan_base = 10 * 1024 * 1024"

lemma quot64_pos: "0 \<le> a \<Longrightarrow> 0 < b \<Longrightarrow> quot64 a b = a div b"
  by (cases "a = 0") (simp_all add: quot64_def signed_divide_int_def)

lemma ceil_le_iff:
  assumes "0 < (b::int)" "0 < n"
  shows "(n + b - 1) div b \<le> k \<longleftrightarrow> n \<le> k * b"
proof -
  have "(n + b - 1) div b \<le> k \<longleftrightarrow> n + b - 1 < (k + 1) * b"
  proof -
    let ?x = "n + b - 1" let ?q = "(n + b - 1) div b"
    have x: "?x = ?q * b + ?x mod b" "0 \<le> ?x mod b" "?x mod b < b" using assms(1) by simp_all
    show ?thesis
    proof
      assume "?q \<le> k"
      then have "?q * b \<le> k * b" using assms(1) by (intro mult_right_mono) auto
      then have "?x < k * b + b" using x by linarith
      then show "?x < (k + 1) * b" by (simp add: algebra_simps)
    next
      assume "?x < (k + 1) * b"
      then have "?q * b < (k + 1) * b" using x by linarith
      then show "?q \<le> k" using assms(1) by (simp add: mult_less_cancel_right)
    qed
  qed
  moreover have "n + b - 1 < (k + 1) * b \<longleftrightarrow> n \<le> k * b" by (simp add: algebra_simps) linarith
  ultimately show ?thesis by simp
qed

text \<open>Below the int64 limit by a margin the arithmetic is exact.\<close>

lemma part_size_from_exact:
  assumes n: "0 < n" "n \<le> 2 ^ 62" and ps: "0 < ps" "ps \<le> 2 ^ 51"
    and prev: "ps = plan_base \<or> 10000 * (ps div 2) < n \<and> 2 dvd ps"
  shows "0 < part_size_from n ps \<and> part_size_from n ps \<le> 2 ^ 51 \<and> n \<le> 10000 * part_size_from n ps \<and>
    (part_size_from n ps = plan_base \<or> 10000 * (part_size_from n ps div 2) < n) \<and> ps \<le> part_size_from n ps"
  using assms
proof (induction n ps rule: part_size_from.induct)
  case (1 n ps)
  have w: "wrap64 (n + ps - 1) = n + ps - 1" using 1 by (intro wrap64_small) auto
  have q: "quot64 (wrap64 (n + ps - 1)) ps = (n + ps - 1) div ps" unfolding w using 1 by (intro quot64_pos) auto
  have c: "10000 < quot64 (wrap64 (n + ps - 1)) ps \<longleftrightarrow> 10000 * ps < n"
    unfolding q using ceil_le_iff[of ps n 10000] 1 by auto
  show ?case
  proof (cases "10000 * ps < n")
    case True
    have w2: "wrap64 (ps * 2) = ps * 2" using 1 by (intro wrap64_small) auto
    have "ps * 2 \<le> 2 ^ 51" using True 1 by simp
    then have "0 < part_size_from n (ps * 2) \<and> part_size_from n (ps * 2) \<le> 2 ^ 51 \<and>
      n \<le> 10000 * part_size_from n (ps * 2) \<and> (part_size_from n (ps * 2) = plan_base \<or>
      10000 * (part_size_from n (ps * 2) div 2) < n) \<and> ps * 2 \<le> part_size_from n (ps * 2)"
      using 1(1)[unfolded w2] c True 1(2-4) by auto
    moreover have "part_size_from n ps = part_size_from n (ps * 2)"
      by (subst part_size_from.simps) (simp only: w2 c True if_True)
    ultimately show ?thesis using 1(4) by auto
  next
    case False
    then have "part_size_from n ps = ps" by (subst part_size_from.simps) (simp only: c if_False)
    then show ?thesis using False 1 by auto
  qed
qed

text \<open>C7: for every size up to 4 EiB the plan has between 1 and 10,000 parts of at least 10 MiB, the
  parts cover the file and the last one is not empty, and the size is doubled no more than needed.\<close>

theorem multipart_plan_bounds:
  assumes "0 < n" "n \<le> 2 ^ 62" "multipart_plan n = (ps, pc)"
  shows "10 * 1024 * 1024 \<le> ps \<and> 1 \<le> pc \<and> pc \<le> 10000 \<and> (pc - 1) * ps < n \<and> n \<le> pc * ps \<and>
    (10 * 1024 * 1024 < ps \<longrightarrow> 10000 * (ps div 2) < n)"
proof -
  have ps: "ps = part_size_from n plan_base"
    and pc: "pc = quot64 (wrap64 (n + ps - 1)) ps"
    using assms(3) by (auto simp: multipart_plan_def Let_def plan_base_def)
  have e: "0 < ps \<and> ps \<le> 2 ^ 51 \<and> n \<le> 10000 * ps \<and> (ps = plan_base \<or> 10000 * (ps div 2) < n) \<and> plan_base \<le> ps"
    using part_size_from_exact[OF assms(1,2), of plan_base] unfolding ps by (simp add: plan_base_def)
  have "wrap64 (n + ps - 1) = n + ps - 1" using e assms by (intro wrap64_small) auto
  then have pc: "pc = (n + ps - 1) div ps" using pc quot64_pos[of "n + ps - 1" ps] e assms by simp
  have le: "pc \<le> k \<longleftrightarrow> n \<le> k * ps" for k unfolding pc using ceil_le_iff[of ps n] e assms by simp
  have "n \<le> pc * ps" using le[of pc] by simp
  moreover have "(pc - 1) * ps < n" using le[of "pc - 1"] by simp
  moreover have "pc \<le> 10000" using le[of 10000] e by simp
  moreover have "1 \<le> pc" using le[of 0] assms(1) by auto
  ultimately show ?thesis using e by (auto simp: plan_base_def)
qed

lemma multipart_plan_bounds_witness:
  "multipart_plan 104857600001 = (20 * 1024 * 1024, 5001) \<and> (5001::int) \<le> 10000 \<and>
   (104857600001::int) \<le> 5001 * (20 * 1024 * 1024)"
proof -
  have p: "multipart_plan 104857600001 = (20 * 1024 * 1024, 5001)"
  proof -
    have "part_size_from 104857600001 10485760 = part_size_from 104857600001 20971520"
      by (subst part_size_from.simps) (simp add: quot64_def signed_divide_int_def wrap64_def)
    also have "\<dots> = 20971520" by (subst part_size_from.simps) (simp add: quot64_def signed_divide_int_def wrap64_def)
    finally show ?thesis by (simp add: multipart_plan_def quot64_def signed_divide_int_def wrap64_def)
  qed
  show ?thesis using p multipart_plan_bounds[OF _ _ p] by simp
qed

text \<open>At the upper end of int64 the rounding addition overflows.\<close>

lemma multipart_plan_overflow: "multipart_plan (2 ^ 63 - 1) = (10 * 1024 * 1024, - 879609302219)"
proof -
  have "part_size_from (2 ^ 63 - 1) 10485760 = 10485760"
    by (subst part_size_from.simps) (simp add: quot64_def signed_divide_int_def wrap64_def)
  then show ?thesis by (simp add: multipart_plan_def quot64_def signed_divide_int_def wrap64_def)
qed

section \<open>The maintenance cursor\<close>

text \<open>The pages that consecutive runs of one kind of maintenance see; each run has its own limit and candidates.\<close>

primrec pages :: "string \<Rightarrow> (nat \<times> upload_session list) list \<Rightarrow> scan_state \<Rightarrow> upload_session list list" where
  "pages kind [] scan = []"
| "pages kind (r # runs) scan =
     (let (page, scan') = maintenance_page kind (fst r) (snd r) scan in page # pages kind runs scan')"

definition cursor_at :: "scan_state \<Rightarrow> string \<Rightarrow> uuid" where
  "cursor_at scan kind = (case scan kind of None \<Rightarrow> 0 | Some a \<Rightarrow> a)"

definition rows_after :: "uuid \<Rightarrow> nat \<Rightarrow> upload_session list \<Rightarrow> upload_session list" where
  "rows_after c limit rows = take limit (sort_key us_id (filter (\<lambda>s. c < us_id s) rows))"

lemma sort_key_Nil_iff [simp]: "sort_key f xs = [] \<longleftrightarrow> xs = []"
  by (metis length_0_conv length_sort)

lemma page_after_rows:
  assumes "\<forall>s \<in> set rows. us_id s \<noteq> 0"
  shows "page_after (scan kind) limit rows = rows_after (cursor_at scan kind) limit rows"
    "page_after None limit rows = rows_after 0 limit rows"
proof -
  have "filter (\<lambda>s. case scan kind of None \<Rightarrow> True | Some a \<Rightarrow> a = 0 \<or> a < us_id s) rows =
      filter (\<lambda>s. cursor_at scan kind < us_id s) rows"
    using assms by (intro filter_cong) (auto simp: cursor_at_def word_neq_0_conv split: option.split)
  then show "page_after (scan kind) limit rows = rows_after (cursor_at scan kind) limit rows"
    by (simp add: page_after_def rows_after_def)
  have "filter (\<lambda>s. True) rows = filter (\<lambda>s. 0 < us_id s) rows"
    using assms by (intro filter_cong) (auto simp: word_neq_0_conv)
  then show "page_after None limit rows = rows_after 0 limit rows"
    by (simp add: page_after_def rows_after_def)
qed

text \<open>A page misses a row after the cursor only by ending before it.\<close>

lemma page_misses:
  assumes "s \<in> set rows" "c < us_id s" "s \<notin> set (rows_after c limit rows)" "0 < limit"
  shows "rows_after c limit rows \<noteq> [] \<and> last (rows_after c limit rows) \<in> set rows \<and>
    c < us_id (last (rows_after c limit rows)) \<and> us_id (last (rows_after c limit rows)) \<le> us_id s"
proof -
  let ?t = "sort_key us_id (filter (\<lambda>s. c < us_id s) rows)"
  have s: "s \<in> set ?t" using assms by simp
  then have "s \<in> set (drop limit ?t)" using assms(3) unfolding rows_after_def
    by (metis Un_iff append_take_drop_id set_append)
  then obtain j where "j < length (drop limit ?t)" "drop limit ?t ! j = s"
    by (auto simp: in_set_conv_nth)
  then have j: "limit + j < length ?t" "?t ! (limit + j) = s" by auto
  have ne: "take limit ?t \<noteq> []" using j(1) assms(4) by auto
  moreover have "length (take limit ?t) = limit" using j(1) by simp
  then have "last (take limit ?t) = take limit ?t ! (limit - 1)" using last_conv_nth[OF ne] by simp
  ultimately have l: "last (take limit ?t) = ?t ! (limit - 1)" "take limit ?t \<noteq> []"
    using assms(4) by simp_all
  have "us_id (?t ! (limit - 1)) \<le> us_id (?t ! (limit + j))"
    using sorted_nth_mono[OF sorted_sort_key[of us_id "filter (\<lambda>s. c < us_id s) rows"], of "limit - 1" "limit + j"] j(1)
    by simp
  moreover have "?t ! (limit - 1) \<in> set ?t" using j(1) by (intro nth_mem) simp
  ultimately show ?thesis using l j(2) by (auto simp: rows_after_def)
qed

text \<open>How many of the identifiers \<open>A\<close> the cursor still has to pass before it reaches \<open>i\<close>, going round once.\<close>

definition distance :: "uuid set \<Rightarrow> uuid \<Rightarrow> uuid \<Rightarrow> nat" where
  "distance A i c = (if c < i then card {a \<in> A. c < a \<and> a < i} else card {a \<in> A. c < a} + card {a \<in> A. a < i} + 1)"

lemma distance_bound:
  assumes "i \<in> A"
  shows "distance A i c \<le> card A"
proof (cases "c < i")
  case True
  then show ?thesis by (simp add: distance_def card_mono)
next
  case False
  have "card ({a \<in> A. c < a} \<union> {a \<in> A. a < i}) = card {a \<in> A. c < a} + card {a \<in> A. a < i}"
    using False by (intro card_Un_disjoint) auto
  moreover have "card (({a \<in> A. c < a} \<union> {a \<in> A. a < i}) \<union> {i}) = card ({a \<in> A. c < a} \<union> {a \<in> A. a < i}) + card {i}"
    using False by (intro card_Un_disjoint) auto
  ultimately have "card {a \<in> A. c < a} + card {a \<in> A. a < i} + card {i} = card ({a \<in> A. c < a} \<union> {a \<in> A. a < i} \<union> {i})"
    by simp
  also have "\<dots> \<le> card A" using assms by (intro card_mono) auto
  finally show ?thesis using False by (simp add: distance_def)
qed

lemma page_progress:
  assumes rows: "\<forall>s \<in> set rows. us_id s \<noteq> 0" "key_distinct us_id rows" and s: "s \<in> set rows" and l: "0 < limit"
    and A: "us_id ` set rows \<subseteq> A"
    and m: "maintenance_page kind limit rows scan = (page, scan')" and n: "s \<notin> set page"
  shows "distance A (us_id s) (cursor_at scan' kind) < distance A (us_id s) (cursor_at scan kind)"
proof -
  let ?c = "cursor_at scan kind"
  let ?p = "if rows_after ?c limit rows = [] \<and> ?c \<noteq> 0 then rows_after 0 limit rows else rows_after ?c limit rows"
  have w: "scan kind \<notin> {None, Some 0} \<longleftrightarrow> ?c \<noteq> 0" by (auto simp: cursor_at_def split: option.split)
  have p: "page = ?p" and c': "cursor_at scan' kind = (if page = [] then 0 else us_id (last page))"
    using m l page_after_rows[OF rows(1)] w
    by (auto simp: maintenance_page_def Let_def cursor_at_def split: if_splits)
  have id: "r \<in> set rows \<Longrightarrow> us_id r \<le> us_id s \<Longrightarrow> r \<noteq> s \<Longrightarrow> us_id r < us_id s" for r
    using key_unique[OF rows(2) _ s] by (metis order_le_less)
  have pos: "0 < us_id s" using rows(1) s by (simp add: word_neq_0_conv)
  have step: "distance A (us_id s) (us_id (last (rows_after c limit rows))) <
      card {a \<in> A. c < a \<and> a < us_id s} \<and> rows_after c limit rows \<noteq> []"
    if "c < us_id s" "s \<notin> set (rows_after c limit rows)" for c
  proof -
    let ?r = "last (rows_after c limit rows)"
    note pm = page_misses[OF s that l]
    have ne: "?r \<noteq> s" using pm that(2) by (metis last_in_set)
    then have lt: "us_id ?r < us_id s" using pm id by blast
    have "us_id ?r \<in> A" using pm A by auto
    then have "card {a \<in> A. us_id ?r < a \<and> a < us_id s} < card {a \<in> A. c < a \<and> a < us_id s}"
      using pm lt by (intro psubset_card_mono) auto
    then show ?thesis using lt pm by (simp add: distance_def)
  qed
  show ?thesis
  proof (cases "?c < us_id s")
    case True
    then have "filter (\<lambda>s. ?c < us_id s) rows \<noteq> []" using s by (auto simp: filter_empty_conv)
    then have "rows_after ?c limit rows \<noteq> []" using l by (simp add: rows_after_def)
    then have "page = rows_after ?c limit rows" using p by simp
    then show ?thesis using step[OF True] n True c' by (simp add: distance_def)
  next
    case False
    show ?thesis
    proof (cases "rows_after ?c limit rows = []")
      case True
      then have "page = rows_after 0 limit rows" using p False pos by auto
      then have "distance A (us_id s) (cursor_at scan' kind) < card {a \<in> A. 0 < a \<and> a < us_id s}"
        using step[OF pos] n c' by simp
      also have "\<dots> \<le> card {a \<in> A. a < us_id s}" by (intro card_mono) auto
      finally show ?thesis using False by (simp add: distance_def)
    next
      case ne: False
      then have pg: "page = rows_after ?c limit rows" using p by simp
      have "last page \<in> set page" using ne pg by simp
      then have r: "last page \<in> set rows" "?c < us_id (last page)"
        unfolding pg rows_after_def by (auto dest!: in_set_takeD)
      then have "us_id (last page) \<in> A" using A by auto
      then have "card {a \<in> A. us_id (last page) < a} < card {a \<in> A. ?c < a}"
        using r by (intro psubset_card_mono) auto
      then show ?thesis using False r ne pg c' by (auto simp: distance_def)
    qed
  qed
qed

text \<open>C6: a maintenance run never starves a session: as long as a session stays a candidate it is visited within one
  more run than distinct candidates turn up during those runs, wherever the cursor stands, whatever the page size of
  each run, and whatever candidates come and go between the runs.\<close>

theorem maintenance_reaches_every_session:
  assumes "\<forall>(limit, rows) \<in> set runs. 0 < limit \<and> key_distinct us_id rows \<and> (\<forall>s \<in> set rows. us_id s \<noteq> 0) \<and> i \<in> us_id ` set rows"
    "card (\<Union>(limit, rows) \<in> set runs. us_id ` set rows) < length runs"
  shows "\<exists>page \<in> set (pages kind runs scan). i \<in> us_id ` set page"
proof -
  let ?A = "\<Union>(limit, rows) \<in> set runs. us_id ` set rows"
  have reach: "distance A i (cursor_at scan kind) < length rs \<Longrightarrow> set rs \<subseteq> set runs \<Longrightarrow> ?A \<subseteq> A \<Longrightarrow>
      \<exists>page \<in> set (pages kind rs scan). i \<in> us_id ` set page" for A rs
  proof (induction rs arbitrary: scan)
    case (Cons r rs)
    obtain limit rows where r: "r = (limit, rows)" by (cases r)
    obtain page scan' where m: "maintenance_page kind limit rows scan = (page, scan')"
      by (cases "maintenance_page kind limit rows scan")
    have mem: "(limit, rows) \<in> set runs" using Cons.prems(2) r by simp
    then have ok: "0 < limit" "key_distinct us_id rows" "\<forall>s \<in> set rows. us_id s \<noteq> 0" using assms(1) by auto
    obtain s where s: "s \<in> set rows" "us_id s = i" using assms(1) mem by auto
    have A: "us_id ` set rows \<subseteq> A" using mem Cons.prems(3) by blast
    show ?case
    proof (cases "s \<in> set page")
      case False
      then have "distance A i (cursor_at scan' kind) < length rs"
        using page_progress[OF ok(3,2) s(1) ok(1) A m] Cons.prems(1) s(2) by simp
      then show ?thesis using Cons.IH[of scan'] Cons.prems m r by auto
    qed (use s m r in auto)
  qed simp
  have "runs \<noteq> []" using assms(2) by auto
  then have "i \<in> ?A" using assms(1) by (cases runs) auto
  then have "distance ?A i (cursor_at scan kind) < length runs" using distance_bound[of i ?A] assms(2) le_less_trans by blast
  then show ?thesis using reach[of ?A runs] by blast
qed


lemma maintenance_reaches_every_session_witness:
  "\<exists>page \<in> set (pages ''expire'' [(1, [sample_session Created 5 1]), (1, [sample_session Created 5 1, (sample_session Created 5 1)\<lparr>us_id := 9\<rparr>]),
     (2, [sample_session Created 5 1])] (\<lambda>k. Some 4)). 1 \<in> us_id ` set page"
  by (rule maintenance_reaches_every_session) (auto simp: sample_session_def key_distinct_def card_insert_if)

section \<open>Replaying a create request\<close>

definition defaulted :: "create_input \<Rightarrow> create_input" where
  "defaulted i = (if ci_mime_type i = [] then i\<lparr>ci_mime_type := ''application/octet-stream''\<rparr> else i)"

definition request_valid :: "create_input \<Rightarrow> bool" where
  "request_valid i \<longleftrightarrow> valid_sha256 (ci_sha256 i) \<and> 0 < ci_size_bytes i \<and> ci_idempotency_key i \<noteq> [] \<and>
     length (ci_idempotency_key i) \<le> 128 \<and> length (ci_mime_type i) \<le> 255"

definition finish_create ::
  "uuid \<Rightarrow> db \<Rightarrow> (created \<times> db) result \<Rightarrow> create_result result \<times> db" where
  "finish_create user d r = (case r of
       Inl e \<Rightarrow> (Inl (if errors_is e DriveConflict then UploadFileExists else e), d)
     | Inr (InstantUpload entry, d') \<Rightarrow> (attempt (load_file user entry d') (\<lambda>v.
         Inr \<lparr> cr_mode = ''instant'', cr_upload = None, cr_file = Some v \<rparr>), d')
     | Inr (MultipartUpload s, d') \<Rightarrow>
         (Inr \<lparr> cr_mode = ''multipart'', cr_upload = Some s, cr_file = None \<rparr>, d'))"

lemma create_eq:
  "create env cx user i d =
     (case normalize_filename (ci_filename i) of
        Inl e \<Rightarrow> (Inl UploadInvalidInput, d)
      | Inr (fn, no) \<Rightarrow>
          if \<not> request_valid i then (Inl UploadInvalidInput, d)
          else case folder_of user (ci_folder_id i) d of
              Inl e \<Rightarrow> (Inl UploadNotFound, d)
            | Inr f \<Rightarrow> finish_create user d (create_tx env cx user (defaulted i) fn no d))"
  by (auto simp: create_def request_valid_def defaulted_def finish_create_def Let_def not_le
      split: sum.split prod.split created.split)

text \<open>The session answers the request.\<close>

definition answers :: "uuid \<Rightarrow> create_input \<Rightarrow> gotext \<Rightarrow> upload_session \<Rightarrow> bool" where
  "answers user i fn s \<longleftrightarrow> request_key s = (user, ci_idempotency_key i) \<and>
     us_folder_id s = ci_folder_id i \<and> us_filename s = fn \<and> us_declared_sha256 s = ci_sha256 i \<and>
     us_size_bytes s = ci_size_bytes i \<and> us_mime_type s = ci_mime_type i"

lemma answers_fixed: "session_fixed s = session_fixed t \<Longrightarrow> answers user i fn s = answers user i fn t"
  using session_fixedD[of s t] by (simp add: answers_def)

lemma create_replay_iff:
  assumes "answers user i fn s"
  shows "create_replay i fn s = Inr (case us_completed_entry_id s of
      Some entry \<Rightarrow> if us_storage_upload_id s = [] \<and> us_status s = Completed then InstantUpload entry
                    else MultipartUpload s
    | None \<Rightarrow> MultipartUpload s)"
  using assms by (auto simp: create_replay_def answers_def split: option.split)

lemma create_tx_upload:
  assumes "create_tx env cx user i fn no d = Inr (MultipartUpload s, d')"
  shows "s \<in> set (upload_sessions d') \<and> answers user i fn s"
proof (cases "find (\<lambda>s. us_user_id s = user \<and> us_idempotency_key s = ci_idempotency_key i) (upload_sessions d)")
  case (Some q)
  then have q: "q \<in> set (upload_sessions d)" "request_key q = (user, ci_idempotency_key i)"
    by (auto simp: request_key_def dest: find_SomeD)
  have "create_replay i fn q = Inr (MultipartUpload s)" "d' = d"
    using assms Some by (auto simp: create_tx_def attempt_eq_Inr_iff)
  then show ?thesis using q
    by (auto simp: create_replay_def answers_def split: if_splits option.splits)
next
  case None
  then have "create_multipart env cx user i fn no d = Inr (MultipartUpload s, d')"
    using assms by (auto simp: create_tx_def create_instant_def attempt_eq_Inr_iff split: if_splits sum.splits)
  then obtain d1 d2 where s: "s = new_session env cx (cx_mint cx 0) user i fn no"
    and ins: "insert_upload_session s d1 = Inr d2" and m: "money d' = money d2"
    by (auto simp: create_multipart_def Let_def attempt_eq_Inr_iff dest!: enqueue_upload_money)
  have "answers user i fn s" unfolding s
    by (simp add: new_session_def answers_def request_key_def split: prod.split)
  moreover have "s \<in> set (upload_sessions d')"
    using ins m by (auto simp: insert_upload_session_def money_eq split: if_splits)
  ultimately show ?thesis by simp
qed

lemma balanced_request_unique:
  assumes "balanced d" "s \<in> set (upload_sessions d)" "request_key s = (user, k)"
  shows "find (\<lambda>s. us_user_id s = user \<and> us_idempotency_key s = k) (upload_sessions d) = Some s"
proof -
  have "find (\<lambda>s. request_key s = (user, k)) (upload_sessions d) = Some s"
    using assms by (simp add: balanced_def find_by_key)
  then show ?thesis by (simp add: request_key_def)
qed

text \<open>repeating a create request, whenever and in whatever state the upload has reached by then,
  changes nothing and returns the same upload (as the finished file once an instant one is
  recorded); it never reserves quota twice.\<close>

theorem create_retry_same_upload:
  assumes "balanced d" "create env cx user i d = (Inr res, d1)" "cr_upload res = Some s"
    "upload_step\<^sup>*\<^sup>* (d1, {}) (d2, S)" "folder_of user (ci_folder_id i) d2 = Inr f"
  shows "\<exists>s'. session_by_id (us_id s) d2 = Some s' \<and> session_fixed s' = session_fixed s \<and>
    (create env' cx' user i d2 =
       (Inr \<lparr> cr_mode = ''multipart'', cr_upload = Some s', cr_file = None \<rparr>, d2) \<or>
     us_status s' = Completed \<and> (\<exists>entry. us_completed_entry_id s' = Some entry \<and>
       create env' cx' user i d2 = (attempt (load_file user entry d2) (\<lambda>v.
         Inr \<lparr> cr_mode = ''instant'', cr_upload = None, cr_file = Some v \<rparr>), d2)))"
proof -
  have b1: "balanced d1" using create_sound[OF assms(1,2)] by simp
  obtain fn no where fn: "normalize_filename (ci_filename i) = Inr (fn, no)"
    using assms(2) by (auto simp: create_eq split: sum.splits)
  have rv: "request_valid i" using assms(2) fn by (auto simp: create_eq split: if_splits)
  have "create_tx env cx user (defaulted i) fn no d = Inr (MultipartUpload s, d1)"
    using assms(2,3) fn rv
    by (auto simp: create_eq finish_create_def attempt_eq_Inr_iff split: sum.splits created.splits)
  from create_tx_upload[OF this] have s: "s \<in> set (upload_sessions d1)" "answers user (defaulted i) fn s"
    by simp_all
  obtain s' where s': "session_by_id (us_id s) d2 = Some s'" "session_fixed s' = session_fixed s"
    using upload_status_order[OF b1 rtranclp.rtrancl_refl assms(4) s(1)] by blast
  have b2: "balanced d2" using upload_run_inv[OF assms(4)] b1 by (simp add: upload_inv_def)
  have a: "answers user (defaulted i) fn s'" using answers_fixed[OF s'(2)] s(2) by simp
  then have "find (\<lambda>s. us_user_id s = user \<and> us_idempotency_key s = ci_idempotency_key (defaulted i))
      (upload_sessions d2) = Some s'"
    using session_by_id_mem[OF s'(1)] by (intro balanced_request_unique[OF b2]) (auto simp: answers_def)
  then have "create env' cx' user i d2 =
      finish_create user d2 (attempt (create_replay (defaulted i) fn s') (\<lambda>c. Inr (c, d2)))"
    using fn rv assms(5) by (simp add: create_eq create_tx_def)
  then show ?thesis using s' unfolding create_replay_iff[OF a]
    by (auto simp: finish_create_def attempt_def split: option.splits if_splits)
qed

section \<open>Content the user already owns\<close>

text \<open>C8: for content the user already owns a new request never succeeds: the instant path always
  runs into the rule that a user has at most one live entry of an object, and nothing changes.\<close>

theorem owned_content_rejected:
  assumes "find_owned user (ci_sha256 i) (ci_size_bytes i) d = Inr obj"
    "\<forall>s \<in> set (upload_sessions d). request_key s \<noteq> (user, ci_idempotency_key i)"
  shows "\<exists>e. create env cx user i d = (Inl e, d) \<and> e \<in> {UploadInvalidInput, UploadNotFound,
    UploadNameConflict, UploadQuotaExceeded, UploadFileExists, DriveInvalidInput, DriveNotFound}"
proof (cases "\<exists>fn no. normalize_filename (ci_filename i) = Inr (fn, no) \<and> request_valid i \<and>
    (\<exists>f. folder_of user (ci_folder_id i) d = Inr f)")
  case False
  then show ?thesis by (auto simp: create_eq split: sum.splits)
next
  case True
  then obtain fn no f where g: "normalize_filename (ci_filename i) = Inr (fn, no)" "request_valid i"
    "folder_of user (ci_folder_id i) d = Inr f" by blast
  let ?i = "defaulted i"
  have i: "ci_sha256 ?i = ci_sha256 i" "ci_size_bytes ?i = ci_size_bytes i"
    "ci_idempotency_key ?i = ci_idempotency_key i" "ci_folder_id ?i = ci_folder_id i"
    by (simp_all add: defaulted_def)
  have nf: "find (\<lambda>s. us_user_id s = user \<and> us_idempotency_key s = ci_idempotency_key ?i) (upload_sessions d) = None"
    using assms(2) by (auto simp: find_None_iff request_key_def i)
  have own: "0 < count_where (\<lambda>e. fe_owner_id e = user \<and> fe_object_id e = fo_id obj \<and> entry_live e) (file_entries d)"
  proof -
    have "exists_where (\<lambda>e. fe_object_id e = fo_id obj \<and> fe_owner_id e = user \<and> entry_live e) (file_entries d)"
      using assms(1) unfolding find_owned_def found_eq_Inr_iff by (blast dest: find_SomeD)
    then show ?thesis by (auto simp: table_simps count_where_pos_iff)
  qed
  have inst: "\<exists>e. create_instant env cx user ?i fn no obj d = Inl e \<and>
      e \<in> {UploadQuotaExceeded, DriveInvalidInput, DriveNotFound, DriveConflict}"
  proof (cases "add_logical_usage user (ci_size_bytes ?i) d")
    case (Inl e)
    then show ?thesis by (simp add: create_instant_def on_error_def attempt_def)
  next
    case (Inr d1)
    have "file_entries d1 = file_entries d" using Inr by (auto simp: add_logical_usage_def)
    then have "\<exists>e. create_file (cx_mint cx 0) user (ci_folder_id ?i) (fo_id obj) fn d1 = Inl e \<and>
        e \<in> {DriveInvalidInput, DriveNotFound, DriveConflict}"
      using own by (auto simp: create_file_def attempt_def normalize_name_def folder_of_def found_def Let_def
          split: sum.splits option.splits if_splits)
    then show ?thesis using Inr by (auto simp: create_instant_def on_error_def attempt_def)
  qed
  have "\<exists>e. create_tx env cx user ?i fn no d = Inl e \<and>
      e \<in> {UploadNameConflict, UploadQuotaExceeded, DriveInvalidInput, DriveNotFound, DriveConflict}"
    using inst assms(1) unfolding create_tx_def nf by (auto simp: i)
  then show ?thesis using g by (auto simp: create_eq finish_create_def)
qed

section \<open>Listing multipart uploads\<close>

text \<open>the listing loop returns whenever the provider's truncated pages make progress through a
  well-founded order of the markers, however many pages there are.\<close>

theorem list_uploads_returns:
  assumes "\<And>km um page. lister bucket key km um = Inr page \<Longrightarrow> ul_truncated page \<Longrightarrow>
    (rank :: string \<times> string \<Rightarrow> nat) (ul_next_key_marker page, ul_next_upload_marker page) < rank (km, um)"
  shows "\<exists>r. list_uploads lister bucket key km um acc = Some r"
proof (induction "rank (km, um)" arbitrary: km um acc rule: less_induct)
  case less
  show ?case
  proof (cases "lister bucket key km um")
    case (Inl e)
    then show ?thesis by (simp add: list_uploads.simps)
  next
    case (Inr page)
    show ?thesis
    proof (cases "listed key (ul_uploads page) acc")
      case (Inl e)
      then show ?thesis using \<open>_ = Inr page\<close> by (simp add: list_uploads.simps)
    next
      case (Inr acc')
      have "ul_truncated page \<Longrightarrow> \<exists>r. list_uploads lister bucket key (ul_next_key_marker page)
          (ul_next_upload_marker page) acc' = Some r"
        using less[OF assms[OF \<open>lister bucket key km um = Inr page\<close>]] by blast
      then show ?thesis using \<open>lister bucket key km um = Inr page\<close> Inr
        by (subst list_uploads.simps) auto
    qed
  qed
qed

section \<open>What a verification commits\<close>

lemma create_or_get_ready:
  assumes "create_or_get obj0 d = Inr (o', d')" "fo_version obj0 \<noteq> 0" "fo_status obj0 = ObjectReady"
    and ids: "key_distinct fo_id (file_objects d)"
  shows "object_by_id (fo_id o') d' = Some o' \<and> fo_status o' = ObjectReady \<and>
    fo_sha256 o' = fo_sha256 obj0 \<and> fo_size_bytes o' = fo_size_bytes obj0 \<and>
    key_distinct fo_id (file_objects d') \<and> file_entries d' = file_entries d"
  using assms(1,2) ids
proof (cases rule: create_or_get_cases)
  case existing
  then show ?thesis using ids by (simp add: object_by_id_def find_by_key)
next
  case (revived p)
  have kd: "key_distinct fo_id (file_objects d')"
    using ids revived(7) by (simp add: update_objects_def revive_row_def key_distinct_update)
  have m: "o' \<in> set (file_objects d')" "fo_id o' = fo_id p" using object_by_id_SomeD[OF revived(8)] by simp_all
  have "p \<in> set (file_objects d)" using revived(1) .
  then have "revive_row obj0 p \<in> set (file_objects d')"
    using revived(2,3,7) by (auto simp: update_objects_def in_set_update_where)
  then have "o' = revive_row obj0 p"
    using key_unique[OF kd m(1)] m(2) by (simp add: revive_row_def)
  then show ?thesis using revived m(2) kd assms(3) by (simp add: revive_row_def update_objects_def)
next
  case created
  have "key_distinct fo_id (file_objects d')" using ids created(2,3)
    by (auto simp: objects_collide_def intro!: key_distinct_append_new)
  then show ?thesis using created assms(3) by (simp add: object_by_id_def find_by_key)
qed

lemma commit_quota_frame:
  "commit_quota i n m d = Inr d' \<Longrightarrow> file_entries d' = file_entries d \<and> file_objects d' = file_objects d"
  by (auto simp: commit_quota_def)

text \<open>The reference count of the object a verification links.\<close>

lemma linked_count:
  assumes c: "create_or_get new d = Inr (obj0, d1)" and n: "fo_version new \<noteq> 0" "fo_status new = ObjectReady"
      "fo_reference_count new = 0"
    and ids: "key_distinct fo_id (file_objects d)"
  shows "fo_reference_count obj0 = (case object_by_id (fo_id obj0) d of None \<Rightarrow> 0 | Some q \<Rightarrow> fo_reference_count q)"
  using c n(1) ids
proof (cases rule: create_or_get_cases)
  case existing
  have "object_by_id (fo_id obj0) d = Some obj0"
    unfolding object_by_id_def find_by_key[OF ids] using existing(1) by simp
  then show ?thesis by simp
next
  case (revived p)
  have "fo_id obj0 = fo_id p" using object_by_id_SomeD[OF revived(8)] by simp
  then have p: "object_by_id (fo_id obj0) d = Some p"
    unfolding object_by_id_def find_by_key[OF ids] using revived(1) by simp
  have "obj0 = p \<or> fo_reference_count obj0 = fo_reference_count p"
    using object_by_id_SomeD[OF revived(8)] key_unique[OF ids _ revived(1), of obj0]
      key_unique[OF ids _ revived(1)]
    unfolding revived(7) update_objects_def
    by (fastforce simp: in_set_update_where revive_row_def)
  then show ?thesis using p by auto
next
  case created
  have "object_by_id (fo_id new) d = None"
    using created(3) by (auto simp: object_by_id_def find_None_iff objects_collide_def)
  then show ?thesis using created(1) n(3) by simp
qed

text \<open>What the linking transaction leaves in the tables.\<close>

lemma verify_link_files:
  assumes v: "verify_link cx s locked sha bytes key d = Inr d'" and ids: "key_distinct fo_id (file_objects d)"
  obtains e obj d4 d5 where "e \<in> set (file_entries d')" "entry_live e" "fe_owner_id e = us_user_id s"
    "fe_folder_id e = us_folder_id s" "normalize_name (us_filename s) = Inr (fe_name e, fe_name_normalized e)"
    "object_by_id (fe_object_id e) d' = Some obj" "fo_status obj = ObjectReady" "fo_sha256 obj = sha"
    "fo_size_bytes obj = bytes"
    "fo_reference_count obj = (case object_by_id (fo_id obj) d of None \<Rightarrow> 1 | Some q \<Rightarrow> fo_reference_count q + 1)"
    "money d4 = money d" "commit_quota (us_user_id s) (us_reserved_bytes s) (us_size_bytes s) d4 = Inr d5"
    "users d' = users d5" "upload_sessions d' = update_where (\<lambda>q. us_id q = us_id locked)
       (\<lambda>q. q\<lparr>us_status := Completed, us_completed_object_id := Some (fo_id obj),
              us_completed_entry_id := Some (fe_id e), us_reserved_bytes := 0\<rparr>) (upload_sessions d5)"
proof (rule verify_link_steps[OF v])
  fix obj0 obj :: file_object and e :: file_entry and d1 d2 ep d3 d4 d5 d7
  let ?new = "\<lparr> fo_id = cx_mint cx 1, fo_sha256 = sha, fo_size_bytes = bytes,
        fo_mime_type = us_mime_type s, fo_bucket = us_bucket s, fo_object_key = key,
        fo_status = ObjectReady, fo_reference_count = 0, fo_version = 1,
        fo_verified_at = Some (cx_now cx), fo_deleted_at = None \<rparr>"
  let ?P = "\<lambda>q. us_id q = us_id locked"
  let ?g = "\<lambda>q. q\<lparr>us_status := Completed, us_completed_object_id := Some (fo_id obj),
               us_completed_entry_id := Some (fe_id e), us_reserved_bytes := 0\<rparr>"
  assume a: "create_or_get ?new d = Inr (obj0, d1)"
    "create_file (cx_mint cx 2) (us_user_id s) (us_folder_id s) (fo_id obj0) (us_filename s) d1 = Inr (e, d2)"
    "current_epoch (us_user_id s) d2 = Inr (ep, d3)" "add_reference (fo_id obj0) d3 = Inr d4"
    "object_by_id (fo_id obj0) d4 = Some obj"
    "commit_quota (us_user_id s) (us_reserved_bytes s) (us_size_bytes s) d4 = Inr d5"
    "business d7 = business (update_sessions ?P ?g d5)" "d' = d7\<lparr>storage_operations := storage_operations d'\<rparr>"
  have r: "object_by_id (fo_id obj0) d1 = Some obj0 \<and> fo_status obj0 = ObjectReady \<and>
    fo_sha256 obj0 = sha \<and> fo_size_bytes obj0 = bytes"
    using create_or_get_ready[OF a(1) _ _ ids] by simp
  note ce = create_file_entry[OF a(2)]
  have o3: "object_by_id (fo_id obj0) d3 = Some obj0" "file_entries d3 = file_entries d2"
    using r ce business_eqD(4,5)[OF bump_frame(3)[OF a(3)]] by (simp_all add: object_by_id_def)
  have obj: "obj = obj0\<lparr>fo_reference_count := fo_reference_count obj0 + 1, fo_version := fo_version obj0 + 1\<rparr>"
    using add_reference_object(1)[OF a(4) o3(1)] a(5) r by simp
  have "file_entries d' = file_entries d7 \<and> file_objects d' = file_objects d7 \<and>
      upload_sessions d' = upload_sessions d7 \<and> users d' = users d7"
    using arg_cong[OF a(8), of file_entries] arg_cong[OF a(8), of file_objects]
      arg_cong[OF a(8), of upload_sessions] arg_cong[OF a(8), of users] by simp
  then have fr: "file_entries d' = file_entries d5" "file_objects d' = file_objects d5"
      "upload_sessions d' = update_where ?P ?g (upload_sessions d5)" "users d' = users d5"
    using business_eqD(1,4,5,8)[OF a(7)] by (simp_all add: update_sessions_def)
  have "e \<in> set (file_entries d')" "object_by_id (fe_object_id e) d' = Some obj"
    using fr commit_quota_frame[OF a(6)] add_reference_object(2)[OF a(4) o3(1)] o3(2) ce a(5)
    by (simp_all add: object_by_id_def)
  moreover have "fo_reference_count obj = (case object_by_id (fo_id obj) d of None \<Rightarrow> 1 | Some q \<Rightarrow> fo_reference_count q + 1)"
    using linked_count[OF a(1) _ _ _ ids] obj by (auto simp: object_by_id_SomeD split: option.split)
  moreover have "money d4 = money d"
    using add_reference_money[OF a(4)] current_epoch_money[OF a(3)] create_file_money[OF a(2)]
      create_or_get_money[OF a(1)] by simp
  ultimately show thesis using ce r obj fr(3,4) a(6) by (intro that[of e obj d4 d5]) simp_all
qed

text \<open>The verifying worker's snapshot agrees with the row it locks.\<close>

lemma snapshot_row:
  assumes "balanced d" "snapshot_ok d s" "session_by_id (us_id s) d = Some locked" "us_status locked = Verifying"
  shows "us_user_id s = us_user_id locked" "us_size_bytes s = us_size_bytes locked"
    "us_reserved_bytes s = us_size_bytes s" "us_reserved_bytes locked = us_size_bytes s" "0 < us_size_bytes s"
proof -
  note id = session_by_id_mem[OF assms(3)]
  obtain r where r: "r \<in> set (upload_sessions d)" "session_fixed r = session_fixed s" "session_ok s"
    "us_status s = Verifying" using assms(2) by (auto simp: snapshot_ok_def)
  have "r = locked" using assms(1) id r session_fixedD(1)[OF r(2)] key_unique unfolding balanced_def by metis
  then show same: "us_user_id s = us_user_id locked" "us_size_bytes s = us_size_bytes locked"
    using session_fixedD[OF r(2)] by simp_all
  have "session_ok locked" using assms(1) id by (simp add: balanced_def)
  then show "us_reserved_bytes s = us_size_bytes s" "us_reserved_bytes locked = us_size_bytes s" "0 < us_size_bytes s"
    using r(3,4) same assms(4) by (simp_all add: session_ok_def active_statuses_def)
qed

text \<open>C4: a verification that commits has put a live file of the verified content into the session's
  folder: the entry points at a ready object with that hash and size and one more reference (the first one, when
  the object is new), the
  session is completed with both identifiers, and the reserved bytes have become used bytes.\<close>

theorem verified_upload_is_filed:
  assumes "balanced d" "snapshot_ok d s" "key_distinct fo_id (file_objects d)"
    "session_by_id (us_id s) d = Some locked" "us_status locked = Verifying"
    "verify_commit cx s sha bytes key d = Inr d'"
  shows "\<exists>e obj s'. e \<in> set (file_entries d') \<and> entry_live e \<and> fe_owner_id e = us_user_id s \<and>
    fe_folder_id e = us_folder_id s \<and> normalize_name (us_filename s) = Inr (fe_name e, fe_name_normalized e) \<and>
    object_by_id (fe_object_id e) d' = Some obj \<and> fo_status obj = ObjectReady \<and>
    fo_sha256 obj = sha \<and> fo_size_bytes obj = bytes \<and>
    fo_reference_count obj = (case object_by_id (fo_id obj) d of None \<Rightarrow> 1 | Some o' \<Rightarrow> fo_reference_count o' + 1) \<and>
    session_by_id (us_id s) d' = Some s' \<and> us_status s' = Completed \<and>
    us_completed_object_id s' = Some (fo_id obj) \<and> us_completed_entry_id s' = Some (fe_id e) \<and>
    reserved_of d' (us_user_id s) = reserved_of d (us_user_id s) - us_size_bytes s \<and>
    used_of d' (us_user_id s) = used_of d (us_user_id s) + us_size_bytes s"
proof -
  have v: "verify_link cx s locked sha bytes key d = Inr d'"
    using assms(4-6) by (auto elim: verify_commit_cases)
  note snap = snapshot_row[OF assms(1,2,4,5)] and id = session_by_id_mem[OF assms(4)]
  show ?thesis
  proof (rule verify_link_files[OF v assms(3)])
    fix e :: file_entry and obj :: file_object and d4 d5
    let ?g = "\<lambda>q. q\<lparr>us_status := Completed, us_completed_object_id := Some (fo_id obj),
                 us_completed_entry_id := Some (fe_id e), us_reserved_bytes := 0\<rparr>"
    assume f: "e \<in> set (file_entries d')" "entry_live e" "fe_owner_id e = us_user_id s"
      "fe_folder_id e = us_folder_id s" "normalize_name (us_filename s) = Inr (fe_name e, fe_name_normalized e)"
      "object_by_id (fe_object_id e) d' = Some obj" "fo_status obj = ObjectReady" "fo_sha256 obj = sha"
      "fo_size_bytes obj = bytes"
      and cnt: "fo_reference_count obj = (case object_by_id (fo_id obj) d of None \<Rightarrow> 1 | Some q \<Rightarrow> fo_reference_count q + 1)"
      and q: "money d4 = money d" "commit_quota (us_user_id s) (us_reserved_bytes s) (us_size_bytes s) d4 = Inr d5"
      "users d' = users d5" "upload_sessions d' = update_where (\<lambda>q. us_id q = us_id locked) ?g (upload_sessions d5)"
    have "session_by_id (us_id s) d' = Some (?g locked)"
      using assms(4) id q(1) quota_sessions(3)[OF q(2)]
      unfolding session_by_id_def q(4) by (simp add: find_update_by_key money_eq)
    moreover have b4: "balanced d4" using assms(1) balanced_money[OF q(1)] by simp
    moreover have "us_size_bytes s \<le> reserved_of d4 (us_user_id s)"
      using own_reservation(2)[OF b4, of locked] id q(1) snap by (simp add: money_eq)
    moreover have "reserved_of d4 = reserved_of d" "used_of d4 = used_of d"
      "reserved_of d' = reserved_of d5" "used_of d' = used_of d5"
      using q(1,3) by (simp_all add: money_eq fun_eq_iff reserved_of_def used_of_def user_by_id_def)
    moreover have "users_ok d4" using b4 by (simp add: balanced_def)
    ultimately show ?thesis using f cnt identity_quota.commit_law[OF _ _ _ _ q(2)] snap
      by (intro exI[of _ e] exI[of _ obj] exI[of _ "?g locked"]) simp
  qed
qed

section \<open>Sample requests\<close>

definition sample_home :: folder where
  "sample_home = \<lparr> fd_id = 2, fd_owner_id = 7, fd_parent_id = None, fd_name = lit ''/'',
     fd_name_normalized = lit ''/'', fd_deleted_at = None, fd_version = 1 \<rparr>"

definition sample_request :: create_input where
  "sample_request = \<lparr> ci_folder_id = 2, ci_filename = lit ''a'', ci_sha256 = sample_sha CHR ''a'',
     ci_size_bytes = 5, ci_mime_type = ''text/plain'', ci_idempotency_key = ''i'' \<rparr>"

definition sample_request_db :: "upload_status \<Rightarrow> db" where
  "sample_request_db st = (sample_uploads st 5 1)\<lparr>folders := [sample_home]\<rparr>"

lemma sample_request_db_balanced:
  "st \<in> set active_statuses \<Longrightarrow> balanced (sample_request_db st)"
  by (auto simp: sample_request_db_def sample_upload_defs balanced_def users_ok_def key_distinct_def user_check_def
      session_ok_def active_statuses_def reserved_of_def reservations_def user_by_id_def)

lemma sample_filename: "normalize_filename (lit ''a'') = Inr (lit ''a'', lit ''a'')"
  by (simp add: normalize_filename_def lit_def to_lower_def rune_lower_def trim_func_def trim_left_def
      trim_right_def is_space_def utf8_len_def utf8_width_def Let_def)

lemma sample_lower: "to_lower (lit ''a'') = lit ''a''"
  by (simp add: lit_def to_lower_def rune_lower_def)


lemma sample_name: "normalize_name (lit ''a'') = Inr (lit ''a'', lit ''a'')"
  by (simp add: normalize_name_def lit_def to_lower_def rune_lower_def trim_func_def trim_left_def
      trim_right_def is_space_def utf8_len_def utf8_width_def Let_def contains_any_def forbidden_runes_def)

definition sample_entry :: "uuid \<Rightarrow> file_entry" where
  "sample_entry i = \<lparr> fe_id = i, fe_owner_id = 7, fe_folder_id = 2, fe_object_id = 101, fe_name = lit ''a'',
     fe_name_normalized = lit ''a'', fe_deleted_at = None, fe_version = 1 \<rparr>"

definition sample_content :: "int \<Rightarrow> int \<Rightarrow> file_object" where
  "sample_content refs version = \<lparr> fo_id = 101, fo_sha256 = sample_sha CHR ''a'', fo_size_bytes = 5,
     fo_mime_type = ''text/plain'', fo_bucket = ''b'', fo_object_key = ''k'', fo_status = ObjectReady,
     fo_reference_count = refs, fo_version = version, fo_verified_at = Some 5, fo_deleted_at = None \<rparr>"

lemma sample_verify:
  "\<exists>d'. verify_commit sample_ctx (sample_session Verifying 5 1) (sample_sha CHR ''a'') 5 ''k''
     (sample_request_db Verifying) = Inr d'"
proof -
  let ?d = "sample_request_db Verifying" and ?s = "sample_session Verifying 5 1"
  let ?d1 = "?d\<lparr>file_objects := [sample_content 0 1]\<rparr>"
  let ?ep = "\<lparr>ep_owner_id = 7, ep_content_epoch = 2, ep_acl_epoch = 1\<rparr>"
  let ?d2 = "?d1\<lparr>file_entries := [sample_entry 102], owner_epochs := [?ep]\<rparr>"
  let ?d4 = "?d2\<lparr>file_objects := [sample_content 1 2]\<rparr>"
  let ?d5 = "?d4\<lparr>users := [(sample_account 0)\<lparr>u_used_logical_bytes := 7\<rparr>]\<rparr>"
  let ?d6 = "update_sessions (\<lambda>q. us_id q = us_id ?s)
     (\<lambda>q. q\<lparr>us_status := Completed, us_completed_object_id := Some 101,
            us_completed_entry_id := Some 102, us_reserved_bytes := 0\<rparr>) ?d5"
  have row: "session_by_id (us_id ?s) ?d = Some ?s" "us_status ?s = Verifying"
    "\<not> name_taken (us_user_id ?s) (us_folder_id ?s) (us_filename_normalized ?s) ?d"
    by (simp_all add: session_by_id_def sample_request_db_def sample_upload_defs name_taken_def)
  have o1: "create_or_get \<lparr> fo_id = cx_mint sample_ctx 1, fo_sha256 = sample_sha CHR ''a'', fo_size_bytes = 5,
          fo_mime_type = us_mime_type ?s, fo_bucket = us_bucket ?s, fo_object_key = ''k'',
          fo_status = ObjectReady, fo_reference_count = 0, fo_version = 1,
          fo_verified_at = Some (cx_now sample_ctx), fo_deleted_at = None \<rparr> ?d = Inr (sample_content 0 1, ?d1)"
    by (simp add: Let_def create_or_get_def sample_ctx_def sample_content_def sample_request_db_def
        sample_upload_defs exists_where_def)
  have o2: "create_file (cx_mint sample_ctx 2) (us_user_id ?s) (us_folder_id ?s) (fo_id (sample_content 0 1))
      (us_filename ?s) ?d1 = Inr (sample_entry 102, ?d2)"
    by (simp add: Let_def create_file_def sample_session_def sample_name attempt_def folder_of_def found_def
        owned_folder_def sample_home_def sample_request_db_def sample_uploads_def empty_db_def
        insert_entry_def exists_where_def on_error_def bump_content_def ensure_epoch_def epoch_row_def
        sample_entry_def sample_content_def sample_ctx_def)
  have o3: "current_epoch (us_user_id ?s) ?d2 = Inr (?ep, ?d2)"
    by (simp add: current_epoch_def ensure_epoch_def attempt_def epoch_row_def exists_where_def sample_session_def)
  have o4: "add_reference (fo_id (sample_content 0 1)) ?d2 = Inr ?d4" "object_by_id (fo_id (sample_content 0 1)) ?d4 =
      Some (sample_content 1 2)"
    by (simp_all add: Let_def add_reference_def sample_content_def update_objects_def object_by_id_def)
  have o5: "commit_quota (us_user_id ?s) (us_reserved_bytes ?s) (us_size_bytes ?s) ?d4 = Inr ?d5"
    by (simp add: commit_quota_def update_users_def attempt_def sample_request_db_def sample_upload_defs
        exists_where_def user_check_def)
  have ids: "cx_mint sample_ctx 3 \<noteq> 0" "cx_mint sample_ctx 4 \<noteq> 0" "cx_mint sample_ctx 3 \<noteq> cx_mint sample_ctx 4"
    "cx_now sample_ctx \<noteq> zero_time" by (simp_all add: sample_ctx_def zero_time_def)
  obtain d6 where d6: "add_typed sample_ctx 3 (typed_input event_file_created 102 1 ''core-api''
        (FileCreatedV1 7 102 101 2)) ?d6 = Inr d6"
    "\<forall>e \<in> set (outbox_events d6). e \<in> set (outbox_events ?d6) \<or> ev_id e = cx_mint sample_ctx 3"
    using add_typed_ok[of "FileCreatedV1 7 102 101 2" 102 1 "''core-api''" sample_ctx 3 ?d6] ids
    by (auto simp: require_uuid_def trim_func_fixed ascii_space_def update_sessions_def sample_request_db_def
        sample_uploads_def empty_db_def)
  obtain d7 where d7: "add_typed sample_ctx 4 (typed_input event_object_ready 101 2 ''core-api''
        (ObjectReadyV1 101 None)) d6 = Inr d7"
    using add_typed_ok[of "ObjectReadyV1 101 None" 101 2 "''core-api''" sample_ctx 4 d6] ids d6(2)
    by (auto simp: require_uuid_def trim_func_fixed ascii_space_def update_sessions_def sample_request_db_def
        sample_uploads_def empty_db_def)
  have f: "fe_id (sample_entry 102) = 102" "fe_version (sample_entry 102) = 1" "us_user_id ?s = 7"
    "fo_id (sample_content 1 2) = 101" "fo_version (sample_content 1 2) = 2"
    by (simp_all add: sample_entry_def sample_session_def sample_content_def)
  have st: "\<not> staged ?s" by (simp add: sample_session_def str_prefix_def)
  show ?thesis
    unfolding verify_commit_def row attempt_def found_def verify_link_def option.case sum.case o1 prod.case o2 o3 o4 o5
    using d6(1) d7 st row by (simp add: f o2[unfolded f] o3 enqueue_staging_delete_def)
qed

lemma verified_upload_is_filed_witness:
  "\<exists>d' e obj. e \<in> set (file_entries d') \<and> fe_owner_id e = 7 \<and>
    object_by_id (fe_object_id e) d' = Some obj \<and> fo_sha256 obj = sample_sha CHR ''a'' \<and> fo_reference_count obj = 1 \<and>
    used_of d' 7 = 7 \<and> reserved_of d' 7 = 0"
proof -
  let ?s = "sample_session Verifying 5 1" and ?d = "sample_request_db Verifying"
  obtain d' where v: "verify_commit sample_ctx ?s (sample_sha CHR ''a'') 5 ''k'' ?d = Inr d'"
    using sample_verify by blast
  have b: "balanced ?d" by (rule sample_request_db_balanced) (simp add: active_statuses_def)
  have row: "session_by_id (us_id ?s) ?d = Some ?s" "us_status ?s = Verifying"
    by (simp_all add: session_by_id_def sample_request_db_def sample_upload_defs)
  have "key_distinct fo_id (file_objects ?d)" by (simp add: sample_request_db_def sample_uploads_def empty_db_def)
  note f = verified_upload_is_filed[OF b snapshot_taken[OF b row] this row v]
  have u: "reserved_of ?d 7 = 5" "used_of ?d 7 = 2" "us_user_id ?s = 7" "us_size_bytes ?s = 5"
    by (simp_all add: reserved_of_def used_of_def user_by_id_def sample_request_db_def sample_upload_defs)
  have "object_by_id i ?d = None" for i by (simp add: object_by_id_def sample_request_db_def sample_uploads_def empty_db_def)
  then show ?thesis using f unfolding u by auto
qed

lemma sample_replay:
  "create env cx 7 sample_request (sample_request_db Created) =
     (Inr \<lparr> cr_mode = ''multipart'', cr_upload = Some (sample_session Created 5 1), cr_file = None \<rparr>,
      sample_request_db Created)"
proof -
  have r: "request_valid sample_request" "defaulted sample_request = sample_request"
    by (simp_all add: request_valid_def valid_sha256_def sample_request_def sample_sha_def defaulted_def list_all_iff)
  show ?thesis
    by (simp add: create_eq sample_filename r[unfolded sample_request_def] sample_request_def folder_of_def found_def
        owned_folder_def sample_request_db_def sample_upload_defs sample_home_def create_tx_def
        create_replay_def attempt_def finish_create_def)
qed

lemma create_retry_same_upload_witness:
  "\<exists>s'. session_by_id 1 (sample_request_db Created) = Some s' \<and>
     us_folder_id s' = ci_folder_id sample_request"
proof -
  have b: "balanced (sample_request_db Created)"
    by (rule sample_request_db_balanced) (simp add: active_statuses_def)
  have f: "folder_of 7 (ci_folder_id sample_request) (sample_request_db Created) = Inr sample_home"
    by (simp add: folder_of_def found_def owned_folder_def sample_request_def sample_request_db_def
        sample_uploads_def sample_home_def)
  obtain s' where "session_by_id (us_id (sample_session Created 5 1)) (sample_request_db Created) = Some s'"
    "session_fixed s' = session_fixed (sample_session Created 5 1)"
    using create_retry_same_upload[OF b sample_replay _ rtranclp.rtrancl_refl f] by (simp only: create_result.select_convs) blast
  then show ?thesis using session_fixedD(4)[of s' "sample_session Created 5 1"]
    by (auto simp: sample_session_def sample_request_def)
qed

definition sample_owned_db :: db where
  "sample_owned_db = empty_db\<lparr>users := [sample_account 0], folders := [sample_home],
     file_entries := [sample_entry 102], file_objects := [sample_content 1 2]\<rparr>"

lemma owned_content_rejected_witness:
  "\<forall>env. \<exists>e. create env sample_ctx 7 sample_request sample_owned_db = (Inl e, sample_owned_db)"
proof -
  have o': "find_owned 7 (ci_sha256 sample_request) (ci_size_bytes sample_request) sample_owned_db =
      Inr (sample_content 1 2)"
    by (simp add: find_owned_def found_def exists_where_def sample_owned_db_def sample_request_def
        sample_entry_def sample_content_def)
  have "\<forall>s \<in> set (upload_sessions sample_owned_db). request_key s \<noteq> (7, ci_idempotency_key sample_request)"
    by (simp add: sample_owned_db_def empty_db_def)
  from owned_content_rejected[OF o' this] show ?thesis by blast
qed

definition sample_lister :: "string \<Rightarrow> string \<Rightarrow> string \<Rightarrow> string \<Rightarrow> upload_listing result" where
  "sample_lister bucket key km um =
     (if km = [] then Inr \<lparr> ul_uploads = [(key, ''u1'', 3, None)], ul_truncated = True,
        ul_next_key_marker = ''m'', ul_next_upload_marker = ''n'' \<rparr>
      else Inr \<lparr> ul_uploads = [(key, ''u2'', 4, None)], ul_truncated = False,
        ul_next_key_marker = [], ul_next_upload_marker = [] \<rparr>)"

lemma list_uploads_returns_witness: "\<exists>r. list_uploads sample_lister ''b'' ''k'' [] [] [] = Some r"
  by (rule list_uploads_returns[where rank = "\<lambda>(km, um). if km = [] then 1 else 0"])
    (auto simp: sample_lister_def split: if_splits)

end
