(* ===== verification/Base64.thy ===== *)
theory Base64
  imports GoText
begin

text \<open>
  The parts of Go's \<open>encoding/base64\<close> and \<open>strings\<close> that tokens and share keys are made of:
  \<open>base64.RawURLEncoding\<close> (the URL alphabet without padding, decoding not strict about the
  unused bits and skipping line breaks) and \<open>strings.Split\<close> on a one-byte separator.  A byte
  string is a \<open>string\<close>, each character one byte.
\<close>

section \<open>Digits\<close>

definition b64_char :: "nat \<Rightarrow> char" where
  "b64_char n = char_of (if n < 26 then n + 65 else if n < 52 then n + 71
     else if n < 62 then n - 4 else if n = 62 then 45 else 95)"

definition b64_value :: "char \<Rightarrow> nat option" where
  "b64_value c = (let n = of_char c in
     if 65 \<le> n \<and> n \<le> 90 then Some (n - 65) else if 97 \<le> n \<and> n \<le> 122 then Some (n - 71)
     else if 48 \<le> n \<and> n \<le> 57 then Some (n + 4) else if n = 45 then Some 62
     else if n = 95 then Some 63 else None)"

lemma b64_value_char: "n < 64 \<Longrightarrow> b64_value (b64_char n) = Some n"
  by (auto simp: b64_value_def b64_char_def Let_def)

section \<open>Encoding and decoding\<close>

fun raw_encode :: "string \<Rightarrow> string" where
  "raw_encode [] = []"
| "raw_encode [a] = [b64_char (of_char a div 4), b64_char (of_char a mod 4 * 16)]"
| "raw_encode [a, b] = [b64_char (of_char a div 4),
     b64_char (of_char a mod 4 * 16 + of_char b div 16), b64_char (of_char b mod 16 * 4)]"
| "raw_encode (a # b # c # r) = b64_char (of_char a div 4) #
     b64_char (of_char a mod 4 * 16 + of_char b div 16) #
     b64_char (of_char b mod 16 * 4 + of_char c div 64) # b64_char (of_char c mod 64) # raw_encode r"

text \<open>Four digits are three bytes; a last group of two or three digits is one or two bytes, a
  last group of one digit is an error.\<close>

fun decode_digits :: "nat list \<Rightarrow> string option" where
  "decode_digits [] = Some []"
| "decode_digits [x] = None"
| "decode_digits [x, y] = Some [char_of (x * 4 + y div 16)]"
| "decode_digits [x, y, z] = Some [char_of (x * 4 + y div 16), char_of (y mod 16 * 16 + z div 4)]"
| "decode_digits (x # y # z # w # r) = map_option
     (\<lambda>t. char_of (x * 4 + y div 16) # char_of (y mod 16 * 16 + z div 4) #
          char_of (z mod 4 * 64 + w) # t) (decode_digits r)"

fun b64_values :: "string \<Rightarrow> nat list option" where
  "b64_values [] = Some []"
| "b64_values (c # s) = (case b64_value c of None \<Rightarrow> None
     | Some v \<Rightarrow> map_option (\<lambda>vs. v # vs) (b64_values s))"

definition raw_decode :: "string \<Rightarrow> string option" where
  "raw_decode s = (case b64_values (filter (\<lambda>c. c \<noteq> CHR 0x0A \<and> c \<noteq> CHR 0x0D) s) of
     None \<Rightarrow> None | Some ds \<Rightarrow> decode_digits ds)"

text \<open>The digits an encoding consists of.\<close>

fun raw_digits :: "string \<Rightarrow> nat list" where
  "raw_digits [] = []"
| "raw_digits [a] = [of_char a div 4, of_char a mod 4 * 16]"
| "raw_digits [a, b] = [of_char a div 4, of_char a mod 4 * 16 + of_char b div 16, of_char b mod 16 * 4]"
| "raw_digits (a # b # c # r) = of_char a div 4 # (of_char a mod 4 * 16 + of_char b div 16) #
     (of_char b mod 16 * 4 + of_char c div 64) # (of_char c mod 64) # raw_digits r"

lemma raw_encode_digits: "raw_encode s = map b64_char (raw_digits s)"
  by (induction s rule: raw_digits.induct) simp_all

lemma of_char_less: "(of_char c :: nat) < 256"
  by (rule nat_of_char_less_256)

lemma six_bits:
  fixes a b :: nat
  assumes "b < 256"
  shows "a mod 4 * 16 + b div 16 < 64" "a mod 16 * 4 + b div 64 < 64" "b div 4 < 64"
proof -
  have "b div 16 < 16" "a mod 4 < 4" "b div 64 < 4" "a mod 16 < 16" using assms by auto
  then show "a mod 4 * 16 + b div 16 < 64" "a mod 16 * 4 + b div 64 < 64" by linarith+
  show "b div 4 < 64" using assms by auto
qed

lemma raw_digits_small: "\<forall>n \<in> set (raw_digits s). n < 64"
proof (induction s rule: raw_digits.induct)
  case (2 a)
  have "of_char a div 4 < (64 :: nat)" by (rule six_bits(3)[OF of_char_less])
  then show ?case by simp
next
  case (3 a b)
  show ?case using six_bits(3)[OF of_char_less, of a] six_bits(1)[OF of_char_less, of "of_char a" b] by simp
next
  case (4 a b c r)
  have "of_char a div 4 < (64 :: nat)" by (rule six_bits(3)[OF of_char_less])
  then show ?case using 4 six_bits(1)[OF of_char_less, of "of_char a" b] six_bits(2)[OF of_char_less, of "of_char b" c] by simp
qed simp

lemma b64_values_digits: "\<forall>n \<in> set ds. n < 64 \<Longrightarrow> b64_values (map b64_char ds) = Some ds"
  by (induction ds) (simp_all add: b64_value_char)

text \<open>Cutting bytes into groups of six bits loses nothing.\<close>

lemma byte_parts:
  fixes a b c :: nat
  assumes "b < 256" "c < 256"
  shows "a div 4 * 4 + (a mod 4 * 16 + b div 16) div 16 = a"
    "(a mod 4 * 16 + b div 16) mod 16 * 16 + (b mod 16 * 4 + c div 64) div 4 = b"
    "(b mod 16 * 4 + c div 64) mod 4 * 64 + c mod 64 = c"
proof -
  have b: "b div 16 < 16" and c: "c div 64 < 4" using assms by auto
  from b have "(a mod 4 * 16 + b div 16) div 16 = a mod 4" by simp
  then show "a div 4 * 4 + (a mod 4 * 16 + b div 16) div 16 = a" by simp
  from b have "(a mod 4 * 16 + b div 16) mod 16 = b div 16" by simp
  moreover from c have "(b mod 16 * 4 + c div 64) div 4 = b mod 16" by simp
  ultimately show "(a mod 4 * 16 + b div 16) mod 16 * 16 + (b mod 16 * 4 + c div 64) div 4 = b" by simp
  from c have "(b mod 16 * 4 + c div 64) mod 4 = c div 64" by simp
  then show "(b mod 16 * 4 + c div 64) mod 4 * 64 + c mod 64 = c" by simp
qed

lemma decode_raw_digits: "decode_digits (raw_digits s) = Some s"
proof (induction s rule: raw_digits.induct)
  case (2 a)
  have "(of_char a :: nat) div 4 * 4 + of_char a mod 4 * 16 div 16 = of_char a" by simp
  then show ?case by simp
next
  case (3 a b)
  show ?case using byte_parts(1)[of "of_char b" 0 "of_char a"] byte_parts(2)[of "of_char b" 0 "of_char a"]
    by simp
next
  case (4 a b c r)
  then show ?case using byte_parts(1,2)[of "of_char b" "of_char c" "of_char a"]
      byte_parts(3)[of "of_char b" "of_char c"] of_char_less by simp
qed simp

section \<open>What the tokens rely on\<close>

lemma b64_char_plain: "n < 64 \<Longrightarrow> b64_char n \<notin> {CHR 0x0A, CHR 0x0D, CHR 0x2E}"
proof
  assume n: "n < 64" and m: "b64_char n \<in> {CHR 0x0A, CHR 0x0D, CHR 0x2E}"
  have "b64_value (b64_char n) = None" using m by (auto simp: b64_value_def)
  then show False using b64_value_char[OF n] by simp
qed

lemma raw_encode_plain: "set (raw_encode s) \<inter> {CHR 0x0A, CHR 0x0D, CHR 0x2E} = {}"
  using raw_digits_small[of s] b64_char_plain unfolding raw_encode_digits by (auto simp: image_iff) blast+

theorem raw_decode_encode: "raw_decode (raw_encode s) = Some s"
proof -
  have "filter (\<lambda>c. c \<noteq> CHR 0x0A \<and> c \<noteq> CHR 0x0D) (raw_encode s) = raw_encode s"
    using raw_encode_plain[of s] by (auto simp: filter_id_conv)
  then show ?thesis unfolding raw_decode_def
    by (simp add: raw_encode_digits b64_values_digits raw_digits_small decode_raw_digits)
qed

lemma raw_encode_inj: "raw_encode s = raw_encode t \<longleftrightarrow> s = t"
  by (metis option.inject raw_decode_encode)

lemma length_raw_encode: "length (raw_encode s) = (4 * length s + 2) div 3"
  by (induction s rule: raw_encode.induct) auto

section \<open>Splitting\<close>

fun split_at :: "char \<Rightarrow> string \<Rightarrow> string list" where
  "split_at c [] = [[]]"
| "split_at c (x # s) = (if x = c then [] # split_at c s
     else (case split_at c s of [] \<Rightarrow> [[x]] | p # ps \<Rightarrow> (x # p) # ps))"

lemma split_at_plain: "c \<notin> set s \<Longrightarrow> split_at c s = [s]"
  by (induction s) auto

lemma split_at_pair:
  "c \<notin> set a \<Longrightarrow> c \<notin> set b \<Longrightarrow> split_at c (a @ c # b) = [a, b]"
  by (induction a) (auto simp: split_at_plain)

lemma length_decimal_string: "n < 10 ^ Suc k \<Longrightarrow> length (decimal_string n) \<le> Suc k"
proof (induction k arbitrary: n)
  case (Suc k)
  show ?case
  proof (cases "n < 10")
    case False
    have "n div 10 < 10 ^ Suc k" using Suc.prems by (auto intro: less_mult_imp_div_less)
    then show ?thesis using Suc.IH[of "n div 10"] False by (subst decimal_string.simps) simp
  qed (simp add: decimal_string.simps)
qed (simp add: decimal_string.simps)

end
