(* ===== verification/Sharing.thy ===== *)
theory Sharing
  imports DrivePages Base64
begin

text \<open>
  Package \<open>sharing\<close>: links to a file that a secret key opens (\<open>service.go\<close>) and the owner's
  management of them (\<open>management.go\<close>).  A key or a page cursor is exchanged for a signed token; the
  HMAC under the service's secret and the JSON readers are parameters, base64 is that of
  \<open>Base64\<close>, and the claims of an access token are written as \<open>json.Marshal\<close> writes them.
\<close>

section \<open>Parameters and views\<close>

record share_env =
  sv_mac :: "string \<Rightarrow> string"
  sv_ttl :: time
  sv_read_claims :: "string \<Rightarrow> (uuid \<times> int) option"
  sv_write_cursor :: "uuid \<times> time \<times> uuid \<Rightarrow> string"
  sv_read_cursor :: "string \<Rightarrow> (uuid \<times> time \<times> uuid) option"

record share_view =
  vw_share :: share
  vw_file_name :: gotext
  vw_size_bytes :: int
  vw_mime_type :: string
  vw_available :: bool

definition lookup_error :: "go_error \<Rightarrow> go_error" where
  "lookup_error e = (if errors_is e GormRecordNotFound then SharingNotFound else e)"

abbreviation lookup :: "'a option \<Rightarrow> 'a result" where
  "lookup x \<equiv> on_error lookup_error (found GormRecordNotFound x)"

definition share_by_id :: "uuid \<Rightarrow> db \<Rightarrow> share option" where
  "share_by_id i d = find (\<lambda>s. sh_id s = i) (shares d)"

definition update_shares :: "uuid \<Rightarrow> (share \<Rightarrow> share) \<Rightarrow> db \<Rightarrow> db" where
  "update_shares i g d = d\<lparr>shares := update_where (\<lambda>s. sh_id s = i) g (shares d)\<rparr>"

definition owned_share :: "uuid \<Rightarrow> uuid \<Rightarrow> db \<Rightarrow> share option" where
  "owned_share owner i d = find (\<lambda>s. sh_id s = i \<and> sh_owner_id s = owner) (shares d)"

definition validate_share :: "time \<Rightarrow> share \<Rightarrow> go_error option" where
  "validate_share now s =
     (if sh_revoked_at s \<noteq> None \<or> (case sh_expires_at s of None \<Rightarrow> False | Some t \<Rightarrow> t \<le> now)
      then Some SharingNotFound else None)"

definition guard :: "go_error option \<Rightarrow> 'a result \<Rightarrow> 'a result" where
  "guard e r = (case e of Some x \<Rightarrow> Inl x | None \<Rightarrow> r)"

section \<open>Tokens\<close>

definition key_hash :: "share_env \<Rightarrow> string \<Rightarrow> string" where
  "key_hash env key = sv_mac env key"

definition access_claims :: "uuid \<Rightarrow> int \<Rightarrow> string" where
  "access_claims i u = [CHR 0x7B, CHR 0x22] @ ''share_id'' @ [CHR 0x22, CHR 0x3A, CHR 0x22] @
     uuid_string i @ [CHR 0x22, CHR 0x2C, CHR 0x22] @ ''expires_at'' @ [CHR 0x22, CHR 0x3A] @
     int_string u @ [CHR 0x7D]"

text \<open>The expiry is rounded up to whole seconds.\<close>

definition sign_access :: "share_env \<Rightarrow> uuid \<Rightarrow> time \<Rightarrow> string" where
  "sign_access env i expires =
     (let encoded = raw_encode (access_claims i ((expires + (second - 1)) div second))
      in encoded @ ''.'' @ raw_encode (sv_mac env encoded))"

definition verify_access :: "share_env \<Rightarrow> time \<Rightarrow> string \<Rightarrow> uuid result" where
  "verify_access env now raw =
     (case split_at (CHR ''.'') raw of
        [payload, signature] \<Rightarrow>
          (if raw_decode signature \<noteq> Some (sv_mac env payload) then Inl SharingNotFound
           else case Option.bind (raw_decode payload) (sv_read_claims env) of
             None \<Rightarrow> Inl SharingNotFound
           | Some (i, expires) \<Rightarrow> if expires \<le> now div second then Inl SharingNotFound else Inr i)
      | _ \<Rightarrow> Inl SharingNotFound)"

section \<open>Creating, listing and closing\<close>

definition lock_source :: "uuid \<Rightarrow> uuid \<Rightarrow> db \<Rightarrow> file_entry result" where
  "lock_source owner fid d =
     attempt (lookup (find (owned_entry owner fid) (file_entries d))) (\<lambda>e.
     if exists_where (\<lambda>o'. fo_id o' = fe_object_id e \<and> fo_status o' = ObjectReady) (file_objects d)
     then Inr e else Inl SharingNotFound)"

text \<open>\<open>random\<close> is what \<open>rand.Read\<close> filled the sixteen bytes with.\<close>

definition create_share ::
  "share_env \<Rightarrow> ctx \<Rightarrow> string result \<Rightarrow> uuid \<Rightarrow> uuid \<Rightarrow> time option \<Rightarrow> db \<Rightarrow> (share \<times> string \<times> db) result"
where
  "create_share env cx random owner fid expires d =
     (if (case expires of None \<Rightarrow> False | Some t \<Rightarrow> t \<le> cx_now cx) then Inl SharingInvalidInput
      else attempt random (\<lambda>raw.
        let key = raw_encode raw;
            s = \<lparr> sh_id = cx_mint cx 0, sh_owner_id = owner, sh_file_entry_id = fid,
                  sh_key_hash = key_hash env key, sh_expires_at = expires, sh_revoked_at = None,
                  sh_version = 1, sh_created_at = cx_now cx \<rparr>
        in attempt (lock_source owner fid d) (\<lambda>e.
           attempt (insert_share s d) (\<lambda>d1.
           attempt (bump_acl owner d1) (\<lambda>(ep, d2).
           attempt (add_typed cx 1 (typed_input event_share_created (sh_id s) (sh_version s) ''core-api''
             (ShareCreatedV1 owner (sh_id s) fid expires (ep_acl_epoch ep))) d2) (\<lambda>d3.
           Inr (s, key, d3)))))))"

text \<open>\<open>ORDER BY created_at DESC\<close>; rows of one instant keep their order.\<close>

definition list_shares :: "uuid \<Rightarrow> db \<Rightarrow> share list" where
  "list_shares owner d = sort_key (\<lambda>s. - sh_created_at s) (filter (\<lambda>s. sh_owner_id s = owner) (shares d))"

definition get_share :: "uuid \<Rightarrow> uuid \<Rightarrow> db \<Rightarrow> share result" where
  "get_share owner i d = lookup (owned_share owner i d)"

definition revoke_share :: "ctx \<Rightarrow> uuid \<Rightarrow> uuid \<Rightarrow> db \<Rightarrow> db result" where
  "revoke_share cx owner i d =
     attempt (lookup (owned_share owner i d)) (\<lambda>s.
     if sh_revoked_at s \<noteq> None then Inr d
     else attempt (bump_acl owner (update_shares (sh_id s) (\<lambda>q. q\<lparr>sh_revoked_at := Some (cx_now cx),
            sh_version := sh_version q + 1\<rparr>) d)) (\<lambda>(ep, d1).
          add_typed cx 0 (typed_input event_share_revoked (sh_id s) (sh_version s + 1) ''core-api''
            (ShareRevokedV1 owner (sh_id s) (cx_now cx) (ep_acl_epoch ep))) d1))"

definition update_expiry :: "ctx \<Rightarrow> uuid \<Rightarrow> uuid \<Rightarrow> int \<Rightarrow> time option \<Rightarrow> db \<Rightarrow> db result" where
  "update_expiry cx owner i version expires d =
     (if version < 1 \<or> (case expires of None \<Rightarrow> False | Some t \<Rightarrow> t \<le> cx_now cx) then Inl SharingInvalidInput
      else attempt (lookup (owned_share owner i d)) (\<lambda>s.
        if sh_revoked_at s \<noteq> None then Inl SharingNotFound
        else if sh_version s \<noteq> version then Inl SharingVersionConflict
        else attempt (lock_source owner (sh_file_entry_id s) d) (\<lambda>e.
        attempt (bump_acl owner (update_shares (sh_id s) (\<lambda>q. q\<lparr>sh_expires_at := expires,
            sh_version := sh_version q + 1\<rparr>) d)) (\<lambda>(ep, d1).
        add_typed cx 0 (typed_input event_share_updated (sh_id s) (sh_version s + 1) ''core-api''
          (ShareUpdatedV1 owner (sh_id s) expires (ep_acl_epoch ep))) d1))))"

section \<open>Opening a share\<close>

definition token_expiry :: "share_env \<Rightarrow> time \<Rightarrow> share \<Rightarrow> time" where
  "token_expiry env now s =
     (case sh_expires_at s of
        None \<Rightarrow> now + sv_ttl env
      | Some t \<Rightarrow> if t < now + sv_ttl env then t else now + sv_ttl env)"

definition resolve ::
  "share_env \<Rightarrow> time \<Rightarrow> string \<Rightarrow> db \<Rightarrow> (share \<times> file_view \<times> string \<times> time) result" where
  "resolve env now key d =
     (if length key \<noteq> 22 then Inl SharingNotFound
      else attempt (lookup (find (\<lambda>s. sh_key_hash s = key_hash env key) (shares d))) (\<lambda>s.
        guard (validate_share now s)
          (attempt (on_error (\<lambda>e. SharingNotFound) (load_file (sh_owner_id s) (sh_file_entry_id s) d)) (\<lambda>v.
           let expires = token_expiry env now s in Inr (s, v, sign_access env (sh_id s) expires, expires)))))"

definition access :: "share_env \<Rightarrow> time \<Rightarrow> string \<Rightarrow> db \<Rightarrow> (share \<times> file_view) result" where
  "access env now raw d =
     (if length raw = 0 \<or> 1024 < length raw then Inl SharingNotFound
      else attempt (on_error (\<lambda>e. SharingNotFound) (verify_access env now raw)) (\<lambda>i.
        attempt (lookup (share_by_id i d)) (\<lambda>s.
        guard (validate_share now s)
          (attempt (on_error (\<lambda>e. SharingNotFound) (load_file (sh_owner_id s) (sh_file_entry_id s) d)) (\<lambda>v.
           Inr (s, v))))))"

section \<open>Importing\<close>

text \<open>The transaction of \<open>Import\<close> for the share and object read before it; the lock on the key
  serialises the requests that repeat one another.\<close>

definition import_tx ::
  "ctx \<Rightarrow> uuid \<Rightarrow> uuid \<Rightarrow> uuid \<Rightarrow> string \<Rightarrow> share \<Rightarrow> file_object \<Rightarrow> db \<Rightarrow> (uuid \<times> db) result" where
  "import_tx cx user sid dest key s obj d =
     (case find (\<lambda>p. si_user_id p = user \<and> si_share_id p = sid \<and> si_idempotency_key p = key)
             (share_imports d) of
        Some prior \<Rightarrow> if si_target_folder_id prior \<noteq> dest then Inl SharingConflict
                      else Inr (si_imported_entry_id prior, d)
      | None \<Rightarrow>
          attempt (lookup (share_by_id sid d)) (\<lambda>current.
          guard (validate_share (cx_now cx) current)
            (attempt (lookup (find (owned_entry (sh_owner_id s) (sh_file_entry_id s)) (file_entries d))) (\<lambda>source.
             attempt (on_error (\<lambda>e. if errors_is e IdentityConflict then SharingQuotaExceeded else e)
                (add_logical_usage user (fo_size_bytes obj) d)) (\<lambda>d1.
             attempt (create_file (cx_mint cx 0) user dest (fo_id obj) (fe_name source) d1) (\<lambda>(e, d2).
             attempt (current_epoch user d2) (\<lambda>(ep, d3).
             attempt (add_reference (fo_id obj) d3) (\<lambda>d4.
             attempt (insert_import \<lparr> si_id = cx_mint cx 1, si_share_id = sh_id s, si_user_id = user,
                si_target_folder_id = dest, si_imported_entry_id = fe_id e, si_idempotency_key = key \<rparr> d4) (\<lambda>d5.
             attempt (add_typed cx 2 (typed_input event_share_imported (sh_id s) (sh_version s) ''core-api''
                (ShareImportedV1 user (sh_id s) (fe_id e) (fo_id obj) (ep_content_epoch ep))) d5) (\<lambda>d6.
             attempt (add_typed cx 3 (typed_input event_file_created (fe_id e) (fe_version e) ''core-api''
                (FileCreatedV1 user (fe_id e) (fo_id obj) (ep_content_epoch ep))) d6) (\<lambda>d7.
             Inr (fe_id e, d7))))))))))))"

text \<open>\<open>Import\<close>: the token is checked and the object read in the state \<open>d0\<close>, the transaction
  starts in \<open>d\<close>.\<close>

definition import_share ::
  "share_env \<Rightarrow> ctx \<Rightarrow> uuid \<Rightarrow> uuid \<Rightarrow> uuid \<Rightarrow> string \<Rightarrow> string \<Rightarrow> db \<Rightarrow> db \<Rightarrow> file_view result \<times> db" where
  "import_share env cx user sid dest key token d0 d =
     (let r = attempt (access env (cx_now cx) token d0) (\<lambda>(s, source).
          if sh_id s \<noteq> sid \<or> length key = 0 \<or> 128 < length key then Inl SharingNotFound
          else attempt (on_error (\<lambda>e. SharingNotFound) (folder_of user dest d0)) (\<lambda>f.
          attempt (on_error (\<lambda>e. SharingNotFound) (get_object (fe_object_id (fv_entry source)) d0)) (\<lambda>obj.
          import_tx cx user sid dest key s obj d)))
      in case r of Inl e \<Rightarrow> (Inl e, d) | Inr (eid, d') \<Rightarrow> (load_file user eid d', d'))"

section \<open>Management pages\<close>

definition share_view_of :: "db \<Rightarrow> share \<Rightarrow> share_view" where
  "share_view_of d s =
     (let e = find (\<lambda>e. fe_id e = sh_file_entry_id s \<and> fe_owner_id e = sh_owner_id s) (file_entries d);
          obj = Option.bind e (\<lambda>e. object_by_id (fe_object_id e) d)
      in \<lparr> vw_share = s, vw_file_name = (case e of None \<Rightarrow> [] | Some e \<Rightarrow> fe_name e),
           vw_size_bytes = (case obj of None \<Rightarrow> 0 | Some o' \<Rightarrow> fo_size_bytes o'),
           vw_mime_type = (case obj of None \<Rightarrow> [] | Some o' \<Rightarrow> fo_mime_type o'),
           vw_available = (case e of None \<Rightarrow> False | Some e \<Rightarrow> entry_live e \<and>
              (case obj of None \<Rightarrow> False | Some o' \<Rightarrow> fo_status o' = ObjectReady)) \<rparr>)"

definition get_view :: "uuid \<Rightarrow> uuid \<Rightarrow> db \<Rightarrow> share_view result" where
  "get_view owner i d = attempt (lookup (owned_share owner i d)) (\<lambda>s. Inr (share_view_of d s))"

text \<open>\<open>ORDER BY s.created_at DESC, s.id DESC\<close>.\<close>

definition share_before :: "share \<Rightarrow> share \<Rightarrow> bool" where
  "share_before s t \<longleftrightarrow> sh_created_at t < sh_created_at s \<or>
     (sh_created_at s = sh_created_at t \<and> sh_id t < sh_id s)"

definition ordered_shares :: "uuid \<Rightarrow> db \<Rightarrow> share list" where
  "ordered_shares owner d = order_by share_before (filter (\<lambda>s. sh_owner_id s = owner) (shares d))"

definition sign_cursor :: "share_env \<Rightarrow> uuid \<times> time \<times> uuid \<Rightarrow> string" where
  "sign_cursor env c = (let payload = raw_encode (sv_write_cursor env c)
     in payload @ ''.'' @ raw_encode (sv_mac env (''share-page:'' @ payload)))"

definition read_cursor :: "share_env \<Rightarrow> uuid \<Rightarrow> string \<Rightarrow> (time \<times> uuid) result" where
  "read_cursor env owner cursor =
     (case split_at (CHR ''.'') cursor of
        [payload, signature] \<Rightarrow>
          (if 1024 < length cursor \<or> raw_decode signature \<noteq> Some (sv_mac env (''share-page:'' @ payload))
           then Inl SharingInvalidInput
           else case Option.bind (raw_decode payload) (sv_read_cursor env) of
             None \<Rightarrow> Inl SharingInvalidInput
           | Some (o', created, i) \<Rightarrow>
               if o' \<noteq> owner \<or> i = 0 \<or> created = zero_time then Inl SharingInvalidInput
               else Inr (created, i))
      | _ \<Rightarrow> Inl SharingInvalidInput)"

definition list_page ::
  "share_env \<Rightarrow> uuid \<Rightarrow> string \<Rightarrow> int \<Rightarrow> db \<Rightarrow> (share_view list \<times> string) result" where
  "list_page env owner cursor limit d =
     (if limit < 1 \<or> limit > 100 then Inl SharingInvalidInput
      else attempt (if cursor = [] then Inr (ordered_shares owner d)
             else attempt (read_cursor env owner cursor) (\<lambda>(created, i).
               Inr (filter (\<lambda>s. sh_created_at s < created \<or> (sh_created_at s = created \<and> sh_id s < i))
                      (ordered_shares owner d)))) (\<lambda>rows.
        let views = map (share_view_of d) (take (nat limit + 1) rows) in
        if nat limit < length views
        then let shown = take (nat limit) views; l = vw_share (last shown)
             in Inr (shown, sign_cursor env (owner, sh_created_at l, sh_id l))
        else Inr (views, [])))"

end
