(* ===== verification/SharingFlow.thy ===== *)
theory SharingFlow
  imports Sharing
begin

text \<open>
  What sharing promises: a key opens its share until it expires or is revoked, a revoked share stays
  closed, a stale version never overwrites an expiry, a repeated import files one entry, and the
  pages of an owner's shares list each share once.
\<close>

section \<open>What the operations write\<close>

lemma guard_eq_Inr_iff [simp]: "guard e r = Inr x \<longleftrightarrow> e = None \<and> r = Inr x"
  by (cases e) (simp_all add: guard_def)

lemma lock_source_eq:
  "lock_source owner fid d = Inr e \<Longrightarrow> find (owned_entry owner fid) (file_entries d) = Some e \<and>
     (\<exists>o' \<in> set (file_objects d). fo_id o' = fe_object_id e \<and> fo_status o' = ObjectReady)"
  by (auto simp: lock_source_def tx_steps table_simps split: if_splits)

lemma create_share_steps:
  assumes "create_share env cx random owner fid expires d = Inr (s, key, d')"
  obtains raw e where "random = Inr raw" "key = raw_encode raw" "lock_source owner fid d = Inr e"
    "s = \<lparr> sh_id = cx_mint cx 0, sh_owner_id = owner, sh_file_entry_id = fid,
           sh_key_hash = key_hash env key, sh_expires_at = expires, sh_revoked_at = None,
           sh_version = 1, sh_created_at = cx_now cx \<rparr>"
    "\<forall>q \<in> set (shares d). sh_id q \<noteq> sh_id s \<and> sh_key_hash q \<noteq> sh_key_hash s"
    "business d' = business (d\<lparr>shares := shares d @ [s]\<rparr>)"
proof -
  note r = assms[unfolded create_share_def Let_def tx_steps]
  from r show thesis
  proof (elim exE conjE)
    fix raw e d1 ep d2 d3
    let ?s = "\<lparr> sh_id = cx_mint cx 0, sh_owner_id = owner, sh_file_entry_id = fid,
           sh_key_hash = key_hash env (raw_encode raw), sh_expires_at = expires, sh_revoked_at = None,
           sh_version = 1, sh_created_at = cx_now cx \<rparr>"
    assume a: "random = Inr raw" "lock_source owner fid d = Inr e" "insert_share ?s d = Inr d1"
      "bump_acl owner d1 = Inr (ep, d2)"
      "add_typed cx 1 (typed_input event_share_created (sh_id ?s) (sh_version ?s) ''core-api''
             (ShareCreatedV1 owner (sh_id ?s) fid expires (ep_acl_epoch ep))) d2 = Inr d3"
      "Inr (?s, raw_encode raw, d3) = Inr (s, key, d')"
    have "d1 = d\<lparr>shares := shares d @ [?s]\<rparr> \<and>
        (\<forall>q \<in> set (shares d). sh_id q \<noteq> sh_id ?s \<and> sh_key_hash q \<noteq> sh_key_hash ?s)"
      using a(3) by (auto simp: insert_share_def table_simps split: if_splits)
    moreover have "business d3 = business d1"
      using add_typed_frame[OF a(5)] bump_frame(2)[OF a(4)] by simp
    ultimately show thesis using a(1,2,6) by (intro that[of raw e]) auto
  qed
qed

lemma owned_share_mem: "owned_share owner i d = Some s \<Longrightarrow> s \<in> set (shares d) \<and> sh_id s = i \<and> sh_owner_id s = owner"
  unfolding owned_share_def by (drule find_SomeD) simp

lemma share_by_id_mem: "share_by_id i d = Some s \<Longrightarrow> s \<in> set (shares d) \<and> sh_id s = i"
  unfolding share_by_id_def by (drule find_SomeD) simp

lemma revoke_share_steps:
  assumes "revoke_share cx owner i d = Inr d'"
  shows "(\<exists>s. owned_share owner i d = Some s \<and> sh_revoked_at s \<noteq> None \<and> d' = d) \<or>
    (\<exists>s. owned_share owner i d = Some s \<and> sh_revoked_at s = None \<and>
       business d' = business (update_shares i (\<lambda>q. q\<lparr>sh_revoked_at := Some (cx_now cx),
            sh_version := sh_version q + 1\<rparr>) d))"
proof -
  obtain s where s: "owned_share owner i d = Some s"
    using assms by (auto simp: revoke_share_def tx_steps)
  then have i: "sh_id s = i" using owned_share_mem by blast
  show ?thesis
  proof (cases "sh_revoked_at s = None")
    case True
    note r = assms[unfolded revoke_share_def s found_simps on_error_simps attempt_simps]
    from r True obtain ep d1 where "bump_acl owner (update_shares (sh_id s) (\<lambda>q. q\<lparr>sh_revoked_at := Some (cx_now cx),
            sh_version := sh_version q + 1\<rparr>) d) = Inr (ep, d1)" "business d' = business d1"
      by (auto simp: attempt_eq_Inr_iff dest!: add_typed_frame)
    then show ?thesis using s i True bump_frame(2) by fastforce
  qed (use assms s in \<open>auto simp: revoke_share_def\<close>)
qed

lemma update_expiry_steps:
  assumes "update_expiry cx owner i v expires d = Inr d'"
  shows "\<exists>s. owned_share owner i d = Some s \<and> sh_revoked_at s = None \<and> sh_version s = v \<and>
     business d' = business (update_shares i (\<lambda>q. q\<lparr>sh_expires_at := expires,
            sh_version := sh_version q + 1\<rparr>) d)"
proof -
  obtain s where s: "owned_share owner i d = Some s" "sh_revoked_at s = None" "sh_version s = v"
    using assms by (auto simp: update_expiry_def tx_steps split: if_splits)
  then have i: "sh_id s = i" using owned_share_mem by blast
  note r = assms[unfolded update_expiry_def s(1) found_simps on_error_simps attempt_simps]
  from r s obtain ep d1 where "bump_acl owner (update_shares (sh_id s) (\<lambda>q. q\<lparr>sh_expires_at := expires,
            sh_version := sh_version q + 1\<rparr>) d) = Inr (ep, d1)" "business d' = business d1"
    by (auto simp: attempt_eq_Inr_iff split: if_splits dest!: add_typed_frame)
  then show ?thesis using s i bump_frame(2) by fastforce
qed

lemma create_file_shares:
  assumes "create_file f owner fid oid name d = Inr (e, d')"
  shows "shares d' = shares d" "share_imports d' = share_imports d" "users d' = users d"
proof -
  note r = assms[unfolded create_file_def Let_def tx_steps]
  have "\<exists>d1. insert_entry e d = Inr d1 \<and> business d' = business d1"
    using r by (auto dest: bump_frame(1))
  then obtain d1 where "insert_entry e d = Inr d1" "business d' = business d1" by blast
  then show "shares d' = shares d" "share_imports d' = share_imports d" "users d' = users d"
    using insert_entry_eq[of e d d1] business_eqD(1,11,12)[of d' d1] by auto
qed

lemma add_reference_frame:
  "add_reference oid d = Inr d' \<Longrightarrow> shares d' = shares d \<and> share_imports d' = share_imports d \<and> users d' = users d"
  by (auto simp: add_reference_def update_objects_def Let_def split: if_splits)

text \<open>The transaction of a first import.\<close>

lemma import_tx_steps:
  assumes "import_tx cx user sid dest key s obj d = Inr (eid, d')"
    "\<forall>p \<in> set (share_imports d). \<not> (si_user_id p = user \<and> si_share_id p = sid \<and> si_idempotency_key p = key)"
  obtains current source e d1 d2 d4 where "share_by_id sid d = Some current" "validate_share (cx_now cx) current = None"
    "find (owned_entry (sh_owner_id s) (sh_file_entry_id s)) (file_entries d) = Some source"
    "add_logical_usage user (fo_size_bytes obj) d = Inr d1"
    "create_file (cx_mint cx 0) user dest (fo_id obj) (fe_name source) d1 = Inr (e, d2)" "eid = fe_id e"
    "file_objects d4 = file_objects d'" "file_entries d' = file_entries d2" "users d' = users d1"
    "\<exists>d3. business d3 = business d2 \<and> add_reference (fo_id obj) d3 = Inr d4"
    "shares d' = shares d" "share_imports d' = share_imports d @ [\<lparr> si_id = cx_mint cx 1, si_share_id = sh_id s,
       si_user_id = user, si_target_folder_id = dest, si_imported_entry_id = eid, si_idempotency_key = key \<rparr>]"
    "\<forall>q \<in> set (share_imports d). si_id q \<noteq> cx_mint cx 1"
proof -
  have n: "find (\<lambda>p. si_user_id p = user \<and> si_share_id p = sid \<and> si_idempotency_key p = key)
             (share_imports d) = None" using assms(2) by (auto simp: find_None_iff)
  note r = assms(1)[unfolded import_tx_def n option.case tx_steps guard_eq_Inr_iff]
  from r show thesis
  proof (elim exE conjE)
    fix current :: share and source e :: file_entry and d1 d2 d3 d4 d5 d6 d7 and ep :: owner_epoch
    let ?row = "\<lparr> si_id = cx_mint cx 1, si_share_id = sh_id s, si_user_id = user,
                si_target_folder_id = dest, si_imported_entry_id = fe_id e, si_idempotency_key = key \<rparr>"
    assume a: "found GormRecordNotFound (share_by_id sid d) = Inr current" "validate_share (cx_now cx) current = None"
      "found GormRecordNotFound (find (owned_entry (sh_owner_id s) (sh_file_entry_id s)) (file_entries d)) = Inr source"
      "add_logical_usage user (fo_size_bytes obj) d = Inr d1"
      "create_file (cx_mint cx 0) user dest (fo_id obj) (fe_name source) d1 = Inr (e, d2)"
      "current_epoch user d2 = Inr (ep, d3)" "add_reference (fo_id obj) d3 = Inr d4" "insert_import ?row d4 = Inr d5"
      "add_typed cx 2 (typed_input event_share_imported (sh_id s) (sh_version s) ''core-api''
                (ShareImportedV1 user (sh_id s) (fe_id e) (fo_id obj) (ep_content_epoch ep))) d5 = Inr d6"
      "add_typed cx 3 (typed_input event_file_created (fe_id e) (fe_version e) ''core-api''
                (FileCreatedV1 user (fe_id e) (fo_id obj) (ep_content_epoch ep))) d6 = Inr d7"
      "Inr (fe_id e, d7) = Inr (eid, d')"
    have b: "business d' = business d5" using add_typed_frame[OF a(9)] add_typed_frame[OF a(10)] a(11) by simp
    have i: "d5 = d4\<lparr>share_imports := share_imports d4 @ [?row]\<rparr>" "\<forall>q \<in> set (share_imports d4). si_id q \<noteq> cx_mint cx 1"
      using a(8) by (auto simp: insert_import_def table_simps split: if_splits)
    have l: "shares d1 = shares d" "share_imports d1 = share_imports d" using a(4) by (auto simp: add_logical_usage_def)
    note e = bump_frame(3)[OF a(6)]
    have f: "shares d4 = shares d" "share_imports d4 = share_imports d" "users d4 = users d1" "file_entries d4 = file_entries d2"
      using add_reference_frame[OF a(7)] business_eqD(1,4,11,12)[OF e] create_file_shares[OF a(5)] l
        a(7) by (auto simp: add_reference_def update_objects_def Let_def split: if_splits)
    show thesis
      by (rule that[of current source d1 e d2 d4])
        (use a(1-5,7,11) e business_eqD(1,4,5,11,12)[OF b] i f in auto)
  qed
qed

section \<open>How a share evolves\<close>

text \<open>The committed transactions of the package, and whatever other packages commit.\<close>

inductive share_step :: "db \<Rightarrow> db \<Rightarrow> bool" where
  created: "create_share env cx random owner fid expires d = Inr (s, key, d') \<Longrightarrow> share_step d d'"
| revoked: "revoke_share cx owner i d = Inr d' \<Longrightarrow> share_step d d'"
| updated: "update_expiry cx owner i v expires d = Inr d' \<Longrightarrow> share_step d d'"
| imported: "import_tx cx user sid dest key s obj d = Inr (eid, d') \<Longrightarrow> share_step d d'"
| elsewhere: "shares d' = shares d \<Longrightarrow> share_imports d' = share_imports d \<Longrightarrow> share_step d d'"

definition shares_ok :: "db \<Rightarrow> bool" where
  "shares_ok d \<longleftrightarrow> key_distinct sh_id (shares d) \<and> key_distinct sh_key_hash (shares d)"

text \<open>A share keeps its identity; every change raises the version and needs a share that is not
  revoked.\<close>

definition share_evolves :: "share \<Rightarrow> share \<Rightarrow> bool" where
  "share_evolves s s' \<longleftrightarrow> sh_id s' = sh_id s \<and> sh_owner_id s' = sh_owner_id s \<and>
     sh_file_entry_id s' = sh_file_entry_id s \<and> sh_key_hash s' = sh_key_hash s \<and>
     (s' = s \<or> sh_version s < sh_version s' \<and> sh_revoked_at s = None)"

lemma share_evolves_refl [simp]: "share_evolves s s"
  by (simp add: share_evolves_def)

lemma share_evolves_trans: "share_evolves a b \<Longrightarrow> share_evolves b c \<Longrightarrow> share_evolves a c"
  by (auto simp: share_evolves_def)

definition shares_evolve :: "db \<Rightarrow> db \<Rightarrow> bool" where
  "shares_evolve d d' \<longleftrightarrow> (shares_ok d \<longrightarrow> shares_ok d' \<and>
     (\<forall>i s. share_by_id i d = Some s \<longrightarrow> (\<exists>s'. share_by_id i d' = Some s' \<and> share_evolves s s')))"

lemma shares_evolve_trans: "shares_evolve a b \<Longrightarrow> shares_evolve b c \<Longrightarrow> shares_evolve a c"
  unfolding shares_evolve_def by (meson share_evolves_trans)

lemma shares_evolve_same: "shares d' = shares d \<Longrightarrow> shares_evolve d d'"
  by (auto simp: shares_evolve_def shares_ok_def share_by_id_def)

lemma shares_evolve_update:
  assumes "shares d' = update_where (\<lambda>q. sh_id q = i) g (shares d)"
    "owned_share owner i d = Some s" "sh_revoked_at s = None"
    "\<And>q. sh_id (g q) = sh_id q \<and> sh_owner_id (g q) = sh_owner_id q \<and>
       sh_file_entry_id (g q) = sh_file_entry_id q \<and> sh_key_hash (g q) = sh_key_hash q \<and>
       sh_version (g q) = sh_version q + 1"
  shows "shares_evolve d d'"
  unfolding shares_evolve_def
proof (intro impI conjI allI)
  assume ok: "shares_ok d"
  show "shares_ok d'" using ok assms(1,4) unfolding shares_ok_def by (auto intro!: key_distinct_update)
  fix j q assume q: "share_by_id j d = Some q"
  have "share_by_id j d' = Some (if sh_id q = i then g q else q)"
    using q unfolding share_by_id_def assms(1) by (simp add: find_update_by_key assms(4))
  moreover have "sh_id q = i \<Longrightarrow> q = s"
    using key_unique[of sh_id "shares d" q s] ok owned_share_mem[OF assms(2)] share_by_id_mem[OF q]
    by (simp add: shares_ok_def)
  ultimately show "\<exists>s'. share_by_id j d' = Some s' \<and> share_evolves q s'"
    using assms(3,4) by (auto simp: share_evolves_def)
qed

lemma import_tx_frame:
  assumes "import_tx cx user sid dest key s obj d = Inr (eid, d')"
  shows "shares d' = shares d" "\<exists>rows. share_imports d' = share_imports d @ rows"
proof -
  have "shares d' = shares d \<and> (\<exists>rows. share_imports d' = share_imports d @ rows)"
  proof (cases "\<forall>p \<in> set (share_imports d). \<not> (si_user_id p = user \<and> si_share_id p = sid \<and> si_idempotency_key p = key)")
    case True
    show ?thesis by (rule import_tx_steps[OF assms True]) blast
  next
    case False
    then obtain p where "find (\<lambda>p. si_user_id p = user \<and> si_share_id p = sid \<and> si_idempotency_key p = key)
             (share_imports d) = Some p" by (cases "find (\<lambda>p. si_user_id p = user \<and> si_share_id p = sid \<and> si_idempotency_key p = key)
             (share_imports d)") (auto simp: find_None_iff)
    then show ?thesis using assms by (auto simp: import_tx_def split: if_splits)
  qed
  then show "shares d' = shares d" "\<exists>rows. share_imports d' = share_imports d @ rows" by blast+
qed

lemma create_share_evolve:
  assumes "create_share env cx random owner fid expires d = Inr (s, key, d')"
  shows "shares_evolve d d'"
proof (rule create_share_steps[OF assms])
  assume n: "\<forall>q \<in> set (shares d). sh_id q \<noteq> sh_id s \<and> sh_key_hash q \<noteq> sh_key_hash s"
    and b: "business d' = business (d\<lparr>shares := shares d @ [s]\<rparr>)"
  have sh: "shares d' = shares d @ [s]" using business_eqD(11)[OF b] by simp
  show "shares_evolve d d'" unfolding shares_evolve_def shares_ok_def share_by_id_def sh epoch_row_append
    using n by (auto intro!: key_distinct_append_new)
qed

lemma share_step_evolve: "share_step d d' \<Longrightarrow> shares_evolve d d'"
proof (induction rule: share_step.induct)
  case (revoked cx owner i d d')
  show ?case using revoke_share_steps[OF revoked]
  proof (elim disjE exE conjE)
    fix s :: share
    assume a: "owned_share owner i d = Some s" "sh_revoked_at s = None"
      and b: "business d' = business (update_shares i (\<lambda>q. q\<lparr>sh_revoked_at := Some (cx_now cx),
            sh_version := sh_version q + 1\<rparr>) d)"
    have "shares d' = update_where (\<lambda>q. sh_id q = i) (\<lambda>q. q\<lparr>sh_revoked_at := Some (cx_now cx),
            sh_version := sh_version q + 1\<rparr>) (shares d)" using business_eqD(11)[OF b] by (simp add: update_shares_def)
    from shares_evolve_update[OF this a] show ?thesis by simp
  qed (simp add: shares_evolve_same)
next
  case (updated cx owner i v expires d d')
  from update_expiry_steps[OF this] obtain s where a: "owned_share owner i d = Some s" "sh_revoked_at s = None"
      and b: "business d' = business (update_shares i (\<lambda>q. q\<lparr>sh_expires_at := expires,
            sh_version := sh_version q + 1\<rparr>) d)" by blast
  have "shares d' = update_where (\<lambda>q. sh_id q = i) (\<lambda>q. q\<lparr>sh_expires_at := expires,
            sh_version := sh_version q + 1\<rparr>) (shares d)" using business_eqD(11)[OF b] by (simp add: update_shares_def)
  from shares_evolve_update[OF this a] show ?case by simp
next
  case (created env cx random owner fid expires d s key d')
  then show ?case by (rule create_share_evolve)
qed (auto intro: shares_evolve_same dest: import_tx_frame(1))

lemma share_steps_evolve: "share_step\<^sup>*\<^sup>* d d' \<Longrightarrow> shares_evolve d d'"
proof (induction rule: rtranclp_induct)
  case (step e f)
  then show ?case using share_step_evolve shares_evolve_trans by blast
qed (simp add: shares_evolve_same)

lemma share_later:
  assumes "share_step\<^sup>*\<^sup>* d d'" "shares_ok d" "share_by_id i d = Some s"
  obtains s' where "share_by_id i d' = Some s'" "share_evolves s s'" "shares_ok d'"
    "\<And>q. q \<in> set (shares d') \<Longrightarrow> sh_id q = i \<Longrightarrow> q = s'"
proof -
  obtain s' where s: "share_by_id i d' = Some s'" "share_evolves s s'" "shares_ok d'"
    using share_steps_evolve[OF assms(1)] assms(2,3) unfolding shares_evolve_def by blast
  moreover have "q = s'" if "q \<in> set (shares d')" "sh_id q = i" for q
    using key_unique[of sh_id "shares d'" q s'] that share_by_id_mem[OF s(1)] s(3) by (simp add: shares_ok_def)
  ultimately show thesis using that by blast
qed

section \<open>Closing\<close>

lemma resolve_row:
  "resolve env now key d = Inr (s, r) \<Longrightarrow> s \<in> set (shares d) \<and> validate_share now s = None"
  unfolding resolve_def by (auto simp: tx_steps Let_def dest: find_SomeD)

lemma access_row:
  "access env now raw d = Inr (s, v) \<Longrightarrow> share_by_id (sh_id s) d = Some s \<and> validate_share now s = None \<and>
     load_file (sh_owner_id s) (sh_file_entry_id s) d = Inr v"
  unfolding access_def by (auto simp: tx_steps dest: share_by_id_mem)

lemma import_tx_closed:
  assumes "import_tx cx user sid dest key s obj d = Inr (eid, d')" "share_by_id sid d = Some current"
    "validate_share (cx_now cx) current \<noteq> None"
  shows "d' = d"
proof (cases "find (\<lambda>p. si_user_id p = user \<and> si_share_id p = sid \<and> si_idempotency_key p = key) (share_imports d)")
  case None
  then have "\<forall>p \<in> set (share_imports d). \<not> (si_user_id p = user \<and> si_share_id p = sid \<and> si_idempotency_key p = key)"
    by (auto simp: find_None_iff)
  then show ?thesis by (rule import_tx_steps[OF assms(1)]) (use assms(2,3) in auto)
next
  case (Some p)
  then show ?thesis using assms(1) by (auto simp: import_tx_def split: if_splits)
qed

text \<open>C24: A revoked share stays closed: whatever is committed afterwards, no key and no token opens
  it, its expiry cannot be changed and nothing new is imported from it.\<close>

theorem revoked_share_stays_closed:
  assumes "shares_ok d" "share_by_id i d = Some s" "sh_revoked_at s \<noteq> None" "share_step\<^sup>*\<^sup>* d d'"
  shows "(\<forall>now key q r. resolve env now key d' = Inr (q, r) \<longrightarrow> sh_id q \<noteq> i) \<and>
    (\<forall>now raw q v. access env now raw d' = Inr (q, v) \<longrightarrow> sh_id q \<noteq> i) \<and>
    (\<forall>cx owner v expires. \<exists>e. update_expiry cx owner i v expires d' = Inl e) \<and>
    (\<forall>cx user dest key q obj eid d''. import_tx cx user i dest key q obj d' = Inr (eid, d'') \<longrightarrow> d'' = d')"
proof -
  obtain s' where s: "share_by_id i d' = Some s'" "share_evolves s s'" "shares_ok d'"
    and u: "\<And>q. q \<in> set (shares d') \<Longrightarrow> sh_id q = i \<Longrightarrow> q = s'"
    using share_later[OF assms(4,1,2)] by blast
  have r: "sh_revoked_at s' \<noteq> None" using s(2) assms(3) by (auto simp: share_evolves_def)
  then have v: "validate_share now s' = Some SharingNotFound" for now by (simp add: validate_share_def)
  have "sh_id q \<noteq> i" if "resolve env now key d' = Inr (q, x)" for now key q x
    using resolve_row[OF that] u[of q] v[of now] by auto
  moreover have "sh_id q \<noteq> i" if "access env now raw d' = Inr (q, x)" for now raw q x
  proof -
    have "q \<in> set (shares d')" "validate_share now q = None"
      using access_row[OF that] share_by_id_mem by blast+
    then show ?thesis using u[of q] v[of now] by auto
  qed
  moreover have "\<exists>e. update_expiry cx owner i v expires d' = Inl e" for cx owner v expires
  proof (cases "update_expiry cx owner i v expires d'")
    case (Inr d'')
    from update_expiry_steps[OF this] obtain q where "owned_share owner i d' = Some q" "sh_revoked_at q = None"
      by blast
    then show ?thesis using owned_share_mem[of owner i d' q] u[of q] r by simp
  qed simp
  moreover have "d'' = d'" if t: "import_tx cx user i dest key q obj d' = Inr (eid, d'')"
    for cx user dest key q obj eid d''
    using import_tx_closed[OF t s(1)] v by simp
  ultimately show ?thesis by blast
qed

text \<open>Once an expiry has been changed from a version, no later change from that version
  succeeds, whoever makes it.\<close>

theorem stale_expiry_rejected:
  assumes "shares_ok d" "update_expiry cx owner i v expires d = Inr d1" "share_step\<^sup>*\<^sup>* d1 d2"
  shows "\<exists>e. update_expiry cx' owner' i v expires' d2 = Inl e"
proof -
  from update_expiry_steps[OF assms(2)] obtain s where s: "owned_share owner i d = Some s" "sh_version s = v"
      and b: "business d1 = business (update_shares i (\<lambda>q. q\<lparr>sh_expires_at := expires,
            sh_version := sh_version q + 1\<rparr>) d)" by blast
  have ok: "shares_ok d1"
    using share_step_evolve[OF share_step.updated[OF assms(2)]] assms(1) by (simp add: shares_evolve_def)
  have s0: "share_by_id i d = Some s"
    using owned_share_mem[OF s(1)] assms(1) find_by_key[of sh_id "shares d" i s]
    by (simp add: share_by_id_def shares_ok_def)
  then have s1: "share_by_id i d1 = Some (s\<lparr>sh_expires_at := expires, sh_version := sh_version s + 1\<rparr>)"
    using business_eqD(11)[OF b] share_by_id_mem[OF s0]
    by (simp add: share_by_id_def update_shares_def find_update_by_key)
  obtain s' where s': "share_by_id i d2 = Some s'" "share_evolves (s\<lparr>sh_expires_at := expires, sh_version := sh_version s + 1\<rparr>) s'"
    and u: "\<And>q. q \<in> set (shares d2) \<Longrightarrow> sh_id q = i \<Longrightarrow> q = s'"
    using share_later[OF assms(3) ok s1] by blast
  have gt: "v < sh_version s'" using s'(2) s(2) by (auto simp: share_evolves_def)
  show ?thesis
  proof (cases "update_expiry cx' owner' i v expires' d2")
    case (Inr d3)
    from update_expiry_steps[OF this] obtain q where "owned_share owner' i d2 = Some q" "sh_version q = v"
      by blast
    then show ?thesis using owned_share_mem[of owner' i d2 q] u[of q] gt by simp
  qed simp
qed

section \<open>Importing once\<close>

lemma find_append_Some: "find P xs = Some x \<Longrightarrow> find P (xs @ ys) = Some x"
  by (induction xs) (auto split: if_splits)

lemma prior_import_kept:
  assumes "share_step\<^sup>*\<^sup>* d d'" "find P (share_imports d) = Some p"
  shows "find P (share_imports d') = Some p"
  using assms(1)
proof (induction rule: rtranclp_induct)
  case (step e f)
  have "\<exists>rows. share_imports f = share_imports e @ rows" using step(2)
  proof (cases rule: share_step.cases)
    case (created env cx random owner fid expires s key)
    show ?thesis by (rule create_share_steps[OF created])
      (auto dest: business_eqD(12) intro!: exI[of _ "[]"])
  next
    case (revoked cx owner i)
    from revoke_share_steps[OF this] show ?thesis
      by (auto simp: update_shares_def dest: business_eqD(12) intro!: exI[of _ "[]"])
  next
    case (updated cx owner i v expires)
    from update_expiry_steps[OF this] show ?thesis
      by (auto simp: update_shares_def dest: business_eqD(12) intro!: exI[of _ "[]"])
  next
    case (imported cx user sid dest key s obj eid)
    then show ?thesis by (rule import_tx_frame(2))
  qed auto
  then show ?case using step.IH find_append_Some by metis
qed (rule assms(2))

lemma import_share_Inr:
  assumes "import_share env cx user sid dest key token d0 d = (r, d')"
  shows "(\<exists>e. r = Inl e) \<and> d' = d \<or>
    (\<exists>s obj eid. import_tx cx user sid dest key s obj d = Inr (eid, d') \<and> sh_id s = sid \<and>
       r = load_file user eid d')"
  using assms unfolding import_share_def Let_def
  by (auto simp: attempt_def split: sum.splits prod.splits if_splits)

lemma import_tx_prior:
  assumes "find (\<lambda>p. si_user_id p = user \<and> si_share_id p = sid \<and> si_idempotency_key p = key)
      (share_imports d) = Some p"
  shows "import_tx cx user sid dest key s obj d = (if si_target_folder_id p \<noteq> dest then Inl SharingConflict
     else Inr (si_imported_entry_id p, d))"
  using assms by (simp add: import_tx_def)

lemma import_tx_leaves_row:
  assumes "import_tx cx user sid dest key s obj d = Inr (eid, d')" "sh_id s = sid"
  obtains p where "find (\<lambda>p. si_user_id p = user \<and> si_share_id p = sid \<and> si_idempotency_key p = key)
      (share_imports d') = Some p" "si_target_folder_id p = dest" "si_imported_entry_id p = eid"
proof (cases "find (\<lambda>p. si_user_id p = user \<and> si_share_id p = sid \<and> si_idempotency_key p = key) (share_imports d)")
  case None
  let ?P = "\<lambda>p. si_user_id p = user \<and> si_share_id p = sid \<and> si_idempotency_key p = key"
  have "\<forall>p \<in> set (share_imports d). \<not> ?P p" using None by (auto simp: find_None_iff)
  then show thesis
    by (rule import_tx_steps[OF assms(1)]) (use None assms(2) in \<open>auto intro!: that simp: epoch_row_append\<close>)
next
  case (Some p)
  then show thesis using assms(1) by (intro that[of p]) (auto simp: import_tx_prior[OF Some] split: if_splits)
qed

text \<open>What a request must bring before the transaction: a token that opens the share, the share it names, an
  admissible key, a live target folder and content that can be read.\<close>

definition import_admitted :: "share_env \<Rightarrow> ctx \<Rightarrow> uuid \<Rightarrow> uuid \<Rightarrow> uuid \<Rightarrow> string \<Rightarrow> string \<Rightarrow> db \<Rightarrow> bool" where
  "import_admitted env cx user sid dest key token d \<longleftrightarrow> 0 < length key \<and> length key \<le> 128 \<and>
     (case access env (cx_now cx) token d of Inl e \<Rightarrow> False
      | Inr (s, source) \<Rightarrow> sh_id s = sid \<and> is_ok (folder_of user dest d) \<and> is_ok (get_object (fe_object_id (fv_entry source)) d))"

lemma import_admitted_runs:
  assumes "import_admitted env cx user sid dest key token d0"
  obtains s obj where "import_share env cx user sid dest key token d0 d =
    (case import_tx cx user sid dest key s obj d of Inl e \<Rightarrow> (Inl e, d) | Inr (eid, d') \<Rightarrow> (load_file user eid d', d'))"
proof -
  obtain s source where a: "access env (cx_now cx) token d0 = Inr (s, source)" "sh_id s = sid"
    "is_ok (folder_of user dest d0)" "is_ok (get_object (fe_object_id (fv_entry source)) d0)" "0 < length key" "length key \<le> 128"
    using assms by (auto simp: import_admitted_def split: sum.splits)
  obtain f where f: "folder_of user dest d0 = Inr f" using a(3) by (cases "folder_of user dest d0") auto
  obtain obj where o: "get_object (fe_object_id (fv_entry source)) d0 = Inr obj" using a(4)
    by (cases "get_object (fe_object_id (fv_entry source)) d0") auto
  show thesis by (rule that[of s obj]) (use a f o in \<open>simp add: import_share_def Let_def\<close>)
qed

text \<open>C25: An import request takes effect once.  Once it succeeded, a request of the same caller for the same share
  under the same key changes nothing in any later state, whatever happened to shares and imports in between.  If
  it is admitted and names the same folder, it is answered with the entry the first request filed, read afresh:
  it succeeds with that entry while the entry is live and its content ready; if it names another folder it is
  answered with \<open>SharingConflict\<close>; and it never succeeds with another folder or another entry.\<close>

theorem import_repeats_safely:
  assumes "import_share env cx user sid dest key token d0 d = (Inr v, d1)" "share_step\<^sup>*\<^sup>* d1 d2"
    "import_share env' cx' user sid dest' key token' d0' d2 = (r, d3)"
  shows "d3 = d2 \<and>
    (import_admitted env' cx' user sid dest' key token' d0' \<longrightarrow>
       (if dest' = dest then r = load_file user (fe_id (fv_entry v)) d2 else r = Inl SharingConflict)) \<and>
    (import_admitted env' cx' user sid dest' key token' d0' \<and> dest' = dest \<and>
       (\<exists>e. find (owned_entry user (fe_id (fv_entry v))) (file_entries d2) = Some e \<and> view_of d2 e \<noteq> None) \<longrightarrow>
         (\<exists>w. r = Inr w \<and> fe_id (fv_entry w) = fe_id (fv_entry v))) \<and>
    (\<forall>w. r = Inr w \<longrightarrow> dest' = dest \<and> fe_id (fv_entry w) = fe_id (fv_entry v))"
proof -
  obtain s obj eid where t: "import_tx cx user sid dest key s obj d = Inr (eid, d1)" "sh_id s = sid"
    "load_file user eid d1 = Inr v" using import_share_Inr[OF assms(1)] by auto
  obtain p where p: "find (\<lambda>p. si_user_id p = user \<and> si_share_id p = sid \<and> si_idempotency_key p = key)
      (share_imports d1) = Some p" "si_target_folder_id p = dest" "si_imported_entry_id p = eid"
    using import_tx_leaves_row[OF t(1,2)] by blast
  note later = import_tx_prior[OF prior_import_kept[OF assms(2) p(1)]]
  have id: "fe_id (fv_entry w) = eid" if "load_file user eid d' = Inr w" for d' w
    using that by (auto simp: load_file_def owned_entry_def split: option.splits if_splits
        dest!: find_SomeD view_of_entry)
  have v: "fe_id (fv_entry v) = eid" "eid \<noteq> 0" using id[OF t(3)] t(3) by (auto simp: load_file_def)
  have safe: "d3 = d2 \<and> (\<forall>w. r = Inr w \<longrightarrow> dest' = dest \<and> fe_id (fv_entry w) = fe_id (fv_entry v))"
    using import_share_Inr[OF assms(3)]
  proof (elim disjE exE conjE)
    fix s' obj' eid'
    assume "import_tx cx' user sid dest' key s' obj' d2 = Inr (eid', d3)" "r = load_file user eid' d3"
    then show ?thesis using p(2,3) id[of d1 v] t(3) id[of d3]
      by (auto simp: later split: if_splits)
  qed auto
  have answer: "if dest' = dest then r = load_file user eid d2 else r = Inl SharingConflict"
    if "import_admitted env' cx' user sid dest' key token' d0'"
    using that
  proof (rule import_admitted_runs[where d = d2])
    fix s' obj'
    assume "import_share env' cx' user sid dest' key token' d0' d2 =
      (case import_tx cx' user sid dest' key s' obj' d2 of Inl e \<Rightarrow> (Inl e, d2) | Inr (eid, d') \<Rightarrow> (load_file user eid d', d'))"
    then show ?thesis using assms(3) p(2,3) by (auto simp: later)
  qed
  have live: "\<exists>w. load_file user eid d2 = Inr w"
    if "find (owned_entry user eid) (file_entries d2) = Some e" "view_of d2 e \<noteq> None" for e
    using that v(2) by (auto simp: load_file_def)
  show ?thesis unfolding v(1)
  proof (intro conjI impI)
    show "d3 = d2" using safe by simp
    show "\<forall>w. r = Inr w \<longrightarrow> dest' = dest \<and> fe_id (fv_entry w) = eid" using safe v(1) by simp
  next
    assume h: "import_admitted env' cx' user sid dest' key token' d0' \<and> dest' = dest \<and>
      (\<exists>e. find (owned_entry user eid) (file_entries d2) = Some e \<and> view_of d2 e \<noteq> None)"
    then have a: "import_admitted env' cx' user sid dest' key token' d0'" "dest' = dest" by blast+
    have "r = load_file user eid d2" using answer[OF a(1)] unfolding if_P[OF a(2)] .
    moreover obtain w where "load_file user eid d2 = Inr w" using h live by blast
    ultimately show "\<exists>w. r = Inr w \<and> fe_id (fv_entry w) = eid" using id by blast
  qed (rule answer)
qed

text \<open>C26: The first import of a share files one live entry of the shared content in the caller's
  folder, counts one reference more and charges the caller exactly its size.\<close>

theorem import_files_shared_content:
  assumes "import_tx cx user sid dest key s obj d = Inr (eid, d')"
    "\<forall>p \<in> set (share_imports d). \<not> (si_user_id p = user \<and> si_share_id p = sid \<and> si_idempotency_key p = key)"
    "users_ok d" "object_by_id (fo_id obj) d = Some obj" "fo_status obj = ObjectReady" "0 \<le> fo_size_bytes obj"
  shows "\<exists>e current. share_by_id sid d = Some current \<and> validate_share (cx_now cx) current = None \<and>
    file_entries d' = file_entries d @ [e] \<and> fe_id e = eid \<and> entry_live e \<and> fe_owner_id e = user \<and>
    fe_folder_id e = dest \<and> fe_object_id e = fo_id obj \<and>
    object_by_id (fo_id obj) d' = Some (obj\<lparr>fo_reference_count := fo_reference_count obj + 1,
      fo_version := fo_version obj + 1\<rparr>) \<and>
    used_of d' = (used_of d)(user := used_of d user + fo_size_bytes obj) \<and> reserved_of d' = reserved_of d"
proof (rule import_tx_steps[OF assms(1,2)])
  fix current :: share and source e :: file_entry and d1 d2 d4
  assume a: "share_by_id sid d = Some current" "validate_share (cx_now cx) current = None"
    "add_logical_usage user (fo_size_bytes obj) d = Inr d1"
    "create_file (cx_mint cx 0) user dest (fo_id obj) (fe_name source) d1 = Inr (e, d2)" "eid = fe_id e"
    "file_objects d4 = file_objects d'" "file_entries d' = file_entries d2" "users d' = users d1"
    "\<exists>d3. business d3 = business d2 \<and> add_reference (fo_id obj) d3 = Inr d4"
  obtain d3 where d3: "business d3 = business d2" "add_reference (fo_id obj) d3 = Inr d4" using a(9) by blast
  have q: "used_of d1 = (used_of d)(user := used_of d user + fo_size_bytes obj)" "reserved_of d1 = reserved_of d"
    using identity_quota.add_law[OF assms(3,6) a(3)] by blast+
  have q': "used_of d' = used_of d1" "reserved_of d' = reserved_of d1"
    using a(8) by (simp_all add: fun_eq_iff used_of_def reserved_of_def user_by_id_def)
  have l: "file_entries d1 = file_entries d" "file_objects d1 = file_objects d"
    using a(3) by (auto simp: add_logical_usage_def)
  note c = create_file_entry[OF a(4)]
  have "object_by_id (fo_id obj) d3 = Some obj"
    using assms(4) c l business_eqD(5)[OF d3(1)] by (simp add: object_by_id_def)
  from add_reference_object(1)[OF d3(2) this] have "object_by_id (fo_id obj) d' =
      Some (obj\<lparr>fo_reference_count := fo_reference_count obj + 1, fo_version := fo_version obj + 1\<rparr>)"
    using assms(5) a(6) by (simp add: object_by_id_def)
  then show ?thesis using a(1,2,5,7) c l q q' by (intro exI[of _ e] exI[of _ current]) simp
qed

section \<open>Opening with the key\<close>

lemma round_up_bound: "(n :: int) \<le> (n + (second - 1)) div second * second"
proof -
  have "n + (second - 1) = (n + (second - 1)) div second * second + (n + (second - 1)) mod second"
    by simp
  moreover have "(n + (second - 1)) mod second < second" by simp
  ultimately show ?thesis by linarith
qed

lemma verify_signed:
  assumes "let u = (expires + (second - 1)) div second in sv_read_claims env (access_claims i u) = Some (i, u)"
    "now < expires"
  shows "verify_access env now (sign_access env i expires) = Inr i"
proof -
  let ?u = "(expires + (second - 1)) div second" and ?p = "raw_encode (access_claims i ((expires + (second - 1)) div second))"
  have "CHR ''.'' \<notin> set (raw_encode x)" for x using raw_encode_plain[of x] by auto
  then have s: "split_at (CHR ''.'') (?p @ ''.'' @ raw_encode (sv_mac env ?p)) = [?p, raw_encode (sv_mac env ?p)]"
    by (simp add: split_at_pair)
  have "\<not> ?u \<le> now div second"
  proof
    assume "?u \<le> now div second"
    then have "?u * second \<le> now div second * second" by (intro mult_right_mono) simp_all
    moreover have "now div second * second \<le> now" by simp
    ultimately show False using round_up_bound[of expires] assms(2) by linarith
  qed
  then show ?thesis using assms(1) unfolding sign_access_def verify_access_def Let_def s
    by (simp add: raw_decode_encode)
qed

lemma length_sign_access:
  assumes "length (sv_mac env p) = 32" "p = raw_encode (access_claims i ((expires + (second - 1)) div second))"
    "0 \<le> expires" "expires < 10 ^ 28"
  shows "0 < length (sign_access env i expires)" "length (sign_access env i expires) \<le> 1024"
proof -
  let ?u = "(expires + (second - 1)) div second"
  have "0 \<le> ?u" "?u < 10 ^ 20" using assms(3,4) by (simp_all add: pos_imp_zdiv_nonneg_iff)
  then have "nat ?u < 10 ^ Suc 19" by (simp add: nat_less_iff)
  from length_decimal_string[OF this] have "length (int_string ?u) \<le> 20"
    using \<open>0 \<le> ?u\<close> by (simp add: int_string_def)
  then have "length (access_claims i ?u) \<le> 90" by (simp add: access_claims_def)
  then have "length p \<le> 121" unfolding assms(2) length_raw_encode by simp
  then show "0 < length (sign_access env i expires)" "length (sign_access env i expires) \<le> 1024"
    unfolding sign_access_def Let_def assms(2)[symmetric] by (simp_all add: length_raw_encode assms(1))
qed

text \<open>C27: The key handed out for a share opens it, in every later state in which the share is still
  valid and its file readable, and the token it is exchanged for opens the same share until the
  expiry it is handed out with.\<close>

theorem share_key_opens:
  assumes "create_share env cx (Inr raw) owner fid expires d = Inr (s, key, d1)" "length raw = 16" "shares_ok d"
    "share_step\<^sup>*\<^sup>* d1 d2" "share_by_id (sh_id s) d2 = Some q" "validate_share now q = None"
    "load_file owner fid d2 = Inr v" "t = token_expiry env now q" "0 \<le> t" "t < 10 ^ 28"
    "let u = (t + (second - 1)) div second in sv_read_claims env (access_claims (sh_id s) u) = Some (sh_id s, u)"
    "\<forall>p. length (sv_mac env p) = 32"
  shows "\<exists>token. resolve env now key d2 = Inr (q, v, token, t) \<and>
    (\<forall>later. now \<le> later \<longrightarrow> later < t \<longrightarrow> access env later token d2 = Inr (q, v))"
proof -
  obtain e where c: "key = raw_encode raw" "sh_owner_id s = owner" "sh_file_entry_id s = fid"
      "sh_key_hash s = key_hash env key" "shares d1 = shares d @ [s]" "\<forall>p \<in> set (shares d). sh_id p \<noteq> sh_id s"
    by (rule create_share_steps[OF assms(1)]) (auto dest: business_eqD(11))
  have ok: "shares_ok d1" using create_share_evolve[OF assms(1)] assms(3) by (simp add: shares_evolve_def)
  have "share_by_id (sh_id s) d1 = Some s"
    using c(5,6) by (auto simp: share_by_id_def epoch_row_append find_None_iff split: option.splits dest!: find_SomeD)
  then obtain q' where "share_by_id (sh_id s) d2 = Some q'" "share_evolves s q'" "shares_ok d2"
    using share_later[OF assms(4) ok] by blast
  then have q: "share_evolves s q" "shares_ok d2" using assms(5) by simp_all
  have mem: "q \<in> set (shares d2)" "sh_id q = sh_id s" using share_by_id_mem[OF assms(5)] by simp_all
  have own: "sh_owner_id q = owner" "sh_file_entry_id q = fid" "sh_key_hash q = key_hash env key"
    using q(1) c by (simp_all add: share_evolves_def)
  have f: "find (\<lambda>s. sh_key_hash s = key_hash env key) (shares d2) = Some q"
    using q(2) mem(1) own(3) find_by_key[of sh_key_hash "shares d2"] by (simp add: shares_ok_def)
  have "length key = 22" using c(1) assms(2) by (simp add: length_raw_encode)
  then have r: "resolve env now key d2 = Inr (q, v, sign_access env (sh_id s) t, t)"
    using f own assms(6,7,8) mem(2) by (simp add: resolve_def guard_def Let_def)
  have "access env later (sign_access env (sh_id s) t) d2 = Inr (q, v)" if l: "now \<le> later" "later < t" for later
  proof -
    have "validate_share later q = None"
      using assms(6) l unfolding assms(8) by (auto simp: validate_share_def token_expiry_def split: option.splits if_splits)
    then show ?thesis
      using verify_signed[OF assms(11) l(2)] length_sign_access[OF _ refl assms(9,10), of env "sh_id s"] assms(5,7,12) own
      by (simp add: access_def guard_def)
  qed
  then show ?thesis using r by blast
qed

section \<open>Management pages\<close>

text \<open>A client that follows the cursors to the end.\<close>

fun collect_shares ::
  "share_env \<Rightarrow> uuid \<Rightarrow> int \<Rightarrow> db \<Rightarrow> nat \<Rightarrow> string \<Rightarrow> share_view list result option" where
  "collect_shares env owner limit d 0 cursor = None"
| "collect_shares env owner limit d (Suc k) cursor =
     (case list_page env owner cursor limit d of
        Inl e \<Rightarrow> Some (Inl e)
      | Inr (views, next_cursor) \<Rightarrow>
          if next_cursor = [] then Some (Inr views)
          else (case collect_shares env owner limit d k next_cursor of
                  Some (Inr rest) \<Rightarrow> Some (Inr (views @ rest)) | r \<Rightarrow> r))"

lemma share_before_order:
  "\<not> share_before s s" "share_before s t \<Longrightarrow> share_before t u \<Longrightarrow> share_before s u"
  "sh_id s \<noteq> sh_id t \<Longrightarrow> \<not> share_before s t \<Longrightarrow> share_before t s"
  by (auto simp: share_before_def)

lemma sorted_ordered_shares:
  assumes "key_distinct sh_id xs"
  shows "sorted_wrt share_before (order_by share_before xs)"
  using assms
proof (induction xs)
  case (Cons x xs)
  have "sorted_wrt share_before (insert_ordered share_before x (order_by share_before xs))"
  proof (rule sorted_insert_ordered)
    show "share_before x y" if "y \<in> set (order_by share_before xs)" "\<not> share_before y x" for y
      using that Cons.prems share_before_order(3)[of y x] by (auto simp: set_order_by key_distinct_def image_iff)
  qed (use share_before_order(2) Cons in \<open>auto simp: key_distinct_def\<close>)
  then show ?case by (simp add: order_by_def)
qed (simp add: order_by_def)

text \<open>What the cursors of an owner's shares must satisfy to be read back.\<close>

definition cursors_ok :: "share_env \<Rightarrow> uuid \<Rightarrow> share \<Rightarrow> bool" where
  "cursors_ok env owner s \<longleftrightarrow> sh_id s \<noteq> 0 \<and> sh_created_at s \<noteq> zero_time \<and>
     length (sign_cursor env (owner, sh_created_at s, sh_id s)) \<le> 1024 \<and>
     sv_read_cursor env (sv_write_cursor env (owner, sh_created_at s, sh_id s)) =
       Some (owner, sh_created_at s, sh_id s)"

lemma read_signed_cursor:
  assumes "cursors_ok env owner s"
  shows "sign_cursor env (owner, sh_created_at s, sh_id s) \<noteq> []"
    "read_cursor env owner (sign_cursor env (owner, sh_created_at s, sh_id s)) = Inr (sh_created_at s, sh_id s)"
proof -
  let ?c = "(owner, sh_created_at s, sh_id s)"
  let ?p = "raw_encode (sv_write_cursor env (owner, sh_created_at s, sh_id s))"
  have "CHR ''.'' \<notin> set (raw_encode x)" for x using raw_encode_plain[of x] by auto
  then have "split_at (CHR ''.'') (?p @ ''.'' @ raw_encode (sv_mac env (''share-page:'' @ ?p))) =
      [?p, raw_encode (sv_mac env (''share-page:'' @ ?p))]" by (simp add: split_at_pair)
  moreover have "length (?p @ ''.'' @ raw_encode (sv_mac env (''share-page:'' @ ?p))) \<le> 1024"
    using assms by (simp add: cursors_ok_def sign_cursor_def Let_def)
  ultimately show "read_cursor env owner (sign_cursor env ?c) = Inr (sh_created_at s, sh_id s)"
    using assms unfolding read_cursor_def sign_cursor_def Let_def cursors_ok_def
    by (simp add: raw_decode_encode)
  show "sign_cursor env ?c \<noteq> []" by (simp add: sign_cursor_def Let_def)
qed

lemma list_page_at:
  assumes k: "key_distinct sh_id (shares d)" and c: "\<forall>s \<in> set (ordered_shares owner d). cursors_ok env owner s"
    and l: "1 \<le> limit" "limit \<le> 100"
    and at: "i = 0 \<and> cursor = [] \<or> (\<exists>j. i = Suc j \<and> j < length (ordered_shares owner d) \<and>
      cursor = sign_cursor env (owner, sh_created_at (ordered_shares owner d ! j), sh_id (ordered_shares owner d ! j)))"
  shows "list_page env owner cursor limit d =
    (let rows = drop i (ordered_shares owner d) in
     if nat limit < length rows
     then Inr (map (share_view_of d) (take (nat limit) rows),
       sign_cursor env (owner, sh_created_at (rows ! (nat limit - 1)), sh_id (rows ! (nat limit - 1))))
     else Inr (map (share_view_of d) rows, []))"
proof -
  let ?xs = "ordered_shares owner d"
  have so: "sorted_wrt share_before ?xs"
    unfolding ordered_shares_def by (rule sorted_ordered_shares) (rule key_distinct_filter[OF k])
  have "(if cursor = [] then Inr ?xs
       else attempt (read_cursor env owner cursor) (\<lambda>(created, i).
         Inr (filter (\<lambda>s. sh_created_at s < created \<or> (sh_created_at s = created \<and> sh_id s < i)) ?xs))) =
     (Inr (drop i ?xs) :: share list result)"
    using at
  proof (elim disjE exE conjE)
    fix j assume j: "i = Suc j" "j < length ?xs" "cursor = sign_cursor env (owner, sh_created_at (?xs ! j), sh_id (?xs ! j))"
    then have ok: "cursors_ok env owner (?xs ! j)" using c by simp
    have "filter (\<lambda>s. sh_created_at s < sh_created_at (?xs ! j) \<or>
        (sh_created_at s = sh_created_at (?xs ! j) \<and> sh_id s < sh_id (?xs ! j))) ?xs = drop (Suc j) ?xs"
      using filter_after[OF so share_before_order(1,2) j(2)] by (simp add: share_before_def eq_commute)
    then show ?thesis using read_signed_cursor[OF ok] j(1,3) by simp
  qed simp
  moreover have n: "\<not> (limit < 1 \<or> limit > 100)" "0 < nat limit" using l by auto
  moreover have "last (take (nat limit) (drop i ?xs)) = drop i ?xs ! (nat limit - 1)"
    if "nat limit < length (drop i ?xs)"
    using that n(2) by (subst last_conv_nth) auto
  moreover have "vw_share (share_view_of d s) = s" for s by (simp add: share_view_of_def Let_def)
  moreover have "last (map (share_view_of d) (take (nat limit) (drop i ?xs))) =
      share_view_of d (last (take (nat limit) (drop i ?xs)))" if "nat limit < length (drop i ?xs)"
    using that n(2) by (intro last_map) auto
  ultimately show ?thesis unfolding list_page_def Let_def
    by (simp add: take_map[symmetric] min_def)
qed

lemma collect_shares_from:
  assumes k: "key_distinct sh_id (shares d)" and c: "\<forall>s \<in> set (ordered_shares owner d). cursors_ok env owner s"
    and l: "1 \<le> limit" "limit \<le> 100"
  shows "length (ordered_shares owner d) - i < n \<Longrightarrow>
    i = 0 \<and> cursor = [] \<or> (\<exists>j. i = Suc j \<and> j < length (ordered_shares owner d) \<and>
      cursor = sign_cursor env (owner, sh_created_at (ordered_shares owner d ! j), sh_id (ordered_shares owner d ! j))) \<Longrightarrow>
    collect_shares env owner limit d n cursor = Some (Inr (map (share_view_of d) (drop i (ordered_shares owner d))))"
proof (induction n arbitrary: i cursor)
  case (Suc n)
  let ?xs = "ordered_shares owner d"
  note page = list_page_at[OF k c l Suc.prems(2), unfolded Let_def]
  show ?case
  proof (cases "nat limit < length (drop i ?xs)")
    case True
    let ?j = "i + nat limit - 1"
    have n: "0 < nat limit" "?j < length ?xs" "i + (nat limit - 1) = ?j" using l True by auto
    let ?cur = "sign_cursor env (owner, sh_created_at (?xs ! ?j), sh_id (?xs ! ?j))"
    have row: "drop i ?xs ! (nat limit - 1) = ?xs ! ?j" using True n by simp
    have "collect_shares env owner limit d n ?cur = Some (Inr (map (share_view_of d) (drop (i + nat limit) ?xs)))"
      by (rule Suc.IH) (use True n Suc.prems(1) in \<open>auto intro!: exI[of _ ?j]\<close>)
    moreover have "?cur \<noteq> []" using read_signed_cursor(1) c n(2) by simp
    moreover have "map (share_view_of d) (take (nat limit) (drop i ?xs)) @ map (share_view_of d) (drop (i + nat limit) ?xs) =
        map (share_view_of d) (drop i ?xs)"
      by (simp flip: map_append add: add.commute[of i] drop_drop[symmetric] del: drop_drop)
    ultimately show ?thesis using page True row by simp
  next
    case False
    then show ?thesis using page by simp
  qed
qed simp

text \<open>Following the cursors of an unchanged state lists every share of the owner exactly once,
  newest first, and ends.\<close>

theorem share_pages_complete:
  assumes "key_distinct sh_id (shares d)" "\<forall>s \<in> set (shares d). sh_owner_id s = owner \<longrightarrow> cursors_ok env owner s"
    "1 \<le> limit" "limit \<le> 100" "length (filter (\<lambda>s. sh_owner_id s = owner) (shares d)) < n"
  shows "\<exists>views. collect_shares env owner limit d n [] = Some (Inr views) \<and>
    mset (map vw_share views) = mset (filter (\<lambda>s. sh_owner_id s = owner) (shares d)) \<and>
    sorted_wrt share_before (map vw_share views)"
proof -
  let ?xs = "ordered_shares owner d"
  have m: "mset ?xs = mset (filter (\<lambda>s. sh_owner_id s = owner) (shares d))"
    by (simp add: ordered_shares_def mset_order_by)
  have "length ?xs < n" using assms(5) mset_eq_length[OF m] by simp
  moreover have "\<forall>s \<in> set ?xs. cursors_ok env owner s" using assms(2) by (auto simp: ordered_shares_def set_order_by)
  ultimately have "collect_shares env owner limit d n [] = Some (Inr (map (share_view_of d) ?xs))"
    using collect_shares_from[OF assms(1) _ assms(3,4), of owner env 0 n "[]"] by simp
  moreover have "map vw_share (map (share_view_of d) ?xs) = ?xs" by (simp add: share_view_of_def Let_def map_idI)
  moreover have "sorted_wrt share_before ?xs" unfolding ordered_shares_def
    by (rule sorted_ordered_shares) (rule key_distinct_filter[OF assms(1)])
  ultimately show ?thesis using m by metis
qed

section \<open>Sample shares\<close>

definition sample_share_env :: share_env where
  "sample_share_env = \<lparr> sv_mac = (\<lambda>p. replicate 32 CHR ''m''), sv_ttl = 60 * second,
     sv_read_claims = (\<lambda>t. if t = access_claims 1 60 then Some (1, 60) else if t = access_claims 100 61 then Some (100, 61) else None),
     sv_write_cursor = (\<lambda>(o', created, i). uuid_string i),
     sv_read_cursor = (\<lambda>t. if t = uuid_string 1 then Some (7, 5, 1) else if t = uuid_string 2 then Some (7, 5, 2) else None) \<rparr>"

definition sample_share :: "uuid \<Rightarrow> time option \<Rightarrow> share" where
  "sample_share i revoked = \<lparr> sh_id = i, sh_owner_id = 7, sh_file_entry_id = 4, sh_key_hash = uuid_string i,
     sh_expires_at = None, sh_revoked_at = revoked, sh_version = 1, sh_created_at = 5 \<rparr>"

definition shared_entry :: file_entry where
  "shared_entry = \<lparr> fe_id = 4, fe_owner_id = 7, fe_folder_id = 2, fe_object_id = 102, fe_name = lit ''a'',
     fe_name_normalized = lit ''a'', fe_deleted_at = None, fe_version = 1 \<rparr>"

definition shared_object :: file_object where
  "shared_object = \<lparr> fo_id = 102, fo_sha256 = sample_sha CHR ''a'', fo_size_bytes = 5, fo_mime_type = ''text/plain'',
     fo_bucket = ''b'', fo_object_key = ''k'', fo_status = ObjectReady, fo_reference_count = 1, fo_version = 1,
     fo_verified_at = None, fo_deleted_at = None \<rparr>"

definition sample_shares :: "share list \<Rightarrow> db" where
  "sample_shares ss = empty_db\<lparr>file_entries := [shared_entry], file_objects := [shared_object], shares := ss\<rparr>"

lemmas sample_share_defs = sample_shares_def sample_share_def shared_entry_def shared_object_def empty_db_def

lemma share_pages_complete_witness:
  "\<exists>views. collect_shares sample_share_env 7 1 (sample_shares [sample_share 1 None, sample_share 2 None]) 3 [] = Some (Inr views) \<and>
     mset (map vw_share views) = {#sample_share 1 None, sample_share 2 None#} \<and> sorted_wrt share_before (map vw_share views)"
proof -
  have "cursors_ok sample_share_env 7 s" if "s \<in> {sample_share 1 None, sample_share 2 None}" for s
    using that by (auto simp: cursors_ok_def sample_share_def sample_share_env_def zero_time_def sign_cursor_def
        Let_def length_raw_encode uuid_string_inj)
  then show ?thesis
    using share_pages_complete[of "sample_shares [sample_share 1 None, sample_share 2 None]" 7 sample_share_env 1 3]
    by (simp add: sample_share_defs key_distinct_def)
qed

lemma revoked_share_stays_closed_witness:
  "\<exists>e. update_expiry sample_ctx 7 1 2 None (sample_shares [sample_share 1 (Some 3)]) = Inl e"
  using revoked_share_stays_closed[of "sample_shares [sample_share 1 (Some 3)]" 1 "sample_share 1 (Some 3)"
      "sample_shares [sample_share 1 (Some 3)]"]
  by (simp add: sample_share_defs shares_ok_def key_distinct_def share_by_id_def)

lemmas sample_event = require_uuid_def trim_func_fixed ascii_space_def sample_ctx_def zero_time_def

lemma sample_load: "shares d = ss \<Longrightarrow> business d = business (sample_shares ss) \<Longrightarrow>
    load_file 7 4 d = Inr \<lparr> fv_entry = shared_entry, fv_size_bytes = 5, fv_mime_type = ''text/plain'',
      fv_sha256 = sample_sha CHR ''a'', fv_ai_status = None \<rparr>"
  using business_eqD(4,5,7)[of d "sample_shares ss"]
  by (simp add: load_file_def view_of_def owned_entry_def sample_share_defs)

lemma sample_source: "lock_source 7 4 (sample_shares ss) = Inr shared_entry"
  by (simp add: lock_source_def owned_entry_def sample_share_defs exists_where_def)

lemma sample_acl: "\<exists>ep d2. bump_acl 7 (sample_shares ss) = Inr (ep, d2) \<and> outbox_events d2 = []"
  by (simp add: bump_acl_def ensure_epoch_def Let_def sample_share_defs)

lemma sample_create:
  "\<exists>d1. create_share sample_share_env sample_ctx (Inr (replicate 16 CHR 0x00)) 7 4 None (sample_shares []) =
     Inr (\<lparr> sh_id = 100, sh_owner_id = 7, sh_file_entry_id = 4, sh_key_hash = replicate 32 CHR ''m'',
            sh_expires_at = None, sh_revoked_at = None, sh_version = 1, sh_created_at = 5 \<rparr>,
          raw_encode (replicate 16 CHR 0x00), d1)"
proof -
  let ?s = "\<lparr> sh_id = 100, sh_owner_id = 7, sh_file_entry_id = 4, sh_key_hash = replicate 32 CHR ''m'',
            sh_expires_at = None, sh_revoked_at = None, sh_version = 1, sh_created_at = 5 \<rparr>"
  obtain ep d2 where b: "bump_acl 7 (sample_shares [?s]) = Inr (ep, d2)" and e: "outbox_events d2 = []"
    using sample_acl by blast
  have "\<exists>d3. add_typed sample_ctx 1 (typed_input event_share_created 100 1 ''core-api''
        (ShareCreatedV1 7 100 4 None (ep_acl_epoch ep))) d2 = Inr d3"
    using add_typed_ok[of "ShareCreatedV1 7 100 4 None (ep_acl_epoch ep)" 100 1 "''core-api''" sample_ctx 1 d2] e
    by (auto simp: sample_event)
  moreover have "insert_share ?s (sample_shares []) = Inr (sample_shares [?s])"
    by (simp add: insert_share_def sample_shares_def empty_db_def exists_where_def)
  moreover have "cx_mint sample_ctx 0 = 100" "cx_now sample_ctx = 5" "key_hash sample_share_env k = replicate 32 CHR ''m''" for k
    by (simp_all add: sample_ctx_def key_hash_def sample_share_env_def)
  ultimately show ?thesis using b by (auto simp: create_share_def Let_def sample_source)
qed

lemma share_key_opens_witness:
  "\<exists>d1 v token. access sample_share_env 30 token d1 = Inr (\<lparr> sh_id = 100, sh_owner_id = 7, sh_file_entry_id = 4,
     sh_key_hash = replicate 32 CHR ''m'', sh_expires_at = None, sh_revoked_at = None, sh_version = 1,
     sh_created_at = 5 \<rparr>, v)"
proof -
  let ?s = "\<lparr> sh_id = 100, sh_owner_id = 7, sh_file_entry_id = 4, sh_key_hash = replicate 32 CHR ''m'',
            sh_expires_at = None, sh_revoked_at = None, sh_version = 1, sh_created_at = 5 \<rparr>"
  obtain d1 where c: "create_share sample_share_env sample_ctx (Inr (replicate 16 CHR 0x00)) 7 4 None (sample_shares []) =
     Inr (?s, raw_encode (replicate 16 CHR 0x00), d1)" using sample_create by blast
  have b: "business d1 = business (sample_shares [?s])"
    by (rule create_share_steps[OF c]) (simp add: sample_shares_def empty_db_def)
  have sh: "shares d1 = [?s]" using business_eqD(11)[OF b] by (simp add: sample_shares_def)
  have row: "share_by_id (sh_id ?s) d1 = Some ?s" by (simp add: share_by_id_def sh)
  have ok: "shares_ok (sample_shares [])" by (simp add: shares_ok_def sample_shares_def empty_db_def)
  have v: "validate_share 5 ?s = None" by (simp add: validate_share_def)
  have t: "(5 :: int) + 60 * second = token_expiry sample_share_env 5 ?s"
    by (simp add: token_expiry_def sample_share_env_def)
  have cl: "let u = (5 + 60 * second + (second - 1)) div second in
      sv_read_claims sample_share_env (access_claims (sh_id ?s) u) = Some (sh_id ?s, u)"
    by (simp add: Let_def sample_share_env_def access_claims_def uuid_string_inj)
  have m: "length (replicate 16 CHR 0x00) = 16" "\<forall>p. length (sv_mac sample_share_env p) = 32"
    "(0 :: int) \<le> 5 + 60 * second" "(5 :: int) + 60 * second < 10 ^ 28" "(5 :: int) \<le> 30" "(30 :: int) < 5 + 60 * second"
    by (simp_all add: sample_share_env_def)
  show ?thesis
    using share_key_opens[OF c _ ok rtranclp.rtrancl_refl row v sample_load[OF sh b] t _ _ cl] m by blast
qed

lemma stale_expiry_rejected_witness:
  "\<exists>d1 e. update_expiry sample_ctx 7 1 1 None (sample_shares [sample_share 1 None]) = Inr d1 \<and>
     update_expiry sample_ctx 7 1 1 (Some 9) d1 = Inl e"
proof -
  have u: "update_shares 1 (\<lambda>q. q\<lparr>sh_expires_at := None, sh_version := sh_version q + 1\<rparr>) (sample_shares [sample_share 1 None]) =
      sample_shares [sample_share 1 None\<lparr>sh_version := 2\<rparr>]"
    by (simp add: update_shares_def sample_share_defs)
  obtain ep d2 where b: "bump_acl 7 (sample_shares [sample_share 1 None\<lparr>sh_version := 2\<rparr>]) = Inr (ep, d2)"
    and e: "outbox_events d2 = []" using sample_acl by blast
  have "\<exists>d3. add_typed sample_ctx 0 (typed_input event_share_updated 1 2 ''core-api''
        (ShareUpdatedV1 7 1 None (ep_acl_epoch ep))) d2 = Inr d3"
    using add_typed_ok[of "ShareUpdatedV1 7 1 None (ep_acl_epoch ep)" 1 2 "''core-api''" sample_ctx 0 d2] e
    by (auto simp: sample_event)
  moreover have "owned_share 7 1 (sample_shares [sample_share 1 None]) = Some (sample_share 1 None)"
    "sh_id (sample_share 1 None) = 1" "sh_version (sample_share 1 None) = 1" "sh_revoked_at (sample_share 1 None) = None"
    "sh_file_entry_id (sample_share 1 None) = 4"
    by (simp_all add: owned_share_def sample_shares_def sample_share_def)
  ultimately obtain d1 where d1: "update_expiry sample_ctx 7 1 1 None (sample_shares [sample_share 1 None]) = Inr d1"
    using b by (auto simp: update_expiry_def sample_source u)
  have "shares_ok (sample_shares [sample_share 1 None])"
    by (simp add: shares_ok_def sample_shares_def empty_db_def key_distinct_def)
  from stale_expiry_rejected[OF this d1 rtranclp.rtrancl_refl] d1 show ?thesis by blast
qed

definition sample_importer :: user where
  "sample_importer = \<lparr> u_id = 8, u_username = lit ''u'', u_username_normalized = lit ''u'', u_email_normalized = None,
     u_password_hash = [], u_status = UserActive, u_quota_bytes = 10, u_used_logical_bytes = 2, u_reserved_bytes = 0 \<rparr>"

definition sample_target :: folder where
  "sample_target = \<lparr> fd_id = 9, fd_owner_id = 8, fd_parent_id = None, fd_name = lit ''/'',
     fd_name_normalized = lit ''/'', fd_deleted_at = None, fd_version = 1 \<rparr>"

definition sample_import_db :: db where
  "sample_import_db = (sample_shares [sample_share 1 None])\<lparr>users := [sample_importer], folders := [sample_target]\<rparr>"

lemmas sample_import_defs = sample_import_db_def sample_importer_def sample_target_def sample_share_defs

lemma normalize_a: "normalize_name (lit ''a'') = Inr (lit ''a'', lit ''a'')"
  by (simp add: normalize_name_def lit_def to_lower_def rune_lower_def trim_func_def trim_left_def
      trim_right_def Let_def is_space_def utf8_len_def utf8_width_def contains_any_def forbidden_runes_def)

lemma sample_import:
  "\<exists>d'. import_tx sample_ctx 8 1 9 ''i'' (sample_share 1 None) shared_object sample_import_db = Inr (100, d') \<and>
     (\<exists>v. load_file 8 100 d' = Inr v)"
proof -
  let ?u = "sample_importer\<lparr>u_used_logical_bytes := 7\<rparr>"
  let ?e = "shared_entry\<lparr>fe_id := 100, fe_owner_id := 8, fe_folder_id := 9\<rparr>"
  let ?d1 = "sample_import_db\<lparr>users := [?u]\<rparr>"
  let ?d2 = "?d1\<lparr>file_entries := [shared_entry, ?e], owner_epochs := [\<lparr> ep_owner_id = 8, ep_content_epoch = 2, ep_acl_epoch = 1 \<rparr>]\<rparr>"
  let ?d4 = "?d2\<lparr>file_objects := [shared_object\<lparr>fo_reference_count := 2, fo_version := 2\<rparr>]\<rparr>"
  let ?row = "\<lparr> si_id = 101, si_share_id = 1, si_user_id = 8, si_target_folder_id = 9,
     si_imported_entry_id = 100, si_idempotency_key = ''i'' \<rparr>"
  let ?d5 = "?d4\<lparr>share_imports := [?row]\<rparr>"
  have s1: "add_logical_usage 8 5 sample_import_db = Inr ?d1"
    by (simp add: add_logical_usage_def sample_import_defs user_check_def exists_where_def)
  have s2: "create_file 100 8 9 102 (lit ''a'') ?d1 = Inr (?e, ?d2)"
    by (simp add: create_file_def normalize_a folder_of_def owned_folder_def sample_import_defs insert_entry_def
        exists_where_def entries_collide_def bump_content_def ensure_epoch_def Let_def epoch_row_def)
  have s3: "current_epoch 8 ?d2 = Inr (\<lparr> ep_owner_id = 8, ep_content_epoch = 2, ep_acl_epoch = 1 \<rparr>, ?d2)"
    by (simp add: current_epoch_def ensure_epoch_def exists_where_def epoch_row_def)
  have s4: "add_reference 102 ?d2 = Inr ?d4"
    by (simp add: add_reference_def Let_def update_objects_def sample_import_defs)
  have s5: "insert_import ?row ?d4 = Inr ?d5"
    by (simp add: insert_import_def sample_import_defs exists_where_def)
  have ids: "cx_mint sample_ctx 2 \<noteq> 0" "cx_mint sample_ctx 3 \<noteq> 0" "cx_mint sample_ctx 2 \<noteq> cx_mint sample_ctx 3"
    "cx_now sample_ctx \<noteq> zero_time" by (simp_all add: sample_ctx_def zero_time_def)
  obtain d6 where d6: "add_typed sample_ctx 2 (typed_input event_share_imported 1 1 ''core-api''
        (ShareImportedV1 8 1 100 102 2)) ?d5 = Inr d6" "business d6 = business ?d5"
    "\<forall>e \<in> set (outbox_events d6). e \<in> set (outbox_events ?d5) \<or> ev_id e = cx_mint sample_ctx 2"
    using add_typed_ok[of "ShareImportedV1 8 1 100 102 2" 1 1 "''core-api''" sample_ctx 2 ?d5] ids
    by (auto simp: require_uuid_def trim_func_fixed ascii_space_def sample_import_defs)
  obtain d7 where d7: "add_typed sample_ctx 3 (typed_input event_file_created 100 1 ''core-api''
        (FileCreatedV1 8 100 102 2)) d6 = Inr d7" "business d7 = business d6"
    using add_typed_ok[of "FileCreatedV1 8 100 102 2" 100 1 "''core-api''" sample_ctx 3 d6] ids d6(3)
    by (auto simp: require_uuid_def trim_func_fixed ascii_space_def sample_import_defs)
  have "import_tx sample_ctx 8 1 9 ''i'' (sample_share 1 None) shared_object sample_import_db = Inr (100, d7)"
  proof -
    have "cx_mint sample_ctx 0 = 100" "cx_mint sample_ctx 1 = 101" "cx_now sample_ctx = 5" by (simp_all add: sample_ctx_def)
    moreover have "share_imports sample_import_db = []" "share_by_id 1 sample_import_db = Some (sample_share 1 None)"
      "find (owned_entry 7 4) (file_entries sample_import_db) = Some shared_entry"
      by (simp_all add: sample_import_defs share_by_id_def owned_entry_def)
    moreover have "validate_share t (sample_share 1 None) = None" for t by (simp add: validate_share_def sample_share_def)
    ultimately show ?thesis using s1 s2 s3 s4 s5 d6(1) d7(1)
      by (simp add: import_tx_def guard_def shared_object_def shared_entry_def sample_share_def)
  qed
  moreover have "\<exists>v. load_file 8 100 d7 = Inr v"
    using business_eqD(4,5,7)[OF d7(2)] business_eqD(4,5,7)[OF d6(2)]
    by (simp add: load_file_def owned_entry_def view_of_def shared_entry_def shared_object_def)
  ultimately show ?thesis by blast
qed

lemma import_files_shared_content_witness:
  "\<exists>d'. import_tx sample_ctx 8 1 9 ''i'' (sample_share 1 None) shared_object sample_import_db = Inr (100, d') \<and>
     used_of d' 8 = 7 \<and> length (file_entries d') = 2"
proof -
  obtain d' where i: "import_tx sample_ctx 8 1 9 ''i'' (sample_share 1 None) shared_object sample_import_db = Inr (100, d')"
    using sample_import by blast
  have a: "share_imports sample_import_db = []" "users_ok sample_import_db" "fo_status shared_object = ObjectReady"
    "0 \<le> fo_size_bytes shared_object"
    "object_by_id (fo_id shared_object) sample_import_db = Some shared_object"
    "used_of sample_import_db 8 = 2" "fo_size_bytes shared_object = 5" "length (file_entries sample_import_db) = 1"
    by (simp_all add: sample_import_defs users_ok_def user_check_def key_distinct_def object_by_id_def used_of_def user_by_id_def)
  have n: "\<forall>p \<in> set (share_imports sample_import_db). \<not> (si_user_id p = 8 \<and> si_share_id p = 1 \<and> si_idempotency_key p = ''i'')"
    by (simp add: a(1))
  from import_files_shared_content[OF i n a(2,5,3,4)] show ?thesis using i a(6-8) by auto
qed

lemma sample_access:
  "access sample_share_env 5 (sign_access sample_share_env 1 (60 * second)) sample_import_db =
     Inr (sample_share 1 None, \<lparr> fv_entry = shared_entry, fv_size_bytes = 5, fv_mime_type = ''text/plain'',
      fv_sha256 = sample_sha CHR ''a'', fv_ai_status = None \<rparr>)"
proof -
  have "verify_access sample_share_env 5 (sign_access sample_share_env 1 (60 * second)) = Inr 1"
    by (rule verify_signed) (simp_all add: sample_share_env_def)
  moreover have "0 < length (sign_access sample_share_env 1 (60 * second))"
    "length (sign_access sample_share_env 1 (60 * second)) \<le> 1024"
    by (rule length_sign_access[OF _ refl]; simp add: sample_share_env_def)+
  moreover have "load_file 7 4 sample_import_db = Inr \<lparr> fv_entry = shared_entry, fv_size_bytes = 5, fv_mime_type = ''text/plain'',
      fv_sha256 = sample_sha CHR ''a'', fv_ai_status = None \<rparr>"
    by (simp add: load_file_def view_of_def owned_entry_def sample_import_defs)
  moreover have "share_by_id 1 sample_import_db = Some (sample_share 1 None)"
    by (simp add: share_by_id_def sample_import_defs)
  moreover have "validate_share 5 (sample_share 1 None) = None" "sh_owner_id (sample_share 1 None) = 7"
    "sh_file_entry_id (sample_share 1 None) = 4" by (simp_all add: validate_share_def sample_share_def)
  ultimately show ?thesis by (simp add: access_def guard_def)
qed

lemma import_repeats_safely_witness:
  "\<exists>v d1. let token = sign_access sample_share_env 1 (60 * second) in
     import_share sample_share_env sample_ctx 8 1 9 ''i'' token sample_import_db sample_import_db = (Inr v, d1) \<and>
     import_share sample_share_env sample_ctx 8 1 9 ''i'' token sample_import_db d1 = (Inr v, d1)"
proof -
  let ?token = "sign_access sample_share_env 1 (60 * second)"
  obtain d' v where i: "import_tx sample_ctx 8 1 9 ''i'' (sample_share 1 None) shared_object sample_import_db = Inr (100, d')"
    "load_file 8 100 d' = Inr v" using sample_import by blast
  have known: "cx_now sample_ctx = 5" "sh_id (sample_share 1 None) = 1" "folder_of 8 9 sample_import_db = Inr sample_target"
    "get_object (fe_object_id shared_entry) sample_import_db = Inr shared_object"
    by (simp_all add: sample_ctx_def sample_import_defs folder_of_def owned_folder_def get_object_def)
  then have f: "import_share sample_share_env sample_ctx 8 1 9 ''i'' ?token sample_import_db sample_import_db = (Inr v, d')"
    using i sample_access by (simp add: import_share_def Let_def)
  have a: "import_admitted sample_share_env sample_ctx 8 1 9 ''i'' ?token sample_import_db"
    using known sample_access by (simp add: import_admitted_def)
  have id: "fe_id (fv_entry v) = 100"
    using i(2) by (auto simp: load_file_def owned_entry_def split: option.splits if_splits dest!: find_SomeD view_of_entry)
  obtain r d3 where g: "import_share sample_share_env sample_ctx 8 1 9 ''i'' ?token sample_import_db d' = (r, d3)" by fastforce
  have "d3 = d' \<and> r = load_file 8 (fe_id (fv_entry v)) d'"
    using import_repeats_safely[OF f rtranclp.rtrancl_refl g] a by simp
  then have "r = Inr v" "d3 = d'" using i(2) id by simp_all
  then show ?thesis using f g by (auto simp: Let_def)
qed

end
