(* ===== verification/Workflow.thy ===== *)
theory Workflow
  imports GoErrors
begin

text \<open>
  Package \<open>workflow\<close>: the durable state machine of a multi-step business action
  (\<open>workflow/service.go\<close>).  An instance runs named steps, each carried by a deduplicated command;
  a failed instance compensates its completed steps.  The three tables of migration 18 form the
  state; the CHECK constraints on the state columns make them datatypes.
\<close>

section \<open>Rows\<close>

datatype instance_state = WfPending | WfRunning | WfSucceeded | WfCompensating | WfFailed | WfManual

datatype step_state =
  StPending | StRunning | StSucceeded | StFailed | StCompensating | StCompensated | StManual

datatype compensation = NotRequired | CompensationPending | CompensationCompleted

datatype command_status = CmdPending | CmdSucceeded | CmdFailed

record wf_instance =
  wi_id :: uuid
  wi_type :: gotext
  wi_business_key :: gotext
  wi_state :: instance_state
  wi_deadline :: "time option"
  wi_version :: int
  wi_last_error :: "gotext option"

record wf_step =
  ws_workflow :: uuid
  ws_name :: gotext
  ws_command :: uuid
  ws_state :: step_state
  ws_attempt :: nat
  ws_compensation :: compensation
  ws_last_error :: "gotext option"
  ws_started_at :: "time option"
  ws_completed_at :: "time option"

record wf_command =
  wc_id :: uuid
  wc_owner :: gotext
  wc_hash :: gotext
  wc_result :: "gotext option"
  wc_status :: command_status

record wf_db =
  wf_instances :: "wf_instance list"
  wf_steps :: "wf_step list"
  wf_commands :: "wf_command list"

section \<open>Transitions\<close>

fun allowed_instance_transition :: "instance_state \<Rightarrow> instance_state \<Rightarrow> bool" where
  "allowed_instance_transition WfPending to = (to \<in> {WfRunning, WfFailed, WfManual})"
| "allowed_instance_transition WfRunning to =
     (to \<in> {WfRunning, WfSucceeded, WfCompensating, WfFailed, WfManual})"
| "allowed_instance_transition WfCompensating to = (to \<in> {WfFailed, WfManual})"
| "allowed_instance_transition WfFailed to = (to \<in> {WfCompensating, WfManual})"
| "allowed_instance_transition _ to = False"

fun allowed_step_transition :: "step_state \<Rightarrow> step_state \<Rightarrow> bool" where
  "allowed_step_transition StPending to = (to \<in> {StSucceeded, StFailed, StCompensating, StManual})"
| "allowed_step_transition StRunning to = (to \<in> {StSucceeded, StFailed, StCompensating, StManual})"
| "allowed_step_transition StCompensating to = (to \<in> {StCompensated, StFailed, StManual})"
| "allowed_step_transition StFailed to = (to \<in> {StRunning, StCompensating, StManual})"
| "allowed_step_transition _ to = False"

definition transition_instance ::
  "instance_state \<Rightarrow> gotext option \<Rightarrow> wf_instance \<Rightarrow> wf_db \<Rightarrow> (wf_instance \<times> wf_db) result" where
  "transition_instance to message i w =
     (if wi_state i = to then Inr (i, w)
      else if \<not> allowed_instance_transition (wi_state i) to then Inl WorkflowTransition
      else Inr (i\<lparr>wi_state := to, wi_version := wi_version i + 1\<rparr>,
        w\<lparr>wf_instances := update_where (\<lambda>q. wi_id q = wi_id i)
          (\<lambda>q. q\<lparr>wi_state := to, wi_version := wi_version q + 1,
                 wi_last_error := (case message of None \<Rightarrow> wi_last_error q | Some m \<Rightarrow> Some m)\<rparr>)
          (wf_instances w)\<rparr>))"

definition transition_step ::
  "time \<Rightarrow> step_state \<Rightarrow> gotext option \<Rightarrow> wf_step \<Rightarrow> wf_db \<Rightarrow> wf_db result" where
  "transition_step now to message s w =
     (if ws_state s = to then Inr w
      else if \<not> allowed_step_transition (ws_state s) to then Inl WorkflowTransition
      else Inr (w\<lparr>wf_steps := update_where (\<lambda>q. ws_workflow q = ws_workflow s \<and> ws_name q = ws_name s)
          (\<lambda>q. q\<lparr>ws_state := to,
                 ws_completed_at := (if to \<in> {StSucceeded, StCompensated} then Some now else ws_completed_at q),
                 ws_compensation := (if to = StCompensated then CompensationCompleted else ws_compensation q),
                 ws_last_error := (case message of None \<Rightarrow> ws_last_error q | Some m \<Rightarrow> Some m)\<rparr>)
          (wf_steps w)\<rparr>))"

section \<open>Operations\<close>

definition instance_by_id :: "uuid \<Rightarrow> wf_db \<Rightarrow> wf_instance option" where
  "instance_by_id i w = find (\<lambda>q. wi_id q = i) (wf_instances w)"

definition command_by_id :: "uuid \<Rightarrow> wf_db \<Rightarrow> wf_command option" where
  "command_by_id c w = find (\<lambda>q. wc_id q = c) (wf_commands w)"

definition step_by_command :: "uuid \<Rightarrow> wf_db \<Rightarrow> wf_step option" where
  "step_by_command c w = find (\<lambda>q. ws_command q = c) (wf_steps w)"

definition step_by_name :: "uuid \<Rightarrow> gotext \<Rightarrow> wf_db \<Rightarrow> wf_step option" where
  "step_by_name i n w = find (\<lambda>q. ws_workflow q = i \<and> ws_name q = n) (wf_steps w)"

abbreviation blank :: "gotext \<Rightarrow> bool" where "blank s \<equiv> trim_space s = []"

text \<open>\<open>Begin\<close>.  The struct that \<open>First\<close> reads into still carries the identifier of the insert that did
  nothing, and GORM adds a set primary key of its destination to the condition.\<close>

definition begin_workflow ::
  "uuid \<Rightarrow> gotext \<Rightarrow> gotext \<Rightarrow> time option \<Rightarrow> wf_db \<Rightarrow> (wf_instance \<times> wf_db) result" where
  "begin_workflow fresh ty key deadline w =
     (if blank ty \<or> blank key then Inl WorkflowInvalid
      else let i = \<lparr> wi_id = fresh, wi_type = ty, wi_business_key = key, wi_state = WfPending,
                     wi_deadline = deadline, wi_version = 1, wi_last_error = None \<rparr>
        in if exists_where (\<lambda>q. wi_business_key q = key) (wf_instances w)
           then attempt (found GormRecordNotFound
                  (find (\<lambda>q. wi_business_key q = key \<and> wi_id q = fresh) (wf_instances w))) (\<lambda>q.
                if wi_type q \<noteq> ty then Inl WorkflowConflict else Inr (q, w))
           else if exists_where (\<lambda>q. wi_id q = fresh) (wf_instances w) then Inl GormDuplicatedKey
           else Inr (i, w\<lparr>wf_instances := wf_instances w @ [i]\<rparr>))"

definition start_step ::
  "time \<Rightarrow> uuid \<Rightarrow> gotext \<Rightarrow> uuid \<Rightarrow> gotext \<Rightarrow> gotext \<Rightarrow> wf_db \<Rightarrow> (wf_step \<times> wf_db) result" where
  "start_step now wid name cid owner hash w =
     (if wid = 0 \<or> cid = 0 \<or> blank name \<or> blank owner \<or> blank hash then Inl WorkflowInvalid
      else let s = \<lparr> ws_workflow = wid, ws_name = name, ws_command = cid, ws_state = StRunning, ws_attempt = 1,
                     ws_compensation = NotRequired, ws_last_error = None, ws_started_at = Some now,
                     ws_completed_at = None \<rparr>
        in attempt (found WorkflowNotFound (instance_by_id wid w)) (\<lambda>i.
           attempt (transition_instance WfRunning None i w) (\<lambda>(i', w1).
           case command_by_id cid w1 of
             Some c \<Rightarrow>
               if wc_owner c \<noteq> owner \<or> wc_hash c \<noteq> hash then Inl WorkflowConflict
               else attempt (found WorkflowConflict (step_by_name wid name w1)) (\<lambda>q. Inr (q, w1))
           | None \<Rightarrow>
               let w2 = w1\<lparr>wf_commands := wf_commands w1 @ [\<lparr> wc_id = cid, wc_owner = owner, wc_hash = hash,
                          wc_result = None, wc_status = CmdPending \<rparr>]\<rparr>
               in if exists_where (\<lambda>q. ws_workflow q = wid \<and> ws_name q = name) (wf_steps w2) then Inr (s, w2)
                  else if exists_where (\<lambda>q. ws_command q = cid) (wf_steps w2) then Inl GormDuplicatedKey
                  else Inr (s, w2\<lparr>wf_steps := wf_steps w2 @ [s]\<rparr>))))"

definition set_command :: "uuid \<Rightarrow> command_status \<Rightarrow> gotext option \<Rightarrow> wf_db \<Rightarrow> wf_db" where
  "set_command cid status ref w = w\<lparr>wf_commands := update_where (\<lambda>c. wc_id c = cid)
     (\<lambda>c. c\<lparr>wc_status := status, wc_result := (case ref of None \<Rightarrow> wc_result c | Some r \<Rightarrow> Some r)\<rparr>)
     (wf_commands w)\<rparr>"

definition complete_command :: "time \<Rightarrow> uuid \<Rightarrow> gotext \<Rightarrow> wf_db \<Rightarrow> wf_db result" where
  "complete_command now cid ref w =
     (if cid = 0 then Inl WorkflowInvalid
      else attempt (found WorkflowNotFound (command_by_id cid w)) (\<lambda>c.
        if wc_status c = CmdSucceeded then Inr w
        else if wc_status c \<noteq> CmdPending then Inl WorkflowTransition
        else let w1 = set_command cid CmdSucceeded (Some ref) w in
          attempt (found WorkflowNotFound (step_by_command cid w1)) (\<lambda>s.
          attempt (transition_step now StSucceeded None s w1) (\<lambda>w2.
          if count_where (\<lambda>q. ws_workflow q = ws_workflow s \<and> ws_state q \<notin> {StSucceeded, StCompensated})
               (wf_steps w2) = 0
          then attempt (found GormRecordNotFound (instance_by_id (ws_workflow s) w2)) (\<lambda>i.
               attempt (transition_instance WfSucceeded None i w2) (\<lambda>(i', w3). Inr w3))
          else Inr w2))))"

definition fail_command :: "time \<Rightarrow> uuid \<Rightarrow> gotext \<Rightarrow> wf_db \<Rightarrow> wf_db result" where
  "fail_command now cid message w =
     (if cid = 0 \<or> blank message then Inl WorkflowInvalid
      else attempt (found WorkflowNotFound (command_by_id cid w)) (\<lambda>c.
        if wc_status c = CmdFailed then Inr w
        else if wc_status c \<noteq> CmdPending then Inl WorkflowTransition
        else let w1 = set_command cid CmdFailed None w in
          attempt (found WorkflowNotFound (step_by_command cid w1)) (\<lambda>s.
          transition_step now StFailed (Some message) s w1)))"

definition compensable :: "uuid \<Rightarrow> wf_step \<Rightarrow> bool" where
  "compensable wid q \<longleftrightarrow> ws_workflow q = wid \<and> ws_state q = StSucceeded \<and>
     ws_compensation q \<noteq> CompensationCompleted"

definition begin_compensation :: "uuid \<Rightarrow> gotext \<Rightarrow> wf_db \<Rightarrow> wf_db result" where
  "begin_compensation wid reason w =
     (if wid = 0 \<or> blank reason then Inl WorkflowInvalid
      else attempt (found WorkflowNotFound (instance_by_id wid w)) (\<lambda>i.
        attempt (transition_instance WfCompensating (Some reason) i w) (\<lambda>(i', w1).
        let w2 = w1\<lparr>wf_steps := update_where (compensable wid)
              (\<lambda>q. q\<lparr>ws_state := StCompensating, ws_compensation := CompensationPending,
                     ws_last_error := Some reason\<rparr>) (wf_steps w1)\<rparr>
        in if count_where (compensable wid) (wf_steps w1) = 0
           then attempt (transition_instance WfFailed None i' w2) (\<lambda>(i'', w3). Inr w3)
           else Inr w2)))"

definition complete_compensation :: "time \<Rightarrow> uuid \<Rightarrow> gotext \<Rightarrow> wf_db \<Rightarrow> wf_db result" where
  "complete_compensation now wid name w =
     (if wid = 0 \<or> blank name then Inl WorkflowInvalid
      else attempt (found WorkflowNotFound (step_by_name wid name w)) (\<lambda>s.
        attempt (transition_step now StCompensated None s w) (\<lambda>w1.
        if count_where (\<lambda>q. ws_workflow q = wid \<and> ws_state q = StCompensating) (wf_steps w1) \<noteq> 0 then Inr w1
        else attempt (found GormRecordNotFound (instance_by_id wid w1)) (\<lambda>i.
             attempt (transition_instance WfFailed None i w1) (\<lambda>(i', w2). Inr w2)))))"

section \<open>The saga the tables implement\<close>

text \<open>The abstract view of one workflow: its state, if it exists, and the state of each of its steps.\<close>

type_synonym saga = "instance_state option \<times> (gotext \<rightharpoonup> step_state)"

definition steps_of :: "uuid \<Rightarrow> wf_db \<Rightarrow> gotext \<rightharpoonup> step_state" where
  "steps_of wid w = (\<lambda>n. map_option ws_state (step_by_name wid n w))"

definition saga_of :: "uuid \<Rightarrow> wf_db \<Rightarrow> saga" where
  "saga_of wid w = (map_option wi_state (instance_by_id wid w), steps_of wid w)"

definition all_done :: "(gotext \<rightharpoonup> step_state) \<Rightarrow> bool" where
  "all_done m \<longleftrightarrow> ran m \<subseteq> {StSucceeded, StCompensated}"

text \<open>What may happen to a saga: it begins, runs a step, a running step ends well or badly, the last step to end
  well ends the saga, exactly the completed steps are compensated together and then one by one.  Each event
  leaves no choice: \<open>None\<close> is an event the saga refuses.  A step may end badly whatever the state of the saga.\<close>

datatype saga_event =
    SagaBegins | SagaRuns gotext | SagaEndsWell gotext | SagaEndsBadly gotext | SagaCompensates | SagaCompensated gotext

fun saga_next :: "saga_event \<Rightarrow> saga \<Rightarrow> saga option" where
  "saga_next SagaBegins (st, m) = (if st = None then Some (Some WfPending, m) else None)"
| "saga_next (SagaRuns n) (st, m) =
     (if st \<in> {Some WfPending, Some WfRunning} then Some (Some WfRunning, if n \<in> dom m then m else m(n \<mapsto> StRunning)) else None)"
| "saga_next (SagaEndsWell n) (st, m) =
     (if m n \<notin> {Some StPending, Some StRunning, Some StSucceeded} then None
      else if \<not> all_done (m(n \<mapsto> StSucceeded)) then Some (st, m(n \<mapsto> StSucceeded))
      else if st \<in> {Some WfRunning, Some WfSucceeded} then Some (Some WfSucceeded, m(n \<mapsto> StSucceeded)) else None)"
| "saga_next (SagaEndsBadly n) (st, m) =
     (if m n \<in> {Some StPending, Some StRunning, Some StCompensating, Some StFailed} then Some (st, m(n \<mapsto> StFailed)) else None)"
| "saga_next SagaCompensates (st, m) =
     (if st \<in> {Some WfRunning, Some WfFailed, Some WfCompensating}
      then Some (Some (if StSucceeded \<in> ran m then WfCompensating else WfFailed),
        \<lambda>n. if m n = Some StSucceeded then Some StCompensating else m n) else None)"
| "saga_next (SagaCompensated n) (st, m) =
     (if m n \<notin> {Some StCompensating, Some StCompensated} then None
      else if StCompensating \<in> ran (m(n \<mapsto> StCompensated)) then Some (st, m(n \<mapsto> StCompensated))
      else if st \<in> Some ` {WfPending, WfRunning, WfCompensating, WfFailed} then Some (Some WfFailed, m(n \<mapsto> StCompensated)) else None)"

definition saga_step :: "saga \<Rightarrow> saga \<Rightarrow> bool" where
  "saga_step g h \<longleftrightarrow> (\<exists>ev. saga_next ev g = Some h)"

text \<open>The calls of the service, the event a call means for which workflow, and the calls that only repeat one that
  has been committed before.\<close>

datatype wf_call =
    BeginCall uuid gotext gotext "time option"
  | StartCall time uuid gotext uuid gotext gotext
  | CompleteCall time uuid gotext
  | FailCall time uuid gotext
  | CompensateCall uuid gotext
  | CompensatedCall time uuid gotext

fun run_call :: "wf_call \<Rightarrow> wf_db \<Rightarrow> wf_db result" where
  "run_call (BeginCall fresh ty key deadline) w = attempt (begin_workflow fresh ty key deadline w) (\<lambda>(i, w'). Inr w')"
| "run_call (StartCall now wid name cid owner hash) w = attempt (start_step now wid name cid owner hash w) (\<lambda>(s, w'). Inr w')"
| "run_call (CompleteCall now cid ref) w = complete_command now cid ref w"
| "run_call (FailCall now cid message) w = fail_command now cid message w"
| "run_call (CompensateCall wid reason) w = begin_compensation wid reason w"
| "run_call (CompensatedCall now wid name) w = complete_compensation now wid name w"

fun call_event :: "wf_call \<Rightarrow> wf_db \<Rightarrow> (uuid \<times> saga_event) option" where
  "call_event (BeginCall fresh ty key deadline) w = Some (fresh, SagaBegins)"
| "call_event (StartCall now wid name cid owner hash) w = Some (wid, SagaRuns name)"
| "call_event (CompleteCall now cid ref) w = map_option (\<lambda>s. (ws_workflow s, SagaEndsWell (ws_name s))) (step_by_command cid w)"
| "call_event (FailCall now cid message) w = map_option (\<lambda>s. (ws_workflow s, SagaEndsBadly (ws_name s))) (step_by_command cid w)"
| "call_event (CompensateCall wid reason) w = Some (wid, SagaCompensates)"
| "call_event (CompensatedCall now wid name) w = Some (wid, SagaCompensated name)"

fun repeats :: "wf_call \<Rightarrow> wf_db \<Rightarrow> bool" where
  "repeats (BeginCall fresh ty key deadline) w = exists_where (\<lambda>q. wi_business_key q = key) (wf_instances w)"
| "repeats (CompleteCall now cid ref) w = (map_option wc_status (command_by_id cid w) = Some CmdSucceeded)"
| "repeats (FailCall now cid message) w = (map_option wc_status (command_by_id cid w) = Some CmdFailed)"
| "repeats _ w = False"

inductive wf_op :: "wf_db \<Rightarrow> wf_db \<Rightarrow> bool" where
  op_begin: "begin_workflow fresh ty key deadline w = Inr (i, w') \<Longrightarrow> wf_op w w'"
| op_start: "start_step now wid name cid owner hash w = Inr (s, w') \<Longrightarrow> wf_op w w'"
| op_complete: "complete_command now cid ref w = Inr w' \<Longrightarrow> wf_op w w'"
| op_fail: "fail_command now cid message w = Inr w' \<Longrightarrow> wf_op w w'"
| op_compensate: "begin_compensation wid reason w = Inr w' \<Longrightarrow> wf_op w w'"
| op_compensated: "complete_compensation now wid name w = Inr w' \<Longrightarrow> wf_op w w'"

lemma wf_op_call: "wf_op w w' \<longleftrightarrow> (\<exists>call. run_call call w = Inr w')"
proof
  assume "wf_op w w'"
  then show "\<exists>call. run_call call w = Inr w'"
  proof cases
    case (op_begin fresh ty key deadline i)
    then show ?thesis by (intro exI[of _ "BeginCall fresh ty key deadline"]) simp
  next
    case (op_start now wid name cid owner hash s)
    then show ?thesis by (intro exI[of _ "StartCall now wid name cid owner hash"]) simp
  qed (metis run_call.simps(3-6))+
next
  assume "\<exists>call. run_call call w = Inr w'"
  then obtain call where "run_call call w = Inr w'" ..
  then show "wf_op w w'" by (cases call) (auto simp: attempt_eq_Inr_iff intro: wf_op.intros)
qed

section \<open>Each operation is a step of the saga\<close>

definition step_key :: "wf_step \<Rightarrow> uuid \<times> gotext" where
  "step_key s = (ws_workflow s, ws_name s)"

definition wf_keys :: "wf_db \<Rightarrow> bool" where
  "wf_keys w \<longleftrightarrow> key_distinct wi_id (wf_instances w) \<and> key_distinct step_key (wf_steps w)"

text \<open>Only a compensated step has its compensation completed.\<close>

definition comp_ok :: "wf_db \<Rightarrow> bool" where
  "comp_ok w \<longleftrightarrow> (\<forall>s \<in> set (wf_steps w). ws_compensation s = CompensationCompleted \<longrightarrow> ws_state s = StCompensated)"

definition wf_ok :: "wf_db \<Rightarrow> bool" where
  "wf_ok w \<longleftrightarrow> wf_keys w \<and> comp_ok w"

definition state_of :: "uuid \<Rightarrow> wf_db \<Rightarrow> instance_state option" where
  "state_of wid w = map_option wi_state (instance_by_id wid w)"

lemma saga_of_eq: "saga_of wid w = (state_of wid w, steps_of wid w)"
  by (simp add: saga_of_def state_of_def)

lemma instance_by_id_id: "instance_by_id i w = Some q \<Longrightarrow> wi_id q = i"
  unfolding instance_by_id_def by (drule find_SomeD) simp

lemma step_by_name_iff:
  "wf_keys w \<Longrightarrow> step_by_name i n w = Some s \<longleftrightarrow> s \<in> set (wf_steps w) \<and> ws_workflow s = i \<and> ws_name s = n"
  unfolding step_by_name_def wf_keys_def
  using find_by_key[of step_key "wf_steps w" "(i, n)" s] by (simp add: step_key_def)

lemma steps_of_iff:
  "wf_keys w \<Longrightarrow> steps_of i w n = Some st \<longleftrightarrow>
     (\<exists>s \<in> set (wf_steps w). ws_workflow s = i \<and> ws_name s = n \<and> ws_state s = st)"
  unfolding steps_of_def by (auto simp: step_by_name_iff)

lemma ran_steps_of: "wf_keys w \<Longrightarrow> st \<in> ran (steps_of i w) \<longleftrightarrow> (\<exists>s \<in> set (wf_steps w). ws_workflow s = i \<and> ws_state s = st)"
  by (auto simp: ran_def steps_of_iff)

lemma all_done_iff:
  assumes "wf_keys w"
  shows "all_done (steps_of i w) \<longleftrightarrow>
    count_where (\<lambda>q. ws_workflow q = i \<and> ws_state q \<notin> {StSucceeded, StCompensated}) (wf_steps w) = 0"
  by (auto simp: all_done_def subset_iff ran_steps_of[OF assms] count_where_0_iff)

lemma none_compensating_iff:
  assumes "wf_keys w"
  shows "StCompensating \<notin> ran (steps_of i w) \<longleftrightarrow>
    count_where (\<lambda>q. ws_workflow q = i \<and> ws_state q = StCompensating) (wf_steps w) = 0"
  by (auto simp: ran_steps_of[OF assms] count_where_0_iff)

text \<open>Writes of other tables and of commands are invisible in the saga.\<close>

lemma steps_of_cong: "wf_steps w' = wf_steps w \<Longrightarrow> steps_of i w' = steps_of i w"
  by (simp add: steps_of_def step_by_name_def)

lemma state_of_cong: "wf_instances w' = wf_instances w \<Longrightarrow> state_of i w' = state_of i w"
  by (simp add: state_of_def instance_by_id_def)

lemma transition_instance_saga:
  assumes "transition_instance to m i w = Inr (i', w')" "instance_by_id (wi_id i) w = Some q" "wi_state q = wi_state i"
  shows "wi_id i' = wi_id i" "wi_state i' = to" "wf_steps w' = wf_steps w" "wf_commands w' = wf_commands w"
    "wi_state i = to \<or> allowed_instance_transition (wi_state i) to"
    "state_of j w' = (if j = wi_id i then Some to else state_of j w)" "wf_keys w \<Longrightarrow> wf_keys w'"
proof -
  have s: "state_of (wi_id i) w = Some (wi_state i)" using assms(2,3) by (simp add: state_of_def)
  have d: "(wi_state i = to \<and> i' = i \<and> w' = w) \<or> (wi_state i \<noteq> to \<and> allowed_instance_transition (wi_state i) to \<and>
      i' = i\<lparr>wi_state := to, wi_version := wi_version i + 1\<rparr> \<and>
      w' = w\<lparr>wf_instances := update_where (\<lambda>q. wi_id q = wi_id i)
          (\<lambda>q. q\<lparr>wi_state := to, wi_version := wi_version q + 1,
                 wi_last_error := (case m of None \<Rightarrow> wi_last_error q | Some m \<Rightarrow> Some m)\<rparr>) (wf_instances w)\<rparr>)"
    using assms(1) by (auto simp: transition_instance_def split: if_splits)
  then show "wi_id i' = wi_id i" "wi_state i' = to" "wf_steps w' = wf_steps w" "wf_commands w' = wf_commands w"
    "wi_state i = to \<or> allowed_instance_transition (wi_state i) to" by auto
  show "state_of j w' = (if j = wi_id i then Some to else state_of j w)"
    using d
  proof (elim disjE conjE)
    let ?g = "\<lambda>q. q\<lparr>wi_state := to, wi_version := wi_version q + 1,
                 wi_last_error := (case m of None \<Rightarrow> wi_last_error q | Some m \<Rightarrow> Some m)\<rparr>"
    assume w: "w' = w\<lparr>wf_instances := update_where (\<lambda>q. wi_id q = wi_id i) ?g (wf_instances w)\<rparr>"
    have "instance_by_id j w' = map_option (\<lambda>q. if wi_id q = wi_id i then ?g q else q) (instance_by_id j w)"
      using find_update_by_key[of wi_id ?g j] by (simp add: w instance_by_id_def)
    then show ?thesis using instance_by_id_id[of j w] assms(2) unfolding state_of_def
      by (cases "instance_by_id j w") auto
  qed (use s in auto)
  show "wf_keys w \<Longrightarrow> wf_keys w'" using d by (auto simp: wf_keys_def intro!: key_distinct_update)
qed

lemma transition_step_saga:
  assumes "transition_step now to m s w = Inr w'" "wf_keys w" "s \<in> set (wf_steps w)"
  shows "wf_instances w' = wf_instances w" "wf_commands w' = wf_commands w" "wf_keys w'"
    "ws_state s = to \<or> allowed_step_transition (ws_state s) to"
    "steps_of j w' = (if j = ws_workflow s then (steps_of j w)(ws_name s \<mapsto> to) else steps_of j w)"
proof -
  let ?g = "\<lambda>q. q\<lparr>ws_state := to,
                 ws_completed_at := (if to \<in> {StSucceeded, StCompensated} then Some now else ws_completed_at q),
                 ws_compensation := (if to = StCompensated then CompensationCompleted else ws_compensation q),
                 ws_last_error := (case m of None \<Rightarrow> ws_last_error q | Some m \<Rightarrow> Some m)\<rparr>"
  let ?P = "\<lambda>q. ws_workflow q = ws_workflow s \<and> ws_name q = ws_name s"
  have d: "(ws_state s = to \<and> w' = w) \<or> (allowed_step_transition (ws_state s) to \<and>
      w' = w\<lparr>wf_steps := update_where ?P ?g (wf_steps w)\<rparr>)"
    using assms(1) by (auto simp: transition_step_def split: if_splits)
  then show "wf_instances w' = wf_instances w" "wf_commands w' = wf_commands w"
    "ws_state s = to \<or> allowed_step_transition (ws_state s) to" by auto
  show k: "wf_keys w'" using d assms(2) by (auto simp: wf_keys_def step_key_def intro!: key_distinct_update)
  have own: "steps_of (ws_workflow s) w (ws_name s) = Some (ws_state s)"
    using assms(2,3) by (auto simp: steps_of_iff)
  show "steps_of j w' = (if j = ws_workflow s then (steps_of j w)(ws_name s \<mapsto> to) else steps_of j w)"
  proof
    fix n
    have r: "step_by_name j n w' = map_option (\<lambda>q. if ?P q then ?g q else q) (step_by_name j n w)"
      if "w' = w\<lparr>wf_steps := update_where ?P ?g (wf_steps w)\<rparr>"
      using find_update_by_key[of step_key ?g "(j, n)" ?P "wf_steps w"] that
      by (simp add: step_by_name_def step_key_def)
    have q: "ws_workflow q = j \<and> ws_name q = n" if "step_by_name j n w = Some q" for q
      using that unfolding step_by_name_def by (blast dest: find_SomeD)
    show "steps_of j w' n = (if j = ws_workflow s then (steps_of j w)(ws_name s \<mapsto> to) else steps_of j w) n"
      using d
    proof (elim disjE conjE)
      assume "w' = w\<lparr>wf_steps := update_where ?P ?g (wf_steps w)\<rparr>"
      from r[OF this] show ?thesis using q own unfolding steps_of_def
        by (cases "step_by_name j n w") (auto split: if_splits)
    qed (use own in \<open>auto simp: fun_upd_def\<close>)
  qed
qed

lemma find_snoc: "find P (t @ [r]) = (case find P t of None \<Rightarrow> if P r then Some r else None | Some e \<Rightarrow> Some e)"
  by (induction t) auto

lemma transition_found:
  assumes "instance_by_id wid w = Some i" "transition_instance to m i w = Inr (i', w')"
  shows "wi_id i' = wid" "wi_state i' = to" "wf_steps w' = wf_steps w" "wf_commands w' = wf_commands w"
    "state_of wid w = Some (wi_state i)" "wi_state i = to \<or> allowed_instance_transition (wi_state i) to"
    "state_of j w' = (if j = wid then Some to else state_of j w)" "wf_keys w \<Longrightarrow> wf_keys w'"
    "\<exists>q. instance_by_id wid w' = Some q \<and> wi_state q = to"
proof -
  have e: "wi_id i = wid" "instance_by_id (wi_id i) w = Some i" using assms(1) instance_by_id_id by auto
  note t = transition_instance_saga[OF assms(2) e(2) refl, unfolded e(1)]
  show "wi_id i' = wid" "wi_state i' = to" "wf_steps w' = wf_steps w" "wf_commands w' = wf_commands w"
    "state_of wid w = Some (wi_state i)" "wi_state i = to \<or> allowed_instance_transition (wi_state i) to"
    "state_of j w' = (if j = wid then Some to else state_of j w)" "wf_keys w \<Longrightarrow> wf_keys w'"
    using t assms(1) by (simp_all add: state_of_def)
  have "state_of wid w' = Some to" using t(6)[of wid] by simp
  then show "\<exists>q. instance_by_id wid w' = Some q \<and> wi_state q = to" by (auto simp: state_of_def)
qed

text \<open>What an operation has to show: the keys stay distinct, its workflow's saga follows the event, the others
  stand still.\<close>

definition follows :: "uuid \<Rightarrow> saga_event \<Rightarrow> wf_db \<Rightarrow> wf_db \<Rightarrow> bool" where
  "follows j ev w w' \<longleftrightarrow> wf_keys w' \<and> saga_next ev (saga_of j w) = Some (saga_of j w') \<and>
     (\<forall>k. k \<noteq> j \<longrightarrow> saga_of k w' = saga_of k w)"

lemma followsI:
  assumes "wf_keys w'" "\<And>j. j \<noteq> wid \<Longrightarrow> state_of j w' = state_of j w \<and> steps_of j w' = steps_of j w"
    "saga_next ev (state_of wid w, steps_of wid w) = Some (state_of wid w', steps_of wid w')"
  shows "follows wid ev w w'"
  unfolding follows_def saga_of_eq using assms by simp

lemma begin_workflow_saga:
  assumes "begin_workflow fresh ty key deadline w = Inr (i, w')" "wf_keys w"
  shows "if exists_where (\<lambda>q. wi_business_key q = key) (wf_instances w) then w' = w else follows fresh SagaBegins w w'"
proof (cases "exists_where (\<lambda>q. wi_business_key q = key) (wf_instances w)")
  case True
  then show ?thesis using assms
    by (auto simp: begin_workflow_def Let_def attempt_eq_Inr_iff split: if_splits)
next
  case False
  then have w: "w' = w\<lparr>wf_instances := wf_instances w @ [i]\<rparr>" "wi_id i = fresh" "wi_state i = WfPending"
    and n: "\<forall>q \<in> set (wf_instances w). wi_id q \<noteq> fresh"
    using assms(1) by (auto simp: begin_workflow_def Let_def table_simps split: if_splits)
  have k: "wf_keys w'" using assms(2) n w by (auto simp: wf_keys_def intro!: key_distinct_append_new)
  have none: "instance_by_id fresh w = None" using n by (auto simp: instance_by_id_def find_None_iff)
  have s: "state_of j w' = (if j = fresh then Some WfPending else state_of j w)" for j
    using none w(2,3) by (auto simp: state_of_def instance_by_id_def w(1) find_snoc split: option.split)
  have "follows fresh SagaBegins w w'"
  proof (rule followsI[OF k, of fresh])
    show "saga_next SagaBegins (state_of fresh w, steps_of fresh w) = Some (state_of fresh w', steps_of fresh w')"
    proof -
      have "state_of fresh w = None" "state_of fresh w' = Some WfPending" "steps_of fresh w' = steps_of fresh w"
        using none s[of fresh] steps_of_cong[of w' w] w(1) by (simp_all add: state_of_def)
      then show ?thesis by simp
    qed
  qed (use s steps_of_cong[of w' w] w(1) in auto)
  then show ?thesis using False by simp
qed

lemma start_step_saga:
  assumes "start_step now wid name cid owner hash w = Inr (s, w')" "wf_keys w"
  shows "follows wid (SagaRuns name) w w'"
proof -
  note r = assms(1)[unfolded start_step_def Let_def]
  obtain i i1 w1 where i: "instance_by_id wid w = Some i" "transition_instance WfRunning None i w = Inr (i1, w1)"
    using r by (auto simp: attempt_eq_Inr_iff split: if_splits)
  note t = transition_found[OF i]
  have k1: "wf_keys w1" using t(8) assms(2) .
  have st: "wi_state i \<in> {WfPending, WfRunning}" using t(6) by (cases "wi_state i") auto
  have ex: "exists_where (\<lambda>q. ws_workflow q = wid \<and> ws_name q = name) (wf_steps w1) \<Longrightarrow> step_by_name wid name w1 \<noteq> None"
    by (auto simp: step_by_name_def find_None_iff exists_where_iff)
  have c: "wf_instances w' = wf_instances w1 \<and> (wf_steps w' = wf_steps w1 \<and> step_by_name wid name w1 \<noteq> None \<or> wf_steps w' = wf_steps w1 @ [s] \<and>
      ws_workflow s = wid \<and> ws_name s = name \<and> ws_state s = StRunning \<and>
      (\<forall>q \<in> set (wf_steps w1). \<not> (ws_workflow q = wid \<and> ws_name q = name)))"
    using r i ex by (auto simp: attempt_eq_Inr_iff table_simps split: option.splits if_splits)
  have m: "wf_keys w' \<and> name \<in> dom (steps_of wid w1) \<and> steps_of j w' = steps_of j w1 \<or>
      wf_keys w' \<and> name \<notin> dom (steps_of wid w1) \<and> steps_of j w' = (if j = wid then (steps_of j w1)(name \<mapsto> StRunning) else steps_of j w1)"
    for j
  proof (cases "wf_steps w' = wf_steps w1")
    case True
    then show ?thesis using c k1 steps_of_cong[OF True, of j] by (auto simp: wf_keys_def steps_of_def)
  next
    case False
    then have a: "wf_steps w' = wf_steps w1 @ [s]" "ws_workflow s = wid" "ws_name s = name" "ws_state s = StRunning"
      "\<forall>q \<in> set (wf_steps w1). \<not> (ws_workflow q = wid \<and> ws_name q = name)" "wf_instances w' = wf_instances w1"
      using c by auto
    have none: "step_by_name wid name w1 = None" using a(5) by (auto simp: step_by_name_def find_None_iff)
    have "wf_keys w'" using k1 a by (auto simp: wf_keys_def step_key_def intro!: key_distinct_append_new)
    moreover have "steps_of j w' = (if j = wid then (steps_of j w1)(name \<mapsto> StRunning) else steps_of j w1)"
      using none a(2-4) by (auto simp: steps_of_def step_by_name_def a(1) find_snoc fun_eq_iff split: option.split)
    moreover have "name \<notin> dom (steps_of wid w1)" using none by (auto simp: steps_of_def)
    ultimately show ?thesis by blast
  qed
  have s1: "state_of j w' = (if j = wid then Some WfRunning else state_of j w)" "steps_of j w1 = steps_of j w" for j
    using t(3,7) c state_of_cong[of w' w1] steps_of_cong[of w1 w] by simp_all
  show ?thesis
  proof (rule followsI[of _ wid])
    show "wf_keys w'" using m by blast
    show "saga_next (SagaRuns name) (state_of wid w, steps_of wid w) = Some (state_of wid w', steps_of wid w')"
      unfolding t(5) s1(1) if_P[OF refl] using m[of wid] s1(2) st by auto
  qed (use m s1 in metis)+
qed

lemma set_command_frame [simp]:
  "wf_steps (set_command c st r w) = wf_steps w" "wf_instances (set_command c st r w) = wf_instances w"
  by (simp_all add: set_command_def)

lemma set_command_saga [simp]:
  "steps_of j (set_command c st r w) = steps_of j w" "state_of j (set_command c st r w) = state_of j w"
  "wf_keys (set_command c st r w) = wf_keys w"
  by (rule steps_of_cong, simp) (rule state_of_cong, simp, simp add: wf_keys_def)

lemma complete_command_saga:
  assumes "complete_command now cid ref w = Inr w'" "wf_keys w"
  shows "(\<exists>c. command_by_id cid w = Some c \<and> wc_status c = CmdSucceeded) \<and> w' = w \<or>
    \<not> (\<exists>c. command_by_id cid w = Some c \<and> wc_status c = CmdSucceeded) \<and>
    (\<exists>s. step_by_command cid w = Some s \<and> follows (ws_workflow s) (SagaEndsWell (ws_name s)) w w')"
proof (cases "\<exists>c. command_by_id cid w = Some c \<and> wc_status c = CmdSucceeded")
  case True
  then show ?thesis using assms
    by (auto simp: complete_command_def split: if_splits)
next
  case False
  let ?w1 = "set_command cid CmdSucceeded (Some ref) w"
  obtain c where c: "command_by_id cid w = Some c"
    using assms(1) unfolding complete_command_def by (cases "command_by_id cid w") auto
  with False have nc: "wc_status c \<noteq> CmdSucceeded" by auto
  from assms(1) have p: "attempt (found WorkflowNotFound (step_by_command cid ?w1)) (\<lambda>s.
          attempt (transition_step now StSucceeded None s ?w1) (\<lambda>w2.
          if count_where (\<lambda>q. ws_workflow q = ws_workflow s \<and> ws_state q \<notin> {StSucceeded, StCompensated})
               (wf_steps w2) = 0
          then attempt (found GormRecordNotFound (instance_by_id (ws_workflow s) w2)) (\<lambda>i.
               attempt (transition_instance WfSucceeded None i w2) (\<lambda>(i', w3). Inr w3))
          else Inr w2)) = Inr w'"
    unfolding complete_command_def c Let_def found_simps attempt_simps if_not_P[OF nc] if_Inl_eq_Inr_iff by blast
  obtain s w2 where s: "step_by_command cid ?w1 = Some s" "transition_step now StSucceeded None s ?w1 = Inr w2"
    and rest: "(if count_where (\<lambda>q. ws_workflow q = ws_workflow s \<and> ws_state q \<notin> {StSucceeded, StCompensated})
               (wf_steps w2) = 0
          then attempt (found GormRecordNotFound (instance_by_id (ws_workflow s) w2)) (\<lambda>i.
               attempt (transition_instance WfSucceeded None i w2) (\<lambda>(i', w3). Inr w3))
          else Inr w2) = Inr w'"
    using p unfolding attempt_eq_Inr_iff found_eq_Inr_iff by blast
  have mem: "s \<in> set (wf_steps ?w1)" using s(1) unfolding step_by_command_def by (blast dest: find_SomeD)
  have k: "wf_keys ?w1" using assms(2) by simp
  note t = transition_step_saga[OF s(2) k mem]
  let ?i = "ws_workflow s"
  have own: "steps_of ?i w (ws_name s) = Some (ws_state s)" using mem assms(2) by (auto simp: steps_of_iff)
  have from_st: "ws_state s \<in> {StPending, StRunning, StSucceeded}" using t(4) by (cases "ws_state s") auto
  have st2: "state_of j w2 = state_of j w" for j using state_of_cong[OF t(1)] by simp
  have fin: "wf_keys w' \<and> steps_of j w' = steps_of j w2 \<and>
      (if all_done (steps_of ?i w2) then state_of ?i w' = Some WfSucceeded \<and> state_of ?i w \<in> {Some WfRunning, Some WfSucceeded}
       else state_of ?i w' = state_of ?i w) \<and> (j \<noteq> ?i \<longrightarrow> state_of j w' = state_of j w)" for j
  proof (cases "count_where (\<lambda>q. ws_workflow q = ?i \<and> ws_state q \<notin> {StSucceeded, StCompensated}) (wf_steps w2) = 0")
    case True
    obtain i i3 where i: "instance_by_id ?i w2 = Some i" "transition_instance WfSucceeded None i w2 = Inr (i3, w')"
      using rest True by (auto simp: attempt_eq_Inr_iff)
    note u = transition_found[OF i]
    have "wi_state i \<in> {WfRunning, WfSucceeded}" using u(6) by (cases "wi_state i") auto
    then show ?thesis using u(3,5,7) u(8)[OF t(3)] steps_of_cong[OF u(3)] True all_done_iff[OF t(3), of ?i] st2 by auto
  next
    case False
    then show ?thesis using rest t(3) all_done_iff[OF t(3), of ?i] st2 by simp
  qed
  have "follows ?i (SagaEndsWell (ws_name s)) w w'"
  proof (rule followsI[of _ ?i])
    show "wf_keys w'" using fin by blast
    have m: "steps_of ?i w' = (steps_of ?i w)(ws_name s \<mapsto> StSucceeded)" "steps_of ?i w2 = (steps_of ?i w)(ws_name s \<mapsto> StSucceeded)"
      using fin[of ?i] t(5)[of ?i] by auto
    show "saga_next (SagaEndsWell (ws_name s)) (state_of ?i w, steps_of ?i w) = Some (state_of ?i w', steps_of ?i w')"
      using fin[of ?i] own from_st unfolding m by (auto split: if_splits)
  qed (use fin t(5) in auto)
  then show ?thesis using False s(1) by (auto simp: step_by_command_def)
qed

lemma fail_command_saga:
  assumes "fail_command now cid message w = Inr w'" "wf_keys w"
  shows "(\<exists>c. command_by_id cid w = Some c \<and> wc_status c = CmdFailed) \<and> w' = w \<or>
    \<not> (\<exists>c. command_by_id cid w = Some c \<and> wc_status c = CmdFailed) \<and>
    (\<exists>s. step_by_command cid w = Some s \<and> follows (ws_workflow s) (SagaEndsBadly (ws_name s)) w w')"
proof -
  let ?w1 = "set_command cid CmdFailed None w"
  obtain c where c: "command_by_id cid w = Some c"
    using assms(1) unfolding fail_command_def by (cases "command_by_id cid w") auto
  show ?thesis
  proof (cases "wc_status c = CmdFailed")
    case True
    then show ?thesis using assms c by (auto simp: fail_command_def split: if_splits)
  next
    case False
    from assms(1) obtain s where s: "step_by_command cid ?w1 = Some s"
      "transition_step now StFailed (Some message) s ?w1 = Inr w'"
      unfolding fail_command_def c Let_def found_simps attempt_simps if_not_P[OF False] if_Inl_eq_Inr_iff
        attempt_eq_Inr_iff found_eq_Inr_iff by blast
    have mem: "s \<in> set (wf_steps ?w1)" using s(1) unfolding step_by_command_def by (blast dest: find_SomeD)
    have k: "wf_keys ?w1" using assms(2) by simp
    note t = transition_step_saga[OF s(2) k mem]
    let ?i = "ws_workflow s"
    have own: "steps_of ?i w (ws_name s) = Some (ws_state s)" using mem assms(2) by (auto simp: steps_of_iff)
    have from_st: "ws_state s \<in> {StPending, StRunning, StCompensating, StFailed}" using t(4) by (cases "ws_state s") auto
    have st: "state_of j w' = state_of j w" for j using state_of_cong[OF t(1)] by simp
    have "follows ?i (SagaEndsBadly (ws_name s)) w w'"
    proof (rule followsI[OF t(3), of ?i])
      show "saga_next (SagaEndsBadly (ws_name s)) (state_of ?i w, steps_of ?i w) = Some (state_of ?i w', steps_of ?i w')"
        using own from_st t(5)[of ?i] st by auto
    qed (use t(5) st in auto)
    then show ?thesis using False c s(1) by (auto simp: step_by_command_def)
  qed
qed

lemma begin_compensation_saga:
  assumes "begin_compensation wid reason w = Inr w'" "wf_keys w" "comp_ok w"
  shows "follows wid SagaCompensates w w'"
proof -
  let ?g = "\<lambda>q. q\<lparr>ws_state := StCompensating, ws_compensation := CompensationPending, ws_last_error := Some reason\<rparr>"
  let ?C = "compensable wid"
  obtain i i1 w1 where i: "instance_by_id wid w = Some i" "transition_instance WfCompensating (Some reason) i w = Inr (i1, w1)"
    and rest: "(if count_where ?C (wf_steps w1) = 0
           then attempt (transition_instance WfFailed None i1 (w1\<lparr>wf_steps := update_where ?C ?g (wf_steps w1)\<rparr>)) (\<lambda>(i'', w3). Inr w3)
           else Inr (w1\<lparr>wf_steps := update_where ?C ?g (wf_steps w1)\<rparr>)) = Inr w'"
    using assms(1) unfolding begin_compensation_def Let_def if_Inl_eq_Inr_iff attempt_eq_Inr_iff found_eq_Inr_iff
      split_paired_Ex prod.case by blast
  note t = transition_found[OF i]
  let ?w2 = "w1\<lparr>wf_steps := update_where ?C ?g (wf_steps w1)\<rparr>"
  have st: "wi_state i \<in> {WfRunning, WfFailed, WfCompensating}" using t(6) by (cases "wi_state i") auto
  have k2: "wf_keys ?w2" using t(8)[OF assms(2)] by (auto simp: wf_keys_def step_key_def intro!: key_distinct_update)
  have C: "?C q \<longleftrightarrow> ws_workflow q = wid \<and> ws_state q = StSucceeded" if "q \<in> set (wf_steps w)" for q
    using that assms(3) by (auto simp: compensable_def comp_ok_def)
  have m2: "steps_of j ?w2 = (if j = wid then (\<lambda>n. if steps_of j w n = Some StSucceeded then Some StCompensating else steps_of j w n)
      else steps_of j w)" for j
  proof
    fix n
    have r: "step_by_name j n ?w2 = map_option (\<lambda>q. if ?C q then ?g q else q) (step_by_name j n w)"
      using find_update_by_key[of step_key ?g "(j, n)" ?C "wf_steps w"] t(3)
      by (simp add: step_by_name_def step_key_def)
    have q: "ws_workflow q = j \<and> q \<in> set (wf_steps w)" if "step_by_name j n w = Some q" for q
      using that unfolding step_by_name_def by (blast dest: find_SomeD)
    show "steps_of j ?w2 n = (if j = wid then (\<lambda>n. if steps_of j w n = Some StSucceeded then Some StCompensating else steps_of j w n)
      else steps_of j w) n"
      using q C unfolding steps_of_def r by (cases "step_by_name j n w") auto
  qed
  have none: "count_where ?C (wf_steps w1) = 0 \<longleftrightarrow> StSucceeded \<notin> ran (steps_of wid w)"
    unfolding count_where_0_iff t(3) ran_steps_of[OF assms(2)] using C by blast
  have fin: "wf_keys w' \<and> steps_of j w' = steps_of j ?w2 \<and> state_of j w' = (if j = wid then
      Some (if StSucceeded \<in> ran (steps_of wid w) then WfCompensating else WfFailed) else state_of j w)" for j
  proof (cases "count_where ?C (wf_steps w1) = 0")
    case True
    then obtain i2 where u: "transition_instance WfFailed None i1 ?w2 = Inr (i2, w')"
      using rest by (auto simp: attempt_eq_Inr_iff)
    obtain q where q: "instance_by_id wid w1 = Some q" "wi_state q = WfCompensating" using t(9) by blast
    have "instance_by_id (wi_id i1) ?w2 = Some q" "wi_state q = wi_state i1" using q t(1,2) by (simp_all add: instance_by_id_def)
    note v = transition_instance_saga[OF u this, unfolded t(1)]
    show ?thesis using v(6)[of j] v(7)[OF k2] steps_of_cong[OF v(3), of j] True none t(7)[of j] state_of_cong[of ?w2 w1 j] by auto
  next
    case False
    then show ?thesis using rest none k2 t(7)[of j] state_of_cong[of ?w2 w1 j] by auto
  qed
  show ?thesis
  proof (rule followsI[of _ wid])
    show "wf_keys w'" using fin by blast
    show "saga_next SagaCompensates (state_of wid w, steps_of wid w) = Some (state_of wid w', steps_of wid w')"
      using fin[of wid] m2[of wid] t(5) st by simp
  qed (use fin m2 in auto)
qed

lemma complete_compensation_saga:
  assumes "complete_compensation now wid name w = Inr w'" "wf_keys w"
  shows "follows wid (SagaCompensated name) w w'"
proof -
  obtain s w1 where s: "step_by_name wid name w = Some s" "transition_step now StCompensated None s w = Inr w1"
    and rest: "(if count_where (\<lambda>q. ws_workflow q = wid \<and> ws_state q = StCompensating) (wf_steps w1) \<noteq> 0 then Inr w1
        else attempt (found GormRecordNotFound (instance_by_id wid w1)) (\<lambda>i.
             attempt (transition_instance WfFailed None i w1) (\<lambda>(i', w2). Inr w2))) = Inr w'"
    using assms(1) unfolding complete_compensation_def if_Inl_eq_Inr_iff attempt_eq_Inr_iff found_eq_Inr_iff by blast
  have mem: "s \<in> set (wf_steps w)" "ws_workflow s = wid" "ws_name s = name" using s(1) assms(2) by (simp_all add: step_by_name_iff)
  note t = transition_step_saga[OF s(2) assms(2) mem(1), unfolded mem(2)]
  have own: "steps_of wid w (ws_name s) = Some (ws_state s)" using mem assms(2) by (auto simp: steps_of_iff)
  have from_st: "ws_state s \<in> {StCompensating, StCompensated}" using t(4) by (cases "ws_state s") auto
  have st1: "state_of j w1 = state_of j w" for j using state_of_cong[OF t(1)] by simp
  have fin: "wf_keys w' \<and> steps_of j w' = steps_of j w1 \<and> (j \<noteq> wid \<longrightarrow> state_of j w' = state_of j w) \<and>
      (if StCompensating \<in> ran (steps_of wid w1) then state_of wid w' = state_of wid w
       else state_of wid w' = Some WfFailed \<and> state_of wid w \<in> Some ` {WfPending, WfRunning, WfCompensating, WfFailed})" for j
  proof (cases "count_where (\<lambda>q. ws_workflow q = wid \<and> ws_state q = StCompensating) (wf_steps w1) = 0")
    case True
    obtain i i2 where i: "instance_by_id wid w1 = Some i" "transition_instance WfFailed None i w1 = Inr (i2, w')"
      using rest True by (auto simp: attempt_eq_Inr_iff)
    note u = transition_found[OF i]
    have "wi_state i \<in> {WfPending, WfRunning, WfCompensating, WfFailed}" using u(6) by (cases "wi_state i") auto
    then show ?thesis using u(5,7) u(8)[OF t(3)] steps_of_cong[OF u(3)] True none_compensating_iff[OF t(3), of wid] st1 by auto
  next
    case False
    then show ?thesis using rest t(3) none_compensating_iff[OF t(3), of wid] st1 by auto
  qed
  show ?thesis
  proof (rule followsI[of _ wid])
    show "wf_keys w'" using fin by blast
    have m: "steps_of wid w' = (steps_of wid w)(name \<mapsto> StCompensated)" "steps_of wid w1 = (steps_of wid w)(name \<mapsto> StCompensated)"
      using fin[of wid] t(5)[of wid] mem(3) by auto
    show "saga_next (SagaCompensated name) (state_of wid w, steps_of wid w) = Some (state_of wid w', steps_of wid w')"
      using fin[of wid] own from_st mem(3) unfolding m by (auto split: if_splits)
  qed (use fin t(5) in auto)
qed

lemma comp_ok_cong: "wf_steps w' = wf_steps w \<Longrightarrow> comp_ok w' = comp_ok w"
  by (simp add: comp_ok_def)

lemma transition_step_comp:
  assumes "transition_step now to m s w = Inr w'" "wf_keys w" "s \<in> set (wf_steps w)" "comp_ok w"
  shows "comp_ok w'"
proof -
  have same: "q = s" if "q \<in> set (wf_steps w)" "ws_workflow q = ws_workflow s \<and> ws_name q = ws_name s" for q
    using key_unique[of step_key "wf_steps w" q s] that assms(2,3) by (simp add: wf_keys_def step_key_def)
  let ?P = "\<lambda>q. ws_workflow q = ws_workflow s \<and> ws_name q = ws_name s"
  let ?g = "\<lambda>q. q\<lparr>ws_state := to,
                 ws_completed_at := (if to \<in> {StSucceeded, StCompensated} then Some now else ws_completed_at q),
                 ws_compensation := (if to = StCompensated then CompensationCompleted else ws_compensation q),
                 ws_last_error := (case m of None \<Rightarrow> ws_last_error q | Some m \<Rightarrow> Some m)\<rparr>"
  consider "w' = w" | "allowed_step_transition (ws_state s) to" "wf_steps w' = update_where ?P ?g (wf_steps w)"
    using assms(1) by (auto simp: transition_step_def split: if_splits)
  then show ?thesis
  proof cases
    case 2
    then have "ws_compensation s \<noteq> CompensationCompleted" using assms(3,4) by (auto simp: comp_ok_def)
    then have new: "ws_compensation (?g s) = CompensationCompleted \<longrightarrow> ws_state (?g s) = StCompensated" by simp
    have "ws_compensation r = CompensationCompleted \<longrightarrow> ws_state r = StCompensated" if r: "r \<in> set (wf_steps w')" for r
    proof -
      from r consider "r \<in> set (wf_steps w)" | q where "q \<in> set (wf_steps w)" "?P q" "r = ?g q"
        unfolding 2(2) in_set_update_where by blast
      then show ?thesis
      proof cases
        case 1
        then show ?thesis using assms(4) by (simp add: comp_ok_def)
      next
        case (2 q)
        have "q = s" using same[OF 2(1,2)] .
        then have "r = ?g s" using 2(3) by (simp only:)
        then show ?thesis using new by (simp only:)
      qed
    qed
    then show ?thesis by (simp add: comp_ok_def)
  qed (use assms(4) in simp)
qed

lemma transition_instance_steps: "transition_instance to m i w = Inr (i', w') \<Longrightarrow> wf_steps w' = wf_steps w"
  by (auto simp: transition_instance_def split: if_splits)

lemma set_command_comp [simp]: "comp_ok (set_command c st r w) = comp_ok w"
  by (rule comp_ok_cong) simp

lemma command_step_mem: "step_by_command cid w = Some s \<Longrightarrow> s \<in> set (wf_steps w)"
  unfolding step_by_command_def by (blast dest: find_SomeD)

lemma run_call_comp:
  assumes "run_call call w = Inr w'" "wf_keys w" "comp_ok w"
  shows "comp_ok w'"
proof (cases call)
  case (BeginCall fresh ty key deadline)
  then have "wf_steps w' = wf_steps w" using assms(1)
    by (auto simp: begin_workflow_def Let_def attempt_eq_Inr_iff split: if_splits)
  then show ?thesis using assms(3) comp_ok_cong by blast
next
  case (StartCall now wid name cid owner hash)
  then obtain s where s: "start_step now wid name cid owner hash w = Inr (s, w')" using assms(1) by (auto simp: attempt_eq_Inr_iff)
  then have "wf_steps w' = wf_steps w \<or> wf_steps w' = wf_steps w @ [s] \<and> ws_compensation s = NotRequired"
    by (auto simp: start_step_def Let_def attempt_eq_Inr_iff dest: transition_instance_steps split: if_splits option.splits)
  then show ?thesis using assms(3) by (auto simp: comp_ok_def)
next
  case (CompleteCall now cid ref)
  let ?w1 = "set_command cid CmdSucceeded (Some ref) w"
  have "w' = w \<or> (\<exists>s w2. step_by_command cid ?w1 = Some s \<and> transition_step now StSucceeded None s ?w1 = Inr w2 \<and> wf_steps w' = wf_steps w2)"
    using assms(1) unfolding CompleteCall run_call.simps complete_command_def Let_def
    by (auto simp: attempt_eq_Inr_iff dest!: transition_instance_steps split: if_splits)
  then show ?thesis
  proof (elim disjE exE conjE)
    fix s w2 assume s: "step_by_command cid ?w1 = Some s" "transition_step now StSucceeded None s ?w1 = Inr w2" "wf_steps w' = wf_steps w2"
    have "comp_ok w2" by (rule transition_step_comp[OF s(2) _ command_step_mem[OF s(1)]]) (use assms(2,3) in simp_all)
    then show ?thesis using comp_ok_cong[OF s(3)] by simp
  qed (use assms(3) in simp)
next
  case (FailCall now cid message)
  let ?w1 = "set_command cid CmdFailed None w"
  have "w' = w \<or> (\<exists>s. step_by_command cid ?w1 = Some s \<and> transition_step now StFailed (Some message) s ?w1 = Inr w')"
    using assms(1) unfolding FailCall run_call.simps fail_command_def Let_def
    by (auto simp: attempt_eq_Inr_iff split: if_splits)
  then show ?thesis
  proof (elim disjE exE conjE)
    fix s assume s: "step_by_command cid ?w1 = Some s" "transition_step now StFailed (Some message) s ?w1 = Inr w'"
    show ?thesis by (rule transition_step_comp[OF s(2) _ command_step_mem[OF s(1)]]) (use assms(2,3) in simp_all)
  qed (use assms(3) in simp)
next
  case (CompensateCall wid reason)
  let ?g = "\<lambda>q. q\<lparr>ws_state := StCompensating, ws_compensation := CompensationPending, ws_last_error := Some reason\<rparr>"
  have "wf_steps w' = update_where (compensable wid) ?g (wf_steps w)"
    using assms(1) CompensateCall
    by (auto simp: begin_compensation_def Let_def attempt_eq_Inr_iff dest!: transition_instance_steps split: if_splits)
  then show ?thesis using assms(3) by (auto simp: comp_ok_def in_set_update_where)
next
  case (CompensatedCall now wid name)
  then obtain s w1 where s: "step_by_name wid name w = Some s" "transition_step now StCompensated None s w = Inr w1"
    "wf_steps w' = wf_steps w1"
    using assms(1) by (auto simp: complete_compensation_def attempt_eq_Inr_iff dest!: transition_instance_steps split: if_splits)
  have "s \<in> set (wf_steps w)" using s(1) assms(2) by (simp add: step_by_name_iff)
  from transition_step_comp[OF s(2) assms(2) this assms(3)] show ?thesis using comp_ok_cong[OF s(3)] by simp
qed

lemma run_call_follows:
  assumes "run_call call w = Inr w'" "wf_ok w"
  shows "if repeats call w then w' = w else \<exists>j ev. call_event call w = Some (j, ev) \<and> follows j ev w w'"
proof -
  have k: "wf_keys w" "comp_ok w" using assms(2) by (simp_all add: wf_ok_def)
  show ?thesis
  proof (cases call)
    case (BeginCall fresh ty key deadline)
    then obtain i where "begin_workflow fresh ty key deadline w = Inr (i, w')" using assms(1) by (auto simp: attempt_eq_Inr_iff)
    from begin_workflow_saga[OF this k(1)] show ?thesis using BeginCall by simp
  next
    case (StartCall now wid name cid owner hash)
    then obtain s where "start_step now wid name cid owner hash w = Inr (s, w')" using assms(1) by (auto simp: attempt_eq_Inr_iff)
    from start_step_saga[OF this k(1)] show ?thesis using StartCall by simp
  next
    case (CompleteCall now cid ref)
    then show ?thesis using complete_command_saga[of now cid ref w w'] assms(1) k(1) by auto
  next
    case (FailCall now cid message)
    then show ?thesis using fail_command_saga[of now cid message w w'] assms(1) k(1) by auto
  next
    case (CompensateCall wid reason)
    then show ?thesis using begin_compensation_saga[of wid reason w w'] assms(1) k by simp
  next
    case (CompensatedCall now wid name)
    then show ?thesis using complete_compensation_saga[of now wid name w w'] assms(1) k(1) by simp
  qed
qed

lemma run_call_ok: "run_call call w = Inr w' \<Longrightarrow> wf_ok w \<Longrightarrow> wf_ok w'"
  using run_call_follows[of call w w'] run_call_comp[of call w w'] by (auto simp: wf_ok_def follows_def split: if_splits)

lemma wf_ops_ok: "wf_op\<^sup>*\<^sup>* w w' \<Longrightarrow> wf_ok w \<Longrightarrow> wf_ok w'"
  by (induction rule: rtranclp_induct) (auto simp: wf_op_call intro: run_call_ok)

lemma workflow_sagas:
  assumes "wf_ok w" "wf_op\<^sup>*\<^sup>* w w'"
  shows "saga_step\<^sup>*\<^sup>* (saga_of wid w) (saga_of wid w')"
  using assms(2)
proof (induction rule: rtranclp_induct)
  case (step u v)
  then obtain call where call: "run_call call u = Inr v" using wf_op_call by blast
  have "wf_ok u" using wf_ops_ok[OF step(1) assms(1)] .
  from run_call_follows[OF call this] have "saga_of wid v = saga_of wid u \<or> saga_step (saga_of wid u) (saga_of wid v)"
    unfolding saga_step_def follows_def by (metis (full_types))
  then show ?case using step.IH by (auto intro: rtranclp.rtrancl_into_rtrancl)
qed simp


text \<open>A saga that has succeeded has only steps that ended well or were compensated, and nothing moves
  it any more.\<close>

lemma saga_step_done:
  assumes "saga_step g h" "fst g = Some WfSucceeded \<longrightarrow> all_done (snd g)"
  shows "fst h = Some WfSucceeded \<longrightarrow> all_done (snd h)" "fst g = Some WfSucceeded \<Longrightarrow> h = g"
proof -
  have done_at: "m n = Some x \<Longrightarrow> all_done m \<Longrightarrow> x \<in> {StSucceeded, StCompensated}" for m :: "gotext \<rightharpoonup> step_state" and n x
    unfolding all_done_def by (auto simp: ran_def)
  obtain ev where ev: "saga_next ev g = Some h" using assms(1) by (auto simp: saga_step_def)
  obtain st m where g: "g = (st, m)" by (cases g)
  have "(fst h = Some WfSucceeded \<longrightarrow> all_done (snd h)) \<and> (fst g = Some WfSucceeded \<longrightarrow> h = g)"
  proof (cases "st = Some WfSucceeded")
    case True
    then have d: "all_done m" using assms(2) g by simp
    show ?thesis
    proof (cases ev)
      case (SagaEndsWell n)
      then have "m n = Some StSucceeded" using ev g done_at[OF _ d, of n] by (auto split: if_splits)
      then show ?thesis using ev g True d SagaEndsWell by (auto simp: fun_upd_idem split: if_splits)
    next
      case (SagaEndsBadly n)
      then show ?thesis using ev g done_at[OF _ d, of n] by (auto split: if_splits)
    next
      case (SagaCompensated n)
      then have "m n = Some StCompensated" using ev g done_at[OF _ d, of n] by (auto split: if_splits)
      then have "m(n \<mapsto> StCompensated) = m" by (simp add: fun_upd_idem)
      then show ?thesis using ev g True d SagaCompensated by (auto split: if_splits)
    qed (use ev g True in auto)
  next
    case False
    then show ?thesis using ev g by (cases ev) (auto split: if_splits)
  qed
  then show "fst h = Some WfSucceeded \<longrightarrow> all_done (snd h)" "fst g = Some WfSucceeded \<Longrightarrow> h = g" by blast+
qed

text \<open>A workflow is only ever recorded as succeeded when every one of its steps ended well or was
  compensated, and once it has succeeded no operation changes its state or its steps.\<close>

theorem succeeded_workflow_final:
  assumes "wf_ok w" "state_of wid w = Some WfSucceeded \<longrightarrow> all_done (steps_of wid w)" "wf_op\<^sup>*\<^sup>* w w'"
  shows "(state_of wid w' = Some WfSucceeded \<longrightarrow> all_done (steps_of wid w')) \<and>
    (state_of wid w = Some WfSucceeded \<longrightarrow> saga_of wid w' = saga_of wid w)"
proof -
  have "saga_step\<^sup>*\<^sup>* (saga_of wid w) (saga_of wid w')" using workflow_sagas[OF assms(1,3)] .
  moreover have "(fst h = Some WfSucceeded \<longrightarrow> all_done (snd h)) \<and> (fst g = Some WfSucceeded \<longrightarrow> h = g)"
    if "saga_step\<^sup>*\<^sup>* g h" "fst g = Some WfSucceeded \<longrightarrow> all_done (snd g)" for g h
    using that
  proof (induction rule: rtranclp_induct)
    case (step u v)
    then show ?case using saga_step_done[OF step.hyps(2)] by auto
  qed simp
  ultimately show ?thesis using assms(2) unfolding saga_of_eq by fastforce
qed

section \<open>Commands\<close>

text \<open>A command is never lost, keeps its owner and request, and its verdict is final.\<close>

definition commands_kept :: "wf_db \<Rightarrow> wf_db \<Rightarrow> bool" where
  "commands_kept w w' \<longleftrightarrow> (\<forall>c q. command_by_id c w = Some q \<longrightarrow> (\<exists>r. command_by_id c w' = Some r \<and>
     wc_owner r = wc_owner q \<and> wc_hash r = wc_hash q \<and> (wc_status q \<noteq> CmdPending \<longrightarrow> r = q)))"

lemma commands_kept_trans: "commands_kept a b \<Longrightarrow> commands_kept b c \<Longrightarrow> commands_kept a c"
  unfolding commands_kept_def
proof (intro allI impI)
  fix k q assume ab: "\<forall>c q. command_by_id c a = Some q \<longrightarrow> (\<exists>r. command_by_id c b = Some r \<and>
      wc_owner r = wc_owner q \<and> wc_hash r = wc_hash q \<and> (wc_status q \<noteq> CmdPending \<longrightarrow> r = q))"
    and bc: "\<forall>k q. command_by_id k b = Some q \<longrightarrow> (\<exists>r. command_by_id k c = Some r \<and>
      wc_owner r = wc_owner q \<and> wc_hash r = wc_hash q \<and> (wc_status q \<noteq> CmdPending \<longrightarrow> r = q))"
    and q: "command_by_id k a = Some q"
  obtain r where r: "command_by_id k b = Some r" "wc_owner r = wc_owner q \<and> wc_hash r = wc_hash q \<and>
      (wc_status q \<noteq> CmdPending \<longrightarrow> r = q)" using ab q by blast
  obtain s where "command_by_id k c = Some s" "wc_owner s = wc_owner r \<and> wc_hash s = wc_hash r \<and>
      (wc_status r \<noteq> CmdPending \<longrightarrow> s = r)" using bc r(1) by blast
  then show "\<exists>s. command_by_id k c = Some s \<and> wc_owner s = wc_owner q \<and> wc_hash s = wc_hash q \<and>
      (wc_status q \<noteq> CmdPending \<longrightarrow> s = q)" using r(2) by auto
qed

lemma commands_kept_same: "wf_commands w' = wf_commands w \<Longrightarrow> commands_kept w w'"
  by (simp add: commands_kept_def command_by_id_def)

lemma transition_instance_commands: "transition_instance to m i w = Inr (i', w') \<Longrightarrow> wf_commands w' = wf_commands w"
  by (auto simp: transition_instance_def split: if_splits)

lemma transition_step_commands: "transition_step now to m s w = Inr w' \<Longrightarrow> wf_commands w' = wf_commands w"
  by (auto simp: transition_step_def split: if_splits)

lemma set_command_kept:
  assumes "command_by_id cid w = Some c" "wc_status c = CmdPending"
  shows "commands_kept w (set_command cid st r w)"
proof -
  have "command_by_id j (set_command cid st r w) = map_option (\<lambda>q. if wc_id q = cid
      then q\<lparr>wc_status := st, wc_result := (case r of None \<Rightarrow> wc_result q | Some r \<Rightarrow> Some r)\<rparr> else q) (command_by_id j w)" for j
    by (simp add: command_by_id_def set_command_def find_update_by_key)
  moreover have "wc_id q = j" if "command_by_id j w = Some q" for j q
    using that unfolding command_by_id_def by (blast dest: find_SomeD)
  ultimately show ?thesis using assms unfolding commands_kept_def by fastforce
qed

lemma complete_command_commands:
  assumes "complete_command now cid ref w = Inr w'"
  shows "\<exists>c. command_by_id cid w = Some c \<and> (wc_status c = CmdSucceeded \<and> w' = w \<or>
    wc_status c = CmdPending \<and> wf_commands w' = wf_commands (set_command cid CmdSucceeded (Some ref) w))"
proof -
  obtain c where c: "command_by_id cid w = Some c"
    using assms unfolding complete_command_def by (cases "command_by_id cid w") auto
  show ?thesis
  proof (cases "wc_status c = CmdSucceeded")
    case True
    then show ?thesis using assms c by (auto simp: complete_command_def split: if_splits)
  next
    case False
    note p = assms[unfolded complete_command_def c Let_def found_simps attempt_simps if_not_P[OF False] if_Inl_eq_Inr_iff]
    let ?w1 = "set_command cid CmdSucceeded (Some ref) w"
    obtain s w2 where s: "transition_step now StSucceeded None s ?w1 = Inr w2"
      and rest: "(if count_where (\<lambda>q. ws_workflow q = ws_workflow s \<and> ws_state q \<notin> {StSucceeded, StCompensated})
               (wf_steps w2) = 0
          then attempt (found GormRecordNotFound (instance_by_id (ws_workflow s) w2)) (\<lambda>i.
               attempt (transition_instance WfSucceeded None i w2) (\<lambda>(i', w3). Inr w3))
          else Inr w2) = Inr w'"
      using p unfolding attempt_eq_Inr_iff found_eq_Inr_iff by blast
    have "wf_commands w' = wf_commands w2"
      using rest by (auto simp: attempt_eq_Inr_iff dest: transition_instance_commands split: if_splits)
    then show ?thesis using c p transition_step_commands[OF s] by auto
  qed
qed

lemma fail_command_commands:
  assumes "fail_command now cid message w = Inr w'"
  shows "\<exists>c. command_by_id cid w = Some c \<and> (wc_status c = CmdFailed \<and> w' = w \<or>
    wc_status c = CmdPending \<and> wf_commands w' = wf_commands (set_command cid CmdFailed None w))"
proof -
  obtain c where c: "command_by_id cid w = Some c"
    using assms unfolding fail_command_def by (cases "command_by_id cid w") auto
  show ?thesis
  proof (cases "wc_status c = CmdFailed")
    case False
    note p = assms[unfolded fail_command_def c Let_def found_simps attempt_simps if_not_P[OF False] if_Inl_eq_Inr_iff]
    then show ?thesis using c by (auto simp: attempt_eq_Inr_iff dest: transition_step_commands)
  qed (use assms c in \<open>auto simp: fail_command_def split: if_splits\<close>)
qed

lemma start_step_commands:
  assumes "start_step now wid name cid owner hash w = Inr (s, w')"
  shows "(\<exists>c. command_by_id cid w = Some c \<and> wc_owner c = owner \<and> wc_hash c = hash \<and>
      wf_commands w' = wf_commands w \<and> wf_steps w' = wf_steps w) \<or>
    command_by_id cid w = None \<and> (\<exists>c. wf_commands w' = wf_commands w @ [c])"
proof -
  obtain i i1 w1 where i: "instance_by_id wid w = Some i" "transition_instance WfRunning None i w = Inr (i1, w1)"
    using assms unfolding start_step_def Let_def by (auto simp: attempt_eq_Inr_iff split: if_splits)
  have c1: "command_by_id cid w1 = command_by_id cid w" "wf_commands w1 = wf_commands w" "wf_steps w1 = wf_steps w"
    using transition_instance_commands[OF i(2)] transition_found(3)[OF i] by (simp_all add: command_by_id_def)
  note p = assms[unfolded start_step_def Let_def if_Inl_eq_Inr_iff i found_simps attempt_simps prod.case c1(1)]
  show ?thesis
  proof (cases "command_by_id cid w")
    case None
    then show ?thesis using p c1(2) by (auto split: if_splits)
  next
    case (Some c)
    then show ?thesis using p c1(2,3) by (auto simp: attempt_eq_Inr_iff split: if_splits)
  qed
qed

lemma wf_op_commands: "wf_op w w' \<Longrightarrow> commands_kept w w'"
proof (induction rule: wf_op.induct)
  case (op_begin fresh ty key deadline w i w')
  then have "wf_commands w' = wf_commands w"
    by (auto simp: begin_workflow_def Let_def attempt_eq_Inr_iff split: if_splits)
  then show ?case by (rule commands_kept_same)
next
  case (op_start now wid name cid owner hash w s w')
  from start_step_commands[OF this] show ?case
    by (auto simp: commands_kept_def command_by_id_def find_snoc)
next
  case (op_complete now cid ref w w')
  from complete_command_commands[OF this] show ?case
    using set_command_kept[of cid w _ CmdSucceeded "Some ref"] commands_kept_same[of w' "set_command cid CmdSucceeded (Some ref) w"]
    by (auto intro: commands_kept_same commands_kept_trans)
next
  case (op_fail now cid message w w')
  from fail_command_commands[OF this] show ?case
    using set_command_kept[of cid w _ CmdFailed None] commands_kept_same[of w' "set_command cid CmdFailed None w"]
    by (auto intro: commands_kept_same commands_kept_trans)
next
  case (op_compensate wid reason w w')
  have "wf_commands w' = wf_commands w"
    using op_compensate unfolding begin_compensation_def Let_def
    by (auto simp: attempt_eq_Inr_iff split: if_splits dest!: transition_instance_commands)
  then show ?case by (rule commands_kept_same)
next
  case (op_compensated now wid name w w')
  have "wf_commands w' = wf_commands w"
    using op_compensated unfolding complete_compensation_def
    by (auto simp: attempt_eq_Inr_iff split: if_splits dest!: transition_instance_commands transition_step_commands)
  then show ?case by (rule commands_kept_same)
qed

text \<open>A completed command is deduplicated for good: completing it again in any later state changes
  nothing, it can no longer be failed, and starting it again writes no command or step.\<close>

theorem completed_command_final:
  assumes "complete_command now cid ref w = Inr w1" "wf_op\<^sup>*\<^sup>* w1 w2"
  shows "complete_command now' cid ref' w2 = Inr w2 \<and> (\<exists>e. fail_command now' cid message w2 = Inl e) \<and>
    (case start_step now' wid name cid owner hash w2 of Inl e \<Rightarrow> True
     | Inr (s, w3) \<Rightarrow> wf_commands w3 = wf_commands w2 \<and> wf_steps w3 = wf_steps w2)"
proof -
  have nz: "cid \<noteq> 0" using assms(1) by (auto simp: complete_command_def)
  obtain b where b: "command_by_id cid w = Some b" "wc_status b = CmdSucceeded \<and> w1 = w \<or>
      wf_commands w1 = wf_commands (set_command cid CmdSucceeded (Some ref) w)"
    using complete_command_commands[OF assms(1)] by blast
  have "wc_id b = cid" using b(1) unfolding command_by_id_def by (blast dest: find_SomeD)
  then have "\<exists>c. command_by_id cid w1 = Some c \<and> wc_status c = CmdSucceeded"
    using b by (auto simp: command_by_id_def set_command_def find_update_by_key)
  then obtain c where c: "command_by_id cid w1 = Some c" "wc_status c = CmdSucceeded" by blast
  have "commands_kept w1 w2"
    using assms(2) by (induction rule: rtranclp_induct)
      (auto intro: commands_kept_same commands_kept_trans wf_op_commands)
  then have c2: "command_by_id cid w2 = Some c" using c unfolding commands_kept_def by fastforce
  have "complete_command now' cid ref' w2 = Inr w2" using nz c(2) c2 by (simp add: complete_command_def)
  moreover have "\<exists>e. fail_command now' cid message w2 = Inl e" using nz c(2) c2 by (simp add: fail_command_def)
  moreover have "case start_step now' wid name cid owner hash w2 of Inl e \<Rightarrow> True
     | Inr (s, w3) \<Rightarrow> wf_commands w3 = wf_commands w2 \<and> wf_steps w3 = wf_steps w2"
    using start_step_commands[of now' wid name cid owner hash w2] c2
    by (auto split: sum.split prod.split)
  ultimately show ?thesis by blast
qed

section \<open>Where the code falls short of its comments\<close>

text \<open>Asking twice for compensation closes the workflow as failed while its steps still wait to be
  compensated: the second request finds no completed step left and takes that for an empty saga.\<close>

lemma second_compensation_fails_early:
  assumes "wid \<noteq> 0" "\<not> blank reason" "instance_by_id wid w = Some i" "wi_state i = WfCompensating"
    "s \<in> set (wf_steps w)" "ws_workflow s = wid" "ws_state s = StCompensating"
    "\<forall>q \<in> set (wf_steps w). \<not> compensable wid q"
  shows "\<exists>w'. begin_compensation wid reason w = Inr w' \<and> state_of wid w' = Some WfFailed \<and> s \<in> set (wf_steps w')"
proof -
  have n: "count_where (compensable wid) (wf_steps w) = 0" "update_where (compensable wid) g (wf_steps w) = wf_steps w" for g
    using assms(8) by (auto simp: count_where_0_iff update_where_id)
  have t: "transition_instance WfCompensating (Some reason) i w = Inr (i, w)" using assms(4) by (simp add: transition_instance_def)
  obtain i2 w2 where u: "transition_instance WfFailed None i w = Inr (i2, w2)" using assms(4) by (simp add: transition_instance_def)
  have "begin_compensation wid reason w = Inr w2" using assms(1-3) t u n by (simp add: begin_compensation_def Let_def)
  moreover note transition_found(3,7)[OF assms(3) u]
  ultimately show ?thesis using assms(5) by simp
qed

text \<open>Starting a step again under a new command records the command but no step carries it, so the
  command can never be completed or failed.\<close>

lemma restarted_step_orphans_command:
  assumes "start_step now wid name cid owner hash w = Inr (s, w')" "command_by_id cid w = None"
    "step_by_name wid name w = Some q" "\<forall>r \<in> set (wf_steps w). ws_command r \<noteq> cid" "cid \<noteq> 0" "\<not> blank message"
  shows "complete_command now' cid ref w' = Inl WorkflowNotFound \<and> fail_command now' cid message w' = Inl WorkflowNotFound"
proof -
  obtain i i1 w1 where i: "instance_by_id wid w = Some i" "transition_instance WfRunning None i w = Inr (i1, w1)"
    using assms(1) unfolding start_step_def Let_def by (auto simp: attempt_eq_Inr_iff split: if_splits)
  have c1: "command_by_id cid w1 = None" "wf_commands w1 = wf_commands w" "wf_steps w1 = wf_steps w"
    using transition_instance_commands[OF i(2)] transition_found(3)[OF i] assms(2) by (simp_all add: command_by_id_def)
  have ex: "exists_where (\<lambda>q. ws_workflow q = wid \<and> ws_name q = name) (wf_steps w)"
    using assms(3) unfolding step_by_name_def by (auto simp: table_simps dest: find_SomeD)
  note p = assms(1)[unfolded start_step_def Let_def if_Inl_eq_Inr_iff i found_simps attempt_simps prod.case c1(1) option.case]
  have w': "w' = w1\<lparr>wf_commands := wf_commands w @ [\<lparr> wc_id = cid, wc_owner = owner, wc_hash = hash,
                          wc_result = None, wc_status = CmdPending \<rparr>]\<rparr>"
    using p ex c1 by (auto split: if_splits)
  have "command_by_id cid w' = Some \<lparr> wc_id = cid, wc_owner = owner, wc_hash = hash, wc_result = None, wc_status = CmdPending \<rparr>"
    using assms(2) by (simp add: command_by_id_def w' find_snoc)
  moreover have "step_by_command cid w' = None" using assms(4) by (auto simp: step_by_command_def w' c1(3) find_None_iff)
  ultimately show ?thesis using assms(5,6)
    by (simp add: complete_command_def fail_command_def Let_def step_by_command_def set_command_def)
qed

text \<open>Beginning a workflow again under the same business key is not the lookup it is written as.\<close>

lemma begin_again_not_found:
  assumes "\<exists>q \<in> set (wf_instances w). wi_business_key q = key" "\<forall>q \<in> set (wf_instances w). wi_id q \<noteq> fresh"
    "\<not> blank ty" "\<not> blank key"
  shows "begin_workflow fresh ty key deadline w = Inl GormRecordNotFound"
proof -
  have "find (\<lambda>q. wi_business_key q = key \<and> wi_id q = fresh) (wf_instances w) = None"
    using assms(2) by (auto simp: find_None_iff)
  then show ?thesis using assms(1,3,4) by (simp add: begin_workflow_def Let_def exists_where_def list_ex_iff)
qed

section \<open>A sample workflow\<close>

definition sample_wf :: "instance_state \<Rightarrow> step_state \<Rightarrow> command_status \<Rightarrow> wf_db" where
  "sample_wf st ss cs =
     \<lparr> wf_instances = [\<lparr> wi_id = 1, wi_type = [97], wi_business_key = [98], wi_state = st, wi_deadline = None,
          wi_version = 1, wi_last_error = None \<rparr>],
       wf_steps = [\<lparr> ws_workflow = 1, ws_name = [99], ws_command = 2, ws_state = ss, ws_attempt = 1,
          ws_compensation = NotRequired, ws_last_error = None, ws_started_at = Some 3, ws_completed_at = None \<rparr>],
       wf_commands = [\<lparr> wc_id = 2, wc_owner = [100], wc_hash = [101], wc_result = None, wc_status = cs \<rparr>] \<rparr>"

lemma sample_wf_ok: "wf_ok (sample_wf st ss cs)"
  by (simp add: wf_ok_def wf_keys_def comp_ok_def sample_wf_def key_distinct_def)

lemma sample_wf_completes:
  "\<exists>w'. complete_command 9 2 [102] (sample_wf WfRunning StRunning CmdPending) = Inr w' \<and> state_of 1 w' = Some WfSucceeded \<and>
     steps_of 1 w' [99] = Some StSucceeded"
  by (simp add: complete_command_def sample_wf_def command_by_id_def Let_def set_command_def step_by_command_def
      transition_step_def instance_by_id_def transition_instance_def state_of_def steps_of_def step_by_name_def)


lemma succeeded_workflow_final_witness:
  "\<exists>w'. state_of 1 w' = Some WfSucceeded \<and> all_done (steps_of 1 w')"
proof -
  let ?w = "sample_wf WfRunning StRunning CmdPending"
  obtain w' where w: "complete_command 9 2 [102] ?w = Inr w'" "state_of 1 w' = Some WfSucceeded"
    using sample_wf_completes by blast
  have "state_of 1 ?w \<noteq> Some WfSucceeded" by (simp add: state_of_def sample_wf_def instance_by_id_def)
  then show ?thesis
    using succeeded_workflow_final[OF sample_wf_ok, of 1 WfRunning StRunning CmdPending w'] wf_op.op_complete[OF w(1)] w(2)
    by auto
qed

lemma completed_command_final_witness:
  "\<exists>w1. complete_command 9 2 [102] (sample_wf WfRunning StRunning CmdPending) = Inr w1 \<and>
     complete_command 10 2 [103] w1 = Inr w1"
  using sample_wf_completes completed_command_final[OF _ rtranclp.rtrancl_refl] by blast

end
