(* ===== verification/TaskExecution.thy ===== *)
theory TaskExecution
  imports Database Lease
begin

text \<open>
  Package \<open>taskqueue\<close>: at-least-once delivery of tasks with executions leased in PostgreSQL
  (\<open>execution.go\<close>, \<open>store.go\<close>) and the consumer that settles each broker message
  (\<open>taskqueue.go\<close>).  The broker and the handlers are parameters; the advisory lock on the task
  identifier makes each transaction one step at one clock value.
\<close>

section \<open>Tasks\<close>

record task =
  tk_id :: string
  tk_kind :: string
  tk_queue :: string
  tk_body :: json
  tk_retry_count :: int
  tk_max_retry :: int
  tk_timeout :: time
  tk_lease_token :: uuid

record exec_env =
  xe_digest :: "string \<Rightarrow> string \<Rightarrow> json \<Rightarrow> string"
  xe_stop_timeout :: time

abbreviation millisecond :: time where "millisecond \<equiv> 1000000"

definition queue_names :: "string list" where
  "queue_names = [''object'', ''media'', ''maintenance'', ''upload'', ''ai'', ''search'']"

definition retry_delays :: "time list" where
  "retry_delays = [second, 5 * second, 30 * second, minute, 5 * minute]"

definition retry_delay :: "int \<Rightarrow> time" where
  "retry_delay n =
     (let a = (if n < 1 then 1 else n);
          b = (if a > int (length retry_delays) then int (length retry_delays) else a)
      in retry_delays ! nat (b - 1))"

definition retry_queue :: "string \<Rightarrow> time \<Rightarrow> string" where
  "retry_queue q d = q @ ''.retry.'' @ decimal_string (nat (d div millisecond))"

section \<open>Executions\<close>

definition fingerprint :: "exec_env \<Rightarrow> task \<Rightarrow> string" where
  "fingerprint env t = xe_digest env (tk_kind t) (tk_queue t) (tk_body t)"

definition lease_duration :: "exec_env \<Rightarrow> time" where
  "lease_duration env = 3 * (xe_stop_timeout env + 5 * second)"

definition execution_of :: "string \<Rightarrow> db \<Rightarrow> execution option" where
  "execution_of i d = find (\<lambda>x. te_task_id x = i) (task_executions d)"

definition result_of :: "string \<Rightarrow> db \<Rightarrow> task_result option" where
  "result_of i d = find (\<lambda>r. tr_task_id r = i) (task_results d)"

text \<open>\<open>INSERT .. ON CONFLICT DO NOTHING\<close> under the primary key.\<close>

definition insert_result :: "string \<Rightarrow> task_status \<Rightarrow> db \<Rightarrow> db" where
  "insert_result i st d = (if result_of i d \<noteq> None then d
     else d\<lparr>task_results := task_results d @ [\<lparr> tr_task_id = i, tr_status = st \<rparr>]\<rparr>)"

definition record_failure :: "task \<Rightarrow> db \<Rightarrow> db" where
  "record_failure t d =
     (if (case result_of (tk_id t) d of None \<Rightarrow> False | Some r \<Rightarrow> tr_status r = TaskSucceeded) then d
      else let d' = (if exists_where (\<lambda>f. tf_task_id f = tk_id t) (task_failures d) then d
                   else d\<lparr>task_failures := task_failures d @ [\<lparr> tf_task_id = tk_id t, tf_retry_count = tk_retry_count t \<rparr>]\<rparr>)
             in insert_result (tk_id t) TaskDead d')"

definition new_execution :: "exec_env \<Rightarrow> time \<Rightarrow> uuid \<Rightarrow> task \<Rightarrow> execution" where
  "new_execution env now token t =
     \<lparr> te_task_id = tk_id t, te_payload_sha256 = fingerprint env t, te_task_type = tk_kind t, te_queue = tk_queue t,
       te_status = ExecRunning, te_lease_token = Some token, te_lease_until = Some (now + lease_duration env),
       te_available_at = now, te_retry_count = tk_retry_count t, te_max_retry = tk_max_retry t,
       te_timeout_ms = tk_timeout t div millisecond, te_updated_at = now \<rparr>"

text \<open>The CHECK constraints of migration 24.\<close>

definition execution_check :: "execution \<Rightarrow> bool" where
  "execution_check x \<longleftrightarrow> 0 \<le> te_retry_count x \<and> 0 \<le> te_max_retry x \<and> 0 < te_timeout_ms x"

definition take_over :: "exec_env \<Rightarrow> time \<Rightarrow> uuid \<Rightarrow> execution \<Rightarrow> execution" where
  "take_over env now token x = x\<lparr>te_status := ExecRunning, te_lease_token := Some token,
     te_lease_until := Some (now + lease_duration env), te_updated_at := now\<rparr>"

definition claimed :: "uuid \<Rightarrow> execution \<Rightarrow> task \<Rightarrow> task" where
  "claimed token x t = t\<lparr>tk_lease_token := token, tk_retry_count := te_retry_count x,
     tk_max_retry := te_max_retry x, tk_timeout := te_timeout_ms x * millisecond\<rparr>"

definition default_timeout :: "task \<Rightarrow> task" where
  "default_timeout t = (if tk_timeout t \<le> 0 then t\<lparr>tk_timeout := 30 * minute\<rparr> else t)"

definition claim_task :: "exec_env \<Rightarrow> time \<Rightarrow> uuid \<Rightarrow> task \<Rightarrow> db \<Rightarrow> (task \<times> db) result" where
  "claim_task env now token t0 d =
     (let t = default_timeout t0 in
      if (case execution_of (tk_id t) d of None \<Rightarrow> False | Some x \<Rightarrow> te_payload_sha256 x \<noteq> fingerprint env t)
        then Inl TaskConflict
      else case result_of (tk_id t) d of
        Some r \<Rightarrow> Inl (if tr_status r = TaskSucceeded then TaskSucceededEarlier else err_task_dead)
      | None \<Rightarrow> (case execution_of (tk_id t) d of
          None \<Rightarrow> let x = new_execution env now token t in
            if \<not> execution_check x then Inl ErrCheckViolation
            else Inr (claimed token x t, d\<lparr>task_executions := task_executions d @ [x]\<rparr>)
        | Some x \<Rightarrow>
            if te_status x = ExecRunning \<and> (case te_lease_until x of None \<Rightarrow> False | Some l \<Rightarrow> now < l)
              then Inl TaskBusy
            else if te_status x = ExecRetry \<and> now < te_available_at x then Inl TaskBusy
            else if te_status x = ExecFinished then Inl err_task_dead
            else Inr (claimed token (take_over env now token x) t,
              d\<lparr>task_executions := update_where (\<lambda>y. te_task_id y = tk_id t) (take_over env now token)
                                     (task_executions d)\<rparr>)))"

text \<open>The row a worker still owns at the time of its statement.\<close>

definition owns :: "time \<Rightarrow> task \<Rightarrow> execution \<Rightarrow> bool" where
  "owns now t x \<longleftrightarrow> te_task_id x = tk_id t \<and> te_status x = ExecRunning \<and>
     te_lease_token x = Some (tk_lease_token t) \<and> (case te_lease_until x of None \<Rightarrow> False | Some l \<Rightarrow> now < l)"

definition update_owned :: "time \<Rightarrow> task \<Rightarrow> (execution \<Rightarrow> execution) \<Rightarrow> db \<Rightarrow> db result" where
  "update_owned now t g d =
     (if count_where (owns now t) (task_executions d) \<noteq> 1 then Inl TaskLeaseLost
      else Inr (d\<lparr>task_executions := update_where (owns now t) g (task_executions d)\<rparr>))"

text \<open>One tick of \<open>renew\<close>; an error cancels the handler with \<open>ErrLeaseLost\<close>.\<close>

definition renew_task :: "exec_env \<Rightarrow> time \<Rightarrow> task \<Rightarrow> db \<Rightarrow> db result" where
  "renew_task env now t d = update_owned now t
     (\<lambda>x. x\<lparr>te_lease_until := Some (now + lease_duration env div millisecond * millisecond), te_updated_at := now\<rparr>) d"

definition finish_terminal :: "bool \<Rightarrow> task \<Rightarrow> go_error option \<Rightarrow> bool" where
  "finish_terminal shutdown t cause \<longleftrightarrow> (case cause of None \<Rightarrow> False
     | Some e \<Rightarrow> \<not> shutdown \<and> (errors_is e ErrSkipRetry \<or> tk_max_retry t \<le> tk_retry_count t))"

definition finish_row :: "time \<Rightarrow> bool \<Rightarrow> task \<Rightarrow> go_error option \<Rightarrow> execution \<Rightarrow> execution" where
  "finish_row now shutdown t cause x =
     (let done_row = x\<lparr>te_status := ExecFinished, te_lease_token := None, te_lease_until := None, te_updated_at := now\<rparr>
      in if cause \<noteq> None \<and> \<not> finish_terminal shutdown t cause
         then let count = (if shutdown then tk_retry_count t else tk_retry_count t + 1) in
           done_row\<lparr>te_status := ExecRetry, te_retry_count := count,
                    te_available_at := (if shutdown then now else now + retry_delay count)\<rparr>
         else done_row)"

definition finish_task :: "time \<Rightarrow> bool \<Rightarrow> task \<Rightarrow> go_error option \<Rightarrow> db \<Rightarrow> db result" where
  "finish_task now shutdown t cause d =
     attempt (update_owned now t (finish_row now shutdown t cause) d) (\<lambda>d'.
     Inr (if cause = None then insert_result (tk_id t) TaskSucceeded d'
          else if finish_terminal shutdown t cause then record_failure t d' else d'))"

text \<open>\<open>recordStuck\<close>, before a worker process with a handler that ignores cancellation exits.\<close>

definition record_stuck :: "time \<Rightarrow> bool \<Rightarrow> task \<Rightarrow> go_error \<Rightarrow> db \<Rightarrow> db result" where
  "record_stuck now shutdown t cause d =
     (let counts = (\<not> shutdown \<and> \<not> errors_is cause TaskLeaseLost);
          terminal = (counts \<and> tk_max_retry t \<le> tk_retry_count t);
          count = (if counts \<and> \<not> terminal then tk_retry_count t + 1 else tk_retry_count t);
          delay = retry_delay count + 5 * second
      in attempt (update_owned now t (\<lambda>x. x\<lparr>te_retry_count := count, te_available_at := now + delay,
             te_lease_until := Some (now + delay), te_updated_at := now\<rparr>) d) (\<lambda>d'.
         Inr (if terminal then record_failure t d' else d')))"

section \<open>The middleware\<close>

definition claim_error :: "go_error \<Rightarrow> go_error option" where
  "claim_error e =
     (if errors_is e TaskSucceededEarlier then None
      else if errors_is e TaskBusy \<or> errors_is e TaskConflict \<or> errors_is e err_task_dead then Some e
      else Some (ErrJoin TaskStorage e))"

text \<open>What becomes of a handler under \<open>invokeBounded\<close>: it returns (a panic is an error) while its
  context is live, within the grace after the context ended, or not at all.\<close>

datatype handler_end = Returned "go_error option" | ReturnedLate "go_error option" | Stuck

text \<open>One run as its worker sees it: the cause of the context before the handler starts and after it
  ended, what the handler does, whether the renewal lost the lease and the parent is shut down, and
  the clock and database of the transaction that follows.\<close>

record run =
  rn_before :: "go_error option"
  rn_end :: handler_end
  rn_after :: "go_error option"
  rn_lost :: bool
  rn_shutdown :: bool
  rn_now :: time
  rn_db :: db

definition invoke_task :: "(string \<Rightarrow> bool) \<Rightarrow> task \<Rightarrow> run \<Rightarrow> handler_end" where
  "invoke_task known t r =
     (if known (tk_kind t) then rn_end r else Returned (Some (ErrWrap ErrSkipRetry ''unknown task type'')))"

text \<open>\<open>None\<close>: the process exits with the message unacknowledged.\<close>

definition invoke_bounded :: "(string \<Rightarrow> bool) \<Rightarrow> task \<Rightarrow> run \<Rightarrow> go_error option option" where
  "invoke_bounded known t r =
     (case rn_before r of
        Some c \<Rightarrow> Some (Some c)
      | None \<Rightarrow> (case invoke_task known t r of
          Returned e \<Rightarrow> Some e
        | ReturnedLate e \<Rightarrow> Some (if e = None then rn_after r else e)
        | Stuck \<Rightarrow> None))"

definition process_task ::
  "exec_env \<Rightarrow> (string \<Rightarrow> bool) \<Rightarrow> time \<Rightarrow> uuid \<Rightarrow> (task \<Rightarrow> db \<Rightarrow> run) \<Rightarrow> task \<Rightarrow> db \<Rightarrow>
   go_error option option \<times> task \<times> db" where
  "process_task env known now token world t d =
     (case claim_task env now token t d of
        Inl e \<Rightarrow> (Some (claim_error e), default_timeout t, d)
      | Inr (t', d1) \<Rightarrow>
          (let r = world t' d1 in
           case invoke_bounded known t' r of
             None \<Rightarrow> (None, t', (case record_stuck (rn_now r) (rn_shutdown r) t'
                 (case rn_after r of None \<Rightarrow> ErrCanceled | Some c \<Rightarrow> c) (rn_db r) of
                 Inl _ \<Rightarrow> rn_db r | Inr d2 \<Rightarrow> d2))
           | Some e \<Rightarrow>
               (let cause = (if e = None then rn_after r else e) in
                if rn_lost r then (Some (Some TaskLeaseLost), t', rn_db r)
                else case finish_task (rn_now r) (rn_shutdown r) t' cause (rn_db r) of
                  Inl e' \<Rightarrow> (Some (Some (ErrJoin TaskStorage e')), t', rn_db r)
                | Inr d2 \<Rightarrow> (Some cause, t', d2))))"

section \<open>Publishing and consuming\<close>

record broker_config =
  bc_prefetch :: int
  bc_concurrency :: int
  bc_publish_timeout :: time
  bc_max_retry :: int
  bc_task_timeout :: time
  bc_stop_timeout :: time

definition new_broker :: "broker_config \<Rightarrow> broker_config" where
  "new_broker c = c\<lparr>
     bc_prefetch := (if bc_prefetch c \<le> 0 then 16 else bc_prefetch c),
     bc_concurrency := (if bc_concurrency c \<le> 0 then 1 else bc_concurrency c),
     bc_publish_timeout := (if bc_publish_timeout c \<le> 0 then 5 * second else bc_publish_timeout c),
     bc_task_timeout := (if bc_task_timeout c \<le> 0 then 30 * minute else bc_task_timeout c),
     bc_stop_timeout := (if bc_stop_timeout c \<le> 0 then 10 * second else bc_stop_timeout c)\<rparr>"

text \<open>\<open>Publish\<close> up to the broker: the routing key and the task as it is sent.\<close>

definition publish_task :: "broker_config \<Rightarrow> task \<Rightarrow> (string \<times> task) result" where
  "publish_task cfg t =
     (if tk_id t = [] \<or> tk_kind t = [] \<or> tk_queue t \<notin> set queue_names
      then Inl (ErrNew ''taskqueue: id, type and known queue required'')
      else Inr (tk_queue t, t\<lparr>tk_timeout := (if tk_timeout t \<le> 0 then bc_task_timeout cfg else tk_timeout t),
        tk_max_retry := (if tk_max_retry t < 0 then bc_max_retry cfg else tk_max_retry t)\<rparr>))"

record message =
  ms_id :: string
  ms_kind :: string
  ms_body :: json
  ms_retry_count :: "int option"
  ms_max_retry :: "int option"
  ms_timeout_ms :: "int option"

text \<open>The counts travel as \<open>int32\<close>.\<close>

definition int32 :: "int \<Rightarrow> int" where
  "int32 n = sint (word_of_int n :: 32 word)"

definition message_of_task :: "task \<Rightarrow> message" where
  "message_of_task t =
     \<lparr> ms_id = tk_id t, ms_kind = tk_kind t, ms_body = tk_body t, ms_retry_count = Some (int32 (tk_retry_count t)),
       ms_max_retry = Some (int32 (tk_max_retry t)), ms_timeout_ms = Some (tk_timeout t div millisecond) \<rparr>"

definition task_of_message :: "broker_config \<Rightarrow> string \<Rightarrow> message \<Rightarrow> task" where
  "task_of_message cfg q m =
     \<lparr> tk_id = ms_id m, tk_kind = ms_kind m, tk_queue = q, tk_body = ms_body m,
       tk_retry_count = (case ms_retry_count m of None \<Rightarrow> 0 | Some n \<Rightarrow> n),
       tk_max_retry = (case ms_max_retry m of None \<Rightarrow> bc_max_retry cfg | Some n \<Rightarrow> n),
       tk_timeout = (case ms_timeout_ms m of None \<Rightarrow> bc_task_timeout cfg
          | Some n \<Rightarrow> if 0 < n then n * millisecond else bc_task_timeout cfg),
       tk_lease_token = 0 \<rparr>"

text \<open>How a message ends: acknowledged, put back or left unsettled by an exiting process; what was
  published before, and the error that stops the consumer.\<close>

datatype verdict = Ack | Requeue | Unsettled

record message_end =
  me_verdict :: verdict
  me_sent :: "(string \<times> task) option"
  me_error :: "go_error option"

definition ended :: "verdict \<Rightarrow> (string \<times> task) option \<Rightarrow> go_error option \<Rightarrow> message_end" where
  "ended v s e = \<lparr> me_verdict = v, me_sent = s, me_error = e \<rparr>"

definition publish_then_ack :: "(string \<Rightarrow> task \<Rightarrow> go_error option) \<Rightarrow> string \<Rightarrow> task \<Rightarrow> message_end" where
  "publish_then_ack publish key t =
     (case publish key t of
        Some e \<Rightarrow> ended Requeue None (Some e)
      | None \<Rightarrow> ended Ack (Some (key, t)) None)"

text \<open>The terminal branch records the failure first; \<open>recorder\<close> is \<open>RecordFailure\<close> of the store, or an
  error that keeps the message.\<close>

definition settle_message ::
  "(string \<Rightarrow> task \<Rightarrow> go_error option) \<Rightarrow> (task \<Rightarrow> go_error \<Rightarrow> db \<Rightarrow> db result) option \<Rightarrow> bool \<Rightarrow>
   string \<Rightarrow> task \<Rightarrow> go_error option \<Rightarrow> db \<Rightarrow> message_end \<times> db" where
  "settle_message publish recorder canceled q t err d =
     (if canceled then (ended Requeue None None, d)
      else case err of
        None \<Rightarrow> (ended Ack None None, d)
      | Some e \<Rightarrow>
          if errors_is e TaskStorage \<or> errors_is e TaskLeaseLost then (ended Requeue None (Some e), d)
          else if errors_is e TaskBusy then (publish_then_ack publish (retry_queue q (retry_delays ! 0)) t, d)
          else if errors_is e TaskConflict then (publish_then_ack publish (q @ ''.dlq'') t, d)
          else if errors_is e err_task_dead then (publish_then_ack publish (q @ ''.dlq'') t, d)
          else if errors_is e ErrSkipRetry \<or> tk_max_retry t \<le> tk_retry_count t
            then (case recorder of
                    None \<Rightarrow> (publish_then_ack publish (q @ ''.dlq'') t, d)
                  | Some f \<Rightarrow> (case f t e d of
                      Inl e' \<Rightarrow> (ended Requeue None (Some e'), d)
                    | Inr d' \<Rightarrow> (publish_then_ack publish (q @ ''.dlq'') t, d')))
          else (publish_then_ack publish (retry_queue q (retry_delay (tk_retry_count t + 1)))
                 (t\<lparr>tk_retry_count := tk_retry_count t + 1\<rparr>), d))"

definition handle_delivery ::
  "broker_config \<Rightarrow> exec_env \<Rightarrow> (string \<Rightarrow> bool) \<Rightarrow> (string \<Rightarrow> task \<Rightarrow> go_error option) \<Rightarrow>
   (task \<Rightarrow> go_error \<Rightarrow> db \<Rightarrow> db result) option \<Rightarrow> bool \<Rightarrow> time \<Rightarrow> uuid \<Rightarrow>
   (task \<Rightarrow> db \<Rightarrow> run) \<Rightarrow> string \<Rightarrow> message \<Rightarrow> db \<Rightarrow> message_end \<times> db" where
  "handle_delivery cfg env known publish recorder canceled now token world q m d =
     (let t = task_of_message cfg q m;
          (err, t', d') = (if tk_id t = [] \<or> tk_kind t = [] \<or> tk_retry_count t < 0 \<or> tk_max_retry t < 0
             then (Some (Some (ErrWrap ErrSkipRetry ''invalid task envelope'')), t, d)
             else process_task env known now token world t d)
      in case err of
           None \<Rightarrow> (ended Unsettled None None, d')
         | Some e \<Rightarrow> settle_message publish recorder canceled q t' e d')"

end
