(* ===== verification/Dispatcher.thy ===== *)
theory Dispatcher
  imports Outbox TaskExecution "HOL-Library.Option_ord"
begin

text \<open>
  Package \<open>outbox\<close>, the dispatching side (\<open>dispatcher.go\<close>, \<open>execution_recovery.go\<close>,
  \<open>consumption.go\<close>): claiming due delivery rows under a lease, publishing their tasks, settling the
  rows, repairing published rows whose execution went missing, and the consumer marker.  The broker
  is a parameter; each database transaction is one step at one clock value, so rows that another
  transaction has locked (\<open>SKIP LOCKED\<close>) do not arise.  Metrics, logging and the leader lock are left out.
\<close>

record dispatch_config =
  dc_poll_interval :: time
  dc_max_poll_interval :: time
  dc_batch_size :: nat
  dc_gc_delay :: time
  dc_max_retry :: int
  dc_task_timeout :: time
  dc_publish_timeout :: time
  dc_ai_enabled :: bool
  dc_search_enabled :: bool

section \<open>Polling\<close>

definition min_duration :: "time \<Rightarrow> time \<Rightarrow> time" where
  "min_duration a b = (if a < b then a else b)"

definition poll_bounds :: "dispatch_config \<Rightarrow> time \<times> time" where
  "poll_bounds c =
     (let lo = (if dc_poll_interval c \<le> 0 then second else dc_poll_interval c);
          hi = (if dc_max_poll_interval c < lo then lo else dc_max_poll_interval c)
      in (lo, hi))"

definition next_poll_interval :: "time \<Rightarrow> time \<Rightarrow> time \<Rightarrow> time" where
  "next_poll_interval current lo hi =
     (if current < lo then lo
      else if hi div 2 \<le> current then hi
      else min_duration (current * 2) hi)"

text \<open>\<open>draw\<close> is the random part of a spread.\<close>

definition jitter_down :: "(time \<Rightarrow> time) \<Rightarrow> time \<Rightarrow> time \<Rightarrow> time" where
  "jitter_down draw delay lo =
     (if delay \<le> lo then delay else delay - draw (min_duration (delay div 5) (delay - lo)))"

definition delivery_backoff :: "int \<Rightarrow> time" where
  "delivery_backoff n =
     (let a = (if n < 0 then 0 else n); b = (if a > 6 then 6 else a)
      in 2 ^ nat b * second)"

section \<open>Payloads\<close>

definition set_field :: "string \<Rightarrow> jvalue \<Rightarrow> jfields \<Rightarrow> jfields" where
  "set_field k v fs = (k, v) # filter (\<lambda>(j, _). j \<noteq> k) fs"

definition trace_fields :: "trace_context \<Rightarrow> (string \<times> string) list" where
  "trace_fields t =
     (if traceparent t = [] then [] else [(''traceparent'', traceparent t)]) @
     (if tracestate t = [] then [] else [(''tracestate'', tracestate t)])"

definition payload_with_trace :: "outbox_event \<Rightarrow> json" where
  "payload_with_trace e =
     (let f0 = (case ev_payload e of JsonNull \<Rightarrow> [] | JsonObject fs \<Rightarrow> fs);
          f1 = set_field ''event_id'' (JUuid (ev_id e)) f0;
          f2 = (if map_of f1 ''task_id'' = None then set_field ''task_id'' (JUuid (ev_id e)) f1 else f1);
          f3 = set_field ''event_type'' (JStr (ev_event_type e)) f2;
          f4 = set_field ''event_version'' (JInt (ev_event_version e)) f3;
          f5 = (case ev_aggregate_version e of None \<Rightarrow> f4 | Some v \<Rightarrow> set_field ''aggregate_version'' (JInt v) f4);
          f6 = (case ev_trace_context e of None \<Rightarrow> f5 | Some t \<Rightarrow> set_field ''_trace'' (JObject (trace_fields t)) f5)
      in JsonObject f6)"

section \<open>Claiming\<close>

definition gc_destination :: "string \<Rightarrow> bool" where
  "gc_destination s \<longleftrightarrow> s = ''object.gc.v1@maintenance'' \<or> s = ''object.gc_requested.v1@maintenance''"

definition pinned :: "time \<Rightarrow> db \<Rightarrow> delivery \<Rightarrow> delivery" where
  "pinned gc d r =
     (case event_by_id (dl_event_id r) d of
        None \<Rightarrow> r
      | Some e \<Rightarrow>
          if dl_transport r = rabbitmq \<and> dl_status r \<in> {DeliveryPending, DeliveryFailed, DeliverySending} \<and>
             dl_not_before r = None
          then r\<lparr>dl_not_before := Some (if gc_destination (dl_destination r)
                   then max (ev_available_at e) (ev_created_at e + gc div millisecond * millisecond)
                   else ev_available_at e)\<rparr>
          else r)"

definition pin_delivery_deadlines :: "time \<Rightarrow> db \<Rightarrow> db" where
  "pin_delivery_deadlines gc d = d\<lparr>outbox_deliveries := map (pinned gc d) (outbox_deliveries d)\<rparr>"

definition claimable_delivery :: "time \<Rightarrow> delivery \<Rightarrow> bool" where
  "claimable_delivery now r \<longleftrightarrow> dl_transport r = rabbitmq \<and>
     (case dl_not_before r of None \<Rightarrow> False | Some t \<Rightarrow> t \<le> now) \<and>
     (dl_status r \<in> {DeliveryPending, DeliveryFailed} \<and> dl_available_at r \<le> now \<or>
      dl_status r = DeliverySending \<and> (case dl_lease_until r of None \<Rightarrow> False | Some t \<Rightarrow> t \<le> now))"

definition due_deliveries :: "dispatch_config \<Rightarrow> time \<Rightarrow> db \<Rightarrow> delivery list" where
  "due_deliveries c now d =
     take (dc_batch_size c) (sort_key dl_available_at (sort_key dl_event_id
       (filter (claimable_delivery now) (outbox_deliveries d))))"

definition claim_until :: "dispatch_config \<Rightarrow> time \<Rightarrow> time" where
  "claim_until c now =
     (let t = now + int (dc_batch_size c) * (dc_publish_timeout c + second) + minute
      in if t < now + minute then now + minute else t)"

record claimed_delivery =
  cl_delivery :: delivery
  cl_event :: outbox_event

definition sending :: "time \<Rightarrow> uuid \<Rightarrow> delivery \<Rightarrow> delivery" where
  "sending until token r = r\<lparr>dl_status := DeliverySending, dl_attempt := dl_attempt r + 1,
     dl_lease_until := Some until, dl_lease_token := Some token, dl_last_error := None\<rparr>"

definition claim_row :: "time \<Rightarrow> uuid \<Rightarrow> delivery \<Rightarrow> db \<Rightarrow> db" where
  "claim_row until token r d = d\<lparr>outbox_deliveries :=
     update_where (\<lambda>q. delivery_key q = delivery_key r) (sending until token) (outbox_deliveries d)\<rparr>"

primrec claim_due_rows :: "(nat \<Rightarrow> uuid) \<Rightarrow> time \<Rightarrow> nat \<Rightarrow> delivery list \<Rightarrow> db \<Rightarrow> (claimed_delivery list \<times> db) result" where
  "claim_due_rows mint until k [] d = Inr ([], d)"
| "claim_due_rows mint until k (r # rs) d =
     attempt (found (ErrNew ''outbox event not found'') (event_by_id (dl_event_id r) d)) (\<lambda>e.
     attempt (claim_due_rows mint until (Suc k) rs (claim_row until (mint k) r d)) (\<lambda>(items, d').
     Inr (\<lparr> cl_delivery = r\<lparr>dl_status := DeliverySending, dl_attempt := dl_attempt r + 1,
              dl_lease_until := Some until, dl_lease_token := Some (mint k)\<rparr>, cl_event = e \<rparr> # items, d')))"

definition claim_deliveries ::
  "dispatch_config \<Rightarrow> (nat \<Rightarrow> uuid) \<Rightarrow> time \<Rightarrow> db \<Rightarrow> (claimed_delivery list \<times> db) result" where
  "claim_deliveries c mint now d = claim_due_rows mint (claim_until c now) 0 (due_deliveries c now d) d"

section \<open>Settling a row\<close>

definition held_by :: "delivery \<Rightarrow> delivery \<Rightarrow> bool" where
  "held_by r q \<longleftrightarrow> delivery_key q = delivery_key r \<and> dl_status q = DeliverySending \<and>
     dl_lease_token q = dl_lease_token r \<and> dl_lease_token r \<noteq> None"

definition release_claim :: "delivery \<Rightarrow> db \<Rightarrow> db" where
  "release_claim r d = (if dl_lease_token r = None then d
     else d\<lparr>outbox_deliveries := update_where (held_by r)
       (\<lambda>q. q\<lparr>dl_status := DeliveryPending, dl_lease_until := None, dl_lease_token := None\<rparr>) (outbox_deliveries d)\<rparr>)"

definition release_claims :: "claimed_delivery list \<Rightarrow> db \<Rightarrow> db" where
  "release_claims items d = fold (\<lambda>i. release_claim (cl_delivery i)) items d"

definition published_row :: "time \<Rightarrow> bool \<Rightarrow> delivery \<Rightarrow> delivery" where
  "published_row now unleased q = q\<lparr>dl_status := DeliveryPublished, dl_published_at := Some now, dl_lease_until := None,
     dl_lease_token := None, dl_last_error := None,
     dl_attempt := (if unleased then dl_attempt q + 1 else dl_attempt q)\<rparr>"

definition mark_delivery_published :: "time \<Rightarrow> delivery \<Rightarrow> db \<Rightarrow> db result" where
  "mark_delivery_published now r d =
     (let P = (if dl_lease_token r = None then (\<lambda>q. delivery_key q = delivery_key r) else held_by r);
          n = count_where P (outbox_deliveries d)
      in if n \<noteq> 1 then Inl (ErrNew ''outbox delivery lease lost'')
         else Inr (d\<lparr>outbox_deliveries := update_where P (published_row now (dl_lease_token r = None)) (outbox_deliveries d)\<rparr>))"

definition refresh_legacy_event_status :: "time \<Rightarrow> uuid \<Rightarrow> db \<Rightarrow> db" where
  "refresh_legacy_event_status now eid d =
     (if 0 < count_where (\<lambda>q. dl_event_id q = eid \<and> dl_status q \<noteq> DeliveryPublished) (outbox_deliveries d) then d
      else d\<lparr>outbox_events := update_where (\<lambda>e. ev_id e = eid)
        (\<lambda>e. e\<lparr>ev_status := DeliveryPublished, ev_published_at := Some now, ev_attempt := ev_attempt e + 1\<rparr>)
        (outbox_events d)\<rparr>)"

definition ack_delivery :: "time \<Rightarrow> delivery \<Rightarrow> outbox_event \<Rightarrow> db \<Rightarrow> go_error option \<times> db" where
  "ack_delivery now r e d =
     (case mark_delivery_published now r d of
        Inl err \<Rightarrow> (Some err, release_claim r d)
      | Inr d' \<Rightarrow> (None, refresh_legacy_event_status now (ev_id e) d'))"

definition fail_delivery :: "go_error option \<Rightarrow> time \<Rightarrow> delivery \<Rightarrow> string \<Rightarrow> db \<Rightarrow> go_error option \<times> db" where
  "fail_delivery canceled now r msg d =
     (case canceled of
        Some e \<Rightarrow> (Some e, release_claim r d)
      | None \<Rightarrow> (Some (ErrNew msg), d\<lparr>outbox_deliveries := update_where (held_by r)
          (\<lambda>q. q\<lparr>dl_status := DeliveryFailed,
            dl_available_at := now + delivery_backoff (int (dl_attempt r)) div millisecond * millisecond,
            dl_lease_until := None, dl_lease_token := None, dl_last_error := Some msg\<rparr>) (outbox_deliveries d)\<rparr>))"

section \<open>Sending\<close>

text \<open>What one send meets: the clock of its last statement, the state of the context before and after
  publishing, and the broker's answer with the text of an error.\<close>

record send_env =
  se_now :: time
  se_before :: "go_error option"
  se_publish :: "task \<Rightarrow> string option"
  se_after :: "go_error option"

definition delivery_task :: "dispatch_config \<Rightarrow> delivery \<Rightarrow> outbox_event \<Rightarrow> delivery_target \<Rightarrow> task" where
  "delivery_task c r e t =
     \<lparr> tk_id = uuid_string (ev_id e) @ '':'' @ tg_destination t, tk_kind = tg_task_type t, tk_queue = tg_queue t,
       tk_body = payload_with_trace e, tk_retry_count = dl_task_retry_count r,
       tk_max_retry = (case dl_task_max_retry r of None \<Rightarrow> dc_max_retry c | Some n \<Rightarrow> n),
       tk_timeout = (case dl_task_timeout_ms r of None \<Rightarrow> dc_task_timeout c | Some n \<Rightarrow> n * millisecond),
       tk_lease_token = 0 \<rparr>"

abbreviation unsupported :: string where "unsupported \<equiv> ''unsupported delivery transport or destination''"

definition send_delivery :: "dispatch_config \<Rightarrow> send_env \<Rightarrow> claimed_delivery \<Rightarrow> db \<Rightarrow> go_error option \<times> db" where
  "send_delivery c env item d =
     (let r = cl_delivery item; e = cl_event item in
      case se_before env of
        Some err \<Rightarrow> (Some err, release_claims [item] d)
      | None \<Rightarrow> (case target_from_delivery r of
          None \<Rightarrow> fail_delivery None (se_now env) r unsupported d
        | Some t0 \<Rightarrow>
            if tg_queue t0 = ''ai'' \<and> \<not> dc_ai_enabled c then ack_delivery (se_now env) r e d
            else (case target_allowed_for_event (ev_event_type e) (dc_ai_enabled c) (dc_search_enabled c) r of
                None \<Rightarrow> fail_delivery None (se_now env) r unsupported d
              | Some t \<Rightarrow> (case se_publish env (delivery_task c r e t) of
                  None \<Rightarrow> ack_delivery (se_now env) r e d
                | Some msg \<Rightarrow> (case se_after env of
                    Some err \<Rightarrow> (Some err, release_claims [item] d)
                  | None \<Rightarrow> fail_delivery None (se_now env) r msg d)))))"

text \<open>The loop over a claimed batch: \<open>stop\<close> is the shutdown or the lost leadership seen before item
  \<open>k\<close>; the first failure ends the batch and releases the rest.\<close>

primrec dispatch_items ::
  "dispatch_config \<Rightarrow> (nat \<Rightarrow> go_error option) \<Rightarrow> (nat \<Rightarrow> send_env) \<Rightarrow> nat \<Rightarrow> claimed_delivery list \<Rightarrow> db \<Rightarrow>
   nat \<times> go_error option \<times> db" where
  "dispatch_items c stop env k [] d = (k, None, d)"
| "dispatch_items c stop env k (i # items) d =
     (case stop k of
        Some err \<Rightarrow> (k, Some err, release_claims (i # items) d)
      | None \<Rightarrow> (case send_delivery c (env k) i d of
          (Some err, d') \<Rightarrow> (Suc k, Some err, release_claims items d')
        | (None, d') \<Rightarrow> dispatch_items c stop env (Suc k) items d'))"

section \<open>Preparation\<close>

definition open_events :: "db \<Rightarrow> outbox_event list" where
  "open_events d = take 100 (sort_key ev_created_at
     (filter (\<lambda>e. ev_status e \<in> {DeliveryPending, DeliveryFailed}) (outbox_events d)))"

definition ensure_legacy_deliveries :: "time \<Rightarrow> bool \<Rightarrow> db \<Rightarrow> db" where
  "ensure_legacy_deliveries now ai d =
     fold (\<lambda>e. add_deliveries_with_search now (ev_id e) (ev_event_type e) ai False) (open_events d) d"

definition ensure_search_deliveries :: "time \<Rightarrow> bool \<Rightarrow> db \<Rightarrow> db" where
  "ensure_search_deliveries now enabled d =
     (if \<not> enabled then d
      else fold (\<lambda>e. add_deliveries_with_search now (ev_id e) (ev_event_type e) False True) (open_events d) d)"

section \<open>Execution recovery\<close>

definition delivery_task_id :: "delivery \<Rightarrow> string" where
  "delivery_task_id r = uuid_string (dl_event_id r) @ '':'' @
     (case target_from_delivery r of None \<Rightarrow> dl_destination r | Some t \<Rightarrow> tg_destination t)"

text \<open>The row may be replayed: its execution is missing, expired or overdue.\<close>

definition published_before :: "time \<Rightarrow> delivery \<Rightarrow> bool" where
  "published_before t r \<longleftrightarrow> (case dl_published_at r of None \<Rightarrow> False | Some p \<Rightarrow> p \<le> t)"

definition execution_due :: "time \<Rightarrow> time \<Rightarrow> execution \<Rightarrow> bool" where
  "execution_due now stale x \<longleftrightarrow> (case te_status x of
      ExecRunning \<Rightarrow> (case te_lease_until x of Some l \<Rightarrow> l \<le> now | None \<Rightarrow> te_updated_at x + stale \<le> now)
    | ExecRetry \<Rightarrow> te_available_at x + stale \<le> now
    | ExecFinished \<Rightarrow> False)"

definition replayed :: "time \<Rightarrow> execution option \<Rightarrow> delivery \<Rightarrow> delivery" where
  "replayed now x q =
     (let q' = q\<lparr>dl_status := DeliveryPending, dl_available_at := now, dl_lease_until := None, dl_lease_token := None,
                dl_last_error := Some ''execution receipt missing; replay original task''\<rparr>
      in case x of None \<Rightarrow> q'
         | Some y \<Rightarrow> q'\<lparr>dl_task_retry_count := te_retry_count y, dl_task_max_retry := Some (te_max_retry y),
                       dl_task_timeout_ms := Some (te_timeout_ms y)\<rparr>)"

text \<open>\<open>(active, repaired, terminalDead)\<close> with the database.\<close>

definition recover_published :: "time \<Rightarrow> time \<Rightarrow> delivery \<Rightarrow> db \<Rightarrow> (bool \<times> bool \<times> bool \<times> db) result" where
  "recover_published now stale r d =
     (let i = delivery_task_id r in
      case result_of i d of
        Some res \<Rightarrow> Inr (False, False, tr_status res = TaskDead, d)
      | None \<Rightarrow>
          (let x = execution_of i d;
               due = published_before (now - stale) r \<and> (case x of None \<Rightarrow> True | Some y \<Rightarrow> execution_due now stale y);
               P = (\<lambda>q. delivery_key q = delivery_key r \<and> dl_status q = DeliveryPublished)
           in if (case x of None \<Rightarrow> False | Some y \<Rightarrow> te_status y = ExecFinished)
              then Inl (ErrNew ''outbox: finished execution without terminal receipt'')
              else if \<not> due then Inr (True, False, False, d)
              else if count_where P (outbox_deliveries d) \<noteq> 1 then Inr (True, False, False, d)
              else Inr (True, True, False, d\<lparr>
                outbox_deliveries := update_where P (replayed now x) (outbox_deliveries d),
                outbox_events := update_where (\<lambda>e. ev_id e = dl_event_id r)
                  (\<lambda>e. e\<lparr>ev_status := DeliveryPending, ev_available_at := now\<rparr>) (outbox_events d)\<rparr>)))"

text \<open>The rows of an aggregate, oldest publication first; \<open>since\<close> isolates a newer generation.\<close>

definition aggregate_rows :: "uuid \<Rightarrow> time option \<Rightarrow> db \<Rightarrow> delivery list" where
  "aggregate_rows agg since d =
     map fst (sort_key (\<lambda>(r, e). dl_published_at r) (sort_key (\<lambda>(r, e). ev_created_at e) (sort_key (\<lambda>(r, e). dl_event_id r)
       (concat (map (\<lambda>r. map (\<lambda>e. (r, e)) (filter (\<lambda>e. ev_id e = dl_event_id r \<and> ev_aggregate_id e = agg \<and>
          (case since of None \<Rightarrow> True | Some t \<Rightarrow> t \<le> ev_created_at e)) (outbox_events d))) (outbox_deliveries d))))))"

primrec recover_rows ::
  "delivery_target list \<Rightarrow> time \<Rightarrow> time \<Rightarrow> bool \<Rightarrow> delivery list \<Rightarrow> bool \<times> bool \<times> bool \<times> db \<Rightarrow> (bool \<times> bool \<times> bool \<times> db) result" where
  "recover_rows wanted now stale retry_terminal [] s = Inr s"
| "recover_rows wanted now stale retry_terminal (r # rs) s =
     (case s of (active, repaired, terminal_dead, d) \<Rightarrow>
        (case target_from rabbitmq (dl_destination r) of
           None \<Rightarrow> recover_rows wanted now stale retry_terminal rs s
         | Some p \<Rightarrow>
             if \<not> route_matches wanted p then recover_rows wanted now stale retry_terminal rs s
             else if dl_status r \<noteq> DeliveryPublished \<or> dl_transport r \<noteq> rabbitmq
               then recover_rows wanted now stale retry_terminal rs (True, repaired, terminal_dead, d)
             else attempt (recover_published now stale r d) (\<lambda>(live, replay, dead, d').
               recover_rows wanted now stale retry_terminal rs
                 (active \<or> live \<or> (dead \<and> \<not> retry_terminal), repaired \<or> replay, dead, d'))))"

definition recover_delivery_with ::
  "string \<Rightarrow> uuid \<Rightarrow> time \<Rightarrow> time \<Rightarrow> bool \<Rightarrow> time option \<Rightarrow> db \<Rightarrow> (bool \<times> bool \<times> bool \<times> db) result" where
  "recover_delivery_with et agg now stale retry_terminal since d =
     (if et = [] \<or> agg = 0 \<or> stale \<le> 0 then Inl (ErrNew ''outbox: invalid recovery lookup'')
      else recover_rows (routes et True) now stale retry_terminal (aggregate_rows agg since d) (False, False, False, d))"

definition recover_delivery :: "string \<Rightarrow> uuid \<Rightarrow> time \<Rightarrow> time \<Rightarrow> db \<Rightarrow> (bool \<times> bool \<times> db) result" where
  "recover_delivery et agg now stale d =
     attempt (recover_delivery_with et agg now stale False None d) (\<lambda>(a, r, _, d'). Inr (a, r, d'))"

definition recover_delivery_since :: "string \<Rightarrow> uuid \<Rightarrow> time \<Rightarrow> time \<Rightarrow> time \<Rightarrow> db \<Rightarrow> (bool \<times> bool \<times> db) result" where
  "recover_delivery_since et agg now stale since d =
     attempt (recover_delivery_with et agg now stale False (if since = zero_time then None else Some since) d)
       (\<lambda>(a, r, _, d'). Inr (a, r, d'))"

definition recover_delivery_for_retryable_work ::
  "string \<Rightarrow> uuid \<Rightarrow> time \<Rightarrow> time \<Rightarrow> db \<Rightarrow> (bool \<times> bool \<times> bool \<times> db) result" where
  "recover_delivery_for_retryable_work et agg now stale d = recover_delivery_with et agg now stale True None d"

text \<open>The supported destinations of an event type with their canonical form, legacy aliases included.\<close>

definition recovery_routes :: "string \<Rightarrow> bool \<Rightarrow> bool \<Rightarrow> (string \<times> string) list" where
  "recovery_routes et ai search =
     (if et \<notin> set (map fst definitions) then []
      else concat (map (\<lambda>t. (tg_destination t, tg_destination t) #
        map (\<lambda>legacy. (legacy @ ''@'' @ tg_queue t, tg_destination t))
          (filter (\<lambda>legacy. legacy \<noteq> tg_task_type t \<and> canonical_task_type legacy (tg_queue t) = (tg_task_type t, tg_queue t))
            (map fst definitions)))
        (routes et ai @ search_routes et search)))"

definition recoverable :: "time \<Rightarrow> time \<Rightarrow> bool \<Rightarrow> bool \<Rightarrow> db \<Rightarrow> delivery \<Rightarrow> bool" where
  "recoverable now stale ai search d r \<longleftrightarrow> dl_transport r = rabbitmq \<and> dl_status r = DeliveryPublished \<and>
     published_before (now - stale) r \<and>
     (case event_by_id (dl_event_id r) d of
        None \<Rightarrow> False
      | Some e \<Rightarrow> (case map_of (recovery_routes (ev_event_type e) ai search) (dl_destination r) of
          None \<Rightarrow> False
        | Some canonical \<Rightarrow>
            (let i = uuid_string (dl_event_id r) @ '':'' @ canonical in
             result_of i d = None \<and>
             (case execution_of i d of None \<Rightarrow> True | Some x \<Rightarrow> execution_due now stale x))))"

primrec recover_batch ::
  "time \<Rightarrow> time \<Rightarrow> bool \<Rightarrow> bool \<Rightarrow> delivery list \<Rightarrow> nat \<Rightarrow> db \<Rightarrow> (nat \<times> db) result" where
  "recover_batch now stale ai search [] n d = Inr (n, d)"
| "recover_batch now stale ai search (r # rs) n d =
     attempt (found GormRecordNotFound (event_by_id (dl_event_id r) d)) (\<lambda>e.
       if target_allowed_for_event (ev_event_type e) ai search r = None then recover_batch now stale ai search rs n d
       else attempt (recover_published now stale r d) (\<lambda>(_, replay, _, d').
         recover_batch now stale ai search rs (if replay then n + 1 else n) d'))"

definition recover_published_batch :: "time \<Rightarrow> time \<Rightarrow> nat \<Rightarrow> bool \<Rightarrow> bool \<Rightarrow> db \<Rightarrow> (nat \<times> db) result" where
  "recover_published_batch now stale limit ai search d =
     (if limit = 0 \<or> stale \<le> 0 then Inl (ErrNew ''outbox: invalid recovery batch'')
      else recover_batch now stale ai search
        (take limit (sort_key dl_published_at (sort_key dl_event_id (filter (recoverable now stale ai search d) (outbox_deliveries d))))) 0 d)"

section \<open>A batch\<close>

text \<open>\<open>prepared\<close> is the time of the last full preparation.\<close>

definition prepare_deliveries :: "dispatch_config \<Rightarrow> time \<Rightarrow> db \<Rightarrow> db result" where
  "prepare_deliveries c now d =
     (let d1 = ensure_search_deliveries now (dc_search_enabled c) (ensure_legacy_deliveries now (dc_ai_enabled c) d) in
      attempt (recover_published_batch now (15 * minute) (dc_batch_size c) (dc_ai_enabled c) (dc_search_enabled c) d1) (\<lambda>(_, d2).
      Inr (pin_delivery_deadlines (dc_gc_delay c) d2)))"

definition prepare_for_dispatch :: "dispatch_config \<Rightarrow> time option \<Rightarrow> time \<Rightarrow> db \<Rightarrow> (time option \<times> db) result" where
  "prepare_for_dispatch c prepared now d =
     (if (case prepared of None \<Rightarrow> False | Some t \<Rightarrow> now - t < snd (poll_bounds c))
      then Inr (prepared, pin_delivery_deadlines (dc_gc_delay c) d)
      else attempt (prepare_deliveries c now d) (\<lambda>d'. Inr (Some now, d')))"

text \<open>The number of processed rows, the error that ended the batch, the preparation time and the database.\<close>

definition dispatch_batch ::
  "dispatch_config \<Rightarrow> (nat \<Rightarrow> uuid) \<Rightarrow> (nat \<Rightarrow> go_error option) \<Rightarrow> (nat \<Rightarrow> send_env) \<Rightarrow> time option \<Rightarrow> time \<Rightarrow> db \<Rightarrow>
   nat \<times> go_error option \<times> time option \<times> db" where
  "dispatch_batch c mint stop env prepared now d =
     (case prepare_for_dispatch c prepared now d of
        Inl err \<Rightarrow> (0, Some err, prepared, d)
      | Inr (prepared', d1) \<Rightarrow> (case claim_deliveries c mint now d1 of
          Inl err \<Rightarrow> (0, Some err, prepared', d1)
        | Inr (items, d2) \<Rightarrow> (case dispatch_items c stop env 0 items d2 of
            (n, err, d3) \<Rightarrow> (n, err, prepared', d3))))"

section \<open>Consumers\<close>

text \<open>\<open>effect\<close> is the consumer's own work in the same transaction; an error rolls everything back.\<close>

definition consume_once :: "uuid \<Rightarrow> string \<Rightarrow> (db \<Rightarrow> db result) \<Rightarrow> db \<Rightarrow> (bool \<times> db) result" where
  "consume_once eid name effect d =
     (let consumer = trim_str name in
      if eid = 0 \<or> consumer = [] then Inl InvalidConsumer
      else if exists_where (\<lambda>m. ec_event_id m = eid \<and> ec_consumer_name m = consumer) (event_consumptions d) then Inr (False, d)
      else attempt (effect (d\<lparr>event_consumptions := event_consumptions d @
             [\<lparr> ec_event_id = eid, ec_consumer_name = consumer \<rparr>]\<rparr>)) (\<lambda>d'. Inr (True, d')))"

end
