(* ===== verification/TaskLifecycle.thy ===== *)
theory TaskLifecycle
  imports TaskExecution
begin

text \<open>
  What the task store promises.  A worker is fenced by its lease (an interpretation of
  \<open>lease_fence\<close> on \<open>claim_task\<close> and \<open>finish_task\<close>), the attempts of a task are bounded and its outcome
  is final (an invariant of \<open>exec_step\<close>, the statements of all workers interleaved), and the consumer
  never drops a message.
\<close>

section \<open>Lookups\<close>

lemma result_of_insert:
  "result_of i (insert_result j st d) = (if i = j \<and> result_of i d = None then Some \<lparr> tr_task_id = j, tr_status = st \<rparr>
     else result_of i d)"
proof -
  have app: "find P (xs @ [y]) = (case find P xs of None \<Rightarrow> if P y then Some y else None | Some x \<Rightarrow> Some x)"
    for P and xs :: "task_result list" and y
    by (induction xs) simp_all
  show ?thesis by (auto simp: insert_result_def result_of_def app split: option.splits)
qed

lemma insert_result_executions [frame_simps, simp]: "task_executions (insert_result i st d) = task_executions d"
  by (simp add: insert_result_def)

lemma record_failure_executions [frame_simps, simp]: "task_executions (record_failure t d) = task_executions d"
  by (simp add: record_failure_def Let_def)

lemma execution_of_cong: "task_executions d = task_executions d' \<Longrightarrow> execution_of i d = execution_of i d'"
  by (simp add: execution_of_def)

lemma execution_of_insert [simp]: "execution_of i (insert_result j st d) = execution_of i d"
  "execution_of i (record_failure t d) = execution_of i d"
  by (rule execution_of_cong, simp)+

lemma result_of_failures [simp]: "result_of i (d\<lparr>task_failures := fs\<rparr>) = result_of i d"
  "result_of i (d\<lparr>task_executions := xs\<rparr>) = result_of i d"
  by (simp_all add: result_of_def)

lemma result_of_record_failure:
  "result_of i (record_failure t d) = (if i = tk_id t \<and> result_of i d = None
     then Some \<lparr> tr_task_id = tk_id t, tr_status = TaskDead \<rparr> else result_of i d)"
  by (auto simp: record_failure_def Let_def result_of_insert split: option.splits)

text \<open>A recorded result is never replaced.\<close>

lemma result_of_mono:
  "result_of i d = Some r \<Longrightarrow> result_of i (insert_result j st d) = Some r"
  "result_of i d = Some r \<Longrightarrow> result_of i (record_failure t d) = Some r"
  by (simp_all add: result_of_insert result_of_record_failure)

lemma result_of_recorded:
  "result_of j (insert_result j st d) \<noteq> None" "result_of (tk_id t) (record_failure t d) \<noteq> None"
  by (simp_all add: result_of_insert result_of_record_failure)

abbreviation executions_keyed :: "db \<Rightarrow> bool" where
  "executions_keyed d \<equiv> key_distinct te_task_id (task_executions d)"

lemma execution_of_iff:
  "executions_keyed d \<Longrightarrow> execution_of i d = Some x \<longleftrightarrow> x \<in> set (task_executions d) \<and> te_task_id x = i"
  unfolding execution_of_def by (rule find_by_key)

lemma default_timeout_id [simp]: "tk_id (default_timeout t) = tk_id t"
  by (simp add: default_timeout_def)

lemma default_timeout_fields [simp]:
  "tk_retry_count (default_timeout t) = tk_retry_count t" "tk_max_retry (default_timeout t) = tk_max_retry t"
  "tk_kind (default_timeout t) = tk_kind t" "tk_queue (default_timeout t) = tk_queue t"
  "tk_body (default_timeout t) = tk_body t"
  by (simp_all add: default_timeout_def)

lemma take_over_fields [simp]:
  "te_task_id (take_over env now token x) = te_task_id x" "te_status (take_over env now token x) = ExecRunning"
  "te_lease_token (take_over env now token x) = Some token"
  "te_lease_until (take_over env now token x) = Some (now + lease_duration env)"
  "te_retry_count (take_over env now token x) = te_retry_count x"
  "te_max_retry (take_over env now token x) = te_max_retry x"
  by (simp_all add: take_over_def)

lemma claimed_fields [simp]:
  "tk_id (claimed token x t) = tk_id t" "tk_lease_token (claimed token x t) = token"
  "tk_retry_count (claimed token x t) = te_retry_count x" "tk_max_retry (claimed token x t) = te_max_retry x"
  by (simp_all add: claimed_def)

section \<open>Statements\<close>

text \<open>A successful claim either inserts the first execution or takes over a row whose lease ended or
  whose retry is due; there is no recorded result.\<close>

definition claim_startable :: "time \<Rightarrow> execution \<Rightarrow> bool" where
  "claim_startable now x \<longleftrightarrow> te_status x \<noteq> ExecFinished \<and>
     (te_status x = ExecRunning \<longrightarrow> (case te_lease_until x of None \<Rightarrow> True | Some l \<Rightarrow> l \<le> now)) \<and>
     (te_status x = ExecRetry \<longrightarrow> te_available_at x \<le> now)"

lemma claim_taskE:
  assumes "claim_task env now token t d = Inr (t', d')"
  obtains
    (first) x where "execution_of (tk_id t) d = None" "result_of (tk_id t) d = None"
      "x = new_execution env now token (default_timeout t)" "execution_check x"
      "t' = claimed token x (default_timeout t)" "d' = d\<lparr>task_executions := task_executions d @ [x]\<rparr>"
  | (again) x where "execution_of (tk_id t) d = Some x" "result_of (tk_id t) d = None" "claim_startable now x"
      "te_payload_sha256 x = fingerprint env t"
      "t' = claimed token (take_over env now token x) (default_timeout t)"
      "d' = d\<lparr>task_executions := update_where (\<lambda>y. te_task_id y = tk_id t) (take_over env now token) (task_executions d)\<rparr>"
proof (cases "execution_of (tk_id t) d")
  case None
  then show ?thesis using assms first
    by (auto simp: claim_task_def Let_def split: option.splits if_splits)
next
  case (Some x)
  have fp: "fingerprint env (default_timeout t) = fingerprint env t" by (simp add: fingerprint_def)
  have start: "claim_startable now x"
    "result_of (tk_id t) d = None" "te_payload_sha256 x = fingerprint env t"
    "t' = claimed token (take_over env now token x) (default_timeout t)"
    "d' = d\<lparr>task_executions := update_where (\<lambda>y. te_task_id y = tk_id t) (take_over env now token) (task_executions d)\<rparr>"
    using assms Some
    by (auto simp: claim_task_def claim_startable_def Let_def fp split: option.splits if_splits)
  show ?thesis using again[OF Some start(2,1,3-5)] .
qed

lemma update_ownedE:
  assumes "update_owned now t g d = Inr d'"
  obtains "count_where (owns now t) (task_executions d) = 1"
    "d' = d\<lparr>task_executions := update_where (owns now t) g (task_executions d)\<rparr>"
  using assms by (auto simp: update_owned_def split: if_splits)

lemma update_owned_owner:
  assumes "update_owned now t g d = Inr d'"
  obtains x where "x \<in> set (task_executions d)" "owns now t x"
  using update_ownedE[OF assms] count_where_pos_iff[of "owns now t" "task_executions d"] by auto

lemma finish_row_fields [simp]:
  "te_task_id (finish_row now s t c x) = te_task_id x" "te_lease_token (finish_row now s t c x) = None"
  "te_status (finish_row now s t c x) \<noteq> ExecRunning" "te_max_retry (finish_row now s t c x) = te_max_retry x"
  by (simp_all add: finish_row_def Let_def)

lemma finish_taskE:
  assumes "finish_task now s t c d = Inr d'"
  obtains d1 where "update_owned now t (finish_row now s t c) d = Inr d1"
    "d' = (if c = None then insert_result (tk_id t) TaskSucceeded d1
           else if finish_terminal s t c then record_failure t d1 else d1)"
  using assms by (auto simp: finish_task_def attempt_eq_Inr_iff)

section \<open>The lease\<close>

definition exec_holder :: "db \<Rightarrow> string \<Rightarrow> uuid option" where
  "exec_holder d i = (case execution_of i d of None \<Rightarrow> None
     | Some x \<Rightarrow> if te_status x = ExecRunning then te_lease_token x else None)"

definition exec_lease_until :: "db \<Rightarrow> string \<Rightarrow> time" where
  "exec_lease_until d i = (case execution_of i d of None \<Rightarrow> 0
     | Some x \<Rightarrow> (case te_lease_until x of None \<Rightarrow> 0 | Some l \<Rightarrow> l))"

definition exec_leased :: "db \<Rightarrow> bool" where
  "exec_leased d \<longleftrightarrow> executions_keyed d \<and>
     (\<forall>x \<in> set (task_executions d). te_status x = ExecRunning \<longrightarrow> te_lease_until x \<noteq> None)"

text \<open>A claim of task \<open>i\<close> with a token, and the end of a run under a token: what the message of the
  claim carries and what the worker remembers when it finishes are arbitrary functions of the event.\<close>

definition claim_state :: "exec_env \<Rightarrow> (time \<Rightarrow> uuid \<Rightarrow> string \<Rightarrow> task) \<Rightarrow> time \<Rightarrow> uuid \<Rightarrow> string \<Rightarrow> db \<Rightarrow> db" where
  "claim_state env msg now token i d =
     (case claim_task env now token ((msg now token i)\<lparr>tk_id := i\<rparr>) d of Inl _ \<Rightarrow> d | Inr (_, d') \<Rightarrow> d')"

definition finish_state ::
  "(time \<Rightarrow> uuid \<Rightarrow> string \<Rightarrow> task \<times> bool \<times> go_error option) \<Rightarrow> time \<Rightarrow> uuid \<Rightarrow> string \<Rightarrow> db \<Rightarrow> db" where
  "finish_state mem now token i d =
     (case mem now token i of (t, shutdown, cause) \<Rightarrow>
        (case finish_task now shutdown (t\<lparr>tk_id := i, tk_lease_token := token\<rparr>) cause d of Inl _ \<Rightarrow> d | Inr d' \<Rightarrow> d'))"

lemma execution_of_update:
  assumes "\<And>x. te_task_id (g x) = te_task_id x"
  shows "execution_of i (d\<lparr>task_executions := update_where P g (task_executions d)\<rparr>) =
    map_option (\<lambda>x. if P x then g x else x) (execution_of i d)"
  unfolding execution_of_def using find_update_by_key[of te_task_id g i P "task_executions d", OF assms] by simp

lemma execution_of_append:
  "execution_of i (d\<lparr>task_executions := task_executions d @ [x]\<rparr>) =
    (case execution_of i d of None \<Rightarrow> if te_task_id x = i then Some x else None | Some y \<Rightarrow> Some y)"
proof -
  have "find P (xs @ [x]) = (case find P xs of None \<Rightarrow> if P x then Some x else None | Some y \<Rightarrow> Some y)" for P xs
    by (induction xs) simp_all
  then show ?thesis by (simp add: execution_of_def)
qed

lemma new_execution_fields [simp]:
  "te_task_id (new_execution env now token t) = tk_id t" "te_status (new_execution env now token t) = ExecRunning"
  "te_lease_token (new_execution env now token t) = Some token"
  "te_lease_until (new_execution env now token t) = Some (now + lease_duration env)"
  "te_retry_count (new_execution env now token t) = tk_retry_count t"
  "te_max_retry (new_execution env now token t) = tk_max_retry t"
  by (simp_all add: new_execution_def)

text \<open>A claim leaves the rows of other tasks and gives the row of its own task to the token.\<close>

lemma claim_task_effect:
  assumes "claim_task env now token t d = Inr (t', d')"
  shows "(i \<noteq> tk_id t \<longrightarrow> execution_of i d' = execution_of i d) \<and>
    (\<exists>y. execution_of (tk_id t) d' = Some y \<and> te_status y = ExecRunning \<and> te_lease_token y = Some token \<and>
      te_lease_until y = Some (now + lease_duration env) \<and>
      te_retry_count y = tk_retry_count t' \<and> te_max_retry y = tk_max_retry t') \<and>
    (execution_of (tk_id t) d = Some x \<longrightarrow> claim_startable now x) \<and> tk_id t' = tk_id t \<and> tk_lease_token t' = token"
  using assms
proof (cases rule: claim_taskE)
  case (first z)
  then show ?thesis
    by (auto simp: execution_of_append split: option.splits)
next
  case (again z)
  have upd: "execution_of j d' = map_option (\<lambda>x. if te_task_id x = tk_id t then take_over env now token x else x)
      (execution_of j d)" for j
    unfolding again(6) by (rule execution_of_update) simp
  have id: "te_task_id z = tk_id t" using again(1) by (auto simp: execution_of_def find_Some_iff)
  have "i \<noteq> tk_id t \<Longrightarrow> execution_of i d' = execution_of i d"
    unfolding upd[of i] by (auto simp: execution_of_def find_Some_iff intro!: option.map_ident_strong)
  then show ?thesis
    using again(1,3,5) id upd[of "tk_id t"] by auto
qed

lemma claim_task_execution:
  assumes "claim_task env now token t d = Inr (t', d')"
  shows "i \<noteq> tk_id t \<Longrightarrow> execution_of i d' = execution_of i d"
    and "\<exists>y. execution_of (tk_id t) d' = Some y \<and> te_status y = ExecRunning \<and> te_lease_token y = Some token \<and>
      te_lease_until y = Some (now + lease_duration env) \<and>
      te_retry_count y = tk_retry_count t' \<and> te_max_retry y = tk_max_retry t'"
    and "execution_of (tk_id t) d = Some x \<Longrightarrow> claim_startable now x"
    and "tk_id t' = tk_id t" "tk_lease_token t' = token"
  using claim_task_effect[OF assms] by blast+

lemma in_update_or: "y \<in> set (update_where P g xs) \<Longrightarrow> y \<in> set xs \<or> (\<exists>x \<in> set xs. P x \<and> y = g x)"
  by (auto simp: in_set_update_where)

lemma claim_task_leased:
  assumes "exec_leased d" "claim_task env now token t d = Inr (t', d')"
  shows "exec_leased d'"
  using assms(2)
proof (cases rule: claim_taskE)
  case (first x)
  have "te_task_id x \<notin> te_task_id ` set (task_executions d)"
    using first(1,3) by (auto simp: execution_of_def find_None_iff)
  then show ?thesis using assms(1) first by (auto simp: exec_leased_def intro: key_distinct_append_new)
next
  case (again x)
  show ?thesis using assms(1) unfolding again exec_leased_def
    by (auto simp: in_set_update_where intro!: key_distinct_update)
qed

lemma update_owned_leased:
  assumes "exec_leased d" "update_owned now t g d = Inr d'" "\<And>x. te_task_id (g x) = te_task_id x"
    "\<And>x. owns now t x \<Longrightarrow> te_status (g x) = ExecRunning \<Longrightarrow> te_lease_until (g x) \<noteq> None"
  shows "exec_leased d'"
proof (rule update_ownedE[OF assms(2)])
  assume d': "d' = d\<lparr>task_executions := update_where (owns now t) g (task_executions d)\<rparr>"
  have "executions_keyed d'" using assms(1,3) d' by (simp add: exec_leased_def key_distinct_update)
  moreover have "te_lease_until y \<noteq> None" if "y \<in> set (task_executions d')" "te_status y = ExecRunning" for y
    using that assms(1,4) d' by (auto simp: exec_leased_def in_set_update_where)
  ultimately show ?thesis by (simp add: exec_leased_def)
qed

lemma exec_leased_cong: "task_executions d = task_executions d' \<Longrightarrow> exec_leased d = exec_leased d'"
  by (simp add: exec_leased_def)

lemma finish_task_leased:
  assumes "exec_leased d" "finish_task now s t c d = Inr d'"
  shows "exec_leased d'"
proof (rule finish_taskE[OF assms(2)])
  fix d1 assume d1: "update_owned now t (finish_row now s t c) d = Inr d1"
    and d': "d' = (if c = None then insert_result (tk_id t) TaskSucceeded d1
           else if finish_terminal s t c then record_failure t d1 else d1)"
  have "exec_leased d1" by (rule update_owned_leased[OF assms(1) d1]) simp_all
  then show ?thesis using exec_leased_cong[of d1 d'] d' by simp
qed

text \<open>A finished run changes the row its token holds and no other.\<close>

lemma finish_task_execution:
  assumes "finish_task now s t c d = Inr d'"
  shows "execution_of i d' = map_option (\<lambda>x. if owns now t x then finish_row now s t c x else x) (execution_of i d)"
proof (rule finish_taskE[OF assms])
  fix d1 assume d1: "update_owned now t (finish_row now s t c) d = Inr d1"
    and d': "d' = (if c = None then insert_result (tk_id t) TaskSucceeded d1
           else if finish_terminal s t c then record_failure t d1 else d1)"
  have "execution_of i d1 = map_option (\<lambda>x. if owns now t x then finish_row now s t c x else x) (execution_of i d)"
    by (rule update_ownedE[OF d1]) (simp add: execution_of_update)
  then show ?thesis using d' by simp
qed

lemma finish_task_owner:
  assumes "exec_leased d" "finish_task now s t c d = Inr d'"
  shows "exec_holder d (tk_id t) = Some (tk_lease_token t)" "exec_holder d' (tk_id t) = None"
proof -
  obtain x where x: "x \<in> set (task_executions d)" "owns now t x"
    using assms(2) by (blast elim: finish_taskE update_owned_owner)
  have of: "execution_of (tk_id t) d = Some x"
    using x assms(1) execution_of_iff by (auto simp: exec_leased_def owns_def)
  then show "exec_holder d (tk_id t) = Some (tk_lease_token t)" using x(2) by (simp add: exec_holder_def owns_def)
  show "exec_holder d' (tk_id t) = None"
    using finish_task_execution[OF assms(2), of "tk_id t"] of x(2) by (simp add: exec_holder_def)
qed

interpretation exec_lease:
  lease_fence exec_holder exec_lease_until "claim_state env msg" "finish_state mem" exec_leased for env msg mem
proof (unfold_locales, goal_cases)
  case (1 s now t k)
  then show ?case by (auto simp: claim_state_def intro: claim_task_leased split: sum.splits)
next
  case (2 s now t k)
  then show ?case by (auto simp: finish_state_def intro: finish_task_leased split: sum.splits prod.splits)
next
  case (3 s k' k now t)
  then show ?case
    by (auto simp: claim_state_def exec_holder_def claim_task_execution(1) split: sum.splits prod.splits)
next
  case (4 s now t k)
  show ?case
  proof (cases "claim_task env now t ((msg now t k)\<lparr>tk_id := k\<rparr>) s")
    case (Inr p)
    then obtain t' d' where "claim_task env now t ((msg now t k)\<lparr>tk_id := k\<rparr>) s = Inr (t', d')" by (cases p) auto
    with claim_task_execution(2)[OF this] show ?thesis by (auto simp: claim_state_def exec_holder_def)
  qed (simp add: claim_state_def)
next
  case (5 s k u now t)
  obtain x l where x: "execution_of k s = Some x" "te_status x = ExecRunning" "te_lease_until x = Some l" "now < l"
  proof (cases "execution_of k s")
    case (Some x)
    then have "x \<in> set (task_executions s)" by (auto simp: execution_of_def find_Some_iff)
    then show ?thesis using 5 Some that
      by (auto simp: exec_leased_def exec_holder_def exec_lease_until_def split: if_splits)
  qed (use 5 in \<open>simp add: exec_holder_def\<close>)
  have "\<not> claim_startable now x" using x by (simp add: claim_startable_def)
  with x(1) have "\<exists>e. claim_task env now t ((msg now t k)\<lparr>tk_id := k\<rparr>) s = Inl e"
    using claim_task_execution(3)[of env now t "(msg now t k)\<lparr>tk_id := k\<rparr>" s]
    by (cases "claim_task env now t ((msg now t k)\<lparr>tk_id := k\<rparr>) s") auto
  then show ?case using 5 by (auto simp: claim_state_def)
next
  case (6 s t k now)
  obtain u sh c where m: "mem now t k = (u, sh, c)" by (cases "mem now t k")
  show ?case
  proof (cases "finish_task now sh (u\<lparr>tk_id := k, tk_lease_token := t\<rparr>) c s")
    case (Inr d')
    then show ?thesis using finish_task_owner(1)[OF 6(1) Inr] 6(3) by simp
  qed (simp add: finish_state_def m)
next
  case (7 s t k now)
  obtain u sh c where m: "mem now t k = (u, sh, c)" by (cases "mem now t k")
  show ?case
  proof (cases "finish_task now sh (u\<lparr>tk_id := k, tk_lease_token := t\<rparr>) c s")
    case (Inr d')
    then show ?thesis using finish_task_owner(2)[OF 7(1) Inr] m by (simp add: finish_state_def)
  qed (simp add: finish_state_def m)
next
  case (8 s t k' k now)
  obtain u sh c where m: "mem now t k = (u, sh, c)" by (cases "mem now t k")
  show ?case
  proof (cases "finish_task now sh (u\<lparr>tk_id := k, tk_lease_token := t\<rparr>) c s")
    case (Inr d')
    have "\<not> owns now (u\<lparr>tk_id := k, tk_lease_token := t\<rparr>) x" if "execution_of k' s = Some x" for x
      using that 8(3) by (auto simp: owns_def execution_of_def find_Some_iff)
    then have "execution_of k' d' = execution_of k' s"
      using finish_task_execution[OF Inr, of k'] by (cases "execution_of k' s") simp_all
    then show ?thesis using Inr m by (simp add: finish_state_def exec_holder_def)
  qed (simp add: finish_state_def m)
qed

section \<open>Attempts and outcomes\<close>

text \<open>The statements of all workers, in any order: the state is the database with the tasks that live
  workers remember.  Tokens are fresh (\<open>uuid.New\<close>); a worker whose handler is stuck exits after its
  last statement; the consumer records failures of its own.\<close>

inductive exec_step :: "db \<times> task set \<Rightarrow> db \<times> task set \<Rightarrow> bool" where
  claim: "claim_task env now token t d = Inr (t', d') \<Longrightarrow> token \<notin> tk_lease_token ` w \<Longrightarrow>
    tk_retry_count t \<le> tk_max_retry t \<Longrightarrow> exec_step (d, w) (d', insert t' w)"
| renew: "t \<in> w \<Longrightarrow> renew_task env now t d = Inr d' \<Longrightarrow> exec_step (d, w) (d', w)"
| finish: "t \<in> w \<Longrightarrow> finish_task now shutdown t cause d = Inr d' \<Longrightarrow> exec_step (d, w) (d', w)"
| stuck: "t \<in> w \<Longrightarrow> record_stuck now shutdown t cause d = Inr d' \<Longrightarrow> exec_step (d, w) (d', w - {t})"
| failure: "exec_step (d, w) (record_failure t d, w)"

inductive_cases exec_stepE: "exec_step (d, w) s'"

definition execution_ok :: "db \<Rightarrow> execution \<Rightarrow> bool" where
  "execution_ok d x \<longleftrightarrow> 0 \<le> te_retry_count x \<and> te_retry_count x \<le> te_max_retry x \<and>
     (te_status x = ExecFinished \<longrightarrow> result_of (te_task_id x) d \<noteq> None)"

definition worker_knows :: "task \<Rightarrow> execution \<Rightarrow> bool" where
  "worker_knows t x \<longleftrightarrow> (te_task_id x = tk_id t \<and> te_status x = ExecRunning \<and> te_lease_token x = Some (tk_lease_token t) \<longrightarrow>
     te_retry_count x = tk_retry_count t \<and> te_max_retry x = tk_max_retry t)"

definition exec_inv :: "db \<times> task set \<Rightarrow> bool" where
  "exec_inv s \<longleftrightarrow> (case s of (d, w) \<Rightarrow> exec_leased d \<and> inj_on tk_lease_token w \<and>
     (\<forall>x \<in> set (task_executions d). execution_ok d x \<and> (\<forall>t \<in> w. worker_knows t x)))"

lemma exec_inv_rows:
  "exec_inv (d, w) \<Longrightarrow> x \<in> set (task_executions d) \<Longrightarrow> execution_ok d x \<and> (\<forall>t \<in> w. worker_knows t x)"
  by (simp add: exec_inv_def)

lemma execution_ok_results:
  assumes "execution_ok d x" "\<And>i. result_of i d \<noteq> None \<Longrightarrow> result_of i d' \<noteq> None"
  shows "execution_ok d' x"
  using assms by (simp add: execution_ok_def)

text \<open>A step that keeps the executions and loses no result keeps the invariant.\<close>

lemma exec_inv_results:
  assumes "exec_inv (d, w)" "task_executions d' = task_executions d"
    "\<And>i. result_of i d \<noteq> None \<Longrightarrow> result_of i d' \<noteq> None"
  shows "exec_inv (d', w)"
  using assms(1) exec_leased_cong[OF assms(2)] execution_ok_results[of d _ d', OF _ assms(3)]
  unfolding exec_inv_def by (simp add: assms(2))

lemma record_failure_keeps: "result_of i d \<noteq> None \<Longrightarrow> result_of i (record_failure t d) \<noteq> None"
  "result_of i d \<noteq> None \<Longrightarrow> result_of i (insert_result j st d) \<noteq> None"
  using result_of_mono by fastforce+

lemma exec_inv_failure: "exec_inv (d, w) \<Longrightarrow> exec_inv (record_failure t d, w)"
  by (erule exec_inv_results) (simp_all add: record_failure_keeps)

lemma claim_task_rows:
  assumes "exec_leased d" "claim_task env now token t d = Inr (t', d')" "x \<in> set (task_executions d')"
  shows "(x \<in> set (task_executions d) \<and> te_task_id x \<noteq> tk_id t) \<or>
    (te_task_id x = tk_id t \<and> te_status x = ExecRunning \<and> te_lease_token x = Some token \<and>
     te_retry_count x = tk_retry_count t' \<and> te_max_retry x = tk_max_retry t')"
proof -
  have k: "executions_keyed d" "executions_keyed d'"
    using assms(1) claim_task_leased[OF assms(1,2)] by (simp_all add: exec_leased_def)
  have of: "execution_of (te_task_id x) d' = Some x" using assms(3) k(2) by (simp add: execution_of_iff)
  show ?thesis
  proof (cases "te_task_id x = tk_id t")
    case True
    with of claim_task_execution(2)[OF assms(2)] show ?thesis by auto
  next
    case False
    with of claim_task_execution(1)[OF assms(2)] show ?thesis using execution_of_iff[OF k(1)] by auto
  qed
qed

lemma claim_task_counts:
  assumes "claim_task env now token t d = Inr (t', d')"
  shows "(execution_of (tk_id t) d = None \<and> 0 \<le> tk_retry_count t \<and> tk_retry_count t' = tk_retry_count t \<and> tk_max_retry t' = tk_max_retry t) \<or>
    (\<exists>x. execution_of (tk_id t) d = Some x \<and> tk_retry_count t' = te_retry_count x \<and> tk_max_retry t' = te_max_retry x)"
  using assms by (cases rule: claim_taskE) (auto simp: execution_check_def)



lemma claim_task_results: "claim_task env now token t d = Inr (t', d') \<Longrightarrow> result_of i d' = result_of i d"
  by (erule claim_taskE) simp_all

lemma exec_inv_claim:
  assumes inv: "exec_inv (d, w)" and c: "claim_task env now token t d = Inr (t', d')"
    and fresh: "token \<notin> tk_lease_token ` w" and le: "tk_retry_count t \<le> tk_max_retry t"
  shows "exec_inv (d', insert t' w)"
proof -
  have l: "exec_leased d" using inv by (simp add: exec_inv_def)
  have t': "tk_id t' = tk_id t" "tk_lease_token t' = token" by (rule claim_task_execution[OF c])+
  have counts: "0 \<le> tk_retry_count t' \<and> tk_retry_count t' \<le> tk_max_retry t'"
    using claim_task_counts[OF c]
  proof
    assume "\<exists>x. execution_of (tk_id t) d = Some x \<and> tk_retry_count t' = te_retry_count x \<and> tk_max_retry t' = te_max_retry x"
    then obtain x where x: "execution_of (tk_id t) d = Some x" "tk_retry_count t' = te_retry_count x" "tk_max_retry t' = te_max_retry x"
      by blast
    then have "x \<in> set (task_executions d)" using l by (simp add: execution_of_iff exec_leased_def)
    then show ?thesis using exec_inv_rows[OF inv] x(2,3) by (simp add: execution_ok_def)
  qed (use le in simp)
  have "execution_ok d' x \<and> (\<forall>u \<in> insert t' w. worker_knows u x)" if x: "x \<in> set (task_executions d')" for x
    using claim_task_rows[OF l c x]
  proof
    assume old: "x \<in> set (task_executions d) \<and> te_task_id x \<noteq> tk_id t"
    then have "execution_ok d x \<and> (\<forall>u \<in> w. worker_knows u x)" using exec_inv_rows[OF inv] by blast
    then show ?thesis using old t' claim_task_results[OF c] by (simp add: execution_ok_def worker_knows_def)
  next
    assume new: "te_task_id x = tk_id t \<and> te_status x = ExecRunning \<and> te_lease_token x = Some token \<and>
     te_retry_count x = tk_retry_count t' \<and> te_max_retry x = tk_max_retry t'"
    have "worker_knows u x" if "u \<in> w" for u
      using new fresh that by (auto simp: worker_knows_def)
    then show ?thesis using new counts t' by (simp add: execution_ok_def worker_knows_def)
  qed
  moreover have "inj_on tk_lease_token (insert t' w)"
    using inv fresh t'(2) by (auto simp: exec_inv_def)
  ultimately show ?thesis using claim_task_leased[OF l c] by (simp add: exec_inv_def)
qed

text \<open>An update of the owned row, after which the remaining workers \<open>w'\<close> know it still.\<close>

lemma exec_inv_update:
  assumes inv: "exec_inv (d, w)" and u: "update_owned now t g d = Inr d1" and w: "w' \<subseteq> w"
    and id: "\<And>x. te_task_id (g x) = te_task_id x"
    and until: "\<And>x. owns now t x \<Longrightarrow> te_status (g x) = ExecRunning \<Longrightarrow> te_lease_until (g x) \<noteq> None"
    and counts: "\<And>x. owns now t x \<Longrightarrow> execution_ok d x \<Longrightarrow> worker_knows t x \<Longrightarrow> execution_ok d' (g x)"
    and knows: "\<And>x v. owns now t x \<Longrightarrow> v \<in> w' \<Longrightarrow> worker_knows v x \<Longrightarrow> worker_knows v (g x)"
    and t: "t \<in> w" and ex: "task_executions d' = task_executions d1"
    and res: "\<And>i. result_of i d \<noteq> None \<Longrightarrow> result_of i d' \<noteq> None"
  shows "exec_inv (d', w')"
proof -
  have l: "exec_leased d" using inv by (simp add: exec_inv_def)
  have l': "exec_leased d'"
    using update_owned_leased[OF l u id until] exec_leased_cong[OF ex] by simp
  have rows: "task_executions d' = update_where (owns now t) g (task_executions d)"
    unfolding ex by (rule update_ownedE[OF u]) simp
  have "execution_ok d' y \<and> (\<forall>v \<in> w'. worker_knows v y)" if y: "y \<in> set (task_executions d')" for y
    using y[unfolded rows in_set_update_where]
  proof
    assume "y \<in> set (task_executions d) \<and> \<not> owns now t y"
    then have "execution_ok d y \<and> (\<forall>v \<in> w. worker_knows v y)" using exec_inv_rows[OF inv] by blast
    then show ?thesis using w execution_ok_results[of d y d', OF _ res] by blast
  next
    assume "\<exists>s \<in> set (task_executions d). owns now t s \<and> y = g s"
    then obtain x where x: "x \<in> set (task_executions d)" "owns now t x" "y = g x" by blast
    then have "execution_ok d x \<and> (\<forall>v \<in> w. worker_knows v x)" using exec_inv_rows[OF inv] by blast
    then show ?thesis using x w t counts[of x] knows[of x] by blast
  qed
  moreover have "inj_on tk_lease_token w'" using inv w inj_on_subset by (auto simp: exec_inv_def)
  ultimately show ?thesis using l' by (simp add: exec_inv_def)
qed

lemma update_owned_results: "update_owned now t g d = Inr d' \<Longrightarrow> result_of i d' = result_of i d"
  by (erule update_ownedE) simp

lemma exec_inv_renew:
  assumes "exec_inv (d, w)" "t \<in> w" "renew_task env now t d = Inr d'"
  shows "exec_inv (d', w)"
  by (rule exec_inv_update[OF assms(1) assms(3)[unfolded renew_task_def] order_refl])
    (use assms update_owned_results[OF assms(3)[unfolded renew_task_def]] in
      \<open>simp_all add: execution_ok_def worker_knows_def owns_def\<close>)

lemma exec_inv_finish:
  assumes inv: "exec_inv (d, w)" and t: "t \<in> w" and f: "finish_task now s t c d = Inr d'"
  shows "exec_inv (d', w)"
proof (rule finish_taskE[OF f])
  fix d1 assume d1: "update_owned now t (finish_row now s t c) d = Inr d1"
    and d': "d' = (if c = None then insert_result (tk_id t) TaskSucceeded d1
           else if finish_terminal s t c then record_failure t d1 else d1)"
  have ex: "task_executions d' = task_executions d1" using d' by simp
  have res: "result_of i d \<noteq> None \<Longrightarrow> result_of i d' \<noteq> None" for i
    using update_owned_results[OF d1, of i] d' record_failure_keeps by simp
  have rec: "c = None \<or> finish_terminal s t c \<Longrightarrow> result_of (tk_id t) d' \<noteq> None"
    using d' result_of_recorded by auto
  show ?thesis
  proof (rule exec_inv_update[OF inv d1 order_refl _ _ _ _ t ex res])
    fix x assume x: "owns now t x" "execution_ok d x" "worker_knows t x"
    then have eq: "te_task_id x = tk_id t" "te_retry_count x = tk_retry_count t" "te_max_retry x = tk_max_retry t"
      by (auto simp: worker_knows_def owns_def)
    show "execution_ok d' (finish_row now s t c x)"
      using x(2) eq rec
      by (auto simp: execution_ok_def finish_row_def finish_terminal_def Let_def split: option.splits)
  qed (simp_all add: worker_knows_def)
qed

lemma exec_inv_stuck:
  assumes inv: "exec_inv (d, w)" and t: "t \<in> w" and f: "record_stuck now s t c d = Inr d'"
  shows "exec_inv (d', w - {t})"
proof -
  let ?counts = "\<not> s \<and> \<not> errors_is c TaskLeaseLost"
  let ?terminal = "?counts \<and> tk_max_retry t \<le> tk_retry_count t"
  let ?n = "if ?counts \<and> \<not> ?terminal then tk_retry_count t + 1 else tk_retry_count t"
  let ?g = "\<lambda>x. x\<lparr>te_retry_count := ?n, te_available_at := now + (retry_delay ?n + 5 * second),
             te_lease_until := Some (now + (retry_delay ?n + 5 * second)), te_updated_at := now\<rparr>"
  obtain d1 where d1: "update_owned now t ?g d = Inr d1" "d' = (if ?terminal then record_failure t d1 else d1)"
    using f unfolding record_stuck_def Let_def attempt_eq_Inr_iff by auto
  have ex: "task_executions d' = task_executions d1" using d1(2) by simp
  have res: "result_of i d \<noteq> None \<Longrightarrow> result_of i d' \<noteq> None" for i
    using update_owned_results[OF d1(1), of i] d1(2) record_failure_keeps by simp
  have inj: "inj_on tk_lease_token w" using inv by (simp add: exec_inv_def)
  show ?thesis
  proof (rule exec_inv_update[OF inv d1(1) _ _ _ _ _ t ex res])
    fix x assume x: "owns now t x" "execution_ok d x" "worker_knows t x"
    then have eq: "te_retry_count x = tk_retry_count t" "te_max_retry x = tk_max_retry t"
      by (auto simp: worker_knows_def owns_def)
    show "execution_ok d' (?g x)" using x(1,2) eq by (auto simp: execution_ok_def owns_def)
  next
    fix x v assume "owns now t x" "v \<in> w - {t}" "worker_knows v x"
    moreover have "tk_lease_token v \<noteq> tk_lease_token t" if "v \<in> w - {t}"
      using inj t that by (auto simp: inj_on_def)
    ultimately show "worker_knows v (?g x)" by (auto simp: worker_knows_def owns_def)
  qed auto
qed

lemma exec_step_inv: "exec_step s s' \<Longrightarrow> exec_inv s \<Longrightarrow> exec_inv s'"
  by (induction rule: exec_step.induct)
    (blast intro: exec_inv_claim exec_inv_renew exec_inv_finish exec_inv_stuck exec_inv_failure)+

lemma exec_steps_inv: "exec_step\<^sup>*\<^sup>* s s' \<Longrightarrow> exec_inv s \<Longrightarrow> exec_inv s'"
  by (induction rule: rtranclp_induct) (blast intro: exec_step_inv)+

section \<open>Settling a message\<close>

definition retry_queues :: "string \<Rightarrow> string list" where
  "retry_queues q = map (retry_queue q) retry_delays"

lemma retry_delay_mem: "retry_delay n \<in> set retry_delays"
proof -
  have "(if n < 1 then 1 else if n > 5 then 5 else n) \<in> {1..5}" for n :: int by auto
  then have "nat ((if n < 1 then 1 else if n > 5 then 5 else n) - 1) < length retry_delays"
    by (auto simp: retry_delays_def)
  then have "nat ((let a = if n < 1 then 1 else n in if a > int (length retry_delays) then int (length retry_delays) else a) - 1) < length retry_delays"
    by (simp add: retry_delays_def Let_def split: if_splits)
  then show ?thesis unfolding retry_delay_def Let_def by (rule nth_mem)
qed

lemma retry_queue_mem: "retry_queue q (retry_delay n) \<in> set (retry_queues q)"
  "retry_queue q (retry_delays ! 0) \<in> set (retry_queues q)"
  using retry_delay_mem[of n] by (auto simp: retry_queues_def retry_delays_def)

lemma ended_fields [simp]:
  "me_verdict (ended v s e) = v" "me_sent (ended v s e) = s" "me_error (ended v s e) = e"
  by (simp_all add: ended_def)

lemma publish_then_ack_sent:
  "me_verdict (publish_then_ack publish key t) = Ack \<Longrightarrow>
     me_sent (publish_then_ack publish key t) = Some (key, t) \<and> publish key t = None"
  by (auto simp: publish_then_ack_def split: option.splits)

text \<open>What may follow an acknowledged message: the same task, on a retry or dead-letter queue the
  topology declares.\<close>

definition follows :: "(string \<Rightarrow> task \<Rightarrow> go_error option) \<Rightarrow> string \<Rightarrow> task \<Rightarrow> (string \<times> task) option \<Rightarrow> bool" where
  "follows publish q t s \<longleftrightarrow> (case s of None \<Rightarrow> False
     | Some (key, u) \<Rightarrow> publish key u = None \<and> tk_id u = tk_id t \<and> tk_kind u = tk_kind t \<and> tk_body u = tk_body t \<and>
         key \<in> set ((q @ ''.dlq'') # retry_queues q))"

lemma publish_then_ack_follows:
  assumes "me_verdict (publish_then_ack publish key u) = Ack" "tk_id u = tk_id t" "tk_kind u = tk_kind t"
    "tk_body u = tk_body t" "key \<in> set ((q @ ''.dlq'') # retry_queues q)"
  shows "follows publish q t (me_sent (publish_then_ack publish key u))"
  using publish_then_ack_sent[OF assms(1)] assms(2-5) by (simp add: follows_def)

lemma settle_message_acked:
  assumes "settle_message publish recorder canceled q t err d = (m, d')" "me_verdict m = Ack"
  shows "(err = None \<and> me_sent m = None \<and> d' = d) \<or> follows publish q t (me_sent m)"
proof (cases err)
  case None
  then show ?thesis using assms by (auto simp: settle_message_def split: if_splits)
next
  case (Some e)
  have keys: "q @ ''.dlq'' \<in> set ((q @ ''.dlq'') # retry_queues q)"
    "retry_queue q (retry_delays ! 0) \<in> set ((q @ ''.dlq'') # retry_queues q)"
    "retry_queue q (retry_delay n) \<in> set ((q @ ''.dlq'') # retry_queues q)" for n
    using retry_queue_mem by auto
  show ?thesis using assms Some
    by (auto simp: settle_message_def keys intro!: publish_then_ack_follows simp del: set_simps
      split: if_splits option.splits sum.splits)
qed

lemma claim_task_identity:
  "claim_task env now token t d = Inr (t', d') \<Longrightarrow>
     tk_id t' = tk_id t \<and> tk_kind t' = tk_kind t \<and> tk_body t' = tk_body t \<and> tk_queue t' = tk_queue t"
  by (erule claim_taskE) (simp_all add: claimed_def)

lemma process_task_identity:
  "process_task env known now token world t d = (e, t', d') \<Longrightarrow>
     tk_id t' = tk_id t \<and> tk_kind t' = tk_kind t \<and> tk_body t' = tk_body t"
  using claim_task_identity[of env now token t d]
  by (auto simp: process_task_def Let_def split: sum.splits option.splits if_splits)

lemma claim_error_None: "claim_error e = None \<longleftrightarrow> errors_is e TaskSucceededEarlier"
  by (simp add: claim_error_def)

lemma claim_task_errors:
  assumes "claim_task env now token t d = Inl e"
  shows "e \<in> {TaskConflict, TaskSucceededEarlier, err_task_dead, ErrCheckViolation, TaskBusy}"
    "e = TaskSucceededEarlier \<Longrightarrow> result_of (tk_id t) d \<noteq> None"
  using assms by (auto simp: claim_task_def Let_def err_task_dead_def split: option.splits if_splits)

text \<open>The middleware reports success only for a task with a recorded result.\<close>

lemma process_task_success:
  assumes "process_task env known now token world t d = (Some None, t', d')"
  shows "result_of (tk_id t) d' \<noteq> None"
proof (cases "claim_task env now token t d")
  case (Inl e)
  then have "errors_is e TaskSucceededEarlier" "d' = d"
    using assms by (auto simp: process_task_def claim_error_None)
  moreover from this have "e = TaskSucceededEarlier"
    using claim_task_errors(1)[OF Inl] by (auto simp: err_task_dead_def)
  ultimately show ?thesis using claim_task_errors(2)[OF Inl] by simp
next
  case (Inr p)
  obtain u d1 where p: "p = (u, d1)" by (cases p)
  define r where "r = world u d1"
  have id: "tk_id u = tk_id t" using claim_task_identity[of env now token t d u d1] Inr p by simp
  have "finish_task (rn_now r) (rn_shutdown r) u None (rn_db r) = Inr d'"
    using assms Inr p by (auto simp: process_task_def Let_def r_def split: option.splits sum.splits if_splits)
  then show ?thesis
  proof (rule finish_taskE)
    fix d2 assume "d' = (if None = None then insert_result (tk_id u) TaskSucceeded d2
           else if finish_terminal (rn_shutdown r) u None then record_failure u d2 else d2)"
    then show ?thesis using id result_of_recorded(1)[of "tk_id t"] by simp
  qed
qed

section \<open>Properties\<close>

text \<open>Claims and finished runs in any order.\<close>

primrec exec_apply ::
  "exec_env \<Rightarrow> (time \<Rightarrow> uuid \<Rightarrow> string \<Rightarrow> task) \<Rightarrow> (time \<Rightarrow> uuid \<Rightarrow> string \<Rightarrow> task \<times> bool \<times> go_error option) \<Rightarrow>
   string lease_event \<Rightarrow> db \<Rightarrow> db" where
  "exec_apply env msg mem (Claim now t i) d = claim_state env msg now t i d"
| "exec_apply env msg mem (Finish now t i) d = finish_state mem now t i d"

lemma exec_history_run: "fold (exec_apply env msg mem) es d = exec_lease.run env msg mem es d"
proof -
  have step: "exec_apply env msg mem e d = exec_lease.step env msg mem e d" for e d by (cases e) simp_all
  show ?thesis by (induction es arbitrary: d) (simp_all add: step)
qed

text \<open>A worker that lost the lease of a task can no longer settle it: after any sequence of claims and
  finished runs of other workers, the end of its own run changes neither the execution nor the recorded
  results.\<close>

theorem stale_execution_fenced:
  assumes "exec_leased d" "token \<noteq> 0" "exec_holder d i \<noteq> Some token"
    "\<forall>e \<in> set es. lease_tokens_ok e \<and> \<not> lease_claims token i e"
  shows "finish_state mem now token i (fold (exec_apply env msg mem) es d) = fold (exec_apply env msg mem) es d"
  using exec_lease.stale_worker_fenced[OF assms] by (simp add: exec_history_run)

text \<open>Whatever workers claim, renew, finish or abandon, every execution has spent at most its retry
  budget, a finished one has its outcome recorded, and no two live workers hold the same lease.\<close>

theorem execution_attempts_bounded:
  assumes "exec_step\<^sup>*\<^sup>* (d0, {}) (d, w)" "task_executions d0 = []" "x \<in> set (task_executions d)"
  shows "0 \<le> te_retry_count x \<and> te_retry_count x \<le> te_max_retry x \<and>
    (te_status x = ExecFinished \<longrightarrow> result_of (te_task_id x) d \<noteq> None) \<and>
    (\<forall>t \<in> w. \<forall>u \<in> w. owns now t x \<longrightarrow> owns now u x \<longrightarrow> t = u)"
proof -
  have "exec_inv (d0, {})" using assms(2) by (simp add: exec_inv_def exec_leased_def)
  then have inv: "exec_inv (d, w)" by (rule exec_steps_inv[OF assms(1)])
  then have "t = u" if "t \<in> w" "u \<in> w" "owns now t x" "owns now u x" for t u
    using that by (auto simp: exec_inv_def owns_def inj_on_def)
  then show ?thesis using exec_inv_rows[OF inv assms(3)] by (auto simp: execution_ok_def)
qed


lemma exec_step_results:
  "exec_step s s' \<Longrightarrow> result_of i (fst s) = Some r \<Longrightarrow> result_of i (fst s') = Some r"
proof (induction rule: exec_step.induct)
  case (claim env now token t d t' d' w)
  then show ?case by (simp add: claim_task_results)
next
  case (renew t w env now d d')
  then show ?case using update_owned_results[of now t _ d d' i] by (auto simp: renew_task_def)
next
  case (finish t w now shutdown cause d d')
  from finish(2) show ?case
  proof (rule finish_taskE)
    fix d1 assume "update_owned now t (finish_row now shutdown t cause) d = Inr d1"
      "d' = (if cause = None then insert_result (tk_id t) TaskSucceeded d1
           else if finish_terminal shutdown t cause then record_failure t d1 else d1)"
    then show ?thesis using finish(3) update_owned_results[of now t _ d d1 i] by (simp add: result_of_mono)
  qed
next
  case (stuck t w now shutdown cause d d')
  then show ?case unfolding record_stuck_def Let_def attempt_eq_Inr_iff
    by (auto simp: result_of_mono dest: update_owned_results[of now t _ d _ i] split: if_splits)
next
  case (failure d w t)
  then show ?case by (simp add: result_of_mono)
qed

lemma exec_steps_results:
  assumes "exec_step\<^sup>*\<^sup>* s s'" "result_of i (fst s) = Some r"
  shows "result_of i (fst s') = Some r"
  using assms by (induction rule: rtranclp_induct) (blast intro: exec_step_results)+

text \<open>The payload an execution was claimed for is never rewritten once the outcome is recorded.\<close>

abbreviation payload_of :: "string \<Rightarrow> db \<Rightarrow> string option" where
  "payload_of i d \<equiv> map_option te_payload_sha256 (execution_of i d)"

lemma update_owned_payload:
  assumes "update_owned now t g d = Inr d'" "\<And>x. te_task_id (g x) = te_task_id x" "\<And>x. te_payload_sha256 (g x) = te_payload_sha256 x"
  shows "payload_of i d' = payload_of i d"
  using assms(1)
proof (rule update_ownedE)
  assume "d' = d\<lparr>task_executions := update_where (owns now t) g (task_executions d)\<rparr>"
  then have "execution_of i d' = map_option (\<lambda>x. if owns now t x then g x else x) (execution_of i d)"
    by (simp only: execution_of_update[where g = g, OF assms(2)])
  then show ?thesis using assms(3) by (simp add: option.map_comp comp_def if_distrib cong: if_cong)
qed

lemma exec_step_payload:
  "exec_step s s' \<Longrightarrow> result_of i (fst s) \<noteq> None \<Longrightarrow> payload_of i (fst s') = payload_of i (fst s)"
proof (induction rule: exec_step.induct)
  case (claim env now token t d t' d' w)
  have "result_of (tk_id t) d = None" using claim(1) by (rule claim_taskE)
  then have "i \<noteq> tk_id t" using claim(4) by auto
  then show ?case using claim_task_execution(1)[OF claim(1)] by simp
next
  case (renew t w env now d d')
  then show ?case unfolding renew_task_def by (auto intro: update_owned_payload)
next
  case (finish t w now shutdown cause d d')
  from finish(2) show ?case
  proof (rule finish_taskE)
    fix d1 assume d1: "update_owned now t (finish_row now shutdown t cause) d = Inr d1"
      "d' = (if cause = None then insert_result (tk_id t) TaskSucceeded d1
           else if finish_terminal shutdown t cause then record_failure t d1 else d1)"
    have "payload_of i d1 = payload_of i d" by (rule update_owned_payload[OF d1(1)]) (simp_all add: finish_row_def Let_def)
    then show ?thesis using d1(2) by simp
  qed
next
  case (stuck t w now shutdown cause d d')
  then show ?case unfolding record_stuck_def Let_def attempt_eq_Inr_iff
    by (auto split: if_splits dest!: update_owned_payload[where i = i])
qed simp

lemma exec_steps_payload:
  assumes "exec_step\<^sup>*\<^sup>* s s'" "result_of i (fst s) = Some r"
  shows "payload_of i (fst s') = payload_of i (fst s)"
  using assms
proof (induction rule: rtranclp_induct)
  case (step y z)
  then have "result_of i (fst y) = Some r" using exec_steps_results by blast
  then show ?case using exec_step_payload[OF step(2), of i] step by simp
qed simp

text \<open>C37: A recorded outcome is final.  It survives every later step, and so does the fingerprint of the payload its
  execution was claimed for.  A message of the task that arrives later is answered from the record alone: when
  its payload is the one that was executed, with the outcome (success again or a dead task again), and only when
  its payload differs from it with a conflict; the handler is not consulted and the database stays as it is.\<close>

theorem settled_task_never_runs:
  assumes "exec_step\<^sup>*\<^sup>* (d, w) (d', w')" "result_of (tk_id t) d = Some r"
  shows "result_of (tk_id t) d' = Some r \<and> payload_of (tk_id t) d' = payload_of (tk_id t) d \<and>
    process_task env known now token world t d' =
      (Some (case payload_of (tk_id t) d of
           Some p \<Rightarrow> if p \<noteq> fingerprint env t then Some TaskConflict
             else if tr_status r = TaskSucceeded then None else Some err_task_dead
         | None \<Rightarrow> if tr_status r = TaskSucceeded then None else Some err_task_dead), default_timeout t, d')"
proof -
  have r: "result_of (tk_id t) d' = Some r" using exec_steps_results[OF assms(1)] assms(2) by simp
  have p: "payload_of (tk_id t) d' = payload_of (tk_id t) d" using exec_steps_payload[OF assms(1)] assms(2) by simp
  have fp: "fingerprint env (default_timeout t) = fingerprint env t" by (simp add: fingerprint_def)
  have "claim_task env now token t d' = Inl (case payload_of (tk_id t) d of
           Some p \<Rightarrow> if p \<noteq> fingerprint env t then TaskConflict
             else if tr_status r = TaskSucceeded then TaskSucceededEarlier else err_task_dead
         | None \<Rightarrow> if tr_status r = TaskSucceeded then TaskSucceededEarlier else err_task_dead)"
    unfolding p[symmetric] by (auto simp: claim_task_def Let_def r fp split: option.splits)
  then show ?thesis using r p
    by (auto simp: process_task_def claim_error_def err_task_dead_def split: option.splits)
qed

text \<open>C36: The consumer loses no task: a message it acknowledges is either followed by a message of the
  same task that the broker has confirmed on a retry or dead-letter queue of the same queue, or the task
  has a recorded outcome.\<close>

theorem acked_message_accounted:
  assumes "handle_delivery cfg env known publish recorder canceled now token world q m d = (e, d')"
    "me_verdict e = Ack"
  shows "follows publish q (task_of_message cfg q m) (me_sent e) \<or>
    (me_sent e = None \<and> result_of (ms_id m) d' \<noteq> None)"
proof -
  define t where "t = task_of_message cfg q m"
  define bad where "bad = (tk_id t = [] \<or> tk_kind t = [] \<or> tk_retry_count t < 0 \<or> tk_max_retry t < 0)"
  obtain err t' d1 where p: "(if bad then (Some (Some (ErrWrap ErrSkipRetry ''invalid task envelope'')), t, d)
     else process_task env known now token world t d) = (err, t', d1)" by (metis prod_cases3)
  have same: "tk_id t' = tk_id t \<and> tk_kind t' = tk_kind t \<and> tk_body t' = tk_body t"
    using p process_task_identity[of env known now token world t d err t' d1] by (auto split: if_splits)
  have h: "(case err of None \<Rightarrow> (ended Unsettled None None, d1)
      | Some x \<Rightarrow> settle_message publish recorder canceled q t' x d1) = (e, d')"
    using assms(1) p unfolding handle_delivery_def t_def[symmetric] bad_def[symmetric] Let_def by simp
  then obtain x where x: "err = Some x" "settle_message publish recorder canceled q t' x d1 = (e, d')"
    using assms(2) by (cases err) auto
  from settle_message_acked[OF x(2) assms(2)] show ?thesis
  proof
    assume s: "x = None \<and> me_sent e = None \<and> d' = d1"
    then have "process_task env known now token world t d = (Some None, t', d')" using p x(1) by (auto split: if_splits)
    from process_task_success[OF this] show ?thesis using s by (simp add: t_def task_of_message_def)
  next
    assume "follows publish q t' (me_sent e)"
    then show ?thesis using same by (auto simp: follows_def t_def split: option.splits)
  qed
qed

text \<open>A task survives the broker: what the publisher sends is read back by the consumer of its
  queue as the same task (without a lease), for counts within \<open>int32\<close> and a timeout in whole
  milliseconds.\<close>

theorem task_message_roundtrip:
  assumes "- (2 ^ 31) \<le> tk_retry_count t" "tk_retry_count t < 2 ^ 31"
    "- (2 ^ 31) \<le> tk_max_retry t" "tk_max_retry t < 2 ^ 31" "0 < tk_timeout t" "millisecond dvd tk_timeout t"
  shows "task_of_message cfg (tk_queue t) (message_of_task t) = t\<lparr>tk_lease_token := 0\<rparr>"
proof -
  have i: "int32 n = n" if "- (2 ^ 31) \<le> n" "n < 2 ^ 31" for n
    using that by (simp add: int32_def int_word_sint)
  have "0 < tk_timeout t div millisecond" "tk_timeout t div millisecond * millisecond = tk_timeout t"
    using assms(5,6) by (auto simp: zdvd_imp_le pos_imp_zdiv_pos_iff)
  then show ?thesis using assms(1-4) i by (simp add: task_of_message_def message_of_task_def)
qed

text \<open>A failed attempt as the worker and the consumer settle it, one after the other.\<close>

lemma finish_task_owned:
  assumes "executions_keyed d" "execution_of (tk_id t) d = Some x" "owns now t x"
  shows "\<exists>d1. finish_task now s t c d = Inr (if c = None then insert_result (tk_id t) TaskSucceeded d1
           else if finish_terminal s t c then record_failure t d1 else d1) \<and>
    execution_of (tk_id t) d1 = Some (finish_row now s t c x)"
proof -
  have pred: "owns now t = (\<lambda>x. te_task_id x = tk_id t \<and> (te_status x = ExecRunning \<and>
     te_lease_token x = Some (tk_lease_token t) \<and> (case te_lease_until x of None \<Rightarrow> False | Some l \<Rightarrow> now < l)))"
    by (simp add: owns_def fun_eq_iff)
  have one: "count_where (owns now t) (task_executions d) = 1"
    using count_where_by_key[OF assms(1), of "tk_id t"] assms(2,3) unfolding pred execution_of_def by auto
  moreover have "execution_of (tk_id t) (d\<lparr>task_executions := update_where (owns now t) (finish_row now s t c) (task_executions d)\<rparr>) =
      Some (finish_row now s t c x)"
    using execution_of_update[of "finish_row now s t c"] assms(2,3) by simp
  moreover from one have "finish_task now s t c d = (let d1 = d\<lparr>task_executions := update_where (owns now t) (finish_row now s t c) (task_executions d)\<rparr>
      in Inr (if c = None then insert_result (tk_id t) TaskSucceeded d1
           else if finish_terminal s t c then record_failure t d1 else d1))"
    by (simp add: finish_task_def update_owned_def Let_def)
  ultimately show ?thesis unfolding Let_def by blast
qed

text \<open>A failed attempt within the budget is retried once: the row becomes due at the time the retry
  message leaves its delay queue, and both carry the same count, one more than before.\<close>

theorem failed_attempt_retried:
  assumes "ms_id m \<noteq> []" "ms_kind m \<noteq> []" "0 \<le> tk_retry_count (task_of_message cfg q m)"
    "0 \<le> tk_max_retry (task_of_message cfg q m)"
    and "claim_task env now token (task_of_message cfg q m) d = Inr (t, d1)"
    and "invoke_bounded known t (world t d1) = Some (Some err)"
    and "\<forall>s \<in> {ErrSkipRetry, TaskStorage, TaskLeaseLost, TaskBusy, TaskConflict, err_task_dead}. \<not> errors_is err s"
    and "\<not> rn_lost (world t d1)" "\<not> rn_shutdown (world t d1)"
    and "executions_keyed (rn_db (world t d1))" "execution_of (ms_id m) (rn_db (world t d1)) = Some x"
    and "owns (rn_now (world t d1)) t x" "tk_retry_count t < tk_max_retry t"
    and "\<forall>key u. publish key u = None"
  shows "\<exists>d'. handle_delivery cfg env known publish recorder False now token world q m d =
      (ended Ack (Some (retry_queue q (retry_delay (tk_retry_count t + 1)), t\<lparr>tk_retry_count := tk_retry_count t + 1\<rparr>)) None, d') \<and>
    (\<exists>y. execution_of (ms_id m) d' = Some y \<and> te_status y = ExecRetry \<and> te_lease_token y = None \<and>
      te_retry_count y = tk_retry_count t + 1 \<and>
      te_available_at y = rn_now (world t d1) + retry_delay (tk_retry_count t + 1))"
proof -
  let ?r = "world t d1"
  have id: "tk_id t = ms_id m" using claim_task_identity[OF assms(5)] by (simp add: task_of_message_def)
  have nt: "\<not> finish_terminal (rn_shutdown ?r) t (Some err)" using assms(7,13) by (simp add: finish_terminal_def)
  obtain d' where f: "finish_task (rn_now ?r) (rn_shutdown ?r) t (Some err) (rn_db ?r) = Inr d'"
    "execution_of (ms_id m) d' = Some (finish_row (rn_now ?r) (rn_shutdown ?r) t (Some err) x)"
    using finish_task_owned[of "rn_db ?r" t x "rn_now ?r" "rn_shutdown ?r" "Some err"] assms(10-12) id nt by auto
  have p: "process_task env known now token world (task_of_message cfg q m) d = (Some (Some err), t, d')"
    unfolding process_task_def assms(5) using assms(6,8) f(1) by (simp add: Let_def)
  have "handle_delivery cfg env known publish recorder False now token world q m d =
      settle_message publish recorder False q t (Some err) d'"
    using assms(1-4) p by (simp add: handle_delivery_def task_of_message_def Let_def)
  also have "\<dots> = (ended Ack (Some (retry_queue q (retry_delay (tk_retry_count t + 1)),
      t\<lparr>tk_retry_count := tk_retry_count t + 1\<rparr>)) None, d')"
    using assms(7,13,14) by (simp add: settle_message_def publish_then_ack_def)
  finally show ?thesis using f(2) nt assms(9) by (simp add: finish_row_def Let_def)
qed

section \<open>Witnesses\<close>

definition demo_env :: exec_env where
  "demo_env = \<lparr> xe_digest = (\<lambda>k q b. k @ q), xe_stop_timeout = 10 * second \<rparr>"

definition demo_task :: task where
  "demo_task = \<lparr> tk_id = ''job-1'', tk_kind = ''object:delete'', tk_queue = ''object'', tk_body = JsonNull,
     tk_retry_count = 0, tk_max_retry = 3, tk_timeout = 5 * minute, tk_lease_token = 0 \<rparr>"

definition demo_running :: execution where
  "demo_running = new_execution demo_env 100 7 demo_task"

lemma demo_claim:
  "claim_task demo_env 100 7 demo_task empty_db = Inr (demo_task\<lparr>tk_lease_token := 7\<rparr>, empty_db\<lparr>task_executions := [demo_running]\<rparr>)"
  by (simp add: claim_task_def default_timeout_def demo_task_def demo_env_def demo_running_def empty_db_def execution_of_def
    result_of_def new_execution_def execution_check_def claimed_def)

theorem stale_execution_fenced_witness:
  "finish_state (\<lambda>now t i. (demo_task, False, None)) 200 5 ''job-1''
     (fold (exec_apply demo_env (\<lambda>now t i. demo_task) (\<lambda>now t i. (demo_task, False, None)))
       [Claim 150 9 ''job-1'', Finish 160 9 ''job-1''] empty_db) =
   fold (exec_apply demo_env (\<lambda>now t i. demo_task) (\<lambda>now t i. (demo_task, False, None)))
       [Claim 150 9 ''job-1'', Finish 160 9 ''job-1''] empty_db"
  by (rule stale_execution_fenced)
    (simp_all add: exec_leased_def exec_holder_def execution_of_def empty_db_def)

theorem execution_attempts_bounded_witness:
  "exec_step\<^sup>*\<^sup>* (empty_db, {}) (empty_db\<lparr>task_executions := [demo_running]\<rparr>, {demo_task\<lparr>tk_lease_token := 7\<rparr>}) \<and>
    0 \<le> te_retry_count demo_running \<and> te_retry_count demo_running \<le> te_max_retry demo_running"
proof -
  have "exec_step (empty_db, {}) (empty_db\<lparr>task_executions := [demo_running]\<rparr>, insert (demo_task\<lparr>tk_lease_token := 7\<rparr>) {})"
    by (rule exec_step.claim[OF demo_claim]) (simp_all add: demo_task_def)
  then have steps: "exec_step\<^sup>*\<^sup>* (empty_db, {}) (empty_db\<lparr>task_executions := [demo_running]\<rparr>, {demo_task\<lparr>tk_lease_token := 7\<rparr>})"
    by blast
  then show ?thesis using execution_attempts_bounded[OF steps, of demo_running 150] by (simp add: empty_db_def)
qed


text \<open>A task ran to its end; the same message again is a success, the same task with another body a conflict.\<close>

definition demo_settled :: db where
  "demo_settled = insert_result ''job-1'' TaskSucceeded (empty_db\<lparr>task_executions := [demo_running\<lparr>te_status := ExecFinished\<rparr>]\<rparr>)"

theorem settled_task_never_runs_witness:
  "\<forall>known world. process_task demo_env known 500 8 world demo_task (record_failure demo_task demo_settled) =
     (Some None, default_timeout demo_task, record_failure demo_task demo_settled)"
proof -
  let ?r = "\<lparr> tr_task_id = ''job-1'', tr_status = TaskSucceeded \<rparr>"
  have s: "exec_step\<^sup>*\<^sup>* (demo_settled, {}) (record_failure demo_task demo_settled, {})" using exec_step.failure by blast
  have r: "result_of (tk_id demo_task) demo_settled = Some ?r"
    by (simp add: demo_settled_def insert_result_def result_of_def empty_db_def demo_task_def)
  have p: "payload_of (tk_id demo_task) demo_settled = Some (fingerprint demo_env demo_task)"
    by (simp add: demo_settled_def demo_running_def demo_task_def execution_of_def new_execution_def default_timeout_def fingerprint_def)
  show ?thesis using settled_task_never_runs[OF s r, of demo_env _ 500 8] p by simp
qed

definition demo_broker :: broker_config where
  "demo_broker = new_broker \<lparr> bc_prefetch = 0, bc_concurrency = 0, bc_publish_timeout = 0, bc_max_retry = 3,
     bc_task_timeout = 0, bc_stop_timeout = 0 \<rparr>"

definition demo_world :: "go_error option \<Rightarrow> task \<Rightarrow> db \<Rightarrow> run" where
  "demo_world e t d = \<lparr> rn_before = None, rn_end = Returned e, rn_after = None, rn_lost = False, rn_shutdown = False,
     rn_now = 200, rn_db = d \<rparr>"

abbreviation demo_run :: "go_error option \<Rightarrow> message_end \<times> db" where
  "demo_run e \<equiv> handle_delivery demo_broker demo_env (\<lambda>k. True) (\<lambda>key u. None) None False 100 7 (demo_world e) ''object''
     (message_of_task demo_task) empty_db"

lemma demo_message: "task_of_message demo_broker ''object'' (message_of_task demo_task) = demo_task"
  by (simp add: task_of_message_def message_of_task_def demo_task_def int32_def)

lemma demo_claim_message:
  "claim_task demo_env 100 7 (task_of_message demo_broker ''object'' (message_of_task demo_task)) empty_db =
     Inr (demo_task\<lparr>tk_lease_token := 7\<rparr>, empty_db\<lparr>task_executions := [demo_running]\<rparr>)"
  unfolding demo_message by (rule demo_claim)

lemma demo_success: "me_verdict (fst (demo_run None)) = Ack"
  unfolding handle_delivery_def Let_def demo_message process_task_def demo_claim
  by (simp add: demo_world_def invoke_bounded_def invoke_task_def settle_message_def finish_task_def update_owned_def
    owns_def demo_running_def new_execution_def demo_env_def demo_task_def lease_duration_def)

theorem acked_message_accounted_witness:
  "follows (\<lambda>key u. None) ''object'' (task_of_message demo_broker ''object'' (message_of_task demo_task)) (me_sent (fst (demo_run None))) \<or>
    (me_sent (fst (demo_run None)) = None \<and> result_of (ms_id (message_of_task demo_task)) (snd (demo_run None)) \<noteq> None)"
  by (rule acked_message_accounted[OF prod.collapse[symmetric] demo_success])

theorem failed_attempt_retried_witness:
  "\<exists>d'. demo_run (Some (ErrNew ''io'')) =
      (ended Ack (Some (retry_queue ''object'' (retry_delay (tk_retry_count (demo_task\<lparr>tk_lease_token := 7\<rparr>) + 1)),
         (demo_task\<lparr>tk_lease_token := 7\<rparr>)\<lparr>tk_retry_count := tk_retry_count (demo_task\<lparr>tk_lease_token := 7\<rparr>) + 1\<rparr>)) None, d') \<and>
    (\<exists>y. execution_of (ms_id (message_of_task demo_task)) d' = Some y \<and> te_status y = ExecRetry \<and> te_lease_token y = None \<and>
      te_retry_count y = tk_retry_count (demo_task\<lparr>tk_lease_token := 7\<rparr>) + 1 \<and>
      te_available_at y = rn_now (demo_world (Some (ErrNew ''io'')) (demo_task\<lparr>tk_lease_token := 7\<rparr>)
        (empty_db\<lparr>task_executions := [demo_running]\<rparr>)) + retry_delay (tk_retry_count (demo_task\<lparr>tk_lease_token := 7\<rparr>) + 1))"
  by (rule failed_attempt_retried[where err = "ErrNew ''io''" and x = demo_running, OF _ _ _ _ demo_claim_message])
    (unfold demo_message, simp_all add: key_distinct_def message_of_task_def demo_task_def demo_world_def invoke_bounded_def invoke_task_def err_task_dead_def
      owns_def demo_running_def new_execution_def demo_env_def lease_duration_def execution_of_def)

theorem task_message_roundtrip_witness:
  "task_of_message demo_broker (tk_queue demo_task) (message_of_task demo_task) = demo_task\<lparr>tk_lease_token := 0\<rparr>"
  by (rule task_message_roundtrip) (simp_all add: demo_task_def)

end
