(* ===== verification/DispatchFlow.thy ===== *)
theory DispatchFlow
  imports Dispatcher TaskLifecycle
begin

text \<open>
  What the relay promises: a stale dispatcher is fenced (an interpretation of \<open>lease_contract\<close> on the
  delivery rows), and with a working broker every due delivery is published by the next batch.
\<close>

section \<open>Statements on the delivery table\<close>

abbreviation deliveries_keyed :: "db \<Rightarrow> bool" where
  "deliveries_keyed d \<equiv> key_distinct delivery_key (outbox_deliveries d)"

abbreviation events_keyed :: "db \<Rightarrow> bool" where
  "events_keyed d \<equiv> key_distinct ev_id (outbox_events d)"

definition delivery_by_key :: "uuid \<times> string \<times> string \<Rightarrow> db \<Rightarrow> delivery option" where
  "delivery_by_key k d = find (\<lambda>q. delivery_key q = k) (outbox_deliveries d)"

lemma delivery_by_key_iff:
  "deliveries_keyed d \<Longrightarrow> delivery_by_key k d = Some q \<longleftrightarrow> q \<in> set (outbox_deliveries d) \<and> delivery_key q = k"
  unfolding delivery_by_key_def by (rule find_by_key)

lemma delivery_key_sending [simp]: "delivery_key (sending until token r) = delivery_key r"
  by (simp add: sending_def delivery_key_def)

lemma sending_fields [simp]:
  "dl_status (sending until token r) = DeliverySending" "dl_lease_token (sending until token r) = Some token"
  "dl_lease_until (sending until token r) = Some until" "dl_event_id (sending until token r) = dl_event_id r"
  by (simp_all add: sending_def)

lemma delivery_by_key_update:
  assumes "\<And>q. delivery_key (g q) = delivery_key q"
  shows "delivery_by_key k (d\<lparr>outbox_deliveries := update_where P g (outbox_deliveries d)\<rparr>) =
    map_option (\<lambda>q. if P q then g q else q) (delivery_by_key k d)"
  unfolding delivery_by_key_def using find_update_by_key[of delivery_key g k P "outbox_deliveries d", OF assms] by simp

text \<open>The statements of this package update rows in place without touching their key; an update of the
  owned row is written out once.\<close>

definition rows_updated :: "(delivery \<Rightarrow> bool) \<Rightarrow> (delivery \<Rightarrow> delivery) \<Rightarrow> db \<Rightarrow> db \<Rightarrow> bool" where
  "rows_updated P g d d' \<longleftrightarrow> (\<forall>q. delivery_key (g q) = delivery_key q) \<and>
     outbox_deliveries d' = update_where P g (outbox_deliveries d)"

lemma rows_updated_keyed: "rows_updated P g d d' \<Longrightarrow> deliveries_keyed d \<Longrightarrow> deliveries_keyed d'"
  by (auto simp: rows_updated_def intro: key_distinct_update)

lemma rows_updated_by_key:
  "rows_updated P g d d' \<Longrightarrow> delivery_by_key k d' = map_option (\<lambda>q. if P q then g q else q) (delivery_by_key k d)"
  unfolding rows_updated_def delivery_by_key_def using find_update_by_key[of delivery_key g k P "outbox_deliveries d"] by simp

lemma rows_updated_refl: "rows_updated (\<lambda>q. False) id d d"
  by (simp add: rows_updated_def update_where_id)

lemma claim_row_updated: "rows_updated (\<lambda>q. delivery_key q = delivery_key r) (sending until token) d (claim_row until token r d)"
  by (simp add: rows_updated_def claim_row_def)

definition released :: "delivery \<Rightarrow> delivery" where
  "released q = q\<lparr>dl_status := DeliveryPending, dl_lease_until := None, dl_lease_token := None\<rparr>"

definition failed :: "time \<Rightarrow> delivery \<Rightarrow> string \<Rightarrow> delivery \<Rightarrow> delivery" where
  "failed now r msg q = q\<lparr>dl_status := DeliveryFailed,
     dl_available_at := now + delivery_backoff (int (dl_attempt r)) div millisecond * millisecond,
     dl_lease_until := None, dl_lease_token := None, dl_last_error := Some msg\<rparr>"

lemma delivery_key_updates [simp]:
  "delivery_key (released q) = delivery_key q" "delivery_key (failed now r msg q) = delivery_key q"
  "delivery_key (published_row now b q) = delivery_key q" "delivery_key (replayed now x q) = delivery_key q"
  by (simp_all add: released_def failed_def published_row_def replayed_def delivery_key_def Let_def split: option.split)

lemma updated_fields [simp]:
  "dl_status (released q) = DeliveryPending" "dl_lease_token (released q) = None"
  "dl_status (failed now r msg q) = DeliveryFailed" "dl_lease_token (failed now r msg q) = None"
  "dl_status (published_row now b q) = DeliveryPublished" "dl_lease_token (published_row now b q) = None"
  "dl_status (replayed now x q) = DeliveryPending" "dl_lease_token (replayed now x q) = None"
  by (simp_all add: released_def failed_def published_row_def replayed_def Let_def split: option.split)

lemma release_claim_updated: "rows_updated (held_by r) released d (release_claim r d)"
proof (cases "dl_lease_token r")
  case None
  then have "held_by r = (\<lambda>q. False)" by (simp add: held_by_def fun_eq_iff)
  then show ?thesis using None by (simp add: rows_updated_def release_claim_def update_where_id)
next
  case (Some a)
  have r: "released = (\<lambda>q. q\<lparr>dl_status := DeliveryPending, dl_lease_until := None, dl_lease_token := None\<rparr>)"
    by (rule ext) (simp add: released_def)
  show ?thesis using Some unfolding rows_updated_def release_claim_def r by (simp add: delivery_key_def)
qed

lemma fail_delivery_updated:
  "rows_updated (held_by r) (if c = None then failed now r msg else released) d (snd (fail_delivery c now r msg d))"
proof (cases c)
  case None
  have f: "failed now r msg = (\<lambda>q. q\<lparr>dl_status := DeliveryFailed,
     dl_available_at := now + delivery_backoff (int (dl_attempt r)) div millisecond * millisecond,
     dl_lease_until := None, dl_lease_token := None, dl_last_error := Some msg\<rparr>)"
    by (rule ext) (simp add: failed_def)
  show ?thesis using None unfolding rows_updated_def fail_delivery_def f by (simp add: delivery_key_def)
qed (simp add: fail_delivery_def release_claim_updated)

definition published_pred :: "delivery \<Rightarrow> delivery \<Rightarrow> bool" where
  "published_pred r = (if dl_lease_token r = None then (\<lambda>q. delivery_key q = delivery_key r) else held_by r)"

lemma mark_published_updated:
  "mark_delivery_published now r d = Inr d' \<Longrightarrow>
     rows_updated (published_pred r) (published_row now (dl_lease_token r = None)) d d' \<and>
     outbox_events d' = outbox_events d"
  by (auto simp: mark_delivery_published_def rows_updated_def published_pred_def Let_def split: if_splits)

lemma refresh_deliveries [simp]: "outbox_deliveries (refresh_legacy_event_status now i d) = outbox_deliveries d"
  by (simp add: refresh_legacy_event_status_def)

lemma rows_updated_cong: "outbox_deliveries d1 = outbox_deliveries d2 \<Longrightarrow> rows_updated P g d d1 = rows_updated P g d d2"
  by (simp add: rows_updated_def)

lemma ack_delivery_updated:
  "rows_updated (if fst (ack_delivery now r e d) = None then published_pred r else held_by r)
     (if fst (ack_delivery now r e d) = None then published_row now (dl_lease_token r = None) else released)
     d (snd (ack_delivery now r e d))"
proof (cases "mark_delivery_published now r d")
  case (Inr d')
  then show ?thesis using mark_published_updated[OF Inr]
      rows_updated_cong[of "refresh_legacy_event_status now (ev_id e) d'" d']
    by (simp add: ack_delivery_def)
qed (simp add: ack_delivery_def release_claim_updated)

text \<open>A worker without the lease changes nothing.\<close>

lemma not_held_update: "\<forall>q \<in> set (outbox_deliveries d). \<not> held_by r q \<Longrightarrow> update_where (held_by r) g (outbox_deliveries d) = outbox_deliveries d"
  by (rule update_where_id)

lemma held_by_iff:
  assumes "deliveries_keyed d"
  shows "(\<exists>q \<in> set (outbox_deliveries d). held_by r q) \<longleftrightarrow> (\<exists>q t. delivery_by_key (delivery_key r) d = Some q \<and>
    dl_status q = DeliverySending \<and> dl_lease_token q = Some t \<and> dl_lease_token r = Some t)"
  using delivery_by_key_iff[OF assms] by (auto simp: held_by_def)

lemma count_held:
  assumes "deliveries_keyed d" "q \<in> set (outbox_deliveries d)" "held_by r q"
  shows "count_where (held_by r) (outbox_deliveries d) = 1"
proof -
  have pred: "held_by r = (\<lambda>q. delivery_key q = delivery_key r \<and> (dl_status q = DeliverySending \<and>
     dl_lease_token q = dl_lease_token r \<and> dl_lease_token r \<noteq> None))"
    by (simp add: held_by_def fun_eq_iff)
  have "delivery_by_key (delivery_key r) d = Some q"
    using assms by (simp add: delivery_by_key_iff held_by_def)
  then show ?thesis using count_where_by_key[OF assms(1), of "delivery_key r"] assms(3)
    unfolding pred delivery_by_key_def by auto
qed

lemma stale_ack_fails:
  assumes "\<forall>q \<in> set (outbox_deliveries d). \<not> held_by r q" "dl_lease_token r \<noteq> None"
  shows "ack_delivery now r e d = (Some (ErrNew ''outbox delivery lease lost''), d)"
    "snd (fail_delivery c now r msg d) = d" "release_claim r d = d"
proof -
  have n: "count_where (held_by r) (outbox_deliveries d) = 0" using assms(1) by (simp add: count_where_0_iff)
  show rel: "release_claim r d = d" using assms not_held_update[OF assms(1)] by (simp add: release_claim_def)
  show "ack_delivery now r e d = (Some (ErrNew ''outbox delivery lease lost''), d)"
    using assms(2) n rel by (cases "dl_lease_token r") (simp_all add: ack_delivery_def mark_delivery_published_def)
  show "snd (fail_delivery c now r msg d) = d"
    using rel not_held_update[OF assms(1)] by (cases c) (simp_all add: fail_delivery_def)
qed

lemma held_ack_succeeds:
  assumes "deliveries_keyed d" "q \<in> set (outbox_deliveries d)" "held_by r q"
  shows "fst (ack_delivery now r e d) = None"
  using count_held[OF assms] assms(3) by (auto simp: ack_delivery_def mark_delivery_published_def held_by_def)

section \<open>The lease\<close>

definition delivery_holder :: "db \<Rightarrow> uuid \<times> string \<times> string \<Rightarrow> uuid option" where
  "delivery_holder d k = (case delivery_by_key k d of None \<Rightarrow> None
     | Some q \<Rightarrow> if dl_status q = DeliverySending then dl_lease_token q else None)"

definition delivery_lease_until :: "db \<Rightarrow> uuid \<times> string \<times> string \<Rightarrow> time" where
  "delivery_lease_until d k = (case delivery_by_key k d of None \<Rightarrow> 0
     | Some q \<Rightarrow> (case dl_lease_until q of None \<Rightarrow> 0 | Some t \<Rightarrow> t))"

definition delivery_leased :: "db \<Rightarrow> bool" where
  "delivery_leased d \<longleftrightarrow> deliveries_keyed d \<and>
     (\<forall>q \<in> set (outbox_deliveries d). dl_status q = DeliverySending \<longrightarrow> dl_lease_until q \<noteq> None)"

text \<open>The claim of one row, and the acknowledgement of the row a worker claimed under a token.\<close>

definition claim_delivery ::
  "dispatch_config \<Rightarrow> time \<Rightarrow> uuid \<Rightarrow> uuid \<times> string \<times> string \<Rightarrow> db \<Rightarrow> db" where
  "claim_delivery c now token k d = (case delivery_by_key k d of None \<Rightarrow> d
     | Some r \<Rightarrow> if claimable_delivery now r then claim_row (claim_until c now) token r d else d)"

definition claimed_row :: "delivery \<Rightarrow> uuid \<Rightarrow> uuid \<times> string \<times> string \<Rightarrow> delivery" where
  "claimed_row r token k = (case k of (i, transport, destination) \<Rightarrow>
     r\<lparr>dl_event_id := i, dl_transport := transport, dl_destination := destination, dl_lease_token := Some token\<rparr>)"

definition ack_state ::
  "(time \<Rightarrow> uuid \<Rightarrow> uuid \<times> string \<times> string \<Rightarrow> delivery \<times> outbox_event) \<Rightarrow> time \<Rightarrow> uuid \<Rightarrow> uuid \<times> string \<times> string \<Rightarrow> db \<Rightarrow> db" where
  "ack_state mem now token k d =
     (case mem now token k of (r, e) \<Rightarrow> snd (ack_delivery now (claimed_row r token k) e d))"

lemma claimed_row_fields [simp]:
  "delivery_key (claimed_row r token k) = k" "dl_lease_token (claimed_row r token k) = Some token"
  by (auto simp: claimed_row_def delivery_key_def split: prod.split)

lemma rows_updated_leased:
  assumes "delivery_leased d" "rows_updated P g d d'" "\<And>q. P q \<Longrightarrow> dl_status (g q) = DeliverySending \<Longrightarrow> dl_lease_until (g q) \<noteq> None"
  shows "delivery_leased d'"
  using assms rows_updated_keyed[OF assms(2)]
  by (fastforce simp: delivery_leased_def rows_updated_def in_set_update_where)

lemma delivery_by_key_key: "delivery_by_key k d = Some q \<Longrightarrow> delivery_key q = k"
  by (auto simp: delivery_by_key_def find_Some_iff)

lemma claim_delivery_row:
  "delivery_by_key j (claim_delivery c now token k d) =
    (case delivery_by_key j d of None \<Rightarrow> None
     | Some q \<Rightarrow> Some (if j = k \<and> claimable_delivery now q then sending (claim_until c now) token q else q))"
proof (cases "delivery_by_key k d")
  case None
  then show ?thesis by (auto simp: claim_delivery_def split: option.split)
next
  case (Some r)
  show ?thesis
  proof (cases "claimable_delivery now r")
    case True
    have "delivery_by_key j (claim_delivery c now token k d) =
        map_option (\<lambda>q. if delivery_key q = delivery_key r then sending (claim_until c now) token q else q) (delivery_by_key j d)"
      using Some True rows_updated_by_key[OF claim_row_updated] by (simp add: claim_delivery_def)
    then show ?thesis
      using Some True delivery_by_key_key[OF Some] delivery_by_key_key[of j d]
      by (cases "j = k") (auto split: option.split)
  qed (use Some in \<open>auto simp: claim_delivery_def split: option.split\<close>)
qed

lemma claim_delivery_leased: "delivery_leased d \<Longrightarrow> delivery_leased (claim_delivery c now token k d)"
  by (auto simp: claim_delivery_def intro!: rows_updated_leased[OF _ claim_row_updated] split: option.split)

lemma ack_state_leased:
  assumes "delivery_leased d"
  shows "delivery_leased (ack_state mem now token k d)"
proof -
  obtain r e where m: "mem now token k = (r, e)" by (cases "mem now token k")
  show ?thesis unfolding ack_state_def m prod.case
    by (rule rows_updated_leased[OF assms ack_delivery_updated]) (simp split: if_splits)
qed

lemma ack_state_row:
  assumes "delivery_leased d"
  shows "delivery_holder d k \<noteq> Some token \<Longrightarrow> ack_state mem now token k d = d"
    and "delivery_holder d k = Some token \<Longrightarrow> delivery_holder (ack_state mem now token k d) k = None"
    and "j \<noteq> k \<Longrightarrow> delivery_holder (ack_state mem now token k d) j = delivery_holder d j"
proof -
  obtain r e where m: "mem now token k = (r, e)" by (cases "mem now token k")
  let ?r = "claimed_row r token k"
  have k: "deliveries_keyed d" using assms by (simp add: delivery_leased_def)
  have holds: "(\<exists>q \<in> set (outbox_deliveries d). held_by ?r q) \<longleftrightarrow> delivery_holder d k = Some token"
    unfolding held_by_iff[OF k] by (auto simp: delivery_holder_def split: option.splits)
  show "ack_state mem now token k d = d" if "delivery_holder d k \<noteq> Some token"
    using that holds stale_ack_fails(1)[of d ?r] by (auto simp: ack_state_def m)
  have pred: "published_pred ?r = held_by ?r" by (simp add: published_pred_def)
  let ?g = "if fst (ack_delivery now ?r e d) = None then published_row now False else released"
  have upd: "rows_updated (held_by ?r) ?g d (snd (ack_delivery now ?r e d))"
    using ack_delivery_updated[of now ?r e d] unfolding pred by (cases "fst (ack_delivery now ?r e d)") simp_all
  have row: "delivery_by_key i (ack_state mem now token k d) = map_option (\<lambda>q. if held_by ?r q then ?g q else q) (delivery_by_key i d)" for i
    unfolding ack_state_def m prod.case by (rule rows_updated_by_key[OF upd])
  show "delivery_holder (ack_state mem now token k d) j = delivery_holder d j" if "j \<noteq> k"
    using that row[of j] by (auto simp: delivery_holder_def held_by_def dest!: delivery_by_key_key split: option.splits)
  show "delivery_holder (ack_state mem now token k d) k = None" if h: "delivery_holder d k = Some token"
  proof -
    obtain q where q: "delivery_by_key k d = Some q" "dl_status q = DeliverySending" "dl_lease_token q = Some token"
      using h by (auto simp: delivery_holder_def split: option.splits if_splits)
    then have "held_by ?r q" by (simp add: held_by_def delivery_by_key_key)
    then show ?thesis using row[of k] q by (simp add: delivery_holder_def)
  qed
qed

lemma live_not_claimable:
  assumes "delivery_leased d" "delivery_holder d k = Some u" "now < delivery_lease_until d k"
  shows "\<exists>q. delivery_by_key k d = Some q \<and> \<not> claimable_delivery now q"
proof -
  obtain q where q: "delivery_by_key k d = Some q" "dl_status q = DeliverySending"
    using assms(2) by (auto simp: delivery_holder_def split: option.splits if_splits)
  then have "q \<in> set (outbox_deliveries d)" by (auto simp: delivery_by_key_def find_Some_iff)
  then obtain t where "dl_lease_until q = Some t" using assms(1) q(2) by (auto simp: delivery_leased_def)
  then show ?thesis using assms(3) q by (auto simp: delivery_lease_until_def claimable_delivery_def)
qed

interpretation delivery_lease:
  lease_contract delivery_holder delivery_lease_until "claim_delivery c" "ack_state mem" delivery_leased for c mem
proof (unfold_locales, goal_cases)
  case (1 s now t k) then show ?case by (rule claim_delivery_leased)
next
  case (2 s now t k) then show ?case by (rule ack_state_leased)
next
  case (3 s k' k now t) then show ?case by (auto simp: delivery_holder_def claim_delivery_row split: option.split)
next
  case (4 s now t k) then show ?case by (auto simp: delivery_holder_def claim_delivery_row split: option.split)
next
  case (5 s k u now t)
  then show ?case using live_not_claimable[OF 5] by (auto simp: delivery_holder_def claim_delivery_row split: option.split)
next
  case (6 s t k now) show ?case by (rule ack_state_row(1)[OF 6(1) 6(3)])
next
  case (7 s t k now) then show ?case using ack_state_row(2)[OF 7(1) 7(3)] by blast
next
  case (8 s t k' k now) show ?case by (rule ack_state_row(3)[OF 8(1) 8(3)])
next
  case (9 s t k now) show ?case by (rule ack_state_row(2)[OF 9(1) 9(3)])
qed

text \<open>Claims and acknowledgements in any order.\<close>

primrec relay_apply ::
  "dispatch_config \<Rightarrow> (time \<Rightarrow> uuid \<Rightarrow> uuid \<times> string \<times> string \<Rightarrow> delivery \<times> outbox_event) \<Rightarrow>
   (uuid \<times> string \<times> string) lease_event \<Rightarrow> db \<Rightarrow> db" where
  "relay_apply c mem (Claim now t k) d = claim_delivery c now t k d"
| "relay_apply c mem (Finish now t k) d = ack_state mem now t k d"

lemma relay_history_run: "fold (relay_apply c mem) es d = delivery_lease.run c mem es d"
proof -
  have step: "relay_apply c mem e d = delivery_lease.step c mem e d" for e d by (cases e) simp_all
  show ?thesis by (induction es arbitrary: d) (simp_all add: step)
qed

text \<open>A dispatcher whose claim on a delivery was taken over can settle it no more: after any claims and
  acknowledgements of other dispatchers, its acknowledgement is refused with the database as it was, and
  its failure report and its release change nothing.\<close>

theorem stale_dispatcher_fenced:
  assumes "delivery_leased d" "token \<noteq> 0" "delivery_holder d (delivery_key r) \<noteq> Some token" "dl_lease_token r = Some token"
    "\<forall>e \<in> set es. lease_tokens_ok e \<and> \<not> lease_claims token (delivery_key r) e"
    "d' = fold (relay_apply c mem) es d"
  shows "ack_delivery now r e d' = (Some (ErrNew ''outbox delivery lease lost''), d') \<and>
    snd (fail_delivery canceled now r msg d') = d' \<and> release_claim r d' = d'"
proof -
  have d': "d' = delivery_lease.run c mem es d" using assms(6) by (simp add: relay_history_run)
  have "delivery_leased d'" unfolding d' by (rule delivery_lease.run_inv[OF assms(1)])
  then have k: "deliveries_keyed d'" by (simp add: delivery_leased_def)
  have "delivery_holder d' (delivery_key r) \<noteq> Some token"
    unfolding d' by (rule delivery_lease.run_not_holder[OF assms(1,5,3)])
  then have "\<not> (\<exists>q \<in> set (outbox_deliveries d'). held_by r q)"
    unfolding held_by_iff[OF k] using assms(4) by (auto simp: delivery_holder_def)
  then show ?thesis using stale_ack_fails[of d' r] assms(4) by simp
qed

section \<open>Claimed batches\<close>

lemma claim_rows_other:
  "claim_due_rows mint until n rs d = Inr (items, d') \<Longrightarrow> k \<notin> delivery_key ` set rs \<Longrightarrow> delivery_by_key k d' = delivery_by_key k d"
proof (induction rs arbitrary: n d items d')
  case (Cons r rs)
  obtain e items1 where 1: "claim_due_rows mint until (Suc n) rs (claim_row until (mint n) r d) = Inr (items1, d')"
    using Cons.prems(1) by (auto simp: attempt_eq_Inr_iff)
  have "delivery_by_key k d' = delivery_by_key k (claim_row until (mint n) r d)" using Cons.IH[OF 1] Cons.prems(2) by simp
  also have "\<dots> = delivery_by_key k d"
    using rows_updated_by_key[OF claim_row_updated, of k] Cons.prems(2)
    by (cases "delivery_by_key k d") (auto dest: delivery_by_key_key)
  finally show ?case .
qed simp

lemma claim_row_events [simp]: "outbox_events (claim_row until token r d) = outbox_events d"
  by (simp add: claim_row_def)

lemma event_by_id_cong: "outbox_events d = outbox_events d' \<Longrightarrow> event_by_id i d = event_by_id i d'"
  by (simp add: event_by_id_def)

definition item_held :: "db \<Rightarrow> claimed_delivery \<Rightarrow> bool" where
  "item_held d i \<longleftrightarrow> (\<exists>q \<in> set (outbox_deliveries d). held_by (cl_delivery i) q)"

lemma item_held_by_key:
  assumes "deliveries_keyed d"
  shows "item_held d i \<longleftrightarrow> (\<exists>q. delivery_by_key (delivery_key (cl_delivery i)) d = Some q \<and> held_by (cl_delivery i) q)"
  unfolding item_held_def delivery_by_key_iff[OF assms] by (auto simp: held_by_def)

text \<open>Every claimed item is held, belongs to its event and stands for one due row, in order.\<close>

lemma claim_rows_spec:
  assumes "claim_due_rows mint until n rs d = Inr (items, d')" "deliveries_keyed d" "distinct (map delivery_key rs)"
    "set rs \<subseteq> set (outbox_deliveries d)"
  shows "map (\<lambda>i. delivery_key (cl_delivery i)) items = map delivery_key rs \<and> deliveries_keyed d' \<and>
    outbox_events d' = outbox_events d \<and>
    (\<forall>i \<in> set items. item_held d' i \<and> event_by_id (dl_event_id (cl_delivery i)) d = Some (cl_event i))"
  using assms
proof (induction rs arbitrary: n d items d')
  case (Cons r rs)
  let ?d = "claim_row until (mint n) r d"
  let ?r = "r\<lparr>dl_status := DeliverySending, dl_attempt := dl_attempt r + 1,
      dl_lease_until := Some until, dl_lease_token := Some (mint n)\<rparr>"
  obtain e items1 where e: "event_by_id (dl_event_id r) d = Some e"
    and 1: "claim_due_rows mint until (Suc n) rs ?d = Inr (items1, d')"
    and i: "items = \<lparr>cl_delivery = ?r, cl_event = e\<rparr> # items1"
    using Cons.prems(1) by (auto simp: attempt_eq_Inr_iff)
  have key: "delivery_key ?r = delivery_key r" by (simp add: delivery_key_def)
  have k1: "deliveries_keyed ?d" by (rule rows_updated_keyed[OF claim_row_updated Cons.prems(2)])
  have sub: "set rs \<subseteq> set (outbox_deliveries ?d)"
  proof
    fix x assume x: "x \<in> set rs"
    then have "delivery_key x \<in> delivery_key ` set rs" by (rule imageI)
    then have "delivery_key x \<noteq> delivery_key r" using Cons.prems(3) by auto
    then show "x \<in> set (outbox_deliveries ?d)"
      using x Cons.prems(4) by (auto simp: claim_row_def in_set_update_where)
  qed
  have rest: "map (\<lambda>i. delivery_key (cl_delivery i)) items1 = map delivery_key rs \<and> deliveries_keyed d' \<and>
    outbox_events d' = outbox_events ?d \<and>
    (\<forall>i \<in> set items1. item_held d' i \<and> event_by_id (dl_event_id (cl_delivery i)) ?d = Some (cl_event i))"
    using Cons.IH[OF 1 k1 _ sub] Cons.prems(3) by simp
  have "delivery_by_key (delivery_key r) d = Some r" using Cons.prems(2,4) by (simp add: delivery_by_key_iff)
  then have "delivery_by_key (delivery_key r) d' = Some (sending until (mint n) r)"
    using claim_rows_other[OF 1, of "delivery_key r"] Cons.prems(3) rows_updated_by_key[OF claim_row_updated, of "delivery_key r"]
    by simp
  then have "item_held d' \<lparr>cl_delivery = ?r, cl_event = e\<rparr>"
    using rest key by (simp add: item_held_by_key held_by_def)
  then show ?case using rest i key e event_by_id_cong[of ?d d] by simp
qed simp

lemma due_deliveries_spec:
  assumes "deliveries_keyed d"
  shows "distinct (map delivery_key (due_deliveries c now d))" "set (due_deliveries c now d) \<subseteq> set (outbox_deliveries d)"
proof -
  let ?rows = "sort_key dl_available_at (sort_key dl_event_id (filter (claimable_delivery now) (outbox_deliveries d)))"
  have "mset (map delivery_key ?rows) = mset (map delivery_key (filter (claimable_delivery now) (outbox_deliveries d)))" by simp
  moreover have "distinct (map delivery_key (filter (claimable_delivery now) (outbox_deliveries d)))"
    using assms by (simp add: key_distinct_def distinct_map_filter)
  ultimately have "distinct (map delivery_key ?rows)" using mset_eq_imp_distinct_iff by blast
  then show "distinct (map delivery_key (due_deliveries c now d))"
    by (simp add: due_deliveries_def take_map[symmetric])
  show "set (due_deliveries c now d) \<subseteq> set (outbox_deliveries d)"
    using set_take_subset[of "dc_batch_size c" ?rows] by (auto simp: due_deliveries_def)
qed

section \<open>A working broker\<close>

definition accepting :: "send_env \<Rightarrow> bool" where
  "accepting env \<longleftrightarrow> se_before env = None \<and> (\<forall>t. se_publish env t = None)"

text \<open>A row that the present configuration settles: its event may go to its target, or it waits for the AI queue while
  AI is off and is closed without being sent.\<close>

definition routable_to :: "dispatch_config \<Rightarrow> outbox_event \<Rightarrow> delivery \<Rightarrow> bool" where
  "routable_to c e r \<longleftrightarrow> (case target_from_delivery r of None \<Rightarrow> False
     | Some t \<Rightarrow> tg_queue t = ''ai'' \<and> \<not> dc_ai_enabled c \<or>
         target_allowed_for_event (ev_event_type e) (dc_ai_enabled c) (dc_search_enabled c) r \<noteq> None)"

definition routable :: "dispatch_config \<Rightarrow> claimed_delivery \<Rightarrow> bool" where
  "routable c i \<longleftrightarrow> routable_to c (cl_event i) (cl_delivery i)"

lemma accepted_send:
  assumes "accepting env" "routable c i"
  shows "send_delivery c env i d = ack_delivery (se_now env) (cl_delivery i) (cl_event i) d"
  using assms
  by (auto simp: send_delivery_def accepting_def routable_def routable_to_def Let_def split: option.splits)

lemma refused_send:
  assumes "accepting env" "\<not> routable c i"
  shows "fst (send_delivery c env i d) = Some (ErrNew unsupported)"
  using assms
  by (auto simp: send_delivery_def accepting_def routable_def routable_to_def fail_delivery_def Let_def split: option.splits)

lemma accepted_ack:
  assumes "deliveries_keyed d" "item_held d i"
    and "send_delivery c env i d = ack_delivery now (cl_delivery i) (cl_event i) d"
  obtains d' where "send_delivery c env i d = (None, d')" "deliveries_keyed d'"
    "\<And>k. delivery_by_key k d' = (case delivery_by_key k d of None \<Rightarrow> None
       | Some q \<Rightarrow> Some (if k = delivery_key (cl_delivery i) then published_row now False q else q))"
proof -
  let ?r = "cl_delivery i"
  obtain q where q: "delivery_by_key (delivery_key ?r) d = Some q" "held_by ?r q"
    using assms(2) item_held_by_key[OF assms(1)] by blast
  then have ok: "fst (ack_delivery now ?r (cl_event i) d) = None"
    using held_ack_succeeds[OF assms(1)] delivery_by_key_iff[OF assms(1)] by blast
  have t: "dl_lease_token ?r \<noteq> None" using q(2) by (simp add: held_by_def)
  define d' where "d' = snd (ack_delivery now ?r (cl_event i) d)"
  have upd: "rows_updated (held_by ?r) (published_row now False) d d'"
    using ack_delivery_updated[of now ?r "cl_event i" d] ok t by (simp add: published_pred_def d'_def)
  have "delivery_by_key k d' = (case delivery_by_key k d of None \<Rightarrow> None
       | Some q \<Rightarrow> Some (if k = delivery_key ?r then published_row now False q else q))" for k
    using rows_updated_by_key[OF upd, of k] q delivery_by_key_key[of k d]
    by (cases "delivery_by_key k d") (auto simp: held_by_def)
  moreover have "send_delivery c env i d = (None, d')" using assms(3) ok by (simp add: d'_def prod_eq_iff)
  ultimately show thesis using that rows_updated_keyed[OF upd assms(1)] by blast
qed

definition published_key :: "db \<Rightarrow> uuid \<times> string \<times> string \<Rightarrow> bool" where
  "published_key d k \<longleftrightarrow> (\<exists>q. delivery_by_key k d = Some q \<and> dl_status q = DeliveryPublished)"

lemma published_key_update:
  assumes "rows_updated P g d d'" "\<And>q. P q \<Longrightarrow> dl_status q = DeliveryPublished \<Longrightarrow> dl_status (g q) = DeliveryPublished" "published_key d k"
  shows "published_key d' k"
proof -
  obtain q where q: "delivery_by_key k d = Some q" "dl_status q = DeliveryPublished" using assms(3) by (auto simp: published_key_def)
  show ?thesis using q assms(2)[of q] by (simp add: published_key_def rows_updated_by_key[OF assms(1)])
qed

lemma held_not_published: "held_by r q \<Longrightarrow> dl_status q \<noteq> DeliveryPublished"
  by (simp add: held_by_def)

lemma release_keeps_published: "published_key d k \<Longrightarrow> published_key (release_claim r d) k"
  by (rule published_key_update[OF release_claim_updated]) (auto dest: held_not_published)

lemma releases_keep_published: "published_key d k \<Longrightarrow> published_key (release_claims items d) k"
  by (induction items arbitrary: d) (simp_all add: release_claims_def release_keeps_published)

lemma ack_keeps_published: "published_key d k \<Longrightarrow> published_key (snd (ack_delivery now r e d)) k"
  by (rule published_key_update[OF ack_delivery_updated]) (auto dest: held_not_published split: if_splits)

lemma fail_keeps_published: "published_key d k \<Longrightarrow> published_key (snd (fail_delivery x now r msg d)) k"
  by (rule published_key_update[OF fail_delivery_updated]) (auto dest: held_not_published)

lemma send_keeps_published: "published_key d k \<Longrightarrow> published_key (snd (send_delivery c env i d)) k"
  by (auto simp: send_delivery_def Let_def split: option.splits
      intro: releases_keep_published ack_keeps_published fail_keeps_published)

lemma items_keep_published: "published_key d k \<Longrightarrow> published_key (snd (snd (dispatch_items c stop env n items d))) k"
proof (induction items arbitrary: n d)
  case (Cons i items)
  obtain err d1 where s: "send_delivery c (env n) i d = (err, d1)" by (cases "send_delivery c (env n) i d")
  have "published_key d1 k" using send_keeps_published[OF Cons.prems, of c "env n" i] s by simp
  then show ?case using Cons s releases_keep_published by (auto split: option.splits)
qed simp

lemma accepted_items:
  assumes "\<forall>n. accepting (env n)" "\<forall>n. stop n = None" "\<forall>i \<in> set items. routable c i"
    "\<forall>i \<in> set items. item_held d i" "distinct (map (\<lambda>i. delivery_key (cl_delivery i)) items)" "deliveries_keyed d"
  shows "\<exists>d'. dispatch_items c stop env n (items @ rest) d = dispatch_items c stop env (n + length items) rest d' \<and>
    (\<forall>k. k \<in> (\<lambda>i. delivery_key (cl_delivery i)) ` set items \<or> published_key d k \<longrightarrow> published_key d' k)"
  using assms(3-6)
proof (induction items arbitrary: n d)
  case (Cons i items)
  have send: "send_delivery c (env n) i d = ack_delivery (se_now (env n)) (cl_delivery i) (cl_event i) d"
    using accepted_send assms(1) Cons.prems(1) by simp
  obtain d1 where d1: "send_delivery c (env n) i d = (None, d1)" "deliveries_keyed d1"
    and row: "\<And>k. delivery_by_key k d1 = (case delivery_by_key k d of None \<Rightarrow> None
       | Some q \<Rightarrow> Some (if k = delivery_key (cl_delivery i) then published_row (se_now (env n)) False q else q))"
    using accepted_ack[OF Cons.prems(4) _ send] Cons.prems(2) by auto
  have held: "\<forall>j \<in> set items. item_held d1 j"
  proof
    fix j assume j: "j \<in> set items"
    then have "delivery_key (cl_delivery j) \<in> (\<lambda>i. delivery_key (cl_delivery i)) ` set items" by (rule imageI)
    then have "delivery_key (cl_delivery j) \<noteq> delivery_key (cl_delivery i)" using Cons.prems(3) by auto
    then show "item_held d1 j" using Cons.prems(2) j row[of "delivery_key (cl_delivery j)"]
      unfolding item_held_by_key[OF d1(2)] by (auto simp: item_held_by_key[OF Cons.prems(4)])
  qed
  obtain d' where d': "dispatch_items c stop env (Suc n) (items @ rest) d1 = dispatch_items c stop env (Suc n + length items) rest d'"
    "\<forall>k. k \<in> (\<lambda>i. delivery_key (cl_delivery i)) ` set items \<or> published_key d1 k \<longrightarrow> published_key d' k"
    using Cons.IH[OF _ held _ d1(2), of "Suc n"] Cons.prems(1,3) by auto
  have "published_key d1 k" if "k = delivery_key (cl_delivery i) \<or> published_key d k" for k
  proof (cases "k = delivery_key (cl_delivery i)")
    case True
    then show ?thesis using row[of k] Cons.prems(2) item_held_by_key[OF Cons.prems(4), of i]
      by (auto simp: published_key_def)
  next
    case False
    then show ?thesis using row[of k] that by (auto simp: published_key_def)
  qed
  then have "\<forall>k. k \<in> (\<lambda>i. delivery_key (cl_delivery i)) ` set (i # items) \<or> published_key d k \<longrightarrow> published_key d' k"
    using d'(2) unfolding list.set image_insert by blast
  moreover have "dispatch_items c stop env n ((i # items) @ rest) d = dispatch_items c stop env (n + length (i # items)) rest d'"
    using d'(1) d1(1) assms(2)[rule_format, of n] by simp
  ultimately show ?case by blast
next
  case Nil
  show ?case by (intro exI[of _ d]) simp
qed

lemma claim_rows_total:
  "\<forall>r \<in> set rs. event_by_id (dl_event_id r) d \<noteq> None \<Longrightarrow> \<exists>items d'. claim_due_rows mint until n rs d = Inr (items, d')"
proof (induction rs arbitrary: n d)
  case (Cons r rs)
  have "event_by_id i (claim_row until (mint n) r d) = event_by_id i d" for i by (rule event_by_id_cong) simp
  then have "\<exists>items d'. claim_due_rows mint until (Suc n) rs (claim_row until (mint n) r d) = Inr (items, d')"
    using Cons.IH[of "claim_row until (mint n) r d" "Suc n"] Cons.prems by simp
  then show ?case using Cons.prems by (auto simp: attempt_def found_def)
qed simp

lemma pinned_fields [simp]:
  "delivery_key (pinned gc d r) = delivery_key r" "dl_event_id (pinned gc d r) = dl_event_id r"
  "dl_status (pinned gc d r) = dl_status r" "dl_transport (pinned gc d r) = dl_transport r"
  "dl_destination (pinned gc d r) = dl_destination r" "dl_lease_until (pinned gc d r) = dl_lease_until r"
  by (simp_all add: pinned_def delivery_key_def split: option.split)

lemma pin_frame [simp]: "outbox_events (pin_delivery_deadlines gc d) = outbox_events d"
  by (simp add: pin_delivery_deadlines_def)

lemma pin_keyed: "deliveries_keyed (pin_delivery_deadlines gc d) = deliveries_keyed d"
  by (simp add: pin_delivery_deadlines_def key_distinct_def comp_def)

definition routable_row :: "dispatch_config \<Rightarrow> db \<Rightarrow> delivery \<Rightarrow> bool" where
  "routable_row c d r \<longleftrightarrow> (case event_by_id (dl_event_id r) d of None \<Rightarrow> False | Some e \<Rightarrow> routable_to c e r)"

lemma routable_key: "delivery_key q = delivery_key r \<Longrightarrow> routable_to c e q = routable_to c e r"
proof -
  assume k: "delivery_key q = delivery_key r"
  then have "target_from_delivery q = target_from_delivery r" by (simp add: target_from_delivery_def delivery_key_def)
  moreover have "target_allowed_for_event et ai s q = target_allowed_for_event et ai s r" for et ai s
    using k by (simp add: target_allowed_for_event_def target_from_delivery_def delivery_key_def)
  ultimately show ?thesis by (simp only: routable_to_def)
qed

lemma items_routable:
  assumes "map (\<lambda>i. delivery_key (cl_delivery i)) items = map delivery_key due" "j < length due"
    "\<forall>i \<in> set items. event_by_id (dl_event_id (cl_delivery i)) d = Some (cl_event i)"
  shows "routable c (items ! j) = routable_row c d (due ! j)"
proof -
  have j: "j < length items" using assms(1,2) by (metis length_map)
  then have key: "delivery_key (cl_delivery (items ! j)) = delivery_key (due ! j)" using assms(1,2) by (metis nth_map)
  then have "dl_event_id (due ! j) = dl_event_id (cl_delivery (items ! j))" by (simp add: delivery_key_def)
  then have "event_by_id (dl_event_id (due ! j)) d = Some (cl_event (items ! j))" using assms(3) j by simp
  then show ?thesis using routable_key[OF key] by (simp add: routable_def routable_row_def)
qed

text \<open>Sending claimed rows of which the first \<open>m\<close> can be routed and the next cannot.\<close>

lemma items_until_refused:
  assumes env: "\<forall>n. accepting (env n)" "\<forall>n. stop n = None"
    and held: "\<forall>i \<in> set items. item_held d2 i" "distinct (map (\<lambda>i. delivery_key (cl_delivery i)) items)"
    and keyed: "deliveries_keyed d2"
    and m: "m \<le> length items" "\<forall>i \<in> set (take m items). routable c i" "m < length items \<Longrightarrow> \<not> routable c (items ! m)"
  shows "\<exists>d'. dispatch_items c stop env 0 items d2 =
      (if m = length items then (m, None, d') else (Suc m, Some (ErrNew unsupported), d')) \<and>
    (\<forall>i \<in> set (take m items). published_key d' (delivery_key (cl_delivery i)))"
proof -
  have "\<forall>i \<in> set (take m items). item_held d2 i" using held(1) set_take_subset[of m items] by blast
  moreover have "distinct (map (\<lambda>i. delivery_key (cl_delivery i)) (take m items))"
    using held(2) by (metis distinct_take take_map)
  ultimately obtain d3 where d3: "dispatch_items c stop env 0 (take m items @ drop m items) d2 =
      dispatch_items c stop env (0 + length (take m items)) (drop m items) d3"
    "\<forall>k. k \<in> (\<lambda>i. delivery_key (cl_delivery i)) ` set (take m items) \<or> published_key d2 k \<longrightarrow> published_key d3 k"
    using accepted_items[OF env m(2), of d2 0 "drop m items"] keyed by blast
  then have run: "dispatch_items c stop env 0 items d2 = dispatch_items c stop env m (drop m items) d3"
    using m(1) by (simp add: min_def)
  define d' where "d' = snd (snd (dispatch_items c stop env m (drop m items) d3))"
  have "published_key d' (delivery_key (cl_delivery i))" if "i \<in> set (take m items)" for i
    unfolding d'_def using d3(2) that by (intro items_keep_published) blast
  moreover have "dispatch_items c stop env m (drop m items) d3 =
      (if m = length items then (m, None, d') else (Suc m, Some (ErrNew unsupported), d'))"
  proof (cases "m = length items")
    case False
    then have lt: "m < length items" using m(1) by simp
    obtain d4 where s: "send_delivery c (env m) (items ! m) d3 = (Some (ErrNew unsupported), d4)"
      using refused_send[OF env(1)[rule_format]] m(3)[OF lt] by (metis prod.collapse)
    have "drop m items = items ! m # drop (Suc m) items" using lt by (simp add: Cons_nth_drop_Suc)
    then show ?thesis using s env(2) False by (simp add: d'_def)
  qed (simp add: d'_def)
  ultimately show ?thesis using run by auto
qed

text \<open>C30: With a working broker a due delivery does not wait.  Whether or not the batch repeats the full preparation
  first, take the rows \<open>due\<close> then, the oldest of a batch's worth, and let nobody stop or cancel the batch.  Every
  row before the first one the present configuration cannot route ends published (a row of the AI queue while
  AI is off is closed without being sent).  If all of them can be routed the batch ends without an error and
  counts them all, and when no more rows are due than fit into a batch that is every due row of the table.  The
  first row that cannot be routed, for instance a search row after search was switched off, ends the batch with
  an error, and the rows behind it wait for a later batch.\<close>

theorem due_deliveries_published:
  assumes "prepare_for_dispatch c prepared now d = Inr (prepared', d1)" "deliveries_keyed d1"
    "due = due_deliveries c now d1" "\<forall>r \<in> set due. event_by_id (dl_event_id r) d1 \<noteq> None"
    "\<forall>n. accepting (env n)" "\<forall>n. stop n = None" "good = takeWhile (routable_row c d1) due"
  shows "\<exists>d'. dispatch_batch c mint stop env prepared now d =
      (if good = due then (length due, None, prepared', d') else (Suc (length good), Some (ErrNew unsupported), prepared', d')) \<and>
    (\<forall>r \<in> set good. published_key d' (delivery_key r)) \<and>
    (count_where (claimable_delivery now) (outbox_deliveries d1) \<le> dc_batch_size c \<longrightarrow>
       set due = {r \<in> set (outbox_deliveries d1). claimable_delivery now r})"
proof -
  have due: "distinct (map delivery_key due)" "set due \<subseteq> set (outbox_deliveries d1)"
    unfolding assms(3) by (rule due_deliveries_spec[OF assms(2)])+
  obtain items d2 where claim: "claim_due_rows mint (claim_until c now) 0 due d1 = Inr (items, d2)"
    using claim_rows_total[OF assms(4)] by blast
  note spec = claim_rows_spec[OF claim assms(2) due]
  have len: "length items = length due" using spec by (metis length_map)
  define m where "m = length good"
  have gm: "good = take m due" "m \<le> length due"
    unfolding m_def assms(7) by (rule takeWhile_eq_take, rule length_takeWhile_le)
  have r: "routable c (items ! j) \<longleftrightarrow> routable_row c d1 (due ! j)" if "j < length due" for j
    using items_routable[of items due j d1 c] spec that by blast
  have "\<forall>r \<in> set (take m due). routable_row c d1 r" unfolding gm(1)[symmetric] assms(7) by (blast dest: set_takeWhileD)
  then have "routable_row c d1 (due ! j)" if "j < m" for j using that gm(2) nth_mem[of j "take m due"] by simp
  then have xs: "\<forall>i \<in> set (take m items). routable c i" using r gm(2) len by (auto simp: in_set_conv_nth)
  have stop: "\<not> routable c (items ! m)" if "m < length items"
    using r[of m] nth_length_takeWhile[of "routable_row c d1" due] that len by (simp add: m_def assms(7))
  have keys: "(\<lambda>i. delivery_key (cl_delivery i)) ` set (take m items) = delivery_key ` set good"
    unfolding gm(1) using spec by (metis set_map take_map)
  have "distinct (map (\<lambda>i. delivery_key (cl_delivery i)) items)" using spec due(1) by metis
  then obtain d' where d': "dispatch_items c stop env 0 items d2 =
      (if m = length items then (m, None, d') else (Suc m, Some (ErrNew unsupported), d'))"
    "\<forall>i \<in> set (take m items). published_key d' (delivery_key (cl_delivery i))"
    using items_until_refused[OF assms(5,6) _ _ _ _ xs stop, of d2] spec gm(2) len by metis
  have "m = length items \<longleftrightarrow> good = due" using gm len m_def by auto
  then have "dispatch_batch c mint stop env prepared now d =
      (if good = due then (length due, None, prepared', d') else (Suc (length good), Some (ErrNew unsupported), prepared', d'))"
    using claim d'(1) assms(1,3) len by (auto simp: dispatch_batch_def claim_deliveries_def m_def)
  moreover have "\<forall>r \<in> set good. published_key d' (delivery_key r)"
    using d'(2) keys by (metis (no_types, lifting) imageE imageI)
  moreover have "count_where (claimable_delivery now) (outbox_deliveries d1) \<le> dc_batch_size c \<longrightarrow>
       set due = {r \<in> set (outbox_deliveries d1). claimable_delivery now r}"
    by (auto simp: assms(3) due_deliveries_def count_where_def)
  ultimately show ?thesis by blast
qed

end
