(* ===== verification/OutboxHistory.thy ===== *)
theory OutboxHistory
  imports DispatchFlow
begin

text \<open>
  What holds of every outbox that producers, dispatchers and recovery scans write together
  (\<open>outbox_step\<close>): events and deliveries agree, every payload is well typed up to the body of the
  task, recovery replays only missing work and a consumer's effect happens at most once.
\<close>

section \<open>Events and their deliveries\<close>

definition outbox_inv :: "db \<Rightarrow> bool" where
  "outbox_inv d \<longleftrightarrow> events_keyed d \<and> deliveries_keyed d \<and>
     (\<forall>e \<in> set (outbox_events d). ev_status e = DeliveryPublished \<longrightarrow>
        (\<forall>r \<in> set (outbox_deliveries d). dl_event_id r = ev_id e \<longrightarrow> dl_status r = DeliveryPublished))"

lemma outbox_inv_fully:
  "outbox_inv d \<Longrightarrow> e \<in> set (outbox_events d) \<Longrightarrow> ev_status e = DeliveryPublished \<Longrightarrow>
     r \<in> set (outbox_deliveries d) \<Longrightarrow> dl_event_id r = ev_id e \<Longrightarrow> dl_status r = DeliveryPublished"
  by (simp add: outbox_inv_def)

lemma outbox_inv_cong:
  "outbox_events d = outbox_events d' \<Longrightarrow> outbox_deliveries d = outbox_deliveries d' \<Longrightarrow> outbox_inv d = outbox_inv d'"
  by (simp add: outbox_inv_def)

text \<open>An update of rows that are not published, or that become so, keeps the invariant.\<close>

lemma outbox_inv_rows:
  assumes "outbox_inv d" "rows_updated P g d d'" "outbox_events d' = outbox_events d"
    "\<And>q. q \<in> set (outbox_deliveries d) \<Longrightarrow> P q \<Longrightarrow> dl_status q \<noteq> DeliveryPublished \<or> dl_status (g q) = DeliveryPublished"
  shows "outbox_inv d'"
proof -
  have id: "dl_event_id (g q) = dl_event_id q" for q
    using assms(2) unfolding rows_updated_def delivery_key_def by (metis prod.inject)
  have "dl_status r = DeliveryPublished"
    if e: "e \<in> set (outbox_events d')" "ev_status e = DeliveryPublished" "r \<in> set (outbox_deliveries d')" "dl_event_id r = ev_id e" for e r
  proof -
    have r: "r \<in> set (update_where P g (outbox_deliveries d))" using e(3) assms(2) by (simp add: rows_updated_def)
    then consider "r \<in> set (outbox_deliveries d)" | q where "q \<in> set (outbox_deliveries d)" "P q" "r = g q"
      by (auto simp: in_set_update_where)
    then show ?thesis
    proof cases
      case 1
      then show ?thesis using outbox_inv_fully[OF assms(1)] e assms(3) by simp
    next
      case 2
      then have "dl_status q = DeliveryPublished" using outbox_inv_fully[OF assms(1)] e assms(3) id by simp
      then show ?thesis using assms(4) 2 by blast
    qed
  qed
  then show ?thesis using assms(1,3) rows_updated_keyed[OF assms(2)] by (auto simp: outbox_inv_def)
qed

lemma outbox_inv_add:
  assumes "outbox_inv d" "\<forall>e \<in> set (outbox_events d). ev_id e = i \<longrightarrow> ev_status e \<noteq> DeliveryPublished"
  shows "outbox_inv (add_deliveries_with_search now i et ai s d)"
proof -
  have "key_distinct delivery_key rows' \<and> (\<forall>r \<in> set rows'. r \<in> set rows \<or> dl_event_id r = i)"
    if "rows' = fold (add_delivery now i) ts rows" "key_distinct delivery_key rows" for ts rows rows'
    using that
  proof (induction ts arbitrary: rows)
    case (Cons t ts)
    have "key_distinct delivery_key (add_delivery now i t rows)"
      using Cons.prems(2) by (auto simp: add_delivery_def table_simps intro!: key_distinct_append_new)
    moreover have "\<forall>r \<in> set (add_delivery now i t rows). r \<in> set rows \<or> dl_event_id r = i"
      by (auto simp: add_delivery_def new_delivery_def)
    ultimately show ?case using Cons.IH[of "add_delivery now i t rows"] Cons.prems(1) by auto
  qed simp
  from this[OF refl, of "outbox_deliveries d" "routes et ai @ search_routes et s"]
  have "key_distinct delivery_key (outbox_deliveries (add_deliveries_with_search now i et ai s d))"
    "\<forall>r \<in> set (outbox_deliveries (add_deliveries_with_search now i et ai s d)). r \<in> set (outbox_deliveries d) \<or> dl_event_id r = i"
    using assms(1) by (simp_all add: add_deliveries_with_search_def outbox_inv_def)
  then show ?thesis using assms unfolding outbox_inv_def add_deliveries_frame by metis
qed

lemma outbox_inv_insert:
  assumes "outbox_inv d" "insert_event e d = Inr d'" "ev_status e = DeliveryPending"
  shows "outbox_inv d'" "\<forall>q \<in> set (outbox_events d'). ev_id q = ev_id e \<longrightarrow> ev_status q \<noteq> DeliveryPublished"
proof -
  have n: "\<forall>q \<in> set (outbox_events d). ev_id q \<noteq> ev_id e" and d': "d' = d\<lparr>outbox_events := outbox_events d @ [e]\<rparr>"
    using assms(2) by (auto simp: insert_event_def table_simps split: if_splits)
  have "key_distinct ev_id (outbox_events d @ [e])"
    using assms(1) n by (intro key_distinct_append_new) (auto simp: outbox_inv_def)
  then show "outbox_inv d'" using assms(1,3) d' by (auto simp: outbox_inv_def)
  show "\<forall>q \<in> set (outbox_events d'). ev_id q = ev_id e \<longrightarrow> ev_status q \<noteq> DeliveryPublished"
    using n d' assms(3) by simp
qed

lemma event_of_envelope_fields [simp]:
  "ev_status (event_of_envelope now e) = DeliveryPending" "ev_id (event_of_envelope now e) = en_event_id e"
  by (simp_all add: event_of_envelope_def)

lemma outbox_inv_write:
  assumes "outbox_inv d" "add_typed cx k i d = Inr d'"
  shows "outbox_inv d'"
proof -
  obtain e where e: "add_envelope_context cx e d = Inr d'" using assms(2) by (auto simp: add_typed_def attempt_eq_Inr_iff)
  show ?thesis
  proof (cases "d' = d")
    case False
    then obtain d1 where d1: "insert_event (event_of_envelope (cx_now cx) e) d = Inr d1"
      "d' = add_deliveries_with_search (cx_now cx) (en_event_id e) (en_event_type e) True (cx_search_enabled cx) d1"
      using e by (auto simp: add_envelope_context_def add_envelope_with_search_def attempt_eq_Inr_iff
          split: if_splits option.splits)
    show ?thesis unfolding d1(2)
      by (rule outbox_inv_add) (use outbox_inv_insert[OF assms(1) d1(1)] in simp_all)
  qed (use assms(1) in simp)
qed

text \<open>A recovery event is written together with its audit row, so its identifier is new whenever it is written.\<close>

lemma outbox_inv_recovery:
  assumes "outbox_inv d" "ensure_recovery cx key reason rtype rid v i d = Inr (b, d')"
    "\<forall>e \<in> set (outbox_events d). ev_id e \<noteq> cx_name_uuid cx (''bx-yunpan/recovery/'' @ key) \<and> ev_id e \<noteq> cx_mint cx 0"
  shows "outbox_inv d'"
proof (cases "d' = d")
  case False
  let ?eid = "cx_name_uuid cx (''bx-yunpan/recovery/'' @ key)"
  obtain e where e: "new_envelope (cx_mint cx 0) (cx_now cx) (i\<lparr>in_event_id := ?eid\<rparr>) = Inr e"
    and d': "outbox_events d' = outbox_events (add_deliveries_with_search (cx_now cx) (en_event_id e) (en_event_type e) True False
        (case insert_event (event_of_envelope (cx_now cx) (e\<lparr>en_trace := None\<rparr>)) d of Inl _ \<Rightarrow> d | Inr d1 \<Rightarrow> d1))"
      "outbox_deliveries d' = outbox_deliveries (add_deliveries_with_search (cx_now cx) (en_event_id e) (en_event_type e) True False
        (case insert_event (event_of_envelope (cx_now cx) (e\<lparr>en_trace := None\<rparr>)) d of Inl _ \<Rightarrow> d | Inr d1 \<Rightarrow> d1))"
    using assms(2) False by (auto simp: ensure_recovery_def Let_def attempt_eq_Inr_iff split: if_splits)
  have "en_event_id e \<in> {?eid, cx_mint cx 0}" using e by (auto simp: new_envelope_def Let_def split: option.splits)
  then have "\<forall>q \<in> set (outbox_events d). ev_id q \<noteq> en_event_id e" using assms(3) by auto
  then obtain d1 where d1: "insert_event (event_of_envelope (cx_now cx) (e\<lparr>en_trace := None\<rparr>)) d = Inr d1"
    by (auto simp: insert_event_def table_simps event_of_envelope_def)
  have "outbox_inv (add_deliveries_with_search (cx_now cx) (en_event_id e) (en_event_type e) True False d1)"
    by (rule outbox_inv_add) (use outbox_inv_insert[OF assms(1) d1] in \<open>simp_all add: event_of_envelope_def\<close>)
  then show ?thesis using outbox_inv_cong[OF d'] d1 by simp
qed (use assms(1) in simp)

lemma outbox_inv_add_open:
  assumes "outbox_inv d" "set es \<subseteq> set (outbox_events d)" "\<forall>e \<in> set es. ev_status e \<noteq> DeliveryPublished"
  shows "outbox_inv (fold (\<lambda>e. add_deliveries_with_search now (ev_id e) (ev_event_type e) ai s) es d) \<and>
    outbox_events (fold (\<lambda>e. add_deliveries_with_search now (ev_id e) (ev_event_type e) ai s) es d) = outbox_events d"
  using assms
proof (induction es arbitrary: d)
  case (Cons e es)
  have "\<forall>q \<in> set (outbox_events d). ev_id q = ev_id e \<longrightarrow> ev_status q \<noteq> DeliveryPublished"
    using Cons.prems key_unique[of ev_id "outbox_events d" _ e] by (fastforce simp: outbox_inv_def)
  then have "outbox_inv (add_deliveries_with_search now (ev_id e) (ev_event_type e) ai s d)"
    by (rule outbox_inv_add[OF Cons.prems(1)])
  then show ?case using Cons.IH[of "add_deliveries_with_search now (ev_id e) (ev_event_type e) ai s d"] Cons.prems by simp
qed simp

lemma open_events_spec: "set (open_events d) \<subseteq> set (outbox_events d)" "\<forall>e \<in> set (open_events d). ev_status e \<noteq> DeliveryPublished"
proof -
  let ?xs = "sort_key ev_created_at (filter (\<lambda>e. ev_status e \<in> {DeliveryPending, DeliveryFailed}) (outbox_events d))"
  have "set (open_events d) \<subseteq> set ?xs" unfolding open_events_def by (rule set_take_subset)
  then show "set (open_events d) \<subseteq> set (outbox_events d)" "\<forall>e \<in> set (open_events d). ev_status e \<noteq> DeliveryPublished" by auto
qed

lemma outbox_inv_ensure:
  assumes "outbox_inv d"
  shows "outbox_inv (ensure_legacy_deliveries now ai d)" "outbox_inv (ensure_search_deliveries now search d)"
  using outbox_inv_add_open[OF assms open_events_spec] assms
  by (simp_all add: ensure_legacy_deliveries_def ensure_search_deliveries_def)

lemma outbox_inv_pin: "outbox_inv d \<Longrightarrow> outbox_inv (pin_delivery_deadlines gc d)"
  using pin_keyed[of gc d] by (auto simp: outbox_inv_def pin_delivery_deadlines_def)

lemma outbox_inv_recover_published:
  assumes "outbox_inv d" "recover_published now stale r d = Inr (a, b, c, d')"
  shows "outbox_inv d'"
proof (cases "d' = d")
  case False
  define x where "x = execution_of (delivery_task_id r) d"
  let ?P = "\<lambda>q. delivery_key q = delivery_key r \<and> dl_status q = DeliveryPublished"
  let ?g = "\<lambda>e. e\<lparr>ev_status := DeliveryPending, ev_available_at := now\<rparr>"
  have d': "d' = d\<lparr>outbox_deliveries := update_where ?P (replayed now x) (outbox_deliveries d),
      outbox_events := update_where (\<lambda>e. ev_id e = dl_event_id r) ?g (outbox_events d)\<rparr>"
    using assms(2) False by (auto simp: recover_published_def Let_def x_def split: option.splits if_splits)
  have "dl_status q = DeliveryPublished"
    if e: "e \<in> set (outbox_events d')" "ev_status e = DeliveryPublished" "q \<in> set (outbox_deliveries d')" "dl_event_id q = ev_id e" for e q
  proof -
    have old: "e \<in> set (outbox_events d)" "ev_id e \<noteq> dl_event_id r" using e(1,2) d' by (auto simp: in_set_update_where)
    have "dl_event_id (replayed now x y) = dl_event_id y" for y
      using delivery_key_updates(4)[of now x y] by (simp add: delivery_key_def)
    then have "q \<in> set (outbox_deliveries d)"
      using e(3,4) old(2) d' by (auto simp: in_set_update_where delivery_key_def)
    then show ?thesis using outbox_inv_fully[OF assms(1) old(1) e(2)] e(4) by simp
  qed
  moreover have "events_keyed d'" "deliveries_keyed d'"
    using assms(1) d' by (auto simp: outbox_inv_def intro!: key_distinct_update)
  ultimately show ?thesis by (auto simp: outbox_inv_def)
qed (use assms(1) in simp)

lemma outbox_inv_recover_rows:
  "recover_rows wanted now stale rt rs (a, b, c, d) = Inr (a', b', c', d') \<Longrightarrow> outbox_inv d \<Longrightarrow> outbox_inv d'"
proof (induction rs arbitrary: a b c d)
  case (Cons r rs)
  consider "\<exists>a1. recover_rows wanted now stale rt rs (a1, b, c, d) = Inr (a', b', c', d')"
    | live replay dead d1 a1 b1 where "recover_published now stale r d = Inr (live, replay, dead, d1)"
      "recover_rows wanted now stale rt rs (a1, b1, dead, d1) = Inr (a', b', c', d')"
    using Cons.prems(1) by (fastforce simp: attempt_eq_Inr_iff split: option.splits if_splits)
  then show ?case using Cons.IH Cons.prems(2) outbox_inv_recover_published by cases blast+
qed simp

lemma outbox_inv_recover:
  "recover_delivery_with et agg now stale rt since d = Inr (a, b, c, d') \<Longrightarrow> outbox_inv d \<Longrightarrow> outbox_inv d'"
  by (auto simp: recover_delivery_with_def intro: outbox_inv_recover_rows split: if_splits)

lemma outbox_inv_recover_batch:
  "recover_batch now stale ai s rs n d = Inr (m, d') \<Longrightarrow> outbox_inv d \<Longrightarrow> outbox_inv d'"
proof (induction rs arbitrary: n d)
  case (Cons r rs)
  consider "recover_batch now stale ai s rs n d = Inr (m, d')"
    | live replay dead d1 k where "recover_published now stale r d = Inr (live, replay, dead, d1)"
      "recover_batch now stale ai s rs k d1 = Inr (m, d')"
    using Cons.prems(1) by (fastforce simp: attempt_eq_Inr_iff split: option.splits if_splits)
  then show ?case using Cons.IH Cons.prems(2) outbox_inv_recover_published by cases blast+
qed simp

lemma outbox_inv_recovered_batch:
  "recover_published_batch now stale l ai s d = Inr (n, d') \<Longrightarrow> outbox_inv d \<Longrightarrow> outbox_inv d'"
  unfolding recover_published_batch_def if_Inl_eq_Inr_iff using outbox_inv_recover_batch by blast

lemma outbox_inv_prepare:
  assumes "outbox_inv d" "prepare_for_dispatch c p now d = Inr (p', d')"
  shows "outbox_inv d'"
proof -
  let ?d1 = "ensure_search_deliveries now (dc_search_enabled c) (ensure_legacy_deliveries now (dc_ai_enabled c) d)"
  have 1: "outbox_inv ?d1" by (rule outbox_inv_ensure(2)[OF outbox_inv_ensure(1)[OF assms(1)]])
  consider "d' = pin_delivery_deadlines (dc_gc_delay c) d"
    | n d2 where "recover_published_batch now (15 * minute) (dc_batch_size c) (dc_ai_enabled c) (dc_search_enabled c) ?d1 = Inr (n, d2)"
      "d' = pin_delivery_deadlines (dc_gc_delay c) d2"
    using assms(2) by (auto simp: prepare_for_dispatch_def prepare_deliveries_def Let_def attempt_eq_Inr_iff split: if_splits)
  then show ?thesis
  proof cases
    case 1
    then show ?thesis using assms(1) outbox_inv_pin by simp
  next
    case 2
    from outbox_inv_recovered_batch[OF 2(1) 1] show ?thesis using 2(2) outbox_inv_pin by simp
  qed
qed

lemma outbox_inv_claim_rows:
  assumes "outbox_inv d" "claim_due_rows mint until n rs d = Inr (items, d')"
    "\<forall>r \<in> set rs. \<forall>q \<in> set (outbox_deliveries d). delivery_key q = delivery_key r \<longrightarrow> dl_status q \<noteq> DeliveryPublished"
  shows "outbox_inv d'"
  using assms
proof (induction rs arbitrary: n d items)
  case (Cons r rs)
  let ?d = "claim_row until (mint n) r d"
  obtain items1 where 1: "claim_due_rows mint until (Suc n) rs ?d = Inr (items1, d')"
    using Cons.prems(2) by (auto simp: attempt_eq_Inr_iff)
  have "outbox_inv ?d"
    by (rule outbox_inv_rows[OF Cons.prems(1) claim_row_updated]) (use Cons.prems(3) in auto)
  moreover have "\<forall>s \<in> set rs. \<forall>q \<in> set (outbox_deliveries ?d). delivery_key q = delivery_key s \<longrightarrow> dl_status q \<noteq> DeliveryPublished"
    using Cons.prems(3) by (auto simp: claim_row_def in_set_update_where)
  ultimately show ?case using Cons.IH 1 by blast
qed simp

lemma outbox_inv_claim:
  assumes "outbox_inv d" "claim_deliveries c mint now d = Inr (items, d')"
  shows "outbox_inv d'"
proof (rule outbox_inv_claim_rows[OF assms(1)])
  show "claim_due_rows mint (claim_until c now) 0 (due_deliveries c now d) d = Inr (items, d')"
    using assms(2) by (simp add: claim_deliveries_def)
  have k: "deliveries_keyed d" using assms(1) by (simp add: outbox_inv_def)
  have due: "claimable_delivery now r" if "r \<in> set (due_deliveries c now d)" for r
  proof -
    let ?xs = "sort_key dl_available_at (sort_key dl_event_id (filter (claimable_delivery now) (outbox_deliveries d)))"
    have "r \<in> set ?xs" using that unfolding due_deliveries_def by (rule in_set_takeD)
    then show ?thesis by simp
  qed
  have "dl_status r \<noteq> DeliveryPublished" if "r \<in> set (due_deliveries c now d)" for r
    using due[OF that] by (auto simp: claimable_delivery_def)
  moreover have "q = r" if "r \<in> set (due_deliveries c now d)" "q \<in> set (outbox_deliveries d)" "delivery_key q = delivery_key r" for q r
    using key_unique[OF k] due_deliveries_spec(2)[OF k, of c now] that by blast
  ultimately show "\<forall>r \<in> set (due_deliveries c now d). \<forall>q \<in> set (outbox_deliveries d).
      delivery_key q = delivery_key r \<longrightarrow> dl_status q \<noteq> DeliveryPublished" by blast
qed

lemma release_events [simp]: "outbox_events (release_claim r d) = outbox_events d"
  by (simp add: release_claim_def)

lemma outbox_inv_release: "outbox_inv d \<Longrightarrow> outbox_inv (release_claim r d)"
  by (erule outbox_inv_rows[OF _ release_claim_updated]) (simp_all add: held_by_def)

lemma outbox_inv_fail: "outbox_inv d \<Longrightarrow> outbox_inv (snd (fail_delivery c now r msg d))"
  by (erule outbox_inv_rows[OF _ fail_delivery_updated]) (cases c; simp_all add: fail_delivery_def held_by_def)+

text \<open>The event is marked after its last delivery, in the same transaction.\<close>

lemma outbox_inv_refresh:
  assumes "outbox_inv d"
  shows "outbox_inv (refresh_legacy_event_status now i d)"
proof (cases "0 < count_where (\<lambda>q. dl_event_id q = i \<and> dl_status q \<noteq> DeliveryPublished) (outbox_deliveries d)")
  case False
  then have all: "\<forall>q \<in> set (outbox_deliveries d). dl_event_id q = i \<longrightarrow> dl_status q = DeliveryPublished"
    using count_where_0_iff[of "\<lambda>q. dl_event_id q = i \<and> dl_status q \<noteq> DeliveryPublished" "outbox_deliveries d"] by simp
  show ?thesis using assms all
    unfolding outbox_inv_def by (auto simp: refresh_legacy_event_status_def in_set_update_where intro!: key_distinct_update)
qed (use assms in \<open>simp add: refresh_legacy_event_status_def\<close>)

lemma outbox_inv_ack:
  assumes "outbox_inv d"
  shows "outbox_inv (snd (ack_delivery now r e d))"
proof (cases "mark_delivery_published now r d")
  case (Inr d')
  have "outbox_inv d'"
    by (rule outbox_inv_rows[OF assms conjunct1[OF mark_published_updated[OF Inr]] conjunct2[OF mark_published_updated[OF Inr]]]) simp
  then show ?thesis using Inr outbox_inv_refresh by (simp add: ack_delivery_def)
qed (use assms outbox_inv_release in \<open>simp add: ack_delivery_def\<close>)

text \<open>Everything that writes the outbox: producers and recovery events, the single transactions of
  concurrent dispatchers with whatever rows they remember, replays; and the business transactions that
  leave it alone.\<close>

inductive outbox_step :: "db \<Rightarrow> db \<Rightarrow> bool" where
  produce: "add_typed cx k i d = Inr d' \<Longrightarrow> outbox_step d d'"
| recovery: "ensure_recovery cx key reason rtype rid v i d = Inr (b, d') \<Longrightarrow>
    \<forall>e \<in> set (outbox_events d). ev_id e \<noteq> cx_name_uuid cx (''bx-yunpan/recovery/'' @ key) \<and> ev_id e \<noteq> cx_mint cx 0 \<Longrightarrow>
    outbox_step d d'"
| prepare: "prepare_for_dispatch c p now d = Inr (p', d') \<Longrightarrow> outbox_step d d'"
| claim: "claim_deliveries c mint now d = Inr (items, d') \<Longrightarrow> outbox_step d d'"
| ack: "ack_delivery now r e d = (err, d') \<Longrightarrow> outbox_step d d'"
| fail: "fail_delivery canceled now r msg d = (err, d') \<Longrightarrow> outbox_step d d'"
| release: "outbox_step d (release_claim r d)"
| replay: "recover_delivery_with et agg now stale rt since d = Inr (a, b, t, d') \<Longrightarrow> outbox_step d d'"
| other: "outbox_events d' = outbox_events d \<Longrightarrow> outbox_deliveries d' = outbox_deliveries d \<Longrightarrow> outbox_step d d'"

lemma outbox_step_inv: "outbox_step d d' \<Longrightarrow> outbox_inv d \<Longrightarrow> outbox_inv d'"
proof (induction rule: outbox_step.induct)
  case (ack now r e d err d')
  then show ?case using outbox_inv_ack[of d now r e] by simp
next
  case (fail canceled now r msg d err d')
  then show ?case using outbox_inv_fail[of d canceled now r msg] by simp
next
  case (other d' d)
  then show ?case using outbox_inv_cong[of d' d] by simp
qed (blast intro: outbox_inv_write outbox_inv_recovery outbox_inv_prepare outbox_inv_claim
    outbox_inv_release outbox_inv_recover)+

lemma outbox_steps_inv: "outbox_step\<^sup>*\<^sup>* d d' \<Longrightarrow> outbox_inv d \<Longrightarrow> outbox_inv d'"
  by (induction rule: rtranclp_induct) (blast intro: outbox_step_inv)+

text \<open>A batch is a sequence of these transactions.\<close>

lemma release_steps: "outbox_step\<^sup>*\<^sup>* d (release_claims items d)"
  unfolding release_claims_def
proof (induction items arbitrary: d)
  case (Cons i items)
  have "outbox_step d (release_claim (cl_delivery i) d)" by (rule outbox_step.release)
  then show ?case using Cons.IH[of "release_claim (cl_delivery i) d"] by (simp add: converse_rtranclp_into_rtranclp)
qed simp

lemma send_steps: "send_delivery c env i d = (err, d') \<Longrightarrow> outbox_step\<^sup>*\<^sup>* d d'"
  using release_steps[of d "[i]"]
  by (auto simp: send_delivery_def Let_def intro: outbox_step.ack outbox_step.fail split: option.splits if_splits)

lemma items_steps: "dispatch_items c stop env n items d = (m, err, d') \<Longrightarrow> outbox_step\<^sup>*\<^sup>* d d'"
proof (induction items arbitrary: n d)
  case (Cons i items)
  obtain e1 d1 where s: "send_delivery c (env n) i d = (e1, d1)" by (cases "send_delivery c (env n) i d")
  show ?case
  proof (cases "stop n")
    case None
    have "outbox_step\<^sup>*\<^sup>* d1 d'" using Cons.prems None s Cons.IH[of "Suc n" d1] release_steps[of d1 items]
      by (cases e1) auto
    then show ?thesis using send_steps[OF s] by (rule rtranclp_trans[rotated])
  next
    case (Some x)
    then show ?thesis using Cons.prems release_steps[of d "i # items"] by auto
  qed
qed simp

lemma dispatch_batch_steps:
  assumes "dispatch_batch c mint stop env p now d = (n, err, p', d')"
  shows "outbox_step\<^sup>*\<^sup>* d d'"
proof (cases "prepare_for_dispatch c p now d")
  case (Inr a)
  obtain p1 d1 where p1: "prepare_for_dispatch c p now d = Inr (p1, d1)" using Inr by (cases a) simp
  show ?thesis
  proof (cases "claim_deliveries c mint now d1")
    case (Inr b)
    obtain items d2 where b: "claim_deliveries c mint now d1 = Inr (items, d2)" using Inr by (cases b) simp
    obtain m e d3 where i: "dispatch_items c stop env 0 items d2 = (m, e, d3)" by (metis prod_cases3)
    then have "d' = d3" using assms p1 b by (simp add: dispatch_batch_def)
    then show ?thesis
      using outbox_step.prepare[OF p1] outbox_step.claim[OF b] items_steps[OF i] by (meson converse_rtranclp_into_rtranclp)
  qed (use assms p1 outbox_step.prepare[OF p1] in \<open>auto simp: dispatch_batch_def\<close>)
qed (use assms in \<open>simp add: dispatch_batch_def\<close>)

text \<open>C29: An event is recorded as published only while every one of its deliveries is: whatever producers,
  dispatchers and recovery scans commit, in any interleaving and through any further batch, no destination
  of a published event is still waiting, and event and delivery keys stay unique.\<close>

theorem published_event_fully_delivered:
  assumes "outbox_step\<^sup>*\<^sup>* d0 d" "outbox_events d0 = []" "outbox_deliveries d0 = []"
    "dispatch_batch c mint stop env p now d = (n, err, p', d')"
  shows "list_all (\<lambda>x. events_keyed x \<and> deliveries_keyed x \<and>
    list_all (\<lambda>e. list_all (\<lambda>r. ev_status e \<noteq> DeliveryPublished \<or> dl_event_id r \<noteq> ev_id e \<or> dl_status r = DeliveryPublished)
      (outbox_deliveries x)) (outbox_events x)) [d, d']"
proof -
  have "outbox_inv d0" using assms(2,3) by (simp add: outbox_inv_def)
  then have "outbox_inv d" by (rule outbox_steps_inv[OF assms(1)])
  moreover from this have "outbox_inv d'" by (rule outbox_steps_inv[OF dispatch_batch_steps[OF assms(4)]])
  ultimately show ?thesis by (auto simp: outbox_inv_def list_all_iff)
qed

section \<open>Payloads\<close>

definition event_contents :: "db \<Rightarrow> (string \<times> json) set" where
  "event_contents d = (\<lambda>e. (ev_event_type e, ev_payload e)) ` set (outbox_events d)"

lemma event_contents_update:
  assumes "outbox_events d' = update_where P g (outbox_events d)"
    "\<And>e. ev_event_type (g e) = ev_event_type e" "\<And>e. ev_payload (g e) = ev_payload e"
  shows "event_contents d' = event_contents d"
proof -
  have "map (\<lambda>e. (ev_event_type e, ev_payload e)) (update_where P g (outbox_events d)) = map (\<lambda>e. (ev_event_type e, ev_payload e)) (outbox_events d)"
    using assms(2,3) by (simp add: map_update_where)
  then show ?thesis unfolding event_contents_def assms(1) by (simp flip: set_map)
qed

lemma event_contents_cong: "outbox_events d' = outbox_events d \<Longrightarrow> event_contents d' = event_contents d"
  by (simp add: event_contents_def)

lemma event_contents_recover_published:
  assumes "recover_published now stale r d = Inr (a, b, c, d')"
  shows "event_contents d' = event_contents d"
proof (cases "d' = d")
  case False
  show ?thesis
    by (rule event_contents_update[of d' "\<lambda>e. ev_id e = dl_event_id r" "\<lambda>e. e\<lparr>ev_status := DeliveryPending, ev_available_at := now\<rparr>"])
      (use assms False in \<open>auto simp: recover_published_def Let_def split: option.splits if_splits\<close>)
qed simp

lemma event_contents_recover_rows:
  "recover_rows wanted now stale rt rs (a, b, c, d) = Inr (a', b', c', d') \<Longrightarrow> event_contents d' = event_contents d"
proof (induction rs arbitrary: a b c d)
  case (Cons r rs)
  consider a1 where "recover_rows wanted now stale rt rs (a1, b, c, d) = Inr (a', b', c', d')"
    | live replay dead d1 a1 b1 where "recover_published now stale r d = Inr (live, replay, dead, d1)"
      "recover_rows wanted now stale rt rs (a1, b1, dead, d1) = Inr (a', b', c', d')"
    using Cons.prems(1) by (fastforce simp: attempt_eq_Inr_iff split: option.splits if_splits)
  then show ?case using Cons.IH event_contents_recover_published by cases metis+
qed simp

lemma event_contents_recover_batch:
  "recover_batch now stale ai s rs n d = Inr (m, d') \<Longrightarrow> event_contents d' = event_contents d"
proof (induction rs arbitrary: n d)
  case (Cons r rs)
  consider "recover_batch now stale ai s rs n d = Inr (m, d')"
    | live replay dead d1 k where "recover_published now stale r d = Inr (live, replay, dead, d1)"
      "recover_batch now stale ai s rs k d1 = Inr (m, d')"
    using Cons.prems(1) by (fastforce simp: attempt_eq_Inr_iff split: option.splits if_splits)
  then show ?case using Cons.IH event_contents_recover_published by cases metis+
qed simp

lemma event_contents_ensure:
  "event_contents (ensure_legacy_deliveries now ai d) = event_contents d"
  "event_contents (ensure_search_deliveries now s d) = event_contents d"
proof -
  have E: "outbox_events (fold (\<lambda>e. add_deliveries_with_search now (ev_id e) (ev_event_type e) a b) es d) = outbox_events d" for a b es d
    by (induction es arbitrary: d) simp_all
  show "event_contents (ensure_legacy_deliveries now ai d) = event_contents d"
    "event_contents (ensure_search_deliveries now s d) = event_contents d"
    using E[of ai False "open_events d" d] E[of False True "open_events d" d]
    by (simp_all add: event_contents_def ensure_legacy_deliveries_def ensure_search_deliveries_def)
qed

lemma event_contents_prepare:
  assumes "prepare_for_dispatch c p now d = Inr (p', d')"
  shows "event_contents d' = event_contents d"
proof -
  let ?d1 = "ensure_search_deliveries now (dc_search_enabled c) (ensure_legacy_deliveries now (dc_ai_enabled c) d)"
  consider "d' = pin_delivery_deadlines (dc_gc_delay c) d"
    | n d2 where "recover_published_batch now (15 * minute) (dc_batch_size c) (dc_ai_enabled c) (dc_search_enabled c) ?d1 = Inr (n, d2)"
      "d' = pin_delivery_deadlines (dc_gc_delay c) d2"
    using assms by (auto simp: prepare_for_dispatch_def prepare_deliveries_def Let_def attempt_eq_Inr_iff split: if_splits)
  then show ?thesis
  proof cases
    case 2
    have "event_contents d2 = event_contents ?d1"
      using 2(1) event_contents_recover_batch unfolding recover_published_batch_def if_Inl_eq_Inr_iff by blast
    then show ?thesis using 2(2) event_contents_cong[OF pin_frame] event_contents_ensure by simp
  qed (use event_contents_cong[OF pin_frame] in simp)
qed

lemma claim_rows_events: "claim_due_rows mint until n rs d = Inr (items, d') \<Longrightarrow> outbox_events d' = outbox_events d"
  by (induction rs arbitrary: n d items) (fastforce simp: attempt_eq_Inr_iff)+

lemma event_contents_ack: "event_contents (snd (ack_delivery now r e d)) = event_contents d"
proof (cases "mark_delivery_published now r d")
  case (Inr d')
  have "event_contents (refresh_legacy_event_status now i d') = event_contents d'" for i
  proof (cases "0 < count_where (\<lambda>q. dl_event_id q = i \<and> dl_status q \<noteq> DeliveryPublished) (outbox_deliveries d')")
    case False
    show ?thesis
      by (rule event_contents_update[of _ "\<lambda>e. ev_id e = i"
            "\<lambda>e. e\<lparr>ev_status := DeliveryPublished, ev_published_at := Some now, ev_attempt := ev_attempt e + 1\<rparr>"])
        (use False in \<open>simp_all add: refresh_legacy_event_status_def\<close>)
  qed (simp add: refresh_legacy_event_status_def)
  then show ?thesis using Inr event_contents_cong[of d' d] mark_published_updated[OF Inr] by (simp add: ack_delivery_def)
qed (use event_contents_cong[OF release_events] in \<open>simp add: ack_delivery_def\<close>)

definition contents_ok :: "(string \<times> json) set \<Rightarrow> bool" where
  "contents_ok S \<longleftrightarrow> (\<forall>(et, body) \<in> S. trim_str et = et \<and> (\<exists>p. decode_payload et body = Inr p))"

text \<open>What a producer adds has passed the validation of its envelope.\<close>

lemma validated_contents:
  assumes "new_envelope fresh now i = Inr e"
  shows "trim_str (en_event_type e) = en_event_type e \<and> (\<exists>p. decode_payload (en_event_type e) (en_payload e) = Inr p)"
proof -
  have t: "en_event_type e = trim_str (in_event_type i)" and v: "validate_envelope e = None"
    using assms by (auto simp: new_envelope_def Let_def split: option.splits)
  have tt: "trim_str (en_event_type e) = en_event_type e" using t by simp
  then show ?thesis using v
    by (auto simp: validate_envelope_def split: if_splits option.splits sum.splits)
qed

lemma insert_event_contents:
  "insert_event e d = Inr d' \<Longrightarrow> event_contents d' = insert (ev_event_type e, ev_payload e) (event_contents d)"
  by (auto simp: event_contents_def dest!: insert_event_eq)

lemma contents_insert:
  "contents_ok S \<Longrightarrow> trim_str et = et \<and> (\<exists>p. decode_payload et body = Inr p) \<Longrightarrow> contents_ok (insert (et, body) S)"
  by (simp add: contents_ok_def)

lemma event_contents_add: "event_contents (add_deliveries_with_search now i et ai s d) = event_contents d"
  by (rule event_contents_cong) simp

lemma contents_produce:
  assumes "contents_ok (event_contents d)" "add_typed cx k i d = Inr d'"
  shows "contents_ok (event_contents d')"
proof -
  obtain e where n: "new_envelope (cx_mint cx k) (cx_now cx) (trace_input cx i) = Inr e"
    and e: "add_envelope_context cx e d = Inr d'"
    using assms(2) by (auto simp: add_typed_def attempt_eq_Inr_iff)
  show ?thesis
  proof (cases "d' = d")
    case False
    then obtain d1 where d1: "insert_event (event_of_envelope (cx_now cx) e) d = Inr d1"
      "d' = add_deliveries_with_search (cx_now cx) (en_event_id e) (en_event_type e) True (cx_search_enabled cx) d1"
      using e by (auto simp: add_envelope_context_def add_envelope_with_search_def attempt_eq_Inr_iff
          split: if_splits option.splits)
    show ?thesis unfolding d1(2) event_contents_add insert_event_contents[OF d1(1)]
      using contents_insert[OF assms(1) validated_contents[OF n]] by (simp add: event_of_envelope_def)
  qed (use assms(1) in simp)
qed

lemma contents_recovery:
  assumes "contents_ok (event_contents d)" "ensure_recovery cx key reason rtype rid v i d = Inr (b, d')"
  shows "contents_ok (event_contents d')"
proof (cases "d' = d")
  case False
  obtain e where e: "new_envelope (cx_mint cx 0) (cx_now cx) (i\<lparr>in_event_id := cx_name_uuid cx (''bx-yunpan/recovery/'' @ key)\<rparr>) = Inr e"
    and d': "outbox_events d' = outbox_events
        (case insert_event (event_of_envelope (cx_now cx) (e\<lparr>en_trace := None\<rparr>)) d of Inl _ \<Rightarrow> d | Inr d1 \<Rightarrow> d1)"
    using assms(2) False by (auto simp: ensure_recovery_def Let_def attempt_eq_Inr_iff split: if_splits)
  show ?thesis
  proof (cases "insert_event (event_of_envelope (cx_now cx) (e\<lparr>en_trace := None\<rparr>)) d")
    case (Inl err)
    then show ?thesis using assms(1) event_contents_cong[OF d'] by simp
  next
    case (Inr d1)
    then show ?thesis using event_contents_cong[OF d'] insert_event_contents[OF Inr]
        contents_insert[OF assms(1) validated_contents[OF e]] by (simp add: event_of_envelope_def)
  qed
qed (use assms(1) in simp)

lemma outbox_step_contents: "outbox_step d d' \<Longrightarrow> contents_ok (event_contents d) \<Longrightarrow> contents_ok (event_contents d')"
proof (induction rule: outbox_step.induct)
  case (produce cx k i d d')
  then show ?case by (blast intro: contents_produce)
next
  case (recovery cx key reason rtype rid v i d b d')
  then show ?case by (blast intro: contents_recovery)
next
  case (prepare c p now d p' d')
  then show ?case by (simp add: event_contents_prepare)
next
  case (claim c mint now d items d')
  then show ?case using event_contents_cong[OF claim_rows_events] unfolding claim_deliveries_def by metis
next
  case (ack now r e d err d')
  then show ?case using event_contents_ack[of now r e d] by simp
next
  case (fail canceled now r msg d err d')
  have "outbox_events (snd (fail_delivery canceled now r msg d)) = outbox_events d"
    by (cases canceled) (simp_all add: fail_delivery_def)
  then show ?case using fail event_contents_cong[of d' d] by simp
next
  case (release d r)
  then show ?case using event_contents_cong[OF release_events] by simp
next
  case (replay et agg now stale rt since d a b t d')
  have "event_contents d' = event_contents d"
    using replay(1) event_contents_recover_rows unfolding recover_delivery_with_def if_Inl_eq_Inr_iff by blast
  then show ?case using replay(2) by simp
next
  case (other d' d)
  then show ?case using event_contents_cong[of d' d] by simp
qed

lemma outbox_steps_contents: "outbox_step\<^sup>*\<^sup>* d d' \<Longrightarrow> contents_ok (event_contents d) \<Longrightarrow> contents_ok (event_contents d')"
  by (induction rule: rtranclp_induct) (blast intro: outbox_step_contents)+

text \<open>The envelope fields a task body carries are foreign to every payload type, except that a reprocessing
  request names its task itself.\<close>

definition envelope_keys :: "string set" where
  "envelope_keys = {''event_id'', ''event_type'', ''event_version'', ''aggregate_version'', ''_trace''}"

lemma get_cong:
  assumes "map_of fs k = map_of fs' k"
  shows "get_uuid k fs = get_uuid k fs'" "get_uuid_opt k fs = get_uuid_opt k fs'" "get_str k fs = get_str k fs'"
    "get_text k fs = get_text k fs'" "get_time k fs = get_time k fs'" "get_time_opt k fs = get_time_opt k fs'"
    "get_int k fs = get_int k fs'"
  using assms by (simp_all add: get_defs)

lemma unmarshal_cong:
  assumes "\<forall>k. k \<notin> envelope_keys \<and> k \<noteq> ''task_id'' \<longrightarrow> map_of fs k = map_of fs' k"
    "map_of fs ''task_id'' = map_of fs' ''task_id'' \<or> et \<noteq> event_ai_reprocess_requested"
    "lookup_event et = Some df"
  shows "def_decode df fs = def_decode df fs'"
proof -
  have g: "get_uuid k fs = get_uuid k fs'" "get_uuid_opt k fs = get_uuid_opt k fs'" "get_str k fs = get_str k fs'"
    "get_text k fs = get_text k fs'" "get_time k fs = get_time k fs'" "get_time_opt k fs = get_time_opt k fs'"
    "get_int k fs = get_int k fs'" if "k \<notin> envelope_keys" "k \<noteq> ''task_id''" for k
    using get_cong[of fs k fs'] assms(1) that by blast+
  have "(et, df) \<in> set definitions" using assms(3) by (simp add: lookup_event_def map_of_SomeD)
  then consider (rest) "(et, df) \<in> set (filter (\<lambda>(e, _). e \<noteq> event_ai_reprocess_requested) definitions)"
    | (ai) "et = event_ai_reprocess_requested" by auto
  then show ?thesis
  proof cases
    case ai
    then have "map_of fs ''task_id'' = map_of fs' ''task_id''" using assms(2) by blast
    note t = get_cong[OF this]
    show ?thesis using assms(3) unfolding ai lookup_event_simps
      by (auto simp: mk_definition_def unmarshal_ai_reprocess_requested_def g t envelope_keys_def)
  next
    case rest
    then show ?thesis
      by (auto simp: definitions_def mk_definition_def unmarshal_defs g envelope_keys_def)
  qed
qed

lemma map_of_set_field [simp]: "map_of (set_field k v fs) j = (if j = k then Some v else map_of fs j)"
proof -
  have "map_of (filter (\<lambda>(i, _). i \<noteq> k) fs) j = map_of fs j" if "j \<noteq> k" for j
    using that by (induction fs) auto
  then show ?thesis by (simp add: set_field_def)
qed

lemma decode_ok_iff:
  assumes "trim_str et = et"
  shows "decode_payload et (JsonObject fs) = Inr p \<longleftrightarrow>
    (\<exists>df. lookup_event et = Some df \<and> def_decode df fs = Some p \<and> validate_payload p = None)"
  using assms by (auto simp: decode_payload_def Let_def split: option.splits)

lemma reprocess_names_task:
  assumes "lookup_event event_ai_reprocess_requested = Some df" "def_decode df fs = Some p" "validate_payload p = None"
  shows "map_of fs ''task_id'' \<noteq> None"
proof
  assume n: "map_of fs ''task_id'' = None"
  then have g: "get_uuid ''task_id'' fs = Some 0" by (simp add: get_uuid_def)
  have "unmarshal_ai_reprocess_requested fs = Some p"
    using assms(1,2) by (auto simp: mk_definition_def)
  then obtain b c d e f g h i where "p = AIReprocessRequestedV1 0 b c d e f g h i"
    using g unfolding unmarshal_ai_reprocess_requested_def by (auto simp: Option.bind_eq_Some_conv)
  then show False using assms(3) by (simp add: require_uuid_def)
qed

lemma payload_with_trace_fields:
  "\<exists>fs'. payload_with_trace e = JsonObject fs' \<and>
    (\<forall>k. k \<notin> envelope_keys \<and> k \<noteq> ''task_id'' \<longrightarrow>
       map_of fs' k = map_of (case ev_payload e of JsonNull \<Rightarrow> [] | JsonObject fs \<Rightarrow> fs) k) \<and>
    map_of fs' ''task_id'' = (case map_of (case ev_payload e of JsonNull \<Rightarrow> [] | JsonObject fs \<Rightarrow> fs) ''task_id'' of
       None \<Rightarrow> Some (JUuid (ev_id e)) | Some v \<Rightarrow> Some v) \<and>
    map_of fs' ''event_id'' = Some (JUuid (ev_id e)) \<and> map_of fs' ''event_type'' = Some (JStr (ev_event_type e))"
  unfolding payload_with_trace_def Let_def
  by (auto simp: envelope_keys_def split: option.split)

text \<open>C31: Every task body is well typed: an event that any producer has written decodes, under its registered
  type, to a payload its own validator accepts, and so does the body the dispatcher sends for it, to the
  same payload, with the event's identifier and type beside it.\<close>

theorem dispatched_body_well_typed:
  assumes "outbox_step\<^sup>*\<^sup>* d0 d" "outbox_events d0 = []" "e \<in> set (outbox_events d)"
  shows "\<exists>p fs. decode_payload (ev_event_type e) (ev_payload e) = Inr p \<and> validate_payload p = None \<and>
    tk_body (delivery_task c r e t) = JsonObject fs \<and>
    decode_payload (ev_event_type e) (JsonObject fs) = Inr p \<and>
    map_of fs ''event_id'' = Some (JUuid (ev_id e)) \<and> map_of fs ''event_type'' = Some (JStr (ev_event_type e))"
proof -
  have "contents_ok (event_contents d0)" using assms(2) by (simp add: contents_ok_def event_contents_def)
  then have "contents_ok (event_contents d)" by (rule outbox_steps_contents[OF assms(1)])
  then obtain p where t: "trim_str (ev_event_type e) = ev_event_type e"
    and p: "decode_payload (ev_event_type e) (ev_payload e) = Inr p"
    using assms(3) by (auto simp: contents_ok_def event_contents_def)
  obtain fs where fs: "ev_payload e = JsonObject fs"
    using p by (cases "ev_payload e") (auto simp: decode_payload_def Let_def split: option.splits)
  obtain df where df: "lookup_event (ev_event_type e) = Some df" "def_decode df fs = Some p" "validate_payload p = None"
    using p decode_ok_iff[OF t] fs by auto
  obtain fs' where fs': "payload_with_trace e = JsonObject fs'"
    "\<forall>k. k \<notin> envelope_keys \<and> k \<noteq> ''task_id'' \<longrightarrow> map_of fs' k = map_of fs k"
    "map_of fs' ''task_id'' = (case map_of fs ''task_id'' of None \<Rightarrow> Some (JUuid (ev_id e)) | Some v \<Rightarrow> Some v)"
    "map_of fs' ''event_id'' = Some (JUuid (ev_id e))" "map_of fs' ''event_type'' = Some (JStr (ev_event_type e))"
    using payload_with_trace_fields[of e] fs by auto
  have "map_of fs' ''task_id'' = map_of fs ''task_id'' \<or> ev_event_type e \<noteq> event_ai_reprocess_requested"
    using fs'(3) reprocess_names_task df by (cases "map_of fs ''task_id''") fastforce+
  then have "def_decode df fs' = Some p" using unmarshal_cong[OF fs'(2) _ df(1)] df(2) by simp
  then have "decode_payload (ev_event_type e) (JsonObject fs') = Inr p" using df decode_ok_iff[OF t] by blast
  then show ?thesis using p df(3) fs'(1,4,5) by (simp add: delivery_task_def)
qed

section \<open>Consumers\<close>

text \<open>A consumer's effect happens at most once: after its marker is committed, every later delivery of the
  event, in any state that keeps the markers, is skipped.\<close>

lemma consume_once_at_most_once:
  assumes "consume_once eid name effect d = Inr (handled, d')"
    "\<And>x y. effect x = Inr y \<Longrightarrow> set (event_consumptions x) \<subseteq> set (event_consumptions y)"
    "set (event_consumptions d') \<subseteq> set (event_consumptions d'')" "trim_str name' = trim_str name"
  shows "consume_once eid name' effect' d'' = Inr (False, d'')"
proof -
  have ok: "eid \<noteq> 0" "trim_str name \<noteq> []" using assms(1) by (auto simp: consume_once_def Let_def split: if_splits)
  have "\<exists>m \<in> set (event_consumptions d'). ec_event_id m = eid \<and> ec_consumer_name m = trim_str name"
  proof (cases handled)
    case True
    let ?m = "\<lparr> ec_event_id = eid, ec_consumer_name = trim_str name \<rparr>"
    have "effect (d\<lparr>event_consumptions := event_consumptions d @ [?m]\<rparr>) = Inr d'"
      using assms(1) True by (auto simp: consume_once_def Let_def attempt_eq_Inr_iff split: if_splits)
    from assms(2)[OF this] have "?m \<in> set (event_consumptions d')" by auto
    then show ?thesis by (rule bexI[rotated]) simp
  next
    case False
    then show ?thesis using assms(1)
      by (auto simp: consume_once_def Let_def attempt_eq_Inr_iff table_simps split: if_splits)
  qed
  then show ?thesis using ok assms(3,4) by (auto simp: consume_once_def Let_def table_simps)
qed

section \<open>Polling bounds\<close>

lemma poll_bounds_ordered: "poll_bounds c = (lo, hi) \<Longrightarrow> 0 < lo \<and> lo \<le> hi"
  by (auto simp: poll_bounds_def Let_def split: if_splits)

lemma next_poll_interval_bounds:
  "0 < lo \<Longrightarrow> lo \<le> hi \<Longrightarrow> lo \<le> next_poll_interval t lo hi \<and> next_poll_interval t lo hi \<le> hi"
  by (auto simp: next_poll_interval_def min_duration_def)

lemma jitter_down_bounds:
  "\<forall>s. 0 \<le> draw s \<and> draw s \<le> max 0 s \<Longrightarrow> lo \<le> t \<Longrightarrow> 0 \<le> lo \<Longrightarrow> lo \<le> jitter_down draw t lo \<and> jitter_down draw t lo \<le> t"
  by (drule spec[of _ "min_duration (t div 5) (t - lo)"]) (auto simp: jitter_down_def min_duration_def split: if_splits)

lemma delivery_backoff_bounds: "second \<le> delivery_backoff n \<and> delivery_backoff n \<le> 64 * second"
proof -
  define k where "k = nat (if (if n < 0 then 0 else n) > 6 then 6 else (if n < 0 then 0 else n))"
  have "k \<le> 6" unfolding k_def by (auto split: if_splits)
  then have "(2::int) ^ k \<le> 2 ^ 6" by (rule power_increasing) simp
  moreover have "(1::int) \<le> 2 ^ k" by simp
  ultimately show ?thesis unfolding delivery_backoff_def Let_def k_def[symmetric] by simp
qed

section \<open>Recovery\<close>

text \<open>C32: Recovery replays only work that is missing: a published delivery goes back to pending only when its
  task has no recorded outcome, it was published at least the staleness limit ago, and its execution is absent,
  runs under a lease that has expired, runs without a lease and was not touched for the staleness limit, or
  waits for a retry that is overdue by the staleness limit; a retry that is still waiting is never replayed.
  The row keeps its task identity and takes over the attempts already spent; otherwise nothing changes.\<close>

theorem recovery_replays_missing_work:
  assumes "deliveries_keyed d" "recover_published now stale r d = Inr (active, repaired, dead, d')"
  shows "(\<not> repaired \<longrightarrow> d' = d) \<and>
    (repaired \<longrightarrow> result_of (delivery_task_id r) d = None \<and> published_before (now - stale) r \<and>
       (case execution_of (delivery_task_id r) d of None \<Rightarrow> True
        | Some x \<Rightarrow> te_status x = ExecRunning \<and> (\<exists>l. te_lease_until x = Some l \<and> l \<le> now) \<or>
            te_status x = ExecRunning \<and> te_lease_until x = None \<and> te_updated_at x + stale \<le> now \<or>
            te_status x = ExecRetry \<and> te_available_at x + stale \<le> now) \<and>
       (\<exists>q. delivery_by_key (delivery_key r) d' = Some q \<and> dl_status q = DeliveryPending \<and> dl_available_at q = now \<and>
          delivery_task_id q = delivery_task_id r \<and>
          (case execution_of (delivery_task_id r) d of None \<Rightarrow> True
           | Some x \<Rightarrow> dl_task_retry_count q = te_retry_count x \<and> dl_task_max_retry q = Some (te_max_retry x))))"
proof (cases repaired)
  case False
  then show ?thesis using assms(2) by (auto simp: recover_published_def Let_def split: option.splits if_splits)
next
  case True
  define x where "x = execution_of (delivery_task_id r) d"
  let ?P = "\<lambda>q. delivery_key q = delivery_key r \<and> dl_status q = DeliveryPublished"
  have facts: "result_of (delivery_task_id r) d = None" "published_before (now - stale) r"
    "case x of None \<Rightarrow> True | Some y \<Rightarrow> te_status y \<noteq> ExecFinished \<and> execution_due now stale y"
    "count_where ?P (outbox_deliveries d) = 1"
    "outbox_deliveries d' = update_where ?P (replayed now x) (outbox_deliveries d)"
    using assms(2) True by (auto simp: recover_published_def Let_def x_def split: option.splits if_splits)
  obtain q0 where q0: "delivery_by_key (delivery_key r) d = Some q0" "dl_status q0 = DeliveryPublished"
    using facts(4) count_where_by_key[OF assms(1), of "delivery_key r"]
    by (auto simp: delivery_by_key_def split: option.splits if_splits)
  have upd: "rows_updated ?P (replayed now x) d d'" using facts(5) by (simp add: rows_updated_def)
  have q: "delivery_by_key (delivery_key r) d' = Some (replayed now x q0)"
    using rows_updated_by_key[OF upd, of "delivery_key r"] q0 delivery_by_key_key[OF q0(1)] by simp
  have "delivery_key (replayed now x q0) = delivery_key r" using delivery_by_key_key[OF q] .
  then have "delivery_task_id (replayed now x q0) = delivery_task_id r"
    by (simp add: delivery_task_id_def target_from_delivery_def delivery_key_def split: option.split)
  moreover have "dl_available_at (replayed now x q0) = now"
    "case x of None \<Rightarrow> True | Some y \<Rightarrow> dl_task_retry_count (replayed now x q0) = te_retry_count y \<and>
       dl_task_max_retry (replayed now x q0) = Some (te_max_retry y)"
    by (simp_all add: replayed_def Let_def split: option.split)
  moreover have "case x of None \<Rightarrow> True
     | Some y \<Rightarrow> te_status y = ExecRunning \<and> (\<exists>l. te_lease_until y = Some l \<and> l \<le> now) \<or>
            te_status y = ExecRunning \<and> te_lease_until y = None \<and> te_updated_at y + stale \<le> now \<or>
            te_status y = ExecRetry \<and> te_available_at y + stale \<le> now"
    using facts(3) by (auto simp: execution_due_def split: option.splits execution_status.splits)
  ultimately show ?thesis using True facts(1,2) q unfolding x_def[symmetric] by simp
qed

section \<open>Witnesses\<close>

definition demo_input :: envelope_input where
  "demo_input = typed_input event_object_verify_requested 3 1 ''core-api'' (ObjectVerifyRequestedV1 3)"

definition demo_outbox :: db where
  "demo_outbox = (case add_typed sample_ctx 0 demo_input empty_db of Inl _ \<Rightarrow> empty_db | Inr d \<Rightarrow> d)"

lemma demo_written: "add_typed sample_ctx 0 demo_input empty_db = Inr demo_outbox"
proof -
  have "\<exists>d'. add_typed sample_ctx 0 demo_input empty_db = Inr d'"
    using add_typed_ok[of "ObjectVerifyRequestedV1 3" 3 1 "''core-api''" sample_ctx 0 empty_db]
    by (auto simp: demo_input_def sample_ctx_def require_uuid_def empty_db_def zero_time_def trim_func_def trim_left_def trim_right_def ascii_space_def Let_def)
  then show ?thesis by (auto simp: demo_outbox_def)
qed

lemma demo_steps: "outbox_step\<^sup>*\<^sup>* empty_db demo_outbox"
  using outbox_step.produce[OF demo_written] by blast

definition demo_config :: dispatch_config where
  "demo_config = \<lparr> dc_poll_interval = second, dc_max_poll_interval = 5 * second, dc_batch_size = 10, dc_gc_delay = minute,
     dc_max_retry = 5, dc_task_timeout = minute, dc_publish_timeout = second, dc_ai_enabled = True, dc_search_enabled = False \<rparr>"

definition demo_send :: send_env where
  "demo_send = \<lparr> se_now = 20, se_before = None, se_publish = (\<lambda>t. None), se_after = None \<rparr>"

definition demo_row :: delivery where
  "demo_row = new_delivery 5 100 (target rabbitmq task_object_verify ''object'')"

lemma demo_outbox_rows: "outbox_deliveries demo_outbox = [demo_row]"
  by code_simp

lemma demo_outbox_event: "outbox_events demo_outbox \<noteq> []"
  by code_simp

lemma demo_due: "due_deliveries demo_config 20 (pin_delivery_deadlines (dc_gc_delay demo_config) demo_outbox) =
   [demo_row\<lparr>dl_not_before := Some 5\<rparr>]"
  by code_simp

theorem due_deliveries_published_witness:
  "\<exists>d'. dispatch_batch demo_config (\<lambda>n. of_nat (n + 7)) (\<lambda>n. None) (\<lambda>n. demo_send) (Some 10) 20 demo_outbox =
     (1, None, Some 10, d') \<and> published_key d' (100, rabbitmq, ''object.verify.v1@object'')"
proof -
  let ?d = "pin_delivery_deadlines (dc_gc_delay demo_config) demo_outbox"
  let ?r = "demo_row\<lparr>dl_not_before := Some 5\<rparr>"
  have p: "prepare_for_dispatch demo_config (Some 10) 20 demo_outbox = Inr (Some 10, ?d)"
    by (simp add: prepare_for_dispatch_def poll_bounds_def demo_config_def Let_def)
  have k: "deliveries_keyed ?d" unfolding key_distinct_def by code_simp
  have row: "routable_row demo_config ?d ?r" "event_by_id (dl_event_id ?r) ?d \<noteq> None" by code_simp+
  have a: "\<forall>n. accepting demo_send" by (simp add: accepting_def demo_send_def)
  have "[?r] = takeWhile (routable_row demo_config ?d) [?r]" using row(1) by simp
  from due_deliveries_published[OF p k demo_due[symmetric] _ a _ this, of "\<lambda>n. None" "\<lambda>n. of_nat (n + 7)"] row(2)
  show ?thesis by (auto simp: delivery_key_def demo_row_def new_delivery_def target_def)
qed

theorem published_event_fully_delivered_witness:
  "list_all (\<lambda>x. events_keyed x \<and> deliveries_keyed x \<and>
    list_all (\<lambda>e. list_all (\<lambda>r. ev_status e \<noteq> DeliveryPublished \<or> dl_event_id r \<noteq> ev_id e \<or> dl_status r = DeliveryPublished)
      (outbox_deliveries x)) (outbox_events x))
   [demo_outbox, snd (snd (snd (dispatch_batch demo_config (\<lambda>n. of_nat (n + 7)) (\<lambda>n. None) (\<lambda>n. demo_send) (Some 10) 20 demo_outbox)))]"
proof -
  obtain n err p' d' where b: "dispatch_batch demo_config (\<lambda>n. of_nat (n + 7)) (\<lambda>n. None) (\<lambda>n. demo_send) (Some 10) 20 demo_outbox =
     (n, err, p', d')" by (metis prod_cases4)
  have "outbox_events empty_db = []" "outbox_deliveries empty_db = []" by (simp_all add: empty_db_def)
  from published_event_fully_delivered[OF demo_steps this b] show ?thesis unfolding b by simp
qed

theorem dispatched_body_well_typed_witness:
  "\<exists>p fs. decode_payload (ev_event_type (hd (outbox_events demo_outbox))) (ev_payload (hd (outbox_events demo_outbox))) = Inr p \<and>
    validate_payload p = None \<and>
    tk_body (delivery_task demo_config demo_row (hd (outbox_events demo_outbox)) (target rabbitmq task_object_verify ''object'')) = JsonObject fs \<and>
    decode_payload (ev_event_type (hd (outbox_events demo_outbox))) (JsonObject fs) = Inr p \<and>
    map_of fs ''event_id'' = Some (JUuid (ev_id (hd (outbox_events demo_outbox)))) \<and>
    map_of fs ''event_type'' = Some (JStr (ev_event_type (hd (outbox_events demo_outbox))))"
  by (rule dispatched_body_well_typed[OF demo_steps]) (simp_all add: empty_db_def demo_outbox_event)

theorem stale_dispatcher_fenced_witness:
  "ack_delivery 30 (demo_row\<lparr>dl_lease_token := Some 5\<rparr>) (hd (outbox_events demo_outbox)) (fold (relay_apply demo_config (\<lambda>now t k. (demo_row, hd (outbox_events demo_outbox))))
      [Claim 20 9 (100, rabbitmq, ''object.verify.v1@object''), Finish 25 9 (100, rabbitmq, ''object.verify.v1@object'')] demo_outbox) =
   (Some (ErrNew ''outbox delivery lease lost''), fold (relay_apply demo_config (\<lambda>now t k. (demo_row, hd (outbox_events demo_outbox))))
      [Claim 20 9 (100, rabbitmq, ''object.verify.v1@object''), Finish 25 9 (100, rabbitmq, ''object.verify.v1@object'')] demo_outbox)"
proof -
  have "delivery_leased demo_outbox" "delivery_holder demo_outbox (delivery_key (demo_row\<lparr>dl_lease_token := Some 5\<rparr>)) \<noteq> Some 5"
    by (simp_all add: delivery_leased_def demo_outbox_rows key_distinct_def delivery_holder_def delivery_by_key_def demo_row_def new_delivery_def)
  then show ?thesis
    using stale_dispatcher_fenced[of demo_outbox 5 "demo_row\<lparr>dl_lease_token := Some 5\<rparr>"
      "[Claim 20 9 (100, rabbitmq, ''object.verify.v1@object''), Finish 25 9 (100, rabbitmq, ''object.verify.v1@object'')]"] by simp
qed

definition demo_published :: db where
  "demo_published = empty_db\<lparr>outbox_deliveries := [demo_row\<lparr>dl_status := DeliveryPublished, dl_published_at := Some 20\<rparr>]\<rparr>"

theorem recovery_replays_missing_work_witness:
  "\<exists>d'. recover_published (20 + 15 * minute) (15 * minute) (demo_row\<lparr>dl_status := DeliveryPublished, dl_published_at := Some 20\<rparr>) demo_published =
      Inr (True, True, False, d') \<and>
    (\<exists>q. delivery_by_key (100, rabbitmq, ''object.verify.v1@object'') d' = Some q \<and> dl_status q = DeliveryPending)"
proof -
  let ?r = "demo_row\<lparr>dl_status := DeliveryPublished, dl_published_at := Some 20\<rparr>"
  have k: "deliveries_keyed demo_published" by (simp add: demo_published_def key_distinct_def)
  have "\<exists>d'. recover_published (20 + 15 * minute) (15 * minute) ?r demo_published = Inr (True, True, False, d')"
    by (simp add: recover_published_def demo_published_def result_of_def execution_of_def empty_db_def published_before_def Let_def
        demo_row_def new_delivery_def delivery_key_def)
  then obtain d' where d': "recover_published (20 + 15 * minute) (15 * minute) ?r demo_published = Inr (True, True, False, d')" by blast
  have "delivery_key ?r = (100, rabbitmq, ''object.verify.v1@object'')" by (simp add: delivery_key_def demo_row_def new_delivery_def target_def)
  then show ?thesis using recovery_replays_missing_work[OF k d'] d' by auto
qed

end
