(* ===== verification/Recovery.thy ===== *)
theory Recovery
  imports OutboxHistory Upload
begin

text \<open>
  Package \<open>recovery\<close> (\<open>recovery/reconciler.go\<close>): six rotating scans over the persistent
  intermediate states, each of which rebuilds missing work as a deterministic recovery event, at most
  \<open>max_recovery_events\<close> of them for one piece of work.
\<close>

section \<open>The reconciler\<close>

text \<open>\<open>rx_object_created\<close> is the \<open>created_at\<close> column of \<open>file_objects\<close>, read by the media scan alone;
  \<open>rx_sha256_hex\<close> is \<open>sha256.Sum256\<close> in hexadecimal.\<close>

record reconciler =
  rx_ai_enabled :: bool
  rx_stale_after :: time
  rx_operation_stale_after :: time
  rx_object_created :: "uuid \<Rightarrow> time"
  rx_sha256_hex :: "string \<Rightarrow> string"

type_synonym cursors = "string \<Rightarrow> uuid option"

record report =
  rp_scanned :: nat
  rp_repaired :: nat
  rp_by_kind :: "string \<Rightarrow> nat"

definition max_recovery_events :: nat where "max_recovery_events = 3"

definition new_reconciler :: "bool \<Rightarrow> (uuid \<Rightarrow> time) \<Rightarrow> (string \<Rightarrow> string) \<Rightarrow> reconciler" where
  "new_reconciler ai created sha =
     \<lparr> rx_ai_enabled = ai, rx_stale_after = 15 * minute, rx_operation_stale_after = 5 * minute,
       rx_object_created = created, rx_sha256_hex = sha \<rparr>"

definition with_stale_after :: "time \<Rightarrow> reconciler \<Rightarrow> reconciler" where
  "with_stale_after v r = (if 0 < v then r\<lparr>rx_stale_after := v\<rparr> else r)"

definition with_operation_stale_after :: "time \<Rightarrow> reconciler \<Rightarrow> reconciler" where
  "with_operation_stale_after v r = (if 0 < v then r\<lparr>rx_operation_stale_after := v\<rparr> else r)"

definition empty_report :: report where
  "empty_report = \<lparr> rp_scanned = 0, rp_repaired = 0, rp_by_kind = (\<lambda>_. 0) \<rparr>"

text \<open>\<open>scanPage\<close>: the candidates after the cursor of this kind of work, wrapping round once.\<close>

definition candidates_after :: "('r \<Rightarrow> uuid) \<Rightarrow> uuid option \<Rightarrow> nat \<Rightarrow> 'r list \<Rightarrow> 'r list" where
  "candidates_after key after limit rows = take limit (sort_key key
     (filter (\<lambda>r. case after of None \<Rightarrow> True | Some a \<Rightarrow> a = 0 \<or> a < key r) rows))"

definition scan_page :: "('r \<Rightarrow> uuid) \<Rightarrow> string \<Rightarrow> nat \<Rightarrow> 'r list \<Rightarrow> cursors \<Rightarrow> 'r list \<times> cursors" where
  "scan_page key kind limit candidates cs =
     (let page = candidates_after key (cs kind) limit candidates;
          page' = (if page = [] \<and> cs kind \<notin> {None, Some 0} then candidates_after key None limit candidates else page)
      in (page', cs(kind := (if page' = [] then None else Some (key (last page'))))))"

section \<open>One piece of work\<close>

definition max_version :: "int \<Rightarrow> int" where "max_version v = (if v \<le> 0 then 1 else v)"

text \<open>The recovery keys of one piece of work: \<open>key\<close> and its successors.\<close>

definition in_family :: "string \<Rightarrow> recovery \<Rightarrow> bool" where
  "in_family key q = (let prefix = key @ '':after:'' in
     rc_recovery_key q = key \<or> take (length prefix) (rc_recovery_key q) = prefix)"

definition stopped :: "string \<Rightarrow> db \<Rightarrow> bool" where
  "stopped key d = exists_where (\<lambda>q. in_family key q \<and> rc_stopped_at q \<noteq> None) (outbox_recoveries d)"

definition recover_work ::
  "reconciler \<Rightarrow> string \<Rightarrow> uuid \<Rightarrow> bool \<Rightarrow> time option \<Rightarrow> time \<Rightarrow> db \<Rightarrow> (bool \<times> bool \<times> bool \<times> db) result" where
  "recover_work r et agg retry_dead since now d =
     (if retry_dead then recover_delivery_for_retryable_work et agg now (rx_stale_after r) d
      else case since of
        Some t \<Rightarrow> attempt (recover_delivery_since et agg now (rx_stale_after r) t d) (\<lambda>(a, p, d'). Inr (a, p, False, d'))
      | None \<Rightarrow> attempt (recover_delivery et agg now (rx_stale_after r) d) (\<lambda>(a, p, d'). Inr (a, p, False, d')))"

definition kill_operation :: "time \<Rightarrow> operation \<Rightarrow> operation" where
  "kill_operation now q = q\<lparr>so_state := OpDead, so_lease_token := None, so_lease_until := None,
     so_completed_at := Some now, so_updated_at := now,
     so_last_error := Some ''automatic recovery budget exhausted''\<rparr>"

definition lease_running :: "time \<Rightarrow> operation \<Rightarrow> bool" where
  "lease_running now q \<longleftrightarrow> so_state q = OpRunning \<and> (case so_lease_until q of None \<Rightarrow> False | Some l \<Rightarrow> now < l)"

definition stop_family :: "string \<Rightarrow> time \<Rightarrow> db \<Rightarrow> db" where
  "stop_family key now d = d\<lparr>outbox_recoveries :=
     update_where (\<lambda>q. in_family key q \<and> rc_stopped_at q = None)
       (\<lambda>q. q\<lparr>rc_stopped_at := Some now, rc_updated_at := now\<rparr>) (outbox_recoveries d)\<rparr>"

text \<open>The budget is spent: an operation that is not executing is retired with the family.\<close>

definition stop_recovery :: "string \<Rightarrow> bool \<Rightarrow> uuid \<Rightarrow> time \<Rightarrow> db \<Rightarrow> db" where
  "stop_recovery key retry_dead agg now d =
     (case (if retry_dead then operation_by_id agg d else None) of
        None \<Rightarrow> stop_family key now d
      | Some q \<Rightarrow>
          if lease_running now q then d
          else if so_state q \<noteq> OpSucceeded \<and> so_state q \<noteq> OpDead
          then stop_family key now (d\<lparr>storage_operations :=
                 update_where (\<lambda>o'. so_id o' = so_id q) (kill_operation now) (storage_operations d)\<rparr>)
          else stop_family key now d)"

text \<open>\<open>ORDER BY published_at DESC NULLS LAST, created_at DESC, id DESC\<close>, first row.\<close>

definition previous_event :: "string \<Rightarrow> uuid \<Rightarrow> time option \<Rightarrow> db \<Rightarrow> outbox_event option" where
  "previous_event et agg since d =
     (let es = sort_key ev_published_at (sort_key ev_created_at (sort_key ev_id
        (filter (\<lambda>e. ev_event_type e = et \<and> ev_aggregate_id e = agg \<and> ev_status e = DeliveryPublished \<and>
           (case since of None \<Rightarrow> True | Some t \<Rightarrow> t = zero_time \<or> t \<le> ev_created_at e)) (outbox_events d))))
      in if es = [] then None else Some (last es))"

definition event_time :: "outbox_event \<Rightarrow> time" where
  "event_time e = (case ev_published_at e of None \<Rightarrow> ev_created_at e | Some t \<Rightarrow> t)"

fun with_recovery_key :: "string \<Rightarrow> payload \<Rightarrow> payload" where
  "with_recovery_key key (UploadOperationRecoverV1 i ty k) = UploadOperationRecoverV1 i ty key"
| "with_recovery_key key (StorageOperationRecoverV1 i ty k) = StorageOperationRecoverV1 i ty key"
| "with_recovery_key key p = p"

definition recovery_producer :: string where "recovery_producer = ''maintenance-recovery''"

text \<open>One transaction under the advisory lock of \<open>key\<close>.\<close>

definition ensure_with_policy ::
  "reconciler \<Rightarrow> ctx \<Rightarrow> string \<Rightarrow> string \<Rightarrow> string \<Rightarrow> uuid \<Rightarrow> int \<Rightarrow> string \<Rightarrow> uuid \<Rightarrow> int \<Rightarrow> payload \<Rightarrow> bool \<Rightarrow>
   time option \<Rightarrow> db \<Rightarrow> (bool \<times> db) result" where
  "ensure_with_policy r cx key reason rtype rid version et agg agg_version p retry_dead since d =
     (let now = cx_now cx in
      if stopped key d then Inr (False, d)
      else attempt (recover_work r et agg retry_dead since now d) (\<lambda>(active, replayed, terminal_dead, d1).
        if active then Inr (replayed, d1)
        else if max_recovery_events \<le> count_where (in_family key) (outbox_recoveries d1)
          then Inr (False, stop_recovery key retry_dead agg now d1)
        else (case previous_event et agg since d1 of
            None \<Rightarrow> ensure_recovery cx key reason rtype rid (max_version version)
                      (typed_input et agg agg_version recovery_producer (with_recovery_key key p)) d1
          | Some e \<Rightarrow>
              if \<not> terminal_dead \<and> now - rx_stale_after r < event_time e then Inr (False, d1)
              else (let key' = key @ '':after:'' @ uuid_string (ev_id e) in
                ensure_recovery cx key' reason rtype rid (max_version version)
                  (typed_input et agg agg_version recovery_producer (with_recovery_key key' p)) d1))))"

definition ensure ::
  "reconciler \<Rightarrow> ctx \<Rightarrow> string \<Rightarrow> string \<Rightarrow> string \<Rightarrow> uuid \<Rightarrow> int \<Rightarrow> string \<Rightarrow> payload \<Rightarrow> db \<Rightarrow> (bool \<times> db) result" where
  "ensure r cx key reason rtype i version et p d =
     ensure_with_policy r cx key reason rtype i version et i version p False None d"

definition ensure_storage_operation ::
  "reconciler \<Rightarrow> ctx \<Rightarrow> string \<Rightarrow> string \<Rightarrow> uuid \<Rightarrow> int \<Rightarrow> string \<Rightarrow> uuid \<Rightarrow> int \<Rightarrow> payload \<Rightarrow> db \<Rightarrow> (bool \<times> db) result" where
  "ensure_storage_operation r cx key rtype rid version et agg agg_version p d =
     ensure_with_policy r cx key ''storage_operation_unfinished'' rtype rid version et agg agg_version p True None d"

section \<open>Scans\<close>

text \<open>The loop of a scan; row \<open>k\<close> of the page runs in the context \<open>cxs k\<close>.\<close>

primrec repair_rows ::
  "(nat \<Rightarrow> 'r \<Rightarrow> db \<Rightarrow> (bool \<times> db) result) \<Rightarrow> ('r \<Rightarrow> uuid) \<Rightarrow> string \<Rightarrow> nat \<Rightarrow> 'r list \<Rightarrow>
   report \<times> go_error option \<times> db \<Rightarrow> report \<times> go_error option \<times> db" where
  "repair_rows f key kind k [] s = s"
| "repair_rows f key kind k (row # rows) s =
     (case s of (rp, failures, d) \<Rightarrow> (case f k row d of
        Inl e \<Rightarrow> repair_rows f key kind (Suc k) rows
          (rp, join_errors failures (Some (ErrWrap e (''recover '' @ uuid_string (key row)))), d)
      | Inr (created, d') \<Rightarrow> repair_rows f key kind (Suc k) rows
          (if created then rp\<lparr>rp_repaired := rp_repaired rp + 1, rp_by_kind := (rp_by_kind rp)(kind := rp_by_kind rp kind + 1)\<rparr> else rp,
           failures, d')))"

definition scan ::
  "('r \<Rightarrow> uuid) \<Rightarrow> string \<Rightarrow> string \<Rightarrow> 'r list \<Rightarrow> (nat \<Rightarrow> 'r \<Rightarrow> db \<Rightarrow> (bool \<times> db) result) \<Rightarrow> nat \<Rightarrow>
   report \<times> cursors \<times> db \<Rightarrow> go_error option \<times> report \<times> cursors \<times> db" where
  "scan key kind label candidates f limit s =
     (case s of (rp, cs, d) \<Rightarrow>
       (let (page, cs') = scan_page key kind limit candidates cs;
            (rp', failures, d') = repair_rows f key label 0 page (rp\<lparr>rp_scanned := rp_scanned rp + length page\<rparr>, None, d)
        in (failures, rp', cs', d')))"

definition versioned_key :: "string \<Rightarrow> uuid \<Rightarrow> int \<Rightarrow> string" where
  "versioned_key name i v = name @ '':'' @ uuid_string i @ '':'' @ int_string v"

definition recover_verifying_uploads ::
  "reconciler \<Rightarrow> (nat \<Rightarrow> ctx) \<Rightarrow> nat \<Rightarrow> report \<times> cursors \<times> db \<Rightarrow> go_error option \<times> report \<times> cursors \<times> db" where
  "recover_verifying_uploads r cxs limit s =
     scan us_id ''verify'' ''object.verify''
       (filter (\<lambda>u. us_status u = Verifying) (upload_sessions (snd (snd s))))
       (\<lambda>k u. ensure r (cxs k) (versioned_key ''upload.verify'' (us_id u) (us_version u)) ''broker_task_missing'' ''upload_session''
          (us_id u) (us_version u) event_object_verify_requested (ObjectVerifyRequestedV1 (us_id u))) limit s"

definition missing_thumbnail :: "db \<Rightarrow> file_object \<Rightarrow> bool" where
  "missing_thumbnail d q \<longleftrightarrow> fo_status q = ObjectReady \<and> str_prefix ''image/'' (fo_mime_type q) \<and>
     \<not> exists_where (\<lambda>v. ov_object_id v = fo_id q \<and> ov_variant_type v = ''thumbnail'' \<and>
          ov_pipeline_version v = ''thumbnail-v1'' \<and> ov_ready v) (object_variants d)"

definition born_at :: "reconciler \<Rightarrow> file_object \<Rightarrow> time" where
  "born_at r q = (case fo_verified_at q of None \<Rightarrow> rx_object_created r (fo_id q) | Some t \<Rightarrow> t)"

definition recover_media ::
  "reconciler \<Rightarrow> (nat \<Rightarrow> ctx) \<Rightarrow> nat \<Rightarrow> report \<times> cursors \<times> db \<Rightarrow> go_error option \<times> report \<times> cursors \<times> db" where
  "recover_media r cxs limit s =
     scan fo_id ''media'' ''media.thumbnail'' (filter (missing_thumbnail (snd (snd s))) (file_objects (snd (snd s))))
       (\<lambda>k q. ensure_with_policy r (cxs k)
          (''media.thumbnail:'' @ uuid_string (fo_id q) @ '':thumbnail-v1:'' @ rx_sha256_hex r (fo_object_key q))
          ''missing_media_variant'' ''file_object'' (fo_id q) (fo_version q) event_media_thumbnail_requested (fo_id q) (fo_version q)
          (MediaThumbnailRequestedV1 (fo_id q)) False (Some (born_at r q))) limit s"

definition index_incomplete :: "time \<Rightarrow> db \<Rightarrow> file_object \<Rightarrow> bool" where
  "index_incomplete cutoff d q \<longleftrightarrow> fo_status q = ObjectReady \<and>
     (\<not> exists_where (\<lambda>a. ad_object_id a = fo_id q) (ai_documents d) \<or>
      exists_where (\<lambda>a. ad_object_id a = fo_id q \<and> ad_status a \<in> {''pending'', ''processing'', ''building'', ''failed''} \<and>
        ad_updated_at a \<le> cutoff) (ai_documents d))"

definition recover_ai ::
  "reconciler \<Rightarrow> (nat \<Rightarrow> ctx) \<Rightarrow> nat \<Rightarrow> report \<times> cursors \<times> db \<Rightarrow> go_error option \<times> report \<times> cursors \<times> db" where
  "recover_ai r cxs limit s =
     (if \<not> rx_ai_enabled r then (None, s)
      else scan fo_id ''ai'' ''ai.index''
        (filter (index_incomplete (cx_now (cxs 0) - rx_stale_after r) (snd (snd s))) (file_objects (snd (snd s))))
        (\<lambda>k q. ensure r (cxs k) (versioned_key ''ai.index'' (fo_id q) (fo_version q)) ''ai_index_incomplete'' ''file_object''
           (fo_id q) (fo_version q) event_ai_index_requested (AIIndexRequestedV1 (fo_id q) None [] None [] [] [] [])) limit s)"

definition reprocess_stale :: "time \<Rightarrow> async_task \<Rightarrow> bool" where
  "reprocess_stale cutoff t \<longleftrightarrow> at_task_type t = ''ai.reprocess'' \<and> at_resource_id t \<noteq> None \<and>
     at_status t \<in> {''pending'', ''running'', ''failed''} \<and> at_updated_at t \<le> cutoff"

definition recover_reprocess_tasks ::
  "reconciler \<Rightarrow> (nat \<Rightarrow> ctx) \<Rightarrow> nat \<Rightarrow> report \<times> cursors \<times> db \<Rightarrow> go_error option \<times> report \<times> cursors \<times> db" where
  "recover_reprocess_tasks r cxs limit s =
     (if \<not> rx_ai_enabled r then (None, s)
      else scan at_id ''reprocess'' ''ai.reprocess''
        (filter (reprocess_stale (cx_now (cxs 0) - rx_stale_after r)) (async_tasks (snd (snd s))))
        (\<lambda>k t. ensure r (cxs k) (versioned_key ''ai.reprocess'' (at_id t) (at_version t)) ''ai_task_incomplete'' ''ai_task''
           (at_id t) (at_version t) event_ai_reprocess_requested
           (AIReprocessRequestedV1 (at_id t) (case at_resource_id t of None \<Rightarrow> 0 | Some i \<Rightarrow> i) None [] None [] [] [] [])) limit s)"

definition garbage :: "db \<Rightarrow> file_object \<Rightarrow> bool" where
  "garbage d q \<longleftrightarrow> fo_status q \<in> {ObjectReady, ObjectDeleting} \<and> fo_reference_count q = 0 \<and>
     \<not> exists_where (\<lambda>o'. so_object_id o' = Some (fo_id q) \<and> so_operation_type o' = ObjectDelete \<and>
          so_state o' \<in> {OpPending, OpRunning, OpFailed, OpDead}) (storage_operations d)"

definition recover_garbage_collection ::
  "reconciler \<Rightarrow> (nat \<Rightarrow> ctx) \<Rightarrow> nat \<Rightarrow> report \<times> cursors \<times> db \<Rightarrow> go_error option \<times> report \<times> cursors \<times> db" where
  "recover_garbage_collection r cxs limit s =
     scan fo_id ''gc'' ''object.gc'' (filter (garbage (snd (snd s))) (file_objects (snd (snd s))))
       (\<lambda>k q. ensure r (cxs k) (versioned_key ''object.gc'' (fo_id q) (fo_version q)) ''zero_reference_gc'' ''file_object''
          (fo_id q) (fo_version q) event_object_gc_requested (ObjectGCRequestedV1 (fo_id q))) limit s"

text \<open>Operations that are due, executing without a live lease, or done while their session still waits.\<close>

definition waiting_session :: "upload_status \<Rightarrow> operation \<Rightarrow> db \<Rightarrow> bool" where
  "waiting_session st q d = exists_where (\<lambda>u. so_upload_session_id q = Some (us_id u) \<and> us_status u = st) (upload_sessions d)"

definition operation_unfinished :: "time \<Rightarrow> time \<Rightarrow> db \<Rightarrow> operation \<Rightarrow> bool" where
  "operation_unfinished now stale d q \<longleftrightarrow>
     so_state q \<in> {OpPending, OpFailed} \<and> so_available_at q \<le> now \<or>
     so_state q = OpRunning \<and> (case so_lease_until q of Some l \<Rightarrow> l \<le> now | None \<Rightarrow> so_updated_at q \<le> now - stale) \<or>
     so_state q = OpSucceeded \<and> (so_operation_type q = MultipartCreate \<and> waiting_session Initializing q d \<or>
                                 so_operation_type q = MultipartComplete \<and> waiting_session Completing q d)"

definition operation_resource :: "operation \<Rightarrow> string \<times> uuid" where
  "operation_resource q = (case so_object_id q of
      Some i \<Rightarrow> (''file_object'', i)
    | None \<Rightarrow> (case so_upload_session_id q of Some i \<Rightarrow> (''upload_session'', i) | None \<Rightarrow> (''storage_operation'', so_id q)))"

text \<open>Event type, recovery key and payload.\<close>

definition operation_recovery :: "operation \<Rightarrow> string \<times> string \<times> payload" where
  "operation_recovery q =
     (let name = operation_type_name (so_operation_type q);
          suffix = uuid_string (so_id q) @ '':'' @ replace_all ''/'' ''_'' name
      in if so_operation_type q \<in> {ObjectDelete, VariantDelete}
         then (event_storage_operation_recover, ''storage.operation:'' @ suffix,
               StorageOperationRecoverV1 (so_id q) name (''storage.operation:'' @ suffix))
         else (event_upload_operation_recover, ''upload.operation_recovery:'' @ suffix,
               UploadOperationRecoverV1 (so_id q) name (''upload.operation_recovery:'' @ suffix)))"

definition recover_storage_operations ::
  "reconciler \<Rightarrow> (nat \<Rightarrow> ctx) \<Rightarrow> nat \<Rightarrow> report \<times> cursors \<times> db \<Rightarrow> go_error option \<times> report \<times> cursors \<times> db" where
  "recover_storage_operations r cxs limit s =
     scan so_id ''storage'' ''storage.operation''
       (filter (operation_unfinished (cx_now (cxs 0)) (rx_operation_stale_after r) (snd (snd s))) (storage_operations (snd (snd s))))
       (\<lambda>k q. let (et, key, p) = operation_recovery q; (rtype, rid) = operation_resource q in
          ensure_storage_operation r (cxs k) key rtype rid (int (so_attempt q)) et (so_id q) (max_version (int (so_attempt q))) p)
       limit s"

section \<open>A run\<close>

definition scans ::
  "reconciler \<Rightarrow> ((nat \<Rightarrow> ctx) \<Rightarrow> nat \<Rightarrow> report \<times> cursors \<times> db \<Rightarrow> go_error option \<times> report \<times> cursors \<times> db) list" where
  "scans r = [recover_verifying_uploads r, recover_media r, recover_ai r, recover_reprocess_tasks r,
     recover_garbage_collection r, recover_storage_operations r]"

definition slot_size :: "nat \<Rightarrow> nat \<Rightarrow> nat" where
  "slot_size limit offset = limit div 6 + (if offset < limit mod 6 then 1 else 0)"

text \<open>\<open>n\<close> slots are left; scan number \<open>offset\<close> of the run uses the contexts \<open>cxs (Suc offset)\<close>.\<close>

primrec run_slots ::
  "reconciler \<Rightarrow> (nat \<Rightarrow> nat \<Rightarrow> ctx) \<Rightarrow> nat \<Rightarrow> nat \<Rightarrow> nat \<Rightarrow> nat \<Rightarrow> go_error option \<times> report \<times> cursors \<times> db \<Rightarrow>
   go_error option \<times> report \<times> cursors \<times> db" where
  "run_slots r cxs start limit offset 0 s = s"
| "run_slots r cxs start limit offset (Suc n) s =
     (if slot_size limit offset = 0 then s
      else (case s of (failures, t) \<Rightarrow>
        (case (scans r ! ((start + offset) mod 6)) (cxs (Suc offset)) (slot_size limit offset) t of
           (err, t') \<Rightarrow> run_slots r cxs start limit (Suc offset) n (join_errors failures err, t'))))"

text \<open>\<open>RunOnce\<close>: the result with the next first scan, the cursors and the database.\<close>

definition run_once ::
  "reconciler \<Rightarrow> (nat \<Rightarrow> nat \<Rightarrow> ctx) \<Rightarrow> int \<Rightarrow> nat \<times> cursors \<times> db \<Rightarrow> go_error option \<times> report \<times> nat \<times> cursors \<times> db" where
  "run_once r cxs limit s =
     (case s of (next_scan, cs, d) \<Rightarrow>
        if limit \<le> 0 then (Some (ErrNew ''recovery: invalid reconciler or limit''), empty_report, next_scan, cs, d)
        else (let start = next_scan mod 6;
                  d1 = stop_exhausted (cx_now (cxs 0 0)) (\<lambda>_. True) (nat limit) d;
                  (err, rp, cs', d') = run_slots r cxs start (nat limit) 0 6 (None, empty_report, cs, d1)
              in (err, rp, (start + 1) mod 6, cs', d')))"

end
