(* ===== verification/RecoveryFlow.thy ===== *)
theory RecoveryFlow
  imports Recovery
begin

text \<open>
  What holds of the recovery reconciler: one piece of work gets at most \<open>max_recovery_events\<close> fresh
  events and none after it was stopped, a repair leaves a delivery of the work waiting, a run stays
  within its limit and every transaction of it is a sequence of outbox steps.
\<close>

section \<open>Keys\<close>

lemma cut_None_append: "cut sep (a @ sep @ b) \<noteq> None"
proof (induction a)
  case Nil
  have "has_prefix (sep @ b) sep" by (simp add: has_prefix_def)
  then show ?case by (cases "sep @ b") auto
next
  case (Cons c a)
  then show ?case by auto
qed

lemma contains_iff: "contains s sep \<longleftrightarrow> (\<exists>a b. s = a @ sep @ b)"
  using cut_None_append cut_append by (fastforce simp: contains_def)

text \<open>The keys the scans build: no \<open>:after\<close> occurs in them.\<close>

definition work_key :: "string \<Rightarrow> bool" where
  "work_key key \<longleftrightarrow> \<not> contains key '':after''"

lemma after_not_in_prefix:
  assumes "'':after:'' @ x = z @ '':after:'' @ y" "z \<noteq> []"
  shows "\<exists>w. z = '':after'' @ w"
proof -
  have "length z \<noteq> 0" using assms(2) by simp
  then have "length z = 1 \<or> length z = 2 \<or> length z = 3 \<or> length z = 4 \<or> length z = 5 \<or> 6 \<le> length z"
    by linarith
  moreover have "z = '':after'' @ drop 6 z" if "6 \<le> length z"
  proof -
    have "take 6 ('':after:'' @ x) = take 6 z" using assms(1) that by simp
    then show ?thesis using append_take_drop_id[of 6 z] by simp
  qed
  moreover have "('':after:'' @ x) ! length z = CHR 0x3a" using assms(1) by simp
  ultimately show ?thesis by (auto simp: numeral_eq_Suc)
qed

lemma successor_inj:
  assumes "work_key k" "work_key l" "k @ '':after:'' @ x = l @ '':after:'' @ y"
  shows "k = l"
proof -
  have no: "\<not> work_key (j @ '':after'' @ w)" for j w by (auto simp: work_key_def contains_iff)
  obtain z where "k = l @ z \<and> z @ '':after:'' @ x = '':after:'' @ y \<or> l = k @ z \<and> '':after:'' @ x = z @ '':after:'' @ y"
    using assms(3) unfolding append_eq_append_conv2 by blast
  then consider "z = []" | "k = l @ z" "'':after:'' @ y = z @ '':after:'' @ x" "z \<noteq> []"
    | "l = k @ z" "'':after:'' @ x = z @ '':after:'' @ y" "z \<noteq> []" by fastforce
  then show ?thesis
  proof cases
    case 1
    then show ?thesis using \<open>k = l @ z \<and> _ \<or> _\<close> by auto
  next
    case 2
    obtain w where "z = '':after'' @ w" using after_not_in_prefix[OF 2(2,3)] by blast
    then show ?thesis using no[of l w] assms(1) 2(1) by simp
  next
    case 3
    obtain w where "z = '':after'' @ w" using after_not_in_prefix[OF 3(2,3)] by blast
    then show ?thesis using no[of k w] assms(2) 3(1) by simp
  qed
qed

lemma in_family_keys:
  "in_family key q \<longleftrightarrow> rc_recovery_key q = key \<or> (\<exists>x. rc_recovery_key q = key @ '':after:'' @ x)"
proof -
  let ?p = "key @ '':after:''" and ?k = "rc_recovery_key q"
  have "take (length ?p) ?k = ?p \<longleftrightarrow> (\<exists>x. ?k = ?p @ x)"
    by (metis append_eq_conv_conj append_take_drop_id)
  then show ?thesis by (simp add: in_family_def Let_def)
qed

text \<open>The events of one piece of work belong to its own family.\<close>

lemma foreign_key:
  assumes "work_key key" "work_key k" "k \<noteq> key" "rc_recovery_key q = k \<or> (\<exists>x. rc_recovery_key q = k @ '':after:'' @ x)"
  shows "\<not> in_family key q"
proof -
  have no: "\<not> work_key (j @ '':after:'' @ w)" for j w
    using contains_iff[of "j @ '':after:'' @ w" "'':after''"] by (auto simp: work_key_def)
  show ?thesis using assms successor_inj no unfolding in_family_keys by metis
qed

subsection \<open>The keys of the scans\<close>

lemma work_key_plain: "CHR 0x3a \<notin> set s \<Longrightarrow> work_key s"
  by (auto simp: work_key_def contains_iff)

lemma work_key_colon:
  assumes "CHR 0x3a \<notin> set x" "work_key y" "\<not> has_prefix y ''after''"
  shows "work_key (x @ '':'' @ y)"
proof (rule ccontr)
  assume "\<not> work_key (x @ '':'' @ y)"
  then obtain a b where s: "x @ '':'' @ y = a @ '':after'' @ b" by (auto simp: work_key_def contains_iff)
  then consider z where "x = a @ z" "z @ '':'' @ y = '':after'' @ b" | z where "a = x @ z" "'':'' @ y = z @ '':after'' @ b"
    unfolding append_eq_append_conv2 by metis
  then show False
  proof cases
    case 1
    then have "z = []" using assms(1) by (cases z) auto
    then show ?thesis using 1 assms(3) by (simp add: has_prefix_def)
  next
    case 2
    show ?thesis
    proof (cases z)
      case Nil
      then show ?thesis using 2 assms(3) by (simp add: has_prefix_def)
    next
      case (Cons c w)
      then have "y = w @ '':after'' @ b" using 2 by simp
      then show ?thesis using assms(2) by (auto simp: work_key_def contains_iff)
    qed
  qed
qed

lemma digit_char_plain: "d < 16 \<Longrightarrow> digit_char d \<noteq> CHR 0x3a \<and> digit_char d \<noteq> CHR ''t''"
proof -
  assume "d < 16"
  then show ?thesis
    by (auto simp: digit_char_def take_bit_nat_eq_self split: if_splits dest!: arg_cong[where f = "of_char :: char \<Rightarrow> nat"])
qed

lemma hex_digits_plain: "CHR 0x3a \<notin> set (hex_digits k n) \<and> CHR ''t'' \<notin> set (hex_digits k n)"
  by (induction k arbitrary: n) (use digit_char_plain in \<open>auto dest: sym\<close>)

lemma uuid_string_plain: "CHR 0x3a \<notin> set (uuid_string u)" "CHR ''t'' \<notin> set (uuid_string u)"
  using hex_digits_plain[of 32 "unat u"]
  by (auto simp: uuid_string_def dashed_def dest: in_set_takeD in_set_dropD)

lemma decimal_string_plain: "CHR 0x3a \<notin> set (decimal_string n) \<and> CHR ''t'' \<notin> set (decimal_string n)"
proof (induction n rule: decimal_string.induct)
  case (1 n)
  have d: "digit_char (m mod 10) \<noteq> CHR 0x3a \<and> digit_char (m mod 10) \<noteq> CHR ''t''" for m
    by (rule digit_char_plain) (simp add: less_trans[OF mod_less_divisor])
  show ?case using 1 d[of n] by (subst (1 2) decimal_string.simps) (auto dest: sym)
qed

lemma no_t_prefix: "CHR ''t'' \<notin> set (take 5 y) \<Longrightarrow> \<not> has_prefix y ''after''"
proof
  assume "CHR ''t'' \<notin> set (take 5 y)" "has_prefix y ''after''"
  moreover have "length ''after'' = 5" by simp
  ultimately have "CHR ''t'' \<notin> set ''after''" unfolding has_prefix_def by metis
  then show False by simp
qed

lemma int_string_plain: "CHR 0x3a \<notin> set (int_string n)" "CHR ''t'' \<notin> set (int_string n)"
  using decimal_string_plain[of "nat n"] decimal_string_plain[of "nat (- n)"] by (auto simp: int_string_def)

lemma work_key_uuid:
  assumes "CHR 0x3a \<notin> set name" "work_key w" "\<not> has_prefix w ''after''"
  shows "work_key (name @ '':'' @ uuid_string i @ '':'' @ w)"
proof (rule work_key_colon[OF assms(1)])
  show "work_key (uuid_string i @ '':'' @ w)" by (rule work_key_colon[OF uuid_string_plain(1) assms(2,3)])
  show "\<not> has_prefix (uuid_string i @ '':'' @ w) ''after''"
    by (rule no_t_prefix) (use uuid_string_plain(2) in \<open>auto dest: in_set_takeD\<close>)
qed

lemma versioned_work_key: "CHR 0x3a \<notin> set name \<Longrightarrow> work_key (versioned_key name i v)"
  unfolding versioned_key_def
  by (intro work_key_uuid work_key_plain no_t_prefix) (use int_string_plain[of v] in \<open>auto dest: in_set_takeD\<close>)


lemma operation_work_key: "operation_recovery q = (et, key, p) \<Longrightarrow> work_key key"
proof -
  let ?name = "replace_all ''/'' ''_'' (operation_type_name (so_operation_type q))"
  have n: "CHR 0x3a \<notin> set ?name \<and> \<not> has_prefix ?name ''after''"
  proof -
    have "\<forall>ty \<in> set [MultipartCreate, MultipartComplete, MultipartAbort, CanonicalEnsure, StagingDelete, ObjectDelete, VariantDelete].
      CHR 0x3a \<notin> set (replace_all ''/'' ''_'' (operation_type_name ty)) \<and>
      \<not> has_prefix (replace_all ''/'' ''_'' (operation_type_name ty)) ''after''" by code_simp
    then show ?thesis by (cases "so_operation_type q") simp_all
  qed
  have "work_key (k @ '':'' @ uuid_string (so_id q) @ '':'' @ ?name)" if "CHR 0x3a \<notin> set k" for k
    by (rule work_key_uuid[OF that work_key_plain]) (use n in auto)
  from this[of "''storage.operation''"] this[of "''upload.operation_recovery''"]
  show "operation_recovery q = (et, key, p) \<Longrightarrow> work_key key"
    by (auto simp: operation_recovery_def Let_def split: if_splits)
qed

section \<open>The budget\<close>

lemma recover_published_recoveries:
  "recover_published now stale r d = Inr (a, b, c, d') \<Longrightarrow> outbox_recoveries d' = outbox_recoveries d"
  by (auto simp: recover_published_def Let_def split: option.splits if_splits)

lemma recover_rows_recoveries:
  "recover_rows wanted now stale rt rs (a, b, c, d) = Inr (a', b', c', d') \<Longrightarrow> outbox_recoveries d' = outbox_recoveries d"
proof (induction rs arbitrary: a b c d)
  case (Cons r rs)
  consider "\<exists>a1. recover_rows wanted now stale rt rs (a1, b, c, d) = Inr (a', b', c', d')"
    | live replay dead d1 a1 b1 where "recover_published now stale r d = Inr (live, replay, dead, d1)"
      "recover_rows wanted now stale rt rs (a1, b1, dead, d1) = Inr (a', b', c', d')"
    using Cons.prems(1) by (fastforce simp: attempt_eq_Inr_iff split: option.splits if_splits)
  then show ?case using Cons.IH recover_published_recoveries by cases metis+
qed simp

lemma recover_work_with:
  "recover_work r et agg rd since now d = Inr (a, p, t, d') \<Longrightarrow>
     \<exists>rt s t'. recover_delivery_with et agg now (rx_stale_after r) rt s d = Inr (a, p, t', d')"
  by (auto simp: recover_work_def recover_delivery_def recover_delivery_since_def
      recover_delivery_for_retryable_work_def attempt_eq_Inr_iff split: if_splits option.splits)

lemma recover_work_recoveries:
  assumes "recover_work r et agg rd since now d = Inr (a, p, t, d')"
  shows "outbox_recoveries d' = outbox_recoveries d"
  using recover_work_with[OF assms] recover_rows_recoveries
  by (auto simp: recover_delivery_with_def split: if_splits)

lemma ensure_recovery_recoveries:
  "ensure_recovery cx key reason rtype rid v i d = Inr (b, d') \<Longrightarrow> d' = d \<and> \<not> b \<or>
     b \<and> (\<exists>q. outbox_recoveries d' = outbox_recoveries d @ [q] \<and> rc_recovery_key q = key \<and> rc_stopped_at q = None)"
  by (auto simp: ensure_recovery_def Let_def attempt_eq_Inr_iff insert_event_def split: if_splits)

lemma stop_recovery_recoveries:
  "outbox_recoveries (stop_recovery key rd agg now d) = outbox_recoveries d \<or>
   outbox_recoveries (stop_recovery key rd agg now d) = outbox_recoveries (stop_family key now d)"
  by (auto simp: stop_recovery_def stop_family_def split: option.split)

text \<open>What one transaction does to the recovery table.\<close>

inductive family_change :: "string \<Rightarrow> recovery list \<Rightarrow> recovery list \<Rightarrow> bool" for key where
  unchanged: "family_change key t t"
| stop: "\<not> list_ex (\<lambda>q. in_family key q \<and> rc_stopped_at q \<noteq> None) t \<Longrightarrow>
    t' = update_where (\<lambda>q. in_family key q \<and> rc_stopped_at q = None) (\<lambda>q. q\<lparr>rc_stopped_at := Some now, rc_updated_at := now\<rparr>) t \<Longrightarrow>
    family_change key t t'"
| new_event: "\<not> list_ex (\<lambda>q. in_family key q \<and> rc_stopped_at q \<noteq> None) t \<Longrightarrow>
    count_where (in_family key) t < max_recovery_events \<Longrightarrow> in_family key q \<Longrightarrow> rc_stopped_at q = None \<Longrightarrow>
    family_change key t (t @ [q])"

lemma ensure_with_policy_change:
  assumes "ensure_with_policy r cx key reason rtype rid v et agg av p rd since d = Inr (c, d')"
  shows "family_change key (outbox_recoveries d) (outbox_recoveries d')"
proof (cases "stopped key d")
  case False
  then have ns: "\<not> list_ex (\<lambda>q. in_family key q \<and> rc_stopped_at q \<noteq> None) (outbox_recoveries d)"
    by (simp add: stopped_def exists_where_def)
  obtain a rp td d1 where w: "recover_work r et agg rd since (cx_now cx) d = Inr (a, rp, td, d1)"
    using assms False by (auto simp: ensure_with_policy_def Let_def attempt_eq_Inr_iff)
  note same = recover_work_recoveries[OF w]
  have new: "family_change key (outbox_recoveries d) (outbox_recoveries d')"
    if "ensure_recovery cx k reason rtype rid v' i d1 = Inr (b, d')"
      "k = key \<or> (\<exists>x. k = key @ '':after:'' @ x)" "\<not> max_recovery_events \<le> count_where (in_family key) (outbox_recoveries d1)" for k i b v'
    using ensure_recovery_recoveries[OF that(1)]
  proof
    assume "b \<and> (\<exists>q. outbox_recoveries d' = outbox_recoveries d1 @ [q] \<and> rc_recovery_key q = k \<and> rc_stopped_at q = None)"
    then obtain q where q: "outbox_recoveries d' = outbox_recoveries d @ [q]" "rc_recovery_key q = k" "rc_stopped_at q = None"
      using same by auto
    have f: "in_family key q" using q(2) that(2) in_family_keys by blast
    show ?thesis unfolding q(1) by (rule family_change.new_event[OF ns _ f q(3)]) (use that(3) same in simp)
  qed (use same in \<open>simp add: family_change.unchanged\<close>)
  have st: "family_change key (outbox_recoveries d) (outbox_recoveries (stop_recovery key rd agg (cx_now cx) d1))"
    using stop_recovery_recoveries[of key rd agg "cx_now cx" d1] ns same
    by (auto simp: stop_family_def intro: family_change.intros)
  consider "d' = d1" | "d' = stop_recovery key rd agg (cx_now cx) d1"
    | k v' i where "ensure_recovery cx k reason rtype rid v' i d1 = Inr (c, d')"
      "k = key \<or> (\<exists>x. k = key @ '':after:'' @ x)" "\<not> max_recovery_events \<le> count_where (in_family key) (outbox_recoveries d1)"
    using assms False w by (auto simp: ensure_with_policy_def Let_def split: if_splits option.splits)
  then show ?thesis by cases (use same st new in \<open>auto intro: family_change.intros\<close>)
qed (use assms in \<open>auto simp: ensure_with_policy_def Let_def intro: family_change.intros\<close>)

text \<open>The reconciler on the watched key and on other work, recovery events of other work, and every
  transaction that leaves the recovery table alone.\<close>

inductive recovery_step :: "string \<Rightarrow> db \<Rightarrow> db \<Rightarrow> bool" for key where
  this_work: "ensure_with_policy r cx key reason rtype rid v et agg av p rd since d = Inr (c, d') \<Longrightarrow> recovery_step key d d'"
| other_work: "ensure_with_policy r cx k reason rtype rid v et agg av p rd since d = Inr (c, d') \<Longrightarrow> work_key k \<Longrightarrow> k \<noteq> key \<Longrightarrow>
    recovery_step key d d'"
| register: "ensure_recovery cx k reason rtype rid v i d = Inr (c, d') \<Longrightarrow> work_key k \<Longrightarrow> k \<noteq> key \<Longrightarrow> recovery_step key d d'"
| elsewhere: "outbox_recoveries d' = outbox_recoveries d \<Longrightarrow> recovery_step key d d'"

lemma stop_rows_foreign:
  assumes "\<And>q. in_family k q \<Longrightarrow> \<not> in_family key q"
  shows "filter (in_family key) (update_where (\<lambda>q. in_family k q \<and> rc_stopped_at q = None) (\<lambda>q. q\<lparr>rc_stopped_at := Some now, rc_updated_at := now\<rparr>) t) =
    filter (in_family key) t"
proof (induction t)
  case (Cons q t)
  have "in_family j (q\<lparr>rc_stopped_at := Some now, rc_updated_at := now\<rparr>) = in_family j q" for j by (simp add: in_family_def)
  then show ?case using Cons assms[of q] by simp
qed simp

lemma foreign_change:
  assumes "family_change k t t'" "work_key key" "work_key k" "k \<noteq> key"
  shows "filter (in_family key) t' = filter (in_family key) t"
proof -
  have f: "\<not> in_family key q" if "in_family k q" for q
    by (rule foreign_key[OF assms(2-4)]) (use that in_family_keys in blast)
  show ?thesis using assms(1)
  proof cases
    case (stop now)
    then show ?thesis using stop_rows_foreign[of k key] f by simp
  next
    case (new_event q)
    then show ?thesis using f by simp
  qed simp
qed

text \<open>A step that is not about the work leaves its recovery rows alone.\<close>

lemma recovery_step_cases:
  assumes "recovery_step key d d'" "work_key key"
  shows "family_change key (outbox_recoveries d) (outbox_recoveries d') \<or>
    filter (in_family key) (outbox_recoveries d') = filter (in_family key) (outbox_recoveries d)"
  using assms(1)
proof cases
  case (register cx k)
  then show ?thesis using ensure_recovery_recoveries[OF register(1)] foreign_key[OF assms(2) register(2,3)] by auto
qed (use ensure_with_policy_change foreign_change[OF _ assms(2)] in \<open>blast | simp\<close>)+

lemma budget_step:
  assumes "recovery_step key d d'" "work_key key" "count_where (in_family key) (outbox_recoveries d) \<le> max_recovery_events"
  shows "count_where (in_family key) (outbox_recoveries d') \<le> max_recovery_events"
  using recovery_step_cases[OF assms(1,2)]
proof
  assume "family_change key (outbox_recoveries d) (outbox_recoveries d')"
  then show ?thesis
  proof cases
    case (stop now)
    then show ?thesis using assms(3) count_where_update_indep[of _ "in_family key"] by (simp add: in_family_def)
  qed (use assms(3) in simp_all)
qed (use assms(3) in \<open>simp add: count_where_def\<close>)

lemma stopped_rows: "stopped key d \<longleftrightarrow> list_ex (\<lambda>q. rc_stopped_at q \<noteq> None) (filter (in_family key) (outbox_recoveries d))"
  by (auto simp: stopped_def table_simps list_ex_iff)

lemma stopped_step:
  assumes "recovery_step key d d'" "work_key key" "stopped key d"
  shows "filter (in_family key) (outbox_recoveries d') = filter (in_family key) (outbox_recoveries d)"
  using recovery_step_cases[OF assms(1,2)]
proof
  assume "family_change key (outbox_recoveries d) (outbox_recoveries d')"
  then show ?thesis by cases (use assms(3) in \<open>auto simp: stopped_def exists_where_def\<close>)
qed

text \<open>C33: One piece of work gets at most three recovery events, however often the reconciler returns to it
  and whatever else is recovered meanwhile; once its recovery was stopped its recovery rows never change
  again and every later attempt commits nothing.\<close>

theorem recovery_budget_respected:
  assumes "(recovery_step key)\<^sup>*\<^sup>* d0 d" "(recovery_step key)\<^sup>*\<^sup>* d d'" "outbox_recoveries d0 = []" "work_key key"
  shows "count_where (in_family key) (outbox_recoveries d') \<le> max_recovery_events \<and>
    (stopped key d \<longrightarrow> filter (in_family key) (outbox_recoveries d') = filter (in_family key) (outbox_recoveries d) \<and>
       ensure_with_policy r cx key reason rtype rid v et agg av p rd since d' = Inr (False, d'))"
proof -
  have "(recovery_step key)\<^sup>*\<^sup>* d0 d'" using assms(1,2) by (rule rtranclp_trans)
  then have "count_where (in_family key) (outbox_recoveries d') \<le> max_recovery_events"
    by (induction rule: rtranclp_induct) (use assms(3,4) budget_step in auto)
  moreover have "filter (in_family key) (outbox_recoveries d') = filter (in_family key) (outbox_recoveries d)" if "stopped key d"
    using assms(2)
  proof (induction rule: rtranclp_induct)
    case (step x y)
    then have "stopped key x" using that by (simp add: stopped_rows)
    then show ?case using stopped_step[OF step(2) assms(4)] step(3) by simp
  qed simp
  ultimately show ?thesis by (auto simp: ensure_with_policy_def stopped_rows)
qed

section \<open>Repairs leave work waiting\<close>

text \<open>A delivery of work \<open>et\<close> for the aggregate: its event is the aggregate's and its destination is one
  of the event type's routes.\<close>

definition work_delivery :: "string \<Rightarrow> uuid \<Rightarrow> db \<Rightarrow> delivery \<Rightarrow> bool" where
  "work_delivery et agg d q \<longleftrightarrow>
     exists_where (\<lambda>e. ev_id e = dl_event_id q \<and> ev_aggregate_id e = agg) (outbox_events d) \<and>
     (case target_from rabbitmq (dl_destination q) of None \<Rightarrow> False | Some p \<Rightarrow> route_matches (routes et True) p)"

text \<open>A row the dispatcher may claim from \<open>now\<close> on, but for the delay of an object's collection: its deadline, if it
  has one already, and the availability of its event, from which a missing deadline is set, have been reached.\<close>

definition waiting_row :: "time \<Rightarrow> db \<Rightarrow> delivery \<Rightarrow> bool" where
  "waiting_row now d q \<longleftrightarrow> dl_transport q = rabbitmq \<and> dl_status q = DeliveryPending \<and> dl_available_at q \<le> now \<and>
     (case dl_not_before q of None \<Rightarrow> True | Some b \<Rightarrow> b \<le> now) \<and>
     (\<forall>e \<in> set (outbox_events d). ev_id e = dl_event_id q \<longrightarrow> ev_available_at e \<le> now)"

definition work_waiting :: "string \<Rightarrow> uuid \<Rightarrow> time \<Rightarrow> db \<Rightarrow> bool" where
  "work_waiting et agg now d = exists_where (\<lambda>q. waiting_row now d q \<and> work_delivery et agg d q) (outbox_deliveries d)"

text \<open>A row is only published after its deadline.\<close>

definition deadlines_reached :: "time \<Rightarrow> db \<Rightarrow> bool" where
  "deadlines_reached now d \<longleftrightarrow> (\<forall>q \<in> set (outbox_deliveries d). dl_status q = DeliveryPublished \<longrightarrow>
     (case dl_not_before q of None \<Rightarrow> True | Some b \<Rightarrow> b \<le> now))"

definition recovery_keys :: "string \<Rightarrow> db \<Rightarrow> string list" where
  "recovery_keys key d = key # map (\<lambda>e. key @ '':after:'' @ uuid_string (ev_id e)) (outbox_events d)"

text \<open>The name-based identifier of a recovery that was not made yet is not in use.\<close>

definition recovery_ids_fresh :: "ctx \<Rightarrow> string \<Rightarrow> db \<Rightarrow> bool" where
  "recovery_ids_fresh cx key d = list_all (\<lambda>k. exists_where (\<lambda>q. rc_recovery_key q = k) (outbox_recoveries d) \<or>
     (let i = cx_name_uuid cx (''bx-yunpan/recovery/'' @ k) in i \<noteq> 0 \<and>
        \<not> exists_where (\<lambda>e. ev_id e = i) (outbox_events d) \<and> \<not> exists_where (\<lambda>q. dl_event_id q = i) (outbox_deliveries d)))
     (recovery_keys key d)"

text \<open>Replays keep the identities of events and deliveries.\<close>

definition same_identities :: "db \<Rightarrow> db \<Rightarrow> bool" where
  "same_identities d d' \<longleftrightarrow> map (\<lambda>e. (ev_id e, ev_aggregate_id e)) (outbox_events d') = map (\<lambda>e. (ev_id e, ev_aggregate_id e)) (outbox_events d) \<and>
     map delivery_key (outbox_deliveries d') = map delivery_key (outbox_deliveries d)"

lemma same_identities_trans: "same_identities a b \<Longrightarrow> same_identities b c \<Longrightarrow> same_identities a c"
  by (simp add: same_identities_def)

lemma same_identities_event:
  assumes "same_identities d d'"
  shows "exists_where (\<lambda>e. ev_id e = i \<and> ev_aggregate_id e = agg) (outbox_events d') = exists_where (\<lambda>e. ev_id e = i \<and> ev_aggregate_id e = agg) (outbox_events d)"
    "exists_where (\<lambda>e. ev_id e = i) (outbox_events d') = exists_where (\<lambda>e. ev_id e = i) (outbox_events d)"
    "exists_where (\<lambda>q. dl_event_id q = i) (outbox_deliveries d') = exists_where (\<lambda>q. dl_event_id q = i) (outbox_deliveries d)"
    "recovery_keys key d' = recovery_keys key d"
proof -
  have e: "map (\<lambda>e. (ev_id e, ev_aggregate_id e)) (outbox_events d') = map (\<lambda>e. (ev_id e, ev_aggregate_id e)) (outbox_events d)"
    and k: "map delivery_key (outbox_deliveries d') = map delivery_key (outbox_deliveries d)"
    using assms by (simp_all add: same_identities_def)
  have ids: "map ev_id (outbox_events d') = map ev_id (outbox_events d)" using arg_cong[OF e, of "map fst"] by (simp add: comp_def)
  have l: "list_ex P (map f xs) = exists_where (\<lambda>x. P (f x)) xs" for P f and xs :: "'x list" by (simp add: exists_where_def list_ex_iff)
  show "exists_where (\<lambda>e. ev_id e = i \<and> ev_aggregate_id e = agg) (outbox_events d') = exists_where (\<lambda>e. ev_id e = i \<and> ev_aggregate_id e = agg) (outbox_events d)"
    using arg_cong[OF e, of "list_ex (\<lambda>(a, b). a = i \<and> b = agg)"] by (simp add: l)
  show "exists_where (\<lambda>e. ev_id e = i) (outbox_events d') = exists_where (\<lambda>e. ev_id e = i) (outbox_events d)"
    using arg_cong[OF ids, of "list_ex (\<lambda>a. a = i)"] by (simp add: l)
  show "exists_where (\<lambda>q. dl_event_id q = i) (outbox_deliveries d') = exists_where (\<lambda>q. dl_event_id q = i) (outbox_deliveries d)"
    using arg_cong[OF k, of "list_ex (\<lambda>(a, b). a = i)"] by (simp add: l delivery_key_def)
  show "recovery_keys key d' = recovery_keys key d"
    using arg_cong[OF ids, of "map (\<lambda>a. key @ '':after:'' @ uuid_string a)"] by (simp add: recovery_keys_def comp_def)
qed

lemma recover_published_waiting:
  assumes "recover_published now stale r d = Inr (a, b, c, d')"
  shows "same_identities d d'" "work_waiting et agg now d \<Longrightarrow> work_waiting et agg now d'"
    "deadlines_reached now d \<Longrightarrow> deadlines_reached now d'"
    "b \<Longrightarrow> work_delivery et agg d r \<Longrightarrow> dl_transport r = rabbitmq \<Longrightarrow> deadlines_reached now d \<Longrightarrow> work_waiting et agg now d'"
proof -
  let ?P = "\<lambda>q. delivery_key q = delivery_key r \<and> dl_status q = DeliveryPublished"
  define x where "x = execution_of (delivery_task_id r) d"
  have kept: "delivery_key (replayed now x q) = delivery_key q" for q by simp
  have cases: "d' = d \<and> \<not> b \<or> outbox_deliveries d' = update_where ?P (replayed now x) (outbox_deliveries d) \<and>
      outbox_events d' = update_where (\<lambda>e. ev_id e = dl_event_id r) (\<lambda>e. e\<lparr>ev_status := DeliveryPending, ev_available_at := now\<rparr>) (outbox_events d) \<and>
      count_where ?P (outbox_deliveries d) = 1"
    using assms by (auto simp: recover_published_def Let_def x_def split: option.splits if_splits)
  then show same: "same_identities d d'" by (auto simp: same_identities_def map_update_where)
  have wd: "work_delivery et agg d' q = work_delivery et agg d q" for q
    unfolding work_delivery_def same_identities_event(1)[OF same] ..
  have row: "waiting_row now d' q" if "waiting_row now d q" for q
    using cases that by (auto simp: waiting_row_def in_set_update_where)
  have stay: "q \<in> set (outbox_deliveries d')" if "q \<in> set (outbox_deliveries d)" "waiting_row now d q" for q
    using cases that by (auto simp: in_set_update_where waiting_row_def)
  show "work_waiting et agg now d \<Longrightarrow> work_waiting et agg now d'" using stay wd row by (auto simp: work_waiting_def table_simps)
  show "deadlines_reached now d \<Longrightarrow> deadlines_reached now d'" using cases by (auto simp: deadlines_reached_def in_set_update_where)
  assume w: "b" "work_delivery et agg d r" "dl_transport r = rabbitmq" "deadlines_reached now d"
  then have u: "outbox_deliveries d' = update_where ?P (replayed now x) (outbox_deliveries d)" "0 < count_where ?P (outbox_deliveries d)"
      "outbox_events d' = update_where (\<lambda>e. ev_id e = dl_event_id r) (\<lambda>e. e\<lparr>ev_status := DeliveryPending, ev_available_at := now\<rparr>) (outbox_events d)"
    using cases by auto
  obtain q where q: "q \<in> set (outbox_deliveries d)" "delivery_key q = delivery_key r" "?P q"
    using u(2) unfolding count_where_pos_iff by blast
  have "replayed now x q \<in> set (outbox_deliveries d')" using q u(1) by (auto simp: in_set_update_where)
  moreover have "work_delivery et agg d (replayed now x q)"
    using w(2) q(2) kept[of q] by (simp add: work_delivery_def delivery_key_def)
  moreover have "waiting_row now d' (replayed now x q)"
  proof -
    have f: "dl_status (replayed now x q) = DeliveryPending" "dl_available_at (replayed now x q) = now"
      "dl_not_before (replayed now x q) = dl_not_before q"
      by (simp_all add: replayed_def Let_def split: option.split)
    have k: "dl_transport (replayed now x q) = rabbitmq" "dl_event_id (replayed now x q) = dl_event_id r"
      using kept[of q] q(2) w(3) by (simp_all add: delivery_key_def)
    have b: "case dl_not_before q of None \<Rightarrow> True | Some b \<Rightarrow> b \<le> now" using w(4) q by (simp add: deadlines_reached_def)
    have "\<forall>e \<in> set (outbox_events d'). ev_id e = dl_event_id r \<longrightarrow> ev_available_at e \<le> now"
      unfolding u(3) by (auto simp: in_set_update_where)
    then show ?thesis using f k b by (simp add: waiting_row_def)
  qed
  ultimately show "work_waiting et agg now d'" using wd unfolding work_waiting_def table_simps by blast
qed

lemma recover_rows_waiting:
  assumes "recover_rows (routes et True) now stale rt rs (a, b, c, d) = Inr (a', b', c', d')"
    "\<forall>r \<in> set rs. exists_where (\<lambda>e. ev_id e = dl_event_id r \<and> ev_aggregate_id e = agg) (outbox_events d)"
  shows "same_identities d d' \<and> (deadlines_reached now d \<longrightarrow> (b \<longrightarrow> work_waiting et agg now d) \<longrightarrow> b' \<longrightarrow> work_waiting et agg now d')"
  using assms
proof (induction rs arbitrary: a b c d)
  case Nil
  then show ?case by (simp add: same_identities_def)
next
  case (Cons r rs)
  consider a1 where "recover_rows (routes et True) now stale rt rs (a1, b, c, d) = Inr (a', b', c', d')"
    | p live replay dead d1 a1 where "dl_transport r = rabbitmq" "target_from rabbitmq (dl_destination r) = Some p" "route_matches (routes et True) p"
      "recover_published now stale r d = Inr (live, replay, dead, d1)"
      "recover_rows (routes et True) now stale rt rs (a1, b \<or> replay, dead, d1) = Inr (a', b', c', d')"
    using Cons.prems(1) by (auto simp: attempt_eq_Inr_iff split: option.splits if_splits)
  then show ?case
  proof cases
    case 1
    show ?thesis by (rule Cons.IH[OF 1]) (use Cons.prems(2) in simp)
  next
    case 2
    note w = recover_published_waiting[OF 2(4)]
    have "work_delivery et agg d r" using 2(2,3) Cons.prems(2) by (simp add: work_delivery_def)
    then have b: "deadlines_reached now d \<longrightarrow> (b \<longrightarrow> work_waiting et agg now d) \<longrightarrow> b \<or> replay \<longrightarrow> work_waiting et agg now d1"
      using w 2(1) by blast
    have "same_identities d1 d' \<and> (deadlines_reached now d1 \<longrightarrow> (b \<or> replay \<longrightarrow> work_waiting et agg now d1) \<longrightarrow> b' \<longrightarrow> work_waiting et agg now d')"
      by (rule Cons.IH[OF 2(5)]) (use Cons.prems(2) same_identities_event(1)[OF w(1)] in simp)
    then show ?thesis using b w(3) same_identities_trans[OF w(1)] by blast
  qed
qed

lemma recover_work_waiting:
  assumes "recover_work r et agg rd since now d = Inr (a, b, c, d')"
  shows "same_identities d d'" "b \<Longrightarrow> deadlines_reached now d \<Longrightarrow> work_waiting et agg now d'" "et \<noteq> [] \<and> agg \<noteq> 0"
proof -
  obtain rt s c' where "recover_delivery_with et agg now (rx_stale_after r) rt s d = Inr (a, b, c', d')"
    using recover_work_with[OF assms] by blast
  then have r: "recover_rows (routes et True) now (rx_stale_after r) rt (aggregate_rows agg s d) (False, False, False, d) = Inr (a, b, c', d')"
    and v: "et \<noteq> [] \<and> agg \<noteq> 0" by (auto simp: recover_delivery_with_def split: if_splits)
  have "\<forall>q \<in> set (aggregate_rows agg s d). exists_where (\<lambda>e. ev_id e = dl_event_id q \<and> ev_aggregate_id e = agg) (outbox_events d)"
    by (auto simp: aggregate_rows_def table_simps)
  from recover_rows_waiting[OF r this] show "same_identities d d'" "b \<Longrightarrow> deadlines_reached now d \<Longrightarrow> work_waiting et agg now d'" by auto
  show "et \<noteq> [] \<and> agg \<noteq> 0" by (rule v)
qed

lemma added_delivery:
  "r \<in> set (fold (add_delivery now i) ts rows) \<Longrightarrow> r \<in> set rows \<or> (\<exists>t \<in> set ts. r = new_delivery now i t)"
proof (induction ts arbitrary: rows)
  case (Cons t ts)
  then have "r \<in> set (add_delivery now i t rows) \<or> (\<exists>t \<in> set ts. r = new_delivery now i t)" by simp
  then show ?case by (auto simp: add_delivery_def split: if_splits)
qed simp

lemma routed_event_trimmed: "routes et True \<noteq> [] \<Longrightarrow> trim_str et = et"
  by (auto simp: routes_def trim_func_fixed ascii_space_def split: if_splits)

text \<open>A new event is waiting on the destinations of its type.\<close>

lemma ensure_recovery_waiting:
  assumes "ensure_recovery cx key reason rtype rid v (typed_input et agg av producer p) d = Inr (True, d')" "routes et True \<noteq> []"
    "\<not> exists_where (\<lambda>e. ev_id e = i) (outbox_events d)" "\<not> exists_where (\<lambda>q. dl_event_id q = i) (outbox_deliveries d)"
    "i = cx_name_uuid cx (''bx-yunpan/recovery/'' @ key)" "i \<noteq> 0"
  shows "work_waiting et agg (cx_now cx) d'"
proof -
  let ?now = "cx_now cx"
  obtain e where e: "new_envelope (cx_mint cx 0) ?now ((typed_input et agg av producer p)\<lparr>in_event_id := i\<rparr>) = Inr e"
    and d': "outbox_events d' = outbox_events (add_deliveries_with_search ?now (en_event_id e) (en_event_type e) True False
        (case insert_event (event_of_envelope ?now (e\<lparr>en_trace := None\<rparr>)) d of Inl _ \<Rightarrow> d | Inr d1 \<Rightarrow> d1))"
      "outbox_deliveries d' = outbox_deliveries (add_deliveries_with_search ?now (en_event_id e) (en_event_type e) True False
        (case insert_event (event_of_envelope ?now (e\<lparr>en_trace := None\<rparr>)) d of Inl _ \<Rightarrow> d | Inr d1 \<Rightarrow> d1))"
    using assms(1,5) by (auto simp: ensure_recovery_def Let_def attempt_eq_Inr_iff split: if_splits)
  have f: "en_event_id e = i" "en_event_type e = et" "en_aggregate_id e = agg"
    using e assms(6) routed_event_trimmed[OF assms(2)] by (auto simp: new_envelope_def typed_input_def Let_def split: option.splits)
  have ins: "insert_event (event_of_envelope ?now (e\<lparr>en_trace := None\<rparr>)) d = Inr (d\<lparr>outbox_events := outbox_events d @ [event_of_envelope ?now (e\<lparr>en_trace := None\<rparr>)]\<rparr>)"
    using assms(3) f(1) by (simp add: insert_event_def event_of_envelope_def)
  let ?rows = "fold (add_delivery ?now i) (routes et True @ search_routes et False) (outbox_deliveries d)"
  have rows: "outbox_deliveries d' = ?rows" and ev: "outbox_events d' = outbox_events d @ [event_of_envelope ?now (e\<lparr>en_trace := None\<rparr>)]"
    using d' ins f by (simp_all add: add_deliveries_with_search_def)
  obtain t where t: "t \<in> set (routes et True)" using assms(2) by (cases "routes et True") auto
  have "covered i t ?rows" by (rule fold_add_delivery_covers[where ai = True and search = False]) (use t in auto)
  then obtain q where q: "q \<in> set ?rows" "dl_event_id q = i" by (auto simp: covered_def table_simps)
  then obtain u where u: "u \<in> set (routes et True @ search_routes et False)" "q = new_delivery ?now i u"
    using added_delivery[OF q(1)] assms(4) by (auto simp: table_simps)
  then have u': "u \<in> set (routes et True)" by (simp add: search_routes_def)
  have "route_matches (routes et True) u" using u' by (auto simp: route_matches_def list_ex_iff)
  then have "work_delivery et agg d' q"
    using route_parses(1)[OF u(1)] ev f u(2) by (simp add: work_delivery_def new_delivery_def table_simps event_of_envelope_def)
  moreover have "waiting_row ?now d' q"
    using u(2) route_parses(2)[OF u(1)] assms(3) f(1)
    by (auto simp: waiting_row_def new_delivery_def ev event_of_envelope_def table_simps)
  ultimately show ?thesis using q(1) unfolding work_waiting_def exists_where_iff rows by blast
qed

lemma previous_event_in: "previous_event et agg since d = Some e \<Longrightarrow> e \<in> set (outbox_events d) \<and> ev_aggregate_id e = agg \<and> ev_event_type e = et"
proof -
  assume a: "previous_event et agg since d = Some e"
  define es where "es = sort_key ev_published_at (sort_key ev_created_at (sort_key ev_id
        (filter (\<lambda>e. ev_event_type e = et \<and> ev_aggregate_id e = agg \<and> ev_status e = DeliveryPublished \<and>
           (case since of None \<Rightarrow> True | Some t \<Rightarrow> t = zero_time \<or> t \<le> ev_created_at e)) (outbox_events d))))"
  have "es \<noteq> []" "e = last es" using a unfolding previous_event_def es_def[symmetric] Let_def by (auto split: if_splits)
  then have "e \<in> set es" by simp
  then show ?thesis by (simp add: es_def)
qed

text \<open>From when on the dispatcher claims a delivery: at once, but the collection of an object keeps its delay after
  the event.\<close>

definition due_time :: "time \<Rightarrow> time \<Rightarrow> db \<Rightarrow> delivery \<Rightarrow> time" where
  "due_time gc now d q =
     (if gc_destination (dl_destination q)
      then (case event_by_id (dl_event_id q) d of None \<Rightarrow> now | Some e \<Rightarrow> max now (ev_created_at e + gc div millisecond * millisecond))
      else now)"

lemma waiting_row_claimable:
  assumes "waiting_row now d q" "work_delivery et agg d q" "due_time gc now d q \<le> t"
  shows "claimable_delivery t (pinned gc d q)"
proof -
  obtain e0 where "e0 \<in> set (outbox_events d)" "ev_id e0 = dl_event_id q" using assms(2) by (auto simp: work_delivery_def table_simps)
  then obtain e where e: "event_by_id (dl_event_id q) d = Some e" by (cases "event_by_id (dl_event_id q) d") (auto simp: event_by_id_def find_None_iff)
  then have "e \<in> set (outbox_events d) \<and> ev_id e = dl_event_id q" unfolding event_by_id_def by (blast dest: find_SomeD)
  then have "ev_available_at e \<le> now" using assms(1) by (simp add: waiting_row_def)
  moreover have "now \<le> t" using assms(3) e by (auto simp: due_time_def split: if_splits)
  ultimately show ?thesis using assms(1,3) e
    by (auto simp: waiting_row_def due_time_def claimable_delivery_def pinned_def split: option.splits if_splits)
qed

text \<open>C34: Whenever the reconciler reports a repair, a delivery of the missing work is ready for the dispatcher: either
  a lost task was put back on its own identity or a new event of the work waits on one of the destinations of
  its type.  Once the dispatcher has pinned its deadline the row is claimable, status, availability and deadline
  included, at every time from the repair on; only the collection of an object is not due before its event's
  creation plus the collection delay.  (The rows published so far were published after their deadline.)\<close>

theorem repair_leaves_due_delivery:
  assumes "ensure_with_policy r cx key reason rtype rid v et agg av p rd since d = Inr (True, d')"
    "routes et True \<noteq> []" "recovery_ids_fresh cx key d" "deadlines_reached (cx_now cx) d"
  shows "\<exists>q \<in> set (outbox_deliveries d'). work_delivery et agg d' q \<and> dl_status q = DeliveryPending \<and>
    (\<forall>gc t. due_time gc (cx_now cx) d' q \<le> t \<longrightarrow> claimable_delivery t (pinned gc d' q))"
proof -
  let ?now = "cx_now cx"
  obtain a b td d1 where ns: "\<not> stopped key d" and w: "recover_work r et agg rd since ?now d = Inr (a, b, td, d1)"
    using assms(1) by (cases "stopped key d") (auto simp: ensure_with_policy_def Let_def attempt_eq_Inr_iff)
  note ww = recover_work_waiting[OF w] and same = recover_work_recoveries[OF w]
  have new: "work_waiting et agg ?now d'" if e: "ensure_recovery cx k reason rtype rid v' (typed_input et agg av producer p') d1 = Inr (True, d')"
    "k \<in> set (recovery_keys key d1)" for k v' p' producer
  proof -
    let ?i = "cx_name_uuid cx (''bx-yunpan/recovery/'' @ k)"
    have "\<not> exists_where (\<lambda>q. rc_recovery_key q = k) (outbox_recoveries d)"
      using e(1) same by (auto simp: ensure_recovery_def Let_def attempt_eq_Inr_iff split: if_splits)
    then have "?i \<noteq> 0 \<and> \<not> exists_where (\<lambda>e. ev_id e = ?i) (outbox_events d1) \<and> \<not> exists_where (\<lambda>q. dl_event_id q = ?i) (outbox_deliveries d1)"
      using assms(3) e(2) unfolding recovery_ids_fresh_def list_all_iff same_identities_event(2-4)[OF ww(1)] Let_def by blast
    then show ?thesis using ensure_recovery_waiting[OF e(1) assms(2), of ?i] by simp
  qed
  consider "b" "d' = d1" | k v' p' where "ensure_recovery cx k reason rtype rid v' (typed_input et agg av recovery_producer p') d1 = Inr (True, d')"
      "k \<in> set (recovery_keys key d1)"
    using assms(1) ns w previous_event_in[of et agg since d1]
    by (auto simp: ensure_with_policy_def Let_def recovery_keys_def split: if_splits option.splits)
  then have "work_waiting et agg ?now d'" by cases (use ww(2) new assms(4) in auto)
  then obtain q where q: "q \<in> set (outbox_deliveries d')" "waiting_row ?now d' q" "work_delivery et agg d' q"
    by (auto simp: work_waiting_def table_simps)
  then show ?thesis using waiting_row_claimable by (intro bexI[of _ q]) (auto simp: waiting_row_def)
qed

section \<open>A run\<close>

text \<open>Each transaction of the reconciler is a recovery scan of the outbox, so everything that holds along
  outbox steps holds across it.\<close>

lemma ensure_with_policy_outbox:
  assumes "ensure_with_policy r cx key reason rtype rid v et agg av p rd since d = Inr (c, d')"
    "recovery_ids_fresh cx key d" "\<forall>e \<in> set (outbox_events d). ev_id e \<noteq> cx_mint cx 0"
  shows "outbox_step\<^sup>*\<^sup>* d d'"
proof (cases "stopped key d")
  case False
  obtain a b td d1 where w: "recover_work r et agg rd since (cx_now cx) d = Inr (a, b, td, d1)"
    using assms(1) False by (auto simp: ensure_with_policy_def Let_def attempt_eq_Inr_iff)
  note ww = recover_work_waiting[OF w] and same = recover_work_recoveries[OF w]
  have first: "outbox_step d d1" using recover_work_with[OF w] outbox_step.replay by blast
  have event: "outbox_step d1 d'" if e: "ensure_recovery cx k reason rtype rid v' i d1 = Inr (c, d')" "k \<in> set (recovery_keys key d1)" for k v' i
  proof (cases "exists_where (\<lambda>q. rc_recovery_key q = k) (outbox_recoveries d)")
    case True
    then have "d' = d1" using e(1) same by (auto simp: ensure_recovery_def Let_def attempt_eq_Inr_iff split: if_splits)
    then show ?thesis by (simp add: outbox_step.other)
  next
    case False
    then have "\<not> exists_where (\<lambda>e. ev_id e = cx_name_uuid cx (''bx-yunpan/recovery/'' @ k)) (outbox_events d1)"
      using assms(2) e(2) unfolding recovery_ids_fresh_def list_all_iff same_identities_event(2-4)[OF ww(1)] Let_def by blast
    moreover have "\<not> exists_where (\<lambda>e. ev_id e = cx_mint cx 0) (outbox_events d1)"
      using assms(3) unfolding same_identities_event(2)[OF ww(1)] by (simp add: table_simps)
    ultimately show ?thesis by (intro outbox_step.recovery[OF e(1)]) (auto simp: table_simps)
  qed
  have stop: "outbox_step d1 (stop_recovery key rd agg (cx_now cx) d1)"
    by (rule outbox_step.other) (auto simp: stop_recovery_def stop_family_def split: option.split)
  consider "d' = d1" | "d' = stop_recovery key rd agg (cx_now cx) d1"
    | k v' i where "ensure_recovery cx k reason rtype rid v' i d1 = Inr (c, d')" "k \<in> set (recovery_keys key d1)"
    using assms(1) False w previous_event_in[of et agg since d1]
    by (auto simp: ensure_with_policy_def Let_def recovery_keys_def split: if_splits option.splits)
  then have "outbox_step\<^sup>*\<^sup>* d1 d'" by cases (use event stop in blast)+
  then show ?thesis by (rule converse_rtranclp_into_rtranclp[of outbox_step, OF first])
qed (use assms(1) in \<open>simp add: ensure_with_policy_def\<close>)

text \<open>A scan looks at no more rows than its slot and repairs no more than it looks at.\<close>

definition report_ok :: "report \<Rightarrow> nat \<Rightarrow> bool" where
  "report_ok rp n \<longleftrightarrow> rp_scanned rp \<le> n \<and> rp_repaired rp \<le> rp_scanned rp"

lemma repair_rows_report:
  "repair_rows f key kind k rows (rp, e, d) = (rp', e', d') \<Longrightarrow>
     rp_scanned rp' = rp_scanned rp \<and> rp_repaired rp' \<le> rp_repaired rp + length rows"
proof (induction rows arbitrary: k rp e d)
  case (Cons row rows)
  obtain rp1 e1 d1 where s: "repair_rows f key kind (Suc k) rows (rp1, e1, d1) = (rp', e', d')"
    "rp_scanned rp1 = rp_scanned rp" "rp_repaired rp1 \<le> rp_repaired rp + 1"
    using Cons.prems by (cases "f k row d") (auto split: if_splits)
  then show ?case using Cons.IH[OF s(1)] by simp
qed simp

lemma scan_page_length: "scan_page key kind limit rows cs = (page, cs') \<Longrightarrow> length page \<le> limit"
  by (auto simp: scan_page_def candidates_after_def Let_def)

lemma scan_report:
  assumes "scan key kind label rows f limit (rp, t) = (e, rp', t')" "report_ok rp n"
  shows "report_ok rp' (n + limit)"
proof -
  obtain cs d where t: "t = (cs, d)" by (cases t)
  obtain page cs' where p: "scan_page key kind limit rows cs = (page, cs')" by (cases "scan_page key kind limit rows cs")
  obtain d' where "repair_rows f key label 0 page (rp\<lparr>rp_scanned := rp_scanned rp + length page\<rparr>, None, d) = (rp', e, d')"
    using assms(1) t p by (auto simp: scan_def split: prod.splits)
  from repair_rows_report[OF this] show ?thesis using scan_page_length[OF p] assms(2) by (simp add: report_ok_def)
qed

lemma scans_report:
  assumes "(scans r ! (i mod 6)) cxs limit (rp, t) = (e, rp', t')" "report_ok rp n"
  shows "report_ok rp' (n + limit)"
proof -
  have "report_ok rp (n + limit)" using assms(2) by (simp add: report_ok_def)
  moreover have "scans r ! (i mod 6) \<in> set (scans r)" by (rule nth_mem) (simp add: scans_def)
  ultimately show ?thesis using assms
    unfolding scans_def list.set insert_iff empty_iff
    by (elim disjE; simp only: recover_verifying_uploads_def recover_media_def recover_ai_def recover_reprocess_tasks_def
        recover_garbage_collection_def recover_storage_operations_def if_split_eq1 split: if_splits)
      (blast intro: scan_report | simp)+
qed

lemma run_slots_report:
  "run_slots r cxs start limit offset n (e, rp, t) = (e', rp', t') \<Longrightarrow> report_ok rp m \<Longrightarrow>
     report_ok rp' (m + (\<Sum>i = offset..<offset + n. slot_size limit i))"
proof (induction n arbitrary: offset e rp t m)
  case (Suc n)
  show ?case
  proof (cases "slot_size limit offset = 0")
    case True
    then show ?thesis using Suc.prems by (simp add: report_ok_def)
  next
    case False
    obtain e1 rp1 t1 where s: "(scans r ! ((start + offset) mod 6)) (cxs (Suc offset)) (slot_size limit offset) (rp, t) = (e1, rp1, t1)"
      by (metis prod_cases3)
    have "run_slots r cxs start limit (Suc offset) n (join_errors e e1, rp1, t1) = (e', rp', t')" using Suc.prems(1) False s by simp
    note last = Suc.IH[OF this scans_report[OF s Suc.prems(2)]]
    have "(\<Sum>i = offset..<offset + Suc n. slot_size limit i) =
        slot_size limit offset + (\<Sum>i = Suc offset..<Suc offset + n. slot_size limit i)"
      by (subst sum.atLeast_Suc_lessThan) simp_all
    then show ?thesis using last by (simp only: add.assoc)
  qed
qed simp

lemma slots_exhaust_limit: "(\<Sum>i = 0..<6. slot_size limit i) = limit"
proof -
  have "limit mod 6 = 0 \<or> limit mod 6 = 1 \<or> limit mod 6 = 2 \<or> limit mod 6 = 3 \<or> limit mod 6 = 4 \<or> limit mod 6 = 5" by linarith
  moreover have "(\<Sum>i = 0..<6. f i) = f 0 + f 1 + f 2 + f 3 + f 4 + f 5" for f :: "nat \<Rightarrow> nat"
    by (simp add: eval_nat_numeral)
  ultimately have "(\<Sum>i = 0..<6. slot_size limit i) = 6 * (limit div 6) + limit mod 6"
    by (elim disjE) (simp_all only: slot_size_def, simp_all)
  then show ?thesis by simp
qed

text \<open>A run looks at no more than \<open>limit\<close> pieces of work.\<close>

lemma run_once_within_limit:
  assumes "run_once r cxs limit (n, cs, d) = (err, rp, n', cs', d')"
  shows "rp_scanned rp \<le> nat limit \<and> rp_repaired rp \<le> rp_scanned rp"
proof (cases "limit \<le> 0")
  case True
  then show ?thesis using assms by (auto simp: run_once_def empty_report_def)
next
  case False
  obtain d1 where "run_slots r cxs (n mod 6) (nat limit) 0 6 (None, empty_report, cs, d1) = (err, rp, cs', d')"
    using assms False by (auto simp: run_once_def Let_def split: prod.splits)
  from run_slots_report[OF this, of 0] show ?thesis
    using slots_exhaust_limit[of "nat limit"] by (simp add: report_ok_def empty_report_def)
qed

text \<open>Six runs in a row start with each class of work once.\<close>

lemma run_once_rotates:
  assumes "run_once r cxs limit (n, cs, d) = (err, rp, n', cs', d')" "0 < limit"
  shows "n' = (n + 1) mod 6"
  using assms by (auto simp: run_once_def Let_def mod_Suc split: prod.splits)


section \<open>Witnesses\<close>

definition demo_reconciler :: reconciler where "demo_reconciler = new_reconciler False (\<lambda>_. 0) (\<lambda>s. s)"

definition demo_hash :: "string \<Rightarrow> uuid" where
  "demo_hash s = of_nat (of_char (last s) + length s)"

definition demo_recovery_ctx :: "time \<Rightarrow> ctx" where
  "demo_recovery_ctx t = \<lparr> cx_now = t, cx_v2_events = True, cx_search_enabled = False, cx_trace = None,
     cx_mint = (\<lambda>k. 1), cx_name_uuid = demo_hash \<rparr>"

definition demo_ensure :: "time \<Rightarrow> db \<Rightarrow> (bool \<times> db) result" where
  "demo_ensure t d = ensure demo_reconciler (demo_recovery_ctx t) ''k'' ''broker_task_missing'' ''upload_session''
     9 1 event_object_verify_requested (ObjectVerifyRequestedV1 9) d"

text \<open>The task is published, fails for good and the broker forgets it.\<close>

definition demo_lose :: "time \<Rightarrow> db \<Rightarrow> db" where
  "demo_lose t d = d\<lparr>outbox_deliveries := [],
     outbox_events := map (\<lambda>e. e\<lparr>ev_status := DeliveryPublished, ev_published_at := Some t\<rparr>) (outbox_events d)\<rparr>"

definition demo_round :: "time \<Rightarrow> db \<Rightarrow> db" where
  "demo_round t d = (case demo_ensure t d of Inl _ \<Rightarrow> d | Inr (_, d') \<Rightarrow> demo_lose t d')"

definition demo_stopped :: db where
  "demo_stopped = fold demo_round [20 * minute, 40 * minute, 60 * minute, 80 * minute] empty_db"

lemma demo_round_steps: "(recovery_step ''k'')\<^sup>*\<^sup>* d (demo_round t d)"
proof (cases "demo_ensure t d")
  case (Inr a)
  then obtain c d1 where e: "demo_ensure t d = Inr (c, d1)" by (cases a) simp
  have "recovery_step ''k'' d d1"
    by (rule recovery_step.this_work[OF e[unfolded demo_ensure_def ensure_def]])
  moreover have "recovery_step ''k'' d1 (demo_lose t d1)"
    by (rule recovery_step.elsewhere) (simp add: demo_lose_def)
  ultimately show ?thesis using e by (simp add: demo_round_def)
qed (simp add: demo_round_def)

lemma demo_stopped_facts: "stopped ''k'' demo_stopped \<and>
  length (outbox_recoveries demo_stopped) = 3 \<and> list_all (\<lambda>q. rc_stopped_at q = Some (80 * minute)) (outbox_recoveries demo_stopped)"
  by code_simp

theorem recovery_budget_respected_witness:
  "stopped ''k'' demo_stopped \<and>
   count_where (in_family ''k'') (outbox_recoveries demo_stopped) \<le> max_recovery_events \<and>
   demo_ensure (100 * minute) demo_stopped = Inr (False, demo_stopped)"
proof -
  let ?k = "''k''"
  have s: "(recovery_step ?k)\<^sup>*\<^sup>* empty_db demo_stopped"
    unfolding demo_stopped_def fold.simps comp_apply id_apply by (meson demo_round_steps rtranclp_trans)
  have k: "work_key ?k" by (rule work_key_plain) simp
  have e: "outbox_recoveries empty_db = []" by (simp add: empty_db_def)
  have st: "stopped ?k demo_stopped" using demo_stopped_facts by (rule conjunct1)
  note r = recovery_budget_respected[OF s rtranclp.rtrancl_refl e k, of demo_reconciler "demo_recovery_ctx (100 * minute)"
      "''broker_task_missing''" "''upload_session''" 9 1 event_object_verify_requested 9 1 "ObjectVerifyRequestedV1 9" False None]
  show ?thesis unfolding demo_ensure_def ensure_def by (intro conjI st conjunct1[OF r] conjunct2[OF mp[OF conjunct2[OF r] st]])
qed

lemma demo_first: "(case demo_ensure (20 * minute) empty_db of Inl _ \<Rightarrow> False | Inr (c, d) \<Rightarrow> c)"
  by code_simp

lemma demo_fresh: "recovery_ids_fresh (demo_recovery_ctx (20 * minute)) ''k'' empty_db"
proof -
  have "demo_hash (''bx-yunpan/recovery/'' @ ''k'') = 127" by code_simp
  then show ?thesis by (simp add: recovery_ids_fresh_def recovery_keys_def empty_db_def demo_recovery_ctx_def table_simps)
qed

theorem repair_leaves_due_delivery_witness:
  "case demo_ensure (20 * minute) empty_db of Inl _ \<Rightarrow> False
   | Inr (c, d) \<Rightarrow> c \<and> (\<exists>q \<in> set (outbox_deliveries d). work_delivery event_object_verify_requested 9 d q \<and> dl_status q = DeliveryPending \<and>
       (\<forall>gc t. due_time gc (20 * minute) d q \<le> t \<longrightarrow> claimable_delivery t (pinned gc d q)))"
proof -
  obtain d where d: "demo_ensure (20 * minute) empty_db = Inr (True, d)" using demo_first by (cases "demo_ensure (20 * minute) empty_db") auto
  have r: "routes event_object_verify_requested True \<noteq> []" by (simp add: routes_def)
  have n: "cx_now (demo_recovery_ctx (20 * minute)) = 20 * minute" by (simp add: demo_recovery_ctx_def)
  have reached: "deadlines_reached (cx_now (demo_recovery_ctx (20 * minute))) empty_db" by (simp add: deadlines_reached_def empty_db_def)
  show ?thesis using repair_leaves_due_delivery[OF d[unfolded demo_ensure_def ensure_def] r demo_fresh reached] d n by simp
qed

end
