(* ===== verification/Scheduler.thy ===== *)
theory Scheduler
  imports Main "HOL-Library.Multiset" "HOL-Library.Char_ord" "HOL-Library.List_Lexorder"
begin

text \<open>
  The delivery scheduler of the consumer (\<open>taskqueue/scheduler.go\<close>): smooth weighted round robin over
  the queues that have messages.  The mutex makes \<open>put\<close> and each attempt of \<open>take\<close> one step; a consumer
  that finds every queue empty waits (\<open>None\<close>).  Credits are Go \<open>int\<close>s; they stay below the number of
  queues times the sum of the weights, so the wrap-around is not modelled.
\<close>

record 'a weighted_queue =
  wq_name :: string
  wq_weight :: int
  wq_current :: int
  wq_pending :: "'a list"

definition new_delivery_scheduler :: "(string \<times> int) list \<Rightarrow> 'a weighted_queue list" where
  "new_delivery_scheduler weights =
     map (\<lambda>(q, w). \<lparr> wq_name = q, wq_weight = (if w \<le> 0 then 1 else w), wq_current = 0, wq_pending = [] \<rparr>)
       (sort_key fst weights)"

fun put_delivery :: "string \<Rightarrow> 'a \<Rightarrow> 'a weighted_queue list \<Rightarrow> 'a weighted_queue list" where
  "put_delivery q d [] = []"
| "put_delivery q d (s # ss) =
     (if wq_name s = q then s\<lparr>wq_pending := wq_pending s @ [d]\<rparr> # ss else s # put_delivery q d ss)"

definition credited :: "'a weighted_queue \<Rightarrow> 'a weighted_queue" where
  "credited q = (if wq_pending q = [] then q\<lparr>wq_current := 0\<rparr> else q\<lparr>wq_current := wq_current q + wq_weight q\<rparr>)"

text \<open>The first runnable queue with the largest credit.\<close>

primrec select_queue :: "nat \<Rightarrow> (nat \<times> int) option \<Rightarrow> 'a weighted_queue list \<Rightarrow> (nat \<times> int) option" where
  "select_queue i best [] = best"
| "select_queue i best (q # qs) = select_queue (Suc i)
     (if wq_pending q = [] then best
      else case best of None \<Rightarrow> Some (i, wq_current q)
         | Some (j, c) \<Rightarrow> if c < wq_current q then Some (i, wq_current q) else Some (j, c)) qs"

definition runnable_weight :: "'a weighted_queue list \<Rightarrow> int" where
  "runnable_weight qs = sum_list (map wq_weight (filter (\<lambda>q. wq_pending q \<noteq> []) qs))"

definition take_delivery :: "'a weighted_queue list \<Rightarrow> ((string \<times> 'a) \<times> 'a weighted_queue list) option" where
  "take_delivery qs =
     (let cs = map credited qs in
      case select_queue 0 None cs of
        None \<Rightarrow> None
      | Some (i, _) \<Rightarrow>
          (let q = cs ! i in
           Some ((wq_name q, hd (wq_pending q)),
                 cs[i := q\<lparr>wq_current := wq_current q - runnable_weight cs, wq_pending := tl (wq_pending q)\<rparr>])))"

text \<open>Several takes in a row, up to the first that would wait.\<close>

primrec take_deliveries :: "nat \<Rightarrow> 'a weighted_queue list \<Rightarrow> (string \<times> 'a) list \<times> 'a weighted_queue list" where
  "take_deliveries 0 qs = ([], qs)"
| "take_deliveries (Suc n) qs = (case take_delivery qs of
      None \<Rightarrow> ([], qs)
    | Some (x, qs') \<Rightarrow> (case take_deliveries n qs' of (xs, qs'') \<Rightarrow> (x # xs, qs'')))"

section \<open>Selection\<close>

lemma select_queue_None: "select_queue i best qs = None \<longleftrightarrow> best = None \<and> (\<forall>q \<in> set qs. wq_pending q = [])"
  by (induction qs arbitrary: i best) (auto split: option.splits if_splits)

lemma select_queue_max:
  "select_queue i best qs = Some (j, c) \<Longrightarrow>
     (\<forall>q \<in> set qs. wq_pending q \<noteq> [] \<longrightarrow> wq_current q \<le> c) \<and> (\<forall>k b. best = Some (k, b) \<longrightarrow> b \<le> c) \<and>
     (best = Some (j, c) \<or> (i \<le> j \<and> j - i < length qs \<and> wq_pending (qs ! (j - i)) \<noteq> [] \<and> wq_current (qs ! (j - i)) = c))"
proof (induction qs arbitrary: i best)
  case (Cons q qs)
  define best' where "best' = (if wq_pending q = [] then best
      else case best of None \<Rightarrow> Some (i, wq_current q)
         | Some (j, c) \<Rightarrow> if c < wq_current q then Some (i, wq_current q) else Some (j, c))"
  have s: "select_queue (Suc i) best' qs = Some (j, c)" using Cons.prems by (simp add: best'_def)
  note IH = Cons.IH[OF s]
  have q: "wq_current q \<le> c" if "wq_pending q \<noteq> []"
  proof -
    have "\<exists>k b. best' = Some (k, b) \<and> wq_current q \<le> b"
      using that by (cases best) (auto simp: best'_def not_less split: prod.split)
    then show ?thesis using IH by fastforce
  qed
  have b: "b \<le> c" if "best = Some (k, b)" for k b
  proof -
    have "\<exists>k' b'. best' = Some (k', b') \<and> b \<le> b'"
      using that by (auto simp: best'_def)
    then show ?thesis using IH by fastforce
  qed
  have "best = Some (j, c) \<or> (i \<le> j \<and> j - i < length (q # qs) \<and> wq_pending ((q # qs) ! (j - i)) \<noteq> [] \<and> wq_current ((q # qs) ! (j - i)) = c)"
  proof (cases "best' = Some (j, c)")
    case True
    then show ?thesis by (auto simp: best'_def split: option.splits if_splits)
  next
    case False
    then have "Suc i \<le> j \<and> j - Suc i < length qs \<and> wq_pending (qs ! (j - Suc i)) \<noteq> [] \<and> wq_current (qs ! (j - Suc i)) = c"
      using IH by blast
    moreover from this have "j - i = Suc (j - Suc i)" by linarith
    ultimately show ?thesis by simp
  qed
  then show ?case using IH q b by simp
qed simp

section \<open>Fairness\<close>

definition served :: "string \<Rightarrow> (string \<times> 'a) list \<Rightarrow> 'a list" where
  "served q xs = map snd (filter (\<lambda>x. fst x = q) xs)"

definition total_weight :: "'a weighted_queue list \<Rightarrow> int" where
  "total_weight qs = (\<Sum>i < length qs. wq_weight (qs ! i))"

text \<open>After the deliveries \<open>xs\<close> of a round every queue's credit is what it has earned less what it has
  spent, and no queue is overdrawn by a whole round.\<close>

definition round_inv :: "'a weighted_queue list \<Rightarrow> (string \<times> 'a) list \<Rightarrow> 'a weighted_queue list \<Rightarrow> bool" where
  "round_inv qs0 xs qs \<longleftrightarrow> length qs = length qs0 \<and>
     (\<Sum>i < length qs0. int (length (served (wq_name (qs0 ! i)) xs))) = int (length xs) \<and>
     (\<forall>i < length qs0. wq_name (qs ! i) = wq_name (qs0 ! i) \<and> wq_weight (qs ! i) = wq_weight (qs0 ! i) \<and>
        wq_pending (qs0 ! i) = served (wq_name (qs0 ! i)) xs @ wq_pending (qs ! i) \<and>
        wq_current (qs ! i) = int (length xs) * wq_weight (qs0 ! i) -
          total_weight qs0 * int (length (served (wq_name (qs0 ! i)) xs)) \<and>
        - total_weight qs0 < wq_current (qs ! i))"

lemma served_snoc: "served q (xs @ [(n, d)]) = served q xs @ (if n = q then [d] else [])"
  by (simp add: served_def)

lemma round_inv_credit_sum:
  assumes "round_inv qs0 xs qs"
  shows "(\<Sum>i < length qs0. wq_current (qs ! i)) = 0"
proof -
  have "(\<Sum>i < length qs0. wq_current (qs ! i)) = (\<Sum>i < length qs0. int (length xs) * wq_weight (qs0 ! i) -
          total_weight qs0 * int (length (served (wq_name (qs0 ! i)) xs)))"
    using assms by (intro sum.cong) (auto simp: round_inv_def)
  also have "\<dots> = int (length xs) * total_weight qs0 - total_weight qs0 * int (length xs)"
    using assms by (simp add: sum_subtractf sum_distrib_left[symmetric] total_weight_def round_inv_def)
  finally show ?thesis by simp
qed

lemma runnable_weight_all:
  assumes "\<forall>q \<in> set qs. wq_pending q \<noteq> []"
  shows "runnable_weight qs = total_weight qs"
proof -
  have "filter (\<lambda>q. wq_pending q \<noteq> []) qs = qs" using assms by simp
  then show ?thesis by (simp add: runnable_weight_def total_weight_def sum_list_sum_nth atLeast0LessThan)
qed

text \<open>One take of a round: the selected queue had at least the average credit, which is positive.\<close>

lemma round_step:
  assumes inv: "round_inv qs0 xs qs" and n: "qs0 \<noteq> []" and names: "distinct (map wq_name qs0)"
    and w: "\<forall>q \<in> set qs0. 0 < wq_weight q"
    and backlog: "\<forall>i < length qs0. length (served (wq_name (qs0 ! i)) xs) < length (wq_pending (qs0 ! i))"
  shows "\<exists>x qs'. take_delivery qs = Some (x, qs') \<and> round_inv qs0 (xs @ [x]) qs'"
proof -
  let ?n = "length qs0" and ?cs = "map credited qs" and ?W = "total_weight qs0"
  have len: "length qs = ?n" using inv by (simp add: round_inv_def)
  have row: "wq_name (qs ! i) = wq_name (qs0 ! i) \<and> wq_weight (qs ! i) = wq_weight (qs0 ! i) \<and>
        wq_pending (qs0 ! i) = served (wq_name (qs0 ! i)) xs @ wq_pending (qs ! i) \<and>
        wq_current (qs ! i) = int (length xs) * wq_weight (qs0 ! i) - ?W * int (length (served (wq_name (qs0 ! i)) xs)) \<and>
        - ?W < wq_current (qs ! i)" if "i < ?n" for i
    using inv that unfolding round_inv_def by blast
  have pend: "wq_pending (qs ! i) \<noteq> []" if "i < ?n" for i using row[OF that] backlog that by fastforce
  have cs: "?cs ! i = (qs ! i)\<lparr>wq_current := wq_current (qs ! i) + wq_weight (qs0 ! i)\<rparr>" if "i < ?n" for i
    using that len pend row by (simp add: credited_def)
  have all: "\<forall>q \<in> set ?cs. wq_pending q \<noteq> []"
    using len pend cs by (auto simp: in_set_conv_nth credited_def)
  have tw: "total_weight ?cs = ?W" using len row by (auto simp: total_weight_def credited_def intro!: sum.cong)
  obtain j c where sel: "select_queue 0 None ?cs = Some (j, c)"
    using select_queue_None[of 0 None ?cs] all n len by (cases "select_queue 0 None ?cs") auto
  from select_queue_max[OF sel] len have j: "j < ?n" "wq_current (?cs ! j) = c"
    and max: "\<forall>q \<in> set ?cs. wq_current q \<le> c" using all by auto
  have W: "0 < ?W"
    unfolding total_weight_def using n w by (intro sum_pos) auto
  have "0 < c"
  proof (rule ccontr)
    assume "\<not> 0 < c"
    then have "wq_current (?cs ! i) \<le> 0" if "i < ?n" for i using max that len by (metis length_map nth_mem not_less order_trans)
    then have "(\<Sum>i < ?n. wq_current (?cs ! i)) \<le> 0" by (intro sum_nonpos) auto
    moreover have "(\<Sum>i < ?n. wq_current (?cs ! i)) = (\<Sum>i < ?n. wq_current (qs ! i)) + ?W"
      by (simp add: cs sum.distrib total_weight_def)
    ultimately show False using round_inv_credit_sum[OF inv] W by simp
  qed
  define q where "q = ?cs ! j"
  define x where "x = (wq_name q, hd (wq_pending q))"
  define qs' where "qs' = ?cs[j := q\<lparr>wq_current := wq_current q - ?W, wq_pending := tl (wq_pending q)\<rparr>]"
  have take: "take_delivery qs = Some (x, qs')"
    using sel runnable_weight_all[OF all] tw by (simp add: take_delivery_def x_def qs'_def q_def Let_def)
  have name: "wq_name q = wq_name (qs0 ! j)" using cs j row by (simp add: q_def)
  have sv: "served (wq_name (qs0 ! i)) (xs @ [x]) = served (wq_name (qs0 ! i)) xs @ (if i = j then [hd (wq_pending (qs ! j))] else [])"
    if "i < ?n" for i
  proof -
    have "(wq_name (qs0 ! j) = wq_name (qs0 ! i)) = (i = j)"
      using names that j(1) by (simp add: distinct_conv_nth) metis
    then show ?thesis using cs[OF j(1)] by (simp add: x_def served_snoc name) (simp add: q_def)
  qed
  have "(\<Sum>i < ?n. int (length (served (wq_name (qs0 ! i)) (xs @ [x])))) =
      (\<Sum>i < ?n. int (length (served (wq_name (qs0 ! i)) xs)) + (if i = j then 1 else 0))"
    by (rule sum.cong) (simp_all add: sv)
  then have count: "(\<Sum>i < ?n. int (length (served (wq_name (qs0 ! i)) (xs @ [x])))) = int (length (xs @ [x]))"
    using inv j(1) by (simp add: sum.distrib round_inv_def)
  have "wq_name (qs' ! i) = wq_name (qs0 ! i) \<and> wq_weight (qs' ! i) = wq_weight (qs0 ! i) \<and>
        wq_pending (qs0 ! i) = served (wq_name (qs0 ! i)) (xs @ [x]) @ wq_pending (qs' ! i) \<and>
        wq_current (qs' ! i) = int (length (xs @ [x])) * wq_weight (qs0 ! i) -
          ?W * int (length (served (wq_name (qs0 ! i)) (xs @ [x]))) \<and> - ?W < wq_current (qs' ! i)" if i: "i < ?n" for i
  proof (cases "i = j")
    case True
    have "qs' ! i = q\<lparr>wq_current := wq_current q - ?W, wq_pending := tl (wq_pending q)\<rparr>"
      using True j len by (simp add: qs'_def)
    then show ?thesis using True row[OF j(1)] cs[OF j(1)] sv[OF i] pend[OF j(1)] j(2) \<open>0 < c\<close>
      by (simp add: q_def algebra_simps)
  next
    case False
    have "qs' ! i = ?cs ! i" using False by (simp add: qs'_def)
    moreover have "0 < wq_weight (qs0 ! i)" using w i by simp
    ultimately show ?thesis using False row[OF i] cs[OF i] sv[OF i] by (simp add: algebra_simps)
  qed
  moreover have "length qs' = ?n" using len by (simp add: qs'_def)
  ultimately have "round_inv qs0 (xs @ [x]) qs'" using count unfolding round_inv_def by blast
  then show ?thesis using take by blast
qed

lemma round_run:
  assumes "qs0 \<noteq> []" "distinct (map wq_name qs0)" "\<forall>q \<in> set qs0. 0 < wq_weight q"
    "\<forall>q \<in> set qs0. total_weight qs0 \<le> int (length (wq_pending q))"
  shows "round_inv qs0 xs qs \<Longrightarrow> int (length xs + m) \<le> total_weight qs0 \<Longrightarrow>
    \<exists>ys qs'. take_deliveries m qs = (ys, qs') \<and> length ys = m \<and> round_inv qs0 (xs @ ys) qs'"
proof (induction m arbitrary: xs qs)
  case (Suc m)
  have less: "length (served (wq_name (qs0 ! i)) xs) < length (wq_pending (qs0 ! i))" if "i < length qs0" for i
  proof -
    have "int (length (served (wq_name (qs0 ! i)) xs)) \<le> int (length xs)" by (simp add: served_def)
    then show ?thesis using Suc.prems(2) assms(4) nth_mem[OF that] by fastforce
  qed
  obtain x qs1 where x: "take_delivery qs = Some (x, qs1)" "round_inv qs0 (xs @ [x]) qs1"
    using round_step[OF Suc.prems(1) assms(1-3)] less by blast
  obtain ys qs' where "take_deliveries m qs1 = (ys, qs')" "length ys = m" "round_inv qs0 ((xs @ [x]) @ ys) qs'"
    using Suc.IH[OF x(2)] Suc.prems(2) by auto
  then show ?case using x(1) by auto
qed simp

lemma sum_below_equal:
  fixes n :: nat
  assumes "\<forall>i < n. f i \<le> (g i :: int)" "(\<Sum>i < n. f i) = (\<Sum>i < n. g i)" "i < n"
  shows "f i = g i"
proof (rule ccontr)
  assume "f i \<noteq> g i"
  then have "(\<Sum>j < n. f j) < (\<Sum>j < n. g j)"
    using assms(1,3) by (intro sum_strict_mono_ex1) (auto intro!: bexI[of _ i] simp: order_less_le)
  then show False using assms(2) by simp
qed

text \<open>C35: The scheduler shares the consumer by weight and starves nobody: when every queue has messages for a
  round, a round of as many takes as the weights add up to serves each queue exactly as often as its weight
  says, each in the order its messages came, and leaves every credit at zero for the next round.\<close>

theorem weighted_round_is_fair:
  assumes "qs \<noteq> []" "distinct (map wq_name qs)" "\<forall>q \<in> set qs. 0 < wq_weight q \<and> wq_current q = 0"
    "\<forall>q \<in> set qs. total_weight qs \<le> int (length (wq_pending q))"
  shows "\<exists>ys qs'. take_deliveries (nat (total_weight qs)) qs = (ys, qs') \<and> int (length ys) = total_weight qs \<and>
    (\<forall>i < length qs. served (wq_name (qs ! i)) ys = take (nat (wq_weight (qs ! i))) (wq_pending (qs ! i)) \<and>
       qs' ! i = (qs ! i)\<lparr>wq_pending := drop (nat (wq_weight (qs ! i))) (wq_pending (qs ! i))\<rparr>)"
proof -
  let ?W = "total_weight qs"
  have W: "0 < ?W" unfolding total_weight_def using assms(1,3) by (intro sum_pos) auto
  have "round_inv qs [] qs" using assms(3) W by (auto simp: round_inv_def served_def)
  then obtain ys qs' where run: "take_deliveries (nat ?W) qs = (ys, qs')" "length ys = nat ?W" "round_inv qs ys qs'"
    using round_run[OF assms(1,2) _ assms(4), of "[]" qs "nat ?W"] assms(3) W by auto
  let ?k = "\<lambda>i. int (length (served (wq_name (qs ! i)) ys))"
  have len: "length qs' = length qs" and sum: "(\<Sum>i < length qs. ?k i) = ?W"
    using run W by (simp_all add: round_inv_def)
  have row: "wq_name (qs' ! i) = wq_name (qs ! i) \<and> wq_weight (qs' ! i) = wq_weight (qs ! i) \<and>
        wq_pending (qs ! i) = served (wq_name (qs ! i)) ys @ wq_pending (qs' ! i) \<and>
        wq_current (qs' ! i) = ?W * (wq_weight (qs ! i) - ?k i) \<and> - ?W < wq_current (qs' ! i)" if "i < length qs" for i
  proof -
    have "int (length ys) = ?W" using run(2) W by simp
    moreover have "wq_name (qs' ! i) = wq_name (qs ! i) \<and> wq_weight (qs' ! i) = wq_weight (qs ! i) \<and>
        wq_pending (qs ! i) = served (wq_name (qs ! i)) ys @ wq_pending (qs' ! i) \<and>
        wq_current (qs' ! i) = int (length ys) * wq_weight (qs ! i) - ?W * ?k i \<and> - ?W < wq_current (qs' ! i)"
      using run(3) that unfolding round_inv_def by blast
    ultimately show ?thesis by (simp add: algebra_simps)
  qed
  have "?k i \<le> wq_weight (qs ! i)" if "i < length qs" for i
  proof -
    have "?W * (-1) < ?W * (wq_weight (qs ! i) - ?k i)" using row[OF that] by simp
    then have "-1 < wq_weight (qs ! i) - ?k i" using W mult_less_cancel_left_pos by blast
    then show ?thesis by simp
  qed
  then have k: "?k i = wq_weight (qs ! i)" if "i < length qs" for i
    using sum_below_equal[of "length qs" ?k "\<lambda>i. wq_weight (qs ! i)" i] sum that by (simp add: total_weight_def)
  have "served (wq_name (qs ! i)) ys = take (nat (wq_weight (qs ! i))) (wq_pending (qs ! i)) \<and>
       qs' ! i = (qs ! i)\<lparr>wq_pending := drop (nat (wq_weight (qs ! i))) (wq_pending (qs ! i))\<rparr>" if i: "i < length qs" for i
  proof -
    have n: "nat (wq_weight (qs ! i)) = length (served (wq_name (qs ! i)) ys)" using k[OF i] by simp
    have c: "wq_current (qs' ! i) = wq_current (qs ! i)" using row[OF i] k[OF i] assms(3) i by simp
    show ?thesis using row[OF i] n c by (cases "qs ! i"; cases "qs' ! i") simp
  qed
  then show ?thesis using run W by auto
qed

text \<open>A new scheduler, filled by any deliveries, is ready for a first round.\<close>

lemma put_delivery_frame:
  "map wq_name (put_delivery q d qs) = map wq_name qs" "map wq_weight (put_delivery q d qs) = map wq_weight qs"
  "map wq_current (put_delivery q d qs) = map wq_current qs"
  by (induction qs) auto

lemma filled_scheduler_ready:
  fixes qs :: "'a weighted_queue list"
  assumes "distinct (map fst weights)" "qs = fold (\<lambda>(q, d). put_delivery q d) msgs (new_delivery_scheduler weights)"
  shows "distinct (map wq_name qs) \<and> (\<forall>q \<in> set qs. 0 < wq_weight q \<and> wq_current q = 0)"
proof -
  let ?s = "new_delivery_scheduler weights :: 'a weighted_queue list"
  have A: "map wq_name (fold (\<lambda>(q, d). put_delivery q d) msgs s) = map wq_name s \<and>
    map wq_weight (fold (\<lambda>(q, d). put_delivery q d) msgs s) = map wq_weight s \<and>
    map wq_current (fold (\<lambda>(q, d). put_delivery q d) msgs s) = map wq_current s" for s :: "'a weighted_queue list"
    by (induction msgs arbitrary: s) (auto simp: put_delivery_frame)
  have eq: "map wq_name qs = map wq_name ?s" "map wq_weight qs = map wq_weight ?s" "map wq_current qs = map wq_current ?s"
    unfolding assms(2) using A[of ?s] by simp_all
  have "mset (map fst (sort_key fst weights)) = mset (map fst weights)" by simp
  then have "distinct (map fst (sort_key fst weights))" using assms(1) mset_eq_imp_distinct_iff by blast
  moreover have "map wq_name ?s = map fst (sort_key fst weights)" by (auto simp: new_delivery_scheduler_def)
  ultimately have n: "distinct (map wq_name qs)" using eq(1) by simp
  have "set (map wq_weight qs) \<subseteq> {w. 0 < w}" "set (map wq_current qs) \<subseteq> {0}"
    unfolding eq by (auto simp: new_delivery_scheduler_def)
  then show ?thesis using n by auto
qed

definition demo_queues :: "nat weighted_queue list" where
  "demo_queues = [\<lparr> wq_name = ''ai'', wq_weight = 1, wq_current = 0, wq_pending = [1, 2, 3, 4] \<rparr>,
     \<lparr> wq_name = ''object'', wq_weight = 3, wq_current = 0, wq_pending = [5, 6, 7, 8] \<rparr>]"

theorem weighted_round_is_fair_witness:
  "\<exists>ys qs'. take_deliveries 4 demo_queues = (ys, qs') \<and> served ''ai'' ys = [1] \<and> served ''object'' ys = [5, 6, 7]"
proof -
  have W: "total_weight demo_queues = 4" by (simp add: total_weight_def demo_queues_def)
  have "\<exists>ys qs'. take_deliveries (nat (total_weight demo_queues)) demo_queues = (ys, qs') \<and> int (length ys) = total_weight demo_queues \<and>
    (\<forall>i < length demo_queues. served (wq_name (demo_queues ! i)) ys = take (nat (wq_weight (demo_queues ! i))) (wq_pending (demo_queues ! i)) \<and>
       qs' ! i = (demo_queues ! i)\<lparr>wq_pending := drop (nat (wq_weight (demo_queues ! i))) (wq_pending (demo_queues ! i))\<rparr>)"
    by (rule weighted_round_is_fair) (simp_all add: W, simp_all add: demo_queues_def)
  then obtain ys qs' where run: "take_deliveries 4 demo_queues = (ys, qs')"
    and s: "\<forall>i < length demo_queues. served (wq_name (demo_queues ! i)) ys = take (nat (wq_weight (demo_queues ! i))) (wq_pending (demo_queues ! i))"
    unfolding W by auto
  have "served ''ai'' ys = [1]" "served ''object'' ys = [5, 6, 7]"
    using s[rule_format, of 0] s[rule_format, of 1] by (simp_all add: demo_queues_def)
  then show ?thesis using run by blast
qed

end
