(* ===== verification/Chunking.thy ===== *)
theory Chunking
  imports GoText
begin

text \<open>
  \<open>ai/rag/chunk.go\<close>: extracted documents are cut into chunks for the index.  Blocks of a section keep
  their Markdown structure, pieces keep to a limit of runes and neighbours overlap.  Text is a list of
  runes, so \<open>utf8.RuneCountInString\<close> is its length.
\<close>

section \<open>Sections and chunks\<close>

abbreviation kind_text :: string where "kind_text \<equiv> ''text''"
abbreviation kind_table :: string where "kind_table \<equiv> ''table''"
abbreviation kind_code :: string where "kind_code \<equiv> ''code''"
abbreviation kind_list :: string where "kind_list \<equiv> ''list''"

definition max_chunks_per_document :: nat where "max_chunks_per_document = 256"
definition chunk_size :: nat where "chunk_size = 900"
definition chunk_overlap :: nat where "chunk_overlap = 120"

record doc_section =
  sc_text :: gotext
  sc_source_kind :: string
  sc_page_number :: "int option"
  sc_page_end :: int
  sc_section :: gotext
  sc_kind :: string
  sc_heading_path :: gotext
  sc_slide_number :: int
  sc_sheet_name :: gotext
  sc_row_start :: int
  sc_row_end :: int
  sc_column_start :: int
  sc_column_end :: int
  sc_source_start :: int
  sc_source_end :: int
  sc_has_header :: bool
  sc_merged_ranges :: "gotext list"
  sc_encoding :: gotext

record chunk =
  ck_content :: gotext
  ck_source_kind :: string
  ck_page_number :: "int option"
  ck_section :: gotext
  ck_kind :: string
  ck_heading_path :: gotext
  ck_page_start :: int
  ck_page_end :: int
  ck_slide_number :: int
  ck_sheet_name :: gotext
  ck_row_start :: int
  ck_row_end :: int
  ck_column_start :: int
  ck_column_end :: int
  ck_source_start :: int
  ck_source_end :: int
  ck_token_count :: int
  ck_token_count_is_estimate :: bool
  ck_merged_ranges :: "gotext list"
  ck_encoding :: gotext

record content_block =
  cb_text :: gotext
  cb_kind :: string
  cb_heading :: gotext

text \<open>A chunk literal that sets content, page and section only.\<close>

definition plain_chunk :: "gotext \<Rightarrow> int option \<Rightarrow> gotext \<Rightarrow> chunk" where
  "plain_chunk content page sec = \<lparr> ck_content = content, ck_source_kind = [], ck_page_number = page,
     ck_section = sec, ck_kind = [], ck_heading_path = [], ck_page_start = 0, ck_page_end = 0,
     ck_slide_number = 0, ck_sheet_name = [], ck_row_start = 0, ck_row_end = 0, ck_column_start = 0,
     ck_column_end = 0, ck_source_start = 0, ck_source_end = 0, ck_token_count = 0,
     ck_token_count_is_estimate = False, ck_merged_ranges = [], ck_encoding = [] \<rparr>"

section \<open>Lines\<close>

abbreviation newline :: gotext where "newline \<equiv> [10]"
abbreviation blank_line :: gotext where "blank_line \<equiv> [10, 10]"

definition normalize_lines :: "gotext \<Rightarrow> gotext" where
  "normalize_lines text = replace_all [13] [10] (replace_all [13, 10] [10] text)"

definition non_empty_lines :: "gotext \<Rightarrow> gotext list" where
  "non_empty_lines text = filter (\<lambda>l. l \<noteq> []) (map trim_space (split newline (normalize_lines text)))"

definition is_code_fence :: "gotext \<Rightarrow> bool" where
  "is_code_fence line = (let l = trim_space line in has_prefix l (lit ''```'') \<or> has_prefix l (lit ''~~~''))"

definition is_closing_code_fence :: "gotext \<Rightarrow> gotext \<Rightarrow> bool" where
  "is_closing_code_fence line opening =
     (if has_prefix (trim_space opening) (lit ''```'') then has_prefix line (lit ''```'') else has_prefix line (lit ''~~~''))"

definition is_markdown_table_row :: "gotext \<Rightarrow> bool" where
  "is_markdown_table_row line \<longleftrightarrow> 124 \<in> set line"

definition separator_cell :: "gotext \<Rightarrow> bool" where
  "separator_cell part = (let p = trim_space (trim_func (\<lambda>r. r = 58) part) in
     \<not> (utf8_len p < 3 \<or> trim_func (\<lambda>r. r = 45) p \<noteq> []))"

definition is_table_separator :: "gotext \<Rightarrow> bool" where
  "is_table_separator line = (let parts = split [124] (trim_func (\<lambda>r. r = 124) (trim_space line)) in
     \<not> length parts < 2 \<and> list_all separator_cell parts)"

definition is_markdown_table_start :: "gotext list \<Rightarrow> bool" where
  "is_markdown_table_start ls = (case ls of
     row # next_row # _ \<Rightarrow> is_markdown_table_row row \<and> is_table_separator next_row | _ \<Rightarrow> False)"

text \<open>\<open>\s\<close> and \<open>\d\<close> of package \<open>regexp\<close> are ASCII.\<close>

definition re_space :: "rune \<Rightarrow> bool" where
  "re_space r \<longleftrightarrow> r \<in> {9, 10, 12, 13, 32}"

definition re_digit :: "rune \<Rightarrow> bool" where
  "re_digit r \<longleftrightarrow> 48 \<le> r \<and> r \<le> 57"

text \<open>\<open>\s*#*\s*$\<close>, the tail the title of a heading stops at.\<close>

definition heading_tail :: "gotext \<Rightarrow> bool" where
  "heading_tail s \<longleftrightarrow> dropWhile re_space (dropWhile (\<lambda>r. r = 35) (dropWhile re_space s)) = []"

text \<open>\<open>(.+?)\<close>: the shortest non-empty prefix that a tail follows.\<close>

fun heading_title :: "gotext \<Rightarrow> gotext" where
  "heading_title [] = []"
| "heading_title (r # s) = (if heading_tail s then [r] else r # heading_title s)"

text \<open>\<open>^(#{1,6})\s+(.+?)\s*#*\s*$\<close> on a trimmed line: the level and the title.\<close>

definition markdown_heading :: "gotext \<Rightarrow> (nat \<times> gotext) option" where
  "markdown_heading line =
     (let level = length (takeWhile (\<lambda>r. r = 35) line); rest = drop level line; title = dropWhile re_space rest in
      if 1 \<le> level \<and> level \<le> 6 \<and> title \<noteq> rest \<and> title \<noteq> [] then Some (level, heading_title title) else None)"

text \<open>\<open>^\s*(?:[-+*]|\d+[.)])\s+\<close>.\<close>

definition list_item :: "gotext \<Rightarrow> bool" where
  "list_item line =
     (let s = dropWhile re_space line; t = dropWhile re_digit s in
      case s of [] \<Rightarrow> False
      | r # s' \<Rightarrow>
          if r \<in> {45, 43, 42} then (case s' of [] \<Rightarrow> False | w # _ \<Rightarrow> re_space w)
          else re_digit r \<and> (case t of m # w # _ \<Rightarrow> m \<in> {46, 41} \<and> re_space w | _ \<Rightarrow> False))"

section \<open>Blocks\<close>

definition heading_path :: "gotext list \<Rightarrow> gotext" where
  "heading_path hs = join (lit '' > '')
     (map (\<lambda>(i, h). replicate (i + 1) 35 @ lit '' '' @ h) (filter (\<lambda>(i, h). h \<noteq> []) (enumerate 0 hs)))"

record parse_state =
  ps_headings :: "gotext list"
  ps_paragraph :: "gotext list"
  ps_list :: "gotext list"
  ps_blocks :: "content_block list"

definition add_block :: "gotext \<Rightarrow> string \<Rightarrow> parse_state \<Rightarrow> parse_state" where
  "add_block text kind s = s\<lparr>ps_blocks := ps_blocks s @
     [\<lparr> cb_text = text, cb_kind = kind, cb_heading = heading_path (ps_headings s) \<rparr>]\<rparr>"

definition flush_paragraph :: "parse_state \<Rightarrow> parse_state" where
  "flush_paragraph s = (if ps_paragraph s = [] then s
     else (add_block (join (lit '' '') (ps_paragraph s)) kind_text s)\<lparr>ps_paragraph := []\<rparr>)"

definition flush_list :: "parse_state \<Rightarrow> parse_state" where
  "flush_list s = (if ps_list s = [] then s
     else (add_block (join newline (ps_list s)) kind_list s)\<lparr>ps_list := []\<rparr>)"

definition flush_plain :: "parse_state \<Rightarrow> parse_state" where
  "flush_plain s = flush_list (flush_paragraph s)"

text \<open>The lines of a fenced block up to its closing fence, and what follows.\<close>

primrec take_code :: "gotext \<Rightarrow> gotext list \<Rightarrow> gotext list \<times> gotext list" where
  "take_code opening [] = ([], [])"
| "take_code opening (l # ls) =
     (if is_closing_code_fence (trim_space l) opening then ([l], ls)
      else case take_code opening ls of (code, rest) \<Rightarrow> (l # code, rest))"

lemma take_code_length: "take_code opening ls = (code, rest) \<Longrightarrow> length rest \<le> length ls"
  by (induction ls arbitrary: code) (auto split: if_splits prod.splits)

function (sequential) parse_lines :: "gotext list \<Rightarrow> parse_state \<Rightarrow> parse_state" where
  "parse_lines [] s = flush_plain s"
| "parse_lines (raw # ls) s =
     (let line = trim_space raw in
      if line = [] then parse_lines ls (flush_plain s)
      else case markdown_heading line of
        Some (level, title) \<Rightarrow> parse_lines ls ((flush_plain s)\<lparr>ps_headings :=
            take (level - 1) (ps_headings s) @ trim_space title # replicate (6 - level) []\<rparr>)
      | None \<Rightarrow>
          if is_code_fence line then
            (case take_code line ls of
               (code, rest) \<Rightarrow> parse_lines rest (add_block (join newline (line # code)) kind_code (flush_plain s)))
          else if is_markdown_table_start (raw # ls) then
            parse_lines (dropWhile is_markdown_table_row ls)
              (add_block (join newline (line # map trim_space (takeWhile is_markdown_table_row ls))) kind_table (flush_plain s))
          else if list_item line then
            parse_lines ls ((flush_paragraph s)\<lparr>ps_list := ps_list s @ [line]\<rparr>)
          else parse_lines ls ((flush_list s)\<lparr>ps_paragraph := ps_paragraph s @ [line]\<rparr>))"
  by pat_completeness auto
termination
  by (relation "measure (\<lambda>(ls, s). length ls)")
    (auto simp: less_Suc_eq_le length_dropWhile_le dest!: take_code_length dest: sym)

declare parse_lines.simps(2) [simp del]

definition parse_blocks :: "gotext \<Rightarrow> content_block list" where
  "parse_blocks text = ps_blocks (parse_lines (split newline text)
     \<lparr> ps_headings = replicate 6 [], ps_paragraph = [], ps_list = [], ps_blocks = [] \<rparr>)"

definition blocks_for :: "doc_section \<Rightarrow> content_block list" where
  "blocks_for sec = (let text = normalize_lines (sc_text sec) in
     if sc_kind sec \<in> {kind_table, kind_code, kind_list}
     then [\<lparr> cb_text = text, cb_kind = sc_kind sec, cb_heading = [] \<rparr>]
     else parse_blocks text)"

section \<open>Splitting by runes\<close>

definition text_separators :: "gotext list" where
  "text_separators = [[10, 10], [10], [12290], [65281], [65311], lit ''!'', lit ''?'', [65307], lit '';'', lit ''.'', lit '' '']"

definition code_separators :: "gotext list" where
  "code_separators = [[10], [9], lit '','', lit '';'', lit '' '']"

definition list_separators :: "gotext list" where
  "list_separators = [[10], [12290], [65307], lit '';'', lit '' '']"

definition table_separators :: "gotext list" where
  "table_separators = [[10], lit ''|'', lit '','', [9], lit '' '']"

text \<open>\<open>splitAfter\<close>: \<open>strings.SplitAfter\<close> without an empty last part; nil without an occurrence.\<close>

definition split_after_parts :: "gotext \<Rightarrow> gotext \<Rightarrow> gotext list" where
  "split_after_parts text separator =
     (if separator = [] \<or> \<not> contains text separator then []
      else let parts = split_after separator text in if last parts = [] then butlast parts else parts)"

function hard_atoms :: "nat \<Rightarrow> gotext \<Rightarrow> gotext list" where
  "hard_atoms limit text =
     (if text = [] \<or> limit = 0 then [] else take limit text # hard_atoms limit (drop limit text))"
  by pat_completeness auto
termination by (relation "measure (\<lambda>(limit, text). length text)") auto

declare hard_atoms.simps [simp del]

text \<open>The separators are tried in order; a part that is still too long goes on with the later ones.\<close>

primrec recursive_atoms :: "nat \<Rightarrow> gotext list \<Rightarrow> gotext \<Rightarrow> gotext list" where
  "recursive_atoms limit [] text = (if length text \<le> limit then [text] else hard_atoms limit text)"
| "recursive_atoms limit (separator # separators) text =
     (if length text \<le> limit then [text]
      else let parts = split_after_parts text separator;
               result = concat (map (\<lambda>part. if trim_space part = [] then []
                  else if length part \<le> limit then [part]
                  else recursive_atoms limit separators part) parts)
        in if length parts < 2 \<or> result = [] then recursive_atoms limit separators text else result)"

definition overlap_boundary :: "rune \<Rightarrow> bool" where
  "overlap_boundary r \<longleftrightarrow> r \<in> {10, 32} \<or> r \<in> set ([12290, 65281, 65311] @ lit ''!?'' @ [65307] @ lit '';,.'')"

definition overlap_tail :: "gotext \<Rightarrow> nat \<Rightarrow> gotext" where
  "overlap_tail text limit =
     (let runes = trim_space text; start = length runes - limit in
      if limit = 0 \<or> runes = [] then []
      else trim_space (drop (case find (\<lambda>i. overlap_boundary (runes ! (i - 1))) [start + 1..<length runes] of
                               None \<Rightarrow> start | Some i \<Rightarrow> i) runes))"

definition join_overlap_with_separator :: "gotext \<Rightarrow> gotext \<Rightarrow> gotext \<Rightarrow> nat \<Rightarrow> gotext" where
  "join_overlap_with_separator overlap separator text limit =
     (let content = trim_space text in
      if limit = 0 \<or> limit \<le> length content then content
      else let available = limit - length content;
               sep = take available separator;
               left = (if available < length separator then 0 else available - length separator);
               over = (if left < length overlap then drop (length overlap - left) overlap else overlap)
        in if over = [] then content else over @ sep @ content)"

definition join_overlap :: "gotext \<Rightarrow> gotext \<Rightarrow> nat \<Rightarrow> gotext" where
  "join_overlap overlap content limit = join_overlap_with_separator overlap newline content limit"

definition leading_whitespace :: "gotext \<Rightarrow> gotext" where
  "leading_whitespace v = take (length v - length (trim_left is_space v)) v"

definition trailing_whitespace :: "gotext \<Rightarrow> gotext" where
  "trailing_whitespace v = drop (length (trim_right is_space v)) v"

text \<open>The loop of \<open>mergeAtoms\<close>: the finished pieces, the current one and the white space after it.\<close>

primrec merge_loop :: "nat \<Rightarrow> gotext list \<Rightarrow> gotext list \<times> gotext \<times> gotext \<Rightarrow> gotext list \<times> gotext \<times> gotext" where
  "merge_loop limit [] s = s"
| "merge_loop limit (raw # atoms) s =
     (case s of (result, current, after) \<Rightarrow>
        let atom = trim_space raw; separator = after @ leading_whitespace raw; after' = trailing_whitespace raw in
        if atom = [] then merge_loop limit atoms s
        else if current = [] then merge_loop limit atoms (result, atom, after')
        else if length (current @ separator @ atom) \<le> limit
          then merge_loop limit atoms (result, current @ separator @ atom, after')
        else merge_loop limit atoms (result @ [current],
               join_overlap_with_separator (overlap_tail current chunk_overlap) separator atom limit, after'))"

definition merge_atoms :: "gotext list \<Rightarrow> nat \<Rightarrow> gotext list" where
  "merge_atoms atoms limit = (case merge_loop limit atoms ([], [], []) of
     (result, current, _) \<Rightarrow> if current \<noteq> [] then result @ [current] else result)"

definition split_text :: "gotext \<Rightarrow> int \<Rightarrow> gotext list \<Rightarrow> gotext list" where
  "split_text txt limit separators =
     (let text = trim_space txt; l = nat (if limit \<le> 0 then 1 else limit) in
      if text = [] then [] else merge_atoms (recursive_atoms l separators text) l)"

definition content_limit :: "gotext \<Rightarrow> int" where
  "content_limit heading = max 1 (int chunk_size - min (int (length heading)) (int chunk_size div 3) - 2)"

text \<open>\<open>splitTable\<close>: rows share a chunk with the header as long as they fit.\<close>

primrec table_loop :: "gotext \<Rightarrow> int \<Rightarrow> gotext list \<Rightarrow> gotext list \<times> gotext list \<Rightarrow> gotext list \<times> gotext list" where
  "table_loop header limit [] s = s"
| "table_loop header limit (row # lines) s =
     (case s of (result, rows) \<Rightarrow>
        if int (length (header @ newline @ join newline (rows @ [row]))) \<le> limit
        then table_loop header limit lines (result, rows @ [row])
        else let result' = (if rows = [] then result else result @ [header @ newline @ join newline rows]) in
          if int (length header) + 1 + int (length row) \<le> limit then table_loop header limit lines (result', [row])
          else table_loop header limit lines
            (result' @ map (\<lambda>piece. header @ newline @ piece)
               (split_text row (max 1 (limit - int (length header) - 1)) table_separators), []))"

definition split_table :: "gotext \<Rightarrow> int \<Rightarrow> gotext list" where
  "split_table text limit =
     (let lines = non_empty_lines text in
      if length lines < 2 \<or> limit < int (length (join newline (take 2 lines)))
      then split_text (join newline lines) limit table_separators
      else let header_lines = (if is_table_separator (lines ! 1) then 2 else 1);
               header = join newline (take header_lines lines)
        in if limit \<le> int (length header) then split_text (join newline lines) limit table_separators
           else (case table_loop header limit (drop header_lines lines) ([], []) of
             (result, rows) \<Rightarrow>
               let result' = (if rows = [] then result else result @ [header @ newline @ join newline rows])
               in if result' = [] then [header] else result'))"

definition split_structured_block :: "content_block \<Rightarrow> gotext list" where
  "split_structured_block b =
     (let limit = content_limit (trim_space (cb_heading b)) in
      if cb_kind b = kind_table then split_table (cb_text b) limit
      else if cb_kind b = kind_code then split_text (cb_text b) limit code_separators
      else if cb_kind b = kind_list then split_text (cb_text b) limit list_separators
      else split_text (cb_text b) limit text_separators)"

section \<open>Chunks of a document\<close>

definition decorate :: "gotext \<Rightarrow> gotext \<Rightarrow> gotext" where
  "decorate heading text = (if heading = [] then trim_space text else heading @ blank_line @ trim_space text)"

definition combine_section :: "gotext \<Rightarrow> gotext \<Rightarrow> gotext" where
  "combine_section source heading = (let s = trim_space source; h = trim_space heading in
     if s = [] then h else if h = [] then s else s @ lit '' / '' @ h)"

primrec append_pieces :: "chunk \<Rightarrow> gotext list \<Rightarrow> chunk list \<Rightarrow> chunk list" where
  "append_pieces c [] chunks = chunks"
| "append_pieces c (piece # pieces) chunks =
     (let chunks' = chunks @ [plain_chunk piece (ck_page_number c) (ck_section c)] in
      if max_chunks_per_document \<le> length chunks' then chunks' else append_pieces c pieces chunks')"

definition append_bounded :: "chunk list \<Rightarrow> chunk \<Rightarrow> chunk list" where
  "append_bounded chunks c =
     (if max_chunks_per_document \<le> length chunks then chunks
      else if chunk_size < length (ck_content c)
      then append_pieces c (split_text (ck_content c) (int chunk_size) text_separators) chunks
      else chunks @ [c])"

record chunk_state =
  cs_result :: "chunk list"
  cs_pending :: gotext
  cs_pending_heading :: gotext

definition flush_chunk :: "doc_section \<Rightarrow> chunk_state \<Rightarrow> chunk_state" where
  "flush_chunk sec s =
     (if trim_space (cs_pending s) = [] \<or> max_chunks_per_document \<le> length (cs_result s)
      then s\<lparr>cs_pending := []\<rparr>
      else \<lparr> cs_result = cs_result s @ [plain_chunk (trim_space (cs_pending s)) (sc_page_number sec)
               (combine_section (sc_section sec) (cs_pending_heading s))],
             cs_pending = [], cs_pending_heading = [] \<rparr>)"

text \<open>\<open>Inl\<close> is an early return with the chunks so far.\<close>

primrec structured_pieces ::
  "doc_section \<Rightarrow> gotext \<Rightarrow> gotext list \<Rightarrow> chunk_state \<Rightarrow> chunk list + chunk_state" where
  "structured_pieces sec heading [] s = Inr s"
| "structured_pieces sec heading (piece # pieces) s =
     (let result = append_bounded (cs_result s) (plain_chunk (decorate heading piece) (sc_page_number sec)
                     (combine_section (sc_section sec) heading)) in
      if max_chunks_per_document \<le> length result then Inl result
      else structured_pieces sec heading pieces (s\<lparr>cs_result := result\<rparr>))"

primrec text_pieces :: "doc_section \<Rightarrow> gotext \<Rightarrow> nat \<Rightarrow> gotext list \<Rightarrow> chunk_state \<Rightarrow> chunk_state" where
  "text_pieces sec heading k [] s = s"
| "text_pieces sec heading k (piece # pieces) s =
     (let content = decorate heading piece; joined = cs_pending s @ blank_line @ content in
      if cs_pending s = [] then text_pieces sec heading (Suc k) pieces (s\<lparr>cs_pending := content, cs_pending_heading := heading\<rparr>)
      else if length joined \<le> chunk_size then text_pieces sec heading (Suc k) pieces (s\<lparr>cs_pending := joined\<rparr>)
      else text_pieces sec heading (Suc k) pieces ((flush_chunk sec s)\<lparr>
             cs_pending_heading := heading,
             cs_pending := (if k = 0 then join_overlap (overlap_tail (cs_pending s) chunk_overlap) content chunk_size else content)\<rparr>))"

definition block_step :: "doc_section \<Rightarrow> content_block \<Rightarrow> chunk_state \<Rightarrow> chunk list + chunk_state" where
  "block_step sec b s =
     (let heading = trim_space (cb_heading b);
          s1 = (if cs_pending s \<noteq> [] \<and> heading \<noteq> cs_pending_heading s then flush_chunk sec s else s) in
      if cb_kind b \<in> {kind_table, kind_code, kind_list}
      then structured_pieces sec heading (split_structured_block b) (flush_chunk sec s1)
      else let s2 = text_pieces sec heading 0 (split_text (cb_text b) (content_limit heading) text_separators) s1
        in if max_chunks_per_document \<le> length (cs_result s2) then Inl (cs_result s2) else Inr s2)"

primrec block_loop :: "doc_section \<Rightarrow> content_block list \<Rightarrow> chunk_state \<Rightarrow> chunk list + chunk_state" where
  "block_loop sec [] s = Inr s"
| "block_loop sec (b # bs) s = (case block_step sec b s of Inl r \<Rightarrow> Inl r | Inr s' \<Rightarrow> block_loop sec bs s')"

primrec section_loop :: "doc_section list \<Rightarrow> chunk list \<Rightarrow> chunk list" where
  "section_loop [] result = result"
| "section_loop (sec # secs) result =
     (case block_loop sec (blocks_for sec) \<lparr> cs_result = result, cs_pending = [], cs_pending_heading = [] \<rparr> of
        Inl r \<Rightarrow> r
      | Inr s \<Rightarrow> (let s' = flush_chunk sec s in
          if max_chunks_per_document \<le> length (cs_result s') then cs_result s' else section_loop secs (cs_result s')))"

definition make_chunks :: "doc_section list \<Rightarrow> chunk list" where
  "make_chunks sections = section_loop sections []"

end
