(* ===== verification/TypedChunking.thy ===== *)
theory TypedChunking
  imports Chunking
begin

text \<open>
  \<open>ai/rag/typed_chunk.go\<close>: chunks of typed sections under a budget of estimated tokens.  Positions are
  indexes into the runes of a text; budgets are the code's ints until they are known to be positive.
\<close>

section \<open>Options and tokens\<close>

record chunk_options =
  co_token_budget :: int
  co_overlap :: int
  co_max_chunks :: int
  co_version :: string
  co_tokenizer_id :: string

record chunk_result =
  cr_chunks :: "chunk list"
  cr_truncated :: bool
  cr_warnings :: "string list"
  cr_version :: string
  cr_tokenizer_id :: string

definition normalize_chunk_options :: "chunk_options \<Rightarrow> chunk_options" where
  "normalize_chunk_options o1 =
     (let budget = (if co_token_budget o1 \<le> 0 then 600 else co_token_budget o1);
          v0 = (if co_overlap o1 < 0 then 0 else co_overlap o1);
          v1 = (if v0 = 0 \<and> co_token_budget o1 \<le> 0 then 60 else v0);
          v2 = (if budget \<le> v1 then budget div 8 else v1);
          m0 = (if co_max_chunks o1 \<le> 0 then int max_chunks_per_document else co_max_chunks o1)
      in \<lparr> co_token_budget = budget, co_overlap = v2,
           co_max_chunks = (if int max_chunks_per_document < m0 then int max_chunks_per_document else m0),
           co_version = (if co_version o1 = [] then ''document-chunker-v3'' else co_version o1),
           co_tokenizer_id = (if co_tokenizer_id o1 = [] then ''mixed-script-estimate-v1'' else co_tokenizer_id o1) \<rparr>)"

definition ascii_token_rune :: "rune \<Rightarrow> bool" where
  "ascii_token_rune r \<longleftrightarrow> r < 128 \<and> (65 \<le> r \<and> r \<le> 90 \<or> 97 \<le> r \<and> r \<le> 122 \<or> 48 \<le> r \<and> r \<le> 57 \<or> r = 95 \<or> r = 45)"

text \<open>\<open>EstimateTokens\<close>: \<open>run\<close> is the length of the ASCII word under way.\<close>

primrec estimate_loop :: "nat \<Rightarrow> nat \<Rightarrow> gotext \<Rightarrow> nat" where
  "estimate_loop used run [] = used + (run + 3) div 4"
| "estimate_loop used run (r # rs) =
     (if ascii_token_rune r then estimate_loop used (run + 1) rs
      else let used' = used + (run + 3) div 4 in
        if is_space r then estimate_loop used' 0 rs else estimate_loop (used' + 1) 0 rs)"

definition estimate_tokens :: "gotext \<Rightarrow> nat" where
  "estimate_tokens text = estimate_loop 0 0 text"

definition typed_text_separators :: "gotext list" where
  "typed_text_separators = [[10, 10], [10], [12290], [65281], [65311], lit ''!'', lit ''?'', [65307], lit '';'', [65292],
     [12289], [65306], lit '','', lit '':'', lit ''.'', lit '' '']"

definition typed_code_separators :: "gotext list" where
  "typed_code_separators = [[10], [9], lit '','', lit '';'', lit '' '']"

definition typed_list_separators :: "gotext list" where
  "typed_list_separators = [[10], [12290], [65281], [65311], [65307], lit '';'', [65292], [12289], [65306], lit '' '']"

section \<open>Splitting by tokens\<close>

definition rune_cost :: "rune \<Rightarrow> nat \<Rightarrow> nat" where
  "rune_cost r run = (if ascii_token_rune r then (if run mod 4 = 0 then 1 else 0) else if is_space r then 0 else 1)"

definition next_run :: "rune \<Rightarrow> nat \<Rightarrow> nat" where
  "next_run r run = (if ascii_token_rune r then run + 1 else 0)"

text \<open>How many runes fit into the budget.\<close>

primrec fit_loop :: "nat \<Rightarrow> nat \<Rightarrow> nat \<Rightarrow> gotext \<Rightarrow> nat" where
  "fit_loop budget used run [] = 0"
| "fit_loop budget used run (r # rs) =
     (if budget < used + rune_cost r run then 0
      else Suc (fit_loop budget (used + rune_cost r run) (next_run r run) rs))"

definition fitting_token_end :: "gotext \<Rightarrow> nat \<Rightarrow> nat \<Rightarrow> nat" where
  "fitting_token_end runes start budget = start + fit_loop budget 0 0 (drop start runes)"

text \<open>A cut after \<open>separator\<close>; a decimal point is not an English sentence boundary.\<close>

definition cut_allowed :: "gotext \<Rightarrow> nat \<Rightarrow> gotext \<Rightarrow> nat \<Rightarrow> bool" where
  "cut_allowed runes start separator k \<longleftrightarrow>
     \<not> k < start + length separator \<and> take (length separator) (drop (k - length separator) runes) = separator \<and>
     \<not> (separator = lit ''.'' \<and> 2 \<le> k \<and> k < length runes \<and> is_digit (runes ! (k - 2)) \<and> is_digit (runes ! k))"

primrec preferred_split_end :: "gotext \<Rightarrow> nat \<Rightarrow> nat \<Rightarrow> nat \<Rightarrow> gotext list \<Rightarrow> nat" where
  "preferred_split_end runes start minimum end [] = end"
| "preferred_split_end runes start minimum end (separator # separators) =
     (case find (cut_allowed runes start separator) (rev [max minimum (start + 1)..<end + 1]) of
        Some k \<Rightarrow> k
      | None \<Rightarrow> preferred_split_end runes start minimum end separators)"

definition clause_boundary :: "rune \<Rightarrow> bool" where
  "clause_boundary r \<longleftrightarrow> overlap_boundary r \<or> r \<in> {65292, 12289, 65306, 58}"

definition overlap_token_start :: "gotext \<Rightarrow> nat \<Rightarrow> nat \<Rightarrow> nat \<Rightarrow> nat" where
  "overlap_token_start runes start end budget =
     (if budget = 0 then end
      else let first = end - fit_loop budget 0 0 (rev (take (end - start) (drop start runes)))
        in (case find (\<lambda>i. clause_boundary (runes ! i)) [first..<end - 1] of Some i \<Rightarrow> i + 1 | None \<Rightarrow> first))"

lemma fit_loop_le: "fit_loop budget used run rs \<le> length rs"
  by (induction rs arbitrary: used run) auto

lemma fit_loop_pos: "0 < budget \<Longrightarrow> rs \<noteq> [] \<Longrightarrow> 0 < fit_loop budget 0 0 rs"
  by (cases rs) (auto simp: rune_cost_def)

lemma fitting_token_end_bounds:
  assumes "start < length runes" "0 < budget"
  shows "start < fitting_token_end runes start budget" "fitting_token_end runes start budget \<le> length runes"
  using fit_loop_pos[OF assms(2), of "drop start runes"] fit_loop_le[of budget 0 0 "drop start runes"] assms(1)
  by (auto simp: fitting_token_end_def)

lemma preferred_split_end_bounds:
  assumes "start < end"
  shows "start < preferred_split_end runes start minimum end seps \<and> preferred_split_end runes start minimum end seps \<le> end"
proof (induction seps)
  case (Cons sep seps)
  show ?case
  proof (cases "find (cut_allowed runes start sep) (rev [max minimum (start + 1)..<end + 1])")
    case (Some k)
    then have "k \<in> set (rev [max minimum (start + 1)..<end + 1])" using find_SomeD by metis
    then have "start < k \<and> k \<le> end" unfolding set_rev set_upt by auto
    then show ?thesis using Some by simp
  qed (use Cons in simp)
qed (use assms in simp)

lemma overlap_token_start_le:
  assumes "start < end"
  shows "overlap_token_start runes start end budget \<le> end"
proof (cases "budget = 0")
  case False
  let ?first = "end - fit_loop budget 0 0 (rev (take (end - start) (drop start runes)))"
  show ?thesis
  proof (cases "find (\<lambda>i. clause_boundary (runes ! i)) [?first..<end - 1]")
    case (Some i)
    then have "i \<in> set [?first..<end - 1]" using find_SomeD by metis
    then have "i < end - 1" unfolding set_upt by simp
    then show ?thesis using Some False by (simp add: overlap_token_start_def Let_def)
  qed (use False in \<open>simp add: overlap_token_start_def Let_def\<close>)
qed (simp add: overlap_token_start_def)

text \<open>The end of the window at \<open>start\<close> and the start of the next one.\<close>

definition window_end :: "gotext \<Rightarrow> nat \<Rightarrow> gotext list \<Rightarrow> nat \<Rightarrow> nat" where
  "window_end runes budget separators start =
     (let end = fitting_token_end runes start budget in
      if end < length runes
      then preferred_split_end runes start (fitting_token_end runes start (max 1 (budget div 2))) end separators
      else end)"

definition window_next :: "gotext \<Rightarrow> nat \<Rightarrow> nat \<Rightarrow> nat \<Rightarrow> nat" where
  "window_next runes overlap start end =
     (let next = overlap_token_start runes start end overlap in if next \<le> start then end else next)"

lemma window_end_bounds:
  assumes "start < length runes" "0 < budget"
  shows "start < window_end runes budget seps start \<and> window_end runes budget seps start \<le> length runes"
  using fitting_token_end_bounds[OF assms]
    preferred_split_end_bounds[of start "fitting_token_end runes start budget" runes "fitting_token_end runes start (max 1 (budget div 2))" seps]
  unfolding window_end_def Let_def by (auto simp del: max_def)

lemma window_next_bounds: "start < end \<Longrightarrow> start < window_next runes overlap start end \<and> window_next runes overlap start end \<le> end"
  using overlap_token_start_le[of start "end" runes overlap] by (auto simp: window_next_def Let_def)

text \<open>The loop of \<open>splitTextByTokens\<close> as the list of its windows.\<close>

function token_windows :: "gotext \<Rightarrow> nat \<Rightarrow> nat \<Rightarrow> gotext list \<Rightarrow> nat \<Rightarrow> (nat \<times> nat) list" where
  "token_windows runes budget overlap separators start =
     (if length runes \<le> start then []
      else let end = window_end runes (max 1 budget) separators start in
        (start, end) # (if end = length runes then []
          else token_windows runes budget overlap separators (window_next runes overlap start end)))"
  by pat_completeness auto
termination
proof (relation "measure (\<lambda>(runes, budget, overlap, separators, start). length runes - start)", goal_cases)
  case (2 runes budget overlap separators start e)
  then have s: "start < length runes" by simp
  have "start < e \<and> e \<le> length runes" using window_end_bounds[OF s, of "max 1 budget" separators] 2(2) by simp
  then have "start < window_next runes overlap start e" using window_next_bounds by blast
  then show ?case using s by simp
qed simp

declare token_windows.simps [simp del]

definition window_text :: "gotext \<Rightarrow> nat \<times> nat \<Rightarrow> gotext" where
  "window_text runes w = trim_space (take (snd w - fst w) (drop (fst w) runes))"

definition split_text_by_tokens :: "gotext \<Rightarrow> int \<Rightarrow> int \<Rightarrow> gotext list \<Rightarrow> gotext list" where
  "split_text_by_tokens txt budget overlap separators =
     (let text = trim_space txt; b = max 1 budget; v = min (max 0 overlap) (b - 1) in
      if text = [] then []
      else filter (\<lambda>p. p \<noteq> []) (map (window_text text) (token_windows text (nat b) (nat v) separators 0)))"


section \<open>Sections\<close>

definition infer_kind :: "gotext \<Rightarrow> string" where
  "infer_kind text = (case non_empty_lines text of
      [] \<Rightarrow> kind_text
    | l # ls \<Rightarrow>
        if is_code_fence l then kind_code
        else if is_markdown_table_start (l # ls) then kind_table
        else if list_item l then kind_list else kind_text)"

definition typed_section_kind :: "doc_section \<Rightarrow> string" where
  "typed_section_kind s = (if sc_kind s \<noteq> [] then sc_kind s else infer_kind (sc_text s))"

definition page_number :: "int option \<Rightarrow> int" where
  "page_number p = (case p of None \<Rightarrow> 0 | Some n \<Rightarrow> n)"

definition same_page_range :: "doc_section \<Rightarrow> doc_section \<Rightarrow> bool" where
  "same_page_range l r =
     (let ls = page_number (sc_page_number l); rs = page_number (sc_page_number r);
          le = (if sc_page_end l = 0 then ls else sc_page_end l);
          re = (if sc_page_end r = 0 then rs else sc_page_end r)
      in ls = rs \<and> le = re)"

definition can_coalesce :: "doc_section \<Rightarrow> doc_section \<Rightarrow> bool" where
  "can_coalesce a b \<longleftrightarrow>
     (typed_section_kind a = kind_text \<or> typed_section_kind a = kind_list) \<and> typed_section_kind a = typed_section_kind b \<and>
     trim_space (sc_heading_path a) = trim_space (sc_heading_path b) \<and> sc_section a = sc_section b \<and>
     sc_source_kind a = sc_source_kind b \<and> sc_slide_number a = sc_slide_number b \<and> sc_sheet_name a = sc_sheet_name b \<and>
     sc_row_start a = sc_row_start b \<and> sc_row_end a = sc_row_end b \<and> sc_column_start a = sc_column_start b \<and>
     sc_column_end a = sc_column_end b \<and> sc_encoding a = sc_encoding b \<and> sc_has_header a = sc_has_header b \<and>
     same_page_range a b \<and> (sc_source_end a = 0) = (sc_source_end b = 0)"

definition coalesce_into :: "doc_section \<Rightarrow> doc_section \<Rightarrow> doc_section" where
  "coalesce_into p s = p\<lparr>
     sc_text := trim_space (sc_text p) @ (if typed_section_kind s = kind_list then newline else blank_line) @ trim_space (sc_text s),
     sc_page_end := (if sc_page_end p = 0 then sc_page_end s else sc_page_end p),
     sc_source_start := (if sc_source_start s < sc_source_start p then sc_source_start s else sc_source_start p),
     sc_source_end := (if sc_source_end p < sc_source_end s then sc_source_end s else sc_source_end p)\<rparr>"

primrec coalesce_loop :: "doc_section list \<Rightarrow> doc_section list \<Rightarrow> doc_section list" where
  "coalesce_loop [] result = result"
| "coalesce_loop (s # ss) result =
     (if result = [] \<or> \<not> can_coalesce (last result) s then coalesce_loop ss (result @ [s])
      else coalesce_loop ss (butlast result @ [coalesce_into (last result) s]))"

definition coalesce_typed_sections :: "doc_section list \<Rightarrow> doc_section list" where
  "coalesce_typed_sections ss = (if length ss < 2 then ss else coalesce_loop ss [])"

definition heading_overhead :: "gotext \<Rightarrow> int" where
  "heading_overhead heading = (if heading = [] then 0 else 1)"

definition add_heading :: "gotext \<Rightarrow> gotext \<Rightarrow> int \<Rightarrow> gotext" where
  "add_heading heading text budget =
     (if heading = [] then trim_space text
      else let candidate = heading @ blank_line @ trim_space text in
        if int (estimate_tokens candidate) \<le> budget then candidate else trim_space text)"

definition split_leading_heading :: "gotext \<Rightarrow> gotext \<times> gotext" where
  "split_leading_heading text =
     (let lines = split newline text; first = trim_space (hd lines) in
      if markdown_heading first = None then ([], text) else (first, trim_space (join newline (tl lines))))"

definition chunk_from_section :: "doc_section \<Rightarrow> string \<Rightarrow> gotext \<Rightarrow> gotext \<Rightarrow> chunk" where
  "chunk_from_section s kind heading content =
     (let paged = (case sc_page_number s of None \<Rightarrow> False | Some n \<Rightarrow> 0 < n);
          n = page_number (sc_page_number s)
      in \<lparr> ck_content = content, ck_source_kind = (if sc_source_kind s = [] then ''native'' else sc_source_kind s),
           ck_page_number = sc_page_number s, ck_section = sc_section s, ck_kind = kind, ck_heading_path = heading,
           ck_page_start = (if paged then n else 0),
           ck_page_end = (if paged then if n \<le> sc_page_end s then sc_page_end s else n else 0),
           ck_slide_number = sc_slide_number s, ck_sheet_name = sc_sheet_name s, ck_row_start = sc_row_start s,
           ck_row_end = sc_row_end s, ck_column_start = sc_column_start s, ck_column_end = sc_column_end s,
           ck_source_start = sc_source_start s, ck_source_end = sc_source_end s, ck_token_count = 0,
           ck_token_count_is_estimate = False, ck_merged_ranges = sc_merged_ranges s, ck_encoding = sc_encoding s \<rparr>)"

subsection \<open>Tables\<close>

record table_state =
  ts_result :: "chunk list"
  ts_rows :: "gotext list"
  ts_start :: int

text \<open>\<open>header\<close> is the list of the header's lines; \<open>strings.Split(header, "\n")\<close> gives them back, or one
  empty line when there are none.\<close>

definition header_text :: "gotext list \<Rightarrow> gotext" where
  "header_text header = join newline header"

definition with_heading :: "gotext \<Rightarrow> gotext \<Rightarrow> gotext" where
  "with_heading heading text = (if heading = [] then text else heading @ blank_line @ text)"

definition flush_rows :: "doc_section \<Rightarrow> gotext \<Rightarrow> gotext list \<Rightarrow> int \<Rightarrow> table_state \<Rightarrow> table_state" where
  "flush_rows s heading header budget st =
     (let rows = ts_rows st; start = ts_start st in
      if rows = [] \<and> header_text header = [] then st
      else let parts = (if header_text header \<noteq> [] then split newline (header_text header) else []) @ rows;
               content = add_heading heading (join newline parts) budget;
               c = chunk_from_section s kind_table heading content;
               (first, final) = (if rows \<noteq> [] then (start, start + int (length rows) - 1)
                                 else if sc_row_end s < sc_row_start s then (0, 0) else (start, start))
        in \<lparr> ts_result = ts_result st @ [c\<lparr>ck_row_start := first, ck_row_end := final\<rparr>],
             ts_rows = [], ts_start = start + int (length rows) \<rparr>)"

definition row_pieces :: "doc_section \<Rightarrow> gotext \<Rightarrow> gotext list \<Rightarrow> int \<Rightarrow> int \<Rightarrow> int \<Rightarrow> gotext \<Rightarrow> chunk list" where
  "row_pieces s heading header budget base start row =
     (let room = base - int (estimate_tokens (header_text header)) - 1 in
      map (\<lambda>piece. (chunk_from_section s kind_table heading
             (add_heading heading (if header_text header \<noteq> [] then header_text header @ newline @ piece else piece) budget))
             \<lparr>ck_row_start := start, ck_row_end := start\<rparr>)
        (split_text_by_tokens row (if room < 1 then 1 else room) 0 table_separators))"

definition row_step :: "doc_section \<Rightarrow> gotext \<Rightarrow> gotext list \<Rightarrow> int \<Rightarrow> int \<Rightarrow> gotext \<Rightarrow> table_state \<Rightarrow> table_state" where
  "row_step s heading header budget base row st =
     (let candidate = with_heading heading (join newline (split newline (header_text header) @ ts_rows st @ [row])) in
      if int (estimate_tokens candidate) \<le> budget then st\<lparr>ts_rows := ts_rows st @ [row]\<rparr>
      else let st1 = (if ts_rows st = [] then st else flush_rows s heading header budget st);
               row_with_header = with_heading heading (if header_text header \<noteq> [] then header_text header @ newline @ row else row)
        in if int (estimate_tokens row_with_header) \<le> budget then st1\<lparr>ts_rows := ts_rows st1 @ [row]\<rparr>
           else st1\<lparr>ts_result := ts_result st1 @ row_pieces s heading header budget base (ts_start st1) row,
                    ts_start := ts_start st1 + 1\<rparr>)"

text \<open>The chunks and whether the header alone is over the budget.\<close>

definition split_typed_table :: "doc_section \<Rightarrow> gotext \<Rightarrow> gotext \<Rightarrow> chunk_options \<Rightarrow> chunk list \<times> bool" where
  "split_typed_table s heading text opts =
     (let lines = non_empty_lines text; budget = co_token_budget opts in
      if lines = [] then ([], False)
      else let header_count = (if \<not> sc_has_header s then 0
                 else if 1 < length lines \<and> is_table_separator (lines ! 1) then 2 else 1);
               header = take header_count lines;
               base0 = budget - int (estimate_tokens heading) - heading_overhead heading;
               base = (if base0 < 1 then 1 else base0) in
        if header_text header \<noteq> [] \<and> base \<le> int (estimate_tokens (header_text header)) then ([], True)
        else let start = (if sc_row_start s \<le> 0 then 1 + int header_count else sc_row_start s);
                 st = fold (row_step s heading header budget base) (drop header_count lines)
                        \<lparr> ts_result = [], ts_rows = [], ts_start = start \<rparr>;
                 result = ts_result (flush_rows s heading header budget st)
          in (if result = [] then [chunk_from_section s kind_table heading (add_heading heading (join newline lines) budget)]
              else result, False))"

section \<open>A document\<close>

text \<open>\<open>appendChunk\<close>: \<open>None\<close> when the limit is reached.\<close>

definition append_chunk :: "int \<Rightarrow> chunk \<Rightarrow> chunk list \<Rightarrow> chunk list option" where
  "append_chunk limit c chunks = (if limit \<le> int (length chunks) then None
     else Some (chunks @ [c\<lparr>ck_token_count := int (estimate_tokens (ck_content c)), ck_token_count_is_estimate := True\<rparr>]))"

text \<open>The chunks and whether one did not fit.\<close>

primrec append_chunks :: "int \<Rightarrow> chunk list \<Rightarrow> chunk list \<Rightarrow> chunk list \<times> bool" where
  "append_chunks limit [] chunks = (chunks, False)"
| "append_chunks limit (c # cs) chunks =
     (case append_chunk limit c chunks of None \<Rightarrow> (chunks, True) | Some chunks' \<Rightarrow> append_chunks limit cs chunks')"

text \<open>The chunks of one section; the flag tells that a table header is over the budget.\<close>

definition section_chunks :: "chunk_options \<Rightarrow> doc_section \<Rightarrow> chunk list \<times> bool" where
  "section_chunks opts s =
     (let kind = typed_section_kind s; path = trim_space (sc_heading_path s); text0 = normalize_lines (sc_text s);
          (heading, text) = (if path = [] then split_leading_heading text0 else (path, text0)) in
      if kind = kind_table then split_typed_table s heading text opts
      else let separators = (if kind = kind_code then typed_code_separators
                 else if kind = kind_list then typed_list_separators else typed_text_separators);
               body = co_token_budget opts - int (estimate_tokens heading) - heading_overhead heading;
               pieces = split_text_by_tokens text (if body < 1 then 1 else body) (co_overlap opts) separators
        in (map (\<lambda>piece. chunk_from_section s kind heading (add_heading heading piece (co_token_budget opts))) pieces, False))"

primrec typed_loop :: "chunk_options \<Rightarrow> doc_section list \<Rightarrow> chunk_result \<Rightarrow> chunk_result" where
  "typed_loop opts [] r = r"
| "typed_loop opts (s # ss) r =
     (if trim_space (sc_text s) = [] then typed_loop opts ss r
      else case section_chunks opts s of (chunks, incomplete) \<Rightarrow>
        if incomplete then r\<lparr>cr_truncated := True, cr_warnings := cr_warnings r @ [''table header exceeds the configured token budget'']\<rparr>
        else case append_chunks (co_max_chunks opts) chunks (cr_chunks r) of (all, full) \<Rightarrow>
          if full then r\<lparr>cr_chunks := all, cr_truncated := True\<rparr> else typed_loop opts ss (r\<lparr>cr_chunks := all\<rparr>))"

definition make_typed_chunks :: "doc_section list \<Rightarrow> chunk_options \<Rightarrow> chunk_result" where
  "make_typed_chunks sections o1 =
     (let opts = normalize_chunk_options o1 in
      typed_loop opts (coalesce_typed_sections sections)
        \<lparr> cr_chunks = [], cr_truncated = False, cr_warnings = [], cr_version = co_version opts, cr_tokenizer_id = co_tokenizer_id opts \<rparr>)"

end
