(* ===== verification/ChunkFlow.thy ===== *)
theory ChunkFlow
  imports TypedChunking "HOL-Library.Sublist"
begin

text \<open>
  What holds of the chunks of a document: pieces keep to their limit of runes or tokens, the incremental
  counter agrees with \<open>EstimateTokens\<close>, and splitting loses no text but white space.
\<close>

section \<open>Estimated tokens\<close>

abbreviation est :: "nat \<Rightarrow> gotext \<Rightarrow> nat" where "est run s \<equiv> estimate_loop 0 run s"

lemma estimate_loop_shift: "estimate_loop n run s = n + est run s"
proof (induction s arbitrary: n run)
  case (Cons r s)
  let ?w = "(run + 3) div 4"
  show ?case using Cons[of n "run + 1"] Cons[of "n + ?w" 0] Cons[of ?w 0] Cons[of "Suc (n + ?w)" 0] Cons[of "Suc ?w" 0]
    by (simp add: Let_def)
qed simp

lemma space_not_token: "is_space r \<Longrightarrow> \<not> ascii_token_rune r"
  by (auto simp: is_space_def ascii_token_rune_def)

lemma est_Cons:
  "est run (r # s) = (if ascii_token_rune r then est (run + 1) s
     else (run + 3) div 4 + (if is_space r then 0 else 1) + est 0 s)"
  using estimate_loop_shift[of "(run + 3) div 4" 0 s] estimate_loop_shift[of "Suc ((run + 3) div 4)" 0 s] by (simp add: Let_def)

declare estimate_loop.simps(2) [simp del]

lemma est_run_le: "(run + 3) div 4 \<le> est run s"
proof (induction s arbitrary: run)
  case (Cons r s)
  have "(run + 3) div 4 \<le> (run + 1 + 3) div 4" by (rule div_le_mono) simp
  then show ?case using Cons[of "run + 1"] by (auto simp: est_Cons intro: order_trans)
qed simp

lemma est_prefix: "est run a \<le> est run (a @ b)"
  by (induction a arbitrary: run) (simp_all add: est_run_le est_Cons)

lemma est_take: "est run (take k s) \<le> est run s"
  using est_prefix[of run "take k s" "drop k s"] by simp

lemma est_spaces_left: "\<forall>r \<in> set p. is_space r \<Longrightarrow> est 0 (p @ s) = est 0 s"
  by (induction p) (auto simp: est_Cons space_not_token)

lemma est_spaces_right: "\<forall>r \<in> set q. is_space r \<Longrightarrow> est run (s @ q) = est run s"
proof (induction s arbitrary: run)
  case Nil
  then show ?case
  proof (cases q)
    case (Cons r q')
    have "est 0 q' = est 0 []" using est_spaces_left[of q' "[]"] Nil Cons by simp
    then show ?thesis using Nil Cons by (simp add: est_Cons space_not_token)
  qed simp
qed (simp add: est_Cons)

lemma estimate_trim [simp]: "estimate_tokens (trim_space s) = estimate_tokens s"
proof -
  obtain p q where d: "s = p @ trim_space s @ q" "\<forall>x \<in> set p. is_space x" "\<forall>x \<in> set q. is_space x"
    by (rule trim_func_decomp)
  have "est 0 (p @ trim_space s @ q) = est 0 (trim_space s)" using est_spaces_left[OF d(2)] est_spaces_right[OF d(3)] by simp
  then show ?thesis using d(1) by (simp add: estimate_tokens_def)
qed

lemma estimate_Nil [simp]: "estimate_tokens [] = 0"
  by (simp add: estimate_tokens_def)

lemma estimate_newline [simp]: "estimate_tokens (a @ 10 # b) = estimate_tokens a + estimate_tokens b"
proof -
  have "est run (a @ 10 # b) = est run a + est 0 b" for run
  proof (induction a arbitrary: run)
    case Nil
    have "\<not> ascii_token_rune 10" by (simp add: ascii_token_rune_def)
    then show ?case by (simp add: est_Cons)
  qed (simp add: est_Cons)
  then show ?thesis by (simp add: estimate_tokens_def)
qed

lemma estimate_newline_first [simp]: "estimate_tokens (10 # b) = estimate_tokens b"
  using estimate_newline[of "[]" b] by (simp only: append_Nil estimate_Nil)

lemma estimate_join: "estimate_tokens (join newline xs) = sum_list (map estimate_tokens xs)"
proof (induction xs)
  case (Cons x xs)
  then show ?case by (cases xs) simp_all
qed simp

lemma estimate_with_heading: "estimate_tokens (with_heading h t) = estimate_tokens h + estimate_tokens t"
  by (simp add: with_heading_def)

lemma estimate_add_heading:
  "int (estimate_tokens t) \<le> budget \<Longrightarrow> int (estimate_tokens (add_heading h t budget)) \<le> budget"
  by (simp add: add_heading_def Let_def)

subsection \<open>Counting as runes are added\<close>

text \<open>The prefix that fits costs, by the full estimate, no more than the budget.\<close>

lemma fit_loop_estimate:
  "used \<le> budget \<Longrightarrow> est run (take (fit_loop budget used run rs) rs) + used \<le> budget + (run + 3) div 4"
proof (induction rs arbitrary: used run)
  case (Cons r rs)
  show ?case
  proof (cases "budget < used + rune_cost r run")
    case False
    have IH: "est (next_run r run) (take (fit_loop budget (used + rune_cost r run) (next_run r run) rs) rs) + (used + rune_cost r run) \<le>
        budget + (next_run r run + 3) div 4" using Cons.IH False by simp
    show ?thesis
    proof (cases "ascii_token_rune r")
      case True
      have "(run + 1 + 3) div 4 = (run + 3) div 4 + (if run mod 4 = 0 then 1 else 0)" by presburger
      then show ?thesis using IH False True by (simp add: est_Cons rune_cost_def next_run_def split: if_splits)
    next
      case na: False
      then show ?thesis using IH False by (simp add: est_Cons rune_cost_def next_run_def split: if_splits)
    qed
  qed (use Cons.prems in simp)
qed simp

text \<open>One rune more would not fit: the incremental count is exact.\<close>

lemma fit_loop_maximal:
  assumes "fit_loop budget used run rs < length rs" "used \<le> budget"
  shows "budget + (run + 3) div 4 < est run (take (Suc (fit_loop budget used run rs)) rs) + used"
  using assms
proof (induction rs arbitrary: used run)
  case (Cons r rs)
  have step: "(run + 1 + 3) div 4 = (run + 3) div 4 + (if run mod 4 = 0 then 1 else 0)" by presburger
  show ?case
  proof (cases "budget < used + rune_cost r run")
    case True
    then show ?thesis using step by (simp add: est_Cons rune_cost_def split: if_splits)
  next
    case False
    have IH: "budget + (next_run r run + 3) div 4 <
        est (next_run r run) (take (Suc (fit_loop budget (used + rune_cost r run) (next_run r run) rs)) rs) + (used + rune_cost r run)"
      using Cons.IH[of "used + rune_cost r run" "next_run r run"] Cons.prems(1) False by simp
    show ?thesis using IH False step by (simp add: est_Cons rune_cost_def next_run_def split: if_splits)
  qed
qed simp

text \<open>The position up to which the splitter's incremental counter takes a text is exactly the longest one whose
  estimate is within the budget.\<close>

theorem fitting_end_matches_estimate:
  "estimate_tokens (take k (drop start runes)) \<le> budget \<longleftrightarrow>
     start + k \<le> fitting_token_end runes start budget \<or> start + length (drop start runes) = fitting_token_end runes start budget"
proof (intro iffI)
  let ?rs = "drop start runes" and ?n = "fit_loop budget 0 0 (drop start runes)"
  show "start + k \<le> fitting_token_end runes start budget \<or> start + length ?rs = fitting_token_end runes start budget"
    if h: "estimate_tokens (take k ?rs) \<le> budget"
  proof (rule ccontr)
    assume "\<not> ?thesis"
    then have n: "?n < k" "?n < length ?rs" using fit_loop_le[of budget 0 0 ?rs] by (auto simp: fitting_token_end_def)
    have "budget < est 0 (take (Suc ?n) ?rs)" using fit_loop_maximal[OF n(2)] by simp
    also have "\<dots> \<le> est 0 (take k ?rs)" using est_take[of 0 "Suc ?n" "take k ?rs"] n(1) by (simp add: min_def)
    finally show False using h by (simp add: estimate_tokens_def)
  qed
  show "estimate_tokens (take k ?rs) \<le> budget"
    if h: "start + k \<le> fitting_token_end runes start budget \<or> start + length ?rs = fitting_token_end runes start budget"
  proof -
    have "take k ?rs = take k (take ?n ?rs)" using h fit_loop_le[of budget 0 0 ?rs] by (auto simp: fitting_token_end_def min_def)
    then have "est 0 (take k ?rs) \<le> est 0 (take ?n ?rs)" using est_take[of 0 k "take ?n ?rs"] by simp
    then show ?thesis using fit_loop_estimate[of 0 budget 0 ?rs] by (simp add: estimate_tokens_def)
  qed
qed

section \<open>Windows\<close>

lemma window_end_fits: "window_end runes budget seps start \<le> fitting_token_end runes start budget"
proof (cases "start < fitting_token_end runes start budget")
  case True
  then show ?thesis using preferred_split_end_bounds[OF True] by (simp add: window_end_def Let_def)
next
  case False
  have "preferred_split_end runes start m e seps \<le> e" if "e = start" for m e
  proof (induction seps)
    case (Cons sep seps)
    have "find (cut_allowed runes start sep) (rev [max m (start + 1)..<e + 1]) = None"
      using that by (auto simp: find_None_iff)
    then show ?case using Cons by simp
  qed simp
  moreover have "fitting_token_end runes start budget = start" using False by (simp add: fitting_token_end_def)
  ultimately show ?thesis by (simp add: window_end_def Let_def)
qed

lemma window_text_fits:
  assumes "(s, e) \<in> set (token_windows runes budget overlap seps start)"
  shows "estimate_tokens (window_text runes (s, e)) \<le> max 1 budget"
  using assms
proof (induction runes budget overlap seps start rule: token_windows.induct)
  case (1 runes budget overlap seps start)
  let ?e = "window_end runes (max 1 budget) seps start"
  consider "s = start" "e = ?e" | "(s, e) \<in> set (token_windows runes budget overlap seps (window_next runes overlap start ?e))"
      "\<not> length runes \<le> start" "?e \<noteq> length runes"
    using 1(2) by (subst (asm) token_windows.simps) (auto simp: Let_def split: if_splits)
  then show ?case
  proof cases
    case 1
    have "start + (?e - start) \<le> fitting_token_end runes start (max 1 budget) \<or> ?e - start = 0"
      using window_end_fits[of runes "max 1 budget" seps start] by linarith
    then have "estimate_tokens (take (?e - start) (drop start runes)) \<le> max 1 budget"
      using fit_loop_estimate[of 0 "max 1 budget" 0 "drop start runes"]
        est_take[of 0 "?e - start" "take (fit_loop (max 1 budget) 0 0 (drop start runes)) (drop start runes)"]
      by (auto simp: estimate_tokens_def fitting_token_end_def min_def)
    then show ?thesis using 1 by (simp add: window_text_def del: max_def)
  next
    case 2
    then show ?thesis using "1.IH"[OF 2(2) refl 2(3)] by blast
  qed
qed

lemma split_pieces_fit:
  assumes "p \<in> set (split_text_by_tokens text budget overlap seps)"
  shows "int (estimate_tokens p) \<le> max 1 budget" "p \<noteq> []"
proof -
  obtain v w where "w \<in> set (token_windows (trim_space text) (nat (max 1 budget)) v seps 0)" "p = window_text (trim_space text) w"
    using assms by (auto simp: split_text_by_tokens_def Let_def split: if_splits)
  then have "estimate_tokens p \<le> max 1 (nat (max 1 budget))" using window_text_fits[of "fst w" "snd w" "trim_space text" "nat (max 1 budget)" v seps 0]
    unfolding prod.collapse by blast
  then show "int (estimate_tokens p) \<le> max 1 budget" by linarith
  show "p \<noteq> []" using assms by (auto simp: split_text_by_tokens_def Let_def split: if_splits)
qed

text \<open>What is left of a text without its white space.\<close>

definition words_of :: "gotext \<Rightarrow> gotext" where "words_of s = filter (\<lambda>r. \<not> is_space r) s"

lemma words_of_simps [simp]: "words_of [] = []" "words_of (a @ b) = words_of a @ words_of b"
  by (simp_all add: words_of_def)

lemma words_of_trim [simp]: "words_of (trim_space s) = words_of s"
proof -
  obtain p q where d: "s = p @ trim_space s @ q" "\<forall>x \<in> set p. is_space x" "\<forall>x \<in> set q. is_space x"
    by (rule trim_func_decomp)
  have "words_of p = []" "words_of q = []" using d(2,3) by (simp_all add: words_of_def filter_empty_conv)
  then have "words_of (p @ trim_space s @ q) = words_of (trim_space s)" by simp
  then show ?thesis using d(1) by simp
qed

lemma words_of_drop_subseq: "m \<le> n \<Longrightarrow> subseq (words_of (drop n s)) (words_of (drop m s))"
proof -
  assume "m \<le> n"
  then have "drop m s = take (n - m) (drop m s) @ drop n s"
    using append_take_drop_id[of "n - m" "drop m s"] by simp
  then have "words_of (drop m s) = words_of (take (n - m) (drop m s)) @ words_of (drop n s)" by (metis words_of_simps(2))
  then show ?thesis by (simp add: list_emb_append2)
qed

text \<open>The windows follow each other without a gap up to the end of the text.\<close>

lemma windows_cover:
  "subseq (words_of (drop start runes)) (words_of (concat (map (window_text runes) (token_windows runes budget overlap seps start))))"
proof (induction runes budget overlap seps start rule: token_windows.induct)
  case (1 runes budget overlap seps start)
  show ?case
  proof (cases "length runes \<le> start")
    case True
    then show ?thesis by simp
  next
    case False
    define e where "e = window_end runes (max 1 budget) seps start"
    have b: "start < e" "e \<le> length runes" using window_end_bounds[of start runes "max 1 budget" seps] False by (auto simp: e_def)
    have split: "words_of (drop start runes) = words_of (window_text runes (start, e)) @ words_of (drop e runes)"
      using append_take_drop_id[of "e - start" "drop start runes"] b(1)
      by (metis words_of_simps(2) drop_drop le_add_diff_inverse2 less_imp_le words_of_trim window_text_def fst_conv snd_conv)
    show ?thesis
    proof (cases "e = length runes")
      case True
      then show ?thesis using split False by (subst token_windows.simps) (simp add: Let_def flip: e_def del: One_nat_def)
    next
      case ne: False
      let ?n = "window_next runes overlap start e"
      have "subseq (words_of (drop ?n runes)) (words_of (concat (map (window_text runes) (token_windows runes budget overlap seps ?n))))"
        by (rule "1"[OF False e_def ne])
      moreover have "subseq (words_of (drop e runes)) (words_of (drop ?n runes))"
        by (rule words_of_drop_subseq) (use window_next_bounds[OF b(1)] in blast)
      ultimately have "subseq (words_of (drop e runes)) (words_of (concat (map (window_text runes) (token_windows runes budget overlap seps ?n))))"
        by (rule subseq_order.order_trans[rotated])
      from list_emb_append_mono[OF subseq_order.order_refl this] show ?thesis
        using False ne unfolding split by (subst token_windows.simps) (simp add: Let_def flip: e_def del: One_nat_def)
    qed
  qed
qed

lemma concat_nonempty: "concat (filter (\<lambda>p. p \<noteq> []) ps) = concat ps"
  by (induction ps) auto

lemma token_split_keeps_words: "subseq (words_of raw) (words_of (concat (split_text_by_tokens raw budget overlap seps)))"
proof (cases "trim_space raw = []")
  case True
  then have "words_of raw = []" using words_of_trim[of raw] by simp
  then show ?thesis by simp
next
  case False
  then show ?thesis
    using windows_cover[of 0 "trim_space raw" "nat (max 1 budget)" "nat (min (max 0 overlap) (max 1 budget - 1))" seps]
    by (simp add: split_text_by_tokens_def Let_def concat_nonempty del: max_def)
qed

text \<open>C40: Splitting under a token budget keeps every piece within the budget and loses no text: the runes that are
  not white space appear in the pieces, in order.\<close>

theorem token_split_fits_and_keeps_text:
  "list_all (\<lambda>p. p \<noteq> [] \<and> int (estimate_tokens p) \<le> max 1 budget) (split_text_by_tokens raw budget overlap seps) \<and>
   subseq (words_of raw) (words_of (concat (split_text_by_tokens raw budget overlap seps)))"
  using split_pieces_fit token_split_keeps_words by (auto simp: list_all_iff simp del: max_def)

section \<open>Documents stay within the budget\<close>

definition within :: "int \<Rightarrow> chunk \<Rightarrow> bool" where
  "within budget c \<longleftrightarrow> int (estimate_tokens (ck_content c)) \<le> budget"

lemma chunk_from_section_content [simp]: "ck_content (chunk_from_section s kind h content) = content"
  by (simp add: chunk_from_section_def Let_def)

lemma within_updates [simp]:
  "within b (c\<lparr>ck_row_start := i, ck_row_end := j\<rparr>) = within b c"
  by (simp add: within_def)

lemma within_heading: "int (estimate_tokens t) \<le> b \<Longrightarrow> within b (chunk_from_section s kind h (add_heading h t b))"
  by (simp add: within_def estimate_add_heading)

lemma estimate_header_rows:
  "estimate_tokens (join newline ((if header_text header \<noteq> [] then split newline (header_text header) else []) @ rows)) =
     estimate_tokens (header_text header) + sum_list (map estimate_tokens rows)"
  "estimate_tokens (join newline (split newline (header_text header) @ rows)) =
     estimate_tokens (header_text header) + sum_list (map estimate_tokens rows)"
proof -
  have "sum_list (map estimate_tokens (split newline (header_text header))) = estimate_tokens (header_text header)"
    using estimate_join[of "split newline (header_text header)"] join_split[of newline "header_text header"] by simp
  then show "estimate_tokens (join newline ((if header_text header \<noteq> [] then split newline (header_text header) else []) @ rows)) =
      estimate_tokens (header_text header) + sum_list (map estimate_tokens rows)"
    "estimate_tokens (join newline (split newline (header_text header) @ rows)) =
      estimate_tokens (header_text header) + sum_list (map estimate_tokens rows)"
    by (simp_all add: estimate_join)
qed

text \<open>The chunks written and the rows waiting all fit.\<close>

definition table_ok :: "gotext \<Rightarrow> gotext list \<Rightarrow> int \<Rightarrow> table_state \<Rightarrow> bool" where
  "table_ok heading header budget st \<longleftrightarrow> list_all (within budget) (ts_result st) \<and>
     (ts_rows st \<noteq> [] \<longrightarrow> int (estimate_tokens heading + estimate_tokens (header_text header) +
        sum_list (map estimate_tokens (ts_rows st))) \<le> budget)"

lemma flush_rows_ok:
  assumes "table_ok heading header budget st" "int (estimate_tokens (header_text header)) \<le> budget"
  shows "table_ok heading header budget (flush_rows s heading header budget st)" "ts_rows st \<noteq> [] \<Longrightarrow> ts_rows (flush_rows s heading header budget st) = []"
proof -
  have "int (estimate_tokens (header_text header) + sum_list (map estimate_tokens (ts_rows st))) \<le> budget"
    using assms by (cases "ts_rows st = []") (auto simp: table_ok_def)
  then have "within budget (chunk_from_section s kind_table heading (add_heading heading
      (join newline ((if header_text header \<noteq> [] then split newline (header_text header) else []) @ ts_rows st)) budget))"
    by (intro within_heading) (simp only: estimate_header_rows)
  then show "table_ok heading header budget (flush_rows s heading header budget st)"
    using assms(1) by (auto simp: flush_rows_def Let_def table_ok_def split: prod.splits if_splits)
  show "ts_rows st \<noteq> [] \<Longrightarrow> ts_rows (flush_rows s heading header budget st) = []"
    by (simp add: flush_rows_def Let_def split: prod.splits)
qed

lemma row_pieces_ok:
  assumes "header_text header \<noteq> [] \<Longrightarrow> int (estimate_tokens (header_text header)) < base" "base \<le> budget" "1 \<le> base"
  shows "list_all (within budget) (row_pieces s heading header budget base start row)"
proof -
  let ?H = "header_text header" and ?room = "base - int (estimate_tokens (header_text header)) - 1"
  have "within budget (chunk_from_section s kind_table heading (add_heading heading (if ?H \<noteq> [] then ?H @ newline @ p else p) budget))"
    if "p \<in> set (split_text_by_tokens row (if ?room < 1 then 1 else ?room) 0 table_separators)" for p
  proof (rule within_heading)
    have "int (estimate_tokens p) \<le> max 1 ?room" using split_pieces_fit(1)[OF that] by (auto split: if_splits)
    then show "int (estimate_tokens (if ?H \<noteq> [] then ?H @ newline @ p else p)) \<le> budget"
      using assms by (cases "?H = []") auto
  qed
  then show ?thesis by (auto simp: row_pieces_def Let_def list_all_iff)
qed

lemma row_step_ok:
  assumes "table_ok heading header budget st" "header_text header \<noteq> [] \<Longrightarrow> int (estimate_tokens (header_text header)) < base"
    "base \<le> budget" "1 \<le> base"
  shows "table_ok heading header budget (row_step s heading header budget base row st)"
proof -
  let ?H = "header_text header"
  define st1 where "st1 = (if ts_rows st = [] then st else flush_rows s heading header budget st)"
  have hb: "int (estimate_tokens ?H) \<le> budget" using assms(2-4) by (cases "?H = []") auto
  have 1: "table_ok heading header budget st1" "ts_rows st1 = []"
    using flush_rows_ok[OF assms(1) hb] assms(1) by (auto simp: st1_def)
  have cand: "estimate_tokens (with_heading heading (join newline (split newline ?H @ ts_rows st @ [row]))) =
      estimate_tokens heading + (estimate_tokens ?H + sum_list (map estimate_tokens (ts_rows st @ [row])))"
    unfolding estimate_with_heading estimate_header_rows(2) ..
  have single: "estimate_tokens (with_heading heading (if ?H \<noteq> [] then ?H @ newline @ row else row)) =
      estimate_tokens heading + estimate_tokens ?H + estimate_tokens row"
    unfolding estimate_with_heading by simp
  have pieces: "list_all (within budget) (row_pieces s heading header budget base (ts_start st1) row)"
    by (rule row_pieces_ok[OF assms(2-4)])
  show ?thesis unfolding row_step_def Let_def st1_def[symmetric] cand single
    using assms(1) 1 pieces by (simp add: table_ok_def)
qed

lemma row_fold_ok:
  assumes "table_ok heading header budget st" "header_text header \<noteq> [] \<Longrightarrow> int (estimate_tokens (header_text header)) < base"
    "base \<le> budget" "1 \<le> base"
  shows "table_ok heading header budget (fold (row_step s heading header budget base) rows st)"
  using assms(1) by (induction rows arbitrary: st) (use row_step_ok[OF _ assms(2-4)] in auto)

text \<open>A table with a line leaves rows or chunks behind.\<close>

lemma split_pieces_nonempty:
  assumes "trim_space row \<noteq> []"
  shows "split_text_by_tokens row b v seps \<noteq> []"
proof
  assume "split_text_by_tokens row b v seps = []"
  then have "words_of row = []" using token_split_keeps_words[of row b v seps] by simp
  then show False using assms by (auto simp: words_of_def filter_empty_conv trim_func_eq_Nil_iff)
qed

definition table_started :: "table_state \<Rightarrow> bool" where
  "table_started st \<longleftrightarrow> ts_result st \<noteq> [] \<or> ts_rows st \<noteq> []"

lemma flush_rows_started: "table_started st \<or> header_text header \<noteq> [] \<Longrightarrow> ts_result (flush_rows s heading header budget st) \<noteq> []"
  by (auto simp: flush_rows_def Let_def table_started_def split: prod.splits)

lemma row_step_started:
  assumes "trim_space row \<noteq> []"
  shows "table_started (row_step s heading header budget base row st)"
proof -
  have "row_pieces s heading header budget base start row \<noteq> []" for start
    using split_pieces_nonempty[OF assms] by (simp add: row_pieces_def Let_def)
  then show ?thesis by (simp add: row_step_def Let_def table_started_def)
qed

lemma row_fold_started:
  "rows \<noteq> [] \<Longrightarrow> \<forall>r \<in> set rows. trim_space r \<noteq> [] \<Longrightarrow> table_started (fold (row_step s heading header budget base) rows st)"
proof (induction rows arbitrary: st)
  case (Cons r rows)
  show ?case
  proof (cases "rows = []")
    case True
    then show ?thesis using Cons.prems row_step_started by simp
  next
    case False
    then show ?thesis using Cons by simp
  qed
qed simp

lemma split_typed_table_ok:
  assumes "split_typed_table s heading raw opts = (cs, inc)" "1 \<le> co_token_budget opts"
  shows "list_all (within (co_token_budget opts)) cs"
proof -
  define ls where "ls = non_empty_lines raw"
  define n where "n = (if \<not> sc_has_header s then 0 else if 1 < length ls \<and> is_table_separator (ls ! 1) then 2 else (1::nat))"
  define base0 where "base0 = co_token_budget opts - int (estimate_tokens heading) - heading_overhead heading"
  define base where "base = (if base0 < 1 then 1 else base0)"
  have b: "base \<le> co_token_budget opts" "1 \<le> base" using assms(2) by (auto simp: base_def base0_def heading_overhead_def)
  let ?B = "co_token_budget opts" and ?header = "take n ls"
  define st0 where "st0 = \<lparr> ts_result = [], ts_rows = [], ts_start = (if sc_row_start s \<le> 0 then 1 + int n else sc_row_start s) \<rparr>"
  define st where "st = fold (row_step s heading ?header ?B base) (drop n ls) st0"
  note eq = assms(1)[unfolded split_typed_table_def Let_def, folded ls_def, folded n_def, folded base0_def, folded base_def, folded st0_def, folded st_def]
  show ?thesis
  proof (cases "ls = [] \<or> header_text ?header \<noteq> [] \<and> base \<le> int (estimate_tokens (header_text ?header))")
    case True
    then show ?thesis using eq by (auto split: if_splits)
  next
    case False
    then have h: "header_text ?header \<noteq> [] \<Longrightarrow> int (estimate_tokens (header_text ?header)) < base" and l: "ls \<noteq> []" by auto
    have ok: "table_ok heading ?header ?B st" unfolding st_def by (rule row_fold_ok[OF _ h b]) (simp add: table_ok_def st0_def)
    have hb: "int (estimate_tokens (header_text ?header)) \<le> ?B" using h b by (cases "header_text ?header = []") auto
    have lines: "\<forall>r \<in> set ls. r \<noteq> [] \<and> trim_space r \<noteq> []" by (auto simp: ls_def non_empty_lines_def)
    have "table_started st \<or> header_text ?header \<noteq> []"
    proof (cases "header_text ?header = []")
      case True
      then have "n = 0" using lines l unfolding header_text_def by (cases ls; cases n; cases "tl ls") (auto simp: take_Cons split: nat.splits)
      then have "drop n ls \<noteq> []" "\<forall>r \<in> set (drop n ls). trim_space r \<noteq> []" using l lines by auto
      then show ?thesis unfolding st_def using row_fold_started by blast
    qed simp
    then have "ts_result (flush_rows s heading ?header ?B st) \<noteq> []" by (rule flush_rows_started)
    then have "cs = ts_result (flush_rows s heading ?header ?B st)" using eq False by (auto split: if_splits)
    then show ?thesis using flush_rows_ok(1)[OF ok hb] by (simp add: table_ok_def)
  qed
qed

lemma section_chunks_ok:
  assumes "section_chunks opts s = (cs, inc)" "1 \<le> co_token_budget opts"
  shows "list_all (within (co_token_budget opts)) cs"
proof -
  define kind where "kind = typed_section_kind s"
  obtain heading raw where ht: "(if trim_space (sc_heading_path s) = [] then split_leading_heading (normalize_lines (sc_text s))
      else (trim_space (sc_heading_path s), normalize_lines (sc_text s))) = (heading, raw)" by (metis surj_pair)
  let ?body = "co_token_budget opts - int (estimate_tokens heading) - heading_overhead heading"
  note eq = assms(1)[unfolded section_chunks_def Let_def ht prod.case, folded kind_def]
  show ?thesis
  proof (cases "kind = kind_table")
    case True
    then show ?thesis using eq split_typed_table_ok assms(2) by simp
  next
    case False
    have "within (co_token_budget opts) (chunk_from_section s kind heading (add_heading heading p (co_token_budget opts)))"
      if "p \<in> set (split_text_by_tokens raw (if ?body < 1 then 1 else ?body) v seps)" for p v seps
      by (rule within_heading) (use split_pieces_fit(1)[OF that] assms(2) in \<open>auto simp: heading_overhead_def split: if_splits\<close>)
    then show ?thesis using eq False by (auto simp: list_all_iff)
  qed
qed

definition counted :: "chunk \<Rightarrow> bool" where
  "counted c \<longleftrightarrow> ck_token_count c = int (estimate_tokens (ck_content c)) \<and> ck_token_count_is_estimate c"

lemma append_chunks_ok:
  "append_chunks limit cs chunks = (chunks', full) \<Longrightarrow> list_all (within b) cs \<Longrightarrow> list_all (\<lambda>c. within b c \<and> counted c) chunks \<Longrightarrow>
     int (length chunks) \<le> limit \<Longrightarrow> list_all (\<lambda>c. within b c \<and> counted c) chunks' \<and> int (length chunks') \<le> limit"
proof (induction cs arbitrary: chunks)
  case (Cons c cs)
  show ?case
  proof (cases "limit \<le> int (length chunks)")
    case True
    then show ?thesis using Cons.prems by (simp add: append_chunk_def)
  next
    case False
    let ?c = "c\<lparr>ck_token_count := int (estimate_tokens (ck_content c)), ck_token_count_is_estimate := True\<rparr>"
    have "append_chunks limit cs (chunks @ [?c]) = (chunks', full)" using Cons.prems(1) False by (simp add: append_chunk_def)
    then show ?thesis by (rule Cons.IH) (use Cons.prems False in \<open>auto simp: within_def counted_def\<close>)
  qed
qed simp

lemma typed_loop_ok:
  assumes "1 \<le> co_token_budget opts" "list_all (\<lambda>c. within (co_token_budget opts) c \<and> counted c) (cr_chunks r)"
    "int (length (cr_chunks r)) \<le> co_max_chunks opts"
  shows "list_all (\<lambda>c. within (co_token_budget opts) c \<and> counted c) (cr_chunks (typed_loop opts ss r)) \<and>
    int (length (cr_chunks (typed_loop opts ss r))) \<le> co_max_chunks opts"
  using assms(2,3)
proof (induction ss arbitrary: r)
  case (Cons s ss)
  obtain cs inc where sc: "section_chunks opts s = (cs, inc)" by (cases "section_chunks opts s")
  obtain chunks full where ac: "append_chunks (co_max_chunks opts) cs (cr_chunks r) = (chunks, full)"
    by (cases "append_chunks (co_max_chunks opts) cs (cr_chunks r)")
  note ok = append_chunks_ok[OF ac section_chunks_ok[OF sc assms(1)] Cons.prems]
  show ?case using Cons.prems ok Cons.IH[of r] Cons.IH[of "r\<lparr>cr_chunks := chunks\<rparr>"] sc ac by simp
qed simp

text \<open>C39: Whatever sections a parser hands over, no chunk is estimated over the token budget, each carries its own
  estimate, and there are no more of them than the options and the limit of 256 allow.\<close>

theorem typed_chunks_within_budget:
  "let opts = normalize_chunk_options o1; chunks = cr_chunks (make_typed_chunks sections o1) in
   list_all (\<lambda>c. ck_token_count c = int (estimate_tokens (ck_content c)) \<and> ck_token_count c \<le> co_token_budget opts) chunks \<and>
   int (length chunks) \<le> co_max_chunks opts \<and> length chunks \<le> 256"
proof -
  define opts where "opts = normalize_chunk_options o1"
  have o: "1 \<le> co_token_budget opts" "0 \<le> co_max_chunks opts" "co_max_chunks opts \<le> 256"
    by (auto simp: opts_def normalize_chunk_options_def Let_def max_chunks_per_document_def)
  have "list_all (\<lambda>c. within (co_token_budget opts) c \<and> counted c) (cr_chunks (make_typed_chunks sections o1)) \<and>
      int (length (cr_chunks (make_typed_chunks sections o1))) \<le> co_max_chunks opts"
    unfolding make_typed_chunks_def Let_def opts_def[symmetric] by (rule typed_loop_ok[OF o(1)]) (use o(2) in simp_all)
  then show ?thesis unfolding Let_def opts_def[symmetric] using o(3) by (auto simp: list_all_iff within_def counted_def)
qed

section \<open>Splitting by runes\<close>

lemma hard_atoms_concat: "limit \<noteq> 0 \<Longrightarrow> concat (hard_atoms limit s) = s"
proof (induction limit s rule: hard_atoms.induct)
  case (1 limit s)
  show ?case
  proof (cases "s = []")
    case False
    then show ?thesis using 1 by (subst hard_atoms.simps) simp
  qed (simp add: hard_atoms.simps)
qed

lemma hard_atoms_length: "a \<in> set (hard_atoms limit s) \<Longrightarrow> length a \<le> limit"
proof (induction limit s rule: hard_atoms.induct)
  case (1 limit s)
  show ?case
  proof (cases "s = [] \<or> limit = 0")
    case True
    then show ?thesis using 1(2) by (subst (asm) hard_atoms.simps) simp
  next
    case False
    then have "a = take limit s \<or> a \<in> set (hard_atoms limit (drop limit s))" using 1(2) by (subst (asm) hard_atoms.simps) simp
    then show ?thesis using 1(1)[OF False] by auto
  qed
qed

lemma split_after_parts_concat: "split_after_parts s separator \<noteq> [] \<Longrightarrow> concat (split_after_parts s separator) = s"
proof -
  assume "split_after_parts s separator \<noteq> []"
  let ?parts = "split_after separator s"
  have ne: "?parts \<noteq> []" by (subst split_after.simps) (simp split: option.split prod.split)
  have "concat (if last ?parts = [] then butlast ?parts else ?parts) = concat ?parts"
    using append_butlast_last_id[OF ne] by (auto simp flip: concat.simps(2)) (metis append_Nil2 concat.simps concat_append)
  then show ?thesis using \<open>split_after_parts s separator \<noteq> []\<close> concat_split_after[of separator s]
    by (auto simp: split_after_parts_def Let_def split: if_splits)
qed

lemma words_of_blank: "trim_space s = [] \<Longrightarrow> words_of s = []"
  using words_of_trim[of s] by simp

lemma words_of_concat_map:
  assumes "\<And>x. x \<in> set xs \<Longrightarrow> words_of (concat (f x)) = words_of x"
  shows "words_of (concat (concat (map f xs))) = words_of (concat xs)"
  using assms by (induction xs) simp_all

lemma recursive_atoms_ok:
  assumes "0 < limit"
  shows "(\<forall>a \<in> set (recursive_atoms limit seps s). length a \<le> limit) \<and> words_of (concat (recursive_atoms limit seps s)) = words_of s"
proof (induction seps arbitrary: s)
  case Nil
  then show ?case using hard_atoms_concat[of limit s] hard_atoms_length[of _ limit s] assms by auto
next
  case (Cons sep seps)
  define parts where "parts = split_after_parts s sep"
  define f where "f = (\<lambda>p. if trim_space p = [] then [] else if length p \<le> limit then [p] else recursive_atoms limit seps p)"
  have f: "words_of (concat (f p)) = words_of p" "\<forall>a \<in> set (f p). length a \<le> limit" for p
    using Cons[of p] words_of_blank[of p] by (auto simp: f_def)
  have "words_of (concat (concat (map f parts))) = words_of (concat parts)" by (rule words_of_concat_map) (rule f(1))
  moreover have "concat parts = s" if "\<not> length parts < 2" using that split_after_parts_concat[of s sep] by (cases "split_after_parts s sep = []") (auto simp: parts_def)
  ultimately show ?case using Cons[of s] f(2) by (auto simp: Let_def simp flip: parts_def f_def)
qed

lemma join_overlap_length:
  assumes "length (trim_space content) \<le> limit"
  shows "length (join_overlap_with_separator over separator content limit) \<le> limit"
  using assms by (auto simp: join_overlap_with_separator_def Let_def)

lemma join_overlap_keeps:
  "\<exists>p. join_overlap_with_separator over separator content limit = p @ trim_space content"
proof -
  have "\<exists>p. c = p @ c" "\<exists>p. a @ b @ c = p @ c" for a b c :: gotext by auto
  then show ?thesis unfolding join_overlap_with_separator_def Let_def by auto
qed

definition pieces_ok :: "nat \<Rightarrow> gotext \<Rightarrow> gotext list \<times> gotext \<times> gotext \<Rightarrow> bool" where
  "pieces_ok limit done_words s = (case s of (result, current, after) \<Rightarrow>
     (\<forall>p \<in> set result. p \<noteq> [] \<and> length p \<le> limit) \<and> length current \<le> limit \<and>
     subseq done_words (words_of (concat result @ current)))"

lemma if_cascade:
  "x = (if A then a else if B then b else if C then c else d) \<Longrightarrow>
     A \<and> x = a \<or> \<not> A \<and> B \<and> x = b \<or> \<not> A \<and> \<not> B \<and> C \<and> x = c \<or> \<not> A \<and> \<not> B \<and> \<not> C \<and> x = d"
  by (simp split: if_splits)

lemma merge_loop_ok:
  "\<forall>a \<in> set atoms. length a \<le> limit \<Longrightarrow> pieces_ok limit w s \<Longrightarrow> pieces_ok limit (w @ words_of (concat atoms)) (merge_loop limit atoms s)"
proof (induction atoms arbitrary: w s)
  case (Cons raw atoms)
  obtain result current after where s: "s = (result, current, after)" by (cases s)
  let ?atom = "trim_space raw" and ?sep = "after @ leading_whitespace raw"
  let ?joined = "join_overlap_with_separator (overlap_tail current chunk_overlap) ?sep ?atom limit"
  have atom: "length ?atom \<le> limit" using Cons.prems(1) length_trim_func_le[of is_space raw] by simp
  have w: "subseq w (words_of (concat result @ current))" using Cons.prems(2) s by (simp add: pieces_ok_def)
  obtain p where p: "?joined = p @ ?atom" using join_overlap_keeps[of "overlap_tail current chunk_overlap" ?sep ?atom limit] by auto
  have snoc: "subseq (w @ words_of raw) (words_of (concat result @ current) @ x @ words_of raw)" for x
  proof -
    have "subseq (words_of raw) (x @ words_of raw)" by (simp add: list_emb_append2)
    then show ?thesis by (rule list_emb_append_mono[OF w])
  qed
  have "merge_loop limit (raw # atoms) s = (if ?atom = [] then merge_loop limit atoms s
      else if current = [] then merge_loop limit atoms (result, ?atom, trailing_whitespace raw)
      else if length (current @ ?sep @ ?atom) \<le> limit then merge_loop limit atoms (result, current @ ?sep @ ?atom, trailing_whitespace raw)
      else merge_loop limit atoms (result @ [current], ?joined, trailing_whitespace raw))"
    unfolding s by (simp only: merge_loop.simps prod.case Let_def)
  from if_cascade[OF this]
  consider "?atom = []" "merge_loop limit (raw # atoms) s = merge_loop limit atoms s"
    | after' where "?atom \<noteq> []" "current = []" "merge_loop limit (raw # atoms) s = merge_loop limit atoms (result, ?atom, after')"
    | after' where "?atom \<noteq> []" "length (current @ ?sep @ ?atom) \<le> limit"
        "merge_loop limit (raw # atoms) s = merge_loop limit atoms (result, current @ ?sep @ ?atom, after')"
    | after' where "?atom \<noteq> []" "current \<noteq> []"
        "merge_loop limit (raw # atoms) s = merge_loop limit atoms (result @ [current], ?joined, after')"
    by blast
  then show ?case
  proof cases
    case 1
    then have "words_of raw = []" using words_of_blank by simp
    then show ?thesis using Cons.IH[of w s] Cons.prems 1 by simp
  next
    case (2 after')
    have "pieces_ok limit (w @ words_of raw) (result, ?atom, after')"
      using Cons.prems(2) s atom snoc[of "[]"] 2(2) by (simp add: pieces_ok_def)
    from Cons.IH[OF _ this] show ?thesis using Cons.prems(1) 2(3) by simp
  next
    case (3 after')
    have "pieces_ok limit (w @ words_of raw) (result, current @ ?sep @ ?atom, after')"
      using Cons.prems(2) s 3(2) snoc[of "words_of ?sep"] by (simp add: pieces_ok_def)
    from Cons.IH[OF _ this] show ?thesis using Cons.prems(1) 3(3) by simp
  next
    case (4 after')
    have "length ?joined \<le> limit" by (rule join_overlap_length) (use atom in simp)
    then have "pieces_ok limit (w @ words_of raw) (result @ [current], ?joined, after')"
      using Cons.prems(2) s snoc[of "words_of p"] 4(2) p by (simp add: pieces_ok_def)
    from Cons.IH[OF _ this] show ?thesis using Cons.prems(1) 4(3) by simp
  qed
qed simp

lemma split_text_ok:
  "(\<forall>p \<in> set (split_text s limit seps). p \<noteq> [] \<and> int (length p) \<le> max 1 limit) \<and>
   subseq (words_of s) (words_of (concat (split_text s limit seps)))"
proof (cases "trim_space s = []")
  case True
  then show ?thesis using words_of_blank by (simp add: split_text_def)
next
  case False
  define l where "l = nat (if limit \<le> 0 then 1 else limit)"
  have l: "0 < l" "int l = max 1 limit" by (auto simp: l_def)
  obtain result current after where m: "merge_loop l (recursive_atoms l seps (trim_space s)) ([], [], []) = (result, current, after)"
    by (metis prod_cases3)
  have "pieces_ok l ([] @ words_of (concat (recursive_atoms l seps (trim_space s)))) (result, current, after)"
    unfolding m[symmetric] by (rule merge_loop_ok) (use recursive_atoms_ok[OF l(1)] in \<open>auto simp: pieces_ok_def\<close>)
  then have ok: "pieces_ok l (words_of s) (result, current, after)" using recursive_atoms_ok[OF l(1), of seps "trim_space s"] by simp
  have r: "split_text s limit seps = (if current \<noteq> [] then result @ [current] else result)"
    using False m by (simp add: split_text_def merge_atoms_def flip: l_def)
  have "int (length p) \<le> max 1 limit" if "length p \<le> l" for p :: gotext using that l(2) by linarith
  then show ?thesis using ok unfolding r pieces_ok_def by (auto simp del: max_def)
qed

text \<open>The structural splitter keeps every piece non-empty and within the limit of runes and, through separators,
  hard cuts and overlaps, loses no text: the runes that are not white space appear in the pieces, in order.\<close>

theorem rune_split_fits_and_keeps_text:
  "list_all (\<lambda>p. p \<noteq> [] \<and> int (length p) \<le> max 1 limit) (split_text s limit seps) \<and>
   subseq (words_of s) (words_of (concat (split_text s limit seps)))"
  using split_text_ok[of s limit seps] by (simp add: list_all_iff del: max_def)

text \<open>A text block under a heading of more than \<open>chunk_size\<close> runes becomes a chunk that is over the size:
  \<open>contentLimit\<close> counts at most a third of the size for the heading, \<open>decorate\<close> repeats all of it.\<close>

lemma long_heading_oversized:
  assumes "block_step sec b \<lparr> cs_result = r, cs_pending = [], cs_pending_heading = h0 \<rparr> = Inr s" "cb_kind b = kind_text"
    "split_text (cb_text b) (content_limit (trim_space (cb_heading b))) text_separators = [piece]" "trim_space (cb_heading b) \<noteq> []"
  shows "length (cs_pending s) = length (trim_space (cb_heading b)) + 2 + length (trim_space piece)"
proof -
  have "s = \<lparr> cs_result = r, cs_pending = decorate (trim_space (cb_heading b)) piece, cs_pending_heading = trim_space (cb_heading b) \<rparr>"
    using assms by (auto simp: block_step_def Let_def split: if_splits)
  then show ?thesis using assms(4) by (simp add: decorate_def)
qed

text \<open>After a last row that was written in pieces the header is flushed once more, alone.\<close>

lemma header_only_chunk:
  assumes "ts_rows st = []" "header_text header \<noteq> []"
  shows "\<exists>c. ts_result (flush_rows s heading header budget st) = ts_result st @ [c] \<and>
    ck_content c = add_heading heading (header_text header) budget"
  using assms join_split[of newline "header_text header"] by (simp add: flush_rows_def Let_def split: prod.split)

end
