(* ===== verification/Cache.thy ===== *)
theory Cache
  imports Breaker GoErrors "HOL-Library.AList"
begin

text \<open>
  \<open>platform/cache/json.go\<close>: the two-level cache of rebuildable read models.  The process-local level is a
  map of list elements and an LRU list; Redis is a parameter, its replies and the clock readings come in
  records; every call to it passes the circuit breaker of \<open>Breaker\<close>.  Values are the marshalled JSON.
\<close>

section \<open>The local level\<close>

record json_entry =
  je_key :: string
  je_value :: string
  je_expires_at :: time

text \<open>A \<open>*list.Element\<close> is its number; \<open>js_next\<close> is the next fresh one.\<close>

record json_store =
  js_redis :: bool
  js_ttl :: time
  js_max_items :: nat
  js_local :: "(string \<times> nat) list"
  js_lru :: "(nat \<times> json_entry) list"
  js_next :: nat
  js_circuit :: breaker

definition new_json_store :: "bool \<Rightarrow> time \<Rightarrow> int \<Rightarrow> time \<Rightarrow> json_store" where
  "new_json_store redis ttl max_items now =
     \<lparr> js_redis = redis, js_ttl = (if ttl \<le> 0 then 30 * second else ttl),
       js_max_items = (if max_items \<le> 0 then 512 else nat max_items), js_local = [], js_lru = [], js_next = 0,
       js_circuit = new_breaker \<lparr> bc_window = 0, bc_buckets = 0, bc_min_requests = 0, bc_failure_rate = 0,
         bc_open_timeout = 0, bc_half_open_probes = 0 \<rparr> now \<rparr>"

definition remove_element :: "nat \<Rightarrow> json_store \<Rightarrow> json_store" where
  "remove_element el s = s\<lparr>js_lru := AList.delete el (js_lru s)\<rparr>"

definition move_to_front :: "nat \<Rightarrow> json_entry \<Rightarrow> json_store \<Rightarrow> json_store" where
  "move_to_front el e s = s\<lparr>js_lru := (el, e) # AList.delete el (js_lru s)\<rparr>"

definition drop_key :: "string \<Rightarrow> json_store \<Rightarrow> json_store" where
  "drop_key key s = s\<lparr>js_local := AList.delete key (js_local s)\<rparr>"

definition get_local :: "time \<Rightarrow> string \<Rightarrow> json_store \<Rightarrow> string option \<times> json_store" where
  "get_local now key s =
     (case map_of (js_local s) key of
        None \<Rightarrow> (None, s)
      | Some el \<Rightarrow> (case map_of (js_lru s) el of
          None \<Rightarrow> (None, s)
        | Some e \<Rightarrow>
            if \<not> now < je_expires_at e then (None, remove_element el (drop_key key s))
            else (Some (je_value e), move_to_front el e s)))"

text \<open>\<open>for len(s.local) > s.maxItems\<close>: the back of the list goes first.\<close>

function evict :: "json_store \<Rightarrow> json_store" where
  "evict s =
     (if length (js_local s) \<le> js_max_items s \<or> js_lru s = [] then s
      else evict (s\<lparr>js_local := AList.delete (je_key (snd (last (js_lru s)))) (js_local s), js_lru := butlast (js_lru s)\<rparr>))"
  by pat_completeness auto
termination by (relation "measure (\<lambda>s. length (js_lru s))") auto

declare evict.simps [simp del]

definition put_local :: "string \<Rightarrow> string \<Rightarrow> time \<Rightarrow> json_store \<Rightarrow> json_store" where
  "put_local key raw expires s =
     (let e = \<lparr> je_key = key, je_value = raw, je_expires_at = expires \<rparr> in
      case map_of (js_local s) key of
        Some el \<Rightarrow> move_to_front el e s
      | None \<Rightarrow> evict (s\<lparr>js_lru := (js_next s, e) # js_lru s, js_local := AList.update key (js_next s) (js_local s),
                        js_next := js_next s + 1\<rparr>))"

definition delete_local :: "string \<Rightarrow> json_store \<Rightarrow> json_store" where
  "delete_local key s =
     (case map_of (js_local s) key of None \<Rightarrow> s | Some el \<Rightarrow> remove_element el (drop_key key s))"

section \<open>Redis\<close>

text \<open>The clock readings around one call: \<open>Allow\<close>, the gauge, the callback (two) and the gauge again; and what
  other goroutines do to the store while the call is out.\<close>

record gate =
  ga_allow_at :: time
  ga_state_at :: time
  ga_done_at :: time
  ga_close_at :: time
  ga_final_at :: time
  ga_meanwhile :: "json_store \<Rightarrow> json_store"

definition breaker_open_error :: go_error where "breaker_open_error = ErrNew ''circuit breaker is open''"

definition allow_redis :: "gate \<Rightarrow> json_store \<Rightarrow> bool \<times> json_store" where
  "allow_redis g s = (case allow (ga_allow_at g) (js_circuit s) of
     (ok, c) \<Rightarrow> (ok, s\<lparr>js_circuit := snd (get_state (ga_state_at g) c)\<rparr>))"

definition redis_done :: "gate \<Rightarrow> bool \<Rightarrow> json_store \<Rightarrow> json_store" where
  "redis_done g success s0 = (let s = ga_meanwhile g s0 in
     s\<lparr>js_circuit := snd (get_state (ga_final_at g) (record_outcome success (ga_done_at g) (ga_close_at g) (js_circuit s)))\<rparr>)"

text \<open>What the pipeline of GET and PTTL answers; \<open>Inr None\<close> is \<open>redis.Nil\<close>.\<close>

record redis_reply =
  rr_queued :: bool
  rr_exec_error :: "go_error option"
  rr_value :: "go_error + string option"
  rr_ttl :: "go_error + time"

record read_call =
  rd_local_at :: time
  rd_gate :: gate
  rd_reply :: redis_reply
  rd_jitter :: time
  rd_put_at :: time

abbreviation millisecond :: time where "millisecond \<equiv> 1000000"

text \<open>\<open>random\<close> is the draw from \<open>[0, 2 * spread]\<close>; the code takes the fifth in a \<open>float64\<close>.\<close>

definition jittered_ttl :: "time \<Rightarrow> time \<Rightarrow> time" where
  "jittered_ttl ttl random = (let spread = ttl div 5 in if spread \<le> 0 then ttl else ttl - spread + random)"

text \<open>\<open>readRedis\<close>: the value with its remaining life, if any, and the error.\<close>

definition read_redis :: "time \<Rightarrow> redis_reply \<Rightarrow> (string \<times> time) option \<times> go_error option" where
  "read_redis jitter r =
     (if \<not> rr_queued r then (None, rr_exec_error r)
      else case rr_value r of
        Inl e \<Rightarrow> (None, Some e)
      | Inr None \<Rightarrow> (None, None)
      | Inr (Some raw) \<Rightarrow> (case rr_exec_error r of
          Some e \<Rightarrow> (Some (raw, jitter), Some e)
        | None \<Rightarrow> (case rr_ttl r of
            Inl e \<Rightarrow> (Some (raw, jitter), Some e)
          | Inr remaining \<Rightarrow>
              if remaining = - 2 * millisecond then (None, None)
              else (Some (raw, if remaining \<le> 0 then jitter
                               else if millisecond < remaining then remaining - millisecond else remaining), None))))"

definition get_raw :: "read_call \<Rightarrow> string \<Rightarrow> json_store \<Rightarrow> string option \<times> go_error option \<times> json_store" where
  "get_raw c key s =
     (case get_local (rd_local_at c) key s of
        (Some raw, s1) \<Rightarrow> (Some raw, None, s1)
      | (None, s1) \<Rightarrow>
          if \<not> js_redis s1 then (None, None, s1)
          else (case allow_redis (rd_gate c) s1 of
            (False, s2) \<Rightarrow> (None, Some breaker_open_error, s2)
          | (True, s2) \<Rightarrow>
              (let jitter = jittered_ttl (js_ttl s2) (rd_jitter c); (hit, err) = read_redis jitter (rd_reply c);
                   s3 = redis_done (rd_gate c) (err = None) s2 in
               case hit of
                 None \<Rightarrow> (None, err, s3)
               | Some (raw, remaining) \<Rightarrow>
                   (Some raw, err, put_local key raw (rd_put_at c + (if remaining \<le> 0 then jitter else remaining)) s3))))"

text \<open>\<open>json.Unmarshal\<close> into the target is a parameter; \<open>Some\<close> is a target that was written.\<close>

definition decode_target :: "(string \<Rightarrow> go_error + 't) \<Rightarrow> string \<Rightarrow> 't option result" where
  "decode_target decode raw = (case decode raw of Inl e \<Rightarrow> Inl e | Inr v \<Rightarrow> Inr (Some v))"

definition get_json :: "read_call \<Rightarrow> (string \<Rightarrow> go_error + 't) \<Rightarrow> string \<Rightarrow> json_store \<Rightarrow> 't option result \<times> json_store" where
  "get_json c decode key s =
     (if key = [] then (Inr None, s)
      else case get_raw c key s of
        (None, _, s') \<Rightarrow> (Inr None, s')
      | (Some raw, _, s') \<Rightarrow> (decode_target decode raw, s'))"

text \<open>\<open>acquireLease\<close>: SETNX of the fill lease; acquired, contended, error.\<close>

definition acquire_lease :: "gate \<Rightarrow> go_error + bool \<Rightarrow> json_store \<Rightarrow> (bool \<times> bool \<times> go_error option) \<times> json_store" where
  "acquire_lease g reply s = (case allow_redis g s of
       (False, s1) \<Rightarrow> ((False, False, Some breaker_open_error), s1)
     | (True, s1) \<Rightarrow> (case reply of
         Inl e \<Rightarrow> ((False, False, Some e), redis_done g False s1)
       | Inr acquired \<Rightarrow> ((acquired, \<not> acquired, None), redis_done g True s1)))"

definition write_redis :: "gate \<Rightarrow> go_error option \<Rightarrow> json_store \<Rightarrow> json_store" where
  "write_redis g reply s =
     (if \<not> js_redis s then s
      else case allow_redis g s of (False, s1) \<Rightarrow> s1 | (True, s1) \<Rightarrow> redis_done g (reply = None) s1)"

definition delete_json :: "gate \<Rightarrow> go_error option \<Rightarrow> string \<Rightarrow> json_store \<Rightarrow> go_error option \<times> json_store" where
  "delete_json g reply key s =
     (if key = [] then (None, s)
      else let s1 = delete_local key s in
        if \<not> js_redis s1 then (None, s1)
        else case allow_redis g s1 of (False, s2) \<Rightarrow> (None, s2) | (True, s2) \<Rightarrow> (reply, redis_done g (reply = None) s2))"

section \<open>Loading\<close>

text \<open>One load as the caller that runs it sees it: the loader, the encoder and the decoder, the replies of Redis,
  whether the context of the Redis calls has ended at each check, the polls before the wait is over, and what
  other goroutines do to the store between two of its steps.\<close>

record ('v, 't) load_env =
  le_others :: "nat \<Rightarrow> json_store \<Rightarrow> json_store"
  le_first_at :: time
  le_read :: read_call
  le_ended :: "nat \<Rightarrow> bool"
  le_lease_gate :: gate
  le_lease_reply :: "go_error + bool"
  le_second_read :: read_call
  le_polls :: "read_call list"
  le_load :: "go_error + 'v"
  le_marshal :: "'v \<Rightarrow> go_error + string"
  le_decode :: "string \<Rightarrow> go_error + 't"
  le_jitter :: time
  le_put_at :: time
  le_write_gate :: gate
  le_write_reply :: "go_error option"

definition source_load_error :: "go_error \<Rightarrow> go_error" where
  "source_load_error e = ErrWrap e ''sourceLoadError''"

definition load_source :: "('v, 't) load_env \<Rightarrow> string \<Rightarrow> bool \<Rightarrow> json_store \<Rightarrow> string result \<times> json_store" where
  "load_source env key write_shared s =
     (case le_load env of
        Inl e \<Rightarrow> (Inl (source_load_error e), s)
      | Inr v \<Rightarrow> (case le_marshal env v of
          Inl e \<Rightarrow> (Inl e, s)
        | Inr raw \<Rightarrow>
            (let ttl = jittered_ttl (js_ttl s) (le_jitter env); s1 = put_local key raw (le_put_at env + ttl) s in
             (Inr raw, if write_shared then write_redis (le_write_gate env) (le_write_reply env) (le_others env 5 s1) else s1))))"

text \<open>\<open>waitForLeaseResult\<close>.\<close>

primrec wait_for_lease_result :: "(nat \<Rightarrow> json_store \<Rightarrow> json_store) \<Rightarrow> string \<Rightarrow> read_call list \<Rightarrow> json_store \<Rightarrow> string option \<times> json_store" where
  "wait_for_lease_result others key [] s = (None, s)"
| "wait_for_lease_result others key (c # cs) s =
     (case get_raw c key (others (6 + length cs) s) of
        (Some raw, _, s') \<Rightarrow> (Some raw, s')
      | (None, _, s') \<Rightarrow> wait_for_lease_result others key cs s')"

text \<open>The function inside \<open>singleflight\<close>: where the value comes from, if not from the source, and whether a loaded
  value may be shared.\<close>

definition shared_lookup :: "('v, 't) load_env \<Rightarrow> string \<Rightarrow> json_store \<Rightarrow> (string option \<times> bool) \<times> json_store" where
  "shared_lookup env key s =
     (case get_raw (le_read env) key s of
        (Some raw, _, s1) \<Rightarrow> ((Some raw, False), s1)
      | (None, err, s1) \<Rightarrow>
          if \<not> js_redis s1 \<or> err \<noteq> None \<or> le_ended env 0 then ((None, False), s1)
          else (case acquire_lease (le_lease_gate env) (le_lease_reply env) (le_others env 1 s1) of
            ((True, _, None), s2) \<Rightarrow> (case get_raw (le_second_read env) key (le_others env 2 s2) of
                (Some raw, _, s3) \<Rightarrow> ((Some raw, False), s3)
              | (None, err2, s3) \<Rightarrow> ((None, err2 = None \<and> \<not> le_ended env 1), s3))
          | ((_, True, None), s2) \<Rightarrow> (case wait_for_lease_result (le_others env) key (le_polls env) s2 of
                (raw, s3) \<Rightarrow> ((raw, False), s3))
          | (_, s2) \<Rightarrow> ((None, False), s2)))"

text \<open>What \<open>group.Do\<close> hands back, then the end of \<open>Load\<close>: empty bytes leave the target alone.\<close>

definition shared_load :: "('v, 't) load_env \<Rightarrow> string \<Rightarrow> json_store \<Rightarrow> string result \<times> json_store" where
  "shared_load env key s =
     (case shared_lookup env key s of
        ((Some raw, _), s2) \<Rightarrow> (Inr raw, s2)
      | ((None, write_shared), s2) \<Rightarrow> load_source env key write_shared (le_others env 3 s2))"

definition load_json :: "('v, 't) load_env \<Rightarrow> string \<Rightarrow> json_store \<Rightarrow> 't option result \<times> json_store" where
  "load_json env key s =
     (if key = [] then (case le_load env of
          Inl e \<Rightarrow> (Inl (source_load_error e), s)
        | Inr v \<Rightarrow> (case le_marshal env v of Inl e \<Rightarrow> (Inl e, s) | Inr raw \<Rightarrow> (decode_target (le_decode env) raw, s)))
      else case get_local (le_first_at env) key s of
        (Some raw, s1) \<Rightarrow> (decode_target (le_decode env) raw, s1)
      | (None, s1) \<Rightarrow> (case shared_load env key (le_others env 0 s1) of
          (Inl e, s2) \<Rightarrow> (Inl e, s2)
        | (Inr raw, s2) \<Rightarrow> (if raw = [] then Inr None else decode_target (le_decode env) raw, s2)))"

section \<open>The two structures agree\<close>

definition listed :: "(nat \<times> json_entry) list \<Rightarrow> (string \<times> nat) list" where
  "listed lru = map (\<lambda>(el, e). (je_key e, el)) lru"

definition lru_ok :: "json_store \<Rightarrow> bool" where
  "lru_ok s \<longleftrightarrow> mset (listed (js_lru s)) = mset (js_local s) \<and> distinct (map fst (js_local s)) \<and>
     distinct (map fst (js_lru s)) \<and> list_all (\<lambda>(el, e). el < js_next s) (js_lru s)"

definition store_ok :: "json_store \<Rightarrow> bool" where
  "store_ok s \<longleftrightarrow> lru_ok s \<and> length (js_local s) \<le> js_max_items s \<and> breaker_wf (js_circuit s)"

lemma delete_mset:
  assumes "distinct (map fst xs)" "(k, v) \<in> set xs"
  shows "mset xs = add_mset (k, v) (mset (AList.delete k xs))"
  using assms
proof (induction xs)
  case (Cons x xs)
  have "AList.delete k xs = xs" if "k \<notin> fst ` set xs" using that by (simp add: delete_id)
  then show ?case using Cons by (cases x) (auto simp: image_iff)
qed simp

lemma listed_delete:
  assumes "distinct (map fst xs)" "(el, e) \<in> set xs"
  shows "mset (listed xs) = add_mset (je_key e, el) (mset (listed (AList.delete el xs)))"
proof -
  have "mset (listed xs) = image_mset (\<lambda>(el, e). (je_key e, el)) (mset xs)" by (simp add: listed_def)
  then show ?thesis by (simp add: delete_mset[OF assms] listed_def)
qed

lemma distinct_delete: "distinct (map fst xs) \<Longrightarrow> distinct (map fst (AList.delete k xs))"
  by (simp add: AList.distinct_delete)

lemma delete_subset: "set (AList.delete k xs) \<subseteq> set xs"
  by (auto simp: AList.delete_eq)

lemma lru_ok_lookup:
  assumes "lru_ok s" "map_of (js_local s) key = Some el"
  obtains e where "map_of (js_lru s) el = Some e" "je_key e = key" "(el, e) \<in> set (js_lru s)" "(key, el) \<in> set (js_local s)"
proof -
  have m: "(key, el) \<in> set (js_local s)" using assms(2) by (rule map_of_SomeD)
  have "set (listed (js_lru s)) = set (js_local s)" using assms(1) by (metis lru_ok_def set_mset_mset)
  then have "(key, el) \<in> (\<lambda>(el, e). (je_key e, el)) ` set (js_lru s)" using m by (simp add: listed_def)
  then obtain e where "(el, e) \<in> set (js_lru s)" "je_key e = key" by auto
  then show thesis using that m assms(1) by (simp add: lru_ok_def)
qed

text \<open>Removing an element from both structures, putting one in front.\<close>

lemma lru_ok_remove:
  assumes "lru_ok s" "(el, e) \<in> set (js_lru s)"
  shows "lru_ok (s\<lparr>js_local := AList.delete (je_key e) (js_local s), js_lru := AList.delete el (js_lru s)\<rparr>)"
    "length (js_local s) = Suc (length (AList.delete (je_key e) (js_local s)))"
proof -
  have d: "distinct (map fst (js_lru s))" "distinct (map fst (js_local s))" "mset (listed (js_lru s)) = mset (js_local s)"
    using assms(1) by (simp_all add: lru_ok_def)
  have "(je_key e, el) \<in> set (listed (js_lru s))" using assms(2) by (force simp: listed_def)
  then have m: "(je_key e, el) \<in> set (js_local s)" using d(3) by (metis set_mset_mset)
  have eq: "mset (js_local s) = add_mset (je_key e, el) (mset (AList.delete (je_key e) (js_local s)))" by (rule delete_mset[OF d(2) m])
  then have "mset (listed (AList.delete el (js_lru s))) = mset (AList.delete (je_key e) (js_local s))"
    using listed_delete[OF d(1) assms(2)] d(3) by simp
  then show "lru_ok (s\<lparr>js_local := AList.delete (je_key e) (js_local s), js_lru := AList.delete el (js_lru s)\<rparr>)"
    using assms(1) delete_subset[of el "js_lru s"] by (auto simp: lru_ok_def distinct_delete list_all_iff)
  show "length (js_local s) = Suc (length (AList.delete (je_key e) (js_local s)))"
    using arg_cong[OF eq, of size] by simp
qed

lemma lru_ok_front:
  assumes "lru_ok s" "(el, e) \<in> set (js_lru s)" "je_key e' = je_key e"
  shows "lru_ok (move_to_front el e' s)"
proof -
  have d: "distinct (map fst (js_lru s))" using assms(1) by (simp add: lru_ok_def)
  have "mset (listed ((el, e') # AList.delete el (js_lru s))) = mset (listed (js_lru s))"
    using listed_delete[OF d assms(2)] assms(3) by (simp add: listed_def)
  moreover have "el \<notin> fst ` set (AList.delete el (js_lru s))" by (auto simp: AList.delete_eq)
  ultimately show ?thesis using assms(1,2) delete_subset[of el "js_lru s"] d
    by (auto simp: lru_ok_def move_to_front_def distinct_delete list_all_iff)
qed

lemma lru_ok_get:
  assumes "lru_ok s" "get_local now key s = (r, s')"
  shows "lru_ok s' \<and> length (js_local s') \<le> length (js_local s) \<and> js_max_items s' = js_max_items s \<and> js_circuit s' = js_circuit s"
proof (cases "map_of (js_local s) key")
  case (Some el)
  obtain e where e: "map_of (js_lru s) el = Some e" "je_key e = key" "(el, e) \<in> set (js_lru s)"
    using lru_ok_lookup[OF assms(1) Some] by blast
  note rm = lru_ok_remove[OF assms(1) e(3)] and fr = lru_ok_front[OF assms(1) e(3) refl]
  show ?thesis using assms(2) Some e rm fr
    by (auto simp: get_local_def remove_element_def drop_key_def move_to_front_def split: if_splits)
qed (use assms in \<open>simp add: get_local_def\<close>)

lemma lru_ok_delete: "lru_ok s \<Longrightarrow> lru_ok (delete_local key s) \<and> length (js_local (delete_local key s)) \<le> length (js_local s)"
proof (cases "map_of (js_local s) key")
  case (Some el)
  assume ok: "lru_ok s"
  obtain e where e: "je_key e = key" "(el, e) \<in> set (js_lru s)" using lru_ok_lookup[OF ok Some] by blast
  show ?thesis using lru_ok_remove[OF ok e(2)] e(1) Some by (simp add: delete_local_def remove_element_def drop_key_def)
qed (simp add: delete_local_def)

lemma lru_ok_length: "lru_ok s \<Longrightarrow> length (js_local s) = length (js_lru s)"
proof -
  assume "lru_ok s"
  then have "mset (listed (js_lru s)) = mset (js_local s)" by (simp add: lru_ok_def)
  from arg_cong[OF this, of size] show ?thesis by (simp only: size_mset listed_def length_map)
qed

lemma evict_step_ok:
  assumes "lru_ok s" "js_lru s \<noteq> []"
  shows "lru_ok (s\<lparr>js_local := AList.delete (je_key (snd (last (js_lru s)))) (js_local s), js_lru := butlast (js_lru s)\<rparr>)"
proof -
  obtain el e where l: "last (js_lru s) = (el, e)" by (cases "last (js_lru s)")
  have s: "js_lru s = butlast (js_lru s) @ [(el, e)]" using assms(2) l append_butlast_last_id[of "js_lru s"] by simp
  have "distinct (map fst (butlast (js_lru s) @ [(el, e)]))" using assms(1) s by (simp add: lru_ok_def)
  then have "AList.delete el (js_lru s) = butlast (js_lru s)"
    by (subst s) (auto simp: AList.delete_eq filter_id_conv image_iff)
  moreover have "(el, e) \<in> set (js_lru s)" by (subst s) simp
  ultimately show ?thesis using lru_ok_remove(1)[OF assms(1)] l by (metis snd_conv)
qed

lemma evict_ok:
  "lru_ok s \<Longrightarrow> lru_ok (evict s) \<and> length (js_local (evict s)) \<le> js_max_items s \<and> js_max_items (evict s) = js_max_items s \<and>
     js_circuit (evict s) = js_circuit s"
proof (induction s rule: evict.induct)
  case (1 s)
  show ?case
  proof (cases "length (js_local s) \<le> js_max_items s \<or> js_lru s = []")
    case True
    then show ?thesis using 1(2) lru_ok_length[OF 1(2)] by (simp add: evict.simps[of s]) (auto simp: lru_ok_length)
  next
    case False
    from 1(1)[OF False] evict_step_ok[OF 1(2)] this show ?thesis by (simp add: evict.simps[of s])
  qed
qed

lemma update_fresh: "k \<notin> fst ` set xs \<Longrightarrow> AList.update k v xs = xs @ [(k, v)]"
  by (induction xs) auto

lemma lru_ok_insert:
  assumes "lru_ok s" "map_of (js_local s) key = None"
  shows "lru_ok (s\<lparr>js_lru := (js_next s, \<lparr> je_key = key, je_value = raw, je_expires_at = t \<rparr>) # js_lru s,
    js_local := AList.update key (js_next s) (js_local s), js_next := js_next s + 1\<rparr>)"
proof -
  have k: "key \<notin> fst ` set (js_local s)" using assms(2) by (simp add: map_of_eq_None_iff)
  have "AList.update key (js_next s) (js_local s) = js_local s @ [(key, js_next s)]" using k by (rule update_fresh)
  then show ?thesis using assms(1) k by (auto simp: lru_ok_def listed_def list_all_iff)
qed

lemma lru_ok_put:
  assumes "lru_ok s" "length (js_local s) \<le> js_max_items s"
  shows "lru_ok (put_local key raw t s) \<and> length (js_local (put_local key raw t s)) \<le> js_max_items (put_local key raw t s) \<and>
    js_circuit (put_local key raw t s) = js_circuit s"
proof (cases "map_of (js_local s) key")
  case None
  show ?thesis using evict_ok[OF lru_ok_insert[OF assms(1) None]] None by (simp add: put_local_def)
next
  case (Some el)
  obtain e where e: "je_key e = key" "(el, e) \<in> set (js_lru s)" using lru_ok_lookup[OF assms(1) Some] by blast
  show ?thesis using lru_ok_front[OF assms(1) e(2)] e(1) Some assms(2) by (simp add: put_local_def move_to_front_def)
qed

section \<open>The store stays sound\<close>

definition sound_after :: "json_store \<Rightarrow> json_store \<Rightarrow> bool" where
  "sound_after s s' \<longleftrightarrow> store_ok s' \<and> js_max_items s' = js_max_items s"

lemma sound_refl: "store_ok s \<Longrightarrow> sound_after s s" and
  sound_trans: "sound_after s s1 \<Longrightarrow> sound_after s1 s2 \<Longrightarrow> sound_after s s2" and
  sound_store: "sound_after s s' \<Longrightarrow> store_ok s'"
  by (simp_all add: sound_after_def)

lemma evict_max: "js_max_items (evict s) = js_max_items s"
proof (induction s rule: evict.induct)
  case (1 s)
  show ?case using 1 by (cases "length (js_local s) \<le> js_max_items s \<or> js_lru s = []") (simp_all add: evict.simps[of s])
qed

lemma put_local_sound: "store_ok s \<Longrightarrow> sound_after s (put_local key raw t s)"
  using lru_ok_put[of s key raw t]
  by (simp add: sound_after_def store_ok_def put_local_def Let_def move_to_front_def evict_max split: option.split)

lemma get_local_sound: "store_ok s \<Longrightarrow> get_local now key s = (r, s') \<Longrightarrow> sound_after s s'"
  using lru_ok_get[of s now key r s'] by (simp add: sound_after_def store_ok_def)

lemma delete_local_sound: "store_ok s \<Longrightarrow> sound_after s (delete_local key s)"
  using lru_ok_delete[of s key]
  by (auto simp: sound_after_def store_ok_def delete_local_def remove_element_def drop_key_def split: option.splits)

lemma circuit_sound: "store_ok s \<Longrightarrow> breaker_wf c \<Longrightarrow> sound_after s (s\<lparr>js_circuit := c\<rparr>)"
  by (simp add: sound_after_def store_ok_def lru_ok_def)

lemma get_state_wf: "breaker_wf b \<Longrightarrow> breaker_wf (snd (get_state now b))"
  by (simp add: get_state_def Let_def advance_wf)

lemma allow_redis_sound:
  assumes "store_ok s" "allow_redis g s = (ok, s')"
  shows "sound_after s s'"
proof -
  have "s' = s\<lparr>js_circuit := snd (get_state (ga_state_at g) (snd (allow (ga_allow_at g) (js_circuit s))))\<rparr>"
    using assms(2) by (simp add: allow_redis_def split: prod.splits)
  then show ?thesis using assms(1) by (auto intro!: circuit_sound get_state_wf allow_wf simp: store_ok_def)
qed

definition keeps_store :: "(json_store \<Rightarrow> json_store) \<Rightarrow> bool" where
  "keeps_store f \<longleftrightarrow> (\<forall>s. store_ok s \<longrightarrow> sound_after s (f s))"

lemma redis_done_sound:
  assumes "store_ok s" "keeps_store (ga_meanwhile g)"
  shows "sound_after s (redis_done g b s)"
proof -
  have m: "sound_after s (ga_meanwhile g s)" using assms by (simp add: keeps_store_def)
  then have "breaker_wf (js_circuit (ga_meanwhile g s))" by (simp add: sound_after_def store_ok_def)
  then show ?thesis unfolding redis_done_def Let_def
    by (intro sound_trans[OF m] circuit_sound[OF sound_store[OF m]] get_state_wf record_outcome_wf)
qed

lemma get_raw_sound:
  assumes "store_ok s" "keeps_store (ga_meanwhile (rd_gate c))" "get_raw c key s = (hit, err, s')"
  shows "sound_after s s'"
proof -
  obtain h s1 where l: "get_local (rd_local_at c) key s = (h, s1)" by (cases "get_local (rd_local_at c) key s")
  obtain ok s2 where a: "allow_redis (rd_gate c) s1 = (ok, s2)" by (cases "allow_redis (rd_gate c) s1")
  obtain v e where v: "read_redis (jittered_ttl (js_ttl s2) (rd_jitter c)) (rd_reply c) = (v, e)"
    by (cases "read_redis (jittered_ttl (js_ttl s2) (rd_jitter c)) (rd_reply c)")
  note s1 = get_local_sound[OF assms(1) l]
  note s2 = sound_trans[OF s1 allow_redis_sound[OF sound_store[OF s1] a]]
  note s3 = sound_trans[OF s2 redis_done_sound[OF sound_store[OF s2] assms(2), of "e = None"]]
  note s4 = sound_trans[OF s3 put_local_sound[OF sound_store[OF s3]]]
  show ?thesis using assms(3) l a v s1 s2 s3 s4
    by (auto simp: get_raw_def Let_def split: option.splits if_splits bool.splits)
qed

lemma acquire_lease_sound:
  assumes "store_ok s" "keeps_store (ga_meanwhile g)" "acquire_lease g reply s = (r, s')"
  shows "sound_after s s'"
proof -
  obtain ok s1 where a: "allow_redis g s = (ok, s1)" by (cases "allow_redis g s")
  note s1 = allow_redis_sound[OF assms(1) a]
  note s2 = sound_trans[OF s1 redis_done_sound[OF sound_store[OF s1] assms(2)]]
  show ?thesis using assms(3) a s1 s2 by (auto simp: acquire_lease_def split: bool.splits sum.splits)
qed

lemma write_redis_sound:
  assumes "store_ok s" "keeps_store (ga_meanwhile g)"
  shows "sound_after s (write_redis g reply s)"
proof -
  obtain ok s1 where a: "allow_redis g s = (ok, s1)" by (cases "allow_redis g s")
  note s1 = allow_redis_sound[OF assms(1) a]
  note s2 = sound_trans[OF s1 redis_done_sound[OF sound_store[OF s1] assms(2)]]
  show ?thesis using a s1 s2 sound_refl[OF assms(1)] by (auto simp: write_redis_def split: bool.splits)
qed

text \<open>What other goroutines do between the steps keeps the store sound.\<close>

definition env_ok :: "('v, 't) load_env \<Rightarrow> bool" where
  "env_ok env \<longleftrightarrow> (\<forall>k. keeps_store (le_others env k)) \<and>
     (\<forall>g \<in> {rd_gate (le_read env), le_lease_gate env, rd_gate (le_second_read env), le_write_gate env} \<union>
        rd_gate ` set (le_polls env). keeps_store (ga_meanwhile g))"

lemma others_sound: "store_ok s \<Longrightarrow> keeps_store f \<Longrightarrow> sound_after s (f s)"
  by (simp add: keeps_store_def)

lemma wait_for_lease_sound:
  assumes "\<And>k. keeps_store (others k)" "\<forall>c \<in> set cs. keeps_store (ga_meanwhile (rd_gate c))"
  shows "store_ok s \<Longrightarrow> wait_for_lease_result others key cs s = (r, s') \<Longrightarrow> sound_after s s'"
  using assms(2)
proof (induction cs arbitrary: s)
  case (Cons c cs)
  let ?o = "others (6 + length cs) s"
  obtain h e s1 where g: "get_raw c key ?o = (h, e, s1)" by (cases "get_raw c key ?o") auto
  have o: "sound_after s ?o" using Cons.prems(1) assms(1) by (rule others_sound)
  have s1: "sound_after s s1" using sound_trans[OF o get_raw_sound[OF sound_store[OF o] _ g]] Cons.prems(3) by simp
  show ?case
  proof (cases h)
    case None
    then have "wait_for_lease_result others key cs s1 = (r, s')" using Cons.prems(2) g by simp
    then show ?thesis using sound_trans[OF s1 Cons.IH[OF sound_store[OF s1]]] Cons.prems(3) by simp
  next
    case (Some raw)
    then show ?thesis using Cons.prems(2) g s1 by simp
  qed
qed (simp add: sound_refl)

lemma load_source_result:
  assumes "load_source env key w s = (Inl e, s')"
  shows "(\<exists>e'. le_load env = Inl e' \<and> e = source_load_error e') \<or> (\<exists>v. le_load env = Inr v \<and> le_marshal env v = Inl e)"
  using assms by (auto simp: load_source_def Let_def split: sum.splits)

lemma load_source_sound:
  assumes "env_ok env" "store_ok s" "load_source env key w s = (r, s')"
  shows "sound_after s s'"
proof -
  have k: "keeps_store (le_others env 5)" "keeps_store (ga_meanwhile (le_write_gate env))" using assms(1) by (simp_all add: env_ok_def)
  have put: "sound_after s (put_local key raw t s)" for raw t using assms(2) by (rule put_local_sound)
  have oth: "sound_after s (le_others env 5 (put_local key raw t s))" for raw t
    by (rule sound_trans[OF put others_sound[OF sound_store[OF put] k(1)]])
  have wr: "sound_after s (write_redis (le_write_gate env) (le_write_reply env) (le_others env 5 (put_local key raw t s)))" for raw t
    by (rule sound_trans[OF oth write_redis_sound[OF sound_store[OF oth] k(2)]])
  show ?thesis using assms(3) put wr sound_refl[OF assms(2)]
    by (auto simp: load_source_def Let_def split: sum.splits)
qed

lemma lease_path_sound:
  assumes "env_ok env" "store_ok s" "acquire_lease (le_lease_gate env) (le_lease_reply env) s = (l, s2)"
  shows "sound_after s s2"
    "get_raw (le_second_read env) key (le_others env 2 s2) = (hit, e, s3) \<Longrightarrow> sound_after s s3"
    "wait_for_lease_result (le_others env) key (le_polls env) s2 = (raw, s3) \<Longrightarrow> sound_after s s3"
proof -
  have k: "\<And>k. keeps_store (le_others env k)" "keeps_store (ga_meanwhile (le_lease_gate env))"
    "keeps_store (ga_meanwhile (rd_gate (le_second_read env)))" "\<forall>c \<in> set (le_polls env). keeps_store (ga_meanwhile (rd_gate c))"
    using assms(1) by (simp_all add: env_ok_def)
  show s2: "sound_after s s2" by (rule acquire_lease_sound[OF assms(2) k(2) assms(3)])
  note o2 = sound_trans[OF s2 others_sound[OF sound_store[OF s2] k(1)[of 2]]]
  show "get_raw (le_second_read env) key (le_others env 2 s2) = (hit, e, s3) \<Longrightarrow> sound_after s s3"
    by (rule sound_trans[OF o2 get_raw_sound[OF sound_store[OF o2] k(3)]])
  show "wait_for_lease_result (le_others env) key (le_polls env) s2 = (raw, s3) \<Longrightarrow> sound_after s s3"
    by (rule sound_trans[OF s2 wait_for_lease_sound[OF k(1) k(4) sound_store[OF s2]]])
qed

lemma shared_lookup_sound:
  assumes "env_ok env" "store_ok s" "shared_lookup env key s = (r, s')"
  shows "sound_after s s'"
proof -
  have k: "keeps_store (le_others env 1)" "keeps_store (ga_meanwhile (rd_gate (le_read env)))" using assms(1) by (simp_all add: env_ok_def)
  obtain h e s1 where g: "get_raw (le_read env) key s = (h, e, s1)" by (cases "get_raw (le_read env) key s") auto
  have s1: "sound_after s s1" by (rule get_raw_sound[OF assms(2) k(2) g])
  note o1 = sound_trans[OF s1 others_sound[OF sound_store[OF s1] k(1)]]
  obtain a c le s2 where l: "acquire_lease (le_lease_gate env) (le_lease_reply env) (le_others env 1 s1) = ((a, c, le), s2)"
    by (cases "acquire_lease (le_lease_gate env) (le_lease_reply env) (le_others env 1 s1)") auto
  obtain h2 e2 s3 where g2: "get_raw (le_second_read env) key (le_others env 2 s2) = (h2, e2, s3)"
    by (cases "get_raw (le_second_read env) key (le_others env 2 s2)") auto
  obtain raw s4 where w: "wait_for_lease_result (le_others env) key (le_polls env) s2 = (raw, s4)"
    by (cases "wait_for_lease_result (le_others env) key (le_polls env) s2")
  note p = lease_path_sound[OF assms(1) sound_store[OF o1] l]
  note after = sound_trans[OF o1 p(1)] sound_trans[OF o1 p(2)[OF g2]] sound_trans[OF o1 p(3)[OF w]]
  show ?thesis
  proof (cases h)
    case (Some x)
    then show ?thesis using assms(3) g s1 by (simp add: shared_lookup_def)
  next
    case None
    then show ?thesis using assms(3) g l g2 w s1 after
      by (cases le; cases a; cases c; cases h2) (simp_all add: shared_lookup_def split: if_splits)
  qed
qed

section \<open>An outage\<close>

text \<open>What \<open>Load\<close> would return without a cache.\<close>

definition uncached :: "('v, 't) load_env \<Rightarrow> 't option result" where
  "uncached env = (case le_load env of
     Inl e \<Rightarrow> Inl (source_load_error e)
   | Inr v \<Rightarrow> (case le_marshal env v of Inl e \<Rightarrow> Inl e
     | Inr raw \<Rightarrow> if raw = [] then Inr None else decode_target (le_decode env) raw))"

text \<open>No reply of Redis carries a value: it is down, slow, unreachable or empty.  Nobody else in the process fills
  the key meanwhile.\<close>

definition redis_silent :: "('v, 't) load_env \<Rightarrow> bool" where
  "redis_silent env \<longleftrightarrow> (\<forall>c \<in> {le_read env, le_second_read env} \<union> set (le_polls env). \<forall>j. fst (read_redis j (rd_reply c)) = None)"

definition key_absent :: "string \<Rightarrow> json_store \<Rightarrow> bool" where
  "key_absent key s \<longleftrightarrow> map_of (js_local s) key = None"

definition keeps_absent :: "string \<Rightarrow> (json_store \<Rightarrow> json_store) \<Rightarrow> bool" where
  "keeps_absent key f \<longleftrightarrow> (\<forall>s. key_absent key s \<longrightarrow> key_absent key (f s))"

definition alone :: "('v, 't) load_env \<Rightarrow> string \<Rightarrow> bool" where
  "alone env key \<longleftrightarrow> (\<forall>k. keeps_absent key (le_others env k)) \<and>
     (\<forall>g \<in> {rd_gate (le_read env), le_lease_gate env, rd_gate (le_second_read env)} \<union>
        rd_gate ` set (le_polls env). keeps_absent key (ga_meanwhile g))"

lemma allow_redis_absent: "allow_redis g s = (ok, s') \<Longrightarrow> key_absent key s' = key_absent key s"
  by (auto simp: allow_redis_def key_absent_def split: prod.splits)

lemma redis_done_absent: "keeps_absent key (ga_meanwhile g) \<Longrightarrow> key_absent key s \<Longrightarrow> key_absent key (redis_done g ok s)"
  by (simp add: redis_done_def Let_def key_absent_def keeps_absent_def)

lemma get_raw_misses:
  assumes "key_absent key s" "\<forall>j. fst (read_redis j (rd_reply c)) = None" "keeps_absent key (ga_meanwhile (rd_gate c))"
    "get_raw c key s = (hit, err, s')"
  shows "hit = None \<and> key_absent key s'"
proof -
  have l: "get_local (rd_local_at c) key s = (None, s)" using assms(1) by (simp add: get_local_def key_absent_def)
  obtain ok s2 where a: "allow_redis (rd_gate c) s = (ok, s2)" by (cases "allow_redis (rd_gate c) s")
  have s2: "key_absent key s2" using allow_redis_absent[OF a] assms(1) by simp
  obtain e where v: "read_redis (jittered_ttl (js_ttl s2) (rd_jitter c)) (rd_reply c) = (None, e)"
    using assms(2) by (metis prod.collapse)
  show ?thesis using assms(1,3,4) l a v s2 redis_done_absent[of key "rd_gate c" s2]
    by (auto simp: get_raw_def Let_def split: if_splits bool.splits)
qed

lemma wait_for_lease_misses:
  assumes "\<And>k. keeps_absent key (others k)"
  shows "\<forall>c \<in> set cs. (\<forall>j. fst (read_redis j (rd_reply c)) = None) \<and> keeps_absent key (ga_meanwhile (rd_gate c)) \<Longrightarrow>
    key_absent key s \<Longrightarrow> fst (wait_for_lease_result others key cs s) = None \<and> key_absent key (snd (wait_for_lease_result others key cs s))"
proof (induction cs arbitrary: s)
  case (Cons c cs)
  let ?o = "others (6 + length cs) s"
  obtain h e s1 where g: "get_raw c key ?o = (h, e, s1)" by (cases "get_raw c key ?o") auto
  have "key_absent key ?o" using assms Cons.prems(2) by (simp add: keeps_absent_def)
  from get_raw_misses[OF this _ _ g] have "h = None" "key_absent key s1" using Cons.prems(1) by auto
  then show ?case using Cons.IH[of s1] Cons.prems(1) g by simp
qed simp

lemma acquire_lease_absent:
  assumes "acquire_lease g reply s = (r, s')" "key_absent key s" "keeps_absent key (ga_meanwhile g)"
  shows "key_absent key s'"
proof -
  obtain ok s1 where a: "allow_redis g s = (ok, s1)" by (cases "allow_redis g s")
  have "key_absent key s1" using allow_redis_absent[OF a] assms(2) by simp
  then show ?thesis using assms(1,3) a redis_done_absent[of key g s1]
    by (auto simp: acquire_lease_def split: bool.splits sum.splits)
qed

lemma shared_lookup_misses:
  assumes "key_absent key s" "alone env key" "redis_silent env" "shared_lookup env key s = ((v, w), s')"
  shows "v = None"
proof -
  have k: "\<And>n x. key_absent key x \<Longrightarrow> key_absent key (le_others env n x)" "keeps_absent key (ga_meanwhile (rd_gate (le_read env)))"
    "keeps_absent key (ga_meanwhile (le_lease_gate env))" "keeps_absent key (ga_meanwhile (rd_gate (le_second_read env)))"
    "\<forall>c \<in> set (le_polls env). keeps_absent key (ga_meanwhile (rd_gate c))" "\<And>n. keeps_absent key (le_others env n)"
    using assms(2) by (auto simp: alone_def keeps_absent_def)
  have silent: "\<forall>j. fst (read_redis j (rd_reply (le_read env))) = None" "\<forall>j. fst (read_redis j (rd_reply (le_second_read env))) = None"
    "\<forall>c \<in> set (le_polls env). \<forall>j. fst (read_redis j (rd_reply c)) = None"
    using assms(3) by (simp_all add: redis_silent_def)
  obtain h e s1 where g: "get_raw (le_read env) key s = (h, e, s1)" by (cases "get_raw (le_read env) key s") auto
  have h: "h = None" "key_absent key s1" using get_raw_misses[OF assms(1) silent(1) k(2) g] by simp_all
  obtain a c le s2 where l: "acquire_lease (le_lease_gate env) (le_lease_reply env) (le_others env 1 s1) = ((a, c, le), s2)"
    by (cases "acquire_lease (le_lease_gate env) (le_lease_reply env) (le_others env 1 s1)") auto
  have s2: "key_absent key s2" using acquire_lease_absent[OF l k(1)[OF h(2)] k(3)] .
  obtain h2 e2 s3 where g2: "get_raw (le_second_read env) key (le_others env 2 s2) = (h2, e2, s3)"
    by (cases "get_raw (le_second_read env) key (le_others env 2 s2)") auto
  have h2: "h2 = None" using get_raw_misses[OF k(1)[OF s2] silent(2) k(4) g2] by simp
  obtain raw s4 where w: "wait_for_lease_result (le_others env) key (le_polls env) s2 = (raw, s4)"
    by (cases "wait_for_lease_result (le_others env) key (le_polls env) s2")
  have raw: "raw = None" using wait_for_lease_misses[where others = "le_others env" and cs = "le_polls env" and s = s2 and key = key, OF k(6)] silent(3) k(5) s2 w by simp
  show ?thesis using assms(4) g l g2 w h(1) h2 raw
    by (cases le; cases a; cases c) (simp_all add: shared_lookup_def split: if_splits)
qed

text \<open>C18: A cached load keeps the cache sound and hides an outage of the cache from its caller.  Whatever Redis
  answers, whatever the circuit breaker decides, however long the fill lease of another process is waited for and
  whatever other goroutines do to the store in between (as long as they keep it sound): after \<open>Load\<close> the map and
  the LRU list still hold the same entries under the same elements, there are at most \<open>maxItems\<close> of them, and the
  breaker is well formed; and an error that \<open>Load\<close> returns is the loader's own, wrapped, or the encoder's, or the
  decoder's refusal of some bytes, never an error of Redis.  And while Redis answers no read with a value, be it
  down, slow, refusing or empty, a key that nobody in the process holds or fills is answered exactly as without
  a cache: by loading, encoding and decoding it.\<close>

theorem load_survives_outage:
  assumes "store_ok s" "env_ok env" "load_json env key s = (r, s')"
  shows "store_ok s' \<and> length (js_local s') \<le> js_max_items s \<and>
    (\<forall>e. r = Inl e \<longrightarrow> (\<exists>e'. le_load env = Inl e' \<and> e = source_load_error e') \<or>
       (\<exists>v. le_load env = Inr v \<and> le_marshal env v = Inl e) \<or> (\<exists>raw. le_decode env raw = Inl e)) \<and>
    (key \<noteq> [] \<and> key_absent key s \<and> alone env key \<and> redis_silent env \<longrightarrow> r = uncached env)"
proof -
  have k: "keeps_store (le_others env 0)" "keeps_store (le_others env 3)" using assms(2) by (simp_all add: env_ok_def)
  obtain h s1 where l: "get_local (le_first_at env) key s = (h, s1)" by (cases "get_local (le_first_at env) key s")
  obtain v w s2 where u: "shared_lookup env key (le_others env 0 s1) = ((v, w), s2)"
    by (cases "shared_lookup env key (le_others env 0 s1)") auto
  obtain r3 s3 where d: "load_source env key w (le_others env 3 s2) = (r3, s3)"
    by (cases "load_source env key w (le_others env 3 s2)")
  note s1 = get_local_sound[OF assms(1) l]
  note o0 = sound_trans[OF s1 others_sound[OF sound_store[OF s1] k(1)]]
  note s2 = sound_trans[OF o0 shared_lookup_sound[OF assms(2) sound_store[OF o0] u]]
  note o3 = sound_trans[OF s2 others_sound[OF sound_store[OF s2] k(2)]]
  note s3 = sound_trans[OF o3 load_source_sound[OF assms(2) sound_store[OF o3] d]]
  have "sound_after s s'" using assms(3) l u d s1 s2 s3 sound_refl[OF assms(1)]
    by (auto simp: load_json_def shared_load_def split: if_splits option.splits sum.splits)
  moreover have "(\<exists>e'. le_load env = Inl e' \<and> e = source_load_error e') \<or> (\<exists>v. le_load env = Inr v \<and> le_marshal env v = Inl e) \<or>
      (\<exists>raw. le_decode env raw = Inl e)"
    if "r = Inl e" for e
    using assms(3) l u d load_source_result[of env key w "le_others env 3 s2" e s3] that
    by (auto simp: load_json_def shared_load_def decode_target_def split: if_splits option.splits sum.splits)
  moreover have "r = uncached env" if o: "key \<noteq> []" "key_absent key s" "alone env key" "redis_silent env"
  proof -
    have l0: "h = None" "s1 = s" using l o(2) by (simp_all add: get_local_def key_absent_def)
    have "key_absent key (le_others env 0 s)" using o(2,3) by (simp add: alone_def keeps_absent_def)
    then have "v = None" using shared_lookup_misses[of key "le_others env 0 s" env v w s2] o(3,4) u l0(2) by simp
    then have sl: "shared_load env key (le_others env 0 s1) = (r3, s3)" using u d by (simp add: shared_load_def)
    have "r3 = (case le_load env of Inl e \<Rightarrow> Inl (source_load_error e) | Inr v \<Rightarrow> le_marshal env v)"
      using d by (auto simp: load_source_def Let_def split: sum.splits)
    then show ?thesis using assms(3) l l0(1) sl o(1) by (auto simp: load_json_def uncached_def split: sum.splits)
  qed
  ultimately show ?thesis by (auto simp: sound_after_def store_ok_def)
qed

text \<open>A loader that fails while Redis is down; another goroutine fills a different key during the call.\<close>

definition down_gate :: gate where
  "down_gate = \<lparr> ga_allow_at = 1, ga_state_at = 2, ga_done_at = 3, ga_close_at = 4, ga_final_at = 5,
     ga_meanwhile = put_local ''other'' ''[]'' 100 \<rparr>"

definition down_read :: read_call where
  "down_read = \<lparr> rd_local_at = 0, rd_gate = down_gate, rd_reply = \<lparr> rr_queued = True, rr_exec_error = Some (ErrNew ''refused''),
     rr_value = Inl (ErrNew ''refused''), rr_ttl = Inl (ErrNew ''refused'') \<rparr>, rd_jitter = 0, rd_put_at = 6 \<rparr>"

definition down_env :: "(string, nat) load_env" where
  "down_env = \<lparr> le_others = (\<lambda>k s. s), le_first_at = 0, le_read = down_read, le_ended = (\<lambda>k. False), le_lease_gate = down_gate,
     le_lease_reply = Inl (ErrNew ''refused''), le_second_read = down_read, le_polls = [], le_load = Inl (ErrNew ''no rows''),
     le_marshal = Inr, le_decode = (\<lambda>raw. if raw = ''3'' then Inr 3 else Inl (ErrNew ''json'')), le_jitter = 0, le_put_at = 7, le_write_gate = down_gate, le_write_reply = Some (ErrNew ''refused'') \<rparr>"

lemma new_store_ok: "store_ok (new_json_store redis ttl n now)"
  by (simp add: store_ok_def lru_ok_def new_json_store_def listed_def new_breaker_wf)

lemma down_env_ok: "env_ok down_env"
  by (simp add: env_ok_def down_env_def down_read_def down_gate_def keeps_store_def sound_refl put_local_sound)

lemma down_env_alone: "alone down_env ''k''" "redis_silent down_env"
proof -
  have "keeps_absent ''k'' (put_local ''other'' ''[]'' 100)"
  proof -
    have gone: "key_absent ''k'' s \<Longrightarrow> key_absent ''k'' (evict s)" for s
    proof (induction s rule: evict.induct)
      case (1 s)
      let ?s = "s\<lparr>js_local := AList.delete (je_key (snd (last (js_lru s)))) (js_local s), js_lru := butlast (js_lru s)\<rparr>"
      have "key_absent ''k'' ?s" using 1(2) by (auto simp: key_absent_def AList.delete_conv' fun_upd_def)
      then show ?case using 1 by (subst evict.simps) auto
    qed
    show ?thesis using gone
      by (auto simp: keeps_absent_def put_local_def Let_def move_to_front_def key_absent_def AList.update_conv' split: option.split)
  qed
  then show "alone down_env ''k''" by (simp add: alone_def down_env_def down_read_def down_gate_def keeps_absent_def)
  show "redis_silent down_env" by (simp add: redis_silent_def down_env_def down_read_def read_redis_def)
qed

lemma load_survives_outage_witness:
  "fst (load_json (down_env\<lparr>le_load := Inr ''3''\<rparr>) ''k'' (new_json_store True 0 0 0)) = Inr (Some 3) \<and>
   length (js_local (snd (load_json (down_env\<lparr>le_load := Inr ''3''\<rparr>) ''k'' (new_json_store True 0 0 0)))) \<le> 512"
proof -
  let ?env = "down_env\<lparr>le_load := Inr ''3''\<rparr>"
  obtain r s' where l: "load_json ?env ''k'' (new_json_store True 0 0 0) = (r, s')"
    by (cases "load_json ?env ''k'' (new_json_store True 0 0 0)")
  have "env_ok ?env" "alone ?env ''k''" "redis_silent ?env"
    using down_env_ok down_env_alone by (simp_all add: env_ok_def alone_def redis_silent_def)
  moreover have "key_absent ''k'' (new_json_store True 0 0 0)" by (simp add: key_absent_def new_json_store_def)
  moreover have "uncached ?env = Inr (Some 3)" by (simp add: uncached_def down_env_def decode_target_def)
  ultimately show ?thesis using load_survives_outage[OF new_store_ok _ l] l by (simp add: new_json_store_def)
qed

text \<open>Eviction never takes the entry in front, so what was just put is read back until it expires.\<close>

lemma evict_keeps_front:
  "lru_ok s \<Longrightarrow> 0 < js_max_items s \<Longrightarrow> js_lru s = (el, e) # xs \<Longrightarrow> \<exists>ys. js_lru (evict s) = (el, e) # ys"
proof (induction s arbitrary: xs rule: evict.induct)
  case (1 s)
  show ?case
  proof (cases "length (js_local s) \<le> js_max_items s")
    case True
    then show ?thesis using 1(4) by (simp add: evict.simps[of s])
  next
    case False
    let ?s = "s\<lparr>js_local := AList.delete (je_key (snd (last (js_lru s)))) (js_local s), js_lru := butlast (js_lru s)\<rparr>"
    have eq: "evict s = evict ?s" using False 1(4) by (simp add: evict.simps[of s])
    have ok: "lru_ok ?s" using evict_step_ok[OF 1(2)] 1(4) by simp
    have "xs \<noteq> []" using False 1(3) lru_ok_length[OF 1(2)] 1(4) by auto
    then have "js_lru ?s = (el, e) # butlast xs" using 1(4) by simp
    then show ?thesis using 1(1)[OF _ ok] 1(3,4) False eq by simp
  qed
qed

lemma put_then_get:
  assumes "lru_ok s" "0 < js_max_items s" "now < t"
  shows "fst (get_local now key (put_local key raw t s)) = Some raw"
proof -
  have front: "fst (get_local now key x) = Some (je_value e)"
    if "lru_ok x" "js_lru x = (el, e) # ys" "je_key e = key" "now < je_expires_at e" for x el e ys
  proof -
    have "(key, el) \<in> set (listed (js_lru x))" using that by (simp add: listed_def)
    then have "(key, el) \<in> set (js_local x)" using that(1) by (metis lru_ok_def set_mset_mset)
    then have "map_of (js_local x) key = Some el" using that(1) by (simp add: lru_ok_def)
    then show ?thesis using that by (simp add: get_local_def)
  qed
  let ?e = "\<lparr> je_key = key, je_value = raw, je_expires_at = t \<rparr>"
  show ?thesis
  proof (cases "map_of (js_local s) key")
    case None
    let ?s = "s\<lparr>js_lru := (js_next s, ?e) # js_lru s, js_local := AList.update key (js_next s) (js_local s), js_next := js_next s + 1\<rparr>"
    have put: "put_local key raw t s = evict ?s" using None by (simp add: put_local_def)
    have ok: "lru_ok ?s" using lru_ok_insert[OF assms(1) None] by simp
    obtain ys where "js_lru (evict ?s) = (js_next s, ?e) # ys" using evict_keeps_front[OF ok] assms(2) by auto
    then show ?thesis using front[of "evict ?s"] evict_ok[OF ok] put assms(3) by simp
  next
    case (Some el)
    obtain e where e: "je_key e = key" "(el, e) \<in> set (js_lru s)" using lru_ok_lookup[OF assms(1) Some] by blast
    show ?thesis using front[of "move_to_front el ?e s" el ?e] lru_ok_front[OF assms(1) e(2), of ?e] e(1) Some assms(3)
      by (simp add: put_local_def move_to_front_def)
  qed
qed

end
