(* ===== verification/SearchIndex.thy ===== *)
theory SearchIndex
  imports OwnerEpoch ObjectStore Dispatcher "HOL-Library.Char_ord" "HOL-Library.List_Lexorder"
begin

text \<open>
  Package \<open>search\<close>, \<open>index.go\<close> and the control plane of \<open>backfill.go\<close>: the projections of files and document
  chunks that PostgreSQL keeps for every index generation, their upserts and tombstones, and the generations
  themselves (\<open>search_index_versions\<close>), which are built, activated, retired and rolled back.  Columns no
  query depends on (\<open>attempt\<close>, \<open>indexed_at\<close>, the rows' \<open>updated_at\<close> and \<open>last_error\<close>) are left out.
\<close>

section \<open>Tables\<close>

record content_projection =
  cp_backend :: string
  cp_target :: string
  cp_object_id :: uuid
  cp_document_version_id :: uuid
  cp_chunk_id :: uuid
  cp_ordinal :: int
  cp_pipeline_version :: string
  cp_model_version :: string
  cp_index_epoch :: int
  cp_content :: gotext
  cp_vector_ref :: "string option"
  cp_tombstone :: bool

record file_projection =
  fp_backend :: string
  fp_target :: string
  fp_file_entry_id :: uuid
  fp_owner_id :: uuid
  fp_folder_id :: uuid
  fp_object_id :: uuid
  fp_file_version :: int
  fp_acl_version :: int
  fp_name :: gotext
  fp_mime_type :: string
  fp_index_epoch :: int
  fp_tombstone :: bool

text \<open>A row is its projection with the primary key and the state; the content row has no tombstone column,
  \<open>cp_tombstone\<close> of a row stands for nothing.\<close>

record content_row = content_projection +
  cr_id :: uuid
  cr_state :: string

record file_row = file_projection +
  fr_id :: uuid
  fr_state :: string

record index_version =
  iv_id :: uuid
  iv_backend :: string
  iv_projection_type :: string
  iv_target :: string
  iv_index_epoch :: int
  iv_state :: string
  iv_watermark :: "int option"
  iv_cursor :: "uuid option"
  iv_checksum :: "string option"
  iv_last_error :: "string option"
  iv_activated_at :: "time option"

record checkpoint =
  pc_event_id :: uuid
  pc_consumer_name :: string
  pc_state :: string
  pc_attempt :: nat
  pc_last_error :: "string option"
  pc_watermark :: "int option"
  pc_checksum :: "string option"

text \<open>The columns of the AI tables that the projector reads.\<close>

record ai_source =
  dc_id :: uuid
  dc_object_id :: uuid
  dc_active_version_id :: "uuid option"

record ai_version =
  dv_id :: uuid
  dv_status :: string
  dv_pipeline_version :: string
  dv_model_version :: string

record ai_chunk =
  ck_id :: uuid
  ck_document_id :: uuid
  ck_document_version_id :: uuid
  ck_ordinal :: int
  ck_content :: gotext
  ck_embedding :: string

record search_db =
  sd_facts :: db
  sd_documents :: "ai_source list"
  sd_doc_versions :: "ai_version list"
  sd_chunks :: "ai_chunk list"
  sd_content :: "content_row list"
  sd_files :: "file_row list"
  sd_versions :: "index_version list"
  sd_checkpoints :: "checkpoint list"

definition backend_postgres :: string where "backend_postgres = ''postgres''"
definition projection_file :: string where "projection_file = ''file''"
definition projection_content :: string where "projection_content = ''content''"

definition err_invalid_index_version :: go_error where
  "err_invalid_index_version = ErrNew ''search: invalid index version''"
definition err_index_version_conflict :: go_error where
  "err_index_version_conflict = ErrNew ''search: index version state conflict''"

section \<open>Projections\<close>

definition same_chunk :: "'a content_projection_scheme \<Rightarrow> 'b content_projection_scheme \<Rightarrow> bool" where
  "same_chunk v r \<longleftrightarrow> cp_backend r = cp_backend v \<and> cp_target r = cp_target v \<and> cp_chunk_id r = cp_chunk_id v"

definition same_file :: "'a file_projection_scheme \<Rightarrow> 'b file_projection_scheme \<Rightarrow> bool" where
  "same_file v r \<longleftrightarrow> fp_backend r = fp_backend v \<and> fp_target r = fp_target v \<and> fp_file_entry_id r = fp_file_entry_id v"

definition content_row_of :: "ctx \<Rightarrow> content_projection \<Rightarrow> content_row" where
  "content_row_of cx v = content_projection.extend v \<lparr>
     cr_id = cx_name_uuid cx (cp_backend v @ '':'' @ cp_target v @ '':'' @ uuid_string (cp_chunk_id v)),
     cr_state = (if cp_tombstone v then ''tombstoned'' else ''indexed'') \<rparr>"

text \<open>The WHERE of the conflict action: \<open>new\<close> is \<open>EXCLUDED\<close>.\<close>

definition content_supersedes :: "content_row \<Rightarrow> content_row \<Rightarrow> bool" where
  "content_supersedes old new \<longleftrightarrow> cp_index_epoch old \<le> cp_index_epoch new \<and>
     (cr_state old \<noteq> ''tombstoned'' \<or> cr_state new = ''tombstoned'' \<or> cp_index_epoch old < cp_index_epoch new)"

definition upsert_content :: "ctx \<Rightarrow> content_projection \<Rightarrow> search_db \<Rightarrow> search_db result" where
  "upsert_content cx v s =
     (if cp_index_epoch v \<le> 0 \<or> cp_object_id v = 0 \<or> cp_chunk_id v = 0
      then Inl (ErrNew ''search: invalid content projection'')
      else let row = content_row_of cx v in
        if cp_ordinal v < 0 then Inl ErrCheckViolation
        else if exists_where (same_chunk v) (sd_content s)
        then Inr (s\<lparr>sd_content := update_where (\<lambda>r. same_chunk v r \<and> content_supersedes r row)
               (\<lambda>r. row\<lparr>cr_id := cr_id r\<rparr>) (sd_content s)\<rparr>)
        else if exists_where (\<lambda>r. cr_id r = cr_id row) (sd_content s) then Inl GormDuplicatedKey
        else Inr (s\<lparr>sd_content := sd_content s @ [row]\<rparr>))"

definition file_row_of :: "ctx \<Rightarrow> file_projection \<Rightarrow> file_row" where
  "file_row_of cx v = file_projection.extend v \<lparr>
     fr_id = cx_name_uuid cx (fp_backend v @ '':'' @ fp_target v @ '':'' @ uuid_string (fp_file_entry_id v)),
     fr_state = (if fp_tombstone v then ''tombstoned'' else ''indexed'') \<rparr>"

definition file_supersedes :: "file_row \<Rightarrow> file_row \<Rightarrow> bool" where
  "file_supersedes old new \<longleftrightarrow> fp_file_version old \<le> fp_file_version new \<and>
     fp_index_epoch old \<le> fp_index_epoch new \<and> fp_acl_version old \<le> fp_acl_version new \<and>
     (\<not> fp_tombstone old \<or> fp_tombstone new \<or> fp_file_version old < fp_file_version new)"

definition upsert_file :: "ctx \<Rightarrow> file_projection \<Rightarrow> search_db \<Rightarrow> search_db result" where
  "upsert_file cx v0 s =
     (if fp_index_epoch v0 \<le> 0 \<or> fp_file_entry_id v0 = 0 \<or> fp_owner_id v0 = 0
      then Inl (ErrNew ''search: invalid file projection'')
      else let v = (if fp_acl_version v0 \<le> 0 then v0\<lparr>fp_acl_version := 1\<rparr> else v0);
               row = file_row_of cx v in
        if fp_file_version v \<le> 0 then Inl ErrCheckViolation
        else if exists_where (same_file v) (sd_files s)
        then Inr (s\<lparr>sd_files := update_where (\<lambda>r. same_file v r \<and> file_supersedes r row)
               (\<lambda>r. row\<lparr>fr_id := fr_id r\<rparr>) (sd_files s)\<rparr>)
        else if exists_where (\<lambda>r. fr_id r = fr_id row) (sd_files s) then Inl GormDuplicatedKey
        else Inr (s\<lparr>sd_files := sd_files s @ [row]\<rparr>))"

definition tombstone_object_content :: "string \<Rightarrow> uuid \<Rightarrow> int \<Rightarrow> search_db \<Rightarrow> search_db" where
  "tombstone_object_content backend object epoch s =
     s\<lparr>sd_content := update_where (\<lambda>r. cp_backend r = backend \<and> cp_object_id r = object \<and> cp_index_epoch r \<le> epoch)
        (\<lambda>r. r\<lparr>cr_state := ''tombstoned'', cp_index_epoch := epoch\<rparr>) (sd_content s)\<rparr>"

definition tombstone_file :: "string \<Rightarrow> uuid \<Rightarrow> int \<Rightarrow> search_db \<Rightarrow> search_db" where
  "tombstone_file backend file version s =
     s\<lparr>sd_files := update_where (\<lambda>r. fp_backend r = backend \<and> fp_file_entry_id r = file \<and> fp_file_version r \<le> version)
        (\<lambda>r. r\<lparr>fp_tombstone := True, fr_state := ''tombstoned'', fp_file_version := version\<rparr>) (sd_files s)\<rparr>"

section \<open>Generations\<close>

definition version_active :: "index_version \<Rightarrow> bool" where
  "version_active v \<longleftrightarrow> iv_state v = ''active''"

text \<open>\<open>uq_search_index_versions_active\<close>.\<close>

definition one_active :: "index_version list \<Rightarrow> bool" where
  "one_active t \<longleftrightarrow> distinct (map (\<lambda>v. (iv_backend v, iv_projection_type v)) (filter version_active t))"

definition update_versions :: "(index_version \<Rightarrow> bool) \<Rightarrow> (index_version \<Rightarrow> index_version) \<Rightarrow> search_db \<Rightarrow> (nat \<times> search_db) result" where
  "update_versions P f s =
     (let t = update_where P f (sd_versions s) in
      if one_active t then Inr (count_where P (sd_versions s), s\<lparr>sd_versions := t\<rparr>) else Inl GormDuplicatedKey)"

definition affected_one :: "(nat \<times> search_db) result \<Rightarrow> search_db result" where
  "affected_one r = attempt r (\<lambda>(n, s). if n \<noteq> 1 then Inl err_index_version_conflict else Inr s)"

definition same_generation :: "string \<Rightarrow> string \<Rightarrow> string \<Rightarrow> index_version \<Rightarrow> bool" where
  "same_generation backend ptype tgt v \<longleftrightarrow> iv_backend v = backend \<and> iv_projection_type v = ptype \<and> iv_target v = tgt"

definition start_version :: "ctx \<Rightarrow> string \<Rightarrow> string \<Rightarrow> string \<Rightarrow> int \<Rightarrow> search_db \<Rightarrow> (index_version \<times> search_db) result" where
  "start_version cx backend ptype tgt epoch s =
     (if backend = [] \<or> ptype = [] \<or> tgt = [] \<or> epoch \<le> 0 then Inl err_invalid_index_version
      else let row = \<lparr> iv_id = cx_name_uuid cx (backend @ '':'' @ ptype @ '':'' @ tgt), iv_backend = backend,
             iv_projection_type = ptype, iv_target = tgt, iv_index_epoch = epoch, iv_state = ''building'',
             iv_watermark = None, iv_cursor = None, iv_checksum = None, iv_last_error = None, iv_activated_at = None \<rparr> in
        if ptype \<notin> {projection_content, projection_file} then Inl ErrCheckViolation
        else attempt (if exists_where (same_generation backend ptype tgt) (sd_versions s) then Inr s
          else if exists_where (\<lambda>v. iv_id v = iv_id row) (sd_versions s) then Inl GormDuplicatedKey
          else Inr (s\<lparr>sd_versions := sd_versions s @ [row]\<rparr>)) (\<lambda>s1.
        attempt (found GormRecordNotFound (find (\<lambda>v. same_generation backend ptype tgt v \<and> iv_id v = iv_id row)
          (sd_versions s1))) (\<lambda>v.
        if iv_index_epoch v \<noteq> epoch then Inl err_index_version_conflict else Inr (v, s1))))"

definition allowed_index_version_transition :: "string \<Rightarrow> string \<Rightarrow> bool" where
  "allowed_index_version_transition old new =
     (if old = ''building'' then new = ''active'' \<or> new = ''failed''
      else if old = ''active'' then new = ''retired''
      else if old = ''failed'' then new = ''retired''
      else False)"

definition has_sha_prefix :: "string \<Rightarrow> bool" where
  "has_sha_prefix c \<longleftrightarrow> take 7 c = ''sha256:''"

definition retire_others :: "uuid \<Rightarrow> string \<Rightarrow> string \<Rightarrow> search_db \<Rightarrow> search_db result" where
  "retire_others keep backend ptype s = attempt (update_versions (\<lambda>v. iv_backend v = backend \<and> iv_projection_type v = ptype \<and>
       iv_state v = ''active'' \<and> iv_id v \<noteq> keep) (\<lambda>v. v\<lparr>iv_state := ''retired''\<rparr>) s) (\<lambda>(_, s'). Inr s')"

definition promote :: "ctx \<Rightarrow> uuid \<Rightarrow> string \<Rightarrow> search_db \<Rightarrow> search_db result" where
  "promote cx vid old s = affected_one (update_versions (\<lambda>v. iv_id v = vid \<and> iv_state v = old)
     (\<lambda>v. v\<lparr>iv_state := ''active'', iv_activated_at := Some (cx_now cx)\<rparr>) s)"

definition activate_version :: "ctx \<Rightarrow> uuid \<Rightarrow> search_db \<Rightarrow> search_db result" where
  "activate_version cx vid s =
     (if vid = 0 then Inl err_invalid_index_version
      else attempt (found GormRecordNotFound (find (\<lambda>v. iv_id v = vid) (sd_versions s))) (\<lambda>next.
        if iv_state next \<noteq> ''building'' \<or> iv_watermark next = None \<or>
           (case iv_checksum next of None \<Rightarrow> True | Some c \<Rightarrow> \<not> has_sha_prefix c) \<or> iv_last_error next \<noteq> None
        then Inl err_index_version_conflict
        else attempt (retire_others vid (iv_backend next) (iv_projection_type next) s) (promote cx vid ''building'')))"

definition set_version_state :: "ctx \<Rightarrow> uuid \<Rightarrow> string \<Rightarrow> string \<Rightarrow> string option \<Rightarrow> search_db \<Rightarrow> search_db result" where
  "set_version_state cx vid old new last_error s =
     (if vid = 0 \<or> old = [] \<or> new = [] then Inl err_invalid_index_version
      else if \<not> allowed_index_version_transition old new then Inl err_index_version_conflict
      else if new = ''active'' then activate_version cx vid s
      else affected_one (update_versions (\<lambda>v. iv_id v = vid \<and> iv_state v = old)
             (\<lambda>v. v\<lparr>iv_state := new, iv_last_error := last_error\<rparr>) s))"

definition update_version_progress :: "uuid \<Rightarrow> int option \<Rightarrow> string option \<Rightarrow> search_db \<Rightarrow> search_db result" where
  "update_version_progress vid watermark checksum s =
     (if vid = 0 then Inl err_invalid_index_version
      else affected_one (update_versions (\<lambda>v. iv_id v = vid \<and> iv_state v = ''building'')
             (\<lambda>v. v\<lparr>iv_watermark := watermark, iv_checksum := checksum, iv_last_error := None\<rparr>) s))"

definition update_version_cursor :: "uuid \<Rightarrow> uuid option \<Rightarrow> int option \<Rightarrow> string option \<Rightarrow> search_db \<Rightarrow> search_db result" where
  "update_version_cursor vid cursor watermark checksum s =
     (if vid = 0 then Inl err_invalid_index_version
      else affected_one (update_versions (\<lambda>v. iv_id v = vid \<and> iv_state v = ''building'')
             (\<lambda>v. v\<lparr>iv_cursor := cursor, iv_watermark := watermark, iv_checksum := checksum, iv_last_error := None\<rparr>) s))"

definition rollback_version :: "ctx \<Rightarrow> string \<Rightarrow> string \<Rightarrow> string \<Rightarrow> search_db \<Rightarrow> search_db result" where
  "rollback_version cx backend ptype tgt s =
     (if backend = [] \<or> ptype = [] \<or> tgt = [] then Inl err_invalid_index_version
      else attempt (found GormRecordNotFound (find (same_generation backend ptype tgt) (sd_versions s))) (\<lambda>next.
        if iv_state next \<noteq> ''retired'' \<and> iv_state next \<noteq> ''active'' then Inl err_index_version_conflict
        else attempt (retire_others (iv_id next) backend ptype s) (\<lambda>s1.
          if iv_state next = ''retired'' then promote cx (iv_id next) ''retired'' s1 else Inr s1)))"

definition active_version :: "string \<Rightarrow> string \<Rightarrow> search_db \<Rightarrow> index_version result" where
  "active_version backend ptype s =
     (if backend = [] \<or> ptype = [] then Inl err_invalid_index_version
      else found GormRecordNotFound (find (\<lambda>v. iv_backend v = backend \<and> iv_projection_type v = ptype \<and> iv_state v = ''active'')
        (sd_versions s)))"

section \<open>Targets\<close>

text \<open>One writer of projections: \<open>pj_backends\<close> is \<open>None\<close> without an external index, \<open>Some bs\<close> for one that reports
  the backends \<open>bs\<close>; \<open>pj_digest\<close> is SHA-256 in hexadecimal.\<close>

record projector =
  pj_target :: string
  pj_index_epoch :: int
  pj_backends :: "string list option"
  pj_digest :: "string \<Rightarrow> string"

definition with_commas :: "string list \<Rightarrow> string" where
  "with_commas bs = concat (case bs of [] \<Rightarrow> [] | b # cs \<Rightarrow> b # map (\<lambda>c. '','' @ c) cs)"

definition consumer_name :: "projector \<Rightarrow> string" where
  "consumer_name p =
     (let backends = sort (backend_postgres # (case pj_backends p of None \<Rightarrow> [] | Some bs \<Rightarrow> bs)) in
      ''search-indexer:'' @ pj_digest p (pj_target p @ '':'' @ int_string (pj_index_epoch p) @ '':'' @ with_commas backends))"

definition complete_target :: "index_version list \<Rightarrow> int result" where
  "complete_target vs =
     (case vs of [] \<Rightarrow> Inl GormRecordNotFound
      | v # _ \<Rightarrow>
          if list_ex (\<lambda>w. iv_index_epoch w \<noteq> iv_index_epoch v) vs then Inl err_index_version_conflict
          else if count_where (\<lambda>w. iv_backend w = backend_postgres) vs \<noteq> 2 then Inl err_index_version_conflict
          else if list_ex (\<lambda>w. count_where (\<lambda>u. iv_backend u = iv_backend w) vs \<noteq> 2) vs then Inl err_index_version_conflict
          else Inr (iv_index_epoch v))"

definition target_versions :: "string \<Rightarrow> search_db \<Rightarrow> index_version list" where
  "target_versions tgt s =
     sort_key iv_backend (sort_key iv_projection_type (filter (\<lambda>v. iv_target v = tgt) (sd_versions s)))"

primrec activate_all :: "ctx \<Rightarrow> index_version list \<Rightarrow> search_db \<Rightarrow> search_db result" where
  "activate_all cx [] s = Inr s"
| "activate_all cx (v # vs) s =
     (if iv_state v = ''active'' then activate_all cx vs s
      else attempt (activate_version cx (iv_id v) s) (activate_all cx vs))"

definition activate_target :: "ctx \<Rightarrow> projector \<Rightarrow> string \<Rightarrow> search_db \<Rightarrow> search_db result" where
  "activate_target cx p tgt s =
     (if tgt = [] then Inl err_invalid_index_version
      else let versions = target_versions tgt s in
        if versions = [] then Inl GormRecordNotFound
        else attempt (complete_target versions) (\<lambda>epoch.
          let worker = p\<lparr>pj_target := tgt, pj_index_epoch := epoch\<rparr> in
          if 0 < count_where (\<lambda>c. pc_consumer_name c = consumer_name worker \<and>
                 pc_state c \<in> {''pending'', ''publishing'', ''failed''}) (sd_checkpoints s)
          then Inl (ErrWrap err_index_version_conflict ''unfinished external publications'')
          else activate_all cx versions s))"

primrec rollback_all :: "ctx \<Rightarrow> string \<Rightarrow> index_version list \<Rightarrow> search_db \<Rightarrow> search_db result" where
  "rollback_all cx tgt [] s = Inr s"
| "rollback_all cx tgt (v # vs) s =
     attempt (rollback_version cx (iv_backend v) (iv_projection_type v) tgt s) (rollback_all cx tgt vs)"

definition rollback_target :: "ctx \<Rightarrow> string \<Rightarrow> search_db \<Rightarrow> search_db result" where
  "rollback_target cx tgt s =
     (if tgt = [] then Inl err_invalid_index_version
      else let versions = target_versions tgt s in
        attempt (complete_target versions) (\<lambda>_. rollback_all cx tgt versions s))"

section \<open>Cutting over\<close>

definition version_group :: "index_version \<Rightarrow> string \<times> string" where
  "version_group v = (iv_backend v, iv_projection_type v)"

definition version_ident :: "index_version \<Rightarrow> uuid \<times> string \<times> string \<times> string \<times> int" where
  "version_ident v = (iv_id v, iv_backend v, iv_projection_type v, iv_target v, iv_index_epoch v)"

definition versions_ok :: "search_db \<Rightarrow> bool" where
  "versions_ok s \<longleftrightarrow> key_distinct iv_id (sd_versions s) \<and>
     key_distinct (\<lambda>v. (iv_backend v, iv_projection_type v, iv_target v)) (sd_versions s) \<and> one_active (sd_versions s) \<and>
     (\<forall>v \<in> set (sd_versions s). iv_projection_type v \<in> {projection_content, projection_file})"

text \<open>What a cut-over to \<open>nxt\<close> does to each row.\<close>

definition cut_over :: "ctx \<Rightarrow> index_version \<Rightarrow> index_version \<Rightarrow> index_version" where
  "cut_over cx nxt v =
     (if iv_id v = iv_id nxt then if version_active v then v else v\<lparr>iv_state := ''active'', iv_activated_at := Some (cx_now cx)\<rparr>
      else if version_group v = version_group nxt \<and> version_active v then v\<lparr>iv_state := ''retired''\<rparr> else v)"

lemma cut_over_ident [simp]: "version_ident (cut_over cx nxt v) = version_ident v"
  by (simp add: cut_over_def version_ident_def)

lemma cut_over_frame [simp]:
  "iv_id (cut_over cx nxt v) = iv_id v" "version_group (cut_over cx nxt v) = version_group v"
  "iv_target (cut_over cx nxt v) = iv_target v" "iv_projection_type (cut_over cx nxt v) = iv_projection_type v"
  "iv_backend (cut_over cx nxt v) = iv_backend v"
  by (simp_all add: cut_over_def version_group_def)

lemma update_versions_Inr:
  "update_versions P f s = Inr (n, s') \<longleftrightarrow> one_active (update_where P f (sd_versions s)) \<and> n = count_where P (sd_versions s) \<and>
     s' = s\<lparr>sd_versions := update_where P f (sd_versions s)\<rparr>"
  by (auto simp: update_versions_def Let_def)

lemma affected_one_Inr: "affected_one r = Inr s \<longleftrightarrow> r = Inr (1, s)"
  by (cases r) (auto simp: affected_one_def)

lemma retire_promote:
  assumes "key_distinct iv_id (sd_versions s)" "nxt \<in> set (sd_versions s)" "\<not> version_active nxt" "iv_state nxt = old"
    "retire_others (iv_id nxt) (iv_backend nxt) (iv_projection_type nxt) s = Inr s1" "promote cx (iv_id nxt) old s1 = Inr s'"
  shows "s' = s\<lparr>sd_versions := map (cut_over cx nxt) (sd_versions s)\<rparr>" "one_active (sd_versions s')"
proof -
  have s1: "s1 = s\<lparr>sd_versions := update_where (\<lambda>v. iv_backend v = iv_backend nxt \<and> iv_projection_type v = iv_projection_type nxt \<and>
       iv_state v = ''active'' \<and> iv_id v \<noteq> iv_id nxt) (\<lambda>v. v\<lparr>iv_state := ''retired''\<rparr>) (sd_versions s)\<rparr>"
    using assms(5) by (auto simp: retire_others_def attempt_eq_Inr_iff update_versions_Inr)
  have s': "s' = s1\<lparr>sd_versions := update_where (\<lambda>v. iv_id v = iv_id nxt \<and> iv_state v = old)
     (\<lambda>v. v\<lparr>iv_state := ''active'', iv_activated_at := Some (cx_now cx)\<rparr>) (sd_versions s1)\<rparr>" and "one_active (sd_versions s')"
    using assms(6) by (auto simp: promote_def affected_one_Inr update_versions_Inr)
  then show "one_active (sd_versions s')" by simp
  have same: "v = nxt" if "v \<in> set (sd_versions s)" "iv_id v = iv_id nxt" for v
    using key_unique[OF assms(1) that(1) assms(2) that(2)] .
  show "s' = s\<lparr>sd_versions := map (cut_over cx nxt) (sd_versions s)\<rparr>"
    unfolding s' s1 using assms(3,4)
    by (auto simp: update_where_def cut_over_def version_active_def version_group_def dest: same intro!: arg_cong[of _ _ "\<lambda>t. s\<lparr>sd_versions := t\<rparr>"])
qed

lemma activate_version_result:
  assumes "key_distinct iv_id (sd_versions s)" "activate_version cx vid s = Inr s'"
  obtains nxt c where "nxt \<in> set (sd_versions s)" "iv_id nxt = vid" "iv_state nxt = ''building''" "iv_watermark nxt \<noteq> None"
    "iv_checksum nxt = Some c" "has_sha_prefix c" "iv_last_error nxt = None"
    "s' = s\<lparr>sd_versions := map (cut_over cx nxt) (sd_versions s)\<rparr>" "one_active (sd_versions s')"
proof -
  obtain nxt s1 where n: "find (\<lambda>v. iv_id v = vid) (sd_versions s) = Some nxt" "iv_state nxt = ''building''"
    "iv_watermark nxt \<noteq> None" "\<not> (case iv_checksum nxt of None \<Rightarrow> True | Some c \<Rightarrow> \<not> has_sha_prefix c)" "iv_last_error nxt = None"
    "retire_others vid (iv_backend nxt) (iv_projection_type nxt) s = Inr s1" "promote cx vid ''building'' s1 = Inr s'"
    using assms(2) by (auto simp: activate_version_def attempt_eq_Inr_iff split: if_splits)
  have m: "nxt \<in> set (sd_versions s)" "iv_id nxt = vid" using find_SomeD[OF n(1)] by simp_all
  have na: "\<not> version_active nxt" using n(2) by (simp add: version_active_def)
  note r = retire_promote[OF assms(1) m(1) na n(2) n(6)[folded m(2)] n(7)[folded m(2)]]
  obtain c where c: "iv_checksum nxt = Some c" "has_sha_prefix c" using n(4) by (cases "iv_checksum nxt") auto
  show thesis by (rule that[OF m n(2,3) c n(5) r])
qed

lemma rollback_version_result:
  assumes "key_distinct iv_id (sd_versions s)" "rollback_version cx b t tgt s = Inr s'" "one_active (sd_versions s)"
  obtains nxt where "nxt \<in> set (sd_versions s)" "same_generation b t tgt nxt" "iv_state nxt \<in> {''retired'', ''active''}"
    "s' = s\<lparr>sd_versions := map (cut_over cx nxt) (sd_versions s)\<rparr>" "one_active (sd_versions s')"
proof -
  obtain nxt s1 where n: "find (same_generation b t tgt) (sd_versions s) = Some nxt" "iv_state nxt = ''retired'' \<or> iv_state nxt = ''active''"
    "retire_others (iv_id nxt) b t s = Inr s1" "(if iv_state nxt = ''retired'' then promote cx (iv_id nxt) ''retired'' s1 else Inr s1) = Inr s'"
    using assms(2) by (auto simp: rollback_version_def attempt_eq_Inr_iff split: if_splits)
  have m: "nxt \<in> set (sd_versions s)" "same_generation b t tgt nxt" using find_SomeD[OF n(1)] by simp_all
  then have g: "iv_backend nxt = b" "iv_projection_type nxt = t" by (simp_all add: same_generation_def)
  have s1: "s1 = s\<lparr>sd_versions := update_where (\<lambda>v. iv_backend v = b \<and> iv_projection_type v = t \<and>
       iv_state v = ''active'' \<and> iv_id v \<noteq> iv_id nxt) (\<lambda>v. v\<lparr>iv_state := ''retired''\<rparr>) (sd_versions s)\<rparr>" "one_active (sd_versions s1)"
    using n(3) by (auto simp: retire_others_def attempt_eq_Inr_iff update_versions_Inr)
  have same: "v = nxt" if "v \<in> set (sd_versions s)" "iv_id v = iv_id nxt" for v
    using key_unique[OF assms(1) that(1) m(1) that(2)] .
  show thesis
  proof (cases "iv_state nxt = ''retired''")
    case True
    have na: "\<not> version_active nxt" using True by (simp add: version_active_def)
    have "promote cx (iv_id nxt) ''retired'' s1 = Inr s'" using n(4) True by simp
    note r = retire_promote[OF assms(1) m(1) na True n(3)[folded g] this]
    show thesis by (rule that[OF m _ r]) (simp add: True)
  next
    case False
    then have a: "iv_state nxt = ''active''" "s' = s1" using n(2,4) by auto
    have "s' = s\<lparr>sd_versions := map (cut_over cx nxt) (sd_versions s)\<rparr>" unfolding a(2) s1(1)
      using a(1) g
      by (auto simp: update_where_def cut_over_def version_active_def version_group_def dest: same intro!: arg_cong[of _ _ "\<lambda>t. s\<lparr>sd_versions := t\<rparr>"])
    then show thesis using that[OF m] a s1(2) by simp
  qed
qed

lemma map_ident_eq: "map version_ident (map (cut_over cx nxt) t) = map version_ident t"
  by simp

lemma versions_ok_idents:
  assumes "versions_ok s" "map version_ident (sd_versions s') = map version_ident (sd_versions s)" "one_active (sd_versions s')"
  shows "versions_ok s'"
proof -
  have m: "map (f \<circ> version_ident) (sd_versions s') = map (f \<circ> version_ident) (sd_versions s)" for f :: "_ \<Rightarrow> 'a"
    using arg_cong[OF assms(2), of "map f"] by simp
  have ids: "map iv_id (sd_versions s') = map iv_id (sd_versions s)" using m[of fst] by (simp add: comp_def version_ident_def)
  have keys: "map (\<lambda>v. (iv_backend v, iv_projection_type v, iv_target v)) (sd_versions s') =
      map (\<lambda>v. (iv_backend v, iv_projection_type v, iv_target v)) (sd_versions s)"
    using m[of "\<lambda>(i, b, t, g, e). (b, t, g)"] by (simp add: comp_def version_ident_def)
  have "iv_projection_type ` set (sd_versions s') = iv_projection_type ` set (sd_versions s)"
    using arg_cong[OF m[of "\<lambda>(i, b, t, g, e). t"], of set] by (simp add: comp_def version_ident_def image_image)
  moreover have "iv_projection_type v \<in> iv_projection_type ` set (sd_versions s')" if "v \<in> set (sd_versions s')" for v using that by simp
  ultimately have "iv_projection_type v \<in> {projection_content, projection_file}" if "v \<in> set (sd_versions s')" for v
    using assms(1) that unfolding versions_ok_def by fastforce
  then show ?thesis using assms(1,3) ids keys by (simp add: versions_ok_def key_distinct_def)
qed

lemma active_unique:
  assumes "versions_ok s" "v \<in> set (sd_versions s)" "w \<in> set (sd_versions s)" "version_active v" "version_active w"
    "version_group v = version_group w"
  shows "v = w"
  using assms by (auto simp: versions_ok_def one_active_def version_group_def distinct_map inj_on_def)

text \<open>A cut-over leaves one generation of its group active and no group without one.\<close>

definition still_served :: "search_db \<Rightarrow> search_db \<Rightarrow> bool" where
  "still_served s s' \<longleftrightarrow> version_group ` {v \<in> set (sd_versions s). version_active v} \<subseteq>
     version_group ` {v \<in> set (sd_versions s'). version_active v}"

lemma cut_over_served:
  assumes "nxt \<in> set (sd_versions s)"
  shows "still_served s (s\<lparr>sd_versions := map (cut_over cx nxt) (sd_versions s)\<rparr>)"
proof -
  have a: "version_active (cut_over cx nxt nxt)" by (simp add: cut_over_def version_active_def)
  have "version_active (cut_over cx nxt v) \<or> version_group v = version_group nxt" if "version_active v" for v
    using that by (auto simp: cut_over_def version_active_def)
  then show ?thesis using a assms unfolding still_served_def
    by (fastforce simp: image_iff)
qed

text \<open>A generation whose snapshot is finished.\<close>

definition version_built :: "index_version \<Rightarrow> bool" where
  "version_built v \<longleftrightarrow> iv_state v = ''building'' \<and> iv_watermark v \<noteq> None \<and>
     (\<exists>c. iv_checksum v = Some c \<and> has_sha_prefix c) \<and> iv_last_error v = None"

lemma activate_all_result:
  assumes "versions_ok s" "activate_all cx vs s = Inr s'" "set vs \<subseteq> set (sd_versions s)" "distinct (map version_group vs)"
  shows "versions_ok s' \<and> map version_ident (sd_versions s') = map version_ident (sd_versions s) \<and> still_served s s' \<and>
    s'\<lparr>sd_versions := []\<rparr> = s\<lparr>sd_versions := []\<rparr> \<and>
    (\<forall>w \<in> set (sd_versions s). version_group w \<notin> version_group ` set vs \<longrightarrow> w \<in> set (sd_versions s')) \<and>
    (\<forall>v \<in> set vs. \<exists>v' \<in> set (sd_versions s'). version_ident v' = version_ident v \<and> version_active v') \<and>
    (\<forall>v \<in> set vs. version_active v \<or> version_built v)"
  using assms
proof (induction vs arbitrary: s)
  case Nil
  then show ?case by (simp add: still_served_def)
next
  case (Cons v vs)
  obtain s1 v1 where step: "activate_all cx vs s1 = Inr s'" "versions_ok s1" "map version_ident (sd_versions s1) = map version_ident (sd_versions s)"
    "still_served s s1" "s1\<lparr>sd_versions := []\<rparr> = s\<lparr>sd_versions := []\<rparr>"
    "\<forall>w \<in> set (sd_versions s). version_group w \<noteq> version_group v \<longrightarrow> w \<in> set (sd_versions s1)"
    "v1 \<in> set (sd_versions s1)" "version_ident v1 = version_ident v" "version_active v1" "version_group v1 = version_group v"
    "version_active v \<or> version_built v"
  proof (cases "iv_state v = ''active''")
    case True
    then show thesis using that[of s v] Cons.prems by (simp add: still_served_def version_active_def)
  next
    case False
    then obtain s1 where s1: "activate_version cx (iv_id v) s = Inr s1" "activate_all cx vs s1 = Inr s'"
      using Cons.prems(2) by (auto simp: attempt_eq_Inr_iff)
    have kd: "key_distinct iv_id (sd_versions s)" using Cons.prems(1) by (simp add: versions_ok_def)
    obtain nxt where n: "nxt \<in> set (sd_versions s)" "iv_id nxt = iv_id v" "s1 = s\<lparr>sd_versions := map (cut_over cx nxt) (sd_versions s)\<rparr>"
      "one_active (sd_versions s1)" "version_built nxt"
      using activate_version_result[OF kd s1(1)] unfolding version_built_def by metis
    have nv: "nxt = v" using key_unique[OF kd n(1) _ n(2)] Cons.prems(3) by simp
    have idents: "map version_ident (sd_versions s1) = map version_ident (sd_versions s)" by (simp add: n(3))
    have other: "w \<in> set (sd_versions s1)" if "w \<in> set (sd_versions s)" "version_group w \<noteq> version_group v" for w
    proof -
      have "iv_id w \<noteq> iv_id nxt" using key_unique[OF kd that(1) n(1)] that(2) nv by auto
      then have "cut_over cx nxt w = w" using that(2) nv by (simp add: cut_over_def)
      then show ?thesis using that(1) n(3) by force
    qed
    have act: "version_active (cut_over cx nxt nxt)" by (simp add: cut_over_def version_active_def)
    have mem: "cut_over cx nxt nxt \<in> set (sd_versions s1)" using n(1,3) by simp
    show thesis
    proof (rule that[OF s1(2) versions_ok_idents[OF Cons.prems(1) idents n(4)] idents _ _ _ mem])
      show "still_served s s1" unfolding n(3) by (rule cut_over_served[OF n(1)])
      show "s1\<lparr>sd_versions := []\<rparr> = s\<lparr>sd_versions := []\<rparr>" using n(3) by simp
      show "\<forall>w \<in> set (sd_versions s). version_group w \<noteq> version_group v \<longrightarrow> w \<in> set (sd_versions s1)" using other by simp
      show "version_ident (cut_over cx nxt nxt) = version_ident v" "version_group (cut_over cx nxt nxt) = version_group v"
        using nv by simp_all
      show "version_active v \<or> version_built v" using n(5) nv by simp
    qed (rule act)
  qed
  have sub: "set vs \<subseteq> set (sd_versions s1)"
  proof
    fix w assume "w \<in> set vs"
    then have "w \<in> set (sd_versions s)" "version_group w \<noteq> version_group v" using Cons.prems(3,4) by (auto simp: image_iff)
    then show "w \<in> set (sd_versions s1)" using step(6) by simp
  qed
  have IH: "versions_ok s' \<and> map version_ident (sd_versions s') = map version_ident (sd_versions s1) \<and> still_served s1 s' \<and>
    s'\<lparr>sd_versions := []\<rparr> = s1\<lparr>sd_versions := []\<rparr> \<and>
    (\<forall>w \<in> set (sd_versions s1). version_group w \<notin> version_group ` set vs \<longrightarrow> w \<in> set (sd_versions s')) \<and>
    (\<forall>v \<in> set vs. \<exists>v' \<in> set (sd_versions s'). version_ident v' = version_ident v \<and> version_active v') \<and>
    (\<forall>v \<in> set vs. version_active v \<or> version_built v)"
    using Cons.IH[OF step(2,1) sub] Cons.prems(4) by simp
  note ok = IH[THEN conjunct1] and ids = IH[THEN conjunct2, THEN conjunct1]
    and sv1 = IH[THEN conjunct2, THEN conjunct2, THEN conjunct1]
    and fr1 = IH[THEN conjunct2, THEN conjunct2, THEN conjunct2, THEN conjunct1]
    and keep1 = IH[THEN conjunct2, THEN conjunct2, THEN conjunct2, THEN conjunct2, THEN conjunct1]
    and act1 = IH[THEN conjunct2, THEN conjunct2, THEN conjunct2, THEN conjunct2, THEN conjunct2, THEN conjunct1]
    and built1 = IH[THEN conjunct2, THEN conjunct2, THEN conjunct2, THEN conjunct2, THEN conjunct2, THEN conjunct2]
  have "version_group v1 \<notin> version_group ` set vs" using step(10) Cons.prems(4) by simp
  then have v1: "v1 \<in> set (sd_versions s')" using keep1 step(7) by blast
  have fr: "s'\<lparr>sd_versions := []\<rparr> = s\<lparr>sd_versions := []\<rparr>" using fr1 step(5) by simp
  have sv: "still_served s s'" using step(4) sv1 unfolding still_served_def by (rule subset_trans)
  have keep: "\<forall>w \<in> set (sd_versions s). version_group w \<notin> version_group ` set (v # vs) \<longrightarrow> w \<in> set (sd_versions s')"
    using keep1 step(6) by simp
  have "\<exists>v' \<in> set (sd_versions s'). version_ident v' = version_ident v \<and> version_active v'" using v1 step(8,9) by blast
  then have act: "\<forall>w \<in> set (v # vs). \<exists>v' \<in> set (sd_versions s'). version_ident v' = version_ident w \<and> version_active v'"
    using act1 by simp
  have built: "\<forall>w \<in> set (v # vs). version_active w \<or> version_built w" using built1 step(11) by simp
  show ?case by (intro conjI ok trans[OF ids step(3)] sv fr keep act built)
qed

lemma two_rows:
  assumes "count_where P t = 2" "distinct t"
  obtains a b where "a \<in> set t" "b \<in> set t" "P a" "P b" "a \<noteq> b"
proof -
  obtain a b where f: "filter P t = [a, b]"
    using assms(1) by (auto simp: count_where_def numeral_2_eq_2 length_Suc_conv)
  have "distinct (filter P t)" using assms(2) by simp
  then have "a \<noteq> b" using f by simp
  moreover have "a \<in> set (filter P t)" "b \<in> set (filter P t)" using f by simp_all
  ultimately show thesis using that by auto
qed

lemma set_target_versions [simp]: "set (target_versions tgt s) = {v \<in> set (sd_versions s). iv_target v = tgt}"
  by (simp add: target_versions_def)

lemma target_groups_distinct:
  assumes "versions_ok s"
  shows "distinct (target_versions tgt s)" "distinct (map version_group (target_versions tgt s))"
    "\<lbrakk>v \<in> set (sd_versions s); w \<in> set (sd_versions s); iv_target v = iv_target w; version_group v = version_group w\<rbrakk> \<Longrightarrow> v = w"
proof -
  have k: "distinct (map (\<lambda>v. (iv_backend v, iv_projection_type v, iv_target v)) (sd_versions s))"
    using assms by (simp add: versions_ok_def key_distinct_def)
  show inj: "v = w" if "v \<in> set (sd_versions s)" "w \<in> set (sd_versions s)" "iv_target v = iv_target w" "version_group v = version_group w" for v w
    using k that by (auto simp: distinct_map inj_on_def version_group_def)
  show d: "distinct (target_versions tgt s)" using k by (simp add: target_versions_def distinct_map)
  have "inj_on version_group (set (target_versions tgt s))" using inj by (auto intro!: inj_onI)
  then show "distinct (map version_group (target_versions tgt s))" using d by (simp add: distinct_map)
qed

lemma complete_target_Inr:
  assumes "complete_target vs = Inr epoch"
  shows "\<forall>v \<in> set vs. iv_index_epoch v = epoch \<and> count_where (\<lambda>u. iv_backend u = iv_backend v) vs = 2"
    "count_where (\<lambda>w. iv_backend w = backend_postgres) vs = 2"
  using assms by (auto simp: complete_target_def list_ex_iff split: list.splits if_splits)

lemma both_projections:
  assumes "versions_ok s" "count_where (\<lambda>u. iv_backend u = b) (target_versions tgt s) = 2" "t \<in> {projection_content, projection_file}"
  shows "\<exists>w \<in> set (target_versions tgt s). iv_backend w = b \<and> iv_projection_type w = t"
proof -
  obtain a c where ac: "a \<in> set (target_versions tgt s)" "c \<in> set (target_versions tgt s)" "iv_backend a = b" "iv_backend c = b" "a \<noteq> c"
    using two_rows[OF assms(2) target_groups_distinct(1)[OF assms(1)]] .
  then have "iv_projection_type a \<noteq> iv_projection_type c"
    using target_groups_distinct(3)[OF assms(1), of a c] by (auto simp: version_group_def)
  moreover have "iv_projection_type a \<in> {projection_content, projection_file}" "iv_projection_type c \<in> {projection_content, projection_file}"
    using ac assms(1) by (auto simp: versions_ok_def)
  ultimately show ?thesis using ac assms(3) by auto
qed

text \<open>C17: Cutting over to a rebuilt index is all or nothing.  When \<open>ActivateTarget\<close> commits, every generation row of the
  target is active and of one epoch, the PostgreSQL backend and every other backend of the target have both
  projections, so files and contents are read from the same generation; each row that was not active before had
  finished its snapshot (watermark, final checksum and no error); no backend and projection that was being served
  stops being served, at most one generation of each is active, and nothing but the generation rows changed.\<close>

theorem cutover_complete:
  assumes "versions_ok s" "activate_target cx p tgt s = Inr s'"
  shows "versions_ok s' \<and> still_served s s' \<and> s'\<lparr>sd_versions := []\<rparr> = s\<lparr>sd_versions := []\<rparr> \<and>
    (\<exists>epoch. \<forall>v \<in> set (target_versions tgt s'). version_active v \<and> iv_index_epoch v = epoch) \<and>
    (\<forall>b \<in> insert backend_postgres (iv_backend ` set (target_versions tgt s')). \<forall>t \<in> {projection_content, projection_file}.
       \<exists>w \<in> set (target_versions tgt s'). iv_backend w = b \<and> iv_projection_type w = t) \<and>
    (\<forall>v \<in> set (target_versions tgt s). version_active v \<or> version_built v)"
proof -
  let ?vs = "target_versions tgt s"
  obtain epoch where e: "complete_target ?vs = Inr epoch" "activate_all cx ?vs s = Inr s'"
    using assms(2) by (auto simp: activate_target_def Let_def attempt_eq_Inr_iff split: if_splits)
  note c = complete_target_Inr[OF e(1)]
  have "set ?vs \<subseteq> set (sd_versions s)" by auto
  note r = activate_all_result[OF assms(1) e(2) this target_groups_distinct(2)[OF assms(1)]]
  note ok = r[THEN conjunct1] and ids = r[THEN conjunct2, THEN conjunct1] and sv = r[THEN conjunct2, THEN conjunct2, THEN conjunct1]
    and fr = r[THEN conjunct2, THEN conjunct2, THEN conjunct2, THEN conjunct1]
    and act = r[THEN conjunct2, THEN conjunct2, THEN conjunct2, THEN conjunct2, THEN conjunct2, THEN conjunct1]
    and built = r[THEN conjunct2, THEN conjunct2, THEN conjunct2, THEN conjunct2, THEN conjunct2, THEN conjunct2]
  have old: "\<exists>v \<in> set ?vs. version_ident v = version_ident v'" if "v' \<in> set (target_versions tgt s')" for v'
  proof -
    have "version_ident v' \<in> set (map version_ident (sd_versions s'))" using that by simp
    then obtain v where "v \<in> set (sd_versions s)" "version_ident v = version_ident v'" unfolding ids by auto
    then show ?thesis using that by (auto simp: version_ident_def)
  qed
  have active: "version_active v' \<and> iv_index_epoch v' = epoch" if v': "v' \<in> set (target_versions tgt s')" for v'
  proof -
    obtain v where v: "v \<in> set ?vs" "version_ident v = version_ident v'" using old[OF v'] by blast
    obtain w where w: "w \<in> set (sd_versions s')" "version_ident w = version_ident v" "version_active w" using act v(1) by blast
    have "w = v'" using target_groups_distinct(3)[OF ok w(1), of v'] v(2) w(2) v' by (auto simp: version_ident_def version_group_def)
    then show ?thesis using w(3) c(1) v by (auto simp: version_ident_def)
  qed
  have both: "\<exists>w \<in> set (target_versions tgt s'). iv_backend w = b \<and> iv_projection_type w = t"
    if b: "b \<in> insert backend_postgres (iv_backend ` set (target_versions tgt s'))" and t: "t \<in> {projection_content, projection_file}" for b t
  proof -
    have "count_where (\<lambda>u. iv_backend u = b) ?vs = 2"
    proof (cases "b = backend_postgres")
      case False
      then obtain v' where "v' \<in> set (target_versions tgt s')" "iv_backend v' = b" using b by blast
      then obtain v where "v \<in> set ?vs" "iv_backend v = b" using old[of v'] unfolding version_ident_def by blast
      then show ?thesis using c(1) by blast
    qed (use c(2) in simp)
    then obtain w where w: "w \<in> set ?vs" "iv_backend w = b" "iv_projection_type w = t" using both_projections[OF assms(1) _ t] by blast
    obtain w' where "w' \<in> set (sd_versions s')" "version_ident w' = version_ident w" using act w(1) by blast
    then show ?thesis using w by (auto simp: version_ident_def)
  qed
  show ?thesis using ok sv fr active both built by blast
qed

definition gen_row :: "uuid \<Rightarrow> string \<Rightarrow> string \<Rightarrow> int \<Rightarrow> string \<Rightarrow> index_version" where
  "gen_row i t g e st = \<lparr> iv_id = i, iv_backend = backend_postgres, iv_projection_type = t, iv_target = g, iv_index_epoch = e,
     iv_state = st, iv_watermark = Some 3, iv_cursor = None, iv_checksum = Some ''sha256:00'', iv_last_error = None, iv_activated_at = None \<rparr>"

definition gen_db :: search_db where
  "gen_db = \<lparr> sd_facts = empty_db, sd_documents = [], sd_doc_versions = [], sd_chunks = [], sd_content = [], sd_files = [],
     sd_versions = [gen_row 1 projection_file ''v1'' 1 ''active'', gen_row 2 projection_content ''v1'' 1 ''active'',
       gen_row 3 projection_file ''v2'' 2 ''building'', gen_row 4 projection_content ''v2'' 2 ''building''], sd_checkpoints = [] \<rparr>"

definition gen_ctx :: ctx where
  "gen_ctx = \<lparr> cx_now = 9, cx_v2_events = True, cx_search_enabled = True, cx_trace = None, cx_mint = (\<lambda>n. of_nat n + 100),
     cx_name_uuid = (\<lambda>n. of_nat (length n)) \<rparr>"

definition gen_projector :: projector where
  "gen_projector = \<lparr> pj_target = ''v1'', pj_index_epoch = 1, pj_backends = None, pj_digest = (\<lambda>x. x) \<rparr>"

lemma gen_db_ok: "versions_ok gen_db"
  unfolding versions_ok_def key_distinct_def by code_simp

lemma gen_db_activates: "is_ok (activate_target gen_ctx gen_projector ''v2'' gen_db)"
  by code_simp

lemma cutover_complete_witness:
  "\<exists>s'. activate_target gen_ctx gen_projector ''v2'' gen_db = Inr s' \<and> versions_ok s' \<and> still_served gen_db s' \<and>
     (\<exists>epoch. \<forall>v \<in> set (target_versions ''v2'' s'). version_active v \<and> iv_index_epoch v = epoch)"
proof -
  obtain s' where "activate_target gen_ctx gen_projector ''v2'' gen_db = Inr s'"
    using gen_db_activates by (cases "activate_target gen_ctx gen_projector ''v2'' gen_db") auto
  then show ?thesis using cutover_complete[OF gen_db_ok, of gen_ctx gen_projector "''v2''" s'] by blast
qed

section \<open>The life of a generation\<close>

text \<open>Everything that writes \<open>search_index_versions\<close>; \<open>fail_version\<close> is what \<open>failBackfillVersions\<close> does to one row.\<close>

definition fail_version :: "bool \<Rightarrow> string \<Rightarrow> uuid \<Rightarrow> search_db \<Rightarrow> search_db result" where
  "fail_version permanent message vid s = attempt (update_versions (\<lambda>v. iv_id v = vid \<and> iv_state v = ''building'')
     (\<lambda>v. if permanent then v\<lparr>iv_last_error := Some message, iv_state := ''failed''\<rparr> else v\<lparr>iv_last_error := Some message\<rparr>) s)
     (\<lambda>(_, s'). Inr s')"

inductive control_step :: "search_db \<Rightarrow> search_db \<Rightarrow> bool" where
  start: "start_version cx b t g e s = Inr (v, s') \<Longrightarrow> control_step s s'"
| progress: "update_version_progress vid w c s = Inr s' \<Longrightarrow> control_step s s'"
| cursor: "update_version_cursor vid cur w c s = Inr s' \<Longrightarrow> control_step s s'"
| fail: "fail_version permanent message vid s = Inr s' \<Longrightarrow> control_step s s'"
| set_state: "set_version_state cx vid old new err s = Inr s' \<Longrightarrow> control_step s s'"
| activate: "activate_version cx vid s = Inr s' \<Longrightarrow> control_step s s'"
| activate_set: "activate_target cx p g s = Inr s' \<Longrightarrow> control_step s s'"
| rollback: "rollback_version cx b t g s = Inr s' \<Longrightarrow> control_step s s'"
| rollback_set: "rollback_target cx g s = Inr s' \<Longrightarrow> control_step s s'"

definition state_edges :: "(string \<times> string) set" where
  "state_edges = {(''building'', ''active''), (''building'', ''failed''), (''active'', ''retired''), (''failed'', ''retired''),
     (''retired'', ''active'')}"

definition advances :: "search_db \<Rightarrow> search_db \<Rightarrow> bool" where
  "advances s s' \<longleftrightarrow> (\<forall>v \<in> set (sd_versions s). \<exists>v' \<in> set (sd_versions s').
     version_ident v' = version_ident v \<and> (iv_state v, iv_state v') \<in> state_edges\<^sup>*)"

lemma advances_refl: "advances s s"
  unfolding advances_def by blast

lemma advances_trans: "advances s s1 \<Longrightarrow> advances s1 s2 \<Longrightarrow> advances s s2"
  unfolding advances_def by (metis rtrancl_trans)

lemma advances_map:
  assumes "\<And>v. v \<in> set (sd_versions s) \<Longrightarrow> version_ident (f v) = version_ident v \<and> (iv_state v, iv_state (f v)) \<in> state_edges\<^sup>*"
  shows "advances s (s\<lparr>sd_versions := map f (sd_versions s)\<rparr>)"
  using assms unfolding advances_def by auto

lemma edge_moves:
  "(''building'', ''active'') \<in> state_edges\<^sup>*" "(''building'', ''failed'') \<in> state_edges\<^sup>*" "(''active'', ''retired'') \<in> state_edges\<^sup>*"
  "(''failed'', ''retired'') \<in> state_edges\<^sup>*" "(''retired'', ''active'') \<in> state_edges\<^sup>*" "(x, x) \<in> state_edges\<^sup>*"
       apply (rule r_into_rtrancl, simp add: state_edges_def)
      apply (rule r_into_rtrancl, simp add: state_edges_def)
     apply (rule r_into_rtrancl, simp add: state_edges_def)
    apply (rule r_into_rtrancl, simp add: state_edges_def)
   apply (rule r_into_rtrancl, simp add: state_edges_def)
  apply (rule rtrancl.rtrancl_refl)
  done

definition control_ok :: "search_db \<Rightarrow> search_db \<Rightarrow> bool" where
  "control_ok s s' \<longleftrightarrow> versions_ok s' \<and> advances s s'"

lemma control_ok_map:
  assumes "versions_ok s" "one_active (map f (sd_versions s))"
    "\<And>v. v \<in> set (sd_versions s) \<Longrightarrow> version_ident (f v) = version_ident v \<and> (iv_state v, iv_state (f v)) \<in> state_edges\<^sup>*"
  shows "control_ok s (s\<lparr>sd_versions := map f (sd_versions s)\<rparr>)"
proof -
  have "map version_ident (map f (sd_versions s)) = map version_ident (sd_versions s)" using assms(3) by simp
  then show ?thesis unfolding control_ok_def
    using versions_ok_idents[OF assms(1), of "s\<lparr>sd_versions := map f (sd_versions s)\<rparr>"] assms(2) advances_map[OF assms(3)] by simp
qed

lemma update_versions_control:
  assumes "versions_ok s" "update_versions P f s = Inr (n, s')"
    "\<And>v. v \<in> set (sd_versions s) \<Longrightarrow> P v \<Longrightarrow> version_ident (f v) = version_ident v \<and> (iv_state v, iv_state (f v)) \<in> state_edges\<^sup>*"
  shows "control_ok s s'"
proof -
  have s': "s' = s\<lparr>sd_versions := map (\<lambda>v. if P v then f v else v) (sd_versions s)\<rparr>"
    "one_active (map (\<lambda>v. if P v then f v else v) (sd_versions s))"
    using assms(2) by (simp_all add: update_versions_Inr update_where_def)
  show ?thesis unfolding s'(1)
    by (rule control_ok_map[OF assms(1) s'(2)]) (simp add: assms(3) edge_moves(6))
qed

lemma cut_over_control:
  assumes "versions_ok s" "nxt \<in> set (sd_versions s)" "iv_state nxt \<in> {''building'', ''retired'', ''active''}"
    "s' = s\<lparr>sd_versions := map (cut_over cx nxt) (sd_versions s)\<rparr>" "one_active (sd_versions s')"
  shows "control_ok s s'"
proof -
  have "(iv_state v, iv_state (cut_over cx nxt v)) \<in> state_edges\<^sup>*" if "v \<in> set (sd_versions s)" for v
  proof (cases "iv_id v = iv_id nxt")
    case True
    then have "v = nxt" using assms(1,2) that key_unique unfolding versions_ok_def by metis
    then show ?thesis using assms(3) edge_moves(1,5,6) by (elim insertE emptyE) (simp_all add: cut_over_def version_active_def)
  next
    case False
    then show ?thesis using edge_moves(3,6) by (simp add: cut_over_def version_active_def)
  qed
  then show ?thesis unfolding assms(4) using assms(5)[unfolded assms(4)]
    by (intro control_ok_map[OF assms(1)]) simp_all
qed

lemma control_ok_refl: "versions_ok s \<Longrightarrow> control_ok s s" and
  control_ok_trans: "control_ok s s1 \<Longrightarrow> control_ok s1 s2 \<Longrightarrow> control_ok s s2"
  using advances_refl advances_trans by (auto simp: control_ok_def)

lemma start_version_control:
  assumes "versions_ok s" "start_version cx b t g e s = Inr (v, s')"
  shows "control_ok s s'"
proof -
  let ?row = "\<lparr> iv_id = cx_name_uuid cx (b @ '':'' @ t @ '':'' @ g), iv_backend = b,
             iv_projection_type = t, iv_target = g, iv_index_epoch = e, iv_state = ''building'',
             iv_watermark = None, iv_cursor = None, iv_checksum = None, iv_last_error = None, iv_activated_at = None \<rparr>"
  have t: "t \<in> {projection_content, projection_file}"
    using assms(2) by (auto simp: start_version_def Let_def split: if_splits)
  consider "s' = s" | "\<not> exists_where (same_generation b t g) (sd_versions s)" "\<not> exists_where (\<lambda>v. iv_id v = iv_id ?row) (sd_versions s)"
      "s' = s\<lparr>sd_versions := sd_versions s @ [?row]\<rparr>"
    using assms(2) by (auto simp: start_version_def Let_def attempt_eq_Inr_iff split: if_splits)
  then show ?thesis
  proof cases
    case 1
    then show ?thesis using control_ok_refl assms(1) by simp
  next
    case 2
    have "versions_ok s'" using assms(1) t 2(1,2) unfolding 2(3)
      by (auto simp: versions_ok_def one_active_def version_active_def exists_where_iff same_generation_def
          intro!: key_distinct_append_new)
    moreover have "advances s s'" unfolding 2(3) advances_def using edge_moves(6) by auto
    ultimately show ?thesis by (simp add: control_ok_def)
  qed
qed

lemma activate_version_control:
  assumes "versions_ok s" "activate_version cx vid s = Inr s'"
  shows "control_ok s s'"
proof -
  have "key_distinct iv_id (sd_versions s)" using assms(1) by (simp add: versions_ok_def)
  then obtain nxt where "nxt \<in> set (sd_versions s)" "iv_state nxt = ''building''"
    "s' = s\<lparr>sd_versions := map (cut_over cx nxt) (sd_versions s)\<rparr>" "one_active (sd_versions s')"
    using activate_version_result[OF _ assms(2)] by metis
  then show ?thesis using cut_over_control[OF assms(1)] by simp
qed

lemma rollback_version_control:
  assumes "versions_ok s" "rollback_version cx b t g s = Inr s'"
  shows "control_ok s s'"
proof -
  have "key_distinct iv_id (sd_versions s)" "one_active (sd_versions s)" using assms(1) by (simp_all add: versions_ok_def)
  then obtain nxt where "nxt \<in> set (sd_versions s)" "iv_state nxt \<in> {''retired'', ''active''}"
    "s' = s\<lparr>sd_versions := map (cut_over cx nxt) (sd_versions s)\<rparr>" "one_active (sd_versions s')"
    using rollback_version_result[OF _ assms(2)] by metis
  then show ?thesis using cut_over_control[OF assms(1)] by simp
qed

lemma activate_all_control: "versions_ok s \<Longrightarrow> activate_all cx vs s = Inr s' \<Longrightarrow> control_ok s s'"
proof (induction vs arbitrary: s)
  case (Cons v vs)
  show ?case
  proof (cases "iv_state v = ''active''")
    case False
    then obtain s1 where s1: "activate_version cx (iv_id v) s = Inr s1" "activate_all cx vs s1 = Inr s'"
      using Cons.prems(2) by (auto simp: attempt_eq_Inr_iff)
    have c: "control_ok s s1" by (rule activate_version_control[OF Cons.prems(1) s1(1)])
    show ?thesis using Cons.IH[OF _ s1(2)] c control_ok_trans[OF c] by (simp add: control_ok_def)
  qed (use Cons in simp)
qed (simp add: control_ok_refl)

lemma rollback_all_control: "versions_ok s \<Longrightarrow> rollback_all cx g vs s = Inr s' \<Longrightarrow> control_ok s s'"
proof (induction vs arbitrary: s)
  case (Cons v vs)
  then obtain s1 where s1: "rollback_version cx (iv_backend v) (iv_projection_type v) g s = Inr s1" "rollback_all cx g vs s1 = Inr s'"
    by (auto simp: attempt_eq_Inr_iff)
  have c: "control_ok s s1" by (rule rollback_version_control[OF Cons.prems(1) s1(1)])
  show ?case using Cons.IH[OF _ s1(2)] c control_ok_trans[OF c] by (simp add: control_ok_def)
qed (simp add: control_ok_refl)

lemma set_version_state_control:
  assumes "versions_ok s" "set_version_state cx vid old new err s = Inr s'"
  shows "control_ok s s'"
proof (cases "new = ''active''")
  case True
  then have "activate_version cx vid s = Inr s'" using assms(2) by (auto simp: set_version_state_def split: if_splits)
  then show ?thesis by (rule activate_version_control[OF assms(1)])
next
  case False
  then have u: "update_versions (\<lambda>v. iv_id v = vid \<and> iv_state v = old) (\<lambda>v. v\<lparr>iv_state := new, iv_last_error := err\<rparr>) s = Inr (1, s')"
    and al: "allowed_index_version_transition old new"
    using assms(2) by (auto simp: set_version_state_def affected_one_Inr split: if_splits)
  have "(old, new) \<in> state_edges\<^sup>*" using al False edge_moves(2,3,4)
    by (auto simp: allowed_index_version_transition_def split: if_splits)
  then show ?thesis by (intro update_versions_control[OF assms(1) u]) (simp add: version_ident_def)
qed

lemma fail_version_control:
  assumes "versions_ok s" "fail_version permanent message vid s = Inr s'"
  shows "control_ok s s'"
proof -
  obtain n where u: "update_versions (\<lambda>v. iv_id v = vid \<and> iv_state v = ''building'')
     (\<lambda>v. if permanent then v\<lparr>iv_last_error := Some message, iv_state := ''failed''\<rparr> else v\<lparr>iv_last_error := Some message\<rparr>) s = Inr (n, s')"
    using assms(2) by (auto simp: fail_version_def attempt_eq_Inr_iff)
  show ?thesis by (rule update_versions_control[OF assms(1) u]) (simp add: version_ident_def edge_moves)
qed

lemma progress_control:
  assumes "versions_ok s"
  shows "update_version_progress vid w c s = Inr s' \<Longrightarrow> control_ok s s'"
    "update_version_cursor vid cur w c s = Inr s' \<Longrightarrow> control_ok s s'"
proof -
  have upd: "control_ok s s'" if "update_versions (\<lambda>v. iv_id v = vid \<and> iv_state v = ''building'') f s = Inr (1, s')"
    "\<And>v. version_ident (f v) = version_ident v \<and> iv_state (f v) = iv_state v" for f
    by (rule update_versions_control[OF assms that(1)]) (simp add: that(2) edge_moves)
  show "update_version_progress vid w c s = Inr s' \<Longrightarrow> control_ok s s'"
    by (rule upd[of "\<lambda>v. v\<lparr>iv_watermark := w, iv_checksum := c, iv_last_error := None\<rparr>"])
      (auto simp: update_version_progress_def affected_one_Inr version_ident_def split: if_splits)
  show "update_version_cursor vid cur w c s = Inr s' \<Longrightarrow> control_ok s s'"
    by (rule upd[of "\<lambda>v. v\<lparr>iv_cursor := cur, iv_watermark := w, iv_checksum := c, iv_last_error := None\<rparr>"])
      (auto simp: update_version_cursor_def affected_one_Inr version_ident_def split: if_splits)
qed

lemma control_step_ok:
  assumes "control_step s s'" "versions_ok s"
  shows "control_ok s s'"
  using assms
proof cases
  case (start cx b t g e v)
  then show ?thesis using assms(2) by (intro start_version_control)
next
  case (progress vid w c)
  then show ?thesis using progress_control(1) assms(2) by blast
next
  case (cursor vid cur w c)
  then show ?thesis using progress_control(2) assms(2) by blast
next
  case (fail permanent message vid)
  then show ?thesis using fail_version_control assms(2) by blast
next
  case (set_state cx vid old new err)
  then show ?thesis using set_version_state_control assms(2) by blast
next
  case (activate cx vid)
  then show ?thesis using activate_version_control assms(2) by blast
next
  case (activate_set cx p g)
  then obtain vs where "activate_all cx vs s = Inr s'"
    by (auto simp: activate_target_def Let_def attempt_eq_Inr_iff split: if_splits)
  then show ?thesis using activate_all_control assms(2) by blast
next
  case (rollback cx b t g)
  then show ?thesis using rollback_version_control assms(2) by blast
next
  case (rollback_set cx g)
  then obtain vs where "rollback_all cx g vs s = Inr s'"
    by (auto simp: rollback_target_def Let_def attempt_eq_Inr_iff split: if_splits)
  then show ?thesis using rollback_all_control assms(2) by blast
qed

lemma not_building_again: "(a, b) \<in> state_edges\<^sup>* \<Longrightarrow> a \<noteq> ''building'' \<Longrightarrow> b \<noteq> ''building''"
  by (induction rule: rtrancl_induct) (simp_all add: state_edges_def, blast)

text \<open>Whatever builders, operators and failures do to the index generations, in any order: each backend and
  projection has at most one active generation and each target at most one row in it; no generation is lost or
  changes its backend, projection, target or epoch; and its state only moves along the edges building to active or
  failed, active or failed to retired, and retired back to active by a rollback, so that a generation that has
  left the building state is never built again.\<close>

theorem generation_lifecycle:
  assumes "versions_ok s" "control_step\<^sup>*\<^sup>* s s'"
  shows "versions_ok s' \<and> (\<forall>v \<in> set (sd_versions s). \<exists>v' \<in> set (sd_versions s').
     version_ident v' = version_ident v \<and> (iv_state v, iv_state v') \<in> state_edges\<^sup>* \<and>
     (iv_state v \<noteq> ''building'' \<longrightarrow> iv_state v' \<noteq> ''building''))"
proof -
  have "control_ok s s'" using assms(2)
  proof (induction rule: rtranclp_induct)
    case (step y z)
    then show ?case using control_step_ok[OF step(2)] control_ok_trans by (auto simp: control_ok_def)
  qed (rule control_ok_refl[OF assms(1)])
  then show ?thesis unfolding control_ok_def advances_def using not_building_again by metis
qed

definition gen_db2 :: search_db where
  "gen_db2 = (case activate_target gen_ctx gen_projector ''v2'' gen_db of Inl e \<Rightarrow> gen_db | Inr s \<Rightarrow> s)"

lemma generation_lifecycle_witness:
  "versions_ok gen_db2 \<and> (\<exists>v' \<in> set (sd_versions gen_db2). version_ident v' = version_ident (gen_row 1 projection_file ''v1'' 1 ''active'') \<and>
     (''active'', iv_state v') \<in> state_edges\<^sup>*)"
proof -
  have "activate_target gen_ctx gen_projector ''v2'' gen_db = Inr gen_db2"
    using gen_db_activates unfolding gen_db2_def by (cases "activate_target gen_ctx gen_projector ''v2'' gen_db") auto
  then have "control_step\<^sup>*\<^sup>* gen_db gen_db2" by (blast intro: control_step.activate_set)
  from generation_lifecycle[OF gen_db_ok this] show ?thesis by (fastforce simp: gen_db_def gen_row_def)
qed

text \<open>A build that failed for good can be retired and then rolled back to: \<open>RollbackVersion\<close> asks for no checksum.\<close>

definition failed_db :: search_db where
  "failed_db = gen_db\<lparr>sd_versions := [(gen_row 3 projection_file ''v2'' 2 ''failed'')\<lparr>iv_checksum := None, iv_last_error := Some ''rejected''\<rparr>]\<rparr>"

lemma failed_generation_served:
  "(case set_version_state gen_ctx 3 ''failed'' ''retired'' (Some ''rejected'') failed_db of
      Inr s \<Rightarrow> (case rollback_version gen_ctx backend_postgres projection_file ''v2'' s of
        Inr s' \<Rightarrow> list_all (\<lambda>v. iv_state v = ''active'' \<and> iv_checksum v = None) (sd_versions s') | _ \<Rightarrow> False) | _ \<Rightarrow> False)"
  by code_simp

end
