(* ===== verification/Projector.thy ===== *)
theory Projector
  imports SearchIndex
begin

text \<open>
  \<open>search/projector.go\<close> and the rest of \<open>search/backfill.go\<close>: the consumer of search events.  It re-reads the
  facts an event names, rewrites their PostgreSQL projections for every live index generation and, when an
  external index is configured, publishes the rows and keeps a checkpoint until the publication is complete;
  and the snapshots that rebuild a generation.
\<close>

section \<open>Construction\<close>

fun decimal :: "string \<Rightarrow> int \<Rightarrow> int option" where
  "decimal [] n = Some n"
| "decimal (c # cs) n = (if CHR ''0'' \<le> c \<and> c \<le> CHR ''9'' then decimal cs (10 * n + (of_char c - 48)) else None)"

text \<open>\<open>strconv.ParseInt(s, 10, 64)\<close>: the value and whether there was no error; out of range it is clamped.\<close>

definition parse_int64 :: "string \<Rightarrow> int \<times> bool" where
  "parse_int64 x =
     (let (neg, digits) = (case x of [] \<Rightarrow> (False, x) | c # cs \<Rightarrow>
            if c = CHR ''-'' then (True, cs) else if c = CHR ''+'' then (False, cs) else (False, x)) in
      if digits = [] then (0, False)
      else case decimal digits 0 of
        None \<Rightarrow> (0, False)
      | Some n \<Rightarrow> (let v = (if neg then - n else n) in
          if v < - (2 ^ 63) then (- (2 ^ 63), False) else if 2 ^ 63 \<le> v then (2 ^ 63 - 1, False) else (v, True)))"

definition lower_ascii :: "char \<Rightarrow> char" where
  "lower_ascii c = (if CHR ''A'' \<le> c \<and> c \<le> CHR ''Z'' then char_of (of_char c + 32 :: nat) else c)"

definition new_projector_with_epoch :: "(string \<Rightarrow> string) \<Rightarrow> string list option \<Rightarrow> string \<Rightarrow> int \<Rightarrow> projector" where
  "new_projector_with_epoch digest backends tgt0 epoch0 =
     (let tgt = (if tgt0 = [] then ''v1'' else tgt0);
          lower = map lower_ascii tgt;
          (parsed, ok) = parse_int64 (if take 1 lower = ''v'' then drop 1 lower else lower);
          epoch = (if epoch0 \<le> 0 then if ok \<and> 0 < parsed then parsed else 1 else epoch0)
      in \<lparr> pj_target = tgt, pj_index_epoch = epoch, pj_backends = backends, pj_digest = digest \<rparr>)"

definition parse_index_epoch :: "string \<Rightarrow> int" where
  "parse_index_epoch x = fst (parse_int64 (case x of [] \<Rightarrow> [] | c # cs \<Rightarrow> if c = CHR ''v'' \<or> c = CHR ''V'' then cs else x))"

section \<open>Reading facts\<close>

text \<open>The join of \<open>file_entries\<close> with \<open>file_objects\<close>.\<close>

definition file_source :: "db \<Rightarrow> uuid \<Rightarrow> (file_entry \<times> file_object) option" where
  "file_source d fid = (case find (\<lambda>e. fe_id e = fid) (file_entries d) of
      None \<Rightarrow> None | Some e \<Rightarrow> map_option (\<lambda>b. (e, b)) (object_by_id (fe_object_id e) d))"

definition projection_of :: "projector \<Rightarrow> int \<Rightarrow> bool \<Rightarrow> file_entry \<times> file_object \<Rightarrow> file_projection" where
  "projection_of p acl tombstone eb = (case eb of (e, b) \<Rightarrow>
     \<lparr> fp_backend = backend_postgres, fp_target = pj_target p, fp_file_entry_id = fe_id e, fp_owner_id = fe_owner_id e,
       fp_folder_id = fe_folder_id e, fp_object_id = fe_object_id e, fp_file_version = fe_version e, fp_acl_version = acl,
       fp_name = fe_name e, fp_mime_type = fo_mime_type b, fp_index_epoch = pj_index_epoch p,
       fp_tombstone = (tombstone \<or> fe_deleted_at e \<noteq> None) \<rparr>)"

definition forever :: int where "forever = 2 ^ 62"

definition project_file_with_acl :: "projector \<Rightarrow> ctx \<Rightarrow> uuid \<Rightarrow> bool \<Rightarrow> int \<Rightarrow> search_db \<Rightarrow> search_db result" where
  "project_file_with_acl p cx fid tombstone acl s =
     (case file_source (sd_facts s) fid of
        None \<Rightarrow> Inr (tombstone_file backend_postgres fid forever s)
      | Some eb \<Rightarrow>
          if fe_id (fst eb) = 0 then Inr (tombstone_file backend_postgres fid forever s)
          else attempt (if 0 < acl then Inr (acl, s)
            else attempt (current_epoch (fe_owner_id (fst eb)) (sd_facts s)) (\<lambda>(ep, d). Inr (ep_acl_epoch ep, s\<lparr>sd_facts := d\<rparr>)))
          (\<lambda>(a, s1). upsert_file cx (projection_of p a tombstone eb) s1))"

definition project_file :: "projector \<Rightarrow> ctx \<Rightarrow> uuid \<Rightarrow> bool \<Rightarrow> search_db \<Rightarrow> search_db result" where
  "project_file p cx fid tombstone s = project_file_with_acl p cx fid tombstone 0 s"

primrec each_result :: "('x \<Rightarrow> search_db \<Rightarrow> search_db result) \<Rightarrow> 'x list \<Rightarrow> search_db \<Rightarrow> search_db result" where
  "each_result f [] s = Inr s"
| "each_result f (x # xs) s = attempt (f x s) (each_result f xs)"

definition owner_sources :: "db \<Rightarrow> uuid \<Rightarrow> (file_entry \<times> file_object) list" where
  "owner_sources d owner = [(e, b). e \<leftarrow> file_entries d, fe_owner_id e = owner, b \<leftarrow> file_objects d, fo_id b = fe_object_id e]"

definition project_owner :: "projector \<Rightarrow> ctx \<Rightarrow> uuid \<Rightarrow> search_db \<Rightarrow> search_db result" where
  "project_owner p cx owner s =
     attempt (current_epoch owner (sd_facts s)) (\<lambda>(ep, d).
     each_result (\<lambda>eb. upsert_file cx (projection_of p (ep_acl_epoch ep) False eb)) (owner_sources d owner) (s\<lparr>sd_facts := d\<rparr>))"

text \<open>The chunks of the active indexed version of an object's document.\<close>

definition active_chunks :: "uuid \<Rightarrow> search_db \<Rightarrow> (ai_chunk \<times> ai_version) list" where
  "active_chunks oid s =
     sort_key (\<lambda>(c, v). ck_ordinal c) [(c, v). c \<leftarrow> sd_chunks s, d \<leftarrow> sd_documents s, dc_id d = ck_document_id c,
       v \<leftarrow> sd_doc_versions s, dv_id v = ck_document_version_id c \<and> dv_status v = ''indexed'' \<and> dc_object_id d = oid \<and>
         dc_active_version_id d = Some (dv_id v)]"

definition chunk_projection :: "projector \<Rightarrow> uuid \<Rightarrow> ai_chunk \<times> ai_version \<Rightarrow> content_projection" where
  "chunk_projection p oid cv = (case cv of (c, v) \<Rightarrow>
     \<lparr> cp_backend = backend_postgres, cp_target = pj_target p, cp_object_id = oid, cp_document_version_id = ck_document_version_id c,
       cp_chunk_id = ck_id c, cp_ordinal = ck_ordinal c, cp_pipeline_version = dv_pipeline_version v,
       cp_model_version = dv_model_version v, cp_index_epoch = pj_index_epoch p, cp_content = ck_content c,
       cp_vector_ref = Some (ck_embedding c), cp_tombstone = False \<rparr>)"

definition retire_superseded :: "projector \<Rightarrow> uuid \<Rightarrow> uuid option \<Rightarrow> search_db \<Rightarrow> search_db" where
  "retire_superseded p oid active s = (case active of None \<Rightarrow> s | Some vid \<Rightarrow>
     s\<lparr>sd_content := update_where (\<lambda>r. cp_backend r = backend_postgres \<and> cp_target r = pj_target p \<and> cp_object_id r = oid \<and>
          cp_document_version_id r \<noteq> vid \<and> cp_index_epoch r \<le> pj_index_epoch p)
        (\<lambda>r. r\<lparr>cr_state := ''tombstoned''\<rparr>) (sd_content s)\<rparr>)"

definition project_object_chunks :: "projector \<Rightarrow> ctx \<Rightarrow> uuid \<Rightarrow> uuid list \<Rightarrow> search_db \<Rightarrow> search_db result" where
  "project_object_chunks p cx oid ids s =
     (case object_by_id oid (sd_facts s) of
        None \<Rightarrow> Inr (tombstone_object_content backend_postgres oid (pj_index_epoch p) s)
      | Some b \<Rightarrow>
          if fo_status b \<noteq> ObjectReady then Inr (tombstone_object_content backend_postgres oid (pj_index_epoch p) s)
          else case find (\<lambda>d. dc_object_id d = oid) (sd_documents s) of
            None \<Rightarrow> Inr s
          | Some doc \<Rightarrow>
              (let s1 = retire_superseded p oid (dc_active_version_id doc) s;
                   chunks = filter (\<lambda>(c, v). ids = [] \<or> ck_id c \<in> set ids) (active_chunks oid s1)
               in each_result (\<lambda>cv. upsert_content cx (chunk_projection p oid cv)) chunks s1))"

definition project_object :: "projector \<Rightarrow> ctx \<Rightarrow> uuid \<Rightarrow> search_db \<Rightarrow> search_db result" where
  "project_object p cx oid s = project_object_chunks p cx oid [] s"

section \<open>One event\<close>

definition file_events :: "string set" where
  "file_events = {event_file_created, event_file_updated, event_share_imported}"
definition share_events :: "string set" where "share_events = {event_share_revoked, event_share_updated}"
definition folder_events :: "string set" where
  "folder_events = {event_folder_created, event_folder_renamed, event_folder_moved, event_folder_deleted}"
definition object_events :: "string set" where
  "object_events = {event_object_ready, event_ai_index_requested, event_ai_indexed, event_object_gc_requested}"

definition event_entry :: "uuid \<Rightarrow> search_db \<Rightarrow> uuid" where
  "event_entry sid s = (case find (\<lambda>h. sh_id h = sid) (shares (sd_facts s)) of None \<Rightarrow> 0 | Some h \<Rightarrow> sh_file_entry_id h)"

definition aggregate_or_forever :: "int option \<Rightarrow> int" where
  "aggregate_or_forever agg = (case agg of None \<Rightarrow> forever | Some n \<Rightarrow> if 0 < n then n else forever)"

definition project_deleted :: "int option \<Rightarrow> jfields \<Rightarrow> search_db \<Rightarrow> search_db result" where
  "project_deleted agg fs s =
     (case unmarshal_file_deleted fs of
        Some (FileDeletedV1 _ fid _ _ _) \<Rightarrow>
          if fid = 0 then Inl (ErrNew ''search: invalid file delete event'')
          else Inr (tombstone_file backend_postgres fid (aggregate_or_forever agg) s)
      | _ \<Rightarrow> Inl (ErrNew ''search: invalid file delete event''))"

definition project_share :: "projector \<Rightarrow> ctx \<Rightarrow> string \<Rightarrow> jfields \<Rightarrow> search_db \<Rightarrow> search_db result" where
  "project_share p cx ev fs s =
     (if ev = event_share_created
      then (case unmarshal_share_created fs of
          Some (ShareCreatedV1 owner _ fid _ acl) \<Rightarrow>
            if fid = 0 \<or> owner = 0 then Inl (ErrNew ''search: invalid share create event'')
            else project_file_with_acl p cx fid False acl s
        | _ \<Rightarrow> Inl (ErrNew ''search: invalid share create event''))
      else (case unmarshal_share_updated fs of
          Some (ShareUpdatedV1 owner sid _ acl) \<Rightarrow>
            if sid = 0 \<or> owner = 0 then Inl (ErrNew ''search: invalid share ACL event'')
            else if event_entry sid s = 0 then Inr s
            else project_file_with_acl p cx (event_entry sid s) False acl s
        | _ \<Rightarrow> Inl (ErrNew ''search: invalid share ACL event'')))"

definition invalid_object :: "string \<Rightarrow> go_error" where
  "invalid_object ev = ErrNew (if ev = event_object_gc_requested then ''search: invalid object gc event'' else ''search: invalid object event'')"

definition project :: "projector \<Rightarrow> ctx \<Rightarrow> string \<Rightarrow> int option \<Rightarrow> jfields \<Rightarrow> search_db \<Rightarrow> search_db result" where
  "project p cx ev agg fs s =
     (if ev \<in> file_events
      then (case (get_uuid ''owner_id'' fs, get_uuid ''file_entry_id'' fs) of
          (Some owner, Some fid) \<Rightarrow>
            if fid = 0 \<or> owner = 0 then Inl (ErrNew ''search: invalid file event'') else project_file p cx fid False s
        | _ \<Rightarrow> Inl (ErrNew ''search: invalid file event''))
      else if ev = event_file_deleted then project_deleted agg fs s
      else if ev = event_share_created \<or> ev \<in> share_events then project_share p cx ev fs s
      else if ev \<in> folder_events
      then (case get_uuid ''owner_id'' fs of
          Some owner \<Rightarrow> if owner = 0 then Inl (ErrNew ''search: invalid folder event'') else project_owner p cx owner s
        | None \<Rightarrow> Inl (ErrNew ''search: invalid folder event''))
      else if ev \<in> object_events
      then (case get_uuid ''object_id'' fs of
          Some oid \<Rightarrow> if oid = 0 then Inl (invalid_object ev) else project_object p cx oid s
        | None \<Rightarrow> Inl (invalid_object ev))
      else Inr s)"

section \<open>Publication\<close>

datatype ext_call =
    UpsertContent content_projection
  | UpsertFile file_projection
  | TombstoneFile string uuid int

definition published_file :: "file_row \<Rightarrow> file_projection" where
  "published_file r = (file_projection.truncate r)\<lparr>fp_tombstone := fp_tombstone r \<or> fr_state r = ''tombstoned''\<rparr>"

definition published_content :: "content_row \<Rightarrow> content_projection" where
  "published_content r = (content_projection.truncate r)\<lparr>cp_tombstone := cr_state r = ''tombstoned''\<rparr>"

definition file_calls :: "projector \<Rightarrow> string \<Rightarrow> int option \<Rightarrow> uuid \<Rightarrow> search_db \<Rightarrow> ext_call list" where
  "file_calls p ev agg fid s =
     (case find (\<lambda>r. fp_backend r = backend_postgres \<and> fp_target r = pj_target p \<and> fp_file_entry_id r = fid) (sd_files s) of
        None \<Rightarrow> if ev = event_file_deleted then [TombstoneFile (pj_target p) fid (aggregate_or_forever agg)] else []
      | Some r \<Rightarrow> [UpsertFile (published_file r)])"

text \<open>The calls \<open>publishExternal\<close> is about to make.\<close>

definition external_calls :: "projector \<Rightarrow> string \<Rightarrow> int option \<Rightarrow> jfields \<Rightarrow> search_db \<Rightarrow> ext_call list result" where
  "external_calls p ev agg fs s =
     (case (get_uuid ''owner_id'' fs, get_uuid ''file_entry_id'' fs, get_uuid ''object_id'' fs, get_uuid ''share_id'' fs) of
        (Some owner, Some fid, Some oid, Some sid) \<Rightarrow>
          Inr (if ev \<in> file_events \<or> ev = event_share_created \<or> ev = event_file_deleted then file_calls p ev agg fid s
            else if ev \<in> share_events then file_calls p ev agg (event_entry sid s) s
            else if ev \<in> folder_events then
              map (UpsertFile \<circ> published_file) (filter (\<lambda>r. fp_backend r = backend_postgres \<and> fp_target r = pj_target p \<and>
                fp_owner_id r = owner) (sd_files s))
            else if ev \<in> object_events then
              map (UpsertContent \<circ> published_content) (filter (\<lambda>r. cp_backend r = backend_postgres \<and> cp_target r = pj_target p \<and>
                cp_object_id r = oid) (sd_content s))
            else [])
      | _ \<Rightarrow> Inl (ErrNew ''json''))"

text \<open>The external index answers call \<open>n\<close> with \<open>reply n\<close>; the first error stops.\<close>

primrec run_calls :: "(nat \<Rightarrow> go_error option) \<Rightarrow> nat \<Rightarrow> ext_call list \<Rightarrow> go_error option \<times> ext_call list" where
  "run_calls reply n [] = (None, [])"
| "run_calls reply n (c # cs) =
     (case reply n of Some e \<Rightarrow> (Some e, [c]) | None \<Rightarrow> (case run_calls reply (Suc n) cs of (e, done) \<Rightarrow> (e, c # done)))"

definition same_checkpoint :: "uuid \<Rightarrow> string \<Rightarrow> checkpoint \<Rightarrow> bool" where
  "same_checkpoint eid consumer c \<longleftrightarrow> pc_event_id c = eid \<and> pc_consumer_name c = consumer"

definition begin_checkpoint :: "projector \<Rightarrow> uuid \<Rightarrow> int option \<Rightarrow> string \<Rightarrow> search_db \<Rightarrow> search_db result" where
  "begin_checkpoint p eid watermark checksum s =
     (if eid = 0 then Inl (ErrNew ''search: invalid projection checkpoint'')
      else Inr (s\<lparr>sd_checkpoints :=
        (if exists_where (same_checkpoint eid (consumer_name p)) (sd_checkpoints s)
         then update_where (same_checkpoint eid (consumer_name p)) (\<lambda>c. c\<lparr>pc_state := ''pending'', pc_attempt := pc_attempt c + 1,
                pc_last_error := None, pc_watermark := watermark, pc_checksum := Some checksum\<rparr>) (sd_checkpoints s)
         else sd_checkpoints s @ [\<lparr> pc_event_id = eid, pc_consumer_name = consumer_name p, pc_state = ''pending'', pc_attempt = 1,
                pc_last_error = None, pc_watermark = watermark, pc_checksum = Some checksum \<rparr>])\<rparr>))"

definition set_checkpoint :: "projector \<Rightarrow> uuid \<Rightarrow> string \<Rightarrow> string option \<Rightarrow> search_db \<Rightarrow> search_db result" where
  "set_checkpoint p eid state last_error s =
     (if eid = 0 then Inl (ErrNew ''search: invalid projection checkpoint'')
      else Inr (s\<lparr>sd_checkpoints := update_where (same_checkpoint eid (consumer_name p))
        (\<lambda>c. c\<lparr>pc_state := state, pc_last_error := last_error\<rparr>) (sd_checkpoints s)\<rparr>))"

definition event_type_is_tombstone :: "string \<Rightarrow> bool" where
  "event_type_is_tombstone ev \<longleftrightarrow> ev = event_file_deleted \<or> ev = event_object_gc_requested"

definition err_search_permanent :: go_error where "err_search_permanent = ErrNew ''search backend rejected request''"

section \<open>One delivery\<close>

record search_envelope =
  se_event_id :: uuid
  se_event_type :: string
  se_aggregate_version :: "int option"
  se_payload :: jfields

definition read_envelope :: "json \<Rightarrow> search_envelope option" where
  "read_envelope body = (case body of JsonNull \<Rightarrow> None | JsonObject fs \<Rightarrow>
     (case (map_of fs ''event_id'', map_of fs ''event_type'') of
        (Some (JUuid eid), Some (JStr ty)) \<Rightarrow>
          if eid = 0 \<or> ty = [] then None
          else Some \<lparr> se_event_id = eid, se_event_type = ty,
            se_aggregate_version = (case map_of fs ''aggregate_version'' of Some (JInt n) \<Rightarrow> Some n | _ \<Rightarrow> None),
            se_payload = filter (\<lambda>(k, _). k \<notin> {''event_id'', ''task_id'', ''event_type'', ''event_version'', ''_trace'',
              ''aggregate_version''}) fs \<rparr>
      | _ \<Rightarrow> None))"

text \<open>What surrounds one delivery: the clock and identifiers, whether the \<open>n\<close>-th statement or transaction fails (or
  the process dies there), what other processes commit before it, the external index's replies, the
  checksum of the payload and the text of an error.\<close>

record handle_env =
  he_ctx :: ctx
  he_fail :: "nat \<Rightarrow> go_error option"
  he_others :: "nat \<Rightarrow> search_db \<Rightarrow> search_db"
  he_reply :: "nat \<Rightarrow> go_error option"
  he_checksum :: "jfields \<Rightarrow> string"
  he_error_text :: "go_error \<Rightarrow> string"

text \<open>The \<open>n\<close>-th transaction: what it returned and the state after it.\<close>

definition commit :: "handle_env \<Rightarrow> nat \<Rightarrow> (search_db \<Rightarrow> search_db result) \<Rightarrow> search_db \<Rightarrow> go_error option \<times> search_db" where
  "commit env n f s = (let s1 = he_others env n s in
     case he_fail env n of Some e \<Rightarrow> (Some e, s1)
     | None \<Rightarrow> (case f s1 of Inl e \<Rightarrow> (Some e, s1) | Inr s2 \<Rightarrow> (None, s2)))"

definition event_marked :: "projector \<Rightarrow> uuid \<Rightarrow> search_db \<Rightarrow> bool" where
  "event_marked p eid s \<longleftrightarrow> exists_where (\<lambda>m. ec_event_id m = eid \<and> ec_consumer_name m = consumer_name p) (event_consumptions (sd_facts s))"

definition checkpoint_state :: "projector \<Rightarrow> uuid \<Rightarrow> search_db \<Rightarrow> string option" where
  "checkpoint_state p eid s = map_option pc_state (find (same_checkpoint eid (consumer_name p)) (sd_checkpoints s))"

text \<open>\<open>ConsumeOnce\<close> on the larger state: the effect runs when the marker is new, in the same transaction.\<close>

definition consume_search :: "projector \<Rightarrow> uuid \<Rightarrow> (search_db \<Rightarrow> search_db result) \<Rightarrow> search_db \<Rightarrow> search_db result" where
  "consume_search p eid effect s =
     attempt (consume_once eid (consumer_name p) Inr (sd_facts s)) (\<lambda>(handled, d).
     if handled then effect (s\<lparr>sd_facts := d\<rparr>) else Inr s)"

definition ack_event :: "projector \<Rightarrow> handle_env \<Rightarrow> uuid \<Rightarrow> search_db \<Rightarrow> go_error option \<times> search_db" where
  "ack_event p env eid s = commit env 7 (consume_search p eid Inr) s"

definition limit_error :: "string \<Rightarrow> string" where "limit_error x = take 500 x"

text \<open>The two-phase path, from the end: after the publication, the publication, the projection.\<close>

definition after_publish :: "projector \<Rightarrow> handle_env \<Rightarrow> search_envelope \<Rightarrow> go_error option \<Rightarrow> search_db \<Rightarrow> go_error option \<times> search_db" where
  "after_publish p env ev err s =
     (case err of
        Some e \<Rightarrow> (Some (if errors_is e err_search_permanent then ErrSkipRetry else e),
          snd (commit env 5 (set_checkpoint p (se_event_id ev) ''failed'' (Some (limit_error (he_error_text env e)))) s))
      | None \<Rightarrow>
          (case commit env 6 (set_checkpoint p (se_event_id ev)
              (if event_type_is_tombstone (se_event_type ev) then ''tombstoned'' else ''indexed'') None) s of
             (Some e, s1) \<Rightarrow> (Some e, s1)
           | (None, s1) \<Rightarrow> ack_event p env (se_event_id ev) s1))"

definition publish_external :: "projector \<Rightarrow> handle_env \<Rightarrow> search_envelope \<Rightarrow> search_db \<Rightarrow> go_error option \<times> ext_call list" where
  "publish_external p env ev s =
     (case he_fail env 4 of Some e \<Rightarrow> (Some e, [])
      | None \<Rightarrow> (case external_calls p (se_event_type ev) (se_aggregate_version ev) (se_payload ev) s of
          Inl e \<Rightarrow> (Some e, [])
        | Inr cs \<Rightarrow> run_calls (he_reply env) 0 cs))"

definition project_and_publish :: "projector \<Rightarrow> handle_env \<Rightarrow> search_envelope \<Rightarrow> search_db \<Rightarrow> go_error option \<times> search_db \<times> ext_call list" where
  "project_and_publish p env ev s =
     (let watermark = (case se_aggregate_version ev of Some n \<Rightarrow> if 0 < n then Some n else None | None \<Rightarrow> None) in
      case commit env 2 (\<lambda>x. attempt (project p (he_ctx env) (se_event_type ev) (se_aggregate_version ev) (se_payload ev) x)
          (begin_checkpoint p (se_event_id ev) watermark (he_checksum env (se_payload ev)))) s of
        (Some e, s1) \<Rightarrow> (Some e, s1, [])
      | (None, s1) \<Rightarrow> (case commit env 3 (set_checkpoint p (se_event_id ev) ''publishing'' None) s1 of
          (Some e, s2) \<Rightarrow> (Some e, s2, [])
        | (None, s2) \<Rightarrow> (let s3 = he_others env 4 s2; (err, calls) = publish_external p env ev s3;
                             (r, s4) = after_publish p env ev err s3 in (r, s4, calls))))"

definition handle_external :: "projector \<Rightarrow> handle_env \<Rightarrow> search_envelope \<Rightarrow> search_db \<Rightarrow> go_error option \<times> search_db \<times> ext_call list" where
  "handle_external p env ev s =
     (let s0 = he_others env 0 s in
      if he_fail env 0 \<noteq> None then (he_fail env 0, s0, [])
      else if event_marked p (se_event_id ev) s0 then (None, s0, [])
      else let s1 = he_others env 1 s0 in
        if he_fail env 1 \<noteq> None then (he_fail env 1, s1, [])
        else if checkpoint_state p (se_event_id ev) s1 \<in> {Some ''indexed'', Some ''tombstoned''}
        then (case ack_event p env (se_event_id ev) s1 of (r, s2) \<Rightarrow> (r, s2, []))
        else project_and_publish p env ev s1)"

definition handle_target :: "projector \<Rightarrow> handle_env \<Rightarrow> json \<Rightarrow> search_db \<Rightarrow> go_error option \<times> search_db \<times> ext_call list" where
  "handle_target p env body s =
     (case read_envelope body of
        None \<Rightarrow> (Some ErrSkipRetry, s, [])
      | Some ev \<Rightarrow>
          if pj_backends p = None
          then (case commit env 0 (consume_search p (se_event_id ev)
              (project p (he_ctx env) (se_event_type ev) (se_aggregate_version ev) (se_payload ev))) s of (r, s') \<Rightarrow> (r, s', []))
          else handle_external p env ev s)"

section \<open>All generations\<close>

fun collect_targets :: "index_version list \<Rightarrow> (string \<times> int) list \<Rightarrow> (string \<times> int) list result" where
  "collect_targets [] m = Inr m"
| "collect_targets (v # vs) m =
     (case map_of m (iv_target v) of
        Some e \<Rightarrow> if e \<noteq> iv_index_epoch v then Inl err_index_version_conflict else collect_targets vs m
      | None \<Rightarrow> collect_targets vs ((iv_target v, iv_index_epoch v) # m))"

definition live_targets :: "projector \<Rightarrow> search_db \<Rightarrow> (string \<times> int) list result" where
  "live_targets p s =
     attempt (collect_targets (sort_key iv_target (filter (\<lambda>v. iv_backend v = backend_postgres \<and>
       iv_state v \<in> {''building'', ''active''}) (sd_versions s))) []) (\<lambda>m.
     Inr (sort_key fst (if map_of m (pj_target p) = None then (pj_target p, pj_index_epoch p) # m else m)))"

primrec handle_targets :: "projector \<Rightarrow> (string \<Rightarrow> handle_env) \<Rightarrow> json \<Rightarrow> (string \<times> int) list \<Rightarrow> go_error option \<Rightarrow> search_db \<Rightarrow>
    go_error option \<times> search_db" where
  "handle_targets p env body [] failures s = (failures, s)"
| "handle_targets p env body (g # gs) failures s =
     (case handle_target (p\<lparr>pj_target := fst g, pj_index_epoch := snd g\<rparr>) (env (fst g)) body s of
        (r, s1, _) \<Rightarrow> handle_targets p env body gs (join_errors failures r) s1)"

text \<open>\<open>Handler\<close>; \<open>failure\<close> is the failure of its own query.\<close>

definition search_handler :: "projector \<Rightarrow> go_error option \<Rightarrow> (string \<Rightarrow> handle_env) \<Rightarrow> json \<Rightarrow> search_db \<Rightarrow> go_error option \<times> search_db" where
  "search_handler p failure env body s =
     (case failure of Some e \<Rightarrow> (Some e, s)
      | None \<Rightarrow> (case live_targets p s of Inl e \<Rightarrow> (Some e, s) | Inr gs \<Rightarrow> handle_targets p env body gs None s))"

section \<open>What a projection leaves alone\<close>

definition same_control :: "search_db \<Rightarrow> search_db \<Rightarrow> bool" where
  "same_control s s' \<longleftrightarrow> sd_checkpoints s' = sd_checkpoints s \<and> sd_versions s' = sd_versions s \<and>
     event_consumptions (sd_facts s') = event_consumptions (sd_facts s)"

lemma same_control_refl: "same_control s s" and
  same_control_trans: "same_control s s1 \<Longrightarrow> same_control s1 s2 \<Longrightarrow> same_control s s2"
  by (simp_all add: same_control_def)

lemma upsert_control:
  "upsert_file cx v s = Inr s' \<Longrightarrow> same_control s s'" "upsert_content cx w s = Inr s' \<Longrightarrow> same_control s s'"
  by (auto simp: upsert_file_def upsert_content_def Let_def same_control_def split: if_splits)

lemma each_result_control:
  assumes "\<And>x s s'. f x s = Inr s' \<Longrightarrow> same_control s s'"
  shows "each_result f xs s = Inr s' \<Longrightarrow> same_control s s'"
proof (induction xs arbitrary: s)
  case (Cons x xs)
  then obtain s1 where "f x s = Inr s1" "each_result f xs s1 = Inr s'" by (auto simp: attempt_eq_Inr_iff)
  then show ?case using Cons.IH assms same_control_trans by blast
qed (simp add: same_control_refl)

lemma current_epoch_consumptions: "current_epoch owner d = Inr (e, d') \<Longrightarrow> event_consumptions d' = event_consumptions d"
  by (auto simp: current_epoch_def ensure_epoch_def attempt_eq_Inr_iff split: if_splits)

lemma project_file_control: "project_file_with_acl p cx fid t acl s = Inr s' \<Longrightarrow> same_control s s'"
proof -
  assume a: "project_file_with_acl p cx fid t acl s = Inr s'"
  have facts: "same_control s (s\<lparr>sd_facts := d\<rparr>)" if "current_epoch owner (sd_facts s) = Inr (e, d)" for owner e d
    using current_epoch_consumptions[OF that] by (simp add: same_control_def)
  have tomb: "same_control s (tombstone_file b fid v s)" for b v by (simp add: same_control_def tombstone_file_def)
  show ?thesis using a tomb facts
    by (auto simp: project_file_with_acl_def attempt_eq_Inr_iff split: option.splits if_splits
        intro: upsert_control(1) same_control_trans[OF facts upsert_control(1)])
qed

lemma project_owner_control: "project_owner p cx owner s = Inr s' \<Longrightarrow> same_control s s'"
proof -
  assume "project_owner p cx owner s = Inr s'"
  then obtain e d where c: "current_epoch owner (sd_facts s) = Inr (e, d)"
    "each_result (\<lambda>eb. upsert_file cx (projection_of p (ep_acl_epoch e) False eb)) (owner_sources d owner) (s\<lparr>sd_facts := d\<rparr>) = Inr s'"
    by (auto simp: project_owner_def attempt_eq_Inr_iff)
  have "same_control s (s\<lparr>sd_facts := d\<rparr>)" using current_epoch_consumptions[OF c(1)] by (simp add: same_control_def)
  moreover have "same_control (s\<lparr>sd_facts := d\<rparr>) s'" by (rule each_result_control[OF _ c(2)]) (rule upsert_control(1))
  ultimately show ?thesis by (rule same_control_trans)
qed

lemma project_object_control: "project_object_chunks p cx oid ids s = Inr s' \<Longrightarrow> same_control s s'"
proof -
  assume a: "project_object_chunks p cx oid ids s = Inr s'"
  have tomb: "same_control s (tombstone_object_content b oid v s)" for b v by (simp add: same_control_def tombstone_object_content_def)
  have ret: "same_control s (retire_superseded p oid v s)" for v by (simp add: same_control_def retire_superseded_def split: option.split)
  have ups: "same_control s s'" if "each_result (\<lambda>cv. upsert_content cx (chunk_projection p oid cv)) cs (retire_superseded p oid v s) = Inr s'" for cs v
    by (rule same_control_trans[OF ret each_result_control[OF _ that]]) (rule upsert_control(2))
  show ?thesis using a tomb
    by (auto simp: project_object_chunks_def Let_def same_control_refl split: option.splits if_splits intro: ups)
qed

lemma project_control: "project p cx ev agg fs s = Inr s' \<Longrightarrow> same_control s s'"
  by (auto simp: project_def project_file_def project_object_def project_deleted_def project_share_def
      same_control_refl
      intro: project_file_control project_owner_control project_object_control
      split: if_splits option.splits payload.splits)
    (simp_all add: same_control_def tombstone_file_def)

section \<open>Publication before acknowledgement\<close>

definition digest_ok :: "projector \<Rightarrow> bool" where
  "digest_ok p \<longleftrightarrow> (\<forall>x. list_all (\<lambda>c. \<not> ascii_space c) (pj_digest p x))"

lemma dropWhile_none: "\<forall>c \<in> set xs. \<not> P c \<Longrightarrow> dropWhile P xs = xs"
  by (cases xs) simp_all

lemma trim_none: "list_all (\<lambda>c. \<not> P c) xs \<Longrightarrow> trim_func P xs = xs"
  by (simp add: trim_func_def trim_right_def trim_left_def dropWhile_none list_all_iff)

lemma consumer_name_trimmed: "digest_ok p \<Longrightarrow> trim_str (consumer_name p) = consumer_name p \<and> consumer_name p \<noteq> []"
proof -
  assume d: "digest_ok p"
  have "list_all (\<lambda>c. \<not> ascii_space c) ''search-indexer:''" by code_simp
  then have "list_all (\<lambda>c. \<not> ascii_space c) (consumer_name p)" using d by (simp add: consumer_name_def Let_def digest_ok_def)
  then show ?thesis by (simp add: trim_none consumer_name_def Let_def)
qed

lemma consume_marks:
  assumes "digest_ok p" "consume_search p eid f s = Inr s'"
    "\<And>x y. f x = Inr y \<Longrightarrow> event_consumptions (sd_facts y) = event_consumptions (sd_facts x)"
  shows "event_marked p eid s'" "event_marked q e s \<Longrightarrow> event_marked q e s'"
proof -
  note c = consumer_name_trimmed[OF assms(1)]
  obtain h d where h: "consume_once eid (consumer_name p) Inr (sd_facts s) = Inr (h, d)"
    "(if h then f (s\<lparr>sd_facts := d\<rparr>) else Inr s) = Inr s'"
    using assms(2) by (auto simp: consume_search_def attempt_eq_Inr_iff)
  have *: "if h then d = (sd_facts s)\<lparr>event_consumptions := event_consumptions (sd_facts s) @
      [\<lparr> ec_event_id = eid, ec_consumer_name = consumer_name p \<rparr>]\<rparr> else event_marked p eid s"
    using h(1) c by (auto simp: consume_once_def Let_def event_marked_def split: if_splits)
  show "event_marked p eid s'"
  proof (cases h)
    case True
    then have "event_consumptions (sd_facts s') = event_consumptions d" using assms(3) h(2) by fastforce
    then show ?thesis using True * by (simp add: event_marked_def exists_where_iff)
  qed (use * h(2) in simp)
  show "event_marked q e s \<Longrightarrow> event_marked q e s'"
  proof (cases h)
    case True
    then have "event_consumptions (sd_facts s') = event_consumptions d" using assms(3) h(2) by fastforce
    then show "event_marked q e s \<Longrightarrow> ?thesis" using True * by (simp add: event_marked_def exists_where_iff)
  qed (use h(2) in simp)
qed

lemma commit_cases:
  assumes "commit env n f s = (r, s')"
  obtains "s' = he_others env n s" "r \<noteq> None" | "r = None" "f (he_others env n s) = Inr s'"
proof (cases "he_fail env n")
  case None
  show thesis
  proof (cases "f (he_others env n s)")
    case (Inl e)
    then have "r = Some e" "s' = he_others env n s" using assms None by (simp_all add: commit_def Let_def)
    then show thesis using that(1) by simp
  next
    case (Inr x)
    then show thesis using assms None that(2) by (simp add: commit_def Let_def)
  qed
next
  case (Some e)
  then have "r = Some e" "s' = he_others env n s" using assms by (simp_all add: commit_def Let_def)
  then show thesis using that(1) by simp
qed

definition event_settled :: "projector \<Rightarrow> uuid \<Rightarrow> search_db \<Rightarrow> bool" where
  "event_settled p eid s \<longleftrightarrow> event_marked p eid s \<or> checkpoint_state p eid s \<in> {Some ''indexed'', Some ''tombstoned''}"

lemma find_update_same: "(\<And>c. P (f c) = P c) \<Longrightarrow> find P (update_where P f t) = map_option f (find P t)"
  by (induction t) auto

lemma set_checkpoint_state:
  assumes "set_checkpoint p eid st err s = Inr s'"
  shows "checkpoint_state p eid s' = map_option (\<lambda>_. st) (checkpoint_state p eid s)" "event_marked q e s' = event_marked q e s"
proof -
  have s': "s' = s\<lparr>sd_checkpoints := update_where (same_checkpoint eid (consumer_name p))
        (\<lambda>c. c\<lparr>pc_state := st, pc_last_error := err\<rparr>) (sd_checkpoints s)\<rparr>"
    using assms by (simp add: set_checkpoint_def split: if_splits)
  show "checkpoint_state p eid s' = map_option (\<lambda>_. st) (checkpoint_state p eid s)"
    unfolding s' checkpoint_state_def by (simp add: find_update_same same_checkpoint_def option.map_comp comp_def)
  show "event_marked q e s' = event_marked q e s" unfolding s' by (simp add: event_marked_def)
qed

lemma begin_checkpoint_state:
  assumes "begin_checkpoint p eid w c s = Inr s'"
  shows "checkpoint_state p eid s' = Some ''pending''" "event_marked q e s' = event_marked q e s"
proof -
  let ?P = "same_checkpoint eid (consumer_name p)"
  have "find ?P (sd_checkpoints s) \<noteq> None" if "exists_where ?P (sd_checkpoints s)"
    using that by (auto simp: find_None_iff exists_where_iff)
  moreover have "find ?P (sd_checkpoints s) = None" if "\<not> exists_where ?P (sd_checkpoints s)"
    using that by (auto simp: find_None_iff exists_where_iff)
  ultimately show "checkpoint_state p eid s' = Some ''pending''" using assms
    by (auto simp: begin_checkpoint_def checkpoint_state_def find_update_same same_checkpoint_def epoch_row_append
        option.map_comp comp_def split: if_splits)
  show "event_marked q e s' = event_marked q e s" using assms by (auto simp: begin_checkpoint_def event_marked_def split: if_splits)
qed

lemma run_calls_all: "run_calls reply n cs = (None, calls) \<Longrightarrow> calls = cs \<and> (\<forall>i < length cs. reply (n + i) = None)"
proof (induction cs arbitrary: n calls)
  case (Cons c cs)
  then obtain rest where r: "reply n = None" "run_calls reply (Suc n) cs = (None, rest)" "calls = c # rest"
    by (auto split: option.splits prod.splits)
  have "reply (n + i) = None" if "i < Suc (length cs)" for i
    using Cons.IH[OF r(2)] r(1) that by (cases i) auto
  then show ?case using Cons.IH[OF r(2)] r(3) by simp
qed simp

lemma publish_done:
  assumes "publish_external p env ev s = (None, calls)"
  shows "external_calls p (se_event_type ev) (se_aggregate_version ev) (se_payload ev) s = Inr calls \<and>
    (\<forall>i < length calls. he_reply env i = None)"
  using assms run_calls_all[of "he_reply env" 0] by (auto simp: publish_external_def split: option.splits sum.splits)

lemma project_begin_state:
  assumes "attempt (project p cx ev agg fs s) (begin_checkpoint p eid w c) = Inr s'"
  shows "checkpoint_state p eid s' = Some ''pending''" "event_marked q e s' = event_marked q e s"
proof -
  obtain s1 where s1: "project p cx ev agg fs s = Inr s1" "begin_checkpoint p eid w c s1 = Inr s'"
    using assms by (auto simp: attempt_eq_Inr_iff)
  show "checkpoint_state p eid s' = Some ''pending''" by (rule begin_checkpoint_state(1)[OF s1(2)])
  show "event_marked q e s' = event_marked q e s"
    using begin_checkpoint_state(2)[OF s1(2)] project_control[OF s1(1)] by (simp add: event_marked_def same_control_def)
qed

lemma acked_marked:
  assumes "digest_ok p" "ack_event p env eid s = (None, s')"
  shows "event_marked p eid s'"
  using assms(2) unfolding ack_event_def
  by (rule commit_cases) (auto dest: consume_marks(1)[OF assms(1)])

lemma after_publish_effect:
  assumes "digest_ok p" "after_publish p env ev err s = (r, s')"
  shows "r = None \<Longrightarrow> event_marked p (se_event_id ev) s'" "r = None \<Longrightarrow> err = None"
    "err \<noteq> None \<Longrightarrow> \<exists>st. s' = he_others env 5 s \<or> set_checkpoint p (se_event_id ev) ''failed'' st (he_others env 5 s) = Inr s'"
proof -
  show "r = None \<Longrightarrow> event_marked p (se_event_id ev) s'" "r = None \<Longrightarrow> err = None"
    using assms(2) acked_marked[OF assms(1)] by (auto simp: after_publish_def split: option.splits prod.splits)
  assume "err \<noteq> None"
  then obtain e where e: "err = Some e" by blast
  let ?f = "set_checkpoint p (se_event_id ev) ''failed'' (Some (limit_error (he_error_text env e)))"
  obtain x where c: "commit env 5 ?f s = (x, s')" using assms(2) e by (cases "commit env 5 ?f s") (simp add: after_publish_def)
  show "\<exists>st. s' = he_others env 5 s \<or> set_checkpoint p (se_event_id ev) ''failed'' st (he_others env 5 s) = Inr s'"
    using c by (rule commit_cases) blast+
qed

lemma set_checkpoint_settled:
  assumes "set_checkpoint p eid st err s = Inr s'" "st \<notin> {''indexed'', ''tombstoned''}" "event_settled p eid s'"
  shows "event_settled p eid s"
  using assms set_checkpoint_state[OF assms(1)] by (auto simp: event_settled_def)

text \<open>What a reader of the external index may expect of an event: every row of its generation the event concerns is
  written there, a deletion that finds no row leaves a tombstone, and nothing else is touched.\<close>

definition concerns_file :: "search_envelope \<Rightarrow> search_db \<Rightarrow> file_row \<Rightarrow> bool" where
  "concerns_file ev x r \<longleftrightarrow>
     se_event_type ev \<in> file_events \<union> {event_share_created, event_file_deleted} \<and>
       get_uuid ''file_entry_id'' (se_payload ev) = Some (fp_file_entry_id r) \<or>
     se_event_type ev \<in> share_events \<and> (\<exists>sid. get_uuid ''share_id'' (se_payload ev) = Some sid \<and> event_entry sid x = fp_file_entry_id r) \<or>
     se_event_type ev \<in> folder_events \<and> get_uuid ''owner_id'' (se_payload ev) = Some (fp_owner_id r)"

definition index_files :: "projector \<Rightarrow> search_db \<Rightarrow> file_row set" where
  "index_files p x = {r \<in> set (sd_files x). fp_backend r = backend_postgres \<and> fp_target r = pj_target p}"

definition index_content :: "projector \<Rightarrow> search_envelope \<Rightarrow> search_db \<Rightarrow> content_row set" where
  "index_content p ev x = {r \<in> set (sd_content x). cp_backend r = backend_postgres \<and> cp_target r = pj_target p \<and>
     se_event_type ev \<in> object_events \<and> get_uuid ''object_id'' (se_payload ev) = Some (cp_object_id r)}"

definition deleted_without_row :: "projector \<Rightarrow> search_envelope \<Rightarrow> search_db \<Rightarrow> uuid \<Rightarrow> bool" where
  "deleted_without_row p ev x fid \<longleftrightarrow> se_event_type ev = event_file_deleted \<and>
     get_uuid ''file_entry_id'' (se_payload ev) = Some fid \<and> (\<forall>r \<in> index_files p x. fp_file_entry_id r \<noteq> fid)"

definition published :: "projector \<Rightarrow> search_envelope \<Rightarrow> search_db \<Rightarrow> ext_call list \<Rightarrow> bool" where
  "published p ev x calls \<longleftrightarrow>
     (\<forall>r \<in> index_files p x. concerns_file ev x r \<longrightarrow>
        (\<exists>q \<in> index_files p x. fp_file_entry_id q = fp_file_entry_id r \<and> UpsertFile (published_file q) \<in> set calls)) \<and>
     (\<forall>r \<in> index_content p ev x. UpsertContent (published_content r) \<in> set calls) \<and>
     (\<forall>fid. deleted_without_row p ev x fid \<longrightarrow>
        TombstoneFile (pj_target p) fid (aggregate_or_forever (se_aggregate_version ev)) \<in> set calls) \<and>
     (\<forall>c \<in> set calls. (\<exists>r \<in> index_files p x. concerns_file ev x r \<and> c = UpsertFile (published_file r)) \<or>
        (\<exists>r \<in> index_content p ev x. c = UpsertContent (published_content r)) \<or>
        (\<exists>fid. deleted_without_row p ev x fid \<and>
           c = TombstoneFile (pj_target p) fid (aggregate_or_forever (se_aggregate_version ev))))"

lemma file_calls_sound:
  shows "\<And>r. r \<in> index_files p x \<Longrightarrow> fp_file_entry_id r = fid \<Longrightarrow>
      \<exists>q \<in> index_files p x. fp_file_entry_id q = fid \<and> UpsertFile (published_file q) \<in> set (file_calls p et agg fid x)"
    "\<And>c. c \<in> set (file_calls p et agg fid x) \<Longrightarrow> (\<exists>r \<in> index_files p x. fp_file_entry_id r = fid \<and> c = UpsertFile (published_file r)) \<or>
      et = event_file_deleted \<and> (\<forall>r \<in> index_files p x. fp_file_entry_id r \<noteq> fid) \<and> c = TombstoneFile (pj_target p) fid (aggregate_or_forever agg)"
    "et = event_file_deleted \<Longrightarrow> \<forall>r \<in> index_files p x. fp_file_entry_id r \<noteq> fid \<Longrightarrow>
      TombstoneFile (pj_target p) fid (aggregate_or_forever agg) \<in> set (file_calls p et agg fid x)"
proof -
  let ?f = "find (\<lambda>r. fp_backend r = backend_postgres \<and> fp_target r = pj_target p \<and> fp_file_entry_id r = fid) (sd_files x)"
  have none: "?f = None \<longleftrightarrow> (\<forall>r \<in> index_files p x. fp_file_entry_id r \<noteq> fid)" by (auto simp: find_None_iff index_files_def)
  have some: "r \<in> index_files p x \<and> fp_file_entry_id r = fid" if "?f = Some r" for r
    using find_SomeD[OF that] by (simp add: index_files_def)
  show "\<exists>q \<in> index_files p x. fp_file_entry_id q = fid \<and> UpsertFile (published_file q) \<in> set (file_calls p et agg fid x)"
    if "r \<in> index_files p x" "fp_file_entry_id r = fid" for r
    using that none some by (cases ?f) (auto simp: file_calls_def)
  show "(\<exists>r \<in> index_files p x. fp_file_entry_id r = fid \<and> c = UpsertFile (published_file r)) \<or>
      et = event_file_deleted \<and> (\<forall>r \<in> index_files p x. fp_file_entry_id r \<noteq> fid) \<and> c = TombstoneFile (pj_target p) fid (aggregate_or_forever agg)"
    if "c \<in> set (file_calls p et agg fid x)" for c
    using that none some by (cases ?f) (auto simp: file_calls_def split: if_splits)
  show "TombstoneFile (pj_target p) fid (aggregate_or_forever agg) \<in> set (file_calls p et agg fid x)"
    if "et = event_file_deleted" "\<forall>r \<in> index_files p x. fp_file_entry_id r \<noteq> fid"
    using that none by (auto simp: file_calls_def)
qed

lemma external_calls_published:
  assumes "external_calls p (se_event_type ev) (se_aggregate_version ev) (se_payload ev) x = Inr calls"
  shows "published p ev x calls"
proof -
  obtain owner fid oid sid where g: "get_uuid ''owner_id'' (se_payload ev) = Some owner" "get_uuid ''file_entry_id'' (se_payload ev) = Some fid"
    "get_uuid ''object_id'' (se_payload ev) = Some oid" "get_uuid ''share_id'' (se_payload ev) = Some sid"
    using assms by (auto simp: external_calls_def split: option.splits)
  let ?ev = "se_event_type ev"
  have calls: "calls = (if ?ev \<in> file_events \<or> ?ev = event_share_created \<or> ?ev = event_file_deleted
        then file_calls p ?ev (se_aggregate_version ev) fid x
      else if ?ev \<in> share_events then file_calls p ?ev (se_aggregate_version ev) (event_entry sid x) x
      else if ?ev \<in> folder_events then
        map (UpsertFile \<circ> published_file) (filter (\<lambda>r. fp_backend r = backend_postgres \<and> fp_target r = pj_target p \<and> fp_owner_id r = owner) (sd_files x))
      else if ?ev \<in> object_events then
        map (UpsertContent \<circ> published_content) (filter (\<lambda>r. cp_backend r = backend_postgres \<and> cp_target r = pj_target p \<and>
          cp_object_id r = oid) (sd_content x)) else [])"
    using assms g by (simp add: external_calls_def)
  note kinds = file_events_def share_events_def folder_events_def object_events_def
  consider (filed) "?ev \<in> file_events \<or> ?ev = event_share_created \<or> ?ev = event_file_deleted"
    | (shared) "?ev \<in> share_events" | (foldered) "?ev \<in> folder_events" | (stored) "?ev \<in> object_events"
    | (rest) "?ev \<notin> file_events \<union> {event_share_created, event_file_deleted} \<union> share_events \<union> folder_events \<union> object_events" by blast
  then show ?thesis
  proof cases
    case filed
    then have c: "?ev \<notin> share_events" "?ev \<notin> folder_events" "?ev \<notin> object_events" "calls = file_calls p ?ev (se_aggregate_version ev) fid x"
      using calls by (auto simp: kinds)
    have cf: "concerns_file ev x r \<longleftrightarrow> fp_file_entry_id r = fid" for r using c(1,2) filed g(2) by (auto simp: concerns_file_def)
    have ic: "index_content p ev x = {}" using c(3) by (simp add: index_content_def)
    have dw: "deleted_without_row p ev x i \<longleftrightarrow> i = fid \<and> ?ev = event_file_deleted \<and> (\<forall>r \<in> index_files p x. fp_file_entry_id r \<noteq> fid)" for i
      using g(2) by (auto simp: deleted_without_row_def)
    note fc = file_calls_sound[where p = p and x = x and fid = fid and et = ?ev and agg = "se_aggregate_version ev"]
    show ?thesis unfolding published_def c(4) cf ic dw
    proof (intro conjI ballI allI impI)
      fix r assume "r \<in> index_files p x" "fp_file_entry_id r = fid"
      from fc(1)[OF this] show "\<exists>q \<in> index_files p x. fp_file_entry_id q = fp_file_entry_id r \<and>
          UpsertFile (published_file q) \<in> set (file_calls p ?ev (se_aggregate_version ev) fid x)"
        unfolding \<open>fp_file_entry_id r = fid\<close> .
    next
      fix c assume "c \<in> set (file_calls p ?ev (se_aggregate_version ev) fid x)"
      from fc(2)[OF this] show "(\<exists>r \<in> index_files p x. fp_file_entry_id r = fid \<and> c = UpsertFile (published_file r)) \<or>
          (\<exists>r \<in> {}. c = UpsertContent (published_content r)) \<or>
          (\<exists>i. (i = fid \<and> ?ev = event_file_deleted \<and> (\<forall>r \<in> index_files p x. fp_file_entry_id r \<noteq> fid)) \<and>
             c = TombstoneFile (pj_target p) i (aggregate_or_forever (se_aggregate_version ev)))" by blast
    qed (use fc(3) in auto)
  next
    case shared
    then have c: "?ev \<notin> file_events" "?ev \<notin> folder_events" "?ev \<notin> object_events" "?ev \<noteq> event_share_created" "?ev \<noteq> event_file_deleted"
      by (auto simp: kinds)
    have cs: "calls = file_calls p ?ev (se_aggregate_version ev) (event_entry sid x) x" using calls c shared by simp
    have cf: "concerns_file ev x r \<longleftrightarrow> fp_file_entry_id r = event_entry sid x" for r using c shared g(4) by (auto simp: concerns_file_def)
    have ic: "index_content p ev x = {}" using c(3) by (simp add: index_content_def)
    have dw: "\<not> deleted_without_row p ev x i" for i using c(5) by (simp add: deleted_without_row_def)
    note fc = file_calls_sound[where p = p and x = x and fid = "event_entry sid x" and et = ?ev and agg = "se_aggregate_version ev"]
    show ?thesis unfolding published_def cs cf ic
    proof (intro conjI ballI allI impI)
      fix r assume "r \<in> index_files p x" "fp_file_entry_id r = event_entry sid x"
      from fc(1)[OF this] show "\<exists>q \<in> index_files p x. fp_file_entry_id q = fp_file_entry_id r \<and>
          UpsertFile (published_file q) \<in> set (file_calls p ?ev (se_aggregate_version ev) (event_entry sid x) x)"
        unfolding \<open>fp_file_entry_id r = event_entry sid x\<close> .
    next
      fix c assume "c \<in> set (file_calls p ?ev (se_aggregate_version ev) (event_entry sid x) x)"
      from fc(2)[OF this] c(5) show "(\<exists>r \<in> index_files p x. fp_file_entry_id r = event_entry sid x \<and> c = UpsertFile (published_file r)) \<or>
          (\<exists>r \<in> {}. c = UpsertContent (published_content r)) \<or>
          (\<exists>i. deleted_without_row p ev x i \<and>
             c = TombstoneFile (pj_target p) i (aggregate_or_forever (se_aggregate_version ev)))" by blast
    qed (use dw in auto)
  next
    case foldered
    then have c: "?ev \<notin> file_events" "?ev \<notin> share_events" "?ev \<notin> object_events" "?ev \<noteq> event_share_created" "?ev \<noteq> event_file_deleted"
      by (auto simp: kinds)
    have cs: "set calls = {UpsertFile (published_file r) | r. r \<in> index_files p x \<and> fp_owner_id r = owner}"
      using calls c foldered by (auto simp: index_files_def)
    have "concerns_file ev x r \<longleftrightarrow> fp_owner_id r = owner" for r using c foldered g(1) by (auto simp: concerns_file_def)
    moreover have "index_content p ev x = {}" using c(3) by (simp add: index_content_def)
    moreover have "\<not> deleted_without_row p ev x i" for i using c(5) by (simp add: deleted_without_row_def)
    ultimately show ?thesis unfolding published_def cs by blast
  next
    case stored
    then have c: "?ev \<notin> file_events" "?ev \<notin> share_events" "?ev \<notin> folder_events" "?ev \<noteq> event_share_created" "?ev \<noteq> event_file_deleted"
      by (auto simp: kinds)
    have "r \<in> index_content p ev x \<longleftrightarrow> r \<in> set (sd_content x) \<and> cp_backend r = backend_postgres \<and> cp_target r = pj_target p \<and> cp_object_id r = oid" for r
      using stored g(3) by (auto simp: index_content_def)
    then have cs: "set calls = {UpsertContent (published_content r) | r. r \<in> index_content p ev x}"
      using calls c stored by auto
    have "\<not> concerns_file ev x r" for r using c by (auto simp: concerns_file_def)
    moreover have "\<not> deleted_without_row p ev x i" for i using c(5) by (simp add: deleted_without_row_def)
    ultimately show ?thesis unfolding published_def cs by blast
  next
    case rest
    have cs: "set calls = {}" using calls rest by auto
    have "\<not> concerns_file ev x r" for r using rest by (auto simp: concerns_file_def)
    moreover have "index_content p ev x = {}" using rest by (simp add: index_content_def)
    moreover have "\<not> deleted_without_row p ev x i" for i using rest by (simp add: deleted_without_row_def)
    ultimately show ?thesis unfolding published_def cs by blast
  qed
qed

text \<open>The state \<open>publishExternal\<close> reads: after the projection's transaction and the one that notes the publication,
  with whatever others committed in between.\<close>

definition publication_point :: "projector \<Rightarrow> handle_env \<Rightarrow> search_envelope \<Rightarrow> search_db \<Rightarrow> search_db" where
  "publication_point p env ev s =
     (let watermark = (case se_aggregate_version ev of Some n \<Rightarrow> if 0 < n then Some n else None | None \<Rightarrow> None);
          s1 = snd (commit env 2 (\<lambda>x. attempt (project p (he_ctx env) (se_event_type ev) (se_aggregate_version ev) (se_payload ev) x)
            (begin_checkpoint p (se_event_id ev) watermark (he_checksum env (se_payload ev)))) s);
          s2 = snd (commit env 3 (set_checkpoint p (se_event_id ev) ''publishing'' None) s1)
      in he_others env 4 s2)"

text \<open>One delivery projected the event on the state \<open>x\<close> and then published it: everything the event concerns when the
  rows are read, and for a file event whose file exists, that file, unless somebody else touched the rows in between.\<close>

definition projected_and_published :: "projector \<Rightarrow> handle_env \<Rightarrow> search_envelope \<Rightarrow> search_db \<Rightarrow> ext_call list \<Rightarrow> bool" where
  "projected_and_published p env ev s calls \<longleftrightarrow>
     (\<exists>y. project p (he_ctx env) (se_event_type ev) (se_aggregate_version ev) (se_payload ev) (he_others env 2 s) = Inr y \<and>
        published p ev (publication_point p env ev s) calls \<and> (\<forall>i < length calls. he_reply env i = None) \<and>
        ((\<forall>n u. sd_files (he_others env n u) = sd_files u) \<longrightarrow> sd_files (publication_point p env ev s) = sd_files y \<and>
          (\<forall>fid. se_event_type ev \<in> file_events \<and> get_uuid ''file_entry_id'' (se_payload ev) = Some fid \<and>
             file_source (sd_facts (he_others env 2 s)) fid \<noteq> None \<longrightarrow>
             (\<exists>c. UpsertFile c \<in> set calls \<and> fp_target c = pj_target p \<and> fp_file_entry_id c = fid))))"

lemma upsert_leaves_row:
  assumes "upsert_file cx v s = Inr s'" "fp_backend v = backend_postgres"
  shows "\<exists>r \<in> set (sd_files s'). fp_backend r = backend_postgres \<and> fp_target r = fp_target v \<and> fp_file_entry_id r = fp_file_entry_id v"
proof -
  define w where "w = (if fp_acl_version v \<le> 0 then v\<lparr>fp_acl_version := 1\<rparr> else v)"
  have w: "fp_backend w = backend_postgres" "fp_target w = fp_target v" "fp_file_entry_id w = fp_file_entry_id v"
    using assms(2) by (simp_all add: w_def)
  let ?f = "\<lambda>q. (file_row_of cx w)\<lparr>fr_id := fr_id q\<rparr>"
  let ?P = "\<lambda>q. same_file w q \<and> file_supersedes q (file_row_of cx w)"
  have s': "sd_files s' = (if exists_where (same_file w) (sd_files s) then update_where ?P ?f (sd_files s) else sd_files s @ [file_row_of cx w])"
    using assms(1) by (auto simp: upsert_file_def Let_def w_def split: if_splits)
  have row: "same_file w (?f q)" "same_file w (file_row_of cx w)" for q
    by (simp_all add: same_file_def file_row_of_def file_projection.defs)
  have "\<exists>q \<in> set (sd_files s'). same_file w q"
  proof (cases "exists_where (same_file w) (sd_files s)")
    case True
    then obtain q where q: "q \<in> set (sd_files s)" "same_file w q" by (auto simp: exists_where_iff)
    then have "(if ?P q then ?f q else q) \<in> set (sd_files s')" using s' True by (auto simp: in_set_update_where)
    then show ?thesis using q(2) row(1) by (metis (full_types))
  qed (use s' row(2) in auto)
  then show ?thesis using w by (simp add: same_file_def)
qed

lemma file_event_leaves_row:
  assumes "project p cx ev agg fs s = Inr s'" "ev \<in> file_events" "get_uuid ''file_entry_id'' fs = Some fid" "file_source (sd_facts s) fid \<noteq> None"
  shows "\<exists>r \<in> index_files p s'. fp_file_entry_id r = fid"
proof -
  obtain e b where eb: "file_source (sd_facts s) fid = Some (e, b)" using assms(4) by auto
  then have "find (\<lambda>q. fe_id q = fid) (file_entries (sd_facts s)) = Some e" by (auto simp: file_source_def split: option.splits)
  from find_SomeD[OF this] have id: "fe_id e = fid" by simp
  have nz: "fid \<noteq> 0" "project_file_with_acl p cx fid False 0 s = Inr s'"
    using assms(1-3) by (auto simp: project_def project_file_def split: option.splits if_splits)
  then obtain a d where "upsert_file cx (projection_of p a False (e, b)) (s\<lparr>sd_facts := d\<rparr>) = Inr s'"
    using eb id by (auto simp: project_file_with_acl_def attempt_eq_Inr_iff)
  from upsert_leaves_row[OF this] show ?thesis using id by (auto simp: projection_of_def index_files_def)
qed

lemma delivery_published:
  assumes "commit env 2 (\<lambda>x. attempt (project p (he_ctx env) (se_event_type ev) (se_aggregate_version ev) (se_payload ev) x)
      (begin_checkpoint p (se_event_id ev) (case se_aggregate_version ev of Some n \<Rightarrow> if 0 < n then Some n else None | None \<Rightarrow> None)
        (he_checksum env (se_payload ev)))) s = (None, s1)"
    "commit env 3 (set_checkpoint p (se_event_id ev) ''publishing'' None) s1 = (None, s2)"
    "publish_external p env ev (he_others env 4 s2) = (None, calls)"
  shows "projected_and_published p env ev s calls"
proof -
  have x: "publication_point p env ev s = he_others env 4 s2" using assms(1,2) by (simp add: publication_point_def)
  note pub = publish_done[OF assms(3)]
  obtain y where y: "project p (he_ctx env) (se_event_type ev) (se_aggregate_version ev) (se_payload ev) (he_others env 2 s) = Inr y"
    "sd_files s1 = sd_files y"
    using assms(1) by (rule commit_cases) (auto simp: attempt_eq_Inr_iff begin_checkpoint_def split: if_splits)
  have s2: "sd_files s2 = sd_files (he_others env 3 s1)"
    using assms(2) by (rule commit_cases) (auto simp: set_checkpoint_def split: if_splits)
  have p1: "published p ev (he_others env 4 s2) calls" using external_calls_published pub by blast
  have "\<exists>c. UpsertFile c \<in> set calls \<and> fp_target c = pj_target p \<and> fp_file_entry_id c = fid"
    if h: "\<forall>n u. sd_files (he_others env n u) = sd_files u" "se_event_type ev \<in> file_events"
      "get_uuid ''file_entry_id'' (se_payload ev) = Some fid" "file_source (sd_facts (he_others env 2 s)) fid \<noteq> None" for fid
  proof -
    obtain r where r: "r \<in> index_files p y" "fp_file_entry_id r = fid" using file_event_leaves_row[OF y(1) h(2-4)] by blast
    then have "r \<in> index_files p (he_others env 4 s2)" using h(1) s2 y(2) by (simp add: index_files_def)
    moreover have "concerns_file ev (he_others env 4 s2) r" using h(2,3) r(2) by (simp add: concerns_file_def)
    ultimately obtain q where q: "q \<in> index_files p (he_others env 4 s2)" "fp_file_entry_id q = fid" "UpsertFile (published_file q) \<in> set calls"
      using p1 r(2) unfolding published_def by blast
    then show ?thesis by (intro exI[of _ "published_file q"]) (simp add: published_file_def index_files_def file_projection.defs)
  qed
  then show ?thesis using x y s2 p1 pub unfolding projected_and_published_def by auto
qed

lemma project_and_publish_settles:
  assumes "digest_ok p" "project_and_publish p env ev s = (r, s', calls)"
    "\<forall>n x. event_settled p (se_event_id ev) (he_others env n x) \<longrightarrow> event_settled p (se_event_id ev) x"
  shows "(r = None \<longrightarrow> event_marked p (se_event_id ev) s') \<and>
    (event_settled p (se_event_id ev) s' \<longrightarrow> event_settled p (se_event_id ev) s \<or>
       projected_and_published p env ev s calls)"
proof -
  let ?S = "event_settled p (se_event_id ev)"
  let ?w = "case se_aggregate_version ev of Some n \<Rightarrow> if 0 < n then Some n else None | None \<Rightarrow> None"
  let ?f = "\<lambda>x. attempt (project p (he_ctx env) (se_event_type ev) (se_aggregate_version ev) (se_payload ev) x)
          (begin_checkpoint p (se_event_id ev) ?w (he_checksum env (se_payload ev)))"
  let ?g = "set_checkpoint p (se_event_id ev) ''publishing'' None"
  obtain e1 s1 where c1: "commit env 2 ?f s = (e1, s1)" by (cases "commit env 2 ?f s")
  obtain e2 s2 where c2: "commit env 3 ?g s1 = (e2, s2)" by (cases "commit env 3 ?g s1")
  let ?s3 = "he_others env 4 s2"
  obtain err cs where pub: "publish_external p env ev ?s3 = (err, cs)" by (cases "publish_external p env ev ?s3")
  obtain r4 s4 where ap: "after_publish p env ev err ?s3 = (r4, s4)" by (cases "after_publish p env ev err ?s3")
  have S1: "?S s" if "e1 \<noteq> None" "?S s1"
    using c1 by (rule commit_cases) (use that assms(3) in auto)
  have M1: "?S s" if "e1 = None" "event_marked p (se_event_id ev) s1"
    using c1
  proof (rule commit_cases)
    assume "?f (he_others env 2 s) = Inr s1"
    then have "event_marked p (se_event_id ev) (he_others env 2 s)" using project_begin_state(2) that(2) by blast
    then show "?S s" using assms(3) by (auto simp: event_settled_def)
  qed (use that in simp)
  have P1: "checkpoint_state p (se_event_id ev) s1 = Some ''pending''" if "e1 = None"
    using c1 by (rule commit_cases) (use that project_begin_state(1) in auto)
  have S2: "?S s" if "e1 = None" "?S s2"
  proof -
    have "?S (he_others env 3 s1)"
      using c2 by (rule commit_cases) (use that(2) set_checkpoint_settled[of p "se_event_id ev" "''publishing''"] in auto)
    then have "?S s1" using assms(3) by blast
    then have "event_marked p (se_event_id ev) s1" using P1[OF that(1)] by (simp add: event_settled_def)
    then show ?thesis by (rule M1[OF that(1)])
  qed
  have S4: "?S s" if "e1 = None" "err \<noteq> None" "?S s4"
  proof -
    have "?S (he_others env 5 ?s3)"
      using after_publish_effect(3)[OF assms(1) ap that(2)] that(3) set_checkpoint_settled[of p "se_event_id ev" "''failed''"] by auto
    then show ?thesis using assms(3) S2[OF that(1)] by blast
  qed
  show ?thesis
  proof (cases e1)
    case (Some e)
    then show ?thesis using assms(2) c1 S1 by (auto simp: project_and_publish_def Let_def)
  next
    case None
    show ?thesis
    proof (cases e2)
      case (Some e)
      then show ?thesis using assms(2) c1 c2 None S2 by (auto simp: project_and_publish_def Let_def)
    next
      case e2: None
      then have out: "r = r4" "s' = s4" "calls = cs" using assms(2) c1 c2 None pub ap by (simp_all add: project_and_publish_def Let_def)
      show ?thesis
      proof (cases err)
        case e: None
        have "projected_and_published p env ev s calls"
          by (rule delivery_published[OF c1[unfolded None] c2[unfolded e2]]) (use pub e out in simp)
        then show ?thesis using after_publish_effect(1)[OF assms(1) ap] out by blast
      next
        case (Some e)
        then show ?thesis using S4[OF None] out after_publish_effect(2)[OF assms(1) ap] by auto
      qed
    qed
  qed
qed

text \<open>C12: An event is acknowledged for an index generation only after it was projected and published.  One delivery
  handled by a projector with an external index, whatever statement fails or process dies on the way and
  whatever others commit between its transactions: if it returns no error the event is marked as consumed; and if
  the event counts as done afterwards (consumed, or its checkpoint closed) although it was not before and nobody
  else did it, then its projection committed, and of the rows as they stood at the publication every one the
  event concerns was written to the external index (for a file, share or deletion event the file's row, or a
  tombstone when a deleted file has none; for a folder event every row of the owner; for an object event every
  content row of the object), nothing else was, and no write was refused.  For a file event whose file exists that
  row is always among them, unless somebody else touched the rows in between.\<close>

theorem marked_only_after_publication:
  assumes "digest_ok p" "pj_backends p \<noteq> None" "read_envelope body = Some ev" "handle_target p env body s = (r, s', calls)"
    "\<And>n x. event_settled p (se_event_id ev) (he_others env n x) \<Longrightarrow> event_settled p (se_event_id ev) x"
  shows "(r = None \<longrightarrow> event_marked p (se_event_id ev) s') \<and>
    (event_settled p (se_event_id ev) s' \<longrightarrow> event_settled p (se_event_id ev) s \<or>
       projected_and_published p env ev (he_others env 1 (he_others env 0 s)) calls)"
proof -
  let ?S = "event_settled p (se_event_id ev)"
  let ?s0 = "he_others env 0 s"
  let ?s1 = "he_others env 1 ?s0"
  have h: "handle_external p env ev s = (r, s', calls)" using assms(2-4) by (simp only: handle_target_def option.case if_False)
  have q: "?S ?s0 \<Longrightarrow> ?S s" "?S ?s1 \<Longrightarrow> ?S s" using assms(5) by blast+
  consider (fail0) "he_fail env 0 \<noteq> None" | (marked) "he_fail env 0 = None" "event_marked p (se_event_id ev) ?s0"
    | (fail1) "he_fail env 0 = None" "\<not> event_marked p (se_event_id ev) ?s0" "he_fail env 1 \<noteq> None"
    | (closed) "he_fail env 0 = None" "\<not> event_marked p (se_event_id ev) ?s0" "he_fail env 1 = None"
        "checkpoint_state p (se_event_id ev) ?s1 \<in> {Some ''indexed'', Some ''tombstoned''}"
    | (work) "he_fail env 0 = None" "\<not> event_marked p (se_event_id ev) ?s0" "he_fail env 1 = None"
        "checkpoint_state p (se_event_id ev) ?s1 \<notin> {Some ''indexed'', Some ''tombstoned''}"
    by blast
  then show ?thesis
  proof cases
    case fail0
    then show ?thesis using h q by (auto simp: handle_external_def Let_def)
  next
    case marked
    then show ?thesis using h q by (auto simp: handle_external_def Let_def)
  next
    case fail1
    then show ?thesis using h q by (auto simp: handle_external_def Let_def)
  next
    case closed
    obtain r2 s2 where a: "ack_event p env (se_event_id ev) ?s1 = (r2, s2)" by (cases "ack_event p env (se_event_id ev) ?s1")
    have "?S ?s1" using closed(4) by (simp add: event_settled_def)
    then have "?S s" by (rule q)
    moreover have "r = r2" "s' = s2" using h closed a by (simp_all add: handle_external_def Let_def)
    ultimately show ?thesis using acked_marked[OF assms(1)] a by blast
  next
    case work
    then have pp: "project_and_publish p env ev ?s1 = (r, s', calls)" using h by (simp add: handle_external_def Let_def)
    have "\<forall>n x. ?S (he_others env n x) \<longrightarrow> ?S x" using assms(5) by blast
    from project_and_publish_settles[OF assms(1) pp this] show ?thesis using q(2) by blast
  qed
qed

text \<open>A renamed file published to one external index.\<close>

definition demo_entry :: file_entry where
  "demo_entry = \<lparr> fe_id = 11, fe_owner_id = 5, fe_folder_id = 6, fe_object_id = 7, fe_name = [97], fe_name_normalized = [97],
     fe_deleted_at = None, fe_version = 3 \<rparr>"

definition demo_object :: file_object where
  "demo_object = \<lparr> fo_id = 7, fo_sha256 = ''aa'', fo_size_bytes = 1, fo_mime_type = ''text/plain'', fo_bucket = ''b'', fo_object_key = ''k'',
     fo_status = ObjectReady, fo_reference_count = 1, fo_version = 1, fo_verified_at = None, fo_deleted_at = None \<rparr>"

definition demo_db :: search_db where
  "demo_db = gen_db\<lparr>sd_facts := empty_db\<lparr>file_entries := [demo_entry], file_objects := [demo_object],
     owner_epochs := [\<lparr> ep_owner_id = 5, ep_content_epoch = 2, ep_acl_epoch = 1 \<rparr>]\<rparr>\<rparr>"

definition demo_env :: handle_env where
  "demo_env = \<lparr> he_ctx = gen_ctx, he_fail = (\<lambda>n. None), he_others = (\<lambda>n s. s), he_reply = (\<lambda>n. None), he_checksum = (\<lambda>fs. ''sha256:00''),
     he_error_text = (\<lambda>e. []) \<rparr>"

definition demo_projector :: projector where
  "demo_projector = \<lparr> pj_target = ''v1'', pj_index_epoch = 1, pj_backends = Some [''elasticsearch''], pj_digest = (\<lambda>x. ''00'') \<rparr>"

definition demo_body :: json where
  "demo_body = JsonObject [(''event_id'', JUuid 21), (''event_type'', JStr event_file_updated), (''owner_id'', JUuid 5),
     (''file_entry_id'', JUuid 11), (''object_id'', JUuid 7)]"

lemma demo_run: "fst (handle_target demo_projector demo_env demo_body demo_db) = None \<and>
    length (snd (snd (handle_target demo_projector demo_env demo_body demo_db))) = 1"
  by code_simp

lemma marked_only_after_publication_witness:
  "\<exists>s' calls. handle_target demo_projector demo_env demo_body demo_db = (None, s', calls) \<and> event_marked demo_projector 21 s' \<and>
     (\<exists>c. calls = [UpsertFile c] \<and> fp_file_entry_id c = 11)"
proof -
  obtain r s' calls where h: "handle_target demo_projector demo_env demo_body demo_db = (r, s', calls)"
    by (cases "handle_target demo_projector demo_env demo_body demo_db")
  obtain ev where ev: "read_envelope demo_body = Some ev" "se_event_id ev = 21"
    by (simp add: read_envelope_def demo_body_def)
  have "digest_ok demo_projector" by (simp add: digest_ok_def demo_projector_def ascii_space_def)
  from marked_only_after_publication[OF this _ ev(1) h]
  have "(r = None \<longrightarrow> event_marked demo_projector 21 s') \<and> (event_settled demo_projector 21 s' \<longrightarrow> event_settled demo_projector 21 demo_db \<or>
      projected_and_published demo_projector demo_env ev demo_db calls)"
    using ev(2) by (simp add: demo_projector_def demo_env_def)
  moreover have "\<not> event_settled demo_projector 21 demo_db" by code_simp
  moreover have "r = None" "length calls = 1" using h demo_run by simp_all
  ultimately have m: "event_marked demo_projector 21 s'" "projected_and_published demo_projector demo_env ev demo_db calls"
    by (auto simp: event_settled_def)
  have "file_source (sd_facts demo_db) 11 \<noteq> None" by code_simp
  then obtain c where "UpsertFile c \<in> set calls" "fp_file_entry_id c = 11"
    using m(2) ev(1) unfolding projected_and_published_def
    by (auto simp: demo_env_def read_envelope_def demo_body_def file_events_def get_uuid_def)
  then show ?thesis using h m(1) \<open>r = None\<close> \<open>length calls = 1\<close> by (cases calls) auto
qed

end
