(* ===== verification/SearchFlow.thy ===== *)
theory SearchFlow
  imports Projector
begin

text \<open>
  The file projections against the facts they copy: with events consumed late, twice or out of order, no
  projection gets ahead of the facts, and the next event of a file makes its projection equal to them.
\<close>

section \<open>Rows and facts\<close>

definition acl_of :: "uuid \<Rightarrow> db \<Rightarrow> int" where
  "acl_of owner d = snd (epoch_of owner d)"

definition facts_ok :: "db \<Rightarrow> bool" where
  "facts_ok d \<longleftrightarrow> key_distinct fe_id (file_entries d) \<and> key_distinct fo_id (file_objects d) \<and>
     (\<forall>owner. 0 < acl_of owner d) \<and> (\<forall>e \<in> set (file_entries d). object_by_id (fe_object_id e) d \<noteq> None \<and> fe_id e \<noteq> 0)"

text \<open>What business transactions may do: files and epochs only grow newer, a deleted file stays deleted.\<close>

definition facts_advance :: "db \<Rightarrow> db \<Rightarrow> bool" where
  "facts_advance d d' \<longleftrightarrow> facts_ok d' \<and> (\<forall>owner. acl_of owner d \<le> acl_of owner d') \<and>
     (\<forall>e \<in> set (file_entries d). \<exists>e' \<in> set (file_entries d'). fe_id e' = fe_id e \<and> fe_owner_id e' = fe_owner_id e \<and>
        fe_version e \<le> fe_version e' \<and> (fe_deleted_at e \<noteq> None \<longrightarrow> fe_deleted_at e' \<noteq> None))"

text \<open>A row describes a present or past version of a file; \<open>ep\<close> is the index epoch of each target.\<close>

definition row_past :: "(string \<Rightarrow> int) \<Rightarrow> db \<Rightarrow> file_row \<Rightarrow> bool" where
  "row_past ep d r \<longleftrightarrow> fp_index_epoch r \<le> ep (fp_target r) \<and>
     (\<exists>e \<in> set (file_entries d). fe_id e = fp_file_entry_id r \<and> (fp_tombstone r \<longrightarrow> fe_deleted_at e \<noteq> None) \<and>
        (\<not> fp_tombstone r \<longrightarrow> fp_file_version r \<le> fe_version e) \<and> fp_acl_version r \<le> acl_of (fe_owner_id e) d)"

definition row_key :: "file_row \<Rightarrow> string \<times> string \<times> uuid" where
  "row_key r = (fp_backend r, fp_target r, fp_file_entry_id r)"

definition search_ok :: "(string \<Rightarrow> int) \<Rightarrow> search_db \<Rightarrow> bool" where
  "search_ok ep s \<longleftrightarrow> facts_ok (sd_facts s) \<and> key_distinct row_key (sd_files s) \<and>
     (\<forall>r \<in> set (sd_files s). fp_backend r = backend_postgres \<longrightarrow> row_past ep (sd_facts s) r)"

text \<open>A row written from projection \<open>v\<close>.\<close>

definition row_from :: "file_projection \<Rightarrow> file_row \<Rightarrow> bool" where
  "row_from v r \<longleftrightarrow> file_projection.truncate r = v \<and> fr_state r = (if fp_tombstone v then ''tombstoned'' else ''indexed'')"

lemma row_fromD:
  assumes "row_from v r"
  shows "fp_backend r = fp_backend v" "fp_target r = fp_target v" "fp_file_entry_id r = fp_file_entry_id v" "fp_owner_id r = fp_owner_id v"
    "fp_folder_id r = fp_folder_id v" "fp_object_id r = fp_object_id v" "fp_file_version r = fp_file_version v"
    "fp_acl_version r = fp_acl_version v" "fp_name r = fp_name v" "fp_mime_type r = fp_mime_type v"
    "fp_index_epoch r = fp_index_epoch v" "fp_tombstone r = fp_tombstone v"
  using assms by (auto simp: row_from_def file_projection.defs)

lemma row_from_row_of: "row_from v ((file_row_of cx v)\<lparr>fr_id := i\<rparr>)"
  by (simp add: row_from_def file_row_of_def file_projection.defs)

lemma row_of_self: "row_from v (file_row_of cx v)"
  by (simp add: row_from_def file_row_of_def file_projection.defs)

text \<open>An upsert keeps every other row and either writes the row of its key or finds it newer.\<close>

lemma upsert_file_rows:
  assumes "upsert_file cx v s = Inr s'" "0 < fp_acl_version v"
  shows "sd_facts s' = sd_facts s" "\<And>r. r \<in> set (sd_files s') \<Longrightarrow> r \<in> set (sd_files s) \<or> row_from v r"
    "key_distinct row_key (sd_files s) \<Longrightarrow> key_distinct row_key (sd_files s')"
    "\<exists>r \<in> set (sd_files s'). same_file v r \<and> (row_from v r \<or> r \<in> set (sd_files s) \<and> \<not> file_supersedes r (file_row_of cx v))"
    "\<And>r. r \<in> set (sd_files s) \<Longrightarrow> \<not> same_file v r \<Longrightarrow> r \<in> set (sd_files s')"
proof -
  let ?row = "file_row_of cx v"
  have cases: "exists_where (same_file v) (sd_files s) \<and> s' = s\<lparr>sd_files := update_where (\<lambda>r. same_file v r \<and> file_supersedes r ?row)
       (\<lambda>r. ?row\<lparr>fr_id := fr_id r\<rparr>) (sd_files s)\<rparr> \<or> \<not> exists_where (same_file v) (sd_files s) \<and> s' = s\<lparr>sd_files := sd_files s @ [?row]\<rparr>"
    using assms by (auto simp: upsert_file_def Let_def split: if_splits)
  then show "sd_facts s' = sd_facts s" by auto
  show "r \<in> set (sd_files s')" if "r \<in> set (sd_files s)" "\<not> same_file v r" for r
    using cases that by (auto simp: in_set_update_where)
  show "r \<in> set (sd_files s) \<or> row_from v r" if "r \<in> set (sd_files s')" for r
    using cases that row_from_row_of[where v = v and cx = cx] row_of_self[where v = v and cx = cx] by (auto simp: in_set_update_where)
  have key: "row_key r = (fp_backend v, fp_target v, fp_file_entry_id v)" if "same_file v r \<or> row_from v r" for r
    using that row_fromD[of v r] by (auto simp: same_file_def row_key_def)
  have self: "same_file v r" if "row_from v r" for r
    using row_fromD[OF that] by (simp add: same_file_def)
  from cases show "key_distinct row_key (sd_files s')" if "key_distinct row_key (sd_files s)"
  proof
    assume c: "exists_where (same_file v) (sd_files s) \<and> s' = s\<lparr>sd_files := update_where (\<lambda>r. same_file v r \<and> file_supersedes r ?row)
       (\<lambda>r. ?row\<lparr>fr_id := fr_id r\<rparr>) (sd_files s)\<rparr>"
    have "key_distinct row_key (update_where (\<lambda>r. same_file v r \<and> file_supersedes r ?row) (\<lambda>r. ?row\<lparr>fr_id := fr_id r\<rparr>) (sd_files s))"
      by (rule key_distinct_update[OF that]) (use key row_from_row_of[where v = v and cx = cx] in auto)
    then show ?thesis using c by simp
  next
    assume c: "\<not> exists_where (same_file v) (sd_files s) \<and> s' = s\<lparr>sd_files := sd_files s @ [?row]\<rparr>"
    have "row_key ?row \<notin> row_key ` set (sd_files s)"
      using c key[of ?row] row_of_self[where v = v and cx = cx] by (auto simp: exists_where_iff same_file_def row_key_def)
    then show ?thesis using c key_distinct_append_new[OF that] by simp
  qed
  show "\<exists>r \<in> set (sd_files s'). same_file v r \<and> (row_from v r \<or> r \<in> set (sd_files s) \<and> \<not> file_supersedes r ?row)"
    using cases
  proof
    assume c: "exists_where (same_file v) (sd_files s) \<and> s' = s\<lparr>sd_files := update_where (\<lambda>r. same_file v r \<and> file_supersedes r ?row)
       (\<lambda>r. ?row\<lparr>fr_id := fr_id r\<rparr>) (sd_files s)\<rparr>"
    then obtain r where r: "r \<in> set (sd_files s)" "same_file v r" by (auto simp: exists_where_iff)
    show ?thesis
    proof (cases "file_supersedes r ?row")
      case True
      then have "?row\<lparr>fr_id := fr_id r\<rparr> \<in> set (sd_files s')" using c r by (auto simp: in_set_update_where)
      then show ?thesis using row_from_row_of[where v = v and cx = cx and i = "fr_id r"] self by blast
    next
      case False
      then have "r \<in> set (sd_files s')" using c r by (auto simp: in_set_update_where)
      then show ?thesis using r False by blast
    qed
  qed (use row_of_self[where v = v and cx = cx] self in auto)
qed

lemma current_epoch_facts:
  assumes "current_epoch owner d = Inr (e, d')"
  shows "acl_of o' d' = acl_of o' d" "ep_acl_epoch e = acl_of owner d" "file_entries d' = file_entries d" "file_objects d' = file_objects d"
proof -
  obtain d1 where d1: "ensure_epoch owner d = Inr d1" "epoch_row owner d1 = Some e" "d' = d1"
    using assms by (auto simp: current_epoch_def attempt_eq_Inr_iff)
  have row: "epoch_row owner d1 = Some (case epoch_row owner d of
      None \<Rightarrow> \<lparr> ep_owner_id = owner, ep_content_epoch = 1, ep_acl_epoch = 1 \<rparr> | Some e \<Rightarrow> e)"
    by (rule ensure_epoch_row(1)[OF d1(1)])
  then have same: "epoch_of owner d1 = epoch_of owner d" by (simp add: epoch_of_def split: option.split)
  show "acl_of o' d' = acl_of o' d"
  proof (cases "o' = owner")
    case False
    then show ?thesis using ensure_epoch_row(2)[OF d1(1), of o'] d1(3) by (simp add: acl_of_def epoch_of_def)
  qed (use same d1(3) in \<open>simp add: acl_of_def\<close>)
  have "ep_acl_epoch e = acl_of owner d1" using d1(2) by (simp add: acl_of_def epoch_of_def)
  then show "ep_acl_epoch e = acl_of owner d" using same by (simp add: acl_of_def)
  show "file_entries d' = file_entries d" "file_objects d' = file_objects d"
    using d1(1,3) by (auto simp: ensure_epoch_def split: if_splits)
qed

lemma facts_same_ok:
  assumes "file_entries d' = file_entries d" "file_objects d' = file_objects d" "\<And>owner. acl_of owner d' = acl_of owner d"
  shows "facts_ok d' = facts_ok d" "row_past ep d' r = row_past ep d r"
  using assms by (simp_all add: facts_ok_def row_past_def object_by_id_def)

lemma row_past_from:
  assumes "row_from (projection_of p a False (e, b)) r" "pj_index_epoch p = ep (pj_target p)" "e \<in> set (file_entries d)"
    "a \<le> acl_of (fe_owner_id e) d"
  shows "row_past ep d r"
  using row_fromD[OF assms(1)] assms(2-4) by (auto simp: row_past_def projection_of_def)

lemma upsert_keeps_ok:
  assumes "search_ok ep s" "upsert_file cx (projection_of p a False (e, b)) s = Inr s'" "pj_index_epoch p = ep (pj_target p)"
    "e \<in> set (file_entries (sd_facts s))" "0 < a" "a \<le> acl_of (fe_owner_id e) (sd_facts s)"
  shows "search_ok ep s'"
proof -
  have a: "0 < fp_acl_version (projection_of p a False (e, b))" using assms(5) by (simp add: projection_of_def)
  note u = upsert_file_rows[OF assms(2) a]
  have "row_past ep (sd_facts s) r" if r: "r \<in> set (sd_files s')" "fp_backend r = backend_postgres" for r
    using u(2)[OF r(1)] assms(1) r(2) row_past_from[where ep = ep, OF _ assms(3,4,6)] by (auto simp: search_ok_def)
  then show ?thesis using assms(1) u(1,3) by (simp add: search_ok_def)
qed

lemma tombstone_keeps_ok:
  assumes "search_ok ep s" "\<And>e. e \<in> set (file_entries (sd_facts s)) \<Longrightarrow> fe_id e = fid \<Longrightarrow> fe_deleted_at e \<noteq> None"
  shows "search_ok ep (tombstone_file backend_postgres fid n s)"
proof -
  let ?f = "\<lambda>r. r\<lparr>fp_tombstone := True, fr_state := ''tombstoned'', fp_file_version := n\<rparr>"
  let ?P = "\<lambda>r. fp_backend r = backend_postgres \<and> fp_file_entry_id r = fid \<and> fp_file_version r \<le> n"
  have "row_past ep (sd_facts s) (?f r)" if h: "row_past ep (sd_facts s) r" "?P r" for r
  proof -
    obtain e where e: "e \<in> set (file_entries (sd_facts s))" "fe_id e = fp_file_entry_id r" "fp_acl_version r \<le> acl_of (fe_owner_id e) (sd_facts s)"
      "fp_index_epoch r \<le> ep (fp_target r)" using h(1) by (auto simp: row_past_def)
    have "fe_deleted_at e \<noteq> None" using assms(2)[OF e(1)] e(2) h(2) by simp
    then show ?thesis using e by (auto simp: row_past_def)
  qed
  moreover have "key_distinct row_key (update_where ?P ?f (sd_files s))"
    using assms(1) by (intro key_distinct_update) (simp_all add: search_ok_def row_key_def)
  ultimately show ?thesis using assms(1) by (auto simp: search_ok_def tombstone_file_def in_set_update_where)
qed

text \<open>The row of a file equals the facts: a tombstone when the file is deleted.\<close>

definition reflects :: "projector \<Rightarrow> db \<Rightarrow> file_entry \<Rightarrow> file_row \<Rightarrow> bool" where
  "reflects p d e r \<longleftrightarrow> row_key r = (backend_postgres, pj_target p, fe_id e) \<and>
     (if fe_deleted_at e \<noteq> None then fp_tombstone r
      else \<not> fp_tombstone r \<and> fp_owner_id r = fe_owner_id e \<and> fp_folder_id r = fe_folder_id e \<and> fp_object_id r = fe_object_id e \<and>
        fp_name r = fe_name e \<and> map_option fo_mime_type (object_by_id (fe_object_id e) d) = Some (fp_mime_type r) \<and> fp_file_version r = fe_version e \<and> fp_acl_version r = acl_of (fe_owner_id e) d \<and>
        fp_index_epoch r = pj_index_epoch p \<and> fr_state r = ''indexed'')"

lemma upsert_reflects:
  assumes "search_ok ep s" "upsert_file cx (projection_of p a False (e, b)) s = Inr s'" "pj_index_epoch p = ep (pj_target p)"
    "e \<in> set (file_entries (sd_facts s))" "a = acl_of (fe_owner_id e) (sd_facts s)"
    "object_by_id (fe_object_id e) (sd_facts s) = Some b"
  shows "\<exists>r \<in> set (sd_files s'). reflects p (sd_facts s) e r"
proof -
  let ?v = "projection_of p a False (e, b)"
  have pos: "0 < fp_acl_version ?v" using assms(1,5) by (simp add: projection_of_def search_ok_def facts_ok_def)
  obtain r where r: "r \<in> set (sd_files s')" "same_file ?v r" "row_from ?v r \<or> r \<in> set (sd_files s) \<and> \<not> file_supersedes r (file_row_of cx ?v)"
    using upsert_file_rows(4)[OF assms(2) pos] by blast
  have key: "row_key r = (backend_postgres, pj_target p, fe_id e)" using r(2) by (simp add: same_file_def row_key_def projection_of_def)
  from r(3) show ?thesis
  proof
    assume "row_from ?v r"
    then have "reflects p (sd_facts s) e r" using row_fromD[of ?v r] key assms(5,6)
      by (auto simp: reflects_def projection_of_def row_from_def)
    then show ?thesis using r(1) by blast
  next
    assume old: "r \<in> set (sd_files s) \<and> \<not> file_supersedes r (file_row_of cx ?v)"
    then have "row_past ep (sd_facts s) r" using assms(1) key by (simp add: search_ok_def row_key_def)
    then obtain e1 where e1: "e1 \<in> set (file_entries (sd_facts s))" "fe_id e1 = fp_file_entry_id r" "fp_tombstone r \<Longrightarrow> fe_deleted_at e1 \<noteq> None"
      "\<not> fp_tombstone r \<Longrightarrow> fp_file_version r \<le> fe_version e1" "fp_acl_version r \<le> acl_of (fe_owner_id e1) (sd_facts s)"
      "fp_index_epoch r \<le> ep (fp_target r)" by (auto simp: row_past_def)
    have "e1 = e" using key_unique[of fe_id "file_entries (sd_facts s)" e1 e] assms(1,4) e1(1,2) key by (simp add: search_ok_def facts_ok_def row_key_def)
    then have "fp_tombstone r" using old e1(4-6) assms(3,5) key
      by (auto simp: file_supersedes_def file_row_of_def projection_of_def file_projection.defs row_key_def)
    then have "reflects p (sd_facts s) e r" using key e1(3) \<open>e1 = e\<close> by (simp add: reflects_def)
    then show ?thesis using r(1) by blast
  qed
qed

lemma file_source_facts:
  assumes "facts_ok d"
  shows "e \<in> set (file_entries d) \<Longrightarrow> \<exists>b. file_source d (fe_id e) = Some (e, b) \<and> fe_id e \<noteq> 0"
    "file_source d fid = None \<Longrightarrow> e \<in> set (file_entries d) \<Longrightarrow> fe_id e \<noteq> fid"
    "file_source d fid = Some (e, b) \<Longrightarrow> e \<in> set (file_entries d) \<and> fe_id e = fid \<and> fe_id e \<noteq> 0 \<and> object_by_id (fe_object_id e) d = Some b"
proof -
  show *: "\<exists>b. file_source d (fe_id e) = Some (e, b) \<and> fe_id e \<noteq> 0" if e: "e \<in> set (file_entries d)" for e
  proof -
    have "find (\<lambda>q. fe_id q = fe_id e) (file_entries d) = Some e"
      using assms e find_by_key[of fe_id "file_entries d" "fe_id e" e] by (simp add: facts_ok_def)
    moreover obtain b where "object_by_id (fe_object_id e) d = Some b" "fe_id e \<noteq> 0" using assms e by (auto simp: facts_ok_def)
    ultimately show ?thesis by (simp add: file_source_def)
  qed
  show "fe_id e \<noteq> fid" if "file_source d fid = None" "e \<in> set (file_entries d)"
    using *[OF that(2)] that(1) by auto
  show "e \<in> set (file_entries d) \<and> fe_id e = fid \<and> fe_id e \<noteq> 0 \<and> object_by_id (fe_object_id e) d = Some b" if "file_source d fid = Some (e, b)"
  proof -
    have f: "find (\<lambda>q. fe_id q = fid) (file_entries d) = Some e" "object_by_id (fe_object_id e) d = Some b"
      using that by (auto simp: file_source_def split: option.splits)
    from find_SomeD[OF f(1)] *[of e] f(2) show ?thesis by auto
  qed
qed

lemma search_ok_facts:
  assumes "search_ok ep s" "current_epoch owner (sd_facts s) = Inr (e, d)"
  shows "search_ok ep (s\<lparr>sd_facts := d\<rparr>)"
  using assms(1) current_epoch_facts[OF assms(2)] facts_same_ok[of d "sd_facts s"] by (simp add: search_ok_def)

lemma project_file_ok:
  assumes "search_ok ep s" "project_file_with_acl p cx fid False acl s = Inr s'" "pj_index_epoch p = ep (pj_target p)"
    "\<And>e. e \<in> set (file_entries (sd_facts s)) \<Longrightarrow> fe_id e = fid \<Longrightarrow> acl \<le> acl_of (fe_owner_id e) (sd_facts s)"
  shows "search_ok ep s'"
    "acl \<le> 0 \<or> acl = acl_of (fe_owner_id e) (sd_facts s) \<Longrightarrow> e \<in> set (file_entries (sd_facts s)) \<Longrightarrow> fe_id e = fid \<Longrightarrow> \<exists>r \<in> set (sd_files s'). reflects p (sd_facts s) e r"
proof -
  have ok: "facts_ok (sd_facts s)" using assms(1) by (simp add: search_ok_def)
  note src = file_source_facts[OF ok]
  have main: "search_ok ep s' \<and> (\<forall>e \<in> set (file_entries (sd_facts s)). fe_id e = fid \<longrightarrow>
      acl \<le> 0 \<or> acl = acl_of (fe_owner_id e) (sd_facts s) \<longrightarrow> (\<exists>r \<in> set (sd_files s'). reflects p (sd_facts s) e r))"
  proof (cases "file_source (sd_facts s) fid")
    case None
    then have "s' = tombstone_file backend_postgres fid forever s" using assms(2) by (simp add: project_file_with_acl_def)
    then show ?thesis using tombstone_keeps_ok[OF assms(1)] src(2)[OF None] by blast
  next
    case (Some eb)
    obtain e b where eb: "eb = (e, b)" by (cases eb)
    have e: "e \<in> set (file_entries (sd_facts s))" "fe_id e = fid" "fe_id e \<noteq> 0" "object_by_id (fe_object_id e) (sd_facts s) = Some b"
      using src(3) Some eb by auto
    have only: "q = e" if "q \<in> set (file_entries (sd_facts s))" "fe_id q = fid" for q
      using key_unique[of fe_id "file_entries (sd_facts s)" q e] ok that e by (simp add: facts_ok_def)
    show ?thesis
    proof (cases "0 < acl")
      case True
      then have u: "upsert_file cx (projection_of p acl False (e, b)) s = Inr s'"
        using assms(2) Some eb e(3) by (simp add: project_file_with_acl_def)
      from upsert_keeps_ok[OF assms(1) u assms(3) e(1) True assms(4)[OF e(1,2)]]
      show ?thesis using True only upsert_reflects[OF assms(1) u assms(3) e(1) _ e(4)] by auto
    next
      case False
      then obtain ep1 d where c: "current_epoch (fe_owner_id e) (sd_facts s) = Inr (ep1, d)"
        "upsert_file cx (projection_of p (ep_acl_epoch ep1) False (e, b)) (s\<lparr>sd_facts := d\<rparr>) = Inr s'"
        using assms(2) Some eb e(3) by (auto simp: project_file_with_acl_def attempt_eq_Inr_iff)
      note f = current_epoch_facts[OF c(1)]
      have so: "search_ok ep (s\<lparr>sd_facts := d\<rparr>)" by (rule search_ok_facts[OF assms(1) c(1)])
      have a: "ep_acl_epoch ep1 = acl_of (fe_owner_id e) d" using f(1,2) by simp
      have pos: "0 < ep_acl_epoch ep1" using a so by (simp add: search_ok_def facts_ok_def)
      have e': "e \<in> set (file_entries (sd_facts (s\<lparr>sd_facts := d\<rparr>)))" using e(1) f(3) by simp
      have same: "object_by_id (fe_object_id e) d = object_by_id (fe_object_id e) (sd_facts s)" using f(4) by (simp add: object_by_id_def)
      have "search_ok ep s'" using upsert_keeps_ok[OF so c(2) assms(3) e' pos] a by simp
      moreover have "\<exists>r \<in> set (sd_files s'). reflects p d e r" using upsert_reflects[OF so c(2) assms(3) e'] a same e(4) by simp
      then have "\<exists>r \<in> set (sd_files s'). reflects p (sd_facts s) e r" unfolding reflects_def f(1) same .
      ultimately show ?thesis using only by blast
    qed
  qed
  then show "search_ok ep s'" by simp
  show "acl \<le> 0 \<or> acl = acl_of (fe_owner_id e) (sd_facts s) \<Longrightarrow> e \<in> set (file_entries (sd_facts s)) \<Longrightarrow> fe_id e = fid \<Longrightarrow> \<exists>r \<in> set (sd_files s'). reflects p (sd_facts s) e r"
    using main by blast
qed

text \<open>Writing one file of an owner keeps what the rows of the others reflect.\<close>

lemma upsert_keeps_reflects:
  assumes "search_ok ep s" "upsert_file cx (projection_of p a False (q, b)) s = Inr s'" "pj_index_epoch p = ep (pj_target p)"
    "q \<in> set (file_entries (sd_facts s))" "a = acl_of (fe_owner_id q) (sd_facts s)" "object_by_id (fe_object_id q) (sd_facts s) = Some b"
    "e \<in> set (file_entries (sd_facts s))" "e = q \<or> (\<exists>r \<in> set (sd_files s). reflects p (sd_facts s) e r)"
  shows "\<exists>r \<in> set (sd_files s'). reflects p (sd_facts s) e r"
proof (cases "e = q")
  case True
  then show ?thesis using upsert_reflects[OF assms(1-6)] by simp
next
  case False
  then obtain r where r: "r \<in> set (sd_files s)" "reflects p (sd_facts s) e r" using assms(8) by blast
  have "fe_id e \<noteq> fe_id q"
    using False key_unique[of fe_id "file_entries (sd_facts s)" e q] assms(1,4,7) by (auto simp: search_ok_def facts_ok_def)
  then have "\<not> same_file (projection_of p a False (q, b)) r" using r(2) by (auto simp: reflects_def row_key_def same_file_def projection_of_def)
  moreover have "0 < fp_acl_version (projection_of p a False (q, b))" using assms(1,5) by (simp add: projection_of_def search_ok_def facts_ok_def)
  ultimately show ?thesis using upsert_file_rows(5)[OF assms(2)] r by blast
qed

lemma each_upsert_ok:
  assumes "pj_index_epoch p = ep (pj_target p)" "\<forall>(e, b) \<in> set ebs. e \<in> set (file_entries (sd_facts s)) \<and> a = acl_of (fe_owner_id e) (sd_facts s) \<and>
      object_by_id (fe_object_id e) (sd_facts s) = Some b"
    "0 < a" "search_ok ep s" "each_result (\<lambda>eb. upsert_file cx (projection_of p a False eb)) ebs s = Inr s'"
  shows "search_ok ep s' \<and> (\<forall>e \<in> set (file_entries (sd_facts s)). e \<in> fst ` set ebs \<or> (\<exists>r \<in> set (sd_files s). reflects p (sd_facts s) e r) \<longrightarrow>
    (\<exists>r \<in> set (sd_files s'). reflects p (sd_facts s) e r))"
  using assms(2,4,5)
proof (induction ebs arbitrary: s)
  case (Cons eb ebs)
  obtain q b where eb: "eb = (q, b)" by (cases eb)
  obtain s1 where s1: "upsert_file cx (projection_of p a False (q, b)) s = Inr s1"
    "each_result (\<lambda>eb. upsert_file cx (projection_of p a False eb)) ebs s1 = Inr s'"
    using Cons.prems(3) eb by (auto simp: attempt_eq_Inr_iff)
  have f: "sd_facts s1 = sd_facts s" using upsert_file_rows(1)[OF s1(1)] assms(3) by (simp add: projection_of_def)
  have q: "q \<in> set (file_entries (sd_facts s))" "a = acl_of (fe_owner_id q) (sd_facts s)" "object_by_id (fe_object_id q) (sd_facts s) = Some b"
    using Cons.prems(1) eb by auto
  have ok1: "search_ok ep s1" using upsert_keeps_ok[OF Cons.prems(2) s1(1) assms(1) q(1) assms(3)] q(2) by simp
  have "\<exists>r \<in> set (sd_files s1). reflects p (sd_facts s1) e r"
    if "e \<in> set (file_entries (sd_facts s))" "e = q \<or> (\<exists>r \<in> set (sd_files s). reflects p (sd_facts s) e r)" for e
    using upsert_keeps_reflects[OF Cons.prems(2) s1(1) assms(1) q that] f by simp
  then show ?case using Cons.IH[OF _ ok1 s1(2)] Cons.prems(1) f eb by auto
qed simp

lemma project_owner_ok:
  assumes "search_ok ep s" "project_owner p cx owner s = Inr s'" "pj_index_epoch p = ep (pj_target p)"
  shows "search_ok ep s'"
    "e \<in> set (file_entries (sd_facts s)) \<Longrightarrow> fe_owner_id e = owner \<Longrightarrow> \<exists>r \<in> set (sd_files s'). reflects p (sd_facts s) e r"
proof -
  obtain e1 d where c: "current_epoch owner (sd_facts s) = Inr (e1, d)"
    "each_result (\<lambda>eb. upsert_file cx (projection_of p (ep_acl_epoch e1) False eb)) (owner_sources d owner) (s\<lparr>sd_facts := d\<rparr>) = Inr s'"
    using assms(2) by (auto simp: project_owner_def attempt_eq_Inr_iff)
  note f = current_epoch_facts[OF c(1)]
  have so: "search_ok ep (s\<lparr>sd_facts := d\<rparr>)" by (rule search_ok_facts[OF assms(1) c(1)])
  have pos: "0 < ep_acl_epoch e1" using f(1,2) so by (simp add: search_ok_def facts_ok_def)
  have object: "object_by_id (fo_id b) d = Some b" if "b \<in> set (file_objects d)" for b
    using so that find_by_key[of fo_id "file_objects d" "fo_id b" b] by (simp add: search_ok_def facts_ok_def object_by_id_def)
  have sources: "\<forall>(q, b) \<in> set (owner_sources d owner). q \<in> set (file_entries (sd_facts (s\<lparr>sd_facts := d\<rparr>))) \<and>
      ep_acl_epoch e1 = acl_of (fe_owner_id q) (sd_facts (s\<lparr>sd_facts := d\<rparr>)) \<and>
      object_by_id (fe_object_id q) (sd_facts (s\<lparr>sd_facts := d\<rparr>)) = Some b"
    using f(1,2) object by (auto simp: owner_sources_def) (metis object)+
  note each = each_upsert_ok[OF assms(3) sources pos so c(2)]
  show "search_ok ep s'" using each by simp
  show "\<exists>r \<in> set (sd_files s'). reflects p (sd_facts s) e r" if e: "e \<in> set (file_entries (sd_facts s))" "fe_owner_id e = owner"
  proof -
    obtain b where b: "object_by_id (fe_object_id e) (sd_facts s) = Some b" using assms(1) e(1) by (auto simp: search_ok_def facts_ok_def)
    from find_SomeD[OF this[unfolded object_by_id_def]] have "e \<in> fst ` set (owner_sources d owner)"
      using e f(3,4) by (force simp: owner_sources_def)
    then have "\<exists>r \<in> set (sd_files s'). reflects p d e r" using each e(1) f(3) by simp
    moreover have same: "object_by_id (fe_object_id e) d = object_by_id (fe_object_id e) (sd_facts s)" using f(4) by (simp add: object_by_id_def)
    ultimately show ?thesis unfolding reflects_def f(1) same by blast
  qed
qed

lemma object_projection_files:
  "project_object_chunks p cx oid ids s = Inr s' \<Longrightarrow> sd_files s' = sd_files s \<and> sd_facts s' = sd_facts s"
proof -
  assume a: "project_object_chunks p cx oid ids s = Inr s'"
  have each: "sd_files y = sd_files x \<and> sd_facts y = sd_facts x"
    if "each_result (\<lambda>cv. upsert_content cx (chunk_projection p oid cv)) cs x = Inr y" for cs x y
    using that
  proof (induction cs arbitrary: x)
    case (Cons c cs)
    obtain x1 where x1: "upsert_content cx (chunk_projection p oid c) x = Inr x1"
      "each_result (\<lambda>cv. upsert_content cx (chunk_projection p oid cv)) cs x1 = Inr y"
      using Cons.prems by (auto simp: attempt_eq_Inr_iff)
    have "sd_files x1 = sd_files x \<and> sd_facts x1 = sd_facts x" using x1(1) by (auto simp: upsert_content_def Let_def split: if_splits)
    then show ?case using Cons.IH[OF x1(2)] by simp
  qed simp
  have "sd_files (retire_superseded p oid v s) = sd_files s" "sd_facts (retire_superseded p oid v s) = sd_facts s" for v
    by (simp_all add: retire_superseded_def split: option.split)
  then show ?thesis using a
    by (auto simp: project_object_chunks_def Let_def tombstone_object_content_def dest: each split: option.splits if_splits)
qed

section \<open>Late events do no harm, the next one repairs\<close>

definition named_file :: "string \<Rightarrow> jfields \<Rightarrow> search_db \<Rightarrow> uuid" where
  "named_file ev fs s = (if ev \<in> share_events then (case get_uuid ''share_id'' fs of None \<Rightarrow> 0 | Some sid \<Rightarrow> event_entry sid s)
     else (case get_uuid ''file_entry_id'' fs of None \<Rightarrow> 0 | Some fid \<Rightarrow> fid))"

text \<open>An event tells of the past: a file it says deleted is deleted, an ACL epoch it carries has been reached.\<close>

definition event_past :: "string \<Rightarrow> jfields \<Rightarrow> search_db \<Rightarrow> bool" where
  "event_past ev fs s \<longleftrightarrow> (\<forall>e \<in> set (file_entries (sd_facts s)). fe_id e = named_file ev fs s \<longrightarrow>
     (ev = event_file_deleted \<longrightarrow> fe_deleted_at e \<noteq> None) \<and>
     (\<forall>a. ev \<in> insert event_share_created share_events \<longrightarrow> get_int ''acl_epoch'' fs = Some a \<longrightarrow> a \<le> acl_of (fe_owner_id e) (sd_facts s)))"

lemma project_share_ok:
  assumes "search_ok ep s" "project_share p cx ev fs s = Inr s'" "pj_index_epoch p = ep (pj_target p)" "event_past ev fs s"
    "ev \<in> insert event_share_created share_events"
  shows "search_ok ep s'"
proof -
  have ne: "event_share_created \<notin> share_events" by (simp add: share_events_def)
  show ?thesis
  proof (cases "ev = event_share_created")
    case True
    then obtain fid acl where f: "get_uuid ''file_entry_id'' fs = Some fid" "get_int ''acl_epoch'' fs = Some acl"
      "project_file_with_acl p cx fid False acl s = Inr s'"
      using assms(2) by (auto simp: project_share_def unmarshal_share_created_def bind_eq_Some_conv split: option.splits payload.splits if_splits)
    show ?thesis using assms(4) True f(1,2) ne by (intro project_file_ok(1)[OF assms(1) f(3) assms(3)]) (auto simp: event_past_def named_file_def)
  next
    case False
    then have ev: "ev \<in> share_events" using assms(5) by simp
    obtain sid acl where f: "get_uuid ''share_id'' fs = Some sid" "get_int ''acl_epoch'' fs = Some acl"
      "(if event_entry sid s = 0 then Inr s else project_file_with_acl p cx (event_entry sid s) False acl s) = Inr s'"
      using assms(2) False by (auto simp: project_share_def unmarshal_share_updated_def bind_eq_Some_conv split: option.splits payload.splits if_splits)
    show ?thesis
    proof (cases "event_entry sid s = 0")
      case nz: False
      then have "project_file_with_acl p cx (event_entry sid s) False acl s = Inr s'" using f(3) by simp
      from project_file_ok(1)[OF assms(1) this assms(3)] show ?thesis
        using assms(4) ev f(1,2) by (auto simp: event_past_def named_file_def)
    qed (use f(3) assms(1) in simp)
  qed
qed

lemma project_ok:
  assumes "search_ok ep s" "project p cx ev agg fs s = Inr s'" "pj_index_epoch p = ep (pj_target p)" "event_past ev fs s"
  shows "search_ok ep s'"
proof -
  consider (filed) "ev \<in> file_events" | (gone) "ev = event_file_deleted" "ev \<notin> file_events"
    | (share) "ev \<in> insert event_share_created share_events" "ev \<notin> file_events" "ev \<noteq> event_file_deleted"
    | (folder) "ev \<in> folder_events" "ev \<notin> insert event_share_created share_events" "ev \<notin> file_events" "ev \<noteq> event_file_deleted"
    | (rest) "ev \<notin> folder_events" "ev \<notin> insert event_share_created share_events" "ev \<notin> file_events" "ev \<noteq> event_file_deleted"
    by blast
  then show ?thesis
  proof cases
    case filed
    then obtain fid where f: "project_file_with_acl p cx fid False 0 s = Inr s'"
      using assms(2) by (auto simp: project_def project_file_def split: option.splits if_splits)
    have "0 \<le> acl_of owner (sd_facts s)" for owner using assms(1) by (simp add: search_ok_def facts_ok_def less_imp_le)
    then show ?thesis by (intro project_file_ok(1)[OF assms(1) f assms(3)])
  next
    case gone
    then obtain fid where f: "get_uuid ''file_entry_id'' fs = Some fid" "s' = tombstone_file backend_postgres fid (aggregate_or_forever agg) s"
      using assms(2) by (auto simp: project_def project_deleted_def unmarshal_file_deleted_def bind_eq_Some_conv split: option.splits payload.splits if_splits)
    have "ev \<notin> share_events" using gone by (simp add: share_events_def)
    then show ?thesis unfolding f(2) using assms(4) gone f(1)
      by (intro tombstone_keeps_ok[OF assms(1)]) (auto simp: event_past_def named_file_def)
  next
    case share
    then have "project_share p cx ev fs s = Inr s'" using assms(2) by (auto simp: project_def)
    from project_share_ok[OF assms(1) this assms(3,4) share(1)] show ?thesis .
  next
    case folder
    then obtain owner where "project_owner p cx owner s = Inr s'"
      using assms(2) by (auto simp: project_def split: option.splits if_splits)
    from project_owner_ok(1)[OF assms(1) this assms(3)] show ?thesis .
  next
    case rest
    then have "sd_files s' = sd_files s \<and> sd_facts s' = sd_facts s"
      using assms(2) by (auto simp: project_def project_object_def dest: object_projection_files split: option.splits if_splits)
    then show ?thesis using assms(1) by (simp add: search_ok_def)
  qed
qed

text \<open>Business transactions, projections for any target, and everything that leaves the file rows alone.\<close>

inductive search_step :: "(string \<Rightarrow> int) \<Rightarrow> search_db \<Rightarrow> search_db \<Rightarrow> bool" for ep where
  business: "facts_advance (sd_facts s) d \<Longrightarrow> search_step ep s (s\<lparr>sd_facts := d\<rparr>)"
| projection: "pj_index_epoch p = ep (pj_target p) \<Longrightarrow> event_past ev fs s \<Longrightarrow> project p cx ev agg fs s = Inr s' \<Longrightarrow> search_step ep s s'"
| other: "sd_facts s' = sd_facts s \<Longrightarrow> sd_files s' = sd_files s \<Longrightarrow> search_step ep s s'"

lemma facts_advance_ok:
  assumes "search_ok ep s" "facts_advance (sd_facts s) d"
  shows "search_ok ep (s\<lparr>sd_facts := d\<rparr>)"
proof -
  have "row_past ep d r" if r: "row_past ep (sd_facts s) r" for r
  proof -
    obtain e where e: "e \<in> set (file_entries (sd_facts s))" "fe_id e = fp_file_entry_id r" "fp_tombstone r \<Longrightarrow> fe_deleted_at e \<noteq> None"
      "\<not> fp_tombstone r \<Longrightarrow> fp_file_version r \<le> fe_version e" "fp_acl_version r \<le> acl_of (fe_owner_id e) (sd_facts s)"
      "fp_index_epoch r \<le> ep (fp_target r)" using r by (auto simp: row_past_def)
    obtain e' where e': "e' \<in> set (file_entries d)" "fe_id e' = fe_id e" "fe_owner_id e' = fe_owner_id e" "fe_version e \<le> fe_version e'"
      "fe_deleted_at e \<noteq> None \<Longrightarrow> fe_deleted_at e' \<noteq> None" using assms(2) e(1) unfolding facts_advance_def by metis
    have "acl_of (fe_owner_id e) (sd_facts s) \<le> acl_of (fe_owner_id e') d" using assms(2) e'(3) by (simp add: facts_advance_def)
    then have "fp_acl_version r \<le> acl_of (fe_owner_id e') d" using e(5) by linarith
    moreover have "\<not> fp_tombstone r \<Longrightarrow> fp_file_version r \<le> fe_version e'" using e(4) e'(4) by linarith
    ultimately show ?thesis using e(2,3,6) e'(1,2,5) unfolding row_past_def by metis
  qed
  then show ?thesis using assms by (auto simp: search_ok_def facts_advance_def)
qed

lemma search_step_ok: "search_step ep s s' \<Longrightarrow> search_ok ep s \<Longrightarrow> search_ok ep s'"
proof (induction rule: search_step.induct)
  case (business s d)
  then show ?case using facts_advance_ok by blast
next
  case (projection p ev fs s cx agg s')
  then show ?case using project_ok by blast
next
  case (other s' s)
  then show ?case by (simp add: search_ok_def)
qed

lemma search_steps_ok: "(search_step ep)\<^sup>*\<^sup>* s s' \<Longrightarrow> search_ok ep s \<Longrightarrow> search_ok ep s'"
  by (induction rule: rtranclp_induct) (auto dest: search_step_ok)

text \<open>The events whose projection brings a file's row up to date: the file's own, a share event of the file that
  carries its owner's present ACL epoch (or none), and any folder event of its owner.\<close>

definition repairs :: "search_db \<Rightarrow> string \<Rightarrow> jfields \<Rightarrow> file_entry \<Rightarrow> bool" where
  "repairs s ev fs e \<longleftrightarrow>
     ev \<in> file_events \<and> get_uuid ''file_entry_id'' fs = Some (fe_id e) \<or>
     ev \<in> insert event_share_created share_events \<and> named_file ev fs s = fe_id e \<and>
       (\<exists>a. get_int ''acl_epoch'' fs = Some a \<and> (a \<le> 0 \<or> a = acl_of (fe_owner_id e) (sd_facts s))) \<or>
     ev \<in> folder_events \<and> get_uuid ''owner_id'' fs = Some (fe_owner_id e)"

lemma event_kinds:
  "event_share_created \<notin> file_events \<and> event_share_created \<noteq> event_file_deleted"
  "ev \<in> share_events \<Longrightarrow> ev \<notin> file_events \<and> ev \<noteq> event_file_deleted \<and> ev \<noteq> event_share_created"
  "ev \<in> folder_events \<Longrightarrow> ev \<notin> file_events \<and> ev \<noteq> event_file_deleted \<and> ev \<noteq> event_share_created \<and> ev \<notin> share_events"
  by (auto simp: file_events_def share_events_def folder_events_def)

lemma share_projection:
  assumes "project_share p cx ev fs s = Inr s'" "ev \<in> insert event_share_created share_events" "named_file ev fs s \<noteq> 0"
    "get_int ''acl_epoch'' fs = Some a"
  shows "project_file_with_acl p cx (named_file ev fs s) False a s = Inr s'"
proof (cases "ev = event_share_created")
  case True
  then show ?thesis using assms event_kinds(2)[of ev]
    by (auto simp: project_share_def named_file_def unmarshal_share_created_def bind_eq_Some_conv split: option.splits payload.splits if_splits)
next
  case False
  then show ?thesis using assms
    by (auto simp: project_share_def named_file_def unmarshal_share_updated_def bind_eq_Some_conv split: option.splits payload.splits if_splits)
qed

lemma repairs_reflects:
  assumes "search_ok ep s" "project p cx ev agg fs s = Inr s'" "pj_index_epoch p = ep (pj_target p)" "e \<in> set (file_entries (sd_facts s))"
    "repairs s ev fs e"
  shows "search_ok ep s'" "\<exists>r \<in> set (sd_files s'). reflects p (sd_facts s) e r"
proof -
  have pos: "0 < acl_of owner (sd_facts s)" for owner using assms(1) by (simp add: search_ok_def facts_ok_def)
  have id: "fe_id e \<noteq> 0" using assms(1,4) by (auto simp: search_ok_def facts_ok_def)
  have only: "q = e" if "q \<in> set (file_entries (sd_facts s))" "fe_id q = fe_id e" for q
    using key_unique[of fe_id "file_entries (sd_facts s)" q e] assms(1,4) that by (simp add: search_ok_def facts_ok_def)
  from assms(5) consider (filed) "ev \<in> file_events" "get_uuid ''file_entry_id'' fs = Some (fe_id e)"
    | (share) a where "ev \<in> insert event_share_created share_events" "named_file ev fs s = fe_id e" "get_int ''acl_epoch'' fs = Some a"
        "a \<le> 0 \<or> a = acl_of (fe_owner_id e) (sd_facts s)"
    | (folder) "ev \<in> folder_events" "get_uuid ''owner_id'' fs = Some (fe_owner_id e)"
    unfolding repairs_def by blast
  then have "search_ok ep s' \<and> (\<exists>r \<in> set (sd_files s'). reflects p (sd_facts s) e r)"
  proof cases
    case filed
    then have f: "project_file_with_acl p cx (fe_id e) False 0 s = Inr s'"
      using assms(2) by (auto simp: project_def project_file_def split: option.splits if_splits)
    show ?thesis using project_file_ok[OF assms(1) f assms(3)] pos assms(4) by (simp add: less_imp_le)
  next
    case share
    have "project_share p cx ev fs s = Inr s'" using assms(2) share(1) event_kinds by (auto simp: project_def)
    then have f: "project_file_with_acl p cx (fe_id e) False a s = Inr s'" using share_projection share(1-3) id by metis
    have past: "a \<le> acl_of (fe_owner_id q) (sd_facts s)" if "q \<in> set (file_entries (sd_facts s))" "fe_id q = fe_id e" for q
      using share(4) only[OF that] pos[of "fe_owner_id e"] by auto
    show ?thesis using project_file_ok[OF assms(1) f assms(3) past] share(4) assms(4) by blast
  next
    case folder
    then have "project_owner p cx (fe_owner_id e) s = Inr s'"
      using assms(2) event_kinds(3)[OF folder(1)] by (simp add: project_def split: if_splits)
    from project_owner_ok[OF assms(1) this assms(3)] show ?thesis using assms(4) by blast
  qed
  then show "search_ok ep s'" "\<exists>r \<in> set (sd_files s'). reflects p (sd_facts s) e r" by auto
qed

text \<open>C10: The file index repairs itself.  Start from an index that is not ahead of the facts, for instance an
  empty one, and let files change, be moved, deleted and shared while events of the past are projected late,
  repeatedly or in any order, for any generations, and while anything else happens that does not write file rows.
  Then the next projected event of the file (created, updated, imported), the next share event of the file that
  carries its owner's present ACL epoch or none, and the next folder event of its owner each leave exactly one
  PostgreSQL row for the file in the projector's generation, and that row is a tombstone if the file is deleted
  and otherwise carries the file's present name, folder, owner, object, type and version and its owner's present
  ACL epoch.  A share event with an older ACL epoch is not among them: the fence refuses it.\<close>

theorem next_event_repairs_projection:
  assumes "search_ok ep s0" "(search_step ep)\<^sup>*\<^sup>* s0 s" "pj_index_epoch p = ep (pj_target p)" "e \<in> set (file_entries (sd_facts s))"
    "repairs s ev fs e" "project p cx ev agg fs s = Inr s'"
  shows "\<exists>r \<in> set (sd_files s'). reflects p (sd_facts s) e r \<and>
    (\<forall>q \<in> set (sd_files s'). row_key q = (backend_postgres, pj_target p, fe_id e) \<longrightarrow> q = r)"
proof -
  have ok: "search_ok ep s" using search_steps_ok[OF assms(2,1)] .
  note rep = repairs_reflects[OF ok assms(6,3-5)]
  obtain r where r: "r \<in> set (sd_files s')" "reflects p (sd_facts s) e r" using rep(2) by blast
  have key: "row_key r = (backend_postgres, pj_target p, fe_id e)" using r(2) by (simp add: reflects_def)
  have only: "q = r" if "q \<in> set (sd_files s')" "row_key q = (backend_postgres, pj_target p, fe_id e)" for q
    using key_unique[of row_key "sd_files s'" q r] rep(1) that r(1) key by (simp add: search_ok_def)
  show ?thesis using r only by blast
qed

text \<open>A share event with the ACL epoch of the past arrives after a rename; the file event then repairs the row.\<close>

definition demo_epochs :: "string \<Rightarrow> int" where "demo_epochs g = 1"

definition late_share :: jfields where
  "late_share = put_uuid ''owner_id'' 5 @ put_uuid ''share_id'' 9 @ put_uuid ''file_entry_id'' 11 @ put_int_omit ''acl_epoch'' 1"

definition renamed :: jfields where
  "renamed = put_uuid ''owner_id'' 5 @ put_uuid ''file_entry_id'' 11 @ put_uuid ''object_id'' 7"

definition after_share :: search_db where
  "after_share = (case project demo_projector gen_ctx event_share_created None late_share demo_db of Inr s \<Rightarrow> s | Inl e \<Rightarrow> demo_db)"

definition after_rename :: search_db where
  "after_rename = (case project demo_projector gen_ctx event_file_updated None renamed after_share of Inr s \<Rightarrow> s | Inl e \<Rightarrow> after_share)"

lemma demo_ok: "search_ok demo_epochs demo_db"
proof -
  have "acl_of owner (sd_facts demo_db) = 1" for owner
    by (simp add: demo_db_def acl_of_def epoch_of_def epoch_row_def)
  then show ?thesis
    by (simp add: search_ok_def facts_ok_def demo_db_def gen_db_def empty_db_def demo_entry_def demo_object_def object_by_id_def key_distinct_def)
qed

lemma demo_projects:
  "is_ok (project demo_projector gen_ctx event_share_created None late_share demo_db)"
  "is_ok (project demo_projector gen_ctx event_file_updated None renamed after_share)"
  by code_simp+

lemma next_event_repairs_projection_witness:
  "\<exists>r \<in> set (sd_files after_rename). row_key r = (backend_postgres, ''v1'', 11) \<and> fp_file_version r = 3 \<and>
    fp_mime_type r = fo_mime_type demo_object \<and> \<not> fp_tombstone r"
proof -
  have p1: "project demo_projector gen_ctx event_share_created None late_share demo_db = Inr after_share"
    using demo_projects(1) unfolding after_share_def
    by (cases "project demo_projector gen_ctx event_share_created None late_share demo_db") simp_all
  have p2: "project demo_projector gen_ctx event_file_updated None renamed after_share = Inr after_rename"
    using demo_projects(2) unfolding after_rename_def
    by (cases "project demo_projector gen_ctx event_file_updated None renamed after_share") simp_all
  have past: "event_past event_share_created late_share demo_db"
    by (simp add: event_past_def late_share_def demo_db_def acl_of_def epoch_of_def epoch_row_def demo_entry_def put_uuid_def
        put_int_omit_def get_int_def)
  have pj: "pj_index_epoch demo_projector = demo_epochs (pj_target demo_projector)" by (simp add: demo_projector_def demo_epochs_def)
  have steps: "(search_step demo_epochs)\<^sup>*\<^sup>* demo_db after_share"
    using search_step.projection[where ep = demo_epochs, OF pj past p1] by blast
  have e: "demo_entry \<in> set (file_entries (sd_facts after_share))" by code_simp
  have "repairs after_share event_file_updated renamed demo_entry"
    by (simp add: repairs_def file_events_def renamed_def put_uuid_def get_uuid_def demo_entry_def)
  from next_event_repairs_projection[OF demo_ok steps pj e this p2]
  obtain r where "r \<in> set (sd_files after_rename)" "reflects demo_projector (sd_facts after_share) demo_entry r" by blast
  moreover have "object_by_id (fe_object_id demo_entry) (sd_facts after_share) = Some demo_object" by code_simp
  ultimately show ?thesis unfolding reflects_def by (intro bexI[of _ r]) (simp_all add: demo_projector_def demo_entry_def)
qed

end
