(* ===== verification/Backfill.thy ===== *)
theory Backfill
  imports SearchFlow
begin

text \<open>
  The snapshots of \<open>search/projector.go\<close> and the scan of \<open>search/backfill.go\<close>: a generation is rebuilt page by page in
  the order of identifiers, each file in a transaction of its own, while the live projector keeps working.
\<close>

section \<open>Snapshots\<close>

text \<open>\<open>env fid\<close> surrounds the transaction and the publication of one file, \<open>env 0\<close> the query of the page.\<close>

definition after_cursor :: "uuid \<Rightarrow> uuid \<Rightarrow> bool" where
  "after_cursor after i \<longleftrightarrow> after = 0 \<or> after < i"

definition page_limit :: "int \<Rightarrow> nat" where
  "page_limit batch = (if batch \<le> 0 then 100 else nat batch)"

definition file_page :: "uuid \<Rightarrow> nat \<Rightarrow> db \<Rightarrow> uuid list" where
  "file_page after n d = take n (sort (map fe_id (filter (\<lambda>e. object_by_id (fe_object_id e) d \<noteq> None \<and> after_cursor after (fe_id e))
     (file_entries d))))"

definition file_event :: "uuid \<Rightarrow> search_envelope" where
  "file_event fid = \<lparr> se_event_id = 0, se_event_type = event_file_updated, se_aggregate_version = None,
     se_payload = [(''file_entry_id'', JUuid fid)] \<rparr>"

definition publish_if_external :: "projector \<Rightarrow> handle_env \<Rightarrow> search_envelope \<Rightarrow> search_db \<Rightarrow> go_error option" where
  "publish_if_external p env ev s = (if pj_backends p = None then None else fst (publish_external p env ev s))"

primrec snapshot_files :: "projector \<Rightarrow> (uuid \<Rightarrow> handle_env) \<Rightarrow> uuid list \<Rightarrow> search_db \<Rightarrow> go_error option \<times> search_db" where
  "snapshot_files p env [] s = (None, s)"
| "snapshot_files p env (fid # fids) s =
     (case commit (env fid) 2 (project_file p (he_ctx (env fid)) fid False) s of
        (Some e, s1) \<Rightarrow> (Some e, s1)
      | (None, s1) \<Rightarrow>
          (let s2 = he_others (env fid) 4 s1 in
           case publish_if_external p (env fid) (file_event fid) s2 of
             Some e \<Rightarrow> (Some e, s2)
           | None \<Rightarrow> snapshot_files p env fids s2))"

definition snapshot :: "projector \<Rightarrow> (uuid \<Rightarrow> handle_env) \<Rightarrow> uuid \<Rightarrow> int \<Rightarrow> search_db \<Rightarrow> (uuid \<times> nat) result \<times> search_db" where
  "snapshot p env after batch s =
     (let s0 = he_others (env 0) 0 s in
      case he_fail (env 0) 0 of
        Some e \<Rightarrow> (Inl e, s0)
      | None \<Rightarrow>
          (let page = file_page after (page_limit batch) (sd_facts s0) in
           case snapshot_files p env page s0 of
             (Some e, s1) \<Rightarrow> (Inl e, s1)
           | (None, s1) \<Rightarrow> (Inr (if page = [] then (after, 0) else (last page, length page)), s1)))"

text \<open>Content: the page of chunk identifiers grouped by object; Go walks the groups in any \<open>order\<close>.\<close>

definition chunk_page :: "uuid \<Rightarrow> nat \<Rightarrow> search_db \<Rightarrow> (uuid \<times> uuid) list" where
  "chunk_page after n s = take n (sort_key fst [(ck_id c, dc_object_id d). c \<leftarrow> sd_chunks s, d \<leftarrow> sd_documents s, dc_id d = ck_document_id c,
     v \<leftarrow> sd_doc_versions s, dv_id v = ck_document_version_id c \<and> dv_status v = ''indexed'' \<and>
       dc_active_version_id d = Some (dv_id v) \<and> after_cursor after (ck_id c)])"

primrec snapshot_groups :: "projector \<Rightarrow> (uuid \<Rightarrow> handle_env) \<Rightarrow> (uuid \<times> uuid) list \<Rightarrow> uuid list \<Rightarrow> search_db \<Rightarrow> go_error option \<times> search_db" where
  "snapshot_groups p env page [] s = (None, s)"
| "snapshot_groups p env page (oid # oids) s =
     (let ids = map fst (filter (\<lambda>c. snd c = oid) page) in
      case commit (env oid) 2 (project_object_chunks p (he_ctx (env oid)) oid ids) s of
        (Some e, s1) \<Rightarrow> (Some e, s1)
      | (None, s1) \<Rightarrow>
          (let s2 = he_others (env oid) 4 s1;
               rows = filter (\<lambda>r. cp_backend r = backend_postgres \<and> cp_target r = pj_target p \<and> cp_chunk_id r \<in> set ids) (sd_content s2);
               err = (if pj_backends p = None then None
                 else if he_fail (env oid) 4 \<noteq> None then he_fail (env oid) 4
                 else fst (run_calls (he_reply (env oid)) 0 (map (UpsertContent \<circ> published_content) rows)))
           in case err of Some e \<Rightarrow> (Some e, s2) | None \<Rightarrow> snapshot_groups p env page oids s2))"

definition snapshot_content :: "projector \<Rightarrow> (uuid \<Rightarrow> handle_env) \<Rightarrow> (uuid list \<Rightarrow> uuid list) \<Rightarrow> uuid \<Rightarrow> int \<Rightarrow> search_db \<Rightarrow>
    (uuid \<times> nat) result \<times> search_db" where
  "snapshot_content p env order after batch s =
     (let s0 = he_others (env 0) 0 s in
      case he_fail (env 0) 0 of
        Some e \<Rightarrow> (Inl e, s0)
      | None \<Rightarrow>
          (let page = chunk_page after (page_limit batch) s0 in
           case snapshot_groups p env page (order (remdups (map snd page))) s0 of
             (Some e, s1) \<Rightarrow> (Inl e, s1)
           | (None, s1) \<Rightarrow> (Inr (if page = [] then (after, 0) else (fst (last page), length page)), s1)))"

definition repair_object :: "projector \<Rightarrow> handle_env \<Rightarrow> uuid \<Rightarrow> search_db \<Rightarrow> go_error option \<times> search_db" where
  "repair_object p env oid s =
     (if oid = 0 then (Some err_invalid_index_version, s)
      else case commit env 2 (project_object p (he_ctx env) oid) s of
        (Some e, s1) \<Rightarrow> (Some e, s1)
      | (None, s1) \<Rightarrow>
          (let s2 = he_others env 4 s1 in
           (publish_if_external p env \<lparr> se_event_id = 0, se_event_type = event_ai_indexed, se_aggregate_version = None,
              se_payload = [(''object_id'', JUuid oid)] \<rparr> s2, s2)))"

section \<open>The scan of a backfill\<close>

primrec start_all :: "ctx \<Rightarrow> string \<Rightarrow> string \<Rightarrow> int \<Rightarrow> string list \<Rightarrow> search_db \<Rightarrow> (index_version list \<times> search_db) result" where
  "start_all cx ptype tgt epoch [] s = Inr ([], s)"
| "start_all cx ptype tgt epoch (b # bs) s =
     attempt (start_version cx b ptype tgt epoch s) (\<lambda>(v, s1).
     attempt (start_all cx ptype tgt epoch bs s1) (\<lambda>(vs, s2). Inr (v # vs, s2)))"

text \<open>\<open>ensureBackfillVersions\<close>: the canonical rows of both projections and all rows.\<close>

definition canonical :: "index_version list \<Rightarrow> index_version option" where
  "canonical vs = find (\<lambda>v. iv_backend v = backend_postgres) (rev vs)"

definition ensure_backfill_versions :: "ctx \<Rightarrow> projector \<Rightarrow> search_db \<Rightarrow>
    ((index_version option \<times> index_version option \<times> index_version list) \<times> search_db) result" where
  "ensure_backfill_versions cx p s =
     (let backends = backend_postgres # (case pj_backends p of None \<Rightarrow> [] | Some bs \<Rightarrow> bs);
          existing = filter (\<lambda>v. iv_target v = pj_target p) (sd_versions s) in
      if existing \<noteq> [] \<and> (length existing \<noteq> 2 * card (set backends) \<or> \<not> list_all (\<lambda>v. iv_backend v \<in> set backends) existing)
      then Inl err_index_version_conflict
      else attempt (start_all cx projection_file (pj_target p) (pj_index_epoch p) backends s) (\<lambda>(files, s1).
        attempt (start_all cx projection_content (pj_target p) (pj_index_epoch p) backends s1) (\<lambda>(contents, s2).
        Inr ((canonical files, canonical contents, files @ contents), s2))))"

definition persist_backfill_progress :: "uuid \<Rightarrow> uuid \<Rightarrow> nat \<Rightarrow> search_db \<Rightarrow> search_db result" where
  "persist_backfill_progress vid cursor n s =
     update_version_cursor vid (Some cursor) (Some (int n)) (Some (''cursor:'' @ uuid_string cursor @ '';count:'' @ int_string (int n))) s"

definition fail_backfill_versions :: "bool \<Rightarrow> string \<Rightarrow> index_version list \<Rightarrow> search_db \<Rightarrow> search_db" where
  "fail_backfill_versions permanent message vs s =
     fold (\<lambda>v x. case fail_version permanent message (iv_id v) x of Inl e \<Rightarrow> x | Inr y \<Rightarrow> y) vs s"

text \<open>The loop over file pages: \<open>envs\<close> has what surrounds each turn; when it is used up the loop still runs.\<close>

datatype scan_end = ScanDone uuid nat | ScanFailed go_error | ScanRunning uuid nat

primrec scan_files :: "projector \<Rightarrow> (uuid \<Rightarrow> handle_env) list \<Rightarrow> int \<Rightarrow> uuid \<Rightarrow> index_version list \<Rightarrow> uuid \<Rightarrow> nat \<Rightarrow> search_db \<Rightarrow>
    scan_end \<times> search_db" where
  "scan_files p [] batch vid vs cursor n s = (ScanRunning cursor n, s)"
| "scan_files p (env # envs) batch vid vs cursor n s =
     (let failed = (\<lambda>e x. (ScanFailed e, fail_backfill_versions (errors_is e err_search_permanent) (limit_error (he_error_text (env 0) e)) vs x)) in
      case snapshot p env cursor batch s of
        (Inl e, s1) \<Rightarrow> failed e s1
      | (Inr (after, k), s1) \<Rightarrow>
          if k = 0 then (ScanDone cursor n, s1)
          else (case commit (env 0) 8 (persist_backfill_progress vid after (n + k)) s1 of
            (Some e, s2) \<Rightarrow> failed e s2
          | (None, s2) \<Rightarrow> scan_files p envs batch vid vs after (n + k) s2))"

section \<open>No file is left out\<close>

definition has_row :: "projector \<Rightarrow> uuid \<Rightarrow> search_db \<Rightarrow> bool" where
  "has_row p fid s \<longleftrightarrow> (backend_postgres, pj_target p, fid) \<in> row_key ` set (sd_files s)"

definition file_ids :: "search_db \<Rightarrow> uuid set" where
  "file_ids s = fe_id ` set (file_entries (sd_facts s))"

text \<open>Rows and files are never removed.\<close>

definition grows :: "search_db \<Rightarrow> search_db \<Rightarrow> bool" where
  "grows s s' \<longleftrightarrow> row_key ` set (sd_files s) \<subseteq> row_key ` set (sd_files s') \<and> file_ids s \<subseteq> file_ids s'"

lemma grows_refl: "grows s s"
  by (simp add: grows_def)

lemma grows_trans: "grows s s1 \<Longrightarrow> grows s1 s2 \<Longrightarrow> grows s s2"
  unfolding grows_def by (meson subset_trans)

lemma grows_row: "grows s s' \<Longrightarrow> has_row p fid s \<Longrightarrow> has_row p fid s'"
  by (auto simp: grows_def has_row_def)

lemma update_keys:
  assumes "\<And>r. P r \<Longrightarrow> row_key (f r) = row_key r"
  shows "row_key ` set (update_where P f t) = row_key ` set t"
  using arg_cong[OF map_update_where[of P row_key f t, OF assms], of set] by simp

lemma upsert_grows: "upsert_file cx v s = Inr s' \<Longrightarrow> grows s s' \<and> sd_facts s' = sd_facts s"
proof -
  assume a: "upsert_file cx v s = Inr s'"
  let ?v = "if fp_acl_version v \<le> 0 then v\<lparr>fp_acl_version := 1\<rparr> else v"
  have key: "row_key ((file_row_of cx w)\<lparr>fr_id := i\<rparr>) = row_key r" if "same_file w r" for w r i
    using that by (simp add: row_key_def file_row_of_def file_projection.defs same_file_def)
  have "row_key ` set (update_where (\<lambda>r. same_file w r \<and> file_supersedes r (file_row_of cx w)) (\<lambda>r. (file_row_of cx w)\<lparr>fr_id := fr_id r\<rparr>) (sd_files s)) =
      row_key ` set (sd_files s)" for w
    by (rule update_keys) (simp add: key)
  then show ?thesis using a by (auto simp: upsert_file_def Let_def grows_def file_ids_def split: if_splits)
qed

lemma tombstone_grows: "grows s (tombstone_file b fid n s)"
  using update_keys[of "\<lambda>r. fp_backend r = b \<and> fp_file_entry_id r = fid \<and> fp_file_version r \<le> n"
      "\<lambda>r. r\<lparr>fp_tombstone := True, fr_state := ''tombstoned'', fp_file_version := n\<rparr>" "sd_files s"]
  by (simp add: grows_def tombstone_file_def file_ids_def row_key_def)

lemma epoch_grows: "current_epoch owner (sd_facts s) = Inr (e, d) \<Longrightarrow> grows s (s\<lparr>sd_facts := d\<rparr>)"
  using current_epoch_facts(3)[of owner "sd_facts s" e d] by (simp add: grows_def file_ids_def)

lemma project_file_grows: "project_file_with_acl p cx fid t acl s = Inr s' \<Longrightarrow> grows s s'"
proof -
  assume a: "project_file_with_acl p cx fid t acl s = Inr s'"
  show ?thesis
  proof (cases "file_source (sd_facts s) fid")
    case None
    then show ?thesis using a tombstone_grows by (auto simp: project_file_with_acl_def)
  next
    case (Some eb)
    have a': "(if fe_id (fst eb) = 0 then Inr (tombstone_file backend_postgres fid forever s)
          else attempt (if 0 < acl then Inr (acl, s)
            else attempt (current_epoch (fe_owner_id (fst eb)) (sd_facts s)) (\<lambda>(ep, d). Inr (ep_acl_epoch ep, s\<lparr>sd_facts := d\<rparr>)))
          (\<lambda>(a, s1). upsert_file cx (projection_of p a t eb) s1)) = Inr s'"
      using a Some by (simp only: project_file_with_acl_def option.case)
    consider (gone) "fe_id (fst eb) = 0" | (given) "fe_id (fst eb) \<noteq> 0" "0 < acl" | (read) "fe_id (fst eb) \<noteq> 0" "\<not> 0 < acl" by blast
    then show ?thesis
    proof cases
      case gone
      then show ?thesis using a' tombstone_grows[of s backend_postgres fid forever] by simp
    next
      case given
      then have "upsert_file cx (projection_of p acl t eb) s = Inr s'" using a' by simp
      then show ?thesis using upsert_grows by blast
    next
      case read
      then obtain ep1 d where 3: "current_epoch (fe_owner_id (fst eb)) (sd_facts s) = Inr (ep1, d)"
          "upsert_file cx (projection_of p (ep_acl_epoch ep1) t eb) (s\<lparr>sd_facts := d\<rparr>) = Inr s'"
        using a' by (cases "current_epoch (fe_owner_id (fst eb)) (sd_facts s)") auto
      show ?thesis by (rule grows_trans[OF epoch_grows[OF 3(1)] upsert_grows[OF 3(2), THEN conjunct1]])
    qed
  qed
qed

lemma each_upsert_grows:
  "each_result (\<lambda>eb. upsert_file cx (g eb)) ebs s = Inr s' \<Longrightarrow> grows s s'"
proof (induction ebs arbitrary: s)
  case (Cons eb ebs)
  then obtain s1 where "upsert_file cx (g eb) s = Inr s1" "each_result (\<lambda>eb. upsert_file cx (g eb)) ebs s1 = Inr s'"
    by (auto simp: attempt_eq_Inr_iff)
  then show ?case using Cons.IH[of s1] upsert_grows[of cx "g eb" s s1] grows_trans[of s s1 s'] by simp
qed (simp add: grows_refl)

lemma project_grows:
  assumes "project p cx ev agg fs s = Inr s'"
  shows "grows s s'"
proof -
  have owner: "grows s s'" if h: "project_owner p cx owner s = Inr s'" for owner
  proof -
    obtain e d where c: "current_epoch owner (sd_facts s) = Inr (e, d)"
      "each_result (\<lambda>eb. upsert_file cx (projection_of p (ep_acl_epoch e) False eb)) (owner_sources d owner) (s\<lparr>sd_facts := d\<rparr>) = Inr s'"
      using h by (auto simp: project_owner_def attempt_eq_Inr_iff)
    show ?thesis by (rule grows_trans[OF epoch_grows[OF c(1)] each_upsert_grows[OF c(2)]])
  qed
  have object: "grows s s'" if "project_object p cx oid s = Inr s'" for oid
    using object_projection_files[of p cx oid "[]" s s'] that by (simp add: project_object_def grows_def file_ids_def)
  show ?thesis using assms owner object
    by (auto simp: project_def project_file_def project_deleted_def project_share_def grows_refl
        intro: project_file_grows tombstone_grows split: if_splits option.splits payload.splits)
qed

lemma search_step_grows: "search_step ep s s' \<Longrightarrow> grows s s'"
proof (induction rule: search_step.induct)
  case (business s d)
  then show ?case unfolding grows_def file_ids_def facts_advance_def by (simp add: image_subset_iff) (metis imageI)
next
  case (projection p ev fs s cx agg s')
  then show ?case using project_grows by blast
next
  case (other s' s)
  then show ?case by (simp add: grows_def file_ids_def)
qed

lemma search_steps_grow: "(search_step ep)\<^sup>*\<^sup>* s s' \<Longrightarrow> grows s s'"
  by (induction rule: rtranclp_induct) (auto intro: grows_refl grows_trans search_step_grows)

text \<open>The transaction of one file is the projection of an update event that names it.\<close>

definition file_fields :: "uuid \<Rightarrow> jfields" where
  "file_fields fid = [(''owner_id'', JUuid 1), (''file_entry_id'', JUuid fid)]"

lemma project_file_step:
  assumes "project_file p cx fid False s = Inr s'" "fid \<noteq> 0" "pj_index_epoch p = ep (pj_target p)"
  shows "search_step ep s s'"
proof (rule search_step.projection[where ep = ep, OF assms(3)])
  show "project p cx event_file_updated None (file_fields fid) s = Inr s'"
    using assms(1,2) by (simp add: project_def file_events_def file_fields_def get_uuid_def)
  show "event_past event_file_updated (file_fields fid) s"
    by (simp add: event_past_def share_events_def)
qed

definition quiet_env :: "(string \<Rightarrow> int) \<Rightarrow> (uuid \<Rightarrow> handle_env) \<Rightarrow> bool" where
  "quiet_env ep env \<longleftrightarrow> (\<forall>i n x. (search_step ep)\<^sup>*\<^sup>* x (he_others (env i) n x))"

lemma file_projected:
  assumes "search_ok ep s" "fid \<in> file_ids s" "pj_index_epoch p = ep (pj_target p)" "project_file p cx fid False s = Inr s'"
  shows "has_row p fid s'"
proof -
  obtain e where e: "e \<in> set (file_entries (sd_facts s))" "fe_id e = fid" using assms(2) by (auto simp: file_ids_def)
  have a: "0 \<le> acl_of owner (sd_facts s)" for owner using assms(1) by (simp add: search_ok_def facts_ok_def less_imp_le)
  obtain r where "r \<in> set (sd_files s')" "reflects p (sd_facts s) e r"
    using project_file_ok(2)[OF assms(1) _ assms(3) a _ e] assms(4) by (auto simp: project_file_def)
  then show ?thesis using e(2) by (force simp: has_row_def reflects_def)
qed

lemma snapshot_files_cover:
  assumes "quiet_env ep env" "pj_index_epoch p = ep (pj_target p)"
  shows "snapshot_files p env fids s = (None, s') \<Longrightarrow> search_ok ep s \<Longrightarrow> set fids \<subseteq> file_ids s \<Longrightarrow>
    (search_step ep)\<^sup>*\<^sup>* s s' \<and> (\<forall>fid \<in> set fids. has_row p fid s')"
proof (induction fids arbitrary: s)
  case (Cons fid fids)
  let ?env = "env fid"
  let ?s0 = "he_others ?env 2 s"
  obtain s1 where c: "commit ?env 2 (project_file p (he_ctx ?env) fid False) s = (None, s1)"
    "publish_if_external p ?env (file_event fid) (he_others ?env 4 s1) = None"
    "snapshot_files p env fids (he_others ?env 4 s1) = (None, s')"
    using Cons.prems(1) by (auto simp: Let_def split: prod.splits option.splits)
  have p: "project_file p (he_ctx ?env) fid False ?s0 = Inr s1" using c(1) by (rule commit_cases) simp_all
  have st0: "(search_step ep)\<^sup>*\<^sup>* s ?s0" using assms(1) by (simp add: quiet_env_def)
  have ok0: "search_ok ep ?s0" by (rule search_steps_ok[OF st0 Cons.prems(2)])
  have id0: "fid \<in> file_ids ?s0" using search_steps_grow[OF st0] Cons.prems(3) by (auto simp: grows_def)
  have "fid \<noteq> 0" using ok0 id0 by (auto simp: search_ok_def facts_ok_def file_ids_def)
  then have st1: "search_step ep ?s0 s1" using project_file_step[where ep = ep, OF p _ assms(2)] by simp
  have st2: "(search_step ep)\<^sup>*\<^sup>* s1 (he_others ?env 4 s1)" using assms(1) by (simp add: quiet_env_def)
  have st: "(search_step ep)\<^sup>*\<^sup>* s (he_others ?env 4 s1)" using st0 st1 st2 by (meson rtranclp.rtrancl_into_rtrancl rtranclp_trans)
  have "set fids \<subseteq> file_ids (he_others ?env 4 s1)" using search_steps_grow[OF st] Cons.prems(3) by (auto simp: grows_def)
  note IH = Cons.IH[OF c(3) search_steps_ok[OF st Cons.prems(2)] this]
  have "has_row p fid s1" by (rule file_projected[OF ok0 id0 assms(2) p])
  then have "has_row p fid (he_others ?env 4 s1)" by (rule grows_row[OF search_steps_grow[OF st2]])
  then have "has_row p fid s'" using grows_row[OF search_steps_grow] IH by blast
  then show ?case using IH st by (auto intro: rtranclp_trans)
qed simp

text \<open>A page holds the smallest identifiers after the cursor.\<close>

lemma page_covers:
  fixes xs :: "uuid list"
  assumes "x \<in> set xs" "x \<le> last (take n (sort xs))" "take n (sort xs) \<noteq> []" "distinct xs"
  shows "x \<in> set (take n (sort xs))"
proof (rule ccontr)
  assume "x \<notin> set (take n (sort xs))"
  moreover have "x \<in> set (take n (sort xs) @ drop n (sort xs))" unfolding append_take_drop_id set_sort by (rule assms(1))
  ultimately have d: "x \<in> set (drop n (sort xs))" unfolding set_append by blast
  have "sorted (take n (sort xs) @ drop n (sort xs))" unfolding append_take_drop_id by (rule sorted_sort)
  then have "\<forall>a \<in> set (take n (sort xs)). \<forall>b \<in> set (drop n (sort xs)). a \<le> b" unfolding sorted_append by blast
  then have "last (take n (sort xs)) \<le> x" using d last_in_set[OF assms(3)] by blast
  then have "x = last (take n (sort xs))" using assms(2) by simp
  then show False using \<open>x \<notin> set (take n (sort xs))\<close> last_in_set[OF assms(3)] by simp
qed

lemma file_page_set: "set (file_page after n d) \<subseteq> fe_id ` {e \<in> set (file_entries d). after_cursor after (fe_id e)}"
  unfolding file_page_def using set_take_subset by fastforce

lemma take_nonempty: "xs \<noteq> [] \<Longrightarrow> 0 < n \<Longrightarrow> take n xs \<noteq> []"
  by simp

lemma file_page_covers:
  assumes "facts_ok d" "e \<in> set (file_entries d)" "after_cursor after (fe_id e)" "0 < n"
  shows "fe_id e \<in> set (file_page after n d) \<or> file_page after n d \<noteq> [] \<and> after_cursor (last (file_page after n d)) (fe_id e)"
proof -
  let ?xs = "map fe_id (filter (\<lambda>e. object_by_id (fe_object_id e) d \<noteq> None \<and> after_cursor after (fe_id e)) (file_entries d))"
  have page: "file_page after n d = take n (sort ?xs)" by (simp add: file_page_def)
  have x: "fe_id e \<in> set ?xs" using assms(1-3) by (auto simp: facts_ok_def)
  have dist: "distinct ?xs" using assms(1) by (simp add: facts_ok_def key_distinct_def distinct_map_filter)
  have "sort ?xs \<noteq> []"
  proof
    assume "sort ?xs = []"
    then have "set ?xs = {}" using set_sort[of "\<lambda>x. x" ?xs] by (simp only: list.set)
    then show False using x by (metis empty_iff)
  qed
  then have ne: "take n (sort ?xs) \<noteq> []" using assms(4) by (rule take_nonempty)
  show ?thesis
  proof (cases "fe_id e \<le> last (take n (sort ?xs))")
    case True
    then show ?thesis using page_covers[OF x True ne dist] page by simp
  next
    case False
    then show ?thesis using ne page by (simp add: after_cursor_def not_le)
  qed
qed

lemma page_limit_pos: "0 < page_limit batch"
  by (simp add: page_limit_def)

lemma snapshot_done:
  assumes "quiet_env ep env" "pj_index_epoch p = ep (pj_target p)" "search_ok ep s" "snapshot p env after batch s = (Inr (after', k), s')"
  shows "(search_step ep)\<^sup>*\<^sup>* s s'" "i \<in> file_ids s \<Longrightarrow> after_cursor after i \<Longrightarrow> has_row p i s' \<or> k \<noteq> 0 \<and> after_cursor after' i"
proof -
  let ?s0 = "he_others (env 0) 0 s"
  let ?page = "file_page after (page_limit batch) (sd_facts ?s0)"
  have st0: "(search_step ep)\<^sup>*\<^sup>* s ?s0" using assms(1) by (simp add: quiet_env_def)
  have ok0: "search_ok ep ?s0" by (rule search_steps_ok[OF st0 assms(3)])
  have run: "snapshot_files p env ?page ?s0 = (None, s')" and out: "(after', k) = (if ?page = [] then (after, 0) else (last ?page, length ?page))"
    using assms(4) by (auto simp: snapshot_def Let_def split: option.splits prod.splits)
  have "set ?page \<subseteq> file_ids ?s0" using file_page_set by (fastforce simp: file_ids_def)
  note c = snapshot_files_cover[OF assms(1,2) run ok0 this]
  show "(search_step ep)\<^sup>*\<^sup>* s s'" using st0 c by (auto intro: rtranclp_trans)
  assume i: "i \<in> file_ids s" "after_cursor after i"
  have "i \<in> file_ids ?s0" using search_steps_grow[OF st0] i(1) by (auto simp: grows_def)
  then obtain e where e: "e \<in> set (file_entries (sd_facts ?s0))" "fe_id e = i" by (auto simp: file_ids_def)
  have "facts_ok (sd_facts ?s0)" using ok0 by (simp add: search_ok_def)
  from file_page_covers[OF this e(1) _ page_limit_pos] i(2) e(2)
  have "i \<in> set ?page \<or> ?page \<noteq> [] \<and> after_cursor (last ?page) i" by blast
  then show "has_row p i s' \<or> k \<noteq> 0 \<and> after_cursor after' i" using c out by (auto split: if_splits)
qed

lemma persist_other:
  assumes "persist_backfill_progress vid cursor n s = Inr s'"
  shows "search_step ep s s'"
proof -
  have "sd_facts s' = sd_facts s \<and> sd_files s' = sd_files s"
    using assms by (auto simp: persist_backfill_progress_def update_version_cursor_def affected_one_Inr update_versions_Inr split: if_splits)
  then show ?thesis using search_step.other by blast
qed

text \<open>C11: A backfill leaves no file out.  If the scan of a backfill comes to its end, every file that existed when it
  started and lies after its cursor has a row in the rebuilt generation, whatever the page size, and whatever
  business transactions, live projections and other workers commit between its transactions; a scan that was
  interrupted and resumes at a saved cursor completes the rows of the files the cursor has passed.\<close>

theorem backfill_leaves_no_file_out:
  assumes "search_ok ep s" "pj_index_epoch p = ep (pj_target p)" "\<forall>env \<in> set envs. quiet_env ep env"
    "\<forall>i \<in> file_ids s. \<not> after_cursor cursor i \<longrightarrow> has_row p i s" "scan_files p envs batch vid vs cursor n s = (ScanDone c m, s')"
  shows "\<forall>i \<in> file_ids s. has_row p i s'"
proof -
  have "\<forall>i \<in> K. has_row p i s'"
    if "search_ok ep s" "\<forall>env \<in> set envs. quiet_env ep env" "\<forall>i \<in> K. has_row p i s \<or> after_cursor cursor i" "K \<subseteq> file_ids s"
      "scan_files p envs batch vid vs cursor n s = (ScanDone c m, s')" for K s
    using that
  proof (induction envs arbitrary: cursor n s)
    case (Cons env envs)
    have q: "quiet_env ep env" using Cons.prems(2) by simp
    obtain r s1 where sn: "snapshot p env cursor batch s = (r, s1)" by (cases "snapshot p env cursor batch s")
    then obtain after k where r: "r = Inr (after, k)" using Cons.prems(5) by (cases r) (auto simp: Let_def)
    note d = snapshot_done[OF q assms(2) Cons.prems(1) sn[unfolded r]]
    have step: "has_row p i s1 \<or> k \<noteq> 0 \<and> after_cursor after i" if i: "i \<in> K" for i
    proof (cases "after_cursor cursor i")
      case True
      then show ?thesis using d(2) Cons.prems(4) i by blast
    next
      case False
      then have "has_row p i s" using Cons.prems(3) i by blast
      then show ?thesis using grows_row[OF search_steps_grow[OF d(1)]] by blast
    qed
    show ?case
    proof (cases "k = 0")
      case True
      then show ?thesis using Cons.prems(5) sn r step by (auto simp: Let_def)
    next
      case False
      then obtain s2 where s2: "commit (env 0) 8 (persist_backfill_progress vid after (n + k)) s1 = (None, s2)"
        "scan_files p envs batch vid vs after (n + k) s2 = (ScanDone c m, s')"
        using Cons.prems(5) sn r by (auto simp: Let_def split: prod.splits option.splits)
      have "persist_backfill_progress vid after (n + k) (he_others (env 0) 8 s1) = Inr s2" using s2(1) by (rule commit_cases) simp_all
      then have "search_step ep (he_others (env 0) 8 s1) s2" by (rule persist_other)
      moreover have "(search_step ep)\<^sup>*\<^sup>* s1 (he_others (env 0) 8 s1)" using q by (simp add: quiet_env_def)
      ultimately have st: "(search_step ep)\<^sup>*\<^sup>* s1 s2" by (meson rtranclp.rtrancl_into_rtrancl)
      have all: "(search_step ep)\<^sup>*\<^sup>* s s2" using d(1) st by (rule rtranclp_trans)
      have inv: "\<forall>i \<in> K. has_row p i s2 \<or> after_cursor after i" using step grows_row[OF search_steps_grow[OF st]] by blast
      have ids: "K \<subseteq> file_ids s2" using search_steps_grow[OF all] Cons.prems(4) by (auto simp: grows_def)
      show ?thesis using Cons.IH[OF search_steps_ok[OF all Cons.prems(1)] _ inv ids s2(2)] Cons.prems(2) by simp
    qed
  qed simp
  from this[OF assms(1,3) _ subset_refl assms(5)] show ?thesis using assms(4) by blast
qed

text \<open>The one file of the example is rebuilt for generation \<open>v2\<close>.\<close>

definition rebuild_projector :: projector where
  "rebuild_projector = demo_projector\<lparr>pj_target := ''v2'', pj_index_epoch := 2\<rparr>"

definition rebuild_epochs :: "string \<Rightarrow> int" where "rebuild_epochs g = (if g = ''v2'' then 2 else 1)"

definition rebuild_envs :: "(uuid \<Rightarrow> handle_env) list" where "rebuild_envs = [\<lambda>i. demo_env, \<lambda>i. demo_env]"

lemma rebuild_ends: "(case fst (scan_files rebuild_projector rebuild_envs 1 3 [] 0 0 demo_db) of ScanDone c m \<Rightarrow> c = 11 \<and> m = 1 | _ \<Rightarrow> False)"
  by code_simp

lemma demo_ok_any: "search_ok ep demo_db"
  using demo_ok by (simp add: search_ok_def demo_db_def gen_db_def)

lemma backfill_leaves_no_file_out_witness:
  "has_row rebuild_projector 11 (snd (scan_files rebuild_projector rebuild_envs 1 3 [] 0 0 demo_db))"
proof -
  obtain r s' where run: "scan_files rebuild_projector rebuild_envs 1 3 [] 0 0 demo_db = (r, s')"
    by (cases "scan_files rebuild_projector rebuild_envs 1 3 [] 0 0 demo_db")
  have r: "r = ScanDone 11 1" using rebuild_ends run by (cases r) auto
  have pj: "pj_index_epoch rebuild_projector = rebuild_epochs (pj_target rebuild_projector)"
    by (simp add: rebuild_projector_def rebuild_epochs_def)
  have quiet: "\<forall>env \<in> set rebuild_envs. quiet_env rebuild_epochs env"
    by (simp add: rebuild_envs_def quiet_env_def demo_env_def)
  have rows: "\<forall>i \<in> file_ids demo_db. \<not> after_cursor 0 i \<longrightarrow> has_row rebuild_projector i demo_db" by (simp add: after_cursor_def)
  have "11 \<in> file_ids demo_db" by (simp add: file_ids_def demo_db_def demo_entry_def)
  then show ?thesis using backfill_leaves_no_file_out[OF demo_ok_any pj quiet rows run[unfolded r]] run by simp
qed

section \<open>The scan ends\<close>

lemma project_file_entries: "project_file p cx fid t s = Inr s' \<Longrightarrow> file_entries (sd_facts s') = file_entries (sd_facts s)"
proof -
  assume a: "project_file p cx fid t s = Inr s'"
  have u: "sd_facts y = sd_facts x" if "upsert_file cx v x = Inr y" for v x y using upsert_grows[OF that] by simp
  show ?thesis
  proof (cases "file_source (sd_facts s) fid")
    case None
    then show ?thesis using a by (auto simp: project_file_def project_file_with_acl_def tombstone_file_def)
  next
    case (Some eb)
    show ?thesis
    proof (cases "fe_id (fst eb) = 0")
      case True
      then show ?thesis using a Some by (auto simp: project_file_def project_file_with_acl_def tombstone_file_def)
    next
      case False
      then obtain ep1 d where c: "current_epoch (fe_owner_id (fst eb)) (sd_facts s) = Inr (ep1, d)"
          "upsert_file cx (projection_of p (ep_acl_epoch ep1) t eb) (s\<lparr>sd_facts := d\<rparr>) = Inr s'"
        using a Some by (cases "current_epoch (fe_owner_id (fst eb)) (sd_facts s)") (auto simp: project_file_def project_file_with_acl_def)
      show ?thesis using u[OF c(2)] current_epoch_facts(3)[OF c(1)] by simp
    qed
  qed
qed

lemma snapshot_files_entries:
  assumes "\<And>i n x. he_others (env i) n x = x"
  shows "snapshot_files p env fids s = (None, s') \<Longrightarrow> file_ids s' = file_ids s"
proof (induction fids arbitrary: s)
  case (Cons fid fids)
  obtain s1 where c: "commit (env fid) 2 (project_file p (he_ctx (env fid)) fid False) s = (None, s1)"
    "snapshot_files p env fids s1 = (None, s')"
    using Cons.prems(1) assms by (auto simp: Let_def split: prod.splits option.splits)
  have "project_file p (he_ctx (env fid)) fid False s = Inr s1" using c(1) by (rule commit_cases) (simp_all add: assms)
  then show ?case using Cons.IH[OF c(2)] project_file_entries by (simp add: file_ids_def)
qed simp

text \<open>With nothing else writing files, a scan with more turns than there are files after its cursor has ended: it is
  done or has failed.\<close>

lemma backfill_scan_ends:
  assumes "\<forall>env \<in> set envs. \<forall>i n x. he_others (env i) n x = x" "0 \<notin> file_ids s"
    "card {i \<in> file_ids s. after_cursor cursor i} < length envs"
  shows "fst (scan_files p envs batch vid vs cursor n s) \<noteq> ScanRunning c m"
  using assms
proof (induction envs arbitrary: cursor n s)
  case (Cons env envs)
  have q: "\<And>i n x. he_others (env i) n x = x" using Cons.prems(1) by simp
  obtain r s1 where sn: "snapshot p env cursor batch s = (r, s1)" by (cases "snapshot p env cursor batch s")
  show ?case
  proof (cases r)
    case (Inl e)
    then show ?thesis using sn by (simp add: Let_def)
  next
    case (Inr ak)
    obtain after k where ak: "ak = (after, k)" by (cases ak)
    let ?page = "file_page cursor (page_limit batch) (sd_facts s)"
    have run: "snapshot_files p env ?page s = (None, s1)" "(after, k) = (if ?page = [] then (cursor, 0) else (last ?page, length ?page))"
      using sn q Inr ak by (auto simp: snapshot_def Let_def split: option.splits prod.splits)
    show ?thesis
    proof (cases "k = 0")
      case True
      then show ?thesis using sn Inr ak by (simp add: Let_def)
    next
      case False
      then have page: "?page \<noteq> []" "after = last ?page" using run(2) by (auto split: if_splits)
      have "after \<in> fe_id ` {e \<in> set (file_entries (sd_facts s)). after_cursor cursor (fe_id e)}"
        using file_page_set last_in_set[OF page(1)] page(2) by blast
      then have af: "after \<in> file_ids s" "after_cursor cursor after" by (auto simp: file_ids_def)
      have nz: "after \<noteq> 0" using af(1) Cons.prems(2) by auto
      obtain r2 s2 where c: "commit (env 0) 8 (persist_backfill_progress vid after (n + k)) s1 = (r2, s2)"
        by (cases "commit (env 0) 8 (persist_backfill_progress vid after (n + k)) s1")
      show ?thesis
      proof (cases r2)
        case (Some e)
        then show ?thesis using sn Inr ak False c by (simp add: Let_def)
      next
        case None
        have "persist_backfill_progress vid after (n + k) s1 = Inr s2" using c None by (auto elim: commit_cases simp: q)
        then have "sd_facts s2 = sd_facts s1"
          by (auto simp: persist_backfill_progress_def update_version_cursor_def affected_one_Inr update_versions_Inr split: if_splits)
        then have ids: "file_ids s2 = file_ids s" using snapshot_files_entries[OF q run(1)] by (simp add: file_ids_def)
        have "{i \<in> file_ids s. after_cursor after i} \<subset> {i \<in> file_ids s. after_cursor cursor i}"
          using af nz by (auto simp: after_cursor_def)
        then have "card {i \<in> file_ids s2. after_cursor after i} < card {i \<in> file_ids s. after_cursor cursor i}"
          unfolding ids by (intro psubset_card_mono) (simp_all add: file_ids_def)
        then have "card {i \<in> file_ids s2. after_cursor after i} < length envs" using Cons.prems(3) by simp
        then show ?thesis using Cons.IH[of s2 after "n + k"] Cons.prems(1,2) ids sn Inr ak False c None by (simp add: Let_def)
      qed
    qed
  qed
qed simp

end
