(* ===== verification/TextSearch.thy ===== *)
theory TextSearch
  imports GoText "HOL-Library.Sublist"
begin

text \<open>
  Package \<open>textsearch\<close>: the lexical terms that the writers and the readers of the text index compute.  The main
  theorem says that the terms of a phrase are terms of every text that contains it.
\<close>

section \<open>Terms\<close>

text \<open>What the analyser takes from outside: NFKC with lower case, \<open>unicode.IsLetter\<close> or \<open>IsNumber\<close>, SHA-256 in
  hexadecimal of a kind followed by a text.\<close>

record lexicon =
  lx_normalize :: "gotext \<Rightarrow> gotext"
  lx_word :: "rune \<Rightarrow> bool"
  lx_digest :: "string \<Rightarrow> gotext \<Rightarrow> string"

definition han_rune :: "rune \<Rightarrow> bool" where
  "han_rune r \<longleftrightarrow> r = 0x3007 \<or> 0x3400 \<le> r \<and> r \<le> 0x4dbf \<or> 0x4e00 \<le> r \<and> r \<le> 0x9fff \<or> 0xf900 \<le> r \<and> r \<le> 0xfaff \<or>
     0x20000 \<le> r \<and> r \<le> 0x323af"

text \<open>\<open>string(r)\<close> as bytes.\<close>

definition utf8_bytes :: "rune \<Rightarrow> nat list" where
  "utf8_bytes r =
     (if r < 128 then [r]
      else if r < 2048 then [192 + r div 64, 128 + r mod 64]
      else if r < 65536 then [224 + r div 4096, 128 + r div 64 mod 64, 128 + r mod 64]
      else [240 + r div 262144, 128 + r div 4096 mod 64, 128 + r div 64 mod 64, 128 + r mod 64])"

definition term_key :: "lexicon \<Rightarrow> string \<Rightarrow> gotext \<Rightarrow> string" where
  "term_key lx k value =
     (let bytes = concat (map utf8_bytes value) in
      if 96 < length bytes then ''x'' @ lx_digest lx k value else k @ concat (map (hex_digits 2) bytes))"

text \<open>The value of \<open>next\<close> for a rune.\<close>

definition rune_kind :: "lexicon \<Rightarrow> rune \<Rightarrow> nat" where
  "rune_kind lx r = (if han_rune r then 1 else if lx_word lx r then 2 else 0)"

text \<open>The terms of one Han run; \<open>single\<close> says that the run is one rune long.\<close>

fun han_terms :: "lexicon \<Rightarrow> bool \<Rightarrow> bool \<Rightarrow> gotext \<Rightarrow> string list" where
  "han_terms lx query single [] = []"
| "han_terms lx query single (r # rs) =
     (if \<not> query \<or> single then [term_key lx ''h'' [r]] else []) @
     (case rs of [] \<Rightarrow> [] | r' # _ \<Rightarrow> [term_key lx ''h'' [r, r']]) @ han_terms lx query single rs"

definition flush_run :: "lexicon \<Rightarrow> bool \<Rightarrow> nat \<Rightarrow> gotext \<Rightarrow> string list" where
  "flush_run lx query k run =
     (if run = [] then [] else if k = 1 then han_terms lx query (length run = 1) run else [term_key lx ''w'' run])"

text \<open>One turn of the loop over the runes, on \<open>terms\<close>, \<open>run\<close> and \<open>kind\<close>.\<close>

definition analyze_rune :: "lexicon \<Rightarrow> bool \<Rightarrow> rune \<Rightarrow> string list \<times> gotext \<times> nat \<Rightarrow> string list \<times> gotext \<times> nat" where
  "analyze_rune lx query r st = (case st of (terms, run, kind) \<Rightarrow>
     (let nxt = rune_kind lx r;
          (terms1, run1) = (if nxt \<noteq> kind \<or> nxt = 0 then (terms @ flush_run lx query kind run, []) else (terms, run))
      in (terms1, if nxt \<noteq> 0 then run1 @ [r] else run1, nxt)))"

definition analyze_terms :: "lexicon \<Rightarrow> bool \<Rightarrow> gotext \<Rightarrow> string list" where
  "analyze_terms lx query value =
     (case fold (analyze_rune lx query) (lx_normalize lx value) ([], [], 0) of
        (terms, run, kind) \<Rightarrow> terms @ flush_run lx query kind run)"

definition index_text :: "lexicon \<Rightarrow> gotext \<Rightarrow> string" where
  "index_text lx value = join '' '' (analyze_terms lx False value)"

definition query_text :: "lexicon \<Rightarrow> gotext \<Rightarrow> string" where
  "query_text lx value = join '' '' (analyze_terms lx True value)"

section \<open>Which terms a text has\<close>

text \<open>The kinds at the two ends of a piece of text; the end of the text counts as no letter.\<close>

definition first_kind :: "lexicon \<Rightarrow> gotext \<Rightarrow> nat" where
  "first_kind lx t = (case t of [] \<Rightarrow> 0 | r # _ \<Rightarrow> rune_kind lx r)"

definition last_kind :: "lexicon \<Rightarrow> gotext \<Rightarrow> nat" where
  "last_kind lx t = (if t = [] then 0 else rune_kind lx (List.last t))"

text \<open>A whole word of a text.\<close>

definition word_of :: "lexicon \<Rightarrow> gotext \<Rightarrow> gotext \<Rightarrow> bool" where
  "word_of lx t w \<longleftrightarrow> w \<noteq> [] \<and> (\<forall>r \<in> set w. rune_kind lx r = 2) \<and>
     (\<exists>p s. t = p @ w @ s \<and> last_kind lx p \<noteq> 2 \<and> first_kind lx s \<noteq> 2)"

lemma last_kind_append: "last_kind lx (p @ q) = (if q = [] then last_kind lx p else last_kind lx q)"
  by (simp add: last_kind_def)

lemma first_kind_append: "first_kind lx (p @ q) = (if p = [] then first_kind lx q else first_kind lx p)"
  by (cases p) (simp_all add: first_kind_def)

lemma last_kind_run: "q \<noteq> [] \<Longrightarrow> \<forall>r \<in> set q. rune_kind lx r = k \<Longrightarrow> last_kind lx q = k"
  by (simp add: last_kind_def)

lemma first_kind_run: "q \<noteq> [] \<Longrightarrow> \<forall>r \<in> set q. rune_kind lx r = k \<Longrightarrow> first_kind lx q = k"
  by (cases q) (simp_all add: first_kind_def)

lemma han_terms_index:
  "set (han_terms lx False b rs) = {term_key lx ''h'' [r] |r. r \<in> set rs} \<union> {term_key lx ''h'' [r, r'] |r r'. sublist [r, r'] rs}"
proof (induction rs)
  case (Cons r rs)
  have "sublist [a, b] (r # rs) \<longleftrightarrow> sublist [a, b] rs \<or> (a = r \<and> (\<exists>rs'. rs = b # rs'))" for a b
    by (cases rs) (auto simp: sublist_Cons_right)
  then show ?case using Cons.IH by (cases rs) auto
qed simp

lemma han_terms_query:
  "set (han_terms lx True b rs) \<subseteq> {term_key lx ''h'' [r] |r. b \<and> r \<in> set rs} \<union> {term_key lx ''h'' [r, r'] |r r'. sublist [r, r'] rs}"
proof (induction rs)
  case (Cons r rs)
  have "sublist [a, b] (r # rs) \<longleftrightarrow> sublist [a, b] rs \<or> (a = r \<and> (\<exists>rs'. rs = b # rs'))" for a b
    by (cases rs) (auto simp: sublist_Cons_right)
  then show ?case using Cons.IH by (cases rs) auto
qed simp


definition terms_of :: "lexicon \<Rightarrow> gotext \<Rightarrow> string set" where
  "terms_of lx t = {term_key lx ''h'' [r] |r. r \<in> set t \<and> rune_kind lx r = 1} \<union>
     {term_key lx ''h'' [r, r'] |r r'. sublist [r, r'] t \<and> rune_kind lx r = 1 \<and> rune_kind lx r' = 1} \<union>
     {term_key lx ''w'' w |w. word_of lx t w}"

lemma word_of_mid:
  assumes "word_of lx q w" "\<not> (last_kind lx a = 2 \<and> first_kind lx q = 2)" "\<not> (last_kind lx q = 2 \<and> first_kind lx b = 2)"
  shows "word_of lx (a @ q @ b) w"
proof -
  obtain p s where w: "w \<noteq> []" "\<forall>r \<in> set w. rune_kind lx r = 2" "q = p @ w @ s" "last_kind lx p \<noteq> 2" "first_kind lx s \<noteq> 2"
    using assms(1) by (auto simp: word_of_def)
  have "first_kind lx w = 2" "last_kind lx w = 2" using w(1,2) first_kind_run last_kind_run by blast+
  then have "last_kind lx (a @ p) \<noteq> 2" "first_kind lx (s @ b) \<noteq> 2"
    using assms(2,3) w(1,3-5) by (auto simp: last_kind_append first_kind_append split: if_splits)
  moreover have "a @ q @ b = (a @ p) @ w @ (s @ b)" using w(3) by simp
  ultimately show ?thesis unfolding word_of_def using w(1,2) by blast
qed

lemma terms_of_mid:
  assumes "\<not> (last_kind lx a = 2 \<and> first_kind lx q = 2)" "\<not> (last_kind lx q = 2 \<and> first_kind lx b = 2)"
  shows "terms_of lx q \<subseteq> terms_of lx (a @ q @ b)"
proof -
  have "sublist [r, r'] q \<Longrightarrow> sublist [r, r'] (a @ q @ b)" for r r' by (simp add: sublist_append)
  then show ?thesis using word_of_mid[OF _ assms] by (fastforce simp: terms_of_def)
qed

lemma sublist_pair_append:
  assumes "sublist [x, y] (p @ q)"
  shows "sublist [x, y] p \<or> sublist [x, y] q \<or> (suffix [x] p \<and> prefix [y] q)"
proof -
  have "sublist [x, y] p \<or> sublist [x, y] q \<or> (\<exists>a b. [x, y] = a @ b \<and> suffix a p \<and> prefix b q)"
    using assms by (simp add: sublist_append)
  moreover have "suffix a p \<Longrightarrow> prefix b q \<Longrightarrow> [x, y] = a @ b \<Longrightarrow> sublist [x, y] p \<or> sublist [x, y] q \<or> (suffix [x] p \<and> prefix [y] q)" for a b
    by (cases a; cases "tl a") (auto intro: prefix_imp_sublist suffix_imp_sublist)
  ultimately show ?thesis by blast
qed

text \<open>A word of a text that ends with a run of another kind is a word of what precedes it, or is the run.\<close>

lemma word_of_append:
  assumes "word_of lx (p @ run) w" "\<forall>r \<in> set run. rune_kind lx r = k" "last_kind lx p \<noteq> k \<or> k = 0"
  shows "word_of lx p w \<or> w = run"
proof -
  obtain a b where w: "w \<noteq> []" "\<forall>r \<in> set w. rune_kind lx r = 2" "p @ run = a @ w @ b" "last_kind lx a \<noteq> 2" "first_kind lx b \<noteq> 2"
    using assms(1) by (auto simp: word_of_def)
  from w(3) consider (inside) u where "p = a @ w @ u" "b = u @ run" | (cut) u v where "w = u @ v" "u \<noteq> []" "v \<noteq> []" "p = a @ u" "run = v @ b"
    | (after) u where "a = p @ u" "run = u @ w @ b"
    by (auto simp: append_eq_append_conv2 append_eq_append_conv) (metis append_Nil2 append_Nil append_eq_append_conv2 append_assoc)+
  then show ?thesis
  proof cases
    case inside
    then have "first_kind lx u \<noteq> 2" using w(5) by (cases u) (auto simp: first_kind_def)
    then show ?thesis using inside w(1,2,4) by (auto simp: word_of_def)
  next
    case cut
    then have "last_kind lx u = 2" using w(2) by (intro last_kind_run) auto
    then have "last_kind lx p = 2" using cut by (simp add: last_kind_append)
    moreover have "k = 2" using assms(2) w(2) cut by (cases v) auto
    ultimately show ?thesis using assms(3) by simp
  next
    case after
    have k: "k = 2" using assms(2) w(1,2) after by (cases w) auto
    have "u = []" using w(4) after k assms(2) last_kind_run[of u lx 2] by (auto simp: last_kind_append split: if_splits)
    moreover have "b = []" using w(5) after k assms(2) first_kind_run[of b lx 2] by auto
    ultimately show ?thesis using after by simp
  qed
qed

lemma terms_of_run:
  assumes "\<forall>r \<in> set run. rune_kind lx r = k" "last_kind lx p \<noteq> k \<or> k = 0"
  shows "terms_of lx (p @ run) = terms_of lx p \<union> (if k = 0 then {} else set (flush_run lx False k run))"
proof
  show "terms_of lx (p @ run) \<subseteq> terms_of lx p \<union> (if k = 0 then {} else set (flush_run lx False k run))"
  proof
    fix t assume "t \<in> terms_of lx (p @ run)"
    then consider (one) r where "t = term_key lx ''h'' [r]" "r \<in> set p \<union> set run" "rune_kind lx r = 1"
      | (two) r r' where "t = term_key lx ''h'' [r, r']" "sublist [r, r'] (p @ run)" "rune_kind lx r = 1" "rune_kind lx r' = 1"
      | (word) w where "t = term_key lx ''w'' w" "word_of lx (p @ run) w"
      by (auto simp: terms_of_def)
    then show "t \<in> terms_of lx p \<union> (if k = 0 then {} else set (flush_run lx False k run))"
    proof cases
      case one
      then have "r \<in> set p \<or> k = 1 \<and> r \<in> set run" using assms(1) by auto
      then show ?thesis using one by (auto simp: terms_of_def flush_run_def han_terms_index)
    next
      case two
      from two(2) have "sublist [r, r'] p \<or> sublist [r, r'] run \<or> (suffix [r] p \<and> prefix [r'] run)"
        by (rule sublist_pair_append)
      then show ?thesis
      proof (elim disjE)
        assume "suffix [r] p \<and> prefix [r'] run"
        then have "last_kind lx p = 1" "r' \<in> set run" using two by (auto simp: suffix_def prefix_def last_kind_def)
        then show ?thesis using assms two(4) by auto
      next
        assume s: "sublist [r, r'] run"
        then have "r \<in> set run" using set_mono_sublist[OF s] by auto
        then have "k = 1" "run \<noteq> []" using assms(1) two(3) by auto
        then show ?thesis using s two by (auto simp: flush_run_def han_terms_index)
      qed (use two in \<open>auto simp: terms_of_def\<close>)
    next
      case word
      then consider "word_of lx p w" | "w = run" using word_of_append[OF word(2) assms] by blast
      then show ?thesis
      proof cases
        case 2
        then have "run \<noteq> []" "k = 2" using word(2) assms(1) by (cases run; auto simp: word_of_def)+
        then show ?thesis using 2 word by (simp add: flush_run_def)
      qed (use word in \<open>auto simp: terms_of_def\<close>)
    qed
  qed
  have p: "terms_of lx p \<subseteq> terms_of lx ([] @ p @ run)"
  proof (rule terms_of_mid)
    show "\<not> (last_kind lx p = 2 \<and> first_kind lx run = 2)"
      using assms first_kind_run[OF _ assms(1)] by (cases "run = []") (auto simp: first_kind_def[of _ "[]"])
  qed (simp add: last_kind_def)
  have "set (flush_run lx False k run) \<subseteq> terms_of lx (p @ run)" if k: "k = 1 \<or> k = 2"
  proof (cases "k = 1")
    case True
    have "sublist [r, r'] run \<Longrightarrow> sublist [r, r'] (p @ run) \<and> rune_kind lx r = 1 \<and> rune_kind lx r' = 1" for r r'
      using set_mono_sublist[of "[r, r']" run] True assms(1) by (auto simp: sublist_append)
    moreover have "r \<in> set run \<Longrightarrow> r \<in> set (p @ run) \<and> rune_kind lx r = 1" for r using True assms(1) by auto
    moreover have "set (flush_run lx False k run) \<subseteq> set (han_terms lx False (length run = 1) run)" using True by (simp add: flush_run_def)
    ultimately show ?thesis unfolding han_terms_index terms_of_def by blast
  next
    case False
    then have "run \<noteq> [] \<Longrightarrow> word_of lx (p @ run @ []) run" using k assms unfolding word_of_def
      by (metis first_kind_def list.case(1) zero_neq_numeral)
    then show ?thesis using False by (auto simp: flush_run_def terms_of_def)
  qed
  moreover have "k = 0 \<or> run = [] \<or> k = 1 \<or> k = 2" using assms(1) by (cases run) (auto simp: rune_kind_def split: if_splits)
  ultimately show "terms_of lx p \<union> (if k = 0 then {} else set (flush_run lx False k run)) \<subseteq> terms_of lx (p @ run)"
    using p by (auto simp: flush_run_def)
qed

lemma flush_run_query: "set (flush_run lx True k run) \<subseteq> set (flush_run lx False k run)"
  using han_terms_query[of lx "length run = 1" run] by (auto simp: flush_run_def han_terms_index)

text \<open>The state of the loop after the text \<open>t\<close>.\<close>

definition analyzed :: "lexicon \<Rightarrow> gotext \<Rightarrow> gotext \<Rightarrow> gotext \<Rightarrow> nat \<Rightarrow> bool" where
  "analyzed lx t p run k \<longleftrightarrow> t = p @ run \<and> (\<forall>r \<in> set run. rune_kind lx r = k) \<and> (k = 0 \<longleftrightarrow> run = []) \<and>
     (if k = 0 then last_kind lx p = 0 else last_kind lx p \<noteq> k)"

lemma fold_analyze:
  "\<exists>p ts qs run k. fold (analyze_rune lx False) t ([], [], 0) = (ts, run, k) \<and> fold (analyze_rune lx True) t ([], [], 0) = (qs, run, k) \<and>
     analyzed lx t p run k \<and> set ts = terms_of lx p \<and> set qs \<subseteq> terms_of lx p"
proof (induction t rule: rev_induct)
  case Nil
  have "terms_of lx [] = {}" by (auto simp: terms_of_def word_of_def)
  then show ?case by (auto simp: analyzed_def last_kind_def)
next
  case (snoc r t)
  then obtain p ts qs run k where i: "fold (analyze_rune lx False) t ([], [], 0) = (ts, run, k)"
    "fold (analyze_rune lx True) t ([], [], 0) = (qs, run, k)" "analyzed lx t p run k" "set ts = terms_of lx p" "set qs \<subseteq> terms_of lx p"
    by blast
  have t: "t = p @ run" and run: "\<forall>r \<in> set run. rune_kind lx r = k" and bound: "last_kind lx p \<noteq> k \<or> k = 0" and ke: "k = 0 \<longleftrightarrow> run = []"
    using i(3) by (auto simp: analyzed_def)
  let ?n = "rune_kind lx r"
  have flushed: "set (ts @ flush_run lx False k run) = terms_of lx t"
    using terms_of_run[OF run bound] i(4) ke t by (auto simp: flush_run_def)
  have flushed_q: "set (qs @ flush_run lx True k run) \<subseteq> terms_of lx t"
    using flushed i(4,5) flush_run_query[of lx k run] unfolding set_append by blast
  have last: "k = 0 \<longleftrightarrow> last_kind lx t = 0" "k \<noteq> 0 \<Longrightarrow> last_kind lx t = k"
    using i(3) last_kind_run[of run lx k] by (auto simp: analyzed_def last_kind_append split: if_splits)
  consider (gap) "?n = 0" | (same) "?n = k" "?n \<noteq> 0" | (turn) "?n \<noteq> k" "?n \<noteq> 0" by auto
  then show ?case
  proof cases
    case gap
    have "terms_of lx (t @ [r]) = terms_of lx t" using terms_of_run[of "[r]" lx 0 t] gap by simp
    moreover have "analyzed lx (t @ [r]) (t @ [r]) [] 0" using gap by (simp add: analyzed_def last_kind_def)
    moreover have "analyze_rune lx q r (x, run, k) = (x @ flush_run lx q k run, [], 0)" for q x
      using gap by (simp add: analyze_rune_def)
    ultimately show ?thesis using i(1,2) flushed flushed_q by (intro exI[of _ "t @ [r]"]) simp
  next
    case same
    then have "analyzed lx (t @ [r]) p (run @ [r]) k" using i(3) ke by (auto simp: analyzed_def)
    moreover have "analyze_rune lx q r (x, run, k) = (x, run @ [r], k)" for q x
      using same by (simp add: analyze_rune_def)
    ultimately show ?thesis using i by (intro exI[of _ p]) simp
  next
    case turn
    then have "analyzed lx (t @ [r]) t [r] ?n" using last by (cases "k = 0") (auto simp: analyzed_def)
    moreover have "analyze_rune lx q r (x, run, k) = (x @ flush_run lx q k run, [r], ?n)" for q x
      using turn by (simp add: analyze_rune_def)
    ultimately show ?thesis using i(1,2) flushed flushed_q by (intro exI[of _ t]) simp
  qed
qed

lemma analyze_terms_of:
  "set (analyze_terms lx False v) = terms_of lx (lx_normalize lx v)" "set (analyze_terms lx True v) \<subseteq> terms_of lx (lx_normalize lx v)"
proof -
  obtain p ts qs run k where i: "fold (analyze_rune lx False) (lx_normalize lx v) ([], [], 0) = (ts, run, k)"
    "fold (analyze_rune lx True) (lx_normalize lx v) ([], [], 0) = (qs, run, k)" "analyzed lx (lx_normalize lx v) p run k"
    "set ts = terms_of lx p" "set qs \<subseteq> terms_of lx p"
    using fold_analyze by blast
  have t: "terms_of lx (lx_normalize lx v) = terms_of lx p \<union> (if k = 0 then {} else set (flush_run lx False k run))"
  proof -
    have a: "lx_normalize lx v = p @ run" "\<forall>r \<in> set run. rune_kind lx r = k" "last_kind lx p \<noteq> k \<or> k = 0"
      using i(3) by (auto simp: analyzed_def)
    show ?thesis unfolding a(1) by (rule terms_of_run[OF a(2,3)])
  qed
  have ke: "k = 0 \<Longrightarrow> run = []" using i(3) by (auto simp: analyzed_def)
  then show "set (analyze_terms lx False v) = terms_of lx (lx_normalize lx v)"
    using i(1,4) t by (auto simp: analyze_terms_def flush_run_def)
  show "set (analyze_terms lx True v) \<subseteq> terms_of lx (lx_normalize lx v)"
    using i(2,5) t ke flush_run_query[of lx k run] by (auto simp: analyze_terms_def) (auto simp: flush_run_def)
qed


text \<open>C16: Whatever text surrounds a phrase, as long as no word is cut at its two ends (a letter or digit next to a
  letter or digit; Chinese characters may continue on both sides), every term of the query for the phrase is a
  term under which the text is indexed.\<close>

theorem phrase_terms_indexed:
  assumes "lx_normalize lx body = a @ lx_normalize lx phrase @ b"
    "\<not> (last_kind lx a = 2 \<and> first_kind lx (lx_normalize lx phrase) = 2)"
    "\<not> (last_kind lx (lx_normalize lx phrase) = 2 \<and> first_kind lx b = 2)"
  shows "set (analyze_terms lx True phrase) \<subseteq> set (analyze_terms lx False body)"
  using terms_of_mid[OF assms(2,3)] analyze_terms_of(1)[of lx body] analyze_terms_of(2)[of lx phrase] unfolding assms(1) by blast

definition ex_lexicon :: lexicon where
  "ex_lexicon = \<lparr> lx_normalize = (\<lambda>t. t), lx_word = (\<lambda>r. 97 \<le> r \<and> r \<le> 122), lx_digest = (\<lambda>k t. []) \<rparr>"

lemma phrase_terms_indexed_witness:
  "analyze_terms ex_lexicon True [0x4e2d, 0x6587] = [''he4b8ade69687''] \<and>
   set (analyze_terms ex_lexicon True [0x4e2d, 0x6587]) \<subseteq> set (analyze_terms ex_lexicon False ([97, 0x5728] @ [0x4e2d, 0x6587] @ [0x5b57, 98]))"
proof
  show "analyze_terms ex_lexicon True [0x4e2d, 0x6587] = [''he4b8ade69687'']" 
    by (simp add: analyze_terms_def ex_lexicon_def analyze_rune_def rune_kind_def han_rune_def flush_run_def term_key_def utf8_bytes_def
        Let_def numeral_2_eq_2 digit_char_def) code_simp
  have "lx_normalize ex_lexicon ([97, 0x5728] @ [0x4e2d, 0x6587] @ [0x5b57, 98]) = [97, 0x5728] @ lx_normalize ex_lexicon [0x4e2d, 0x6587] @ [0x5b57, 98]"
    "\<not> (last_kind ex_lexicon [97, 0x5728] = 2 \<and> first_kind ex_lexicon (lx_normalize ex_lexicon [0x4e2d, 0x6587]) = 2)"
    "\<not> (last_kind ex_lexicon (lx_normalize ex_lexicon [0x4e2d, 0x6587]) = 2 \<and> first_kind ex_lexicon [0x5b57, 98] = 2)"
    by (simp_all add: ex_lexicon_def last_kind_def first_kind_def rune_kind_def han_rune_def)
  from phrase_terms_indexed[OF this]
  show "set (analyze_terms ex_lexicon True [0x4e2d, 0x6587]) \<subseteq> set (analyze_terms ex_lexicon False ([97, 0x5728] @ [0x4e2d, 0x6587] @ [0x5b57, 98]))" .
qed

end
