(* ===== verification/SearchFencing.thy ===== *)
theory SearchFencing
  imports SearchFlow TextSearch
begin

text \<open>
  The search backends (\<open>search/external.go\<close>, \<open>external_fencing.go\<close>, \<open>qdrant_fencing.go\<close>): the documents and the
  update script of Elasticsearch, the points of Qdrant, the records that deletions leave in both, and the
  searches that must not show what was deleted.  The services themselves are a map from identifiers to
  documents that runs the script the code sends (Elasticsearch) or stores the points it puts (Qdrant); the
  replies to look-ups are arguments.  As in \<open>EventContract\<close>, a JSON string that parses as an identifier is the
  identifier; epochs read back as JSON numbers are exact (below \<open>2^53\<close>).  Vectors, scores and the fields of a
  point that no rule reads are left out; target names are ASCII.
\<close>

section \<open>The update script of Elasticsearch\<close>

datatype es_value = EsInt int | EsBool bool | EsUuid uuid | EsString string | EsText gotext

type_synonym es_doc = "string \<rightharpoonup> es_value"

text \<open>The outcome of \<open>esProjectionScript\<close>; comparing a missing field is an error of the script.\<close>

datatype es_outcome = EsNoop | EsError | EsWrite es_doc

definition es_newer :: "string \<Rightarrow> es_doc \<Rightarrow> es_doc \<Rightarrow> bool" where
  "es_newer f src d = (case (src f, d f) of (Some (EsInt a), Some (EsInt b)) \<Rightarrow> b < a | _ \<Rightarrow> False)"

definition es_projection_script :: "es_doc \<Rightarrow> es_doc \<Rightarrow> es_outcome" where
  "es_projection_script d src =
     (if es_newer ''file_version'' src d \<or> es_newer ''index_epoch'' src d \<or> es_newer ''acl_version'' src d then EsNoop
      else if src ''tombstone'' = Some (EsBool True) \<and> d ''tombstone'' \<noteq> Some (EsBool True)
      then (let f = (if d ''file_version'' \<noteq> None then ''file_version'' else ''index_epoch'') in
            case (src f, d f) of
              (Some (EsInt a), Some (EsInt b)) \<Rightarrow> if b \<le> a then EsNoop else EsWrite (src ++ d)
            | _ \<Rightarrow> EsError)
      else EsWrite (src ++ d))"

text \<open>A scripted upsert on the document with one identifier; \<open>None\<close> is no document, the script then starts from
  the empty one.\<close>

definition es_update :: "es_doc \<Rightarrow> es_doc option \<Rightarrow> es_doc option" where
  "es_update d doc = (case es_projection_script d (case doc of None \<Rightarrow> Map.empty | Some src \<Rightarrow> src) of
      EsWrite x \<Rightarrow> Some x | _ \<Rightarrow> doc)"

definition es_file_document :: "file_projection \<Rightarrow> es_doc" where
  "es_file_document v0 =
     (let v = (if fp_acl_version v0 \<le> 0 then v0\<lparr>fp_acl_version := 1\<rparr> else v0) in
      [''file_entry_id'' \<mapsto> EsUuid (fp_file_entry_id v), ''owner_id'' \<mapsto> EsUuid (fp_owner_id v), ''folder_id'' \<mapsto> EsUuid (fp_folder_id v),
       ''object_id'' \<mapsto> EsUuid (fp_object_id v), ''file_version'' \<mapsto> EsInt (fp_file_version v), ''acl_version'' \<mapsto> EsInt (fp_acl_version v),
       ''name'' \<mapsto> EsText (fp_name v), ''mime_type'' \<mapsto> EsString (fp_mime_type v), ''index_epoch'' \<mapsto> EsInt (fp_index_epoch v),
       ''tombstone'' \<mapsto> EsBool (fp_tombstone v)])"

text \<open>The document that \<open>TombstoneFile\<close> sends.\<close>

definition es_file_tombstone :: "uuid \<Rightarrow> int \<Rightarrow> es_doc" where
  "es_file_tombstone fid version =
     [''file_entry_id'' \<mapsto> EsUuid fid, ''tombstone'' \<mapsto> EsBool True, ''file_version'' \<mapsto> EsInt version]"

definition object_tombstone_id :: "uuid \<Rightarrow> string" where
  "object_tombstone_id oid = ''object-tombstone-'' @ uuid_string oid"

text \<open>The document that \<open>writeObjectTombstone\<close> sends.\<close>

definition es_object_tombstone :: "uuid \<Rightarrow> int \<Rightarrow> es_doc" where
  "es_object_tombstone oid epoch =
     [''object_id'' \<mapsto> EsUuid oid, ''index_epoch'' \<mapsto> EsInt epoch, ''tombstone'' \<mapsto> EsBool True]"

type_synonym es_index = "string \<rightharpoonup> es_doc"

definition es_put :: "string \<Rightarrow> es_doc \<Rightarrow> es_index \<Rightarrow> es_index" where
  "es_put key d idx = idx(key := es_update d (idx key))"

section \<open>Candidates and limits\<close>

record candidate =
  ca_chunk_id :: uuid
  ca_object_id :: uuid
  ca_document_version_id :: uuid
  ca_file_entry_id :: "uuid option"
  ca_index_epoch :: int
  ca_pipeline_version :: string
  ca_model_version :: string
  ca_match_type :: string

definition uuid_field :: "string \<Rightarrow> es_doc \<Rightarrow> uuid" where
  "uuid_field k d = (case d k of Some (EsUuid u) \<Rightarrow> u | _ \<Rightarrow> 0)"

definition string_field :: "string \<Rightarrow> es_doc \<Rightarrow> string" where
  "string_field k d = (case d k of Some (EsString s) \<Rightarrow> s | _ \<Rightarrow> [])"

definition int_field :: "string \<Rightarrow> es_doc \<Rightarrow> int" where
  "int_field k d = (case d k of Some (EsInt n) \<Rightarrow> n | _ \<Rightarrow> 0)"

definition candidate_from_map :: "string \<Rightarrow> es_doc \<Rightarrow> candidate option" where
  "candidate_from_map match_type d =
     (if d ''tombstone'' = Some (EsBool True) then None
      else let c = \<lparr> ca_chunk_id = uuid_field ''chunk_id'' d, ca_object_id = uuid_field ''object_id'' d,
             ca_document_version_id = uuid_field ''document_version_id'' d,
             ca_file_entry_id = (case d ''file_entry_id'' of Some (EsUuid u) \<Rightarrow> Some u | _ \<Rightarrow> None),
             ca_index_epoch = int_field ''index_epoch'' d, ca_pipeline_version = string_field ''pipeline_version'' d,
             ca_model_version = string_field ''model_version'' d, ca_match_type = match_type \<rparr>
        in if ca_chunk_id c = 0 \<or> ca_object_id c = 0 then None else Some c)"

definition bounded_limit :: "int \<Rightarrow> int" where
  "bounded_limit n = (if n \<le> 0 then 50 else if 200 < n then 200 else n)"

definition safe_index_part :: "string \<Rightarrow> string" where
  "safe_index_part value =
     (let v = map lower_ascii (trim_str value) in
      if v = [] then ''v1''
      else map (\<lambda>c. if CHR ''a'' \<le> c \<and> c \<le> CHR ''z'' \<or> CHR ''0'' \<le> c \<and> c \<le> CHR ''9'' \<or> c = CHR ''-'' \<or> c = CHR ''_'' then c else CHR ''-'') v)"

definition err_search_unavailable :: go_error where "err_search_unavailable = ErrNew ''search backend unavailable''"

section \<open>Bulk updates\<close>

record bulk_error =
  be_id :: string
  be_status :: int
  be_reason :: string
  be_retryable :: bool

text \<open>\<open>bu_error\<close> is the text that \<open>fmt.Sprint\<close> gives for the error of an item, \<open>None\<close> for no error.\<close>

record bulk_update =
  bu_id :: string
  bu_status :: int
  bu_error :: "string option"

datatype bulk_reply = BulkNotSent | BulkLost | BulkStatus int | BulkUndecodable | BulkItems "bulk_update list list"

definition success_status :: "int \<Rightarrow> bool" where
  "success_status n \<longleftrightarrow> 200 \<le> n \<and> n < 300"

definition retryable_status :: "int \<Rightarrow> bool" where
  "retryable_status n \<longleftrightarrow> n = 408 \<or> n = 429 \<or> 500 \<le> n"

definition bulk_failure :: "int \<Rightarrow> string \<Rightarrow> bool \<Rightarrow> bulk_error" where
  "bulk_failure status reason retryable = \<lparr> be_id = [], be_status = status, be_reason = reason, be_retryable = retryable \<rparr>"

definition bulk_accepted :: "bulk_update \<Rightarrow> bool" where
  "bulk_accepted u \<longleftrightarrow> success_status (bu_status u) \<and> bu_error u = None"

fun bulk_items :: "string list \<Rightarrow> bulk_update list list \<Rightarrow> bulk_error list \<Rightarrow> bulk_error list" where
  "bulk_items ids [] errs = errs"
| "bulk_items ids ([u] # items) errs =
     bulk_items (tl ids) items (if bulk_accepted u then errs
       else errs @ [\<lparr> be_id = (if bu_id u = [] \<and> ids \<noteq> [] then hd ids else bu_id u), be_status = bu_status u,
         be_reason = (case bu_error u of None \<Rightarrow> ''<nil>'' | Some e \<Rightarrow> e),
         be_retryable = (bu_status u = 409 \<or> retryable_status (bu_status u)) \<rparr>])"
| "bulk_items ids (item # items) errs = [bulk_failure 0 ''invalid elasticsearch bulk item'' True]"

definition es_bulk :: "string \<Rightarrow> string list \<Rightarrow> bulk_reply \<Rightarrow> bulk_error list" where
  "es_bulk endpoint ids reply =
     (if trim_str endpoint = [] then [bulk_failure 0 ''elasticsearch endpoint is required'' False]
      else case reply of
        BulkNotSent \<Rightarrow> [bulk_failure 0 ''create bulk request failed'' True]
      | BulkLost \<Rightarrow> [bulk_failure 0 ''elasticsearch request failed'' True]
      | BulkStatus n \<Rightarrow> [bulk_failure n ''elasticsearch bulk request rejected'' (retryable_status n)]
      | BulkUndecodable \<Rightarrow> [bulk_failure 0 ''invalid elasticsearch bulk response'' True]
      | BulkItems items \<Rightarrow>
          if length items \<noteq> length ids then [bulk_failure 0 ''incomplete elasticsearch bulk response'' True]
          else bulk_items ids items [])"

lemma bulk_items_clean: "bulk_items ids items errs = [] \<longleftrightarrow> errs = [] \<and> (\<forall>item \<in> set items. \<exists>u. item = [u] \<and> bulk_accepted u)"
  by (induction ids items errs rule: bulk_items.induct) auto

text \<open>A bulk update reports no error exactly when the service answered for every document and accepted each.\<close>

lemma bulk_hides_no_failure:
  "es_bulk endpoint ids reply = [] \<longleftrightarrow> trim_str endpoint \<noteq> [] \<and>
    (\<exists>items. reply = BulkItems items \<and> length items = length ids \<and> (\<forall>item \<in> set items. \<exists>u. item = [u] \<and> bulk_accepted u))"
  by (cases reply) (auto simp: es_bulk_def bulk_items_clean)

section \<open>Searches in Elasticsearch\<close>

datatype mget_doc = MgetError | MgetMissing | MgetFound uuid int

definition unique_objects :: "candidate list \<Rightarrow> uuid list" where
  "unique_objects cs = fold (\<lambda>c ids. if ca_object_id c \<in> set ids then ids else ids @ [ca_object_id c]) cs []"

text \<open>\<open>visibleCandidates\<close>, given the reply to \<open>_mget\<close>.\<close>

definition es_visible :: "mget_doc list result \<Rightarrow> candidate list \<Rightarrow> candidate list result" where
  "es_visible reply cs =
     (if cs = [] then Inr cs
      else attempt reply (\<lambda>docs.
        if length docs \<noteq> length (unique_objects cs) then Inl (ErrWrap err_search_unavailable ''incomplete tombstone lookup'')
        else if MgetError \<in> set docs then Inl (ErrWrap err_search_unavailable ''tombstone lookup failed'')
        else let deleted = fold (\<lambda>d m. case d of MgetFound oid e \<Rightarrow> m(oid \<mapsto> e) | _ \<Rightarrow> m) docs Map.empty
          in Inr (filter (\<lambda>c. case deleted (ca_object_id c) of None \<Rightarrow> True | Some e \<Rightarrow> e < ca_index_epoch c) cs)))"

record es_reply =
  er_timed_out :: bool
  er_failed_shards :: int
  er_hits :: "es_doc list option"

text \<open>\<open>SearchText\<close> (and \<open>SearchVector\<close> once its vector is not empty), given the replies.\<close>

definition es_search :: "string \<Rightarrow> int \<Rightarrow> es_reply result \<Rightarrow> (candidate list \<Rightarrow> mget_doc list result) \<Rightarrow> candidate list result" where
  "es_search match_type req_limit reply mget =
     attempt reply (\<lambda>r.
       if er_timed_out r \<or> 0 < er_failed_shards r then Inl (ErrWrap err_search_unavailable ''incomplete elasticsearch search response'')
       else case er_hits r of
         None \<Rightarrow> Inl (ErrWrap err_search_unavailable ''incomplete elasticsearch search response'')
       | Some hits \<Rightarrow>
           (let result = List.map_filter (candidate_from_map match_type) hits in
            attempt (es_visible (mget result) result) (\<lambda>visible.
              if bounded_limit req_limit \<le> int (length hits) \<and> length visible < length result
              then Inl (ErrWrap err_search_unavailable ''deleted candidates exhausted retrieval budget'')
              else Inr visible)))"

section \<open>Points and searches in Qdrant\<close>

datatype qpoint = QContent uuid uuid int bool | QTombstone string uuid int

text \<open>\<open>sha\<close> is \<open>uuid.NewSHA1\<close> in the URL name space.\<close>

definition qdrant_content_name :: "uuid \<Rightarrow> int \<Rightarrow> string" where
  "qdrant_content_name chunk epoch = ''content:'' @ uuid_string chunk @ '':'' @ int_string epoch"

definition qdrant_tombstone_name :: "string \<Rightarrow> uuid \<Rightarrow> int \<Rightarrow> string" where
  "qdrant_tombstone_name scope subject epoch = ''tombstone:'' @ scope @ '':'' @ uuid_string subject @ '':'' @ int_string epoch"

definition write_tombstone :: "(string \<Rightarrow> uuid) \<Rightarrow> string \<Rightarrow> uuid \<Rightarrow> int \<Rightarrow> (uuid \<rightharpoonup> qpoint) \<Rightarrow> (uuid \<rightharpoonup> qpoint)" where
  "write_tombstone sha scope subject epoch q = q(sha (qdrant_tombstone_name scope subject epoch) \<mapsto> QTombstone scope subject epoch)"

text \<open>The points that the filter of \<open>maskTombstone\<close> matches become tombstones; a deletion record has neither field.\<close>

definition mask_tombstone :: "string \<Rightarrow> uuid \<Rightarrow> int \<Rightarrow> (uuid \<rightharpoonup> qpoint) \<Rightarrow> (uuid \<rightharpoonup> qpoint)" where
  "mask_tombstone scope subject epoch q = (\<lambda>u. case q u of
      Some (QContent c oid e t) \<Rightarrow> Some (QContent c oid e (t \<or> (if scope = ''chunk'' then c else oid) = subject \<and> e \<le> epoch))
    | p \<Rightarrow> p)"

definition put_content :: "(string \<Rightarrow> uuid) \<Rightarrow> uuid \<Rightarrow> uuid \<Rightarrow> int \<Rightarrow> (uuid \<rightharpoonup> qpoint) \<Rightarrow> (uuid \<rightharpoonup> qpoint)" where
  "put_content sha chunk oid epoch q = q(sha (qdrant_content_name chunk epoch) \<mapsto> QContent chunk oid epoch False)"

record tombstone_point =
  tp_scope :: string
  tp_subject :: string
  tp_epoch :: int

definition deleted_key :: "string \<Rightarrow> string \<Rightarrow> string" where
  "deleted_key scope subject = scope @ '':'' @ subject"

definition record_deletion :: "tombstone_point \<Rightarrow> (string \<rightharpoonup> int) \<Rightarrow> (string \<rightharpoonup> int)" where
  "record_deletion t m = (let k = deleted_key (tp_scope t) (tp_subject t) in
     if (case m k of None \<Rightarrow> 0 | Some e \<Rightarrow> e) < tp_epoch t then m(k \<mapsto> tp_epoch t) else m)"

definition hidden :: "(string \<rightharpoonup> int) \<Rightarrow> string \<Rightarrow> int \<Rightarrow> bool" where
  "hidden m key epoch = (case m key of None \<Rightarrow> False | Some e \<Rightarrow> epoch \<le> e)"

definition min_epoch :: "candidate list \<Rightarrow> int" where
  "min_epoch cs = fold (\<lambda>c m. if ca_index_epoch c < m then ca_index_epoch c else m) cs (ca_index_epoch (hd cs))"

text \<open>The scroll of \<open>visibleCandidates\<close>: \<open>pages\<close> are the replies in the order they come, each the points of one page;
  the last one has no next offset.\<close>

fun scroll_deletions :: "nat \<Rightarrow> tombstone_point list result list \<Rightarrow> (string \<rightharpoonup> int) \<Rightarrow> (string \<rightharpoonup> int) result" where
  "scroll_deletions 0 pages m = Inl (ErrWrap err_search_unavailable ''tombstone lookup budget exceeded'')"
| "scroll_deletions (Suc n) [] m = Inl (ErrWrap err_search_unavailable ''missing tombstone lookup result'')"
| "scroll_deletions (Suc n) (page # pages) m =
     attempt page (\<lambda>points. if pages = [] then Inr (fold record_deletion points m)
       else scroll_deletions n pages (fold record_deletion points m))"

definition qdrant_visible :: "tombstone_point list result list \<Rightarrow> candidate list \<Rightarrow> candidate list result" where
  "qdrant_visible pages cs =
     (if cs = [] then Inr cs
      else attempt (scroll_deletions 16 pages Map.empty) (\<lambda>deleted.
        Inr (filter (\<lambda>c. \<not> hidden deleted (deleted_key ''object'' (uuid_string (ca_object_id c))) (ca_index_epoch c) \<and>
                \<not> hidden deleted (deleted_key ''chunk'' (uuid_string (ca_chunk_id c))) (ca_index_epoch c)) cs)))"

text \<open>\<open>SearchVector\<close> after the check of the vector's dimension.\<close>

definition qdrant_limit :: "int \<Rightarrow> int \<Rightarrow> int" where
  "qdrant_limit limit oversample =
     (if 1 < oversample then bounded_limit (sint (word_of_int (limit * oversample) :: 64 word)) else bounded_limit limit)"

definition qdrant_search :: "int \<Rightarrow> int \<Rightarrow> es_doc list result \<Rightarrow> (candidate list \<Rightarrow> tombstone_point list result list) \<Rightarrow> candidate list result" where
  "qdrant_search limit oversample reply scroll =
     attempt reply (\<lambda>hits.
       let result = List.map_filter (candidate_from_map ''vector'') hits in
       attempt (qdrant_visible (scroll result) result) (\<lambda>visible.
         if qdrant_limit limit oversample \<le> int (length hits) \<and> int (length visible) < bounded_limit limit
         then Inl (ErrWrap err_search_unavailable ''deleted candidates exhausted retrieval budget'')
         else Inr visible))"


section \<open>Elasticsearch and PostgreSQL decide alike\<close>

datatype file_op = FileIndexed file_projection | FileDeleted int

text \<open>An operation on file \<open>f\<close> that passes the checks of \<open>UpsertFile\<close> and of the table.\<close>

definition file_op_ok :: "string \<Rightarrow> string \<Rightarrow> uuid \<Rightarrow> file_op \<Rightarrow> bool" where
  "file_op_ok b t f op = (case op of
      FileIndexed v \<Rightarrow> fp_backend v = b \<and> fp_target v = t \<and> fp_file_entry_id v = f \<and> 0 < fp_index_epoch v \<and> fp_owner_id v \<noteq> 0 \<and>
        0 < fp_file_version v
    | FileDeleted n \<Rightarrow> True)"

definition pg_file_op :: "ctx \<Rightarrow> string \<Rightarrow> uuid \<Rightarrow> file_op \<Rightarrow> search_db \<Rightarrow> search_db result" where
  "pg_file_op cx b f op s = (case op of FileIndexed v \<Rightarrow> upsert_file cx v s | FileDeleted n \<Rightarrow> Inr (tombstone_file b f n s))"

definition es_file_op :: "uuid \<Rightarrow> file_op \<Rightarrow> es_doc option \<Rightarrow> es_doc option" where
  "es_file_op f op = es_update (case op of FileIndexed v \<Rightarrow> es_file_document v | FileDeleted n \<Rightarrow> es_file_tombstone f n)"

definition file_rows :: "string \<Rightarrow> string \<Rightarrow> uuid \<Rightarrow> search_db \<Rightarrow> file_row list" where
  "file_rows b t f s = filter (\<lambda>r. fp_backend r = b \<and> fp_target r = t \<and> fp_file_entry_id r = f) (sd_files s)"

definition row_doc :: "file_row \<Rightarrow> es_doc" where
  "row_doc r = es_file_document (file_projection.truncate r)"

lemma row_doc_fields [simp]:
  "row_doc r ''file_version'' = Some (EsInt (fp_file_version r))" "row_doc r ''index_epoch'' = Some (EsInt (fp_index_epoch r))"
  "row_doc r ''tombstone'' = Some (EsBool (fp_tombstone r))"
  "0 < fp_acl_version r \<Longrightarrow> row_doc r ''acl_version'' = Some (EsInt (fp_acl_version r))"
  by (simp_all add: row_doc_def es_file_document_def file_projection.defs Let_def)

lemma es_newer_missing [simp]: "d k = None \<Longrightarrow> \<not> es_newer k src d"
  by (auto simp: es_newer_def split: option.splits es_value.splits)

lemma es_newer_ints [simp]: "d k = Some (EsInt m) \<Longrightarrow> src k = Some (EsInt n) \<Longrightarrow> es_newer k src d = (m < n)"
  by (simp add: es_newer_def)

lemma es_file_document_over: "row_doc r ++ es_file_document v = es_file_document v"
  by (rule ext) (simp add: row_doc_def es_file_document_def Let_def map_add_def file_projection.defs)

definition normal_acl :: "file_projection \<Rightarrow> file_projection" where
  "normal_acl v = (if fp_acl_version v \<le> 0 then v\<lparr>fp_acl_version := 1\<rparr> else v)"

lemma row_doc_of_projection: "row_doc ((file_row_of cx (normal_acl v))\<lparr>fr_id := i\<rparr>) = es_file_document v"
  by (simp add: row_doc_def file_row_of_def file_projection.defs normal_acl_def es_file_document_def Let_def)

lemma es_index_step:
  assumes "0 < fp_acl_version r"
  shows "es_update (es_file_document v) (Some (row_doc r)) =
    Some (if file_supersedes r (file_row_of cx (normal_acl v)) then es_file_document v else row_doc r)"
proof -
  let ?d = "es_file_document v"
  have d: "?d ''file_version'' = Some (EsInt (fp_file_version v))" "?d ''index_epoch'' = Some (EsInt (fp_index_epoch v))"
    "?d ''acl_version'' = Some (EsInt (fp_acl_version (normal_acl v)))" "?d ''tombstone'' = Some (EsBool (fp_tombstone v))"
    by (simp_all add: es_file_document_def normal_acl_def Let_def)
  have row: "fp_file_version (file_row_of cx (normal_acl v)) = fp_file_version v" "fp_index_epoch (file_row_of cx (normal_acl v)) = fp_index_epoch v"
    "fp_acl_version (file_row_of cx (normal_acl v)) = fp_acl_version (normal_acl v)" "fp_tombstone (file_row_of cx (normal_acl v)) = fp_tombstone v"
    by (simp_all add: file_row_of_def normal_acl_def file_projection.defs)
  show ?thesis using assms
    by (auto simp: es_update_def es_projection_script_def d row file_supersedes_def es_file_document_over Let_def)
qed

lemma es_delete_step:
  assumes "0 < fp_acl_version r"
  shows "es_update (es_file_tombstone (fp_file_entry_id r) n) (Some (row_doc r)) =
    Some (row_doc (if fp_file_version r \<le> n then r\<lparr>fp_tombstone := True, fr_state := ''tombstoned'', fp_file_version := n\<rparr> else r))"
proof -
  let ?d = "es_file_tombstone (fp_file_entry_id r) n"
  have d: "?d ''file_version'' = Some (EsInt n)" "?d ''index_epoch'' = None" "?d ''acl_version'' = None" "?d ''tombstone'' = Some (EsBool True)"
    by (simp_all add: es_file_tombstone_def)
  have over: "row_doc r ++ ?d = row_doc (r\<lparr>fp_tombstone := True, fr_state := ''tombstoned'', fp_file_version := n\<rparr>)"
    by (rule ext) (simp add: row_doc_def es_file_document_def es_file_tombstone_def Let_def map_add_def file_projection.defs)
  show ?thesis by (auto simp: es_update_def es_projection_script_def d over)
qed

lemma filter_update_where:
  assumes "\<And>r. P r \<Longrightarrow> B r" "\<And>r. P (g r) = P r"
  shows "filter P (update_where (\<lambda>r. B r \<and> Q r) g l) = map (\<lambda>r. if Q r then g r else r) (filter P l)"
  by (induction l) (auto simp: assms)

lemma file_op_step:
  assumes "file_rows b t f s = [r]" "0 < fp_acl_version r" "file_op_ok b t f op" "f \<noteq> 0"
  obtains s' r' where "pg_file_op cx b f op s = Inr s'" "file_rows b t f s' = [r']" "0 < fp_acl_version r'"
    "es_file_op f op (Some (row_doc r)) = Some (row_doc r')"
proof (cases op)
  case (FileIndexed v)
  let ?row = "file_row_of cx (normal_acl v)"
  have v: "fp_backend v = b" "fp_target v = t" "fp_file_entry_id v = f" "0 < fp_index_epoch v" "fp_owner_id v \<noteq> 0" "0 < fp_file_version v"
    using assms(3) FileIndexed by (auto simp: file_op_ok_def)
  have same: "same_file (normal_acl v) r = (fp_backend r = b \<and> fp_target r = t \<and> fp_file_entry_id r = f)" for r :: file_row
    using v by (auto simp: same_file_def normal_acl_def)
  have ex: "exists_where (same_file (normal_acl v)) (sd_files s)"
    using assms(1) by (auto simp: exists_where_iff same file_rows_def filter_eq_Cons_iff)
  let ?s = "s\<lparr>sd_files := update_where (\<lambda>r. same_file (normal_acl v) r \<and> file_supersedes r ?row) (\<lambda>r. ?row\<lparr>fr_id := fr_id r\<rparr>) (sd_files s)\<rparr>"
  let ?r = "if file_supersedes r ?row then ?row\<lparr>fr_id := fr_id r\<rparr> else r"
  have up: "upsert_file cx v s = Inr ?s"
    using v assms(4) ex by (simp add: upsert_file_def Let_def normal_acl_def[symmetric]) (simp add: normal_acl_def)
  have key: "(fp_backend x = b \<and> fp_target x = t \<and> fp_file_entry_id x = f)" if "x = ?row\<lparr>fr_id := i\<rparr>" for x i
    using that v by (simp add: file_row_of_def normal_acl_def file_projection.defs)
  have "filter (\<lambda>r. fp_backend r = b \<and> fp_target r = t \<and> fp_file_entry_id r = f)
      (update_where (\<lambda>r. same_file (normal_acl v) r \<and> file_supersedes r ?row) (\<lambda>r. ?row\<lparr>fr_id := fr_id r\<rparr>) l) =
      map (\<lambda>r. if file_supersedes r ?row then ?row\<lparr>fr_id := fr_id r\<rparr> else r)
        (filter (\<lambda>r. fp_backend r = b \<and> fp_target r = t \<and> fp_file_entry_id r = f) l)" for l
    by (induction l) (use key[OF refl] in \<open>auto simp: same\<close>)
  then have rows: "file_rows b t f ?s = [?r]" using assms(1) by (simp add: file_rows_def)
  have "0 < fp_acl_version ?r" using assms(2) by (simp add: file_row_of_def normal_acl_def file_projection.defs)
  moreover have "es_file_op f op (Some (row_doc r)) = Some (row_doc ?r)"
    using es_index_step[OF assms(2), of v cx] row_doc_of_projection[where cx = cx and v = v and i = "fr_id r"] by (simp add: es_file_op_def FileIndexed)
  ultimately show ?thesis using that rows up by (simp add: pg_file_op_def FileIndexed)
next
  case (FileDeleted n)
  let ?g = "\<lambda>r. r\<lparr>fp_tombstone := True, fr_state := ''tombstoned'', fp_file_version := n\<rparr>"
  let ?r = "if fp_file_version r \<le> n then ?g r else r"
  have "filter (\<lambda>r. fp_backend r = b \<and> fp_target r = t \<and> fp_file_entry_id r = f)
      (update_where (\<lambda>r. (fp_backend r = b \<and> fp_file_entry_id r = f) \<and> fp_file_version r \<le> n) ?g (sd_files s)) = [?r]"
    by (subst filter_update_where) (use assms(1) in \<open>auto simp: file_rows_def\<close>)
  then have rows: "file_rows b t f (tombstone_file b f n s) = [?r]" by (simp add: file_rows_def tombstone_file_def)
  have "fp_file_entry_id r = f" using assms(1) by (auto simp: file_rows_def filter_eq_Cons_iff)
  then have "es_file_op f op (Some (row_doc r)) = Some (row_doc ?r)"
    using es_delete_step[OF assms(2), of n] by (simp add: es_file_op_def FileDeleted)
  moreover have "0 < fp_acl_version ?r" using assms(2) by simp
  ultimately show ?thesis using that rows by (simp add: pg_file_op_def FileDeleted)
qed

text \<open>C15: Elasticsearch and PostgreSQL keep the same file projection: once a file has a row and a document that
  agree, any further sequence of index and delete operations, late, repeated or out of order, succeeds in
  PostgreSQL and leaves the document equal to the row, so both backends accept and refuse the same operations.\<close>

theorem file_fences_agree:
  assumes "file_rows b t f s = [r]" "0 < fp_acl_version r" "\<forall>op \<in> set ops. file_op_ok b t f op" "f \<noteq> 0"
  shows "\<exists>s' r'. each_result (pg_file_op cx b f) ops s = Inr s' \<and> file_rows b t f s' = [r'] \<and>
    fold (es_file_op f) ops (Some (row_doc r)) = Some (row_doc r')"
  using assms(1-3)
proof (induction ops arbitrary: s r)
  case (Cons op ops)
  then obtain s1 r1 where s1: "pg_file_op cx b f op s = Inr s1" "file_rows b t f s1 = [r1]" "0 < fp_acl_version r1"
    "es_file_op f op (Some (row_doc r)) = Some (row_doc r1)"
    using Cons.prems(3) by - (rule file_op_step[where op = op and cx = cx, OF Cons.prems(1,2) _ assms(4)], auto)
  then show ?case using Cons.IH[OF s1(2,3)] Cons.prems(3) by simp
qed simp


definition ex_file :: file_projection where
  "ex_file = \<lparr> fp_backend = ''postgres'', fp_target = ''v1'', fp_file_entry_id = 7, fp_owner_id = 1, fp_folder_id = 2, fp_object_id = 3,
     fp_file_version = 1, fp_acl_version = 1, fp_name = [], fp_mime_type = [], fp_index_epoch = 1, fp_tombstone = False \<rparr>"

definition ex_files :: search_db where
  "ex_files = \<lparr> sd_facts = empty_db, sd_documents = [], sd_doc_versions = [], sd_chunks = [], sd_content = [],
     sd_files = [file_row_of gen_ctx ex_file], sd_versions = [], sd_checkpoints = [] \<rparr>"

text \<open>A deletion, a late update that both refuse, and a newer version that both accept.\<close>

lemma file_fences_agree_witness:
  "\<exists>s' r'. each_result (pg_file_op gen_ctx ''postgres'' 7) [FileDeleted 5, FileIndexed (ex_file\<lparr>fp_file_version := 4\<rparr>), FileIndexed (ex_file\<lparr>fp_file_version := 6\<rparr>)]
     ex_files = Inr s' \<and> file_rows ''postgres'' ''v1'' 7 s' = [r'] \<and>
    fold (es_file_op 7) [FileDeleted 5, FileIndexed (ex_file\<lparr>fp_file_version := 4\<rparr>), FileIndexed (ex_file\<lparr>fp_file_version := 6\<rparr>)]
     (Some (row_doc (file_row_of gen_ctx ex_file))) = Some (row_doc r')"
  by (rule file_fences_agree[where t = "''v1''"])
    (simp_all add: file_rows_def ex_files_def ex_file_def file_row_of_def file_projection.defs file_op_ok_def)

section \<open>Deleted content stays invisible in Elasticsearch\<close>

text \<open>\<open>ContentDeleted\<close> is \<open>TombstoneObjectContent\<close>: the marker first, then the update by query on the documents that
  the index has refreshed so far.\<close>

datatype chunk_op = ChunkIndexed uuid es_doc | ContentDeleted uuid int "string set"

definition es_mask :: "string set \<Rightarrow> uuid \<Rightarrow> int \<Rightarrow> es_index \<Rightarrow> es_index" where
  "es_mask seen oid epoch idx = (\<lambda>k. case idx k of None \<Rightarrow> None
    | Some d \<Rightarrow> if k \<in> seen \<and> d ''object_id'' = Some (EsUuid oid)
        then (case d ''index_epoch'' of
            Some (EsInt n) \<Rightarrow> if n \<le> epoch then Some (d(''tombstone'' \<mapsto> EsBool True, ''index_epoch'' \<mapsto> EsInt epoch)) else Some d
          | _ \<Rightarrow> Some d)
        else Some d)"

definition es_chunk_op :: "chunk_op \<Rightarrow> es_index \<Rightarrow> es_index" where
  "es_chunk_op op idx = (case op of
      ChunkIndexed c d \<Rightarrow> es_put (uuid_string c) d idx
    | ContentDeleted oid e seen \<Rightarrow> es_mask seen oid e (es_put (object_tombstone_id oid) (es_object_tombstone oid e) idx))"

lemma es_chunk_op_simps [simp]:
  "es_chunk_op (ChunkIndexed c d) idx = es_put (uuid_string c) d idx"
  "es_chunk_op (ContentDeleted oid e seen) idx = es_mask seen oid e (es_put (object_tombstone_id oid) (es_object_tombstone oid e) idx)"
  by (simp_all add: es_chunk_op_def)

definition deletion_epochs :: "uuid \<Rightarrow> chunk_op list \<Rightarrow> int set" where
  "deletion_epochs oid ops = {e. \<exists>seen. ContentDeleted oid e seen \<in> set ops}"

text \<open>What \<open>_mget\<close> answers for the marker of an object.\<close>

definition mget_answer :: "es_index \<Rightarrow> uuid \<Rightarrow> mget_doc" where
  "mget_answer idx oid = (case idx (object_tombstone_id oid) of
      None \<Rightarrow> MgetMissing | Some d \<Rightarrow> MgetFound (uuid_field ''object_id'' d) (int_field ''index_epoch'' d))"

lemma object_tombstone_id_inj [simp]: "object_tombstone_id a = object_tombstone_id b \<longleftrightarrow> a = b"
  by (simp add: object_tombstone_id_def uuid_string_inj)

lemma object_tombstone_id_not_chunk [simp]: "object_tombstone_id a \<noteq> uuid_string c"
proof
  assume "object_tombstone_id a = uuid_string c"
  from arg_cong[OF this, of length] show False by (simp add: object_tombstone_id_def)
qed

lemma marker_written:
  "es_update (es_object_tombstone oid e) None = Some (es_object_tombstone oid e)"
  "es_update (es_object_tombstone oid e) (Some (es_object_tombstone oid n)) = Some (es_object_tombstone oid (max n e))"
proof -
  have d: "es_object_tombstone oid m ''file_version'' = None" "es_object_tombstone oid m ''acl_version'' = None"
    "es_object_tombstone oid m ''index_epoch'' = Some (EsInt m)" "es_object_tombstone oid m ''tombstone'' = Some (EsBool True)" for m
    by (simp_all add: es_object_tombstone_def)
  have over: "es_object_tombstone oid m ++ es_object_tombstone oid e = es_object_tombstone oid e" for m
    by (rule ext) (simp add: es_object_tombstone_def map_add_def)
  show "es_update (es_object_tombstone oid e) None = Some (es_object_tombstone oid e)"
    by (simp add: es_update_def es_projection_script_def d) (simp add: es_newer_def)
  show "es_update (es_object_tombstone oid e) (Some (es_object_tombstone oid n)) = Some (es_object_tombstone oid (max n e))"
    by (simp add: es_update_def es_projection_script_def d over max_def)
qed

lemma marker_masked:
  assumes "idx (object_tombstone_id oid) = Some (es_object_tombstone oid n)" "a = oid \<longrightarrow> e \<le> n"
  shows "es_mask seen a e idx (object_tombstone_id oid) = Some (es_object_tombstone oid n)"
proof -
  have "(es_object_tombstone oid n)(''tombstone'' \<mapsto> EsBool True, ''index_epoch'' \<mapsto> EsInt n) = es_object_tombstone oid n"
    by (rule ext) (simp add: es_object_tombstone_def)
  then show ?thesis using assms by (auto simp: es_mask_def es_object_tombstone_def)
qed

lemma finite_deletion_epochs: "finite (deletion_epochs oid ops)"
proof -
  have "deletion_epochs oid ops \<subseteq> (\<lambda>op. case op of ContentDeleted a e seen \<Rightarrow> e | _ \<Rightarrow> 0) ` set ops"
    by (force simp: deletion_epochs_def)
  then show ?thesis by (rule finite_subset) simp
qed

text \<open>The marker of an object holds the newest epoch in which it was deleted.\<close>

lemma marker_newest:
  "fold es_chunk_op ops Map.empty (object_tombstone_id oid) =
     (if deletion_epochs oid ops = {} then None else Some (es_object_tombstone oid (Max (deletion_epochs oid ops))))"
proof (induction ops rule: rev_induct)
  case Nil
  show ?case by (simp add: deletion_epochs_def)
next
  case (snoc op ops)
  let ?idx = "fold es_chunk_op ops Map.empty" and ?E = "deletion_epochs oid ops"
  consider (other) a e seen where "op = ContentDeleted a e seen" "a \<noteq> oid" | (own) e seen where "op = ContentDeleted oid e seen"
    | (chunk) c d where "op = ChunkIndexed c d"
    by (cases op) auto
  then show ?case
  proof cases
    case other
    let ?put = "es_put (object_tombstone_id a) (es_object_tombstone a e) ?idx"
    have put: "?put (object_tombstone_id oid) = ?idx (object_tombstone_id oid)" using other by (simp add: es_put_def)
    have E: "deletion_epochs oid (ops @ [op]) = ?E" using other by (auto simp: deletion_epochs_def)
    show ?thesis
    proof (cases "?E = {}")
      case True
      then have "?put (object_tombstone_id oid) = None" using put snoc.IH by simp
      then have "es_mask seen a e ?put (object_tombstone_id oid) = None" by (simp add: es_mask_def)
      then show ?thesis using True E by (simp add: other(1))
    next
      case False
      then have "?put (object_tombstone_id oid) = Some (es_object_tombstone oid (Max ?E))" using put snoc.IH by simp
      then show ?thesis using marker_masked[of ?put oid "Max ?E" a e seen] other E False by simp
    qed
  next
    case own
    let ?put = "es_put (object_tombstone_id oid) (es_object_tombstone oid e) ?idx"
    have E: "deletion_epochs oid (ops @ [op]) = insert e ?E" using own by (auto simp: deletion_epochs_def)
    have "?put (object_tombstone_id oid) = Some (es_object_tombstone oid (Max (insert e ?E)))"
      using snoc.IH marker_written finite_deletion_epochs[of oid ops] by (auto simp: es_put_def max.commute)
    moreover have "e \<le> Max (insert e ?E)" using finite_deletion_epochs by simp
    ultimately show ?thesis using marker_masked[of ?put oid "Max (insert e ?E)" oid e seen] own E by simp
  next
    case chunk
    have "deletion_epochs oid (ops @ [op]) = ?E" using chunk by (auto simp: deletion_epochs_def)
    then show ?thesis using snoc.IH chunk by (simp add: es_put_def)
  qed
qed

lemma set_unique_objects: "set (unique_objects cs) = ca_object_id ` set cs"
proof -
  have "set (fold (\<lambda>c ids. if ca_object_id c \<in> set ids then ids else ids @ [ca_object_id c]) cs ids) = set ids \<union> ca_object_id ` set cs" for ids
    by (induction cs arbitrary: ids) auto
  from this[of "[]"] show ?thesis by (simp add: unique_objects_def)
qed

lemma es_visible_deletions:
  "es_visible (Inr (map (mget_answer (fold es_chunk_op ops Map.empty)) (unique_objects cs))) cs =
    Inr (filter (\<lambda>c. \<forall>e \<in> deletion_epochs (ca_object_id c) ops. e < ca_index_epoch c) cs)"
proof (cases "cs = []")
  case False
  let ?E = "\<lambda>oid. deletion_epochs oid ops"
  let ?step = "\<lambda>d m. case d of MgetFound oid e \<Rightarrow> m(oid \<mapsto> e) | _ \<Rightarrow> m"
  have answer: "mget_answer (fold es_chunk_op ops Map.empty) oid = (if ?E oid = {} then MgetMissing else MgetFound oid (Max (?E oid)))" for oid
    by (simp add: mget_answer_def marker_newest es_object_tombstone_def uuid_field_def int_field_def)
  have deleted: "fold ?step (map (\<lambda>oid. if ?E oid = {} then MgetMissing else MgetFound oid (Max (?E oid))) os) m oid =
     (if oid \<in> set os \<and> ?E oid \<noteq> {} then Some (Max (?E oid)) else m oid)" for os m oid
    by (induction os arbitrary: m) auto
  have "filter (\<lambda>c. case fold ?step (map (\<lambda>oid. if ?E oid = {} then MgetMissing else MgetFound oid (Max (?E oid))) (unique_objects cs)) Map.empty (ca_object_id c) of
      None \<Rightarrow> True | Some e \<Rightarrow> e < ca_index_epoch c) cs = filter (\<lambda>c. \<forall>e \<in> ?E (ca_object_id c). e < ca_index_epoch c) cs"
    by (rule filter_cong) (auto simp: deleted set_unique_objects finite_deletion_epochs)
  then show ?thesis using False unfolding answer by (auto simp: es_visible_def Let_def image_iff)
qed (simp add: es_visible_def)


text \<open>C13: Whatever was indexed and deleted in an Elasticsearch generation, in whatever order and whatever the search
  itself still returns, a search shows exactly those of its hits whose object has no deletion in their epoch or a
  later one, or fails when deletions emptied a full page of hits: no late write brings deleted content back.\<close>

theorem es_search_hides_deleted:
  assumes "er_hits r = Some hits" "\<not> er_timed_out r" "er_failed_shards r \<le> 0" "cs = List.map_filter (candidate_from_map kind) hits"
    "live = filter (\<lambda>c. \<forall>e \<in> deletion_epochs (ca_object_id c) ops. e < ca_index_epoch c) cs"
  shows "es_search kind n (Inr r) (\<lambda>found. Inr (map (mget_answer (fold es_chunk_op ops Map.empty)) (unique_objects found))) =
    (if bounded_limit n \<le> int (length hits) \<and> live \<noteq> cs
     then Inl (ErrWrap err_search_unavailable ''deleted candidates exhausted retrieval budget'') else Inr live)"
proof -
  have "length (filter P xs) < length xs \<longleftrightarrow> filter P xs \<noteq> xs" for P and xs :: "candidate list"
    using length_filter_less[of _ xs P] by (metis filter_id_conv length_filter_le less_irrefl)
  then show ?thesis using assms by (simp add: es_search_def Let_def es_visible_deletions[where ops = ops])
qed

definition ex_chunk :: "uuid \<Rightarrow> int \<Rightarrow> es_doc" where
  "ex_chunk oid epoch = [''chunk_id'' \<mapsto> EsUuid 11, ''object_id'' \<mapsto> EsUuid oid, ''index_epoch'' \<mapsto> EsInt epoch]"

text \<open>Object 3 was deleted in epoch 2 and its chunk of that epoch indexed late.\<close>

lemma es_search_hides_deleted_witness:
  "es_search ''text'' 10 (Inr \<lparr> er_timed_out = False, er_failed_shards = 0, er_hits = Some [ex_chunk 3 2, ex_chunk 3 4] \<rparr>)
     (\<lambda>found. Inr (map (mget_answer (fold es_chunk_op [ContentDeleted 3 2 {}, ChunkIndexed 11 (ex_chunk 3 2)] Map.empty)) (unique_objects found))) =
   Inr (List.map_filter (candidate_from_map ''text'') [ex_chunk 3 4])"
proof -
  have E: "deletion_epochs 3 [ContentDeleted 3 2 {}, ChunkIndexed 11 (ex_chunk 3 2)] = {2}" by (auto simp: deletion_epochs_def)
  have c: "candidate_from_map ''text'' (ex_chunk 3 n) = Some \<lparr> ca_chunk_id = 11, ca_object_id = 3, ca_document_version_id = 0,
      ca_file_entry_id = None, ca_index_epoch = n, ca_pipeline_version = [], ca_model_version = [], ca_match_type = ''text'' \<rparr>" for n
    by (simp add: candidate_from_map_def ex_chunk_def uuid_field_def int_field_def string_field_def Let_def)
  let ?r = "\<lparr> er_timed_out = False, er_failed_shards = 0, er_hits = Some [ex_chunk 3 2, ex_chunk 3 4] \<rparr>"
  have cs: "List.map_filter (candidate_from_map ''text'') [ex_chunk 3 2, ex_chunk 3 4] = List.map_filter (candidate_from_map ''text'') [ex_chunk 3 2] @
      List.map_filter (candidate_from_map ''text'') [ex_chunk 3 4]"
    by (simp add: List.map_filter_simps c)
  have live: "List.map_filter (candidate_from_map ''text'') [ex_chunk 3 4] =
      filter (\<lambda>c. \<forall>e \<in> deletion_epochs (ca_object_id c) [ContentDeleted 3 2 {}, ChunkIndexed 11 (ex_chunk 3 2)]. e < ca_index_epoch c)
        (List.map_filter (candidate_from_map ''text'') [ex_chunk 3 2] @ List.map_filter (candidate_from_map ''text'') [ex_chunk 3 4])"
    by (simp add: List.map_filter_simps c E)
  have "er_hits ?r = Some [ex_chunk 3 2, ex_chunk 3 4]" "\<not> er_timed_out ?r" "er_failed_shards ?r \<le> 0" by simp_all
  from es_search_hides_deleted[OF this cs[symmetric] live, of 10] show ?thesis by (simp add: bounded_limit_def)
qed

section \<open>Deletions in Qdrant\<close>

text \<open>\<open>PointErased\<close> is \<open>TombstoneObjectContent\<close>, or the deletion of one chunk; the mask may fail after the record is
  written.  \<open>PointsMasked\<close> is \<open>maskDeletedPoints\<close> after an upsert.\<close>

datatype point_op = PointPut uuid uuid int | PointErased bool uuid int bool | PointsMasked "uuid set"

definition erase_scope :: "bool \<Rightarrow> string" where
  "erase_scope chunk = (if chunk then ''chunk'' else ''object'')"

definition mask_points :: "uuid set \<Rightarrow> (uuid \<rightharpoonup> qpoint) \<Rightarrow> (uuid \<rightharpoonup> qpoint)" where
  "mask_points ids q = (\<lambda>u. case q u of Some (QContent c oid e t) \<Rightarrow> Some (QContent c oid e (t \<or> u \<in> ids)) | p \<Rightarrow> p)"

definition point_op :: "(string \<Rightarrow> uuid) \<Rightarrow> point_op \<Rightarrow> (uuid \<rightharpoonup> qpoint) \<Rightarrow> (uuid \<rightharpoonup> qpoint)" where
  "point_op sha op q = (case op of
      PointPut c oid e \<Rightarrow> put_content sha c oid e q
    | PointErased chunk subject e masked \<Rightarrow>
        (let q' = write_tombstone sha (erase_scope chunk) subject e q in
         if masked then mask_tombstone (erase_scope chunk) subject e q' else q')
    | PointsMasked ids \<Rightarrow> mask_points ids q)"

lemma point_op_simps [simp]:
  "point_op sha (PointPut c oid e) q = put_content sha c oid e q"
  "point_op sha (PointErased chunk subject e True) q =
     mask_tombstone (erase_scope chunk) subject e (write_tombstone sha (erase_scope chunk) subject e q)"
  "point_op sha (PointErased chunk subject e False) q = write_tombstone sha (erase_scope chunk) subject e q"
  "point_op sha (PointsMasked ids) q = mask_points ids q"
  by (simp_all add: point_op_def)

definition op_name :: "point_op \<Rightarrow> string set" where
  "op_name op = (case op of PointPut c oid e \<Rightarrow> {qdrant_content_name c e}
    | PointErased chunk subject e masked \<Rightarrow> {qdrant_tombstone_name (erase_scope chunk) subject e} | PointsMasked ids \<Rightarrow> {})"

definition op_names :: "point_op list \<Rightarrow> string set" where "op_names ops = (\<Union>op \<in> set ops. op_name op)"

definition erased :: "point_op list \<Rightarrow> candidate \<Rightarrow> bool" where
  "erased ops c \<longleftrightarrow> (\<exists>chunk e masked. PointErased chunk (if chunk then ca_chunk_id c else ca_object_id c) e masked \<in> set ops \<and>
     ca_index_epoch c \<le> e)"

text \<open>The filter of the scroll.\<close>

definition matched_deletions :: "(uuid \<rightharpoonup> qpoint) \<Rightarrow> candidate list \<Rightarrow> tombstone_point set" where
  "matched_deletions q cs = {\<lparr> tp_scope = scope, tp_subject = uuid_string subject, tp_epoch = e \<rparr> |scope subject e.
     QTombstone scope subject e \<in> ran q \<and> min_epoch cs \<le> e \<and>
     (\<exists>c \<in> set cs. subject = ca_object_id c \<or> subject = ca_chunk_id c)}"

lemma hidden_record:
  assumes "0 < tp_epoch t"
  shows "hidden (record_deletion t m) k e \<longleftrightarrow> hidden m k e \<or> deleted_key (tp_scope t) (tp_subject t) = k \<and> e \<le> tp_epoch t"
  using assms by (auto simp: record_deletion_def hidden_def Let_def split: option.splits)

lemma hidden_records:
  "\<forall>t \<in> set ts. 0 < tp_epoch t \<Longrightarrow>
   hidden (fold record_deletion ts m) k e \<longleftrightarrow> hidden m k e \<or> (\<exists>t \<in> set ts. deleted_key (tp_scope t) (tp_subject t) = k \<and> e \<le> tp_epoch t)"
  by (induction ts arbitrary: m) (auto simp: hidden_record)

lemma scroll_pages:
  "ps \<noteq> [] \<Longrightarrow> length ps \<le> n \<Longrightarrow> scroll_deletions n (map Inr ps) m = Inr (fold record_deletion (concat ps) m)"
proof (induction ps arbitrary: n m)
  case (Cons p ps)
  then obtain n' where "n = Suc n'" by (cases n) auto
  then show ?case using Cons by (cases "ps = []") auto
qed simp

lemma min_epoch_le:
  assumes "c \<in> set cs"
  shows "min_epoch cs \<le> ca_index_epoch c"
proof -
  let ?f = "\<lambda>c m. if ca_index_epoch c < m then ca_index_epoch c else m"
  have le: "fold ?f xs m \<le> m" for xs m
  proof (induction xs arbitrary: m)
    case (Cons x xs)
    have "fold ?f xs (?f x m) \<le> ?f x m" by (rule Cons.IH)
    also have "\<dots> \<le> m" by simp
    finally show ?case by (simp only: fold_simps)
  qed simp
  have "c \<in> set xs \<Longrightarrow> fold ?f xs m \<le> ca_index_epoch c" for xs m
  proof (induction xs arbitrary: m)
    case (Cons x xs)
    show ?case
    proof (cases "c \<in> set xs")
      case False
      then show ?thesis using Cons.prems le[of xs "?f c m"] by (auto split: if_splits)
    qed (use Cons.IH in simp)
  qed simp
  then show ?thesis using assms by (simp add: min_epoch_def)
qed

lemma tombstone_name_inj:
  "qdrant_tombstone_name (erase_scope a) s e = qdrant_tombstone_name (erase_scope b) s' e' \<longleftrightarrow> a = b \<and> s = s' \<and> e = e'"
proof
  assume eq: "qdrant_tombstone_name (erase_scope a) s e = qdrant_tombstone_name (erase_scope b) s' e'"
  have "a = b" using eq by (cases a; cases b) (simp_all add: qdrant_tombstone_name_def erase_scope_def)
  then have "uuid_string s @ '':'' @ int_string e = uuid_string s' @ '':'' @ int_string e'" using eq by (simp add: qdrant_tombstone_name_def)
  then have "uuid_string s = uuid_string s' \<and> int_string e = int_string e'"
    by (subst (asm) append_eq_append_conv) auto
  then show "a = b \<and> s = s' \<and> e = e'" using \<open>a = b\<close> int_string_inj by (simp add: uuid_string_inj)
qed simp

lemma content_name_not_tombstone: "qdrant_content_name c e \<noteq> qdrant_tombstone_name scope s e'"
  by (simp add: qdrant_content_name_def qdrant_tombstone_name_def)

lemma erase_scope_inj [simp]: "erase_scope a = erase_scope b \<longleftrightarrow> a = b"
  by (simp add: erase_scope_def)

text \<open>Deletion records are append-only: every one that was written is still there under its own identifier.\<close>

lemma deletion_records:
  assumes "inj_on sha (op_names ops)"
  shows "fold (point_op sha) ops Map.empty u = Some (QTombstone scope s e) \<longleftrightarrow>
    (\<exists>chunk masked. PointErased chunk s e masked \<in> set ops \<and> scope = erase_scope chunk \<and> u = sha (qdrant_tombstone_name scope s e))"
  using assms
proof (induction ops rule: rev_induct)
  case Nil
  show ?case by simp
next
  case (snoc op ops)
  let ?q = "fold (point_op sha) ops Map.empty"
  have names: "op_names (ops @ [op]) = op_name op \<union> op_names ops" by (auto simp: op_names_def)
  have IH: "?q u = Some (QTombstone scope s e) \<longleftrightarrow>
      (\<exists>chunk masked. PointErased chunk s e masked \<in> set ops \<and> scope = erase_scope chunk \<and> u = sha (qdrant_tombstone_name scope s e))"
    using snoc.IH snoc.prems unfolding names by (auto intro: inj_on_subset)
  have there: "PointErased chunk s e masked \<in> set ops \<Longrightarrow> qdrant_tombstone_name (erase_scope chunk) s e \<in> op_names ops" for chunk masked
    by (force simp: op_names_def op_name_def)
  show ?case
  proof (cases op)
    case (PointPut c oid ep)
    have "sha (qdrant_content_name c ep) \<noteq> sha (qdrant_tombstone_name (erase_scope chunk) s e)"
      if "PointErased chunk s e masked \<in> set ops" for chunk masked
      using inj_onD[OF snoc.prems, of "qdrant_content_name c ep" "qdrant_tombstone_name (erase_scope chunk) s e"]
        there[OF that] content_name_not_tombstone by (auto simp: names[unfolded PointPut] op_name_def PointPut)
    then show ?thesis using IH by (auto simp: PointPut put_content_def)
  next
    case (PointErased chunk subject ep masked)
    have same: "sha (qdrant_tombstone_name (erase_scope chunk) subject ep) = sha (qdrant_tombstone_name (erase_scope b) s e) \<longleftrightarrow>
        chunk = b \<and> subject = s \<and> ep = e" if "PointErased b s e m \<in> set ops" for b m
      using inj_onD[OF snoc.prems, of "qdrant_tombstone_name (erase_scope chunk) subject ep" "qdrant_tombstone_name (erase_scope b) s e"]
        there[OF that] tombstone_name_inj by (auto simp: names[unfolded PointErased] op_name_def PointErased)
    have mask: "mask_tombstone sc x y q u = Some (QTombstone scope s e) \<longleftrightarrow> q u = Some (QTombstone scope s e)" for sc x y q
      by (auto simp: mask_tombstone_def split: option.splits qpoint.splits)
    have "point_op sha op ?q u = Some (QTombstone scope s e) \<longleftrightarrow>
      write_tombstone sha (erase_scope chunk) subject ep ?q u = Some (QTombstone scope s e)"
      by (cases masked) (simp_all add: PointErased mask)
    also have "\<dots> \<longleftrightarrow> (u = sha (qdrant_tombstone_name (erase_scope chunk) subject ep) \<and> scope = erase_scope chunk \<and> subject = s \<and> ep = e) \<or>
        ?q u = Some (QTombstone scope s e)"
      using same IH by (auto simp: write_tombstone_def)
    finally show ?thesis using IH by (auto simp: PointErased)
  next
    case (PointsMasked ids)
    have "mask_points ids ?q u = Some (QTombstone scope s e) \<longleftrightarrow> ?q u = Some (QTombstone scope s e)"
      by (auto simp: mask_points_def split: option.splits qpoint.splits)
    then show ?thesis using IH by (simp add: PointsMasked)
  qed
qed


text \<open>C14: Deletions in Qdrant are final: whatever was put, masked and deleted in a collection, in whatever order, a
  search drops exactly the candidates whose object or chunk was deleted in their epoch or a later one, however
  many pages (up to sixteen) the deletion records fill and in whatever order they come; a seventeenth page is
  an error and not an incomplete answer.\<close>

theorem qdrant_deletions_final:
  assumes "q = fold (point_op sha) ops Map.empty" "inj_on sha (op_names ops)"
    "\<forall>op \<in> set ops. case op of PointErased chunk subject e masked \<Rightarrow> 0 < e | _ \<Rightarrow> True"
    "ps \<noteq> []" "set (concat ps) = matched_deletions q cs" "cs \<noteq> []"
  shows "qdrant_visible (map Inr ps) cs = (if length ps \<le> 16 then Inr (filter (\<lambda>c. \<not> erased ops c) cs)
    else Inl (ErrWrap err_search_unavailable ''tombstone lookup budget exceeded''))"
proof (cases "length ps \<le> 16")
  case True
  have ran: "QTombstone scope s e \<in> ran q \<longleftrightarrow> (\<exists>chunk masked. PointErased chunk s e masked \<in> set ops \<and> scope = erase_scope chunk)" for scope s e
    using deletion_records[OF assms(2)] by (auto simp: ran_def assms(1))
  have pos: "\<forall>t \<in> set (concat ps). 0 < tp_epoch t"
    unfolding assms(5) matched_deletions_def ran using assms(3) by fastforce
  have key: "deleted_key (erase_scope a) (uuid_string x) = deleted_key (erase_scope b) (uuid_string y) \<longleftrightarrow> a = b \<and> x = y" for a b x y
    by (cases a; cases b) (simp_all add: deleted_key_def erase_scope_def uuid_string_inj)
  have hid: "hidden (fold record_deletion (concat ps) Map.empty) (deleted_key (erase_scope b) (uuid_string x)) (ca_index_epoch c) \<longleftrightarrow>
      (\<exists>e masked. PointErased b x e masked \<in> set ops \<and> ca_index_epoch c \<le> e)"
    if "c \<in> set cs" "x = ca_object_id c \<or> x = ca_chunk_id c" for b x c
  proof -
    have "hidden (fold record_deletion (concat ps) Map.empty) (deleted_key (erase_scope b) (uuid_string x)) (ca_index_epoch c) \<longleftrightarrow>
      (\<exists>t \<in> matched_deletions q cs. deleted_key (tp_scope t) (tp_subject t) = deleted_key (erase_scope b) (uuid_string x) \<and> ca_index_epoch c \<le> tp_epoch t)"
      using hidden_records[OF pos] unfolding assms(5) by (simp add: hidden_def)
    also have "\<dots> \<longleftrightarrow> (\<exists>e masked. PointErased b x e masked \<in> set ops \<and> min_epoch cs \<le> e \<and> ca_index_epoch c \<le> e)"
      using that by (fastforce simp: matched_deletions_def ran key)
    finally show ?thesis using min_epoch_le[OF that(1)] by (meson order_trans)
  qed
  have "filter (\<lambda>c. \<not> hidden (fold record_deletion (concat ps) Map.empty) (deleted_key ''object'' (uuid_string (ca_object_id c))) (ca_index_epoch c) \<and>
      \<not> hidden (fold record_deletion (concat ps) Map.empty) (deleted_key ''chunk'' (uuid_string (ca_chunk_id c))) (ca_index_epoch c)) cs =
    filter (\<lambda>c. \<not> erased ops c) cs"
  proof (rule filter_cong[OF refl])
    fix c assume c: "c \<in> set cs"
    have "erased ops c \<longleftrightarrow> (\<exists>e masked. PointErased False (ca_object_id c) e masked \<in> set ops \<and> ca_index_epoch c \<le> e) \<or>
        (\<exists>e masked. PointErased True (ca_chunk_id c) e masked \<in> set ops \<and> ca_index_epoch c \<le> e)"
      by (simp add: erased_def ex_bool_eq disj_commute)
    then show "(\<not> hidden (fold record_deletion (concat ps) Map.empty) (deleted_key ''object'' (uuid_string (ca_object_id c))) (ca_index_epoch c) \<and>
      \<not> hidden (fold record_deletion (concat ps) Map.empty) (deleted_key ''chunk'' (uuid_string (ca_chunk_id c))) (ca_index_epoch c)) = (\<not> erased ops c)"
      using hid[OF c, of "ca_object_id c" False] hid[OF c, of "ca_chunk_id c" True] by (simp add: erase_scope_def)
  qed
  then show ?thesis using True assms(4,6) scroll_pages[OF assms(4) True] by (simp add: qdrant_visible_def)
next
  case False
  have "n < length ps \<Longrightarrow> scroll_deletions n (map Inr ps) m = Inl (ErrWrap err_search_unavailable ''tombstone lookup budget exceeded'')" for n m
  proof (induction n arbitrary: ps m)
    case (Suc n)
    then show ?case by (cases ps) auto
  qed simp
  then show ?thesis using False assms(6) by (simp add: qdrant_visible_def)
qed


definition ex_sha :: "string \<Rightarrow> uuid" where "ex_sha n = (if hd n = CHR ''c'' then 1 else 2)"

definition ex_points :: "point_op list" where "ex_points = [PointErased False 3 5 False, PointPut 11 3 4]"

definition ex_candidate :: candidate where
  "ex_candidate = \<lparr> ca_chunk_id = 11, ca_object_id = 3, ca_document_version_id = 1, ca_file_entry_id = None, ca_index_epoch = 4,
     ca_pipeline_version = [], ca_model_version = [], ca_match_type = ''vector'' \<rparr>"

lemma qdrant_deletions_final_witness:
  "qdrant_visible (map Inr [[\<lparr> tp_scope = ''object'', tp_subject = uuid_string 3, tp_epoch = 5 \<rparr>]]) [ex_candidate] = Inr []"
proof -
  have q: "fold (point_op ex_sha) ex_points Map.empty = [2 \<mapsto> QTombstone ''object'' 3 5, 1 \<mapsto> QContent 11 3 4 False]"
    by (simp add: ex_points_def put_content_def write_tombstone_def ex_sha_def qdrant_content_name_def qdrant_tombstone_name_def
        erase_scope_def)
  have names: "inj_on ex_sha (op_names ex_points)"
    by (simp add: ex_points_def op_names_def op_name_def ex_sha_def qdrant_content_name_def qdrant_tombstone_name_def)
  have ran: "QTombstone scope s e \<in> ran [2 :: uuid \<mapsto> QTombstone ''object'' 3 5, 1 \<mapsto> QContent 11 3 4 False] \<longleftrightarrow> scope = ''object'' \<and> s = 3 \<and> e = 5"
    for scope s e
    by (auto simp: ran_def)
  have "set (concat [[\<lparr> tp_scope = ''object'', tp_subject = uuid_string 3, tp_epoch = 5 \<rparr>]]) =
      matched_deletions [2 \<mapsto> QTombstone ''object'' 3 5, 1 \<mapsto> QContent 11 3 4 False] [ex_candidate]"
    by (auto simp: matched_deletions_def ran min_epoch_def ex_candidate_def)
  from qdrant_deletions_final[OF q[symmetric] names _ _ this] show ?thesis
    by (auto simp: ex_points_def erased_def ex_candidate_def)
qed

end
