(* ===== verification/Spec2Isabelle.thy ===== *)
theory Spec2Isabelle
  imports Breaker Registration UploadFlow SharingFlow Workflow RecoveryFlow Scheduler ChunkFlow Cache Backfill SearchFencing
begin

text \<open>
  A verification library for the Go backend of BX YunPan, a private file drive: users upload content
  to object storage in parts, file it in folders, share it by secret keys, and a set of workers carries
  out everything that is not done in a request.  The theories below model the packages under
  \<open>src/backend/internal\<close> that hold this logic, in the order the code calls them, and prove what makes
  them correct.

  \<^bold>\<open>The program.\<close>  All packages share one PostgreSQL database.  A request runs one transaction of
  \<open>identity\<close>, \<open>drive\<close>, \<open>upload\<close> or \<open>sharing\<close>; the transaction writes its business rows, advances the
  owner's epochs (\<open>ownerepoch\<close>), enqueues object-storage work (\<open>storageops\<close>) and records an event with
  its deliveries (\<open>outbox\<close>, payloads from \<open>eventcontract\<close>).  A dispatcher (\<open>outbox/dispatcher.go\<close>) claims
  due deliveries, publishes them as tasks and settles the rows.  Consumers (\<open>taskqueue\<close>) take the tasks
  by weighted round robin, claim an execution per task, run a handler (\<open>upload\<close>'s verification,
  \<open>objectstore\<close>'s garbage collection and others) and settle the message.  \<open>workflow\<close> is a durable saga
  for longer actions, \<open>recovery\<close> scans for work whose events were lost, \<open>ai/rag\<close> cuts documents into
  chunks for indexing, \<open>search\<close> projects files and chunks into the search index, \<open>platform/cache\<close> keeps read models and \<open>platform/breaker\<close> guards calls to other
  services.

  \<^bold>\<open>Theories.\<close>
  \<^item> \<open>Prelude\<close>, \<open>GoText\<close>, \<open>GoErrors\<close>: tables as lists of rows with the statement shapes of the code, Go's
    string functions, errors as values with \<open>errors.Is\<close>; the simp and intro collections of the rest.
  \<^item> \<open>EventContract\<close> (\<open>eventcontract\<close>): payload structs, registry, decoding, envelopes.
  \<^item> \<open>Database\<close> (the \<open>model.go\<close> files and migrations): the record \<open>db\<close> of all tables and their constraints.
  \<^item> \<open>Lease\<close>: the contract of leased work as two locales, \<open>lease_fence\<close> and \<open>lease_contract\<close>, interpreted
    on the storage operations (\<open>StorageOps\<close>), the task executions (\<open>TaskLifecycle\<close>) and the outbox
    deliveries (\<open>DispatchFlow\<close>).  \<open>Quota\<close>: the quota interface as a locale, interpreted in \<open>Identity\<close>.
  \<^item> \<open>StorageOps\<close> (\<open>storageops\<close>), \<open>OwnerEpoch\<close> (\<open>ownerepoch\<close>), \<open>Outbox\<close> (\<open>outbox/outbox.go\<close>, \<open>routes.go\<close>,
    \<open>compat.go\<close>), \<open>Identity\<close> (\<open>identity\<close>), \<open>Registration\<close> (its composition with \<open>drive.ProvisionUser\<close>),
    \<open>ObjectStore\<close> (\<open>objectstore\<close>), \<open>Breaker\<close> (\<open>platform/breaker\<close>): operations, invariants and properties.
  \<^item> \<open>Drive\<close> (\<open>drive/service.go\<close>, \<open>files.go\<close>) with \<open>FolderTree\<close> (the folders stay a forest), \<open>DriveWrites\<close>
    (versions fence writes) and \<open>DrivePages\<close> (keyset paging).
  \<^item> \<open>Upload\<close> (\<open>upload\<close>) with \<open>UploadAccounting\<close> (quota balance and state machine over all interleavings)
    and \<open>UploadFlow\<close> (part plan, replays, verification, maintenance).
  \<^item> \<open>Base64\<close>, \<open>Sharing\<close> (\<open>sharing\<close>) with \<open>SharingFlow\<close> (keys, revocation, imports, pages).
  \<^item> \<open>Workflow\<close> (\<open>workflow/service.go\<close>): the tables and a deterministic saga that every committed call follows.
  \<^item> \<open>TaskExecution\<close> (\<open>taskqueue/execution.go\<close>, \<open>store.go\<close>, \<open>timeout.go\<close>, \<open>taskqueue.go\<close>) with
    \<open>TaskLifecycle\<close>, and \<open>Scheduler\<close> (\<open>taskqueue/scheduler.go\<close>).
  \<^item> \<open>Dispatcher\<close> (\<open>outbox/dispatcher.go\<close>, \<open>execution_recovery.go\<close>, \<open>consumption.go\<close>) with \<open>DispatchFlow\<close>
    (lease and liveness) and \<open>OutboxHistory\<close> (invariants of everything that writes the outbox).
  \<^item> \<open>Recovery\<close> (\<open>recovery/reconciler.go\<close>) with \<open>RecoveryFlow\<close>: the scans that repair lost deliveries and
    the budget of recovery events they keep.
  \<^item> \<open>Chunking\<close> (\<open>ai/rag/chunk.go\<close>) and \<open>TypedChunking\<close> (\<open>ai/rag/typed_chunk.go\<close>) with \<open>ChunkFlow\<close>: documents
    cut into chunks for retrieval; sizes, overlaps and the text that is kept.
  \<^item> \<open>Cache\<close> (\<open>platform/cache/json.go\<close>): the two-level read-model cache behind \<open>Breaker\<close>.
  \<^item> \<open>SearchIndex\<close> (\<open>search/index.go\<close>, the control plane of \<open>search/backfill.go\<close>): projections and index generations;
    \<open>Projector\<close> (\<open>search/projector.go\<close>): the consumer of search events, with \<open>SearchFlow\<close> (out-of-order events do
    no harm) and \<open>Backfill\<close> (snapshots; no file is left out).
  \<^item> \<open>TextSearch\<close> (\<open>textsearch/lexical.go\<close>): the terms of texts and queries; \<open>SearchFencing\<close> (\<open>search/external.go\<close>,
    \<open>external_fencing.go\<close>, \<open>qdrant_fencing.go\<close>): the update script and searches of Elasticsearch, the deletion
    records and searches of Qdrant, and how both agree with PostgreSQL about what is deleted.

  \<^bold>\<open>State and operations.\<close>  A table is a list of rows of a record with the struct's columns; a unique index
  is a check of the insert or update.  A transaction is a function from \<open>db\<close> to \<open>go_error + 'a \<times> db\<close>: an
  error rolls back, the caller keeps the old database.  The locks the code takes order the transactions
  on a row, so each transaction is one step at the clock reading it takes as an argument; concurrency is
  the order of steps, in inductive relations (\<open>outbox_step\<close>, \<open>exec_step\<close>, the upload and sharing
  relations) whose states carry what a worker remembers from an earlier read.  Two places are coarser than
  the code: the reads of \<open>delete_check\<close> (separate statements) see one state, and the count and the update of
  \<open>refresh_legacy_event_status\<close>, two statements of one transaction at READ COMMITTED, see one state, so what
  is said of published events holds between transactions that do not overlap there.  Identifiers are 128-bit
  words from a supply (\<open>cx_mint\<close>); freshness is a named hypothesis.  Everything outside the repository is
  a parameter: the object-storage client, the broker, password and token libraries, SHA-256 and HMAC,
  the database collation.  Machine integers are wrapped at their width where a property depends on it
  (\<open>multipart_plan\<close> on 64 bits, \<open>int32\<close> counts of a message) and unbounded elsewhere.

  \<^bold>\<open>Lemmas.\<close>  Each component has the frame facts of its operations (collected in \<open>frame_simps\<close>), the
  preservation of its invariant by every operation (\<open>inv_intros\<close>), inversion rules that turn a successful
  transaction into its steps (\<open>attempt_eq_Inr_iff\<close> and the E rules), and then its properties, those with hypotheses with a
  witness each: the theorem applied to a concrete state.  The properties are the theorems whose text
  begins with \<open>C<n>\<close>.

  \<^bold>\<open>Termination.\<close>  \<open>path_up\<close> and \<open>descendants\<close> (recursive SQL) and \<open>list_uploads\<close> are partial functions;
  \<open>recursive_queries_return\<close> and \<open>list_uploads_returns\<close> show that they return on every reachable state.
  The scan of a backfill takes a list with what surrounds each turn; \<open>backfill_scan_ends\<close> shows that one turn
  more than there are files is enough.  All other loops are structural or have a measure.  Retry loops on lost races
  (\<open>children_page_retry\<close>) are bounded by the code's own three attempts.

  \<^bold>\<open>Not modelled.\<close>  The HTTP and gRPC layers, generated code (\<open>contract\<close>, \<open>ai/pb\<close>), configuration,
  bootstrap, metrics, tracing and logging: glue without logic of its own.  The rest of the AI service (\<open>ai\<close>) and
  the media package: their logic is in providers outside the repository.  Of the search
  backends: the HTTP transport, index mappings, vectors, query texts and the fan-out over several backends; the projector
  takes the external index as a parameter.  The embedding cache, the Redis lock and the service registry:
  wrappers over Redis and etcd commands.  Of the packages that are modelled: the read caches and rate limits of \<open>drive\<close> and
  \<open>identity\<close> (switched off in the model), the connection handling of the broker, the goroutines that drive
  polling and renewal (their steps are modelled), foreign keys and failures of the database connection.
\<close>

end
